(* ===== verification/Prelude.thy ===== *)
theory Prelude
  imports Main "HOL-Library.Signed_Division" "HOL-Library.Monad_Syntax"
begin

text \<open>
  Shared vocabulary of the development.

  Go's fixed-width integers are mathematical integers together with the explicit
  wrap-around functions \<open>i64\<close>, \<open>u64\<close> and \<open>i32\<close>: a Go expression \<open>a + b\<close> of type
  \<open>int64\<close> is written \<open>i64 (a + b)\<close>, so every place where the code can overflow
  silently is visible in the model. Go's integer division truncates towards zero and is
  the \<open>sdiv\<close>/\<open>smod\<close> pair of the signed-division library.

  A Go function that can panic returns an \<open>option\<close>, with \<open>None\<close> for the panic, and is
  composed in the option monad. A Go \<open>(value, bool)\<close> or \<open>(value, error)\<close> result is an
  \<open>option\<close> or a sum. A Go \<open>map[K]int64\<close>, whose missing keys read as zero, is a partial
  map read through \<open>get0\<close>.
\<close>

section \<open>Collections of facts\<close>

named_theorems wrap_simps \<open>removal of wrap-around on representable values\<close>
named_theorems map_simps \<open>reading and writing Go maps\<close>

section \<open>Machine integers\<close>

type_synonym int64 = int
type_synonym int32 = int
type_synonym uint64 = int
type_synonym asset = string
type_synonym timestamp = int

abbreviation MaxInt64 :: int where "MaxInt64 \<equiv> 9223372036854775807"
abbreviation MinInt64 :: int where "MinInt64 \<equiv> -9223372036854775808"
abbreviation MaxInt32 :: int where "MaxInt32 \<equiv> 2147483647"
abbreviation two63 :: int where "two63 \<equiv> 9223372036854775808"
abbreviation two64 :: int where "two64 \<equiv> 18446744073709551616"

definition is_i64 :: "int \<Rightarrow> bool" where
  "is_i64 x \<longleftrightarrow> MinInt64 \<le> x \<and> x \<le> MaxInt64"

definition is_u64 :: "int \<Rightarrow> bool" where
  "is_u64 x \<longleftrightarrow> 0 \<le> x \<and> x < two64"

definition i64 :: "int \<Rightarrow> int64" where
  "i64 x = (x + two63) mod two64 - two63"

definition u64 :: "int \<Rightarrow> uint64" where
  "u64 x = x mod two64"

definition i32 :: "int \<Rightarrow> int32" where
  "i32 x = (x + 2147483648) mod 4294967296 - 2147483648"

lemma is_i64I [intro]: "MinInt64 \<le> x \<Longrightarrow> x \<le> MaxInt64 \<Longrightarrow> is_i64 x"
  by (simp add: is_i64_def)

lemma is_i64D: "is_i64 x \<Longrightarrow> MinInt64 \<le> x" "is_i64 x \<Longrightarrow> x \<le> MaxInt64"
  by (simp_all add: is_i64_def)

lemma i64_id [wrap_simps]: "is_i64 x \<Longrightarrow> i64 x = x"
  by (simp add: i64_def is_i64_def)

lemma i64_range [simp, intro]: "is_i64 (i64 x)"
proof -
  have "0 \<le> (x + two63) mod two64" "(x + two63) mod two64 < two64"
    by simp_all
  then show ?thesis by (simp add: i64_def is_i64_def)
qed

lemma i64_fixed_iff: "i64 x = x \<longleftrightarrow> is_i64 x"
  using i64_range [of x] by (metis i64_id)

lemma i64_wrap: "MaxInt64 < x \<Longrightarrow> x < two64 \<Longrightarrow> i64 x = x - two64"
proof -
  assume x: "MaxInt64 < x" "x < two64"
  have "(x + two63) mod two64 = (x - two63 + two64) mod two64" by (simp add: algebra_simps)
  also have "\<dots> = x - two63" using x by (subst mod_add_self2) (simp add: mod_pos_pos_trivial)
  finally show ?thesis by (simp add: i64_def)
qed

lemma i64_zero [simp]: "i64 0 = 0"
  by (simp add: i64_def)

lemma i64_congruent: "\<exists>k. i64 x = x + k * two64"
proof
  show "i64 x = x + (- ((x + two63) div two64)) * two64"
    by (simp add: i64_def minus_mult_div_eq_mod [symmetric])
qed

lemma i64_add_cong: "i64 (i64 a + b) = i64 (a + b)"
  by (simp add: i64_def mod_simps algebra_simps)

lemma i64_add_cong_right: "i64 (a + i64 b) = i64 (a + b)"
  using i64_add_cong [of b a] by (simp add: add.commute)

lemma u64_id [wrap_simps]: "is_u64 x \<Longrightarrow> u64 x = x"
  by (simp add: u64_def is_u64_def)

lemma u64_range [simp, intro]: "is_u64 (u64 x)"
  by (simp add: u64_def is_u64_def)

lemma i32_id [wrap_simps]: "-2147483648 \<le> x \<Longrightarrow> x \<le> MaxInt32 \<Longrightarrow> i32 x = x"
  by (simp add: i32_def)

lemma is_i64_nonneg_is_u64: "0 \<le> x \<Longrightarrow> is_i64 x \<Longrightarrow> is_u64 x"
  by (simp add: is_i64_def is_u64_def)

section \<open>Truncating division\<close>

lemma sdiv_nonneg_eq: "0 \<le> a \<Longrightarrow> 0 < b \<Longrightarrow> a sdiv b = a div b" for a b :: int
  by (cases "a = 0") (simp_all add: signed_divide_int_def)

lemma le_div_int_iff: "0 < b \<Longrightarrow> k \<le> a div b \<longleftrightarrow> k * b \<le> a" for a b k :: int
proof
  assume b: "0 < b" and "k \<le> a div b"
  then have "k * b \<le> a div b * b" by simp
  also have "\<dots> \<le> a" using b pos_mod_sign [of b a] div_mult_mod_eq [of a b] by linarith
  finally show "k * b \<le> a" .
next
  assume "0 < b" and "k * b \<le> a"
  then show "k \<le> a div b" using zdiv_mono1 [of "k * b" a b] by simp
qed

lemma div_int_less_iff: "0 < b \<Longrightarrow> a div b < k \<longleftrightarrow> a < k * b" for a b k :: int
  using le_div_int_iff [of b k a] by linarith

lemma sdiv_abs: "0 < b \<Longrightarrow> \<bar>a sdiv b\<bar> = \<bar>a\<bar> div b" for a b :: int
  by (simp add: signed_divide_int_def abs_mult sgn_if pos_imp_zdiv_nonneg_iff)

lemma sdiv_by_sign:
  "0 < b \<Longrightarrow> a sdiv b = (if a < 0 then - (\<bar>a\<bar> div b) else \<bar>a\<bar> div b)" for a b :: int
  by (auto simp: signed_divide_int_def sgn_if)

lemma smod_by_sign:
  "0 < b \<Longrightarrow> a smod b = (if a < 0 then - (\<bar>a\<bar> mod b) else \<bar>a\<bar> mod b)" for a b :: int
  by (auto simp: signed_modulo_int_def sgn_if)

lemma abs_smod_less: "0 < b \<Longrightarrow> \<bar>a smod b\<bar> < b" for a b :: int
  by (simp add: smod_by_sign)

lemma sdiv_nonneg: "0 \<le> a \<Longrightarrow> 0 < b \<Longrightarrow> 0 \<le> a sdiv b" for a b :: int
  by (simp add: sdiv_nonneg_eq pos_imp_zdiv_nonneg_iff)

lemma sdiv_mono: "a \<le> a' \<Longrightarrow> 0 < b \<Longrightarrow> a sdiv b \<le> a' sdiv b" for a a' b :: int
proof (cases "a < 0 \<and> a' < 0")
  case True
  moreover assume "a \<le> a'" "0 < b"
  ultimately show ?thesis by (simp add: sdiv_by_sign zdiv_mono1)
next
  case False
  moreover assume le: "a \<le> a'" "0 < b"
  moreover from le have "0 \<le> \<bar>a\<bar> div b" by (simp add: pos_imp_zdiv_nonneg_iff)
  moreover from le have "0 \<le> \<bar>a'\<bar> div b" by (simp add: pos_imp_zdiv_nonneg_iff)
  ultimately show ?thesis by (auto simp: sdiv_by_sign zdiv_mono1)
qed

lemma sdiv_le_divisor_bound:
  "\<bar>a\<bar> \<le> c * b \<Longrightarrow> 0 < b \<Longrightarrow> \<bar>a sdiv b\<bar> \<le> c" for a b c :: int
  using zdiv_mono1 [of "\<bar>a\<bar>" "c * b" b] by (simp add: sdiv_abs)

section \<open>Go maps with numeric values\<close>

definition get0 :: "('k \<rightharpoonup> int) \<Rightarrow> 'k \<Rightarrow> int" where
  "get0 m k = (case m k of None \<Rightarrow> 0 | Some v \<Rightarrow> v)"

lemma get0_empty [simp, map_simps]: "get0 Map.empty k = 0"
  by (simp add: get0_def)

lemma get0_upd [simp, map_simps]: "get0 (m(k \<mapsto> v)) k' = (if k' = k then v else get0 m k')"
  by (simp add: get0_def)

lemma get0_Some: "m k = Some v \<Longrightarrow> get0 m k = v"
  by (simp add: get0_def)

section \<open>Lists\<close>

lemma sum_list_map_update:
  "distinct xs \<Longrightarrow> x \<in> set xs \<Longrightarrow>
   (\<Sum>y\<leftarrow>xs. if y = x then v else f y) = (\<Sum>y\<leftarrow>xs. f y) - f x + v" for f :: "'a \<Rightarrow> int"
proof (induction xs)
  case (Cons a xs)
  show ?case
  proof (cases "a = x")
    case True
    with Cons.prems have "map (\<lambda>y. if y = x then v else f y) xs = map f xs" by auto
    then have "(\<Sum>y\<leftarrow>xs. if y = x then v else f y) = sum_list (map f xs)" by (rule arg_cong)
    with True show ?thesis by simp
  next
    case False
    with Cons show ?thesis by simp
  qed
qed simp

lemma sum_list_nonneg_int: "(\<And>x. x \<in> set xs \<Longrightarrow> 0 \<le> f x) \<Longrightarrow> 0 \<le> (\<Sum>x\<leftarrow>xs. f x)"
  for f :: "'a \<Rightarrow> int"
  by (induction xs) auto

lemma member_le_sum_list_int:
  "x \<in> set xs \<Longrightarrow> (\<And>y. 0 \<le> f y) \<Longrightarrow> f x \<le> (\<Sum>y\<leftarrow>xs. f y)" for f :: "'a \<Rightarrow> int"
proof (induction xs)
  case (Cons a xs)
  have "0 \<le> (\<Sum>y\<leftarrow>xs. f y)" using Cons.prems(2) by (intro sum_list_nonneg_int)
  moreover from Cons have "x = a \<or> f x \<le> (\<Sum>y\<leftarrow>xs. f y)" by auto
  ultimately show ?case using Cons.prems(2) [of a] by auto
qed simp

lemma sum_list_remove1:
  "x \<in> set xs \<Longrightarrow> (\<Sum>y\<leftarrow>remove1 x xs. f y) = (\<Sum>y\<leftarrow>xs. f y) - f x" for f :: "'a \<Rightarrow> int"
  by (induction xs) auto

lemma remove1_Nil_iff: "x \<in> set xs \<Longrightarrow> remove1 x xs = [] \<longleftrightarrow> xs = [x]"
  by (cases xs) auto

end
