(* ===== verification/Go_Math.thy ===== *)
theory Go_Math
  imports Prelude
begin

unbundle bit_operations_syntax

text \<open>
  The exact integer arithmetic of \<open>types/math.go\<close> and the price domains of
  \<open>types/price_domain.go\<close>. Every routine is written with the 64-bit primitives the code
  uses (\<open>bits.Mul64\<close>, \<open>bits.Div64\<close>, \<open>bits.Add64\<close>), and the lemmas identify each with
  the mathematical quotient it is meant to compute.
\<close>

section \<open>Primitives of math/bits\<close>

definition Mul64 :: "uint64 \<Rightarrow> uint64 \<Rightarrow> uint64 \<times> uint64" where
  "Mul64 a b = ((a * b) div two64, (a * b) mod two64)"

text \<open>\<open>bits.Div64\<close> panics when the divisor is zero or the quotient does not fit.\<close>

definition Div64 :: "uint64 \<Rightarrow> uint64 \<Rightarrow> uint64 \<Rightarrow> (uint64 \<times> uint64) option" where
  "Div64 hi lo y =
     (if y = 0 \<or> y \<le> hi then None
      else Some ((hi * two64 + lo) div y, (hi * two64 + lo) mod y))"

definition Add64 :: "uint64 \<Rightarrow> uint64 \<Rightarrow> uint64 \<Rightarrow> uint64 \<times> uint64" where
  "Add64 a b carry = (u64 (a + b + carry), (a + b + carry) div two64)"

section \<open>Checked arithmetic\<close>

definition TryAdd :: "int64 \<Rightarrow> int64 \<Rightarrow> int64 option" where
  "TryAdd a b =
     (if b > 0 \<and> a > i64 (MaxInt64 - b) \<or> b < 0 \<and> a < i64 (MinInt64 - b)
      then None else Some (i64 (a + b)))"

definition TrySub :: "int64 \<Rightarrow> int64 \<Rightarrow> int64 option" where
  "TrySub a b = (if b = MinInt64 then None else TryAdd a (i64 (- b)))"

definition unsignedAbs :: "int64 \<Rightarrow> uint64" where
  "unsignedAbs x = (if x < 0 then u64 (- u64 x) else u64 x)"

definition TryMulDiv :: "int64 \<Rightarrow> int64 \<Rightarrow> int64 \<Rightarrow> int64 option" where
  "TryMulDiv a b c =
     (if c \<le> 0 then None
      else
        let negative = (a < 0) \<noteq> (b < 0);
            (hi, lo) = Mul64 (unsignedAbs a) (unsignedAbs b);
            uc = u64 c
        in if hi \<ge> uc then None
           else case Div64 hi lo uc of
             None \<Rightarrow> None
           | Some (quo, _) \<Rightarrow>
               if negative then
                 (if quo > two63 then None
                  else if quo = two63 then Some MinInt64
                  else Some (i64 (- i64 quo)))
               else if quo > MaxInt64 then None
               else Some (i64 quo))"

definition MulDiv :: "int64 \<Rightarrow> int64 \<Rightarrow> int64 \<Rightarrow> int64 option" where
  "MulDiv a b c = TryMulDiv a b c"

definition TryAbsMulDiv :: "int64 \<Rightarrow> int64 \<Rightarrow> int64 \<Rightarrow> int64 option" where
  "TryAbsMulDiv a b c =
     (if c \<le> 0 then None
      else
        let (hi, lo) = Mul64 (unsignedAbs a) (unsignedAbs b);
            uc = u64 c
        in if hi \<ge> uc then None
           else case Div64 hi lo uc of
             None \<Rightarrow> None
           | Some (quo, _) \<Rightarrow> if quo > MaxInt64 then None else Some (i64 quo))"

definition AbsMulDiv :: "int64 \<Rightarrow> int64 \<Rightarrow> int64 \<Rightarrow> int64 option" where
  "AbsMulDiv a b c = TryAbsMulDiv a b c"

definition TryPriceChangeMulDiv :: "int64 \<Rightarrow> int64 \<Rightarrow> int64 \<Rightarrow> int64 \<Rightarrow> int64 option" where
  "TryPriceChangeMulDiv qty toPrice fromPrice precision =
     (if precision \<le> 0 then None
      else
        let differenceNegative = toPrice < fromPrice;
            differenceMagnitude =
              (if differenceNegative then u64 (u64 fromPrice - u64 toPrice)
               else u64 (u64 toPrice - u64 fromPrice));
            negative = (qty < 0) \<noteq> differenceNegative;
            (hi, lo) = Mul64 (unsignedAbs qty) differenceMagnitude;
            uc = u64 precision
        in if hi \<ge> uc then None
           else case Div64 hi lo uc of
             None \<Rightarrow> None
           | Some (quo, _) \<Rightarrow>
               if negative then
                 (if quo > two63 then None
                  else if quo = two63 then Some MinInt64
                  else Some (i64 (- i64 quo)))
               else if quo > MaxInt64 then None
               else Some (i64 quo))"

definition PriceChangeMulDiv :: "int64 \<Rightarrow> int64 \<Rightarrow> int64 \<Rightarrow> int64 \<Rightarrow> int64 option" where
  "PriceChangeMulDiv qty toPrice fromPrice precision =
     TryPriceChangeMulDiv qty toPrice fromPrice precision"

definition TryMulBps :: "int64 \<Rightarrow> int64 \<Rightarrow> int64 option" where
  "TryMulBps value bps = TryMulDiv value bps 10000"

definition WeightedAverage :: "int64 \<Rightarrow> int64 \<Rightarrow> int64 \<Rightarrow> int64 \<Rightarrow> int64 option" where
  "WeightedAverage w1 v1 w2 v2 =
     (if w1 < 0 \<or> v1 < 0 \<or> w2 < 0 \<or> v2 < 0 then None
      else
        let total = u64 (u64 w1 + u64 w2)
        in if total = 0 then None
           else
             let (hi1, lo1) = Mul64 (u64 w1) (u64 v1);
                 (hi2, lo2) = Mul64 (u64 w2) (u64 v2);
                 (lo, carry) = Add64 lo1 lo2 0;
                 (hi, _) = Add64 hi1 hi2 carry
             in if hi \<ge> total then None
                else case Div64 hi lo total of
                  None \<Rightarrow> None
                | Some (quo, _) \<Rightarrow> if quo > MaxInt64 then None else Some (i64 quo))"

definition AddAmount :: "int64 \<Rightarrow> int64 \<Rightarrow> int64 option" where
  "AddAmount a b = TryAdd a b"

section \<open>Price domains\<close>

datatype PriceSignPolicy = PositivePrice | NonNegativePrice | SignedPrice

record PriceDomain =
  signPolicy :: PriceSignPolicy
  tickSize :: int64

definition PriceDomain_Validate :: "PriceDomain \<Rightarrow> int64 \<Rightarrow> bool" where
  "PriceDomain_Validate d price =
     (if tickSize d \<le> 0 \<or> price smod tickSize d \<noteq> 0 then False
      else case signPolicy d of
        PositivePrice \<Rightarrow> price > 0
      | NonNegativePrice \<Rightarrow> price \<ge> 0
      | SignedPrice \<Rightarrow> True)"

definition Midpoint :: "int64 \<Rightarrow> int64 \<Rightarrow> int64" where
  "Midpoint a b =
     (let floorMean = i64 ((a AND b) + drop_bit 1 (a XOR b))
      in if floorMean < 0 \<and> (a XOR b) AND 1 \<noteq> 0 then i64 (floorMean + 1) else floorMean)"

section \<open>Checked addition and subtraction\<close>

lemma TryAdd_eq: "is_i64 a \<Longrightarrow> is_i64 b \<Longrightarrow> TryAdd a b = (if is_i64 (a + b) then Some (a + b) else None)"
  by (auto simp: TryAdd_def is_i64_def i64_def)

lemma TrySub_eq: "is_i64 a \<Longrightarrow> is_i64 b \<Longrightarrow> b \<noteq> MinInt64 \<Longrightarrow>
   TrySub a b = (if is_i64 (a - b) then Some (a - b) else None)"
  by (auto simp: TrySub_def TryAdd_def is_i64_def i64_def)

lemma TrySub_Some: "is_i64 a \<Longrightarrow> is_i64 b \<Longrightarrow> TrySub a b = Some c \<Longrightarrow> c = a - b \<and> is_i64 c"
proof (cases "b = MinInt64")
  case False
  assume "is_i64 a" "is_i64 b" "TrySub a b = Some c"
  with False show ?thesis by (simp add: TrySub_eq split: if_splits)
qed (simp add: TrySub_def)

lemma TryAdd_Some: "is_i64 a \<Longrightarrow> is_i64 b \<Longrightarrow> TryAdd a b = Some c \<longleftrightarrow> c = a + b \<and> is_i64 c"
  by (auto simp: TryAdd_eq)

section \<open>The 128-bit quotients\<close>

lemma unsignedAbs_eq:
  assumes "is_i64 x"
  shows "unsignedAbs x = \<bar>x\<bar>"
proof (cases "x < 0")
  case True
  have "(- (x mod two64)) mod two64 = (- x) mod two64" by (rule mod_minus_eq)
  with True assms show ?thesis by (simp add: unsignedAbs_def u64_def is_i64_def)
next
  case False
  with assms show ?thesis by (simp add: unsignedAbs_def u64_def is_i64_def)
qed

text \<open>The guard \<open>hi >= uc\<close> says exactly that the quotient has more than 64 bits, so the
  panic of \<open>bits.Div64\<close> is unreachable behind it.\<close>

lemma hi_guard: "0 < (c::int) \<Longrightarrow> c \<le> p div two64 \<longleftrightarrow> two64 \<le> p div c"
  by (simp add: le_div_int_iff mult.commute)

lemma Div64_Mul64:
  "0 < c \<Longrightarrow> \<not> c \<le> p div two64 \<Longrightarrow>
   Div64 (p div two64) (p mod two64) c = Some (p div c, p mod c)"
  by (simp add: Div64_def)

definition signed_result :: "bool \<Rightarrow> int \<Rightarrow> int64 option" where
  "signed_result neg q =
     (if neg then (if q > two63 then None
                   else if q = two63 then Some MinInt64 else Some (i64 (- i64 q)))
      else if q > MaxInt64 then None else Some (i64 q))"

lemma signed_result_eq:
  "0 \<le> q \<Longrightarrow> signed_result neg q =
     (if is_i64 (if neg then - q else q) then Some (if neg then - q else q) else None)"
  by (auto simp: signed_result_def is_i64_def i64_id)

lemma mul_quotient:
  assumes "0 < c" "is_i64 c" "0 \<le> m" "0 \<le> n"
  shows "(let (hi, lo) = Mul64 m n
          in if hi \<ge> u64 c then None
             else case Div64 hi lo (u64 c) of
               None \<Rightarrow> None | Some (quo, _) \<Rightarrow> f quo) =
         (if two64 \<le> m * n div c then None else f (m * n div c))"
proof -
  have c: "u64 c = c" using assms by (simp add: u64_id is_i64_nonneg_is_u64)
  show ?thesis
    using assms by (simp add: c Mul64_def hi_guard Div64_Mul64)
qed

lemma sdiv_of_magnitudes:
  fixes a b c :: int
  assumes "0 < c"
  shows "a * b sdiv c =
    (if (a < 0) \<noteq> (b < 0) then - (\<bar>a\<bar> * \<bar>b\<bar> div c) else \<bar>a\<bar> * \<bar>b\<bar> div c)"
proof (cases "a * b = 0")
  case False
  then have "a * b < 0 \<longleftrightarrow> (a < 0) \<noteq> (b < 0)"
    by (auto simp: mult_less_0_iff)
  with assms show ?thesis by (simp add: sdiv_by_sign abs_mult)
qed auto

lemma magnitude_nonneg: "0 < c \<Longrightarrow> 0 \<le> \<bar>a\<bar> * \<bar>b\<bar> div c" for a b c :: int
  by (simp add: pos_imp_zdiv_nonneg_iff)

lemma signed_result_sdiv:
  assumes "0 < c"
  shows "(if two64 \<le> \<bar>a\<bar> * \<bar>b\<bar> div c then None
          else signed_result ((a < 0) \<noteq> (b < 0)) (\<bar>a\<bar> * \<bar>b\<bar> div c)) =
         (if is_i64 (a * b sdiv c) then Some (a * b sdiv c) else None)"
proof -
  define q where "q = \<bar>a\<bar> * \<bar>b\<bar> div c"
  have "0 \<le> q" using magnitude_nonneg [OF assms] by (simp add: q_def)
  then show ?thesis
    unfolding sdiv_of_magnitudes [OF assms] q_def [symmetric]
    by (auto simp: signed_result_eq is_i64_def)
qed

lemma TryMulDiv_eq:
  assumes "is_i64 a" "is_i64 b" "is_i64 c"
  shows "TryMulDiv a b c =
    (if 0 < c \<and> is_i64 (a * b sdiv c) then Some (a * b sdiv c) else None)"
proof (cases "0 < c")
  case True
  have "TryMulDiv a b c =
    (let (hi, lo) = Mul64 (unsignedAbs a) (unsignedAbs b)
     in if hi \<ge> u64 c then None
        else case Div64 hi lo (u64 c) of
          None \<Rightarrow> None | Some (quo, _) \<Rightarrow> signed_result ((a < 0) \<noteq> (b < 0)) quo)"
    using True by (simp add: TryMulDiv_def signed_result_def Let_def split: prod.split option.split)
  also have "\<dots> = (if two64 \<le> \<bar>a\<bar> * \<bar>b\<bar> div c then None
          else signed_result ((a < 0) \<noteq> (b < 0)) (\<bar>a\<bar> * \<bar>b\<bar> div c))"
    using True assms by (subst mul_quotient) (simp_all add: unsignedAbs_eq)
  finally show ?thesis using True by (simp add: signed_result_sdiv)
qed (simp add: TryMulDiv_def)

lemmas MulDiv_eq = TryMulDiv_eq [folded MulDiv_def]

lemma MulDiv_nonneg_Some:
  "MulDiv a b c = Some r \<Longrightarrow> is_i64 a \<Longrightarrow> is_i64 b \<Longrightarrow> is_i64 c \<Longrightarrow> 0 \<le> a \<Longrightarrow> 0 \<le> b \<Longrightarrow>
   0 < c \<and> r = a * b div c \<and> 0 \<le> r \<and> is_i64 r"
  by (auto simp: MulDiv_eq sdiv_nonneg_eq pos_imp_zdiv_nonneg_iff split: if_splits)

lemma TryAbsMulDiv_eq:
  assumes "is_i64 a" "is_i64 b" "is_i64 c"
  shows "TryAbsMulDiv a b c =
    (if 0 < c \<and> is_i64 (\<bar>a * b\<bar> div c) then Some (\<bar>a * b\<bar> div c) else None)"
proof (cases "0 < c")
  case True
  have "TryAbsMulDiv a b c =
    (if two64 \<le> \<bar>a\<bar> * \<bar>b\<bar> div c then None
     else (\<lambda>quo. if quo > MaxInt64 then None else Some (i64 quo)) (\<bar>a\<bar> * \<bar>b\<bar> div c))"
    using True assms
    by (subst mul_quotient [symmetric]) (simp_all add: TryAbsMulDiv_def unsignedAbs_eq Let_def)
  then show ?thesis
    using True magnitude_nonneg [OF True, of a b] by (auto simp: is_i64_def i64_id abs_mult)
qed (simp add: TryAbsMulDiv_def)

lemma price_difference_magnitude:
  assumes "is_i64 x" "is_i64 y" "x \<le> y"
  shows "u64 (u64 y - u64 x) = y - x"
proof -
  have "u64 (u64 y - u64 x) = (y - x) mod two64" by (simp add: u64_def mod_diff_eq)
  with assms show ?thesis by (simp add: is_i64_def)
qed

lemma TryPriceChangeMulDiv_eq:
  assumes "is_i64 qty" "is_i64 t" "is_i64 f" "is_i64 p"
  shows "TryPriceChangeMulDiv qty t f p =
    (if 0 < p \<and> is_i64 (qty * (t - f) sdiv p) then Some (qty * (t - f) sdiv p) else None)"
proof (cases "0 < p")
  case True
  have mag: "(if t < f then u64 (u64 f - u64 t) else u64 (u64 t - u64 f)) = \<bar>t - f\<bar>"
    using assms by (auto simp: price_difference_magnitude)
  have "TryPriceChangeMulDiv qty t f p =
    (let (hi, lo) = Mul64 (unsignedAbs qty) \<bar>t - f\<bar>
     in if hi \<ge> u64 p then None
        else case Div64 hi lo (u64 p) of
          None \<Rightarrow> None | Some (quo, _) \<Rightarrow> signed_result ((qty < 0) \<noteq> (t - f < 0)) quo)"
    unfolding mag [symmetric] using True
    by (simp add: TryPriceChangeMulDiv_def signed_result_def Let_def split: prod.split option.split)
  also have "\<dots> = (if two64 \<le> \<bar>qty\<bar> * \<bar>t - f\<bar> div p then None
          else signed_result ((qty < 0) \<noteq> (t - f < 0)) (\<bar>qty\<bar> * \<bar>t - f\<bar> div p))"
    using True assms by (subst mul_quotient) (simp_all add: unsignedAbs_eq)
  finally show ?thesis using True by (simp add: signed_result_sdiv)
qed (simp add: TryPriceChangeMulDiv_def)


section \<open>Weighted average\<close>

lemma wide_sum:
  "0 \<le> p \<Longrightarrow> 0 \<le> q \<Longrightarrow> p + q < two64 * two64 \<Longrightarrow>
   (let (hi1, lo1) = (p div two64, p mod two64);
        (hi2, lo2) = (q div two64, q mod two64);
        (lo, carry) = Add64 lo1 lo2 0;
        (hi, _) = Add64 hi1 hi2 carry
    in f hi lo) = f ((p + q) div two64) ((p + q) mod two64)" for p q :: int
proof -
  assume a: "0 \<le> p" "0 \<le> q" "p + q < two64 * two64"
  have carry: "(p + q) div two64 = p div two64 + q div two64 + (p mod two64 + q mod two64) div two64"
    by (rule div_add1_eq)
  have "0 \<le> (p + q) div two64" "(p + q) div two64 < two64"
    using a by (simp_all add: pos_imp_zdiv_nonneg_iff div_int_less_iff)
  then have "u64 ((p + q) div two64) = (p + q) div two64" by (simp add: u64_def)
  then show ?thesis
    by (simp add: Add64_def carry u64_def mod_add_eq)
qed

lemma convex_bounds:
  fixes w1 w2 v1 v2 :: int
  assumes "0 \<le> w1" "0 \<le> w2" "0 < w1 + w2"
  shows "min v1 v2 \<le> (w1 * v1 + w2 * v2) div (w1 + w2)"
    and "(w1 * v1 + w2 * v2) div (w1 + w2) \<le> max v1 v2"
proof -
  have "min v1 v2 * (w1 + w2) \<le> w1 * v1 + w2 * v2"
    using assms mult_left_mono [of "min v1 v2" v1 w1] mult_left_mono [of "min v1 v2" v2 w2]
    by (simp add: algebra_simps)
  then show "min v1 v2 \<le> (w1 * v1 + w2 * v2) div (w1 + w2)"
    using assms by (simp add: le_div_int_iff)
  have "w1 * v1 + w2 * v2 \<le> max v1 v2 * (w1 + w2)"
    using assms mult_left_mono [of v1 "max v1 v2" w1] mult_left_mono [of v2 "max v1 v2" w2]
    by (simp add: algebra_simps)
  then have "(w1 * v1 + w2 * v2) div (w1 + w2) \<le> max v1 v2 * (w1 + w2) div (w1 + w2)"
    using assms by (intro zdiv_mono1) simp_all
  then show "(w1 * v1 + w2 * v2) div (w1 + w2) \<le> max v1 v2" using assms by simp
qed

lemma WeightedAverage_eq:
  assumes "is_i64 w1" "is_i64 v1" "is_i64 w2" "is_i64 v2"
    and nonneg: "0 \<le> w1" "0 \<le> v1" "0 \<le> w2" "0 \<le> v2" and total: "0 < w1 + w2"
  shows "WeightedAverage w1 v1 w2 v2 = Some ((w1 * v1 + w2 * v2) div (w1 + w2))"
proof -
  define p where "p = w1 * v1"
  define q where "q = w2 * v2"
  have u: "u64 w1 = w1" "u64 v1 = v1" "u64 w2 = w2" "u64 v2 = v2" "u64 (w1 + w2) = w1 + w2"
    using assms by (simp_all add: u64_def is_i64_def)
  have bounds: "w1 * v1 \<le> MaxInt64 * MaxInt64" "w2 * v2 \<le> MaxInt64 * MaxInt64"
    using assms mult_mono [of w1 MaxInt64 v1 MaxInt64] mult_mono [of w2 MaxInt64 v2 MaxInt64]
    by (simp_all add: is_i64_def)
  then have pq: "0 \<le> p" "0 \<le> q" "p + q < two64 * two64"
    using nonneg by (simp_all add: p_def q_def)
  have quo: "(p + q) div (w1 + w2) \<le> MaxInt64"
    using convex_bounds(2) [of w1 w2 v1 v2] assms by (simp add: p_def q_def is_i64_def)
  then have guard: "\<not> w1 + w2 \<le> (p + q) div two64" using total by (simp add: hi_guard)
  have pos: "0 \<le> (p + q) div (w1 + w2)" using pq total by (simp add: pos_imp_zdiv_nonneg_iff)
  define F where "F hi lo = (if hi \<ge> w1 + w2 then None else case Div64 hi lo (w1 + w2) of
      None \<Rightarrow> None | Some (quo, _) \<Rightarrow> if quo > MaxInt64 then None else Some (i64 quo))"
    for hi lo
  have "WeightedAverage w1 v1 w2 v2 =
    (let (hi1, lo1) = (p div two64, p mod two64);
         (hi2, lo2) = (q div two64, q mod two64);
         (lo, carry) = Add64 lo1 lo2 0;
         (hi, _) = Add64 hi1 hi2 carry
     in F hi lo)"
    using nonneg total unfolding WeightedAverage_def F_def
    by (simp add: u Mul64_def p_def q_def Let_def)
  also have "\<dots> = F ((p + q) div two64) ((p + q) mod two64)" by (rule wide_sum [OF pq])
  also have "\<dots> = Some ((p + q) div (w1 + w2))"
    using guard total quo pos by (simp add: F_def Div64_Mul64 i64_id is_i64_def)
  finally show ?thesis by (simp add: p_def q_def)
qed

section \<open>Midpoint\<close>

lemma and_xor_sum: "a + b = 2 * (a AND b) + (a XOR b)" for a b :: int
proof -
  have "(a OR b) = (a AND b) + (a XOR b)"
    by (subst disjunctive_add_eq_or) (auto intro!: bit_eqI simp: bit_simps)
  then show ?thesis using plus_and_or [of a b] by simp
qed

lemma floor_mean: "(a AND b) + drop_bit 1 (a XOR b) = (a + b) div 2" for a b :: int
proof -
  have "a + b = (a XOR b) + (a AND b) * 2" using and_xor_sum [of a b] by simp
  then have "(a + b) div 2 = (a AND b) + (a XOR b) div 2"
    by (simp only: div_mult_self1)
  then show ?thesis by (simp add: drop_bit_eq_div)
qed

lemma xor_low_bit: "(a XOR b) AND 1 \<noteq> 0 \<longleftrightarrow> odd (a + b)" for a b :: int
  by (simp add: and_one_eq mod2_eq_if even_xor_iff)

lemma Midpoint_eq:
  assumes "is_i64 a" "is_i64 b"
  shows "Midpoint a b = (a + b) sdiv 2"
proof -
  have r: "is_i64 ((a + b) div 2)" using assms by (auto simp: is_i64_def)
  have "Midpoint a b = (if (a + b) div 2 < 0 \<and> odd (a + b) then i64 ((a + b) div 2 + 1) else (a + b) div 2)"
    by (simp only: Midpoint_def Let_def floor_mean xor_low_bit i64_id [OF r])
  also have "\<dots> = (a + b) sdiv 2"
  proof (cases "(a + b) div 2 < 0 \<and> odd (a + b)")
    case True
    then have "is_i64 ((a + b) div 2 + 1)" using r by (auto simp: is_i64_def)
    then show ?thesis
      using True by (simp add: i64_id sdiv_by_sign) presburger
  next
    case False
    then show ?thesis by (simp add: sdiv_by_sign) presburger
  qed
  finally show ?thesis .
qed

lemma Midpoint_between:
  assumes "is_i64 a" "is_i64 b" "a \<le> b"
  shows "a \<le> Midpoint a b" "Midpoint a b \<le> b"
  using assms by (simp_all add: Midpoint_eq sdiv_by_sign) presburger+

section \<open>Price admission\<close>

lemma Validate_aligned: "PriceDomain_Validate d price \<Longrightarrow> tickSize d dvd price \<and> 0 < tickSize d"
  by (auto simp: PriceDomain_Validate_def smod_by_sign split: if_splits)


section \<open>Properties\<close>

text \<open>\<open>TryMulDiv\<close> is exact 64-bit arithmetic. For every \<open>int64\<close> input the 128-bit
  computation returns the quotient truncated towards zero exactly when the divisor is
  positive and that quotient is representable, and reports failure otherwise; no
  intermediate product overflows.\<close>

theorem TryMulDiv_exact:
  assumes "is_i64 a" "is_i64 b" "is_i64 c"
  shows "TryMulDiv a b c =
    (if 0 < c \<and> is_i64 (a * b sdiv c) then Some (a * b sdiv c) else None)"
  using assms by (rule TryMulDiv_eq)

theorem TryMulDiv_exact_witness:
  "TryMulDiv MinInt64 MaxInt64 MaxInt64 = Some MinInt64 \<and>
   TryMulDiv MaxInt64 MaxInt64 1 = None"
  using TryMulDiv_exact [of MinInt64 MaxInt64 MaxInt64] TryMulDiv_exact [of MaxInt64 MaxInt64 1]
  by (simp add: is_i64_def sdiv_by_sign)

text \<open>The futures profit primitive is exact even where the price difference itself does
  not fit in an \<open>int64\<close>: the model's modular subtraction of the two prices recovers the
  true magnitude, so the result is the truncated quotient of the unbounded product.\<close>

theorem TryPriceChangeMulDiv_exact:
  assumes "is_i64 qty" "is_i64 toPrice" "is_i64 fromPrice" "is_i64 precision"
  shows "TryPriceChangeMulDiv qty toPrice fromPrice precision =
    (if 0 < precision \<and> is_i64 (qty * (toPrice - fromPrice) sdiv precision)
     then Some (qty * (toPrice - fromPrice) sdiv precision) else None)"
  using assms by (rule TryPriceChangeMulDiv_eq)

theorem TryPriceChangeMulDiv_exact_witness:
  "TryPriceChangeMulDiv 1 MaxInt64 MinInt64 4 = Some 4611686018427387903"
  using TryPriceChangeMulDiv_exact [of 1 MaxInt64 MinInt64 4]
  by (simp add: is_i64_def sdiv_by_sign)

text \<open>The weighted average of two entry prices never panics on non-negative inputs with
  a positive total weight; it is the floor of the exact mean and stays between the two
  prices, so averaging can neither invent nor destroy basis beyond one unit.\<close>

theorem WeightedAverage_exact:
  assumes "is_i64 w1" "is_i64 v1" "is_i64 w2" "is_i64 v2"
    and "0 \<le> w1" "0 \<le> v1" "0 \<le> w2" "0 \<le> v2" "0 < w1 + w2"
  shows "\<exists>m. WeightedAverage w1 v1 w2 v2 = Some m \<and> m = (w1 * v1 + w2 * v2) div (w1 + w2) \<and>
    min v1 v2 \<le> m \<and> m \<le> max v1 v2"
  using WeightedAverage_eq [OF assms] convex_bounds [of w1 w2 v1 v2] assms by simp

theorem WeightedAverage_exact_witness:
  "\<exists>m. WeightedAverage 1 10 2 20 = Some m \<and> m = 16 \<and> min 10 20 \<le> m \<and> m \<le> max 10 20"
  using WeightedAverage_exact [of 1 10 2 20] by (simp add: is_i64_def)

text \<open>The bit-level midpoint is the mean truncated towards zero and lies between its
  arguments, for every pair of \<open>int64\<close> values including those whose sum overflows.\<close>

lemma Midpoint_truncated_mean:
  assumes "is_i64 a" "is_i64 b"
  shows "Midpoint a b = (a + b) sdiv 2 \<and> min a b \<le> Midpoint a b \<and> Midpoint a b \<le> max a b"
proof (cases "a \<le> b")
  case True
  with assms show ?thesis using Midpoint_between [of a b] by (simp add: Midpoint_eq)
next
  case False
  with assms show ?thesis using Midpoint_between [of b a] by (simp add: Midpoint_eq add.commute)
qed

end
