(* ===== verification/Order_Types.thy ===== *)
theory Order_Types
  imports Go_Math
begin

text \<open>
  The value types of \<open>types/enums.go\<close>, \<open>types/order.go\<close>, \<open>types/execution.go\<close> and
  \<open>types/market_data.go\<close> that the book, the matchers and the settlement share.

  Orders and price levels are heap objects in the code, linked by pointers. Here an order
  lives in the book's \<open>Orders\<close> store under its ID and a level in the \<open>Limits\<close> store under
  its price; a pointer to an order is its ID and a pointer to a level is its price. The
  doubly linked queue of a level (\<open>Head\<close>, \<open>Tail\<close>, \<open>Prev\<close>, \<open>Next\<close>) is the list of the
  IDs from head to tail, and an order's \<open>Parent\<close> pointer is the price of the level that
  queues it, or \<open>None\<close> for nil.
\<close>

datatype Side = Buy | Sell
datatype OrderType = Market | LimitOrder
datatype TimeInForce = GTC | IOC | FOK
datatype Visibility = Normal | Iceberg | Hidden
datatype OrderStatus = Open | PartialFill | Filled | Cancelled | Rejected
datatype PositionSide = PositionBoth | PositionLong | PositionShort
datatype MarginMode = CrossMargin | IsolatedMargin

record Order =
  ID :: uint64
  ClientID :: uint64
  Side :: Side
  PositionSide :: PositionSide
  Type :: OrderType
  TimeInForce :: TimeInForce
  PostOnly :: bool
  Price :: int64
  Qty :: int64
  FilledQty :: int64
  Visibility :: Visibility
  IcebergQty :: int64
  DisplayRemaining :: int64
  Status :: OrderStatus
  Timestamp :: timestamp
  Reserved :: int64
  FeeReserved :: "(asset \<times> int64) list"
  Parent :: "int64 option"

record Limit =
  LimitPrice :: int64
  TotalQty :: int64
  OrderCnt :: int32
  Queue :: "uint64 list"

record Execution =
  TakerOrderID :: uint64
  MakerOrderID :: uint64
  TakerClientID :: uint64
  MakerClientID :: uint64
  ExecPrice :: int64
  ExecQty :: int64
  ExecTimestamp :: timestamp
  TakerFilledQty :: int64
  MakerFilledQty :: int64
  MakerTotalQty :: int64
  MakerSide :: Side
  MakerPosSide :: PositionSide

record Fee =
  FeeAsset :: asset
  FeeAmount :: int64

record Trade =
  TradeID :: uint64
  TradePrice :: int64
  TradeQty :: int64
  TradeSide :: Side
  TradeTakerOrderID :: uint64
  TradeMakerOrderID :: uint64

record PriceLevel =
  LevelPrice :: int64
  LevelVisibleQty :: int64
  LevelHiddenQty :: int64

text \<open>The zero value of an order, which \<open>ResetOrder\<close> restores before an order object goes
  back to the pool.\<close>

definition ResetOrder :: "Order \<Rightarrow> Order" where
  "ResetOrder order = order
     \<lparr> ID := 0, ClientID := 0, Side := Buy, PositionSide := PositionBoth, Type := Market,
       TimeInForce := GTC, PostOnly := False, Price := 0, Qty := 0, FilledQty := 0,
       Visibility := Normal, IcebergQty := 0, DisplayRemaining := 0, Status := Open,
       Timestamp := 0, Reserved := 0, FeeReserved := [], Parent := None \<rparr>"

text \<open>The quantity still to be filled, as a mathematical integer.\<close>

definition remaining :: "Order \<Rightarrow> int" where
  "remaining o1 = Qty o1 - FilledQty o1"

lemma remaining_simps [simp]:
  "remaining (o1\<lparr>Status := s\<rparr>) = remaining o1"
  "remaining (o1\<lparr>Parent := p\<rparr>) = remaining o1"
  "remaining (o1\<lparr>DisplayRemaining := d\<rparr>) = remaining o1"
  "remaining (o1\<lparr>Reserved := r\<rparr>) = remaining o1"
  by (simp_all add: remaining_def)

text \<open>The quantities of an order are sane: a non-negative fill that never exceeds a
  representable quantity.\<close>

definition order_sane :: "Order \<Rightarrow> bool" where
  "order_sane o1 \<longleftrightarrow> 0 \<le> FilledQty o1 \<and> FilledQty o1 \<le> Qty o1 \<and> Qty o1 \<le> MaxInt64"

lemma order_sane_i64:
  assumes "order_sane o1"
  shows "is_i64 (Qty o1)" "is_i64 (FilledQty o1)" "is_i64 (remaining o1)"
    "0 \<le> remaining o1" "remaining o1 \<le> MaxInt64"
    "i64 (Qty o1 - FilledQty o1) = remaining o1"
  using assms by (auto simp: order_sane_def remaining_def is_i64_def i64_id)

lemma TrySub_remaining:
  "order_sane o1 \<Longrightarrow> TrySub (Qty o1) (FilledQty o1) = Some (remaining o1)"
  using order_sane_i64 [of o1] by (subst TrySub_eq) (auto simp: remaining_def order_sane_def)

lemma order_sane_simps [simp]:
  "order_sane (o1\<lparr>Status := s\<rparr>) = order_sane o1"
  "order_sane (o1\<lparr>Parent := p\<rparr>) = order_sane o1"
  "order_sane (o1\<lparr>DisplayRemaining := d\<rparr>) = order_sane o1"
  by (simp_all add: order_sane_def)

end
