(* ===== verification/Order_Book.thy ===== *)
theory Order_Book
  imports Order_Types
begin

text \<open>
  The one-sided book of \<open>book/book.go\<close> and the two-sided book of \<open>book/orderbook.go\<close>:
  price levels in priority order, each a FIFO queue of resting orders, with an aggregate
  quantity and count per level, an ID index and a best-level pointer.
\<close>

section \<open>Levels\<close>

definition getLimit :: "int64 \<Rightarrow> Limit" where
  "getLimit price = \<lparr>LimitPrice = price, TotalQty = 0, OrderCnt = 0, Queue = []\<rparr>"

text \<open>\<open>LinkOrder\<close> returns \<open>None\<close> for \<open>false\<close>. Its nil checks and its checks that
  \<open>Prev\<close>, \<open>Next\<close> and \<open>Head\<close>/\<open>Tail\<close> agree hold by construction here: the representation
  has no partially linked order.\<close>

definition LinkOrder :: "Limit \<Rightarrow> Order \<Rightarrow> (Limit \<times> Order) option" where
  "LinkOrder limit order =
     (if Parent order \<noteq> None then None
      else if TotalQty limit < 0 \<or> OrderCnt limit < 0 \<or> OrderCnt limit = MaxInt32 then None
      else case TrySub (Qty order) (FilledQty order) of
        None \<Rightarrow> None
      | Some rest \<Rightarrow>
          if rest \<le> 0 then None
          else case TryAdd (TotalQty limit) rest of
            None \<Rightarrow> None
          | Some _ \<Rightarrow>
              if Visibility order = Iceberg \<and> DisplayRemaining order = 0 \<and> IcebergQty order \<le> 0
              then None
              else
                let initialDisplay =
                      (if Visibility order = Iceberg \<and> DisplayRemaining order = 0
                       then min (IcebergQty order) rest else DisplayRemaining order)
                in Some (limit\<lparr>Queue := Queue limit @ [ID order],
                               TotalQty := i64 (TotalQty limit + rest),
                               OrderCnt := i32 (OrderCnt limit + 1)\<rparr>,
                         order\<lparr>DisplayRemaining := initialDisplay,
                               Parent := Some (LimitPrice limit)\<rparr>))"

definition UnlinkOrder :: "Limit \<Rightarrow> Order \<Rightarrow> Limit \<times> Order" where
  "UnlinkOrder limit order =
     (limit\<lparr>Queue := remove1 (ID order) (Queue limit),
            TotalQty := i64 (TotalQty limit - i64 (Qty order - FilledQty order)),
            OrderCnt := i32 (OrderCnt limit - 1)\<rparr>,
      order\<lparr>Parent := None\<rparr>)"

definition IsEmpty :: "Limit \<Rightarrow> bool" where
  "IsEmpty limit \<longleftrightarrow> OrderCnt limit = 0"

section \<open>The one-sided book\<close>

record Book =
  BookSide :: Side
  Best :: "int64 option"
  Active :: "int64 list"
  Orders :: "uint64 \<rightharpoonup> Order"
  Limits :: "int64 \<rightharpoonup> Limit"

definition NewBook :: "Side \<Rightarrow> Book" where
  "NewBook side =
     \<lparr>BookSide = side, Best = None, Active = [], Orders = Map.empty, Limits = Map.empty\<rparr>"

definition set_order :: "Order \<Rightarrow> Book \<Rightarrow> Book" where
  "set_order order b = b\<lparr>Orders := (Orders b)(ID order \<mapsto> order)\<rparr>"

definition set_limit :: "Limit \<Rightarrow> Book \<Rightarrow> Book" where
  "set_limit limit b = b\<lparr>Limits := (Limits b)(LimitPrice limit \<mapsto> limit)\<rparr>"

text \<open>Does a price rank strictly before another on this side of the book?\<close>

fun better :: "Side \<Rightarrow> int64 \<Rightarrow> int64 \<Rightarrow> bool" where
  "better Buy p q = (p > q)"
| "better Sell p q = (p < q)"

fun insert_active :: "Side \<Rightarrow> int64 \<Rightarrow> int64 list \<Rightarrow> int64 list" where
  "insert_active side p [] = [p]"
| "insert_active side p (q # qs) =
     (if better side p q then p # q # qs else q # insert_active side p qs)"

definition insertLimit :: "Book \<Rightarrow> int64 \<Rightarrow> Book" where
  "insertLimit b p = b\<lparr>Active := insert_active (BookSide b) p (Active b)\<rparr>"

definition updateBest :: "Book \<Rightarrow> int64 \<Rightarrow> Book" where
  "updateBest b p =
     (case Best b of
        None \<Rightarrow> b\<lparr>Best := Some p\<rparr>
      | Some q \<Rightarrow> if better (BookSide b) p q then b\<lparr>Best := Some p\<rparr> else b)"

definition active_head :: "Book \<Rightarrow> int64 option" where
  "active_head b = (case Active b of [] \<Rightarrow> None | p # _ \<Rightarrow> Some p)"

definition RemoveLimit :: "Book \<Rightarrow> int64 \<Rightarrow> Book" where
  "RemoveLimit b p =
     (let b1 = b\<lparr>Active := remove1 p (Active b), Limits := (Limits b)(p := None)\<rparr>
      in if Best b = Some p then b1\<lparr>Best := active_head b1\<rparr> else b1)"

definition AddOrder :: "Book \<Rightarrow> Order \<Rightarrow> Book option" where
  "AddOrder b order =
     (if Orders b (ID order) \<noteq> None then None
      else case Limits b (Price order) of
        None \<Rightarrow>
          (case LinkOrder (getLimit (Price order)) order of
             None \<Rightarrow> None
           | Some (limit, order') \<Rightarrow>
               Some (set_order order'
                 (updateBest (insertLimit (set_limit limit b) (Price order)) (Price order))))
      | Some limit \<Rightarrow>
          (case LinkOrder limit order of
             None \<Rightarrow> None
           | Some (limit', order') \<Rightarrow> Some (set_order order' (set_limit limit' b))))"

text \<open>A linked order's parent level is always in the store (part of the invariant below);
  the lookup failure branch stands for a dangling pointer.\<close>

definition CancelOrder :: "Book \<Rightarrow> uint64 \<Rightarrow> Book \<times> Order option" where
  "CancelOrder b orderID =
     (case Orders b orderID of
        None \<Rightarrow> (b, None)
      | Some order \<Rightarrow>
          (case Option.bind (Parent order) (Limits b) of
             None \<Rightarrow> (b\<lparr>Orders := (Orders b)(orderID := None)\<rparr>, Some order)
           | Some limit \<Rightarrow>
               let (limit', order') = UnlinkOrder limit order;
                   b1 = (set_limit limit' b)\<lparr>Orders := (Orders b)(orderID := None)\<rparr>
               in (if IsEmpty limit' then RemoveLimit b1 (LimitPrice limit') else b1,
                   Some order')))"

definition RemoveFilledOrder :: "Book \<Rightarrow> uint64 \<Rightarrow> Book \<times> Order option" where
  "RemoveFilledOrder b orderID = CancelOrder b orderID"

section \<open>Depth\<close>

definition visible_of :: "Order \<Rightarrow> int64" where
  "visible_of o1 =
     (case TrySub (Qty o1) (FilledQty o1) of
        None \<Rightarrow> 0
      | Some rest \<Rightarrow>
          if rest \<le> 0 then 0
          else case Visibility o1 of
            Normal \<Rightarrow> rest
          | Iceberg \<Rightarrow> if DisplayRemaining o1 > 0 then min rest (DisplayRemaining o1) else 0
          | Hidden \<Rightarrow> 0)"

fun visible_loop :: "(uint64 \<rightharpoonup> Order) \<Rightarrow> int64 \<Rightarrow> uint64 list \<Rightarrow> int64" where
  "visible_loop os qty [] = qty"
| "visible_loop os qty (i # is) =
     (case os i of
        None \<Rightarrow> visible_loop os qty is
      | Some o1 \<Rightarrow>
          if visible_of o1 = 0 then visible_loop os qty is
          else case TryAdd qty (visible_of o1) of
            None \<Rightarrow> MaxInt64
          | Some qty' \<Rightarrow> visible_loop os qty' is)"

definition VisibleQty :: "Book \<Rightarrow> Limit \<Rightarrow> int64" where
  "VisibleQty b limit = visible_loop (Orders b) 0 (Queue limit)"

definition snapshot_level :: "Book \<Rightarrow> Limit \<Rightarrow> PriceLevel option" where
  "snapshot_level b l =
     (let visible = VisibleQty b l;
          hidden = (case TrySub (TotalQty l) visible of None \<Rightarrow> 0 | Some h \<Rightarrow> if h < 0 then 0 else h)
      in if visible > 0 \<or> hidden > 0
         then Some \<lparr>LevelPrice = LimitPrice l, LevelVisibleQty = visible, LevelHiddenQty = hidden\<rparr>
         else None)"

definition public_level :: "Book \<Rightarrow> Limit \<Rightarrow> PriceLevel option" where
  "public_level b l =
     (let visible = VisibleQty b l
      in if visible > 0
         then Some \<lparr>LevelPrice = LimitPrice l, LevelVisibleQty = visible, LevelHiddenQty = 0\<rparr>
         else None)"

fun collect_levels :: "(Limit \<Rightarrow> PriceLevel option) \<Rightarrow> Book \<Rightarrow> PriceLevel list \<Rightarrow> int64 list \<Rightarrow> PriceLevel list" where
  "collect_levels f b acc [] = acc"
| "collect_levels f b acc (p # ps) =
     (if length acc < 20
      then collect_levels f b (acc @ (case Option.bind (Limits b p) f of None \<Rightarrow> [] | Some l \<Rightarrow> [l])) ps
      else acc)"

definition GetSnapshot :: "Book \<Rightarrow> PriceLevel list" where
  "GetSnapshot b = collect_levels (snapshot_level b) b [] (Active b)"

definition GetPublicSnapshot :: "Book \<Rightarrow> PriceLevel list" where
  "GetPublicSnapshot b = collect_levels (public_level b) b [] (Active b)"

section \<open>The two-sided book\<close>

record OrderBook =
  Symbol :: string
  Bids :: Book
  Asks :: Book
  LastTrade :: "Trade option"
  SeqNum :: uint64

text \<open>\<open>None\<close> is \<open>ErrNoPrice\<close>.\<close>

definition GetLastPrice :: "OrderBook \<Rightarrow> int64 option" where
  "GetLastPrice ob = map_option TradePrice (LastTrade ob)"

definition GetBestBid :: "OrderBook \<Rightarrow> int64 option" where
  "GetBestBid ob = Best (Bids ob)"

definition GetBestAsk :: "OrderBook \<Rightarrow> int64 option" where
  "GetBestAsk ob = Best (Asks ob)"

definition GetMidPrice :: "OrderBook \<Rightarrow> int64 option" where
  "GetMidPrice ob =
     (case GetBestBid ob of
        None \<Rightarrow> None
      | Some bestBid \<Rightarrow>
          (case GetBestAsk ob of
             None \<Rightarrow> None
           | Some bestAsk \<Rightarrow> if bestBid > bestAsk then None else Some (Midpoint bestBid bestAsk)))"

definition FindOrder :: "OrderBook \<Rightarrow> uint64 \<Rightarrow> Order option" where
  "FindOrder ob orderID =
     (case Orders (Bids ob) orderID of Some o1 \<Rightarrow> Some o1 | None \<Rightarrow> Orders (Asks ob) orderID)"

end
