(* ===== verification/Book_Invariant.thy ===== *)
theory Book_Invariant
  imports Order_Book
begin

text \<open>
  The representation invariant of a one-sided book, its preservation by every operation of
  \<open>book/book.go\<close>, and the functional behaviour of insertion, cancellation and the depth
  snapshots.
\<close>

section \<open>The invariant\<close>

definition rem_of :: "(uint64 \<rightharpoonup> Order) \<Rightarrow> uint64 \<Rightarrow> int" where
  "rem_of os i = (case os i of None \<Rightarrow> 0 | Some o1 \<Rightarrow> remaining o1)"

definition level_ok :: "(uint64 \<rightharpoonup> Order) \<Rightarrow> int64 \<Rightarrow> Limit \<Rightarrow> bool" where
  "level_ok os p l \<longleftrightarrow>
     LimitPrice l = p \<and> distinct (Queue l) \<and>
     OrderCnt l = int (length (Queue l)) \<and> OrderCnt l \<le> MaxInt32 \<and>
     TotalQty l = (\<Sum>i\<leftarrow>Queue l. rem_of os i) \<and> TotalQty l \<le> MaxInt64 \<and>
     (\<forall>i\<in>set (Queue l). \<exists>o1. os i = Some o1 \<and> Parent o1 = Some p)"

definition linked_ok :: "(int64 \<rightharpoonup> Limit) \<Rightarrow> uint64 \<Rightarrow> int64 \<Rightarrow> Order \<Rightarrow> bool" where
  "linked_ok ls i p o1 \<longleftrightarrow>
     Price o1 = p \<and> 0 < remaining o1 \<and> (\<exists>l. ls p = Some l \<and> i \<in> set (Queue l)) \<and>
     (Visibility o1 = Iceberg \<longrightarrow> 0 < IcebergQty o1 \<and> 0 < DisplayRemaining o1 \<and>
        DisplayRemaining o1 \<le> MaxInt64)"

definition order_ok :: "Side \<Rightarrow> (int64 \<rightharpoonup> Limit) \<Rightarrow> uint64 \<Rightarrow> Order \<Rightarrow> bool" where
  "order_ok side ls i o1 \<longleftrightarrow>
     ID o1 = i \<and> Side o1 = side \<and> order_sane o1 \<and> is_i64 (Price o1) \<and>
     (case Parent o1 of None \<Rightarrow> remaining o1 = 0 | Some p \<Rightarrow> linked_ok ls i p o1)"

definition book_inv :: "Book \<Rightarrow> bool" where
  "book_inv b \<longleftrightarrow>
     sorted_wrt (better (BookSide b)) (Active b) \<and> set (Active b) = dom (Limits b) \<and>
     Best b = active_head b \<and>
     (\<forall>p l. Limits b p = Some l \<longrightarrow> level_ok (Orders b) p l) \<and>
     (\<forall>i o1. Orders b i = Some o1 \<longrightarrow> order_ok (BookSide b) (Limits b) i o1)"

definition no_empty :: "Book \<Rightarrow> bool" where
  "no_empty b \<longleftrightarrow> (\<forall>p l. Limits b p = Some l \<longrightarrow> Queue l \<noteq> [])"

definition book_wf :: "Book \<Rightarrow> bool" where
  "book_wf b \<longleftrightarrow> book_inv b \<and> no_empty b"

lemma book_invD:
  assumes "book_inv b"
  shows "sorted_wrt (better (BookSide b)) (Active b)" "set (Active b) = dom (Limits b)"
    "Best b = active_head b" "\<And>p l. Limits b p = Some l \<Longrightarrow> level_ok (Orders b) p l"
    "\<And>i o1. Orders b i = Some o1 \<Longrightarrow> order_ok (BookSide b) (Limits b) i o1"
  using assms by (auto simp: book_inv_def)

lemma level_okD:
  assumes "level_ok os p l"
  shows "LimitPrice l = p" "distinct (Queue l)" "OrderCnt l = int (length (Queue l))"
    "OrderCnt l \<le> MaxInt32" "TotalQty l = (\<Sum>i\<leftarrow>Queue l. rem_of os i)" "TotalQty l \<le> MaxInt64"
    "\<And>i. i \<in> set (Queue l) \<Longrightarrow> \<exists>o1. os i = Some o1 \<and> Parent o1 = Some p"
  using assms by (auto simp: level_ok_def)

lemma order_ok_linkedD:
  assumes "order_ok side ls i o1" "Parent o1 = Some p"
  shows "ID o1 = i" "Side o1 = side" "order_sane o1" "Price o1 = p" "0 < remaining o1"
    "\<exists>l. ls p = Some l \<and> i \<in> set (Queue l)"
    "Visibility o1 = Iceberg \<Longrightarrow> 0 < IcebergQty o1" "Visibility o1 = Iceberg \<Longrightarrow> 0 < DisplayRemaining o1"
  using assms by (auto simp: order_ok_def linked_ok_def)

lemma queue_member:
  assumes "book_inv b" "Limits b p = Some l" "i \<in> set (Queue l)"
  obtains o1 where "Orders b i = Some o1" "Parent o1 = Some p" "order_ok (BookSide b) (Limits b) i o1"
  using book_invD(4) [OF assms(1,2)] level_okD(7) [of "Orders b" p l] assms book_invD(5)
  by (metis (no_types, lifting))

lemma queue_unique:
  "book_inv b \<Longrightarrow> Limits b p = Some l \<Longrightarrow> i \<in> set (Queue l) \<Longrightarrow>
   Limits b q = Some l' \<Longrightarrow> i \<in> set (Queue l') \<Longrightarrow> p = q"
  by (metis option.inject queue_member)

section \<open>Local changes\<close>

lemma level_ok_cong:
  "level_ok os p l \<Longrightarrow> (\<And>i. i \<in> set (Queue l) \<Longrightarrow> os' i = os i) \<Longrightarrow> level_ok os' p l"
proof -
  assume ok: "level_ok os p l" and eq: "\<And>i. i \<in> set (Queue l) \<Longrightarrow> os' i = os i"
  then have "(\<Sum>i\<leftarrow>Queue l. rem_of os' i) = (\<Sum>i\<leftarrow>Queue l. rem_of os i)"
    by (intro arg_cong [where f = sum_list] map_cong) (simp_all add: rem_of_def)
  with ok eq show ?thesis by (simp add: level_ok_def)
qed

lemma order_ok_limits:
  "order_ok side ls i o1 \<Longrightarrow>
   (\<And>p l. Parent o1 = Some p \<Longrightarrow> ls p = Some l \<Longrightarrow> i \<in> set (Queue l) \<Longrightarrow>
      \<exists>l'. ls' p = Some l' \<and> i \<in> set (Queue l')) \<Longrightarrow>
   order_ok side ls' i o1"
  by (auto simp: order_ok_def linked_ok_def split: option.splits)

text \<open>Replacing one level and one order keeps the invariant when the new pair is locally
  consistent and the level loses no other member.\<close>

lemma book_inv_local:
  assumes inv: "book_inv b" and L: "Limits b p = Some l"
    and lev: "level_ok ((Orders b)(i := x)) p l'"
    and ord: "\<And>o1. x = Some o1 \<Longrightarrow> order_ok (BookSide b) ((Limits b)(p \<mapsto> l')) i o1"
    and elsewhere: "\<And>q k. q \<noteq> p \<Longrightarrow> Limits b q = Some k \<Longrightarrow> i \<notin> set (Queue k)"
    and keep: "set (Queue l) - {i} \<subseteq> set (Queue l')"
  shows "book_inv (b\<lparr>Limits := (Limits b)(p \<mapsto> l'), Orders := (Orders b)(i := x)\<rparr>)"
proof -
  let ?b = "b\<lparr>Limits := (Limits b)(p \<mapsto> l'), Orders := (Orders b)(i := x)\<rparr>"
  have lev_all: "level_ok (Orders ?b) q k" if "Limits ?b q = Some k" for q k
  proof (cases "q = p")
    case True
    with that lev show ?thesis by simp
  next
    case False
    with that have "Limits b q = Some k" by simp
    with False elsewhere show ?thesis
      by (auto intro!: level_ok_cong [OF book_invD(4) [OF inv]])
  qed
  have ord_all: "order_ok (BookSide b) (Limits ?b) j o1" if "Orders ?b j = Some o1" for j o1
  proof (cases "j = i")
    case True
    with that ord show ?thesis by simp
  next
    case False
    with that have "Orders b j = Some o1" by simp
    moreover from keep False have "j \<in> set (Queue l) \<Longrightarrow> j \<in> set (Queue l')" by blast
    ultimately show ?thesis
      using False L by (auto intro!: order_ok_limits [OF book_invD(5) [OF inv]])
  qed
  have "dom (Limits ?b) = dom (Limits b)" using L by auto
  with inv lev_all ord_all show ?thesis
    by (auto simp: book_inv_def active_head_def)
qed

lemma no_empty_local:
  "no_empty b \<Longrightarrow> Queue l' \<noteq> [] \<Longrightarrow> no_empty (b\<lparr>Limits := (Limits b)(p \<mapsto> l'), Orders := os\<rparr>)"
  by (auto simp: no_empty_def)

section \<open>Active prices\<close>

lemma better_irrefl [simp]: "\<not> better s p p"
  by (cases s) auto

lemma better_trans: "better s p q \<Longrightarrow> better s q r \<Longrightarrow> better s p r"
  by (cases s) auto

lemma better_linear: "p \<noteq> q \<Longrightarrow> \<not> better s p q \<Longrightarrow> better s q p"
  by (cases s) auto

lemma set_insert_active [simp]: "set (insert_active s p ps) = insert p (set ps)"
  by (induction s p ps rule: insert_active.induct) auto

lemma sorted_insert_active:
  "sorted_wrt (better s) ps \<Longrightarrow> p \<notin> set ps \<Longrightarrow> sorted_wrt (better s) (insert_active s p ps)"
  by (induction s p ps rule: insert_active.induct)
     (auto intro: better_trans better_linear)

lemma sorted_better_distinct: "sorted_wrt (better s) ps \<Longrightarrow> distinct ps"
  by (induction ps) auto

lemma sorted_remove1: "sorted_wrt R ps \<Longrightarrow> sorted_wrt R (remove1 p ps)"
  by (induction ps) (auto dest: set_remove1_subset [THEN subsetD])

lemma insert_remove_active:
  "p \<notin> set ps \<Longrightarrow> remove1 p (insert_active s p ps) = ps"
  by (induction s p ps rule: insert_active.induct) auto

lemma active_head_insert:
  assumes "Best b = active_head b"
  shows "Best (updateBest (insertLimit b p) p) = active_head (updateBest (insertLimit b p) p)"
proof (cases "Active b")
  case Nil
  with assms show ?thesis by (simp add: updateBest_def insertLimit_def active_head_def)
next
  case (Cons q qs)
  with assms show ?thesis by (auto simp: updateBest_def insertLimit_def active_head_def)
qed

section \<open>Opening and closing a level\<close>

definition open_level :: "Book \<Rightarrow> int64 \<Rightarrow> Book" where
  "open_level b p = updateBest (insertLimit (set_limit (getLimit p) b) p) p"

lemma updateBest_simps [simp]:
  "BookSide (updateBest b p) = BookSide b" "Active (updateBest b p) = Active b"
  "Orders (updateBest b p) = Orders b" "Limits (updateBest b p) = Limits b"
  by (simp_all add: updateBest_def split: option.splits)

lemma insertLimit_simps [simp]:
  "BookSide (insertLimit b p) = BookSide b" "Orders (insertLimit b p) = Orders b"
  "Limits (insertLimit b p) = Limits b" "Best (insertLimit b p) = Best b"
  "Active (insertLimit b p) = insert_active (BookSide b) p (Active b)"
  by (simp_all add: insertLimit_def)

lemma set_limit_simps [simp]:
  "BookSide (set_limit l b) = BookSide b" "Orders (set_limit l b) = Orders b"
  "Active (set_limit l b) = Active b" "Best (set_limit l b) = Best b"
  "Limits (set_limit l b) = (Limits b)(LimitPrice l \<mapsto> l)"
  by (simp_all add: set_limit_def)

lemma set_order_simps [simp]:
  "BookSide (set_order x b) = BookSide b" "Limits (set_order x b) = Limits b"
  "Active (set_order x b) = Active b" "Best (set_order x b) = Best b"
  "Orders (set_order x b) = (Orders b)(ID x \<mapsto> x)"
  by (simp_all add: set_order_def)

lemma RemoveLimit_simps [simp]:
  "BookSide (RemoveLimit b p) = BookSide b" "Orders (RemoveLimit b p) = Orders b"
  "Limits (RemoveLimit b p) = (Limits b)(p := None)"
  "Active (RemoveLimit b p) = remove1 p (Active b)"
  by (simp_all add: RemoveLimit_def Let_def)

lemma getLimit_simps [simp]:
  "LimitPrice (getLimit p) = p" "Queue (getLimit p) = []" "TotalQty (getLimit p) = 0"
  "OrderCnt (getLimit p) = 0"
  by (simp_all add: getLimit_def)

lemma open_level_inv:
  assumes inv: "book_inv b" and new: "Limits b p = None"
  shows "book_inv (open_level b p)"
proof -
  have fresh: "p \<notin> set (Active b)" using book_invD(2) [OF inv] new by auto
  have "Best (open_level b p) = active_head (open_level b p)"
    unfolding open_level_def using book_invD(3) [OF inv]
    by (intro active_head_insert) (simp add: active_head_def)
  moreover have "order_ok (BookSide b) ((Limits b)(p \<mapsto> getLimit p)) i o1" if "Orders b i = Some o1" for i o1
    using new by (auto intro!: order_ok_limits [OF book_invD(5) [OF inv that]])
  moreover have "sorted_wrt (better (BookSide b)) (insert_active (BookSide b) p (Active b))"
    using fresh book_invD(1) [OF inv] by (intro sorted_insert_active)
  moreover have "level_ok (Orders b) p (getLimit p)" by (simp add: level_ok_def)
  ultimately show ?thesis
    using book_invD(2,4) [OF inv] by (auto simp: book_inv_def open_level_def)
qed

lemma RemoveLimit_inv:
  assumes inv: "book_inv b" and L: "Limits b p = Some l" and empty: "Queue l = []"
  shows "book_inv (RemoveLimit b p)"
proof -
  have dist: "distinct (Active b)" using book_invD(1) [OF inv] by (rule sorted_better_distinct)
  have "Best (RemoveLimit b p) = active_head (RemoveLimit b p)"
    using book_invD(3) [OF inv]
    by (cases "Active b") (auto simp: RemoveLimit_def active_head_def Let_def)
  moreover have "order_ok (BookSide b) ((Limits b)(p := None)) i o1" if "Orders b i = Some o1" for i o1
    using L empty by (auto intro!: order_ok_limits [OF book_invD(5) [OF inv that]])
  moreover have "sorted_wrt (better (BookSide b)) (remove1 p (Active b))"
    using book_invD(1) [OF inv] by (rule sorted_remove1)
  ultimately show ?thesis
    using book_invD(2,4) [OF inv] dist by (auto simp: book_inv_def)
qed


section \<open>Linking\<close>

lemma rem_of_nonneg:
  assumes "book_inv b" shows "0 \<le> rem_of (Orders b) i"
  using book_invD(5) [OF assms, of i]
  by (auto simp: rem_of_def order_ok_def order_sane_i64 split: option.splits)

lemma TotalQty_nonneg: "book_inv b \<Longrightarrow> Limits b p = Some l \<Longrightarrow> 0 \<le> TotalQty l"
  using book_invD(4) [of b p l]
  by (auto simp: level_okD(5) intro!: sum_list_nonneg_int rem_of_nonneg)

lemma rem_of_le_TotalQty:
  assumes "book_inv b" "Limits b p = Some l" "i \<in> set (Queue l)"
  shows "rem_of (Orders b) i \<le> TotalQty l"
  using assms member_le_sum_list_int [of i "Queue l" "rem_of (Orders b)"]
  by (simp add: level_okD(5) [OF book_invD(4)] rem_of_nonneg)

definition display_of :: "Order \<Rightarrow> int" where
  "display_of o1 = (if Visibility o1 = Iceberg \<and> DisplayRemaining o1 = 0
     then min (IcebergQty o1) (remaining o1) else DisplayRemaining o1)"

definition linkable :: "Limit \<Rightarrow> Order \<Rightarrow> bool" where
  "linkable l o1 \<longleftrightarrow> Parent o1 = None \<and> OrderCnt l < MaxInt32 \<and> 0 < remaining o1 \<and>
     TotalQty l + remaining o1 \<le> MaxInt64 \<and>
     (Visibility o1 = Iceberg \<and> DisplayRemaining o1 = 0 \<longrightarrow> 0 < IcebergQty o1)"

text \<open>The display tranche an order may arrive with: none yet, or any positive size. An iceberg that
  traded before it rests may show more than it has left.\<close>

definition display_ok :: "Order \<Rightarrow> bool" where
  "display_ok o1 \<longleftrightarrow> (Visibility o1 = Iceberg \<longrightarrow>
     0 \<le> DisplayRemaining o1 \<and> DisplayRemaining o1 \<le> MaxInt64 \<and> (DisplayRemaining o1 = 0 \<or> 0 < IcebergQty o1))"

lemma LinkOrder_eq:
  assumes "0 \<le> TotalQty l" "TotalQty l \<le> MaxInt64" "0 \<le> OrderCnt l" "OrderCnt l \<le> MaxInt32"
    and sane: "order_sane o1"
  shows "LinkOrder l o1 =
    (if linkable l o1
     then Some (l\<lparr>Queue := Queue l @ [ID o1], TotalQty := TotalQty l + remaining o1,
                  OrderCnt := OrderCnt l + 1\<rparr>,
                o1\<lparr>DisplayRemaining := display_of o1, Parent := Some (LimitPrice l)\<rparr>)
     else None)"
proof -
  have r: "0 \<le> remaining o1" "is_i64 (remaining o1)" using order_sane_i64 [OF sane] by auto
  have add: "TryAdd (TotalQty l) (remaining o1) =
      (if TotalQty l + remaining o1 \<le> MaxInt64 then Some (TotalQty l + remaining o1) else None)"
    using assms r by (subst TryAdd_eq) (auto simp: is_i64_def)
  have "TotalQty l + remaining o1 \<le> MaxInt64 \<Longrightarrow> i64 (TotalQty l + remaining o1) = TotalQty l + remaining o1"
    using assms r by (intro i64_id) (auto simp: is_i64_def)
  with assms show ?thesis
    by (auto simp: LinkOrder_def linkable_def TrySub_remaining [OF sane] add display_of_def i32_id Let_def)
qed

lemma display_of_pos:
  "linkable l o1 \<Longrightarrow> 0 \<le> DisplayRemaining o1 \<Longrightarrow> Visibility o1 = Iceberg \<Longrightarrow> 0 < display_of o1"
  "order_sane o1 \<Longrightarrow> DisplayRemaining o1 \<le> MaxInt64 \<Longrightarrow> display_of o1 \<le> MaxInt64"
  using order_sane_i64(5) [of o1] by (auto simp: linkable_def display_of_def min_def)

text \<open>Appending a linkable order to a level of the book.\<close>

lemma link_inv:
  assumes inv: "book_inv b" and L: "Limits b p = Some l" and link: "linkable l o1"
    and o1: "order_sane o1" "is_i64 (Price o1)" "Price o1 = p" "Side o1 = BookSide b"
      "Visibility o1 = Iceberg \<Longrightarrow> 0 \<le> DisplayRemaining o1" "Visibility o1 = Iceberg \<Longrightarrow> DisplayRemaining o1 \<le> MaxInt64"
      "Visibility o1 = Iceberg \<Longrightarrow> 0 < IcebergQty o1"
    and new: "\<And>q k. Limits b q = Some k \<Longrightarrow> ID o1 \<notin> set (Queue k)"
  defines "l' \<equiv> l\<lparr>Queue := Queue l @ [ID o1], TotalQty := TotalQty l + remaining o1,
                  OrderCnt := OrderCnt l + 1\<rparr>"
    and "o' \<equiv> o1\<lparr>DisplayRemaining := display_of o1, Parent := Some (LimitPrice l)\<rparr>"
  shows "book_inv (b\<lparr>Limits := (Limits b)(p \<mapsto> l'), Orders := (Orders b)(ID o1 \<mapsto> o')\<rparr>)"
proof (rule book_inv_local [OF inv L])
  note lev = book_invD(4) [OF inv L]
  let ?os = "(Orders b)(ID o1 \<mapsto> o')"
  have fresh: "ID o1 \<notin> set (Queue l)" using new L by blast
  have old: "level_ok ?os p l" using fresh by (intro level_ok_cong [OF lev]) auto
  have "rem_of ?os (ID o1) = remaining o1" by (simp add: rem_of_def o'_def)
  with old fresh link show "level_ok ?os p l'"
    by (auto simp: level_ok_def l'_def linkable_def o'_def)
  show "order_ok (BookSide b) ((Limits b)(p \<mapsto> l')) (ID o1) x" if "Some o' = Some x" for x
    using that o1 link level_okD(1) [OF lev]
    by (auto simp: order_ok_def linked_ok_def o'_def l'_def linkable_def display_of_pos)
  show "ID o1 \<notin> set (Queue k)" if "Limits b q = Some k" for q k using new that by blast
  show "set (Queue l) - {ID o1} \<subseteq> set (Queue l')" by (auto simp: l'_def)
qed

section \<open>Unlinking\<close>

lemma UnlinkOrder_eq:
  assumes inv: "book_inv b" and L: "Limits b p = Some l" and i: "i \<in> set (Queue l)"
    and o1: "Orders b i = Some o1"
  shows "UnlinkOrder l o1 =
    (l\<lparr>Queue := remove1 i (Queue l), TotalQty := TotalQty l - remaining o1,
       OrderCnt := OrderCnt l - 1\<rparr>, o1\<lparr>Parent := None\<rparr>)"
proof -
  note lev = book_invD(4) [OF inv L] and ord = book_invD(5) [OF inv o1]
  have r: "remaining o1 \<le> TotalQty l" "0 \<le> remaining o1"
    using rem_of_le_TotalQty [OF inv L i] rem_of_nonneg [OF inv, of i] o1 by (simp_all add: rem_of_def)
  then have "i64 (TotalQty l - remaining o1) = TotalQty l - remaining o1"
    using level_okD(6) [OF lev] by (intro i64_id) (auto simp: is_i64_def)
  moreover have "0 < length (Queue l)" using i by (cases "Queue l") auto
  then have "i32 (OrderCnt l - 1) = OrderCnt l - 1"
    using level_okD(3,4) [OF lev] by (intro i32_id) auto
  moreover have "i64 (Qty o1 - FilledQty o1) = remaining o1" "ID o1 = i"
    using ord by (auto simp: order_ok_def order_sane_i64)
  ultimately show ?thesis by (simp add: UnlinkOrder_def)
qed

lemma unlink_level_ok:
  assumes inv: "book_inv b" and L: "Limits b p = Some l" and i: "i \<in> set (Queue l)"
    and o1: "Orders b i = Some o1"
  shows "level_ok ((Orders b)(i := x)) p
    (l\<lparr>Queue := remove1 i (Queue l), TotalQty := TotalQty l - remaining o1, OrderCnt := OrderCnt l - 1\<rparr>)"
proof -
  note lev = book_invD(4) [OF inv L]
  let ?l = "l\<lparr>Queue := remove1 i (Queue l), TotalQty := TotalQty l - remaining o1,
    OrderCnt := OrderCnt l - 1\<rparr>"
  have "0 < length (Queue l)" using i by (cases "Queue l") auto
  then have len: "int (length (remove1 i (Queue l))) = int (length (Queue l)) - 1"
    using i by (simp add: length_remove1 of_nat_diff Suc_le_eq)
  have rem: "0 \<le> remaining o1" using rem_of_nonneg [OF inv, of i] o1 by (simp add: rem_of_def)
  have sum: "(\<Sum>j\<leftarrow>remove1 i (Queue l). rem_of (Orders b) j) = TotalQty l - remaining o1"
    using sum_list_remove1 [OF i, of "rem_of (Orders b)"] o1
    by (simp add: rem_of_def [of _ i] level_okD(5) [OF lev])
  have set: "set (remove1 i (Queue l)) = set (Queue l) - {i}"
    by (rule set_remove1_eq [OF level_okD(2) [OF lev]])
  have "level_ok (Orders b) p ?l"
    unfolding level_ok_def using level_okD(1-4,6,7) [OF lev] rem
    by (simp add: sum len set distinct_remove1)
  then show ?thesis
    by (rule level_ok_cong) (simp add: set)
qed

lemma unlink_inv:
  assumes inv: "book_inv b" and L: "Limits b p = Some l" and i: "i \<in> set (Queue l)"
    and o1: "Orders b i = Some o1"
    and x: "\<And>y. x = Some y \<Longrightarrow> ID y = i \<and> Side y = BookSide b \<and> order_sane y \<and> is_i64 (Price y) \<and>
      Parent y = None \<and> remaining y = 0"
  defines "l' \<equiv> l\<lparr>Queue := remove1 i (Queue l), TotalQty := TotalQty l - remaining o1, OrderCnt := OrderCnt l - 1\<rparr>"
  shows "book_inv (b\<lparr>Limits := (Limits b)(p \<mapsto> l'), Orders := (Orders b)(i := x)\<rparr>)"
proof (rule book_inv_local [OF inv L])
  show "level_ok ((Orders b)(i := x)) p l'"
    unfolding l'_def by (rule unlink_level_ok [OF inv L i o1])
  show "order_ok (BookSide b) ((Limits b)(p \<mapsto> l')) i y" if "x = Some y" for y
    using x [OF that] by (simp add: order_ok_def)
  show "i \<notin> set (Queue k)" if "q \<noteq> p" "Limits b q = Some k" for q k
    using queue_unique [OF inv L i that(2)] that(1) by blast
  show "set (Queue l) - {i} \<subseteq> set (Queue l')" 
    using set_remove1_eq [OF level_okD(2) [OF book_invD(4) [OF inv L]]] by (simp add: l'_def)
qed


section \<open>Insertion\<close>

definition level_at :: "Book \<Rightarrow> int64 \<Rightarrow> Limit" where
  "level_at b p = (case Limits b p of None \<Rightarrow> getLimit p | Some l \<Rightarrow> l)"

definition with_level :: "Book \<Rightarrow> int64 \<Rightarrow> Book" where
  "with_level b p = (case Limits b p of None \<Rightarrow> open_level b p | Some _ \<Rightarrow> b)"

definition linked :: "Book \<Rightarrow> Order \<Rightarrow> Book" where
  "linked b o1 =
     (let p = Price o1; l = level_at b p; c = with_level b p
      in c\<lparr>Limits := (Limits c)(p \<mapsto> l\<lparr>Queue := Queue l @ [ID o1],
             TotalQty := TotalQty l + remaining o1, OrderCnt := OrderCnt l + 1\<rparr>),
           Orders := (Orders c)(ID o1 \<mapsto>
             o1\<lparr>DisplayRemaining := display_of o1, Parent := Some p\<rparr>)\<rparr>)"

lemma level_at_ok: "book_inv b \<Longrightarrow> level_ok (Orders b) p (level_at b p)"
  by (auto simp: level_at_def level_ok_def dest: book_invD(4) split: option.splits)

lemma level_at_nonneg: "book_inv b \<Longrightarrow> 0 \<le> TotalQty (level_at b p)"
  by (auto simp: level_at_def TotalQty_nonneg split: option.splits)

lemma with_level_simps [simp]:
  "BookSide (with_level b p) = BookSide b" "Orders (with_level b p) = Orders b"
  "Limits (with_level b p) = (Limits b)(p \<mapsto> level_at b p)"
  by (auto simp: with_level_def open_level_def level_at_def split: option.splits)

lemma with_level_inv: "book_inv b \<Longrightarrow> book_inv (with_level b p)"
  by (auto simp: with_level_def open_level_inv split: option.splits)

lemma Best_updateBest:
  "Best (updateBest b p) = (case Best b of None \<Rightarrow> Some p
     | Some q \<Rightarrow> if better (BookSide b) p q then Some p else Some q)"
  by (simp add: updateBest_def split: option.splits)

lemma AddOrder_eq:
  assumes inv: "book_inv b" and sane: "order_sane o1"
  shows "AddOrder b o1 =
    (if Orders b (ID o1) = None \<and> linkable (level_at b (Price o1)) o1 then Some (linked b o1) else None)"
proof -
  let ?p = "Price o1" and ?l = "level_at b (Price o1)"
  note lev = level_okD [OF level_at_ok [OF inv, of ?p]]
  have link: "LinkOrder ?l o1 = (if linkable ?l o1
     then Some (?l\<lparr>Queue := Queue ?l @ [ID o1], TotalQty := TotalQty ?l + remaining o1,
                  OrderCnt := OrderCnt ?l + 1\<rparr>,
                o1\<lparr>DisplayRemaining := display_of o1, Parent := Some (LimitPrice ?l)\<rparr>)
     else None)"
    using lev(3,4,6) level_at_nonneg [OF inv] sane by (intro LinkOrder_eq) simp_all
  show ?thesis
  proof (cases "Limits b ?p")
    case None
    then have "?l = getLimit ?p" by (simp add: level_at_def)
    with None link show ?thesis
      by (auto simp: AddOrder_def linked_def with_level_def open_level_def Let_def
          Best_updateBest intro!: Book.equality split: option.splits)
  next
    case (Some l)
    then have "?l = l" "LimitPrice l = ?p" using lev(1) by (auto simp: level_at_def)
    with Some link show ?thesis
      by (auto simp: AddOrder_def linked_def with_level_def Let_def intro!: Book.equality)
  qed
qed

lemma linked_inv:
  assumes inv: "book_inv b" and link: "linkable (level_at b (Price o1)) o1"
    and new: "Orders b (ID o1) = None"
    and o1: "order_sane o1" "is_i64 (Price o1)" "Side o1 = BookSide b" "display_ok o1"
  shows "book_inv (linked b o1)"
proof -
  let ?p = "Price o1" and ?l = "level_at b (Price o1)" and ?c = "with_level b (Price o1)"
  have inv': "book_inv ?c" by (rule with_level_inv [OF inv])
  have L: "Limits ?c ?p = Some ?l" by simp
  have absent: "ID o1 \<notin> set (Queue k)" if "Limits ?c q = Some k" for q k
    using queue_member [OF inv' that, of "ID o1"] new by auto
  have ice: "Visibility o1 = Iceberg \<Longrightarrow> 0 < IcebergQty o1"
    using link o1(4) by (auto simp: linkable_def display_ok_def)
  show ?thesis
    using link_inv [OF inv' L link o1(1,2) _ _ _ _ ice absent] o1 level_okD(1) [OF level_at_ok [OF inv]]
    by (simp add: linked_def Let_def display_ok_def)
qed

lemma linked_no_empty: "no_empty b \<Longrightarrow> no_empty (linked b o1)"
  by (auto simp: no_empty_def linked_def Let_def level_at_def split: option.splits)

lemma linked_wf:
  assumes "book_wf b" "order_sane o1" "is_i64 (Price o1)" "Side o1 = BookSide b"
    "display_ok o1" "AddOrder b o1 = Some b'"
  shows "book_wf b'" "b' = linked b o1"
  using assms by (auto simp: AddOrder_eq book_wf_def linked_inv linked_no_empty split: if_splits)

lemma linked_book_wf:
  assumes "book_wf b" "Orders b (ID o1) = None" "linkable (level_at b (Price o1)) o1" "order_sane o1"
    "is_i64 (Price o1)" "Side o1 = BookSide b" "display_ok o1"
  shows "book_wf (linked b o1) \<and> BookSide (linked b o1) = BookSide b"
  using assms linked_wf(1) [of b o1] by (simp add: AddOrder_eq book_wf_def) (simp add: linked_def Let_def)

section \<open>Cancellation\<close>

definition unlinked :: "Book \<Rightarrow> uint64 \<Rightarrow> Limit \<Rightarrow> Order \<Rightarrow> Book" where
  "unlinked b i l o1 = b\<lparr>Limits := (Limits b)(LimitPrice l \<mapsto>
       l\<lparr>Queue := remove1 i (Queue l), TotalQty := TotalQty l - remaining o1, OrderCnt := OrderCnt l - 1\<rparr>),
     Orders := (Orders b)(i := None)\<rparr>"

lemma CancelOrder_linked:
  assumes inv: "book_inv b" and o1: "Orders b i = Some o1" and par: "Parent o1 = Some p"
    and L: "Limits b p = Some l"
  shows "CancelOrder b i =
    (if Queue l = [i] then RemoveLimit (unlinked b i l o1) p else unlinked b i l o1,
     Some (o1\<lparr>Parent := None\<rparr>))"
proof -
  note lev = level_okD [OF book_invD(4) [OF inv L]]
  have i: "i \<in> set (Queue l)"
    using order_ok_linkedD(6) [OF book_invD(5) [OF inv o1] par] L by simp
  then have one: "length (Queue l) = 1 \<longleftrightarrow> Queue l = [i]"
    by (auto simp: length_Suc_conv)
  show ?thesis
    using o1 par L lev(1,3) one
    by (simp add: CancelOrder_def UnlinkOrder_eq [OF inv L i o1] unlinked_def IsEmpty_def set_limit_def)
qed

lemma unlinked_inv:
  assumes inv: "book_inv b" and o1: "Orders b i = Some o1" and L: "Limits b p = Some l"
    and i: "i \<in> set (Queue l)"
  shows "book_inv (unlinked b i l o1)"
  using unlink_inv [OF inv L i o1, of None] level_okD(1) [OF book_invD(4) [OF inv L]]
  by (simp add: unlinked_def)

lemma CancelOrder_wf:
  assumes wf: "book_wf b"
  shows "book_wf (fst (CancelOrder b i))" "Orders (fst (CancelOrder b i)) = (Orders b)(i := None)"
proof -
  have inv: "book_inv b" and ne: "no_empty b" using wf by (auto simp: book_wf_def)
  have "book_wf (fst (CancelOrder b i)) \<and> Orders (fst (CancelOrder b i)) = (Orders b)(i := None)"
  proof (cases "Orders b i")
    case None
    then have "Orders b = (Orders b)(i := None)" by auto
    with None wf show ?thesis by (simp add: CancelOrder_def)
  next
    case (Some o1)
    show ?thesis
    proof (cases "Parent o1")
      case None
      have "i \<notin> set (Queue k)" if "Limits b q = Some k" for q k
        using queue_member [OF inv that, of i] Some None by auto
      then have "book_inv (b\<lparr>Orders := (Orders b)(i := None)\<rparr>)"
        using inv by (auto simp: book_inv_def active_head_def split: if_splits
          intro!: level_ok_cong [OF book_invD(4) [OF inv]])
      with None Some ne show ?thesis
        by (simp add: CancelOrder_def book_wf_def no_empty_def)
    next
      case (Some p)
      obtain l where L: "Limits b p = Some l" and i: "i \<in> set (Queue l)"
        using order_ok_linkedD(6) [OF book_invD(5) [OF inv \<open>Orders b i = Some o1\<close>] Some] by blast
      note price = level_okD(1) [OF book_invD(4) [OF inv L]]
      let ?u = "unlinked b i l o1"
      have u: "book_inv ?u" by (rule unlinked_inv [OF inv \<open>Orders b i = Some o1\<close> L i])
      have r: "book_inv (RemoveLimit ?u p)" if "Queue l = [i]"
        using that price
        by (intro RemoveLimit_inv [OF u, where l = "l\<lparr>Queue := [],
          TotalQty := TotalQty l - remaining o1, OrderCnt := OrderCnt l - 1\<rparr>"])
          (simp_all add: unlinked_def)
      have "no_empty ?u" if "Queue l \<noteq> [i]"
        using that ne i by (auto simp: no_empty_def unlinked_def price remove1_Nil_iff)
      moreover have "no_empty (RemoveLimit ?u p)" if "Queue l = [i]"
        using ne by (auto simp: no_empty_def unlinked_def price)
      ultimately show ?thesis
        using u r by (simp add: CancelOrder_linked [OF inv \<open>Orders b i = Some o1\<close> Some L] book_wf_def)
          (simp add: unlinked_def)
    qed
  qed
  then show "book_wf (fst (CancelOrder b i))" "Orders (fst (CancelOrder b i)) = (Orders b)(i := None)"
    by blast+
qed


lemma Active_unlinked [simp]:
  "Active (unlinked b i l o1) = Active b" "Best (unlinked b i l o1) = Best b"
  "BookSide (unlinked b i l o1) = BookSide b"
  by (simp_all add: unlinked_def)

lemma Best_of_inv: "book_inv b \<Longrightarrow> book_inv c \<Longrightarrow> Active b = Active c \<Longrightarrow> Best b = Best c"
  by (simp add: book_invD(3) active_head_def)

text \<open>Cancelling an order that was just inserted restores the book.\<close>

lemma cancel_linked:
  assumes wf: "book_wf b" and new: "Orders b (ID o1) = None"
    and link: "linkable (level_at b (Price o1)) o1"
    and o1: "order_sane o1" "is_i64 (Price o1)" "Side o1 = BookSide b" "display_ok o1"
  shows "CancelOrder (linked b o1) (ID o1) = (b, Some (o1\<lparr>DisplayRemaining := display_of o1\<rparr>))"
proof -
  let ?p = "Price o1" and ?i = "ID o1" and ?l = "level_at b (Price o1)" and ?c = "linked b o1"
  let ?o = "o1\<lparr>DisplayRemaining := display_of o1, Parent := Some ?p\<rparr>"
  let ?l' = "?l\<lparr>Queue := Queue ?l @ [?i], TotalQty := TotalQty ?l + remaining o1,
    OrderCnt := OrderCnt ?l + 1\<rparr>"
  have inv: "book_inv b" and ne: "no_empty b" using wf by (auto simp: book_wf_def)
  have invc: "book_inv ?c" by (rule linked_inv [OF inv link new o1])
  have O: "Orders ?c ?i = Some ?o" and L: "Limits ?c ?p = Some ?l'"
    by (simp_all add: linked_def Let_def)
  have parent: "Parent ?o = Some ?p" by simp
  have price: "LimitPrice ?l = ?p" by (rule level_okD(1) [OF level_at_ok [OF inv]])
  have fresh: "?i \<notin> set (Queue ?l)"
    using queue_member [OF inv, of ?p ?l ?i] new by (auto simp: level_at_def split: option.splits)
  have undo: "Limits (unlinked ?c ?i ?l' ?o) = (Limits b)(?p \<mapsto> ?l)"
    "Orders (unlinked ?c ?i ?l' ?o) = Orders b"
    using price fresh new
    by (auto simp: unlinked_def linked_def Let_def remove1_append remaining_def fun_eq_iff)
  have wfc: "book_inv (fst (CancelOrder ?c ?i))"
    using CancelOrder_wf(1) [of ?c ?i] invc linked_no_empty [OF ne] by (simp add: book_wf_def)
  have "fst (CancelOrder ?c ?i) = b"
  proof (cases "Limits b ?p")
    case None
    then have "Queue ?l' = [?i]" "?p \<notin> set (Active b)"
      using book_invD(2) [OF inv] by (auto simp: level_at_def)
    then have c: "fst (CancelOrder ?c ?i) = RemoveLimit (unlinked ?c ?i ?l' ?o) ?p"
      and a: "Active (fst (CancelOrder ?c ?i)) = Active b"
      using None insert_remove_active [of ?p "Active b" "BookSide b"]
      by (simp_all add: CancelOrder_linked [OF invc O parent L])
        (simp add: linked_def Let_def with_level_def open_level_def)
    have "(Limits b)(?p := None) = Limits b" using None by auto
    with c a undo Best_of_inv [OF wfc inv a] show ?thesis
      by (intro Book.equality) (simp_all add: linked_def Let_def)
  next
    case (Some k)
    then have q: "Queue ?l' \<noteq> [?i]" and k: "?l = k" and a: "Active ?c = Active b"
      using ne by (auto simp: no_empty_def level_at_def linked_def with_level_def Let_def)
    from q have c: "fst (CancelOrder ?c ?i) = unlinked ?c ?i ?l' ?o"
      by (simp add: CancelOrder_linked [OF invc O parent L])
    have "(Limits b)(?p \<mapsto> ?l) = Limits b" using Some k by auto
    with c a undo Best_of_inv [OF invc inv a] show ?thesis
      by (intro Book.equality) (simp_all add: linked_def Let_def)
  qed
  moreover have "snd (CancelOrder ?c ?i) = Some (?o\<lparr>Parent := None\<rparr>)"
    by (simp add: CancelOrder_linked [OF invc O parent L])
  moreover have "?o\<lparr>Parent := None\<rparr> = o1\<lparr>DisplayRemaining := display_of o1\<rparr>"
    using link by (simp add: linkable_def)
  ultimately show ?thesis by (metis prod.collapse)
qed


section \<open>Depth\<close>

definition vis_of :: "(uint64 \<rightharpoonup> Order) \<Rightarrow> uint64 \<Rightarrow> int" where
  "vis_of os i = (case os i of None \<Rightarrow> 0 | Some o1 \<Rightarrow> visible_of o1)"

lemma visible_of_bounds: "order_sane o1 \<Longrightarrow> 0 \<le> visible_of o1 \<and> visible_of o1 \<le> remaining o1"
  by (auto simp: visible_of_def TrySub_remaining order_sane_i64 split: Visibility.splits)

lemma vis_of_bounds:
  assumes "book_inv b"
  shows "0 \<le> vis_of (Orders b) i" "vis_of (Orders b) i \<le> rem_of (Orders b) i"
  using book_invD(5) [OF assms, of i] visible_of_bounds
  by (auto simp: vis_of_def rem_of_def order_ok_def split: option.splits)

lemma visible_loop_eq:
  assumes "book_inv b" "0 \<le> qty" "qty + (\<Sum>i\<leftarrow>is. rem_of (Orders b) i) \<le> MaxInt64"
  shows "visible_loop (Orders b) qty is = qty + (\<Sum>i\<leftarrow>is. vis_of (Orders b) i)"
  using assms(2,3)
proof (induction "is" arbitrary: qty)
  case (Cons i "is")
  have v: "0 \<le> vis_of (Orders b) i" "vis_of (Orders b) i \<le> rem_of (Orders b) i"
    using vis_of_bounds [OF assms(1)] by auto
  have rest: "0 \<le> (\<Sum>j\<leftarrow>is. rem_of (Orders b) j)"
    by (intro sum_list_nonneg_int rem_of_nonneg [OF assms(1)])
  have IH: "visible_loop (Orders b) (qty + vis_of (Orders b) i) is =
      qty + vis_of (Orders b) i + (\<Sum>j\<leftarrow>is. vis_of (Orders b) j)"
    using Cons.prems v rest by (intro Cons.IH) simp_all
  have add: "TryAdd qty (vis_of (Orders b) i) = Some (qty + vis_of (Orders b) i)"
    using Cons.prems v rest by (subst TryAdd_eq) (auto simp: is_i64_def)
  show ?case
  proof (cases "Orders b i")
    case None
    then show ?thesis using IH by (simp add: vis_of_def)
  next
    case (Some o1)
    then show ?thesis using IH add by (cases "visible_of o1 = 0") (simp_all add: vis_of_def)
  qed
qed simp

lemma VisibleQty_eq:
  assumes "book_inv b" "Limits b p = Some l"
  shows "VisibleQty b l = (\<Sum>i\<leftarrow>Queue l. vis_of (Orders b) i)"
    and "0 \<le> VisibleQty b l" "VisibleQty b l \<le> TotalQty l"
proof -
  note lev = level_okD [OF book_invD(4) [OF assms]]
  show eq: "VisibleQty b l = (\<Sum>i\<leftarrow>Queue l. vis_of (Orders b) i)"
    using lev(5,6) by (simp add: VisibleQty_def visible_loop_eq [OF assms(1)])
  show "0 \<le> VisibleQty b l"
    unfolding eq by (intro sum_list_nonneg_int vis_of_bounds [OF assms(1)])
  show "VisibleQty b l \<le> TotalQty l"
    unfolding eq lev(5) by (intro sum_list_mono vis_of_bounds [OF assms(1)])
qed

lemma snapshot_level_eq:
  assumes "book_inv b" "Limits b p = Some l"
  shows "snapshot_level b l = (if TotalQty l > 0
    then Some \<lparr>LevelPrice = p, LevelVisibleQty = VisibleQty b l,
               LevelHiddenQty = TotalQty l - VisibleQty b l\<rparr> else None)"
proof -
  note v = VisibleQty_eq [OF assms]
  have "TrySub (TotalQty l) (VisibleQty b l) = Some (TotalQty l - VisibleQty b l)"
    using v level_okD(6) [OF book_invD(4) [OF assms]] by (subst TrySub_eq) (auto simp: is_i64_def)
  with v level_okD(1) [OF book_invD(4) [OF assms]] show ?thesis
    by (auto simp: snapshot_level_def Let_def)
qed

lemma collect_levels_eq:
  "collect_levels f b acc ps = (if length acc \<le> 20
     then acc @ take (20 - length acc) (List.map_filter (\<lambda>p. Option.bind (Limits b p) f) ps)
     else acc)"
  by (induction f b acc ps rule: collect_levels.induct)
     (auto simp: map_filter_simps take_Cons' split: option.splits)

lemma wf_TotalQty_pos:
  assumes "book_wf b" "Limits b p = Some l" shows "0 < TotalQty l"
proof -
  have inv: "book_inv b" using assms by (simp add: book_wf_def)
  obtain i where i: "i \<in> set (Queue l)"
    using assms by (cases "Queue l") (auto simp: book_wf_def no_empty_def)
  then obtain o1 where o1: "Orders b i = Some o1" "Parent o1 = Some p"
    and ok: "order_ok (BookSide b) (Limits b) i o1"
    using queue_member [OF inv assms(2)] by blast
  have "0 < rem_of (Orders b) i" using order_ok_linkedD(5) [OF ok o1(2)] o1 by (simp add: rem_of_def)
  with rem_of_le_TotalQty [OF inv assms(2) i] show ?thesis by simp
qed

lemma map_filter_total:
  "(\<And>p. p \<in> set ps \<Longrightarrow> f p = Some (g p)) \<Longrightarrow> List.map_filter f ps = map g ps"
  by (induction ps) (simp_all add: map_filter_simps)

lemma snapshot_facts:
  assumes "book_wf b"
  shows "GetSnapshot b = map (\<lambda>p. \<lparr>LevelPrice = p, LevelVisibleQty = VisibleQty b (level_at b p),
        LevelHiddenQty = TotalQty (level_at b p) - VisibleQty b (level_at b p)\<rparr>) (take 20 (Active b))"
    and "GetPublicSnapshot b = take 20 (map (\<lambda>p. \<lparr>LevelPrice = p,
        LevelVisibleQty = VisibleQty b (level_at b p), LevelHiddenQty = 0\<rparr>)
          (filter (\<lambda>p. VisibleQty b (level_at b p) > 0) (Active b)))"
    and "p \<in> set (Active b) \<Longrightarrow> VisibleQty b (level_at b p) = (\<Sum>i\<leftarrow>Queue (level_at b p). vis_of (Orders b) i)
        \<and> VisibleQty b (level_at b p) \<le> TotalQty (level_at b p)"
proof -
  have inv: "book_inv b" using assms by (simp add: book_wf_def)
  have L: "Limits b q = Some (level_at b q)" if "q \<in> set (Active b)" for q
    using that book_invD(2) [OF inv] by (auto simp: level_at_def)
  show "GetSnapshot b = map (\<lambda>p. \<lparr>LevelPrice = p, LevelVisibleQty = VisibleQty b (level_at b p),
        LevelHiddenQty = TotalQty (level_at b p) - VisibleQty b (level_at b p)\<rparr>) (take 20 (Active b))"
    unfolding GetSnapshot_def collect_levels_eq
    by (subst map_filter_total [where g = "\<lambda>p. \<lparr>LevelPrice = p, LevelVisibleQty = VisibleQty b (level_at b p),
        LevelHiddenQty = TotalQty (level_at b p) - VisibleQty b (level_at b p)\<rparr>"])
      (simp_all add: L snapshot_level_eq [OF inv L] wf_TotalQty_pos [OF assms L] take_map)
  have "List.map_filter (\<lambda>p. Option.bind (Limits b p) (public_level b)) ps = map (\<lambda>p. \<lparr>LevelPrice = p,
        LevelVisibleQty = VisibleQty b (level_at b p), LevelHiddenQty = 0\<rparr>)
          (filter (\<lambda>p. VisibleQty b (level_at b p) > 0) ps)" if "set ps \<subseteq> set (Active b)" for ps
    using that by (induction ps)
      (auto simp: map_filter_simps L public_level_def Let_def level_okD(1) [OF book_invD(4) [OF inv L]])
  from this [of "Active b"] show "GetPublicSnapshot b = take 20 (map (\<lambda>p. \<lparr>LevelPrice = p,
        LevelVisibleQty = VisibleQty b (level_at b p), LevelHiddenQty = 0\<rparr>)
          (filter (\<lambda>p. VisibleQty b (level_at b p) > 0) (Active b)))"
    by (simp add: GetPublicSnapshot_def collect_levels_eq)
  show "VisibleQty b (level_at b p) = (\<Sum>i\<leftarrow>Queue (level_at b p). vis_of (Orders b) i)
        \<and> VisibleQty b (level_at b p) \<le> TotalQty (level_at b p)" if "p \<in> set (Active b)"
    using VisibleQty_eq [OF inv L [OF that]] by simp
qed

text \<open>What a cancellation leaves of every level.\<close>

definition without :: "uint64 \<Rightarrow> (uint64 \<rightharpoonup> Order) \<Rightarrow> Limit \<Rightarrow> Limit" where
  "without i os l = (if i \<in> set (Queue l) then l\<lparr>Queue := remove1 i (Queue l), TotalQty := TotalQty l - rem_of os i,
     OrderCnt := OrderCnt l - 1\<rparr> else l)"

lemma without_absent: "i \<notin> set (Queue l) \<Longrightarrow> without i os l = l"
  by (simp add: without_def)

lemma CancelOrder_levels:
  assumes wf: "book_wf b"
  shows "Limits (fst (CancelOrder b i)) p =
      (if Queue (level_at b p) = [i] then None else map_option (without i (Orders b)) (Limits b p))"
    "Active (fst (CancelOrder b i)) = filter (\<lambda>p. Queue (level_at b p) \<noteq> [i]) (Active b)"
    "BookSide (fst (CancelOrder b i)) = BookSide b"
proof -
  have inv: "book_inv b" using wf by (simp add: book_wf_def)
  have "(\<forall>p. Limits (fst (CancelOrder b i)) p =
      (if Queue (level_at b p) = [i] then None else map_option (without i (Orders b)) (Limits b p))) \<and>
    Active (fst (CancelOrder b i)) = filter (\<lambda>p. Queue (level_at b p) \<noteq> [i]) (Active b) \<and>
    BookSide (fst (CancelOrder b i)) = BookSide b"
  proof (cases "\<exists>o1 p. Orders b i = Some o1 \<and> Parent o1 = Some p")
    case False
    have "i \<notin> set (Queue k)" if "Limits b q = Some k" for q k
      using queue_member [OF inv that, of i] False by auto
    then have out: "i \<notin> set (Queue (level_at b q))" for q by (auto simp: level_at_def split: option.splits)
    then have "Queue (level_at b q) \<noteq> [i]" for q by (metis list.set_intros(1))
    moreover have "map_option (without i (Orders b)) (Limits b q) = Limits b q" for q
      using out [of q] by (cases "Limits b q") (auto simp: without_absent level_at_def)
    moreover have "Limits (fst (CancelOrder b i)) = Limits b \<and> Active (fst (CancelOrder b i)) = Active b \<and>
        BookSide (fst (CancelOrder b i)) = BookSide b"
      using False by (cases "Orders b i"; cases "Parent (the (Orders b i))") (auto simp: CancelOrder_def)
    ultimately show ?thesis by simp
  next
    case True
    then obtain o1 q where o1: "Orders b i = Some o1" and par: "Parent o1 = Some q" by blast
    obtain l where L: "Limits b q = Some l" and i: "i \<in> set (Queue l)"
      using order_ok_linkedD(6) [OF book_invD(5) [OF inv o1] par] by blast
    have at: "level_at b q = l" using L by (simp add: level_at_def)
    have price: "LimitPrice l = q" by (rule level_okD(1) [OF book_invD(4) [OF inv L]])
    have other: "i \<notin> set (Queue (level_at b r))" if "r \<noteq> q" for r
      using queue_unique [OF inv L i] that by (auto simp: level_at_def split: option.splits)
    then have sole: "Queue (level_at b r) = [i] \<longleftrightarrow> r = q \<and> Queue l = [i]" for r using at by (metis list.set_intros(1))
    have keep: "map_option (without i (Orders b)) (Limits b r) = Limits b r" if "r \<noteq> q" for r
      using other [OF that] by (cases "Limits b r") (auto simp: without_absent level_at_def)
    have at_q: "without i (Orders b) l = l\<lparr>Queue := remove1 i (Queue l), TotalQty := TotalQty l - remaining o1, OrderCnt := OrderCnt l - 1\<rparr>"
      using i o1 by (simp add: without_def rem_of_def)
    have act: "q \<in> set (Active b)" "distinct (Active b)"
      using book_invD(1,2) [OF inv] L sorted_better_distinct by auto
    have "filter (\<lambda>r. Queue (level_at b r) \<noteq> [i]) (Active b) = (if Queue l = [i] then remove1 q (Active b) else Active b)"
      using act(2) by (auto simp: sole distinct_remove1_removeAll removeAll_filter_not_eq intro: filter_cong)
    then show ?thesis
      using keep at_q L price by (auto simp: CancelOrder_linked [OF inv o1 par L] sole unlinked_def)
  qed
  then show "Limits (fst (CancelOrder b i)) p =
      (if Queue (level_at b p) = [i] then None else map_option (without i (Orders b)) (Limits b p))"
    "Active (fst (CancelOrder b i)) = filter (\<lambda>p. Queue (level_at b p) \<noteq> [i]) (Active b)"
    "BookSide (fst (CancelOrder b i)) = BookSide b" by blast+
qed


section \<open>Properties\<close>

text \<open>C5: a successful insertion keeps the whole representation invariant (priority order of
  the levels, best pointer, level aggregates and counts, ownership of the queues), appends
  the order at the tail of its price level's queue and adds its remaining quantity to that
  level; every other level and order is untouched. It fails only for a duplicate ID or an
  order the level cannot take.\<close>

theorem AddOrder_correct:
  assumes "book_wf b" "order_sane o1" "is_i64 (Price o1)" "Side o1 = BookSide b"
    "display_ok o1"
  shows "(case AddOrder b o1 of
      None \<Rightarrow> Orders b (ID o1) \<noteq> None \<or> \<not> linkable (level_at b (Price o1)) o1
    | Some b' \<Rightarrow> book_wf b' \<and>
        Queue (level_at b' (Price o1)) = Queue (level_at b (Price o1)) @ [ID o1] \<and>
        TotalQty (level_at b' (Price o1)) = TotalQty (level_at b (Price o1)) + remaining o1 \<and>
        (\<forall>q. q \<noteq> Price o1 \<longrightarrow> Limits b' q = Limits b q) \<and>
        (\<forall>i. i \<noteq> ID o1 \<longrightarrow> Orders b' i = Orders b i))"
proof (cases "AddOrder b o1")
  case None
  with assms show ?thesis by (auto simp: AddOrder_eq book_wf_def split: if_splits)
next
  case (Some b')
  have "level_at (linked b o1) (Price o1) = (level_at b (Price o1))\<lparr>
      Queue := Queue (level_at b (Price o1)) @ [ID o1],
      TotalQty := TotalQty (level_at b (Price o1)) + remaining o1,
      OrderCnt := OrderCnt (level_at b (Price o1)) + 1\<rparr>"
    by (simp add: linked_def level_at_def [of "_\<lparr>Orders := _\<rparr>"] Let_def)
  with Some linked_wf [OF assms Some] show ?thesis
    by (simp add: linked_def Let_def)
qed


definition sample_order :: "uint64 \<Rightarrow> uint64 \<Rightarrow> Side \<Rightarrow> int64 \<Rightarrow> int64 \<Rightarrow> Order" where
  "sample_order i client side price qty =
     \<lparr>ID = i, ClientID = client, Side = side, PositionSide = PositionBoth, Type = LimitOrder,
      TimeInForce = GTC, PostOnly = False, Price = price, Qty = qty, FilledQty = 0,
      Visibility = Normal, IcebergQty = 0, DisplayRemaining = 0, Status = Open, Timestamp = 0,
      Reserved = 0, FeeReserved = [], Parent = None\<rparr>"

lemma NewBook_wf: "book_wf (NewBook s)"
  by (simp add: book_wf_def book_inv_def no_empty_def NewBook_def active_head_def)

lemma sample_order_simps [simp]:
  "ID (sample_order i c s p q) = i" "Price (sample_order i c s p q) = p"
  "Side (sample_order i c s p q) = s" "DisplayRemaining (sample_order i c s p q) = 0"
  "display_ok (sample_order i c s p q)"
  "remaining (sample_order i c s p q) = q" "Parent (sample_order i c s p q) = None"
  "order_sane (sample_order i c s p q) = (0 \<le> q \<and> q \<le> MaxInt64)"
  "Visibility (sample_order i c s p q) = Normal" "ClientID (sample_order i c s p q) = c"
  by (simp_all add: sample_order_def remaining_def display_ok_def order_sane_def)

lemma sample_linkable:
  "linkable (level_at (NewBook s) p) (sample_order i c s' p' q) \<longleftrightarrow> 0 < q \<and> q \<le> MaxInt64"
  by (simp add: linkable_def level_at_def NewBook_def)

theorem AddOrder_correct_witness:
  "case AddOrder (NewBook Sell) (sample_order 7 1 Sell 100 5) of
     None \<Rightarrow> False | Some b' \<Rightarrow> book_wf b' \<and> Queue (level_at b' 100) = [7] \<and> TotalQty (level_at b' 100) = 5"
proof -
  have "AddOrder (NewBook Sell) (sample_order 7 1 Sell 100 5) \<noteq> None"
    using NewBook_wf [of Sell] by (simp add: AddOrder_eq book_wf_def sample_linkable) (simp add: NewBook_def)
  then show ?thesis
    using AddOrder_correct [OF NewBook_wf [of Sell], of "sample_order 7 1 Sell 100 5"]
    by (auto simp: is_i64_def NewBook_def level_at_def [of "_\<lparr>BookSide := _\<rparr>"] split: option.splits)
      (simp_all add: level_at_def)
qed

text \<open>C6: cancelling is total and removes exactly the named order. On a well-formed book it keeps the invariant
  and returns the removed order, detached from its level. No other order changes. The level the order stood in
  loses it from its queue, its remaining quantity from its total and one from its count, and the orders behind
  and before it keep their places in the queue; the level disappears exactly when the order was alone there.
  Every other level, and the priority order of the levels, is what it was.\<close>

theorem CancelOrder_correct:
  assumes "book_wf b"
  shows "book_wf (fst (CancelOrder b i)) \<and> BookSide (fst (CancelOrder b i)) = BookSide b \<and>
    Orders (fst (CancelOrder b i)) = (Orders b)(i := None) \<and>
    snd (CancelOrder b i) = map_option (\<lambda>o1. o1\<lparr>Parent := None\<rparr>) (Orders b i) \<and>
    (\<forall>p. Limits (fst (CancelOrder b i)) p = (case Limits b p of
        None \<Rightarrow> None
      | Some l \<Rightarrow> if i \<notin> set (Queue l) then Some l
          else if Queue l = [i] then None
          else Some (l\<lparr>Queue := remove1 i (Queue l), TotalQty := TotalQty l - rem_of (Orders b) i, OrderCnt := OrderCnt l - 1\<rparr>))) \<and>
    Active (fst (CancelOrder b i)) = filter (\<lambda>p. Queue (level_at b p) \<noteq> [i]) (Active b)"
proof -
  have inv: "book_inv b" using assms by (simp add: book_wf_def)
  have "snd (CancelOrder b i) = map_option (\<lambda>o1. o1\<lparr>Parent := None\<rparr>) (Orders b i)"
  proof (cases "Orders b i")
    case (Some o1)
    show ?thesis
    proof (cases "Parent o1")
      case None
      then have "o1\<lparr>Parent := None\<rparr> = o1" by simp
      with None Some show ?thesis by (simp add: CancelOrder_def)
    next
      case (Some p)
      with order_ok_linkedD(6) [OF book_invD(5) [OF inv \<open>Orders b i = Some o1\<close>] Some] show ?thesis
        using CancelOrder_linked [OF inv \<open>Orders b i = Some o1\<close> Some] \<open>Orders b i = Some o1\<close> by auto
    qed
  qed (simp add: CancelOrder_def)
  with CancelOrder_wf [OF assms, of i] CancelOrder_levels [OF assms, of i] show ?thesis
    by (auto simp: without_def level_at_def split: option.splits)
qed

text \<open>Three orders of different clients at one price; the second one is cancelled.\<close>

definition three_bids :: Book where
  "three_bids = linked (linked (linked (NewBook Buy) (sample_order 1 9 Buy 50 3)) (sample_order 2 8 Buy 50 4)) (sample_order 3 7 Buy 50 6)"

lemma three_bids_wf: "book_wf three_bids"
proof -
  let ?b1 = "linked (NewBook Buy) (sample_order 1 9 Buy 50 3)"
  let ?b2 = "linked ?b1 (sample_order 2 8 Buy 50 4)"
  have 1: "book_wf ?b1 \<and> BookSide ?b1 = BookSide (NewBook Buy)"
    by (intro linked_book_wf [OF NewBook_wf]) (simp_all add: is_i64_def sample_linkable, simp_all add: NewBook_def)
  have c2: "Orders ?b1 2 = None" "linkable (level_at ?b1 50) (sample_order 2 8 Buy 50 4)" "BookSide ?b1 = Buy" by code_simp+
  have 2: "book_wf ?b2 \<and> BookSide ?b2 = BookSide ?b1"
    by (intro linked_book_wf 1 [THEN conjunct1]) (simp_all add: is_i64_def c2)
  have c3: "Orders ?b2 3 = None" "linkable (level_at ?b2 50) (sample_order 3 7 Buy 50 6)" "BookSide ?b2 = Buy" by code_simp+
  show ?thesis
    unfolding three_bids_def by (intro linked_book_wf [THEN conjunct1] 2 [THEN conjunct1]) (simp_all add: is_i64_def c3)
qed

theorem CancelOrder_correct_witness:
  "Queue (level_at three_bids 50) = [1, 2, 3] \<and> map_option ClientID (snd (CancelOrder three_bids 2)) = Some 8 \<and>
   (\<exists>l. Limits (fst (CancelOrder three_bids 2)) 50 = Some l \<and> Queue l = [1, 3] \<and> TotalQty l = 9 \<and> OrderCnt l = 2) \<and>
   Active (fst (CancelOrder three_bids 2)) = [50] \<and> book_wf (fst (CancelOrder three_bids 2))"
proof -
  have L: "Limits three_bids 50 = Some \<lparr>LimitPrice = 50, TotalQty = 13, OrderCnt = 3, Queue = [1, 2, 3]\<rparr>"
    "Active three_bids = [50]" "rem_of (Orders three_bids) 2 = 4" "map_option ClientID (Orders three_bids 2) = Some 8" by code_simp+
  note C = CancelOrder_correct [OF three_bids_wf, of 2]
  from C have "Limits (fst (CancelOrder three_bids 2)) 50 = Some \<lparr>LimitPrice = 50, TotalQty = 9, OrderCnt = 2, Queue = [1, 3]\<rparr>"
    by (simp add: L)
  with C L show ?thesis by (cases "Orders three_bids 2") (auto simp: level_at_def)
qed

text \<open>Insertion and cancellation are inverse: cancelling an order right after it was
  inserted gives back exactly the book it was inserted into, including the best pointer
  and the set of levels.\<close>

theorem add_cancel_roundtrip:
  assumes "book_wf b" "order_sane o1" "is_i64 (Price o1)" "Side o1 = BookSide b"
    "display_ok o1" "AddOrder b o1 = Some b'"
  shows "fst (CancelOrder b' (ID o1)) = b"
proof -
  have "Orders b (ID o1) = None \<and> linkable (level_at b (Price o1)) o1 \<and> b' = linked b o1"
    using assms by (simp add: AddOrder_eq book_wf_def split: if_splits)
  with cancel_linked [OF assms(1) _ _ assms(2-5)] show ?thesis by simp
qed

theorem add_cancel_roundtrip_witness:
  "\<exists>b'. AddOrder (NewBook Buy) (sample_order 1 9 Buy 50 3) = Some b' \<and>
        fst (CancelOrder b' 1) = NewBook Buy"
proof -
  have add: "AddOrder (NewBook Buy) (sample_order 1 9 Buy 50 3) =
      Some (linked (NewBook Buy) (sample_order 1 9 Buy 50 3))"
    using NewBook_wf [of Buy] by (simp add: AddOrder_eq book_wf_def sample_linkable) (simp add: NewBook_def)
  show ?thesis
    using add_cancel_roundtrip [OF NewBook_wf _ _ _ _ add] add
    by (simp add: is_i64_def) (simp add: NewBook_def)
qed

text \<open>The depth snapshots are accurate. On a well-formed book the internal snapshot is
  the first twenty levels in priority order, and visible plus hidden quantity of each is
  exactly its aggregate; the public snapshot reports only levels with displayed quantity and
  no hidden quantity, and a level's displayed quantity is the sum over its queue of what
  each order shows, never more than the level holds.\<close>

theorem snapshots_accurate:
  assumes "book_wf b"
  shows "GetSnapshot b = map (\<lambda>p. \<lparr>LevelPrice = p, LevelVisibleQty = VisibleQty b (level_at b p),
        LevelHiddenQty = TotalQty (level_at b p) - VisibleQty b (level_at b p)\<rparr>) (take 20 (Active b)) \<and>
    GetPublicSnapshot b = take 20 (map (\<lambda>p. \<lparr>LevelPrice = p,
        LevelVisibleQty = VisibleQty b (level_at b p), LevelHiddenQty = 0\<rparr>)
          (filter (\<lambda>p. VisibleQty b (level_at b p) > 0) (Active b))) \<and>
    (\<forall>p\<in>set (Active b).
       VisibleQty b (level_at b p) = (\<Sum>i\<leftarrow>Queue (level_at b p). vis_of (Orders b) i) \<and>
       VisibleQty b (level_at b p) \<le> TotalQty (level_at b p))"
  using snapshot_facts [OF assms] by blast

theorem snapshots_accurate_witness:
  "\<exists>b'. AddOrder (NewBook Buy) (sample_order 1 9 Buy 50 3) = Some b' \<and>
     GetPublicSnapshot b' = [\<lparr>LevelPrice = 50, LevelVisibleQty = 3, LevelHiddenQty = 0\<rparr>]"
proof -
  let ?b = "linked (NewBook Buy) (sample_order 1 9 Buy 50 3)"
  have add: "AddOrder (NewBook Buy) (sample_order 1 9 Buy 50 3) = Some ?b"
    using NewBook_wf [of Buy] by (simp add: AddOrder_eq book_wf_def sample_linkable) (simp add: NewBook_def)
  have "book_wf ?b"
    by (rule linked_wf(1) [OF NewBook_wf _ _ _ _ add]) (simp_all add: is_i64_def, simp add: NewBook_def)
  from snapshots_accurate [OF this] have "GetPublicSnapshot ?b = take 20 (map (\<lambda>p. \<lparr>LevelPrice = p,
        LevelVisibleQty = VisibleQty ?b (level_at ?b p), LevelHiddenQty = 0\<rparr>)
          (filter (\<lambda>p. VisibleQty ?b (level_at ?b p) > 0) (Active ?b)))" by blast
  also have "\<dots> = [\<lparr>LevelPrice = 50, LevelVisibleQty = 3, LevelHiddenQty = 0\<rparr>]" by code_simp
  finally show ?thesis using add by blast
qed

end
