(* ===== verification/Matching_Core.thy ===== *)
theory Matching_Core
  imports Book_Invariant "HOL-Library.Multiset"
begin

text \<open>
  What the two matching engines share (\<open>matching/matching.go\<close>, and \<open>CanMatch\<close>,
  \<open>shouldMatch\<close> and \<open>execute\<close> of \<open>matching/default.go\<close>): the quantity a resting order
  offers, the refresh of an iceberg's display tranche, and one execution. The lemmas describe
  the effect of one fill on a level without wrap-around or failure branches.

  The clock is a parameter: \<open>clock k\<close> is its reading at the \<open>k\<close>-th execution of a match.
\<close>

definition makerAvailable :: "Order \<Rightarrow> int64" where
  "makerAvailable order =
     (let rest = i64 (Qty order - FilledQty order)
      in if Visibility order \<noteq> Iceberg then rest
         else let display = DisplayRemaining order
              in if display \<le> 0 then 0 else if display < rest then display else rest)"

definition refreshIcebergTranche :: "Limit \<Rightarrow> Order \<Rightarrow> Limit \<times> Order" where
  "refreshIcebergTranche limit order =
     (if Visibility order \<noteq> Iceberg \<or> Parent order = None then (limit, order)
      else
        let rest = i64 (Qty order - FilledQty order)
        in if rest \<le> 0 \<or> DisplayRemaining order > 0 then (limit, order)
           else
             let (limit1, order1) = UnlinkOrder limit order;
                 tranche = (if IcebergQty order > rest then rest else IcebergQty order);
                 order2 = order1\<lparr>DisplayRemaining := tranche\<rparr>
             in case LinkOrder limit1 order2 of
                  Some (limit3, order3) \<Rightarrow> (limit3, order3)
                | None \<Rightarrow> (limit1, order2\<lparr>Status := Cancelled\<rparr>))"

definition CanMatch :: "Order \<Rightarrow> int64 \<Rightarrow> bool" where
  "CanMatch incoming levelPrice =
     (if Type incoming = Market then True
      else if Side incoming = Buy then Price incoming \<ge> levelPrice
      else Price incoming \<le> levelPrice)"

definition shouldMatch :: "Order \<Rightarrow> Order \<Rightarrow> bool" where
  "shouldMatch incoming resting \<longleftrightarrow> ClientID incoming \<noteq> ClientID resting"

text \<open>The \<open>None\<close> branch is the panic of a zero-quantity execution.\<close>

definition execute :: "timestamp \<Rightarrow> Order \<Rightarrow> Order \<Rightarrow> (Order \<times> Order \<times> Execution) option" where
  "execute now taker maker =
     (let execQty = min (i64 (Qty taker - FilledQty taker)) (makerAvailable maker)
      in if execQty \<le> 0 then None
         else
           let taker1 = taker\<lparr>FilledQty := i64 (FilledQty taker + execQty)\<rparr>;
               maker1 = maker\<lparr>FilledQty := i64 (FilledQty maker + execQty)\<rparr>;
               maker2 = (if Visibility maker1 = Iceberg \<and> DisplayRemaining maker1 > 0
                         then maker1\<lparr>DisplayRemaining := i64 (DisplayRemaining maker1 - execQty)\<rparr>
                         else maker1)
           in Some (taker1, maker2,
                \<lparr>TakerOrderID = ID taker1, MakerOrderID = ID maker2,
                 TakerClientID = ClientID taker1, MakerClientID = ClientID maker2,
                 ExecPrice = Price maker2, ExecQty = execQty, ExecTimestamp = now,
                 TakerFilledQty = FilledQty taker1, MakerFilledQty = FilledQty maker2,
                 MakerTotalQty = Qty maker2, MakerSide = Side maker2,
                 MakerPosSide = PositionSide maker2\<rparr>))"

text \<open>The state of a match: the opposite book, the incoming order and the executions so far.\<close>

record mstate =
  MBook :: Book
  MTaker :: Order
  MExecs :: "Execution list"

section \<open>One fill, arithmetically\<close>

definition fill_order :: "int \<Rightarrow> Order \<Rightarrow> Order" where
  "fill_order q o1 = o1\<lparr>FilledQty := FilledQty o1 + q,
     DisplayRemaining := (if Visibility o1 = Iceberg then DisplayRemaining o1 - q else DisplayRemaining o1)\<rparr>"

text \<open>The level, the order and the refresh flag after a fill of \<open>q\<close>: a filled order leaves
  the queue, an exhausted tranche sends the order to the back with a new tranche, and any
  other order keeps its place.\<close>

definition hit :: "int \<Rightarrow> Limit \<Rightarrow> Order \<Rightarrow> Limit \<times> Order \<times> bool" where
  "hit q l o1 =
     (if remaining o1 = q
      then (l\<lparr>Queue := remove1 (ID o1) (Queue l), TotalQty := TotalQty l - q, OrderCnt := OrderCnt l - 1\<rparr>,
            (fill_order q o1)\<lparr>Status := Filled, Parent := None\<rparr>, False)
      else if Visibility o1 = Iceberg \<and> DisplayRemaining o1 = q
      then (l\<lparr>Queue := remove1 (ID o1) (Queue l) @ [ID o1], TotalQty := TotalQty l - q\<rparr>,
            (fill_order q o1)\<lparr>Status := PartialFill,
              DisplayRemaining := min (IcebergQty o1) (remaining o1 - q)\<rparr>, True)
      else (l\<lparr>TotalQty := TotalQty l - q\<rparr>, (fill_order q o1)\<lparr>Status := PartialFill\<rparr>, False))"

lemma fill_order_simps [simp]:
  "ID (fill_order q o1) = ID o1" "Qty (fill_order q o1) = Qty o1" "Side (fill_order q o1) = Side o1"
  "ClientID (fill_order q o1) = ClientID o1" "Price (fill_order q o1) = Price o1"
  "Visibility (fill_order q o1) = Visibility o1" "IcebergQty (fill_order q o1) = IcebergQty o1"
  "Parent (fill_order q o1) = Parent o1" "remaining (fill_order q o1) = remaining o1 - q"
  "FilledQty (fill_order q o1) = FilledQty o1 + q"
  by (simp_all add: fill_order_def remaining_def)

lemma fill_order_sane: "order_sane o1 \<Longrightarrow> 0 \<le> q \<Longrightarrow> q \<le> remaining o1 \<Longrightarrow> order_sane (fill_order q o1)"
  by (simp add: order_sane_def remaining_def)

text \<open>A resting order of the book, with everything the invariant says about it.\<close>

definition resting :: "Book \<Rightarrow> int64 \<Rightarrow> Limit \<Rightarrow> uint64 \<Rightarrow> Order \<Rightarrow> bool" where
  "resting b p l i o1 \<longleftrightarrow> book_inv b \<and> Limits b p = Some l \<and> i \<in> set (Queue l) \<and> Orders b i = Some o1"

lemma restingD:
  assumes "resting b p l i o1"
  shows "book_inv b" "Limits b p = Some l" "i \<in> set (Queue l)" "Orders b i = Some o1"
    "Parent o1 = Some p" "ID o1 = i" "Price o1 = p" "Side o1 = BookSide b" "order_sane o1"
    "is_i64 (Price o1)" "0 < remaining o1"
    "Visibility o1 = Iceberg \<Longrightarrow> 0 < IcebergQty o1" "Visibility o1 = Iceberg \<Longrightarrow> 0 < DisplayRemaining o1"
    "Visibility o1 = Iceberg \<Longrightarrow> DisplayRemaining o1 \<le> MaxInt64"
    "remaining o1 \<le> TotalQty l" "TotalQty l \<le> MaxInt64" "LimitPrice l = p" "distinct (Queue l)"
    "OrderCnt l = int (length (Queue l))" "OrderCnt l \<le> MaxInt32"
proof -
  show b: "book_inv b" and l: "Limits b p = Some l" and i: "i \<in> set (Queue l)"
    and o1: "Orders b i = Some o1"
    using assms by (auto simp: resting_def)
  note lev = level_okD [OF book_invD(4) [OF b l]]
  show par: "Parent o1 = Some p" using lev(7) [OF i] o1 by auto
  note ok = book_invD(5) [OF b o1]
  show "ID o1 = i" "Price o1 = p" "Side o1 = BookSide b" "order_sane o1" "is_i64 (Price o1)"
    "0 < remaining o1" "Visibility o1 = Iceberg \<Longrightarrow> 0 < IcebergQty o1"
    "Visibility o1 = Iceberg \<Longrightarrow> 0 < DisplayRemaining o1"
    "Visibility o1 = Iceberg \<Longrightarrow> DisplayRemaining o1 \<le> MaxInt64"
    using ok par by (auto simp: order_ok_def linked_ok_def)
  show "remaining o1 \<le> TotalQty l" using rem_of_le_TotalQty [OF b l i] o1 by (simp add: rem_of_def)
  show "TotalQty l \<le> MaxInt64" "LimitPrice l = p" "distinct (Queue l)"
    "OrderCnt l = int (length (Queue l))" "OrderCnt l \<le> MaxInt32"
    using lev by auto
qed

lemma makerAvailable_eq:
  assumes "resting b p l i o1"
  shows "makerAvailable o1 = (if Visibility o1 = Iceberg then min (DisplayRemaining o1) (remaining o1) else remaining o1)"
    "0 < makerAvailable o1" "makerAvailable o1 \<le> remaining o1"
  using restingD(9,11,13,14) [OF assms] order_sane_i64(6) [of o1]
  by (auto simp: makerAvailable_def Let_def min_def)

definition fill_qty :: "Order \<Rightarrow> Order \<Rightarrow> int" where
  "fill_qty taker maker = min (remaining taker) (makerAvailable maker)"

definition exec_record :: "timestamp \<Rightarrow> Order \<Rightarrow> Order \<Rightarrow> Execution" where
  "exec_record now taker maker =
     \<lparr>TakerOrderID = ID taker, MakerOrderID = ID maker, TakerClientID = ClientID taker,
      MakerClientID = ClientID maker, ExecPrice = Price maker, ExecQty = fill_qty taker maker,
      ExecTimestamp = now, TakerFilledQty = FilledQty taker + fill_qty taker maker,
      MakerFilledQty = FilledQty maker + fill_qty taker maker, MakerTotalQty = Qty maker,
      MakerSide = Side maker, MakerPosSide = PositionSide maker\<rparr>"

lemma fill_qty_bounds:
  assumes "resting b p l i o1" "order_sane taker" "0 < remaining taker"
  shows "0 < fill_qty taker o1" "fill_qty taker o1 \<le> remaining taker" "fill_qty taker o1 \<le> remaining o1"
    "Visibility o1 = Iceberg \<Longrightarrow> fill_qty taker o1 \<le> DisplayRemaining o1"
  using makerAvailable_eq [OF assms(1)] assms(3) by (auto simp: fill_qty_def split: if_splits)

lemma execute_eq:
  assumes r: "resting b p l i o1" and t: "order_sane taker" "0 < remaining taker"
  shows "execute now taker o1 =
    Some (taker\<lparr>FilledQty := FilledQty taker + fill_qty taker o1\<rparr>, fill_order (fill_qty taker o1) o1,
          exec_record now taker o1)"
proof -
  let ?q = "fill_qty taker o1"
  note q = fill_qty_bounds [OF r t]
  have q_eq: "min (i64 (Qty taker - FilledQty taker)) (makerAvailable o1) = ?q"
    using order_sane_i64(6) [OF t(1)] by (simp add: fill_qty_def)
  have "i64 (FilledQty taker + ?q) = FilledQty taker + ?q"
    using t(1) q by (intro i64_id) (auto simp: order_sane_def remaining_def is_i64_def)
  moreover have "i64 (FilledQty o1 + ?q) = FilledQty o1 + ?q"
    using restingD(9) [OF r] q by (intro i64_id) (auto simp: order_sane_def remaining_def is_i64_def)
  moreover have "Visibility o1 = Iceberg \<Longrightarrow> i64 (DisplayRemaining o1 - ?q) = DisplayRemaining o1 - ?q"
    using q restingD(13,14) [OF r] order_sane_i64(5) [OF restingD(9) [OF r]]
    by (intro i64_id) (auto simp: is_i64_def)
  ultimately show ?thesis
    using q restingD(13) [OF r]
    by (auto simp: execute_def q_eq Let_def exec_record_def fill_order_def)
qed


section \<open>The effect of a fill on the book\<close>

lemma sum_list_mset_cong:
  "mset xs = mset ys \<Longrightarrow> (\<Sum>x\<leftarrow>xs. f x) = (\<Sum>x\<leftarrow>ys. f x)" for f :: "'a \<Rightarrow> int"
  by (metis mset_map sum_mset_sum_list)

text \<open>A partial fill, with the order in place or moved to another position of the queue.\<close>

lemma partial_fill_inv:
  assumes r: "resting b p l i o1"
    and perm: "mset qs = mset (Queue l)"
    and x: "remaining x = remaining o1 - q" "0 \<le> q" "q < remaining o1" "Parent x = Some p"
      "ID x = i" "Side x = Side o1" "Price x = Price o1" "order_sane x"
      "Visibility x = Iceberg \<Longrightarrow> 0 < IcebergQty x \<and> 0 < DisplayRemaining x \<and> DisplayRemaining x \<le> MaxInt64"
  shows "book_inv (b\<lparr>Limits := (Limits b)(p \<mapsto> l\<lparr>Queue := qs, TotalQty := TotalQty l - q\<rparr>),
      Orders := (Orders b)(i \<mapsto> x)\<rparr>)"
proof (rule book_inv_local [OF restingD(1,2) [OF r]])
  note R = restingD [OF r]
  note lev = level_okD [OF book_invD(4) [OF R(1,2)]]
  let ?os = "(Orders b)(i \<mapsto> x)" and ?l = "l\<lparr>Queue := qs, TotalQty := TotalQty l - q\<rparr>"
  have qs: "set qs = set (Queue l)" "length qs = length (Queue l)" "distinct qs"
    using mset_eq_setD [OF perm] mset_eq_length [OF perm] mset_eq_imp_distinct_iff [OF perm] lev(2)
    by blast+
  have rem: "rem_of ?os = (\<lambda>j. if j = i then remaining o1 - q else rem_of (Orders b) j)"
    using x(1) by (auto simp: rem_of_def)
  have "(\<Sum>j\<leftarrow>qs. rem_of ?os j) = (\<Sum>j\<leftarrow>Queue l. rem_of ?os j)"
    by (rule sum_list_mset_cong [OF perm])
  also have "\<dots> = TotalQty l - q"
    using sum_list_map_update [OF lev(2) R(3), of "remaining o1 - q" "rem_of (Orders b)"] lev(5) R(4)
    by (simp add: rem rem_of_def [of _ i])
  finally have sum: "(\<Sum>j\<leftarrow>qs. rem_of ?os j) = TotalQty l - q" .
  show "level_ok ?os p ?l"
    unfolding level_ok_def using lev(1,3,4,6,7) qs x(2,4) R(6) by (simp add: sum)
  show "order_ok (BookSide b) ((Limits b)(p \<mapsto> ?l)) i y" if "Some x = Some y" for y
    using that x R qs by (auto simp: order_ok_def linked_ok_def)
  show "i \<notin> set (Queue k)" if "s \<noteq> p" "Limits b s = Some k" for s k
    using queue_unique [OF R(1,2,3) that(2)] that(1) by blast
  show "set (Queue l) - {i} \<subseteq> set (Queue ?l)" using qs by auto
qed

definition fill_book :: "int \<Rightarrow> int64 \<Rightarrow> Limit \<Rightarrow> Order \<Rightarrow> Book \<Rightarrow> Book" where
  "fill_book q p l o1 b = b\<lparr>Limits := (Limits b)(p \<mapsto> fst (hit q l o1)),
     Orders := (Orders b)(ID o1 \<mapsto> fst (snd (hit q l o1)))\<rparr>"

lemma fill_book_inv:
  assumes r: "resting b p l i o1" and q: "0 < q" "q \<le> makerAvailable o1"
  shows "book_inv (fill_book q p l o1 b)"
proof -
  note R = restingD [OF r] and A = makerAvailable_eq [OF r]
  have sane: "order_sane (fill_order q o1)" using R(9) q A by (intro fill_order_sane) auto
  show ?thesis
  proof (cases "remaining o1 = q")
    case True
    with R sane unlink_inv [OF R(1,2,3,4), of "Some ((fill_order q o1)\<lparr>Status := Filled, Parent := None\<rparr>)"]
    show ?thesis by (simp add: fill_book_def hit_def)
  next
    case False
    with q A have less: "q < remaining o1" by simp
    show ?thesis
    proof (cases "Visibility o1 = Iceberg \<and> DisplayRemaining o1 = q")
      case True
      have "mset (remove1 i (Queue l) @ [i]) = mset (Queue l)" using R(3) by simp
      from partial_fill_inv [OF r this, where q = q and x = "(fill_order q o1)\<lparr>Status := PartialFill,
          DisplayRemaining := min (IcebergQty o1) (remaining o1 - q)\<rparr>"]
      show ?thesis using True less q R sane by (simp add: fill_book_def hit_def)
    next
      case False
      from partial_fill_inv [OF r refl, where q = q and x = "(fill_order q o1)\<lparr>Status := PartialFill\<rparr>"]
      show ?thesis
        using False less q R sane A by (simp add: fill_book_def hit_def) (auto simp: fill_order_def)
    qed
  qed
qed

end
