(* ===== verification/Price_Time.thy ===== *)
theory Price_Time
  imports Matching_Core
begin

text \<open>
  The price-time matcher of \<open>matching/default.go\<close>: \<open>PriceTimeMatcher.Match\<close> with its three
  nested loops, and its refinement of an abstract greedy auction that always trades against
  the first order, in price and then queue priority, that crosses and belongs to another
  client.

  The two inner loops have no syntactic bound (an iceberg order re-enters the queue it is
  being scanned from), so they are \<open>partial_function (option)\<close>: not returning is \<open>None\<close>, as
  is the panic of a zero-quantity execution, and the refinement theorem excludes both.
\<close>

section \<open>The matcher\<close>

type_synonym clock = "nat \<Rightarrow> timestamp"

text \<open>One visit of a resting order: the body of the innermost loop. The flag reports an
  iceberg refresh. A missing level or order is a dangling pointer.\<close>

definition match_order :: "clock \<Rightarrow> int64 \<Rightarrow> uint64 \<Rightarrow> mstate \<Rightarrow> (mstate \<times> bool) option" where
  "match_order clock p i st =
     (case Limits (MBook st) p of
        None \<Rightarrow> None
      | Some limit \<Rightarrow>
     (case Orders (MBook st) i of
        None \<Rightarrow> None
      | Some order \<Rightarrow>
          if FilledQty order < Qty order \<and> shouldMatch (MTaker st) order
          then (case execute (clock (length (MExecs st))) (MTaker st) order of
              None \<Rightarrow> None
            | Some (taker, order1, exec) \<Rightarrow>
                let limit1 = (if Parent order1 \<noteq> None
                              then limit\<lparr>TotalQty := i64 (TotalQty limit - ExecQty exec)\<rparr> else limit);
                    (limit2, order2, refreshed) =
                      (if FilledQty order1 \<ge> Qty order1
                       then (let (l, x) = UnlinkOrder limit1 (order1\<lparr>Status := Filled\<rparr>) in (l, x, False))
                       else if Visibility order1 = Iceberg \<and> DisplayRemaining order1 = 0
                       then (let (l, x) = refreshIcebergTranche limit1 (order1\<lparr>Status := PartialFill\<rparr>)
                             in (l, x, True))
                       else (limit1, order1\<lparr>Status := PartialFill\<rparr>, False))
                in Some (\<lparr>MBook = set_order order2 (set_limit limit2 (MBook st)), MTaker = taker,
                          MExecs = MExecs st @ [exec]\<rparr>, refreshed))
          else Some (st, False)))"

text \<open>\<open>order.Next\<close>, read before the order is processed.\<close>

definition next_in :: "uint64 \<Rightarrow> uint64 list \<Rightarrow> uint64 option" where
  "next_in i xs = (case dropWhile (\<lambda>j. j \<noteq> i) xs of _ # k # _ \<Rightarrow> Some k | _ \<Rightarrow> None)"

definition next_order :: "Book \<Rightarrow> int64 \<Rightarrow> uint64 \<Rightarrow> uint64 option" where
  "next_order b p i = Option.bind (Limits b p) (\<lambda>limit. next_in i (Queue limit))"

definition head_order :: "Limit \<Rightarrow> uint64 option" where
  "head_order limit = (case Queue limit of [] \<Rightarrow> None | i # _ \<Rightarrow> Some i)"

definition taker_open :: "mstate \<Rightarrow> bool" where
  "taker_open st \<longleftrightarrow> FilledQty (MTaker st) < Qty (MTaker st)"

partial_function (option) scan ::
    "clock \<Rightarrow> int64 \<Rightarrow> uint64 option \<Rightarrow> mstate \<Rightarrow> bool \<Rightarrow> (mstate \<times> bool) option" where
  "scan clock p cursor st refreshed =
     (case cursor of
        None \<Rightarrow> Some (st, refreshed)
      | Some i \<Rightarrow>
          if taker_open st
          then Option.bind (match_order clock p i st)
                 (\<lambda>(st', r). scan clock p (next_order (MBook st) p i) st' (refreshed \<or> r))
          else Some (st, refreshed))"

partial_function (option) level_loop :: "clock \<Rightarrow> int64 \<Rightarrow> mstate \<Rightarrow> mstate option" where
  "level_loop clock p st =
     (case Limits (MBook st) p of
        None \<Rightarrow> None
      | Some limit \<Rightarrow>
          Option.bind (scan clock p (head_order limit) st False)
            (\<lambda>(st', refreshed). if \<not> refreshed \<or> \<not> taker_open st' then Some st'
                                else level_loop clock p st'))"

declare scan.simps [code] and level_loop.simps [code]

text \<open>\<open>if IsEmpty(limit) book.RemoveLimit(limit)\<close>\<close>

definition close_level :: "int64 \<Rightarrow> Book \<Rightarrow> Book" where
  "close_level p b =
     (case Limits b p of
        None \<Rightarrow> b
      | Some limit \<Rightarrow> if IsEmpty limit then RemoveLimit b p else b)"

text \<open>The loop over levels. \<open>nextLimit\<close> is read before the level is processed and only the
  level itself is ever removed, so the levels visited are those linked from \<open>Best\<close> at the
  start.\<close>

fun sweep :: "clock \<Rightarrow> int64 list \<Rightarrow> mstate \<Rightarrow> mstate option" where
  "sweep clock [] st = Some st"
| "sweep clock (p # ps) st =
     (if taker_open st \<and> CanMatch (MTaker st) p
      then Option.bind (level_loop clock p st)
             (\<lambda>st'. sweep clock ps (st'\<lparr>MBook := close_level p (MBook st')\<rparr>))
      else Some st)"

definition levels_from_best :: "Book \<Rightarrow> int64 list" where
  "levels_from_best b = (case Best b of None \<Rightarrow> [] | Some p \<Rightarrow> dropWhile (\<lambda>q. q \<noteq> p) (Active b))"

definition finish_taker :: "Order \<Rightarrow> Order" where
  "finish_taker t =
     (if FilledQty t \<ge> Qty t then t\<lparr>Status := Filled\<rparr>
      else if FilledQty t > 0 then t\<lparr>Status := PartialFill\<rparr> else t)"

record MatchResult =
  RBids :: Book
  RAsks :: Book
  RTaker :: Order
  Executions :: "Execution list"
  FullyFilled :: bool

definition opposite :: "Side \<Rightarrow> Book \<Rightarrow> Book \<Rightarrow> Book" where
  "opposite side bidBook askBook = (if side = Buy then askBook else bidBook)"

definition Match :: "clock \<Rightarrow> Book \<Rightarrow> Book \<Rightarrow> Order \<Rightarrow> MatchResult option" where
  "Match clock bidBook askBook incoming =
     (let book = opposite (Side incoming) bidBook askBook
      in Option.bind (sweep clock (levels_from_best book) \<lparr>MBook = book, MTaker = incoming, MExecs = []\<rparr>)
           (\<lambda>st. Some \<lparr>RBids = (if Side incoming = Buy then bidBook else MBook st),
                       RAsks = (if Side incoming = Buy then MBook st else askBook),
                       RTaker = finish_taker (MTaker st), Executions = MExecs st,
                       FullyFilled = (FilledQty (MTaker st) \<ge> Qty (MTaker st))\<rparr>))"

section \<open>The abstract auction\<close>

text \<open>Every resting order in price priority and then time priority.\<close>

definition priority :: "Book \<Rightarrow> (int64 \<times> uint64) list" where
  "priority b = concat (map (\<lambda>p. map (Pair p) (Queue (level_at b p))) (Active b))"

definition eligible :: "Order \<Rightarrow> Book \<Rightarrow> int64 \<times> uint64 \<Rightarrow> bool" where
  "eligible taker b = (\<lambda>(p, i). CanMatch taker p \<and>
     (case Orders b i of None \<Rightarrow> False | Some o1 \<Rightarrow> ClientID o1 \<noteq> ClientID taker))"

definition best_maker :: "Order \<Rightarrow> Book \<Rightarrow> (int64 \<times> uint64) option" where
  "best_maker taker b = find (eligible taker b) (priority b)"

definition fill_state :: "clock \<Rightarrow> int64 \<Rightarrow> uint64 \<Rightarrow> mstate \<Rightarrow> mstate" where
  "fill_state clock p i st =
     (let b = MBook st; t = MTaker st; o1 = the (Orders b i); q = fill_qty t o1
      in \<lparr>MBook = fill_book q p (level_at b p) o1 b, MTaker = t\<lparr>FilledQty := FilledQty t + q\<rparr>,
          MExecs = MExecs st @ [exec_record (clock (length (MExecs st))) t o1]\<rparr>)"

definition tidy :: "int64 \<Rightarrow> mstate \<Rightarrow> mstate" where
  "tidy p st = (if Queue (level_at (MBook st) p) = [] then st\<lparr>MBook := RemoveLimit (MBook st) p\<rparr> else st)"

text \<open>The auction: while the taker is open and some order is eligible, trade against the
  first such order.\<close>

inductive auction :: "clock \<Rightarrow> mstate \<Rightarrow> mstate \<Rightarrow> bool" for clock where
  finished: "\<not> taker_open st \<or> best_maker (MTaker st) (MBook st) = None \<Longrightarrow> auction clock st st"
| trade: "taker_open st \<Longrightarrow> best_maker (MTaker st) (MBook st) = Some (p, i) \<Longrightarrow>
    auction clock (tidy p (fill_state clock p i st)) st' \<Longrightarrow> auction clock st st'"

inductive_cases auctionE: "auction clock st st'"

lemma taker_open_iff: "taker_open st \<longleftrightarrow> 0 < remaining (MTaker st)"
  by (simp add: taker_open_def remaining_def)

section \<open>One visit\<close>

lemma shrunk_level:
  assumes r: "resting b p l i o1" and q: "0 < q" "q \<le> remaining o1"
  shows "i64 (TotalQty l - q) = TotalQty l - q"
  using restingD(15,16) [OF r] q by (intro i64_id) (auto simp: is_i64_def)

text \<open>Unlinking right after a fill of \<open>q\<close>, when the level has already been charged.\<close>

lemma unlink_after_fill:
  assumes r: "resting b p l i o1" and q: "0 < q" "q \<le> remaining o1"
    and x: "ID x = i" "remaining x = remaining o1 - q" "order_sane x"
  shows "UnlinkOrder (l\<lparr>TotalQty := TotalQty l - q\<rparr>) x =
    (l\<lparr>Queue := remove1 i (Queue l), TotalQty := TotalQty l - remaining o1, OrderCnt := OrderCnt l - 1\<rparr>,
     x\<lparr>Parent := None\<rparr>)"
proof -
  note R = restingD [OF r]
  have "0 < length (Queue l)" using R(3) by (cases "Queue l") auto
  then have cnt: "i32 (OrderCnt l - 1) = OrderCnt l - 1" using R(19,20) by (intro i32_id) auto
  have "i64 (TotalQty l - remaining o1) = TotalQty l - remaining o1"
    using R(15,16,11) by (intro i64_id) (auto simp: is_i64_def)
  with cnt x order_sane_i64(6) [OF x(3)] show ?thesis by (simp add: UnlinkOrder_def)
qed

lemma refresh_tranche_eq:
  assumes "Visibility x = Iceberg" "Parent x \<noteq> None" "i64 (Qty x - FilledQty x) = r" "0 < r"
    "DisplayRemaining x = 0" "UnlinkOrder l x = (l1, x1)"
    "LinkOrder l1 (x1\<lparr>DisplayRemaining := min (IcebergQty x) r\<rparr>) = Some y"
  shows "refreshIcebergTranche l x = y"
  using assms unfolding refreshIcebergTranche_def Let_def
  by (cases y) (auto simp: min_def split: if_splits)

lemma refresh_after_fill:
  assumes r: "resting b p l i o1" and q: "0 < q" "q < remaining o1"
    and ice: "Visibility o1 = Iceberg" "DisplayRemaining o1 = q"
  shows "refreshIcebergTranche (l\<lparr>TotalQty := TotalQty l - q\<rparr>) ((fill_order q o1)\<lparr>Status := PartialFill\<rparr>) =
    (l\<lparr>Queue := remove1 i (Queue l) @ [i], TotalQty := TotalQty l - q\<rparr>,
     (fill_order q o1)\<lparr>Status := PartialFill, DisplayRemaining := min (IcebergQty o1) (remaining o1 - q)\<rparr>)"
proof -
  note R = restingD [OF r]
  let ?x = "(fill_order q o1)\<lparr>Status := PartialFill\<rparr>"
  let ?l = "l\<lparr>Queue := remove1 i (Queue l), TotalQty := TotalQty l - remaining o1, OrderCnt := OrderCnt l - 1\<rparr>"
  let ?d = "min (IcebergQty o1) (remaining o1 - q)"
  let ?y = "?x\<lparr>Parent := None, DisplayRemaining := ?d\<rparr>"
  have sane: "order_sane (fill_order q o1)" using R(9) q by (intro fill_order_sane) auto
  have un: "UnlinkOrder (l\<lparr>TotalQty := TotalQty l - q\<rparr>) ?x = (?l, ?x\<lparr>Parent := None\<rparr>)"
    using q R(6) sane by (intro unlink_after_fill [OF r]) simp_all
  have d: "0 < ?d" using R(12) ice q by simp
  have len: "0 < length (Queue l)" using R(3) by (cases "Queue l") auto
  have "linkable ?l ?y"
    using d q R(16,20) by (simp add: linkable_def)
  then have link: "LinkOrder ?l ?y =
      Some (l\<lparr>Queue := remove1 i (Queue l) @ [i], TotalQty := TotalQty l - q\<rparr>,
            ?y\<lparr>Parent := Some p\<rparr>)"
    using R(6,15,16,17,19,20) len sane q d by (subst LinkOrder_eq) (simp_all add: display_of_def)
  have rem: "i64 (Qty o1 - (FilledQty o1 + q)) = remaining o1 - q"
    using order_sane_i64(6) [OF sane] by simp
  have D0: "DisplayRemaining (fill_order q o1) = 0" using ice by (simp add: fill_order_def)
  have y: "?x\<lparr>Parent := None\<rparr>\<lparr>DisplayRemaining := ?d\<rparr> = ?y" by simp
  have fin: "?y\<lparr>Parent := Some p\<rparr> = (fill_order q o1)\<lparr>Status := PartialFill, DisplayRemaining := ?d\<rparr>"
    using R(5) by (simp add: fill_order_def)
  have "refreshIcebergTranche (l\<lparr>TotalQty := TotalQty l - q\<rparr>) ?x =
      (l\<lparr>Queue := remove1 i (Queue l) @ [i], TotalQty := TotalQty l - q\<rparr>, ?y\<lparr>Parent := Some p\<rparr>)"
    by (rule refresh_tranche_eq [OF _ _ _ _ _ un, where r = "remaining o1 - q"])
      (use ice q R(5) D0 rem link in \<open>simp_all\<close>)
  then show ?thesis unfolding fin .
qed

lemma hit_flag: "snd (snd (hit q l o1)) \<longleftrightarrow>
    remaining o1 \<noteq> q \<and> Visibility o1 = Iceberg \<and> DisplayRemaining o1 = q"
  by (simp add: hit_def)

text \<open>The branch of the loop body after an execution is \<open>hit\<close>.\<close>

lemma settle_maker_eq:
  assumes r: "resting b p l i o1" and q: "0 < q" "q \<le> makerAvailable o1"
  defines "l1 \<equiv> l\<lparr>TotalQty := TotalQty l - q\<rparr>" and "x \<equiv> fill_order q o1"
  shows "(if FilledQty x \<ge> Qty x
      then (let (l, x) = UnlinkOrder l1 (x\<lparr>Status := Filled\<rparr>) in (l, x, False))
      else if Visibility x = Iceberg \<and> DisplayRemaining x = 0
      then (let (l, x) = refreshIcebergTranche l1 (x\<lparr>Status := PartialFill\<rparr>) in (l, x, True))
      else (l1, x\<lparr>Status := PartialFill\<rparr>, False)) = hit q l o1"
proof -
  note R = restingD [OF r] and A = makerAvailable_eq [OF r]
  have sane: "order_sane (fill_order q o1)" using R(9) q A by (intro fill_order_sane) auto
  have full: "FilledQty x \<ge> Qty x \<longleftrightarrow> remaining o1 = q" using q A by (auto simp: x_def remaining_def)
  have ice: "Visibility x = Iceberg \<and> DisplayRemaining x = 0 \<longleftrightarrow>
      Visibility o1 = Iceberg \<and> DisplayRemaining o1 = q"
    by (auto simp: x_def fill_order_def)
  have un: "UnlinkOrder l1 (x\<lparr>Status := Filled\<rparr>) =
      (l\<lparr>Queue := remove1 i (Queue l), TotalQty := TotalQty l - remaining o1, OrderCnt := OrderCnt l - 1\<rparr>,
       x\<lparr>Status := Filled, Parent := None\<rparr>)"
    unfolding l1_def x_def using q A R(6) sane by (subst unlink_after_fill [OF r]) simp_all
  show ?thesis
  proof (cases "remaining o1 = q")
    case True
    with full un R(6) show ?thesis by (simp add: hit_def x_def)
  next
    case False
    then have less: "q < remaining o1" using q A by simp
    show ?thesis
      unfolding full ice using False R(6) refresh_after_fill [OF r q(1) less]
      by (simp add: hit_def l1_def x_def)
  qed
qed

lemma match_order_eq:
  assumes r: "resting (MBook st) p l i o1" and t: "order_sane (MTaker st)" "taker_open st"
    and other: "ClientID o1 \<noteq> ClientID (MTaker st)"
  shows "match_order clock p i st =
    Some (fill_state clock p i st, snd (snd (hit (fill_qty (MTaker st) o1) l o1)))"
proof -
  note R = restingD [OF r]
  let ?q = "fill_qty (MTaker st) o1"
  have pos: "0 < remaining (MTaker st)" using t(2) by (simp add: taker_open_iff)
  note q = fill_qty_bounds [OF r t(1) pos]
  have qa: "?q \<le> makerAvailable o1" by (simp add: fill_qty_def)
  have open1: "FilledQty o1 < Qty o1" using R(11) by (simp add: remaining_def)
  have sm: "shouldMatch (MTaker st) o1" using other by (simp add: shouldMatch_def)
  have par: "Parent (fill_order ?q o1) \<noteq> None" using R(5) by simp
  have eq: "ExecQty (exec_record n (MTaker st) o1) = ?q" for n by (simp add: exec_record_def)
  obtain l2 o2 rf where h: "hit ?q l o1 = (l2, o2, rf)" by (cases "hit ?q l o1")
  note s = settle_maker_eq [OF r q(1) qa, unfolded h]
  have ids: "ID o2 = i" "LimitPrice l2 = p" using h R(6,17) by (auto simp: hit_def split: if_splits)
  have lv: "level_at (MBook st) p = l" using R(2) by (simp add: level_at_def)
  have bk: "set_order o2 (set_limit l2 (MBook st)) = fill_book ?q p l o1 (MBook st)"
    using ids R(6) h by (simp add: fill_book_def set_order_def set_limit_def)
  show ?thesis
    unfolding match_order_def R(2) R(4) option.case if_P [OF conjI [OF open1 sm]]
      execute_eq [OF r t(1) pos] prod.case eq Let_def if_P [OF par]
      shrunk_level [OF r q(1,3)] s [unfolded Let_def] fill_state_def lv option.sel bk h fst_conv snd_conv
    by (rule refl)
qed

lemma match_order_skip:
  assumes "resting (MBook st) p l i o1" "ClientID o1 = ClientID (MTaker st)"
  shows "match_order clock p i st = Some (st, False)"
  using restingD(2,4) [OF assms(1)] assms(2) by (simp add: match_order_def shouldMatch_def)

section \<open>What a fill changes\<close>

lemma fill_state_taker [simp]:
  "ClientID (MTaker (fill_state clock p i st)) = ClientID (MTaker st)"
  "Price (MTaker (fill_state clock p i st)) = Price (MTaker st)"
  "Type (MTaker (fill_state clock p i st)) = Type (MTaker st)"
  "Side (MTaker (fill_state clock p i st)) = Side (MTaker st)"
  "Qty (MTaker (fill_state clock p i st)) = Qty (MTaker st)"
  "ID (MTaker (fill_state clock p i st)) = ID (MTaker st)"
  "CanMatch (MTaker (fill_state clock p i st)) = CanMatch (MTaker st)"
  by (simp_all add: fill_state_def Let_def CanMatch_def fun_eq_iff)

lemma fill_state_book:
  assumes r: "resting (MBook st) p l i o1"
  shows "Active (MBook (fill_state clock p i st)) = Active (MBook st)"
    "BookSide (MBook (fill_state clock p i st)) = BookSide (MBook st)"
    "Limits (MBook (fill_state clock p i st)) =
       (Limits (MBook st))(p \<mapsto> fst (hit (fill_qty (MTaker st) o1) l o1))"
    "Orders (MBook (fill_state clock p i st)) =
       (Orders (MBook st))(i \<mapsto> fst (snd (hit (fill_qty (MTaker st) o1) l o1)))"
    "FilledQty (MTaker (fill_state clock p i st)) = FilledQty (MTaker st) + fill_qty (MTaker st) o1"
    "remaining (MTaker (fill_state clock p i st)) = remaining (MTaker st) - fill_qty (MTaker st) o1"
    "MExecs (fill_state clock p i st) =
       MExecs st @ [exec_record (clock (length (MExecs st))) (MTaker st) o1]"
  using restingD(2,4,6) [OF r]
  by (simp_all add: fill_state_def fill_book_def Let_def level_at_def remaining_def)

lemma hit_client: "ClientID (fst (snd (hit q l o1))) = ClientID o1"
  by (simp add: hit_def)

lemma eligible_fill:
  assumes r: "resting (MBook st) p l i o1"
  shows "eligible (MTaker (fill_state clock p i st)) (MBook (fill_state clock p i st)) =
    eligible (MTaker st) (MBook st)"
  using restingD(4) [OF r] 
  by (auto simp: eligible_def fill_state_book [OF r] hit_client fun_eq_iff split: option.splits)

lemma fill_state_ok:
  assumes r: "resting (MBook st) p l i o1" and t: "order_sane (MTaker st)" "taker_open st"
  shows "book_inv (MBook (fill_state clock p i st))" "order_sane (MTaker (fill_state clock p i st))"
    "remaining (MTaker (fill_state clock p i st)) < remaining (MTaker st)"
proof -
  have q: "0 < fill_qty (MTaker st) o1" "fill_qty (MTaker st) o1 \<le> remaining (MTaker st)"
    using fill_qty_bounds [OF r t(1)] t(2) by (auto simp: taker_open_iff)
  have "level_at (MBook st) p = l" "Orders (MBook st) i = Some o1"
    using restingD(2,4) [OF r] by (simp_all add: level_at_def)
  then show "book_inv (MBook (fill_state clock p i st))"
    using fill_book_inv [OF r q(1)] by (simp add: fill_state_def Let_def fill_qty_def)
  show "order_sane (MTaker (fill_state clock p i st))"
    using t(1) q by (simp add: order_sane_def remaining_def fill_state_book [OF r])
  show "remaining (MTaker (fill_state clock p i st)) < remaining (MTaker st)"
    using q by (simp add: fill_state_book [OF r])
qed

section \<open>Working on one level\<close>

text \<open>The state while level \<open>p\<close> is being matched: it may be empty, the better levels hold
  nothing eligible.\<close>

definition at_level :: "int64 \<Rightarrow> int64 list \<Rightarrow> int64 list \<Rightarrow> mstate \<Rightarrow> bool" where
  "at_level p ps qs st \<longleftrightarrow>
     book_inv (MBook st) \<and> order_sane (MTaker st) \<and> CanMatch (MTaker st) p \<and>
     Side (MTaker st) \<noteq> BookSide (MBook st) \<and> Active (MBook st) = ps @ p # qs \<and>
     (\<forall>q l. q \<noteq> p \<longrightarrow> Limits (MBook st) q = Some l \<longrightarrow> Queue l \<noteq> []) \<and>
     (\<forall>q\<in>set ps. \<forall>j\<in>set (Queue (level_at (MBook st) q)). \<not> eligible (MTaker st) (MBook st) (q, j))"

lemma at_levelD:
  assumes "at_level p ps qs st"
  shows "book_inv (MBook st)" "order_sane (MTaker st)" "CanMatch (MTaker st) p"
    "Active (MBook st) = ps @ p # qs" "Limits (MBook st) p = Some (level_at (MBook st) p)"
    "p \<notin> set ps" "Side (MTaker st) \<noteq> BookSide (MBook st)"
proof -
  show inv: "book_inv (MBook st)" and "order_sane (MTaker st)" "CanMatch (MTaker st) p"
    "Side (MTaker st) \<noteq> BookSide (MBook st)" and act: "Active (MBook st) = ps @ p # qs"
    using assms by (auto simp: at_level_def)
  have "p \<in> dom (Limits (MBook st))" using act book_invD(2) [OF inv] by auto
  then show "Limits (MBook st) p = Some (level_at (MBook st) p)" by (auto simp: level_at_def)
  show "p \<notin> set ps"
    using sorted_better_distinct [OF book_invD(1) [OF inv]] act by simp
qed

lemma at_level_resting:
  assumes "at_level p ps qs st" "i \<in> set (Queue (level_at (MBook st) p))"
  obtains o1 where "resting (MBook st) p (level_at (MBook st) p) i o1"
  using queue_member [OF at_levelD(1,5) [OF assms(1)] assms(2)] at_levelD(1,5) [OF assms(1)] assms(2)
  unfolding resting_def by metis

lemma at_level_fill:
  assumes at: "at_level p ps qs st" and r: "resting (MBook st) p l i o1" and op: "taker_open st"
  shows "at_level p ps qs (fill_state clock p i st)"
proof -
  note F = fill_state_book [OF r] and D = at_levelD [OF at]
  have "level_at (MBook (fill_state clock p i st)) q = level_at (MBook st) q" if "q \<in> set ps" for q
    using that D(6) by (auto simp: level_at_def F)
  with at fill_state_ok [OF r D(2) op] show ?thesis
    by (simp add: at_level_def F eligible_fill [OF r])
qed

lemma find_append: "find P (xs @ ys) = (case find P xs of None \<Rightarrow> find P ys | Some x \<Rightarrow> Some x)"
  by (induction xs) auto

lemma find_none: "(\<And>x. x \<in> set xs \<Longrightarrow> \<not> P x) \<Longrightarrow> find P xs = None"
  by (simp add: find_None_iff)

lemma at_level_best:
  assumes at: "at_level p ps qs st" and q: "Queue (level_at (MBook st) p) = a @ i # c"
    and dry: "\<And>j. j \<in> set a \<Longrightarrow> \<not> eligible (MTaker st) (MBook st) (p, j)"
    and el: "eligible (MTaker st) (MBook st) (p, i)"
  shows "best_maker (MTaker st) (MBook st) = Some (p, i)"
proof -
  let ?E = "eligible (MTaker st) (MBook st)"
  let ?f = "\<lambda>q. map (Pair q) (Queue (level_at (MBook st) q))"
  have pr: "priority (MBook st) = concat (map ?f ps) @ map (Pair p) a @ (p, i) # map (Pair p) c @ concat (map ?f qs)"
    by (simp add: priority_def at_levelD(4) [OF at] q)
  have "find ?E (concat (map ?f ps)) = None"
    using at by (intro find_none) (auto simp: at_level_def)
  moreover have "find ?E (map (Pair p) a) = None" using dry by (intro find_none) auto
  ultimately show ?thesis using el by (simp add: best_maker_def pr find_append)
qed

lemma tidy_nonempty [simp]: "Queue (level_at (MBook st) p) \<noteq> [] \<Longrightarrow> tidy p st = st"
  by (simp add: tidy_def)

text \<open>A fill of the first eligible order of the level is a step of the auction.\<close>

lemma auction_fill:
  assumes "at_level p ps qs st" "Queue (level_at (MBook st) p) = a @ i # c"
    "\<And>j. j \<in> set a \<Longrightarrow> \<not> eligible (MTaker st) (MBook st) (p, j)"
    "eligible (MTaker st) (MBook st) (p, i)" "taker_open st"
    "auction clock (tidy p (fill_state clock p i st)) fin"
  shows "auction clock (tidy p st) fin"
  using auction.trade [OF assms(5) at_level_best [OF assms(1-4)] assms(6)] assms(2) by simp

section \<open>The scan of a level\<close>

definition head_of :: "'a list \<Rightarrow> 'a option" where
  "head_of xs = (case xs of [] \<Rightarrow> None | x # _ \<Rightarrow> Some x)"

lemma head_of_simps [simp]: "head_of [] = None" "head_of (x # xs) = Some x"
  "xs \<noteq> [] \<Longrightarrow> head_of (xs @ ys) = head_of xs"
  by (auto simp: head_of_def split: list.splits)

lemma head_order_eq: "head_order l = head_of (Queue l)"
  by (simp add: head_order_def head_of_def)

lemma next_in_append:
  assumes "distinct (a @ i # c)" shows "next_in i (a @ i # c) = head_of c"
proof -
  have "dropWhile (\<lambda>j. j \<noteq> i) (a @ i # c) = i # c"
    using assms by (subst dropWhile_append2) auto
  then show ?thesis by (simp add: next_in_def head_of_def split: list.split)
qed

definition dry_level :: "int64 \<Rightarrow> mstate \<Rightarrow> bool" where
  "dry_level p st \<longleftrightarrow>
     (\<forall>j\<in>set (Queue (level_at (MBook st) p)). \<not> eligible (MTaker st) (MBook st) (p, j))"

text \<open>What a scan that started from \<open>st\<close> with flag \<open>f\<close> owes.\<close>

definition scanned :: "clock \<Rightarrow> int64 \<Rightarrow> int64 list \<Rightarrow> int64 list \<Rightarrow> mstate \<Rightarrow> bool \<Rightarrow> mstate \<times> bool \<Rightarrow> bool" where
  "scanned clock p ps qs st f = (\<lambda>(st', r).
     at_level p ps qs st' \<and>
     (\<forall>fin. auction clock (tidy p st') fin \<longrightarrow> auction clock (tidy p st) fin) \<and>
     remaining (MTaker st') \<le> remaining (MTaker st) \<and>
     (r = f \<or> remaining (MTaker st') < remaining (MTaker st)) \<and>
     (r \<or> \<not> taker_open st' \<or> dry_level p st'))"

lemma scanned_fill:
  assumes "scanned clock p ps qs (fill_state clock p i st) f' res"
    "remaining (MTaker (fill_state clock p i st)) < remaining (MTaker st)"
    "\<And>fin. auction clock (tidy p (fill_state clock p i st)) fin \<Longrightarrow> auction clock (tidy p st) fin"
  shows "scanned clock p ps qs st f res"
  using assms by (auto simp: scanned_def)

text \<open>The queue after a fill: the order leaves, goes to the tail, or stays because the taker
  is done.\<close>

lemma hit_queue:
  fixes clock :: clock
  assumes r: "resting (MBook st) p l i o1" and q: "Queue l = a @ i # c"
    and t: "order_sane (MTaker st)" "taker_open st"
  defines "st1 \<equiv> fill_state clock p i st"
    and "r1 \<equiv> snd (snd (hit (fill_qty (MTaker st) o1) l o1))"
  shows "Queue (level_at (MBook st1) p) = a @ c @ [i] \<and> r1 \<or>
    Queue (level_at (MBook st1) p) = a @ c \<and> \<not> r1 \<or>
    Queue (level_at (MBook st1) p) = a @ i # c \<and> \<not> r1 \<and> \<not> taker_open st1"
proof -
  note R = restingD [OF r]
  let ?q = "fill_qty (MTaker st) o1"
  have lv: "level_at (MBook st1) p = fst (hit ?q l o1)"
    by (simp add: st1_def level_at_def fill_state_book [OF r])
  have "i \<notin> set a" using R(18) q by simp
  then have rm: "remove1 i (Queue l) = a @ c" by (simp add: q remove1_append)
  have "\<not> taker_open st1" if "remaining o1 \<noteq> ?q" "\<not> (Visibility o1 = Iceberg \<and> DisplayRemaining o1 = ?q)"
  proof -
    have "?q \<noteq> makerAvailable o1" using that makerAvailable_eq(1) [OF r] by (auto split: if_splits)
    then have "?q = remaining (MTaker st)" by (auto simp: fill_qty_def min_def split: if_splits)
    then show ?thesis by (simp add: st1_def taker_open_iff fill_state_book [OF r])
  qed
  then show ?thesis using rm q R(6) by (auto simp: lv r1_def hit_def)
qed

lemma scan_stop:
  "scan clock p None st f = Some (st, f)"
  "\<not> taker_open st \<Longrightarrow> scan clock p cur st f = Some (st, f)"
  by (subst scan.simps, simp split: option.split)+

lemma scan_step:
  assumes "taker_open st" "Limits (MBook st) p = Some l" "Queue l = a @ i # c" "distinct (Queue l)"
  shows "scan clock p (Some i) st f = Option.bind (match_order clock p i st)
    (\<lambda>(st', r). scan clock p (head_of c) st' (f \<or> r))"
  using assms next_in_append [of a i c] by (subst scan.simps) (simp add: next_order_def)

lemma scan_ok:
  assumes "at_level p ps qs st" "Queue (level_at (MBook st) p) = a @ c"
    "\<not> taker_open st \<or> (\<forall>j\<in>set a. \<not> eligible (MTaker st) (MBook st) (p, j)) \<or> c = [] \<and> f"
  shows "\<exists>res. scan clock p (head_of c) st f = Some res \<and> scanned clock p ps qs st f res"
  using assms
proof (induction "nat (remaining (MTaker st))" arbitrary: st a c f rule: less_induct)
  case less
  from less.prems show ?case
  proof (induction c arbitrary: a)
    case Nil
    then show ?case by (auto simp: scan_stop scanned_def dry_level_def)
  next
    case (Cons i c)
    note at = Cons.prems(1) and D = at_levelD [OF Cons.prems(1)]
    let ?l = "level_at (MBook st) p" and ?E = "eligible (MTaker st) (MBook st)"
    show ?case
    proof (cases "taker_open st")
      case False
      with at show ?thesis by (auto simp: scan_stop scanned_def)
    next
      case True
      have dry: "\<not> ?E (p, j)" if "j \<in> set a" for j using that True Cons.prems(3) by auto
      obtain o1 where r: "resting (MBook st) p ?l i o1"
        using at_level_resting [OF at, of i] Cons.prems(2) by auto
      note R = restingD [OF r]
      note step = scan_step [OF True D(5) Cons.prems(2) R(18), of clock f]
      show ?thesis
      proof (cases "ClientID o1 = ClientID (MTaker st)")
        case True
        then have "\<not> ?E (p, i)" using R(4) by (simp add: eligible_def)
        with dry have "\<forall>j\<in>set (a @ [i]). \<not> ?E (p, j)" by auto
        then show ?thesis
          using Cons.IH [OF at, of "a @ [i]"] Cons.prems(2)
          by (simp add: step match_order_skip [OF r True])
      next
        case False
        then have el: "?E (p, i)" using R(4) D(3) by (simp add: eligible_def)
        let ?s = "fill_state clock p i st" and ?r = "snd (snd (hit (fill_qty (MTaker st) o1) ?l o1))"
        note dec = fill_state_ok(3) [OF r D(2) True, of clock]
        have "0 < remaining (MTaker st)" using True by (simp add: taker_open_iff)
        with dec have dec': "nat (remaining (MTaker ?s)) < nat (remaining (MTaker st))" by simp
        note IH = less.hyps [OF dec' at_level_fill [OF at r True]]
        have "\<exists>res. scan clock p (head_of c) ?s (f \<or> ?r) = Some res \<and> scanned clock p ps qs ?s (f \<or> ?r) res"
        proof (cases "c = [] \<and> ?r")
          case True
          with hit_queue [OF r Cons.prems(2) D(2) \<open>taker_open st\<close>, of clock]
          have "Queue (level_at (MBook ?s) p) = (a @ [i]) @ []" by auto
          from IH [OF this, of "f \<or> ?r"] True show ?thesis by simp
        next
          case False
          then show ?thesis
            using hit_queue [OF r Cons.prems(2) D(2) True, of clock] dry
              IH [of a "c @ [i]" "f \<or> ?r"] IH [of a c "f \<or> ?r"] IH [of "a @ [i]" c "f \<or> ?r"]
            by (auto simp: eligible_fill [OF r])
        qed
        then show ?thesis
          using scanned_fill [OF _ dec auction_fill [OF at Cons.prems(2) dry el True]]
          by (auto simp: step match_order_eq [OF r D(2) True False])
      qed
    qed
  qed
qed

section \<open>The loop over passes and the loop over levels\<close>

lemma level_loop_ok:
  assumes "at_level p ps qs st"
  shows "\<exists>st'. level_loop clock p st = Some st' \<and> at_level p ps qs st' \<and>
    (\<forall>fin. auction clock (tidy p st') fin \<longrightarrow> auction clock (tidy p st) fin) \<and>
    (\<not> taker_open st' \<or> dry_level p st')"
  using assms
proof (induction "nat (remaining (MTaker st))" arbitrary: st rule: less_induct)
  case less
  note D = at_levelD [OF less.prems]
  obtain st1 r where scan: "scan clock p (head_of (Queue (level_at (MBook st) p))) st False = Some (st1, r)"
    and s: "scanned clock p ps qs st False (st1, r)"
    using scan_ok [OF less.prems, of "[]" _ False clock] by force
  note unfold = level_loop.simps [of clock p st] D(5) head_order_eq scan
  show ?case
  proof (cases "r \<and> taker_open st1")
    case False
    with s show ?thesis by (auto simp: unfold scanned_def)
  next
    case True
    with s have dec: "remaining (MTaker st1) < remaining (MTaker st)" "0 < remaining (MTaker st1)"
      and at: "at_level p ps qs st1" by (auto simp: scanned_def taker_open_iff)
    from dec have "nat (remaining (MTaker st1)) < nat (remaining (MTaker st))" by simp
    from less.hyps [OF this at] True s show ?thesis
      by (auto simp: unfold scanned_def)
  qed
qed

lemma close_level_eq:
  assumes "book_inv b" "Limits b p = Some l"
  shows "close_level p b = (if Queue l = [] then RemoveLimit b p else b)"
  using assms level_okD(3) [OF book_invD(4) [OF assms]] by (simp add: close_level_def IsEmpty_def)

lemma close_tidy:
  assumes "at_level p ps qs st"
  shows "st\<lparr>MBook := close_level p (MBook st)\<rparr> = tidy p st"
  using close_level_eq [OF at_levelD(1,5) [OF assms]] by (simp add: tidy_def)

text \<open>The state between levels: every level visited so far holds nothing eligible.\<close>

definition between :: "int64 list \<Rightarrow> int64 list \<Rightarrow> mstate \<Rightarrow> bool" where
  "between ps qs st \<longleftrightarrow>
     book_wf (MBook st) \<and> order_sane (MTaker st) \<and> Side (MTaker st) \<noteq> BookSide (MBook st) \<and>
     Active (MBook st) = ps @ qs \<and>
     (\<forall>q\<in>set ps. dry_level q st)"

lemma between_enter:
  assumes "between ps (p # qs) st" "CanMatch (MTaker st) p"
  shows "at_level p ps qs st" "tidy p st = st"
proof -
  have wf: "book_wf (MBook st)" and act: "Active (MBook st) = ps @ p # qs"
    using assms by (auto simp: between_def)
  then obtain l where "Limits (MBook st) p = Some l"
    using book_invD(2) [of "MBook st"] by (auto simp: book_wf_def)
  with wf show "tidy p st = st" by (intro tidy_nonempty) (auto simp: book_wf_def no_empty_def level_at_def)
  show "at_level p ps qs st"
    using assms by (auto simp: at_level_def between_def book_wf_def no_empty_def dry_level_def)
qed

lemma dry_RemoveLimit:
  "q \<noteq> p \<Longrightarrow> dry_level q (st\<lparr>MBook := RemoveLimit (MBook st) p\<rparr>) = dry_level q st"
  by (simp add: dry_level_def level_at_def eligible_def)

lemma between_leave:
  assumes at: "at_level p ps qs st" and dry: "dry_level p st"
  shows "\<exists>ps'. between ps' qs (tidy p st)"
proof -
  note D = at_levelD [OF at]
  let ?l = "level_at (MBook st) p"
  have old: "\<forall>q\<in>set ps. dry_level q st" using at by (auto simp: at_level_def dry_level_def)
  show ?thesis
  proof (cases "Queue ?l = []")
    case True
    have "book_inv (RemoveLimit (MBook st) p)" by (rule RemoveLimit_inv [OF D(1,5) True])
    moreover have "no_empty (RemoveLimit (MBook st) p)"
      using at by (auto simp: at_level_def no_empty_def)
    moreover have "\<forall>q\<in>set ps. dry_level q (st\<lparr>MBook := RemoveLimit (MBook st) p\<rparr>)"
      using old D(6) dry_RemoveLimit by metis
    ultimately have "between ps qs (tidy p st)"
      using D by (simp add: tidy_def True between_def book_wf_def remove1_append)
    then show ?thesis ..
  next
    case False
    then have "no_empty (MBook st)" using at D(5) unfolding at_level_def no_empty_def by (metis option.inject)
    with D old dry have "between (ps @ [p]) qs st" by (simp add: between_def book_wf_def)
    with False show ?thesis by auto
  qed
qed

lemma CanMatch_worse:
  assumes "\<not> CanMatch t p" "better (opp_side) p q" "opp_side \<noteq> Side t"
  shows "\<not> CanMatch t q"
  using assms by (cases opp_side; cases "Side t") (auto simp: CanMatch_def split: if_splits)

lemma between_done:
  assumes b: "between ps qs st"
    and stop: "qs = [] \<or> (\<exists>p qs'. qs = p # qs' \<and> \<not> CanMatch (MTaker st) p)"
  shows "best_maker (MTaker st) (MBook st) = None"
proof -
  have side: "Side (MTaker st) \<noteq> BookSide (MBook st)" using b by (simp add: between_def)
  have "\<not> CanMatch (MTaker st) q" if "q \<in> set qs" for q
  proof -
    from that stop obtain p qs' where qs: "qs = p # qs'" and no: "\<not> CanMatch (MTaker st) p" by auto
    have "sorted_wrt (better (BookSide (MBook st))) qs"
      using b book_invD(1) [of "MBook st"] by (auto simp: between_def book_wf_def sorted_wrt_append)
    with that qs no show ?thesis
      using CanMatch_worse [OF no _ side [symmetric]] by auto
  qed
  then show ?thesis
    using b unfolding best_maker_def
    by (intro find_none) (auto simp: priority_def between_def dry_level_def eligible_def)
qed

lemma sweep_stop: "\<not> taker_open st \<Longrightarrow> sweep clock ps st = Some st"
  by (cases ps) auto

lemma tidy_taker [simp]: "MTaker (tidy p st) = MTaker st" "taker_open (tidy p st) = taker_open st"
  "MExecs (tidy p st) = MExecs st" "BookSide (MBook (tidy p st)) = BookSide (MBook st)"
  by (auto simp: tidy_def taker_open_def)

lemma sweep_auction:
  assumes "between ps qs st"
  shows "\<exists>st'. sweep clock qs st = Some st' \<and> auction clock st st'"
  using assms
proof (induction qs arbitrary: ps st)
  case Nil
  then show ?case using between_done [OF Nil] by (auto intro: auction.finished)
next
  case (Cons p qs)
  show ?case
  proof (cases "taker_open st \<and> CanMatch (MTaker st) p")
    case False
    then have "auction clock st st"
      using between_done [OF Cons.prems(1)] by (cases "taker_open st") (auto intro: auction.finished)
    with False show ?thesis by auto
  next
    case True
    note at = between_enter [OF Cons.prems(1) True [THEN conjunct2]]
    obtain st1 where l: "level_loop clock p st = Some st1" and at1: "at_level p ps qs st1"
      and sim: "\<And>fin. auction clock (tidy p st1) fin \<Longrightarrow> auction clock st fin"
      and out: "\<not> taker_open st1 \<or> dry_level p st1"
      using level_loop_ok [OF at(1), of clock] at(2) by auto
    have sw: "sweep clock (p # qs) st = sweep clock qs (tidy p st1)"
      using True by (simp add: l close_tidy [OF at1])
    show ?thesis
    proof (cases "taker_open st1")
      case False
      then have "auction clock (tidy p st1) (tidy p st1)" by (intro auction.finished) simp
      with sim have "auction clock st (tidy p st1)" by blast
      moreover have "sweep clock qs (tidy p st1) = Some (tidy p st1)" using False by (intro sweep_stop) simp
      ultimately show ?thesis using sw by auto
    next
      case True
      with out have "dry_level p st1" by simp
      from between_leave [OF at1 this] obtain ps' where "between ps' qs (tidy p st1)" by blast
      then show ?thesis using Cons.IH [of ps' "tidy p st1"] sim sw by auto
    qed
  qed
qed

section \<open>Facts about the auction\<close>

definition match_ready :: "mstate \<Rightarrow> bool" where
  "match_ready st \<longleftrightarrow> book_wf (MBook st) \<and> order_sane (MTaker st) \<and> Side (MTaker st) \<noteq> BookSide (MBook st)"

lemma best_maker_mem:
  "best_maker t b = Some x \<Longrightarrow> x \<in> set (priority b) \<and> eligible t b x"
  unfolding best_maker_def find_Some_iff by (metis nth_mem)

lemma best_makerD:
  assumes "book_inv (MBook st)" "best_maker (MTaker st) (MBook st) = Some (p, i)"
  obtains o1 where "resting (MBook st) p (level_at (MBook st) p) i o1" "CanMatch (MTaker st) p"
    "ClientID o1 \<noteq> ClientID (MTaker st)"
proof -
  from assms(2) have mem: "(p, i) \<in> set (priority (MBook st))" and el: "eligible (MTaker st) (MBook st) (p, i)"
    using best_maker_mem by blast+
  from mem have p: "p \<in> set (Active (MBook st))" and i: "i \<in> set (Queue (level_at (MBook st) p))"
    by (auto simp: priority_def)
  then have L: "Limits (MBook st) p = Some (level_at (MBook st) p)"
    using book_invD(2) [OF assms(1)] by (auto simp: level_at_def)
  from el obtain o1 where "Orders (MBook st) i = Some o1" "CanMatch (MTaker st) p"
    "ClientID o1 \<noteq> ClientID (MTaker st)"
    by (auto simp: eligible_def split: option.splits)
  with that L i assms(1) show thesis by (simp add: resting_def)
qed

lemma trade_ready:
  assumes m: "match_ready st" and op: "taker_open st" and r: "resting (MBook st) p l i o1"
  shows "match_ready (tidy p (fill_state clock p i st))"
proof -
  let ?s = "fill_state clock p i st"
  have wf: "book_wf (MBook st)" and sane: "order_sane (MTaker st)"
    and side: "Side (MTaker st) \<noteq> BookSide (MBook st)" using m by (auto simp: match_ready_def)
  note F = fill_state_book [OF r] and ok = fill_state_ok [OF r sane op]
  have L: "Limits (MBook ?s) p = Some (level_at (MBook ?s) p)" by (simp add: level_at_def F)
  have others: "Queue k \<noteq> []" if "Limits (MBook ?s) q = Some k" "q \<noteq> p" for q k
    using that wf by (auto simp: F book_wf_def no_empty_def)
  show ?thesis
  proof (cases "Queue (level_at (MBook ?s) p) = []")
    case True
    have "book_inv (RemoveLimit (MBook ?s) p)" by (rule RemoveLimit_inv [OF ok(1) L True])
    moreover have "no_empty (RemoveLimit (MBook ?s) p)"
      using others by (auto simp: no_empty_def)
    ultimately show ?thesis
      using True ok(2) side by (simp add: match_ready_def book_wf_def tidy_def F)
  next
    case False
    then have "no_empty (MBook ?s)" using others L unfolding no_empty_def by (metis option.inject)
    with False ok side show ?thesis by (simp add: match_ready_def book_wf_def F)
  qed
qed

lemma auction_inv_induct [consumes 2, case_names finished trade]:
  assumes "auction clock st st'" "match_ready st"
    and fin: "\<And>st. match_ready st \<Longrightarrow> \<not> taker_open st \<or> best_maker (MTaker st) (MBook st) = None \<Longrightarrow> P st st"
    and trade: "\<And>st p i o1 st'. match_ready st \<Longrightarrow> taker_open st \<Longrightarrow>
      best_maker (MTaker st) (MBook st) = Some (p, i) \<Longrightarrow>
      resting (MBook st) p (level_at (MBook st) p) i o1 \<Longrightarrow> CanMatch (MTaker st) p \<Longrightarrow>
      ClientID o1 \<noteq> ClientID (MTaker st) \<Longrightarrow> auction clock (tidy p (fill_state clock p i st)) st' \<Longrightarrow>
      P (tidy p (fill_state clock p i st)) st' \<Longrightarrow> P st st'"
  shows "P st st'"
  using assms(1,2)
proof (induction rule: auction.induct)
  case (finished st)
  then show ?case by (intro fin)
next
  case (trade st p i st')
  obtain o1 where "resting (MBook st) p (level_at (MBook st) p) i o1" "CanMatch (MTaker st) p"
    "ClientID o1 \<noteq> ClientID (MTaker st)"
    using best_makerD [OF _ trade.hyps(2)] trade.prems by (auto simp: match_ready_def book_wf_def)
  moreover from this have "match_ready (tidy p (fill_state clock p i st))"
    using trade_ready [OF trade.prems trade.hyps(1)] by blast
  ultimately show ?case using trade assms(4) by blast
qed

lemma auction_ready: "auction clock st st' \<Longrightarrow> match_ready st \<Longrightarrow> match_ready st'"
  by (induction rule: auction_inv_induct) auto

lemma auction_done:
  "auction clock st st' \<Longrightarrow> \<not> taker_open st' \<or> best_maker (MTaker st') (MBook st') = None"
  by (induction rule: auction.induct) auto

lemma auction_taker:
  "auction clock st st' \<Longrightarrow> ClientID (MTaker st') = ClientID (MTaker st) \<and> Qty (MTaker st') = Qty (MTaker st) \<and>
     Side (MTaker st') = Side (MTaker st) \<and> ID (MTaker st') = ID (MTaker st) \<and>
     Price (MTaker st') = Price (MTaker st) \<and> CanMatch (MTaker st') = CanMatch (MTaker st)"
  by (induction rule: auction.induct) auto

text \<open>The executions of a run, in order.\<close>

definition new_execs :: "mstate \<Rightarrow> mstate \<Rightarrow> Execution list" where
  "new_execs st st' = drop (length (MExecs st)) (MExecs st')"

lemma auction_extends: "auction clock st st' \<Longrightarrow> match_ready st \<Longrightarrow> \<exists>es. MExecs st' = MExecs st @ es"
proof (induction rule: auction_inv_induct)
  case (trade st p i o1 st')
  then show ?case by (auto simp: fill_state_book [OF trade(4)])
qed auto

lemma new_execs_refl [simp]: "new_execs st st = []"
  by (simp add: new_execs_def)

lemma new_execs_trade:
  assumes "match_ready st" "taker_open st" "resting (MBook st) p l i o1"
    "auction clock (tidy p (fill_state clock p i st)) st'"
  shows "new_execs st st' = exec_record (clock (length (MExecs st))) (MTaker st) o1 #
    new_execs (tidy p (fill_state clock p i st)) st'"
  using auction_extends [OF assms(4) trade_ready [OF assms(1-3)]]
  by (auto simp: new_execs_def fill_state_book [OF assms(3)])

definition maker_fill :: "Execution list \<Rightarrow> uint64 \<Rightarrow> int" where
  "maker_fill es i = (\<Sum>e\<leftarrow>es. if MakerOrderID e = i then ExecQty e else 0)"

lemma maker_fill_simps [simp]:
  "maker_fill [] i = 0"
  "maker_fill (e # es) i = (if MakerOrderID e = i then ExecQty e else 0) + maker_fill es i"
  by (simp_all add: maker_fill_def)

lemma exec_record_simps [simp]:
  "ExecQty (exec_record n t o1) = fill_qty t o1" "MakerOrderID (exec_record n t o1) = ID o1"
  "MakerClientID (exec_record n t o1) = ClientID o1" "TakerClientID (exec_record n t o1) = ClientID t"
  "TakerOrderID (exec_record n t o1) = ID t" "ExecPrice (exec_record n t o1) = Price o1"
  "MakerSide (exec_record n t o1) = Side o1"
  by (simp_all add: exec_record_def)

text \<open>What no fill ever changes of an order.\<close>

definition same_terms :: "Order \<Rightarrow> Order \<Rightarrow> bool" where
  "same_terms o1 o2 \<longleftrightarrow> ID o2 = ID o1 \<and> ClientID o2 = ClientID o1 \<and> Side o2 = Side o1 \<and>
     Price o2 = Price o1 \<and> Qty o2 = Qty o1 \<and> Visibility o2 = Visibility o1 \<and> IcebergQty o2 = IcebergQty o1"

lemma hit_order:
  "same_terms o1 (fst (snd (hit q l o1)))" "FilledQty (fst (snd (hit q l o1))) = FilledQty o1 + q"
  by (simp_all add: hit_def same_terms_def)

lemma same_terms_trans: "same_terms a b \<Longrightarrow> same_terms b c \<Longrightarrow> same_terms a c"
  by (simp add: same_terms_def)

lemma tidy_Orders [simp]: "Orders (MBook (tidy p st)) = Orders (MBook st)"
  by (simp add: tidy_def)

lemma auction_sum:
  assumes "auction clock st st'" "match_ready st"
  shows "(\<Sum>e\<leftarrow>new_execs st st'. ExecQty e) = FilledQty (MTaker st') - FilledQty (MTaker st)"
  using assms
proof (induction rule: auction_inv_induct)
  case (trade st p i o1 st')
  then show ?case
    by (simp add: new_execs_trade [OF trade(1,2,4,7)] fill_state_book [OF trade(4)])
qed simp

lemma auction_orders:
  assumes "auction clock st st'" "match_ready st"
  shows "rel_option (\<lambda>o1 o2. same_terms o1 o2 \<and> FilledQty o2 = FilledQty o1 + maker_fill (new_execs st st') j)
    (Orders (MBook st) j) (Orders (MBook st') j)"
  using assms
proof (induction rule: auction_inv_induct)
  case (finished st)
  then show ?case by (cases "Orders (MBook st) j") (simp_all add: same_terms_def)
next
  case (trade st p i o1 st')
  note R = restingD [OF trade(4)]
  let ?o = "fst (snd (hit (fill_qty (MTaker st) o1) (level_at (MBook st) p) o1))"
  show ?case
  proof (cases "j = i")
    case True
    have "rel_option (\<lambda>x y. same_terms x y \<and> FilledQty y = FilledQty x +
        maker_fill (new_execs (tidy p (fill_state clock p i st)) st') i) (Some ?o) (Orders (MBook st') i)"
      using trade(8) True by (simp add: fill_state_book [OF trade(4)])
    then show ?thesis
      using True R(4,6) same_terms_trans [OF hit_order(1)]
      by (auto simp: new_execs_trade [OF trade(1,2,4,7)] hit_order(2) option_rel_Some1)
  next
    case False
    then show ?thesis
      using trade(8) R(6) by (simp add: new_execs_trade [OF trade(1,2,4,7)] fill_state_book [OF trade(4)])
  qed
qed

definition exec_ok :: "mstate \<Rightarrow> Execution \<Rightarrow> bool" where
  "exec_ok st e \<longleftrightarrow> 0 < ExecQty e \<and> TakerOrderID e = ID (MTaker st) \<and>
     TakerClientID e = ClientID (MTaker st) \<and> MakerClientID e \<noteq> ClientID (MTaker st) \<and>
     CanMatch (MTaker st) (ExecPrice e) \<and>
     (\<exists>o1. Orders (MBook st) (MakerOrderID e) = Some o1 \<and> MakerClientID e = ClientID o1 \<and>
        ExecPrice e = Price o1 \<and> MakerSide e = Side o1 \<and> Side o1 \<noteq> Side (MTaker st))"

lemma exec_ok_tidy_fill:
  assumes "resting (MBook st) p l i o1" "exec_ok (tidy p (fill_state clock p i st)) e"
  shows "exec_ok st e"
  using assms(2) restingD(4) [OF assms(1)] hit_order(1) [of o1 "fill_qty (MTaker st) o1" l]
  by (auto simp: exec_ok_def fill_state_book [OF assms(1)] same_terms_def split: if_splits)

lemma auction_execs:
  assumes "auction clock st st'" "match_ready st"
  shows "\<forall>e\<in>set (new_execs st st'). exec_ok st e"
  using assms
proof (induction rule: auction_inv_induct)
  case (trade st p i o1 st')
  note R = restingD [OF trade(4)]
  have "0 < fill_qty (MTaker st) o1"
    using fill_qty_bounds(1) [OF trade(4)] trade(1,2) by (simp add: match_ready_def taker_open_iff)
  then have "exec_ok st (exec_record (clock (length (MExecs st))) (MTaker st) o1)"
    using trade(1,5,6) R(4,6,7,8) by (auto simp: exec_ok_def match_ready_def)
  with trade(8) exec_ok_tidy_fill [OF trade(4)] show ?case
    by (auto simp: new_execs_trade [OF trade(1,2,4,7)])
qed simp

section \<open>Price priority of the executions\<close>

definition eligible_prices :: "mstate \<Rightarrow> int64 set" where
  "eligible_prices st = fst ` {x \<in> set (priority (MBook st)). eligible (MTaker st) (MBook st) x}"

lemma hit_queue_subset: "set (Queue (fst (hit q l o1))) \<subseteq> insert (ID o1) (set (Queue l))"
  by (auto simp: hit_def dest: set_remove1_subset [THEN subsetD])

lemma eligible_tidy [simp]: "eligible t (MBook (tidy p st)) = eligible t (MBook st)"
  by (simp add: eligible_def)

lemma priority_mem:
  "(p, i) \<in> set (priority b) \<longleftrightarrow> p \<in> set (Active b) \<and> i \<in> set (Queue (level_at b p))"
  by (auto simp: priority_def)

lemma priority_tidy: "set (priority (MBook (tidy p st))) \<subseteq> set (priority (MBook st))"
  by (auto simp: tidy_def priority_def level_at_def dest!: notin_set_remove1 [rotated] split: if_splits)

lemma eligible_prices_trade:
  assumes "resting (MBook st) p l i o1"
  shows "eligible_prices (tidy p (fill_state clock p i st)) \<subseteq> eligible_prices st"
proof -
  note R = restingD [OF assms] and F = fill_state_book [OF assms]
  have "set (priority (MBook (fill_state clock p i st))) \<subseteq> set (priority (MBook st))"
    using R(2,3) hit_queue_subset [of "fill_qty (MTaker st) o1" l o1] unfolding R(6)
    by (auto simp: priority_mem F level_at_def split: if_splits)
  with priority_tidy [of p "fill_state clock p i st"] show ?thesis
    by (fastforce simp: eligible_prices_def eligible_fill [OF assms])
qed

lemma best_maker_best:
  assumes inv: "book_inv (MBook st)" and best: "best_maker (MTaker st) (MBook st) = Some (p, i)"
    and q: "q \<in> eligible_prices st"
  shows "\<not> better (BookSide (MBook st)) q p"
proof
  let ?E = "eligible (MTaker st) (MBook st)" and ?f = "\<lambda>q. map (Pair q) (Queue (level_at (MBook st) q))"
  assume b: "better (BookSide (MBook st)) q p"
  obtain j where j: "q \<in> set (Active (MBook st))" "j \<in> set (Queue (level_at (MBook st) q))" "?E (q, j)"
    using q by (auto simp: eligible_prices_def priority_mem)
  have p: "p \<in> set (Active (MBook st))"
    using best_maker_mem [OF best] by (simp add: priority_mem)
  from j(1) obtain xs ys where act: "Active (MBook st) = xs @ q # ys" by (meson split_list)
  have sorted: "sorted_wrt (better (BookSide (MBook st))) (xs @ q # ys)"
    using book_invD(1) [OF inv] act by simp
  have later: "p \<notin> set (xs @ [q])"
    using sorted b better_trans [of "BookSide (MBook st)" q p q] by (auto simp: sorted_wrt_append)
  have "(q, j) \<in> set (concat (map ?f (xs @ [q])))" using j by simp
  with j(3) have "find ?E (concat (map ?f (xs @ [q]))) \<noteq> None" unfolding find_None_iff by blast
  then obtain x where x: "find ?E (concat (map ?f (xs @ [q]))) = Some x" by blast
  have pr: "priority (MBook st) = concat (map ?f (xs @ [q])) @ concat (map ?f ys)"
    by (simp add: priority_def act)
  have "find ?E (concat (map ?f (xs @ [q]))) = Some (p, i)"
    using best unfolding best_maker_def pr find_append x by (simp add: x)
  then have "(p, i) \<in> set (concat (map ?f (xs @ [q])))" unfolding find_Some_iff by (metis nth_mem)
  with later show False by auto
qed

lemma auction_prices:
  assumes "auction clock st st'" "match_ready st"
  shows "sorted_wrt (\<lambda>e f. \<not> better (BookSide (MBook st)) (ExecPrice f) (ExecPrice e)) (new_execs st st') \<and>
    ExecPrice ` set (new_execs st st') \<subseteq> eligible_prices st"
  using assms
proof (induction rule: auction_inv_induct)
  case (trade st p i o1 st')
  note R = restingD [OF trade(4)]
  have inv: "book_inv (MBook st)" using trade(1) by (simp add: match_ready_def book_wf_def)
  have "p \<in> eligible_prices st"
    unfolding eligible_prices_def using best_maker_mem [OF trade(3)] by force
  moreover note eligible_prices_trade [OF trade(4), of clock] best_maker_best [OF inv trade(3)]
  ultimately show ?case
    using trade(8) R(7) by (auto simp: new_execs_trade [OF trade(1,2,4,7)] fill_state_book [OF trade(4)])
qed simp

section \<open>Matching\<close>

lemma levels_from_best_eq: "book_inv b \<Longrightarrow> levels_from_best b = Active b"
  by (cases "Active b") (simp_all add: levels_from_best_def book_invD(3) active_head_def)

definition match_start :: "Book \<Rightarrow> Book \<Rightarrow> Order \<Rightarrow> mstate" where
  "match_start bids asks t = \<lparr>MBook = opposite (Side t) bids asks, MTaker = t, MExecs = []\<rparr>"

definition books_ok :: "Book \<Rightarrow> Book \<Rightarrow> bool" where
  "books_ok bids asks \<longleftrightarrow> book_wf bids \<and> book_wf asks \<and> BookSide bids = Buy \<and> BookSide asks = Sell"

definition match_result :: "Book \<Rightarrow> Book \<Rightarrow> Order \<Rightarrow> mstate \<Rightarrow> MatchResult" where
  "match_result bids asks t st =
     \<lparr>RBids = (if Side t = Buy then bids else MBook st), RAsks = (if Side t = Buy then MBook st else asks),
      RTaker = finish_taker (MTaker st), Executions = MExecs st,
      FullyFilled = (\<not> taker_open st)\<rparr>"

lemma match_start_ready: "books_ok bids asks \<Longrightarrow> order_sane t \<Longrightarrow> match_ready (match_start bids asks t)"
  by (cases "Side t") (auto simp: books_ok_def match_ready_def match_start_def opposite_def)

lemma Match_auction:
  assumes "books_ok bids asks" "order_sane t"
  shows "\<exists>st. auction clock (match_start bids asks t) st \<and>
    Match clock bids asks t = Some (match_result bids asks t st)"
proof -
  let ?s = "match_start bids asks t"
  have m: "match_ready ?s" by (rule match_start_ready [OF assms])
  then have "between [] (Active (MBook ?s)) ?s" by (simp add: between_def match_ready_def)
  from sweep_auction [OF this] obtain st where
    "sweep clock (Active (MBook ?s)) ?s = Some st" "auction clock ?s st" by blast
  moreover have "levels_from_best (MBook ?s) = Active (MBook ?s)"
    using m by (intro levels_from_best_eq) (simp add: match_ready_def book_wf_def)
  ultimately show ?thesis
    by (auto simp: Match_def match_result_def match_start_def taker_open_def not_less Let_def)
qed

lemma finish_taker_simps [simp]:
  "FilledQty (finish_taker t) = FilledQty t" "Qty (finish_taker t) = Qty t" "ID (finish_taker t) = ID t"
  "ClientID (finish_taker t) = ClientID t" "Side (finish_taker t) = Side t" "Price (finish_taker t) = Price t"
  "remaining (finish_taker t) = remaining t"
  by (simp_all add: finish_taker_def remaining_def)

definition result_opposite :: "Order \<Rightarrow> MatchResult \<Rightarrow> Book" where
  "result_opposite t r = opposite (Side t) (RBids r) (RAsks r)"

definition result_own :: "Order \<Rightarrow> MatchResult \<Rightarrow> Book" where
  "result_own t r = (if Side t = Buy then RBids r else RAsks r)"

lemma match_result_simps [simp]:
  "Executions (match_result bids asks t st) = MExecs st"
  "RTaker (match_result bids asks t st) = finish_taker (MTaker st)"
  "FullyFilled (match_result bids asks t st) \<longleftrightarrow> \<not> taker_open st"
  "result_opposite t (match_result bids asks t st) = MBook st"
  "result_own t (match_result bids asks t st) = (if Side t = Buy then bids else asks)"
  by (simp_all add: match_result_def result_opposite_def result_own_def opposite_def)

lemma match_start_simps [simp]:
  "MBook (match_start bids asks t) = opposite (Side t) bids asks" "MTaker (match_start bids asks t) = t"
  "MExecs (match_start bids asks t) = []" "new_execs (match_start bids asks t) st = MExecs st"
  by (simp_all add: match_start_def new_execs_def)

text \<open>A run of the matcher with everything the auction says about it.\<close>

lemma Match_run:
  assumes "books_ok bids asks" "order_sane t"
  obtains st where "Match clock bids asks t = Some (match_result bids asks t st)"
    "auction clock (match_start bids asks t) st" "match_ready (match_start bids asks t)" "match_ready st"
  using Match_auction [OF assms, of clock] auction_ready match_start_ready [OF assms] by metis

lemma match_result_books:
  assumes "books_ok bids asks" "match_ready st" "auction clock (match_start bids asks t) st"
  shows "books_ok (RBids (match_result bids asks t st)) (RAsks (match_result bids asks t st))"
proof -
  have "BookSide (MBook st) \<noteq> Side t"
    using assms(2) auction_taker [OF assms(3)] by (simp add: match_ready_def eq_commute)
  then show ?thesis
    using assms(1,2) by (cases "Side t"; cases "BookSide (MBook st)")
      (auto simp: books_ok_def match_result_def match_ready_def)
qed

section \<open>Properties\<close>

text \<open>C1: the price-time matcher refines the greedy auction. On well-formed books and an
  order with sane quantities \<open>Match\<close> always returns (its loops terminate in spite of iceberg
  orders re-entering the queue, no zero-quantity panic, no dangling pointer) and its result
  is a complete run of the auction that at each step trades against the first order in
  price-time priority that crosses and belongs to another client.\<close>

theorem Match_refines_auction:
  assumes "books_ok bids asks" "order_sane t"
  shows "\<exists>st. Match clock bids asks t = Some (match_result bids asks t st) \<and>
    auction clock (match_start bids asks t) st"
  using Match_run [OF assms] by metis

definition ask_ladder :: Book where
  "ask_ladder = linked (linked (linked (NewBook Sell) (sample_order 1 7 Sell 100 3))
     (sample_order 2 8 Sell 100 4)) (sample_order 3 8 Sell 101 5)"

lemma ask_ladder_ok: "books_ok (NewBook Buy) ask_ladder"
proof -
  note step = linked_book_wf
  let ?b1 = "linked (NewBook Sell) (sample_order 1 7 Sell 100 3)"
  let ?b2 = "linked ?b1 (sample_order 2 8 Sell 100 4)"
  have 1: "book_wf ?b1 \<and> BookSide ?b1 = BookSide (NewBook Sell)"
    by (intro step [OF NewBook_wf]) (simp_all add: is_i64_def sample_linkable, simp_all add: NewBook_def)
  have c2: "Orders ?b1 2 = None" "linkable (level_at ?b1 100) (sample_order 2 8 Sell 100 4)"
    "BookSide ?b1 = Sell" by code_simp+
  have 2: "book_wf ?b2 \<and> BookSide ?b2 = BookSide ?b1"
    by (intro step 1 [THEN conjunct1]) (simp_all add: is_i64_def c2)
  have c3: "Orders ?b2 3 = None" "linkable (level_at ?b2 101) (sample_order 3 8 Sell 101 5)"
    "BookSide ?b2 = Sell" by code_simp+
  have "book_wf ask_ladder \<and> BookSide ask_ladder = BookSide ?b2"
    unfolding ask_ladder_def by (intro step 2 [THEN conjunct1]) (simp_all add: is_i64_def c3)
  with c3(3) NewBook_wf [of Buy] show ?thesis by (simp add: books_ok_def) (simp add: NewBook_def)
qed

theorem Match_refines_auction_witness:
  "\<exists>st. Match (\<lambda>_. 0) (NewBook Buy) ask_ladder (sample_order 9 7 Buy 100 2) =
      Some (match_result (NewBook Buy) ask_ladder (sample_order 9 7 Buy 100 2) st) \<and>
    auction (\<lambda>_. 0) (match_start (NewBook Buy) ask_ladder (sample_order 9 7 Buy 100 2)) st"
  by (rule Match_refines_auction [OF ask_ladder_ok]) simp

text \<open>C2: matching conserves quantity and the books. The taker's fill grows by exactly the
  sum of the executed quantities and never beyond its quantity; every resting order keeps
  its terms and its fill grows by exactly the executions that name it, never beyond its
  quantity; no order appears or disappears from the index; the taker's own side is
  untouched; and both books are well-formed afterwards.\<close>

theorem Match_conserves:
  assumes "books_ok bids asks" "order_sane t"
  shows "case Match clock bids asks t of None \<Rightarrow> False | Some r \<Rightarrow>
    books_ok (RBids r) (RAsks r) \<and> result_own t r = (if Side t = Buy then bids else asks) \<and>
    FilledQty (RTaker r) = FilledQty t + (\<Sum>e\<leftarrow>Executions r. ExecQty e) \<and> FilledQty (RTaker r) \<le> Qty t \<and>
    (\<forall>i. rel_option (\<lambda>o1 o2. same_terms o1 o2 \<and> FilledQty o2 = FilledQty o1 + maker_fill (Executions r) i \<and>
             FilledQty o2 \<le> Qty o1)
           (Orders (opposite (Side t) bids asks) i) (Orders (result_opposite t r) i))"
proof -
  obtain st where M: "Match clock bids asks t = Some (match_result bids asks t st)"
    and A: "auction clock (match_start bids asks t) st" and rdy: "match_ready (match_start bids asks t)"
    and rdy': "match_ready st" by (rule Match_run [OF assms])
  have "rel_option (\<lambda>o1 o2. same_terms o1 o2 \<and> FilledQty o2 = FilledQty o1 + maker_fill (MExecs st) i \<and>
             FilledQty o2 \<le> Qty o1) (Orders (opposite (Side t) bids asks) i) (Orders (MBook st) i)" for i
  proof -
    have "FilledQty o2 \<le> Qty o2" if "Orders (MBook st) i = Some o2" for o2
      using rdy' book_invD(5) [OF _ that]
      by (auto simp: match_ready_def book_wf_def order_ok_def order_sane_def)
    with auction_orders [OF A rdy, of i] show ?thesis
      by (cases "Orders (MBook st) i"; cases "Orders (opposite (Side t) bids asks) i")
        (auto simp: same_terms_def)
  qed
  moreover have "FilledQty (MTaker st) \<le> Qty t"
    using rdy' auction_taker [OF A] by (simp add: match_ready_def order_sane_def)
  ultimately show ?thesis
    using auction_sum [OF A rdy] match_result_books [OF assms(1) rdy' A] by (simp add: M)
qed

theorem Match_conserves_witness:
  "case Match (\<lambda>_. 0) (NewBook Buy) ask_ladder (sample_order 9 7 Buy 100 6) of None \<Rightarrow> False | Some r \<Rightarrow>
     books_ok (RBids r) (RAsks r) \<and> FilledQty (RTaker r) = 4"
proof -
  let ?m = "Match (\<lambda>_. 0) (NewBook Buy) ask_ladder (sample_order 9 7 Buy 100 6)"
  have f: "map_option (\<lambda>r. FilledQty (RTaker r)) ?m = Some 4" by code_simp
  have "order_sane (sample_order 9 7 Buy 100 6)" by simp
  from Match_conserves [OF ask_ladder_ok this, of "\<lambda>_. 0"] f show ?thesis
    by (cases ?m) simp_all
qed

text \<open>C3: every execution is legitimate. Each has positive quantity, names an order that was
  resting on the opposite side, at that order's price, which the taker's limit accepts, and
  never pairs two orders of one client; and the executions come in price priority, no trade
  at a price followed by one at a better price.\<close>

theorem Match_executions_legal:
  assumes "books_ok bids asks" "order_sane t"
  shows "case Match clock bids asks t of None \<Rightarrow> False | Some r \<Rightarrow>
    (\<forall>e\<in>set (Executions r). 0 < ExecQty e \<and> TakerOrderID e = ID t \<and> TakerClientID e = ClientID t \<and>
       MakerClientID e \<noteq> ClientID t \<and> CanMatch t (ExecPrice e) \<and>
       (\<exists>o1. Orders (opposite (Side t) bids asks) (MakerOrderID e) = Some o1 \<and>
          MakerClientID e = ClientID o1 \<and> ExecPrice e = Price o1 \<and> MakerSide e = Side o1 \<and> Side o1 \<noteq> Side t)) \<and>
    sorted_wrt (\<lambda>e f. \<not> better (BookSide (opposite (Side t) bids asks)) (ExecPrice f) (ExecPrice e))
      (Executions r)"
proof -
  obtain st where "Match clock bids asks t = Some (match_result bids asks t st)"
    and "auction clock (match_start bids asks t) st" and "match_ready (match_start bids asks t)"
    by (rule Match_run [OF assms])
  with auction_execs [of clock "match_start bids asks t" st]
    auction_prices [of clock "match_start bids asks t" st]
  show ?thesis by (simp add: exec_ok_def)
qed

theorem Match_executions_legal_witness:
  "case Match (\<lambda>_. 0) (NewBook Buy) ask_ladder (sample_order 9 5 Buy 101 8) of None \<Rightarrow> False | Some r \<Rightarrow>
     (\<forall>e\<in>set (Executions r). 0 < ExecQty e \<and> MakerClientID e \<noteq> 5) \<and> length (Executions r) = 3"
proof -
  let ?m = "Match (\<lambda>_. 0) (NewBook Buy) ask_ladder (sample_order 9 5 Buy 101 8)"
  have f: "map_option (\<lambda>r. length (Executions r)) ?m = Some 3" by code_simp
  have "order_sane (sample_order 9 5 Buy 101 8)" by simp
  from Match_executions_legal [OF ask_ladder_ok this, of "\<lambda>_. 0"] f show ?thesis
    by (cases ?m) auto
qed

text \<open>C4: matching is complete. Either the incoming order is fully filled, or no order
  resting on the opposite side whose price crosses belongs to anybody but the taker
  itself.\<close>

theorem Match_complete:
  assumes "books_ok bids asks" "order_sane t"
  shows "case Match clock bids asks t of None \<Rightarrow> False | Some r \<Rightarrow>
    (FullyFilled r \<longleftrightarrow> FilledQty (RTaker r) = Qty t) \<and>
    (\<not> FullyFilled r \<longrightarrow> (\<forall>i o1 p. Orders (result_opposite t r) i = Some o1 \<and> Parent o1 = Some p \<and>
        CanMatch t (Price o1) \<longrightarrow> ClientID o1 = ClientID t))"
proof -
  obtain st where M: "Match clock bids asks t = Some (match_result bids asks t st)"
    and A: "auction clock (match_start bids asks t) st" and rdy': "match_ready st"
    by (rule Match_run [OF assms])
  note T = auction_taker [OF A]
  have inv: "book_inv (MBook st)" using rdy' by (simp add: match_ready_def book_wf_def)
  have "ClientID o1 = ClientID t" if "taker_open st" and o1: "Orders (MBook st) i = Some o1"
      and par: "Parent o1 = Some p" and cm: "CanMatch t (Price o1)" for i o1 p
  proof (rule ccontr)
    assume ne: "ClientID o1 \<noteq> ClientID t"
    note ok = order_ok_linkedD [OF book_invD(5) [OF inv o1] par]
    then obtain l where "Limits (MBook st) p = Some l" "i \<in> set (Queue l)" by blast
    then have "(p, i) \<in> set (priority (MBook st))"
      using book_invD(2) [OF inv] by (auto simp: priority_mem level_at_def)
    moreover have "eligible (MTaker st) (MBook st) (p, i)"
      using T ne cm o1 ok(4) by (simp add: eligible_def)
    moreover have "best_maker (MTaker st) (MBook st) = None" using auction_done [OF A] that by simp
    ultimately show False unfolding best_maker_def find_None_iff by blast
  qed
  moreover have "\<not> taker_open st \<longleftrightarrow> FilledQty (MTaker st) = Qty t"
    using rdy' T by (auto simp: taker_open_def match_ready_def order_sane_def)
  ultimately show ?thesis by (auto simp: M)
qed

theorem Match_complete_witness:
  "case Match (\<lambda>_. 0) (NewBook Buy) ask_ladder (sample_order 9 7 Buy 100 6) of None \<Rightarrow> False | Some r \<Rightarrow>
     \<not> FullyFilled r \<and> (\<forall>i o1 p. Orders (RAsks r) i = Some o1 \<and> Parent o1 = Some p \<and>
        CanMatch (sample_order 9 7 Buy 100 6) (Price o1) \<longrightarrow> ClientID o1 = 7)"
proof -
  let ?t = "sample_order 9 7 Buy 100 6"
  let ?m = "Match (\<lambda>_. 0) (NewBook Buy) ask_ladder ?t"
  have f: "map_option FullyFilled ?m = Some False" by code_simp
  have "order_sane ?t" by simp
  from Match_complete [OF ask_ladder_ok this, of "\<lambda>_. 0"] f show ?thesis
    by (cases ?m) (auto simp: result_opposite_def opposite_def)
qed

end
