(* ===== verification/Pro_Rata.thy ===== *)
theory Pro_Rata
  imports Price_Time
begin

text \<open>
  The pro-rata matcher of \<open>matching/prorata.go\<close>. Within a price level the incoming quantity
  is divided among the resting orders of the other clients in proportion to what they
  display; what integer division leaves over goes to them in queue order. The allocation is
  proved exact. The pass loop of a level has no syntactic bound (icebergs refresh), so it is
  a \<open>partial_function (option)\<close>.
\<close>

section \<open>Candidates and shares\<close>

text \<open>The candidates of a level with the quantity each offers, and their total; \<open>None\<close> when
  the total is not representable (\<open>blocked\<close>).\<close>

fun pr_candidates :: "(uint64 \<rightharpoonup> Order) \<Rightarrow> Order \<Rightarrow> int64 \<Rightarrow> uint64 list \<Rightarrow>
    (int64 \<times> (uint64 \<times> int64) list) option" where
  "pr_candidates os incoming totalQ [] = Some (totalQ, [])"
| "pr_candidates os incoming totalQ (i # is) =
     (case os i of
        None \<Rightarrow> pr_candidates os incoming totalQ is
      | Some o1 \<Rightarrow>
          if FilledQty o1 < Qty o1 \<and> ClientID o1 \<noteq> ClientID incoming
          then (let available = makerAvailable o1
                in if available \<le> 0 then pr_candidates os incoming totalQ is
                   else case TryAdd totalQ available of
                     None \<Rightarrow> None
                   | Some totalQ' \<Rightarrow>
                       map_option (\<lambda>(t, cs). (t, (i, available) # cs)) (pr_candidates os incoming totalQ' is))
          else pr_candidates os incoming totalQ is)"

text \<open>The proportional shares; \<open>None\<close> is a panic of \<open>MulDiv\<close>.\<close>

fun floor_shares :: "int64 \<Rightarrow> int64 \<Rightarrow> int64 list \<Rightarrow> int64 list option" where
  "floor_shares rest totalQ [] = Some []"
| "floor_shares rest totalQ (a # as) =
     Option.bind (MulDiv rest a totalQ)
       (\<lambda>m. map_option (\<lambda>ss. min m a # ss) (floor_shares rest totalQ as))"

definition sum_shares :: "int64 list \<Rightarrow> int64" where
  "sum_shares ss = foldl (\<lambda>acc s. i64 (acc + s)) 0 ss"

fun hand_out :: "int64 \<Rightarrow> int64 list \<Rightarrow> int64 list \<Rightarrow> int64 list" where
  "hand_out left (a # as) (s # ss) =
     (if left = 0 then s # ss
      else let extra = min (i64 (a - s)) left
           in i64 (s + extra) # hand_out (i64 (left - extra)) as ss)"
| "hand_out left as ss = ss"

definition allocate :: "int64 \<Rightarrow> int64 \<Rightarrow> int64 list \<Rightarrow> int64 list option" where
  "allocate rest totalQ as =
     Option.bind (floor_shares rest totalQ as)
       (\<lambda>ss. Some (hand_out (min (i64 (rest - sum_shares ss)) totalQ) as ss))"

section \<open>The matcher\<close>

text \<open>One iteration of the emission loop.\<close>

definition pr_give :: "timestamp \<Rightarrow> int64 \<Rightarrow> uint64 \<times> int64 \<Rightarrow> mstate \<times> bool \<Rightarrow> (mstate \<times> bool) option" where
  "pr_give now p = (\<lambda>(i, execQty) (st, refreshed).
     if execQty = 0 then Some (st, refreshed)
     else case Limits (MBook st) p of
       None \<Rightarrow> None
     | Some limit \<Rightarrow>
    (case Orders (MBook st) i of
       None \<Rightarrow> None
     | Some order \<Rightarrow>
         let taker = (MTaker st)\<lparr>FilledQty := i64 (FilledQty (MTaker st) + execQty)\<rparr>;
             o1 = order\<lparr>FilledQty := i64 (FilledQty order + execQty)\<rparr>;
             o2 = (if Visibility o1 = Iceberg \<and> DisplayRemaining o1 > 0
                   then o1\<lparr>DisplayRemaining := i64 (DisplayRemaining o1 - execQty)\<rparr> else o1);
             limit1 = (if Parent o2 \<noteq> None
                       then limit\<lparr>TotalQty := i64 (TotalQty limit - execQty)\<rparr> else limit);
             exec = \<lparr>TakerOrderID = ID taker, MakerOrderID = ID o2, TakerClientID = ClientID taker,
                     MakerClientID = ClientID o2, ExecPrice = LimitPrice limit, ExecQty = execQty,
                     ExecTimestamp = now, TakerFilledQty = FilledQty taker,
                     MakerFilledQty = FilledQty o2, MakerTotalQty = Qty o2, MakerSide = Side o2,
                     MakerPosSide = PositionSide o2\<rparr>;
             (limit2, order2, r) =
               (if FilledQty o2 \<ge> Qty o2
                then (let (l, x) = UnlinkOrder limit1 (o2\<lparr>Status := Filled\<rparr>) in (l, x, False))
                else if Visibility o2 = Iceberg \<and> DisplayRemaining o2 = 0
                then (let (l, x) = refreshIcebergTranche limit1 (o2\<lparr>Status := PartialFill\<rparr>)
                      in (l, x, True))
                else (limit1, o2\<lparr>Status := PartialFill\<rparr>, False))
         in Some (\<lparr>MBook = set_order order2 (set_limit limit2 (MBook st)), MTaker = taker,
                   MExecs = MExecs st @ [exec]\<rparr>, refreshed \<or> r)))"

fun pr_emit :: "timestamp \<Rightarrow> int64 \<Rightarrow> (uint64 \<times> int64) list \<Rightarrow> mstate \<times> bool \<Rightarrow> (mstate \<times> bool) option" where
  "pr_emit now p [] acc = Some acc"
| "pr_emit now p (c # cs) acc = Option.bind (pr_give now p c acc) (pr_emit now p cs)"

text \<open>The passes over one level. The flag of the result is \<open>blocked\<close>. The clock is read once
  per pass: \<open>clock k\<close> is its reading when \<open>k\<close> executions have been emitted.\<close>

partial_function (option) pr_level :: "clock \<Rightarrow> int64 \<Rightarrow> mstate \<Rightarrow> (mstate \<times> bool) option" where
  "pr_level clock p st =
     (case Limits (MBook st) p of
        None \<Rightarrow> None
      | Some limit \<Rightarrow>
          let rest = i64 (Qty (MTaker st) - FilledQty (MTaker st))
          in if rest = 0 then Some (st, False)
             else case pr_candidates (Orders (MBook st)) (MTaker st) 0 (Queue limit) of
               None \<Rightarrow> Some (st, True)
             | Some (totalQty, cs) \<Rightarrow>
                 if totalQty = 0 then Some (st, False)
                 else Option.bind (allocate rest totalQty (map snd cs))
                   (\<lambda>shares. Option.bind
                      (pr_emit (clock (length (MExecs st))) p (zip (map fst cs) shares) (st, False))
                      (\<lambda>(st', refreshed). if \<not> refreshed then Some (st', False)
                                          else pr_level clock p st')))"

declare pr_level.simps [code]

fun pr_sweep :: "clock \<Rightarrow> int64 list \<Rightarrow> mstate \<Rightarrow> mstate option" where
  "pr_sweep clock [] st = Some st"
| "pr_sweep clock (p # ps) st =
     (if taker_open st \<and> CanMatch (MTaker st) p
      then Option.bind (pr_level clock p st)
             (\<lambda>(st', blocked). if blocked then Some st'
                else pr_sweep clock ps (st'\<lparr>MBook := close_level p (MBook st')\<rparr>))
      else Some st)"

definition ProRata_Match :: "clock \<Rightarrow> Book \<Rightarrow> Book \<Rightarrow> Order \<Rightarrow> MatchResult option" where
  "ProRata_Match clock bidBook askBook incoming =
     (let book = opposite (Side incoming) bidBook askBook
      in Option.bind (pr_sweep clock (levels_from_best book) \<lparr>MBook = book, MTaker = incoming, MExecs = []\<rparr>)
           (\<lambda>st. Some \<lparr>RBids = (if Side incoming = Buy then bidBook else MBook st),
                       RAsks = (if Side incoming = Buy then MBook st else askBook),
                       RTaker = finish_taker (MTaker st), Executions = MExecs st,
                       FullyFilled = (FilledQty (MTaker st) \<ge> Qty (MTaker st))\<rparr>))"

section \<open>The allocation\<close>

lemma MulDiv_share:
  assumes "0 < rest" "rest \<le> MaxInt64" "0 < a" "a \<le> tot" "tot \<le> MaxInt64"
    and "rest * a div tot \<le> MaxInt64"
  shows "MulDiv rest a tot = Some (rest * a div tot)"
  using assms
  by (subst MulDiv_eq) (auto simp: is_i64_def sdiv_nonneg_eq pos_imp_zdiv_nonneg_iff intro: order_trans [of _ 0])

definition share_of :: "int \<Rightarrow> int \<Rightarrow> int \<Rightarrow> int" where
  "share_of rest tot a = min (rest * a div tot) a"

lemma share_fits:
  fixes rest a tot :: int
  assumes "0 < rest" "0 < a" "a \<le> tot" shows "rest * a div tot \<le> rest"
proof -
  have "rest * a \<le> rest * tot" using assms by (intro mult_left_mono) auto
  then have "rest * a div tot \<le> rest * tot div tot" using assms by (intro zdiv_mono1) auto
  then show ?thesis using assms by simp
qed

lemma floor_shares_eq:
  assumes "0 < rest" "rest \<le> MaxInt64" "tot \<le> MaxInt64" "\<And>a. a \<in> set as \<Longrightarrow> 0 < a \<and> a \<le> tot"
  shows "floor_shares rest tot as = Some (map (share_of rest tot) as)"
  using assms(4)
proof (induction "as")
  case (Cons a "as")
  then have a: "0 < a" "a \<le> tot" by auto
  have "MulDiv rest a tot = Some (rest * a div tot)"
    using share_fits [OF assms(1) a] assms a by (intro MulDiv_share) auto
  with Cons show ?case by (simp add: share_of_def)
qed simp

lemma share_of_bounds:
  assumes "0 < rest" "0 < a" "0 < tot" shows "0 \<le> share_of rest tot a" "share_of rest tot a \<le> a"
  using assms by (auto simp: share_of_def pos_imp_zdiv_nonneg_iff)

lemma sum_div_le:
  fixes rest tot :: int
  assumes "0 < tot" "0 \<le> rest"
  shows "(\<Sum>a\<leftarrow>as. rest * a div tot) \<le> rest * sum_list as div tot"
proof (induction "as")
  case (Cons a "as")
  have "rest * a div tot + rest * sum_list as div tot \<le> (rest * a + rest * sum_list as) div tot"
  proof -
    have "rest * a div tot * tot \<le> rest * a" "rest * sum_list as div tot * tot \<le> rest * sum_list as"
      using le_div_int_iff [OF assms(1)] by blast+
    then show ?thesis using assms(1) by (simp add: le_div_int_iff distrib_right)
  qed
  with Cons show ?case by (simp add: distrib_left)
qed simp

lemma sum_shares_eq:
  assumes "\<And>s. s \<in> set ss \<Longrightarrow> 0 \<le> s" "sum_list ss \<le> MaxInt64"
  shows "sum_shares ss = sum_list ss"
proof -
  have "foldl (\<lambda>acc s. i64 (acc + s)) acc ss = acc + sum_list ss"
    if "0 \<le> acc" "acc + sum_list ss \<le> MaxInt64" "\<And>s. s \<in> set ss \<Longrightarrow> 0 \<le> s" for acc
    using that
  proof (induction ss arbitrary: acc)
    case (Cons s ss)
    have "0 \<le> sum_list ss" using Cons.prems by (intro sum_list_nonneg) auto
    moreover have s: "0 \<le> s" using Cons.prems by auto
    ultimately have "0 \<le> acc + s" "acc + s \<le> MaxInt64" using Cons.prems(1,2) by auto
    then have "i64 (acc + s) = acc + s" by (intro i64_id) (simp add: is_i64_def)
    then show ?case using Cons s by simp
  qed simp
  from this [of 0] assms show ?thesis by (simp add: sum_shares_def)
qed

lemma hand_out_ok:
  assumes "list_all2 (\<lambda>s a. 0 \<le> s \<and> s \<le> a \<and> a \<le> MaxInt64) ss as" "0 \<le> lf" "lf \<le> MaxInt64"
  shows "list_all2 (\<le>) ss (hand_out lf as ss) \<and> list_all2 (\<le>) (hand_out lf as ss) as \<and>
    sum_list ss \<le> sum_list as \<and>
    sum_list (hand_out lf as ss) = sum_list ss + min lf (sum_list as - sum_list ss)"
  using assms
proof (induction ss "as" arbitrary: lf rule: list_all2_induct)
  case (Cons s ss a "as")
  have s: "0 \<le> s" "s \<le> a" "a \<le> MaxInt64" using Cons.hyps by auto
  let ?e = "min (a - s) lf"
  have d: "i64 (a - s) = a - s" using s by (intro i64_id) (auto simp: is_i64_def)
  have e: "i64 (s + ?e) = s + ?e" "i64 (lf - ?e) = lf - ?e"
    using s Cons.prems by (auto intro!: i64_id simp: is_i64_def)
  have le: "list_all2 (\<le>) ss as" using Cons.hyps(2) by (rule list_all2_mono) auto
  have IH: "list_all2 (\<le>) ss (hand_out l as ss) \<and> list_all2 (\<le>) (hand_out l as ss) as \<and>
      sum_list ss \<le> sum_list as \<and>
      sum_list (hand_out l as ss) = sum_list ss + min l (sum_list as - sum_list ss)"
    if "0 \<le> l" "l \<le> MaxInt64" for l using Cons.IH that .
  show ?case
  proof (cases "lf = 0")
    case True
    with IH [of 0] le s show ?thesis by (simp add: list_all2_refl)
  next
    case False
    have "hand_out lf (a # as) (s # ss) = (s + ?e) # hand_out (lf - ?e) as ss"
      using False by (simp add: d e Let_def)
    moreover have "0 \<le> lf - ?e" "lf - ?e \<le> MaxInt64" using Cons.prems s by auto
    ultimately show ?thesis using IH [of "lf - ?e"] s Cons.prems by (auto simp: min_def)
  qed
qed simp

text \<open>The leftover goes to the front of the queue: up to some place everybody gets all he offers, behind it
  nobody gets more than his share.\<close>

definition queue_first :: "int list \<Rightarrow> int list \<Rightarrow> int list \<Rightarrow> bool" where
  "queue_first as shares ss \<longleftrightarrow> (\<exists>k. \<forall>j<length as. (j < k \<longrightarrow> ss ! j = as ! j) \<and> (k < j \<longrightarrow> ss ! j = shares ! j))"

lemma hand_out_front:
  assumes "list_all2 (\<lambda>s a. 0 \<le> s \<and> s \<le> a \<and> a \<le> MaxInt64) ss as" "0 \<le> lf" "lf \<le> MaxInt64"
  shows "queue_first as ss (hand_out lf as ss)"
  using assms
proof (induction ss "as" arbitrary: lf rule: list_all2_induct)
  case (Cons s ss a "as")
  have s: "0 \<le> s" "s \<le> a" "a \<le> MaxInt64" using Cons.hyps by auto
  have i: "i64 (a - s) = a - s" "i64 a = a" using s by (auto intro!: i64_id simp: is_i64_def)
  have none: "hand_out 0 as ss = ss" by (cases "as"; cases ss) auto
  consider "lf = 0" | "0 < lf" "lf < a - s" | "0 < lf" "a - s \<le> lf" using Cons.prems by linarith
  then show ?case
  proof cases
    case 1
    then show ?thesis by (auto simp: queue_first_def intro: exI [of _ 0])
  next
    case 2
    then have "hand_out lf (a # as) (s # ss) = i64 (s + lf) # ss" by (simp add: i none Let_def)
    then show ?thesis by (auto simp: queue_first_def nth_Cons' intro!: exI [of _ 0])
  next
    case 3
    have l: "i64 (lf - (a - s)) = lf - (a - s)" using 3 s Cons.prems by (intro i64_id) (auto simp: is_i64_def)
    have h: "hand_out lf (a # as) (s # ss) = a # hand_out (lf - (a - s)) as ss" using 3 by (simp add: i l Let_def)
    obtain k where k: "\<forall>j<length as. (j < k \<longrightarrow> hand_out (lf - (a - s)) as ss ! j = as ! j) \<and> (k < j \<longrightarrow> hand_out (lf - (a - s)) as ss ! j = ss ! j)"
      using Cons.IH [of "lf - (a - s)"] 3 s Cons.prems by (auto simp: queue_first_def)
    have "(j < Suc k \<longrightarrow> (a # hand_out (lf - (a - s)) as ss) ! j = (a # as) ! j) \<and>
        (Suc k < j \<longrightarrow> (a # hand_out (lf - (a - s)) as ss) ! j = (s # ss) ! j)" if "j < length (a # as)" for j
      using k that by (cases j) auto
    then show ?thesis unfolding queue_first_def h by blast
  qed
qed (simp add: queue_first_def)

lemma allocate_eq:
  assumes rest: "0 < rest" "rest \<le> MaxInt64" and tot: "tot = sum_list as" "tot \<le> MaxInt64" "as \<noteq> []"
    and pos: "\<And>a. a \<in> set as \<Longrightarrow> 0 < a"
  shows "\<exists>ss. allocate rest tot as = Some ss \<and> list_all2 (\<lambda>a s. share_of rest tot a \<le> s \<and> s \<le> a) as ss \<and>
    sum_list ss = min rest tot \<and> queue_first as (map (share_of rest tot) as) ss"
proof -
  let ?fs = "map (share_of rest tot) as"
  have le: "a \<le> tot" if "a \<in> set as" for a
    using member_le_sum_list [OF that] pos by (auto simp: tot(1) less_imp_le)
  have tot0: "0 < tot" using tot(3) le pos by (cases "as") force+
  have fs: "floor_shares rest tot as = Some ?fs"
    using rest tot le pos by (intro floor_shares_eq) auto
  have b: "0 \<le> share_of rest tot a \<and> share_of rest tot a \<le> a" if "a \<in> set as" for a
    using share_of_bounds [OF rest(1) pos [OF that] tot0] by simp
  have sum_tot: "sum_list ?fs \<le> tot"
    using sum_list_mono [of "as" "share_of rest tot" "\<lambda>a. a"] b by (simp add: tot(1))
  have "sum_list ?fs \<le> (\<Sum>a\<leftarrow>as. rest * a div tot)"
    by (intro sum_list_mono) (simp add: share_of_def)
  also have "\<dots> \<le> rest * tot div tot" using sum_div_le [of tot rest "as"] tot0 rest tot(1) by simp
  finally have sum_rest: "sum_list ?fs \<le> rest" using tot0 by simp
  have sum0: "0 \<le> sum_list ?fs" using b by (intro sum_list_nonneg) auto
  have ss: "sum_shares ?fs = sum_list ?fs"
    using b sum_tot tot(2) by (intro sum_shares_eq) auto
  let ?lf = "min (rest - sum_list ?fs) tot"
  have d: "i64 (rest - sum_list ?fs) = rest - sum_list ?fs"
    using rest sum_rest sum0 by (intro i64_id) (auto simp: is_i64_def)
  have max: "a \<le> MaxInt64" if "a \<in> set as" for a using le [OF that] tot(2) by linarith
  have sh: "list_all2 (\<lambda>s a. 0 \<le> s \<and> s \<le> a \<and> a \<le> MaxInt64) ?fs as"
    using b max by (auto simp: list_all2_conv_all_nth)
  have lf: "0 \<le> ?lf" "?lf \<le> MaxInt64" using sum_rest tot0 tot(2) by auto
  from sh lf have H: "list_all2 (\<le>) ?fs (hand_out ?lf as ?fs)" "list_all2 (\<le>) (hand_out ?lf as ?fs) as"
    "sum_list (hand_out ?lf as ?fs) = sum_list ?fs + min ?lf (sum_list as - sum_list ?fs)"
    using hand_out_ok by blast+
  have "f + min (min (rest - f) tot) (tot - f) = min rest tot" if "0 \<le> f" for f
    using that by (simp add: min_def)
  from this [OF sum0] H(3) have "sum_list (hand_out ?lf as ?fs) = min rest tot"
    unfolding tot(1) [symmetric] by simp
  moreover have "list_all2 (\<lambda>a s. share_of rest tot a \<le> s \<and> s \<le> a) as (hand_out ?lf as ?fs)"
    using H(1,2) by (auto simp: list_all2_conv_all_nth)
  ultimately show ?thesis using hand_out_front [OF sh lf] by (simp add: allocate_def fs ss d)
qed

section \<open>Properties\<close>

text \<open>C38: the pro-rata allocation of a level is exact. For a positive incoming quantity and
  positive offers with a representable total, the shares exist (no panic, no wrap-around) and
  add up to the smaller of the incoming quantity and the total on offer. Every resting order gets
  at least its proportional share rounded down and never more than it offers. What rounding leaves over goes
  to the front of the queue: there is a place before which every order gets all it offers and behind which no order
  gets more than its rounded share. An order near the front can therefore get much more than its proportion.\<close>

theorem allocate_exact:
  assumes "0 < rest" "rest \<le> MaxInt64" "tot = sum_list as" "tot \<le> MaxInt64" "as \<noteq> []"
    "\<forall>a\<in>set as. 0 < a"
  shows "\<exists>ss. allocate rest tot as = Some ss \<and> length ss = length as \<and> sum_list ss = min rest tot \<and>
    (\<forall>j<length as. min (rest * as ! j div tot) (as ! j) \<le> ss ! j \<and> ss ! j \<le> as ! j) \<and>
    (\<exists>k. \<forall>j<length as. (j < k \<longrightarrow> ss ! j = as ! j) \<and> (k < j \<longrightarrow> ss ! j = min (rest * as ! j div tot) (as ! j)))"
proof -
  obtain ss where ss: "allocate rest tot as = Some ss" "list_all2 (\<lambda>a s. share_of rest tot a \<le> s \<and> s \<le> a) as ss"
    "sum_list ss = min rest tot" "queue_first as (map (share_of rest tot) as) ss"
    using allocate_eq [OF assms(1-5)] assms(6) by blast
  from ss(4) obtain k where "\<forall>j<length as. (j < k \<longrightarrow> ss ! j = as ! j) \<and> (k < j \<longrightarrow> ss ! j = map (share_of rest tot) as ! j)"
    unfolding queue_first_def by blast
  then have "\<forall>j<length as. (j < k \<longrightarrow> ss ! j = as ! j) \<and> (k < j \<longrightarrow> ss ! j = min (rest * as ! j div tot) (as ! j))"
    by (simp add: share_of_def)
  moreover from ss(2) have "length ss = length as" "\<forall>j<length as. min (rest * as ! j div tot) (as ! j) \<le> ss ! j \<and> ss ! j \<le> as ! j"
    by (simp_all add: list_all2_conv_all_nth share_of_def)
  ultimately show ?thesis using ss(1,3) by blast
qed

text \<open>Five orders of seven share an incoming four: every rounded share is zero and the first order gets all four.\<close>

theorem allocate_exact_witness:
  "\<exists>ss. allocate 4 35 [7, 7, 7, 7, 7] = Some ss \<and> sum_list ss = 4 \<and> ss = [4, 0, 0, 0, 0]"
proof -
  obtain ss where ss: "allocate 4 35 [7, 7, 7, 7, 7] = Some ss" "sum_list ss = 4"
    using allocate_exact [of 4 35 "[7, 7, 7, 7, 7]"] by auto
  have "allocate 4 35 [7, 7, 7, 7, 7] = Some [4, 0, 0, 0, 0]" by code_simp
  with ss show ?thesis by simp
qed

end
