(* ===== verification/Go_Map.thy ===== *)
theory Go_Map
  imports Prelude "HOL-Library.AList" "HOL-Library.List_Lexorder" "HOL-Library.Char_ord"
begin

text \<open>
  Go maps that the code iterates over, as association lists with distinct keys: reading a
  missing key gives the zero value, assignment is \<open>mput\<close>, compound addition wraps at 64
  bits, and \<open>range\<close> over sorted keys is \<open>mkeys\<close>.
\<close>

type_synonym ('k, 'v) gomap = "('k \<times> 'v) list"

definition mget :: "('k, int) gomap \<Rightarrow> 'k \<Rightarrow> int" where
  "mget m k = (case map_of m k of None \<Rightarrow> 0 | Some v \<Rightarrow> v)"

definition mput :: "('k, 'v) gomap \<Rightarrow> 'k \<Rightarrow> 'v \<Rightarrow> ('k, 'v) gomap" where
  "mput m k v = AList.update k v m"

definition madd :: "('k, int) gomap \<Rightarrow> 'k \<Rightarrow> int \<Rightarrow> ('k, int) gomap" where
  "madd m k d = mput m k (i64 (mget m k + d))"

definition mkeys :: "('k::linorder, 'v) gomap \<Rightarrow> 'k list" where
  "mkeys m = sort (map fst m)"

definition is_map :: "('k, 'v) gomap \<Rightarrow> bool" where
  "is_map m \<longleftrightarrow> distinct (map fst m)"

lemma map_of_mput [simp, map_simps]: "map_of (mput m k v) = (map_of m)(k \<mapsto> v)"
  by (simp add: mput_def update_conv')

lemma is_map_mput [simp, intro]: "is_map m \<Longrightarrow> is_map (mput m k v)"
  by (simp add: is_map_def mput_def distinct_update)

lemma is_map_Nil [simp]: "is_map []"
  by (simp add: is_map_def)

lemma mget_mput [simp, map_simps]: "mget (mput m k v) k' = (if k' = k then v else mget m k')"
  by (simp add: mget_def)

lemma mget_madd [map_simps]: "mget (madd m k d) k' = (if k' = k then i64 (mget m k + d) else mget m k')"
  by (simp add: madd_def)

lemma is_map_madd [simp, intro]: "is_map m \<Longrightarrow> is_map (madd m k d)"
  by (simp add: madd_def)

lemma mget_Nil [simp]: "mget [] k = 0"
  by (simp add: mget_def)

lemma fst_set_mput: "fst ` set (mput m k v) = insert k (fst ` set m)"
  by (simp add: mput_def dom_update [unfolded dom_def] update_conv' flip: dom_map_of_conv_image_fst)

text \<open>Sums over a map, and the effect of one assignment on them.\<close>

definition msum :: "('k \<Rightarrow> 'v \<Rightarrow> int) \<Rightarrow> ('k, 'v) gomap \<Rightarrow> int" where
  "msum f m = (\<Sum>(k, v)\<leftarrow>m. f k v)"

lemma msum_Nil [simp]: "msum f [] = 0"
  by (simp add: msum_def)

lemma msum_Cons: "msum f ((k, v) # m) = f k v + msum f m"
  by (simp add: msum_def)

lemma msum_mput:
  "is_map m \<Longrightarrow> msum f (mput m k v) =
     msum f m - (case map_of m k of None \<Rightarrow> 0 | Some u \<Rightarrow> f k u) + f k v"
proof (induction m)
  case Nil
  then show ?case by (simp add: mput_def msum_def)
next
  case (Cons x m)
  obtain a b where x: "x = (a, b)" by (cases x)
  with Cons.prems have m: "is_map m" and a: "a \<notin> fst ` set m" by (simp_all add: is_map_def)
  show ?case
  proof (cases "a = k")
    case True
    then show ?thesis by (simp add: x mput_def msum_Cons)
  next
    case False
    have "mput (x # m) k v = x # mput m k v" using False by (simp add: x mput_def)
    with Cons.IH [OF m] False show ?thesis by (simp add: x msum_Cons)
  qed
qed

lemma msum_eq_of: "is_map m \<Longrightarrow> msum (\<lambda>k v. if k = a then v else 0) m = mget m a"
proof (induction m)
  case (Cons x m)
  obtain c b where x: "x = (c, b)" by (cases x)
  with Cons.prems have m: "is_map m" and c: "c \<notin> fst ` set m" by (simp_all add: is_map_def)
  have "c = a \<Longrightarrow> map_of m a = None" using c by (auto simp: map_of_eq_None_iff)
  with Cons.IH [OF m] show ?case by (auto simp: x msum_Cons mget_def)
qed simp

lemma mkeys_set [simp]: "set (mkeys m) = fst ` set m"
  by (simp add: mkeys_def)

lemma mkeys_distinct: "is_map m \<Longrightarrow> distinct (mkeys m)"
  by (simp add: is_map_def mkeys_def)

lemma mget_absent: "k \<notin> fst ` set m \<Longrightarrow> mget m k = 0"
  by (metis map_of_eq_None_iff mget_def option.simps(4))

end
