(* ===== verification/Client_Account.thy ===== *)
theory Client_Account
  imports Order_Types Go_Map "HOL-Library.Multiset"
begin

text \<open>
  A client's account (\<open>exchange/client.go\<close>): spot and perpetual wallets with their
  reservations, debt and its attribution to the spot wallet, the list of open order IDs,
  and the isolated-margin sub-accounts. All arithmetic on balances is Go \<open>int64\<close>
  arithmetic and wraps. The fee plan is an argument of the settlement functions instead of a
  field.
\<close>

record IsolatedPosition =
  IsoSymbol :: string
  Collateral :: "(asset, int64) gomap"
  IsoBorrowed :: "(asset, int64) gomap"

record Client =
  CID :: uint64
  Balances :: "(asset, int64) gomap"
  ReservedSpot :: "(asset, int64) gomap"
  PerpBalances :: "(asset, int64) gomap"
  PerpReserved :: "(asset, int64) gomap"
  Borrowed :: "(asset, int64) gomap"
  BorrowedSpot :: "(asset, int64) gomap"
  OrderIDs :: "uint64 list"
  MarginModeOf :: MarginMode
  IsolatedPositions :: "(string, IsolatedPosition) gomap"

definition NewClient :: "uint64 \<Rightarrow> Client" where
  "NewClient i = \<lparr>CID = i, Balances = [], ReservedSpot = [], PerpBalances = [], PerpReserved = [],
     Borrowed = [], BorrowedSpot = [], OrderIDs = [], MarginModeOf = CrossMargin, IsolatedPositions = []\<rparr>"

definition GetBalance :: "Client \<Rightarrow> asset \<Rightarrow> int64" where
  "GetBalance c a = mget (Balances c) a"

definition GetAvailable :: "Client \<Rightarrow> asset \<Rightarrow> int64" where
  "GetAvailable c a = i64 (mget (Balances c) a - mget (ReservedSpot c) a)"

definition GetReserved :: "Client \<Rightarrow> asset \<Rightarrow> int64" where
  "GetReserved c a = mget (ReservedSpot c) a"

definition AddBalance :: "Client \<Rightarrow> asset \<Rightarrow> int64 \<Rightarrow> Client" where
  "AddBalance c a amount = c\<lparr>Balances := madd (Balances c) a amount\<rparr>"

text \<open>The operations that return \<open>false\<close> give \<open>None\<close>.\<close>

definition SubBalance :: "Client \<Rightarrow> asset \<Rightarrow> int64 \<Rightarrow> Client option" where
  "SubBalance c a amount =
     (if GetAvailable c a < amount then None else Some (c\<lparr>Balances := madd (Balances c) a (- amount)\<rparr>))"

definition Reserve :: "Client \<Rightarrow> asset \<Rightarrow> int64 \<Rightarrow> Client option" where
  "Reserve c a amount =
     (if amount < 0 then None
      else if GetAvailable c a < amount then None
      else Some (c\<lparr>ReservedSpot := madd (ReservedSpot c) a amount\<rparr>))"

definition Release :: "Client \<Rightarrow> asset \<Rightarrow> int64 \<Rightarrow> Client" where
  "Release c a amount =
     c\<lparr>ReservedSpot := mput (ReservedSpot c) a (max 0 (i64 (mget (ReservedSpot c) a - amount)))\<rparr>"

definition PerpAvailable :: "Client \<Rightarrow> asset \<Rightarrow> int64" where
  "PerpAvailable c a = i64 (mget (PerpBalances c) a - mget (PerpReserved c) a)"

definition BorrowedPerpPortion :: "Client \<Rightarrow> asset \<Rightarrow> int64" where
  "BorrowedPerpPortion c a =
     (let d = i64 (mget (Borrowed c) a - mget (BorrowedSpot c) a) in if d > 0 then d else 0)"

definition BorrowedSpotPortion :: "Client \<Rightarrow> asset \<Rightarrow> int64" where
  "BorrowedSpotPortion c a = min (mget (BorrowedSpot c) a) (mget (Borrowed c) a)"

definition PerpBalance :: "Client \<Rightarrow> asset \<Rightarrow> int64" where
  "PerpBalance c a = mget (PerpBalances c) a"

definition MutatePerpBalance :: "Client \<Rightarrow> asset \<Rightarrow> int64 \<Rightarrow> Client" where
  "MutatePerpBalance c a delta = c\<lparr>PerpBalances := madd (PerpBalances c) a delta\<rparr>"

definition ReservePerp :: "Client \<Rightarrow> asset \<Rightarrow> int64 \<Rightarrow> Client option" where
  "ReservePerp c a amount =
     (if amount < 0 then None
      else if PerpAvailable c a < amount then None
      else Some (c\<lparr>PerpReserved := madd (PerpReserved c) a amount\<rparr>))"

definition ForceReservePerp :: "Client \<Rightarrow> asset \<Rightarrow> int64 \<Rightarrow> Client" where
  "ForceReservePerp c a amount = c\<lparr>PerpReserved := madd (PerpReserved c) a amount\<rparr>"

definition ReleasePerp :: "Client \<Rightarrow> asset \<Rightarrow> int64 \<Rightarrow> Client" where
  "ReleasePerp c a amount =
     c\<lparr>PerpReserved := mput (PerpReserved c) a (max 0 (i64 (mget (PerpReserved c) a - amount)))\<rparr>"

definition Client_AddOrder :: "Client \<Rightarrow> uint64 \<Rightarrow> Client" where
  "Client_AddOrder c orderID = c\<lparr>OrderIDs := OrderIDs c @ [orderID]\<rparr>"

text \<open>\<open>RemoveOrder\<close> moves the last ID into the slot of the first match.\<close>

fun find_index :: "uint64 \<Rightarrow> nat \<Rightarrow> uint64 list \<Rightarrow> nat option" where
  "find_index x n [] = None"
| "find_index x n (y # ys) = (if y = x then Some n else find_index x (Suc n) ys)"

definition RemoveOrder :: "Client \<Rightarrow> uint64 \<Rightarrow> Client" where
  "RemoveOrder c orderID =
     (case find_index orderID 0 (OrderIDs c) of
        None \<Rightarrow> c
      | Some i \<Rightarrow>
          c\<lparr>OrderIDs := take (length (OrderIDs c) - 1)
               ((OrderIDs c)[i := OrderIDs c ! (length (OrderIDs c) - 1)])\<rparr>)"

record AssetBalance =
  ABAsset :: asset
  Free :: int64
  Locked :: int64
  ABBorrowed :: int64
  NetAsset :: int64

record BalanceSnapshot =
  BSTimestamp :: timestamp
  BSClientID :: uint64
  SpotRows :: "AssetBalance list"
  PerpRows :: "AssetBalance list"
  BSBorrowed :: "(asset, int64) gomap"

definition balance_row :: "(asset, int64) gomap \<Rightarrow> (asset, int64) gomap \<Rightarrow> (asset \<Rightarrow> int64) \<Rightarrow> asset \<Rightarrow> AssetBalance" where
  "balance_row bal res debt a =
     (let tot = mget bal a; locked = mget res a; b = debt a
      in \<lparr>ABAsset = a, Free = i64 (tot - locked), Locked = locked, ABBorrowed = b, NetAsset = i64 (tot - b)\<rparr>)"

definition GetBalanceSnapshot :: "Client \<Rightarrow> timestamp \<Rightarrow> BalanceSnapshot" where
  "GetBalanceSnapshot c ts =
     (let spotAssets = sort (remdups (map fst (Balances c) @
            filter (\<lambda>a. BorrowedSpotPortion c a > 0) (map fst (BorrowedSpot c))));
          perpAssets = sort (remdups (map fst (PerpBalances c) @
            filter (\<lambda>a. BorrowedPerpPortion c a > 0) (map fst (Borrowed c))))
      in \<lparr>BSTimestamp = ts, BSClientID = CID c,
          SpotRows = map (balance_row (Balances c) (ReservedSpot c) (BorrowedSpotPortion c)) spotAssets,
          PerpRows = map (balance_row (PerpBalances c) (PerpReserved c) (BorrowedPerpPortion c)) perpAssets,
          BSBorrowed = filter (\<lambda>(a, v). v > 0) (Borrowed c)\<rparr>)"

section \<open>Wallet discipline\<close>

text \<open>In both wallets the reservation of every asset is non-negative and covered.\<close>

definition wallet_ok :: "(asset, int64) gomap \<Rightarrow> (asset, int64) gomap \<Rightarrow> bool" where
  "wallet_ok bal res \<longleftrightarrow>
     (\<forall>a. 0 \<le> mget res a \<and> mget res a \<le> mget bal a \<and> mget bal a \<le> MaxInt64)"

definition client_ok :: "Client \<Rightarrow> bool" where
  "client_ok c \<longleftrightarrow> wallet_ok (Balances c) (ReservedSpot c) \<and> wallet_ok (PerpBalances c) (PerpReserved c)"

lemma wallet_available:
  "wallet_ok bal res \<Longrightarrow> i64 (mget bal a - mget res a) = mget bal a - mget res a"
  unfolding wallet_ok_def by (intro i64_id) (auto simp: is_i64_def dest: spec [of _ a])

lemma client_available:
  "client_ok c \<Longrightarrow> GetAvailable c a = mget (Balances c) a - mget (ReservedSpot c) a"
  "client_ok c \<Longrightarrow> PerpAvailable c a = mget (PerpBalances c) a - mget (PerpReserved c) a"
  by (simp_all add: GetAvailable_def PerpAvailable_def client_ok_def wallet_available)

lemma wallet_reserve:
  assumes "wallet_ok bal res" "0 \<le> x" "x \<le> mget bal a - mget res a"
  shows "wallet_ok bal (madd res a x)" "mget (madd res a x) a = mget res a + x"
proof -
  have "i64 (mget res a + x) = mget res a + x"
    using assms by (intro i64_id) (auto simp: wallet_ok_def is_i64_def dest: spec [of _ a])
  with assms show "wallet_ok bal (madd res a x)" "mget (madd res a x) a = mget res a + x"
    by (auto simp: wallet_ok_def mget_madd)
qed

lemma wallet_release:
  assumes "wallet_ok bal res" "0 \<le> x" "x \<le> MaxInt64"
  shows "wallet_ok bal (mput res a (max 0 (i64 (mget res a - x))))"
proof -
  have r: "0 \<le> mget res a" "mget res a \<le> mget bal a" "mget bal a \<le> MaxInt64"
    using assms(1) by (auto simp: wallet_ok_def)
  then have "i64 (mget res a - x) = mget res a - x" using assms(2,3) by (intro i64_id) (auto simp: is_i64_def)
  with r assms(2) have "0 \<le> max 0 (i64 (mget res a - x))" "max 0 (i64 (mget res a - x)) \<le> mget bal a"
    by auto
  with assms(1) show ?thesis by (auto simp: wallet_ok_def)
qed

lemma wallet_debit:
  assumes "wallet_ok bal res" "0 \<le> x" "x \<le> mget bal a - mget res a"
  shows "wallet_ok (madd bal a (- x)) res" "mget (madd bal a (- x)) a = mget bal a - x"
proof -
  have r: "0 \<le> mget res a" "mget res a \<le> mget bal a" "mget bal a \<le> MaxInt64"
    using assms(1) by (auto simp: wallet_ok_def)
  then have e: "i64 (mget bal a - x) = mget bal a - x" using assms(2,3) by (intro i64_id) (auto simp: is_i64_def)
  have b: "mget res a \<le> mget bal a - x" "mget bal a - x \<le> MaxInt64" using r assms(2,3) by linarith+
  show "wallet_ok (madd bal a (- x)) res" "mget (madd bal a (- x)) a = mget bal a - x"
    using b e assms(1) by (auto simp: wallet_ok_def mget_madd)
qed

lemma wallet_credit:
  assumes "wallet_ok bal res" "0 \<le> x" "mget bal a + x \<le> MaxInt64"
  shows "wallet_ok (madd bal a x) res" "mget (madd bal a x) a = mget bal a + x"
proof -
  have r: "0 \<le> mget res a" "mget res a \<le> mget bal a" using assms(1) by (auto simp: wallet_ok_def)
  then have e: "i64 (mget bal a + x) = mget bal a + x" using assms(2,3) by (intro i64_id) (auto simp: is_i64_def)
  have b: "mget res a \<le> mget bal a + x" using r assms(2) by linarith
  show "wallet_ok (madd bal a x) res" "mget (madd bal a x) a = mget bal a + x"
    using b e assms(1,3) by (auto simp: wallet_ok_def mget_madd)
qed

lemma find_index_spec:
  "find_index x n xs = (if x \<in> set xs then Some (n + length (takeWhile (\<lambda>y. y \<noteq> x) xs)) else None)"
  by (induction x n xs rule: find_index.induct) auto

lemma index_takeWhile:
  "x \<in> set xs \<Longrightarrow> length (takeWhile (\<lambda>y. y \<noteq> x) xs) < length xs \<and>
     xs ! length (takeWhile (\<lambda>y. y \<noteq> x) xs) = x"
  by (induction xs) auto

lemma RemoveOrder_mset: "mset (OrderIDs (RemoveOrder c i)) = mset (OrderIDs c) - {#i#}"
proof (cases "i \<in> set (OrderIDs c)")
  case False
  then show ?thesis by (simp add: RemoveOrder_def find_index_spec)
next
  case True
  let ?xs = "OrderIDs c" and ?n = "length (takeWhile (\<lambda>y. y \<noteq> i) (OrderIDs c))"
  obtain pre last where xs: "?xs = pre @ [last]" using True by (cases ?xs rule: rev_cases) auto
  have n: "?n < length ?xs" "?xs ! ?n = i"
    using index_takeWhile [OF True] by blast+
  have e: "OrderIDs (RemoveOrder c i) = take (length pre) (?xs[?n := last])"
    using True xs by (simp add: RemoveOrder_def find_index_spec nth_append)
  show ?thesis
  proof (cases "?n < length pre")
    case True
    then have "pre ! ?n = i" using n(2) xs by (simp add: nth_append)
    moreover from this True have "i \<in># mset pre" by (metis nth_mem set_mset_mset)
    then obtain m where "mset pre = add_mset i m" by (metis multi_member_split)
    ultimately show ?thesis using True e xs by (simp add: list_update_append mset_update)
  next
    case False
    then have "?n = length pre" using n(1) xs by simp
    moreover from this n(2) xs have "last = i" by (simp add: nth_append)
    ultimately show ?thesis using e xs by simp
  qed
qed

section \<open>Properties\<close>

text \<open>Reservations keep both wallets sound. In an account whose reservations are
  non-negative and covered by its balances, reserving succeeds exactly for a non-negative
  amount that is available and then earmarks exactly that amount; releasing, debiting the
  available part and crediting keep every reservation non-negative and covered; and
  removing an order drops exactly one occurrence of its ID although it reorders the
  list.\<close>

theorem wallet_discipline:
  assumes "client_ok c" "0 \<le> x" "x \<le> MaxInt64"
  shows "(case Reserve c a x of
        None \<Rightarrow> mget (Balances c) a - mget (ReservedSpot c) a < x
      | Some c' \<Rightarrow> client_ok c' \<and> GetAvailable c' a = GetAvailable c a - x \<and> Balances c' = Balances c) \<and>
    (case ReservePerp c a x of
        None \<Rightarrow> mget (PerpBalances c) a - mget (PerpReserved c) a < x
      | Some c' \<Rightarrow> client_ok c' \<and> PerpAvailable c' a = PerpAvailable c a - x \<and> PerpBalances c' = PerpBalances c) \<and>
    (case SubBalance c a x of
        None \<Rightarrow> mget (Balances c) a - mget (ReservedSpot c) a < x
      | Some c' \<Rightarrow> client_ok c' \<and> mget (Balances c') a = mget (Balances c) a - x) \<and>
    client_ok (Release c a x) \<and> client_ok (ReleasePerp c a x) \<and>
    mset (OrderIDs (RemoveOrder c i)) = mset (OrderIDs c) - {#i#}"
proof -
  have s: "wallet_ok (Balances c) (ReservedSpot c)" and p: "wallet_ok (PerpBalances c) (PerpReserved c)"
    using assms(1) by (auto simp: client_ok_def)
  note av = client_available [OF assms(1)]
  have "case Reserve c a x of None \<Rightarrow> mget (Balances c) a - mget (ReservedSpot c) a < x
      | Some c' \<Rightarrow> client_ok c' \<and> GetAvailable c' a = GetAvailable c a - x \<and> Balances c' = Balances c"
  proof (cases "GetAvailable c a < x")
    case True
    with assms(2) av show ?thesis by (simp add: Reserve_def)
  next
    case False
    let ?c = "c\<lparr>ReservedSpot := madd (ReservedSpot c) a x\<rparr>"
    have r: "client_ok ?c" "mget (ReservedSpot ?c) a = mget (ReservedSpot c) a + x"
      using wallet_reserve [OF s assms(2), of a] False av p by (simp_all add: client_ok_def)
    with False assms(2) av client_available(1) [OF r(1), of a] show ?thesis by (simp add: Reserve_def)
  qed
  moreover have "case ReservePerp c a x of None \<Rightarrow> mget (PerpBalances c) a - mget (PerpReserved c) a < x
      | Some c' \<Rightarrow> client_ok c' \<and> PerpAvailable c' a = PerpAvailable c a - x \<and> PerpBalances c' = PerpBalances c"
  proof (cases "PerpAvailable c a < x")
    case True
    with assms(2) av show ?thesis by (simp add: ReservePerp_def)
  next
    case False
    let ?c = "c\<lparr>PerpReserved := madd (PerpReserved c) a x\<rparr>"
    have r: "client_ok ?c" "mget (PerpReserved ?c) a = mget (PerpReserved c) a + x"
      using wallet_reserve [OF p assms(2), of a] False av s by (simp_all add: client_ok_def)
    with False assms(2) av client_available(2) [OF r(1), of a] show ?thesis by (simp add: ReservePerp_def)
  qed
  moreover have "case SubBalance c a x of None \<Rightarrow> mget (Balances c) a - mget (ReservedSpot c) a < x
      | Some c' \<Rightarrow> client_ok c' \<and> mget (Balances c') a = mget (Balances c) a - x"
    using wallet_debit [OF s assms(2), of a] p av by (auto simp: SubBalance_def client_ok_def)
  moreover have "client_ok (Release c a x)" "client_ok (ReleasePerp c a x)"
    using wallet_release [OF s assms(2,3)] wallet_release [OF p assms(2,3)] s p
    by (simp_all add: client_ok_def Release_def ReleasePerp_def)
  ultimately show ?thesis using RemoveOrder_mset by blast
qed

definition sample_client :: Client where
  "sample_client = (NewClient 5)\<lparr>Balances := [(''USD'', 100)], ReservedSpot := [(''USD'', 30)],
     PerpBalances := [(''USD'', 40)], OrderIDs := [4, 9, 6]\<rparr>"

lemma sample_client_ok: "client_ok sample_client"
  by (simp add: client_ok_def wallet_ok_def sample_client_def NewClient_def mget_def)

theorem wallet_discipline_witness:
  "case Reserve sample_client ''USD'' 50 of None \<Rightarrow> False
   | Some c' \<Rightarrow> client_ok c' \<and> GetAvailable c' ''USD'' = 20 \<and>
       mset (OrderIDs (RemoveOrder sample_client 4)) = {#6, 9#}"
proof -
  have "Reserve sample_client ''USD'' 50 \<noteq> None" "GetAvailable sample_client ''USD'' = 70"
    "OrderIDs sample_client = [4, 9, 6]" by code_simp+
  with wallet_discipline [OF sample_client_ok, of 50 "''USD''" 4] show ?thesis
    by (cases "Reserve sample_client ''USD'' 50") (simp_all add: add_mset_commute)
qed

end
