(* ===== verification/Venue_Ledger.thy ===== *)
theory Venue_Ledger
  imports Client_Account
begin

text \<open>
  The ledger of the exchange: the accounts, the venue's own balances and the running total of
  every recorded movement (\<open>exchange/venue_ledger.go\<close>, \<open>exchange/conservation.go\<close>, the
  delta constructors of \<open>exchange/helpers.go\<close>), with transfers between wallets and the
  isolated-margin movements of \<open>exchange/margin.go\<close>. Log records other than what feeds the
  conservation tracker are not part of the state.
\<close>

section \<open>Movements and their tracker\<close>

record BalanceDelta =
  DAsset :: asset
  Wallet :: string
  OldBalance :: int64
  NewBalance :: int64
  Delta :: int64

definition spotDelta :: "asset \<Rightarrow> int64 \<Rightarrow> int64 \<Rightarrow> BalanceDelta" where
  "spotDelta a old new = \<lparr>DAsset = a, Wallet = ''spot'', OldBalance = old, NewBalance = new, Delta = i64 (new - old)\<rparr>"

definition perpDelta :: "asset \<Rightarrow> int64 \<Rightarrow> int64 \<Rightarrow> BalanceDelta" where
  "perpDelta a old new = \<lparr>DAsset = a, Wallet = ''perp'', OldBalance = old, NewBalance = new, Delta = i64 (new - old)\<rparr>"

definition borrowedDelta :: "asset \<Rightarrow> int64 \<Rightarrow> int64 \<Rightarrow> BalanceDelta" where
  "borrowedDelta a old new = \<lparr>DAsset = a, Wallet = ''borrowed'', OldBalance = old, NewBalance = new, Delta = i64 (new - old)\<rparr>"

record conservationTracker =
  recorded :: "(asset, int64) gomap"
  unrepresentable :: "(asset, bool) gomap"

definition newConservationTracker :: conservationTracker where
  "newConservationTracker = \<lparr>recorded = [], unrepresentable = []\<rparr>"

definition flagged :: "(asset, bool) gomap \<Rightarrow> asset \<Rightarrow> bool" where
  "flagged m a \<longleftrightarrow> map_of m a = Some True"

definition tracker_add :: "conservationTracker \<Rightarrow> asset \<Rightarrow> int64 \<Rightarrow> conservationTracker" where
  "tracker_add t a delta =
     (if flagged (unrepresentable t) a then t
      else case TryAdd (mget (recorded t) a) delta of
        None \<Rightarrow> t\<lparr>unrepresentable := mput (unrepresentable t) a True\<rparr>
      | Some s \<Rightarrow> t\<lparr>recorded := mput (recorded t) a s\<rparr>)"

fun tracker_record :: "conservationTracker \<Rightarrow> BalanceDelta list \<Rightarrow> conservationTracker" where
  "tracker_record t [] = t"
| "tracker_record t (c # cs) =
     tracker_record (tracker_add t (DAsset c)
       (if Wallet c = ''borrowed'' then i64 (- Delta c) else Delta c)) cs"

definition recordVenue :: "conservationTracker \<Rightarrow> asset \<Rightarrow> int64 \<Rightarrow> conservationTracker" where
  "recordVenue t a delta = (if a = '''' then t else tracker_add t a delta)"

section \<open>The ledger\<close>

record FundingReserveBalance =
  RAsset :: asset
  RSourceID :: string
  RInitial :: int64
  RBalance :: int64
  REndowmentEventSeq :: uint64

record ExchangeBalance =
  FeeRevenue :: "(asset, int64) gomap"
  InsuranceFund :: "(asset, int64) gomap"
  FundingRoundingReserves :: "(string, FundingReserveBalance) gomap"

datatype VenueBucket = VenueFeeRevenue | VenueInsuranceFund | VenueFundingRoundingReserve

record Ledger =
  Clients :: "(uint64, Client) gomap"
  ExBal :: ExchangeBalance
  venueBalanceSequence :: uint64
  conservation :: conservationTracker

definition logBalanceChange :: "BalanceDelta list \<Rightarrow> Ledger \<Rightarrow> Ledger" where
  "logBalanceChange changes l = l\<lparr>conservation := tracker_record (conservation l) changes\<rparr>"

definition set_client :: "uint64 \<Rightarrow> Client \<Rightarrow> Ledger \<Rightarrow> Ledger" where
  "set_client i c l = l\<lparr>Clients := mput (Clients l) i c\<rparr>"

text \<open>\<open>None\<close> is a panic: an addition that does not fit, or a reserve movement without a
  matching owner.\<close>

definition moveVenueBalance :: "VenueBucket \<Rightarrow> asset \<Rightarrow> int64 \<Rightarrow> string \<Rightarrow> Ledger \<Rightarrow> Ledger option" where
  "moveVenueBalance bucket a delta symbol l =
     (if delta = 0 \<or> a = '''' then Some l
      else
        let b = ExBal l;
            finish = (\<lambda>b'. l\<lparr>ExBal := b', venueBalanceSequence := u64 (venueBalanceSequence l + 1),
                             conservation := recordVenue (conservation l) a delta\<rparr>)
        in case bucket of
             VenueFeeRevenue \<Rightarrow>
               map_option (\<lambda>u. finish (b\<lparr>FeeRevenue := mput (FeeRevenue b) a u\<rparr>))
                 (AddAmount (mget (FeeRevenue b) a) delta)
           | VenueInsuranceFund \<Rightarrow>
               map_option (\<lambda>u. finish (b\<lparr>InsuranceFund := mput (InsuranceFund b) a u\<rparr>))
                 (AddAmount (mget (InsuranceFund b) a) delta)
           | VenueFundingRoundingReserve \<Rightarrow>
               (case map_of (FundingRoundingReserves b) symbol of
                  None \<Rightarrow> None
                | Some reserve \<Rightarrow>
                    if RAsset reserve \<noteq> a then None
                    else map_option (\<lambda>u. finish (b\<lparr>FundingRoundingReserves :=
                             mput (FundingRoundingReserves b) symbol (reserve\<lparr>RBalance := u\<rparr>)\<rparr>))
                           (AddAmount (RBalance reserve) delta)))"

section \<open>Verification of conservation\<close>

text \<open>Everything the accounts and the venue hold, in the order it is accumulated.\<close>

definition client_holdings :: "Client \<Rightarrow> (asset \<times> int64) list" where
  "client_holdings c = Balances c @ PerpBalances c @ map (\<lambda>(a, v). (a, i64 (- v))) (Borrowed c)"

definition holdings :: "Ledger \<Rightarrow> (asset \<times> int64) list" where
  "holdings l = concat (map (client_holdings \<circ> snd) (Clients l)) @ FeeRevenue (ExBal l) @ InsuranceFund (ExBal l) @
     map (\<lambda>(s, r). (RAsset r, RBalance r)) (FundingRoundingReserves (ExBal l))"

fun accumulate :: "(asset \<times> int64) list \<Rightarrow> conservationTracker \<Rightarrow> conservationTracker" where
  "accumulate [] t = t"
| "accumulate ((a, v) # xs) t = accumulate xs (tracker_add t a v)"

record ConservationViolation =
  VAsset :: asset
  VRecorded :: int64
  VHeld :: int64
  VGap :: int64

definition VerifyConservation :: "Ledger \<Rightarrow> ConservationViolation list" where
  "VerifyConservation l =
     (let h = accumulate (holdings l) newConservationTracker;
          t = conservation l;
          assets = sort (remdups (map fst (recorded h) @ map fst (recorded t)));
          bad = (\<lambda>a. flagged (unrepresentable h) a \<or> flagged (unrepresentable t) a)
      in concat (map (\<lambda>a.
           if bad a then []
           else let gap = i64 (mget (recorded h) a - mget (recorded t) a)
                in if gap = 0 then []
                   else [\<lparr>VAsset = a, VRecorded = mget (recorded t) a, VHeld = mget (recorded h) a, VGap = gap\<rparr>])
           assets))"

section \<open>Transfers and isolated margin\<close>

definition Transfer :: "uint64 \<Rightarrow> string \<Rightarrow> string \<Rightarrow> asset \<Rightarrow> int64 \<Rightarrow> Ledger \<Rightarrow> string + Ledger" where
  "Transfer clientID fromWallet toWallet a amount l =
     (if amount \<le> 0 then Inl ''transfer amount must be positive''
      else case map_of (Clients l) clientID of
        None \<Rightarrow> Inl ''unknown client''
      | Some c \<Rightarrow>
          if fromWallet = ''spot'' \<and> toWallet = ''perp''
          then (if GetAvailable c a < amount then Inl ''insufficient spot balance''
                else let c' = c\<lparr>Balances := madd (Balances c) a (- amount),
                                PerpBalances := madd (PerpBalances c) a amount\<rparr>
                     in Inr (logBalanceChange
                          [spotDelta a (mget (Balances c) a) (mget (Balances c') a),
                           perpDelta a (mget (PerpBalances c) a) (mget (PerpBalances c') a)]
                          (set_client clientID c' l)))
          else if fromWallet = ''perp'' \<and> toWallet = ''spot''
          then (if PerpAvailable c a < amount then Inl ''insufficient perp balance''
                else let c' = c\<lparr>PerpBalances := madd (PerpBalances c) a (- amount),
                                Balances := madd (Balances c) a amount\<rparr>
                     in Inr (logBalanceChange
                          [perpDelta a (mget (PerpBalances c) a) (mget (PerpBalances c') a),
                           spotDelta a (mget (Balances c) a) (mget (Balances c') a)]
                          (set_client clientID c' l)))
          else Inl ''invalid wallet type'')"

definition newIsolated :: "string \<Rightarrow> IsolatedPosition" where
  "newIsolated symbol = \<lparr>IsoSymbol = symbol, Collateral = [], IsoBorrowed = []\<rparr>"

definition AllocateCollateralToPosition :: "uint64 \<Rightarrow> string \<Rightarrow> asset \<Rightarrow> int64 \<Rightarrow> Ledger \<Rightarrow> string + Ledger" where
  "AllocateCollateralToPosition clientID symbol a amount l =
     (case map_of (Clients l) clientID of
        None \<Rightarrow> Inl ''unknown client''
      | Some c \<Rightarrow>
          if MarginModeOf c \<noteq> IsolatedMargin then Inl ''client not in isolated margin mode''
          else if amount \<le> 0 then Inl ''collateral amount must be positive''
          else if PerpAvailable c a < amount then Inl ''insufficient perp balance''
          else
            let ip = (case map_of (IsolatedPositions c) symbol of None \<Rightarrow> newIsolated symbol | Some i \<Rightarrow> i);
                c' = c\<lparr>PerpBalances := madd (PerpBalances c) a (- amount),
                       IsolatedPositions := mput (IsolatedPositions c) symbol
                         (ip\<lparr>Collateral := madd (Collateral ip) a amount\<rparr>)\<rparr>
            in Inr (logBalanceChange [perpDelta a (mget (PerpBalances c) a) (mget (PerpBalances c') a)]
                 (set_client clientID c' l)))"

definition ReleaseCollateralFromPosition :: "uint64 \<Rightarrow> string \<Rightarrow> asset \<Rightarrow> int64 \<Rightarrow> Ledger \<Rightarrow> string + Ledger" where
  "ReleaseCollateralFromPosition clientID symbol a amount l =
     (case map_of (Clients l) clientID of
        None \<Rightarrow> Inl ''unknown client''
      | Some c \<Rightarrow>
          (case map_of (IsolatedPositions c) symbol of
             None \<Rightarrow> Inl ''insufficient isolated collateral''
           | Some ip \<Rightarrow>
               if mget (Collateral ip) a < amount then Inl ''insufficient isolated collateral''
               else
                 let c' = c\<lparr>IsolatedPositions := mput (IsolatedPositions c) symbol
                              (ip\<lparr>Collateral := madd (Collateral ip) a (- amount)\<rparr>),
                            PerpBalances := madd (PerpBalances c) a amount\<rparr>
                 in Inr (logBalanceChange [perpDelta a (mget (PerpBalances c) a) (mget (PerpBalances c') a)]
                      (set_client clientID c' l))))"

text \<open>\<open>SetMarginMode\<close>; whether the client has open positions is the position store's answer.\<close>

definition SetMarginMode :: "(uint64 \<Rightarrow> bool) \<Rightarrow> uint64 \<Rightarrow> MarginMode \<Rightarrow> Ledger \<Rightarrow> string + Ledger" where
  "SetMarginMode hasOpen clientID mode l =
     (case map_of (Clients l) clientID of
        None \<Rightarrow> Inl ''unknown client''
      | Some c \<Rightarrow>
          if hasOpen (CID c) then Inl ''cannot change margin mode with open positions''
          else Inr (set_client clientID (c\<lparr>MarginModeOf := mode\<rparr>) l))"

section \<open>Deposits\<close>

text \<open>The ledger part of \<open>ConnectNewClient\<close>: the deposits of a first connect. \<open>refused\<close> is the
  guard of a closed exchange or a frozen roster; the gateway and the periodic jobs hold no
  money.\<close>

definition ConnectNewClient :: "bool \<Rightarrow> uint64 \<Rightarrow> (asset, int64) gomap \<Rightarrow> Ledger \<Rightarrow> Ledger" where
  "ConnectNewClient refused clientID initialBalances l =
     (if refused then l else case map_of (Clients l) clientID of
        Some _ \<Rightarrow> l
      | None \<Rightarrow>
          let assets = mkeys initialBalances;
              client = foldl (\<lambda>c a. AddBalance c a (mget initialBalances a)) (NewClient clientID) assets
          in logBalanceChange (map (\<lambda>a. spotDelta a 0 (mget initialBalances a)) assets)
               (set_client clientID client l))"

definition AddPerpBalance :: "uint64 \<Rightarrow> asset \<Rightarrow> int64 \<Rightarrow> Ledger \<Rightarrow> Ledger" where
  "AddPerpBalance clientID a amount l =
     (case map_of (Clients l) clientID of
        None \<Rightarrow> l
      | Some c \<Rightarrow>
          let c' = c\<lparr>PerpBalances := madd (PerpBalances c) a amount\<rparr>
          in logBalanceChange [perpDelta a (mget (PerpBalances c) a) (mget (PerpBalances c') a)]
               (set_client clientID c' l))"

section \<open>The tracker adds up\<close>

definition tracker_ok :: "conservationTracker \<Rightarrow> bool" where
  "tracker_ok t \<longleftrightarrow> (\<forall>a. is_i64 (mget (recorded t) a))"

lemma tracker_ok_new: "tracker_ok newConservationTracker"
  by (simp add: tracker_ok_def newConservationTracker_def is_i64_def)

lemma flagged_mput [simp]: "flagged (mput m k True) a \<longleftrightarrow> a = k \<or> flagged m a"
  by (simp add: flagged_def)

lemma tracker_add_ok:
  assumes "tracker_ok t" "is_i64 d"
  shows "tracker_ok (tracker_add t a d)"
    "\<not> flagged (unrepresentable (tracker_add t a d)) b \<Longrightarrow>
       \<not> flagged (unrepresentable t) b \<and>
       mget (recorded (tracker_add t a d)) b = mget (recorded t) b + (if a = b then d else 0)"
proof -
  have e: "TryAdd (mget (recorded t) a) d =
      (if is_i64 (mget (recorded t) a + d) then Some (mget (recorded t) a + d) else None)"
    using assms by (simp add: TryAdd_eq tracker_ok_def)
  show "tracker_ok (tracker_add t a d)"
    using assms by (simp add: tracker_add_def e tracker_ok_def)
  show "\<not> flagged (unrepresentable (tracker_add t a d)) b \<Longrightarrow> \<not> flagged (unrepresentable t) b \<and>
       mget (recorded (tracker_add t a d)) b = mget (recorded t) b + (if a = b then d else 0)"
    unfolding tracker_add_def e by (auto split: if_splits)
qed

lemma accumulate_ok:
  assumes "tracker_ok t" "\<forall>(a, v)\<in>set xs. is_i64 v"
    and "\<not> flagged (unrepresentable (accumulate xs t)) b"
  shows "\<not> flagged (unrepresentable t) b \<and>
    mget (recorded (accumulate xs t)) b = mget (recorded t) b + (\<Sum>(a, v)\<leftarrow>xs. if a = b then v else 0)"
  using assms
proof (induction xs t rule: accumulate.induct)
  case (2 a v xs t)
  then have v: "is_i64 v" and ok: "tracker_ok (tracker_add t a v)" using tracker_add_ok(1) by auto
  have "\<not> flagged (unrepresentable (tracker_add t a v)) b \<and>
      mget (recorded (accumulate ((a, v) # xs) t)) b =
        mget (recorded (tracker_add t a v)) b + (\<Sum>(a, v)\<leftarrow>xs. if a = b then v else 0)"
    using 2 ok by simp
  with tracker_add_ok(2) [OF "2.prems"(1) v, of a b] show ?case by simp
qed simp

lemma accumulate_tracker_ok:
  "tracker_ok t \<Longrightarrow> \<forall>(a, v)\<in>set xs. is_i64 v \<Longrightarrow> tracker_ok (accumulate xs t)"
  by (induction xs t rule: accumulate.induct) (auto simp: tracker_add_ok(1))

lemma i64_eq_0_iff: "\<bar>x\<bar> < 2 ^ 64 \<Longrightarrow> i64 x = 0 \<longleftrightarrow> x = 0"
proof -
  assume x: "\<bar>x\<bar> < 2 ^ 64"
  obtain k where "i64 x = x + k * two64" using i64_congruent by blast
  with x have "i64 x = 0 \<Longrightarrow> \<bar>k\<bar> * two64 < two64" by auto
  with \<open>i64 x = x + k * two64\<close> show ?thesis by fastforce
qed

text \<open>The effect of a list of movements on an asset; debt counts negatively.\<close>

definition effect :: "BalanceDelta list \<Rightarrow> asset \<Rightarrow> int" where
  "effect cs a = (\<Sum>c\<leftarrow>cs. if DAsset c = a then (if Wallet c = ''borrowed'' then - Delta c else Delta c) else 0)"

lemma effect_simps [simp]:
  "effect [] a = 0"
  "effect (c # cs) a = (if DAsset c = a then (if Wallet c = ''borrowed'' then - Delta c else Delta c) else 0) + effect cs a"
  by (simp_all add: effect_def)

definition deltas_ok :: "BalanceDelta list \<Rightarrow> bool" where
  "deltas_ok cs \<longleftrightarrow> (\<forall>c\<in>set cs. is_i64 (Delta c) \<and> (Wallet c = ''borrowed'' \<longrightarrow> Delta c \<noteq> MinInt64))"

lemma tracker_record_ok:
  assumes "tracker_ok t" "deltas_ok cs"
  shows "tracker_ok (tracker_record t cs)"
    "\<not> flagged (unrepresentable (tracker_record t cs)) b \<Longrightarrow>
       \<not> flagged (unrepresentable t) b \<and> mget (recorded (tracker_record t cs)) b = mget (recorded t) b + effect cs b"
proof -
  have "tracker_ok (tracker_record t cs) \<and> (\<not> flagged (unrepresentable (tracker_record t cs)) b \<longrightarrow>
       \<not> flagged (unrepresentable t) b \<and> mget (recorded (tracker_record t cs)) b = mget (recorded t) b + effect cs b)"
    using assms
  proof (induction t cs rule: tracker_record.induct)
    case (2 t c cs)
    let ?d = "if Wallet c = ''borrowed'' then i64 (- Delta c) else Delta c"
    have c: "is_i64 (Delta c)" "Wallet c = ''borrowed'' \<Longrightarrow> Delta c \<noteq> MinInt64"
      using "2.prems"(2) by (simp_all add: deltas_ok_def)
    then have n: "Wallet c = ''borrowed'' \<Longrightarrow> i64 (- Delta c) = - Delta c" by (intro i64_id) (auto simp: is_i64_def)
    have d: "is_i64 ?d" using c by auto
    note add = tracker_add_ok [OF "2.prems"(1) d, of "DAsset c"]
    have "deltas_ok cs" using "2.prems"(2) by (simp add: deltas_ok_def)
    from "2.IH" [OF add(1) this] add(2) [of b] n show ?case by (auto split: if_splits)
  qed simp
  then show "tracker_ok (tracker_record t cs)" "\<not> flagged (unrepresentable (tracker_record t cs)) b \<Longrightarrow>
       \<not> flagged (unrepresentable t) b \<and> mget (recorded (tracker_record t cs)) b = mget (recorded t) b + effect cs b"
    by blast+
qed

section \<open>Holdings\<close>

definition worth :: "asset \<Rightarrow> Client \<Rightarrow> int" where
  "worth a c = mget (Balances c) a + mget (PerpBalances c) a - mget (Borrowed c) a"

definition reserve_of :: "asset \<Rightarrow> FundingReserveBalance \<Rightarrow> int" where
  "reserve_of a r = (if RAsset r = a then RBalance r else 0)"

definition held :: "Ledger \<Rightarrow> asset \<Rightarrow> int" where
  "held l a = msum (\<lambda>i. worth a) (Clients l) + mget (FeeRevenue (ExBal l)) a + mget (InsuranceFund (ExBal l)) a +
     msum (\<lambda>s. reserve_of a) (FundingRoundingReserves (ExBal l))"

definition values_ok :: "('k, int64) gomap \<Rightarrow> bool" where
  "values_ok m \<longleftrightarrow> is_map m \<and> (\<forall>k v. map_of m k = Some v \<longrightarrow> is_i64 v)"

definition debts_ok :: "('k, int64) gomap \<Rightarrow> bool" where
  "debts_ok m \<longleftrightarrow> is_map m \<and> (\<forall>k v. map_of m k = Some v \<longrightarrow> 0 \<le> v \<and> v \<le> MaxInt64)"

definition client_maps :: "Client \<Rightarrow> bool" where
  "client_maps c \<longleftrightarrow> values_ok (Balances c) \<and> values_ok (PerpBalances c) \<and> debts_ok (Borrowed c)"

definition ledger_ok :: "Ledger \<Rightarrow> bool" where
  "ledger_ok l \<longleftrightarrow> is_map (Clients l) \<and> (\<forall>i c. map_of (Clients l) i = Some c \<longrightarrow> client_maps c) \<and>
     values_ok (FeeRevenue (ExBal l)) \<and> values_ok (InsuranceFund (ExBal l)) \<and>
     is_map (FundingRoundingReserves (ExBal l)) \<and>
     (\<forall>s r. map_of (FundingRoundingReserves (ExBal l)) s = Some r \<longrightarrow> is_i64 (RBalance r)) \<and> tracker_ok (conservation l)"

text \<open>Every representable recorded total explains what is held.\<close>

definition conserved :: "Ledger \<Rightarrow> bool" where
  "conserved l \<longleftrightarrow> (\<forall>a. \<not> flagged (unrepresentable (conservation l)) a \<longrightarrow>
     mget (recorded (conservation l)) a = held l a)"

lemma is_map_mem: "is_map m \<Longrightarrow> (k, v) \<in> set m \<Longrightarrow> map_of m k = Some v"
  by (simp add: is_map_def)

lemma values_ok_mput: "values_ok m \<Longrightarrow> is_i64 v \<Longrightarrow> values_ok (mput m k v)"
  by (simp add: values_ok_def)

lemma values_ok_madd: "values_ok m \<Longrightarrow> values_ok (madd m k v)"
  by (simp add: madd_def values_ok_mput)

lemma debts_ok_mput: "debts_ok m \<Longrightarrow> 0 \<le> v \<Longrightarrow> v \<le> MaxInt64 \<Longrightarrow> debts_ok (mput m k v)"
  by (simp add: debts_ok_def)

lemma values_ok_mget: "values_ok m \<Longrightarrow> is_i64 (mget m a)"
  by (cases "map_of m a") (simp_all add: values_ok_def mget_def is_i64_def)

lemma debts_ok_mget: "debts_ok m \<Longrightarrow> 0 \<le> mget m a \<and> mget m a \<le> MaxInt64"
  by (cases "map_of m a") (simp_all add: debts_ok_def mget_def)

lemma msum_negated:
  assumes "debts_ok m"
  shows "(\<Sum>(k, v)\<leftarrow>map (\<lambda>(a, v). (a, i64 (- v))) m. if k = a then v else 0) = - mget m a"
proof -
  have neg: "i64 (- v) = - v" if "(k, v) \<in> set m" for k v
  proof -
    have "map_of m k = Some v" using assms that by (intro is_map_mem) (simp_all add: debts_ok_def)
    then have "0 \<le> v" "v \<le> MaxInt64" using assms by (auto simp: debts_ok_def)
    then show ?thesis by (intro i64_id) (simp add: is_i64_def)
  qed
  have "(\<Sum>(k, v)\<leftarrow>map (\<lambda>(a, v). (a, i64 (- v))) xs. if k = a then v else 0) =
      - msum (\<lambda>k v. if k = a then v else 0) xs" if "set xs \<subseteq> set m" for xs
    using that neg by (induction xs) (auto simp: msum_def)
  with assms show ?thesis by (simp add: msum_eq_of debts_ok_def)
qed

lemma client_holdings_sum:
  assumes "client_maps c"
  shows "(\<Sum>(k, v)\<leftarrow>client_holdings c. if k = a then v else 0) = worth a c"
proof -
  have "(\<Sum>(k, v)\<leftarrow>m. if k = a then v else 0) = mget m a" if "values_ok m" for m :: "(asset, int64) gomap"
    using that msum_eq_of [of m a] by (simp add: values_ok_def msum_def)
  with assms msum_negated [of "Borrowed c" a] show ?thesis
    by (simp add: client_holdings_def client_maps_def worth_def)
qed

lemma holdings_sum:
  assumes "ledger_ok l"
  shows "(\<Sum>(k, v)\<leftarrow>holdings l. if k = a then v else 0) = held l a"
proof -
  let ?f = "\<lambda>(k, v). if k = a then v else (0::int)"
  have "(\<Sum>x\<leftarrow>concat (map (client_holdings \<circ> snd) cs). ?f x) = msum (\<lambda>i. worth a) cs"
    if "\<forall>(i, c)\<in>set cs. client_maps c" for cs :: "(uint64, Client) gomap"
    using that by (induction cs) (auto simp: msum_def client_holdings_sum)
  moreover have "\<forall>(i, c)\<in>set (Clients l). client_maps c"
    using assms is_map_mem [of "Clients l"] by (auto simp: ledger_ok_def)
  moreover have "(\<Sum>x\<leftarrow>m. ?f x) = mget m a" if "values_ok m" for m :: "(asset, int64) gomap"
    using that msum_eq_of [of m a] by (simp add: values_ok_def msum_def)
  moreover have "(\<Sum>x\<leftarrow>map (\<lambda>(s, r). (RAsset r, RBalance r)) rs. ?f x) = msum (\<lambda>s. reserve_of a) rs"
    for rs :: "(string, FundingReserveBalance) gomap"
    by (induction rs) (auto simp: msum_def reserve_of_def)
  ultimately show ?thesis using assms by (simp add: holdings_def held_def ledger_ok_def)
qed

lemma client_holdings_i64: "client_maps c \<Longrightarrow> (a, v) \<in> set (client_holdings c) \<Longrightarrow> is_i64 v"
  using is_map_mem [of "Balances c" a v] is_map_mem [of "PerpBalances c" a v]
  by (auto simp: client_holdings_def client_maps_def values_ok_def)

lemma holdings_i64:
  assumes "ledger_ok l" shows "\<forall>(a, v)\<in>set (holdings l). is_i64 v"
proof -
  have "is_i64 v" if "(i, c) \<in> set (Clients l)" "(a, v) \<in> set (client_holdings c)" for i c a v
    using that assms is_map_mem [of "Clients l" i c] by (auto simp: ledger_ok_def intro: client_holdings_i64)
  moreover have "is_i64 v" if "values_ok m" "(a, v) \<in> set m" for a v and m :: "(asset, int64) gomap"
    using that is_map_mem [of m a v] by (simp add: values_ok_def)
  moreover have "is_i64 (RBalance r)" if "(s, r) \<in> set (FundingRoundingReserves (ExBal l))" for s r
    using that assms is_map_mem [of "FundingRoundingReserves (ExBal l)" s r] by (auto simp: ledger_ok_def)
  ultimately show ?thesis using assms by (auto simp: holdings_def ledger_ok_def)
qed

section \<open>The verification is exact\<close>

lemma VerifyConservation_mem:
  assumes ok: "ledger_ok l" and v: "v \<in> set (VerifyConservation l)"
  shows "VHeld v = held l (VAsset v)" "VRecorded v = mget (recorded (conservation l)) (VAsset v)"
    "VHeld v \<noteq> VRecorded v" "\<not> flagged (unrepresentable (conservation l)) (VAsset v)"
proof -
  let ?h = "accumulate (holdings l) newConservationTracker" and ?a = "VAsset v"
  have f: "\<not> flagged (unrepresentable ?h) ?a" "\<not> flagged (unrepresentable (conservation l)) ?a"
    and eq: "VHeld v = mget (recorded ?h) ?a" "VRecorded v = mget (recorded (conservation l)) ?a"
    and gap: "i64 (VHeld v - VRecorded v) \<noteq> 0"
    using v by (auto simp: VerifyConservation_def Let_def split: if_splits)
  have "mget (recorded ?h) ?a = held l ?a"
    using accumulate_ok [OF tracker_ok_new holdings_i64 [OF ok] f(1)] holdings_sum [OF ok]
    by (simp add: newConservationTracker_def)
  with eq show "VHeld v = held l ?a" by simp
  show "VRecorded v = mget (recorded (conservation l)) ?a" by (rule eq(2))
  show "VHeld v \<noteq> VRecorded v" using gap by auto
  show "\<not> flagged (unrepresentable (conservation l)) ?a" by (rule f(2))
qed

lemma VerifyConservation_complete:
  assumes ok: "ledger_ok l" and f: "\<not> flagged (unrepresentable (conservation l)) a"
    "\<not> flagged (unrepresentable (accumulate (holdings l) newConservationTracker)) a"
    and d: "held l a \<noteq> mget (recorded (conservation l)) a"
  shows "\<exists>v\<in>set (VerifyConservation l). VAsset v = a"
proof -
  let ?h = "accumulate (holdings l) newConservationTracker" and ?t = "conservation l"
  have h: "mget (recorded ?h) a = held l a"
    using accumulate_ok [OF tracker_ok_new holdings_i64 [OF ok] f(2)] holdings_sum [OF ok]
    by (simp add: newConservationTracker_def)
  have "a \<in> fst ` set (recorded ?h) \<or> a \<in> fst ` set (recorded ?t)"
    using d h mget_absent by metis
  moreover have "is_i64 (mget (recorded ?t) a)" "is_i64 (mget (recorded ?h) a)"
    using ok accumulate_tracker_ok [OF tracker_ok_new holdings_i64 [OF ok]] by (auto simp: ledger_ok_def tracker_ok_def)
  then have "i64 (mget (recorded ?h) a - mget (recorded ?t) a) \<noteq> 0"
    using d h by (auto simp: i64_eq_0_iff is_i64_def)
  ultimately show ?thesis
    using f by (auto simp: VerifyConservation_def Let_def intro!: bexI [of _ a])
qed

text \<open>The same up to an offset, for the moments between two halves of a movement.\<close>

definition conserved_by :: "(asset \<Rightarrow> int) \<Rightarrow> Ledger \<Rightarrow> bool" where
  "conserved_by g l \<longleftrightarrow> (\<forall>a. \<not> flagged (unrepresentable (conservation l)) a \<longrightarrow>
     mget (recorded (conservation l)) a + g a = held l a)"

lemma conserved_iff: "conserved l \<longleftrightarrow> conserved_by (\<lambda>_. 0) l"
  by (simp add: conserved_def conserved_by_def)

lemma conserved_verifies: "ledger_ok l \<Longrightarrow> conserved l \<Longrightarrow> VerifyConservation l = []"
  using VerifyConservation_mem [of l] by (cases "VerifyConservation l") (auto simp: conserved_def)

section \<open>Changing one account or one venue balance\<close>

lemma msum_mput_Some:
  "is_map m \<Longrightarrow> map_of m k = Some u \<Longrightarrow> msum f (mput m k v) = msum f m - f k u + f k v"
  by (simp add: msum_mput)

lemma msum_mput_None:
  "is_map m \<Longrightarrow> map_of m k = None \<Longrightarrow> msum f (mput m k v) = msum f m + f k v"
  by (simp add: msum_mput)

definition old_worth :: "Ledger \<Rightarrow> uint64 \<Rightarrow> asset \<Rightarrow> int" where
  "old_worth l i a = (case map_of (Clients l) i of None \<Rightarrow> 0 | Some c \<Rightarrow> worth a c)"

lemma set_client_step:
  assumes "ledger_ok l" "conserved_by g l" "client_maps c'"
  shows "ledger_ok (set_client i c' l)" "held (set_client i c' l) a = held l a - old_worth l i a + worth a c'"
    "conserved_by (\<lambda>a. g a - old_worth l i a + worth a c') (set_client i c' l)"
proof -
  show h: "held (set_client i c' l) a = held l a - old_worth l i a + worth a c'" for a
    using assms(1) by (simp add: held_def set_client_def ledger_ok_def msum_mput old_worth_def split: option.splits)
  show "ledger_ok (set_client i c' l)" using assms(1,3) by (simp add: ledger_ok_def set_client_def)
  show "conserved_by (\<lambda>a. g a - old_worth l i a + worth a c') (set_client i c' l)"
    using assms(2) by (auto simp: conserved_by_def h) (simp_all add: set_client_def)
qed

lemma log_step:
  assumes "ledger_ok l" "conserved_by g l" "deltas_ok cs"
  shows "ledger_ok (logBalanceChange cs l)" "held (logBalanceChange cs l) = held l"
    "conserved_by (\<lambda>a. g a - effect cs a) (logBalanceChange cs l)"
proof -
  have t: "tracker_ok (conservation l)" using assms(1) by (simp add: ledger_ok_def)
  show h: "held (logBalanceChange cs l) = held l" by (auto simp: held_def logBalanceChange_def)
  show "ledger_ok (logBalanceChange cs l)"
    using assms(1) tracker_record_ok(1) [OF t assms(3)] by (simp add: ledger_ok_def logBalanceChange_def)
  show "conserved_by (\<lambda>a. g a - effect cs a) (logBalanceChange cs l)"
    using assms(2) tracker_record_ok(2) [OF t assms(3)]
    by (auto simp: conserved_by_def h) (simp add: logBalanceChange_def)
qed

lemma log_client_step:
  assumes l: "ledger_ok l" "conserved l" and cs: "deltas_ok cs" and c': "client_maps c'"
    and w: "\<And>a. worth a c' = old_worth l i a + effect cs a"
  shows "ledger_ok (logBalanceChange cs (set_client i c' l)) \<and> conserved (logBalanceChange cs (set_client i c' l))"
proof -
  have c0: "conserved_by (\<lambda>_. 0) l" using l(2) by (simp add: conserved_iff)
  note s = set_client_step [OF l(1) c0 c', of i]
  from log_step [OF s(1,3) cs] w show ?thesis by (simp add: conserved_iff)
qed

lemma recordVenue_ok:
  assumes "tracker_ok t" "is_i64 d" "a \<noteq> ''''"
  shows "tracker_ok (recordVenue t a d)"
    "\<not> flagged (unrepresentable (recordVenue t a d)) b \<Longrightarrow> \<not> flagged (unrepresentable t) b \<and>
       mget (recorded (recordVenue t a d)) b = mget (recorded t) b + (if a = b then d else 0)"
  using tracker_add_ok [OF assms(1,2), of a] assms(3) by (simp_all add: recordVenue_def)

lemma moveVenueBalance_step:
  assumes l: "ledger_ok l" "conserved_by g l" and d: "is_i64 d"
    and move: "moveVenueBalance bucket a d symbol l = Some l'"
  shows "ledger_ok l' \<and> conserved_by g l' \<and> Clients l' = Clients l \<and>
    (\<forall>b. held l' b = held l b + (if b = a \<and> d \<noteq> 0 \<and> a \<noteq> '''' then d else 0))"
proof (cases "d = 0 \<or> a = ''''")
  case True
  with move l show ?thesis by (auto simp: moveVenueBalance_def)
next
  case False
  let ?b = "ExBal l" and ?t = "recordVenue (conservation l) a d"
  have t: "tracker_ok (conservation l)" using l(1) by (simp add: ledger_ok_def)
  note rv = recordVenue_ok [OF t d, of a]
  from move False obtain b' where l': "l' = l\<lparr>ExBal := b',
      venueBalanceSequence := u64 (venueBalanceSequence l + 1), conservation := ?t\<rparr>"
    and b': "\<exists>u. bucket = VenueFeeRevenue \<and> AddAmount (mget (FeeRevenue ?b) a) d = Some u \<and>
          b' = ?b\<lparr>FeeRevenue := mput (FeeRevenue ?b) a u\<rparr> \<or>
        bucket = VenueInsuranceFund \<and> AddAmount (mget (InsuranceFund ?b) a) d = Some u \<and>
          b' = ?b\<lparr>InsuranceFund := mput (InsuranceFund ?b) a u\<rparr> \<or>
        (\<exists>r. map_of (FundingRoundingReserves ?b) symbol = Some r \<and> RAsset r = a \<and>
          AddAmount (RBalance r) d = Some u \<and>
          b' = ?b\<lparr>FundingRoundingReserves := mput (FundingRoundingReserves ?b) symbol (r\<lparr>RBalance := u\<rparr>)\<rparr>)"
    by (auto simp: moveVenueBalance_def Let_def split: VenueBucket.splits option.splits if_splits)
  have sum: "u = x + d \<and> is_i64 u" if "AddAmount x d = Some u" "is_i64 x" for x u
    using that d by (auto simp: AddAmount_def TryAdd_Some)
  have vals: "is_i64 (mget (FeeRevenue ?b) a)" "is_i64 (mget (InsuranceFund ?b) a)"
    "\<And>r. map_of (FundingRoundingReserves ?b) symbol = Some r \<Longrightarrow> is_i64 (RBalance r)"
    using l(1) by (auto simp: ledger_ok_def values_ok_mget)
  have h: "held l' b = held l b + (if b = a then d else 0)" for b
    using b' vals l(1)
    by (auto simp: l' held_def ledger_ok_def msum_mput_Some reserve_of_def dest!: sum)
  have "ledger_ok l'"
    using b' vals l(1) rv(1) False
    by (auto simp: l' ledger_ok_def values_ok_mput dest!: sum split: if_splits)
  moreover have "conserved_by g l'"
    using l(2) rv(2) False by (auto simp: conserved_by_def h) (auto simp: l')
  ultimately show ?thesis using h False by (simp add: l')
qed

end
