(* ===== verification/Borrowing.thy ===== *)
theory Borrowing
  imports Venue_Ledger
begin

text \<open>
  Margin loans (\<open>exchange/borrowing.go\<close>), the no-debt audit (\<open>exchange/borrowing_contract.go\<close>)
  and the per-minute interest sweep (\<open>exchange/collateral_interest.go\<close>) on the ledger.

  The price source is a parameter (\<open>None\<close> when it has no price). The collateral factors are
  floating-point configuration: \<open>scaled a x\<close> stands for \<open>int64(float64(x) * factor(a))\<close> and
  \<open>factor_zero a\<close> for the test of the factor against zero.
\<close>

record BorrowingConfig =
  Enabled :: bool
  BorrowRates :: "(asset, int64) gomap"
  MaxBorrowPerAsset :: "(asset, int64) gomap"
  AssetPrecisions :: "(asset, int64) gomap"
  PriceSource :: "(asset \<Rightarrow> int64 option) option"
  scaled :: "asset \<Rightarrow> int64 \<Rightarrow> int64"
  factor_zero :: "asset \<Rightarrow> bool"

datatype borrow_error = BorrowingDisabled | UnknownClient | NotPositive | IsolatedNeedsContext
  | NoOracle | NoPrice asset | PriceDomainError asset | InsufficientCollateral | NoFactor
  | OverLimit | NoDebt | InsufficientBalance | ArithmeticPanic

definition getRate :: "BorrowingConfig \<Rightarrow> asset \<Rightarrow> int64" where
  "getRate cfg a =
     (case map_of (BorrowRates cfg) a of
        Some r \<Rightarrow> r
      | None \<Rightarrow> (case map_of (BorrowRates cfg) ''default'' of Some r \<Rightarrow> r | None \<Rightarrow> 500))"

definition assetPrecision :: "BorrowingConfig \<Rightarrow> asset \<Rightarrow> int64" where
  "assetPrecision cfg a =
     (let p = mget (AssetPrecisions cfg) a in if p > 0 then p else 100000000)"

definition priceFor :: "(asset \<Rightarrow> int64 option) \<Rightarrow> asset \<Rightarrow> borrow_error + int64" where
  "priceFor prices a =
     (case prices a of
        None \<Rightarrow> Inl (NoPrice a)
      | Some price \<Rightarrow> if price \<le> 0 then Inl (PriceDomainError a) else Inr price)"

text \<open>The value of a map of amounts at the prices, summed in sorted key order. \<open>skip\<close> is the
  loop's \<open>continue\<close> condition.\<close>

fun value_loop :: "BorrowingConfig \<Rightarrow> (asset \<Rightarrow> int64 option) \<Rightarrow> (int64 \<Rightarrow> bool) \<Rightarrow> (asset, int64) gomap \<Rightarrow>
    asset list \<Rightarrow> int64 \<Rightarrow> borrow_error + int64" where
  "value_loop cfg prices skip m [] acc = Inr acc"
| "value_loop cfg prices skip m (a # as) acc =
     (if skip (mget m a) then value_loop cfg prices skip m as acc
      else case priceFor prices a of
        Inl e \<Rightarrow> Inl e
      | Inr price \<Rightarrow>
          (case MulDiv (mget m a) price (assetPrecision cfg a) of
             None \<Rightarrow> Inl ArithmeticPanic
           | Some v \<Rightarrow> value_loop cfg prices skip m as (i64 (acc + v))))"

definition validateCrossMarginCollateral :: "BorrowingConfig \<Rightarrow> Client \<Rightarrow> asset \<Rightarrow> int64 \<Rightarrow> borrow_error + unit" where
  "validateCrossMarginCollateral cfg c borrowAsset borrowAmount =
     (case PriceSource cfg of
        None \<Rightarrow> Inl NoOracle
      | Some prices \<Rightarrow>
     (case value_loop cfg prices (\<lambda>b. b = 0) (PerpBalances c) (mkeys (PerpBalances c)) 0 of
        Inl e \<Rightarrow> Inl e
      | Inr perpValue \<Rightarrow>
     (case value_loop cfg prices (\<lambda>b. b = 0) (Balances c) (mkeys (Balances c)) perpValue of
        Inl e \<Rightarrow> Inl e
      | Inr totalAssetValue \<Rightarrow>
     (case value_loop cfg prices (\<lambda>b. b \<le> 0) (Borrowed c) (mkeys (Borrowed c)) 0 of
        Inl e \<Rightarrow> Inl e
      | Inr existingBorrowValue \<Rightarrow>
     (case priceFor prices borrowAsset of
        Inl e \<Rightarrow> Inl e
      | Inr borrowPrice \<Rightarrow>
     (case MulDiv borrowAmount borrowPrice (assetPrecision cfg borrowAsset) of
        None \<Rightarrow> Inl ArithmeticPanic
      | Some newBorrowValue \<Rightarrow>
          let equity = i64 (totalAssetValue - existingBorrowValue)
          in if equity \<le> 0 then Inl InsufficientCollateral
             else if i64 (existingBorrowValue + newBorrowValue) > scaled cfg borrowAsset equity
             then Inl InsufficientCollateral else Inr ()))))))"

text \<open>\<open>CalculateCollateralUsed\<close>, as far as it decides success; its value only goes into the
  log record.\<close>

definition CalculateCollateralUsed :: "BorrowingConfig \<Rightarrow> asset \<Rightarrow> int64 \<Rightarrow> borrow_error + unit" where
  "CalculateCollateralUsed cfg a amount =
     (case PriceSource cfg of
        None \<Rightarrow> Inl NoOracle
      | Some prices \<Rightarrow>
          (case priceFor prices a of
             Inl e \<Rightarrow> Inl e
           | Inr price \<Rightarrow>
               if factor_zero cfg a then Inl NoFactor
               else if MulDiv amount price (assetPrecision cfg a) = None then Inl ArithmeticPanic
               else Inr ()))"

definition BorrowMargin :: "BorrowingConfig \<Rightarrow> uint64 \<Rightarrow> bool \<Rightarrow> asset \<Rightarrow> int64 \<Rightarrow> Ledger \<Rightarrow> borrow_error + Ledger" where
  "BorrowMargin cfg clientID creditSpot a amount l =
     (if \<not> Enabled cfg then Inl BorrowingDisabled
      else case map_of (Clients l) clientID of
        None \<Rightarrow> Inl UnknownClient
      | Some c \<Rightarrow>
          if amount \<le> 0 then Inl NotPositive
          else if MarginModeOf c \<noteq> CrossMargin then Inl IsolatedNeedsContext
          else case validateCrossMarginCollateral cfg c a amount of
            Inl e \<Rightarrow> Inl e
          | Inr _ \<Rightarrow>
         (case CalculateCollateralUsed cfg a amount of
            Inl e \<Rightarrow> Inl e
          | Inr _ \<Rightarrow>
              let limit = mget (MaxBorrowPerAsset cfg) a
              in if limit > 0 \<and> i64 (mget (Borrowed c) a + amount) > limit then Inl OverLimit
                 else
                   let c1 = c\<lparr>Borrowed := madd (Borrowed c) a amount\<rparr>;
                       c2 = (if creditSpot
                             then c1\<lparr>Balances := madd (Balances c1) a amount,
                                     BorrowedSpot := madd (BorrowedSpot c1) a amount\<rparr>
                             else c1\<lparr>PerpBalances := madd (PerpBalances c1) a amount\<rparr>);
                       walletDelta = (if creditSpot
                             then spotDelta a (mget (Balances c) a) (mget (Balances c2) a)
                             else perpDelta a (mget (PerpBalances c) a) (mget (PerpBalances c2) a))
                   in Inr (logBalanceChange
                        [walletDelta, borrowedDelta a (mget (Borrowed c) a) (mget (Borrowed c2) a)]
                        (set_client clientID c2 l))))"

definition RepayMargin :: "uint64 \<Rightarrow> asset \<Rightarrow> int64 \<Rightarrow> Ledger \<Rightarrow> borrow_error + Ledger" where
  "RepayMargin clientID a amount0 l =
     (case map_of (Clients l) clientID of
        None \<Rightarrow> Inl UnknownClient
      | Some c \<Rightarrow>
          if amount0 \<le> 0 then Inl NotPositive
          else if mget (Borrowed c) a = 0 then Inl NoDebt
          else
            let amount = min amount0 (mget (Borrowed c) a);
                perpDraw = min amount (max 0 (PerpAvailable c a));
                spotDraw = i64 (amount - perpDraw)
            in if spotDraw > GetAvailable c a then Inl InsufficientBalance
               else
                 let c1 = c\<lparr>PerpBalances := madd (PerpBalances c) a (- perpDraw),
                            Balances := madd (Balances c) a (- spotDraw),
                            Borrowed := madd (Borrowed c) a (- amount)\<rparr>;
                     c2 = c1\<lparr>BorrowedSpot := mput (BorrowedSpot c1) a
                            (min (max 0 (i64 (mget (BorrowedSpot c1) a - spotDraw))) (mget (Borrowed c1) a))\<rparr>
                 in Inr (logBalanceChange
                      ((if perpDraw > 0 then [perpDelta a (mget (PerpBalances c) a) (mget (PerpBalances c2) a)] else []) @
                       (if spotDraw > 0 then [spotDelta a (mget (Balances c) a) (mget (Balances c2) a)] else []) @
                       [borrowedDelta a (mget (Borrowed c) a) (mget (Borrowed c2) a)])
                      (set_client clientID c2 l)))"

text \<open>The audit of the no-debt boundary: \<open>None\<close> is success, otherwise the offending client
  and asset.\<close>

definition ValidateNoBorrowingDebt :: "Ledger \<Rightarrow> (uint64 \<times> asset) option" where
  "ValidateNoBorrowingDebt l =
     find (\<lambda>(i, a). True)
       (concat (map (\<lambda>i. case map_of (Clients l) i of
            None \<Rightarrow> []
          | Some c \<Rightarrow> map (Pair i) (filter (\<lambda>a. mget (Borrowed c) a \<noteq> 0) (mkeys (Borrowed c)) @
                                    filter (\<lambda>a. mget (BorrowedSpot c) a \<noteq> 0) (mkeys (BorrowedSpot c))))
          (mkeys (Clients l))))"

section \<open>Single account movements keep the ledger explained\<close>

text \<open>No wallet or debt of the asset leaves the \<open>int64\<close> range when the amount is added to or
  taken from it.\<close>

definition fits :: "Client \<Rightarrow> asset \<Rightarrow> int64 \<Rightarrow> bool" where
  "fits c a x \<longleftrightarrow> \<bar>mget (Balances c) a\<bar> + \<bar>x\<bar> \<le> MaxInt64 \<and> \<bar>mget (PerpBalances c) a\<bar> + \<bar>x\<bar> \<le> MaxInt64 \<and>
     \<bar>mget (Borrowed c) a\<bar> + \<bar>x\<bar> \<le> MaxInt64"

lemma madd_exact: "\<bar>mget m a\<bar> + \<bar>x\<bar> \<le> MaxInt64 \<Longrightarrow> mget (madd m a x) b = mget m b + (if b = a then x else 0)"
  by (auto simp: mget_madd is_i64_def intro!: i64_id)

lemma fits_madd:
  assumes "fits c a x"
  shows "mget (madd (Balances c) a x) b = mget (Balances c) b + (if b = a then x else 0)"
    "mget (madd (Balances c) a (- x)) b = mget (Balances c) b - (if b = a then x else 0)"
    "mget (madd (PerpBalances c) a x) b = mget (PerpBalances c) b + (if b = a then x else 0)"
    "mget (madd (PerpBalances c) a (- x)) b = mget (PerpBalances c) b - (if b = a then x else 0)"
    "mget (madd (Borrowed c) a x) b = mget (Borrowed c) b + (if b = a then x else 0)"
    "mget (madd (Borrowed c) a (- x)) b = mget (Borrowed c) b - (if b = a then x else 0)"
  using assms by (simp_all add: fits_def madd_exact)

lemma fits_bound: "fits c a x \<Longrightarrow> \<bar>x\<bar> \<le> MaxInt64"
  unfolding fits_def by linarith

lemma fits_mono: "fits c a x \<Longrightarrow> \<bar>y\<bar> \<le> \<bar>x\<bar> \<Longrightarrow> fits c a y"
  by (auto simp: fits_def)

lemma delta_effect:
  assumes "\<bar>x\<bar> \<le> MaxInt64"
  shows "effect (spotDelta a v (v + x) # cs) b = (if a = b then x else 0) + effect cs b"
    "effect (perpDelta a v (v + x) # cs) b = (if a = b then x else 0) + effect cs b"
    "effect (borrowedDelta a v (v + x) # cs) b = (if a = b then - x else 0) + effect cs b"
    "effect (spotDelta a v (v - x) # cs) b = (if a = b then - x else 0) + effect cs b"
    "effect (perpDelta a v (v - x) # cs) b = (if a = b then - x else 0) + effect cs b"
    "effect (borrowedDelta a v (v - x) # cs) b = (if a = b then x else 0) + effect cs b"
    "deltas_ok (spotDelta a v (v + x) # cs) = deltas_ok cs" "deltas_ok (perpDelta a v (v + x) # cs) = deltas_ok cs"
    "deltas_ok (borrowedDelta a v (v + x) # cs) = deltas_ok cs"
    "deltas_ok (spotDelta a v (v - x) # cs) = deltas_ok cs" "deltas_ok (perpDelta a v (v - x) # cs) = deltas_ok cs"
    "deltas_ok (borrowedDelta a v (v - x) # cs) = deltas_ok cs" "deltas_ok []"
proof -
  have "i64 x = x" "i64 (- x) = - x" "is_i64 x" "x \<noteq> MinInt64" "is_i64 (- x)" "- x \<noteq> MinInt64"
    using assms by (auto intro!: i64_id simp: is_i64_def)
  then show "effect (spotDelta a v (v + x) # cs) b = (if a = b then x else 0) + effect cs b"
    "effect (perpDelta a v (v + x) # cs) b = (if a = b then x else 0) + effect cs b"
    "effect (borrowedDelta a v (v + x) # cs) b = (if a = b then - x else 0) + effect cs b"
    "effect (spotDelta a v (v - x) # cs) b = (if a = b then - x else 0) + effect cs b"
    "effect (perpDelta a v (v - x) # cs) b = (if a = b then - x else 0) + effect cs b"
    "effect (borrowedDelta a v (v - x) # cs) b = (if a = b then x else 0) + effect cs b"
    "deltas_ok (spotDelta a v (v + x) # cs) = deltas_ok cs" "deltas_ok (perpDelta a v (v + x) # cs) = deltas_ok cs"
    "deltas_ok (borrowedDelta a v (v + x) # cs) = deltas_ok cs"
    "deltas_ok (spotDelta a v (v - x) # cs) = deltas_ok cs" "deltas_ok (perpDelta a v (v - x) # cs) = deltas_ok cs"
    "deltas_ok (borrowedDelta a v (v - x) # cs) = deltas_ok cs" "deltas_ok []"
    by (simp_all add: spotDelta_def perpDelta_def borrowedDelta_def deltas_ok_def)
qed

lemma ledger_client: "ledger_ok l \<Longrightarrow> map_of (Clients l) i = Some c \<Longrightarrow> client_maps c"
  by (simp add: ledger_ok_def)

lemma log_update:
  assumes l: "ledger_ok l" "conserved l" and c: "map_of (Clients l) i = Some c"
    and cs: "deltas_ok cs" and c': "client_maps c'" and w: "\<And>a. worth a c' = worth a c + effect cs a"
  shows "ledger_ok (logBalanceChange cs (set_client i c' l)) \<and> conserved (logBalanceChange cs (set_client i c' l)) \<and>
    (\<forall>b. held (logBalanceChange cs (set_client i c' l)) b = held l b + effect cs b)"
proof -
  have "held (logBalanceChange cs (set_client i c' l)) b = held l b + effect cs b" for b
    using l(1) c w [of b]
    by (simp add: held_def logBalanceChange_def set_client_def ledger_ok_def msum_mput_Some)
  with log_client_step [OF l cs c', of i] w c show ?thesis by (simp add: old_worth_def)
qed

lemma Transfer_step:
  assumes l: "ledger_ok l" "conserved l" and c: "map_of (Clients l) i = Some c" and f: "fits c a amount"
    and run: "Transfer i from to a amount l = Inr l'"
  shows "ledger_ok l' \<and> conserved l' \<and> (\<forall>b. held l' b = held l b)"
proof -
  note m = ledger_client [OF l(1) c]
  have x: "\<bar>amount\<bar> \<le> MaxInt64" using f by (rule fits_bound)
  let ?c1 = "c\<lparr>Balances := madd (Balances c) a (- amount), PerpBalances := madd (PerpBalances c) a amount\<rparr>"
  let ?c2 = "c\<lparr>PerpBalances := madd (PerpBalances c) a (- amount), Balances := madd (Balances c) a amount\<rparr>"
  have maps: "client_maps ?c1" "client_maps ?c2" using m by (simp_all add: client_maps_def values_ok_madd)
  have w: "worth b ?c1 = worth b c" "worth b ?c2 = worth b c" for b
    by (simp_all add: worth_def fits_madd [OF f])
  have "l' = logBalanceChange [spotDelta a (mget (Balances c) a) (mget (Balances ?c1) a),
        perpDelta a (mget (PerpBalances c) a) (mget (PerpBalances ?c1) a)] (set_client i ?c1 l) \<or>
    l' = logBalanceChange [perpDelta a (mget (PerpBalances c) a) (mget (PerpBalances ?c2) a),
        spotDelta a (mget (Balances c) a) (mget (Balances ?c2) a)] (set_client i ?c2 l)"
    using run c by (auto simp: Transfer_def Let_def split: if_splits)
  then show ?thesis
  proof (elim disjE)
    assume l': "l' = logBalanceChange [spotDelta a (mget (Balances c) a) (mget (Balances ?c1) a),
        perpDelta a (mget (PerpBalances c) a) (mget (PerpBalances ?c1) a)] (set_client i ?c1 l)"
    have "deltas_ok [spotDelta a (mget (Balances c) a) (mget (Balances c) a - amount),
        perpDelta a (mget (PerpBalances c) a) (mget (PerpBalances c) a + amount)]" "effect [spotDelta a (mget (Balances c) a) (mget (Balances c) a - amount),
        perpDelta a (mget (PerpBalances c) a) (mget (PerpBalances c) a + amount)] b = 0" for b
      by (simp_all add: delta_effect [OF x] del: effect_simps(2))
    with log_update [OF l c _ maps(1)] w(1) show ?thesis unfolding l' by (simp add: fits_madd [OF f])
  next
    assume l': "l' = logBalanceChange [perpDelta a (mget (PerpBalances c) a) (mget (PerpBalances ?c2) a),
        spotDelta a (mget (Balances c) a) (mget (Balances ?c2) a)] (set_client i ?c2 l)"
    have "deltas_ok [perpDelta a (mget (PerpBalances c) a) (mget (PerpBalances c) a - amount),
        spotDelta a (mget (Balances c) a) (mget (Balances c) a + amount)]" "effect [perpDelta a (mget (PerpBalances c) a) (mget (PerpBalances c) a - amount),
        spotDelta a (mget (Balances c) a) (mget (Balances c) a + amount)] b = 0" for b
      by (simp_all add: delta_effect [OF x] del: effect_simps(2))
    with log_update [OF l c _ maps(2)] w(2) show ?thesis unfolding l' by (simp add: fits_madd [OF f])
  qed
qed

lemma BorrowMargin_step:
  assumes l: "ledger_ok l" "conserved l" and c: "map_of (Clients l) i = Some c" and f: "fits c a amount"
    and run: "BorrowMargin cfg i spot a amount l = Inr l'"
  shows "ledger_ok l' \<and> conserved l' \<and> (\<forall>b. held l' b = held l b)"
proof -
  note m = ledger_client [OF l(1) c]
  have x: "\<bar>amount\<bar> \<le> MaxInt64" using f by (rule fits_bound)
  have pos: "0 < amount" using run c by (auto simp: BorrowMargin_def split: if_splits)
  have debt: "debts_ok (madd (Borrowed c) a amount)"
    using m pos f debts_ok_mget [of "Borrowed c" a] fits_madd(5) [OF f, of a]
    unfolding madd_def mget_mput client_maps_def by (intro debts_ok_mput) (auto simp: fits_def)
  let ?c1 = "c\<lparr>Borrowed := madd (Borrowed c) a amount, Balances := madd (Balances c) a amount,
    BorrowedSpot := madd (BorrowedSpot c) a amount\<rparr>"
  let ?c2 = "c\<lparr>Borrowed := madd (Borrowed c) a amount, PerpBalances := madd (PerpBalances c) a amount\<rparr>"
  have maps: "client_maps ?c1" "client_maps ?c2" using m debt by (simp_all add: client_maps_def values_ok_madd)
  have w: "worth b ?c1 = worth b c" "worth b ?c2 = worth b c" for b
    by (simp_all add: worth_def fits_madd [OF f])
  have "l' = logBalanceChange [spotDelta a (mget (Balances c) a) (mget (Balances ?c1) a),
        borrowedDelta a (mget (Borrowed c) a) (mget (Borrowed ?c1) a)] (set_client i ?c1 l) \<or>
    l' = logBalanceChange [perpDelta a (mget (PerpBalances c) a) (mget (PerpBalances ?c2) a),
        borrowedDelta a (mget (Borrowed c) a) (mget (Borrowed ?c2) a)] (set_client i ?c2 l)"
    using run c by (auto simp: BorrowMargin_def Let_def split: if_splits sum.splits)
  then show ?thesis
  proof (elim disjE)
    assume l': "l' = logBalanceChange [spotDelta a (mget (Balances c) a) (mget (Balances ?c1) a),
        borrowedDelta a (mget (Borrowed c) a) (mget (Borrowed ?c1) a)] (set_client i ?c1 l)"
    have "deltas_ok [spotDelta a (mget (Balances c) a) (mget (Balances c) a + amount),
        borrowedDelta a (mget (Borrowed c) a) (mget (Borrowed c) a + amount)]" "effect [spotDelta a (mget (Balances c) a) (mget (Balances c) a + amount),
        borrowedDelta a (mget (Borrowed c) a) (mget (Borrowed c) a + amount)] b = 0" for b
      by (simp_all add: delta_effect [OF x] del: effect_simps(2))
    with log_update [OF l c _ maps(1)] w(1) show ?thesis unfolding l' by (simp add: fits_madd [OF f])
  next
    assume l': "l' = logBalanceChange [perpDelta a (mget (PerpBalances c) a) (mget (PerpBalances ?c2) a),
        borrowedDelta a (mget (Borrowed c) a) (mget (Borrowed ?c2) a)] (set_client i ?c2 l)"
    have "deltas_ok [perpDelta a (mget (PerpBalances c) a) (mget (PerpBalances c) a + amount),
        borrowedDelta a (mget (Borrowed c) a) (mget (Borrowed c) a + amount)]" "effect [perpDelta a (mget (PerpBalances c) a) (mget (PerpBalances c) a + amount),
        borrowedDelta a (mget (Borrowed c) a) (mget (Borrowed c) a + amount)] b = 0" for b
      by (simp_all add: delta_effect [OF x] del: effect_simps(2))
    with log_update [OF l c _ maps(2)] w(2) show ?thesis unfolding l' by (simp add: fits_madd [OF f])
  qed
qed

text \<open>What a successful repayment does, without wrap-around.\<close>

lemma RepayMargin_parts:
  assumes m: "client_maps c" and c: "map_of (Clients l) i = Some c" and f: "fits c a (mget (Borrowed c) a)"
    and run: "RepayMargin i a amount0 l = Inr l'"
  obtains amount p s bs where "amount = min amount0 (mget (Borrowed c) a)" "0 < amount" "amount = p + s"
    "0 \<le> p" "0 \<le> s" "p \<le> max 0 (PerpAvailable c a)" "s \<le> GetAvailable c a"
    "l' = logBalanceChange
       ((if p > 0 then [perpDelta a (mget (PerpBalances c) a) (mget (PerpBalances c) a - p)] else []) @
        (if s > 0 then [spotDelta a (mget (Balances c) a) (mget (Balances c) a - s)] else []) @
        [borrowedDelta a (mget (Borrowed c) a) (mget (Borrowed c) a - amount)])
       (set_client i (c\<lparr>PerpBalances := madd (PerpBalances c) a (- p), Balances := madd (Balances c) a (- s),
          Borrowed := madd (Borrowed c) a (- amount), BorrowedSpot := bs\<rparr>) l)"
proof -
  define am where "am = min amount0 (mget (Borrowed c) a)"
  define p where "p = min am (max 0 (PerpAvailable c a))"
  define s where "s = am - p"
  have debt: "0 \<le> mget (Borrowed c) a" "mget (Borrowed c) a \<le> MaxInt64"
    using m debts_ok_mget [of "Borrowed c" a] by (auto simp: client_maps_def)
  from run c have a0: "\<not> amount0 \<le> 0" and b0: "mget (Borrowed c) a \<noteq> 0"
    by (auto simp: RepayMargin_def split: if_splits)
  have am: "0 < am" "\<bar>am\<bar> \<le> \<bar>mget (Borrowed c) a\<bar>" using a0 b0 debt by (auto simp: am_def)
  have p: "0 \<le> p" "\<bar>p\<bar> \<le> \<bar>mget (Borrowed c) a\<bar>" using am by (auto simp: p_def)
  have s: "0 \<le> s" "\<bar>s\<bar> \<le> \<bar>mget (Borrowed c) a\<bar>" using am p by (auto simp: s_def p_def)
  have i: "i64 s = s" using s debt by (intro i64_id) (auto simp: is_i64_def)
  have e: "mget (madd (PerpBalances c) a (- p)) a = mget (PerpBalances c) a - p"
    "mget (madd (Balances c) a (- s)) a = mget (Balances c) a - s"
    "mget (madd (Borrowed c) a (- am)) a = mget (Borrowed c) a - am"
    using fits_madd(4) [OF fits_mono [OF f p(2)], of a] fits_madd(2) [OF fits_mono [OF f s(2)], of a]
      fits_madd(6) [OF fits_mono [OF f am(2)], of a] by simp_all
  note run' = run [unfolded RepayMargin_def c option.case if_not_P [OF a0] if_not_P [OF b0] Let_def,
    folded am_def, folded p_def, folded s_def, unfolded i]
  have ok: "\<not> s > GetAvailable c a" using run' by (auto split: if_splits)
  have l': "l' = logBalanceChange
       ((if p > 0 then [perpDelta a (mget (PerpBalances c) a) (mget (PerpBalances c) a - p)] else []) @
        (if s > 0 then [spotDelta a (mget (Balances c) a) (mget (Balances c) a - s)] else []) @
        [borrowedDelta a (mget (Borrowed c) a) (mget (Borrowed c) a - am)])
       (set_client i (c\<lparr>PerpBalances := madd (PerpBalances c) a (- p), Balances := madd (Balances c) a (- s),
          Borrowed := madd (Borrowed c) a (- am), BorrowedSpot := mput (BorrowedSpot c) a
            (min (max 0 (i64 (mget (BorrowedSpot c) a - s))) (mget (Borrowed c) a - am))\<rparr>) l)"
    using run' [unfolded if_not_P [OF ok]] by (simp add: e cong: if_cong split del: if_split)
  have sum: "am = p + s" and pa: "p \<le> max 0 (PerpAvailable c a)" and sa: "s \<le> GetAvailable c a"
    using ok by (simp_all add: s_def p_def)
  show thesis by (rule that [OF am_def am(1) sum p(1) s(1) pa sa l'])
qed

lemma effect_append [simp]: "effect (xs @ ys) b = effect xs b + effect ys b"
  by (simp add: effect_def)

lemma deltas_ok_append [simp]: "deltas_ok (xs @ ys) \<longleftrightarrow> deltas_ok xs \<and> deltas_ok ys"
  by (auto simp: deltas_ok_def)

lemma draw_effect:
  assumes "0 \<le> x" "x \<le> MaxInt64"
  shows "effect (if x > 0 then [perpDelta a v (v - x)] else []) b = (if a = b then - x else 0)"
    "effect (if x > 0 then [spotDelta a v (v - x)] else []) b = (if a = b then - x else 0)"
    "deltas_ok (if x > 0 then [perpDelta a v (v - x)] else [])"
    "deltas_ok (if x > 0 then [spotDelta a v (v - x)] else [])"
proof -
  have "\<bar>x\<bar> \<le> MaxInt64" using assms by simp
  note d = delta_effect [OF this]
  show "effect (if x > 0 then [perpDelta a v (v - x)] else []) b = (if a = b then - x else 0)"
    "effect (if x > 0 then [spotDelta a v (v - x)] else []) b = (if a = b then - x else 0)"
    "deltas_ok (if x > 0 then [perpDelta a v (v - x)] else [])"
    "deltas_ok (if x > 0 then [spotDelta a v (v - x)] else [])"
    using d assms by (auto simp: not_less simp del: effect_simps(2))
qed

lemma RepayMargin_step:
  assumes l: "ledger_ok l" "conserved l" and c: "map_of (Clients l) i = Some c"
    and f: "fits c a (mget (Borrowed c) a)" and run: "RepayMargin i a amount0 l = Inr l'"
  shows "ledger_ok l' \<and> conserved l' \<and> (\<forall>b. held l' b = held l b)"
proof -
  note m = ledger_client [OF l(1) c]
  obtain amount p s bs where am: "amount = min amount0 (mget (Borrowed c) a)" "0 < amount" "amount = p + s"
    "0 \<le> p" "0 \<le> s" and l': "l' = logBalanceChange
       ((if p > 0 then [perpDelta a (mget (PerpBalances c) a) (mget (PerpBalances c) a - p)] else []) @
        (if s > 0 then [spotDelta a (mget (Balances c) a) (mget (Balances c) a - s)] else []) @
        [borrowedDelta a (mget (Borrowed c) a) (mget (Borrowed c) a - amount)])
       (set_client i (c\<lparr>PerpBalances := madd (PerpBalances c) a (- p), Balances := madd (Balances c) a (- s),
          Borrowed := madd (Borrowed c) a (- amount), BorrowedSpot := bs\<rparr>) l)"
    by (rule RepayMargin_parts [OF m c f run])
  have debt: "0 \<le> mget (Borrowed c) a" "mget (Borrowed c) a \<le> MaxInt64"
    using m debts_ok_mget [of "Borrowed c" a] by (auto simp: client_maps_def)
  have le: "amount \<le> mget (Borrowed c) a" using am(1) by simp
  have b: "\<bar>p\<bar> \<le> \<bar>mget (Borrowed c) a\<bar>" "\<bar>s\<bar> \<le> \<bar>mget (Borrowed c) a\<bar>" "\<bar>amount\<bar> \<le> \<bar>mget (Borrowed c) a\<bar>"
    using am(2-5) le by auto
  note fp = fits_mono [OF f b(1)] and fs = fits_mono [OF f b(2)] and fa = fits_mono [OF f b(3)]
  let ?c = "c\<lparr>PerpBalances := madd (PerpBalances c) a (- p), Balances := madd (Balances c) a (- s),
          Borrowed := madd (Borrowed c) a (- amount), BorrowedSpot := bs\<rparr>"
  let ?cs = "(if p > 0 then [perpDelta a (mget (PerpBalances c) a) (mget (PerpBalances c) a - p)] else []) @
        (if s > 0 then [spotDelta a (mget (Balances c) a) (mget (Balances c) a - s)] else []) @
        [borrowedDelta a (mget (Borrowed c) a) (mget (Borrowed c) a - amount)]"
  have "debts_ok (madd (Borrowed c) a (- amount))"
    using m fits_madd(6) [OF fa, of a] le debt am(2)
    unfolding madd_def mget_mput client_maps_def by (intro debts_ok_mput) auto
  then have maps: "client_maps ?c" using m by (simp add: client_maps_def values_ok_madd)
  have mx: "p \<le> MaxInt64" "s \<le> MaxInt64" "\<bar>amount\<bar> \<le> MaxInt64" using am(2-5) le debt by auto
  have d: "deltas_ok ?cs"
    unfolding deltas_ok_append using draw_effect(3) [OF am(4) mx(1)] draw_effect(4) [OF am(5) mx(2)]
    by (simp add: delta_effect [OF mx(3)])
  have e: "effect ?cs b = 0" for b
    unfolding effect_append draw_effect(1) [OF am(4) mx(1)] draw_effect(2) [OF am(5) mx(2)]
      delta_effect(6) [OF mx(3)] by (simp add: am(3))
  have w: "worth b ?c = worth b c + effect ?cs b" for b
    unfolding e by (simp add: worth_def fits_madd [OF fp] fits_madd [OF fs] fits_madd [OF fa]) (simp add: am(3))
  from log_update [OF l c d maps w] show ?thesis unfolding l' e by simp
qed

lemma AddPerpBalance_step:
  assumes l: "ledger_ok l" "conserved l"
    and f: "\<And>c. map_of (Clients l) i = Some c \<Longrightarrow> fits c a x"
  shows "ledger_ok (AddPerpBalance i a x l) \<and> conserved (AddPerpBalance i a x l)"
proof (cases "map_of (Clients l) i")
  case None
  with l show ?thesis by (simp add: AddPerpBalance_def)
next
  case (Some c)
  note fc = f [OF Some] and m = ledger_client [OF l(1) Some]
  let ?c = "c\<lparr>PerpBalances := madd (PerpBalances c) a x\<rparr>"
  let ?cs = "[perpDelta a (mget (PerpBalances c) a) (mget (PerpBalances c) a + x)]"
  note d = delta_effect [OF fits_bound [OF fc]]
  have maps: "client_maps ?c" using m by (simp add: client_maps_def values_ok_madd)
  have "deltas_ok ?cs" "worth b ?c = worth b c + effect ?cs b" for b
    by (simp_all add: d worth_def fits_madd [OF fc] del: effect_simps(2))
  from log_update [OF l Some this(1) maps this(2)] show ?thesis
    using Some by (simp add: AddPerpBalance_def fits_madd [OF fc])
qed

section \<open>Interest\<close>

record collateralInterestCharge =
  ChClient :: uint64
  ChAsset :: asset
  ChInterest :: int64
  ChSpot :: int64
  ChPerp :: int64
  ChOldSpot :: int64
  ChNewSpot :: int64
  ChOldPerp :: int64
  ChNewPerp :: int64

definition collateralInterestDenominator :: int64 where
  "collateralInterestDenominator = 5256000000"

text \<open>One iteration of the planning loop, for a client and one of its debts. \<open>None\<close> is the
  arithmetic error that abandons the whole sweep.\<close>

definition plan_charge :: "int64 \<Rightarrow> Ledger \<Rightarrow> uint64 \<times> asset \<Rightarrow>
    collateralInterestCharge list \<times> (asset, int64) gomap \<Rightarrow>
    (collateralInterestCharge list \<times> (asset, int64) gomap) option" where
  "plan_charge rate l = (\<lambda>(i, a) (charges, proposed).
     case map_of (Clients l) i of
       None \<Rightarrow> None
     | Some c \<Rightarrow>
         let borrowed = mget (Borrowed c) a
         in if borrowed \<le> 0 then Some (charges, proposed)
            else case TryMulDiv borrowed rate collateralInterestDenominator of
              None \<Rightarrow> None
            | Some interest \<Rightarrow>
                if interest \<le> 0 then Some (charges, proposed)
                else
                  let spotPortion = BorrowedSpotPortion c a
                  in if spotPortion < 0 \<or> spotPortion > borrowed then None
                     else case TryMulDiv interest spotPortion borrowed of
                       None \<Rightarrow> None
                     | Some spotShare \<Rightarrow>
                    (case TrySub interest spotShare of
                       None \<Rightarrow> None
                     | Some perpShare \<Rightarrow>
                    (case TrySub (mget (Balances c) a) spotShare of
                       None \<Rightarrow> None
                     | Some newSpot \<Rightarrow>
                    (case TrySub (mget (PerpBalances c) a) perpShare of
                       None \<Rightarrow> None
                     | Some newPerp \<Rightarrow>
                         let venueRevenue = (case map_of proposed a of
                               Some previous \<Rightarrow> previous | None \<Rightarrow> mget (FeeRevenue (ExBal l)) a)
                         in case TryAdd venueRevenue interest of
                              None \<Rightarrow> None
                            | Some revenue \<Rightarrow>
                                Some (charges @ [\<lparr>ChClient = i, ChAsset = a, ChInterest = interest,
                                   ChSpot = spotShare, ChPerp = perpShare,
                                   ChOldSpot = mget (Balances c) a, ChNewSpot = newSpot,
                                   ChOldPerp = mget (PerpBalances c) a, ChNewPerp = newPerp\<rparr>],
                                   mput proposed a revenue)))))"

fun plan_charges :: "int64 \<Rightarrow> Ledger \<Rightarrow> (uint64 \<times> asset) list \<Rightarrow>
    collateralInterestCharge list \<times> (asset, int64) gomap \<Rightarrow>
    (collateralInterestCharge list \<times> (asset, int64) gomap) option" where
  "plan_charges rate l [] acc = Some acc"
| "plan_charges rate l (k # ks) acc = Option.bind (plan_charge rate l k acc) (plan_charges rate l ks)"

definition apply_charge :: "collateralInterestCharge \<Rightarrow> Ledger \<Rightarrow> Ledger option" where
  "apply_charge ch l =
     (case map_of (Clients l) (ChClient ch) of
        None \<Rightarrow> None
      | Some c \<Rightarrow>
          let a = ChAsset ch;
              c1 = (if ChSpot ch > 0 then c\<lparr>Balances := mput (Balances c) a (ChNewSpot ch)\<rparr> else c);
              c2 = (if ChPerp ch > 0 then c1\<lparr>PerpBalances := mput (PerpBalances c1) a (ChNewPerp ch)\<rparr> else c1)
          in map_option
               (logBalanceChange
                 ((if ChPerp ch > 0 then [perpDelta a (ChOldPerp ch) (ChNewPerp ch)] else []) @
                  (if ChSpot ch > 0 then [spotDelta a (ChOldSpot ch) (ChNewSpot ch)] else [])))
               (moveVenueBalance VenueFeeRevenue a (ChInterest ch) '''' (set_client (ChClient ch) c2 l)))"

fun apply_charges :: "collateralInterestCharge list \<Rightarrow> Ledger \<Rightarrow> Ledger option" where
  "apply_charges [] l = Some l"
| "apply_charges (ch # chs) l = Option.bind (apply_charge ch l) (apply_charges chs)"

text \<open>The debts in the order of the sweep: clients by ID, assets by name.\<close>

definition debt_keys :: "Ledger \<Rightarrow> (uint64 \<times> asset) list" where
  "debt_keys l = concat (map (\<lambda>i. case map_of (Clients l) i of
      None \<Rightarrow> [] | Some c \<Rightarrow> map (Pair i) (mkeys (Borrowed c))) (mkeys (Clients l)))"

datatype interest_outcome = InterestArithmetic | InterestPanic | Charged Ledger

definition chargeCollateralInterest :: "int64 \<Rightarrow> Ledger \<Rightarrow> interest_outcome" where
  "chargeCollateralInterest rate l =
     (case plan_charges rate l (debt_keys l) ([], []) of
        None \<Rightarrow> InterestArithmetic
      | Some (charges, _) \<Rightarrow>
          (case apply_charges charges l of None \<Rightarrow> InterestPanic | Some l' \<Rightarrow> Charged l'))"

definition charge_key :: "collateralInterestCharge \<Rightarrow> uint64 \<times> asset" where
  "charge_key ch = (ChClient ch, ChAsset ch)"

text \<open>A planned charge fits the current accounts.\<close>

definition charge_ok :: "Ledger \<Rightarrow> collateralInterestCharge \<Rightarrow> bool" where
  "charge_ok l ch \<longleftrightarrow>
     (\<exists>c. map_of (Clients l) (ChClient ch) = Some c \<and>
        ChOldSpot ch = mget (Balances c) (ChAsset ch) \<and> ChOldPerp ch = mget (PerpBalances c) (ChAsset ch)) \<and>
     0 < ChInterest ch \<and> ChInterest ch \<le> MaxInt64 \<and> 0 \<le> ChSpot ch \<and> 0 \<le> ChPerp ch \<and>
     ChSpot ch + ChPerp ch = ChInterest ch \<and>
     ChNewSpot ch = ChOldSpot ch - ChSpot ch \<and> is_i64 (ChNewSpot ch) \<and>
     ChNewPerp ch = ChOldPerp ch - ChPerp ch \<and> is_i64 (ChNewPerp ch)"

definition asset_interest :: "collateralInterestCharge list \<Rightarrow> asset \<Rightarrow> int" where
  "asset_interest chs a = (\<Sum>ch\<leftarrow>chs. if ChAsset ch = a then ChInterest ch else 0)"

lemma spot_share:
  assumes "0 < interest" "interest \<le> MaxInt64" "0 \<le> p" "p \<le> b" "b \<le> MaxInt64" "0 < b"
    and "TryMulDiv interest p b = Some s"
  shows "0 \<le> s" "s \<le> interest"
proof -
  have i: "is_i64 interest" "is_i64 p" "is_i64 b" using assms by (auto simp: is_i64_def)
  have s: "s = interest * p div b"
    using assms(7) assms(1,3,6) by (auto simp: TryMulDiv_eq [OF i] sdiv_nonneg_eq split: if_splits)
  show "0 \<le> s" using assms by (simp add: s pos_imp_zdiv_nonneg_iff)
  have "interest * p \<le> interest * b" using assms by (intro mult_left_mono) auto
  then show "s \<le> interest" using div_int_less_iff [OF assms(6), of "interest * p" "interest + 1"] assms(6)
    by (simp add: s distrib_right)
qed

lemma plan_charge_ok:
  assumes l: "ledger_ok l" and plan: "plan_charge rate l (i, a) (chs, pv) = Some (chs', pv')"
    and rate: "is_i64 rate"
    and pv: "\<forall>b v. map_of pv b = Some v \<longrightarrow> is_i64 v"
  shows "chs' = chs \<and> pv' = pv \<or>
    (\<exists>ch rev. chs' = chs @ [ch] \<and> pv' = mput pv a rev \<and> charge_key ch = (i, a) \<and> charge_ok l ch \<and>
       is_i64 rev \<and> rev = (case map_of pv a of Some v \<Rightarrow> v | None \<Rightarrow> mget (FeeRevenue (ExBal l)) a) + ChInterest ch)"
proof -
  from plan obtain c where c: "map_of (Clients l) i = Some c" by (auto simp: plan_charge_def split: option.splits)
  note m = ledger_client [OF l c]
  let ?d = "mget (Borrowed c) a"
  let ?v = "case map_of pv a of Some v \<Rightarrow> v | None \<Rightarrow> mget (FeeRevenue (ExBal l)) a"
  have d: "0 \<le> ?d" "?d \<le> MaxInt64" using m debts_ok_mget [of "Borrowed c" a] by (auto simp: client_maps_def)
  have b: "is_i64 (mget (Balances c) a)" "is_i64 (mget (PerpBalances c) a)"
    using m by (auto simp: client_maps_def values_ok_mget)
  have v: "is_i64 ?v"
    using pv l by (auto simp: ledger_ok_def values_ok_mget split: option.splits)
  show ?thesis
  proof (cases "chs' = chs \<and> pv' = pv")
    case False
    from False plan obtain interest s p ns np rev where
      pos: "0 < ?d" and I: "TryMulDiv ?d rate collateralInterestDenominator = Some interest" "0 < interest"
      and portion: "0 \<le> BorrowedSpotPortion c a" "BorrowedSpotPortion c a \<le> ?d"
      and s: "TryMulDiv interest (BorrowedSpotPortion c a) ?d = Some s" and p: "TrySub interest s = Some p"
      and ns: "TrySub (mget (Balances c) a) s = Some ns" and np: "TrySub (mget (PerpBalances c) a) p = Some np"
      and rev: "TryAdd ?v interest = Some rev" "pv' = mput pv a rev"
      and chs': "chs' = chs @ [\<lparr>ChClient = i, ChAsset = a, ChInterest = interest, ChSpot = s, ChPerp = p,
         ChOldSpot = mget (Balances c) a, ChNewSpot = ns, ChOldPerp = mget (PerpBalances c) a, ChNewPerp = np\<rparr>]"
      by (auto simp: plan_charge_def c Let_def not_le not_less split: if_splits option.splits)
    have int: "is_i64 interest"
      using I(1) rate d by (subst (asm) TryMulDiv_eq) (auto simp: is_i64_def collateralInterestDenominator_def split: if_splits)
    then have mx: "interest \<le> MaxInt64" by (simp add: is_i64_def)
    have s0: "0 \<le> s" "s \<le> interest" using spot_share [OF I(2) mx portion d(2) pos s] by auto
    have si: "is_i64 s" using s0 mx by (simp add: is_i64_def)
    have pe: "p = interest - s" "is_i64 p" using TrySub_Some [OF int si p] by auto
    note n1 = TrySub_Some [OF b(1) si ns] and n2 = TrySub_Some [OF b(2) pe(2) np]
    have rv: "rev = ?v + interest" "is_i64 rev" using rev(1) TryAdd_Some [OF v int] by auto
    show ?thesis
      using chs' rev(2) rv c I(2) mx s0 pe n1 n2 by (auto simp: charge_key_def charge_ok_def)
  qed simp
qed

definition planned_revenue :: "Ledger \<Rightarrow> (asset, int64) gomap \<Rightarrow> asset \<Rightarrow> int" where
  "planned_revenue l pv b = (case map_of pv b of Some v \<Rightarrow> v | None \<Rightarrow> mget (FeeRevenue (ExBal l)) b)"

definition planned :: "Ledger \<Rightarrow> collateralInterestCharge list \<Rightarrow> (asset, int64) gomap \<Rightarrow> bool" where
  "planned l chs pv \<longleftrightarrow> distinct (map charge_key chs) \<and> (\<forall>ch\<in>set chs. charge_ok l ch) \<and>
     (\<forall>b. is_i64 (planned_revenue l pv b) \<and>
          planned_revenue l pv b = mget (FeeRevenue (ExBal l)) b + asset_interest chs b) \<and>
     (\<forall>b v. map_of pv b = Some v \<longrightarrow> is_i64 v)"

lemma plannedD:
  assumes "planned l chs pv"
  shows "is_i64 (mget (FeeRevenue (ExBal l)) b + asset_interest chs b)" "is_i64 (planned_revenue l pv b)"
  using assms unfolding planned_def by metis+

lemma asset_interest_append [simp]:
  "asset_interest (chs @ [ch]) b = asset_interest chs b + (if ChAsset ch = b then ChInterest ch else 0)"
  by (simp add: asset_interest_def)

lemma plan_charges_ok:
  assumes l: "ledger_ok l" and rate: "is_i64 rate" and "distinct ks" "planned l chs pv"
    and "\<forall>ch\<in>set chs. charge_key ch \<notin> set ks" and "plan_charges rate l ks (chs, pv) = Some (chs', pv')"
  shows "planned l chs' pv' \<and> charge_key ` set chs' \<subseteq> charge_key ` set chs \<union> set ks"
  using assms(3-6)
proof (induction ks arbitrary: chs pv)
  case (Cons k ks)
  obtain i a where k: "k = (i, a)" by (cases k)
  from Cons.prems(4) obtain chs1 pv1 where one: "plan_charge rate l (i, a) (chs, pv) = Some (chs1, pv1)"
    and rest: "plan_charges rate l ks (chs1, pv1) = Some (chs', pv')"
    by (auto simp: k bind_eq_Some_conv)
  have pvi: "\<forall>b v. map_of pv b = Some v \<longrightarrow> is_i64 v" using Cons.prems(2) by (simp add: planned_def)
  from plan_charge_ok [OF l one rate pvi] show ?case
  proof (elim disjE exE conjE)
    assume "chs1 = chs" "pv1 = pv"
    with Cons.IH [OF _ _ _ rest] Cons.prems show ?thesis by auto
  next
    fix ch rev
    assume n: "chs1 = chs @ [ch]" "pv1 = mput pv a rev" "charge_key ch = (i, a)" "charge_ok l ch" "is_i64 rev"
      and rev: "rev = (case map_of pv a of Some v \<Rightarrow> v | None \<Rightarrow> mget (FeeRevenue (ExBal l)) a) + ChInterest ch"
    have ka: "ChAsset ch = a" "ChClient ch = i" using n(3) by (simp_all add: charge_key_def)
    have "planned_revenue l pv1 b = planned_revenue l pv b + (if a = b then ChInterest ch else 0)" for b
      by (auto simp: n(2) rev planned_revenue_def split: option.split)
    moreover have "is_i64 (planned_revenue l pv1 b)" for b
      using plannedD(2) [OF Cons.prems(2), of b] n(2,5) by (simp add: planned_revenue_def)
    ultimately have "planned l chs1 pv1"
      using Cons.prems(2,3) n ka k by (auto simp: planned_def)
    moreover have "\<forall>ch\<in>set chs1. charge_key ch \<notin> set ks" using Cons.prems(1,3) n k by auto
    ultimately show ?thesis using Cons.IH [OF _ _ _ rest] Cons.prems(1) n(1,3) k by auto
  qed
qed simp

lemma planned_init: "ledger_ok l \<Longrightarrow> planned l [] []"
  by (simp add: planned_def planned_revenue_def asset_interest_def ledger_ok_def values_ok_mget)

lemma debt_keys_distinct:
  assumes "ledger_ok l" shows "distinct (debt_keys l)"
proof -
  have "distinct (concat (map (\<lambda>i. case map_of (Clients l) i of
      None \<Rightarrow> [] | Some c \<Rightarrow> map (Pair i) (mkeys (Borrowed c))) is))" if "distinct is" for "is"
    using that
  proof (induction "is")
    case (Cons i "is")
    have "distinct (case map_of (Clients l) i of None \<Rightarrow> [] | Some c \<Rightarrow> map (Pair i) (mkeys (Borrowed c)))"
      using ledger_client [OF assms, of i]
      by (auto simp: client_maps_def debts_ok_def distinct_map mkeys_distinct inj_on_def split: option.split)
    with Cons show ?case by (auto split: option.splits)
  qed simp
  from this [of "mkeys (Clients l)"] assms mkeys_distinct [of "Clients l"] show ?thesis
    by (simp add: debt_keys_def ledger_ok_def)
qed

section \<open>Applying the charges\<close>

definition charged_client :: "collateralInterestCharge \<Rightarrow> Client \<Rightarrow> Client" where
  "charged_client ch c =
     (let a = ChAsset ch;
          c1 = (if ChSpot ch > 0 then c\<lparr>Balances := mput (Balances c) a (ChNewSpot ch)\<rparr> else c)
      in if ChPerp ch > 0 then c1\<lparr>PerpBalances := mput (PerpBalances c1) a (ChNewPerp ch)\<rparr> else c1)"

lemma charged_client_balances:
  assumes "map_of (Clients l) (ChClient ch) = Some c" "charge_ok l ch"
  shows "mget (Balances (charged_client ch c)) b = mget (Balances c) b - (if b = ChAsset ch then ChSpot ch else 0)"
    "mget (PerpBalances (charged_client ch c)) b = mget (PerpBalances c) b - (if b = ChAsset ch then ChPerp ch else 0)"
    "Borrowed (charged_client ch c) = Borrowed c" "client_maps c \<Longrightarrow> client_maps (charged_client ch c)"
  using assms by (auto simp: charged_client_def charge_ok_def Let_def client_maps_def values_ok_mput)

lemma apply_charge_ok:
  assumes l: "ledger_ok l" "conserved l" and ok: "charge_ok l ch"
    and room: "mget (FeeRevenue (ExBal l)) (ChAsset ch) + ChInterest ch \<le> MaxInt64"
  shows "\<exists>l'. apply_charge ch l = Some l' \<and> ledger_ok l' \<and> conserved l' \<and>
    (ChAsset ch \<noteq> '''' \<longrightarrow> (\<forall>b. held l' b = held l b)) \<and>
    (\<forall>b. mget (FeeRevenue (ExBal l')) b =
       mget (FeeRevenue (ExBal l)) b + (if b = ChAsset ch \<and> b \<noteq> '''' then ChInterest ch else 0)) \<and>
    (\<forall>ch2. charge_key ch2 \<noteq> charge_key ch \<longrightarrow> charge_ok l ch2 \<longrightarrow> charge_ok l' ch2)"
proof -
  let ?a = "ChAsset ch" and ?i = "ChClient ch"
  obtain c where c: "map_of (Clients l) ?i = Some c" using ok by (auto simp: charge_ok_def)
  note C = charged_client_balances [OF c ok] and m = ledger_client [OF l(1) c]
  let ?c = "charged_client ch c" and ?l1 = "set_client ?i (charged_client ch c) l"
  let ?cs = "(if ChPerp ch > 0 then [perpDelta ?a (ChOldPerp ch) (ChNewPerp ch)] else []) @
      (if ChSpot ch > 0 then [spotDelta ?a (ChOldSpot ch) (ChNewSpot ch)] else [])"
  have q: "0 < ChInterest ch" "ChInterest ch \<le> MaxInt64" "0 \<le> ChSpot ch" "0 \<le> ChPerp ch"
    "ChSpot ch + ChPerp ch = ChInterest ch" "ChNewSpot ch = ChOldSpot ch - ChSpot ch"
    "ChNewPerp ch = ChOldPerp ch - ChPerp ch" using ok by (auto simp: charge_ok_def)
  have mx: "ChSpot ch \<le> MaxInt64" "ChPerp ch \<le> MaxInt64" using q by auto
  have d: "deltas_ok ?cs" and e: "effect ?cs b = (if ?a = b then - ChInterest ch else 0)" for b
    unfolding effect_append deltas_ok_append q(6,7)
    using draw_effect [OF q(4) mx(2)] draw_effect [OF q(3) mx(1)] q(5) by auto
  have w: "worth b ?c = worth b c + effect ?cs b" for b
    unfolding e using q(5) by (simp add: worth_def C)
  have c0: "conserved_by (\<lambda>_. 0) l" using l(2) by (simp add: conserved_iff)
  note S = set_client_step [OF l(1) c0 C(4) [OF m], of ?i]
  have int: "is_i64 (ChInterest ch)" using q by (simp add: is_i64_def)
  have rev: "is_i64 (mget (FeeRevenue (ExBal l)) ?a)" using l(1) by (simp add: ledger_ok_def values_ok_mget)
  have sum: "AddAmount (mget (FeeRevenue (ExBal l)) ?a) (ChInterest ch) =
      Some (mget (FeeRevenue (ExBal l)) ?a + ChInterest ch)"
    using rev int room q(1) by (auto simp: AddAmount_def TryAdd_eq is_i64_def)
  obtain l2 where mv: "moveVenueBalance VenueFeeRevenue ?a (ChInterest ch) '''' ?l1 = Some l2"
    and fr: "\<And>b. mget (FeeRevenue (ExBal l2)) b =
      mget (FeeRevenue (ExBal l)) b + (if b = ?a \<and> b \<noteq> '''' then ChInterest ch else 0)"
    using sum q(1) by (cases "?a = ''''") (auto simp: moveVenueBalance_def Let_def set_client_def)
  note M = moveVenueBalance_step [OF S(1,3) int mv]
  note L = log_step [OF M [THEN conjunct1] M [THEN conjunct2, THEN conjunct1] d]
  have ap: "apply_charge ch l = Some (logBalanceChange ?cs l2)"
    using mv c by (simp add: apply_charge_def Let_def charged_client_def)
  have "conserved (logBalanceChange ?cs l2)"
    using L(3) w c by (simp add: conserved_iff old_worth_def)
  moreover have "held (logBalanceChange ?cs l2) b = held l b" if "?a \<noteq> ''''" for b
    using M S(2) [of b] w [of b] c that q(1) unfolding L(2) e by (auto simp: old_worth_def)
  moreover have "charge_ok (logBalanceChange ?cs l2) ch2"
    if k: "charge_key ch2 \<noteq> charge_key ch" and ok2: "charge_ok l ch2" for ch2
  proof -
    have "Clients (logBalanceChange ?cs l2) = mput (Clients l) ?i ?c"
      using M by (simp add: logBalanceChange_def set_client_def)
    with ok2 k c C show ?thesis by (auto simp: charge_ok_def charge_key_def split: if_splits)
  qed
  ultimately show ?thesis
    using ap L(1) fr by (auto simp: logBalanceChange_def)
qed

lemma asset_interest_Cons [simp]:
  "asset_interest (ch # chs) b = (if ChAsset ch = b then ChInterest ch else 0) + asset_interest chs b"
  by (simp add: asset_interest_def)

lemma asset_interest_nonneg:
  "\<forall>ch\<in>set chs. charge_ok l ch \<Longrightarrow> 0 \<le> asset_interest chs b"
  unfolding asset_interest_def by (intro sum_list_nonneg) (auto simp: charge_ok_def)

lemma apply_charges_ok:
  assumes "ledger_ok l" "conserved l" "distinct (map charge_key chs)" "\<forall>ch\<in>set chs. charge_ok l ch"
    "\<forall>b. mget (FeeRevenue (ExBal l)) b + asset_interest chs b \<le> MaxInt64"
  shows "\<exists>l'. apply_charges chs l = Some l' \<and> ledger_ok l' \<and> conserved l' \<and>
    ((\<forall>ch\<in>set chs. ChAsset ch \<noteq> '''') \<longrightarrow> (\<forall>b. held l' b = held l b)) \<and>
    (\<forall>b. b \<noteq> '''' \<longrightarrow> mget (FeeRevenue (ExBal l')) b = mget (FeeRevenue (ExBal l)) b + asset_interest chs b)"
  using assms
proof (induction chs arbitrary: l)
  case Nil
  then show ?case by (simp add: asset_interest_def)
next
  case (Cons ch chs)
  have rest: "\<forall>ch\<in>set chs. charge_ok l ch" using Cons.prems(4) by simp
  have "mget (FeeRevenue (ExBal l)) (ChAsset ch) + ChInterest ch \<le> MaxInt64"
    using spec [OF Cons.prems(5), of "ChAsset ch"] asset_interest_nonneg [OF rest, of "ChAsset ch"] by simp
  then obtain l1 where one: "apply_charge ch l = Some l1" "ledger_ok l1" "conserved l1"
    "ChAsset ch \<noteq> '''' \<longrightarrow> (\<forall>b. held l1 b = held l b)"
    and fr: "\<forall>b. mget (FeeRevenue (ExBal l1)) b =
       mget (FeeRevenue (ExBal l)) b + (if b = ChAsset ch \<and> b \<noteq> '''' then ChInterest ch else 0)"
    and keep: "\<forall>ch2. charge_key ch2 \<noteq> charge_key ch \<longrightarrow> charge_ok l ch2 \<longrightarrow> charge_ok l1 ch2"
    using apply_charge_ok [OF Cons.prems(1,2), of ch] Cons.prems(4) by auto
  have i0: "0 \<le> ChInterest ch" using Cons.prems(4) by (simp add: charge_ok_def)
  have "charge_key ch2 \<noteq> charge_key ch" if "ch2 \<in> set chs" for ch2
    using Cons.prems(3) imageI [OF that, of charge_key] by auto
  with keep rest have "\<forall>ch2\<in>set chs. charge_ok l1 ch2" by blast
  moreover have "\<forall>b. mget (FeeRevenue (ExBal l1)) b + asset_interest chs b \<le> MaxInt64"
  proof
    fix b
    show "mget (FeeRevenue (ExBal l1)) b + asset_interest chs b \<le> MaxInt64"
      using spec [OF Cons.prems(5), of b] spec [OF fr, of b] i0 by (auto split: if_splits)
  qed
  ultimately obtain l' where "apply_charges chs l1 = Some l'" "ledger_ok l'" "conserved l'"
    "(\<forall>ch\<in>set chs. ChAsset ch \<noteq> '''') \<longrightarrow> (\<forall>b. held l' b = held l1 b)"
    "\<forall>b. b \<noteq> '''' \<longrightarrow> mget (FeeRevenue (ExBal l')) b = mget (FeeRevenue (ExBal l1)) b + asset_interest chs b"
    using Cons.IH [OF one(2,3)] Cons.prems(3) by auto
  with one fr show ?case by auto
qed

lemma interest_sweep:
  assumes l: "ledger_ok l" "conserved l" and rate: "is_i64 rate"
  shows "case chargeCollateralInterest rate l of InterestArithmetic \<Rightarrow> True | InterestPanic \<Rightarrow> False
    | Charged l' \<Rightarrow> ledger_ok l' \<and> conserved l' \<and>
        ((\<forall>(i, a)\<in>set (debt_keys l). a \<noteq> '''') \<longrightarrow> (\<forall>b. held l' b = held l b))"
proof (cases "plan_charges rate l (debt_keys l) ([], [])")
  case None
  then show ?thesis by (simp add: chargeCollateralInterest_def)
next
  case (Some r)
  obtain chs pv where r: "r = (chs, pv)" by (cases r)
  have pl: "planned l chs pv \<and> charge_key ` set chs \<subseteq> set (debt_keys l)"
    using plan_charges_ok [OF l(1) rate debt_keys_distinct [OF l(1)] planned_init [OF l(1)], of chs pv] Some r
    by simp
  have mx: "\<forall>b. mget (FeeRevenue (ExBal l)) b + asset_interest chs b \<le> MaxInt64"
    using plannedD(1) [of l chs pv] pl by (simp add: is_i64_def)
  from apply_charges_ok [OF l _ _ mx] pl obtain l' where
    "apply_charges chs l = Some l'" "ledger_ok l'" "conserved l'"
    "(\<forall>ch\<in>set chs. ChAsset ch \<noteq> '''') \<longrightarrow> (\<forall>b. held l' b = held l b)"
    by (auto simp: planned_def)
  with Some r pl show ?thesis by (fastforce simp: chargeCollateralInterest_def charge_key_def)
qed

section \<open>Isolated margin and deposits\<close>

lemma perp_log_step:
  assumes l: "ledger_ok l" "conserved l" and c: "map_of (Clients l) i = Some c" and f: "fits c a x"
    and upd: "PerpBalances c' = madd (PerpBalances c) a x" "Balances c' = Balances c" "Borrowed c' = Borrowed c"
  shows "ledger_ok (logBalanceChange [perpDelta a (mget (PerpBalances c) a) (mget (PerpBalances c') a)] (set_client i c' l)) \<and>
    conserved (logBalanceChange [perpDelta a (mget (PerpBalances c) a) (mget (PerpBalances c') a)] (set_client i c' l))"
proof -
  let ?cs = "[perpDelta a (mget (PerpBalances c) a) (mget (PerpBalances c) a + x)]"
  note d = delta_effect [OF fits_bound [OF f]]
  have maps: "client_maps c'"
    using ledger_client [OF l(1) c] upd by (simp add: client_maps_def values_ok_madd)
  have "deltas_ok ?cs" "worth b c' = worth b c + effect ?cs b" for b
    by (simp_all add: d worth_def upd fits_madd [OF f] del: effect_simps(2))
  from log_update [OF l c this(1) maps this(2)] show ?thesis by (simp add: upd fits_madd [OF f])
qed

lemma isolated_step:
  assumes l: "ledger_ok l" "conserved l"
    and f: "\<And>c. map_of (Clients l) i = Some c \<Longrightarrow> fits c a x"
    and run: "AllocateCollateralToPosition i symbol a x l = Inr l' \<or> ReleaseCollateralFromPosition i symbol a x l = Inr l'"
  shows "ledger_ok l' \<and> conserved l'"
proof -
  obtain c where c: "map_of (Clients l) i = Some c"
    using run by (auto simp: AllocateCollateralToPosition_def ReleaseCollateralFromPosition_def split: option.splits)
  have fm: "fits c a (- x)" using fits_mono [OF f [OF c]] by simp
  from run c consider
      (alloc) ip where "l' = logBalanceChange
          [perpDelta a (mget (PerpBalances c) a) (mget (madd (PerpBalances c) a (- x)) a)]
          (set_client i (c\<lparr>PerpBalances := madd (PerpBalances c) a (- x), IsolatedPositions := ip\<rparr>) l)"
    | (rel) ip where "l' = logBalanceChange
          [perpDelta a (mget (PerpBalances c) a) (mget (madd (PerpBalances c) a x) a)]
          (set_client i (c\<lparr>IsolatedPositions := ip, PerpBalances := madd (PerpBalances c) a x\<rparr>) l)"
    by (auto simp: AllocateCollateralToPosition_def ReleaseCollateralFromPosition_def Let_def
        split: if_splits option.splits)
  then show ?thesis
    using perp_log_step [OF l c fm] perp_log_step [OF l c f [OF c]] by cases (simp_all del: mget_mput)
qed

lemma deposit_client:
  assumes "is_map m" "values_ok m" "distinct as" "set as \<subseteq> fst ` set m"
  shows "\<exists>b. foldl (\<lambda>c a. AddBalance c a (mget m a)) (NewClient i) as = (NewClient i)\<lparr>Balances := b\<rparr> \<and>
    values_ok b \<and> (\<forall>a. mget b a = (if a \<in> set as then mget m a else 0))"
  using assms(3,4)
proof (induction "as" rule: rev_induct)
  case Nil
  have "NewClient i = (NewClient i)\<lparr>Balances := []\<rparr>" by (simp add: NewClient_def)
  then show ?case by (auto intro!: exI [of _ "[]"] simp: values_ok_def)
next
  case (snoc x xs)
  then obtain b where b: "foldl (\<lambda>c a. AddBalance c a (mget m a)) (NewClient i) xs = (NewClient i)\<lparr>Balances := b\<rparr>"
    "values_ok b" "\<forall>a. mget b a = (if a \<in> set xs then mget m a else 0)" by auto
  have "i64 (mget m x) = mget m x" using values_ok_mget [OF assms(2)] by (rule i64_id)
  with b snoc.prems show ?case
    by (auto simp: AddBalance_def values_ok_madd mget_madd intro!: exI [of _ "madd b x (mget m x)"])
qed

lemma deposit_effect:
  assumes "distinct as" "\<forall>a\<in>set as. \<bar>mget m a\<bar> \<le> MaxInt64"
  shows "deltas_ok (map (\<lambda>a. spotDelta a 0 (mget m a)) as) \<and>
    effect (map (\<lambda>a. spotDelta a 0 (mget m a)) as) b = (if b \<in> set as then mget m b else 0)"
  using assms
proof (induction "as")
  case (Cons a "as")
  then have "\<bar>mget m a\<bar> \<le> MaxInt64" by simp
  note d = delta_effect(1,7) [OF this, where v = 0, unfolded add_0_left]
  from Cons show ?case by (auto simp: d simp del: effect_simps(2))
qed (simp add: deltas_ok_def)

lemma Connect_step:
  assumes l: "ledger_ok l" "conserved l" and m: "values_ok m" "\<forall>a. \<bar>mget m a\<bar> \<le> MaxInt64"
  shows "ledger_ok (ConnectNewClient refused i m l) \<and> conserved (ConnectNewClient refused i m l)"
proof (cases refused)
  case True
  with l show ?thesis by (simp add: ConnectNewClient_def)
next
  case go: False
  show ?thesis
  proof (cases "map_of (Clients l) i")
  case (Some c)
  with l show ?thesis by (simp add: ConnectNewClient_def)
next
  case None
  have im: "is_map m" using m(1) by (simp add: values_ok_def)
  obtain b where b: "foldl (\<lambda>c a. AddBalance c a (mget m a)) (NewClient i) (mkeys m) = (NewClient i)\<lparr>Balances := b\<rparr>"
    "values_ok b" "\<forall>a. mget b a = (if a \<in> fst ` set m then mget m a else 0)"
    using deposit_client [OF im m(1) mkeys_distinct [OF im], of i] by auto
  let ?c = "(NewClient i)\<lparr>Balances := b\<rparr>" and ?cs = "map (\<lambda>a. spotDelta a 0 (mget m a)) (mkeys m)"
  have maps: "client_maps ?c" using b(2) by (simp add: client_maps_def NewClient_def values_ok_def debts_ok_def)
  have e: "deltas_ok ?cs" "effect ?cs a = (if a \<in> fst ` set m then mget m a else 0)" for a
    using deposit_effect [OF mkeys_distinct [OF im], of m a] m(2) by auto
  have "worth a ?c = old_worth l i a + effect ?cs a" for a
    using None b(3) unfolding e by (simp add: worth_def old_worth_def NewClient_def)
  from log_client_step [OF l e(1) maps this] show ?thesis
    using None go b(1) by (simp add: ConnectNewClient_def Let_def)
  qed
qed

section \<open>The ledger as a state machine\<close>

text \<open>The operations of the accounts themselves: connecting, deposits, transfers, borrowing and repayment, isolated collateral, the moves of the
  venue's own balances and interest, each where its sums stay representable. Order reservations, fills, funding, liquidation and expiry are not
  steps of this machine; what each of them keeps of the ledger is shown in its own theory.\<close>

inductive ledger_step :: "Ledger \<Rightarrow> Ledger \<Rightarrow> bool" where
  connect: "values_ok m \<Longrightarrow> \<forall>a. \<bar>mget m a\<bar> \<le> MaxInt64 \<Longrightarrow> ledger_step l (ConnectNewClient refused i m l)"
| deposit: "(\<And>c. map_of (Clients l) i = Some c \<Longrightarrow> fits c a x) \<Longrightarrow> ledger_step l (AddPerpBalance i a x l)"
| transfer: "map_of (Clients l) i = Some c \<Longrightarrow> fits c a x \<Longrightarrow> Transfer i w w' a x l = Inr l' \<Longrightarrow> ledger_step l l'"
| borrow: "map_of (Clients l) i = Some c \<Longrightarrow> fits c a x \<Longrightarrow> BorrowMargin cfg i spot a x l = Inr l' \<Longrightarrow>
    ledger_step l l'"
| repay: "map_of (Clients l) i = Some c \<Longrightarrow> fits c a (mget (Borrowed c) a) \<Longrightarrow> RepayMargin i a x l = Inr l' \<Longrightarrow>
    ledger_step l l'"
| isolate: "(\<And>c. map_of (Clients l) i = Some c \<Longrightarrow> fits c a x) \<Longrightarrow>
    AllocateCollateralToPosition i symbol a x l = Inr l' \<Longrightarrow> ledger_step l l'"
| release: "(\<And>c. map_of (Clients l) i = Some c \<Longrightarrow> fits c a x) \<Longrightarrow>
    ReleaseCollateralFromPosition i symbol a x l = Inr l' \<Longrightarrow> ledger_step l l'"
| venue: "is_i64 x \<Longrightarrow> moveVenueBalance bucket a x symbol l = Some l' \<Longrightarrow> ledger_step l l'"
| interest: "is_i64 rate \<Longrightarrow> chargeCollateralInterest rate l = Charged l' \<Longrightarrow> ledger_step l l'"

definition empty_ledger :: Ledger where
  "empty_ledger = \<lparr>Clients = [], ExBal = \<lparr>FeeRevenue = [], InsuranceFund = [], FundingRoundingReserves = []\<rparr>,
     venueBalanceSequence = 0, conservation = newConservationTracker\<rparr>"

lemma empty_ledger_ok: "ledger_ok empty_ledger \<and> conserved empty_ledger"
  using tracker_ok_new
  by (simp add: ledger_ok_def conserved_def empty_ledger_def values_ok_def held_def) (simp add: newConservationTracker_def)

lemma ledger_step_ok:
  assumes "ledger_step l l'" "ledger_ok l" "conserved l"
  shows "ledger_ok l' \<and> conserved l'"
  using assms
proof (induction rule: ledger_step.induct)
  case (connect m l refused i)
  then show ?case by (intro Connect_step)
next
  case (deposit l i a x)
  then show ?case by (intro AddPerpBalance_step)
next
  case (transfer l i c a x w w' l')
  then show ?case using Transfer_step by blast
next
  case (borrow l i c a x cfg spot l')
  then show ?case using BorrowMargin_step by blast
next
  case (repay l i c a x l')
  then show ?case using RepayMargin_step by blast
next
  case (isolate l i a x symbol l')
  then show ?case by (intro isolated_step [where i = i and a = a and x = x and symbol = symbol and l = l]) auto
next
  case (release l i a x symbol l')
  then show ?case by (intro isolated_step [where i = i and a = a and x = x and symbol = symbol and l = l]) auto
next
  case (venue x bucket a symbol l l')
  then show ?case using moveVenueBalance_step [of l "\<lambda>_. 0" x bucket a symbol l'] by (simp add: conserved_iff)
next
  case (interest rate l l')
  then show ?case using interest_sweep [of l rate] by simp
qed

lemma reachable_ledger: "ledger_step\<^sup>*\<^sup>* empty_ledger l \<Longrightarrow> ledger_ok l \<and> conserved l"
  by (induction rule: rtranclp_induct) (auto simp: empty_ledger_ok ledger_step_ok)

section \<open>Properties\<close>

text \<open>C16: the conservation audit never raises a false alarm. In every state reachable from the
  empty ledger by deposits, transfers, loans, repayments, isolated-margin moves, venue
  movements and interest sweeps, the recorded movements of each asset explain exactly what
  the accounts and the venue hold, so the verification reports nothing.\<close>

theorem reachable_ledger_conserved:
  assumes "ledger_step\<^sup>*\<^sup>* empty_ledger l"
  shows "VerifyConservation l = [] \<and>
    (\<forall>a. \<not> flagged (unrepresentable (conservation l)) a \<longrightarrow> mget (recorded (conservation l)) a = held l a)"
  using reachable_ledger [OF assms] conserved_verifies by (auto simp: conserved_def)

definition funded_ledger :: Ledger where
  "funded_ledger = ConnectNewClient False 7 [(''USD'', 1000)] empty_ledger"

lemma funded_step: "ledger_step empty_ledger funded_ledger"
  unfolding funded_ledger_def by (intro ledger_step.connect) (auto simp: values_ok_def is_map_def is_i64_def mget_def)

theorem reachable_ledger_conserved_witness:
  "\<exists>l. Transfer 7 ''spot'' ''perp'' ''USD'' 300 funded_ledger = Inr l \<and> VerifyConservation l = [] \<and>
     mget (recorded (conservation l)) ''USD'' = 1000"
proof -
  let ?r = "Transfer 7 ''spot'' ''perp'' ''USD'' 300 funded_ledger"
  have "case map_of (Clients funded_ledger) 7 of None \<Rightarrow> False | Some c \<Rightarrow> fits c ''USD'' 300" by code_simp
  then obtain c where c: "map_of (Clients funded_ledger) 7 = Some c" "fits c ''USD'' 300"
    by (cases "map_of (Clients funded_ledger) 7") auto
  have "(case ?r of Inl _ \<Rightarrow> False | Inr l \<Rightarrow> mget (recorded (conservation l)) ''USD'' = 1000)" by code_simp
  then obtain l where l: "?r = Inr l" "mget (recorded (conservation l)) ''USD'' = 1000" by (cases ?r) auto
  from ledger_step.transfer [OF c l(1)] funded_step have "ledger_step\<^sup>*\<^sup>* empty_ledger l"
    by (meson converse_rtranclp_into_rtranclp r_into_rtranclp)
  from reachable_ledger_conserved [OF this] l show ?thesis by blast
qed

text \<open>The conservation audit is exact. For an asset whose sums stay representable, it
  reports a violation exactly when what the accounts and the venue really hold differs from
  the recorded movements, and a reported entry carries both figures unrounded.\<close>

theorem VerifyConservation_exact:
  assumes "ledger_ok l" "\<not> flagged (unrepresentable (conservation l)) a"
    "\<not> flagged (unrepresentable (accumulate (holdings l) newConservationTracker)) a"
  shows "((\<exists>v\<in>set (VerifyConservation l). VAsset v = a) \<longleftrightarrow> held l a \<noteq> mget (recorded (conservation l)) a) \<and>
    (\<forall>v\<in>set (VerifyConservation l). VAsset v = a \<longrightarrow>
       VHeld v = held l a \<and> VRecorded v = mget (recorded (conservation l)) a)"
  using VerifyConservation_mem [OF assms(1)] VerifyConservation_complete [OF assms] by metis

definition skewed_ledger :: Ledger where
  "skewed_ledger = set_client 7 ((NewClient 7)\<lparr>Balances := [(''USD'', 990)]\<rparr>) funded_ledger"

theorem VerifyConservation_exact_witness:
  "\<exists>v\<in>set (VerifyConservation skewed_ledger). VAsset v = ''USD'' \<and> VHeld v = held skewed_ledger ''USD'' \<and> VRecorded v = 1000"
proof -
  have "ledger_ok skewed_ledger"
    using ledger_step_ok [OF funded_step] empty_ledger_ok unfolding skewed_ledger_def
    by (intro set_client_step(1) [where g = "\<lambda>_. 0"])
      (auto simp: conserved_iff client_maps_def NewClient_def values_ok_def debts_ok_def is_map_def is_i64_def)
  moreover have "\<not> flagged (unrepresentable (conservation skewed_ledger)) ''USD''"
    "\<not> flagged (unrepresentable (accumulate (holdings skewed_ledger) newConservationTracker)) ''USD''"
    by code_simp+
  moreover have "VerifyConservation skewed_ledger = [\<lparr>VAsset = ''USD'', VRecorded = 1000, VHeld = 990, VGap = - 10\<rparr>]"
    by code_simp
  ultimately show ?thesis using VerifyConservation_exact [of skewed_ledger "''USD''"] by simp
qed

text \<open>The interest sweep is atomic and zero-sum. Once the planning pass accepts, applying
  the charges cannot fail, and for every asset the amount leaving the two wallets of the
  debtors is exactly the amount credited to the venue.\<close>

theorem interest_zero_sum:
  assumes "ledger_ok l" "conserved l" "is_i64 rate" "\<forall>(i, a)\<in>set (debt_keys l). a \<noteq> ''''"
  shows "case chargeCollateralInterest rate l of InterestArithmetic \<Rightarrow> True | InterestPanic \<Rightarrow> False
    | Charged l' \<Rightarrow> (\<forall>a. held l' a = held l a) \<and> VerifyConservation l' = []"
  using interest_sweep [OF assms(1-3)] assms(4) conserved_verifies
  by (auto split: interest_outcome.splits)

definition loan_config :: BorrowingConfig where
  "loan_config = \<lparr>Enabled = True, BorrowRates = [], MaxBorrowPerAsset = [], AssetPrecisions = [(''USD'', 100)],
     PriceSource = Some (\<lambda>a. if a = ''USD'' then Some 100 else None), scaled = (\<lambda>a x. x), factor_zero = (\<lambda>a. False)\<rparr>"

definition debtor_ledger :: Ledger where
  "debtor_ledger = (case BorrowMargin loan_config 7 True ''USD'' 52560000000
       (ConnectNewClient False 7 [(''USD'', 1000000000000)] empty_ledger) of Inr l \<Rightarrow> l | Inl _ \<Rightarrow> empty_ledger)"

lemma debtor_ledger_reachable: "ledger_step\<^sup>*\<^sup>* empty_ledger debtor_ledger"
proof -
  let ?l = "ConnectNewClient False 7 [(''USD'', 1000000000000)] empty_ledger"
  let ?r = "BorrowMargin loan_config 7 True ''USD'' 52560000000 ?l"
  have s: "ledger_step empty_ledger ?l"
    by (intro ledger_step.connect) (auto simp: values_ok_def is_map_def is_i64_def mget_def)
  have "case map_of (Clients ?l) 7 of None \<Rightarrow> False | Some c \<Rightarrow> fits c ''USD'' 52560000000" by code_simp
  then obtain c where c: "map_of (Clients ?l) 7 = Some c" "fits c ''USD'' 52560000000"
    by (cases "map_of (Clients ?l) 7") auto
  have "isl ?r = False" by code_simp
  then obtain l where l: "?r = Inr l" by (cases ?r) auto
  from ledger_step.borrow [OF c l] s l show ?thesis unfolding debtor_ledger_def
    by (auto intro: converse_rtranclp_into_rtranclp)
qed

theorem interest_zero_sum_witness:
  "case chargeCollateralInterest 500 debtor_ledger of InterestArithmetic \<Rightarrow> False | InterestPanic \<Rightarrow> False
   | Charged l' \<Rightarrow> held l' ''USD'' = held debtor_ledger ''USD'' \<and> mget (FeeRevenue (ExBal l')) ''USD'' = 5000"
proof -
  have "case chargeCollateralInterest 500 debtor_ledger of InterestArithmetic \<Rightarrow> False | InterestPanic \<Rightarrow> False
   | Charged l' \<Rightarrow> mget (FeeRevenue (ExBal l')) ''USD'' = 5000" by code_simp
  moreover have "\<forall>(i, a)\<in>set (debt_keys debtor_ledger). a \<noteq> ''''" by code_simp
  ultimately show ?thesis
    using interest_zero_sum [of debtor_ledger 500] reachable_ledger [OF debtor_ledger_reachable]
    by (auto simp: is_i64_def split: interest_outcome.splits)
qed

text \<open>Releasing isolated collateral has no sign check. Allocating refuses a non-positive
  amount and one above the available perp balance; releasing the negated amount is accepted
  in every margin mode and has the allocation's effect on both maps, whatever is available
  in the perp wallet.\<close>

theorem release_negative_unchecked:
  assumes "map_of (Clients l) i = Some c" "map_of (IsolatedPositions c) s = Some ip"
    "0 \<le> mget (Collateral ip) a" "0 < x"
  shows "\<exists>c'. ReleaseCollateralFromPosition i s a (- x) l = Inr (logBalanceChange
      [perpDelta a (mget (PerpBalances c) a) (mget (PerpBalances c') a)] (set_client i c' l)) \<and>
    mget (PerpBalances c') a = i64 (mget (PerpBalances c) a - x) \<and> PerpReserved c' = PerpReserved c \<and>
    map_of (IsolatedPositions c') s = Some (ip\<lparr>Collateral := madd (Collateral ip) a x\<rparr>)"
  using assms by (intro exI [of _ "c\<lparr>IsolatedPositions := mput (IsolatedPositions c) s
      (ip\<lparr>Collateral := madd (Collateral ip) a x\<rparr>), PerpBalances := madd (PerpBalances c) a (- x)\<rparr>"])
    (simp add: ReleaseCollateralFromPosition_def Let_def mget_madd)

definition isolated_ledger :: Ledger where
  "isolated_ledger = empty_ledger\<lparr>Clients := [(7, (NewClient 7)\<lparr>PerpBalances := [(''USD'', 50)],
     PerpReserved := [(''USD'', 50)], IsolatedPositions := [(''P'', newIsolated ''P'')]\<rparr>)]\<rparr>"

theorem release_negative_unchecked_witness:
  "\<exists>c l'. map_of (Clients isolated_ledger) 7 = Some c \<and> PerpAvailable c ''USD'' = 0 \<and>
     ReleaseCollateralFromPosition 7 ''P'' ''USD'' (- 80) isolated_ledger = Inr l' \<and>
     (\<exists>c'. map_of (Clients l') 7 = Some c' \<and> mget (PerpBalances c') ''USD'' = - 30)"
proof -
  let ?c = "(NewClient 7)\<lparr>PerpBalances := [(''USD'', 50)],
     PerpReserved := [(''USD'', 50)], IsolatedPositions := [(''P'', newIsolated ''P'')]\<rparr>"
  have c: "map_of (Clients isolated_ledger) 7 = Some ?c" by (simp add: isolated_ledger_def)
  have "PerpAvailable ?c ''USD'' = 0" by code_simp
  moreover have "i64 (mget (PerpBalances ?c) ''USD'' - 80) = - 30" by code_simp
  ultimately show ?thesis
    using c release_negative_unchecked [OF c, of "''P''" "newIsolated ''P''" "''USD''" 80]
    by (auto simp: newIsolated_def logBalanceChange_def set_client_def)
qed

end
