(* ===== verification/Position_Accounting.thy ===== *)
theory Position_Accounting
  imports Order_Types
begin

text \<open>
  The exact cost basis of one linear position (\<open>exchange/position_accounting.go\<close>). The
  \<open>big.Int\<close> fields are unbounded integers, the \<open>int64\<close> fields are read back through their
  width. A trade can be refused (\<open>0, false\<close>), panic, or succeed.
\<close>

datatype 'a outcome = Refused | Panicked | Done 'a

record positionAccounting =
  acc_size :: int64
  basisNumerator :: int
  realizedNumerator :: int
  realizedCash :: int64
  carryNumerator :: int64

definition newPositionAccounting :: positionAccounting where
  "newPositionAccounting = \<lparr>acc_size = 0, basisNumerator = 0, realizedNumerator = 0,
     realizedCash = 0, carryNumerator = 0\<rparr>"

definition abs64 :: "int64 \<Rightarrow> int64" where
  "abs64 x = (if x < 0 then i64 (- x) else x)"

definition truncateNumerator :: "int \<Rightarrow> int64 \<Rightarrow> int64 option" where
  "truncateNumerator numerator precision =
     (if precision \<le> 0 then None
      else let quotient = numerator sdiv precision
           in if is_i64 quotient then Some quotient else None)"

definition resetCurrentLifecycle :: "positionAccounting \<Rightarrow> positionAccounting" where
  "resetCurrentLifecycle a = a\<lparr>acc_size := 0, basisNumerator := 0, realizedNumerator := 0, realizedCash := 0\<rparr>"

text \<open>\<open>None\<close> is a panic.\<close>

definition finishLifecycle :: "positionAccounting \<Rightarrow> int \<Rightarrow> int64 \<Rightarrow> int64 \<Rightarrow> positionAccounting option" where
  "finishLifecycle a totalNumerator targetCash precision =
     (if precision \<le> 0 then None
      else let residual = totalNumerator - targetCash * precision
           in if is_i64 residual then Some (resetCurrentLifecycle (a\<lparr>carryNumerator := residual\<rparr>)) else None)"

definition addBasis :: "int64 \<Rightarrow> int64 \<Rightarrow> positionAccounting \<Rightarrow> positionAccounting" where
  "addBasis quantity price a = a\<lparr>basisNumerator := basisNumerator a + quantity * price\<rparr>"

definition signed_qty :: "Side \<Rightarrow> int64 \<Rightarrow> int64" where
  "signed_qty side quantity = (if side = Sell then i64 (- quantity) else quantity)"

definition applyTrade :: "positionAccounting \<Rightarrow> int64 \<Rightarrow> int64 \<Rightarrow> int64 \<Rightarrow> Side \<Rightarrow> int64 \<Rightarrow>
    (positionAccounting \<times> int64) outcome" where
  "applyTrade a oldSize quantity price tradeSide precision =
     (if quantity \<le> 0 \<or> precision \<le> 0 \<or> acc_size a \<noteq> oldSize then Refused
      else let delta = signed_qty tradeSide quantity
      in if oldSize = 0
         then Done ((addBasis delta price (resetCurrentLifecycle a))\<lparr>acc_size := delta\<rparr>, 0)
         else if oldSize > 0 \<and> delta > 0 \<or> oldSize < 0 \<and> delta < 0
         then Done ((addBasis delta price a)\<lparr>acc_size := i64 (oldSize + delta)\<rparr>, 0)
         else
           let oldMagnitude = abs64 oldSize;
               deltaMagnitude = abs64 delta;
               newSize = i64 (oldSize + delta);
               newMagnitude = abs64 newSize;
               oldBasis = basisNumerator a;
               sameDirection = (oldSize > 0 \<and> newSize > 0 \<or> oldSize < 0 \<and> newSize < 0);
               newBasis = (if sameDirection then (oldBasis * newMagnitude) sdiv oldMagnitude else 0);
               realizedDelta = (if sameDirection then delta else i64 (- oldSize));
               tradeValue = realizedDelta * price;
               realized = realizedNumerator a + (newBasis - oldBasis - tradeValue);
               totalRealized = realized + carryNumerator a
           in case truncateNumerator totalRealized precision of
                None \<Rightarrow> Panicked
              | Some targetCash \<Rightarrow>
             (case TrySub targetCash (realizedCash a) of
                None \<Rightarrow> Panicked
              | Some cash \<Rightarrow>
                  let a1 = a\<lparr>realizedNumerator := realized, realizedCash := targetCash\<rparr>
                  in if newMagnitude = 0
                     then (case finishLifecycle a1 totalRealized targetCash precision of
                             None \<Rightarrow> Panicked | Some a2 \<Rightarrow> Done (a2, cash))
                     else if deltaMagnitude > oldMagnitude
                     then (case finishLifecycle a1 totalRealized targetCash precision of
                             None \<Rightarrow> Panicked
                           | Some a2 \<Rightarrow> Done ((addBasis newSize price a2)\<lparr>acc_size := newSize\<rparr>, cash))
                     else Done (a1\<lparr>basisNumerator := newBasis, acc_size := newSize\<rparr>, cash)))"

definition entryPrice :: "positionAccounting \<Rightarrow> int64 option" where
  "entryPrice a =
     (if acc_size a = 0 then Some 0
      else let price = basisNumerator a sdiv acc_size a
           in if is_i64 price then Some price else None)"

definition unrealizedPnL :: "positionAccounting \<Rightarrow> int64 \<Rightarrow> int64 \<Rightarrow> int64 option" where
  "unrealizedPnL a markPrice precision =
     (let markedValue = acc_size a * markPrice - basisNumerator a;
          totalNumerator = realizedNumerator a + markedValue + carryNumerator a
      in Option.bind (truncateNumerator totalNumerator precision)
           (\<lambda>targetCash. TrySub targetCash (realizedCash a)))"

definition floorQuotient :: "int \<Rightarrow> int \<Rightarrow> int" where
  "floorQuotient numerator denominator =
     (let quotient = numerator sdiv denominator; remainder = numerator smod denominator
      in if sgn remainder \<noteq> 0 \<and> sgn numerator \<noteq> sgn denominator then quotient - 1 else quotient)"

definition ceilQuotient :: "int \<Rightarrow> int \<Rightarrow> int" where
  "ceilQuotient numerator denominator =
     (let quotient = numerator sdiv denominator; remainder = numerator smod denominator
      in if sgn remainder \<noteq> 0 \<and> sgn numerator = sgn denominator then quotient + 1 else quotient)"

definition equityAt :: "positionAccounting \<Rightarrow> int64 \<Rightarrow> int64 \<Rightarrow> int64 \<Rightarrow> int64 option" where
  "equityAt a netBalance precision markPrice =
     Option.bind (unrealizedPnL a markPrice precision) (TryAdd netBalance)"

definition liquidation_mark :: "positionAccounting \<Rightarrow> int64 \<Rightarrow> int64 \<Rightarrow> int" where
  "liquidation_mark a netBalance precision =
     (let q = realizedCash a - netBalance;
          threshold = (if q \<ge> 0 then (q + 1) * precision - 1 else q * precision);
          constant = realizedNumerator a - basisNumerator a + carryNumerator a;
          numerator = threshold - constant;
          denominator = acc_size a
      in if acc_size a > 0 then floorQuotient numerator denominator else ceilQuotient numerator denominator)"

definition liquidationPrice :: "positionAccounting \<Rightarrow> int64 \<Rightarrow> int64 \<Rightarrow> int64 option" where
  "liquidationPrice a netBalance precision =
     (if acc_size a = 0 \<or> precision \<le> 0 then None
      else
        let candidate = liquidation_mark a netBalance precision
        in if \<not> is_i64 candidate then None
           else if acc_size a > 0
           then (case equityAt a netBalance precision candidate of
                   None \<Rightarrow> None
                 | Some equity \<Rightarrow>
                     if equity > 0 then None
                     else if candidate = MaxInt64 then Some candidate
                     else case equityAt a netBalance precision (i64 (candidate + 1)) of
                       None \<Rightarrow> None
                     | Some nextEquity \<Rightarrow> if nextEquity > 0 then Some candidate else None)
           else (case equityAt a netBalance precision candidate of
                   None \<Rightarrow> None
                 | Some equity \<Rightarrow>
                     if equity > 0 then None
                     else if candidate = MinInt64 then Some candidate
                     else case equityAt a netBalance precision (i64 (candidate - 1)) of
                       None \<Rightarrow> None
                     | Some previousEquity \<Rightarrow> if previousEquity > 0 then Some candidate else None))"

section \<open>The guarded transition\<close>

definition supportsExactPositionTransition :: "int64 \<Rightarrow> int64 \<Rightarrow> Side \<Rightarrow> PositionSide \<Rightarrow> bool" where
  "supportsExactPositionTransition oldSize quantity tradeSide posSide =
     (if quantity \<le> 0 \<or> quantity = MinInt64 \<or> oldSize = MinInt64 then False
      else case TryAdd oldSize (signed_qty tradeSide quantity) of
        None \<Rightarrow> False
      | Some newSize \<Rightarrow>
          if newSize = MinInt64 then False
          else if posSide = PositionLong \<and> (oldSize < 0 \<or> newSize < 0) then False
          else if posSide = PositionShort \<and> (oldSize > 0 \<or> newSize > 0) then False
          else True)"

text \<open>The dry run: a candidate state, the realized cash and the new display entry price. A
  panic of the accounting is recovered and reported as \<open>None\<close> like a refusal. The state is
  absent for a position that never had one.\<close>

definition prepareExactTransition :: "positionAccounting option \<Rightarrow> int64 \<Rightarrow> int64 \<Rightarrow> int64 \<Rightarrow> Side \<Rightarrow>
    PositionSide \<Rightarrow> int64 \<Rightarrow> (positionAccounting \<times> int64 \<times> int64) option" where
  "prepareExactTransition state oldSize quantity price tradeSide posSide precision =
     (if \<not> supportsExactPositionTransition oldSize quantity tradeSide posSide then None
      else
        case (case state of
                None \<Rightarrow> if oldSize \<noteq> 0 then None else Some newPositionAccounting
              | Some a \<Rightarrow> if acc_size a \<noteq> oldSize then None else Some a) of
          None \<Rightarrow> None
        | Some candidate \<Rightarrow>
            (case applyTrade candidate oldSize quantity price tradeSide precision of
               Refused \<Rightarrow> None
             | Panicked \<Rightarrow> None
             | Done (a', realizedPnL) \<Rightarrow>
                 map_option (\<lambda>entry. (a', realizedPnL, entry)) (entryPrice a')))"

section \<open>The invariant and the exact value\<close>

definition acc_ok :: "int64 \<Rightarrow> positionAccounting \<Rightarrow> bool" where
  "acc_ok P a \<longleftrightarrow> 0 < P \<and> is_i64 (acc_size a) \<and> acc_size a \<noteq> MinInt64 \<and> is_i64 (realizedCash a) \<and>
     realizedCash a = (realizedNumerator a + carryNumerator a) sdiv P \<and>
     (acc_size a = 0 \<longrightarrow> basisNumerator a = 0 \<and> realizedNumerator a = 0 \<and> realizedCash a = 0)"

lemma acc_okD:
  assumes "acc_ok P a"
  shows "0 < P" "is_i64 (acc_size a)" "is_i64 (realizedCash a)" "acc_size a \<noteq> MinInt64"
    "realizedCash a = (realizedNumerator a + carryNumerator a) sdiv P"
  using assms unfolding acc_ok_def by blast+

text \<open>Everything the account has realized in the price-quantity lattice, less the cash already
  paid out for it and less the cost of what is open.\<close>

definition exact_value :: "int64 \<Rightarrow> positionAccounting \<Rightarrow> int" where
  "exact_value P a = realizedNumerator a + carryNumerator a - P * realizedCash a - basisNumerator a"

lemma sdiv_smod_eq: "a = b * (a sdiv b) + a smod b" for a b :: int
  by (simp add: mult_sdiv_smod_eq)

lemma smod_sdiv_zero: "0 < b \<Longrightarrow> (a smod b) sdiv b = 0" for a b :: int
  using abs_smod_less [of b a] by (auto simp: sdiv_by_sign)

lemma small_sdiv: "0 < b \<Longrightarrow> a sdiv b = 0 \<longleftrightarrow> \<bar>a\<bar> < b" for a b :: int
  by (auto simp: sdiv_by_sign zdiv_eq_0_iff split: if_splits)

lemma truncateNumerator_eq:
  "0 < P \<Longrightarrow> truncateNumerator n P = (if is_i64 (n sdiv P) then Some (n sdiv P) else None)"
  by (simp add: truncateNumerator_def Let_def)

lemma signed_qty_eq:
  "0 < q \<Longrightarrow> is_i64 q \<Longrightarrow> signed_qty s q = (if s = Sell then - q else q)"
  by (auto simp: signed_qty_def is_i64_def intro!: i64_id)

lemma abs64_eq: "is_i64 x \<Longrightarrow> x \<noteq> MinInt64 \<Longrightarrow> abs64 x = \<bar>x\<bar>"
  by (auto simp: abs64_def is_i64_def intro!: i64_id)

lemma finishLifecycle_eq:
  assumes "0 < P" "P \<le> MaxInt64" "t = n sdiv P"
  shows "finishLifecycle a n t P = Some (resetCurrentLifecycle (a\<lparr>carryNumerator := n smod P\<rparr>))"
proof -
  have "n - t * P = n smod P" using sdiv_smod_eq [of n P] assms(3) by (simp add: mult.commute)
  moreover have "is_i64 (n smod P)" using abs_smod_less [of P n] assms by (auto simp: is_i64_def)
  ultimately show ?thesis using assms by (simp add: finishLifecycle_def)
qed

lemma acc_ok_new: "0 < P \<Longrightarrow> acc_ok P newPositionAccounting"
  by (simp add: acc_ok_def newPositionAccounting_def is_i64_def)

lemma exact_value_new: "exact_value P newPositionAccounting = 0"
  by (simp add: exact_value_def newPositionAccounting_def)

text \<open>The rounding the account carries is always below one cash unit.\<close>

lemma rounding_bound:
  assumes "acc_ok P a"
  shows "\<bar>realizedNumerator a + carryNumerator a - P * realizedCash a\<bar> < P"
  using assms sdiv_smod_eq [of "realizedNumerator a + carryNumerator a" P]
    abs_smod_less [of P "realizedNumerator a + carryNumerator a"]
  by (auto simp: acc_ok_def)

definition trade_ok :: "positionAccounting \<Rightarrow> int64 \<Rightarrow> Side \<Rightarrow> bool" where
  "trade_ok a q s \<longleftrightarrow> 0 < q \<and> is_i64 q \<and> is_i64 (acc_size a + signed_qty s q) \<and>
     acc_size a + signed_qty s q \<noteq> MinInt64"

text \<open>The exact realized numerator of a trade that does not grow the position.\<close>

definition reduced_basis :: "positionAccounting \<Rightarrow> int \<Rightarrow> int" where
  "reduced_basis a d =
     (if 0 < acc_size a * (acc_size a + d)
      then basisNumerator a * \<bar>acc_size a + d\<bar> sdiv \<bar>acc_size a\<bar> else 0)"

definition closing_numerator :: "positionAccounting \<Rightarrow> int \<Rightarrow> int64 \<Rightarrow> int" where
  "closing_numerator a d p = realizedNumerator a + carryNumerator a + reduced_basis a d - basisNumerator a
     - (if 0 < acc_size a * (acc_size a + d) then d else - acc_size a) * p"

definition closed_state :: "int64 \<Rightarrow> positionAccounting \<Rightarrow> int \<Rightarrow> int64 \<Rightarrow> positionAccounting" where
  "closed_state P a d p =
     (let n = closing_numerator a d p; m = acc_size a + d
      in if 0 < acc_size a * m
         then a\<lparr>acc_size := m, basisNumerator := reduced_basis a d,
                realizedNumerator := n - carryNumerator a, realizedCash := n sdiv P\<rparr>
         else \<lparr>acc_size = m, basisNumerator = m * p, realizedNumerator = 0, realizedCash = 0,
               carryNumerator = n smod P\<rparr>)"

lemma opposite_signs:
  fixes x d :: int
  assumes "x * d < 0"
  shows "x \<noteq> 0" "\<not> (x > 0 \<and> d > 0 \<or> x < 0 \<and> d < 0)"
    "(x > 0 \<and> x + d > 0 \<or> x < 0 \<and> x + d < 0) \<longleftrightarrow> 0 < x * (x + d)"
    "\<bar>d\<bar> > \<bar>x\<bar> \<longleftrightarrow> x * (x + d) < 0" "\<bar>x + d\<bar> = 0 \<longleftrightarrow> x * (x + d) = 0"
  using assms by (auto simp: mult_less_0_iff zero_less_mult_iff)

lemma applyTrade_close:
  assumes ok: "acc_ok P a" "P \<le> MaxInt64" and t: "trade_ok a q s" and opp: "acc_size a * signed_qty s q < 0"
  defines "d \<equiv> signed_qty s q"
  shows "applyTrade a (acc_size a) q p s P =
    (let n = closing_numerator a d p
     in if is_i64 (n sdiv P)
        then case TrySub (n sdiv P) (realizedCash a) of
               None \<Rightarrow> Panicked | Some cash \<Rightarrow> Done (closed_state P a d p, cash)
        else Panicked)"
proof -
  let ?x = "acc_size a" and ?n = "closing_numerator a d p"
  have P: "0 < P" and x: "is_i64 ?x" "?x \<noteq> MinInt64" and rc: "is_i64 (realizedCash a)"
    using ok by (auto simp: acc_ok_def)
  have q: "0 < q" "is_i64 q" and nx: "is_i64 (?x + d)" "?x + d \<noteq> MinInt64"
    using t by (auto simp: trade_ok_def d_def)
  have d: "is_i64 d" "d \<noteq> MinInt64" using signed_qty_eq [OF q, of s] q by (auto simp: d_def is_i64_def)
  have w: "i64 (?x + d) = ?x + d" "i64 (- ?x) = - ?x"
    using nx x by (auto intro!: i64_id simp: is_i64_def)
  note opp' = opposite_signs [OF opp [folded d_def]]
  have guard: "\<not> (q \<le> 0 \<or> P \<le> 0 \<or> ?x \<noteq> ?x)" using q P by simp
  have fin: "finishLifecycle (a\<lparr>realizedNumerator := r, realizedCash := c\<rparr>) ?n (?n sdiv P) P =
      Some \<lparr>acc_size = 0, basisNumerator = 0, realizedNumerator = 0, realizedCash = 0,
            carryNumerator = ?n smod P\<rparr>" for r c
    using finishLifecycle_eq [OF P ok(2) refl, of _ ?n] by (simp add: resetCurrentLifecycle_def)
  have n: "realizedNumerator a + ((if 0 < ?x * (?x + d) then basisNumerator a * \<bar>?x + d\<bar> sdiv \<bar>?x\<bar> else 0)
      - basisNumerator a - (if 0 < ?x * (?x + d) then d else - ?x) * p) = ?n - carryNumerator a"
    by (simp add: closing_numerator_def reduced_basis_def)
  show ?thesis
    unfolding applyTrade_def Let_def if_not_P [OF guard] d_def [symmetric] if_not_P [OF opp'(1)]
      if_not_P [OF opp'(2)] w abs64_eq [OF x] abs64_eq [OF d] abs64_eq [OF nx] opp'(3,4,5) n
    using opp'(1) by (auto simp: truncateNumerator_eq [OF P] fin closed_state_def Let_def addBasis_def
        reduced_basis_def intro!: positionAccounting.equality split: option.split)
qed

lemma applyTrade_grow:
  assumes ok: "acc_ok P a" and t: "trade_ok a q s" and same: "0 \<le> acc_size a * signed_qty s q"
  shows "applyTrade a (acc_size a) q p s P =
    Done (a\<lparr>basisNumerator := basisNumerator a + signed_qty s q * p,
            acc_size := acc_size a + signed_qty s q\<rparr>, 0)"
proof -
  let ?d = "signed_qty s q"
  have q: "0 < q" "is_i64 q" and w: "i64 (acc_size a + ?d) = acc_size a + ?d"
    using t by (auto simp: trade_ok_def intro: i64_id)
  have d: "?d \<noteq> 0" using signed_qty_eq [OF q, of s] q by auto
  have "acc_size a = 0 \<or> acc_size a > 0 \<and> ?d > 0 \<or> acc_size a < 0 \<and> ?d < 0"
    using same d by (auto simp: zero_le_mult_iff)
  then show ?thesis
    using ok q w by (auto simp: applyTrade_def acc_ok_def Let_def addBasis_def resetCurrentLifecycle_def
        intro!: positionAccounting.equality)
qed

lemma applyTrade_step:
  assumes ok: "acc_ok P a" "P \<le> MaxInt64" and t: "trade_ok a q s"
    and ran: "applyTrade a (acc_size a) q p s P = Done (a', cash)"
  shows "acc_ok P a'" "acc_size a' = acc_size a + signed_qty s q"
    "exact_value P a' + P * cash = exact_value P a - signed_qty s q * p"
proof -
  let ?d = "signed_qty s q" and ?n = "closing_numerator a (signed_qty s q) p"
  have P: "0 < P" using ok by (simp add: acc_ok_def)
  have nx: "is_i64 (acc_size a + ?d)" "acc_size a + ?d \<noteq> MinInt64" using t by (auto simp: trade_ok_def)
  have "acc_ok P a' \<and> acc_size a' = acc_size a + ?d \<and> exact_value P a' + P * cash = exact_value P a - ?d * p"
  proof (cases "acc_size a * ?d < 0")
    case False
    then have eq: "a' = a\<lparr>basisNumerator := basisNumerator a + ?d * p, acc_size := acc_size a + ?d\<rparr>" "cash = 0"
      using ran applyTrade_grow [OF ok(1) t] by auto
    have "?d \<noteq> 0" using t signed_qty_eq [of q s] by (auto simp: trade_ok_def)
    then have "acc_size a + ?d \<noteq> 0" using False by (auto simp: not_less zero_le_mult_iff)
    with ok(1) nx eq show ?thesis by (auto simp: acc_ok_def exact_value_def)
  next
    case True
    from ran have i: "is_i64 (?n sdiv P)" and a': "a' = closed_state P a ?d p"
      and sub: "TrySub (?n sdiv P) (realizedCash a) = Some cash"
      by (auto simp: applyTrade_close [OF ok t True] Let_def split: if_splits option.splits)
    have cash: "cash = ?n sdiv P - realizedCash a"
      using TrySub_Some [OF i acc_okD(3) [OF ok(1)] sub] by simp
    have m: "P * (?n sdiv P) = ?n - ?n smod P" using sdiv_smod_eq [of ?n P] by linarith
    have pc: "P * cash = ?n - ?n smod P - P * realizedCash a" by (simp add: cash right_diff_distrib m)
    show ?thesis
    proof (cases "0 < acc_size a * (acc_size a + ?d)")
      case same: True
      then have "acc_size a + ?d \<noteq> 0" by auto
      then show ?thesis
        using same i nx P pc unfolding a' acc_ok_def exact_value_def closed_state_def Let_def
        by (simp add: m) (simp add: closing_numerator_def)
    next
      case False
      then show ?thesis
        using i nx P pc unfolding a' acc_ok_def exact_value_def closed_state_def Let_def
        by (simp add: smod_sdiv_zero is_i64_def closing_numerator_def reduced_basis_def algebra_simps)
    qed
  qed
  then show "acc_ok P a'" "acc_size a' = acc_size a + signed_qty s q"
    "exact_value P a' + P * cash = exact_value P a - signed_qty s q * p" by blast+
qed

section \<open>Sequences of trades\<close>

lemma supports_trade_ok:
  assumes "supportsExactPositionTransition (acc_size a) q s ps" "is_i64 q" "is_i64 (acc_size a)"
  shows "trade_ok a q s"
proof -
  have q: "0 < q" using assms(1) by (auto simp: supportsExactPositionTransition_def split: if_splits)
  have "is_i64 (signed_qty s q)" using signed_qty_eq [OF q assms(2)] assms(2) q by (auto simp: is_i64_def)
  with assms q show ?thesis
    by (auto simp: supportsExactPositionTransition_def trade_ok_def TryAdd_eq split: if_splits)
qed

lemma supports_hedge:
  assumes "supportsExactPositionTransition x q s ps" "is_i64 q" "is_i64 x"
  shows "ps = PositionLong \<Longrightarrow> 0 \<le> x + signed_qty s q" "ps = PositionShort \<Longrightarrow> x + signed_qty s q \<le> 0"
proof -
  have q: "0 < q" using assms(1) by (auto simp: supportsExactPositionTransition_def split: if_splits)
  have "is_i64 (signed_qty s q)" using signed_qty_eq [OF q assms(2)] assms(2) q by (auto simp: is_i64_def)
  with assms show "ps = PositionLong \<Longrightarrow> 0 \<le> x + signed_qty s q" "ps = PositionShort \<Longrightarrow> x + signed_qty s q \<le> 0"
    by (auto simp: supportsExactPositionTransition_def TryAdd_eq split: if_splits)
qed

text \<open>A fill is a quantity, a price and a side. \<open>run_fills\<close> feeds a list of fills through the
  guarded transition and adds up the realized cash.\<close>

type_synonym fill = "int64 \<times> int64 \<times> Side"

fun run_fills :: "int64 \<Rightarrow> PositionSide \<Rightarrow> positionAccounting \<Rightarrow> fill list \<Rightarrow> (positionAccounting \<times> int) option" where
  "run_fills P ps a [] = Some (a, 0)"
| "run_fills P ps a ((q, p, s) # fs) =
     (case prepareExactTransition (Some a) (acc_size a) q p s ps P of
        None \<Rightarrow> None
      | Some (a', cash, entry) \<Rightarrow> map_option (\<lambda>(b, c). (b, cash + c)) (run_fills P ps a' fs))"

definition fills_value :: "fill list \<Rightarrow> int" where
  "fills_value fs = (\<Sum>(q, p, s)\<leftarrow>fs. signed_qty s q * p)"

definition fills_size :: "fill list \<Rightarrow> int" where
  "fills_size fs = (\<Sum>(q, p, s)\<leftarrow>fs. signed_qty s q)"

lemma prepare_step:
  assumes "acc_ok P a" "P \<le> MaxInt64" "is_i64 q"
    and "prepareExactTransition (Some a) (acc_size a) q p s ps P = Some (a', cash, entry)"
  shows "acc_ok P a'" "acc_size a' = acc_size a + signed_qty s q"
    "exact_value P a' + P * cash = exact_value P a - signed_qty s q * p"
    "entryPrice a' = Some entry" "trade_ok a q s"
    "ps = PositionLong \<Longrightarrow> 0 \<le> acc_size a'" "ps = PositionShort \<Longrightarrow> acc_size a' \<le> 0"
proof -
  from assms(4) have sup: "supportsExactPositionTransition (acc_size a) q s ps"
    and ap: "applyTrade a (acc_size a) q p s P = Done (a', cash)" and e: "entryPrice a' = Some entry"
    by (auto simp: prepareExactTransition_def split: if_splits outcome.splits)
  show t: "trade_ok a q s" by (rule supports_trade_ok [OF sup assms(3) acc_okD(2) [OF assms(1)]])
  show "acc_ok P a'" and sz: "acc_size a' = acc_size a + signed_qty s q"
    and "exact_value P a' + P * cash = exact_value P a - signed_qty s q * p"
    using applyTrade_step [OF assms(1,2) t ap] by blast+
  show "entryPrice a' = Some entry" by (rule e)
  show "ps = PositionLong \<Longrightarrow> 0 \<le> acc_size a'" "ps = PositionShort \<Longrightarrow> acc_size a' \<le> 0"
    using supports_hedge [OF sup assms(3) acc_okD(2) [OF assms(1)]] sz by auto
qed

lemma run_fills_exact:
  assumes "acc_ok P a" "P \<le> MaxInt64" "\<forall>(q, p, s)\<in>set fs. is_i64 q"
    and "run_fills P ps a fs = Some (a', cash)"
  shows "acc_ok P a' \<and> acc_size a' = acc_size a + fills_size fs \<and>
    exact_value P a' + P * cash = exact_value P a - fills_value fs"
  using assms
proof (induction fs arbitrary: a cash)
  case Nil
  then show ?case by (simp add: fills_size_def fills_value_def)
next
  case (Cons f fs)
  obtain q p s where f: "f = (q, p, s)" by (cases f)
  from Cons.prems(4) obtain a1 c1 e c2 where
    step: "prepareExactTransition (Some a) (acc_size a) q p s ps P = Some (a1, c1, e)"
    and rest: "run_fills P ps a1 fs = Some (a', c2)" and cash: "cash = c1 + c2"
    by (auto simp: f split: option.splits)
  have q: "is_i64 q" using Cons.prems(3) f by auto
  note S = prepare_step [OF Cons.prems(1,2) q step]
  have "acc_ok P a' \<and> acc_size a' = acc_size a1 + fills_size fs \<and>
      exact_value P a' + P * c2 = exact_value P a1 - fills_value fs"
    using Cons.IH [OF S(1) Cons.prems(2) _ rest] Cons.prems(3) by simp
  with S(2,3) cash show ?case by (simp add: f fills_size_def fills_value_def distrib_left)
qed

section \<open>Marking and closing\<close>

definition marked_numerator :: "positionAccounting \<Rightarrow> int64 \<Rightarrow> int" where
  "marked_numerator a m = realizedNumerator a + (acc_size a * m - basisNumerator a) + carryNumerator a"

definition close_side :: "int64 \<Rightarrow> Side" where
  "close_side sz = (if sz < 0 then Buy else Sell)"

lemma unrealizedPnL_eq:
  "0 < P \<Longrightarrow> unrealizedPnL a m P =
     (if is_i64 (marked_numerator a m sdiv P) then TrySub (marked_numerator a m sdiv P) (realizedCash a) else None)"
  by (simp add: unrealizedPnL_def truncateNumerator_eq marked_numerator_def Let_def)

lemma close_quantity:
  assumes "is_i64 x" "x \<noteq> MinInt64" "x \<noteq> 0"
  shows "signed_qty (close_side x) (abs64 x) = - x" "0 < abs64 x" "is_i64 (abs64 x)"
  using assms
  by (auto simp: abs64_eq close_side_def signed_qty_def is_i64_def abs_if intro!: i64_id)

lemma close_supported:
  assumes "is_i64 x" "x \<noteq> MinInt64" "x \<noteq> 0" "ps = PositionLong \<Longrightarrow> 0 \<le> x" "ps = PositionShort \<Longrightarrow> x \<le> 0"
  shows "supportsExactPositionTransition x (abs64 x) (close_side x) ps"
proof -
  have "is_i64 (- x)" using assms by (auto simp: is_i64_def)
  then have "TryAdd x (- x) = Some 0" using assms(1) by (simp add: TryAdd_eq is_i64_def)
  with assms close_quantity [OF assms(1-3)] show ?thesis
    by (auto simp: supportsExactPositionTransition_def)
qed

lemma close_at_mark:
  assumes ok: "acc_ok P a" "P \<le> MaxInt64" and x: "acc_size a \<noteq> 0"
    and hedge: "ps = PositionLong \<Longrightarrow> 0 \<le> acc_size a" "ps = PositionShort \<Longrightarrow> acc_size a \<le> 0"
  shows "prepareExactTransition (Some a) (acc_size a) (abs64 (acc_size a)) m (close_side (acc_size a)) ps P =
    map_option (\<lambda>cash. (\<lparr>acc_size = 0, basisNumerator = 0, realizedNumerator = 0, realizedCash = 0,
       carryNumerator = marked_numerator a m smod P\<rparr>, cash, 0)) (unrealizedPnL a m P)"
proof -
  let ?x = "acc_size a"
  note i = acc_okD(2,4) [OF ok(1)] and P = acc_okD(1) [OF ok(1)]
  note q = close_quantity [OF i x]
  have t: "trade_ok a (abs64 ?x) (close_side ?x)" using q i by (simp add: trade_ok_def is_i64_def)
  have opp: "?x * signed_qty (close_side ?x) (abs64 ?x) < 0" 
    using x by (auto simp: q(1) zero_less_mult_iff neq_iff)
  have n: "closing_numerator a (- ?x) m = marked_numerator a m"
    by (simp add: closing_numerator_def reduced_basis_def marked_numerator_def)
  have st: "closed_state P a (- ?x) m = \<lparr>acc_size = 0, basisNumerator = 0, realizedNumerator = 0, realizedCash = 0,
       carryNumerator = marked_numerator a m smod P\<rparr>"
    by (simp add: closed_state_def n)
  show ?thesis
    using close_supported [OF i x hedge]
    by (simp add: prepareExactTransition_def applyTrade_close [OF ok t opp] q(1) n st Let_def
        unrealizedPnL_eq [OF P] entryPrice_def split: option.split)
qed

section \<open>The liquidation price\<close>

definition exact_equity :: "positionAccounting \<Rightarrow> int64 \<Rightarrow> int64 \<Rightarrow> int64 \<Rightarrow> int" where
  "exact_equity a netBalance P m = netBalance + (marked_numerator a m sdiv P - realizedCash a)"

lemma sdiv_le_iff:
  fixes t q P :: int
  assumes "0 < P"
  shows "t sdiv P \<le> q \<longleftrightarrow> t \<le> (if q \<ge> 0 then (q + 1) * P - 1 else q * P)"
proof (cases "0 \<le> q")
  case True
  have "0 \<le> \<bar>t\<bar> div P" using assms by (simp add: pos_imp_zdiv_nonneg_iff)
  moreover have "t div P \<le> q \<longleftrightarrow> t < (q + 1) * P" using div_int_less_iff [OF assms, of t "q + 1"] by linarith
  moreover have "0 \<le> q * P" using True assms by simp
  moreover have "0 < (q + 1) * P" using True assms by simp
  then have "t < 0 \<Longrightarrow> t < (q + 1) * P" by linarith
  ultimately show ?thesis using True assms by (cases "t < 0") (auto simp: sdiv_by_sign)
next
  case False
  have "0 \<le> \<bar>t\<bar> div P" using assms by (simp add: pos_imp_zdiv_nonneg_iff)
  moreover have "- q \<le> - t div P \<longleftrightarrow> - q * P \<le> - t" by (rule le_div_int_iff [OF assms])
  moreover have "q * P < 0" using False assms by (simp add: mult_less_0_iff)
  ultimately show ?thesis using False assms by (auto simp: sdiv_by_sign)
qed

lemma floorQuotient_iff: "0 < d \<Longrightarrow> m \<le> floorQuotient n d \<longleftrightarrow> d * m \<le> n"
proof -
  assume d: "0 < d"
  have "floorQuotient n d = n div d"
  proof (cases "0 \<le> n")
    case True
    have "sgn n \<noteq> sgn d \<Longrightarrow> n = 0" using True d by (auto simp: sgn_if split: if_splits)
    with True d show ?thesis by (auto simp: floorQuotient_def Let_def sdiv_nonneg_eq)
  next
    case False
    then have n: "n < 0" by simp
    have r: "n smod d = - (- n mod d)" "n sdiv d = - (- n div d)"
      using n d by (simp_all add: smod_by_sign sdiv_by_sign)
    have "n div d = (if - n mod d = 0 then - (- n div d) else - (- n div d) - 1)"
      using zdiv_zminus1_eq_if [of d "- n"] d by simp
    with r n d show ?thesis by (auto simp: floorQuotient_def Let_def sgn_if)
  qed
  with d show ?thesis by (simp add: le_div_int_iff mult.commute)
qed

lemma ceilQuotient_neg: "d < 0 \<Longrightarrow> ceilQuotient n d = - floorQuotient n (- d)"
  by (auto simp: ceilQuotient_def floorQuotient_def Let_def sgn_if split: if_splits)

lemma ceilQuotient_iff:
  assumes "d < 0" shows "ceilQuotient n d \<le> m \<longleftrightarrow> d * m \<le> n"
proof -
  have "- m \<le> floorQuotient n (- d) \<longleftrightarrow> - d * - m \<le> n" using assms by (intro floorQuotient_iff) simp
  with assms show ?thesis by (auto simp: ceilQuotient_neg)
qed

lemma liquidation_mark_iff:
  assumes P: "0 < P" and x: "acc_size a \<noteq> 0"
  shows "exact_equity a nb P m \<le> 0 \<longleftrightarrow>
    (if acc_size a > 0 then m \<le> liquidation_mark a nb P else liquidation_mark a nb P \<le> m)"
proof -
  let ?q = "realizedCash a - nb"
  let ?thr = "if ?q \<ge> 0 then (?q + 1) * P - 1 else ?q * P"
  let ?n = "?thr - (realizedNumerator a - basisNumerator a + carryNumerator a)"
  have "exact_equity a nb P m \<le> 0 \<longleftrightarrow> marked_numerator a m sdiv P \<le> ?q"
    unfolding exact_equity_def by linarith
  also have "\<dots> \<longleftrightarrow> marked_numerator a m \<le> ?thr" by (rule sdiv_le_iff [OF P])
  also have "\<dots> \<longleftrightarrow> acc_size a * m \<le> ?n" unfolding marked_numerator_def by linarith
  also have "\<dots> \<longleftrightarrow> (if acc_size a > 0 then m \<le> liquidation_mark a nb P else liquidation_mark a nb P \<le> m)"
    using x floorQuotient_iff [of "acc_size a" m ?n] ceilQuotient_iff [of "acc_size a" ?n m]
    by (simp add: liquidation_mark_def Let_def)
  finally show ?thesis .
qed

section \<open>Properties\<close>

text \<open>C17: cash rounding never accumulates. Feed any sequence of fills through the guarded
  transition, starting from a new account. If the transition accepts them all, the account
  ends at the net size of the fills, and the realized cash paid out (times the precision)
  plus the open cost basis accounts for the exact value traded up to less than one cash
  unit, however many fills, partial closes and flips there were. A flat account has
  therefore paid out exactly the traded profit, rounded by less than one unit.\<close>

theorem fills_rounding_bounded:
  assumes "0 < P" "P \<le> MaxInt64" "\<forall>(q, p, s)\<in>set fs. is_i64 q"
    and "run_fills P ps newPositionAccounting fs = Some (a, cash)"
  shows "acc_size a = fills_size fs \<and> \<bar>P * cash - basisNumerator a + fills_value fs\<bar> < P \<and>
    (acc_size a = 0 \<longrightarrow> \<bar>P * cash + fills_value fs\<bar> < P)"
proof -
  note R = run_fills_exact [OF acc_ok_new [OF assms(1)] assms(2-4)]
  then have ok: "acc_ok P a" and ev: "exact_value P a + P * cash = - fills_value fs"
    and sz: "acc_size a = fills_size fs"
    by (simp_all add: exact_value_new) (simp add: newPositionAccounting_def)
  have eq: "P * cash - basisNumerator a + fills_value fs =
      - (realizedNumerator a + carryNumerator a - P * realizedCash a)"
    using ev by (simp add: exact_value_def)
  have "\<bar>P * cash - basisNumerator a + fills_value fs\<bar> < P"
    using rounding_bound [OF ok] unfolding eq by simp
  moreover have "acc_size a = 0 \<Longrightarrow> basisNumerator a = 0" using ok by (simp add: acc_ok_def)
  ultimately show ?thesis using sz by auto
qed

theorem fills_rounding_bounded_witness:
  "case run_fills 10 PositionBoth newPositionAccounting [(3, 7, Buy), (2, 9, Sell), (4, 11, Sell), (3, 2, Buy)] of
     None \<Rightarrow> False
   | Some (a, cash) \<Rightarrow> acc_size a = 0 \<and>
       \<bar>10 * cash + fills_value [(3, 7, Buy), (2, 9, Sell), (4, 11, Sell), (3, 2, Buy)]\<bar> < 10"
proof -
  let ?fs = "[(3, 7, Buy), (2, 9, Sell), (4, 11, Sell), (3, 2, Buy)] :: fill list"
  have flat: "map_option (\<lambda>(a, c). acc_size a) (run_fills 10 PositionBoth newPositionAccounting ?fs) = Some 0"
    by code_simp
  then obtain a c where r: "run_fills 10 PositionBoth newPositionAccounting ?fs = Some (a, c)" by auto
  with flat fills_rounding_bounded [OF _ _ _ r] show ?thesis by (simp add: is_i64_def)
qed

text \<open>Marking and closing agree. For an open position in a consistent state, closing it
  completely at a price succeeds exactly when the unrealized profit at that price is
  representable, pays exactly that profit, and leaves a flat state whose carry is the part
  below one cash unit. So the equality check on settlement never fails.\<close>

theorem close_realizes_mark:
  assumes "acc_ok P a" "P \<le> MaxInt64" "acc_size a \<noteq> 0"
    "ps = PositionLong \<longrightarrow> 0 \<le> acc_size a" "ps = PositionShort \<longrightarrow> acc_size a \<le> 0"
  shows "prepareExactTransition (Some a) (acc_size a) (abs64 (acc_size a)) m (close_side (acc_size a)) ps P =
    map_option (\<lambda>cash. (\<lparr>acc_size = 0, basisNumerator = 0, realizedNumerator = 0, realizedCash = 0,
       carryNumerator = marked_numerator a m smod P\<rparr>, cash, 0)) (unrealizedPnL a m P)"
  using close_at_mark [OF assms(1-3)] assms(4,5) by blast

definition sample_long :: positionAccounting where
  "sample_long = \<lparr>acc_size = 3, basisNumerator = 20, realizedNumerator = 0, realizedCash = 0, carryNumerator = 0\<rparr>"

lemma sample_long_ok: "acc_ok 10 sample_long"
  by (simp add: acc_ok_def sample_long_def is_i64_def)

theorem close_realizes_mark_witness:
  "prepareExactTransition (Some sample_long) 3 3 25 Sell PositionLong 10 =
     Some (\<lparr>acc_size = 0, basisNumerator = 0, realizedNumerator = 0, realizedCash = 0, carryNumerator = 5\<rparr>, 5, 0)"
proof -
  have "acc_size sample_long = 3" "abs64 3 = 3" "close_side 3 = Sell"
    "marked_numerator sample_long 25 smod 10 = 5" "unrealizedPnL sample_long 25 10 = Some 5"
    by code_simp+
  with close_realizes_mark [OF sample_long_ok, of PositionLong 25] show ?thesis by simp
qed

text \<open>The liquidation price is the exact boundary of solvency. When an estimate is
  returned, equity at a mark (net balance plus unrealized profit, rounded toward zero as the
  account rounds it) is at most zero for exactly the marks at or beyond the estimate: at or
  below it for a long, at or above it for a short.\<close>

theorem liquidationPrice_boundary:
  assumes "liquidationPrice a netBalance P = Some price"
  shows "exact_equity a netBalance P m \<le> 0 \<longleftrightarrow> (if acc_size a > 0 then m \<le> price else price \<le> m)"
proof -
  have "0 < P" "acc_size a \<noteq> 0" "price = liquidation_mark a netBalance P"
    using assms by (auto simp: liquidationPrice_def Let_def split: if_splits option.splits)
  with liquidation_mark_iff show ?thesis by blast
qed

theorem liquidationPrice_boundary_witness:
  "liquidationPrice sample_long 4 10 = Some (- 7) \<and> exact_equity sample_long 4 10 (- 8) \<le> 0 \<and>
   \<not> exact_equity sample_long 4 10 0 \<le> 0"
proof -
  have l: "liquidationPrice sample_long 4 10 = Some (- 7)" by code_simp
  from l liquidationPrice_boundary [OF l, of "- 8"] liquidationPrice_boundary [OF l, of 0]
  show ?thesis by (simp add: sample_long_def)
qed

text \<open>The liquidation search never misses the boundary. The candidate computed in closed
  form always passes the verification around it: an estimate is returned for every open
  position whose boundary is a representable price at which equity can be evaluated.\<close>

theorem liquidationPrice_found:
  assumes "acc_ok P a" "acc_size a \<noteq> 0" "is_i64 netBalance"
    and "is_i64 (liquidation_mark a netBalance P)"
    and "equityAt a netBalance P (liquidation_mark a netBalance P) \<noteq> None"
    and "acc_size a > 0 \<longrightarrow> equityAt a netBalance P (i64 (liquidation_mark a netBalance P + 1)) \<noteq> None"
    and "acc_size a < 0 \<longrightarrow> equityAt a netBalance P (i64 (liquidation_mark a netBalance P - 1)) \<noteq> None"
  shows "liquidationPrice a netBalance P = Some (liquidation_mark a netBalance P)"
proof -
  let ?m = "liquidation_mark a netBalance P"
  have P: "0 < P" and rc: "is_i64 (realizedCash a)" using acc_okD [OF assms(1)] by blast+
  have eq: "e = exact_equity a netBalance P m" if "equityAt a netBalance P m = Some e" for m e
  proof -
    from that obtain u where i: "is_i64 (marked_numerator a m sdiv P)"
      and u: "TrySub (marked_numerator a m sdiv P) (realizedCash a) = Some u" and e: "TryAdd netBalance u = Some e"
      by (auto simp: equityAt_def unrealizedPnL_eq [OF P] bind_eq_Some_conv split: if_splits)
    have "u = marked_numerator a m sdiv P - realizedCash a" "is_i64 u" using TrySub_Some [OF i rc u] by auto
    with e TryAdd_Some [OF assms(3), of u e] show ?thesis by (simp add: exact_equity_def)
  qed
  have le: "exact_equity a netBalance P ?m \<le> 0"
    using liquidation_mark_iff [OF P assms(2), of netBalance ?m] by simp
  have "i64 (?m + 1) = ?m + 1" if "?m \<noteq> MaxInt64" using that assms(4) by (intro i64_id) (auto simp: is_i64_def)
  moreover have "i64 (?m - 1) = ?m - 1" if "?m \<noteq> MinInt64" using that assms(4) by (intro i64_id) (auto simp: is_i64_def)
  moreover have "acc_size a > 0 \<Longrightarrow> exact_equity a netBalance P (?m + 1) > 0"
    "acc_size a < 0 \<Longrightarrow> exact_equity a netBalance P (?m - 1) > 0"
    using liquidation_mark_iff [OF P assms(2), of netBalance] by (auto simp flip: not_le)
  ultimately show ?thesis
    using assms(2,4-7) le P eq by (cases "acc_size a > 0") (auto simp: liquidationPrice_def Let_def)
qed

theorem liquidationPrice_found_witness: "liquidationPrice sample_long 4 10 = Some (- 7)"
proof -
  have "liquidation_mark sample_long 4 10 = - 7" "equityAt sample_long 4 10 (- 7) \<noteq> None"
    "i64 (- 7 + 1) = - 6" "equityAt sample_long 4 10 (- 6) \<noteq> None"
    by code_simp+
  with liquidationPrice_found [OF sample_long_ok, of 4] show ?thesis
    by (simp add: sample_long_def is_i64_def)
qed

end
