(* ===== verification/Position_Manager.thy ===== *)
theory Position_Manager
  imports Position_Accounting Go_Map "HOL-Library.Multiset"
begin

text \<open>
  The position store (\<open>exchange/funding.go\<close>): positions and their exact accounting by client,
  symbol and side, with the two-phase terminalization of an expiring contract. The code's
  nested maps \<open>client -> (symbol, side) -> value\<close> are one map keyed by the triple; an
  empty inner map is not observable. Locking is not modelled: every operation is one atomic
  step under the store's mutex. \<open>None\<close> results of the state-changing operations are panics
  or refusals, as each definition says.
\<close>

section \<open>State\<close>

record Position =
  PosClient :: uint64
  PosSymbol :: string
  PosSide :: PositionSide
  PosSize :: int64
  PosEntry :: int64
  PosMargin :: int64

record PositionDelta =
  OldSize :: int64
  OldEntryPrice :: int64
  NewSize :: int64
  NewEntryPrice :: int64

record PositionAccountingRounding =
  RndClient :: uint64
  RndAmount :: int64
  RndRemainder :: int64

type_synonym pos_key = "uint64 \<times> string \<times> PositionSide"

record PositionManager =
  positions :: "(pos_key, Position) gomap"
  accounting :: "(pos_key, positionAccounting) gomap"
  precisions :: "(string, int64) gomap"
  requireExactAccounting :: bool

definition NewPositionManager :: PositionManager where
  "NewPositionManager = \<lparr>positions = [], accounting = [], precisions = [], requireExactAccounting = False\<rparr>"

definition pos_key_of :: "Position \<Rightarrow> pos_key" where
  "pos_key_of p = (PosClient p, PosSymbol p, PosSide p)"

section \<open>Configuration and lookup\<close>

definition SetPositionPrecision :: "string \<Rightarrow> int64 \<Rightarrow> PositionManager \<Rightarrow> PositionManager" where
  "SetPositionPrecision symbol precision pm =
     (if precision > 0 then pm\<lparr>precisions := mput (precisions pm) symbol precision\<rparr> else pm)"

definition ClearPositionPrecision :: "string \<Rightarrow> PositionManager \<Rightarrow> PositionManager" where
  "ClearPositionPrecision symbol pm = pm\<lparr>precisions := AList.delete symbol (precisions pm)\<rparr>"

definition SetRequireExactLinearPositionAccounting :: "bool \<Rightarrow> PositionManager \<Rightarrow> PositionManager" where
  "SetRequireExactLinearPositionAccounting required pm = pm\<lparr>requireExactAccounting := required\<rparr>"

definition GetPositionBySide :: "uint64 \<Rightarrow> string \<Rightarrow> PositionSide \<Rightarrow> PositionManager \<Rightarrow> Position option" where
  "GetPositionBySide clientID symbol posSide pm = map_of (positions pm) (clientID, symbol, posSide)"

definition HasOpenPositions :: "uint64 \<Rightarrow> PositionManager \<Rightarrow> bool" where
  "HasOpenPositions clientID pm \<longleftrightarrow> list_ex (\<lambda>(k, p). fst k = clientID \<and> PosSize p \<noteq> 0) (positions pm)"

definition GetAllPositions :: "uint64 \<Rightarrow> PositionManager \<Rightarrow> Position list" where
  "GetAllPositions clientID pm =
     map snd (filter (\<lambda>(k, p). fst k = clientID \<and> PosSize p \<noteq> 0) (positions pm))"

text \<open>The positions the callback of \<open>PositionsForFunding\<close> sees, in its order.\<close>

definition client_rows :: "string \<Rightarrow> PositionManager \<Rightarrow> uint64 \<Rightarrow> (uint64 \<times> Position) list" where
  "client_rows symbol pm i = concat (map (\<lambda>s.
         case map_of (positions pm) (i, symbol, s) of
           None \<Rightarrow> []
         | Some p \<Rightarrow> if PosSize p = 0 then [] else [(i, p)])
       [PositionBoth, PositionLong, PositionShort])"

definition PositionsForFunding :: "string \<Rightarrow> PositionManager \<Rightarrow> (uint64 \<times> Position) list" where
  "PositionsForFunding symbol pm =
     concat (map (client_rows symbol pm) (sort (remdups (map (fst \<circ> fst) (positions pm)))))"

definition CalculateOpenInterest :: "string \<Rightarrow> PositionManager \<Rightarrow> int64" where
  "CalculateOpenInterest symbol pm =
     foldl (\<lambda>acc ((i, sy, s), p). if sy = symbol \<and> PosSize p \<noteq> 0 then i64 (acc + abs64 (PosSize p)) else acc)
       0 (positions pm)"

section \<open>Trades\<close>

text \<open>The rounded fallback, where no exact accounting applies. \<open>None\<close> is a panic of the
  weighted average.\<close>

definition applyNettingPositionChange :: "Position \<Rightarrow> int64 \<Rightarrow> int64 \<Rightarrow> Side \<Rightarrow> Position option" where
  "applyNettingPositionChange pos qty price side =
     (let deltaSize = signed_qty side qty;
          newSize = i64 (PosSize pos + deltaSize)
      in if newSize = 0 then Some (pos\<lparr>PosSize := 0, PosEntry := 0\<rparr>)
         else if PosSize pos = 0 then Some (pos\<lparr>PosSize := newSize, PosEntry := price\<rparr>)
         else if PosSize pos > 0 \<and> newSize > PosSize pos \<or> PosSize pos < 0 \<and> newSize < PosSize pos
         then map_option (\<lambda>entry. pos\<lparr>PosSize := newSize, PosEntry := entry\<rparr>)
                (WeightedAverage (abs64 (PosSize pos)) (PosEntry pos) (abs64 deltaSize) price)
         else if PosSize pos > 0 \<and> newSize < 0 \<or> PosSize pos < 0 \<and> newSize > 0
         then Some (pos\<lparr>PosSize := newSize, PosEntry := price\<rparr>)
         else Some (pos\<lparr>PosSize := newSize\<rparr>))"

definition reduce_to :: "Position \<Rightarrow> int64 \<Rightarrow> Position" where
  "reduce_to pos newSize =
     (let pos' = pos\<lparr>PosSize := newSize\<rparr> in if newSize = 0 then pos'\<lparr>PosEntry := 0\<rparr> else pos')"

definition applyHedgePositionChange :: "Position \<Rightarrow> int64 \<Rightarrow> int64 \<Rightarrow> Side \<Rightarrow> Position option" where
  "applyHedgePositionChange pos qty price tradeSide =
     (if tradeSide = Buy
      then if PosSize pos < 0 then Some (reduce_to pos (min 0 (i64 (PosSize pos + qty))))
           else if PosSize pos = 0 then Some (pos\<lparr>PosSize := i64 (PosSize pos + qty), PosEntry := price\<rparr>)
           else map_option (\<lambda>entry. pos\<lparr>PosSize := i64 (PosSize pos + qty), PosEntry := entry\<rparr>)
                  (WeightedAverage (PosSize pos) (PosEntry pos) qty price)
      else if PosSize pos > 0 then Some (reduce_to pos (max 0 (i64 (PosSize pos - qty))))
           else if PosSize pos = 0 then Some (pos\<lparr>PosSize := i64 (PosSize pos - qty), PosEntry := price\<rparr>)
           else map_option (\<lambda>entry. pos\<lparr>PosSize := i64 (PosSize pos - qty), PosEntry := entry\<rparr>)
                  (WeightedAverage (i64 (- PosSize pos)) (PosEntry pos) qty price))"

definition applyPositionChange :: "Position \<Rightarrow> int64 \<Rightarrow> int64 \<Rightarrow> Side \<Rightarrow> PositionSide \<Rightarrow> Position option" where
  "applyPositionChange pos qty price tradeSide posSide =
     (if posSide = PositionLong \<or> posSide = PositionShort
      then applyHedgePositionChange pos qty price tradeSide
      else applyNettingPositionChange pos qty price tradeSide)"

definition size_at :: "pos_key \<Rightarrow> PositionManager \<Rightarrow> int64" where
  "size_at k pm = (case map_of (positions pm) k of None \<Rightarrow> 0 | Some p \<Rightarrow> PosSize p)"

definition CanUpdatePositionWithAccounting :: "uint64 \<Rightarrow> string \<Rightarrow> int64 \<Rightarrow> int64 \<Rightarrow> Side \<Rightarrow> PositionSide \<Rightarrow>
    PositionManager \<Rightarrow> bool" where
  "CanUpdatePositionWithAccounting clientID symbol qty price tradeSide posSide pm =
     (let precision = mget (precisions pm) symbol; k = (clientID, symbol, posSide)
      in if precision \<le> 0 then False
         else prepareExactTransition (map_of (accounting pm) k) (size_at k pm) qty price tradeSide posSide
                precision \<noteq> None)"

text \<open>The stored position, or the new flat one a first trade creates.\<close>

definition pos_at :: "pos_key \<Rightarrow> PositionManager \<Rightarrow> Position" where
  "pos_at k pm = (case map_of (positions pm) k of Some p \<Rightarrow> p
     | None \<Rightarrow> \<lparr>PosClient = fst k, PosSymbol = fst (snd k), PosSide = snd (snd k), PosSize = 0, PosEntry = 0, PosMargin = 0\<rparr>)"

text \<open>The realized cash is \<open>Some\<close> exactly when the accounting delta is valid. \<open>None\<close> is a
  panic.\<close>

definition updatePosition :: "uint64 \<Rightarrow> string \<Rightarrow> int64 \<Rightarrow> int64 \<Rightarrow> Side \<Rightarrow> PositionSide \<Rightarrow> PositionManager \<Rightarrow>
    (PositionManager \<times> PositionDelta \<times> int64 option) option" where
  "updatePosition clientID symbol qty price tradeSide posSide pm =
     (let k = (clientID, symbol, posSide);
          pos = pos_at k pm;
          precision = mget (precisions pm) symbol;
          exact = (if precision > 0
                   then prepareExactTransition (map_of (accounting pm) k) (PosSize pos) qty price tradeSide posSide precision
                   else None);
          delta = (\<lambda>p. \<lparr>OldSize = PosSize pos, OldEntryPrice = PosEntry pos, NewSize = PosSize p, NewEntryPrice = PosEntry p\<rparr>)
      in if precision > 0 \<and> requireExactAccounting pm \<and> exact = None then None
         else case exact of
           Some (candidate, realizedPnL, entry) \<Rightarrow>
             let pos' = pos\<lparr>PosSize := acc_size candidate, PosEntry := entry\<rparr>
             in Some (pm\<lparr>positions := mput (positions pm) k pos', accounting := mput (accounting pm) k candidate\<rparr>,
                      delta pos', Some realizedPnL)
         | None \<Rightarrow>
             map_option (\<lambda>pos'. (pm\<lparr>positions := mput (positions pm) k pos'\<rparr>, delta pos', None))
               (applyPositionChange pos qty price tradeSide posSide))"

section \<open>Position margin\<close>

definition AddPositionMargin :: "uint64 \<Rightarrow> string \<Rightarrow> PositionSide \<Rightarrow> int64 \<Rightarrow> PositionManager \<Rightarrow> PositionManager" where
  "AddPositionMargin clientID symbol side amount pm =
     (case map_of (positions pm) (clientID, symbol, side) of
        None \<Rightarrow> pm
      | Some pos \<Rightarrow> pm\<lparr>positions := mput (positions pm) (clientID, symbol, side)
                       (pos\<lparr>PosMargin := i64 (PosMargin pos + amount)\<rparr>)\<rparr>)"

text \<open>\<open>None\<close> is a panic of the division.\<close>

definition ReleasePositionMargin :: "uint64 \<Rightarrow> string \<Rightarrow> PositionSide \<Rightarrow> int64 \<Rightarrow> int64 \<Rightarrow> PositionManager \<Rightarrow>
    (PositionManager \<times> int64) option" where
  "ReleasePositionMargin clientID symbol side closedQty oldSize pm =
     (case map_of (positions pm) (clientID, symbol, side) of
        None \<Rightarrow> Some (pm, 0)
      | Some pos \<Rightarrow>
          if PosMargin pos \<le> 0 then Some (pm, 0)
          else let absOld = abs64 oldSize;
                   put = (\<lambda>m. pm\<lparr>positions := mput (positions pm) (clientID, symbol, side) (pos\<lparr>PosMargin := m\<rparr>)\<rparr>)
               in if closedQty \<ge> absOld then Some (put 0, PosMargin pos)
                  else map_option (\<lambda>release. (put (i64 (PosMargin pos - release)), release))
                         (MulDiv (PosMargin pos) closedQty absOld))"

section \<open>Marks and settlement\<close>

definition PositionUnrealizedPnL :: "Position \<Rightarrow> int64 \<Rightarrow> int64 \<Rightarrow> PositionManager \<Rightarrow> int64 option" where
  "PositionUnrealizedPnL p markPrice precision pm =
     (case map_of (accounting pm) (pos_key_of p) of
        None \<Rightarrow> None
      | Some a \<Rightarrow> if acc_size a \<noteq> PosSize p \<or> precision \<le> 0 then None else unrealizedPnL a markPrice precision)"

definition PositionLiquidationPrice :: "Position \<Rightarrow> int64 \<Rightarrow> int64 \<Rightarrow> PositionManager \<Rightarrow> int64 option" where
  "PositionLiquidationPrice p netBalance precision pm =
     (case map_of (accounting pm) (pos_key_of p) of
        None \<Rightarrow> None
      | Some a \<Rightarrow> if acc_size a \<noteq> PosSize p then None else liquidationPrice a netBalance precision)"

text \<open>The dry run that \<open>SettlePositionAtPrice\<close> and \<open>CanSettlePositionAtPrice\<close> share: the stored
  position, the closed accounting state and the cash.\<close>

definition settlement_plan :: "Position \<Rightarrow> int64 \<Rightarrow> int64 \<Rightarrow> PositionManager \<Rightarrow>
    (Position \<times> positionAccounting \<times> int64) option" where
  "settlement_plan p settlementPrice precision pm =
     (case (map_of (positions pm) (pos_key_of p), map_of (accounting pm) (pos_key_of p)) of
        (Some stored, Some a) \<Rightarrow>
          if PosSize stored \<noteq> PosSize p \<or> acc_size a \<noteq> PosSize p \<or> PosSize p = 0 \<or> PosSize p = MinInt64 then None
          else (case unrealizedPnL a settlementPrice precision of
                  None \<Rightarrow> None
                | Some cash \<Rightarrow>
                    (case prepareExactTransition (Some a) (PosSize p) (abs64 (PosSize p)) settlementPrice
                            (close_side (PosSize p)) (PosSide p) precision of
                       None \<Rightarrow> None
                     | Some (candidate, realizedPnL, _) \<Rightarrow>
                         if realizedPnL \<noteq> cash then None else Some (stored, candidate, cash)))
      | _ \<Rightarrow> None)"

definition CanSettlePositionAtPrice :: "Position \<Rightarrow> int64 \<Rightarrow> int64 \<Rightarrow> PositionManager \<Rightarrow> bool" where
  "CanSettlePositionAtPrice p settlementPrice precision pm \<longleftrightarrow> settlement_plan p settlementPrice precision pm \<noteq> None"

definition SettlePositionAtPrice :: "Position \<Rightarrow> int64 \<Rightarrow> int64 \<Rightarrow> PositionManager \<Rightarrow>
    (PositionManager \<times> int64) option" where
  "SettlePositionAtPrice p settlementPrice precision pm =
     map_option (\<lambda>(stored, candidate, cash).
         (pm\<lparr>positions := mput (positions pm) (pos_key_of p) (stored\<lparr>PosSize := 0, PosEntry := 0\<rparr>),
             accounting := mput (accounting pm) (pos_key_of p) candidate\<rparr>, cash))
       (settlement_plan p settlementPrice precision pm)"

section \<open>Terminalization\<close>

definition addCarry :: "(uint64, int) gomap \<Rightarrow> uint64 \<Rightarrow> int64 \<Rightarrow> (uint64, int) gomap" where
  "addCarry byClient clientID carry =
     (if carry = 0 then byClient else mput byClient clientID (mget byClient clientID + carry))"

fun rounding_rows :: "(uint64, int) gomap \<Rightarrow> int64 \<Rightarrow> uint64 list \<Rightarrow> PositionAccountingRounding list option" where
  "rounding_rows byClient precision [] = Some []"
| "rounding_rows byClient precision (i # is) =
     (let tot = mget byClient i
      in case truncateNumerator tot precision of
           None \<Rightarrow> None
         | Some amount \<Rightarrow>
             let rest = tot - amount * precision
             in if \<not> is_i64 rest then None
                else map_option (\<lambda>rows. \<lparr>RndClient = i, RndAmount = amount, RndRemainder = rest\<rparr> # rows)
                       (rounding_rows byClient precision is))"

definition roundingFromNumerators :: "(uint64, int) gomap \<Rightarrow> int64 \<Rightarrow> PositionAccountingRounding list option" where
  "roundingFromNumerators byClient precision = rounding_rows byClient precision (mkeys byClient)"

fun flat_loop :: "string \<Rightarrow> (pos_key, positionAccounting) gomap \<Rightarrow> (uint64, int) gomap \<Rightarrow> (uint64, int) gomap option" where
  "flat_loop symbol [] byClient = Some byClient"
| "flat_loop symbol (((i, sy, s), a) # rest) byClient =
     (if sy \<noteq> symbol then flat_loop symbol rest byClient
      else if acc_size a \<noteq> 0 then None
      else flat_loop symbol rest (if carryNumerator a \<noteq> 0 then addCarry byClient i (carryNumerator a) else byClient))"

definition roundingForFlatAccounting :: "string \<Rightarrow> int64 \<Rightarrow> PositionManager \<Rightarrow> PositionAccountingRounding list option" where
  "roundingForFlatAccounting symbol precision pm =
     (if precision \<le> 0 then None
      else Option.bind (flat_loop symbol (accounting pm) []) (\<lambda>byClient. roundingFromNumerators byClient precision))"

definition clearAccountingCarry :: "string \<Rightarrow> PositionManager \<Rightarrow> PositionManager" where
  "clearAccountingCarry symbol pm =
     pm\<lparr>accounting := map (\<lambda>((i, sy, s), a). ((i, sy, s), if sy = symbol then a\<lparr>carryNumerator := 0\<rparr> else a))
       (accounting pm)\<rparr>"

definition DrainPositionAccountingCarry :: "string \<Rightarrow> int64 \<Rightarrow> PositionManager \<Rightarrow>
    (PositionManager \<times> PositionAccountingRounding list) option" where
  "DrainPositionAccountingCarry symbol precision pm =
     map_option (\<lambda>rows. (clearAccountingCarry symbol pm, rows)) (roundingForFlatAccounting symbol precision pm)"

definition CommitPositionAccountingCarry :: "string \<Rightarrow> int64 \<Rightarrow> PositionAccountingRounding list \<Rightarrow> PositionManager \<Rightarrow>
    (PositionManager \<times> PositionAccountingRounding list) option" where
  "CommitPositionAccountingCarry symbol precision expected pm =
     (case roundingForFlatAccounting symbol precision pm of
        None \<Rightarrow> None
      | Some rows \<Rightarrow> if rows \<noteq> expected then None else Some (clearAccountingCarry symbol pm, rows))"

fun preview_positions :: "string \<Rightarrow> int64 \<Rightarrow> int64 \<Rightarrow> PositionManager \<Rightarrow> (pos_key, Position) gomap \<Rightarrow>
    (uint64, int) gomap \<times> pos_key list \<Rightarrow> ((uint64, int) gomap \<times> pos_key list) option" where
  "preview_positions symbol price precision pm [] acc = Some acc"
| "preview_positions symbol price precision pm (((i, sy, s), stored) # rest) (byClient, seen) =
     (let k = (i, sy, s); state = map_of (accounting pm) k
      in if sy \<noteq> symbol then preview_positions symbol price precision pm rest (byClient, seen)
         else if PosSize stored = 0
         then (case state of
                 Some a \<Rightarrow> if acc_size a \<noteq> 0 then None else preview_positions symbol price precision pm rest (byClient, seen)
               | None \<Rightarrow> preview_positions symbol price precision pm rest (byClient, seen))
         else case state of
                None \<Rightarrow> None
              | Some a \<Rightarrow>
             (case prepareExactTransition (Some a) (PosSize stored) (abs64 (PosSize stored)) price
                     (close_side (PosSize stored)) s precision of
                None \<Rightarrow> None
              | Some (candidate, realizedPnL, _) \<Rightarrow>
                  (case unrealizedPnL a price precision of
                     None \<Rightarrow> None
                   | Some cash \<Rightarrow>
                       if realizedPnL \<noteq> cash then None
                       else preview_positions symbol price precision pm rest
                              (addCarry byClient i (carryNumerator candidate), k # seen))))"

fun preview_flat :: "string \<Rightarrow> pos_key list \<Rightarrow> (pos_key, positionAccounting) gomap \<Rightarrow> (uint64, int) gomap \<Rightarrow>
    (uint64, int) gomap option" where
  "preview_flat symbol seen [] byClient = Some byClient"
| "preview_flat symbol seen (((i, sy, s), a) # rest) byClient =
     (if sy \<noteq> symbol \<or> (i, sy, s) \<in> set seen then preview_flat symbol seen rest byClient
      else if acc_size a \<noteq> 0 then None
      else preview_flat symbol seen rest (addCarry byClient i (carryNumerator a)))"

definition PreviewPositionAccountingTerminalization :: "string \<Rightarrow> int64 \<Rightarrow> int64 \<Rightarrow> PositionManager \<Rightarrow>
    PositionAccountingRounding list option" where
  "PreviewPositionAccountingTerminalization symbol settlementPrice precision pm =
     (if precision \<le> 0 then None
      else case preview_positions symbol settlementPrice precision pm (positions pm) ([], []) of
        None \<Rightarrow> None
      | Some (byClient, seen) \<Rightarrow>
          Option.bind (preview_flat symbol seen (accounting pm) byClient)
            (\<lambda>byClient'. roundingFromNumerators byClient' precision))"

section \<open>The realized profit of the rounded path\<close>

definition realizedPerpPnL :: "int64 \<Rightarrow> int64 \<Rightarrow> int64 \<Rightarrow> int64 \<Rightarrow> Side \<Rightarrow> int64 \<Rightarrow> int64 option" where
  "realizedPerpPnL oldSize oldEntryPrice tradeQty tradePrice tradeSide basePrecision =
     (let deltaSize = signed_qty tradeSide tradeQty
      in if oldSize = 0 then Some 0
         else if oldSize > 0 \<and> deltaSize \<ge> 0 \<or> oldSize < 0 \<and> deltaSize \<le> 0 then Some 0
         else let closedQty = (if abs64 deltaSize > abs64 oldSize then abs64 oldSize else abs64 deltaSize);
                  sgn' = (if oldSize < 0 then - 1 else 1)
              in map_option (\<lambda>v. i64 (sgn' * v)) (MulDiv closedQty (i64 (tradePrice - oldEntryPrice)) basePrecision))"

section \<open>The exactness invariant\<close>

text \<open>What ties a stored position to its accounting. Without a precision the symbol is not
  listed and its accounts are flat and drained.\<close>

definition exact_at :: "int64 \<Rightarrow> pos_key \<Rightarrow> positionAccounting \<Rightarrow> Position \<Rightarrow> bool" where
  "exact_at P k a p \<longleftrightarrow> pos_key_of p = k \<and> PosSize p = acc_size a \<and> entryPrice a = Some (PosEntry p) \<and>
     (PosSide p = PositionLong \<longrightarrow> 0 \<le> PosSize p) \<and> (PosSide p = PositionShort \<longrightarrow> PosSize p \<le> 0) \<and>
     (if P > 0 then acc_ok P a else a = newPositionAccounting)"

definition precision_of :: "PositionManager \<Rightarrow> pos_key \<Rightarrow> int64" where
  "precision_of pm k = mget (precisions pm) (fst (snd k))"

definition paired :: "int64 \<Rightarrow> pos_key \<Rightarrow> Position option \<Rightarrow> positionAccounting option \<Rightarrow> bool" where
  "paired P k po ao = (case (po, ao) of
       (None, None) \<Rightarrow> True | (Some p, Some a) \<Rightarrow> exact_at P k a p | _ \<Rightarrow> False)"

definition pm_ok :: "PositionManager \<Rightarrow> bool" where
  "pm_ok pm \<longleftrightarrow> requireExactAccounting pm \<and> is_map (positions pm) \<and> is_map (accounting pm) \<and>
     (\<forall>s. 0 \<le> mget (precisions pm) s \<and> mget (precisions pm) s \<le> MaxInt64) \<and>
     (\<forall>k. paired (precision_of pm k) k (map_of (positions pm) k) (map_of (accounting pm) k))"

lemma paired_simps [simp]:
  "paired P k None None" "paired P k (Some p) (Some a) \<longleftrightarrow> exact_at P k a p"
  "\<not> paired P k (Some p) None" "\<not> paired P k None (Some a)"
  by (simp_all add: paired_def)

lemma pm_ok_paired: "pm_ok pm \<Longrightarrow> paired (precision_of pm k) k (map_of (positions pm) k) (map_of (accounting pm) k)"
  unfolding pm_ok_def by blast

lemma pm_ok_position:
  assumes "pm_ok pm" "map_of (positions pm) k = Some p"
  obtains a where "map_of (accounting pm) k = Some a" "exact_at (precision_of pm k) k a p"
  using pm_ok_paired [OF assms(1), of k] assms(2) by (cases "map_of (accounting pm) k") auto

lemma pm_ok_account:
  assumes "pm_ok pm" "map_of (accounting pm) k = Some a"
  obtains p where "map_of (positions pm) k = Some p" "exact_at (precision_of pm k) k a p"
  using pm_ok_paired [OF assms(1), of k] assms(2) by (cases "map_of (positions pm) k") auto

lemma pm_ok_put:
  assumes "pm_ok pm" "exact_at (precision_of pm k) k a p"
  shows "pm_ok (pm\<lparr>positions := mput (positions pm) k p, accounting := mput (accounting pm) k a\<rparr>)"
  using assms by (auto simp: pm_ok_def precision_of_def)

lemma exact_at_flat: "exact_at P k newPositionAccounting
    \<lparr>PosClient = fst k, PosSymbol = fst (snd k), PosSide = snd (snd k), PosSize = 0, PosEntry = 0, PosMargin = m\<rparr>"
  by (auto simp: exact_at_def pos_key_of_def newPositionAccounting_def entryPrice_def acc_ok_def is_i64_def)

definition acc_at :: "pos_key \<Rightarrow> PositionManager \<Rightarrow> positionAccounting" where
  "acc_at k pm = (case map_of (accounting pm) k of Some a \<Rightarrow> a | None \<Rightarrow> newPositionAccounting)"

lemma pm_ok_at: "pm_ok pm \<Longrightarrow> exact_at (precision_of pm k) k (acc_at k pm) (pos_at k pm)"
  using pm_ok_paired [of pm k] exact_at_flat [of "precision_of pm k" k 0]
  by (cases "map_of (positions pm) k"; cases "map_of (accounting pm) k") (auto simp: acc_at_def pos_at_def)

lemma prepare_at:
  assumes "pm_ok pm"
  shows "prepareExactTransition (map_of (accounting pm) k) (PosSize (pos_at k pm)) q p s ps P =
    prepareExactTransition (Some (acc_at k pm)) (acc_size (acc_at k pm)) q p s ps P"
proof -
  have "PosSize (pos_at k pm) = acc_size (acc_at k pm)"
    using pm_ok_at [OF assms, of k] by (simp add: exact_at_def)
  then show ?thesis
    by (cases "map_of (accounting pm) k")
      (simp_all add: acc_at_def prepareExactTransition_def newPositionAccounting_def)
qed

lemma exact_at_trade:
  assumes e: "exact_at P k a p" and P: "0 < P" "P \<le> MaxInt64" and q: "is_i64 q"
    and run: "prepareExactTransition (Some a) (acc_size a) q pr s (PosSide p) P = Some (a', cash, entry)"
  shows "exact_at P k a' (p\<lparr>PosSize := acc_size a', PosEntry := entry\<rparr>)"
proof -
  have "acc_ok P a" using e P by (simp add: exact_at_def)
  note st = prepare_step [OF this P(2) q run]
  show ?thesis using e P st(1,4,6,7) by (simp add: exact_at_def pos_key_of_def)
qed

lemma updatePosition_exact:
  assumes ok: "pm_ok pm" and P: "0 < mget (precisions pm) sy" and q: "is_i64 q"
  shows "case updatePosition i sy q p s ps pm of
      None \<Rightarrow> \<not> CanUpdatePositionWithAccounting i sy q p s ps pm
    | Some (pm', d, r) \<Rightarrow> CanUpdatePositionWithAccounting i sy q p s ps pm \<and> pm_ok pm' \<and>
        NewSize d = OldSize d + signed_qty s q \<and> r \<noteq> None \<and> precisions pm' = precisions pm"
proof -
  let ?k = "(i, sy, ps)" and ?P = "mget (precisions pm) sy"
  let ?r = "prepareExactTransition (Some (acc_at ?k pm)) (acc_size (acc_at ?k pm)) q p s ps ?P"
  note at = pm_ok_at [OF ok, of ?k]
  have req: "requireExactAccounting pm" and mx: "?P \<le> MaxInt64" using ok by (auto simp: pm_ok_def)
  have sz: "size_at ?k pm = PosSize (pos_at ?k pm)" by (simp add: size_at_def pos_at_def split: option.splits)
  have can: "CanUpdatePositionWithAccounting i sy q p s ps pm \<longleftrightarrow> ?r \<noteq> None"
    using P by (simp add: CanUpdatePositionWithAccounting_def Let_def sz prepare_at [OF ok])
  show ?thesis
  proof (cases ?r)
    case None
    then show ?thesis using P req can by (simp add: updatePosition_def Let_def prepare_at [OF ok])
  next
    case (Some r)
    obtain a' cash entry where r: "r = (a', cash, entry)" by (cases r)
    have ps: "PosSide (pos_at ?k pm) = ps" using at by (simp add: exact_at_def pos_key_of_def)
    have ex: "exact_at ?P ?k (acc_at ?k pm) (pos_at ?k pm)" using at by (simp add: precision_of_def)
    from Some r ps have run: "prepareExactTransition (Some (acc_at ?k pm)) (acc_size (acc_at ?k pm)) q p s
        (PosSide (pos_at ?k pm)) ?P = Some (a', cash, entry)" by simp
    have "acc_ok ?P (acc_at ?k pm)" "PosSize (pos_at ?k pm) = acc_size (acc_at ?k pm)"
      using ex P by (simp_all add: exact_at_def)
    with prepare_step(2) [OF _ mx q run] have "acc_size a' = PosSize (pos_at ?k pm) + signed_qty s q" by simp
    moreover have "exact_at (precision_of pm ?k) ?k a' ((pos_at ?k pm)\<lparr>PosSize := acc_size a', PosEntry := entry\<rparr>)"
      using exact_at_trade [OF ex P mx q run] by (simp add: precision_of_def)
    ultimately show ?thesis
      using P req can Some r pm_ok_put [OF ok]
      by (simp add: updatePosition_def prepare_at [OF ok] Let_def)
  qed
qed

section \<open>Settlement and margin keep the invariant\<close>

text \<open>The closed state of an account at a price.\<close>

definition closed_at :: "int64 \<Rightarrow> int64 \<Rightarrow> positionAccounting \<Rightarrow> positionAccounting" where
  "closed_at P m a = newPositionAccounting\<lparr>carryNumerator := marked_numerator a m smod P\<rparr>"

lemma close_exact:
  assumes e: "exact_at P k a p" and P: "0 < P" "P \<le> MaxInt64" and x: "PosSize p \<noteq> 0"
  shows "prepareExactTransition (Some a) (PosSize p) (abs64 (PosSize p)) m (close_side (PosSize p)) (PosSide p) P =
    map_option (\<lambda>cash. (closed_at P m a, cash, 0)) (unrealizedPnL a m P)"
proof -
  have sz: "PosSize p = acc_size a" and ok: "acc_ok P a"
    and h: "PosSide p = PositionLong \<Longrightarrow> 0 \<le> acc_size a" "PosSide p = PositionShort \<Longrightarrow> acc_size a \<le> 0"
    using e P by (auto simp: exact_at_def)
  from close_at_mark [OF ok P(2) _ h] x show ?thesis
    by (simp add: sz closed_at_def newPositionAccounting_def)
qed

lemma exact_at_closed: "exact_at P k a p \<Longrightarrow> 0 < P \<Longrightarrow> exact_at P k (closed_at P m a) (p\<lparr>PosSize := 0, PosEntry := 0\<rparr>)"
  by (simp add: exact_at_def closed_at_def newPositionAccounting_def pos_key_of_def entryPrice_def acc_ok_def
      smod_sdiv_zero is_i64_def)

lemma settlement_plan_eq:
  assumes ok: "pm_ok pm" and p: "map_of (positions pm) k = Some p" and a: "map_of (accounting pm) k = Some a"
    and P: "0 < precision_of pm k" and x: "PosSize p \<noteq> 0"
  shows "settlement_plan p m (precision_of pm k) pm =
    map_option (\<lambda>cash. (p, closed_at (precision_of pm k) m a, cash)) (unrealizedPnL a m (precision_of pm k))"
proof -
  have e: "exact_at (precision_of pm k) k a p" using pm_ok_paired [OF ok, of k] p a by simp
  have mx: "precision_of pm k \<le> MaxInt64" using ok by (simp add: pm_ok_def precision_of_def)
  have "acc_size a \<noteq> MinInt64" using e P by (simp add: exact_at_def acc_ok_def)
  moreover have "PosSize p = acc_size a" "pos_key_of p = k" using e by (auto simp: exact_at_def)
  ultimately show ?thesis
    using p a x close_exact [OF e P mx x, of m]
    by (cases "unrealizedPnL a m (precision_of pm k)") (simp_all add: settlement_plan_def)
qed

lemma settlement_plan_stored:
  assumes "settlement_plan p m P pm = Some (st, c, cash)"
  shows "\<exists>a. map_of (positions pm) (pos_key_of p) = Some st \<and> map_of (accounting pm) (pos_key_of p) = Some a \<and>
    PosSize st = PosSize p \<and> PosSize p \<noteq> 0"
  using assms by (auto simp: settlement_plan_def split: option.splits if_splits)

lemma settlement_plan_cong:
  "map_of (positions pm) (pos_key_of p) = map_of (positions pm') (pos_key_of p) \<Longrightarrow>
   map_of (accounting pm) (pos_key_of p) = map_of (accounting pm') (pos_key_of p) \<Longrightarrow>
   settlement_plan p m P pm = settlement_plan p m P pm'"
  by (simp add: settlement_plan_def)

lemma Settle_ok:
  assumes ok: "pm_ok pm" and P: "0 < precision_of pm (pos_key_of p)"
    and run: "SettlePositionAtPrice p m (precision_of pm (pos_key_of p)) pm = Some (pm', cash)"
  shows "pm_ok pm' \<and> precisions pm' = precisions pm"
proof -
  let ?k = "pos_key_of p" and ?P = "precision_of pm (pos_key_of p)"
  from run obtain st c where plan: "settlement_plan p m ?P pm = Some (st, c, cash)"
    and pm': "pm' = pm\<lparr>positions := mput (positions pm) ?k (st\<lparr>PosSize := 0, PosEntry := 0\<rparr>),
      accounting := mput (accounting pm) ?k c\<rparr>"
    by (auto simp: SettlePositionAtPrice_def)
  from settlement_plan_stored [OF plan] obtain a where
    st: "map_of (positions pm) ?k = Some st" "map_of (accounting pm) ?k = Some a" "PosSize st \<noteq> 0" "PosSize st = PosSize p" by auto
  have e: "exact_at ?P ?k a st" using pm_ok_paired [OF ok, of ?k] st by simp
  then have eq: "pos_key_of st = ?k" "PosSide st = PosSide p" by (auto simp: exact_at_def pos_key_of_def)
  have "settlement_plan p m ?P pm = settlement_plan st m ?P pm"
    unfolding settlement_plan_def eq st(4) ..
  then have c: "c = closed_at ?P m a"
    using settlement_plan_eq [OF ok st(1,2) P st(3), of m] plan
    by (cases "unrealizedPnL a m ?P") simp_all
  have "exact_at ?P ?k c (st\<lparr>PosSize := 0, PosEntry := 0\<rparr>)" unfolding c by (rule exact_at_closed [OF e P])
  from pm_ok_put [OF ok this] show ?thesis by (simp add: pm')
qed

lemma exact_at_margin: "exact_at P k a (p\<lparr>PosMargin := m\<rparr>) = exact_at P k a p"
  by (simp add: exact_at_def pos_key_of_def)

lemma pm_ok_margin:
  assumes ok: "pm_ok pm" and p: "map_of (positions pm) k = Some p"
  shows "pm_ok (pm\<lparr>positions := mput (positions pm) k (p\<lparr>PosMargin := m\<rparr>)\<rparr>)"
proof -
  have "paired (precision_of pm j) j (map_of (mput (positions pm) k (p\<lparr>PosMargin := m\<rparr>)) j) (map_of (accounting pm) j)" for j
    using pm_ok_paired [OF ok, of j] p
    by (cases "j = k"; cases "map_of (accounting pm) k") (auto simp: exact_at_margin)
  with ok show ?thesis unfolding pm_ok_def precision_of_def by simp
qed

lemma AddPositionMargin_ok: "pm_ok pm \<Longrightarrow> pm_ok (AddPositionMargin i sy s x pm)"
  by (auto simp: AddPositionMargin_def pm_ok_margin split: option.splits)

lemma ReleasePositionMargin_ok: "pm_ok pm \<Longrightarrow> ReleasePositionMargin i sy s q z pm = Some (pm', r) \<Longrightarrow> pm_ok pm'"
  by (auto simp: ReleasePositionMargin_def Let_def pm_ok_margin split: option.splits if_splits)

lemma map_of_clear:
  "map_of (map (\<lambda>((i, sy, s), a). ((i, sy, s), if sy = symbol then f a else a)) m) k =
     map_option (if fst (snd k) = symbol then f else id) (map_of m k)"
  by (induction m) auto

lemma flat_loop_flat:
  "flat_loop symbol m b \<noteq> None \<Longrightarrow> ((i, symbol, s), a) \<in> set m \<Longrightarrow> acc_size a = 0"
  by (induction symbol m b rule: flat_loop.induct) (auto split: if_splits)

lemma drained:
  assumes "exact_at P k a p" "acc_size a = 0"
  shows "a\<lparr>carryNumerator := 0\<rparr> = newPositionAccounting"
  using assms by (auto simp: exact_at_def newPositionAccounting_def acc_ok_def split: if_splits)

lemma clear_ok:
  assumes ok: "pm_ok pm" and fl: "flat_loop symbol (accounting pm) [] \<noteq> None"
  shows "pm_ok (clearAccountingCarry symbol pm)"
    "\<And>k a. map_of (accounting (clearAccountingCarry symbol pm)) k = Some a \<Longrightarrow> fst (snd k) = symbol \<Longrightarrow> a = newPositionAccounting"
proof -
  have im: "is_map (accounting pm)" using ok by (simp add: pm_ok_def)
  have new: "a\<lparr>carryNumerator := 0\<rparr> = newPositionAccounting \<and> PosSize p = 0 \<and> PosEntry p = 0"
    if "map_of (accounting pm) k = Some a" "map_of (positions pm) k = Some p" "fst (snd k) = symbol" for k a p
  proof -
    obtain i sy s where "k = (i, sy, s)" by (cases k) auto
    with that(3) have k: "k = (i, symbol, s)" by simp
    have "acc_size a = 0" using flat_loop_flat [OF fl, of i s a] map_of_SomeD [OF that(1)] k by simp
    moreover have "exact_at (precision_of pm k) k a p" using pm_ok_paired [OF ok, of k] that by simp
    ultimately show ?thesis using drained by (auto simp: exact_at_def entryPrice_def)
  qed
  show *: "\<And>k a. map_of (accounting (clearAccountingCarry symbol pm)) k = Some a \<Longrightarrow> fst (snd k) = symbol \<Longrightarrow>
      a = newPositionAccounting"
  proof -
    fix k a
    assume a: "map_of (accounting (clearAccountingCarry symbol pm)) k = Some a" and k: "fst (snd k) = symbol"
    then obtain a0 where a0: "map_of (accounting pm) k = Some a0" "a = a0\<lparr>carryNumerator := 0\<rparr>"
      by (auto simp: clearAccountingCarry_def map_of_clear)
    obtain p where "map_of (positions pm) k = Some p" using pm_ok_account [OF ok a0(1)] by blast
    from new [OF a0(1) this k] a0(2) show "a = newPositionAccounting" by simp
  qed
  have "paired (precision_of pm k) k (map_of (positions pm) k) (map_of (accounting (clearAccountingCarry symbol pm)) k)" for k
  proof (cases "fst (snd k) = symbol")
    case False
    then show ?thesis using pm_ok_paired [OF ok, of k] by (simp add: clearAccountingCarry_def map_of_clear option.map_id)
  next
    case True
    show ?thesis
    proof (cases "map_of (positions pm) k")
      case None
      then have "map_of (accounting pm) k = None" using pm_ok_account [OF ok, of k] by (cases "map_of (accounting pm) k") auto
      with None show ?thesis by (simp add: clearAccountingCarry_def map_of_clear)
    next
      case (Some p)
      obtain a where a: "map_of (accounting pm) k = Some a" "exact_at (precision_of pm k) k a p"
        using pm_ok_position [OF ok Some] .
      have n: "a\<lparr>carryNumerator := 0\<rparr> = newPositionAccounting" "PosSize p = 0" "PosEntry p = 0"
        using new [OF a(1) Some True] by auto
      have "exact_at (precision_of pm k) k newPositionAccounting p"
        using a(2) n by (auto simp: exact_at_def newPositionAccounting_def entryPrice_def acc_ok_def is_i64_def)
      then show ?thesis using a(1) Some True n(1) by (simp add: clearAccountingCarry_def map_of_clear)
    qed
  qed
  moreover have "is_map (accounting (clearAccountingCarry symbol pm))"
    using im by (simp add: clearAccountingCarry_def is_map_def comp_def case_prod_beta)
  ultimately show "pm_ok (clearAccountingCarry symbol pm)"
    using ok unfolding pm_ok_def precision_of_def by (simp add: clearAccountingCarry_def)
qed

section \<open>The store as a state machine\<close>

text \<open>The exchange lists a symbol with its precision before the first order, runs the store in
  exact mode, and clears the precision of a symbol only after its carry was drained.\<close>

inductive pm_step :: "PositionManager \<Rightarrow> PositionManager \<Rightarrow> bool" where
  list_symbol: "0 < P \<Longrightarrow> P \<le> MaxInt64 \<Longrightarrow> mget (precisions pm) sy \<in> {0, P} \<Longrightarrow>
    pm_step pm (SetPositionPrecision sy P pm)"
| trade: "0 < mget (precisions pm) sy \<Longrightarrow> is_i64 q \<Longrightarrow> updatePosition i sy q p s ps pm = Some (pm', d, r) \<Longrightarrow>
    pm_step pm pm'"
| add_margin: "pm_step pm (AddPositionMargin i sy s x pm)"
| release_margin: "ReleasePositionMargin i sy s q z pm = Some (pm', r) \<Longrightarrow> pm_step pm pm'"
| settle: "0 < mget (precisions pm) (PosSymbol p) \<Longrightarrow>
    SettlePositionAtPrice p m (mget (precisions pm) (PosSymbol p)) pm = Some (pm', cash) \<Longrightarrow> pm_step pm pm'"
| drain: "DrainPositionAccountingCarry sy P pm = Some (pm', rows) \<Longrightarrow> pm_step pm pm'"
| commit: "CommitPositionAccountingCarry sy P expected pm = Some (pm', rows) \<Longrightarrow> pm_step pm pm'"
| delist: "(\<And>k a. map_of (accounting pm) k = Some a \<Longrightarrow> fst (snd k) = sy \<Longrightarrow> a = newPositionAccounting) \<Longrightarrow>
    pm_step pm (ClearPositionPrecision sy pm)"

definition pm_start :: PositionManager where
  "pm_start = SetRequireExactLinearPositionAccounting True NewPositionManager"

lemma pm_start_ok: "pm_ok pm_start"
  by (simp add: pm_ok_def pm_start_def SetRequireExactLinearPositionAccounting_def NewPositionManager_def)

lemma exact_at_new_any:
  "exact_at P k newPositionAccounting p \<Longrightarrow> exact_at P' k newPositionAccounting p"
  by (auto simp: exact_at_def acc_ok_new)

lemma pm_ok_precision:
  assumes ok: "pm_ok pm" and P: "0 \<le> P" "P \<le> MaxInt64" and pm': "pm' = pm\<lparr>precisions := ps\<rparr>"
    and ps: "\<And>s. mget ps s = (if s = sy then P else mget (precisions pm) s)"
    and new: "\<And>k a. map_of (accounting pm) k = Some a \<Longrightarrow> fst (snd k) = sy \<Longrightarrow>
      mget (precisions pm) sy = P \<or> a = newPositionAccounting"
  shows "pm_ok pm'"
proof -
  have "paired (precision_of pm' k) k (map_of (positions pm) k) (map_of (accounting pm) k)" for k
  proof (cases "map_of (accounting pm) k")
    case None
    then show ?thesis using pm_ok_paired [OF ok, of k] by (cases "map_of (positions pm) k") auto
  next
    case (Some a)
    obtain p where p: "map_of (positions pm) k = Some p" "exact_at (precision_of pm k) k a p"
      by (rule pm_ok_account [OF ok Some])
    then have "exact_at (precision_of pm' k) k a p"
      using new [OF Some] exact_at_new_any [of "precision_of pm k" k p]
      by (cases "fst (snd k) = sy") (auto simp: precision_of_def pm' ps)
    with Some p show ?thesis by simp
  qed
  with ok P show ?thesis unfolding pm_ok_def by (simp add: pm' ps)
qed

lemma rounding_flat: "roundingForFlatAccounting sy P pm \<noteq> None \<Longrightarrow> flat_loop sy (accounting pm) [] \<noteq> None"
  by (auto simp: roundingForFlatAccounting_def bind_eq_Some_conv split: if_splits)

lemma mget_delete: "mget (AList.delete k m) k' = (if k' = k then 0 else mget m k')"
  by (simp add: mget_def delete_conv')

lemma pm_step_ok:
  assumes "pm_step pm pm'" "pm_ok pm"
  shows "pm_ok pm'"
  using assms
proof (induction rule: pm_step.induct)
  case (list_symbol P pm sy)
  have new: "mget (precisions pm) sy = P \<or> a = newPositionAccounting"
    if a: "map_of (accounting pm) k = Some a" "fst (snd k) = sy" for k a
  proof -
    from pm_ok_account [OF list_symbol(4) a(1)] obtain p where "exact_at (precision_of pm k) k a p" by blast
    with a(2) list_symbol(3) show ?thesis by (auto simp: exact_at_def precision_of_def)
  qed
  have "pm_ok (pm\<lparr>precisions := mput (precisions pm) sy P\<rparr>)"
    by (rule pm_ok_precision [OF list_symbol(4) _ list_symbol(2) refl _ new]) (use list_symbol(1) in simp_all)
  with list_symbol(1) show ?case by (simp add: SetPositionPrecision_def)
next
  case (trade pm sy q i p s ps pm' d r)
  then show ?case using updatePosition_exact [of pm sy q i p s ps] by simp
next
  case (settle pm p m pm' cash)
  then show ?case using Settle_ok [of pm p m pm' cash] by (simp add: precision_of_def pos_key_of_def)
next
  case (drain sy P pm pm' rows)
  then show ?case using clear_ok(1) [of pm sy] rounding_flat [of sy P pm] by (auto simp: DrainPositionAccountingCarry_def)
next
  case (commit sy P expected pm pm' rows)
  then show ?case using clear_ok(1) [of pm sy] rounding_flat [of sy P pm]
    by (auto simp: CommitPositionAccountingCarry_def split: option.splits if_splits)
next
  case (delist pm sy)
  have new: "mget (precisions pm) sy = 0 \<or> a = newPositionAccounting"
    if "map_of (accounting pm) k = Some a" "fst (snd k) = sy" for k a
    using delist(1) [OF that] ..
  show ?case unfolding ClearPositionPrecision_def
    by (rule pm_ok_precision [OF delist(2) _ _ refl _ new]) (simp_all add: mget_delete)
qed (auto intro: AddPositionMargin_ok ReleasePositionMargin_ok)

lemma reachable_pm_ok: "pm_step\<^sup>*\<^sup>* pm_start pm \<Longrightarrow> pm_ok pm"
  by (induction rule: rtranclp_induct) (auto simp: pm_start_ok pm_step_ok)

lemma is_mapD: "is_map m \<Longrightarrow> (k, v) \<in> set m \<Longrightarrow> map_of m k = Some v"
  by (simp add: is_map_def)

section \<open>Rounding rows depend only on the carries\<close>

definition add_carries :: "(uint64, int) gomap \<Rightarrow> (uint64 \<times> int) list \<Rightarrow> (uint64, int) gomap" where
  "add_carries m xs = foldl (\<lambda>m (i, v). addCarry m i v) m xs"

lemma add_carries_simps [simp]:
  "add_carries m [] = m" "add_carries m ((i, v) # xs) = add_carries (addCarry m i v) xs"
  "add_carries m (xs @ ys) = add_carries (add_carries m xs) ys"
  by (simp_all add: add_carries_def)

lemma add_carries_is_map: "is_map m \<Longrightarrow> is_map (add_carries m xs)"
  by (induction xs arbitrary: m) (auto simp: addCarry_def)

lemma map_of_add_carries:
  "map_of (add_carries m xs) c =
    (if map_of m c = None \<and> (\<forall>(i, v)\<in>set xs. i = c \<longrightarrow> v = 0) then None
     else Some (mget m c + (\<Sum>(i, v)\<leftarrow>xs. if i = c then v else 0)))"
proof (induction xs arbitrary: m)
  case Nil
  then show ?case by (simp add: mget_def split: option.splits)
next
  case (Cons x xs)
  obtain i v where x: "x = (i, v)" by (cases x)
  show ?case
    unfolding x add_carries_simps Cons.IH by (auto simp: addCarry_def mget_def split: option.splits)
qed

lemma rounding_rows_cong:
  "(\<And>i. i \<in> set is \<Longrightarrow> mget m i = mget m' i) \<Longrightarrow> rounding_rows m P is = rounding_rows m' P is"
  by (induction "is") (auto simp: Let_def split: option.splits)

lemma roundingFromNumerators_cong:
  assumes "is_map m" "is_map m'" "map_of m = map_of m'"
  shows "roundingFromNumerators m P = roundingFromNumerators m' P"
proof -
  have "fst ` set m = fst ` set m'" using assms(3) by (metis dom_map_of_conv_image_fst)
  then have "mkeys m = mkeys m'"
    using assms(1,2) by (intro sorted_distinct_set_unique) (auto simp: mkeys_def is_map_def)
  moreover have "mget m i = mget m' i" for i using assms(3) by (simp add: mget_def)
  ultimately show ?thesis unfolding roundingFromNumerators_def by (auto intro: rounding_rows_cong)
qed

lemma rounding_mset:
  assumes "mset xs = mset ys"
  shows "roundingFromNumerators (add_carries [] xs) P = roundingFromNumerators (add_carries [] ys) P"
proof -
  have s: "set xs = set ys" using assms by (metis set_mset_mset)
  have "(\<Sum>(i, v)\<leftarrow>xs. if i = c then v else 0) = (\<Sum>(i, v)\<leftarrow>ys. if i = c then v else (0::int))" for c
    using assms by (metis (no_types) mset_map sum_mset_sum_list)
  then have "map_of (add_carries [] xs) = map_of (add_carries [] ys)"
    unfolding map_of_add_carries fun_eq_iff s by simp
  then show ?thesis by (intro roundingFromNumerators_cong add_carries_is_map) auto
qed

section \<open>The preview and the commit see the same carries\<close>

abbreviation open_in :: "string \<Rightarrow> pos_key \<times> Position \<Rightarrow> bool" where
  "open_in sy \<equiv> \<lambda>(k, p). fst (snd k) = sy \<and> PosSize p \<noteq> 0"

definition carry_row :: "(pos_key \<Rightarrow> positionAccounting) \<Rightarrow> pos_key \<Rightarrow> uint64 \<times> int" where
  "carry_row f k = (fst k, carryNumerator (f k))"

lemma flat_loop_eq:
  "flat_loop sy m b =
    (if \<forall>(k, a)\<in>set m. fst (snd k) = sy \<longrightarrow> acc_size a = 0
     then Some (add_carries b (map (\<lambda>(k, a). (fst k, carryNumerator a)) (filter (\<lambda>(k, a). fst (snd k) = sy) m)))
     else None)"
  by (induction sy m b rule: flat_loop.induct) (auto simp: addCarry_def)

lemma preview_flat_Some:
  "preview_flat sy seen m b = Some b' \<Longrightarrow>
    (\<forall>(k, a)\<in>set m. fst (snd k) = sy \<and> k \<notin> set seen \<longrightarrow> acc_size a = 0) \<and>
    b' = add_carries b (map (\<lambda>(k, a). (fst k, carryNumerator a)) (filter (\<lambda>(k, a). fst (snd k) = sy \<and> k \<notin> set seen) m))"
  by (induction sy seen m b rule: preview_flat.induct) (auto split: if_splits)

text \<open>What the first loop of the preview checks of an open position.\<close>

definition closable :: "int64 \<Rightarrow> int64 \<Rightarrow> PositionManager \<Rightarrow> pos_key \<Rightarrow> Position \<Rightarrow> bool" where
  "closable m P pm k p \<longleftrightarrow> (\<exists>a cash. map_of (accounting pm) k = Some a \<and> unrealizedPnL a m P = Some cash)"

lemma preview_positions_Some:
  assumes "preview_positions sy m P pm ps (b, seen) = Some (b', seen')" "0 < P" "P \<le> MaxInt64"
    and "\<And>k p a. (k, p) \<in> set ps \<Longrightarrow> fst (snd k) = sy \<Longrightarrow> map_of (accounting pm) k = Some a \<Longrightarrow> exact_at P k a p"
  shows "(\<forall>(k, p)\<in>set (filter (open_in sy) ps). closable m P pm k p) \<and>
    seen' = rev (map fst (filter (open_in sy) ps)) @ seen \<and>
    b' = add_carries b (map (\<lambda>(k, p). carry_row (\<lambda>k. closed_at P m (acc_at k pm)) k) (filter (open_in sy) ps))"
  using assms
proof (induction sy m P pm ps "(b, seen)" arbitrary: b seen rule: preview_positions.induct)
  case (1 sy m P pm)
  then show ?case by simp
next
  case (2 sy m P pm i sy' s stored rest b seen)
  let ?k = "(i, sy', s)"
  have rest: "\<And>k p a. (k, p) \<in> set rest \<Longrightarrow> fst (snd k) = sy \<Longrightarrow> map_of (accounting pm) k = Some a \<Longrightarrow> exact_at P k a p"
    using "2.prems"(4) by simp
  show ?case
  proof (cases "sy' = sy \<and> PosSize stored \<noteq> 0")
    case False
    then have "preview_positions sy m P pm rest (b, seen) = Some (b', seen')"
      using "2.prems"(1) by (auto simp: Let_def split: if_splits option.splits)
    with False "2.hyps"(1) [OF refl refl] "2.hyps"(2,3) [OF refl refl] "2.prems"(2,3) rest show ?thesis
      using "2.prems"(1) by (auto simp: Let_def split: if_splits option.splits)
  next
    case True
    from "2.prems"(1) True obtain a where a: "map_of (accounting pm) ?k = Some a"
      by (auto simp: Let_def split: if_splits option.splits)
    have e: "exact_at P ?k a stored" using "2.prems"(4) [of ?k stored a] a True by simp
    then have s: "PosSide stored = s" by (simp add: exact_at_def pos_key_of_def)
    have x: "PosSize stored \<noteq> 0" using True by simp
    note cl = close_exact [OF e "2.prems"(2,3) x, of m, unfolded s]
    from "2.prems"(1) True a obtain cash where cash: "unrealizedPnL a m P = Some cash"
      by (auto simp: Let_def cl split: if_splits option.splits)
    have ac: "acc_at ?k pm = a" using a by (simp add: acc_at_def)
    have next': "preview_positions sy m P pm rest (addCarry b i (carryNumerator (closed_at P m a)), ?k # seen) = Some (b', seen')"
      using "2.prems"(1) True a cash by (simp add: Let_def cl)
    have "(\<forall>(k, p)\<in>set (filter (open_in sy) rest). closable m P pm k p) \<and>
      seen' = rev (map fst (filter (open_in sy) rest)) @ ?k # seen \<and>
      b' = add_carries (addCarry b i (carryNumerator (closed_at P m a)))
        (map (\<lambda>(k, p). carry_row (\<lambda>k. closed_at P m (acc_at k pm)) k) (filter (open_in sy) rest))"
      using "2.hyps"(4) [OF refl refl] next' True a cash cl "2.prems"(2,3) rest by auto
    then show ?thesis using True a cash ac by (auto simp: closable_def carry_row_def)
  qed
qed

section \<open>Settling every open position\<close>

fun settle_all :: "int64 \<Rightarrow> int64 \<Rightarrow> (uint64 \<times> Position) list \<Rightarrow> PositionManager \<Rightarrow> PositionManager option" where
  "settle_all m P [] pm = Some pm"
| "settle_all m P ((i, p) # ps) pm =
     (case SettlePositionAtPrice p m P pm of None \<Rightarrow> None | Some (pm', cash) \<Rightarrow> settle_all m P ps pm')"

lemma mem_client_rows:
  "(j, p) \<in> set (client_rows sy pm i) \<longleftrightarrow> j = i \<and> (\<exists>s. map_of (positions pm) (i, sy, s) = Some p \<and> PosSize p \<noteq> 0)"
proof -
  have one: "(j, p) \<in> set (case map_of (positions pm) (i, sy, s) of None \<Rightarrow> [] | Some p \<Rightarrow> if PosSize p = 0 then [] else [(i, p)]) \<longleftrightarrow>
      j = i \<and> map_of (positions pm) (i, sy, s) = Some p \<and> PosSize p \<noteq> 0" for s
    by (cases "map_of (positions pm) (i, sy, s)") auto
  have "s \<in> set [PositionBoth, PositionLong, PositionShort]" for s by (cases s) simp_all
  then show ?thesis unfolding client_rows_def set_concat set_map UN_iff bex_simps image_iff one by blast
qed

lemma mem_PositionsForFunding:
  "(i, p) \<in> set (PositionsForFunding sy pm) \<longleftrightarrow> (\<exists>s. map_of (positions pm) (i, sy, s) = Some p \<and> PosSize p \<noteq> 0)"
proof -
  have own: "i \<in> set (sort (remdups (map (fst \<circ> fst) (positions pm))))" if "map_of (positions pm) (i, sy, s) = Some p" for s
    using map_of_SomeD [OF that] by (force simp: image_iff)
  have "(i, p) \<in> set (PositionsForFunding sy pm) \<longleftrightarrow>
      (\<exists>j\<in>set (sort (remdups (map (fst \<circ> fst) (positions pm)))). (i, p) \<in> set (client_rows sy pm j))"
    by (simp add: PositionsForFunding_def)
  also have "\<dots> \<longleftrightarrow> i \<in> set (sort (remdups (map (fst \<circ> fst) (positions pm)))) \<and> (i, p) \<in> set (client_rows sy pm i)"
    using mem_client_rows [of i p sy pm] by metis
  finally show ?thesis using own mem_client_rows [of i p sy pm i] by metis
qed

lemma pm_ok_key: "pm_ok pm \<Longrightarrow> map_of (positions pm) k = Some p \<Longrightarrow> pos_key_of p = k"
  by (metis exact_at_def pm_ok_position)

lemma set_PositionsForFunding:
  assumes ok: "pm_ok pm"
  shows "set (map (pos_key_of \<circ> snd) (PositionsForFunding sy pm)) = {k. fst (snd k) = sy \<and> PosSize (pos_at k pm) \<noteq> 0}"
    "\<And>i p. (i, p) \<in> set (PositionsForFunding sy pm) \<Longrightarrow>
       map_of (positions pm) (pos_key_of p) = Some p \<and> PosSize p \<noteq> 0 \<and> PosSymbol p = sy \<and> i = PosClient p"
proof -
  note key = pm_ok_key [OF ok] and mem = mem_PositionsForFunding [of _ _ sy pm]
  show "map_of (positions pm) (pos_key_of p) = Some p \<and> PosSize p \<noteq> 0 \<and> PosSymbol p = sy \<and> i = PosClient p"
    if "(i, p) \<in> set (PositionsForFunding sy pm)" for i p
    using that key by (auto simp: mem pos_key_of_def)
  show "set (map (pos_key_of \<circ> snd) (PositionsForFunding sy pm)) = {k. fst (snd k) = sy \<and> PosSize (pos_at k pm) \<noteq> 0}"
  proof (intro set_eqI iffI)
    fix k
    assume "k \<in> set (map (pos_key_of \<circ> snd) (PositionsForFunding sy pm))"
    then obtain i p s where "k = pos_key_of p" "map_of (positions pm) (i, sy, s) = Some p" "PosSize p \<noteq> 0"
      using mem by auto
    with key [of "(i, sy, s)" p] show "k \<in> {k. fst (snd k) = sy \<and> PosSize (pos_at k pm) \<noteq> 0}"
      by (simp add: pos_at_def)
  next
    fix k
    assume k: "k \<in> {k. fst (snd k) = sy \<and> PosSize (pos_at k pm) \<noteq> 0}"
    obtain i sy' s where "k = (i, sy', s)" by (cases k) auto
    with k have e: "k = (i, sy, s)" and z: "PosSize (pos_at k pm) \<noteq> 0" by auto
    then obtain p where p: "map_of (positions pm) (i, sy, s) = Some p" "PosSize p \<noteq> 0"
      by (auto simp: pos_at_def split: option.splits)
    then have "(i, p) \<in> set (PositionsForFunding sy pm)" "pos_key_of p = k" using mem key e by blast+
    then show "k \<in> set (map (pos_key_of \<circ> snd) (PositionsForFunding sy pm))" by force
  qed
qed

lemma distinct_client_rows: "pm_ok pm \<Longrightarrow> distinct (map (pos_key_of \<circ> snd) (client_rows sy pm i))"
  unfolding client_rows_def by (auto simp: pm_ok_key split: option.splits)

lemma client_rows_key:
  "pm_ok pm \<Longrightarrow> k \<in> set (map (pos_key_of \<circ> snd) (client_rows sy pm i)) \<Longrightarrow> fst k = i"
  by (fastforce simp: mem_client_rows dest: pm_ok_key)

lemma distinct_PositionsForFunding:
  assumes ok: "pm_ok pm"
  shows "distinct (map (pos_key_of \<circ> snd) (PositionsForFunding sy pm))"
proof -
  have "distinct is \<Longrightarrow> distinct (map (pos_key_of \<circ> snd) (concat (map (client_rows sy pm) is)))" for "is"
  proof (induction "is")
    case (Cons i "is")
    have "\<exists>j\<in>set is. fst k = j" if "k \<in> set (map (pos_key_of \<circ> snd) (concat (map (client_rows sy pm) is)))" for k
      using that client_rows_key [OF ok, of k sy] by auto
    then have "set (map (pos_key_of \<circ> snd) (client_rows sy pm i)) \<inter>
        set (map (pos_key_of \<circ> snd) (concat (map (client_rows sy pm) is))) = {}"
      using Cons.prems client_rows_key [OF ok, of _ sy i] by (metis disjoint_iff distinct.simps(2))
    with Cons distinct_client_rows [OF ok, of sy i] show ?case by (simp add: comp_def)
  qed simp
  then show ?thesis by (simp add: PositionsForFunding_def)
qed

lemma settle_all_ok:
  assumes "pm_ok pm" "0 < P" "distinct (map (pos_key_of \<circ> snd) ps)"
    and "\<forall>(i, p)\<in>set ps. map_of (positions pm) (pos_key_of p) = Some p \<and> PosSize p \<noteq> 0 \<and> mget (precisions pm) (PosSymbol p) = P \<and>
      closable m P pm (pos_key_of p) p"
  shows "\<exists>pm'. settle_all m P ps pm = Some pm' \<and> pm_ok pm' \<and> precisions pm' = precisions pm \<and>
    (\<forall>k. map_of (accounting pm') k = (if k \<in> set (map (pos_key_of \<circ> snd) ps)
       then Some (closed_at P m (acc_at k pm)) else map_of (accounting pm) k))"
  using assms
proof (induction ps arbitrary: pm)
  case (Cons x ps)
  obtain i p where x: "x = (i, p)" by (cases x)
  let ?k = "pos_key_of p"
  have p: "map_of (positions pm) ?k = Some p" "PosSize p \<noteq> 0" "mget (precisions pm) (PosSymbol p) = P"
    and cl: "closable m P pm ?k p" using Cons.prems(4) by (auto simp: x)
  obtain a cash where a: "map_of (accounting pm) ?k = Some a" "unrealizedPnL a m P = Some cash"
    using cl by (auto simp: closable_def)
  have P: "precision_of pm ?k = P" using p(3) by (simp add: precision_of_def pos_key_of_def)
  define pm1 where "pm1 = pm\<lparr>positions := mput (positions pm) ?k (p\<lparr>PosSize := 0, PosEntry := 0\<rparr>),
      accounting := mput (accounting pm) ?k (closed_at P m a)\<rparr>"
  have s: "SettlePositionAtPrice p m P pm = Some (pm1, cash)"
    using settlement_plan_eq [OF Cons.prems(1) p(1) a(1) _ p(2), of m] a(2) Cons.prems(2) P
    by (simp add: SettlePositionAtPrice_def pm1_def)
  have ok1: "pm_ok pm1" "precisions pm1 = precisions pm"
    using Settle_ok [OF Cons.prems(1), of p m pm1 cash] s P Cons.prems(2) by simp_all
  have ne: "pos_key_of q \<noteq> ?k" if "(j, q) \<in> set ps" for j q
    using Cons.prems(3) that by (force simp: x)
  have "\<forall>(j, q)\<in>set ps. map_of (positions pm1) (pos_key_of q) = Some q \<and> PosSize q \<noteq> 0 \<and>
      mget (precisions pm1) (PosSymbol q) = P \<and> closable m P pm1 (pos_key_of q) q"
    using Cons.prems(4) ne ok1(2) by (fastforce simp: pm1_def closable_def)
  then obtain pm' where pm': "settle_all m P ps pm1 = Some pm'" "pm_ok pm'" "precisions pm' = precisions pm1"
    "\<forall>k. map_of (accounting pm') k = (if k \<in> set (map (pos_key_of \<circ> snd) ps)
       then Some (closed_at P m (acc_at k pm1)) else map_of (accounting pm1) k)"
    using Cons.IH [OF ok1(1) Cons.prems(2)] Cons.prems(3) by (auto simp: x)
  have "acc_at k pm1 = acc_at k pm" if "k \<in> set (map (pos_key_of \<circ> snd) ps)" for k
    using that ne by (force simp: acc_at_def pm1_def)
  moreover have "acc_at ?k pm = a" using a by (simp add: acc_at_def)
  moreover have "?k \<notin> set (map (pos_key_of \<circ> snd) ps)" using Cons.prems(3) by (simp add: x)
  ultimately show ?case using pm' ok1(2) s x by (auto simp: pm1_def)
qed auto

lemma carries_agree:
  assumes K: "distinct K1" "distinct K2" "distinct K3" "set K1 \<inter> set K2 = {}" "set K3 = set K1 \<union> set K2"
  shows "mset (map (carry_row f) K1 @ map (carry_row f) K2) = mset (map (carry_row f) K3)"
proof -
  have "mset (K1 @ K2) = mset K3"
    using K by (intro iffD1 [OF set_eq_iff_mset_eq_distinct]) auto
  then have "image_mset (carry_row f) (mset (K1 @ K2)) = image_mset (carry_row f) (mset K3)" by simp
  then show ?thesis by simp
qed

lemma distinct_keys: "is_map m \<Longrightarrow> distinct (map fst (filter Q m))"
  by (simp add: is_map_def distinct_map_filter)

lemma map_by_key: "(\<And>k a. (k, a) \<in> set xs \<Longrightarrow> g (k, a) = h k) \<Longrightarrow> map g xs = map h (map fst xs)"
  by auto

lemma mem_filter_keys:
  assumes "is_map m"
  shows "k \<in> set (map fst (filter (\<lambda>(k, a). Q k) m)) \<longleftrightarrow> Q k \<and> (\<exists>a. map_of m k = Some a)"
proof
  assume "k \<in> set (map fst (filter (\<lambda>(k, a). Q k) m))"
  then obtain a where "(k, a) \<in> set m" "Q k" by auto
  with is_mapD [OF assms] show "Q k \<and> (\<exists>a. map_of m k = Some a)" by blast
next
  assume "Q k \<and> (\<exists>a. map_of m k = Some a)"
  then obtain a where "(k, a) \<in> set m" "Q k" by (blast dest: map_of_SomeD)
  then show "k \<in> set (map fst (filter (\<lambda>(k, a). Q k) m))" by (force simp: image_iff)
qed

definition open_keys :: "string \<Rightarrow> PositionManager \<Rightarrow> pos_key list" where
  "open_keys sy pm = map fst (filter (open_in sy) (positions pm))"

definition idle_keys :: "string \<Rightarrow> PositionManager \<Rightarrow> pos_key list" where
  "idle_keys sy pm = map fst (filter (\<lambda>(k, a). fst (snd k) = sy \<and> k \<notin> set (open_keys sy pm)) (accounting pm))"

text \<open>The accounts after every open position of the symbol was closed.\<close>

definition final_acc :: "string \<Rightarrow> int64 \<Rightarrow> int64 \<Rightarrow> PositionManager \<Rightarrow> pos_key \<Rightarrow> positionAccounting" where
  "final_acc sy m P pm k = (if k \<in> set (open_keys sy pm) then closed_at P m (acc_at k pm) else acc_at k pm)"

lemma mem_open_keys:
  assumes "pm_ok pm"
  shows "k \<in> set (open_keys sy pm) \<longleftrightarrow> fst (snd k) = sy \<and> PosSize (pos_at k pm) \<noteq> 0"
proof -
  have im: "is_map (positions pm)" using assms by (simp add: pm_ok_def)
  have "k \<in> set (open_keys sy pm) \<longleftrightarrow> (\<exists>p. map_of (positions pm) k = Some p \<and> fst (snd k) = sy \<and> PosSize p \<noteq> 0)"
    using im by (force simp: open_keys_def is_map_def dest: map_of_SomeD)
  then show ?thesis by (auto simp: pos_at_def split: option.splits)
qed

lemma mem_idle_keys:
  assumes "pm_ok pm"
  shows "k \<in> set (idle_keys sy pm) \<longleftrightarrow>
    fst (snd k) = sy \<and> k \<notin> set (open_keys sy pm) \<and> (\<exists>a. map_of (accounting pm) k = Some a)"
proof -
  have "is_map (accounting pm)" using assms by (simp add: pm_ok_def)
  from mem_filter_keys [OF this, of k "\<lambda>k. fst (snd k) = sy \<and> k \<notin> set (open_keys sy pm)"] show ?thesis
    unfolding idle_keys_def by argo
qed

lemma preview_shape:
  assumes ok: "pm_ok pm" and P: "0 < mget (precisions pm) sy"
    and pv: "PreviewPositionAccountingTerminalization sy m (mget (precisions pm) sy) pm = Some rows"
  defines "P' \<equiv> mget (precisions pm) sy"
  shows "(\<forall>(k, p)\<in>set (filter (open_in sy) (positions pm)). closable m P' pm k p) \<and>
    (\<forall>(k, a)\<in>set (accounting pm). fst (snd k) = sy \<and> k \<notin> set (open_keys sy pm) \<longrightarrow> acc_size a = 0) \<and>
    roundingFromNumerators (add_carries [] (map (carry_row (final_acc sy m P' pm)) (open_keys sy pm) @
      map (carry_row (final_acc sy m P' pm)) (idle_keys sy pm))) P' = Some rows"
proof -
  have im: "is_map (positions pm)" "is_map (accounting pm)" and mx: "P' \<le> MaxInt64" and P': "0 < P'"
    using ok P by (auto simp: pm_ok_def P'_def)
  have ex: "exact_at P' k a p" if "(k, p) \<in> set (positions pm)" "fst (snd k) = sy" "map_of (accounting pm) k = Some a" for k p a
    using pm_ok_paired [OF ok, of k] is_mapD [OF im(1) that(1)] that(2,3) by (simp add: precision_of_def P'_def)
  from pv obtain b seen b' where
    pp: "preview_positions sy m P' pm (positions pm) ([], []) = Some (b, seen)"
    and pf: "preview_flat sy seen (accounting pm) b = Some b'" and rows: "roundingFromNumerators b' P' = Some rows"
    by (auto simp: PreviewPositionAccountingTerminalization_def bind_eq_Some_conv P'_def split: if_splits option.splits)
  let ?f = "final_acc sy m P' pm"
  have F: "(\<forall>(k, p)\<in>set (filter (open_in sy) (positions pm)). closable m P' pm k p) \<and>
    seen = rev (map fst (filter (open_in sy) (positions pm))) @ [] \<and>
    b = add_carries [] (map (\<lambda>(k, p). carry_row (\<lambda>k. closed_at P' m (acc_at k pm)) k) (filter (open_in sy) (positions pm)))"
    by (rule preview_positions_Some [OF pp P' mx]) (rule ex)
  have seen: "set seen = set (open_keys sy pm)"
    unfolding conjunct1 [OF conjunct2 [OF F]] open_keys_def by (simp only: append_Nil2 set_rev)
  have "map (\<lambda>(k, p). carry_row (\<lambda>k. closed_at P' m (acc_at k pm)) k) (filter (open_in sy) (positions pm)) =
      map (carry_row ?f) (open_keys sy pm)"
    unfolding open_keys_def
    by (rule map_by_key) (auto simp: carry_row_def final_acc_def mem_open_keys [OF ok] pos_at_def is_mapD [OF im(1)])
  then have b: "b = add_carries [] (map (carry_row ?f) (open_keys sy pm))"
    using conjunct2 [OF conjunct2 [OF F]] by argo
  have "map (\<lambda>(k, a). (fst k, carryNumerator a)) (filter (\<lambda>(k, a). fst (snd k) = sy \<and> k \<notin> set seen) (accounting pm)) =
      map (carry_row ?f) (idle_keys sy pm)"
    unfolding idle_keys_def seen
    by (rule map_by_key) (auto simp: carry_row_def final_acc_def acc_at_def dest!: is_mapD [OF im(2)])
  then have "b' = add_carries [] (map (carry_row ?f) (open_keys sy pm) @ map (carry_row ?f) (idle_keys sy pm))"
    using conjunct2 [OF preview_flat_Some [OF pf]] b by simp
  with rows conjunct1 [OF F] conjunct1 [OF preview_flat_Some [OF pf]] seen show ?thesis by simp
qed

lemma terminalization_settle:
  assumes ok: "pm_ok pm" and P: "0 < mget (precisions pm) sy"
    and cl: "\<forall>(k, p)\<in>set (filter (open_in sy) (positions pm)). closable m (mget (precisions pm) sy) pm k p"
  shows "\<exists>pm'. settle_all m (mget (precisions pm) sy) (PositionsForFunding sy pm) pm = Some pm' \<and> pm_ok pm' \<and>
    (\<forall>k. map_of (accounting pm') k = (if k \<in> set (open_keys sy pm)
       then Some (closed_at (mget (precisions pm) sy) m (acc_at k pm)) else map_of (accounting pm) k))"
proof -
  let ?P = "mget (precisions pm) sy"
  have keys: "set (map (pos_key_of \<circ> snd) (PositionsForFunding sy pm)) = set (open_keys sy pm)"
    unfolding set_PositionsForFunding(1) [OF ok] by (auto simp: mem_open_keys [OF ok])
  have "\<exists>pm'. settle_all m ?P (PositionsForFunding sy pm) pm = Some pm' \<and> pm_ok pm' \<and> precisions pm' = precisions pm \<and>
    (\<forall>k. map_of (accounting pm') k = (if k \<in> set (map (pos_key_of \<circ> snd) (PositionsForFunding sy pm))
       then Some (closed_at ?P m (acc_at k pm)) else map_of (accounting pm) k))"
  proof (rule settle_all_ok [OF ok P distinct_PositionsForFunding [OF ok]], clarify)
    fix i p
    assume "(i, p) \<in> set (PositionsForFunding sy pm)"
    from set_PositionsForFunding(2) [OF ok this]
    have p: "map_of (positions pm) (pos_key_of p) = Some p" "PosSize p \<noteq> 0" "PosSymbol p = sy" by blast+
    moreover have "(pos_key_of p, p) \<in> set (filter (open_in sy) (positions pm))"
      using map_of_SomeD [OF p(1)] p(2,3) by (simp add: pos_key_of_def)
    ultimately show "map_of (positions pm) (pos_key_of p) = Some p \<and> PosSize p \<noteq> 0 \<and>
        mget (precisions pm) (PosSymbol p) = ?P \<and> closable m ?P pm (pos_key_of p) p"
      using bspec [OF cl] by blast
  qed
  then show ?thesis unfolding keys by blast
qed

lemma terminalization:
  assumes ok: "pm_ok pm" and P: "0 < mget (precisions pm) sy"
    and pv: "PreviewPositionAccountingTerminalization sy m (mget (precisions pm) sy) pm = Some rows"
  shows "\<exists>pm'. settle_all m (mget (precisions pm) sy) (PositionsForFunding sy pm) pm = Some pm' \<and> pm_ok pm' \<and>
    CommitPositionAccountingCarry sy (mget (precisions pm) sy) rows pm' = Some (clearAccountingCarry sy pm', rows)"
proof -
  let ?P = "mget (precisions pm) sy" and ?K1 = "open_keys sy pm" and ?K2 = "idle_keys sy pm"
  let ?f = "final_acc sy m (mget (precisions pm) sy) pm"
  note F = preview_shape [OF assms]
  obtain pm' where pm': "settle_all m ?P (PositionsForFunding sy pm) pm = Some pm'" "pm_ok pm'"
    and acc: "\<And>k. map_of (accounting pm') k = (if k \<in> set ?K1
       then Some (closed_at ?P m (acc_at k pm)) else map_of (accounting pm) k)"
    using terminalization_settle [OF ok P conjunct1 [OF F]] by blast
  have im: "is_map (positions pm)" "is_map (accounting pm)" "is_map (accounting pm')"
    using ok pm'(2) by (simp_all add: pm_ok_def)
  define K3 where "K3 = map fst (filter (\<lambda>(k, a). fst (snd k) = sy) (accounting pm'))"
  have flat: "\<forall>(k, a)\<in>set (accounting pm'). fst (snd k) = sy \<longrightarrow> acc_size a = 0"
  proof clarify
    fix k0 k1 k2 a
    assume "((k0, k1, k2), a) \<in> set (accounting pm')" "sy = fst (snd (k0, k1, k2))"
    then have a: "map_of (accounting pm') (k0, sy, k2) = Some a" by (auto dest: is_mapD [OF im(3)])
    show "acc_size a = 0"
    proof (cases "(k0, sy, k2) \<in> set ?K1")
      case True
      with a show ?thesis by (auto simp: acc closed_at_def newPositionAccounting_def)
    next
      case False
      with a have "((k0, sy, k2), a) \<in> set (accounting pm)" by (simp add: acc map_of_SomeD)
      from bspec [OF conjunct1 [OF conjunct2 [OF F]] this] False show ?thesis by simp
    qed
  qed
  have "map (\<lambda>(k, a). (fst k, carryNumerator a)) (filter (\<lambda>(k, a). fst (snd k) = sy) (accounting pm')) = map (carry_row ?f) K3"
    unfolding K3_def
    by (rule map_by_key) (auto simp: carry_row_def final_acc_def acc_at_def acc dest!: is_mapD [OF im(3)] split: if_splits)
  then have fl: "flat_loop sy (accounting pm') [] = Some (add_carries [] (map (carry_row ?f) K3))"
    unfolding flat_loop_eq if_P [OF flat] by argo
  have dist: "distinct ?K1" "distinct ?K2" "distinct K3"
    unfolding open_keys_def idle_keys_def K3_def by (intro distinct_keys im)+
  have disj: "set ?K1 \<inter> set ?K2 = {}" using mem_idle_keys [OF ok, of _ sy] by blast
  have "set K3 = set ?K1 \<union> set ?K2"
  proof (intro set_eqI)
    fix k
    have "\<exists>a. map_of (accounting pm) k = Some a" if "PosSize (pos_at k pm) \<noteq> 0"
      using that pm_ok_paired [OF ok, of k]
      by (cases "map_of (positions pm) k"; cases "map_of (accounting pm) k") (auto simp: pos_at_def)
    moreover have "k \<in> set K3 \<longleftrightarrow> fst (snd k) = sy \<and> (\<exists>a. map_of (accounting pm') k = Some a)"
      unfolding K3_def by (rule mem_filter_keys [OF im(3)])
    ultimately show "k \<in> set K3 \<longleftrightarrow> k \<in> set ?K1 \<union> set ?K2"
      using mem_open_keys [OF ok, of k sy] mem_idle_keys [OF ok, of k sy] acc [of k] by auto
  qed
  from rounding_mset [OF carries_agree [OF dist disj this, of ?f], of ?P] conjunct2 [OF conjunct2 [OF F]]
  have "roundingFromNumerators (add_carries [] (map (carry_row ?f) K3)) ?P = Some rows" by argo
  then show ?thesis
    using pm' fl P by (auto simp: CommitPositionAccountingCarry_def roundingForFlatAccounting_def)
qed

section \<open>Margin release\<close>

lemma release_share:
  assumes "0 < mg" "is_i64 mg" "0 \<le> q" "q < z" "is_i64 z"
  shows "MulDiv mg q z = Some (mg * q div z) \<and> 0 \<le> mg * q div z \<and> mg * q div z \<le> mg"
proof -
  have n: "0 \<le> mg * q" and z: "0 < z" using assms by auto
  have "mg * q \<le> mg * z" using assms by (intro mult_left_mono) auto
  then have le: "mg * q div z \<le> mg" using z by (metis nonzero_mult_div_cancel_right order_less_irrefl zdiv_mono1)
  have ge: "0 \<le> mg * q div z" using n z by (simp add: pos_imp_zdiv_nonneg_iff)
  have sd: "mg * q sdiv z = mg * q div z" using n z by (simp add: sdiv_by_sign)
  have "is_i64 q" using assms by (auto simp: is_i64_def)
  moreover have "is_i64 (mg * q sdiv z)" using sd le ge assms by (auto simp: is_i64_def)
  ultimately have "TryMulDiv mg q z = Some (mg * q sdiv z)" using assms z by (simp add: TryMulDiv_eq)
  with sd le ge show ?thesis by (simp add: MulDiv_def)
qed

section \<open>Properties\<close>

text \<open>C18: the displayed positions are the exact ones. In every store the exchange can reach in
  exact mode (listing, trading, margin moves, settlements, carry drains, delisting), each
  position has an exact account of the same size, its entry price is that account's truncated
  average cost, a hedge leg never changes direction, and the cash paid out differs from the
  exact realized value by less than one unit.\<close>

theorem reachable_positions_exact:
  assumes "pm_step\<^sup>*\<^sup>* pm_start pm" "map_of (positions pm) (i, sy, s) = Some p"
  shows "\<exists>a. map_of (accounting pm) (i, sy, s) = Some a \<and> PosSize p = acc_size a \<and>
    PosEntry p = (if PosSize p = 0 then 0 else basisNumerator a sdiv acc_size a) \<and>
    (s = PositionLong \<longrightarrow> 0 \<le> PosSize p) \<and> (s = PositionShort \<longrightarrow> PosSize p \<le> 0) \<and>
    (0 < mget (precisions pm) sy \<longrightarrow>
      \<bar>realizedNumerator a + carryNumerator a - mget (precisions pm) sy * realizedCash a\<bar> < mget (precisions pm) sy)"
proof -
  obtain a where a: "map_of (accounting pm) (i, sy, s) = Some a" "exact_at (mget (precisions pm) sy) (i, sy, s) a p"
    using pm_ok_position [OF reachable_pm_ok [OF assms(1)] assms(2)] by (auto simp: precision_of_def)
  then have "PosEntry p = (if PosSize p = 0 then 0 else basisNumerator a sdiv acc_size a)"
    by (auto simp: exact_at_def entryPrice_def Let_def split: if_splits)
  moreover have "PosSide p = s" using a(2) by (simp add: exact_at_def pos_key_of_def)
  ultimately show ?thesis using a rounding_bound [of "mget (precisions pm) sy" a] by (auto simp: exact_at_def)
qed

definition listed_store :: PositionManager where
  "listed_store = SetPositionPrecision ''P'' 10 pm_start"

definition traded_store :: PositionManager where
  "traded_store = (case updatePosition 7 ''P'' 3 25 Buy PositionBoth listed_store of
     None \<Rightarrow> listed_store
   | Some (pm, _, _) \<Rightarrow> (case updatePosition 7 ''P'' 2 28 Sell PositionBoth pm of
       None \<Rightarrow> listed_store
     | Some (pm', _, _) \<Rightarrow> (case updatePosition 9 ''P'' 5 28 Sell PositionShort pm' of
         None \<Rightarrow> listed_store | Some (pm'', _, _) \<Rightarrow> pm'')))"

lemma listed_step: "pm_step pm_start listed_store"
  unfolding listed_store_def
  by (intro pm_step.list_symbol)
    (simp_all add: pm_start_def SetRequireExactLinearPositionAccounting_def NewPositionManager_def)

lemma traded_reachable: "pm_step\<^sup>*\<^sup>* pm_start traded_store"
proof -
  let ?u = "updatePosition 7 ''P'' 3 25 Buy PositionBoth listed_store"
  have "case ?u of None \<Rightarrow> False | Some (pm, _, _) \<Rightarrow> 0 < mget (precisions pm) ''P'' \<and>
    (case updatePosition 7 ''P'' 2 28 Sell PositionBoth pm of None \<Rightarrow> False | Some (pm', _, _) \<Rightarrow>
      0 < mget (precisions pm') ''P'' \<and>
      (case updatePosition 9 ''P'' 5 28 Sell PositionShort pm' of None \<Rightarrow> False | Some (pm'', _, _) \<Rightarrow> True))"
    by code_simp
  then obtain pm1 d1 r1 pm2 d2 r2 pm3 d3 r3 where
    u: "?u = Some (pm1, d1, r1)" "updatePosition 7 ''P'' 2 28 Sell PositionBoth pm1 = Some (pm2, d2, r2)"
      "updatePosition 9 ''P'' 5 28 Sell PositionShort pm2 = Some (pm3, d3, r3)"
    and pr: "0 < mget (precisions pm1) ''P''" "0 < mget (precisions pm2) ''P''"
    by (auto split: option.splits)
  have pr0: "0 < mget (precisions listed_store) ''P''" by code_simp
  have "pm_step listed_store pm1" "pm_step pm1 pm2" "pm_step pm2 pm3"
    using pm_step.trade [OF pr0 _ u(1)] pm_step.trade [OF pr(1) _ u(2)] pm_step.trade [OF pr(2) _ u(3)]
    by (simp_all add: is_i64_def)
  with listed_step have "pm_step\<^sup>*\<^sup>* pm_start pm3" by (meson converse_rtranclp_into_rtranclp r_into_rtranclp)
  then show ?thesis using u by (simp add: traded_store_def)
qed

theorem reachable_positions_exact_witness:
  "\<exists>p a. map_of (positions traded_store) (7, ''P'', PositionBoth) = Some p \<and>
     map_of (accounting traded_store) (7, ''P'', PositionBoth) = Some a \<and> PosSize p = 1 \<and> PosSize p = acc_size a \<and>
     PosEntry p = basisNumerator a sdiv acc_size a"
proof -
  have "map_option PosSize (map_of (positions traded_store) (7, ''P'', PositionBoth)) = Some 1" by code_simp
  then obtain p where p: "map_of (positions traded_store) (7, ''P'', PositionBoth) = Some p" "PosSize p = 1" by auto
  from reachable_positions_exact [OF traded_reachable p(1)] p show ?thesis by auto
qed

text \<open>C25: the two phases of an expiry agree. If the dry run that precedes an expiry accepts and
  returns rounding rows, then settling every open position of the symbol succeeds, leaves the
  store well-formed, and the commit that compares the rows against the settled state accepts
  exactly those rows: no expiry can pass its preview and fail half-way.\<close>

theorem expiry_preview_sound:
  assumes "pm_step\<^sup>*\<^sup>* pm_start pm" "0 < mget (precisions pm) sy"
    "PreviewPositionAccountingTerminalization sy m (mget (precisions pm) sy) pm = Some rows"
  shows "\<exists>pm'. settle_all m (mget (precisions pm) sy) (PositionsForFunding sy pm) pm = Some pm' \<and> pm_ok pm' \<and>
    CommitPositionAccountingCarry sy (mget (precisions pm) sy) rows pm' = Some (clearAccountingCarry sy pm', rows)"
  by (rule terminalization [OF reachable_pm_ok [OF assms(1)] assms(2,3)])

theorem expiry_preview_sound_witness:
  "\<exists>pm'. settle_all 31 10 (PositionsForFunding ''P'' traded_store) traded_store = Some pm' \<and>
     CommitPositionAccountingCarry ''P'' 10
       [\<lparr>RndClient = 7, RndAmount = 0, RndRemainder = 2\<rparr>, \<lparr>RndClient = 9, RndAmount = 0, RndRemainder = - 5\<rparr>] pm' \<noteq> None"
proof -
  have pr: "mget (precisions traded_store) ''P'' = 10" by code_simp
  have "PreviewPositionAccountingTerminalization ''P'' 31 10 traded_store =
      Some [\<lparr>RndClient = 7, RndAmount = 0, RndRemainder = 2\<rparr>, \<lparr>RndClient = 9, RndAmount = 0, RndRemainder = - 5\<rparr>]"
    by code_simp
  with expiry_preview_sound [OF traded_reachable, of "''P''" 31] pr show ?thesis by auto
qed

text \<open>Closing a position releases margin proportionally and leaves no dust. A release is never
  negative, never exceeds the position's margin and the margin falls by exactly the released
  amount; a partial close releases the floor of the closed share, a full close everything.\<close>

theorem ReleasePositionMargin_proportional:
  assumes "map_of (positions pm) (i, sy, s) = Some p" "is_i64 (PosMargin p)" "0 \<le> PosMargin p"
    "is_i64 z" "z \<noteq> MinInt64" "0 \<le> q"
  shows "\<exists>pm' p' r. ReleasePositionMargin i sy s q z pm = Some (pm', r) \<and>
    map_of (positions pm') (i, sy, s) = Some p' \<and> PosMargin p' + r = PosMargin p \<and> 0 \<le> r \<and> 0 \<le> PosMargin p' \<and>
    r = (if q \<ge> \<bar>z\<bar> then PosMargin p else PosMargin p * q div \<bar>z\<bar>)"
proof (cases "PosMargin p = 0")
  case True
  with assms show ?thesis by (auto simp: ReleasePositionMargin_def)
next
  case False
  then have mg: "0 < PosMargin p" using assms(3) by simp
  have az: "abs64 z = \<bar>z\<bar>" "is_i64 \<bar>z\<bar>" using assms(4,5) by (auto simp: abs64_eq is_i64_def)
  show ?thesis
  proof (cases "q \<ge> \<bar>z\<bar>")
    case True
    with assms mg az(1) show ?thesis by (auto simp: ReleasePositionMargin_def)
  next
    case part: False
    then have r: "MulDiv (PosMargin p) q \<bar>z\<bar> = Some (PosMargin p * q div \<bar>z\<bar>)"
      "0 \<le> PosMargin p * q div \<bar>z\<bar>" "PosMargin p * q div \<bar>z\<bar> \<le> PosMargin p"
      using release_share [OF mg assms(2,6) _ az(2)] by auto
    then have "i64 (PosMargin p - PosMargin p * q div \<bar>z\<bar>) = PosMargin p - PosMargin p * q div \<bar>z\<bar>"
      using assms(2) mg by (intro i64_id) (auto simp: is_i64_def)
    with part mg assms(1) az(1) r show ?thesis by (auto simp: ReleasePositionMargin_def Let_def)
  qed
qed

theorem ReleasePositionMargin_proportional_witness:
  "\<exists>pm' p' r. ReleasePositionMargin 7 ''P'' PositionBoth 3 (- 8)
      (pm_start\<lparr>positions := [((7, ''P'', PositionBoth),
        \<lparr>PosClient = 7, PosSymbol = ''P'', PosSide = PositionBoth, PosSize = - 5, PosEntry = 9, PosMargin = 101\<rparr>)]\<rparr>) = Some (pm', r) \<and>
    map_of (positions pm') (7, ''P'', PositionBoth) = Some p' \<and> r = 37 \<and> PosMargin p' = 64"
  using ReleasePositionMargin_proportional [of "pm_start\<lparr>positions := [((7, ''P'', PositionBoth),
        \<lparr>PosClient = 7, PosSymbol = ''P'', PosSide = PositionBoth, PosSize = - 5, PosEntry = 9, PosMargin = 101\<rparr>)]\<rparr>"
      7 "''P''" PositionBoth "\<lparr>PosClient = 7, PosSymbol = ''P'', PosSide = PositionBoth, PosSize = - 5, PosEntry = 9, PosMargin = 101\<rparr>" "- 8" 3]
  by (auto simp: is_i64_def)

end
