(* ===== verification/Funding.thy ===== *)
theory Funding
  imports Borrowing Position_Manager
begin

text \<open>
  Perpetual funding: the rate formula (\<open>instrument/funding.go\<close>), the settlement that moves
  payments between the position holders and the venue (\<open>settleFunding\<close> of
  \<open>exchange/funding.go\<close> with the exchange's sink of \<open>exchange/helpers.go\<close>) and the schedule
  (\<open>CheckAndSettleFunding\<close> of \<open>exchange/exchange.go\<close>). Published events are not modelled.
\<close>

section \<open>The rate\<close>

record SimpleFundingCalc =
  BaseRate :: int64
  Damping :: int64
  MaxRate :: int64

text \<open>\<open>None\<close> is the price-domain error.\<close>

definition Calculate :: "SimpleFundingCalc \<Rightarrow> int64 \<Rightarrow> int64 \<Rightarrow> int64 option" where
  "Calculate c indexPrice markPrice =
     (if indexPrice \<le> 0 \<or> markPrice \<le> 0 then None
      else case TryPriceChangeMulDiv 10000 markPrice indexPrice indexPrice of
        None \<Rightarrow> None
      | Some premium \<Rightarrow>
     (case TryMulDiv premium (Damping c) 100 of
        None \<Rightarrow> None
      | Some damped \<Rightarrow>
     (case TryAdd (BaseRate c) damped of
        None \<Rightarrow> None
      | Some rate \<Rightarrow>
          if rate > MaxRate c then Some (MaxRate c)
          else if rate < i64 (- MaxRate c) then Some (i64 (- MaxRate c))
          else Some rate)))"

section \<open>Settlement\<close>

record FundingRate =
  FRate :: int64
  NextFunding :: timestamp
  Interval :: int64
  MarkPrice :: int64
  MarkAvailable :: bool

record Perp =
  PerpSymbol :: string
  BasePrecision :: int64
  QuoteAsset :: asset
  PerpFunding :: FundingRate

definition nextFundingTimestamp :: "timestamp \<Rightarrow> int64 \<Rightarrow> timestamp option" where
  "nextFundingTimestamp now interval =
     (if interval \<le> 0 then None
      else Option.bind (TryMulDiv interval 1000000000 1) (TryAdd now))"

text \<open>The callback over the positions: the payments aggregated by client and the net flow to
  the exchange. \<open>None\<close> is an arithmetic error, which abandons the settlement.\<close>

fun funding_loop :: "(uint64, Client) gomap \<Rightarrow> FundingRate \<Rightarrow> int64 \<Rightarrow> (uint64 \<times> Position) list \<Rightarrow>
    (uint64, int64) gomap \<times> int64 \<Rightarrow> ((uint64, int64) gomap \<times> int64) option" where
  "funding_loop clients fr precision [] acc = Some acc"
| "funding_loop clients fr precision ((i, pos) # rest) (deltas, flow) =
     (case map_of clients i of
        None \<Rightarrow> funding_loop clients fr precision rest (deltas, flow)
      | Some _ \<Rightarrow>
     (case TryAbsMulDiv (PosSize pos) (MarkPrice fr) precision of
        None \<Rightarrow> None
      | Some positionValue \<Rightarrow>
     (case TryMulDiv positionValue (FRate fr) 10000 of
        None \<Rightarrow> None
      | Some funding \<Rightarrow>
          (case (if PosSize pos > 0 then (TrySub (mget deltas i) funding, TryAdd flow funding)
                 else (TryAdd (mget deltas i) funding, TrySub flow funding)) of
             (Some clientDelta, Some flow') \<Rightarrow>
               funding_loop clients fr precision rest (mput deltas i clientDelta, flow')
           | _ \<Rightarrow> None))))"

text \<open>The final balances, checked before any is written.\<close>

fun plan_payments :: "(uint64, Client) gomap \<Rightarrow> asset \<Rightarrow> (uint64, int64) gomap \<Rightarrow> uint64 list \<Rightarrow>
    (uint64 \<times> int64 \<times> int64) list option" where
  "plan_payments clients quote deltas [] = Some []"
| "plan_payments clients quote deltas (i # is) =
     (case map_of clients i of
        None \<Rightarrow> None
      | Some c \<Rightarrow>
          let old = mget (PerpBalances c) quote
          in case TryAdd old (mget deltas i) of
               None \<Rightarrow> None
             | Some new \<Rightarrow>
                 map_option (\<lambda>ps. if new = old then ps else (i, old, new) # ps)
                   (plan_payments clients quote deltas is))"

definition apply_payment :: "asset \<Rightarrow> uint64 \<times> int64 \<times> int64 \<Rightarrow> Ledger \<Rightarrow> Ledger" where
  "apply_payment quote = (\<lambda>(i, old, new) l.
     case map_of (Clients l) i of
       None \<Rightarrow> l
     | Some c \<Rightarrow> logBalanceChange [perpDelta quote old new]
         (set_client i (c\<lparr>PerpBalances := mput (PerpBalances c) quote new\<rparr>) l))"

fun apply_payments :: "asset \<Rightarrow> (uint64 \<times> int64 \<times> int64) list \<Rightarrow> Ledger \<Rightarrow> Ledger" where
  "apply_payments quote [] l = l"
| "apply_payments quote (p # ps) l = apply_payments quote ps (apply_payment quote p l)"

text \<open>How a settlement attempt ends, as the caller sees it in the returned error.\<close>

datatype funding_outcome = NoBookPrice | FundingArithmetic | FundingSettled

text \<open>The perpetual and the ledger are returned as the attempt leaves them; \<open>None\<close> is a panic of the write phase.\<close>

definition settleFunding :: "PositionManager \<Rightarrow> Perp \<Rightarrow> timestamp \<Rightarrow> Ledger \<Rightarrow> (funding_outcome \<times> Perp \<times> Ledger) option" where
  "settleFunding pm perp ts l =
     (let fr = PerpFunding perp; quote = QuoteAsset perp
      in if \<not> MarkAvailable fr then Some (NoBookPrice, perp, l)
         else case nextFundingTimestamp ts (Interval fr) of
           None \<Rightarrow> Some (FundingArithmetic, perp, l)
         | Some nextFunding \<Rightarrow>
        (case funding_loop (Clients l) fr (BasePrecision perp) (PositionsForFunding (PerpSymbol perp) pm) ([], 0) of
           None \<Rightarrow> Some (FundingArithmetic, perp, l)
         | Some (deltas, netExchangeFlow) \<Rightarrow>
        (case plan_payments (Clients l) quote deltas (mkeys deltas) of
           None \<Rightarrow> Some (FundingArithmetic, perp, l)
         | Some payments \<Rightarrow>
             if netExchangeFlow \<noteq> 0 \<and> TryAdd (mget (FeeRevenue (ExBal l)) quote) netExchangeFlow = None
             then Some (FundingArithmetic, perp, l)
             else let paid = apply_payments quote payments l;
                      finish = (\<lambda>l'. (FundingSettled, perp\<lparr>PerpFunding := fr\<lparr>NextFunding := nextFunding\<rparr>\<rparr>, l'))
                  in if netExchangeFlow = 0 then Some (finish paid)
                     else map_option finish (moveVenueBalance VenueFeeRevenue quote netExchangeFlow (PerpSymbol perp) paid))))"

section \<open>The schedule\<close>

text \<open>One perpetual of the sweep: the first tick anchors the schedule, a tick before the next
  funding time does nothing. The first component is what the sweep reports of the perpetual: nothing, a failure, or the marker of a
  settlement. The clock is read again for the settlement; \<open>settleAt\<close> is that reading. \<open>None\<close> is a panic.\<close>

definition funding_tick :: "PositionManager \<Rightarrow> timestamp \<Rightarrow> timestamp \<Rightarrow> Perp \<Rightarrow> Ledger \<Rightarrow>
    (funding_outcome option \<times> Perp \<times> Ledger) option" where
  "funding_tick pm now settleAt perp l =
     (let fr = PerpFunding perp
      in if NextFunding fr = 0
         then (case nextFundingTimestamp now (Interval fr) of
                 None \<Rightarrow> Some (Some FundingArithmetic, perp, l)
               | Some nextFunding \<Rightarrow> Some (None, perp\<lparr>PerpFunding := fr\<lparr>NextFunding := nextFunding\<rparr>\<rparr>, l))
         else if now < NextFunding fr then Some (None, perp, l)
         else map_option (\<lambda>(out, perp', l'). (Some out, perp', l')) (settleFunding pm perp settleAt l))"

fun funding_sweep :: "PositionManager \<Rightarrow> timestamp \<Rightarrow> (string \<Rightarrow> timestamp) \<Rightarrow> Perp list \<Rightarrow> Ledger \<Rightarrow>
    ((funding_outcome option \<times> Perp) list \<times> Ledger) option" where
  "funding_sweep pm now settleAt [] l = Some ([], l)"
| "funding_sweep pm now settleAt (p # ps) l =
     (case funding_tick pm now (settleAt (PerpSymbol p)) p l of
        None \<Rightarrow> None
      | Some (out, p', l') \<Rightarrow> map_option (\<lambda>(ps', l''). ((out, p') # ps', l'')) (funding_sweep pm now settleAt ps l'))"

definition CheckAndSettleFunding :: "PositionManager \<Rightarrow> string list \<Rightarrow> timestamp \<Rightarrow> (string \<Rightarrow> timestamp) \<Rightarrow> Perp list \<Rightarrow> Ledger \<Rightarrow>
    ((funding_outcome option \<times> Perp) list \<times> Ledger) option" where
  "CheckAndSettleFunding pm settlementPending now settleAt perps l =
     funding_sweep pm now settleAt
       (sort_key PerpSymbol (filter (\<lambda>p. PerpSymbol p \<notin> set settlementPending) perps)) l"

text \<open>The manual trigger; a nil perpetual is reported as a missing price.\<close>

definition SettleFunding :: "PositionManager \<Rightarrow> Perp option \<Rightarrow> timestamp \<Rightarrow> Ledger \<Rightarrow> (funding_outcome \<times> Perp option \<times> Ledger) option" where
  "SettleFunding pm operp now l =
     (case operp of
        None \<Rightarrow> Some (NoBookPrice, None, l)
      | Some perp \<Rightarrow> map_option (\<lambda>(out, perp', l'). (out, Some perp', l')) (settleFunding pm perp now l))"

section \<open>What a settlement pays\<close>

text \<open>What one position pays, negative for what it receives: its value at the mark, truncated, times the rate in basis points,
  truncated again; shorts receive what longs pay.\<close>

definition position_value :: "FundingRate \<Rightarrow> int64 \<Rightarrow> Position \<Rightarrow> int" where
  "position_value fr P pos = \<bar>PosSize pos * MarkPrice fr\<bar> div P"

definition funding_of :: "FundingRate \<Rightarrow> int64 \<Rightarrow> Position \<Rightarrow> int" where
  "funding_of fr P pos = (let f = position_value fr P pos * FRate fr sdiv 10000 in if PosSize pos > 0 then f else - f)"

definition owed :: "FundingRate \<Rightarrow> int64 \<Rightarrow> (uint64 \<times> Position) list \<Rightarrow> uint64 \<Rightarrow> int" where
  "owed fr P rows i = (\<Sum>(j, pos)\<leftarrow>rows. if j = i then funding_of fr P pos else 0)"

definition collected :: "(uint64, Client) gomap \<Rightarrow> FundingRate \<Rightarrow> int64 \<Rightarrow> (uint64 \<times> Position) list \<Rightarrow> int" where
  "collected clients fr P rows = (\<Sum>(j, pos)\<leftarrow>rows. if map_of clients j = None then 0 else funding_of fr P pos)"

definition gross :: "(uint64, Client) gomap \<Rightarrow> FundingRate \<Rightarrow> int64 \<Rightarrow> (uint64 \<times> Position) list \<Rightarrow> int" where
  "gross clients fr P rows = (\<Sum>(j, pos)\<leftarrow>rows. if map_of clients j = None then 0 else \<bar>funding_of fr P pos\<bar>)"

lemma funding_sums [simp]:
  "owed fr P [] i = 0" "owed fr P ((j, pos) # rows) i = (if j = i then funding_of fr P pos else 0) + owed fr P rows i"
  "collected clients fr P [] = 0"
  "collected clients fr P ((j, pos) # rows) = (if map_of clients j = None then 0 else funding_of fr P pos) + collected clients fr P rows"
  "gross clients fr P [] = 0"
  "gross clients fr P ((j, pos) # rows) = (if map_of clients j = None then 0 else \<bar>funding_of fr P pos\<bar>) + gross clients fr P rows"
  by (simp_all add: owed_def collected_def gross_def)

lemma funding_steps:
  assumes "funding_loop clients fr P ((i, pos) # rest) (d, x) = Some r" "map_of clients i \<noteq> None" "is_i64 x" "is_i64 (mget d i)"
    "is_i64 P" "is_i64 (MarkPrice fr)" "is_i64 (FRate fr)" "is_i64 (PosSize pos)"
  obtains "funding_loop clients fr P rest (mput d i (mget d i - funding_of fr P pos), x + funding_of fr P pos) = Some r"
    "is_i64 (mget d i - funding_of fr P pos)" "is_i64 (x + funding_of fr P pos)"
proof -
  from assms(1,2) obtain v f where v: "TryAbsMulDiv (PosSize pos) (MarkPrice fr) P = Some v"
    and f: "TryMulDiv v (FRate fr) 10000 = Some f" by (auto split: option.splits)
  have v': "v = position_value fr P pos" "is_i64 v"
    using v TryAbsMulDiv_eq [OF assms(8,6,5)] by (auto simp: position_value_def split: if_splits)
  have f': "f = position_value fr P pos * FRate fr sdiv 10000" "is_i64 f"
    using f v' assms(7) by (auto simp: TryMulDiv_eq is_i64_def split: if_splits)
  obtain e y where ey: "(if PosSize pos > 0 then (TrySub (mget d i) f, TryAdd x f)
               else (TryAdd (mget d i) f, TrySub x f)) = (Some e, Some y)"
    and run: "funding_loop clients fr P rest (mput d i e, y) = Some r"
    using assms(1,2) v f by (auto split: option.splits if_splits)
  have "e = mget d i - funding_of fr P pos \<and> y = x + funding_of fr P pos \<and> is_i64 e \<and> is_i64 y"
    using ey f' assms(3,4) TrySub_Some [of "mget d i" f e] TrySub_Some [of x f y]
    by (auto simp: TryAdd_Some funding_of_def Let_def split: if_splits)
  with run that show thesis by auto
qed

lemma funding_loop_exact:
  assumes "funding_loop clients fr P rows (d, x) = Some (d', x')" "is_map d" "is_i64 x" "\<forall>i. is_i64 (mget d i)"
    "is_i64 P" "is_i64 (MarkPrice fr)" "is_i64 (FRate fr)" "\<forall>(i, p)\<in>set rows. is_i64 (PosSize p)"
  shows "is_map d' \<and> is_i64 x' \<and> (\<forall>i. is_i64 (mget d' i)) \<and>
    (\<forall>i. mget d' i = mget d i - (if map_of clients i = None then 0 else owed fr P rows i)) \<and>
    x' = x + collected clients fr P rows \<and> msum (\<lambda>i v. v) d' + x' = msum (\<lambda>i v. v) d + x"
  using assms(1-4,8)
proof (induction rows arbitrary: d x)
  case Nil
  then show ?case by simp
next
  case (Cons row rows)
  obtain i pos where row: "row = (i, pos)" by (cases row)
  show ?case
  proof (cases "map_of clients i")
    case None
    then have "funding_loop clients fr P rows (d, x) = Some (d', x')" "\<forall>(i, p)\<in>set rows. is_i64 (PosSize p)"
      using Cons.prems(1,5) by (auto simp: row)
    note IH = Cons.IH [OF this(1) Cons.prems(2-4) this(2)]
    have same: "(if map_of clients j = None then 0 else owed fr P (row # rows) j) = (if map_of clients j = None then 0 else owed fr P rows j)"
      "collected clients fr P (row # rows) = collected clients fr P rows" for j using None by (auto simp: row)
    show ?thesis unfolding same by (rule IH)
  next
    case (Some c)
    have pr: "is_i64 (PosSize pos)" and rest: "\<forall>(i, p)\<in>set rows. is_i64 (PosSize p)" using Cons.prems(5) row by auto
    let ?f = "funding_of fr P pos" and ?d = "mput d i (mget d i - funding_of fr P pos)"
    from funding_steps [OF Cons.prems(1) [unfolded row], of] Some Cons.prems(3,4) assms(5-7) pr
    have run: "funding_loop clients fr P rows (?d, x + ?f) = Some (d', x')"
      and fit: "is_i64 (mget d i - ?f)" "is_i64 (x + ?f)" by auto
    have m: "is_map ?d" "\<forall>j. is_i64 (mget ?d j)" using Cons.prems(2,4) fit(1) by auto
    have ms: "msum (\<lambda>i v. v) ?d = msum (\<lambda>i v. v) d - ?f"
      using Cons.prems(2) by (simp add: msum_mput mget_def split: option.splits)
    note IH = Cons.IH [OF run m(1) fit(2) m(2) rest]
    have "\<forall>j. mget d' j = mget d j - (if map_of clients j = None then 0 else owed fr P (row # rows) j)"
      using IH Some by (simp add: row)
    moreover have "x' = x + collected clients fr P (row # rows)" using IH Some by (simp add: row)
    moreover have "msum (\<lambda>i v. v) d' + x' = msum (\<lambda>i v. v) d + x" using IH ms by simp
    ultimately show ?thesis using IH by blast
  qed
qed

lemma funding_loop_start:
  assumes run: "funding_loop clients fr P rows ([], 0) = Some (d, x)"
    and i: "is_i64 P" "is_i64 (MarkPrice fr)" "is_i64 (FRate fr)" "\<forall>(i, p)\<in>set rows. is_i64 (PosSize p)"
  shows "is_map d" "is_i64 x" "\<forall>i. is_i64 (mget d i)" "msum (\<lambda>i v. v) d + x = 0"
    "\<forall>i. mget d i = - (if map_of clients i = None then 0 else owed fr P rows i)" "x = collected clients fr P rows"
proof -
  have z: "is_map ([] :: (uint64, int64) gomap)" "is_i64 0" "\<forall>i. is_i64 (mget ([] :: (uint64, int64) gomap) i)" by (simp_all add: is_i64_def)
  note E = funding_loop_exact [OF run z i]
  show "is_map d" "is_i64 x" "\<forall>i. is_i64 (mget d i)" using E by blast+
  show "msum (\<lambda>i v. v) d + x = 0" "x = collected clients fr P rows" using E by simp_all
  show "\<forall>i. mget d i = - (if map_of clients i = None then 0 else owed fr P rows i)" using E by (metis mget_Nil diff_0)
qed

lemma plan_payments_exact:
  assumes "plan_payments clients quote d is = Some ps" "distinct is"
    "\<forall>i. is_i64 (mget d i)" "\<forall>i c. map_of clients i = Some c \<longrightarrow> is_i64 (mget (PerpBalances c) quote)"
  shows "distinct (map fst ps) \<and> set (map fst ps) \<subseteq> set is \<and>
    (\<forall>(i, old, new)\<in>set ps. is_i64 new \<and> new = old + mget d i \<and>
       (\<exists>c. map_of clients i = Some c \<and> mget (PerpBalances c) quote = old)) \<and>
    (\<forall>i\<in>set is - set (map fst ps). mget d i = 0) \<and>
    (\<Sum>(i, old, new)\<leftarrow>ps. new - old) = (\<Sum>i\<leftarrow>is. mget d i)"
  using assms(1,2)
proof (induction "is" arbitrary: ps)
  case (Cons i "is")
  from Cons.prems(1) obtain c new ps' where c: "map_of clients i = Some c"
    and new: "TryAdd (mget (PerpBalances c) quote) (mget d i) = Some new"
    and ps': "plan_payments clients quote d is = Some ps'"
    and ps: "ps = (if new = mget (PerpBalances c) quote then ps' else (i, mget (PerpBalances c) quote, new) # ps')"
    by (auto simp: Let_def split: option.splits)
  have n: "new = mget (PerpBalances c) quote + mget d i" "is_i64 new"
    using new assms(3,4) c by (auto simp: TryAdd_Some)
  from Cons.IH [OF ps'] Cons.prems(2) n c assms(3) show ?case by (auto simp: ps)
qed simp

lemma apply_payment_step:
  assumes l: "ledger_ok l" "conserved l" and c: "map_of (Clients l) i = Some c" "mget (PerpBalances c) quote = old"
    and n: "is_i64 new" "is_i64 (new - old)"
  shows "ledger_ok (apply_payment quote (i, old, new) l) \<and> conserved (apply_payment quote (i, old, new) l) \<and>
    (\<forall>a. held (apply_payment quote (i, old, new) l) a = held l a + (if a = quote then new - old else 0))"
proof -
  let ?c = "c\<lparr>PerpBalances := mput (PerpBalances c) quote new\<rparr>" and ?cs = "[perpDelta quote old new]"
  have d: "i64 (new - old) = new - old" by (rule i64_id [OF n(2)])
  have e: "effect ?cs a = (if a = quote then new - old else 0)" for a by (simp add: perpDelta_def d)
  have "deltas_ok ?cs" using n(2) d by (simp add: deltas_ok_def perpDelta_def)
  moreover have "client_maps ?c" using ledger_client [OF l(1) c(1)] n(1) by (simp add: client_maps_def values_ok_mput)
  moreover have "worth a ?c = worth a c + effect ?cs a" for a unfolding e using c(2) by (simp add: worth_def)
  ultimately show ?thesis using log_update [OF l c(1), of ?cs ?c] c(1) unfolding e by (simp add: apply_payment_def)
qed

lemma apply_payment_frame:
  "ExBal (apply_payment quote p l) = ExBal l"
  "i \<noteq> fst p \<Longrightarrow> map_of (Clients (apply_payment quote p l)) i = map_of (Clients l) i"
  by (auto simp: apply_payment_def logBalanceChange_def set_client_def split: prod.splits option.splits)

lemma apply_payments_ok:
  assumes "ledger_ok l" "conserved l" "distinct (map fst ps)"
    "\<forall>(i, old, new)\<in>set ps. is_i64 new \<and> is_i64 (new - old) \<and>
       (\<exists>c. map_of (Clients l) i = Some c \<and> mget (PerpBalances c) quote = old)"
  shows "ledger_ok (apply_payments quote ps l) \<and> conserved (apply_payments quote ps l) \<and>
    ExBal (apply_payments quote ps l) = ExBal l \<and>
    (\<forall>a. held (apply_payments quote ps l) a = held l a + (if a = quote then \<Sum>(i, old, new)\<leftarrow>ps. new - old else 0))"
  using assms
proof (induction ps arbitrary: l)
  case (Cons p ps)
  obtain i old new where p: "p = (i, old, new)" by (cases p)
  obtain c where c: "map_of (Clients l) i = Some c" "mget (PerpBalances c) quote = old" "is_i64 new" "is_i64 (new - old)"
    using Cons.prems(4) by (auto simp: p)
  note st = apply_payment_step [OF Cons.prems(1,2) c]
  have "\<forall>(j, old', new')\<in>set ps. is_i64 new' \<and> is_i64 (new' - old') \<and>
       (\<exists>c. map_of (Clients (apply_payment quote p l)) j = Some c \<and> mget (PerpBalances c) quote = old')"
    using Cons.prems(3,4) apply_payment_frame(2) [of _ p quote l] by (fastforce simp: p)
  with Cons.IH [of "apply_payment quote p l"] st Cons.prems(3) show ?case
    by (auto simp: p apply_payment_frame)
qed simp

lemma apply_payments_clients:
  assumes "distinct (map fst ps)"
  shows "map_of (Clients (apply_payments quote ps l)) i = (case map_of ps i of
      None \<Rightarrow> map_of (Clients l) i
    | Some (old, new) \<Rightarrow> map_option (\<lambda>c. c\<lparr>PerpBalances := mput (PerpBalances c) quote new\<rparr>) (map_of (Clients l) i))"
  using assms
proof (induction ps arbitrary: l)
  case (Cons p ps)
  obtain j old new where p: "p = (j, old, new)" by (cases p)
  have at: "map_of (Clients (apply_payment quote p l)) j = map_option (\<lambda>c. c\<lparr>PerpBalances := mput (PerpBalances c) quote new\<rparr>) (map_of (Clients l) j)"
    by (auto simp: p apply_payment_def logBalanceChange_def set_client_def split: option.splits)
  have "map_of ps j = None" using Cons.prems by (auto simp: p map_of_eq_None_iff)
  with Cons.IH [of "apply_payment quote p l"] Cons.prems at apply_payment_frame(2) [of i p quote l] show ?case
    by (cases "i = j") (auto simp: p split: option.splits)
qed simp

lemma sum_mkeys: "is_map d \<Longrightarrow> (\<Sum>i\<leftarrow>mkeys d. mget d i) = msum (\<lambda>i v. v) d"
proof -
  assume d: "is_map d"
  have "(\<Sum>i\<leftarrow>mkeys d. mget d i) = (\<Sum>i\<leftarrow>map fst d. mget d i)"
    by (metis mkeys_def mset_map mset_sort sum_mset_sum_list)
  also have "\<dots> = (\<Sum>(i, v)\<leftarrow>d. v)"
    using d by (intro arg_cong [where f = sum_list]) (auto simp: is_map_def mget_def)
  finally show ?thesis by (simp add: msum_def)
qed

definition perp_ok :: "Perp \<Rightarrow> bool" where
  "perp_ok p \<longleftrightarrow> is_i64 (BasePrecision p) \<and> is_i64 (MarkPrice (PerpFunding p)) \<and> is_i64 (FRate (PerpFunding p)) \<and>
     is_i64 (Interval (PerpFunding p)) \<and> QuoteAsset p \<noteq> ''''"

section \<open>When a settlement goes through\<close>

text \<open>Room for the sums: every position value fits, and the payments of all accounts together fit beside every balance
  they are booked on.\<close>

definition funding_fits :: "PositionManager \<Rightarrow> Perp \<Rightarrow> timestamp \<Rightarrow> Ledger \<Rightarrow> bool" where
  "funding_fits pm perp ts l \<longleftrightarrow>
     (let fr = PerpFunding perp; rows = PositionsForFunding (PerpSymbol perp) pm; g = gross (Clients l) fr (BasePrecision perp) rows
      in 0 < BasePrecision perp \<and> nextFundingTimestamp ts (Interval fr) \<noteq> None \<and>
         (\<forall>(i, pos)\<in>set rows. position_value fr (BasePrecision perp) pos \<le> MaxInt64) \<and> g \<le> MaxInt64 \<and>
         (\<forall>(i, c)\<in>set (Clients l). \<bar>mget (PerpBalances c) (QuoteAsset perp)\<bar> + g \<le> MaxInt64) \<and>
         \<bar>mget (FeeRevenue (ExBal l)) (QuoteAsset perp)\<bar> + g \<le> MaxInt64)"

lemma gross_bounds:
  "0 \<le> gross clients fr P rows" "\<bar>collected clients fr P rows\<bar> \<le> gross clients fr P rows"
  "map_of clients i \<noteq> None \<Longrightarrow> \<bar>owed fr P rows i\<bar> \<le> gross clients fr P rows"
  by (induction rows) (auto simp: add_increasing abs_triangle_ineq [THEN order_trans])

lemma funding_loop_known:
  "funding_loop clients fr P rows (d, x) = Some (d', x') \<Longrightarrow> fst ` set d \<subseteq> dom (map_of clients) \<Longrightarrow>
   fst ` set d' \<subseteq> dom (map_of clients)"
proof (induction rows arbitrary: d x)
  case (Cons row rows)
  obtain i pos where row: "row = (i, pos)" by (cases row)
  show ?case
  proof (cases "map_of clients i")
    case None
    then show ?thesis using Cons by (simp add: row)
  next
    case (Some c)
    then obtain e y where run: "funding_loop clients fr P rows (mput d i e, y) = Some (d', x')"
      using Cons.prems(1) by (auto simp: row split: option.splits if_splits)
    have "fst ` set (mput d i e) \<subseteq> dom (map_of clients)" using Cons.prems(2) Some by (auto simp: fst_set_mput)
    from Cons.IH [OF run this] show ?thesis .
  qed
qed simp

lemma funding_loop_total:
  assumes "\<forall>(i, pos)\<in>set rows. is_i64 (PosSize pos) \<and> position_value fr P pos \<le> MaxInt64"
    and "\<forall>i. \<bar>mget d i\<bar> + gross clients fr P rows \<le> MaxInt64" "\<bar>x\<bar> + gross clients fr P rows \<le> MaxInt64"
    and "0 < P" "is_i64 P" "is_i64 (MarkPrice fr)" "is_i64 (FRate fr)"
  shows "\<exists>r. funding_loop clients fr P rows (d, x) = Some r"
  using assms(1-3)
proof (induction rows arbitrary: d x)
  case (Cons row rows)
  obtain i pos where row: "row = (i, pos)" by (cases row)
  have pos: "is_i64 (PosSize pos)" "position_value fr P pos \<le> MaxInt64"
    and rest: "\<forall>(i, pos)\<in>set rows. is_i64 (PosSize pos) \<and> position_value fr P pos \<le> MaxInt64" using Cons.prems(1) by (auto simp: row)
  show ?case
  proof (cases "map_of clients i")
    case None
    with Cons.IH [OF rest, of d x] Cons.prems(2,3) show ?thesis by (simp add: row)
  next
    case (Some c)
    let ?v = "position_value fr P pos" and ?f = "position_value fr P pos * FRate fr sdiv 10000"
    have g: "0 \<le> gross clients fr P rows" by (rule gross_bounds)
    have v0: "0 \<le> ?v" using assms(4) by (simp add: position_value_def pos_imp_zdiv_nonneg_iff)
    have v: "TryAbsMulDiv (PosSize pos) (MarkPrice fr) P = Some ?v" "is_i64 ?v"
      using v0 pos TryAbsMulDiv_eq [OF pos(1) assms(6,5)] assms(4) by (auto simp: position_value_def is_i64_def)
    have abs: "\<bar>funding_of fr P pos\<bar> = \<bar>?f\<bar>" by (simp add: funding_of_def Let_def)
    have D: "\<bar>mget d j\<bar> + \<bar>?f\<bar> + gross clients fr P rows \<le> MaxInt64" for j using Cons.prems(2) Some abs by (simp add: row add.assoc)
    have X: "\<bar>x\<bar> + \<bar>?f\<bar> + gross clients fr P rows \<le> MaxInt64" using Cons.prems(3) Some abs by (simp add: row add.assoc)
    have F: "is_i64 ?f" "?f \<noteq> MinInt64" using X g by (auto simp: is_i64_def)
    have f: "TryMulDiv ?v (FRate fr) 10000 = Some ?f" using v(2) assms(7) F(1) by (simp add: TryMulDiv_eq is_i64_def)
    have i: "is_i64 x" "is_i64 (mget d i)" "is_i64 (x + ?f)" "is_i64 (x - ?f)" "is_i64 (mget d i + ?f)" "is_i64 (mget d i - ?f)"
      using X D [of i] g by (auto simp: is_i64_def)
    have step: "funding_loop clients fr P (row # rows) (d, x) =
        funding_loop clients fr P rows (mput d i (mget d i - funding_of fr P pos), x + funding_of fr P pos)"
      using Some v f F i by (simp add: row TryAdd_eq TrySub_eq funding_of_def Let_def)
    have "\<bar>mget (mput d i (mget d i - funding_of fr P pos)) j\<bar> + gross clients fr P rows \<le> MaxInt64" for j
      using D [of i] D [of j] abs by (simp add: abs_if split: if_splits)
    moreover have "\<bar>x + funding_of fr P pos\<bar> + gross clients fr P rows \<le> MaxInt64" using X abs by linarith
    ultimately show ?thesis unfolding step using Cons.IH [OF rest] by blast
  qed
qed simp

lemma plan_payments_total:
  "\<forall>i\<in>set is. \<exists>c. map_of clients i = Some c \<and> is_i64 (mget (PerpBalances c) quote) \<and> is_i64 (mget d i) \<and> is_i64 (mget (PerpBalances c) quote + mget d i) \<Longrightarrow>
   \<exists>ps. plan_payments clients quote d is = Some ps"
proof (induction "is")
  case (Cons i "is")
  then obtain c ps where "map_of clients i = Some c" "TryAdd (mget (PerpBalances c) quote) (mget d i) = Some (mget (PerpBalances c) quote + mget d i)"
    "plan_payments clients quote d is = Some ps" by (auto simp: TryAdd_eq)
  then show ?case by (simp add: Let_def)
qed simp

text \<open>The effect of a settlement that goes through, account by account.\<close>

definition funding_paid :: "PositionManager \<Rightarrow> Perp \<Rightarrow> Ledger \<Rightarrow> Ledger \<Rightarrow> bool" where
  "funding_paid pm perp l l' \<longleftrightarrow>
     (let fr = PerpFunding perp; P = BasePrecision perp; quote = QuoteAsset perp; rows = PositionsForFunding (PerpSymbol perp) pm
      in (\<forall>i. map_of (Clients l) i = None \<longrightarrow> map_of (Clients l') i = None) \<and>
         (\<forall>i c. map_of (Clients l) i = Some c \<longrightarrow> (\<exists>c'. map_of (Clients l') i = Some c' \<and> c'\<lparr>PerpBalances := PerpBalances c\<rparr> = c \<and>
            (\<forall>a. PerpBalance c' a = PerpBalance c a - (if a = quote then owed fr P rows i else 0)))) \<and>
         (\<forall>a. mget (FeeRevenue (ExBal l')) a = mget (FeeRevenue (ExBal l)) a + (if a = quote then collected (Clients l) fr P rows else 0)) \<and>
         InsuranceFund (ExBal l') = InsuranceFund (ExBal l))"

lemma payments_paid:
  assumes plan: "plan_payments (Clients l) quote d (mkeys d) = Some ps" and d: "is_map d" "\<forall>i. is_i64 (mget d i)"
    and bal: "\<forall>i c. map_of (Clients l) i = Some c \<longrightarrow> is_i64 (mget (PerpBalances c) quote)"
  shows "map_of (Clients l) i = None \<Longrightarrow> map_of (Clients (apply_payments quote ps l)) i = None"
    "map_of (Clients l) i = Some c \<Longrightarrow> \<exists>c'. map_of (Clients (apply_payments quote ps l)) i = Some c' \<and> c'\<lparr>PerpBalances := PerpBalances c\<rparr> = c \<and>
       (\<forall>a. PerpBalance c' a = PerpBalance c a + (if a = quote then mget d i else 0))"
proof -
  note P = plan_payments_exact [OF plan mkeys_distinct [OF d(1)] d(2) bal]
  have dist: "distinct (map fst ps)" using P by blast
  note C = apply_payments_clients [OF dist, of quote l i]
  show "map_of (Clients l) i = None \<Longrightarrow> map_of (Clients (apply_payments quote ps l)) i = None" by (simp add: C split: option.splits)
  assume c: "map_of (Clients l) i = Some c"
  show "\<exists>c'. map_of (Clients (apply_payments quote ps l)) i = Some c' \<and> c'\<lparr>PerpBalances := PerpBalances c\<rparr> = c \<and>
       (\<forall>a. PerpBalance c' a = PerpBalance c a + (if a = quote then mget d i else 0))"
  proof (cases "map_of ps i")
    case None
    then have "i \<notin> set (map fst ps)" by (simp add: map_of_eq_None_iff)
    moreover have "mget d i = 0" if "i \<notin> set (mkeys d)" using that mget_absent mkeys_set by metis
    ultimately have "mget d i = 0" using P by blast
    then show ?thesis using C c None by simp
  next
    case (Some p)
    then obtain old new where p: "p = (old, new)" "(i, old, new) \<in> set ps" by (cases p) (auto dest: map_of_SomeD)
    then have "new = old + mget d i" "old = mget (PerpBalances c) quote" using P c by fastforce+
    then show ?thesis using C c Some p by (simp add: PerpBalance_def)
  qed
qed

lemma payable:
  assumes l: "ledger_ok l" and p: "perp_ok perp" and fits: "funding_fits pm perp ts l"
    and sz: "\<forall>(i, q)\<in>set (PositionsForFunding (PerpSymbol perp) pm). is_i64 (PosSize q)"
    and bal: "\<forall>i c. map_of (Clients l) i = Some c \<longrightarrow> is_i64 (mget (PerpBalances c) (QuoteAsset perp))"
    and rev: "is_i64 (mget (FeeRevenue (ExBal l)) (QuoteAsset perp))"
  shows "\<exists>d x ps. funding_loop (Clients l) (PerpFunding perp) (BasePrecision perp) (PositionsForFunding (PerpSymbol perp) pm) ([], 0) = Some (d, x) \<and>
    plan_payments (Clients l) (QuoteAsset perp) d (mkeys d) = Some ps \<and> TryAdd (mget (FeeRevenue (ExBal l)) (QuoteAsset perp)) x \<noteq> None"
proof -
  let ?fr = "PerpFunding perp" and ?q = "QuoteAsset perp" and ?rows = "PositionsForFunding (PerpSymbol perp) pm" and ?P = "BasePrecision perp"
  let ?g = "gross (Clients l) ?fr ?P ?rows"
  have f: "0 < ?P" "\<forall>(i, pos)\<in>set ?rows. position_value ?fr ?P pos \<le> MaxInt64" "?g \<le> MaxInt64"
    "\<And>i c. map_of (Clients l) i = Some c \<Longrightarrow> \<bar>mget (PerpBalances c) ?q\<bar> + ?g \<le> MaxInt64"
    "\<bar>mget (FeeRevenue (ExBal l)) ?q\<bar> + ?g \<le> MaxInt64"
    using fits by (auto simp: funding_fits_def Let_def dest: map_of_SomeD)
  have i: "is_i64 ?P" "is_i64 (MarkPrice ?fr)" "is_i64 (FRate ?fr)" using p by (auto simp: perp_ok_def)
  have "\<forall>(i, pos)\<in>set ?rows. is_i64 (PosSize pos) \<and> position_value ?fr ?P pos \<le> MaxInt64" using sz f(2) by auto
  then obtain d x where run: "funding_loop (Clients l) ?fr ?P ?rows ([], 0) = Some (d, x)"
    using funding_loop_total [of ?rows ?fr ?P "[]" "Clients l" 0] f(1,3) i by auto
  have D: "is_map d" "\<forall>i. is_i64 (mget d i)" "\<forall>i. mget d i = - (if map_of (Clients l) i = None then 0 else owed ?fr ?P ?rows i)"
    "x = collected (Clients l) ?fr ?P ?rows"
    by (rule funding_loop_start [OF run i sz])+
  have key: "\<exists>c. map_of (Clients l) i = Some c \<and> is_i64 (mget (PerpBalances c) ?q) \<and> is_i64 (mget d i) \<and> is_i64 (mget (PerpBalances c) ?q + mget d i)"
    if "i \<in> set (mkeys d)" for i
  proof -
    have "i \<in> dom (map_of (Clients l))" using that funding_loop_known [OF run] mkeys_set by auto
    then obtain c where c: "map_of (Clients l) i = Some c" by auto
    have "\<bar>mget d i\<bar> \<le> ?g" using D(3) gross_bounds(1) gross_bounds(3) [of "Clients l" i ?fr ?P ?rows] c by simp
    with f(4) [OF c] have "is_i64 (mget (PerpBalances c) ?q + mget d i)" by (auto simp: is_i64_def)
    with c bal D(2) show ?thesis by blast
  qed
  obtain ps where "plan_payments (Clients l) ?q d (mkeys d) = Some ps" using plan_payments_total [of "mkeys d"] key by blast
  moreover have "\<bar>x\<bar> \<le> ?g" using D(4) gross_bounds(2) by simp
  then have "is_i64 x" "is_i64 (mget (FeeRevenue (ExBal l)) ?q + x)" using f(3,5) by (auto simp: is_i64_def)
  then have "TryAdd (mget (FeeRevenue (ExBal l)) ?q) x \<noteq> None" using rev by (simp add: TryAdd_eq)
  ultimately show ?thesis using run by blast
qed

lemma settleFunding_run:
  assumes l: "ledger_ok l" "conserved l" and p: "perp_ok perp"
    and sz: "\<forall>(i, q)\<in>set (PositionsForFunding (PerpSymbol perp) pm). is_i64 (PosSize q)"
  obtains (failed) out where "settleFunding pm perp ts l = Some (out, perp, l)" "out \<noteq> FundingSettled"
      "out = NoBookPrice \<longleftrightarrow> \<not> MarkAvailable (PerpFunding perp)" "\<not> (MarkAvailable (PerpFunding perp) \<and> funding_fits pm perp ts l)"
  | (settled) nf l' where "settleFunding pm perp ts l = Some (FundingSettled, perp\<lparr>PerpFunding := (PerpFunding perp)\<lparr>NextFunding := nf\<rparr>\<rparr>, l')"
      "nextFundingTimestamp ts (Interval (PerpFunding perp)) = Some nf" "MarkAvailable (PerpFunding perp)"
      "ledger_ok l'" "conserved l'" "\<forall>a. held l' a = held l a" "funding_paid pm perp l l'"
proof -
  let ?fr = "PerpFunding perp" and ?q = "QuoteAsset perp" and ?rows = "PositionsForFunding (PerpSymbol perp) pm" and ?P = "BasePrecision perp"
  have bal: "\<forall>i c. map_of (Clients l) i = Some c \<longrightarrow> is_i64 (mget (PerpBalances c) ?q)"
    using ledger_client [OF l(1)] by (auto simp: client_maps_def values_ok_mget)
  have rev: "is_i64 (mget (FeeRevenue (ExBal l)) ?q)" using l(1) by (simp add: ledger_ok_def values_ok_mget)
  note pay = payable [OF l(1) p _ sz bal rev, of ts]
  show thesis
  proof (cases "\<exists>nf d x ps. MarkAvailable ?fr \<and> nextFundingTimestamp ts (Interval ?fr) = Some nf \<and>
      funding_loop (Clients l) ?fr ?P ?rows ([], 0) = Some (d, x) \<and> plan_payments (Clients l) ?q d (mkeys d) = Some ps \<and>
      (x = 0 \<or> TryAdd (mget (FeeRevenue (ExBal l)) ?q) x \<noteq> None)")
    case False
    have "\<not> (MarkAvailable ?fr \<and> funding_fits pm perp ts l)" using False pay by (auto simp: funding_fits_def Let_def)
    moreover from False have "\<exists>out. settleFunding pm perp ts l = Some (out, perp, l) \<and> out \<noteq> FundingSettled \<and> (out = NoBookPrice \<longleftrightarrow> \<not> MarkAvailable ?fr)"
      by (auto simp: settleFunding_def Let_def split: option.splits)
    ultimately show thesis using failed by blast
  next
    case True
    then obtain nf d x ps where av: "MarkAvailable ?fr" and nf: "nextFundingTimestamp ts (Interval ?fr) = Some nf"
      and fl: "funding_loop (Clients l) ?fr ?P ?rows ([], 0) = Some (d, x)" and ps: "plan_payments (Clients l) ?q d (mkeys d) = Some ps"
      and x: "x = 0 \<or> TryAdd (mget (FeeRevenue (ExBal l)) ?q) x \<noteq> None" by blast
    have D: "is_map d" "is_i64 x" "\<forall>i. is_i64 (mget d i)" "msum (\<lambda>i v. v) d + x = 0"
      "\<forall>i. mget d i = - (if map_of (Clients l) i = None then 0 else owed ?fr ?P ?rows i)" "x = collected (Clients l) ?fr ?P ?rows"
      using funding_loop_start [OF fl _ _ _ sz] p by (auto simp only: perp_ok_def)
    note P = plan_payments_exact [OF ps mkeys_distinct [OF D(1)] D(3) bal]
    have P': "distinct (map fst ps)" "\<forall>(i, old, new)\<in>set ps. is_i64 new \<and> is_i64 (new - old) \<and>
        (\<exists>c. map_of (Clients l) i = Some c \<and> mget (PerpBalances c) ?q = old)" "(\<Sum>(i, old, new)\<leftarrow>ps. new - old) = - x"
      using P D(3,4) sum_mkeys [OF D(1)] by auto
    note A = apply_payments_ok [OF l P'(1,2)]
    let ?l = "apply_payments ?q ps l"
    have q: "?q \<noteq> ''''" using p by (simp add: perp_ok_def)
    have "\<exists>l'. (if x = 0 then Some ?l else moveVenueBalance VenueFeeRevenue ?q x (PerpSymbol perp) ?l) = Some l'"
      using x q A by (cases "x = 0") (auto simp: moveVenueBalance_def AddAmount_def Let_def)
    then obtain l' where l': "(if x = 0 then Some ?l else moveVenueBalance VenueFeeRevenue ?q x (PerpSymbol perp) ?l) = Some l'" ..
    have run: "settleFunding pm perp ts l = Some (FundingSettled, perp\<lparr>PerpFunding := ?fr\<lparr>NextFunding := nf\<rparr>\<rparr>, l')"
      using av nf fl ps x l' by (auto simp: settleFunding_def Let_def split: if_splits)
    have M: "ledger_ok l' \<and> conserved l' \<and> (\<forall>a. held l' a = held l a) \<and> Clients l' = Clients ?l"
      using l' A P'(3) q D(2) moveVenueBalance_step [of ?l "\<lambda>_. 0" x VenueFeeRevenue ?q "PerpSymbol perp" l']
      by (auto simp: conserved_iff split: if_splits)
    have V: "(\<forall>a. mget (FeeRevenue (ExBal l')) a = mget (FeeRevenue (ExBal l)) a + (if a = ?q then x else 0)) \<and> InsuranceFund (ExBal l') = InsuranceFund (ExBal l)"
      using l' A q x rev D(2) by (auto simp: moveVenueBalance_def AddAmount_def TryAdd_eq Let_def split: if_splits)
    have C: "\<exists>c'. map_of (Clients l') i = Some c' \<and> c'\<lparr>PerpBalances := PerpBalances c\<rparr> = c \<and>
        (\<forall>a. PerpBalance c' a = PerpBalance c a - (if a = ?q then owed ?fr ?P ?rows i else 0))" if c: "map_of (Clients l) i = Some c" for i c
    proof -
      have "mget d i = - owed ?fr ?P ?rows i" using D(5) c by simp
      moreover obtain c' where "map_of (Clients ?l) i = Some c'" "c'\<lparr>PerpBalances := PerpBalances c\<rparr> = c"
        "\<forall>a. PerpBalance c' a = PerpBalance c a + (if a = ?q then mget d i else 0)"
        using payments_paid(2) [OF ps D(1,3) bal c] by blast
      ultimately show ?thesis using M by (intro exI [of _ c']) simp
    qed
    have "funding_paid pm perp l l'"
      using payments_paid(1) [OF ps D(1,3) bal] M V C D(6) unfolding funding_paid_def Let_def by metis
    with M run nf av show thesis using settled by blast
  qed
qed

lemma nextFunding_later:
  assumes "nextFundingTimestamp now interval = Some t" "is_i64 now" "is_i64 interval"
  shows "now < t \<and> t = now + interval * 1000000000"
proof -
  from assms(1) obtain n where i: "0 < interval" and n: "TryMulDiv interval 1000000000 1 = Some n" "TryAdd now n = Some t"
    by (auto simp: nextFundingTimestamp_def bind_eq_Some_conv split: if_splits)
  have "n = interval * 1000000000" "is_i64 n"
    using n(1) assms(3) by (auto simp: TryMulDiv_eq is_i64_def sdiv_by_sign split: if_splits)
  with n(2) assms(2) i show ?thesis by (auto simp: TryAdd_Some)
qed

lemma position_sizes:
  assumes "pm_ok pm"
  shows "\<forall>(i, q)\<in>set (PositionsForFunding sy pm). is_i64 (PosSize q)"
proof clarify
  fix i q
  assume "(i, q) \<in> set (PositionsForFunding sy pm)"
  then obtain s where "map_of (positions pm) (i, sy, s) = Some q" by (auto simp: mem_PositionsForFunding)
  from pm_ok_position [OF assms this]
  obtain a where "exact_at (precision_of pm (i, sy, s)) (i, sy, s) a q" by blast
  then show "is_i64 (PosSize q)"
    by (auto simp: exact_at_def acc_ok_def newPositionAccounting_def is_i64_def split: if_splits)
qed

end
