(* ===== verification/Instruments.thy ===== *)
theory Instruments
  imports Order_Types
begin

text \<open>Instruments and fee models: the spot instrument and the perpetual future that embeds it
  (\<open>instrument/spot.go\<close>, \<open>instrument/perp.go\<close>) and the three fee schedules of \<open>fee/\<close>. Struct
  embedding is record extension. An error return is \<open>None\<close> where there is one kind of error.\<close>

section \<open>Spot\<close>

definition PositivePriceDomain :: "int64 \<Rightarrow> PriceDomain" where
  "PositivePriceDomain t = \<lparr>signPolicy = PositivePrice, tickSize = t\<rparr>"

definition NonNegativePriceDomain :: "int64 \<Rightarrow> PriceDomain" where
  "NonNegativePriceDomain t = \<lparr>signPolicy = NonNegativePrice, tickSize = t\<rparr>"

definition SignedPriceDomain :: "int64 \<Rightarrow> PriceDomain" where
  "SignedPriceDomain t = \<lparr>signPolicy = SignedPrice, tickSize = t\<rparr>"

record SpotInstrument =
  sp_symbol :: string
  sp_base :: asset
  sp_quote :: asset
  sp_basePrecision :: int64
  sp_quotePrecision :: int64
  sp_tickSize :: int64
  sp_minOrderSize :: int64
  sp_priceDomain :: PriceDomain

definition NewSpotInstrument :: "string \<Rightarrow> asset \<Rightarrow> asset \<Rightarrow> int64 \<Rightarrow> int64 \<Rightarrow> int64 \<Rightarrow> int64 \<Rightarrow> SpotInstrument" where
  "NewSpotInstrument symbol base quote basePrecision quotePrecision tick minOrderSize =
     \<lparr>sp_symbol = symbol, sp_base = base, sp_quote = quote, sp_basePrecision = basePrecision,
      sp_quotePrecision = quotePrecision, sp_tickSize = tick, sp_minOrderSize = minOrderSize,
      sp_priceDomain = PositivePriceDomain tick\<rparr>"

definition ValidatePrice :: "'a SpotInstrument_scheme \<Rightarrow> int64 \<Rightarrow> bool" where
  "ValidatePrice i price = PriceDomain_Validate (sp_priceDomain i) price"

definition setPriceDomain :: "'a SpotInstrument_scheme \<Rightarrow> PriceDomain \<Rightarrow> 'a SpotInstrument_scheme option" where
  "setPriceDomain i domain = (if tickSize domain \<noteq> sp_tickSize i then None else Some (i\<lparr>sp_priceDomain := domain\<rparr>))"

definition ValidateQty :: "'a SpotInstrument_scheme \<Rightarrow> int64 \<Rightarrow> bool" where
  "ValidateQty i qty \<longleftrightarrow> qty \<ge> sp_minOrderSize i"

section \<open>Perpetual futures\<close>

record PerpFutures = SpotInstrument +
  MarginRate :: int64
  MaintenanceMarginRate :: int64
  WarningMarginRate :: int64

definition NewPerpFutures :: "string \<Rightarrow> asset \<Rightarrow> asset \<Rightarrow> int64 \<Rightarrow> int64 \<Rightarrow> int64 \<Rightarrow> int64 \<Rightarrow> PerpFutures" where
  "NewPerpFutures symbol base quote basePrecision quotePrecision tick minOrderSize =
     \<lparr>sp_symbol = symbol, sp_base = base, sp_quote = quote, sp_basePrecision = basePrecision,
      sp_quotePrecision = quotePrecision, sp_tickSize = tick, sp_minOrderSize = minOrderSize,
      sp_priceDomain = PositivePriceDomain tick,
      MarginRate = 1000, MaintenanceMarginRate = 500, WarningMarginRate = 750\<rparr>"

definition MarginRequired :: "PerpFutures \<Rightarrow> int64 \<Rightarrow> int64 \<Rightarrow> int64 \<Rightarrow> int64 option" where
  "MarginRequired p qty price precision =
     (if qty < 0 \<or> MarginRate p < 0 then None
      else (case TryAbsMulDiv qty price precision of
              None \<Rightarrow> None
            | Some notional \<Rightarrow> TryMulDiv notional (MarginRate p) 10000))"

definition MarginForMarket :: "PerpFutures \<Rightarrow> int64 \<Rightarrow> int64 \<Rightarrow> int64 \<Rightarrow> int64 option" where
  "MarginForMarket p qty refPrice precision = MarginRequired p qty refPrice precision"

definition MarginOnCancel :: "PerpFutures \<Rightarrow> int64 \<Rightarrow> int64 \<Rightarrow> int64 \<Rightarrow> int64 option" where
  "MarginOnCancel p remainingQty orderPrice precision = MarginRequired p remainingQty orderPrice precision"

text \<open>The part of a trade that reduces the position, and the profit it realizes; \<open>None\<close> is the
  panic of an unrepresentable profit.\<close>

definition calcClosedQty :: "int64 \<Rightarrow> int64 \<Rightarrow> Side \<Rightarrow> int64" where
  "calcClosedQty oldSize tradeQty side =
     (if oldSize = 0 then 0
      else let delta = (if side = Sell then i64 (- tradeQty) else tradeQty)
      in if oldSize > 0 \<and> delta \<ge> 0 \<or> oldSize < 0 \<and> delta \<le> 0 then 0
         else let absOld = (if oldSize < 0 then i64 (- oldSize) else oldSize);
                  absDelta = (if delta < 0 then i64 (- delta) else delta)
              in if absDelta > absOld then absOld else absDelta)"

definition calcPerpPnL :: "int64 \<Rightarrow> int64 \<Rightarrow> int64 \<Rightarrow> int64 \<Rightarrow> Side \<Rightarrow> int64 \<Rightarrow> int64 option" where
  "calcPerpPnL oldSize oldEntryPrice tradeQty tradePrice tradeSide basePrecision =
     (if oldSize = 0 then Some 0
      else let delta = (if tradeSide = Sell then i64 (- tradeQty) else tradeQty)
      in if oldSize > 0 \<and> delta \<ge> 0 \<or> oldSize < 0 \<and> delta \<le> 0 then Some 0
         else let absOld = (if oldSize < 0 then i64 (- oldSize) else oldSize);
                  absDelta = (if delta < 0 then i64 (- delta) else delta);
                  closedQty = (if absDelta > absOld then absOld else absDelta)
              in (case TryPriceChangeMulDiv closedQty tradePrice oldEntryPrice basePrecision of
                    None \<Rightarrow> None
                  | Some pnl \<Rightarrow> if oldSize < 0 then TrySub 0 pnl else Some pnl))"

section \<open>Fees\<close>

record FillContext =
  fc_Qty :: int64
  fc_Price :: int64
  fc_IsMaker :: bool
  fc_BaseAsset :: asset
  fc_QuoteAsset :: asset
  fc_Precision :: int64

datatype fee_outcome = FeePanic | FeeError | FeeIs Fee

record PercentageFee =
  pf_MakerBps :: int64
  pf_TakerBps :: int64
  pf_InQuote :: bool

record FixedFee =
  ff_MakerFee :: Fee
  ff_TakerFee :: Fee

record OptionFee =
  of_TakerUnderlyingBps :: int64
  of_MakerUnderlyingBps :: int64
  of_CapPremiumBps :: int64
  of_Source :: "(string \<Rightarrow> int64 option) option"
  of_SymbolMap :: "(asset \<Rightarrow> asset \<Rightarrow> string) option"

definition saturated :: "int64 option \<Rightarrow> int64" where
  "saturated r = (case r of None \<Rightarrow> MaxInt64 | Some v \<Rightarrow> v)"

definition PercentageFee_CalculateFee :: "PercentageFee \<Rightarrow> FillContext \<Rightarrow> fee_outcome" where
  "PercentageFee_CalculateFee f ctx =
     (let bps = (if fc_IsMaker ctx then pf_MakerBps f else pf_TakerBps f)
      in if pf_InQuote f
         then (case MulDiv (fc_Qty ctx) (fc_Price ctx) (fc_Precision ctx) of
                 None \<Rightarrow> FeePanic
               | Some tradeValue \<Rightarrow> FeeIs \<lparr>FeeAsset = fc_QuoteAsset ctx, FeeAmount = saturated (TryMulBps tradeValue bps)\<rparr>)
         else FeeIs \<lparr>FeeAsset = fc_BaseAsset ctx, FeeAmount = saturated (TryMulBps (fc_Qty ctx) bps)\<rparr>)"

definition FixedFee_CalculateFee :: "FixedFee \<Rightarrow> FillContext \<Rightarrow> fee_outcome" where
  "FixedFee_CalculateFee f ctx = FeeIs (if fc_IsMaker ctx then ff_MakerFee f else ff_TakerFee f)"

definition OptionFee_CalculateFee :: "OptionFee \<Rightarrow> FillContext \<Rightarrow> fee_outcome" where
  "OptionFee_CalculateFee f ctx =
     (let bps = (if fc_IsMaker ctx then of_MakerUnderlyingBps f else of_TakerUnderlyingBps f);
          fee = (\<lambda>premium amount.
             FeeIs \<lparr>FeeAsset = fc_QuoteAsset ctx, FeeAmount =
               (if of_CapPremiumBps f > 0
                then let cap = i64 (premium * of_CapPremiumBps f) sdiv 10000 in if amount > cap then cap else amount
                else amount)\<rparr>)
      in case MulDiv (fc_Qty ctx) (fc_Price ctx) (fc_Precision ctx) of
           None \<Rightarrow> FeePanic
         | Some premiumNotional \<Rightarrow>
             (case (of_Source f, of_SymbolMap f) of
                (Some price, Some symbolOf) \<Rightarrow>
                  (case price (symbolOf (fc_BaseAsset ctx) (fc_QuoteAsset ctx)) of
                     None \<Rightarrow> FeeError
                   | Some underlying \<Rightarrow>
                       if underlying \<le> 0 then FeeError
                       else (case MulDiv (fc_Qty ctx) underlying (fc_Precision ctx) of
                               None \<Rightarrow> FeePanic
                             | Some notional \<Rightarrow> fee premiumNotional (i64 (notional * bps) sdiv 10000)))
              | _ \<Rightarrow> fee premiumNotional (i64 (premiumNotional * bps) sdiv 10000)))"

datatype FeeModel = Percentage PercentageFee | Fixed FixedFee | OptionSchedule OptionFee

fun CalculateFee :: "FeeModel \<Rightarrow> FillContext \<Rightarrow> fee_outcome" where
  "CalculateFee (Percentage f) ctx = PercentageFee_CalculateFee f ctx"
| "CalculateFee (Fixed f) ctx = FixedFee_CalculateFee f ctx"
| "CalculateFee (OptionSchedule f) ctx = OptionFee_CalculateFee f ctx"

section \<open>What the schedules charge\<close>

text \<open>An option fee is computed with wrapping products, unlike the percentage schedule: a large enough
  notional turns the charge into a payment to the client.\<close>

lemma option_fee_wraps:
  "OptionFee_CalculateFee
     \<lparr>of_TakerUnderlyingBps = 5, of_MakerUnderlyingBps = 5, of_CapPremiumBps = 0, of_Source = None, of_SymbolMap = None\<rparr>
     \<lparr>fc_Qty = 2000000000000000000, fc_Price = 1, fc_IsMaker = False, fc_BaseAsset = ''C'', fc_QuoteAsset = ''USD'', fc_Precision = 1\<rparr>
   = FeeIs \<lparr>FeeAsset = ''USD'', FeeAmount = - 844674407370955\<rparr>"
  by code_simp

end
