(* ===== verification/Order_Funds.thy ===== *)
theory Order_Funds
  imports Instruments Order_Book Venue_Ledger
begin

text \<open>What an order locks (\<open>exchange/order_handling.go\<close>): the reservation in the asset the order
  supplies, the worst fee it can owe, the fees owed in assets the order does not supply, and the
  releases of all of these.

  A fee schedule may panic, report an unavailable price, or answer; \<open>FRFalse\<close> is the code's
  \<open>ok = false\<close> without an error. \<open>margined\<close> says whether the instrument implements one of the margin
  interfaces, in which case the perp wallet is used.\<close>

datatype 'a fee_result = FRPanic | FRError | FRFalse | FRIs 'a

definition probe_fill :: "asset \<Rightarrow> asset \<Rightarrow> int64 \<Rightarrow> int64 \<Rightarrow> int64 \<Rightarrow> FillContext" where
  "probe_fill base quote qty price precision =
     \<lparr>fc_Qty = qty, fc_Price = price, fc_IsMaker = False, fc_BaseAsset = base, fc_QuoteAsset = quote, fc_Precision = precision\<rparr>"

fun fee_headroom :: "FeeModel \<Rightarrow> asset \<Rightarrow> FillContext \<Rightarrow> bool list \<Rightarrow> int64 \<Rightarrow> int64 fee_result" where
  "fee_headroom p a ctx [] headroom = FRIs headroom"
| "fee_headroom p a ctx (isMaker # ms) headroom =
     (case CalculateFee p (ctx\<lparr>fc_IsMaker := isMaker\<rparr>) of
        FeePanic \<Rightarrow> FRPanic
      | FeeError \<Rightarrow> FRError
      | FeeIs fee \<Rightarrow> fee_headroom p a ctx ms
          (if FeeAsset fee = a \<and> FeeAmount fee > headroom then FeeAmount fee else headroom))"

definition quoteFeeHeadroom :: "FeeModel option \<Rightarrow> asset \<Rightarrow> asset \<Rightarrow> int64 \<Rightarrow> int64 \<Rightarrow> int64 \<Rightarrow> int64 fee_result" where
  "quoteFeeHeadroom feePlan base quote qty price precision =
     (case feePlan of
        None \<Rightarrow> FRIs 0
      | Some p \<Rightarrow> if qty \<le> 0 then FRIs 0
                  else fee_headroom p quote (probe_fill base quote qty price precision) [False, True] 0)"

definition reserveAsset :: "'a SpotInstrument_scheme \<Rightarrow> Side \<Rightarrow> asset" where
  "reserveAsset inst side = (if side = Buy then sp_quote inst else sp_base inst)"

definition spotOrderReservation ::
  "FeeModel option \<Rightarrow> 'a SpotInstrument_scheme \<Rightarrow> Side \<Rightarrow> int64 \<Rightarrow> int64 \<Rightarrow> int64 \<Rightarrow> int64 fee_result" where
  "spotOrderReservation feePlan inst side qty price precision =
     (case (if side = Buy then TryMulDiv qty price precision else Some qty) of
        None \<Rightarrow> FRFalse
      | Some amount \<Rightarrow>
          (case (if qty \<le> 0 then None else feePlan) of
             None \<Rightarrow> FRIs (max amount 0)
           | Some p \<Rightarrow>
               (case fee_headroom p (reserveAsset inst side) (probe_fill (sp_base inst) (sp_quote inst) qty price precision)
                       [False, True] 0 of
                  FRIs h \<Rightarrow> (case TryAdd amount h of None \<Rightarrow> FRFalse | Some amount' \<Rightarrow> FRIs amount')
                | e \<Rightarrow> e)))"

section \<open>Fees in other assets\<close>

fun foreign_fee_loop :: "bool \<Rightarrow> FeeModel \<Rightarrow> FillContext \<Rightarrow> bool list \<Rightarrow> (asset, int64) gomap \<Rightarrow> (asset, int64) gomap fee_result" where
  "foreign_fee_loop margined p ctx [] m = FRIs m"
| "foreign_fee_loop margined p ctx (isMaker # ms) m =
     (case CalculateFee p (ctx\<lparr>fc_IsMaker := isMaker\<rparr>) of
        FeePanic \<Rightarrow> FRPanic
      | FeeError \<Rightarrow> FRError
      | FeeIs fee \<Rightarrow> foreign_fee_loop margined p ctx ms
          (if FeeAmount fee \<le> 0 \<or> FeeAsset fee = '''' \<or> FeeAsset fee = fc_QuoteAsset ctx \<or>
              \<not> margined \<and> FeeAsset fee = fc_BaseAsset ctx then m
           else if FeeAmount fee > mget m (FeeAsset fee) then mput m (FeeAsset fee) (FeeAmount fee) else m))"

definition eForeignFeeReservations ::
  "FeeModel option \<Rightarrow> 'a SpotInstrument_scheme \<Rightarrow> Order \<Rightarrow> int64 \<Rightarrow> (asset, int64) gomap fee_result" where
  "eForeignFeeReservations feePlan inst order precision =
     (case feePlan of
        None \<Rightarrow> FRIs []
      | Some p \<Rightarrow> if Qty order \<le> 0 then FRIs []
          else foreign_fee_loop False p (probe_fill (sp_base inst) (sp_quote inst) (Qty order) (Price order) precision) [False, True] [])"

text \<open>A market order's fees are quoted on the executions of a dry run. \<open>receivedNet\<close> is what the
  executions so far brought in of the received asset, net of the fees charged in it.\<close>

fun market_foreign_loop :: "FeeModel \<Rightarrow> 'a SpotInstrument_scheme \<Rightarrow> Side \<Rightarrow> asset \<Rightarrow> int64 \<Rightarrow> Execution list \<Rightarrow>
    int64 \<Rightarrow> (asset, int64) gomap \<Rightarrow> (asset, int64) gomap fee_result" where
  "market_foreign_loop p inst side receivedAsset precision [] receivedNet m = FRIs m"
| "market_foreign_loop p inst side receivedAsset precision (e # es) receivedNet m =
     (if ExecQty e \<le> 0 \<or> \<not> ValidatePrice inst (ExecPrice e) then FRFalse
      else (case (if receivedAsset = '''' then Some receivedNet
                  else Option.bind (if side = Sell then TryMulDiv (ExecQty e) (ExecPrice e) precision else Some (ExecQty e))
                         (TryAdd receivedNet)) of
        None \<Rightarrow> FRFalse
      | Some net \<Rightarrow>
          (case CalculateFee p (probe_fill (sp_base inst) (sp_quote inst) (ExecQty e) (ExecPrice e) precision) of
             FeePanic \<Rightarrow> FRPanic
           | FeeError \<Rightarrow> FRError
           | FeeIs fee \<Rightarrow>
               if FeeAmount fee \<le> 0 \<or> FeeAsset fee = '''' then market_foreign_loop p inst side receivedAsset precision es net m
               else if FeeAsset fee = receivedAsset then
                 (case TrySub net (FeeAmount fee) of
                    None \<Rightarrow> FRFalse
                  | Some net' \<Rightarrow>
                      if net' < 0 then
                        (case TrySub 0 net' of
                           None \<Rightarrow> FRFalse
                         | Some shortfall \<Rightarrow> market_foreign_loop p inst side receivedAsset precision es net'
                             (if shortfall > mget m (FeeAsset fee) then mput m (FeeAsset fee) shortfall else m))
                      else market_foreign_loop p inst side receivedAsset precision es net' m)
               else if FeeAsset fee = reserveAsset inst side then market_foreign_loop p inst side receivedAsset precision es net m
               else (case TryAdd (mget m (FeeAsset fee)) (FeeAmount fee) of
                       None \<Rightarrow> FRFalse
                     | Some amount \<Rightarrow> market_foreign_loop p inst side receivedAsset precision es net
                         (mput m (FeeAsset fee) amount)))))"

definition marketForeignFeeReservations ::
  "bool \<Rightarrow> FeeModel \<Rightarrow> 'a SpotInstrument_scheme \<Rightarrow> Order \<Rightarrow> Execution list \<Rightarrow> int64 \<Rightarrow> (asset, int64) gomap fee_result" where
  "marketForeignFeeReservations margined p inst order executions precision =
     market_foreign_loop p inst (Side order)
       (if margined then '''' else if Side order = Buy then sp_base inst else sp_quote inst) precision executions 0 []"

text \<open>\<open>executions\<close> is the dry run of a market order, \<open>None\<close> when it failed.\<close>

definition foreignFeeReservations ::
  "bool \<Rightarrow> Execution list option \<Rightarrow> FeeModel option \<Rightarrow> 'a SpotInstrument_scheme \<Rightarrow> Order \<Rightarrow> int64 \<Rightarrow>
   (asset, int64) gomap fee_result" where
  "foreignFeeReservations margined executions feePlan inst order precision =
     (case (if Qty order \<le> 0 then None else feePlan) of
        None \<Rightarrow> FRIs []
      | Some p \<Rightarrow>
          if Type order = Market
          then (case executions of
                  None \<Rightarrow> FRFalse
                | Some es \<Rightarrow> marketForeignFeeReservations margined p inst order es precision)
          else (case TrySub (Qty order) (FilledQty order) of
                  None \<Rightarrow> FRIs []
                | Some rem \<Rightarrow>
                    if rem < 0 then FRFalse
                    else if rem = 0 then FRIs []
                    else foreign_fee_loop margined p
                           (probe_fill (sp_base inst) (sp_quote inst) rem (Price order) precision) [False, True] []))"

definition release_wallet :: "bool \<Rightarrow> Client \<Rightarrow> asset \<Rightarrow> int64 \<Rightarrow> Client" where
  "release_wallet margined c a amount = (if margined then ReleasePerp c a amount else Release c a amount)"

definition releaseForeignFeeReservation :: "bool \<Rightarrow> Client \<Rightarrow> Order \<Rightarrow> Client \<times> Order" where
  "releaseForeignFeeReservation margined c order =
     (foldl (\<lambda>c a. release_wallet margined c a (mget (FeeReserved order) a)) c (mkeys (FeeReserved order)),
      order\<lparr>FeeReserved := []\<rparr>)"

definition releaseReserved :: "bool \<Rightarrow> 'a SpotInstrument_scheme \<Rightarrow> Client \<Rightarrow> Order \<Rightarrow> Client \<times> Order" where
  "releaseReserved margined inst c order =
     (let (c1, o1) = releaseForeignFeeReservation margined c order
      in if Reserved o1 \<le> 0 then (c1, o1)
         else (if margined then ReleasePerp c1 (sp_quote inst) (Reserved o1)
               else Release c1 (reserveAsset inst (Side o1)) (Reserved o1),
               o1\<lparr>Reserved := 0\<rparr>))"

text \<open>The loop over the fees runs in the order of the map, which the runtime chooses; a failure
  releases what was reserved before it. The last component is the code's \<open>bool\<close>.\<close>

fun reserve_fees :: "bool \<Rightarrow> (asset, int64) gomap \<Rightarrow> Client \<Rightarrow> Order \<Rightarrow> Client \<times> Order \<times> bool" where
  "reserve_fees margined [] c order = (c, order, True)"
| "reserve_fees margined ((a, amount) # fees) c order =
     (case (if margined then ReservePerp c a amount else Reserve c a amount) of
        None \<Rightarrow> (let (c', o') = releaseForeignFeeReservation margined c order in (c', o', False))
      | Some c' \<Rightarrow> reserve_fees margined fees c' (order\<lparr>FeeReserved := mput (FeeReserved order) a amount\<rparr>))"

definition reserveForeignFeeFunds ::
  "bool \<Rightarrow> Execution list option \<Rightarrow> FeeModel option \<Rightarrow> 'a SpotInstrument_scheme \<Rightarrow> Client \<Rightarrow> Order \<Rightarrow> int64 \<Rightarrow>
   Client \<times> Order \<times> unit fee_result" where
  "reserveForeignFeeFunds margined executions feePlan inst c order precision =
     (case foreignFeeReservations margined executions feePlan inst order precision of
        FRPanic \<Rightarrow> (c, order, FRPanic)
      | FRError \<Rightarrow> (c, order, FRError)
      | FRFalse \<Rightarrow> (c, order, FRFalse)
      | FRIs fees \<Rightarrow>
          let (c', o', ok) = reserve_fees margined fees c order in (c', o', if ok then FRIs () else FRFalse))"

end
