(* ===== verification/Match_Preview.thy ===== *)
theory Match_Preview
  imports Price_Time
begin

text \<open>Dry runs of the matcher (\<open>exchange/order_handling.go\<close>): the book is copied order by order, the
  configured matcher runs on the copies, and the executions are sanity checked. Order admission
  prices fees and funds on the result, and the exchange panics when the live match then differs
  from it; the theorem here is that it cannot.

  The matcher and the instrument's price check are parameters, as the exchange holds them behind
  interfaces. The excluded makers are given as a list of order IDs.\<close>

section \<open>Copying a book\<close>

definition clone_order :: "Order \<Rightarrow> Order" where
  "clone_order order = order\<lparr>Parent := None, FeeReserved := []\<rparr>"

fun clone_queue :: "(uint64 \<rightharpoonup> Order) \<Rightarrow> uint64 list \<Rightarrow> uint64 list \<Rightarrow> Book \<Rightarrow> Book option" where
  "clone_queue orders excluded [] clone = Some clone"
| "clone_queue orders excluded (i # ids) clone =
     (case orders i of
        None \<Rightarrow> None
      | Some order \<Rightarrow>
          if ID order \<in> set excluded then clone_queue orders excluded ids clone
          else (case TrySub (Qty order) (FilledQty order) of
                  None \<Rightarrow> None
                | Some rem \<Rightarrow>
                    if rem < 0 then None
                    else (case AddOrder clone (clone_order order) of
                            None \<Rightarrow> None
                          | Some clone' \<Rightarrow> clone_queue orders excluded ids clone')))"

fun clone_levels :: "Book \<Rightarrow> uint64 list \<Rightarrow> int64 list \<Rightarrow> Book \<Rightarrow> Book option" where
  "clone_levels source excluded [] clone = Some clone"
| "clone_levels source excluded (p # ps) clone =
     (case Limits source p of
        None \<Rightarrow> None
      | Some limit \<Rightarrow> Option.bind (clone_queue (Orders source) excluded (Queue limit) clone)
                        (clone_levels source excluded ps))"

definition cloneBookForPreviewExcluding :: "Book \<Rightarrow> uint64 list \<Rightarrow> Book option" where
  "cloneBookForPreviewExcluding source excluded = clone_levels source excluded (Active source) (NewBook (BookSide source))"

fun level_depth_sane :: "(uint64 \<rightharpoonup> Order) \<Rightarrow> uint64 list \<Rightarrow> uint64 \<Rightarrow> int64 \<Rightarrow> uint64 list \<Rightarrow> bool" where
  "level_depth_sane orders excluded client levelQty [] = True"
| "level_depth_sane orders excluded client levelQty (i # ids) =
     (case orders i of
        None \<Rightarrow> False
      | Some o1 \<Rightarrow>
          if ID o1 \<in> set excluded then level_depth_sane orders excluded client levelQty ids
          else if ClientID o1 = client then level_depth_sane orders excluded client levelQty ids
          else (case TrySub (Qty o1) (FilledQty o1) of
                  None \<Rightarrow> False
                | Some rem \<Rightarrow>
                    if rem < 0 then False
                    else (case TryAdd levelQty rem of
                            None \<Rightarrow> False
                          | Some levelQty' \<Rightarrow> level_depth_sane orders excluded client levelQty' ids)))"

definition marketDepthSaneExcluding :: "Book \<Rightarrow> Book \<Rightarrow> Order \<Rightarrow> uint64 list \<Rightarrow> bool" where
  "marketDepthSaneExcluding bids asks order excluded =
     (let levels = (if Side order = Sell then bids else asks)
      in \<forall>p\<in>set (Active levels). case Limits levels p of
           None \<Rightarrow> False
         | Some limit \<Rightarrow> level_depth_sane (Orders levels) excluded (ClientID order) 0 (Queue limit))"

section \<open>The preview\<close>

type_synonym matcher = "Book \<Rightarrow> Book \<Rightarrow> Order \<Rightarrow> MatchResult option"

fun preview_filled :: "(int64 \<Rightarrow> bool) \<Rightarrow> Order \<Rightarrow> int64 \<Rightarrow> Execution list \<Rightarrow> int64 option" where
  "preview_filled validPrice order filled [] = Some filled"
| "preview_filled validPrice order filled (e # es) =
     (if ExecQty e \<le> 0 \<or> \<not> validPrice (ExecPrice e) \<or> TakerClientID e \<noteq> ClientID order then None
      else (case TryAdd filled (ExecQty e) of
              None \<Rightarrow> None
            | Some filled' \<Rightarrow> if filled' > Qty order then None else preview_filled validPrice order filled' es))"

definition previewMatchExcluding ::
  "matcher option \<Rightarrow> (int64 \<Rightarrow> bool) \<Rightarrow> Book \<Rightarrow> Book \<Rightarrow> Order \<Rightarrow> uint64 list \<Rightarrow> MatchResult option" where
  "previewMatchExcluding matcher validPrice bids asks order excluded =
     (case matcher of
        None \<Rightarrow> None
      | Some match \<Rightarrow>
          if \<not> marketDepthSaneExcluding bids asks order excluded then None
          else (case cloneBookForPreviewExcluding bids excluded of
                  None \<Rightarrow> None
                | Some bids' \<Rightarrow>
          (case cloneBookForPreviewExcluding asks excluded of
                  None \<Rightarrow> None
                | Some asks' \<Rightarrow>
          (case match bids' asks' (order\<lparr>Parent := None, FeeReserved := []\<rparr>) of
                  None \<Rightarrow> None
                | Some result \<Rightarrow>
          (case preview_filled validPrice order 0 (Executions result) of
                  None \<Rightarrow> None
                | Some filled \<Rightarrow> if FullyFilled result \<noteq> (filled = Qty order) then None else Some result)))))"

definition previewMatch :: "matcher option \<Rightarrow> (int64 \<Rightarrow> bool) \<Rightarrow> Book \<Rightarrow> Book \<Rightarrow> Order \<Rightarrow> MatchResult option" where
  "previewMatch matcher validPrice bids asks order = previewMatchExcluding matcher validPrice bids asks order []"

definition canPreviewFullyMatch :: "matcher option \<Rightarrow> (int64 \<Rightarrow> bool) \<Rightarrow> Book \<Rightarrow> Book \<Rightarrow> Order \<Rightarrow> bool" where
  "canPreviewFullyMatch matcher validPrice bids asks order =
     (case previewMatch matcher validPrice bids asks order of None \<Rightarrow> False | Some r \<Rightarrow> FullyFilled r)"

definition previewMarketExecutions :: "matcher option \<Rightarrow> (int64 \<Rightarrow> bool) \<Rightarrow> Book \<Rightarrow> Book \<Rightarrow> Order \<Rightarrow> Execution list option" where
  "previewMarketExecutions matcher validPrice bids asks order =
     map_option Executions (previewMatch matcher validPrice bids asks order)"

fun previewRemainingQty_loop :: "Execution list \<Rightarrow> int64 \<Rightarrow> int64 \<Rightarrow> int64 option" where
  "previewRemainingQty_loop [] filled totalQty = Some filled"
| "previewRemainingQty_loop (e # es) filled totalQty =
     (case TryAdd filled (ExecQty e) of
        None \<Rightarrow> None
      | Some filled' \<Rightarrow> if filled' > totalQty then None else previewRemainingQty_loop es filled' totalQty)"

definition previewRemainingQty :: "Execution list \<Rightarrow> int64 \<Rightarrow> int64 option" where
  "previewRemainingQty executions totalQty =
     Option.bind (previewRemainingQty_loop executions 0 totalQty) (TrySub totalQty)"

section \<open>Books with the same queues\<close>

lemma sorted_better_unique:
  assumes "sorted_wrt (better s) xs" "sorted_wrt (better s) ys" "set xs = set ys"
  shows "xs = ys"
proof (cases s)
  case Sell
  have "better Sell = (<)" by (intro ext) simp
  with Sell show ?thesis using assms by (intro strict_sorted_equal) simp_all
next
  case Buy
  have "better Buy = (\<lambda>x y. y < x)" by (intro ext) simp
  then have "rev xs = rev ys" using assms Buy by (intro strict_sorted_equal) (simp_all add: sorted_wrt_rev)
  then show ?thesis by simp
qed

lemma filter_priority:
  assumes "distinct ps"
  shows "map snd (filter (\<lambda>x. fst x = p) (concat (map (\<lambda>q. map (Pair q) (f q)) ps))) = (if p \<in> set ps then f p else [])"
  using assms
proof (induction ps)
  case (Cons q ps)
  have "filter (\<lambda>x. fst x = p) (map (Pair q) (f q)) = (if q = p then map (Pair q) (f q) else [])"
    by (simp add: filter_map comp_def)
  with Cons show ?case by (auto simp: comp_def)
qed simp

lemma level_queue_priority:
  assumes "book_inv b"
  shows "Queue (level_at b p) = map snd (filter (\<lambda>x. fst x = p) (priority b))"
proof -
  have "distinct (Active b)" using sorted_better_distinct book_invD(1) [OF assms] by blast
  moreover have "Queue (level_at b p) = []" if "p \<notin> set (Active b)"
    using that book_invD(2) [OF assms] by (auto simp: level_at_def split: option.splits)
  ultimately show ?thesis by (simp add: priority_def filter_priority)
qed

lemma Active_priority:
  assumes "book_wf b"
  shows "set (Active b) = fst ` set (priority b)"
proof -
  have "Queue (level_at b p) \<noteq> []" if "p \<in> set (Active b)" for p
    using that assms book_invD(2) [of b] by (auto simp: book_wf_def no_empty_def level_at_def)
  then have "p \<in> fst ` set (priority b)" if "p \<in> set (Active b)" for p
    using that priority_mem [of p _ b] by (metis fst_conv image_eqI list.set_sel(1))
  then show ?thesis by (auto simp: priority_mem)
qed

lemma priority_distinct:
  assumes "book_inv b"
  shows "distinct (map snd (priority b))"
proof -
  have "distinct (map snd (concat (map (\<lambda>q. map (Pair q) (Queue (level_at b q))) ps)))"
    if "distinct ps" "set ps \<subseteq> set (Active b)" for ps
    using that
  proof (induction ps)
    case (Cons p ps)
    have L: "Limits b q = Some (level_at b q)" if "q \<in> set (p # ps)" for q
      using that Cons.prems(2) book_invD(2) [OF assms] by (auto simp: level_at_def)
    have "i \<notin> set (Queue (level_at b q))" if "i \<in> set (Queue (level_at b p))" "q \<in> set ps" for i q
      using queue_unique [OF assms L [of p] that(1) L [of q]] that(2) Cons.prems(1) by auto
    moreover have "distinct (Queue (level_at b p))" using level_okD(2) [OF level_at_ok [OF assms]] .
    ultimately show ?case using Cons by (auto simp: comp_def)
  qed simp
  then show ?thesis using sorted_better_distinct book_invD(1) [OF assms] by (simp add: priority_def)
qed

lemma priority_orders:
  assumes "book_inv b" "(p, i) \<in> set (priority b)"
  obtains o1 where "resting b p (level_at b p) i o1"
proof -
  have "p \<in> set (Active b)" "i \<in> set (Queue (level_at b p))" using assms(2) by (auto simp: priority_mem)
  moreover from this have L: "Limits b p = Some (level_at b p)" using book_invD(2) [OF assms(1)] by (auto simp: level_at_def)
  ultimately show thesis using that queue_member [OF assms(1) L] assms(1) by (auto simp: resting_def)
qed

text \<open>The queues and the remaining quantities determine the levels.\<close>

lemma book_determined:
  assumes b: "book_wf b" and c: "book_wf c" and s: "BookSide c = BookSide b" and p: "priority c = priority b"
    and r: "\<forall>i\<in>snd ` set (priority b). rem_of (Orders c) i = rem_of (Orders b) i"
  shows "Active c = Active b" "Best c = Best b" "Limits c = Limits b"
proof -
  have inv: "book_inv b" "book_inv c" using b c by (auto simp: book_wf_def)
  show act: "Active c = Active b"
    using book_invD(1) [OF inv(1)] book_invD(1) [OF inv(2)] Active_priority [OF b] Active_priority [OF c]
    by (intro sorted_better_unique [of "BookSide b"]) (simp_all add: s p)
  show "Best c = Best b" using book_invD(3) [OF inv(1)] book_invD(3) [OF inv(2)] by (simp add: act active_head_def)
  show "Limits c = Limits b"
  proof
    fix q
    show "Limits c q = Limits b q"
    proof (cases "q \<in> set (Active b)")
      case False
      then have "q \<notin> dom (Limits b)" "q \<notin> dom (Limits c)"
        using book_invD(2) [OF inv(1)] book_invD(2) [OF inv(2)] act by simp_all
      then show ?thesis by (simp add: domIff)
    next
      case True
      then have "q \<in> dom (Limits b)" "q \<in> dom (Limits c)"
        using book_invD(2) [OF inv(1)] book_invD(2) [OF inv(2)] act by simp_all
      then have L: "Limits b q = Some (level_at b q)" "Limits c q = Some (level_at c q)"
        by (auto simp: level_at_def)
      have Q: "Queue (level_at c q) = Queue (level_at b q)" using inv by (simp add: level_queue_priority p)
      have "i \<in> snd ` set (priority b)" if "i \<in> set (Queue (level_at b q))" for i
        using that True priority_mem [of q i b] by (metis image_eqI snd_conv)
      with r have "(\<Sum>i\<leftarrow>Queue (level_at b q). rem_of (Orders c) i) = (\<Sum>i\<leftarrow>Queue (level_at b q). rem_of (Orders b) i)"
        by (intro arg_cong [where f = sum_list] map_cong) auto
      with Q level_okD(1,3,5) [OF level_at_ok [OF inv(1)], of q] level_okD(1,3,5) [OF level_at_ok [OF inv(2)], of q]
      have "level_at c q = level_at b q" by (intro Limit.equality) simp_all
      with L show ?thesis by simp
    qed
  qed
qed

section \<open>The copy has the same queues\<close>

lemma insert_active_end: "\<forall>q\<in>set qs. \<not> better s p q \<Longrightarrow> insert_active s p qs = qs @ [p]"
  by (induction qs) auto

lemma linked_simps:
  "BookSide (linked c o1) = BookSide c"
  "Active (linked c o1) = (if Price o1 \<in> dom (Limits c) then Active c else insert_active (BookSide c) (Price o1) (Active c))"
  "q \<noteq> Price o1 \<Longrightarrow> level_at (linked c o1) q = level_at c q"
  "Queue (level_at (linked c o1) (Price o1)) = Queue (level_at c (Price o1)) @ [ID o1]"
  "Orders (linked c o1) = (Orders c)(ID o1 \<mapsto> o1\<lparr>DisplayRemaining := display_of o1, Parent := Some (Price o1)\<rparr>)"
  by (auto simp: linked_def Let_def with_level_def open_level_def level_at_def split: option.splits)

lemma linked_priority:
  assumes c: "book_wf c" and w: "\<forall>(q, i)\<in>set (priority c). q = Price o1 \<or> better (BookSide c) q (Price o1)"
  shows "priority (linked c o1) = priority c @ [(Price o1, ID o1)]"
proof -
  let ?p = "Price o1" and ?f = "\<lambda>b q. map (Pair q) (Queue (level_at b q))"
  have inv: "book_inv c" using c by (simp add: book_wf_def)
  have w': "q = ?p \<or> better (BookSide c) q ?p" if "q \<in> set (Active c)" for q
    using that w Active_priority [OF c] by auto
  have same: "map (?f (linked c o1)) qs = map (?f c) qs" if "?p \<notin> set qs" for qs
    using that linked_simps(3) [of _ o1 c] by (intro map_cong refl) metis
  show ?thesis
  proof (cases "?p \<in> set (Active c)")
    case True
    then obtain xs ys where act: "Active c = xs @ ?p # ys" by (meson split_list)
    have so: "sorted_wrt (better (BookSide c)) (xs @ ?p # ys)" using book_invD(1) [OF inv] act by simp
    have "ys = []"
    proof (rule ccontr)
      assume "ys \<noteq> []"
      then have h: "hd ys \<in> set ys" by simp
      then have "better (BookSide c) ?p (hd ys)" using so by (simp add: sorted_wrt_append)
      moreover have "hd ys = ?p \<or> better (BookSide c) (hd ys) ?p" using w' [of "hd ys"] h act by simp
      ultimately show False using better_trans better_irrefl by metis
    qed
    moreover have "?p \<notin> set xs" using sorted_better_distinct [OF so] by simp
    moreover have "?p \<in> dom (Limits c)" using True book_invD(2) [OF inv] by simp
    ultimately show ?thesis by (simp add: priority_def linked_simps act same)
  next
    case False
    have "\<not> better (BookSide c) ?p q" if "q \<in> set (Active c)" for q
      using w' [OF that] False that better_trans better_irrefl by metis
    then have "Active (linked c o1) = Active c @ [?p]"
      using False book_invD(2) [OF inv] by (simp add: linked_simps insert_active_end)
    moreover have "Queue (level_at c ?p) = []"
      using False book_invD(2) [OF inv] by (auto simp: level_at_def split: option.splits)
    ultimately show ?thesis using False by (simp add: priority_def same linked_simps)
  qed
qed

definition defee :: "Order \<Rightarrow> Order" where
  "defee o1 = o1\<lparr>FeeReserved := []\<rparr>"

lemma defee_simps [simp]:
  "ID (defee o1) = ID o1" "ClientID (defee o1) = ClientID o1" "Side (defee o1) = Side o1" "Price (defee o1) = Price o1"
  "Qty (defee o1) = Qty o1" "FilledQty (defee o1) = FilledQty o1" "Visibility (defee o1) = Visibility o1"
  "IcebergQty (defee o1) = IcebergQty o1" "DisplayRemaining (defee o1) = DisplayRemaining o1" "Parent (defee o1) = Parent o1"
  "PositionSide (defee o1) = PositionSide o1" "Type (defee o1) = Type o1"
  "remaining (defee o1) = remaining o1" "order_sane (defee o1) = order_sane o1"
  by (simp_all add: defee_def remaining_def order_sane_def)

text \<open>Copying along the priority list, one order at a time.\<close>

fun link_all :: "(uint64 \<rightharpoonup> Order) \<Rightarrow> (int64 \<times> uint64) list \<Rightarrow> Book \<Rightarrow> Book option" where
  "link_all os [] c = Some c"
| "link_all os ((p, i) # xs) c = Option.bind (AddOrder c (clone_order (the (os i)))) (link_all os xs)"

lemma link_all_append: "link_all os (xs @ ys) c = Option.bind (link_all os xs c) (link_all os ys)"
proof (induction xs arbitrary: c)
  case (Cons x xs)
  then show ?case by (cases x; cases "AddOrder c (clone_order (the (os (snd x))))") simp_all
qed simp

lemma clone_queue_eq:
  assumes "\<forall>i\<in>set ids. \<exists>o1. os i = Some o1 \<and> order_sane o1"
  shows "clone_queue os [] ids c = link_all os (map (Pair p) ids) c"
  using assms
proof (induction ids arbitrary: c)
  case (Cons i ids)
  then obtain o1 where o1: "os i = Some o1" "order_sane o1" by auto
  with Cons order_sane_i64(4) [OF o1(2)] show ?case
    by (auto simp: TrySub_remaining split: option.splits)
qed simp

lemma clone_levels_eq:
  assumes inv: "book_inv b" and ps: "set ps \<subseteq> set (Active b)"
  shows "clone_levels b [] ps c = link_all (Orders b) (concat (map (\<lambda>p. map (Pair p) (Queue (level_at b p))) ps)) c"
  using ps
proof (induction ps arbitrary: c)
  case (Cons p ps)
  then have L: "Limits b p = Some (level_at b p)" using book_invD(2) [OF inv] by (auto simp: level_at_def)
  have "\<exists>o1. Orders b i = Some o1 \<and> order_sane o1" if i: "i \<in> set (Queue (level_at b p))" for i
  proof -
    obtain o1 where o1: "Orders b i = Some o1" using queue_member [OF inv L i] by blast
    then show ?thesis using book_invD(5) [OF inv o1] by (simp add: order_ok_def)
  qed
  then have q: "clone_queue (Orders b) [] (Queue (level_at b p)) c = link_all (Orders b) (map (Pair p) (Queue (level_at b p))) c"
    by (intro clone_queue_eq) blast
  have "clone_levels b [] ps = link_all (Orders b) (concat (map (\<lambda>p. map (Pair p) (Queue (level_at b p))) ps))"
    using Cons by (intro ext) simp
  then show ?case by (simp add: L q link_all_append)
qed simp

lemma priority_sorted:
  assumes "book_inv b" "priority b = xs @ (p, i) # ys" "(q, j) \<in> set xs"
  shows "q = p \<or> better (BookSide b) q p"
proof -
  have "sorted_wrt (\<lambda>x y. fst x = fst y \<or> better (BookSide b) (fst x) (fst y))
      (concat (map (\<lambda>q. map (Pair q) (Queue (level_at b q))) ps))" if "sorted_wrt (better (BookSide b)) ps" for ps
    using that by (induction ps) (auto simp: sorted_wrt_append sorted_wrt_map)
  from this [OF book_invD(1) [OF assms(1)]]
  have "sorted_wrt (\<lambda>x y. fst x = fst y \<or> better (BookSide b) (fst x) (fst y)) (xs @ (p, i) # ys)"
    by (simp only: priority_def [symmetric] assms(2))
  with assms(3) show ?thesis by (fastforce simp: sorted_wrt_append)
qed

lemma sum_list_prefix_le:
  "\<forall>x\<in>set (xs @ ys). 0 \<le> f x \<Longrightarrow> (\<Sum>x\<leftarrow>xs. f x) \<le> (\<Sum>x\<leftarrow>xs @ ys. f x)" for f :: "'a \<Rightarrow> int"
proof -
  assume "\<forall>x\<in>set (xs @ ys). 0 \<le> f x"
  then have "0 \<le> (\<Sum>x\<leftarrow>ys. f x)" by (intro sum_list_nonneg) auto
  then show ?thesis by simp
qed

text \<open>The next order of the source can always be appended to the copy so far.\<close>

lemma clone_linkable:
  assumes b: "book_wf b" and pr: "priority b = xs @ (p, i) # ys" and c: "book_wf c" "priority c = xs"
    and r: "\<forall>j\<in>snd ` set xs. rem_of (Orders c) j = rem_of (Orders b) j"
    and o1: "resting b p (level_at b p) i o1"
  shows "linkable (level_at c p) (clone_order o1)"
proof -
  have inv: "book_inv b" "book_inv c" using b c by (auto simp: book_wf_def)
  note R = restingD [OF o1]
  let ?Q = "Queue (level_at c p)"
  obtain zs where Q: "Queue (level_at b p) = ?Q @ i # zs"
    using level_queue_priority [OF inv(1), of p] level_queue_priority [OF inv(2), of p] pr c(2) by simp
  have sub: "set ?Q \<subseteq> snd ` set xs" using level_queue_priority [OF inv(2), of p] c(2) by auto
  have "(\<Sum>j\<leftarrow>?Q. rem_of (Orders c) j) = (\<Sum>j\<leftarrow>?Q. rem_of (Orders b) j)"
    using r sub by (intro arg_cong [where f = sum_list] map_cong) auto
  moreover have "(\<Sum>j\<leftarrow>?Q @ [i]. rem_of (Orders b) j) \<le> (\<Sum>j\<leftarrow>(?Q @ [i]) @ zs. rem_of (Orders b) j)"
    using rem_of_nonneg [OF inv(1)] by (intro sum_list_prefix_le) simp
  ultimately have "TotalQty (level_at c p) + remaining o1 \<le> TotalQty (level_at b p)"
    using level_okD(5) [OF level_at_ok [OF inv(1)], of p] level_okD(5) [OF level_at_ok [OF inv(2)], of p] R(4)
    by (simp add: Q rem_of_def [of _ i])
  moreover have "OrderCnt (level_at c p) < MaxInt32"
    using level_okD(3,4) [OF level_at_ok [OF inv(1)], of p] level_okD(3) [OF level_at_ok [OF inv(2)], of p] by (simp add: Q)
  ultimately show ?thesis using R(11,12,16)
    by (simp add: linkable_def clone_order_def remaining_def)
qed

lemma clone_order_simps [simp]:
  "ID (clone_order o1) = ID o1" "Price (clone_order o1) = Price o1" "Side (clone_order o1) = Side o1"
  "order_sane (clone_order o1) = order_sane o1" "Parent (clone_order o1) = None"
  "remaining (clone_order o1) = remaining o1"
  by (simp_all add: clone_order_def order_sane_def remaining_def)

lemma link_all_copy:
  assumes b: "book_wf b" and pr: "priority b = xs @ ys"
  shows "\<exists>c. link_all (Orders b) xs (NewBook (BookSide b)) = Some c \<and> book_wf c \<and> BookSide c = BookSide b \<and> priority c = xs \<and>
    (\<forall>i. Orders c i = (if i \<in> snd ` set xs then map_option defee (Orders b i) else None))"
  using pr
proof (induction xs arbitrary: ys rule: rev_induct)
  case Nil
  show ?case using NewBook_wf by (auto simp: NewBook_def priority_def)
next
  case (snoc x xs)
  obtain p i where x: "x = (p, i)" by (cases x)
  have inv: "book_inv b" using b by (simp add: book_wf_def)
  have pr: "priority b = xs @ (p, i) # ys" using snoc.prems x by simp
  obtain c where c: "link_all (Orders b) xs (NewBook (BookSide b)) = Some c" "book_wf c" "BookSide c = BookSide b"
    "priority c = xs" and oc: "\<forall>i. Orders c i = (if i \<in> snd ` set xs then map_option defee (Orders b i) else None)"
    using snoc.IH [OF pr] by blast
  have ci: "book_inv c" using c(2) by (simp add: book_wf_def)
  have "(p, i) \<in> set (priority b)" using pr by simp
  then obtain o1 where o1: "resting b p (level_at b p) i o1" using priority_orders [OF inv] by blast
  note R = restingD [OF o1]
  have new: "i \<notin> snd ` set xs" using priority_distinct [OF inv] pr by auto
  have rem: "\<forall>j\<in>snd ` set xs. rem_of (Orders c) j = rem_of (Orders b) j"
    using oc by (auto simp: rem_of_def split: option.splits)
  have lk: "linkable (level_at c p) (clone_order o1)" by (rule clone_linkable [OF b pr c(2,4) rem o1])
  have dok: "display_ok (clone_order o1)"
    using R(12-14) by (auto simp: display_ok_def clone_order_def)
  have add: "AddOrder c (clone_order o1) = Some (linked c (clone_order o1))"
    using R(6,7,9) lk oc new by (simp add: AddOrder_eq [OF ci])
  have wf: "book_wf (linked c (clone_order o1))"
    using linked_wf(1) [OF c(2) _ _ _ dok add] R(8,9,10) c(3) by simp
  have "\<forall>(q, j)\<in>set (priority c). q = p \<or> better (BookSide c) q p"
    using priority_sorted [OF inv pr] c(3,4) by auto
  then have prio: "priority (linked c (clone_order o1)) = xs @ [(p, i)]"
    using linked_priority [OF c(2), of "clone_order o1"] R(6,7) c(4) by simp
  have "(clone_order o1)\<lparr>DisplayRemaining := display_of (clone_order o1), Parent := Some p\<rparr> = defee o1"
    using R(5,13) by (intro Order.equality) (auto simp: clone_order_def defee_def display_of_def)
  then have "\<forall>j. Orders (linked c (clone_order o1)) j = (if j \<in> snd ` set (xs @ [x]) then map_option defee (Orders b j) else None)"
    using oc R(4,6,7) by (simp add: linked_simps x)
  then show ?case using c(1,3) add wf prio R(4) by (simp add: link_all_append x linked_simps)
qed

lemma clone_exact:
  assumes "book_wf b"
  shows "\<exists>c. cloneBookForPreviewExcluding b [] = Some c \<and> book_wf c \<and> BookSide c = BookSide b \<and> priority c = priority b \<and>
    (\<forall>i. Orders c i = (if i \<in> snd ` set (priority b) then map_option defee (Orders b i) else None))"
proof -
  have "book_inv b" using assms by (simp add: book_wf_def)
  from clone_levels_eq [OF this, of "Active b" "NewBook (BookSide b)"]
  have "cloneBookForPreviewExcluding b [] = link_all (Orders b) (priority b) (NewBook (BookSide b))"
    by (simp add: cloneBookForPreviewExcluding_def priority_def)
  then show ?thesis using link_all_copy [OF assms, of "priority b" "[]"] by simp
qed

section \<open>Matching the copy and matching the book\<close>

text \<open>Two books are alike when they agree on everything but the fee reservations of the queued orders
  and the filled orders that wait for settlement.\<close>

definition alike :: "Book \<Rightarrow> Book \<Rightarrow> bool" where
  "alike b c \<longleftrightarrow> BookSide c = BookSide b \<and> Active c = Active b \<and> Best c = Best b \<and> Limits c = Limits b \<and>
     (\<forall>(p, i)\<in>set (priority b). Orders c i = map_option defee (Orders b i))"

definition state_alike :: "mstate \<Rightarrow> mstate \<Rightarrow> bool" where
  "state_alike st st' \<longleftrightarrow> alike (MBook st) (MBook st') \<and> MTaker st' = defee (MTaker st) \<and> MExecs st' = MExecs st"

lemma alike_level_at: "alike b c \<Longrightarrow> level_at c p = level_at b p"
  by (simp add: alike_def level_at_def)

lemma alike_priority: "alike b c \<Longrightarrow> priority c = priority b"
  by (simp add: priority_def alike_level_at) (simp add: alike_def)

lemma alike_best_maker:
  assumes "state_alike st st'"
  shows "best_maker (MTaker st') (MBook st') = best_maker (MTaker st) (MBook st)"
proof -
  have a: "alike (MBook st) (MBook st')" and t: "MTaker st' = defee (MTaker st)" using assms by (auto simp: state_alike_def)
  have "eligible (MTaker st') (MBook st') x = eligible (MTaker st) (MBook st) x" if x: "x \<in> set (priority (MBook st))" for x
  proof -
    obtain p i where pi: "x = (p, i)" by (cases x)
    with x a have "Orders (MBook st') i = map_option defee (Orders (MBook st) i)" by (auto simp: alike_def)
    then show ?thesis by (cases "Orders (MBook st) i") (simp_all add: pi eligible_def t CanMatch_def)
  qed
  then show ?thesis unfolding best_maker_def alike_priority [OF a] by (intro find_cong) auto
qed

lemma hit_defee:
  "fst (hit q l (defee o1)) = fst (hit q l o1)" "fst (snd (hit q l (defee o1))) = defee (fst (snd (hit q l o1)))"
  by (simp_all add: hit_def fill_order_def) (simp_all add: defee_def)

lemma fill_qty_defee: "fill_qty (defee t) (defee o1) = fill_qty t o1"
  by (simp add: fill_qty_def makerAvailable_def Let_def)

lemma exec_record_defee: "exec_record n (defee t) (defee o1) = exec_record n t o1"
  by (simp add: exec_record_def fill_qty_defee)

lemma fill_priority_subset:
  assumes "resting (MBook st) p l i o1"
  shows "set (priority (MBook (fill_state clock p i st))) \<subseteq> set (priority (MBook st))"
proof -
  note R = restingD [OF assms] and F = fill_state_book [OF assms]
  show ?thesis using R(2,3) hit_queue_subset [of "fill_qty (MTaker st) o1" l o1] unfolding R(6)
    by (auto simp: priority_mem F level_at_def split: if_splits)
qed

lemma fill_alike:
  assumes s: "state_alike st st'" and r: "resting (MBook st) p (level_at (MBook st) p) i o1"
  shows "state_alike (tidy p (fill_state clock p i st)) (tidy p (fill_state clock p i st'))"
proof -
  note R = restingD [OF r]
  have a: "alike (MBook st) (MBook st')" and t: "MTaker st' = defee (MTaker st)" and e: "MExecs st' = MExecs st"
    using s by (auto simp: state_alike_def)
  have "(p, i) \<in> set (priority (MBook st))"
    using R(2,3) book_invD(2) [OF R(1)] by (auto simp: priority_mem)
  then have o': "Orders (MBook st') i = Some (defee o1)" using a R(4) by (auto simp: alike_def)
  let ?q = "fill_qty (MTaker st) o1" and ?l = "level_at (MBook st) p"
  let ?f = "fill_state clock p i st" and ?g = "fill_state clock p i st'"
  have f: "MBook ?f = fill_book ?q p ?l o1 (MBook st)" "MTaker ?f = (MTaker st)\<lparr>FilledQty := FilledQty (MTaker st) + ?q\<rparr>"
    "MExecs ?f = MExecs st @ [exec_record (clock (length (MExecs st))) (MTaker st) o1]"
    by (simp_all add: fill_state_def Let_def R(4))
  have g: "MBook ?g = fill_book ?q p ?l (defee o1) (MBook st')" "MTaker ?g = defee (MTaker ?f)" "MExecs ?g = MExecs ?f"
    using alike_level_at [OF a, of p]
    by (simp_all add: fill_state_def Let_def R(4) o' t e fill_qty_defee exec_record_defee) (simp add: defee_def)
  have o2: "Orders (MBook ?g) j = map_option defee (Orders (MBook ?f) j)" if "(q, j) \<in> set (priority (MBook ?f))" for q j
    using that fill_priority_subset [OF r, of clock] a
    by (cases "j = ID o1") (auto simp: f(1) g(1) fill_book_def hit_defee alike_def)
  have "BookSide (MBook ?g) = BookSide (MBook ?f) \<and> Active (MBook ?g) = Active (MBook ?f) \<and> Best (MBook ?g) = Best (MBook ?f) \<and>
      Limits (MBook ?g) = Limits (MBook ?f)"
    using a by (simp add: alike_def f(1) g(1) fill_book_def hit_defee)
  with o2 have fg: "alike (MBook ?f) (MBook ?g)" unfolding alike_def by blast
  have "alike (MBook (tidy p ?f)) (MBook (tidy p ?g))"
  proof (cases "Queue (level_at (MBook ?f) p) = []")
    case True
    have "set (priority (RemoveLimit (MBook ?f) p)) \<subseteq> set (priority (MBook ?f))"
      using priority_tidy [of p ?f] True by (simp add: tidy_def)
    with fg o2 show ?thesis
      by (auto simp: tidy_def alike_level_at [OF fg] True alike_def RemoveLimit_def Let_def active_head_def)
  next
    case False
    then show ?thesis using fg by (simp add: tidy_def alike_level_at [OF fg])
  qed
  then show ?thesis using g(2,3) by (simp add: state_alike_def tidy_def)
qed

lemma auction_alike:
  assumes "auction clock st fin" "match_ready st" "state_alike st st'"
  shows "\<exists>fin'. auction clock st' fin' \<and> state_alike fin fin'"
  using assms
proof (induction arbitrary: st' rule: auction_inv_induct)
  case (finished st)
  then have "taker_open st' = taker_open st" by (simp add: state_alike_def taker_open_def)
  with finished alike_best_maker [OF finished(3)] show ?case by (metis auction.finished)
next
  case (trade st p i o1 fin)
  have "taker_open st'" using trade(2,9) by (simp add: state_alike_def taker_open_def)
  moreover have "best_maker (MTaker st') (MBook st') = Some (p, i)" using alike_best_maker [OF trade(9)] trade(3) by simp
  moreover obtain fin' where "auction clock (tidy p (fill_state clock p i st')) fin'" "state_alike fin fin'"
    using trade(8) [OF fill_alike [OF trade(9,4)]] by blast
  ultimately show ?case by (metis auction.trade)
qed

lemma auction_deterministic:
  assumes "auction clock st x" "auction clock st y"
  shows "x = y"
  using assms
proof (induction arbitrary: y rule: auction.induct)
  case (finished st)
  from finished(2) show ?case by (rule auctionE) (use finished(1) in auto)
next
  case (trade st p i fin)
  note hyps = trade.hyps and IH = trade.IH
  from trade.prems show ?case
  proof (cases rule: auction.cases)
    case finished
    then show ?thesis using hyps(1,2) by simp
  next
    case (trade q j)
    have "(q, j) = (p, i)" using trade(2) hyps(2) by simp
    then show ?thesis using trade(3) IH by simp
  qed
qed

lemma clone_alike:
  assumes b: "book_wf b"
  obtains c where "cloneBookForPreviewExcluding b [] = Some c" "book_wf c" "alike b c"
proof -
  obtain c where c: "cloneBookForPreviewExcluding b [] = Some c" "book_wf c" "BookSide c = BookSide b" "priority c = priority b"
    and o: "\<forall>i. Orders c i = (if i \<in> snd ` set (priority b) then map_option defee (Orders b i) else None)"
    using clone_exact [OF b] by blast
  have "rem_of (Orders c) i = rem_of (Orders b) i" if "i \<in> snd ` set (priority b)" for i
  proof -
    have "Orders c i = map_option defee (Orders b i)" using o that by simp
    then show ?thesis by (cases "Orders b i") (simp_all add: rem_of_def)
  qed
  note d = book_determined [OF b c(2,3,4), OF ballI, OF this]
  have "Orders c i = map_option defee (Orders b i)" if "(p, i) \<in> set (priority b)" for p i
  proof -
    have "i \<in> snd ` set (priority b)" using that by (metis image_eqI snd_conv)
    with o show ?thesis by simp
  qed
  with c d have "alike b c" by (auto simp: alike_def)
  with c that show thesis by blast
qed

lemma level_depth_sane_ok:
  assumes "\<forall>i\<in>set ids. \<exists>o1. os i = Some o1 \<and> order_sane o1" "0 \<le> n" "n + (\<Sum>i\<leftarrow>ids. rem_of os i) \<le> MaxInt64"
  shows "level_depth_sane os [] client n ids"
  using assms
proof (induction ids arbitrary: n)
  case (Cons i ids)
  then obtain o1 where o1: "os i = Some o1" "order_sane o1" by auto
  note r = order_sane_i64(4,5) [OF o1(2)]
  have "0 \<le> rem_of os j" if "j \<in> set ids" for j
    using that Cons.prems(1) order_sane_i64(4) by (fastforce simp: rem_of_def)
  then have s: "0 \<le> (\<Sum>i\<leftarrow>ids. rem_of os i)" by (intro sum_list_nonneg) auto
  have sum: "n + remaining o1 + (\<Sum>i\<leftarrow>ids. rem_of os i) \<le> MaxInt64" using Cons.prems(3) o1 by (simp add: rem_of_def)
  have "TryAdd n (remaining o1) = Some (n + remaining o1)"
    using r Cons.prems(2) sum s by (subst TryAdd_eq) (auto simp: is_i64_def)
  then show ?case using Cons.IH [of n] Cons.IH [of "n + remaining o1"] Cons.prems sum s r o1
    by (simp add: TrySub_remaining)
qed simp

lemma depth_sane:
  assumes "book_inv bids" "book_inv asks"
  shows "marketDepthSaneExcluding bids asks t []"
proof -
  define b where "b = (if Side t = Sell then bids else asks)"
  have inv: "book_inv b" using assms by (simp add: b_def)
  have "case Limits b p of None \<Rightarrow> False | Some l \<Rightarrow> level_depth_sane (Orders b) [] (ClientID t) 0 (Queue l)"
    if "p \<in> set (Active b)" for p
  proof -
    have "p \<in> dom (Limits b)" using that book_invD(2) [OF inv] by simp
    then obtain l where L: "Limits b p = Some l" by blast
    have "\<exists>o1. Orders b i = Some o1 \<and> order_sane o1" if "i \<in> set (Queue l)" for i
      using queue_member [OF inv L that] by (metis order_ok_def)
    then have "level_depth_sane (Orders b) [] (ClientID t) 0 (Queue l)"
      using level_okD(5,6) [OF book_invD(4) [OF inv L]] by (intro level_depth_sane_ok) auto
    with L show ?thesis by simp
  qed
  then show ?thesis unfolding marketDepthSaneExcluding_def Let_def b_def [symmetric] by blast
qed

lemma preview_filled_eq:
  assumes "\<forall>e\<in>set es. 0 < ExecQty e \<and> validPrice (ExecPrice e) \<and> TakerClientID e = ClientID t" "0 \<le> n"
    "n + (\<Sum>e\<leftarrow>es. ExecQty e) \<le> Qty t" "Qty t \<le> MaxInt64"
  shows "preview_filled validPrice t n es = Some (n + (\<Sum>e\<leftarrow>es. ExecQty e))"
  using assms
proof (induction es arbitrary: n)
  case (Cons e es)
  have "0 \<le> (\<Sum>e\<leftarrow>es. ExecQty e)" using Cons.prems(1) by (intro sum_list_nonneg) auto
  moreover have e: "0 < ExecQty e" using Cons.prems(1) by simp
  ultimately have "TryAdd n (ExecQty e) = Some (n + ExecQty e)" "n + ExecQty e \<le> Qty t"
    using Cons.prems by (auto simp: TryAdd_eq is_i64_def)
  then show ?case using Cons e by (simp add: add.assoc)
qed simp

lemma alike_ok: "books_ok bids asks \<Longrightarrow> alike bids b \<Longrightarrow> alike asks a \<Longrightarrow> book_wf b \<Longrightarrow> book_wf a \<Longrightarrow> books_ok b a"
  by (simp add: books_ok_def alike_def)

text \<open>The preview and the live match, side by side.\<close>

lemma preview_run:
  assumes ok: "books_ok bids asks" and t: "order_sane t" "FilledQty t = 0" "Parent t = None"
  obtains b a st st' where "cloneBookForPreviewExcluding bids [] = Some b" "cloneBookForPreviewExcluding asks [] = Some a"
    "Match clock bids asks t = Some (match_result bids asks t st)"
    "Match clock b a (t\<lparr>Parent := None, FeeReserved := []\<rparr>) = Some (match_result b a (defee t) st')"
    "MExecs st' = MExecs st" "taker_open st' = taker_open st" "marketDepthSaneExcluding bids asks t []"
    "\<forall>e\<in>set (MExecs st). exec_ok (match_start bids asks t) e" "(\<Sum>e\<leftarrow>MExecs st. ExecQty e) = FilledQty (MTaker st)"
    "FilledQty (MTaker st) \<le> Qty t" "(\<not> taker_open st) = (FilledQty (MTaker st) = Qty t)"
proof -
  have wf: "book_wf bids" "book_wf asks" using ok by (auto simp: books_ok_def)
  obtain b where b: "cloneBookForPreviewExcluding bids [] = Some b" "book_wf b" "alike bids b" by (rule clone_alike [OF wf(1)])
  obtain a where a: "cloneBookForPreviewExcluding asks [] = Some a" "book_wf a" "alike asks a" by (rule clone_alike [OF wf(2)])
  have inc: "t\<lparr>Parent := None, FeeReserved := []\<rparr> = defee t" using t(3) by (simp add: defee_def)
  obtain st where live: "Match clock bids asks t = Some (match_result bids asks t st)"
    "auction clock (match_start bids asks t) st" "match_ready (match_start bids asks t)" "match_ready st"
    by (rule Match_run [OF ok t(1)])
  obtain st' where prev: "Match clock b a (defee t) = Some (match_result b a (defee t) st')"
    "auction clock (match_start b a (defee t)) st'"
    using Match_run [OF alike_ok [OF ok b(3) a(3) b(2) a(2)], of "defee t" clock] t(1) by (metis defee_simps(14))
  have prev': "Match clock b a (t\<lparr>Parent := None, FeeReserved := []\<rparr>) = Some (match_result b a (defee t) st')"
    using prev(1) by (simp only: inc)
  have "state_alike (match_start bids asks t) (match_start b a (defee t))"
    using a(3) b(3) by (simp add: state_alike_def opposite_def)
  from auction_alike [OF live(2,3) this] obtain fin where "auction clock (match_start b a (defee t)) fin" "state_alike st fin"
    by blast
  then have al: "state_alike st st'" using auction_deterministic [OF prev(2)] by blast
  have ex: "MExecs st' = MExecs st" "taker_open st' = taker_open st" using al by (auto simp: state_alike_def taker_open_def)
  have legal: "\<forall>e\<in>set (MExecs st). exec_ok (match_start bids asks t) e" using auction_execs [OF live(2,3)] by simp
  have sum: "(\<Sum>e\<leftarrow>MExecs st. ExecQty e) = FilledQty (MTaker st)" using auction_sum [OF live(2,3)] t(2) by simp
  have q: "FilledQty (MTaker st) \<le> Qty t" "Qty (MTaker st) = Qty t"
    using live(4) auction_taker [OF live(2)] t(1) by (auto simp: match_ready_def order_sane_def)
  have sane: "marketDepthSaneExcluding bids asks t []" using wf by (intro depth_sane) (auto simp: book_wf_def)
  have open_iff: "(\<not> taker_open st) = (FilledQty (MTaker st) = Qty t)" using q by (auto simp: taker_open_def)
  show thesis by (rule that [OF b(1) a(1) live(1) prev' ex sane legal sum q(1) open_iff])
qed

lemma preview_is_live:
  assumes ok: "books_ok bids asks" and t: "order_sane t" "FilledQty t = 0" "Parent t = None"
    and p: "previewMatchExcluding (Some (Match clock)) validPrice bids asks t [] = Some preview" and m: "Match clock bids asks t = Some live"
  shows "Executions preview = Executions live" "FullyFilled preview = FullyFilled live"
proof -
  obtain b a st st' where r: "cloneBookForPreviewExcluding bids [] = Some b" "cloneBookForPreviewExcluding asks [] = Some a"
    "Match clock bids asks t = Some (match_result bids asks t st)"
    "Match clock b a (t\<lparr>Parent := None, FeeReserved := []\<rparr>) = Some (match_result b a (defee t) st')"
    "MExecs st' = MExecs st" "taker_open st' = taker_open st" "marketDepthSaneExcluding bids asks t []"
    using preview_run [OF ok t, of clock] by metis
  have "preview = match_result b a (defee t) st'"
    using p by (auto simp: previewMatchExcluding_def r(1,2,4,7) split: option.splits if_splits)
  with m r(3,5,6) show "Executions preview = Executions live" "FullyFilled preview = FullyFilled live" by auto
qed

section \<open>Property\<close>

text \<open>C7: a dry run of the matcher predicts the live match. On well-formed books whose resting prices
  the instrument admits, the preview of a new order never fails, reports exactly the executions
  and the fill status the live match produces, and so neither of the exchange's panics for a
  diverging match can fire.\<close>

theorem preview_predicts_match:
  assumes ok: "books_ok bids asks" and t: "order_sane t" "FilledQty t = 0" "Parent t = None"
    and v: "\<forall>i o1. Orders (opposite (Side t) bids asks) i = Some o1 \<longrightarrow> validPrice (Price o1)"
  shows "\<exists>preview live. previewMatch (Some (Match clock)) validPrice bids asks t = Some preview \<and>
    Match clock bids asks t = Some live \<and> Executions preview = Executions live \<and>
    FullyFilled preview = FullyFilled live"
proof -
  obtain b a st st' where r: "cloneBookForPreviewExcluding bids [] = Some b" "cloneBookForPreviewExcluding asks [] = Some a"
    "Match clock bids asks t = Some (match_result bids asks t st)"
    "Match clock b a (t\<lparr>Parent := None, FeeReserved := []\<rparr>) = Some (match_result b a (defee t) st')"
    "MExecs st' = MExecs st" "taker_open st' = taker_open st" "marketDepthSaneExcluding bids asks t []"
    "\<forall>e\<in>set (MExecs st). exec_ok (match_start bids asks t) e" "(\<Sum>e\<leftarrow>MExecs st. ExecQty e) = FilledQty (MTaker st)"
    "FilledQty (MTaker st) \<le> Qty t" "(\<not> taker_open st) = (FilledQty (MTaker st) = Qty t)"
    by (rule preview_run [OF ok t, of clock])
  have legal: "\<forall>e\<in>set (MExecs st). 0 < ExecQty e \<and> validPrice (ExecPrice e) \<and> TakerClientID e = ClientID t"
    using r(8) v by (fastforce simp: exec_ok_def)
  have "Qty t \<le> MaxInt64" using t(1) by (simp add: order_sane_def)
  then have "preview_filled validPrice t 0 (MExecs st) = Some (FilledQty (MTaker st))"
    using preview_filled_eq [OF legal, of 0] r(9,10) by simp
  then have "previewMatch (Some (Match clock)) validPrice bids asks t = Some (match_result b a (defee t) st')"
    using r by (simp add: previewMatch_def previewMatchExcluding_def)
  with r(3,5,6) show ?thesis by simp
qed

theorem preview_predicts_match_witness:
  "\<exists>preview live. previewMatch (Some (Match (\<lambda>_. 0))) (\<lambda>p. 0 < p) (NewBook Buy) ask_ladder (sample_order 9 7 Buy 101 6) = Some preview \<and>
     Match (\<lambda>_. 0) (NewBook Buy) ask_ladder (sample_order 9 7 Buy 101 6) = Some live \<and>
     Executions preview = Executions live \<and> length (Executions live) = 2"
proof -
  let ?t = "sample_order 9 7 Buy 101 6"
  have p: "0 < Price o1" if "Orders ask_ladder i = Some o1" for i o1
    using that by (auto simp: ask_ladder_def linked_def Let_def with_level_def open_level_def NewBook_def split: if_splits option.splits)
  have n: "map_option (\<lambda>r. length (Executions r)) (Match (\<lambda>_. 0) (NewBook Buy) ask_ladder ?t) = Some 2" by code_simp
  have "order_sane ?t" "FilledQty ?t = 0" "Parent ?t = None" "Side ?t = Buy" by (simp_all add: sample_order_def order_sane_def)
  with preview_predicts_match [OF ask_ladder_ok, of ?t "\<lambda>p. 0 < p" "\<lambda>_. 0"] p n show ?thesis
    by (auto simp: opposite_def)
qed

end
