(* ===== verification/Spot_Plan.thy ===== *)
theory Spot_Plan
  imports Order_Funds Match_Preview
begin

text \<open>The preflight of a spot match (\<open>exchange/spot_execution_plan.go\<close>): the fees of every execution
  of a dry run are quoted and frozen, and a copy of the touched accounts replays the settlement in
  checked arithmetic, so that an order nobody can pay for is refused before the live book changes.

  A failure carries the maker to remove, 0 when the incoming order itself is refused, and whether a
  price was unavailable. The fee schedule of a client is \<open>se_plan\<close>.\<close>

record spot_env =
  se_inst :: SpotInstrument
  se_plan :: "uint64 \<Rightarrow> FeeModel option"

abbreviation se_precision :: "spot_env \<Rightarrow> int64" where
  "se_precision env \<equiv> sp_basePrecision (se_inst env)"

datatype spotPlanFailure = PlanPanic | Failure uint64 bool

section \<open>Frozen executions\<close>

record executionFingerprint =
  fp_takerOrderID :: uint64
  fp_makerOrderID :: uint64
  fp_takerClientID :: uint64
  fp_makerClientID :: uint64
  fp_price :: int64
  fp_qty :: int64
  fp_takerFilled :: int64
  fp_makerFilled :: int64
  fp_makerTotal :: int64
  fp_makerSide :: Side
  fp_makerPosSide :: PositionSide

definition newExecutionFingerprint :: "Execution \<Rightarrow> executionFingerprint" where
  "newExecutionFingerprint e =
     \<lparr>fp_takerOrderID = TakerOrderID e, fp_makerOrderID = MakerOrderID e, fp_takerClientID = TakerClientID e,
      fp_makerClientID = MakerClientID e, fp_price = ExecPrice e, fp_qty = ExecQty e, fp_takerFilled = TakerFilledQty e,
      fp_makerFilled = MakerFilledQty e, fp_makerTotal = MakerTotalQty e, fp_makerSide = MakerSide e,
      fp_makerPosSide = MakerPosSide e\<rparr>"

record plannedSpotExecution =
  fingerprint :: executionFingerprint
  takerFee :: Fee
  makerFee :: Fee

record spotExecutionPlan =
  fills :: "plannedSpotExecution list"
  fullyFilled :: bool

definition fill_matches :: "plannedSpotExecution \<Rightarrow> Execution \<Rightarrow> bool" where
  "fill_matches f e \<longleftrightarrow> fingerprint f = newExecutionFingerprint e"

definition plan_matches :: "spotExecutionPlan \<Rightarrow> Execution list \<Rightarrow> bool" where
  "plan_matches plan es \<longleftrightarrow> list_all2 fill_matches (fills plan) es"

definition no_fee :: Fee where
  "no_fee = \<lparr>FeeAsset = '''', FeeAmount = 0\<rparr>"

definition calcClientFee :: "spot_env \<Rightarrow> (uint64, Client) gomap \<Rightarrow> uint64 \<Rightarrow> FillContext \<Rightarrow> fee_outcome" where
  "calcClientFee env clients clientID ctx =
     (case (if map_of clients clientID = None then None else se_plan env clientID) of
        None \<Rightarrow> FeeIs no_fee
      | Some p \<Rightarrow> CalculateFee p ctx)"

definition known_maker :: "OrderBook \<Rightarrow> Execution \<Rightarrow> Order option" where
  "known_maker book e =
     (case FindOrder book (MakerOrderID e) of
        None \<Rightarrow> None
      | Some m \<Rightarrow> if ClientID m \<noteq> MakerClientID e \<or> Side m \<noteq> MakerSide e \<or> PositionSide m \<noteq> MakerPosSide e \<or>
                       MakerTotalQty e \<noteq> Qty m then None else Some m)"

definition quote_fee :: "spot_env \<Rightarrow> (uint64, Client) gomap \<Rightarrow> uint64 \<Rightarrow> bool \<Rightarrow> Execution \<Rightarrow> spotPlanFailure + Fee" where
  "quote_fee env clients clientID isMaker e =
     (case calcClientFee env clients clientID
             ((probe_fill (sp_base (se_inst env)) (sp_quote (se_inst env)) (ExecQty e) (ExecPrice e) (se_precision env))\<lparr>fc_IsMaker := isMaker\<rparr>) of
        FeePanic \<Rightarrow> Inl PlanPanic
      | FeeError \<Rightarrow> Inl (Failure 0 True)
      | FeeIs fee \<Rightarrow> Inr fee)"

fun quote_fills :: "spot_env \<Rightarrow> (uint64, Client) gomap \<Rightarrow> OrderBook \<Rightarrow> Order \<Rightarrow> Execution list \<Rightarrow>
    spotPlanFailure + plannedSpotExecution list" where
  "quote_fills env clients book takerOrder [] = Inr []"
| "quote_fills env clients book takerOrder (e # es) =
     (if TakerOrderID e \<noteq> ID takerOrder then Inl (Failure 0 False)
      else (case known_maker book e of
        None \<Rightarrow> Inl (Failure 0 False)
      | Some _ \<Rightarrow>
          (case quote_fee env clients (TakerClientID e) False e of
             Inl err \<Rightarrow> Inl err
           | Inr tFee \<Rightarrow>
               (case quote_fee env clients (MakerClientID e) True e of
                  Inl err \<Rightarrow> Inl err
                | Inr mFee \<Rightarrow>
                    map_sum id (\<lambda>fs. \<lparr>fingerprint = newExecutionFingerprint e, takerFee = tFee, makerFee = mFee\<rparr> # fs)
                      (quote_fills env clients book takerOrder es)))))"

definition prepareFeeExecutionPlan ::
  "spot_env \<Rightarrow> matcher option \<Rightarrow> (uint64, Client) gomap \<Rightarrow> OrderBook \<Rightarrow> Order \<Rightarrow> uint64 list \<Rightarrow> spotPlanFailure + spotExecutionPlan" where
  "prepareFeeExecutionPlan env matcher clients book takerOrder excluded =
     (case previewMatchExcluding matcher (ValidatePrice (se_inst env)) (Bids book) (Asks book) takerOrder excluded of
        None \<Rightarrow> Inl (Failure 0 False)
      | Some result \<Rightarrow>
          map_sum id (\<lambda>fs. \<lparr>fills = fs, fullyFilled = FullyFilled result\<rparr>)
            (quote_fills env clients book takerOrder (Executions result)))"

section \<open>The replayed accounts\<close>

record spotPlanState =
  pl_balances :: "(uint64, (asset, int64) gomap) gomap"
  pl_reserved :: "(uint64, (asset, int64) gomap) gomap"
  pl_clients :: "(uint64, Client) gomap"

definition newSpotPlanState :: "(uint64, Client) gomap \<Rightarrow> spotPlanState" where
  "newSpotPlanState clients = \<lparr>pl_balances = [], pl_reserved = [], pl_clients = clients\<rparr>"

text \<open>A missing inner map reads as an empty one, as in the code.\<close>

definition account :: "(uint64, (asset, int64) gomap) gomap \<Rightarrow> uint64 \<Rightarrow> (asset, int64) gomap" where
  "account m i = (case map_of m i of None \<Rightarrow> [] | Some a \<Rightarrow> a)"

definition valid_account :: "(asset, int64) gomap \<Rightarrow> (asset, int64) gomap \<Rightarrow> bool" where
  "valid_account bal res \<longleftrightarrow>
     list_all (\<lambda>(a, balance). \<not> (balance < 0 \<or> mget res a < 0 \<or> balance < mget res a)) bal \<and>
     list_all (\<lambda>(a, amount). \<not> (amount < 0 \<or> mget bal a < amount)) res"

definition validClient :: "uint64 \<Rightarrow> spotPlanState \<Rightarrow> bool" where
  "validClient clientID s \<longleftrightarrow> valid_account (account (pl_balances s) clientID) (account (pl_reserved s) clientID)"

definition copied_balances :: "Client \<Rightarrow> (asset, int64) gomap" where
  "copied_balances c = foldl (\<lambda>m (a, _). if map_of m a = None then mput m a 0 else m) (Balances c) (ReservedSpot c)"

definition copied_reserved :: "Client \<Rightarrow> (asset, int64) gomap" where
  "copied_reserved c = foldl (\<lambda>m (a, v). mput m a v) (map (\<lambda>(a, _). (a, mget (ReservedSpot c) a)) (Balances c)) (ReservedSpot c)"

definition initializeClient :: "uint64 \<Rightarrow> spotPlanState \<Rightarrow> spotPlanState option" where
  "initializeClient clientID s =
     (if map_of (pl_balances s) clientID \<noteq> None then Some s
      else (case map_of (pl_clients s) clientID of
              None \<Rightarrow> None
            | Some c \<Rightarrow>
                let s' = s\<lparr>pl_balances := mput (pl_balances s) clientID (copied_balances c),
                           pl_reserved := mput (pl_reserved s) clientID (copied_reserved c)\<rparr>
                in if validClient clientID s' then Some s' else None))"

definition set_reserved :: "uint64 \<Rightarrow> asset \<Rightarrow> int64 \<Rightarrow> spotPlanState \<Rightarrow> spotPlanState" where
  "set_reserved clientID a v s = s\<lparr>pl_reserved := mput (pl_reserved s) clientID (mput (account (pl_reserved s) clientID) a v)\<rparr>"

definition release :: "uint64 \<Rightarrow> asset \<Rightarrow> int64 \<Rightarrow> spotPlanState \<Rightarrow> spotPlanState option" where
  "release clientID a amount s =
     (if amount < 0 then None
      else (case initializeClient clientID s of
              None \<Rightarrow> None
            | Some s1 \<Rightarrow>
                let r = mget (account (pl_reserved s1) clientID) a
                in if r < amount then None else Some (set_reserved clientID a (i64 (r - amount)) s1)))"

definition reserve :: "uint64 \<Rightarrow> asset \<Rightarrow> int64 \<Rightarrow> spotPlanState \<Rightarrow> spotPlanState option" where
  "reserve clientID a amount s =
     (if amount < 0 then None
      else (case initializeClient clientID s of
              None \<Rightarrow> None
            | Some s1 \<Rightarrow>
                (case TryAdd (mget (account (pl_reserved s1) clientID) a) amount of
                   None \<Rightarrow> None
                 | Some next \<Rightarrow>
                     if mget (account (pl_balances s1) clientID) a < next then None else Some (set_reserved clientID a next s1))))"

definition addBalance :: "uint64 \<Rightarrow> asset \<Rightarrow> int64 \<Rightarrow> spotPlanState \<Rightarrow> spotPlanState option" where
  "addBalance clientID a delta s =
     (case initializeClient clientID s of
        None \<Rightarrow> None
      | Some s1 \<Rightarrow>
          let m = account (pl_balances s1) clientID
          in (case TryAdd (mget m a) delta of
                None \<Rightarrow> None
              | Some next \<Rightarrow> if next < 0 then None
                              else Some (s1\<lparr>pl_balances := mput (pl_balances s1) clientID (mput m a next)\<rparr>)))"

section \<open>Orders in the replay\<close>

record spotPlanOrder =
  po_order :: Order
  po_foreign :: "(asset, int64) gomap"
  po_finished :: bool

definition begin_reserves :: "spot_env \<Rightarrow> spotPlanState \<Rightarrow> Order \<Rightarrow> int64 \<Rightarrow> (int64 \<times> (asset, int64) gomap) fee_result" where
  "begin_reserves env s order rem =
     (if Type order = LimitOrder \<and> TimeInForce order = GTC \<and> rem > 0
      then if map_of (pl_clients s) (ClientID order) = None then FRFalse
           else (case spotOrderReservation (se_plan env (ClientID order)) (se_inst env) (Side order) rem (Price order) (se_precision env) of
                   FRPanic \<Rightarrow> FRPanic | FRError \<Rightarrow> FRError | FRFalse \<Rightarrow> FRFalse
                 | FRIs tradeReserve \<Rightarrow>
                     (case eForeignFeeReservations (se_plan env (ClientID order)) (se_inst env)
                             (order\<lparr>Qty := rem, FilledQty := 0\<rparr>) (se_precision env) of
                        FRPanic \<Rightarrow> FRPanic | FRError \<Rightarrow> FRError | FRFalse \<Rightarrow> FRFalse
                      | FRIs foreign \<Rightarrow> FRIs (tradeReserve, foreign)))
      else FRIs (0, []))"

definition beginOrder :: "spot_env \<Rightarrow> Order \<Rightarrow> int64 \<Rightarrow> spotPlanState \<Rightarrow> (spotPlanState \<times> spotPlanOrder) fee_result" where
  "beginOrder env order finalFilled s =
     (if ClientID order = 0 \<or> finalFilled < FilledQty order \<or> finalFilled > Qty order then FRFalse
      else (case TrySub (Qty order) finalFilled of
        None \<Rightarrow> FRFalse
      | Some rem \<Rightarrow>
          if rem < 0 then FRFalse
          else (case begin_reserves env s order rem of
            FRPanic \<Rightarrow> FRPanic | FRError \<Rightarrow> FRError | FRFalse \<Rightarrow> FRFalse
          | FRIs (tradeReserve, foreign) \<Rightarrow>
              if Reserved order < 0 \<or> tradeReserve > Reserved order then FRFalse
              else (case Option.bind (TrySub (Reserved order) tradeReserve)
                           (\<lambda>amount. release (ClientID order) (reserveAsset (se_inst env) (Side order)) amount s) of
                      None \<Rightarrow> FRFalse
                    | Some s' \<Rightarrow> FRIs (s', \<lparr>po_order = order, po_foreign = foreign, po_finished = False\<rparr>)))))"

fun each_asset :: "(asset \<Rightarrow> int64 \<Rightarrow> spotPlanState \<Rightarrow> spotPlanState option) \<Rightarrow> (asset, int64) gomap \<Rightarrow> asset list \<Rightarrow>
    spotPlanState \<Rightarrow> spotPlanState option" where
  "each_asset f m [] s = Some s"
| "each_asset f m (a # as) s = Option.bind (f a (mget m a) s) (each_asset f m as)"

definition finishOrder :: "spotPlanOrder \<Rightarrow> spotPlanState \<Rightarrow> (spotPlanState \<times> spotPlanOrder) option" where
  "finishOrder adj s =
     (let order = po_order adj; client = ClientID order
      in if po_finished adj then (if Type order = Market \<or> validClient client s then Some (s, adj) else None)
         else if Type order = Market then Some (s, adj\<lparr>po_finished := True\<rparr>)
         else (case Option.bind (each_asset (release client) (FeeReserved order) (mkeys (FeeReserved order)) s)
                      (each_asset (reserve client) (po_foreign adj) (mkeys (po_foreign adj))) of
                 None \<Rightarrow> None
               | Some s' \<Rightarrow> if validClient client s' then Some (s', adj\<lparr>po_finished := True\<rparr>) else None))"

definition finishTerminalOrder :: "spotPlanOrder \<Rightarrow> spotPlanState \<Rightarrow> spotPlanState option" where
  "finishTerminalOrder adj s =
     (if Type (po_order adj) \<noteq> Market then None
      else each_asset (release (ClientID (po_order adj))) (FeeReserved (po_order adj)) (mkeys (FeeReserved (po_order adj))) s)"

definition add_delta :: "asset \<Rightarrow> int64 \<Rightarrow> (asset, int64) gomap \<Rightarrow> (asset, int64) gomap option" where
  "add_delta a delta deltas = map_option (mput deltas a) (TryAdd (mget deltas a) delta)"

definition trade_deltas :: "SpotInstrument \<Rightarrow> Side \<Rightarrow> int64 \<Rightarrow> int64 \<Rightarrow> Fee \<Rightarrow> (asset, int64) gomap option" where
  "trade_deltas inst side qty notional fee =
     Option.bind
       (if side = Buy then Option.bind (add_delta (sp_quote inst) (i64 (- notional)) []) (add_delta (sp_base inst) qty)
        else Option.bind (add_delta (sp_base inst) (i64 (- qty)) []) (add_delta (sp_quote inst) notional))
       (\<lambda>deltas. if FeeAmount fee = 0 then Some deltas
          else Option.bind (TrySub 0 (FeeAmount fee)) (\<lambda>d. add_delta (FeeAsset fee) d deltas))"

definition applyExecution :: "SpotInstrument \<Rightarrow> uint64 \<Rightarrow> Side \<Rightarrow> int64 \<Rightarrow> int64 \<Rightarrow> Fee \<Rightarrow> spotPlanState \<Rightarrow> spotPlanState option" where
  "applyExecution inst clientID side qty price fee s =
     (if qty \<le> 0 \<or> \<not> ValidatePrice inst price then None
      else (case TryMulDiv qty price (sp_basePrecision inst) of
        None \<Rightarrow> None
      | Some notional \<Rightarrow>
          if notional < 0 then None
          else (case trade_deltas inst side qty notional fee of
                  None \<Rightarrow> None
                | Some deltas \<Rightarrow> each_asset (addBalance clientID) deltas (mkeys deltas) s)))"

section \<open>The plan\<close>

text \<open>The first pass checks the running fills of both orders and collects the orders and their final
  fills.\<close>

fun track_fills :: "OrderBook \<Rightarrow> Order \<Rightarrow> plannedSpotExecution list \<Rightarrow> Execution list \<Rightarrow> (uint64, Order) gomap \<Rightarrow>
    (uint64, int64) gomap \<Rightarrow> (uint64, int64) gomap \<Rightarrow> ((uint64, Order) gomap \<times> (uint64, int64) gomap) option" where
  "track_fills book takerOrder (f # fs) (e # es) orders finalFilled makerFilled =
     (if TakerOrderID e \<noteq> ID takerOrder then None
      else (case known_maker book e of
        None \<Rightarrow> None
      | Some m \<Rightarrow>
          (case TryAdd (mget finalFilled (ID takerOrder)) (ExecQty e) of
             None \<Rightarrow> None
           | Some nextTaker \<Rightarrow>
               if nextTaker \<noteq> TakerFilledQty e \<or> nextTaker > Qty takerOrder then None
               else (case TryAdd (case map_of makerFilled (ID m) of None \<Rightarrow> FilledQty m | Some n \<Rightarrow> n) (ExecQty e) of
                       None \<Rightarrow> None
                     | Some nextMaker \<Rightarrow>
                         if nextMaker \<noteq> MakerFilledQty e \<or> nextMaker > Qty m then None
                         else if \<not> fill_matches f e then None
                         else track_fills book takerOrder fs es (mput orders (ID m) m)
                                (mput (mput finalFilled (ID takerOrder) nextTaker) (ID m) nextMaker)
                                (mput makerFilled (ID m) nextMaker)))))"
| "track_fills book takerOrder _ _ orders finalFilled makerFilled = Some (orders, finalFilled)"

type_synonym plan_progress = "spotPlanState \<times> (uint64, spotPlanOrder) gomap"

definition initialize_order :: "spot_env \<Rightarrow> (uint64, int64) gomap \<Rightarrow> Order \<Rightarrow> bool \<Rightarrow> plan_progress \<Rightarrow>
    spotPlanFailure + (spotPlanOrder \<times> plan_progress)" where
  "initialize_order env finalFilled order maker st =
     (case st of (s, initialized) \<Rightarrow>
        (case map_of initialized (ID order) of
           Some adj \<Rightarrow> Inr (adj, st)
         | None \<Rightarrow>
             (case beginOrder env order (mget finalFilled (ID order)) s of
                FRPanic \<Rightarrow> Inl PlanPanic
              | FRError \<Rightarrow> Inl (Failure 0 True)
              | FRFalse \<Rightarrow> Inl (Failure (if maker then ID order else 0) False)
              | FRIs (s', adj) \<Rightarrow> Inr (adj, s', mput initialized (ID order) adj))))"

definition finish_order :: "uint64 \<Rightarrow> uint64 \<Rightarrow> plan_progress \<Rightarrow> spotPlanFailure + plan_progress" where
  "finish_order orderID blame st =
     (case st of (s, initialized) \<Rightarrow>
        (case Option.bind (map_of initialized orderID) (\<lambda>adj. finishOrder adj s) of
           None \<Rightarrow> Inl (Failure blame False)
         | Some (s', adj') \<Rightarrow> Inr (s', mput initialized orderID adj')))"

definition apply_leg :: "spot_env \<Rightarrow> uint64 \<Rightarrow> Side \<Rightarrow> Execution \<Rightarrow> Fee \<Rightarrow> uint64 \<Rightarrow> plan_progress \<Rightarrow> spotPlanFailure + plan_progress" where
  "apply_leg env clientID side e fee blame st =
     (case applyExecution (se_inst env) clientID side (ExecQty e) (ExecPrice e) fee (fst st) of
        None \<Rightarrow> Inl (Failure blame False)
      | Some s \<Rightarrow> Inr (s, snd st))"

definition and_then :: "'e + 'a \<Rightarrow> ('a \<Rightarrow> 'e + 'b) \<Rightarrow> 'e + 'b" where
  "and_then r f = (case r of Inl e \<Rightarrow> Inl e | Inr a \<Rightarrow> f a)"

definition plan_fill :: "spot_env \<Rightarrow> Order \<Rightarrow> (uint64, Order) gomap \<Rightarrow> (uint64, int64) gomap \<Rightarrow> plannedSpotExecution \<Rightarrow> Execution \<Rightarrow>
    plan_progress \<Rightarrow> spotPlanFailure + plan_progress" where
  "plan_fill env takerOrder orders finalFilled f e st =
     (case map_of orders (MakerOrderID e) of
        None \<Rightarrow> Inl PlanPanic
      | Some m \<Rightarrow>
          and_then (initialize_order env finalFilled takerOrder False st) (\<lambda>(_, st1).
          and_then (initialize_order env finalFilled m True st1) (\<lambda>(_, st2).
          and_then (apply_leg env (TakerClientID e) (Side takerOrder) e (takerFee f) 0 st2) (\<lambda>st3.
          and_then (apply_leg env (MakerClientID e) (MakerSide e) e (makerFee f) (ID m) st3) (\<lambda>st4.
          and_then (finish_order (ID takerOrder) 0 st4) (\<lambda>st5.
          finish_order (ID m) (ID m) st5))))))"

fun plan_loop :: "spot_env \<Rightarrow> Order \<Rightarrow> (uint64, Order) gomap \<Rightarrow> (uint64, int64) gomap \<Rightarrow> plannedSpotExecution list \<Rightarrow> Execution list \<Rightarrow>
    plan_progress \<Rightarrow> spotPlanFailure + plan_progress" where
  "plan_loop env takerOrder orders finalFilled (f # fs) (e # es) st =
     and_then (plan_fill env takerOrder orders finalFilled f e st) (plan_loop env takerOrder orders finalFilled fs es)"
| "plan_loop env takerOrder orders finalFilled _ _ st = Inr st"

text \<open>The escrow of market orders is returned at the end. The loop ranges over a map; only the incoming
  order can be a market order.\<close>

fun plan_terminal :: "uint64 \<Rightarrow> (uint64 \<times> spotPlanOrder) list \<Rightarrow> spotPlanState \<Rightarrow> spotPlanFailure + spotPlanState" where
  "plan_terminal takerID [] s = Inr s"
| "plan_terminal takerID ((i, adj) # as) s =
     (let order = po_order adj; failure = Inl (Failure (if ID order = takerID then 0 else ID order) False)
      in if Type order \<noteq> Market then plan_terminal takerID as s
         else (case finishTerminalOrder adj s of
                 None \<Rightarrow> failure
               | Some s' \<Rightarrow> if validClient (ClientID order) s' then plan_terminal takerID as s' else failure))"

definition replay_plan ::
  "spot_env \<Rightarrow> matcher option \<Rightarrow> (uint64, Client) gomap \<Rightarrow> OrderBook \<Rightarrow> Order \<Rightarrow> uint64 list \<Rightarrow> spotExecutionPlan \<Rightarrow>
   spotPlanFailure + spotExecutionPlan" where
  "replay_plan env matcher clients book takerOrder excluded plan =
     (case previewMatchExcluding matcher (ValidatePrice (se_inst env)) (Bids book) (Asks book) takerOrder excluded of
        None \<Rightarrow> Inl (Failure 0 False)
      | Some result \<Rightarrow>
          if \<not> plan_matches plan (Executions result) \<or> fullyFilled plan \<noteq> FullyFilled result then Inl (Failure 0 False)
          else (case track_fills book takerOrder (fills plan) (Executions result) [(ID takerOrder, takerOrder)]
                       [(ID takerOrder, FilledQty takerOrder)] [] of
                  None \<Rightarrow> Inl (Failure 0 False)
                | Some (orders, finalFilled) \<Rightarrow>
                    and_then (plan_loop env takerOrder orders finalFilled (fills plan) (Executions result)
                               (newSpotPlanState clients, [])) (\<lambda>(s, initialized).
                    and_then (plan_terminal (ID takerOrder) initialized s) (\<lambda>_. Inr plan))))"

definition prepareSpotExecutionPlan ::
  "spot_env \<Rightarrow> matcher option \<Rightarrow> (uint64, Client) gomap \<Rightarrow> OrderBook \<Rightarrow> Order \<Rightarrow> uint64 list \<Rightarrow> spotExecutionPlan option \<Rightarrow>
   spotPlanFailure + spotExecutionPlan" where
  "prepareSpotExecutionPlan env matcher clients book takerOrder excluded given =
     and_then (case given of None \<Rightarrow> prepareFeeExecutionPlan env matcher clients book takerOrder excluded | Some plan \<Rightarrow> Inr plan)
       (replay_plan env matcher clients book takerOrder excluded)"

end
