(* ===== verification/Spot_Settlement.thy ===== *)
theory Spot_Settlement
  imports Spot_Plan Position_Manager Book_Invariant
begin

text \<open>Settlement of spot executions (\<open>exchange/settlement.go\<close>): for every execution of a match the two
  parties exchange base and quote, pay the fees frozen by the plan, the reservations are released
  down to what the rest of the order needs, and the venue books the fees.

  The state is the ledger, the book with the makers still in its index, the incoming order and the
  reports for the two parties. \<open>None\<close> is a panic. Market data, event logs and gateways are left
  out. The maker's order is a pointer into the index: a change to it is written back while the
  index still has it.\<close>

record spot_state =
  ss_ledger :: Ledger
  ss_book :: OrderBook
  ss_taker :: Order

section \<open>Releasing reservations\<close>

text \<open>An order under settlement is the incoming one or a maker; \<open>inBook\<close> says which.\<close>

definition store_order :: "bool \<Rightarrow> Order \<Rightarrow> spot_state \<Rightarrow> spot_state" where
  "store_order inBook order st =
     (if \<not> inBook then st\<lparr>ss_taker := order\<rparr>
      else let book = ss_book st in
        if Orders (Bids book) (ID order) \<noteq> None then st\<lparr>ss_book := book\<lparr>Bids := set_order order (Bids book)\<rparr>\<rparr>
        else if Orders (Asks book) (ID order) \<noteq> None then st\<lparr>ss_book := book\<lparr>Asks := set_order order (Asks book)\<rparr>\<rparr>
        else st)"

definition store_client :: "uint64 \<Rightarrow> Client \<Rightarrow> spot_state \<Rightarrow> spot_state" where
  "store_client i c st = st\<lparr>ss_ledger := set_client i c (ss_ledger st)\<rparr>"

definition drop_order :: "Order \<Rightarrow> spot_state \<Rightarrow> spot_state" where
  "drop_order order st =
     (let book = ss_book st
      in st\<lparr>ss_book := (if Side order = Buy then book\<lparr>Bids := fst (CancelOrder (Bids book) (ID order))\<rparr>
                         else book\<lparr>Asks := fst (CancelOrder (Asks book) (ID order))\<rparr>)\<rparr>)"

text \<open>The client is the account that settles, named \<open>i\<close>. The result is the order as the pointer
  now shows it, and the state. As in \<open>Order_Funds\<close>, \<open>margined\<close> says which wallet the instrument uses;
  it is \<open>False\<close> for a spot market.\<close>

definition cancelUnfundedFeeRemainder :: "bool \<Rightarrow> spot_env \<Rightarrow> bool \<Rightarrow> uint64 \<Rightarrow> Client \<Rightarrow> Order \<Rightarrow> spot_state \<Rightarrow> Order \<times> spot_state" where
  "cancelUnfundedFeeRemainder margined env inBook i c order st =
     (let (c1, o1) = releaseReserved margined (se_inst env) c order;
          o2 = o1\<lparr>Status := Cancelled\<rparr>
      in if Parent order \<noteq> None
         then (o2\<lparr>Parent := None\<rparr>, drop_order order (store_client i (RemoveOrder c1 (ID order)) (store_order inBook o2 st)))
         else (o2, store_client i c1 (store_order inBook o2 st)))"

definition spotFillRelease :: "spot_env \<Rightarrow> bool \<Rightarrow> uint64 \<Rightarrow> Client \<Rightarrow> Order option \<Rightarrow> Execution \<Rightarrow> Side \<Rightarrow> spot_state \<Rightarrow>
    (int64 \<times> Order option \<times> spot_state) option" where
  "spotFillRelease env inBook i c ord e side st =
     (case ord of
        None \<Rightarrow> map_option (\<lambda>n. (n, None, st))
                  (if side = Buy then MulDiv (ExecQty e) (ExecPrice e) (se_precision env) else Some (ExecQty e))
      | Some order \<Rightarrow>
          if Type order = Market then Some (0, ord, st)
          else (case spotOrderReservation (se_plan env i) (se_inst env) side (i64 (Qty order - FilledQty order)) (Price order)
                       (se_precision env) of
                  FRPanic \<Rightarrow> None
                | FRError \<Rightarrow> (let (o', st') = cancelUnfundedFeeRemainder False env inBook i c order st in Some (0, Some o', st'))
                | FRFalse \<Rightarrow> Some (0, ord, st)
                | FRIs stillNeeded \<Rightarrow>
                    let amount = i64 (Reserved order - stillNeeded)
                    in if amount \<le> 0 then Some (0, ord, st)
                       else let o' = order\<lparr>Reserved := i64 (Reserved order - amount)\<rparr>
                            in Some (amount, Some o', store_order inBook o' st)))"

definition restoreForeignFeeReservation :: "bool \<Rightarrow> spot_env \<Rightarrow> bool \<Rightarrow> Order option \<Rightarrow> spot_state \<Rightarrow> spot_state option" where
  "restoreForeignFeeReservation margined env inBook ord st =
     (case ord of
        None \<Rightarrow> Some st
      | Some order \<Rightarrow>
          if Type order = Market \<or> FeeReserved order = [] then Some st
          else (case map_of (Clients (ss_ledger st)) (ClientID order) of
            None \<Rightarrow> Some st
          | Some c \<Rightarrow>
              let (c1, o1) = releaseForeignFeeReservation margined c order
              in if FilledQty order < Qty order
                 then (case reserveForeignFeeFunds margined None (se_plan env (ClientID order)) (se_inst env) c1 o1 (se_precision env) of
                         (c2, o2, FRPanic) \<Rightarrow> None
                       | (c2, o2, FRIs _) \<Rightarrow> Some (store_client (ClientID order) c2 (store_order inBook o2 st))
                       | (c2, o2, _) \<Rightarrow> Some (snd (cancelUnfundedFeeRemainder margined env inBook (ClientID order) c2 o2 st)))
                 else Some (store_client (ClientID order) c1 (store_order inBook o1 st))))"

section \<open>Moving balances\<close>

definition normalizedExecutionFee :: "Fee \<Rightarrow> asset \<Rightarrow> Fee" where
  "normalizedExecutionFee fee quoteAsset =
     (if FeeAmount fee = 0 then no_fee
      else if FeeAsset fee = '''' then fee\<lparr>FeeAsset := quoteAsset\<rparr> else fee)"

definition oppositeSide :: "Side \<Rightarrow> Side" where
  "oppositeSide side = (if side = Buy then Sell else Buy)"

definition oldBalanceOf :: "asset \<Rightarrow> asset \<Rightarrow> asset \<Rightarrow> int64 \<Rightarrow> int64 \<Rightarrow> int64" where
  "oldBalanceOf a give receive oldGive oldReceive =
     (if a = give then oldGive else if a = receive then oldReceive else 0)"

definition move_balances :: "asset \<Rightarrow> int64 \<Rightarrow> asset \<Rightarrow> int64 \<Rightarrow> Fee \<Rightarrow> (asset, int64) gomap \<Rightarrow> (asset, int64) gomap" where
  "move_balances give giveAmount receive receiveAmount fee m =
     (let m2 = madd (madd m give (- giveAmount)) receive receiveAmount
      in if FeeAmount fee = 0 then m2 else madd m2 (FeeAsset fee) (- FeeAmount fee))"

definition leg_deltas :: "asset \<Rightarrow> asset \<Rightarrow> Side \<Rightarrow> Fee \<Rightarrow> (asset, int64) gomap \<Rightarrow> (asset, int64) gomap \<Rightarrow> BalanceDelta list" where
  "leg_deltas base quote side fee old new =
     (let give = (if side = Sell then base else quote); receive = (if side = Sell then quote else base);
          was = (\<lambda>a. oldBalanceOf a give receive (mget old give) (mget old receive))
      in [spotDelta base (was base) (mget new base), spotDelta quote (was quote) (mget new quote)] @
         (if FeeAmount fee \<noteq> 0 \<and> FeeAsset fee \<noteq> quote \<and> FeeAsset fee \<noteq> base
          then [spotDelta (FeeAsset fee) (mget old (FeeAsset fee)) (mget new (FeeAsset fee))] else []))"

definition settleSpotLeg :: "spot_env \<Rightarrow> bool \<Rightarrow> uint64 \<Rightarrow> Order option \<Rightarrow> Side \<Rightarrow> Fee \<Rightarrow> Execution \<Rightarrow> spot_state \<Rightarrow>
    (Order option \<times> spot_state) option" where
  "settleSpotLeg env inBook i ord side fee e st =
     (case (MulDiv (ExecQty e) (ExecPrice e) (se_precision env), map_of (Clients (ss_ledger st)) i) of
        (Some notional, Some client) \<Rightarrow>
          let base = sp_base (se_inst env); quote = sp_quote (se_inst env);
              (give, receive) = (if side = Sell then (base, quote) else (quote, base));
              (giveAmount, receiveAmount) = (if side = Sell then (ExecQty e, notional) else (notional, ExecQty e))
          in (case spotFillRelease env inBook i client ord e side st of
                None \<Rightarrow> None
              | Some (amount, ord', st1) \<Rightarrow>
                  (case map_of (Clients (ss_ledger st1)) i of
                     None \<Rightarrow> None
                   | Some client1 \<Rightarrow>
                       let client2 = Release client1 give amount;
                           balances' = move_balances give giveAmount receive receiveAmount fee (Balances client2);
                           l = logBalanceChange (leg_deltas base quote side fee (Balances client) balances')
                                 (set_client i (client2\<lparr>Balances := balances'\<rparr>) (ss_ledger st1))
                       in Some (ord', st1\<lparr>ss_ledger := l\<rparr>)))
      | _ \<Rightarrow> None)"

definition recordFeeRevenue :: "asset \<Rightarrow> Fee \<Rightarrow> Fee \<Rightarrow> string \<Rightarrow> Ledger \<Rightarrow> Ledger option" where
  "recordFeeRevenue defaultAsset tFee mFee symbol l =
     (if FeeAmount tFee = 0 \<and> FeeAmount mFee = 0 then Some l
      else let named = (\<lambda>fee. if FeeAsset fee = '''' then defaultAsset else FeeAsset fee)
      in Option.bind (moveVenueBalance VenueFeeRevenue (named tFee) (FeeAmount tFee) symbol l)
           (moveVenueBalance VenueFeeRevenue (named mFee) (FeeAmount mFee) symbol))"

text \<open>The two settled orders and the state. \<open>ord\<close> is the maker's order, absent when the index lost it.\<close>

definition settleSpotExecution :: "spot_env \<Rightarrow> Execution \<Rightarrow> Fee \<Rightarrow> Fee \<Rightarrow> Order option \<Rightarrow> spot_state \<Rightarrow>
    (Order option \<times> spot_state) option" where
  "settleSpotExecution env e tFee mFee ord st =
     (let side = Side (ss_taker st)
      in case settleSpotLeg env False (TakerClientID e) (Some (ss_taker st)) side tFee e st of
           None \<Rightarrow> None
         | Some (_, st1) \<Rightarrow>
             (case settleSpotLeg env True (MakerClientID e) ord (oppositeSide side) mFee e st1 of
                None \<Rightarrow> None
              | Some (ord', st2) \<Rightarrow>
                  map_option (\<lambda>l. (ord', st2\<lparr>ss_ledger := l\<rparr>))
                    (recordFeeRevenue (sp_quote (se_inst env)) tFee mFee (Symbol (ss_book st2)) (ss_ledger st2))))"

section \<open>One execution and all of them\<close>

record fillSide =
  fs_clientID :: uint64
  fs_orderID :: uint64
  fs_side :: Side
  fs_posSide :: PositionSide
  fs_fee :: Fee
  fs_filledQty :: int64
  fs_totalQty :: int64
  fs_delta :: PositionDelta
  fs_realizedPnL :: int64
  fs_role :: string

definition isFull :: "fillSide \<Rightarrow> bool" where
  "isFull f \<longleftrightarrow> fs_filledQty f \<ge> fs_totalQty f"

record settlementOutcome =
  out_taker :: fillSide
  out_maker :: fillSide
  out_positionChanged :: bool
  out_tradeID :: uint64

definition no_delta :: PositionDelta where
  "no_delta = \<lparr>OldSize = 0, OldEntryPrice = 0, NewSize = 0, NewEntryPrice = 0\<rparr>"

definition spot_outcome :: "Order \<Rightarrow> PositionSide \<Rightarrow> Fee \<Rightarrow> Fee \<Rightarrow> uint64 \<Rightarrow> Execution \<Rightarrow> settlementOutcome" where
  "spot_outcome takerOrder makerPosSide tFee mFee tradeID e =
     \<lparr>out_taker = \<lparr>fs_clientID = TakerClientID e, fs_orderID = TakerOrderID e, fs_side = Side takerOrder,
        fs_posSide = PositionSide takerOrder, fs_fee = tFee, fs_filledQty = TakerFilledQty e, fs_totalQty = Qty takerOrder,
        fs_delta = no_delta, fs_realizedPnL = 0, fs_role = ''taker''\<rparr>,
      out_maker = \<lparr>fs_clientID = MakerClientID e, fs_orderID = MakerOrderID e, fs_side = MakerSide e,
        fs_posSide = makerPosSide, fs_fee = mFee, fs_filledQty = MakerFilledQty e, fs_totalQty = MakerTotalQty e,
        fs_delta = no_delta, fs_realizedPnL = 0, fs_role = ''maker''\<rparr>,
      out_positionChanged = False, out_tradeID = tradeID\<rparr>"

definition createTrade :: "Side \<Rightarrow> Execution \<Rightarrow> OrderBook \<Rightarrow> OrderBook" where
  "createTrade side e book =
     book\<lparr>SeqNum := u64 (SeqNum book + 1),
          LastTrade := Some \<lparr>TradeID = SeqNum book, TradePrice = ExecPrice e, TradeQty = ExecQty e, TradeSide = side,
            TradeTakerOrderID = TakerOrderID e, TradeMakerOrderID = MakerOrderID e\<rparr>\<rparr>"

definition settle_spot :: "spot_env \<Rightarrow> Execution \<Rightarrow> Fee \<Rightarrow> Fee \<Rightarrow> spot_state \<Rightarrow> spot_state option" where
  "settle_spot env e tFee mFee st =
     (case settleSpotExecution env e tFee mFee (FindOrder (ss_book st) (MakerOrderID e)) st of
        None \<Rightarrow> None
      | Some (ord, st1) \<Rightarrow>
          Option.bind (restoreForeignFeeReservation False env False (Some (ss_taker st1)) st1)
            (restoreForeignFeeReservation False env True ord))"

definition handleExecution :: "spot_env \<Rightarrow> plannedSpotExecution \<Rightarrow> Execution \<Rightarrow> spot_state \<Rightarrow> (settlementOutcome \<times> spot_state) option" where
  "handleExecution env planned e st =
     (if map_of (Clients (ss_ledger st)) (TakerClientID e) = None \<or> map_of (Clients (ss_ledger st)) (MakerClientID e) = None \<or>
         \<not> fill_matches planned e then None
      else let quote = sp_quote (se_inst env);
               tFee = normalizedExecutionFee (takerFee planned) quote;
               mFee = normalizedExecutionFee (makerFee planned) quote;
               posSide = (case FindOrder (ss_book st) (MakerOrderID e) of None \<Rightarrow> MakerPosSide e | Some m \<Rightarrow> PositionSide m)
      in map_option (\<lambda>st'. (spot_outcome (ss_taker st') posSide tFee mFee (SeqNum (ss_book st')) e,
                            st'\<lparr>ss_book := createTrade (Side (ss_taker st')) e (ss_book st')\<rparr>))
           (settle_spot env e tFee mFee st))"

fun processExecutions :: "spot_env \<Rightarrow> plannedSpotExecution list \<Rightarrow> Execution list \<Rightarrow> spot_state \<Rightarrow> (settlementOutcome list \<times> spot_state) option" where
  "processExecutions env fs [] st = Some ([], st)"
| "processExecutions env [] (e # es) st = None"
| "processExecutions env (f # fs) (e # es) st =
     (if \<not> fill_matches f e then None
      else (case handleExecution env f e st of
              None \<Rightarrow> None
            | Some (out, st') \<Rightarrow> map_option (\<lambda>(outs, st''). (out # outs, st'')) (processExecutions env fs es st')))"

end
