(* ===== verification/Perp_Settlement.thy ===== *)
theory Perp_Settlement
  imports Spot_Settlement
begin

text \<open>Settlement of margined instruments (\<open>instrument/perp.go\<close>, \<open>instrument/position_accounting.go\<close> and the
  margined branch of \<open>exchange/settlement.go\<close>): a fill moves the two positions, turns the order margin
  of the filled part into position margin, pays the realized profit and the fees, and restores the
  fee headroom of what is left of the orders. Dated futures embed the perpetual and settle their
  fills through the same code.

  The state is the one of a spot settlement and the position store. \<open>None\<close> is a panic. The store is
  the exchange's own (\<open>PositionManager\<close>), which offers exact accounting and a margin ledger, so the
  branches for stores without them do not occur. Event logs are left out.\<close>

record perp_env =
  pe_inst :: PerpFutures
  pe_plan :: "uint64 \<Rightarrow> FeeModel option"
  pe_requireExact :: bool

abbreviation pe_precision :: "perp_env \<Rightarrow> int64" where
  "pe_precision env \<equiv> sp_basePrecision (pe_inst env)"

abbreviation pe_quote :: "perp_env \<Rightarrow> asset" where
  "pe_quote env \<equiv> sp_quote (pe_inst env)"

text \<open>The instrument as the fee and reservation helpers see it.\<close>

definition as_spot :: "perp_env \<Rightarrow> spot_env" where
  "as_spot env = \<lparr>se_inst = SpotInstrument.truncate (pe_inst env), se_plan = pe_plan env\<rparr>"

record perp_state =
  ps_core :: spot_state
  ps_positions :: PositionManager

abbreviation ps_ledger :: "perp_state \<Rightarrow> Ledger" where
  "ps_ledger st \<equiv> ss_ledger (ps_core st)"

abbreviation ps_client :: "perp_state \<Rightarrow> uint64 \<Rightarrow> Client option" where
  "ps_client st \<equiv> map_of (Clients (ps_ledger st))"

section \<open>Position updates\<close>

record positionAccountingUpdate =
  pu_clientID :: uint64
  pu_symbol :: string
  pu_qty :: int64
  pu_price :: int64
  pu_tradeSide :: Side
  pu_posSide :: PositionSide

text \<open>\<open>False\<close> is the panic of the preflight.\<close>

definition preflightPositionAccounting :: "bool \<Rightarrow> positionAccountingUpdate list \<Rightarrow> PositionManager \<Rightarrow> bool" where
  "preflightPositionAccounting requireExact updates pm \<longleftrightarrow>
     (\<not> requireExact \<or>
      list_all (\<lambda>u. CanUpdatePositionWithAccounting (pu_clientID u) (pu_symbol u) (pu_qty u) (pu_price u)
                      (pu_tradeSide u) (pu_posSide u) pm) updates)"

definition updatePositionWithAccounting :: "bool \<Rightarrow> positionAccountingUpdate \<Rightarrow> PositionManager \<Rightarrow>
    (PositionManager \<times> PositionDelta \<times> int64 option) option" where
  "updatePositionWithAccounting requireExact u pm =
     (case updatePosition (pu_clientID u) (pu_symbol u) (pu_qty u) (pu_price u) (pu_tradeSide u) (pu_posSide u) pm of
        None \<Rightarrow> None
      | Some (pm', delta, realized) \<Rightarrow>
          if realized = None \<and> requireExact then None else Some (pm', delta, realized))"

section \<open>The account callbacks\<close>

text \<open>The closures of \<open>buildSettlementContext\<close>; a missing client is a nil dereference.\<close>

definition on_client :: "uint64 \<Rightarrow> (Client \<Rightarrow> Client) \<Rightarrow> perp_state \<Rightarrow> perp_state option" where
  "on_client i f st =
     map_option (\<lambda>c. st\<lparr>ps_core := store_client i (f c) (ps_core st)\<rparr>) (ps_client st i)"

definition ctx_ReleasePerp :: "uint64 \<Rightarrow> asset \<Rightarrow> int64 \<Rightarrow> perp_state \<Rightarrow> perp_state option" where
  "ctx_ReleasePerp i a amount = on_client i (\<lambda>c. ReleasePerp c a amount)"

definition ctx_ReservePerp :: "uint64 \<Rightarrow> asset \<Rightarrow> int64 \<Rightarrow> perp_state \<Rightarrow> perp_state option" where
  "ctx_ReservePerp i a amount = on_client i (\<lambda>c. ForceReservePerp c a amount)"

definition ctx_MutatePerpBalance :: "uint64 \<Rightarrow> asset \<Rightarrow> int64 \<Rightarrow> perp_state \<Rightarrow> perp_state option" where
  "ctx_MutatePerpBalance i a delta = on_client i (\<lambda>c. MutatePerpBalance c a delta)"

definition ctx_RecordFeeRevenue :: "asset \<Rightarrow> int64 \<Rightarrow> int64 \<Rightarrow> perp_state \<Rightarrow> perp_state option" where
  "ctx_RecordFeeRevenue a takerAmt makerAmt st =
     map_option (\<lambda>l. st\<lparr>ps_core := (ps_core st)\<lparr>ss_ledger := l\<rparr>\<rparr>)
       (recordFeeRevenue a (no_fee\<lparr>FeeAmount := takerAmt\<rparr>) (no_fee\<lparr>FeeAmount := makerAmt\<rparr>)
          (Symbol (ss_book (ps_core st))) (ps_ledger st))"

section \<open>Margin\<close>

definition releaseOrderMargin :: "perp_env \<Rightarrow> bool \<Rightarrow> Order option \<Rightarrow> uint64 \<Rightarrow> perp_state \<Rightarrow> (Order option \<times> perp_state) option" where
  "releaseOrderMargin env inBook ord clientID st =
     (case ord of
        None \<Rightarrow> Some (None, st)
      | Some order \<Rightarrow>
          if Type order = Market then Some (ord, st)
          else (case MarginRequired (pe_inst env) (i64 (Qty order - FilledQty order)) (Price order) (pe_precision env) of
                  None \<Rightarrow> None
                | Some stillNeeded \<Rightarrow>
                    let amount = i64 (Reserved order - stillNeeded)
                    in if amount > 0
                       then let order' = order\<lparr>Reserved := stillNeeded\<rparr>
                            in map_option (\<lambda>st'. (Some order', st'\<lparr>ps_core := store_order inBook order' (ps_core st')\<rparr>))
                                 (ctx_ReleasePerp clientID (pe_quote env) amount st)
                       else Some (ord, st)))"

definition openedQty :: "PositionDelta \<Rightarrow> int64 \<Rightarrow> int64" where
  "openedQty delta closedQty = i64 (abs64 (NewSize delta) - abs64 (OldSize delta) + closedQty)"

definition release_closed :: "perp_env \<Rightarrow> positionAccountingUpdate \<Rightarrow> PositionDelta \<Rightarrow> int64 \<Rightarrow> perp_state \<Rightarrow> perp_state option" where
  "release_closed env u delta closedQty st =
     (if closedQty > 0 \<and> OldSize delta \<noteq> 0
      then (case ReleasePositionMargin (pu_clientID u) (pu_symbol u) (pu_posSide u) closedQty (OldSize delta) (ps_positions st) of
              None \<Rightarrow> None
            | Some (pm, amount) \<Rightarrow> ctx_ReleasePerp (pu_clientID u) (pe_quote env) amount (st\<lparr>ps_positions := pm\<rparr>))
      else Some st)"

definition reserve_opened :: "perp_env \<Rightarrow> positionAccountingUpdate \<Rightarrow> PositionDelta \<Rightarrow> int64 \<Rightarrow> perp_state \<Rightarrow> perp_state option" where
  "reserve_opened env u delta closedQty st =
     (if openedQty delta closedQty > 0
      then (case MarginRequired (pe_inst env) (openedQty delta closedQty) (pu_price u) (pe_precision env) of
              None \<Rightarrow> None
            | Some needed \<Rightarrow>
                map_option (\<lambda>st'. st'\<lparr>ps_positions := AddPositionMargin (pu_clientID u) (pu_symbol u) (pu_posSide u) needed (ps_positions st')\<rparr>)
                  (ctx_ReservePerp (pu_clientID u) (pe_quote env) needed st))
      else Some st)"

definition settlePositionMargin :: "perp_env \<Rightarrow> positionAccountingUpdate \<Rightarrow> PositionDelta \<Rightarrow> int64 \<Rightarrow> perp_state \<Rightarrow> perp_state option" where
  "settlePositionMargin env u delta closedQty st =
     Option.bind (release_closed env u delta closedQty st) (reserve_opened env u delta closedQty)"

section \<open>Cash\<close>

definition side_deltas :: "asset \<Rightarrow> int64 \<Rightarrow> int64 \<Rightarrow> Fee \<Rightarrow> int64 \<Rightarrow> BalanceDelta list" where
  "side_deltas quote oldBal pnl fee oldFeeBal =
     \<lparr>DAsset = quote, Wallet = ''perp'', OldBalance = oldBal, NewBalance = i64 (oldBal + pnl), Delta = pnl\<rparr> #
     (if FeeAmount fee \<noteq> 0
      then [\<lparr>DAsset = FeeAsset fee, Wallet = ''perp'', OldBalance = oldFeeBal,
             NewBalance = i64 (oldFeeBal - FeeAmount fee), Delta = i64 (- FeeAmount fee)\<rparr>]
      else [])"

definition side_balances :: "asset \<Rightarrow> int64 \<Rightarrow> Fee \<Rightarrow> Client \<Rightarrow> Client" where
  "side_balances quote pnl fee c =
     (let c1 = MutatePerpBalance c quote pnl
      in if FeeAmount fee \<noteq> 0 then MutatePerpBalance c1 (FeeAsset fee) (i64 (- FeeAmount fee)) else c1)"

definition settleSide :: "perp_env \<Rightarrow> positionAccountingUpdate \<Rightarrow> PositionDelta \<Rightarrow> int64 option \<Rightarrow> Fee \<Rightarrow> perp_state \<Rightarrow>
    (int64 \<times> perp_state) option" where
  "settleSide env u delta realized fee st =
     (case (calcPerpPnL (OldSize delta) (OldEntryPrice delta) (pu_qty u) (pu_price u) (pu_tradeSide u) (pe_precision env),
            ps_client st (pu_clientID u)) of
        (Some rounded, Some c) \<Rightarrow>
          let pnl = (case realized of Some exact \<Rightarrow> exact | None \<Rightarrow> rounded);
              quote = pe_quote env;
              c1 = MutatePerpBalance c quote pnl;
              deltas = side_deltas quote (PerpBalance c quote) pnl fee (PerpBalance c1 (FeeAsset fee));
              l = logBalanceChange deltas (set_client (pu_clientID u) (side_balances quote pnl fee c) (ps_ledger st))
          in Some (pnl, st\<lparr>ps_core := (ps_core st)\<lparr>ss_ledger := l\<rparr>\<rparr>)
      | _ \<Rightarrow> None)"

definition recordSettlementFees :: "asset \<Rightarrow> Fee \<Rightarrow> Fee \<Rightarrow> perp_state \<Rightarrow> perp_state option" where
  "recordSettlementFees quote tFee mFee st =
     (let takerAsset = (if FeeAsset tFee = '''' then quote else FeeAsset tFee);
          makerAsset = (if FeeAsset mFee = '''' then quote else FeeAsset mFee)
      in if takerAsset = makerAsset then ctx_RecordFeeRevenue takerAsset (FeeAmount tFee) (FeeAmount mFee) st
         else Option.bind (ctx_RecordFeeRevenue takerAsset (FeeAmount tFee) 0 st)
                (ctx_RecordFeeRevenue makerAsset 0 (FeeAmount mFee)))"

section \<open>Settle\<close>

record SettlementResult =
  sr_TakerDelta :: PositionDelta
  sr_MakerDelta :: PositionDelta
  sr_TakerPnL :: int64
  sr_MakerPnL :: int64

definition taker_update :: "string \<Rightarrow> Execution \<Rightarrow> Order \<Rightarrow> positionAccountingUpdate" where
  "taker_update symbol e order = \<lparr>pu_clientID = TakerClientID e, pu_symbol = symbol, pu_qty = ExecQty e,
     pu_price = ExecPrice e, pu_tradeSide = Side order, pu_posSide = PositionSide order\<rparr>"

definition maker_update :: "string \<Rightarrow> Execution \<Rightarrow> PositionSide \<Rightarrow> positionAccountingUpdate" where
  "maker_update symbol e posSide = \<lparr>pu_clientID = MakerClientID e, pu_symbol = symbol, pu_qty = ExecQty e,
     pu_price = ExecPrice e, pu_tradeSide = MakerSide e, pu_posSide = posSide\<rparr>"

text \<open>The money of a fill once both positions have moved: the two margins, then the two cash legs, then
  the venue's fees. The result is the maker's order and the two profits.\<close>

definition settle_money :: "perp_env \<Rightarrow> Execution \<Rightarrow> positionAccountingUpdate \<Rightarrow> positionAccountingUpdate \<Rightarrow> Fee \<Rightarrow> Fee \<Rightarrow>
    PositionDelta \<Rightarrow> PositionDelta \<Rightarrow> int64 option \<Rightarrow> int64 option \<Rightarrow> Order option \<Rightarrow> perp_state \<Rightarrow>
    (Order option \<times> int64 \<times> int64 \<times> perp_state) option" where
  "settle_money env e tu mu tFee mFee td md tAcc mAcc makerOrder st =
     (let takerClosed = calcClosedQty (OldSize td) (ExecQty e) (pu_tradeSide tu);
          makerClosed = calcClosedQty (OldSize md) (ExecQty e) (pu_tradeSide mu)
      in do {
           (_, st1) \<leftarrow> releaseOrderMargin env False (Some (ss_taker (ps_core st))) (TakerClientID e) st;
           (makerOrder', st2) \<leftarrow> releaseOrderMargin env True makerOrder (MakerClientID e) st1;
           st3 \<leftarrow> settlePositionMargin env tu td takerClosed st2;
           st4 \<leftarrow> settlePositionMargin env mu md makerClosed st3;
           (takerPnL, st5) \<leftarrow> settleSide env tu td tAcc tFee st4;
           (makerPnL, st6) \<leftarrow> settleSide env mu md mAcc mFee st5;
           st7 \<leftarrow> recordSettlementFees (pe_quote env) tFee mFee st6;
           Some (makerOrder', takerPnL, makerPnL, st7)
         })"

definition Settle :: "perp_env \<Rightarrow> Execution \<Rightarrow> PositionSide \<Rightarrow> Fee \<Rightarrow> Fee \<Rightarrow> Order option \<Rightarrow> perp_state \<Rightarrow>
    (SettlementResult \<times> Order option \<times> perp_state) option" where
  "Settle env e makerPosSide tFee mFee makerOrder st =
     (let symbol = Symbol (ss_book (ps_core st));
          tu = taker_update symbol e (ss_taker (ps_core st));
          mu = maker_update symbol e makerPosSide
      in if \<not> preflightPositionAccounting (pe_requireExact env) [tu, mu] (ps_positions st) then None
         else do {
           (pm1, td, tAcc) \<leftarrow> updatePositionWithAccounting (pe_requireExact env) tu (ps_positions st);
           (pm2, md, mAcc) \<leftarrow> updatePositionWithAccounting (pe_requireExact env) mu pm1;
           (makerOrder', takerPnL, makerPnL, st') \<leftarrow>
             settle_money env e tu mu tFee mFee td md tAcc mAcc makerOrder (st\<lparr>ps_positions := pm2\<rparr>);
           Some (\<lparr>sr_TakerDelta = td, sr_MakerDelta = md, sr_TakerPnL = takerPnL, sr_MakerPnL = makerPnL\<rparr>, makerOrder', st')
         })"

section \<open>Around the instrument: one execution and all of them\<close>

definition restoreFeeHeadroom :: "perp_env \<Rightarrow> bool \<Rightarrow> Order option \<Rightarrow> perp_state \<Rightarrow> (Order option \<times> perp_state) option" where
  "restoreFeeHeadroom env inBook ord st =
     (case ord of
        None \<Rightarrow> Some (ord, st)
      | Some order \<Rightarrow>
          let remaining = i64 (Qty order - FilledQty order)
          in if Type order = Market \<or> remaining \<le> 0 then Some (ord, st)
             else (case ps_client st (ClientID order) of
               None \<Rightarrow> Some (ord, st)
             | Some c \<Rightarrow>
                 (case quoteFeeHeadroom (pe_plan env (ClientID order)) (sp_base (pe_inst env)) (pe_quote env) remaining (Price order)
                         (pe_precision env) of
                    FRPanic \<Rightarrow> None
                  | FRError \<Rightarrow>
                      let (order', core) = cancelUnfundedFeeRemainder True (as_spot env) inBook (ClientID order) c order (ps_core st)
                      in Some (Some order', st\<lparr>ps_core := core\<rparr>)
                  | FRFalse \<Rightarrow> Some (ord, st)
                  | FRIs headroom \<Rightarrow>
                      if headroom \<le> 0 then Some (ord, st)
                      else let order' = order\<lparr>Reserved := i64 (Reserved order + headroom)\<rparr>
                           in Some (Some order', st\<lparr>ps_core := store_order inBook order'
                                (store_client (ClientID order) (ForceReservePerp c (pe_quote env) headroom) (ps_core st))\<rparr>))))"

definition restore_foreign :: "perp_env \<Rightarrow> bool \<Rightarrow> Order option \<Rightarrow> perp_state \<Rightarrow> perp_state option" where
  "restore_foreign env inBook ord st =
     map_option (\<lambda>core. st\<lparr>ps_core := core\<rparr>) (restoreForeignFeeReservation True (as_spot env) inBook ord (ps_core st))"

definition settleExecution_perp :: "perp_env \<Rightarrow> Execution \<Rightarrow> PositionSide \<Rightarrow> Fee \<Rightarrow> Fee \<Rightarrow> perp_state \<Rightarrow>
    (SettlementResult \<times> perp_state) option" where
  "settleExecution_perp env e makerPosSide tFee mFee st = do {
     (result, makerOrder, st1) \<leftarrow> Settle env e makerPosSide tFee mFee (FindOrder (ss_book (ps_core st)) (MakerOrderID e)) st;
     (_, st2) \<leftarrow> restoreFeeHeadroom env False (Some (ss_taker (ps_core st1))) st1;
     (makerOrder', st3) \<leftarrow> restoreFeeHeadroom env True makerOrder st2;
     st4 \<leftarrow> restore_foreign env False (Some (ss_taker (ps_core st3))) st3;
     st5 \<leftarrow> restore_foreign env True makerOrder' st4;
     Some (result, st5)
   }"

definition perp_outcome :: "Order \<Rightarrow> PositionSide \<Rightarrow> Fee \<Rightarrow> Fee \<Rightarrow> uint64 \<Rightarrow> Execution \<Rightarrow> SettlementResult \<Rightarrow> settlementOutcome" where
  "perp_outcome takerOrder makerPosSide tFee mFee tradeID e r =
     (let out = spot_outcome takerOrder makerPosSide tFee mFee tradeID e
      in out\<lparr>out_taker := (out_taker out)\<lparr>fs_delta := sr_TakerDelta r, fs_realizedPnL := sr_TakerPnL r\<rparr>,
             out_maker := (out_maker out)\<lparr>fs_delta := sr_MakerDelta r, fs_realizedPnL := sr_MakerPnL r\<rparr>,
             out_positionChanged := True\<rparr>)"

definition handleExecution_perp :: "perp_env \<Rightarrow> plannedSpotExecution \<Rightarrow> Execution \<Rightarrow> perp_state \<Rightarrow> (settlementOutcome \<times> perp_state) option" where
  "handleExecution_perp env planned e st =
     (if ps_client st (TakerClientID e) = None \<or> ps_client st (MakerClientID e) = None \<or> \<not> fill_matches planned e then None
      else let tFee = normalizedExecutionFee (takerFee planned) (pe_quote env);
               mFee = normalizedExecutionFee (makerFee planned) (pe_quote env);
               posSide = (case FindOrder (ss_book (ps_core st)) (MakerOrderID e) of None \<Rightarrow> MakerPosSide e | Some m \<Rightarrow> PositionSide m)
      in map_option (\<lambda>(r, st'). let core = ps_core st' in
             (perp_outcome (ss_taker core) posSide tFee mFee (SeqNum (ss_book core)) e r,
              st'\<lparr>ps_core := core\<lparr>ss_book := createTrade (Side (ss_taker core)) e (ss_book core)\<rparr>\<rparr>))
           (settleExecution_perp env e posSide tFee mFee st))"

fun processExecutions_perp :: "perp_env \<Rightarrow> plannedSpotExecution list \<Rightarrow> Execution list \<Rightarrow> perp_state \<Rightarrow>
    (settlementOutcome list \<times> perp_state) option" where
  "processExecutions_perp env fs [] st = Some ([], st)"
| "processExecutions_perp env [] (e # es) st = None"
| "processExecutions_perp env (f # fs) (e # es) st =
     (if \<not> fill_matches f e then None
      else do {
        (out, st') \<leftarrow> handleExecution_perp env f e st;
        (outs, st'') \<leftarrow> processExecutions_perp env fs es st';
        Some (out # outs, st'')
      })"

end
