(* ===== verification/Spot_Solvency.thy ===== *)
theory Spot_Solvency
  imports Spot_Settlement
begin

text \<open>Spot settlement is solvent and conserves every asset. The replay of the plan and the live
  settlement are compared account by account: as long as the replay stays inside the 64-bit range
  and above zero, the wrapping updates of the live accounts compute the same balances.\<close>

section \<open>What the replay knows\<close>

text \<open>The balance the replay attributes to an account, whether or not it has copied the account.\<close>

definition planned :: "spotPlanState \<Rightarrow> uint64 \<Rightarrow> asset \<Rightarrow> int" where
  "planned s i a = (case map_of (pl_balances s) i of
     Some m \<Rightarrow> mget m a
   | None \<Rightarrow> (case map_of (pl_clients s) i of None \<Rightarrow> 0 | Some c \<Rightarrow> mget (Balances c) a))"

abbreviation copied :: "spotPlanState \<Rightarrow> uint64 \<Rightarrow> bool" where
  "copied s i \<equiv> map_of (pl_balances s) i \<noteq> None"

definition plan_sound :: "spotPlanState \<Rightarrow> bool" where
  "plan_sound s \<longleftrightarrow> (\<forall>i a. copied s i \<longrightarrow> 0 \<le> planned s i a \<and> planned s i a \<le> MaxInt64) \<and>
     (\<forall>i. copied s i \<longrightarrow> map_of (pl_clients s) i \<noteq> None) \<and>
     (\<forall>i c. map_of (pl_clients s) i = Some c \<longrightarrow> values_ok (Balances c))"

definition replays :: "(uint64 \<Rightarrow> asset \<Rightarrow> int) \<Rightarrow> spotPlanState \<Rightarrow> spotPlanState \<Rightarrow> bool" where
  "replays g s s' \<longleftrightarrow> pl_clients s' = pl_clients s \<and> plan_sound s' \<and> (\<forall>i. copied s i \<longrightarrow> copied s' i) \<and>
     (\<forall>i a. planned s' i a = planned s i a + g i a)"

abbreviation still :: "uint64 \<Rightarrow> asset \<Rightarrow> int" where
  "still \<equiv> \<lambda>i a. 0"

lemma plan_soundD:
  assumes "plan_sound s"
  shows "copied s i \<Longrightarrow> 0 \<le> planned s i a \<and> planned s i a \<le> MaxInt64"
    "map_of (pl_clients s) i = Some c \<Longrightarrow> values_ok (Balances c)" "copied s i \<Longrightarrow> map_of (pl_clients s) i \<noteq> None"
  using assms by (auto simp: plan_sound_def)

lemma replays_refl: "plan_sound s \<Longrightarrow> replays still s s"
  by (simp add: replays_def)

lemma replays_sound: "replays g s s' \<Longrightarrow> plan_sound s'"
  by (simp add: replays_def)

lemma replays_trans:
  "replays g s s' \<Longrightarrow> replays h s' s'' \<Longrightarrow> (\<And>i a. k i a = g i a + h i a) \<Longrightarrow> replays k s s''"
  by (auto simp: replays_def)

lemma copied_balances_get: "mget (copied_balances c) a = mget (Balances c) a"
proof -
  have "mget (foldl (\<lambda>m (a, _). if map_of m a = None then mput m a 0 else m) m xs) a = mget m a"
    for m :: "(asset, int64) gomap" and xs :: "(asset, int64) gomap"
  proof (induction xs arbitrary: m)
    case (Cons x xs)
    then show ?case by (cases x) (simp add: mget_def)
  qed simp
  then show ?thesis by (simp add: copied_balances_def)
qed

lemma valid_account_nonneg: "valid_account bal res \<Longrightarrow> 0 \<le> mget bal a"
  by (cases "map_of bal a") (auto simp: valid_account_def mget_def list_all_iff dest!: map_of_SomeD)

lemma initializeClient_replays:
  assumes "plan_sound s" "initializeClient i s = Some s'"
  shows "replays still s s'" "copied s' i"
proof -
  consider "copied s i" "s' = s" | c where "\<not> copied s i" "map_of (pl_clients s) i = Some c" "validClient i s'"
    "s' = s\<lparr>pl_balances := mput (pl_balances s) i (copied_balances c), pl_reserved := mput (pl_reserved s) i (copied_reserved c)\<rparr>"
    using assms(2) by (auto simp: initializeClient_def Let_def split: if_splits option.splits)
  then have "replays still s s' \<and> copied s' i"
  proof cases
    case 1
    then show ?thesis using assms(1) replays_refl by simp
  next
    case 2
    have p: "planned s' j a = planned s j a" for j a using 2 by (simp add: planned_def copied_balances_get split: option.split)
    have "account (pl_balances s') i = copied_balances c" by (simp add: 2 account_def)
    then have "0 \<le> mget (Balances c) a" for a
      using 2(3) valid_account_nonneg [of "copied_balances c" _ a] by (simp add: validClient_def copied_balances_get)
    moreover have "mget (Balances c) a \<le> MaxInt64" for a
      using values_ok_mget [OF plan_soundD(2) [OF assms(1) 2(2)], of a] by (simp add: is_i64_def)
    moreover have "planned s i a = mget (Balances c) a" for a using 2 by (simp add: planned_def)
    ultimately have "plan_sound s'"
      using assms(1) 2 unfolding plan_sound_def p by simp
    with p 2 show ?thesis by (simp add: replays_def)
  qed
  then show "replays still s s'" "copied s' i" by simp_all
qed

lemma planned_cong: "pl_balances s' = pl_balances s \<Longrightarrow> pl_clients s' = pl_clients s \<Longrightarrow> planned s' = planned s"
  by (intro ext) (simp add: planned_def split: option.split)

lemma set_reserved_replays: "plan_sound s \<Longrightarrow> replays still s (set_reserved i a v s)"
  using planned_cong [of "set_reserved i a v s" s] by (simp add: replays_def plan_sound_def set_reserved_def)

lemma release_replays:
  assumes "plan_sound s" "release i a amount s = Some s'"
  shows "replays still s s'"
proof -
  obtain s1 v where s1: "initializeClient i s = Some s1" "s' = set_reserved i a v s1"
    using assms(2) by (auto simp: release_def Let_def split: if_splits option.splits)
  note r = initializeClient_replays [OF assms(1) s1(1)]
  from replays_trans [OF r(1) set_reserved_replays [OF replays_sound [OF r(1)]]] show ?thesis by (simp add: s1(2))
qed

lemma reserve_replays:
  assumes "plan_sound s" "reserve i a amount s = Some s'"
  shows "replays still s s'"
proof -
  obtain s1 v where s1: "initializeClient i s = Some s1" "s' = set_reserved i a v s1"
    using assms(2) by (auto simp: reserve_def split: if_splits option.splits)
  note r = initializeClient_replays [OF assms(1) s1(1)]
  from replays_trans [OF r(1) set_reserved_replays [OF replays_sound [OF r(1)]]] show ?thesis by (simp add: s1(2))
qed

lemma planned_put: "planned (s\<lparr>pl_balances := mput (pl_balances s) i m\<rparr>) j b = (if j = i then mget m b else planned s j b)"
  by (simp add: planned_def split: option.split)

lemma addBalance_replays:
  assumes "plan_sound s" "addBalance i a d s = Some s'" "is_i64 d"
  shows "replays (\<lambda>j b. if j = i \<and> b = a then d else 0) s s'" "copied s' i" "0 \<le> planned s i b \<and> planned s i b \<le> MaxInt64"
proof -
  obtain s1 v where s1: "initializeClient i s = Some s1"
    and v: "TryAdd (mget (account (pl_balances s1) i) a) d = Some v" "0 \<le> v"
    and s': "s' = s1\<lparr>pl_balances := mput (pl_balances s1) i (mput (account (pl_balances s1) i) a v)\<rparr>"
    using assms(2) by (auto simp: addBalance_def Let_def split: if_splits option.splits)
  note r = initializeClient_replays [OF assms(1) s1]
  note sound = replays_sound [OF r(1)]
  have acc: "mget (account (pl_balances s1) i) b = planned s1 i b" for b
    using r(2) by (auto simp: account_def planned_def)
  have "is_i64 (planned s1 i a)" using plan_soundD(1) [OF sound r(2), of a] by auto
  from iffD1 [OF TryAdd_Some [OF this assms(3)] v(1) [unfolded acc]]
  have v': "v = planned s1 i a + d" "v \<le> MaxInt64" by (auto simp: is_i64_def)
  have p: "planned s' j b = planned s1 j b + (if j = i \<and> b = a then d else 0)" for j b
    using v' by (simp add: s' planned_put acc)
  have c: "copied s' j \<longleftrightarrow> copied s1 j" for j using r(2) by (auto simp: s')
  have "plan_sound s'"
    unfolding plan_sound_def p c using sound v(2) v' by (auto simp: plan_sound_def s')
  then have "replays (\<lambda>j b. if j = i \<and> b = a then d else 0) s1 s'" using p c by (simp add: replays_def) (simp add: s')
  from replays_trans [OF r(1) this] show "replays (\<lambda>j b. if j = i \<and> b = a then d else 0) s s'" by simp
  show "copied s' i" using c r(2) by simp
  show "0 \<le> planned s i b \<and> planned s i b \<le> MaxInt64"
    using plan_soundD(1) [OF sound r(2), of b] r(1) by (simp add: replays_def)
qed

lemma each_asset_still:
  assumes "\<And>a v s s'. plan_sound s \<Longrightarrow> f a v s = Some s' \<Longrightarrow> replays still s s'"
  shows "plan_sound s \<Longrightarrow> each_asset f m as s = Some s' \<Longrightarrow> replays still s s'"
proof (induction as arbitrary: s)
  case Nil
  then show ?case by (simp add: replays_refl)
next
  case (Cons a as)
  then obtain s1 where s1: "f a (mget m a) s = Some s1" "each_asset f m as s1 = Some s'"
    by (auto simp: bind_eq_Some_conv)
  note r = assms [OF Cons.prems(1) s1(1)]
  from replays_trans [OF r Cons.IH [OF replays_sound [OF r] s1(2)]] show ?case by simp
qed

lemma each_asset_add:
  assumes "plan_sound s" "each_asset (addBalance i) m as s = Some s'" "distinct as" "\<And>a. is_i64 (mget m a)"
  shows "replays (\<lambda>j b. if j = i \<and> b \<in> set as then mget m b else 0) s s'"
  using assms(1-3)
proof (induction as arbitrary: s)
  case Nil
  then show ?case by (simp add: replays_refl)
next
  case (Cons a as)
  then obtain s1 where s1: "addBalance i a (mget m a) s = Some s1" "each_asset (addBalance i) m as s1 = Some s'"
    by (auto simp: bind_eq_Some_conv)
  note r = addBalance_replays [OF Cons.prems(1) s1(1) assms(4)]
  have "replays (\<lambda>j b. if j = i \<and> b \<in> set as then mget m b else 0) s1 s'"
    using Cons.IH [OF replays_sound [OF r(1)] s1(2)] Cons.prems(3) by simp
  then show ?case by (rule replays_trans [OF r(1)]) (use Cons.prems(3) in auto)
qed

lemma each_asset_touched:
  assumes "plan_sound s" "each_asset (addBalance i) m as s = Some s'" "as \<noteq> []" "\<And>a. is_i64 (mget m a)" "distinct as"
  shows "copied s' i" "0 \<le> planned s i b \<and> planned s i b \<le> MaxInt64"
proof -
  obtain a as' s1 where a: "as = a # as'" "addBalance i a (mget m a) s = Some s1" "each_asset (addBalance i) m as' s1 = Some s'"
    using assms(2,3) by (cases as) (auto simp: bind_eq_Some_conv)
  note r = addBalance_replays [OF assms(1) a(2) assms(4)]
  have "distinct as'" using assms(5) a(1) by simp
  from each_asset_add [OF replays_sound [OF r(1)] a(3) this assms(4)] r(2) show "copied s' i" by (simp add: replays_def)
  show "0 \<le> planned s i b \<and> planned s i b \<le> MaxInt64" by (rule r(3))
qed

section \<open>One leg in the replay\<close>

text \<open>What one party's balances change by: base against quote, less the fee.\<close>

definition leg_net :: "SpotInstrument \<Rightarrow> Side \<Rightarrow> int \<Rightarrow> int \<Rightarrow> Fee \<Rightarrow> asset \<Rightarrow> int" where
  "leg_net inst side qty notional fee a =
     (if a = sp_base inst then (if side = Buy then qty else - qty) else 0) +
     (if a = sp_quote inst then (if side = Buy then - notional else notional) else 0) -
     (if a = FeeAsset fee then FeeAmount fee else 0)"

lemma add_delta_Some:
  assumes "values_ok m" "is_i64 d" "add_delta a d m = Some m'"
  shows "values_ok m'" "mget m' b = mget m b + (if b = a then d else 0)" "m' \<noteq> []"
proof -
  obtain v where v: "TryAdd (mget m a) d = Some v" "m' = mput m a v" using assms(3) by (auto simp: add_delta_def)
  have v': "v = mget m a + d" "is_i64 v"
    using v(1) TryAdd_Some [OF values_ok_mget [OF assms(1)] assms(2)] by blast+
  with v(2) assms(1) values_ok_mput [OF assms(1) v'(2)] show "values_ok m'" "mget m' b = mget m b + (if b = a then d else 0)" by (simp_all add: values_ok_mput)
  show "m' \<noteq> []" using fst_set_mput [of m a v] v(2) by (cases m') auto
qed

lemma trade_deltas_Some:
  assumes d: "trade_deltas inst side qty notional fee = Some deltas"
    and r: "0 \<le> qty" "qty \<le> MaxInt64" "0 \<le> notional" "notional \<le> MaxInt64" "is_i64 (FeeAmount fee)"
  shows "values_ok deltas" "mget deltas a = leg_net inst side qty notional fee a" "deltas \<noteq> []"
proof -
  have z: "values_ok []" by (simp add: values_ok_def)
  have i: "is_i64 qty" "is_i64 notional" "is_i64 (- qty)" "is_i64 (- notional)" using r by (auto simp: is_i64_def)
  let ?f = "if side = Buy then sp_quote inst else sp_base inst" and ?df = "if side = Buy then - notional else - qty"
  let ?t = "if side = Buy then sp_base inst else sp_quote inst" and ?dt = "if side = Buy then qty else notional"
  obtain m1 m2 where m: "add_delta ?f ?df [] = Some m1" "add_delta ?t ?dt m1 = Some m2"
    "(if FeeAmount fee = 0 then Some m2 else Option.bind (TrySub 0 (FeeAmount fee)) (\<lambda>d. add_delta (FeeAsset fee) d m2)) = Some deltas"
    using d i by (auto simp: trade_deltas_def bind_eq_Some_conv i64_id split: if_splits)
  have f: "is_i64 ?df" "is_i64 ?dt" using i by auto
  note a1 = add_delta_Some [OF z f(1) m(1)]
  note a2 = add_delta_Some [OF a1(1) f(2) m(2)]
  have two: "mget m2 a = leg_net inst side qty notional (fee\<lparr>FeeAmount := 0\<rparr>) a" for a
    by (simp add: a2(2) a1(2) leg_net_def)
  have "values_ok deltas \<and> mget deltas a = leg_net inst side qty notional fee a \<and> deltas \<noteq> []"
  proof (cases "FeeAmount fee = 0")
    case True
    then show ?thesis using m(3) a2(1,3) two [of a] by (simp add: leg_net_def)
  next
    case False
    then obtain v where v: "TrySub 0 (FeeAmount fee) = Some v" "add_delta (FeeAsset fee) v m2 = Some deltas"
      using m(3) by (auto simp: bind_eq_Some_conv)
    then have v': "v = - FeeAmount fee \<and> is_i64 v" using TrySub_Some [OF _ r(5) v(1)] by (simp add: is_i64_def)
    from add_delta_Some [OF a2(1) _ v(2)] two v' show ?thesis by (auto simp: leg_net_def)
  qed
  then show "values_ok deltas" "mget deltas a = leg_net inst side qty notional fee a" "deltas \<noteq> []" by simp_all
qed

lemma applyExecution_replays:
  assumes s: "plan_sound s" and x: "applyExecution inst i side qty price fee s = Some s'"
    and r: "qty \<le> MaxInt64" "is_i64 price" "is_i64 (sp_basePrecision inst)" "is_i64 (FeeAmount fee)"
  obtains notional where "TryMulDiv qty price (sp_basePrecision inst) = Some notional" "0 \<le> notional" "notional \<le> MaxInt64" "0 < qty"
    "replays (\<lambda>j a. if j = i then leg_net inst side qty notional fee a else 0) s s'" "copied s' i"
    "\<forall>a. 0 \<le> planned s i a \<and> planned s i a \<le> MaxInt64"
proof -
  obtain n deltas where n: "TryMulDiv qty price (sp_basePrecision inst) = Some n" "0 \<le> n" "0 < qty"
    and d: "trade_deltas inst side qty n fee = Some deltas" "each_asset (addBalance i) deltas (mkeys deltas) s = Some s'"
    using x by (auto simp: applyExecution_def split: if_splits option.splits)
  have "is_i64 qty" using n(3) r(1) by auto
  with n(1) r have n': "n \<le> MaxInt64" by (auto simp: TryMulDiv_eq is_i64_def split: if_splits)
  have q: "0 \<le> qty" using n(3) by simp
  note t = trade_deltas_Some [OF d(1) q r(1) n(2) n' r(4)]
  have m: "is_map deltas" "\<And>a. is_i64 (mget deltas a)"
    using t(1) values_ok_mget [OF t(1)] by (simp_all add: values_ok_def)
  have k: "mkeys deltas \<noteq> []" using t(3) mkeys_set [of deltas] by (cases "mkeys deltas") auto
  have absent: "a \<notin> fst ` set deltas \<Longrightarrow> leg_net inst side qty n fee a = 0" for a using mget_absent t(2) by metis
  have "replays (\<lambda>j b. if j = i \<and> b \<in> set (mkeys deltas) then mget deltas b else 0) s s'"
    by (rule each_asset_add [OF s d(2) mkeys_distinct [OF m(1)] m(2)])
  moreover have "(\<lambda>j b. if j = i \<and> b \<in> set (mkeys deltas) then mget deltas b else 0) =
      (\<lambda>j a. if j = i then leg_net inst side qty n fee a else 0)"
    using absent by (intro ext) (simp add: t(2))
  ultimately show thesis
    using that [OF n(1,2) n' n(3)] each_asset_touched [OF s d(2) k m(2) mkeys_distinct [OF m(1)]] by metis
qed

section \<open>Orders and executions in the replay\<close>

lemma beginOrder_replays:
  assumes "plan_sound s" "beginOrder env order n s = FRIs (s', adj)"
  shows "replays still s s'"
proof -
  obtain amount where "release (ClientID order) (reserveAsset (se_inst env) (Side order)) amount s = Some s'"
    using assms(2) by (auto simp: beginOrder_def bind_eq_Some_conv split: if_splits option.splits fee_result.splits)
  then show ?thesis by (rule release_replays [OF assms(1)])
qed

lemma initialize_order_replays:
  assumes "plan_sound (fst st)" "initialize_order env filled order maker st = Inr (adj, st')"
  shows "replays still (fst st) (fst st')"
proof (cases "map_of (snd st) (ID order)")
  case None
  then obtain s' where "beginOrder env order (mget filled (ID order)) (fst st) = FRIs (s', adj)" "fst st' = s'"
    using assms(2) by (auto simp: initialize_order_def split: prod.splits fee_result.splits)
  then show ?thesis using beginOrder_replays [OF assms(1)] by simp
next
  case (Some x)
  then show ?thesis using assms by (auto simp: initialize_order_def replays_refl split: prod.splits)
qed

lemma finishOrder_replays:
  assumes "plan_sound s" "finishOrder adj s = Some (s', adj')"
  shows "replays still s s'"
proof (cases "po_finished adj \<or> Type (po_order adj) = Market")
  case True
  then have "s' = s" using assms(2) by (auto simp: finishOrder_def Let_def split: if_splits)
  then show ?thesis using assms(1) by (simp add: replays_refl)
next
  case False
  then obtain s1 where s1: "each_asset (release (ClientID (po_order adj))) (FeeReserved (po_order adj)) (mkeys (FeeReserved (po_order adj))) s = Some s1"
    "each_asset (reserve (ClientID (po_order adj))) (po_foreign adj) (mkeys (po_foreign adj)) s1 = Some s'"
    using assms(2) by (auto simp: finishOrder_def Let_def bind_eq_Some_conv split: if_splits option.splits)
  note r1 = each_asset_still [OF release_replays assms(1) s1(1)]
  note r2 = each_asset_still [OF reserve_replays replays_sound [OF r1] s1(2)]
  from replays_trans [OF r1 r2] show ?thesis by simp
qed

lemma finish_order_replays:
  assumes "plan_sound (fst st)" "finish_order i blame st = Inr st'"
  shows "replays still (fst st) (fst st')"
proof -
  obtain adj adj' s' where "finishOrder adj (fst st) = Some (s', adj')" "fst st' = s'"
    using assms(2) by (auto simp: finish_order_def bind_eq_Some_conv split: prod.splits option.splits)
  then show ?thesis using finishOrder_replays [OF assms(1)] by simp
qed

lemma apply_leg_Inr: "apply_leg env i side e fee blame st = Inr st' \<Longrightarrow>
  applyExecution (se_inst env) i side (ExecQty e) (ExecPrice e) fee (fst st) = Some (fst st')"
  by (auto simp: apply_leg_def split: option.splits)

lemma and_then_Inr: "and_then r f = Inr b \<longleftrightarrow> (\<exists>a. r = Inr a \<and> f a = Inr b)"
  by (cases r) (auto simp: and_then_def)

definition fill_fits :: "spot_env \<Rightarrow> plannedSpotExecution \<Rightarrow> Execution \<Rightarrow> bool" where
  "fill_fits env f e \<longleftrightarrow> ExecQty e \<le> MaxInt64 \<and> is_i64 (ExecPrice e) \<and> is_i64 (se_precision env) \<and>
     is_i64 (FeeAmount (takerFee f)) \<and> is_i64 (FeeAmount (makerFee f))"

definition fill_sane :: "spot_env \<Rightarrow> plannedSpotExecution \<Rightarrow> Execution \<Rightarrow> bool" where
  "fill_sane env f e \<longleftrightarrow> ExecQty e \<le> MaxInt64 \<and> is_i64 (ExecPrice e) \<and> is_i64 (se_precision env) \<and>
     is_i64 (FeeAmount (takerFee f)) \<and> is_i64 (FeeAmount (makerFee f)) \<and>
     (FeeAmount (takerFee f) \<noteq> 0 \<longrightarrow> FeeAsset (takerFee f) \<noteq> '''') \<and>
     (FeeAmount (makerFee f) \<noteq> 0 \<longrightarrow> FeeAsset (makerFee f) \<noteq> '''')"

lemma fill_sane_fits: "fill_sane env f e \<Longrightarrow> fill_fits env f e"
  by (simp add: fill_sane_def fill_fits_def)

text \<open>The two applications of one execution, in the order of the code, with the states around them.\<close>

lemma plan_fill_replays:
  assumes s: "plan_sound (fst st)" and x: "plan_fill env t orders filled f e st = Inr st'" and f: "fill_fits env f e"
  obtains s1 notional where "TryMulDiv (ExecQty e) (ExecPrice e) (se_precision env) = Some notional" "0 \<le> notional" "notional \<le> MaxInt64"
    "0 < ExecQty e"
    "replays (\<lambda>j a. if j = TakerClientID e then leg_net (se_inst env) (Side t) (ExecQty e) notional (takerFee f) a else 0) (fst st) s1"
    "copied s1 (TakerClientID e)" "\<forall>a. 0 \<le> planned (fst st) (TakerClientID e) a \<and> planned (fst st) (TakerClientID e) a \<le> MaxInt64"
    "replays (\<lambda>j a. if j = MakerClientID e then leg_net (se_inst env) (MakerSide e) (ExecQty e) notional (makerFee f) a else 0) s1 (fst st')"
    "copied (fst st') (MakerClientID e)" "\<forall>a. 0 \<le> planned s1 (MakerClientID e) a \<and> planned s1 (MakerClientID e) a \<le> MaxInt64"
proof -
  obtain m st1 st2 st3 st4 st5 adj1 adj2 where st:
    "initialize_order env filled t False st = Inr (adj1, st1)" "initialize_order env filled m True st1 = Inr (adj2, st2)"
    "apply_leg env (TakerClientID e) (Side t) e (takerFee f) 0 st2 = Inr st3"
    "apply_leg env (MakerClientID e) (MakerSide e) e (makerFee f) (ID m) st3 = Inr st4"
    "finish_order (ID t) 0 st4 = Inr st5" "finish_order (ID m) (ID m) st5 = Inr st'"
    using x by (auto simp: plan_fill_def and_then_Inr split: option.splits)
  have sane: "ExecQty e \<le> MaxInt64" "is_i64 (ExecPrice e)" "is_i64 (se_precision env)"
    "is_i64 (FeeAmount (takerFee f))" "is_i64 (FeeAmount (makerFee f))" using f by (simp_all add: fill_fits_def)
  note r1 = initialize_order_replays [OF s st(1)]
  note r2 = initialize_order_replays [OF replays_sound [OF r1] st(2)]
  have r12: "replays still (fst st) (fst st2)" using replays_trans [OF r1 r2, of still] by simp
  obtain n where n: "TryMulDiv (ExecQty e) (ExecPrice e) (se_precision env) = Some n" "0 \<le> n" "n \<le> MaxInt64" "0 < ExecQty e"
    and a: "replays (\<lambda>j a. if j = TakerClientID e then leg_net (se_inst env) (Side t) (ExecQty e) n (takerFee f) a else 0) (fst st2) (fst st3)"
      "copied (fst st3) (TakerClientID e)" "\<forall>a. 0 \<le> planned (fst st2) (TakerClientID e) a \<and> planned (fst st2) (TakerClientID e) a \<le> MaxInt64"
    by (rule applyExecution_replays [OF replays_sound [OF r2] apply_leg_Inr [OF st(3)] sane(1,2,3,4)])
  obtain n' where n': "TryMulDiv (ExecQty e) (ExecPrice e) (se_precision env) = Some n'"
    and b: "replays (\<lambda>j a. if j = MakerClientID e then leg_net (se_inst env) (MakerSide e) (ExecQty e) n' (makerFee f) a else 0) (fst st3) (fst st4)"
      "copied (fst st4) (MakerClientID e)" "\<forall>a. 0 \<le> planned (fst st3) (MakerClientID e) a \<and> planned (fst st3) (MakerClientID e) a \<le> MaxInt64"
    by (rule applyExecution_replays [OF replays_sound [OF a(1)] apply_leg_Inr [OF st(4)] sane(1,2,3,5)])
  note r3 = finish_order_replays [OF replays_sound [OF b(1)] st(5)]
  note r4 = finish_order_replays [OF replays_sound [OF r3] st(6)]
  have r34: "replays still (fst st4) (fst st')" using replays_trans [OF r3 r4, of still] by simp
  have A: "replays (\<lambda>j a. if j = TakerClientID e then leg_net (se_inst env) (Side t) (ExecQty e) n (takerFee f) a else 0) (fst st) (fst st3)"
    by (rule replays_trans [OF r12 a(1)]) simp
  have B: "replays (\<lambda>j a. if j = MakerClientID e then leg_net (se_inst env) (MakerSide e) (ExecQty e) n (makerFee f) a else 0) (fst st3) (fst st')"
    using n(1) n' by (intro replays_trans [OF b(1) r34]) simp
  have "planned (fst st2) = planned (fst st)" using r12 by (intro ext) (simp add: replays_def)
  moreover have "copied (fst st') (MakerClientID e)" using b(2) r34 by (simp add: replays_def)
  ultimately show thesis using that [OF n A a(2) _ B _ b(3)] a(3) by simp
qed

section \<open>What the live settlement keeps\<close>

definition bal :: "Ledger \<Rightarrow> uint64 \<Rightarrow> asset \<Rightarrow> int" where
  "bal l i a = (case map_of (Clients l) i of None \<Rightarrow> 0 | Some c \<Rightarrow> mget (Balances c) a)"

definition settles :: "(uint64 \<Rightarrow> asset \<Rightarrow> int) \<Rightarrow> (asset \<Rightarrow> int) \<Rightarrow> Ledger \<Rightarrow> Ledger \<Rightarrow> bool" where
  "settles g h l l' \<longleftrightarrow> ledger_ok l' \<and> conserved l' \<and> ExBal l' = ExBal l \<and>
     (\<forall>i. map_of (Clients l') i = None \<longleftrightarrow> map_of (Clients l) i = None) \<and>
     (\<forall>i a. bal l' i a = bal l i a + g i a) \<and> (\<forall>a. held l' a = held l a + h a)"

definition same_funds :: "Client \<Rightarrow> Client \<Rightarrow> bool" where
  "same_funds c c' \<longleftrightarrow> Balances c' = Balances c \<and> PerpBalances c' = PerpBalances c \<and> Borrowed c' = Borrowed c"

lemma settles_trans:
  "settles g h l l' \<Longrightarrow> settles g' h' l' l'' \<Longrightarrow> (\<And>i a. k i a = g i a + g' i a) \<Longrightarrow> (\<And>a. m a = h a + h' a) \<Longrightarrow> settles k m l l''"
  by (simp add: settles_def)

lemma settles_refl: "ledger_ok l \<Longrightarrow> conserved l \<Longrightarrow> settles still (\<lambda>_. 0) l l"
  by (simp add: settles_def)

lemma same_funds_trans: "same_funds a b \<Longrightarrow> same_funds b c \<Longrightarrow> same_funds a c"
  by (simp add: same_funds_def)

lemma set_client_settles:
  assumes "ledger_ok l" "conserved l" "map_of (Clients l) i = Some c" "same_funds c c'"
  shows "settles still (\<lambda>_. 0) l (set_client i c' l)"
proof -
  have w: "worth a c' = worth a c" for a using assms(4) by (simp add: worth_def same_funds_def)
  have m: "client_maps c'" using assms by (auto simp: client_maps_def same_funds_def ledger_ok_def)
  have k: "conserved_by (\<lambda>_. 0) l" using assms(2) by (simp add: conserved_iff)
  have o: "old_worth l i a = worth a c" for a using assms(3) by (simp add: old_worth_def)
  note s = set_client_step [OF assms(1) k m, of i]
  have "conserved (set_client i c' l)" using s(3) by (simp add: conserved_iff w o)
  with s(1,2) assms(3,4) show ?thesis
    by (auto simp: settles_def w o bal_def set_client_def same_funds_def)
qed

lemma release_wallet_funds:
  "same_funds c (release_wallet margined c a n)" "same_funds c (Release c a n)" "same_funds c (ReleasePerp c a n)"
  by (simp_all add: same_funds_def release_wallet_def Release_def ReleasePerp_def)

lemma releaseForeign_funds: "same_funds c (fst (releaseForeignFeeReservation margined c order))"
proof -
  have "same_funds c (foldl (\<lambda>c a. release_wallet margined c a (mget m a)) c as)" for m as
  proof (induction as arbitrary: c)
    case (Cons a as)
    from same_funds_trans [OF release_wallet_funds(1) Cons.IH] show ?case by simp
  qed (simp add: same_funds_def)
  then show ?thesis by (simp add: releaseForeignFeeReservation_def)
qed

lemma releaseReserved_funds: "same_funds c (fst (releaseReserved margined inst c order))"
proof -
  obtain c1 o1 where r: "releaseForeignFeeReservation margined c order = (c1, o1)" by fastforce
  then have "same_funds c c1" using releaseForeign_funds [of c margined order] by simp
  then show ?thesis using same_funds_trans [OF _ release_wallet_funds(2)] same_funds_trans [OF _ release_wallet_funds(3)]
    by (simp add: releaseReserved_def r)
qed

lemma RemoveOrder_funds: "same_funds c (RemoveOrder c i)"
  by (simp add: same_funds_def RemoveOrder_def split: option.split)

lemma reserve_fees_funds: "reserve_fees margined fees c order = (c', o', ok) \<Longrightarrow> same_funds c c'"
proof (induction fees arbitrary: c order)
  case Nil
  then show ?case by (simp add: same_funds_def)
next
  case (Cons x fees)
  obtain a n where x: "x = (a, n)" by (cases x)
  show ?case
  proof (cases "if margined then ReservePerp c a n else Reserve c a n")
    case None
    then show ?thesis using Cons.prems releaseForeign_funds [of c margined order] by (auto simp: x split: prod.splits)
  next
    case (Some c1)
    then have "same_funds c c1" by (auto simp: Reserve_def ReservePerp_def same_funds_def split: if_splits)
    with Some Cons show ?thesis using same_funds_trans by (fastforce simp: x)
  qed
qed

section \<open>Orders whose fees can be quoted\<close>

definition quotable :: "spot_env \<Rightarrow> Order \<Rightarrow> bool" where
  "quotable env o1 \<longleftrightarrow> order_sane o1 \<and>
     (\<forall>j p m q. se_plan env j = Some p \<and> 0 < q \<and> q \<le> Qty o1 \<longrightarrow>
        CalculateFee p ((probe_fill (sp_base (se_inst env)) (sp_quote (se_inst env)) q (Price o1) (se_precision env))\<lparr>fc_IsMaker := m\<rparr>) \<noteq> FeePanic)"

definition same_terms_as :: "Order \<Rightarrow> Order \<Rightarrow> bool" where
  "same_terms_as o1 o2 \<longleftrightarrow> Qty o2 = Qty o1 \<and> FilledQty o2 = FilledQty o1 \<and> Price o2 = Price o1 \<and> Side o2 = Side o1 \<and>
     ClientID o2 = ClientID o1 \<and> ID o2 = ID o1 \<and> Type o2 = Type o1"

lemma quotable_cong: "quotable env o1 \<Longrightarrow> same_terms_as o1 o2 \<Longrightarrow> quotable env o2"
  by (auto simp: quotable_def same_terms_as_def order_sane_def)

lemma fee_headroom_quotable:
  "(\<And>m. CalculateFee p (ctx\<lparr>fc_IsMaker := m\<rparr>) \<noteq> FeePanic) \<Longrightarrow> fee_headroom p a ctx ms h \<noteq> FRPanic"
  by (induction ms arbitrary: h) (auto split: fee_outcome.split)

lemma foreign_fee_loop_quotable:
  "(\<And>m. CalculateFee p (ctx\<lparr>fc_IsMaker := m\<rparr>) \<noteq> FeePanic) \<Longrightarrow> foreign_fee_loop margined p ctx ms h \<noteq> FRPanic"
  by (induction ms arbitrary: h) (auto split: fee_outcome.split)

lemma spotOrderReservation_quotable:
  assumes "quotable env o1" "q \<le> Qty o1"
  shows "spotOrderReservation (se_plan env i) (se_inst env) side q (Price o1) (se_precision env) \<noteq> FRPanic"
proof (cases "q \<le> 0 \<or> se_plan env i = None")
  case True
  then show ?thesis by (auto simp: spotOrderReservation_def split: option.split)
next
  case False
  then obtain p where p: "se_plan env i = Some p" "0 < q" by auto
  let ?h = "fee_headroom p (reserveAsset (se_inst env) side)
    (probe_fill (sp_base (se_inst env)) (sp_quote (se_inst env)) q (Price o1) (se_precision env)) [False, True] 0"
  have "?h \<noteq> FRPanic" by (rule fee_headroom_quotable) (use assms p in \<open>auto simp: quotable_def\<close>)
  then show ?thesis using p
    by (cases side; cases ?h) (simp_all add: spotOrderReservation_def del: fee_headroom.simps split: option.split)
qed

lemma reserveForeign_quotable:
  assumes "quotable env o1" "Type o1 \<noteq> Market"
  shows "reserveForeignFeeFunds False es (se_plan env i) (se_inst env) c o1 (se_precision env) \<noteq> (c', o', FRPanic)"
proof -
  have "foreignFeeReservations False es (se_plan env i) (se_inst env) o1 (se_precision env) \<noteq> FRPanic"
  proof (cases "(if Qty o1 \<le> 0 then None else se_plan env i)")
    case None
    then show ?thesis by (simp add: foreignFeeReservations_def)
  next
    case (Some p)
    then have p: "se_plan env i = Some p" by (simp split: if_splits)
    have r: "TrySub (Qty o1) (FilledQty o1) = Some (Qty o1 - FilledQty o1)" "0 \<le> Qty o1 - FilledQty o1" "Qty o1 - FilledQty o1 \<le> Qty o1"
      using assms(1) by (auto simp: quotable_def order_sane_def TrySub_eq is_i64_def)
    let ?f = "foreign_fee_loop False p
      (probe_fill (sp_base (se_inst env)) (sp_quote (se_inst env)) (Qty o1 - FilledQty o1) (Price o1) (se_precision env)) [False, True] []"
    have "0 < Qty o1 - FilledQty o1 \<Longrightarrow> ?f \<noteq> FRPanic"
      by (rule foreign_fee_loop_quotable) (use assms(1) p r in \<open>auto simp: quotable_def\<close>)
    then show ?thesis using Some r(1,2) assms(2)
      by (auto simp: foreignFeeReservations_def simp del: foreign_fee_loop.simps)
  qed
  then show ?thesis
    by (auto simp: reserveForeignFeeFunds_def split: fee_result.split prod.split)
qed

section \<open>Steps that move no funds\<close>

definition live_ok :: "spot_env \<Rightarrow> spot_state \<Rightarrow> bool" where
  "live_ok env st \<longleftrightarrow> ledger_ok (ss_ledger st) \<and> conserved (ss_ledger st) \<and> quotable env (ss_taker st) \<and>
     (\<forall>i o1. Orders (Bids (ss_book st)) i = Some o1 \<or> Orders (Asks (ss_book st)) i = Some o1 \<longrightarrow> quotable env o1)"

definition calm :: "spot_env \<Rightarrow> spot_state \<Rightarrow> spot_state \<Rightarrow> bool" where
  "calm env st st' \<longleftrightarrow> live_ok env st' \<and> settles still (\<lambda>_. 0) (ss_ledger st) (ss_ledger st') \<and> Side (ss_taker st') = Side (ss_taker st)"

lemma live_okD:
  assumes "live_ok env st"
  shows "ledger_ok (ss_ledger st)" "conserved (ss_ledger st)" "quotable env (ss_taker st)"
    "FindOrder (ss_book st) i = Some o1 \<Longrightarrow> quotable env o1"
  using assms by (auto simp: live_ok_def FindOrder_def split: option.splits)

lemma calm_refl: "live_ok env st \<Longrightarrow> calm env st st"
  by (simp add: calm_def settles_refl live_okD(1,2))

lemma calm_trans: "calm env st st' \<Longrightarrow> calm env st' st'' \<Longrightarrow> calm env st st''"
  using settles_trans [of still "\<lambda>_. 0" "ss_ledger st" "ss_ledger st'" still "\<lambda>_. 0" "ss_ledger st''" still "\<lambda>_. 0"]
  by (simp add: calm_def)

lemma calm_clients: "calm env st st' \<Longrightarrow> map_of (Clients (ss_ledger st)) i = Some c \<Longrightarrow> \<exists>c'. map_of (Clients (ss_ledger st')) i = Some c'"
  by (cases "map_of (Clients (ss_ledger st')) i") (auto simp: calm_def settles_def)

lemma store_order_calm:
  assumes "live_ok env st" "quotable env order" "\<not> inBook \<Longrightarrow> Side order = Side (ss_taker st)"
  shows "calm env st (store_order inBook order st)"
proof -
  have "live_ok env (store_order inBook order st)" "Side (ss_taker (store_order inBook order st)) = Side (ss_taker st)"
    "ss_ledger (store_order inBook order st) = ss_ledger st"
    using assms by (auto simp: live_ok_def store_order_def Let_def set_order_def split: if_splits)
  then show ?thesis using settles_refl live_okD(1,2) [OF assms(1)] by (simp add: calm_def)
qed

lemma store_client_calm:
  assumes "live_ok env st" "map_of (Clients (ss_ledger st)) i = Some c" "same_funds c c'"
  shows "calm env st (store_client i c' st)"
proof -
  note s = set_client_settles [OF live_okD(1,2) [OF assms(1)] assms(2,3)]
  then have "live_ok env (store_client i c' st)" using assms(1) by (auto simp: live_ok_def store_client_def settles_def)
  with s show ?thesis by (simp add: calm_def store_client_def)
qed

lemma CancelOrder_orders: "Orders (fst (CancelOrder b i)) j = Some o1 \<Longrightarrow> Orders b j = Some o1"
  by (auto simp: CancelOrder_def Let_def RemoveLimit_def split: option.splits if_splits prod.splits)

lemma drop_order_calm:
  assumes "live_ok env st" shows "calm env st (drop_order order st)"
proof -
  have "live_ok env (drop_order order st)"
    using assms by (auto simp: live_ok_def drop_order_def Let_def dest: CancelOrder_orders)
  moreover have "ss_ledger (drop_order order st) = ss_ledger st" "ss_taker (drop_order order st) = ss_taker st"
    by (simp_all add: drop_order_def Let_def)
  ultimately show ?thesis using settles_refl live_okD(1,2) [OF assms] by (simp add: calm_def)
qed

lemma releaseReserved_terms: "same_terms_as order (snd (releaseReserved margined inst c order))"
  by (simp add: releaseReserved_def releaseForeignFeeReservation_def same_terms_as_def)

lemma cancelUnfunded_calm:
  assumes st: "live_ok env st" "map_of (Clients (ss_ledger st)) i = Some c0" "same_funds c0 c"
    and q: "quotable env order" "\<not> inBook \<Longrightarrow> Side order = Side (ss_taker st)"
    and x: "cancelUnfundedFeeRemainder False env inBook i c order st = (o', st')"
  shows "calm env st st'" "quotable env o'" "same_terms_as order o'"
proof -
  obtain c1 o1 where r: "releaseReserved False (se_inst env) c order = (c1, o1)" by fastforce
  let ?o = "o1\<lparr>Status := Cancelled\<rparr>" and ?c = "if Parent order \<noteq> None then RemoveOrder c1 (ID order) else c1"
  have terms: "same_terms_as order o1" using releaseReserved_terms [of order False "se_inst env" c] r by simp
  then have t: "same_terms_as order ?o" "same_terms_as order (?o\<lparr>Parent := None\<rparr>)" by (simp_all add: same_terms_as_def)
  show "quotable env o'" "same_terms_as order o'"
    using x t quotable_cong [OF q(1)] by (auto simp: cancelUnfundedFeeRemainder_def r Let_def split: if_splits)
  have c1: "same_funds c0 c1" using same_funds_trans [OF st(3) releaseReserved_funds] r by (metis fst_conv)
  then have c: "same_funds c0 ?c" using same_funds_trans RemoveOrder_funds by auto
  have s: "Side ?o = Side order" using t(1) by (simp add: same_terms_as_def)
  have k1: "calm env st (store_order inBook ?o st)"
    by (rule store_order_calm [OF st(1) quotable_cong [OF q(1) t(1)]]) (use q(2) s in simp)
  have l1: "map_of (Clients (ss_ledger (store_order inBook ?o st))) i = Some c0" using st(2) by (simp add: store_order_def Let_def)
  have "calm env (store_order inBook ?o st) (store_client i ?c (store_order inBook ?o st))"
    using k1 by (intro store_client_calm [OF _ l1 c]) (simp add: calm_def)
  then have k2: "calm env st (store_client i ?c (store_order inBook ?o st))" by (rule calm_trans [OF k1])
  then have "live_ok env (store_client i ?c (store_order inBook ?o st))" by (simp only: calm_def)
  from calm_trans [OF k2 drop_order_calm [OF this]]
  have k3: "calm env st (drop_order order (store_client i ?c (store_order inBook ?o st)))" .
  show "calm env st st'" using x k2 k3 by (auto simp: cancelUnfundedFeeRemainder_def r Let_def split: if_splits)
qed

text \<open>The order a leg settles: the incoming one, or a maker found in the index.\<close>

definition leg_order :: "spot_env \<Rightarrow> bool \<Rightarrow> Order option \<Rightarrow> spot_state \<Rightarrow> bool" where
  "leg_order env inBook ord st \<longleftrightarrow> (\<forall>o1. ord = Some o1 \<longrightarrow> quotable env o1 \<and> (\<not> inBook \<longrightarrow> Side o1 = Side (ss_taker st)))"

lemma spotFillRelease_calm:
  assumes st: "live_ok env st" "map_of (Clients (ss_ledger st)) i = Some c"
    and o: "leg_order env inBook ord st" and n: "MulDiv (ExecQty e) (ExecPrice e) (se_precision env) = Some n"
  obtains amount ord' st' where "spotFillRelease env inBook i c ord e side st = Some (amount, ord', st')"
    "calm env st st'" "leg_order env inBook ord' st'"
proof -
  have "\<exists>amount ord' st'. spotFillRelease env inBook i c ord e side st = Some (amount, ord', st') \<and>
    calm env st st' \<and> leg_order env inBook ord' st'"
  proof (cases ord)
    case None
    then show ?thesis using n calm_refl [OF st(1)] by (simp add: spotFillRelease_def leg_order_def)
  next
    case (Some order)
    then have q: "quotable env order" "\<not> inBook \<Longrightarrow> Side order = Side (ss_taker st)" using o by (auto simp: leg_order_def)
    let ?r = "i64 (Qty order - FilledQty order)"
    let ?s = "spotOrderReservation (se_plan env i) (se_inst env) side ?r (Price order) (se_precision env)"
    have "order_sane order" using q(1) by (simp add: quotable_def)
    then have "?r = Qty order - FilledQty order" "0 \<le> FilledQty order"
      by (auto simp: order_sane_def is_i64_def intro!: i64_id)
    then have np: "?s \<noteq> FRPanic" by (intro spotOrderReservation_quotable [OF q(1)]) simp
    have same: "calm env st st \<and> leg_order env inBook ord st" using calm_refl st(1) o by blast
    show ?thesis
    proof (cases "Type order = Market \<or> ?s = FRFalse")
      case True
      with Some same np show ?thesis by (auto simp: spotFillRelease_def)
    next
      case False
      then consider "?s = FRError" | m where "?s = FRIs m" using np by (cases ?s) auto
      then show ?thesis
      proof cases
        case 1
        obtain o' st' where x: "cancelUnfundedFeeRemainder False env inBook i c order st = (o', st')" by fastforce
        note k = cancelUnfunded_calm [OF st _ q x]
        have "calm env st st'" "quotable env o'" "same_terms_as order o'" using k by (simp_all add: same_funds_def)
        with 1 False Some x q(2) show ?thesis by (auto simp: spotFillRelease_def leg_order_def same_terms_as_def calm_def)
      next
        case 2
        define o' where "o' = order\<lparr>Reserved := i64 (Reserved order - i64 (Reserved order - m))\<rparr>"
        have o': "quotable env o'" "Side o' = Side order" using quotable_cong [OF q(1), of o'] by (simp_all add: o'_def same_terms_as_def)
        have k: "calm env st (store_order inBook o' st)" by (rule store_order_calm [OF st(1) o'(1)]) (use o'(2) q(2) in simp)
        then have "leg_order env inBook (Some o') (store_order inBook o' st)"
          using o' q(2) by (auto simp: leg_order_def calm_def)
        with 2 False Some same k show ?thesis by (auto simp: spotFillRelease_def Let_def o'_def)
      qed
    qed
  qed
  then show thesis using that by blast
qed

section \<open>One leg, live\<close>

lemma move_balances_get:
  assumes "give \<noteq> receive" "\<And>b. is_i64 (mget m b)"
  shows "mget (move_balances give ga receive ra fee m) a =
    i64 (mget m a - (if a = give then ga else 0) + (if a = receive then ra else 0) - (if a = FeeAsset fee then FeeAmount fee else 0))"
  using assms by (auto simp: move_balances_def Let_def mget_madd i64_add_cong i64_id diff_conv_add_uminus simp del: add_uminus_conv_diff)

lemma move_balances_ok: "values_ok m \<Longrightarrow> values_ok (move_balances give ga receive ra fee m)"
  by (simp add: move_balances_def Let_def values_ok_madd)

lemma leg_deltas_effect:
  assumes "base \<noteq> quote"
  shows "effect (leg_deltas base quote side fee old new) a =
    (if a = base \<or> a = quote \<or> FeeAmount fee \<noteq> 0 \<and> a = FeeAsset fee then i64 (mget new a - mget old a) else 0)"
  using assms by (auto simp: leg_deltas_def oldBalanceOf_def spotDelta_def Let_def)

lemma leg_deltas_ok: "deltas_ok (leg_deltas base quote side fee old new)"
  by (auto simp: deltas_ok_def leg_deltas_def spotDelta_def Let_def)

lemma log_client_settles:
  assumes l: "ledger_ok l" "conserved l" "map_of (Clients l) i = Some c" and c': "client_maps c'" "deltas_ok cs"
    and same: "PerpBalances c' = PerpBalances c" "Borrowed c' = Borrowed c"
    and net: "\<And>a. mget (Balances c') a = mget (Balances c) a + net a" "\<And>a. effect cs a = net a"
  shows "settles (\<lambda>j a. if j = i then net a else 0) net l (logBalanceChange cs (set_client i c' l))"
proof -
  have o: "old_worth l i a = worth a c" for a using l(3) by (simp add: old_worth_def)
  have w: "worth a c' = worth a c + net a" for a by (simp add: worth_def same net(1))
  have k: "conserved_by (\<lambda>_. 0) l" using l(2) by (simp add: conserved_iff)
  note s = set_client_step [OF l(1) k c'(1), of i]
  note t = log_step [OF s(1,3) c'(2)]
  have "ledger_ok (logBalanceChange cs (set_client i c' l)) \<and> conserved (logBalanceChange cs (set_client i c' l))"
    by (rule log_client_step [OF l(1,2) c'(2,1)]) (simp add: o w net(2))
  moreover have "held (logBalanceChange cs (set_client i c' l)) a = held l a + net a" for a
    using t(2) s(2) [of a] by (simp add: o w)
  ultimately show ?thesis using l(3) net(1)
    by (auto simp: settles_def bal_def set_client_def logBalanceChange_def)
qed

lemma settleSpotLeg_settles:
  assumes st: "live_ok env st" "map_of (Clients (ss_ledger st)) i = Some c" "leg_order env inBook ord st"
    and inst: "sp_base (se_inst env) \<noteq> sp_quote (se_inst env)"
    and n: "TryMulDiv (ExecQty e) (ExecPrice e) (se_precision env) = Some n"
    and net: "net = leg_net (se_inst env) side (ExecQty e) n fee"
    and old: "\<And>a. 0 \<le> bal (ss_ledger st) i a \<and> bal (ss_ledger st) i a \<le> MaxInt64"
    and new: "\<And>a. 0 \<le> bal (ss_ledger st) i a + net a \<and> bal (ss_ledger st) i a + net a \<le> MaxInt64"
  obtains ord' st' where "settleSpotLeg env inBook i ord side fee e st = Some (ord', st')" "live_ok env st'"
    "settles (\<lambda>j a. if j = i then net a else 0) net (ss_ledger st) (ss_ledger st')"
    "Side (ss_taker st') = Side (ss_taker st)" "leg_order env inBook ord' st'"
proof -
  let ?b = "sp_base (se_inst env)" and ?q = "sp_quote (se_inst env)"
  have n': "MulDiv (ExecQty e) (ExecPrice e) (se_precision env) = Some n" using n by (simp add: MulDiv_def)
  obtain amount ord' st1 where r: "spotFillRelease env inBook i c ord e side st = Some (amount, ord', st1)"
    "calm env st st1" "leg_order env inBook ord' st1" by (rule spotFillRelease_calm [OF st n'])
  obtain c1 where c1: "map_of (Clients (ss_ledger st1)) i = Some c1" using calm_clients [OF r(2) st(2)] by blast
  have s1: "live_ok env st1" "settles still (\<lambda>_. 0) (ss_ledger st) (ss_ledger st1)" using r(2) by (simp_all add: calm_def)
  note l1 = live_okD(1,2) [OF s1(1)]
  have b1: "mget (Balances c1) a = bal (ss_ledger st) i a" "mget (Balances c) a = bal (ss_ledger st) i a" for a
    using s1(2) c1 st(2) by (auto simp: settles_def bal_def dest: spec [of _ i])
  define give receive ga ra where "give = (if side = Sell then ?b else ?q)" and "receive = (if side = Sell then ?q else ?b)"
    and "ga = (if side = Sell then ExecQty e else n)" and "ra = (if side = Sell then n else ExecQty e)"
  define bal' where "bal' = move_balances give ga receive ra fee (Balances (Release c1 give amount))"
  define c2 where "c2 = (Release c1 give amount)\<lparr>Balances := bal'\<rparr>"
  define cs where "cs = leg_deltas ?b ?q side fee (Balances c) bal'"
  have maps: "client_maps c1" using l1(1) c1 by (auto simp: ledger_ok_def)
  have vals: "values_ok (Balances (Release c1 give amount))" "mget (Balances (Release c1 give amount)) a = bal (ss_ledger st) i a" for a
    using maps b1(1) by (simp_all add: client_maps_def Release_def)
  have i64s: "is_i64 (mget (Balances (Release c1 give amount)) a)" for a using vals(1) by (rule values_ok_mget)
  have gr: "give \<noteq> receive" using inst by (auto simp: give_def receive_def)
  have mb: "mget bal' a = bal (ss_ledger st) i a + net a" for a
  proof -
    have "mget bal' a = i64 (bal (ss_ledger st) i a + net a)"
      unfolding bal'_def move_balances_get [OF gr i64s] vals(2)
      by (rule arg_cong [of _ _ i64], cases side) (auto simp: net leg_net_def give_def receive_def ga_def ra_def inst)
    then show ?thesis using new [of a] by (simp add: i64_id is_i64_def)
  qed
  have m2: "client_maps c2" using maps move_balances_ok [OF vals(1)] by (simp add: client_maps_def c2_def bal'_def Release_def)
  have diff: "i64 (mget bal' a - mget (Balances c) a) = net a" for a
    using old [of a] new [of a] by (auto simp: mb b1(2) is_i64_def intro!: i64_id)
  have eff: "effect cs a = net a" for a
    using diff by (auto simp: cs_def leg_deltas_effect [OF inst] net leg_net_def)
  have S: "settles (\<lambda>j a. if j = i then net a else 0) net (ss_ledger st1) (logBalanceChange cs (set_client i c2 (ss_ledger st1)))"
    by (rule log_client_settles [OF l1 c1 m2]) (simp_all add: cs_def leg_deltas_ok eff [unfolded cs_def] mb b1(1) c2_def Release_def)
  define st' where "st' = st1\<lparr>ss_ledger := logBalanceChange cs (set_client i c2 (ss_ledger st1))\<rparr>"
  have "settleSpotLeg env inBook i ord side fee e st = Some (ord', st')"
    unfolding settleSpotLeg_def by (simp add: n' st(2) r(1) c1 Let_def st'_def cs_def c2_def bal'_def give_def receive_def ga_def ra_def)
  moreover have "settles (\<lambda>j a. if j = i then net a else 0) net (ss_ledger st) (ss_ledger st')"
    using settles_trans [OF s1(2) S, of "\<lambda>j a. if j = i then net a else 0" net] by (simp add: st'_def)
  moreover have "live_ok env st'" using s1(1) S by (auto simp: live_ok_def st'_def settles_def)
  ultimately show thesis using that r(2,3) by (simp add: calm_def leg_order_def st'_def)
qed

section \<open>Fee revenue and escrow\<close>

lemma moveVenue_revenue:
  assumes l: "ledger_ok l" "conserved l" and d: "is_i64 d"
    and room: "\<bar>mget (FeeRevenue (ExBal l)) a\<bar> + \<bar>d\<bar> \<le> MaxInt64" and a: "d \<noteq> 0 \<Longrightarrow> a \<noteq> ''''"
  obtains l' where "moveVenueBalance VenueFeeRevenue a d symbol l = Some l'" "ledger_ok l'" "conserved l'" "Clients l' = Clients l"
    "\<And>b. held l' b = held l b + (if b = a then d else 0)"
    "\<And>b. \<bar>mget (FeeRevenue (ExBal l')) b\<bar> \<le> \<bar>mget (FeeRevenue (ExBal l)) b\<bar> + \<bar>d\<bar>"
proof -
  have v: "is_i64 (mget (FeeRevenue (ExBal l)) a)" using l(1) by (auto simp: ledger_ok_def values_ok_mget)
  have t: "AddAmount (mget (FeeRevenue (ExBal l)) a) d = Some (mget (FeeRevenue (ExBal l)) a + d)"
    using v d room by (auto simp: AddAmount_def TryAdd_eq is_i64_def)
  then have "moveVenueBalance VenueFeeRevenue a d symbol l \<noteq> None" by (simp add: moveVenueBalance_def Let_def)
  then obtain l' where m: "moveVenueBalance VenueFeeRevenue a d symbol l = Some l'" by blast
  have k: "conserved_by (\<lambda>_. 0) l" using l(2) by (simp add: conserved_iff)
  note s = moveVenueBalance_step [OF l(1) k d m]
  have f: "\<bar>mget (FeeRevenue (ExBal l')) b\<bar> \<le> \<bar>mget (FeeRevenue (ExBal l)) b\<bar> + \<bar>d\<bar>" for b
    using m t by (auto simp: moveVenueBalance_def Let_def split: if_splits)
  show thesis by (rule that [OF m]) (use s a f in \<open>auto simp: conserved_iff\<close>)
qed

lemma recordFeeRevenue_settles:
  assumes l: "ledger_ok l" "conserved l" and f: "is_i64 (FeeAmount tf)" "is_i64 (FeeAmount mf)"
    and named: "FeeAmount tf \<noteq> 0 \<Longrightarrow> FeeAsset tf \<noteq> ''''" "FeeAmount mf \<noteq> 0 \<Longrightarrow> FeeAsset mf \<noteq> ''''" and q: "q \<noteq> ''''"
    and room: "\<And>a. \<bar>mget (FeeRevenue (ExBal l)) a\<bar> + \<bar>FeeAmount tf\<bar> + \<bar>FeeAmount mf\<bar> \<le> MaxInt64"
  obtains l' where "recordFeeRevenue q tf mf symbol l = Some l'" "ledger_ok l'" "conserved l'" "Clients l' = Clients l"
    "\<And>a. held l' a = held l a + (if a = FeeAsset tf then FeeAmount tf else 0) + (if a = FeeAsset mf then FeeAmount mf else 0)"
    "\<And>a. \<bar>mget (FeeRevenue (ExBal l')) a\<bar> \<le> \<bar>mget (FeeRevenue (ExBal l)) a\<bar> + \<bar>FeeAmount tf\<bar> + \<bar>FeeAmount mf\<bar>"
proof (cases "FeeAmount tf = 0 \<and> FeeAmount mf = 0")
  case True
  then show thesis using that [of l] l by (auto simp: recordFeeRevenue_def)
next
  case False
  define ta where "ta = (if FeeAsset tf = '''' then q else FeeAsset tf)"
  define ma where "ma = (if FeeAsset mf = '''' then q else FeeAsset mf)"
  have ne: "ta \<noteq> ''''" "ma \<noteq> ''''" using q by (simp_all add: ta_def ma_def)
  have r1: "\<bar>mget (FeeRevenue (ExBal l)) ta\<bar> + \<bar>FeeAmount tf\<bar> \<le> MaxInt64" using room [of ta] by simp
  obtain l1 where l1: "moveVenueBalance VenueFeeRevenue ta (FeeAmount tf) symbol l = Some l1" "ledger_ok l1" "conserved l1" "Clients l1 = Clients l"
    "\<And>b. held l1 b = held l b + (if b = ta then FeeAmount tf else 0)"
    "\<And>b. \<bar>mget (FeeRevenue (ExBal l1)) b\<bar> \<le> \<bar>mget (FeeRevenue (ExBal l)) b\<bar> + \<bar>FeeAmount tf\<bar>"
    using moveVenue_revenue [OF l f(1) r1 ne(1), of symbol] by blast
  have r2: "\<bar>mget (FeeRevenue (ExBal l1)) ma\<bar> + \<bar>FeeAmount mf\<bar> \<le> MaxInt64" using room [of ma] l1(6) [of ma] by simp
  obtain l2 where l2: "moveVenueBalance VenueFeeRevenue ma (FeeAmount mf) symbol l1 = Some l2" "ledger_ok l2" "conserved l2" "Clients l2 = Clients l1"
    "\<And>b. held l2 b = held l1 b + (if b = ma then FeeAmount mf else 0)"
    "\<And>b. \<bar>mget (FeeRevenue (ExBal l2)) b\<bar> \<le> \<bar>mget (FeeRevenue (ExBal l1)) b\<bar> + \<bar>FeeAmount mf\<bar>"
    using moveVenue_revenue [OF l1(2,3) f(2) r2 ne(2), of symbol] by blast
  have rec: "recordFeeRevenue q tf mf symbol l = Some l2"
    using False l1(1) l2(1) by (auto simp: recordFeeRevenue_def Let_def ta_def ma_def)
  have e: "(if a = ta then FeeAmount tf else 0) = (if a = FeeAsset tf then FeeAmount tf else 0)"
    "(if a = ma then FeeAmount mf else 0) = (if a = FeeAsset mf then FeeAmount mf else 0)" for a
    using named by (auto simp: ta_def ma_def)
  have h: "held l2 a = held l a + (if a = FeeAsset tf then FeeAmount tf else 0) + (if a = FeeAsset mf then FeeAmount mf else 0)" for a
    using l1(5) [of a] l2(5) [of a] e [of a] by linarith
  have f: "\<bar>mget (FeeRevenue (ExBal l2)) a\<bar> \<le> \<bar>mget (FeeRevenue (ExBal l)) a\<bar> + \<bar>FeeAmount tf\<bar> + \<bar>FeeAmount mf\<bar>" for a
    using l1(6) [of a] l2(6) [of a] by linarith
  show thesis by (rule that [OF rec l2(2,3)]) (use l1(4) l2(4) h f in simp_all)
qed

lemma reserveForeign_terms:
  "reserveForeignFeeFunds margined es plan inst c o1 precision = (c', o', r) \<Longrightarrow> same_funds c c' \<and> same_terms_as o1 o'"
proof -
  have "reserve_fees margined fees c o1 = (c', o', ok) \<Longrightarrow> same_terms_as o1 o'" for fees ok
  proof (induction fees arbitrary: c o1)
    case (Cons x fees)
    then show ?case by (cases x)
      (fastforce simp: same_terms_as_def releaseForeignFeeReservation_def Let_def split: option.splits)
  qed (simp add: same_terms_as_def)
  then show "reserveForeignFeeFunds margined es plan inst c o1 precision = (c', o', r) \<Longrightarrow> same_funds c c' \<and> same_terms_as o1 o'"
    using reserve_fees_funds [of margined _ c o1 c' o']
    by (auto simp: reserveForeignFeeFunds_def same_funds_def same_terms_as_def Let_def split: fee_result.splits prod.splits)
qed

lemma restoreForeign_calm:
  assumes st: "live_ok env st" and o: "leg_order env inBook ord st"
  obtains st' where "restoreForeignFeeReservation False env inBook ord st = Some st'" "calm env st st'"
proof (cases "\<exists>order c. ord = Some order \<and> Type order \<noteq> Market \<and> FeeReserved order \<noteq> [] \<and>
    map_of (Clients (ss_ledger st)) (ClientID order) = Some c")
  case False
  then have "restoreForeignFeeReservation False env inBook ord st = Some st"
    by (auto simp: restoreForeignFeeReservation_def split: option.splits)
  then show thesis using that calm_refl [OF st] by blast
next
  case True
  then obtain order c where ord: "ord = Some order" "Type order \<noteq> Market" "FeeReserved order \<noteq> []"
    and c: "map_of (Clients (ss_ledger st)) (ClientID order) = Some c" by blast
  have q: "quotable env order" "\<not> inBook \<Longrightarrow> Side order = Side (ss_taker st)" using o ord(1) by (auto simp: leg_order_def)
  obtain c1 o1 where r: "releaseForeignFeeReservation False c order = (c1, o1)" by fastforce
  have f1: "same_funds c c1" using releaseForeign_funds [of c False order] r by simp
  have t1: "same_terms_as order o1" using r by (auto simp: releaseForeignFeeReservation_def same_terms_as_def)
  obtain c2 o2 res where x: "reserveForeignFeeFunds False None (se_plan env (ClientID order)) (se_inst env) c1 o1 (se_precision env) = (c2, o2, res)"
    by (metis prod_cases3)
  have ft: "same_funds c1 c2" "same_terms_as o1 o2" using reserveForeign_terms [OF x] by simp_all
  have f2: "same_funds c c2" by (rule same_funds_trans [OF f1 ft(1)])
  have t2: "same_terms_as order o2" using t1 ft(2) by (simp add: same_terms_as_def)
  have np: "res \<noteq> FRPanic"
    using reserveForeign_quotable [OF quotable_cong [OF q(1) t1], of None "ClientID order" c1 c2 o2] t1 ord(2) x by (auto simp: same_terms_as_def)
  have put: "calm env st (store_client (ClientID order) c' (store_order inBook o' st))" if "same_funds c c'" "same_terms_as order o'" for c' o'
  proof -
    have "Side o' = Side order" using that(2) by (simp add: same_terms_as_def)
    then have k: "calm env st (store_order inBook o' st)"
      by (intro store_order_calm [OF st quotable_cong [OF q(1) that(2)]]) (use q(2) in simp)
    have "map_of (Clients (ss_ledger (store_order inBook o' st))) (ClientID order) = Some c" using c by (simp add: store_order_def Let_def)
    from calm_trans [OF k store_client_calm [OF _ this that(1)]] k show ?thesis by (simp add: calm_def)
  qed
  have cancel: "calm env st (snd (cancelUnfundedFeeRemainder False env inBook (ClientID order) c2 o2 st))"
  proof -
    obtain o' st' where e: "cancelUnfundedFeeRemainder False env inBook (ClientID order) c2 o2 st = (o', st')" by fastforce
    have "Side o2 = Side order" using t2 by (simp add: same_terms_as_def)
    then show ?thesis using cancelUnfunded_calm(1) [OF st c f2 quotable_cong [OF q(1) t2] _ e] q(2) e by simp
  qed
  have "\<exists>st'. restoreForeignFeeReservation False env inBook ord st = Some st' \<and> calm env st st'"
    using put [OF f1 t1] put [OF f2 t2] cancel np ord c
    by (cases res) (auto simp: restoreForeignFeeReservation_def r x Let_def)
  then show thesis using that by blast
qed

section \<open>Plan and settlement in step\<close>

definition in_step :: "spotPlanState \<Rightarrow> Ledger \<Rightarrow> bool" where
  "in_step s l \<longleftrightarrow> (\<forall>i. map_of (Clients l) i = None \<longleftrightarrow> map_of (pl_clients s) i = None) \<and> (\<forall>i a. bal l i a = planned s i a)"

definition room_for :: "int \<Rightarrow> Ledger \<Rightarrow> bool" where
  "room_for n l \<longleftrightarrow> (\<forall>a. \<bar>mget (FeeRevenue (ExBal l)) a\<bar> + n \<le> MaxInt64)"

definition fee_volume :: "plannedSpotExecution \<Rightarrow> int" where
  "fee_volume f = \<bar>FeeAmount (takerFee f)\<bar> + \<bar>FeeAmount (makerFee f)\<bar>"

definition spot_pair :: "spot_env \<Rightarrow> bool" where
  "spot_pair env \<longleftrightarrow> sp_base (se_inst env) \<noteq> sp_quote (se_inst env) \<and> sp_quote (se_inst env) \<noteq> ''''"

lemma in_step_replay:
  assumes "in_step s l" "replays g s s'" "settles g h l l'"
  shows "in_step s' l'"
  using assms by (simp add: in_step_def replays_def settles_def)

lemma in_step_clients: "in_step s l \<Longrightarrow> Clients l' = Clients l \<Longrightarrow> in_step s l'"
  by (simp add: in_step_def bal_def)

lemma in_step_calm: "in_step s l \<Longrightarrow> settles still h l l' \<Longrightarrow> in_step s l'"
  by (simp add: in_step_def settles_def)

lemma normalized_fee:
  assumes "FeeAmount fee \<noteq> 0 \<longrightarrow> FeeAsset fee \<noteq> ''''"
  shows "FeeAmount (normalizedExecutionFee fee q) = FeeAmount fee"
    "leg_net inst side qty n (normalizedExecutionFee fee q) = leg_net inst side qty n fee"
    "FeeAmount fee \<noteq> 0 \<Longrightarrow> FeeAsset (normalizedExecutionFee fee q) = FeeAsset fee"
  using assms by (auto simp: normalizedExecutionFee_def no_fee_def leg_net_def fun_eq_iff)

lemma legs_cancel:
  "leg_net inst side qty n f a + leg_net inst (oppositeSide side) qty n g a +
     (if a = FeeAsset f then FeeAmount f else 0) + (if a = FeeAsset g then FeeAmount g else 0) = 0"
  by (cases side) (simp_all add: leg_net_def oppositeSide_def)

lemma in_step_registered: "in_step s l \<Longrightarrow> map_of (pl_clients s) i \<noteq> None \<Longrightarrow> \<exists>c. map_of (Clients l) i = Some c"
  by (metis in_step_def not_None_eq)

lemma leg_in_step:
  assumes live: "live_ok env st" "in_step s (ss_ledger st)" "leg_order env inBook ord st" and pair: "spot_pair env"
    and n: "TryMulDiv (ExecQty e) (ExecPrice e) (se_precision env) = Some n"
    and net: "net = leg_net (se_inst env) side (ExecQty e) n fee"
    and r: "replays (\<lambda>j a. if j = i then net a else 0) s s'" "copied s' i"
      "\<forall>a. 0 \<le> planned s i a \<and> planned s i a \<le> MaxInt64"
  obtains ord' st' where "settleSpotLeg env inBook i ord side fee e st = Some (ord', st')" "live_ok env st'" "in_step s' (ss_ledger st')"
    "settles (\<lambda>j a. if j = i then net a else 0) net (ss_ledger st) (ss_ledger st')"
    "Side (ss_taker st') = Side (ss_taker st)" "leg_order env inBook ord' st'"
proof -
  note sound = replays_sound [OF r(1)]
  have p: "planned s' i a = planned s i a + net a" for a using r(1) by (simp add: replays_def)
  have "map_of (pl_clients s) i \<noteq> None" using plan_soundD(3) [OF sound r(2)] r(1) by (simp add: replays_def)
  then obtain c where c: "map_of (Clients (ss_ledger st)) i = Some c" using in_step_registered [OF live(2)] by blast
  have b: "bal (ss_ledger st) i a = planned s i a" for a using live(2) by (simp add: in_step_def)
  have old: "0 \<le> bal (ss_ledger st) i a \<and> bal (ss_ledger st) i a \<le> MaxInt64" for a using r(3) b by simp
  have new: "0 \<le> bal (ss_ledger st) i a + net a \<and> bal (ss_ledger st) i a + net a \<le> MaxInt64" for a
    using plan_soundD(1) [OF sound r(2), of a] p [of a] b [of a] by simp
  have base: "sp_base (se_inst env) \<noteq> sp_quote (se_inst env)" using pair by (simp add: spot_pair_def)
  obtain ord' st' where leg: "settleSpotLeg env inBook i ord side fee e st = Some (ord', st')" "live_ok env st'"
    "settles (\<lambda>j a. if j = i then net a else 0) net (ss_ledger st) (ss_ledger st')"
    "Side (ss_taker st') = Side (ss_taker st)" "leg_order env inBook ord' st'"
    by (rule settleSpotLeg_settles [OF live(1) c live(3) base n net old new])
  show thesis by (rule that [OF leg(1,2) in_step_replay [OF live(2) r(1) leg(3)] leg(3-5)])
qed

lemma settleSpotExecution_settles:
  assumes live: "live_ok env st" "in_step s (ss_ledger st)" "leg_order env True ord st" and pair: "spot_pair env"
    and n: "TryMulDiv (ExecQty e) (ExecPrice e) (se_precision env) = Some n"
    and nets: "net1 = leg_net (se_inst env) (Side (ss_taker st)) (ExecQty e) n tf"
      "net2 = leg_net (se_inst env) (oppositeSide (Side (ss_taker st))) (ExecQty e) n mf"
    and r1: "replays (\<lambda>j a. if j = TakerClientID e then net1 a else 0) s s1"
      "copied s1 (TakerClientID e)" "\<forall>a. 0 \<le> planned s (TakerClientID e) a \<and> planned s (TakerClientID e) a \<le> MaxInt64"
    and r2: "replays (\<lambda>j a. if j = MakerClientID e then net2 a else 0) s1 s2"
      "copied s2 (MakerClientID e)" "\<forall>a. 0 \<le> planned s1 (MakerClientID e) a \<and> planned s1 (MakerClientID e) a \<le> MaxInt64"
    and f: "is_i64 (FeeAmount tf)" "is_i64 (FeeAmount mf)" "FeeAmount tf \<noteq> 0 \<Longrightarrow> FeeAsset tf \<noteq> ''''" "FeeAmount mf \<noteq> 0 \<Longrightarrow> FeeAsset mf \<noteq> ''''"
    and room: "room_for (\<bar>FeeAmount tf\<bar> + \<bar>FeeAmount mf\<bar> + k) (ss_ledger st)" "0 \<le> k"
  obtains ord' st' where "settleSpotExecution env e tf mf ord st = Some (ord', st')" "live_ok env st'" "in_step s2 (ss_ledger st')"
    "Side (ss_taker st') = Side (ss_taker st)" "leg_order env True ord' st'" "held (ss_ledger st') = held (ss_ledger st)"
    "room_for k (ss_ledger st')"
proof -
  have o1: "leg_order env False (Some (ss_taker st)) st" using live_okD(3) [OF live(1)] by (simp add: leg_order_def)
  obtain x1 st1 where leg1: "settleSpotLeg env False (TakerClientID e) (Some (ss_taker st)) (Side (ss_taker st)) tf e st = Some (x1, st1)"
    "live_ok env st1" "in_step s1 (ss_ledger st1)" "settles (\<lambda>j a. if j = TakerClientID e then net1 a else 0) net1 (ss_ledger st) (ss_ledger st1)"
    "Side (ss_taker st1) = Side (ss_taker st)"
    by (rule leg_in_step [OF live(1,2) o1 pair n nets(1) r1])
  have o2: "leg_order env True ord st1" using live(3) by (simp add: leg_order_def)
  obtain ord' st2 where leg2: "settleSpotLeg env True (MakerClientID e) ord (oppositeSide (Side (ss_taker st))) mf e st1 = Some (ord', st2)"
    "live_ok env st2" "in_step s2 (ss_ledger st2)" "settles (\<lambda>j a. if j = MakerClientID e then net2 a else 0) net2 (ss_ledger st1) (ss_ledger st2)"
    "Side (ss_taker st2) = Side (ss_taker st1)" "leg_order env True ord' st2"
    by (rule leg_in_step [OF leg1(2,3) o2 pair n nets(2) r2])
  have ex: "ExBal (ss_ledger st2) = ExBal (ss_ledger st)" using leg1(4) leg2(4) by (simp add: settles_def)
  have rm: "\<bar>mget (FeeRevenue (ExBal (ss_ledger st2))) a\<bar> + \<bar>FeeAmount tf\<bar> + \<bar>FeeAmount mf\<bar> + k \<le> MaxInt64" for a
    using room(1) by (simp add: room_for_def ex add.assoc)
  have rm': "\<bar>mget (FeeRevenue (ExBal (ss_ledger st2))) a\<bar> + \<bar>FeeAmount tf\<bar> + \<bar>FeeAmount mf\<bar> \<le> MaxInt64" for a
    using rm [of a] room(2) by simp
  have q: "sp_quote (se_inst env) \<noteq> ''''" using pair by (simp add: spot_pair_def)
  obtain l where l: "recordFeeRevenue (sp_quote (se_inst env)) tf mf (Symbol (ss_book st2)) (ss_ledger st2) = Some l"
    "ledger_ok l" "conserved l" "Clients l = Clients (ss_ledger st2)"
    "\<And>a. held l a = held (ss_ledger st2) a + (if a = FeeAsset tf then FeeAmount tf else 0) + (if a = FeeAsset mf then FeeAmount mf else 0)"
    "\<And>a. \<bar>mget (FeeRevenue (ExBal l)) a\<bar> \<le> \<bar>mget (FeeRevenue (ExBal (ss_ledger st2))) a\<bar> + \<bar>FeeAmount tf\<bar> + \<bar>FeeAmount mf\<bar>"
    using recordFeeRevenue_settles [OF live_okD(1,2) [OF leg2(2)] f q rm'] by metis
  have h: "held l a = held (ss_ledger st) a" for a
  proof -
    have "held (ss_ledger st2) a = held (ss_ledger st) a + net1 a + net2 a" using leg1(4) leg2(4) by (simp add: settles_def)
    with l(5) [of a] legs_cancel [of "se_inst env" "Side (ss_taker st)" "ExecQty e" n tf a mf] show ?thesis
      unfolding nets by linarith
  qed
  have room': "room_for k l" unfolding room_for_def using l(6) rm by (meson add_right_mono order_trans)
  show thesis
  proof (rule that [of ord' "st2\<lparr>ss_ledger := l\<rparr>"])
    show "settleSpotExecution env e tf mf ord st = Some (ord', st2\<lparr>ss_ledger := l\<rparr>)"
      using leg1(1) leg2(1) l(1) by (simp add: settleSpotExecution_def Let_def)
    show "live_ok env (st2\<lparr>ss_ledger := l\<rparr>)" using leg2(2) l(2,3) by (simp add: live_ok_def)
    show "held (ss_ledger (st2\<lparr>ss_ledger := l\<rparr>)) = held (ss_ledger st)" using h by (simp add: fun_eq_iff)
  qed (use leg1(5) leg2(5,6) room' in_step_clients [OF leg2(3) l(4)] in \<open>simp_all add: leg_order_def\<close>)
qed

lemma calm_room: "calm env st st' \<Longrightarrow> room_for k (ss_ledger st) \<Longrightarrow> room_for k (ss_ledger st')"
  by (simp add: calm_def settles_def room_for_def)

lemma calm_held: "calm env st st' \<Longrightarrow> held (ss_ledger st') = held (ss_ledger st)"
  by (simp add: calm_def settles_def fun_eq_iff)

lemma handleExecution_settles:
  assumes live: "live_ok env st" "in_step (fst pst) (ss_ledger st)" "plan_sound (fst pst)" "Side (ss_taker st) = Side t" and pair: "spot_pair env"
    and plan: "plan_fill env t orders filled f e pst = Inr pst'" "fill_sane env f e" "fill_matches f e" "MakerSide e = oppositeSide (Side t)"
    and room: "room_for (fee_volume f + k) (ss_ledger st)" "0 \<le> k"
  obtains out st' where "handleExecution env f e st = Some (out, st')" "live_ok env st'" "in_step (fst pst') (ss_ledger st')"
    "plan_sound (fst pst')" "\<forall>i. copied (fst pst) i \<longrightarrow> copied (fst pst') i" "copied (fst pst') (TakerClientID e)" "copied (fst pst') (MakerClientID e)"
    "Side (ss_taker st') = Side t" "held (ss_ledger st') = held (ss_ledger st)" "room_for k (ss_ledger st')"
proof -
  define q where "q = sp_quote (se_inst env)"
  define tf where "tf = normalizedExecutionFee (takerFee f) q"
  define mf where "mf = normalizedExecutionFee (makerFee f) q"
  have fs: "FeeAmount (takerFee f) \<noteq> 0 \<longrightarrow> FeeAsset (takerFee f) \<noteq> ''''" "FeeAmount (makerFee f) \<noteq> 0 \<longrightarrow> FeeAsset (makerFee f) \<noteq> ''''"
    "is_i64 (FeeAmount tf)" "is_i64 (FeeAmount mf)"
    using plan(2) normalized_fee(1) by (auto simp: fill_sane_def tf_def mf_def)
  have named: "FeeAmount tf \<noteq> 0 \<Longrightarrow> FeeAsset tf \<noteq> ''''" "FeeAmount mf \<noteq> 0 \<Longrightarrow> FeeAsset mf \<noteq> ''''"
    using fs(1,2) normalized_fee(1,3) by (auto simp: tf_def mf_def)
  obtain s1 n where n: "TryMulDiv (ExecQty e) (ExecPrice e) (se_precision env) = Some n"
    and r1: "replays (\<lambda>j a. if j = TakerClientID e then leg_net (se_inst env) (Side (ss_taker st)) (ExecQty e) n tf a else 0) (fst pst) s1"
      "copied s1 (TakerClientID e)" "\<forall>a. 0 \<le> planned (fst pst) (TakerClientID e) a \<and> planned (fst pst) (TakerClientID e) a \<le> MaxInt64"
    and r2: "replays (\<lambda>j a. if j = MakerClientID e then leg_net (se_inst env) (oppositeSide (Side (ss_taker st))) (ExecQty e) n mf a else 0) s1 (fst pst')"
      "copied (fst pst') (MakerClientID e)" "\<forall>a. 0 \<le> planned s1 (MakerClientID e) a \<and> planned s1 (MakerClientID e) a \<le> MaxInt64"
    using plan_fill_replays [OF live(3) plan(1) fill_sane_fits [OF plan(2)]] plan(4) live(4) normalized_fee(2) [OF fs(1)] normalized_fee(2) [OF fs(2)]
    unfolding tf_def mf_def by metis
  have rm: "room_for (\<bar>FeeAmount tf\<bar> + \<bar>FeeAmount mf\<bar> + k) (ss_ledger st)"
    using room(1) normalized_fee(1) [OF fs(1)] normalized_fee(1) [OF fs(2)] by (simp add: tf_def mf_def fee_volume_def)
  have om: "leg_order env True (FindOrder (ss_book st) (MakerOrderID e)) st" using live_okD(4) [OF live(1)] by (auto simp: leg_order_def)
  obtain ord st1 where x: "settleSpotExecution env e tf mf (FindOrder (ss_book st) (MakerOrderID e)) st = Some (ord, st1)" "live_ok env st1"
    "in_step (fst pst') (ss_ledger st1)" "Side (ss_taker st1) = Side (ss_taker st)" "leg_order env True ord st1"
    "held (ss_ledger st1) = held (ss_ledger st)" "room_for k (ss_ledger st1)"
    by (rule settleSpotExecution_settles [OF live(1,2) om pair n refl refl r1 r2 fs(3,4) named rm room(2)])
  have ot: "leg_order env False (Some (ss_taker st1)) st1" using live_okD(3) [OF x(2)] by (simp add: leg_order_def)
  obtain st2 where st2: "restoreForeignFeeReservation False env False (Some (ss_taker st1)) st1 = Some st2" "calm env st1 st2"
    by (rule restoreForeign_calm [OF x(2) ot])
  have live2: "live_ok env st2" "leg_order env True ord st2" using st2(2) x(5) by (simp_all add: calm_def leg_order_def)
  obtain st3 where st3: "restoreForeignFeeReservation False env True ord st2 = Some st3" "calm env st2 st3"
    by (rule restoreForeign_calm [OF live2])
  have c: "calm env st1 st3" by (rule calm_trans [OF st2(2) st3(2)])
  have s: "settle_spot env e tf mf st = Some st3" using x(1) st2(1) st3(1) by (simp add: settle_spot_def)
  have cl: "map_of (pl_clients (fst pst)) (TakerClientID e) \<noteq> None" "map_of (pl_clients (fst pst)) (MakerClientID e) \<noteq> None"
    using plan_soundD(3) [OF replays_sound [OF r1(1)] r1(2)] plan_soundD(3) [OF replays_sound [OF r2(1)] r2(2)] r1(1) r2(1)
    by (simp_all add: replays_def)
  then have reg: "map_of (Clients (ss_ledger st)) (TakerClientID e) \<noteq> None" "map_of (Clients (ss_ledger st)) (MakerClientID e) \<noteq> None"
    using live(2) by (simp_all add: in_step_def)
  obtain out where h: "handleExecution env f e st = Some (out, st3\<lparr>ss_book := createTrade (Side (ss_taker st3)) e (ss_book st3)\<rparr>)"
    using s reg plan(3) by (simp add: handleExecution_def Let_def tf_def mf_def q_def)
  show thesis
  proof (rule that [OF h])
    show "live_ok env (st3\<lparr>ss_book := createTrade (Side (ss_taker st3)) e (ss_book st3)\<rparr>)"
      using c by (simp add: calm_def live_ok_def createTrade_def)
    have "settles still (\<lambda>_. 0) (ss_ledger st1) (ss_ledger st3)" using c by (simp add: calm_def)
    from in_step_calm [OF x(3) this]
    show "in_step (fst pst') (ss_ledger (st3\<lparr>ss_book := createTrade (Side (ss_taker st3)) e (ss_book st3)\<rparr>))" by simp
  qed (use c x(4,6,7) live(4) calm_room [OF c] calm_held [OF c] r1(1,2) r2(1,2) in \<open>simp_all add: calm_def replays_def\<close>)
qed

lemma processExecutions_settles:
  assumes "live_ok env st" "in_step (fst pst) (ss_ledger st)" "plan_sound (fst pst)" "Side (ss_taker st) = Side t" "spot_pair env"
    and "plan_loop env t orders filled fs es pst = Inr pst'" "list_all2 fill_matches fs es"
    and "\<forall>(f, e)\<in>set (zip fs es). fill_sane env f e \<and> MakerSide e = oppositeSide (Side t)"
    and "room_for (\<Sum>f\<leftarrow>fs. fee_volume f) (ss_ledger st)"
  shows "\<exists>outs st'. processExecutions env fs es st = Some (outs, st') \<and> length outs = length es \<and> live_ok env st' \<and>
    in_step (fst pst') (ss_ledger st') \<and> plan_sound (fst pst') \<and> held (ss_ledger st') = held (ss_ledger st) \<and>
    (\<forall>i. copied (fst pst) i \<longrightarrow> copied (fst pst') i) \<and>
    (\<forall>e\<in>set es. copied (fst pst') (TakerClientID e) \<and> copied (fst pst') (MakerClientID e))"
  using assms(7,1-4,6,8,9)
proof (induction fs es arbitrary: st pst rule: list_all2_induct)
  case Nil
  then show ?case by simp
next
  case (Cons f fs e es)
  obtain pst1 where p: "plan_fill env t orders filled f e pst = Inr pst1" "plan_loop env t orders filled fs es pst1 = Inr pst'"
    using Cons.prems(5) by (auto simp: and_then_Inr)
  have fe: "fill_sane env f e" "MakerSide e = oppositeSide (Side t)" using Cons.prems(6) by auto
  have nn: "0 \<le> (\<Sum>f\<leftarrow>fs. fee_volume f)" by (intro sum_list_nonneg) (auto simp: fee_volume_def)
  have rm: "room_for (fee_volume f + (\<Sum>f\<leftarrow>fs. fee_volume f)) (ss_ledger st)" using Cons.prems(7) by simp
  obtain out st1 where h: "handleExecution env f e st = Some (out, st1)" "live_ok env st1" "in_step (fst pst1) (ss_ledger st1)" "plan_sound (fst pst1)"
    "\<forall>i. copied (fst pst) i \<longrightarrow> copied (fst pst1) i" "copied (fst pst1) (TakerClientID e)" "copied (fst pst1) (MakerClientID e)"
    "Side (ss_taker st1) = Side t" "held (ss_ledger st1) = held (ss_ledger st)" "room_for (\<Sum>f\<leftarrow>fs. fee_volume f) (ss_ledger st1)"
    by (rule handleExecution_settles [OF Cons.prems(1-4) assms(5) p(1) fe(1) Cons.hyps(1) fe(2) rm nn])
  from Cons.IH [OF h(2,3,4,8) p(2) _ h(10)] Cons.prems(6)
  obtain outs st' where q: "processExecutions env fs es st1 = Some (outs, st')" "length outs = length es" "live_ok env st'"
    "in_step (fst pst') (ss_ledger st')" "plan_sound (fst pst')" "held (ss_ledger st') = held (ss_ledger st1)"
    "\<forall>i. copied (fst pst1) i \<longrightarrow> copied (fst pst') i"
    "\<forall>e\<in>set es. copied (fst pst') (TakerClientID e) \<and> copied (fst pst') (MakerClientID e)" by auto
  show ?case
  proof (intro exI conjI)
    show "processExecutions env (f # fs) (e # es) st = Some (out # outs, st')" using Cons.hyps(1) h(1) q(1) by simp
  qed (use q h in auto)
qed

section \<open>Property\<close>

definition fees_named :: "plannedSpotExecution \<Rightarrow> bool" where
  "fees_named f \<longleftrightarrow> is_i64 (FeeAmount (takerFee f)) \<and> is_i64 (FeeAmount (makerFee f)) \<and>
     (FeeAmount (takerFee f) \<noteq> 0 \<longrightarrow> FeeAsset (takerFee f) \<noteq> '''') \<and>
     (FeeAmount (makerFee f) \<noteq> 0 \<longrightarrow> FeeAsset (makerFee f) \<noteq> '''')"

lemma new_plan_in_step:
  assumes "ledger_ok l"
  shows "plan_sound (newSpotPlanState (Clients l))" "in_step (newSpotPlanState (Clients l)) l"
  using assms by (auto simp: plan_sound_def newSpotPlanState_def in_step_def planned_def bal_def ledger_ok_def client_maps_def)

lemma prepared_plan:
  assumes "prepareSpotExecutionPlan env matcher clients book t excluded given = Inr plan"
  obtains preview orders filled pst where
    "previewMatchExcluding matcher (ValidatePrice (se_inst env)) (Bids book) (Asks book) t excluded = Some preview"
    "list_all2 fill_matches (fills plan) (Executions preview)"
    "plan_loop env t orders filled (fills plan) (Executions preview) (newSpotPlanState clients, []) = Inr pst"
proof -
  obtain plan0 where "replay_plan env matcher clients book t excluded plan0 = Inr plan"
    using assms by (auto simp: prepareSpotExecutionPlan_def and_then_Inr)
  then show thesis using that by (auto simp: replay_plan_def and_then_Inr plan_matches_def split: option.splits if_splits)
qed

lemma live_executions:
  assumes ok: "books_ok bids asks" and t: "order_sane t" "FilledQty t = 0" "Parent t = None"
    and m: "Match clock bids asks t = Some r"
  shows "\<forall>e\<in>set (Executions r). ExecQty e \<le> MaxInt64 \<and> is_i64 (ExecPrice e) \<and> MakerSide e = oppositeSide (Side t)"
    "Side (RTaker r) = Side t"
proof -
  obtain b a st st' where s: "Match clock bids asks t = Some (match_result bids asks t st)"
    "\<forall>e\<in>set (MExecs st). exec_ok (match_start bids asks t) e" "(\<Sum>e\<leftarrow>MExecs st. ExecQty e) = FilledQty (MTaker st)"
    "FilledQty (MTaker st) \<le> Qty t"
    by (rule preview_run [OF ok t, of clock])
  have r: "Executions r = MExecs st" "r = match_result bids asks t st" using m s(1) by auto
  have q: "Qty t \<le> MaxInt64" using t(1) by (simp add: order_sane_def)
  have "ExecQty e \<le> MaxInt64" if "e \<in> set (MExecs st)" for e
  proof -
    have "ExecQty e \<le> (\<Sum>e\<leftarrow>MExecs st. ExecQty e)"
      using that s(2) by (intro member_le_sum_list) (auto simp: exec_ok_def)
    with s(3,4) q show ?thesis by linarith
  qed
  moreover have "is_i64 (ExecPrice e) \<and> MakerSide e = oppositeSide (Side t)" if mem: "e \<in> set (MExecs st)" for e
  proof -
    obtain o1 where o1: "Orders (opposite (Side t) bids asks) (MakerOrderID e) = Some o1" "ExecPrice e = Price o1" "MakerSide e = Side o1" "Side o1 \<noteq> Side t"
      using bspec [OF s(2) mem] by (auto simp: exec_ok_def)
    have "book_inv (opposite (Side t) bids asks)" using ok by (simp add: books_ok_def book_wf_def opposite_def)
    from book_invD(5) [OF this o1(1)] o1(2-4) show ?thesis
      by (cases "Side t"; cases "Side o1") (auto simp: oppositeSide_def order_ok_def)
  qed
  ultimately show "\<forall>e\<in>set (Executions r). ExecQty e \<le> MaxInt64 \<and> is_i64 (ExecPrice e) \<and> MakerSide e = oppositeSide (Side t)"
    by (simp add: r(1))
  obtain st1 where "Match clock bids asks t = Some (match_result bids asks t st1)" "auction clock (match_start bids asks t) st1"
    by (rule Match_run [OF ok t(1)])
  with m auction_taker show "Side (RTaker r) = Side t" by (fastforce simp: match_result_def finish_taker_def)
qed

text \<open>The notional check of admission makes a percentage or fixed schedule quotable.\<close>

lemma percentage_quotable:
  assumes "order_sane o1" "is_i64 (Price o1)" "0 \<le> Price o1" "is_i64 (se_precision env)"
    and "TryMulDiv (Qty o1) (Price o1) (se_precision env) \<noteq> None"
    and plans: "\<forall>j p. se_plan env j = Some p \<longrightarrow> (\<exists>f. p = Percentage f) \<or> (\<exists>f. p = Fixed f)"
  shows "quotable env o1"
proof -
  have q: "0 \<le> Qty o1" "is_i64 (Qty o1)" using assms(1) order_sane_i64 by (auto simp: order_sane_def)
  have c: "0 < se_precision env" "Qty o1 * Price o1 div se_precision env \<le> MaxInt64"
    using assms q by (auto simp: TryMulDiv_eq sdiv_nonneg_eq is_i64_def split: if_splits)
  have mul: "TryMulDiv n (Price o1) (se_precision env) \<noteq> None" if n: "0 < n" "n \<le> Qty o1" for n
  proof -
    have "n * Price o1 div se_precision env \<le> Qty o1 * Price o1 div se_precision env"
      using n assms(3) c(1) by (intro zdiv_mono1 mult_right_mono) auto
    then have "is_i64 (n * Price o1 div se_precision env)"
      using c n assms(3) by (auto simp: is_i64_def pos_imp_zdiv_nonneg_iff intro: order_trans [of _ 0])
    with n q assms c(1) show ?thesis by (auto simp: TryMulDiv_eq sdiv_nonneg_eq is_i64_def)
  qed
  have "CalculateFee p ((probe_fill b k n (Price o1) (se_precision env))\<lparr>fc_IsMaker := m\<rparr>) \<noteq> FeePanic"
    if p: "se_plan env j = Some p" and n: "0 < n" "n \<le> Qty o1" for j p m n b k
  proof -
    obtain v where v: "TryMulDiv n (Price o1) (se_precision env) = Some v" using mul [OF n] by blast
    consider f where "p = Percentage f" | f where "p = Fixed f" using plans p by blast
    then show ?thesis
      by cases (simp_all add: PercentageFee_CalculateFee_def FixedFee_CalculateFee_def MulDiv_def probe_fill_def Let_def v)
  qed
  then show ?thesis using assms(1) unfolding quotable_def by blast
qed

text \<open>C8: an accepted plan settles. When the preflight of a spot order succeeds, settling the executions
  the live match then produces cannot panic and never overdraws: every account that took part
  ends with non-negative balances in all assets, although the live updates are unchecked
  wrapping arithmetic. What the venue holds of each asset is unchanged, fees included, and the
  conservation audit stays silent. Assumed are a pair of two different assets, fees that name their asset, fee schedules that
  do not panic on the orders involved, and room for the fees in the venue's revenue account.\<close>

theorem spot_plan_settles:
  assumes ok: "books_ok (Bids book) (Asks book)" and t: "order_sane t" "FilledQty t = 0" "Parent t = None"
    and plan: "prepareSpotExecutionPlan env (Some (Match clock)) (Clients l) book t [] given = Inr plan"
    and live: "Match clock (Bids book) (Asks book) t = Some r"
      "st = \<lparr>ss_ledger = l, ss_book = book\<lparr>Bids := RBids r, Asks := RAsks r\<rparr>, ss_taker = RTaker r\<rparr>"
    and st: "live_ok env st" "spot_pair env" "is_i64 (se_precision env)"
    and fees: "\<forall>f\<in>set (fills plan). fees_named f" "room_for (\<Sum>f\<leftarrow>fills plan. fee_volume f) l"
  shows "\<exists>outs st'. processExecutions env (fills plan) (Executions r) st = Some (outs, st') \<and> length outs = length (Executions r) \<and>
    held (ss_ledger st') = held l \<and> VerifyConservation (ss_ledger st') = [] \<and>
    (\<forall>e\<in>set (Executions r). \<forall>a. 0 \<le> bal (ss_ledger st') (TakerClientID e) a \<and> 0 \<le> bal (ss_ledger st') (MakerClientID e) a)"
proof -
  obtain preview orders filled pst where p:
    "previewMatchExcluding (Some (Match clock)) (ValidatePrice (se_inst env)) (Bids book) (Asks book) t [] = Some preview"
    "list_all2 fill_matches (fills plan) (Executions preview)"
    "plan_loop env t orders filled (fills plan) (Executions preview) (newSpotPlanState (Clients l), []) = Inr pst"
    by (rule prepared_plan [OF plan])
  have es: "Executions preview = Executions r" by (rule preview_is_live(1) [OF ok t p(1) live(1)])
  note e = live_executions [OF ok t live(1)]
  have l: "ledger_ok l" using live_okD(1) [OF st(1)] live(2) by simp
  have z: "\<forall>(f, e)\<in>set (zip (fills plan) (Executions r)). fill_sane env f e \<and> MakerSide e = oppositeSide (Side t)"
    using fees(1) e(1) st(3) by (auto simp: fill_sane_def fees_named_def dest: set_zip_leftD set_zip_rightD)
  have led: "ss_ledger st = l" "Side (ss_taker st) = Side t" using live(2) e(2) by simp_all
  from processExecutions_settles [OF st(1) _ _ led(2) st(2) p(3) [unfolded es] p(2) [unfolded es] z] new_plan_in_step [OF l] fees(2)
  obtain outs st' where x: "processExecutions env (fills plan) (Executions r) st = Some (outs, st')" "length outs = length (Executions r)"
    "live_ok env st'" "in_step (fst pst) (ss_ledger st')" "plan_sound (fst pst)" "held (ss_ledger st') = held l"
    "\<forall>e\<in>set (Executions r). copied (fst pst) (TakerClientID e) \<and> copied (fst pst) (MakerClientID e)"
    by (auto simp: led(1))
  have "VerifyConservation (ss_ledger st') = []" using conserved_verifies live_okD(1,2) [OF x(3)] by blast
  moreover have "0 \<le> bal (ss_ledger st') i a" if "copied (fst pst) i" for i a
    using plan_soundD(1) [OF x(5) that] x(4) by (simp add: in_step_def)
  ultimately show ?thesis using x by blast
qed

text \<open>A buyer takes out the two best asks, paying a fixed fee of two in quote for each.\<close>

definition spot_sample_env :: spot_env where
  "spot_sample_env = \<lparr>se_inst = NewSpotInstrument ''S'' ''BTC'' ''USD'' 1 1 1 1,
     se_plan = (\<lambda>i. Some (Fixed \<lparr>ff_MakerFee = no_fee, ff_TakerFee = \<lparr>FeeAsset = ''USD'', FeeAmount = 2\<rparr>\<rparr>))\<rparr>"

definition spot_sample_book :: OrderBook where
  "spot_sample_book = \<lparr>Symbol = ''S'', Bids = NewBook Buy, Asks = ask_ladder, LastTrade = None, SeqNum = 0\<rparr>"

definition spot_sample_ledger :: Ledger where
  "spot_sample_ledger = \<lparr>Clients = [(5, (NewClient 5)\<lparr>Balances := [(''USD'', 1000)]\<rparr>), (7, (NewClient 7)\<lparr>Balances := [(''BTC'', 3)]\<rparr>),
       (8, (NewClient 8)\<lparr>Balances := [(''BTC'', 10)]\<rparr>)],
     ExBal = \<lparr>FeeRevenue = [], InsuranceFund = [], FundingRoundingReserves = []\<rparr>, venueBalanceSequence = 0,
     conservation = \<lparr>recorded = [(''USD'', 1000), (''BTC'', 13)], unrepresentable = []\<rparr>\<rparr>"

lemma spot_sample_ledger_ok: "ledger_ok spot_sample_ledger" "conserved spot_sample_ledger"
  by (auto simp: ledger_ok_def conserved_def spot_sample_ledger_def NewClient_def is_map_def client_maps_def values_ok_def
      debts_ok_def tracker_ok_def held_def msum_def worth_def mget_def is_i64_def)

lemma matched_orders:
  assumes "books_ok bids asks" "order_sane t" "is_i64 (Price t)" "Match clock bids asks t = Some r"
  shows "order_sane (RTaker r) \<and> Price (RTaker r) = Price t \<and> Qty (RTaker r) = Qty t"
    "Orders (RBids r) i = Some o1 \<or> Orders (RAsks r) i = Some o1 \<Longrightarrow> order_sane o1 \<and> is_i64 (Price o1)"
proof -
  obtain st where s: "Match clock bids asks t = Some (match_result bids asks t st)" "auction clock (match_start bids asks t) st" "match_ready st"
    by (rule Match_run [OF assms(1,2)])
  have r: "r = match_result bids asks t st" using s(1) assms(4) by simp
  show "order_sane (RTaker r) \<and> Price (RTaker r) = Price t \<and> Qty (RTaker r) = Qty t"
    using s(3) auction_taker [OF s(2)] by (auto simp: r match_result_def finish_taker_def match_ready_def order_sane_def)
  have "book_inv (RBids r)" "book_inv (RAsks r)"
    using s(3) assms(1) by (auto simp: r match_result_def match_ready_def books_ok_def book_wf_def)
  then show "Orders (RBids r) i = Some o1 \<or> Orders (RAsks r) i = Some o1 \<Longrightarrow> order_sane o1 \<and> is_i64 (Price o1)"
    using book_invD(5) by (auto simp: order_ok_def)
qed

theorem spot_plan_settles_witness:
  "\<exists>plan r outs st'. Match (\<lambda>_. 0) (Bids spot_sample_book) (Asks spot_sample_book) (sample_order 9 5 Buy 100 7) = Some r \<and>
     prepareSpotExecutionPlan spot_sample_env (Some (Match (\<lambda>_. 0))) (Clients spot_sample_ledger) spot_sample_book (sample_order 9 5 Buy 100 7) [] None = Inr plan \<and>
     processExecutions spot_sample_env (fills plan) (Executions r)
       \<lparr>ss_ledger = spot_sample_ledger, ss_book = spot_sample_book\<lparr>Bids := RBids r, Asks := RAsks r\<rparr>, ss_taker = RTaker r\<rparr> = Some (outs, st') \<and>
     held (ss_ledger st') = held spot_sample_ledger \<and> length outs = 2"
proof -
  let ?t = "sample_order 9 5 Buy 100 7" and ?b = spot_sample_book and ?e = spot_sample_env and ?l = spot_sample_ledger
  let ?p = "prepareSpotExecutionPlan ?e (Some (Match (\<lambda>_. 0))) (Clients ?l) ?b ?t [] None"
  have ok: "books_ok (Bids ?b) (Asks ?b)" using ask_ladder_ok by (simp add: spot_sample_book_def)
  have t: "order_sane ?t" "FilledQty ?t = 0" "Parent ?t = None" "is_i64 (Price ?t)" by (simp_all add: sample_order_def order_sane_def is_i64_def)
  have c: "(case ?p of Inl _ \<Rightarrow> None | Inr plan \<Rightarrow> Some (fills plan)) = Some
      [\<lparr>fingerprint = \<lparr>fp_takerOrderID = 9, fp_makerOrderID = 1, fp_takerClientID = 5, fp_makerClientID = 7, fp_price = 100, fp_qty = 3,
          fp_takerFilled = 3, fp_makerFilled = 3, fp_makerTotal = 3, fp_makerSide = Sell, fp_makerPosSide = PositionBoth\<rparr>,
        takerFee = \<lparr>FeeAsset = ''USD'', FeeAmount = 2\<rparr>, makerFee = no_fee\<rparr>,
       \<lparr>fingerprint = \<lparr>fp_takerOrderID = 9, fp_makerOrderID = 2, fp_takerClientID = 5, fp_makerClientID = 8, fp_price = 100, fp_qty = 4,
          fp_takerFilled = 7, fp_makerFilled = 4, fp_makerTotal = 4, fp_makerSide = Sell, fp_makerPosSide = PositionBoth\<rparr>,
        takerFee = \<lparr>FeeAsset = ''USD'', FeeAmount = 2\<rparr>, makerFee = no_fee\<rparr>]" by code_simp
  then obtain plan where plan: "?p = Inr plan" by (cases ?p) auto
  have n: "map_option (\<lambda>r. length (Executions r)) (Match (\<lambda>_. 0) (Bids ?b) (Asks ?b) ?t) = Some 2" by code_simp
  then obtain r where r: "Match (\<lambda>_. 0) (Bids ?b) (Asks ?b) ?t = Some r" "length (Executions r) = 2" by auto
  note mo = matched_orders [OF ok t(1,4) r(1)]
  have q: "quotable ?e o1" if "order_sane o1" for o1
    using that by (auto simp: quotable_def spot_sample_env_def FixedFee_CalculateFee_def)
  let ?st = "\<lparr>ss_ledger = ?l, ss_book = ?b\<lparr>Bids := RBids r, Asks := RAsks r\<rparr>, ss_taker = RTaker r\<rparr>"
  have live: "live_ok ?e ?st" using spot_sample_ledger_ok mo q by (simp add: live_ok_def)
  have pair: "spot_pair ?e" "is_i64 (se_precision ?e)" by (simp_all add: spot_pair_def spot_sample_env_def NewSpotInstrument_def is_i64_def)
  have fees: "\<forall>f\<in>set (fills plan). fees_named f" "room_for (\<Sum>f\<leftarrow>fills plan. fee_volume f) ?l"
    using c plan by (simp_all add: fees_named_def is_i64_def no_fee_def room_for_def fee_volume_def spot_sample_ledger_def)
  from spot_plan_settles [OF ok t(1-3) plan r(1) refl live pair fees] r plan show ?thesis by auto
qed

section \<open>Fees without an asset\<close>

definition unnamed_charge :: "Fee \<Rightarrow> bool" where
  "unnamed_charge fee \<longleftrightarrow> FeeAsset fee = '''' \<and> FeeAmount fee \<noteq> 0"

definition no_unnamed_rebate :: "plannedSpotExecution \<Rightarrow> bool" where
  "no_unnamed_rebate f \<longleftrightarrow> (FeeAsset (takerFee f) = '''' \<longrightarrow> 0 \<le> FeeAmount (takerFee f)) \<and>
     (FeeAsset (makerFee f) = '''' \<longrightarrow> 0 \<le> FeeAmount (makerFee f))"

lemma leg_net_unnamed:
  assumes "sp_base inst \<noteq> ''''" "sp_quote inst \<noteq> ''''"
  shows "leg_net inst side qty notional fee '''' = (if FeeAsset fee = '''' then - FeeAmount fee else 0)"
  using assms by (auto simp: leg_net_def)

lemma plan_loop_named:
  assumes "plan_loop env t orders filled fs es pst = Inr pst'" "list_all2 fill_matches fs es"
    and "\<forall>(f, e)\<in>set (zip fs es). fill_fits env f e" "\<forall>f\<in>set fs. no_unnamed_rebate f"
    and "plan_sound (fst pst)" "\<forall>i. planned (fst pst) i '''' = 0"
    and pair: "sp_base (se_inst env) \<noteq> ''''" "sp_quote (se_inst env) \<noteq> ''''"
  shows "\<forall>f\<in>set fs. \<not> unnamed_charge (takerFee f) \<and> \<not> unnamed_charge (makerFee f)"
  using assms(2,1,3-6)
proof (induction fs es arbitrary: pst rule: list_all2_induct)
  case (Cons f fs e es)
  obtain pst1 where p: "plan_fill env t orders filled f e pst = Inr pst1" "plan_loop env t orders filled fs es pst1 = Inr pst'"
    using Cons.prems(1) by (auto simp: and_then_Inr)
  have fit: "fill_fits env f e" and fair: "no_unnamed_rebate f" using Cons.prems(2,3) by auto
  obtain s1 n where
    T: "replays (\<lambda>j a. if j = TakerClientID e then leg_net (se_inst env) (Side t) (ExecQty e) n (takerFee f) a else 0) (fst pst) s1"
      "copied s1 (TakerClientID e)"
    and M: "replays (\<lambda>j a. if j = MakerClientID e then leg_net (se_inst env) (MakerSide e) (ExecQty e) n (makerFee f) a else 0) s1 (fst pst1)"
      "copied (fst pst1) (MakerClientID e)"
    using plan_fill_replays [OF Cons.prems(4) p(1) fit] by metis
  have t: "planned s1 i '''' = (if i = TakerClientID e \<and> FeeAsset (takerFee f) = '''' then - FeeAmount (takerFee f) else 0)" for i
    using T(1) Cons.prems(5) by (simp add: replays_def leg_net_unnamed [OF pair])
  have ft: "\<not> unnamed_charge (takerFee f)"
    using t [of "TakerClientID e"] plan_soundD(1) [OF replays_sound [OF T(1)] T(2), of "''''"] fair
    by (auto simp: unnamed_charge_def no_unnamed_rebate_def)
  have m: "planned (fst pst1) i '''' = (if i = MakerClientID e \<and> FeeAsset (makerFee f) = '''' then - FeeAmount (makerFee f) else 0)" for i
    using M(1) t [of i] ft by (auto simp: replays_def leg_net_unnamed [OF pair] unnamed_charge_def)
  have fm: "\<not> unnamed_charge (makerFee f)"
    using m [of "MakerClientID e"] plan_soundD(1) [OF replays_sound [OF M(1)] M(2), of "''''"] fair
    by (auto simp: unnamed_charge_def no_unnamed_rebate_def)
  have "\<forall>i. planned (fst pst1) i '''' = 0" using m fm by (auto simp: unnamed_charge_def)
  with Cons.IH [OF p(2) _ _ replays_sound [OF M(1)]] Cons.prems(2,3) ft fm show ?case by auto
qed simp

text \<open>C39: a fee without an asset is never planned. Settlement takes an omitted fee asset to
  mean the quote asset, but the replay of the preflight debits the asset named by the empty string. As long as no account
  owns that asset, and no schedule pays a rebate in it, an accepted plan charges no such fee to anybody: every order with a
  fill that would be charged a positive fee without an asset is refused, however much quote the party owns.\<close>

theorem unnamed_fee_refused:
  assumes ok: "books_ok (Bids book) (Asks book)" and t: "order_sane t" "FilledQty t = 0" "Parent t = None"
    and plan: "prepareSpotExecutionPlan env (Some (Match clock)) (Clients l) book t [] given = Inr plan"
    and l: "ledger_ok l" "\<forall>i. bal l i '''' = 0" and pair: "sp_base (se_inst env) \<noteq> ''''" "sp_quote (se_inst env) \<noteq> ''''" "is_i64 (se_precision env)"
    and fees: "\<forall>f\<in>set (fills plan). is_i64 (FeeAmount (takerFee f)) \<and> is_i64 (FeeAmount (makerFee f)) \<and> no_unnamed_rebate f"
  shows "\<forall>f\<in>set (fills plan). (FeeAsset (takerFee f) = '''' \<longrightarrow> FeeAmount (takerFee f) = 0) \<and>
    (FeeAsset (makerFee f) = '''' \<longrightarrow> FeeAmount (makerFee f) = 0)"
proof -
  obtain preview orders filled pst where p:
    "previewMatchExcluding (Some (Match clock)) (ValidatePrice (se_inst env)) (Bids book) (Asks book) t [] = Some preview"
    "list_all2 fill_matches (fills plan) (Executions preview)"
    "plan_loop env t orders filled (fills plan) (Executions preview) (newSpotPlanState (Clients l), []) = Inr pst"
    by (rule prepared_plan [OF plan])
  obtain b a st st' where r: "Match clock (Bids book) (Asks book) t = Some (match_result (Bids book) (Asks book) t st)"
    by (rule preview_run [OF ok t, of clock])
  have es: "Executions preview = Executions (match_result (Bids book) (Asks book) t st)" by (rule preview_is_live(1) [OF ok t p(1) r])
  have fit: "\<forall>(f, e)\<in>set (zip (fills plan) (Executions preview)). fill_fits env f e"
    using fees pair(3) live_executions(1) [OF ok t r] es by (auto simp: fill_fits_def dest: set_zip_leftD set_zip_rightD)
  have z: "\<forall>i. planned (fst (newSpotPlanState (Clients l), [])) i '''' = 0"
    using l(2) new_plan_in_step(2) [OF l(1)] by (simp add: in_step_def)
  from plan_loop_named [OF p(3,2) fit _ _ z pair(1,2)] new_plan_in_step(1) [OF l(1)] fees show ?thesis
    by (auto simp: unnamed_charge_def)
qed

text \<open>The order that is accepted with a taker fee of two in quote is refused when the schedule leaves the asset out; the
  account that would pay it has quote enough.\<close>

theorem unnamed_fee_refused_witness:
  "\<exists>plan. prepareSpotExecutionPlan spot_sample_env (Some (Match (\<lambda>_. 0))) (Clients spot_sample_ledger) spot_sample_book (sample_order 9 5 Buy 100 7) [] None = Inr plan \<and>
     (\<forall>f\<in>set (fills plan). FeeAsset (makerFee f) = '''' \<longrightarrow> FeeAmount (makerFee f) = 0) \<and>
   prepareSpotExecutionPlan (spot_sample_env\<lparr>se_plan := (\<lambda>i. Some (Fixed \<lparr>ff_MakerFee = no_fee, ff_TakerFee = \<lparr>FeeAsset = '''', FeeAmount = 2\<rparr>\<rparr>))\<rparr>)
     (Some (Match (\<lambda>_. 0))) (Clients spot_sample_ledger) spot_sample_book (sample_order 9 5 Buy 100 7) [] None = Inl (Failure 0 False) \<and>
   normalizedExecutionFee \<lparr>FeeAsset = '''', FeeAmount = 2\<rparr> ''USD'' = \<lparr>FeeAsset = ''USD'', FeeAmount = 2\<rparr>"
proof -
  let ?t = "sample_order 9 5 Buy 100 7" and ?e = spot_sample_env and ?l = spot_sample_ledger
  let ?p = "prepareSpotExecutionPlan ?e (Some (Match (\<lambda>_. 0))) (Clients ?l) spot_sample_book ?t [] None"
  have ok: "books_ok (Bids spot_sample_book) (Asks spot_sample_book)" using ask_ladder_ok by (simp add: spot_sample_book_def)
  have t: "order_sane ?t" "FilledQty ?t = 0" "Parent ?t = None" by (simp_all add: sample_order_def order_sane_def)
  have c: "(case ?p of Inl _ \<Rightarrow> None | Inr plan \<Rightarrow> Some (map (\<lambda>f. (takerFee f, makerFee f)) (fills plan))) =
      Some [(\<lparr>FeeAsset = ''USD'', FeeAmount = 2\<rparr>, no_fee), (\<lparr>FeeAsset = ''USD'', FeeAmount = 2\<rparr>, no_fee)]" by code_simp
  then obtain plan where plan: "?p = Inr plan" by (cases ?p) auto
  have f: "takerFee f = \<lparr>FeeAsset = ''USD'', FeeAmount = 2\<rparr> \<and> makerFee f = no_fee" if "f \<in> set (fills plan)" for f
  proof -
    have "(takerFee f, makerFee f) \<in> set (map (\<lambda>f. (takerFee f, makerFee f)) (fills plan))" using that by force
    with c plan show ?thesis by auto
  qed
  have e: "sp_base (se_inst ?e) \<noteq> ''''" "sp_quote (se_inst ?e) \<noteq> ''''" "is_i64 (se_precision ?e)"
    by (simp_all add: spot_sample_env_def NewSpotInstrument_def is_i64_def)
  have none: "\<forall>i. bal ?l i '''' = 0" by (auto simp: bal_def spot_sample_ledger_def NewClient_def mget_def)
  have "\<forall>f\<in>set (fills plan). FeeAsset (makerFee f) = '''' \<longrightarrow> FeeAmount (makerFee f) = 0"
    using unnamed_fee_refused [OF ok t plan spot_sample_ledger_ok(1) none e] f by (simp add: no_unnamed_rebate_def is_i64_def no_fee_def)
  moreover have "prepareSpotExecutionPlan (?e\<lparr>se_plan := (\<lambda>i. Some (Fixed \<lparr>ff_MakerFee = no_fee, ff_TakerFee = \<lparr>FeeAsset = '''', FeeAmount = 2\<rparr>\<rparr>))\<rparr>)
     (Some (Match (\<lambda>_. 0))) (Clients ?l) spot_sample_book ?t [] None = Inl (Failure 0 False)" by code_simp
  moreover have "normalizedExecutionFee \<lparr>FeeAsset = '''', FeeAmount = 2\<rparr> ''USD'' = \<lparr>FeeAsset = ''USD'', FeeAmount = 2\<rparr>" by code_simp
  ultimately show ?thesis using plan by blast
qed

end
