(* ===== verification/Perp_Safety.thy ===== *)
theory Perp_Safety
  imports Perp_Settlement Spot_Solvency
begin

text \<open>Properties of the settlement of margined fills: the cash of the two parties, the venue's fees and the
  exact value of the open contracts add up to what they were, and margin is moved between orders,
  positions and the wallet without a unit being lost or freed twice.\<close>

section \<open>The exact value of all contracts\<close>

definition exact_total :: "string \<Rightarrow> int64 \<Rightarrow> PositionManager \<Rightarrow> int" where
  "exact_total sy P pm = msum (\<lambda>k a. if fst (snd k) = sy then exact_value P a else 0) (accounting pm)"

lemma updatePosition_value:
  assumes ok: "pm_ok pm" and P: "0 < mget (precisions pm) sy" and q: "is_i64 q"
    and run: "updatePosition i sy q p s ps pm = Some (pm', d, r)"
  shows "\<exists>a' cash entry. r = Some cash \<and>
    pm' = pm\<lparr>positions := mput (positions pm) (i, sy, ps) ((pos_at (i, sy, ps) pm)\<lparr>PosSize := acc_size a', PosEntry := entry\<rparr>),
             accounting := mput (accounting pm) (i, sy, ps) a'\<rparr> \<and>
    exact_value (mget (precisions pm) sy) a' + mget (precisions pm) sy * cash =
      exact_value (mget (precisions pm) sy) (acc_at (i, sy, ps) pm) - signed_qty s q * p \<and>
    OldSize d = PosSize (pos_at (i, sy, ps) pm) \<and> NewSize d = acc_size a' \<and> acc_ok (mget (precisions pm) sy) a'"
proof -
  let ?k = "(i, sy, ps)" and ?P = "mget (precisions pm) sy"
  have req: "requireExactAccounting pm" and mx: "?P \<le> MaxInt64" using ok by (auto simp: pm_ok_def)
  from run P req obtain a' cash entry where
    prep: "prepareExactTransition (Some (acc_at ?k pm)) (acc_size (acc_at ?k pm)) q p s ps ?P = Some (a', cash, entry)"
    and res: "r = Some cash" "pm' = pm\<lparr>positions := mput (positions pm) ?k ((pos_at ?k pm)\<lparr>PosSize := acc_size a', PosEntry := entry\<rparr>),
             accounting := mput (accounting pm) ?k a'\<rparr>" "OldSize d = PosSize (pos_at ?k pm)" "NewSize d = acc_size a'"
    by (auto simp: updatePosition_def Let_def prepare_at [OF ok] split: option.splits if_splits)
  have "acc_ok ?P (acc_at ?k pm)" using pm_ok_at [OF ok, of ?k] P by (simp add: exact_at_def precision_of_def)
  from prepare_step [OF this mx q prep] res show ?thesis by blast
qed

lemma exact_total_update:
  assumes ok: "pm_ok pm" and P: "0 < mget (precisions pm) sy" and q: "is_i64 q"
    and run: "updatePosition i sy q p s ps pm = Some (pm', d, r)"
  shows "pm_ok pm' \<and> precisions pm' = precisions pm \<and> (\<exists>cash. r = Some cash \<and>
    exact_total sy (mget (precisions pm) sy) pm' + mget (precisions pm) sy * cash =
      exact_total sy (mget (precisions pm) sy) pm - signed_qty s q * p)"
proof -
  have im: "is_map (accounting pm)" using ok by (simp add: pm_ok_def)
  have z: "exact_value P newPositionAccounting = 0" for P by (simp add: exact_value_new)
  have "pm_ok pm' \<and> precisions pm' = precisions pm" using updatePosition_exact [OF ok P q, of i p s ps] run by simp
  moreover from updatePosition_value [OF ok P q run] im
  have "\<exists>cash. r = Some cash \<and> exact_total sy (mget (precisions pm) sy) pm' + mget (precisions pm) sy * cash =
      exact_total sy (mget (precisions pm) sy) pm - signed_qty s q * p"
    by (auto simp: exact_total_def msum_mput acc_at_def z split: option.splits)
  ultimately show ?thesis by blast
qed

section \<open>Steps that move no cash\<close>

text \<open>Reservations, margins and orders may change; balances, accounts and the venue do not.\<close>

definition quiet_client :: "(Client \<Rightarrow> Client) \<Rightarrow> bool" where
  "quiet_client f \<longleftrightarrow> (\<forall>c. same_funds c (f c))"

lemma quiet_client_intros [simp]:
  "quiet_client (\<lambda>c. ReleasePerp c a x)" "quiet_client (\<lambda>c. ForceReservePerp c a x)"
  by (simp_all add: quiet_client_def same_funds_def ReleasePerp_def ForceReservePerp_def)

definition quiet :: "perp_state \<Rightarrow> perp_state \<Rightarrow> bool" where
  "quiet st st' \<longleftrightarrow>
     (\<forall>g. ledger_ok (ps_ledger st) \<longrightarrow> conserved_by g (ps_ledger st) \<longrightarrow>
        ledger_ok (ps_ledger st') \<and> conserved_by g (ps_ledger st') \<and> held (ps_ledger st') = held (ps_ledger st)) \<and>
     (\<forall>i. map_option PerpBalances (ps_client st' i) = map_option PerpBalances (ps_client st i)) \<and>
     Symbol (ss_book (ps_core st')) = Symbol (ss_book (ps_core st)) \<and>
     (pm_ok (ps_positions st) \<longrightarrow> pm_ok (ps_positions st')) \<and> accounting (ps_positions st') = accounting (ps_positions st) \<and>
     precisions (ps_positions st') = precisions (ps_positions st)"

lemma quiet_refl [simp]: "quiet st st"
  by (simp add: quiet_def)

lemma quiet_trans [trans]: "quiet a b \<Longrightarrow> quiet b c \<Longrightarrow> quiet a c"
  unfolding quiet_def by metis

lemma quiet_store_client:
  assumes c: "ps_client st i = Some c" and f: "same_funds c c'"
  shows "quiet st (st\<lparr>ps_core := store_client i c' (ps_core st)\<rparr>)"
proof -
  define st' where "st' = st\<lparr>ps_core := store_client i c' (ps_core st)\<rparr>"
  have l': "ps_ledger st' = set_client i c' (ps_ledger st)" by (simp add: st'_def store_client_def)
  have w: "worth a c' = worth a c" for a using f by (simp add: worth_def same_funds_def)
  have "ledger_ok (ps_ledger st') \<and> conserved_by g (ps_ledger st') \<and> held (ps_ledger st') = held (ps_ledger st)"
    if l: "ledger_ok (ps_ledger st)" and g: "conserved_by g (ps_ledger st)" for g
  proof -
    have "client_maps c" using l c by (simp add: ledger_ok_def)
    then have m: "client_maps c'" using f by (simp add: client_maps_def same_funds_def)
    have o: "old_worth (ps_ledger st) i a = worth a c" for a by (simp add: old_worth_def c)
    from set_client_step [OF l g m, of i] show ?thesis by (auto simp: l' o w)
  qed
  with c f have "quiet st st'"
    unfolding quiet_def by (auto simp: st'_def store_client_def set_client_def same_funds_def)
  then show ?thesis by (simp add: st'_def)
qed

lemma quiet_on_client: "quiet_client f \<Longrightarrow> on_client i f st = Some st' \<Longrightarrow> quiet st st'"
  using quiet_store_client by (auto simp: on_client_def quiet_client_def)

lemma store_order_same [simp]:
  "ss_ledger (store_order b order core) = ss_ledger core" "Symbol (ss_book (store_order b order core)) = Symbol (ss_book core)"
  by (simp_all add: store_order_def Let_def)

lemma quiet_store: "quiet st (st\<lparr>ps_core := store_order b order (ps_core st)\<rparr>)"
  by (simp add: quiet_def)

lemma AddPositionMargin_same [simp]:
  "accounting (AddPositionMargin i sy s x pm) = accounting pm" "precisions (AddPositionMargin i sy s x pm) = precisions pm"
  by (simp_all add: AddPositionMargin_def split: option.splits)

lemma ReleasePositionMargin_same:
  "ReleasePositionMargin i sy s q z pm = Some (pm', r) \<Longrightarrow> accounting pm' = accounting pm \<and> precisions pm' = precisions pm"
  by (auto simp: ReleasePositionMargin_def Let_def split: option.splits if_splits)

lemma quiet_positions:
  assumes "pm_ok (ps_positions st) \<Longrightarrow> pm_ok pm" "accounting pm = accounting (ps_positions st)"
    "precisions pm = precisions (ps_positions st)"
  shows "quiet st (st\<lparr>ps_positions := pm\<rparr>)"
  using assms by (simp add: quiet_def)

lemma quiet_ctx:
  "ctx_ReleasePerp i a x st = Some st' \<Longrightarrow> quiet st st'" "ctx_ReservePerp i a x st = Some st' \<Longrightarrow> quiet st st'"
  using quiet_on_client quiet_client_intros unfolding ctx_ReleasePerp_def ctx_ReservePerp_def by blast+

lemma quiet_releaseOrderMargin: "releaseOrderMargin env b ord i st = Some (ord', st') \<Longrightarrow> quiet st st'"
  using quiet_trans [OF quiet_ctx(1) quiet_store]
  by (auto simp: releaseOrderMargin_def Let_def split: option.splits if_splits)

lemma quiet_release_closed:
  assumes "release_closed env u d q st = Some st'"
  shows "quiet st st'"
proof (cases "q > 0 \<and> OldSize d \<noteq> 0")
  case True
  with assms obtain pm x where r: "ReleasePositionMargin (pu_clientID u) (pu_symbol u) (pu_posSide u) q (OldSize d) (ps_positions st) = Some (pm, x)"
    and st': "ctx_ReleasePerp (pu_clientID u) (pe_quote env) x (st\<lparr>ps_positions := pm\<rparr>) = Some st'"
    by (auto simp: release_closed_def split: option.splits)
  have "quiet st (st\<lparr>ps_positions := pm\<rparr>)"
    using ReleasePositionMargin_same [OF r] ReleasePositionMargin_ok [OF _ r] by (intro quiet_positions) auto
  from quiet_trans [OF this quiet_ctx(1) [OF st']] show ?thesis .
qed (use assms in \<open>auto simp: release_closed_def\<close>)

lemma quiet_reserve_opened:
  assumes "reserve_opened env u d q st = Some st'"
  shows "quiet st st'"
proof (cases "openedQty d q > 0")
  case True
  with assms obtain x z where r: "ctx_ReservePerp (pu_clientID u) (pe_quote env) x st = Some z"
    and st': "st' = z\<lparr>ps_positions := AddPositionMargin (pu_clientID u) (pu_symbol u) (pu_posSide u) x (ps_positions z)\<rparr>"
    by (auto simp: reserve_opened_def split: option.splits)
  have "quiet z st'" unfolding st' by (intro quiet_positions) (auto intro: AddPositionMargin_ok)
  with quiet_ctx(2) [OF r] show ?thesis by (rule quiet_trans)
qed (use assms in \<open>auto simp: reserve_opened_def\<close>)

lemma quiet_settlePositionMargin: "settlePositionMargin env u d q st = Some st' \<Longrightarrow> quiet st st'"
  using quiet_trans [OF quiet_release_closed quiet_reserve_opened] by (auto simp: settlePositionMargin_def bind_eq_Some_conv)

section \<open>The cash legs\<close>

text \<open>No balance of the party wraps around, and a fee names its asset.\<close>

definition cash_fits :: "asset \<Rightarrow> int64 \<Rightarrow> Fee \<Rightarrow> Client \<Rightarrow> bool" where
  "cash_fits quote pnl fee c \<longleftrightarrow> is_i64 pnl \<and> is_i64 (FeeAmount fee) \<and> FeeAmount fee \<noteq> MinInt64 \<and>
     (FeeAmount fee \<noteq> 0 \<longrightarrow> FeeAsset fee \<noteq> '''') \<and> is_i64 (PerpBalance c quote + pnl) \<and>
     is_i64 (PerpBalance c (FeeAsset fee) + (if FeeAsset fee = quote then pnl else 0) - FeeAmount fee)"

lemma side_balances_worth:
  assumes fit: "cash_fits quote pnl fee c" and m: "client_maps c"
  shows "client_maps (side_balances quote pnl fee c)"
    "worth a (side_balances quote pnl fee c) = worth a c + (if a = quote then pnl else 0) - (if a = FeeAsset fee then FeeAmount fee else 0)"
    "deltas_ok (side_deltas quote b pnl fee f)"
    "effect (side_deltas quote b pnl fee f) a = (if a = quote then pnl else 0) - (if a = FeeAsset fee then FeeAmount fee else 0)"
proof -
  have F: "is_i64 pnl" "is_i64 (FeeAmount fee)" "FeeAmount fee \<noteq> MinInt64" "is_i64 (mget (PerpBalances c) quote + pnl)"
    "is_i64 (mget (PerpBalances c) (FeeAsset fee) + (if FeeAsset fee = quote then pnl else 0) - FeeAmount fee)"
    using fit by (auto simp: cash_fits_def PerpBalance_def)
  have n: "i64 (- FeeAmount fee) = - FeeAmount fee" using F(2,3) by (intro i64_id) (auto simp: is_i64_def)
  show "client_maps (side_balances quote pnl fee c)"
    using m by (simp add: client_maps_def side_balances_def MutatePerpBalance_def values_ok_madd Let_def)
  show "worth a (side_balances quote pnl fee c) = worth a c + (if a = quote then pnl else 0) - (if a = FeeAsset fee then FeeAmount fee else 0)"
    using i64_id [OF F(4)] i64_id [OF F(5)]
    by (auto simp: worth_def side_balances_def MutatePerpBalance_def mget_madd n Let_def)
  show "deltas_ok (side_deltas quote b pnl fee f)"
    using F(1-3) n by (auto simp: deltas_ok_def side_deltas_def is_i64_def)
  show "effect (side_deltas quote b pnl fee f) a = (if a = quote then pnl else 0) - (if a = FeeAsset fee then FeeAmount fee else 0)"
    by (auto simp: side_deltas_def n)
qed

lemma settleSide_cash:
  assumes run: "settleSide env u d r fee st = Some (pnl, st')" and c: "ps_client st (pu_clientID u) = Some c"
    and fit: "cash_fits (pe_quote env) pnl fee c" and l: "ledger_ok (ps_ledger st)" "conserved (ps_ledger st)"
  shows "ledger_ok (ps_ledger st') \<and> conserved (ps_ledger st')"
    "held (ps_ledger st') a = held (ps_ledger st) a + (if a = pe_quote env then pnl else 0) - (if a = FeeAsset fee then FeeAmount fee else 0)"
    "ps_positions st' = ps_positions st" "ss_book (ps_core st') = ss_book (ps_core st)" "ss_taker (ps_core st') = ss_taker (ps_core st)"
    "\<And>i. i \<noteq> pu_clientID u \<Longrightarrow> ps_client st' i = ps_client st i" "\<And>x. r = Some x \<Longrightarrow> pnl = x"
    "\<exists>c'. ps_client st' (pu_clientID u) = Some c' \<and> PerpReserved c' = PerpReserved c"
proof -
  let ?i = "pu_clientID u" and ?q = "pe_quote env"
  define b where "b = PerpBalance c ?q"
  define f where "f = PerpBalance (MutatePerpBalance c ?q pnl) (FeeAsset fee)"
  have st': "st' = st\<lparr>ps_core := (ps_core st)\<lparr>ss_ledger :=
      logBalanceChange (side_deltas ?q b pnl fee f) (set_client ?i (side_balances ?q pnl fee c) (ps_ledger st))\<rparr>\<rparr>"
    and pnl: "\<And>x. r = Some x \<Longrightarrow> pnl = x"
    using run by (auto simp: settleSide_def c b_def f_def Let_def split: option.splits)
  have m: "client_maps c" using l(1) c by (simp add: ledger_ok_def)
  note S = side_balances_worth [OF fit m]
  have o: "old_worth (ps_ledger st) ?i a = worth a c" for a by (simp add: old_worth_def c)
  have L: "ps_ledger st' = logBalanceChange (side_deltas ?q b pnl fee f) (set_client ?i (side_balances ?q pnl fee c) (ps_ledger st))"
    by (simp add: st')
  show "ledger_ok (ps_ledger st') \<and> conserved (ps_ledger st')"
    unfolding L by (rule log_client_step [OF l S(3,1)]) (simp add: o S(2,4))
  have g: "conserved_by (\<lambda>_. 0) (ps_ledger st)" using l(2) by (simp add: conserved_iff)
  note sc = set_client_step [OF l(1) g S(1), of ?i]
  show "held (ps_ledger st') a = held (ps_ledger st) a + (if a = ?q then pnl else 0) - (if a = FeeAsset fee then FeeAmount fee else 0)"
    unfolding L log_step(2) [OF sc(1,3) S(3)] sc(2) by (simp add: o S(2))
  show "ps_positions st' = ps_positions st" "ss_book (ps_core st') = ss_book (ps_core st)" "ss_taker (ps_core st') = ss_taker (ps_core st)"
    by (simp_all add: st')
  show "\<And>i. i \<noteq> ?i \<Longrightarrow> ps_client st' i = ps_client st i" by (simp add: L logBalanceChange_def set_client_def)
  show "\<And>x. r = Some x \<Longrightarrow> pnl = x" by (rule pnl)
  show "\<exists>c'. ps_client st' ?i = Some c' \<and> PerpReserved c' = PerpReserved c"
    by (simp add: L logBalanceChange_def set_client_def side_balances_def MutatePerpBalance_def Let_def)
qed

section \<open>The venue's fees\<close>

lemma ctx_revenue:
  assumes run: "ctx_RecordFeeRevenue a x y st = Some st'" and a: "a \<noteq> ''''" and xy: "is_i64 x" "is_i64 y"
    and l: "ledger_ok (ps_ledger st)" "conserved (ps_ledger st)"
  shows "ledger_ok (ps_ledger st')" "conserved (ps_ledger st')" "Clients (ps_ledger st') = Clients (ps_ledger st)"
    "held (ps_ledger st') b = held (ps_ledger st) b + (if b = a then x + y else 0)"
    "ps_positions st' = ps_positions st" "ss_book (ps_core st') = ss_book (ps_core st)" "ss_taker (ps_core st') = ss_taker (ps_core st)"
proof -
  have g: "conserved_by (\<lambda>_. 0) (ps_ledger st)" using l(2) by (simp add: conserved_iff)
  let ?s = "Symbol (ss_book (ps_core st))"
  have "ledger_ok (ps_ledger st') \<and> conserved (ps_ledger st') \<and> Clients (ps_ledger st') = Clients (ps_ledger st) \<and>
    held (ps_ledger st') b = held (ps_ledger st) b + (if b = a then x + y else 0)"
  proof (cases "x = 0 \<and> y = 0")
    case True
    then have "ps_ledger st' = ps_ledger st" using run by (auto simp: ctx_RecordFeeRevenue_def recordFeeRevenue_def no_fee_def)
    then show ?thesis using l True by simp
  next
    case False
    with run obtain l1 where m1: "moveVenueBalance VenueFeeRevenue a x ?s (ps_ledger st) = Some l1"
      and m2: "moveVenueBalance VenueFeeRevenue a y ?s l1 = Some (ps_ledger st')"
      by (auto simp: ctx_RecordFeeRevenue_def recordFeeRevenue_def no_fee_def Let_def bind_eq_Some_conv)
    note s1 = moveVenueBalance_step [OF l(1) g xy(1) m1]
    note s2 = moveVenueBalance_step [OF conjunct1 [OF s1] conjunct1 [OF conjunct2 [OF s1]] xy(2) m2]
    from s1 s2 a show ?thesis by (simp add: conserved_iff)
  qed
  then show "ledger_ok (ps_ledger st')" "conserved (ps_ledger st')" "Clients (ps_ledger st') = Clients (ps_ledger st)"
    "held (ps_ledger st') b = held (ps_ledger st) b + (if b = a then x + y else 0)" by blast+
  show "ps_positions st' = ps_positions st" "ss_book (ps_core st') = ss_book (ps_core st)" "ss_taker (ps_core st') = ss_taker (ps_core st)"
    using run by (auto simp: ctx_RecordFeeRevenue_def)
qed

definition fee_named :: "Fee \<Rightarrow> bool" where
  "fee_named fee \<longleftrightarrow> is_i64 (FeeAmount fee) \<and> (FeeAmount fee \<noteq> 0 \<longrightarrow> FeeAsset fee \<noteq> '''')"

lemma cash_fits_named: "cash_fits quote pnl fee c \<Longrightarrow> fee_named fee"
  by (simp add: cash_fits_def fee_named_def)

lemma is_i64_0 [simp]: "is_i64 0"
  by (simp add: is_i64_def)

lemma recordSettlementFees_cash:
  assumes run: "recordSettlementFees quote tf mf st = Some st'" and q: "quote \<noteq> ''''" and f: "fee_named tf" "fee_named mf"
    and l: "ledger_ok (ps_ledger st)" "conserved (ps_ledger st)"
  shows "ledger_ok (ps_ledger st')" "conserved (ps_ledger st')" "Clients (ps_ledger st') = Clients (ps_ledger st)"
    "held (ps_ledger st') b = held (ps_ledger st) b + (if b = FeeAsset tf then FeeAmount tf else 0) + (if b = FeeAsset mf then FeeAmount mf else 0)"
    "ps_positions st' = ps_positions st" "ss_book (ps_core st') = ss_book (ps_core st)" "ss_taker (ps_core st') = ss_taker (ps_core st)"
proof -
  define ta where "ta = (if FeeAsset tf = '''' then quote else FeeAsset tf)"
  define ma where "ma = (if FeeAsset mf = '''' then quote else FeeAsset mf)"
  have ne: "ta \<noteq> ''''" "ma \<noteq> ''''" using q by (auto simp: ta_def ma_def)
  have i: "is_i64 (FeeAmount tf)" "is_i64 (FeeAmount mf)" using f by (auto simp: fee_named_def)
  have ta: "(if b = ta then FeeAmount tf else 0) = (if b = FeeAsset tf then FeeAmount tf else 0)" for b
    using f(1) by (auto simp: ta_def fee_named_def)
  have ma: "(if b = ma then FeeAmount mf else 0) = (if b = FeeAsset mf then FeeAmount mf else 0)" for b
    using f(2) by (auto simp: ma_def fee_named_def)
  have "ledger_ok (ps_ledger st') \<and> conserved (ps_ledger st') \<and> Clients (ps_ledger st') = Clients (ps_ledger st) \<and>
    (\<forall>b. held (ps_ledger st') b = held (ps_ledger st) b + (if b = ta then FeeAmount tf else 0) + (if b = ma then FeeAmount mf else 0)) \<and>
    ps_positions st' = ps_positions st \<and> ss_book (ps_core st') = ss_book (ps_core st) \<and> ss_taker (ps_core st') = ss_taker (ps_core st)"
  proof (cases "ta = ma")
    case True
    with run have "ctx_RecordFeeRevenue ta (FeeAmount tf) (FeeAmount mf) st = Some st'"
      by (simp add: recordSettlementFees_def Let_def ta_def ma_def)
    from ctx_revenue [OF this ne(1) i l] True show ?thesis by simp
  next
    case False
    with run obtain st1 where r: "ctx_RecordFeeRevenue ta (FeeAmount tf) 0 st = Some st1" "ctx_RecordFeeRevenue ma 0 (FeeAmount mf) st1 = Some st'"
      by (auto simp: recordSettlementFees_def Let_def ta_def ma_def bind_eq_Some_conv)
    note s1 = ctx_revenue [OF r(1) ne(1) i(1) is_i64_0 l]
    from ctx_revenue [OF r(2) ne(2) is_i64_0 i(2) s1(1,2)] s1 show ?thesis by simp
  qed
  then show "ledger_ok (ps_ledger st')" "conserved (ps_ledger st')" "Clients (ps_ledger st') = Clients (ps_ledger st)"
    "held (ps_ledger st') b = held (ps_ledger st) b + (if b = FeeAsset tf then FeeAmount tf else 0) + (if b = FeeAsset mf then FeeAmount mf else 0)"
    "ps_positions st' = ps_positions st" "ss_book (ps_core st') = ss_book (ps_core st)" "ss_taker (ps_core st') = ss_taker (ps_core st)"
    by (auto simp: ta ma)
qed

section \<open>The money of a fill\<close>

lemma quietD:
  assumes "quiet st st'"
  shows "ledger_ok (ps_ledger st) \<Longrightarrow> conserved (ps_ledger st) \<Longrightarrow>
      ledger_ok (ps_ledger st') \<and> conserved (ps_ledger st') \<and> held (ps_ledger st') = held (ps_ledger st)"
    "ps_client st i = Some c \<Longrightarrow> \<exists>c'. ps_client st' i = Some c' \<and> PerpBalances c' = PerpBalances c"
    "Symbol (ss_book (ps_core st')) = Symbol (ss_book (ps_core st))"
    "pm_ok (ps_positions st) \<Longrightarrow> pm_ok (ps_positions st')" "accounting (ps_positions st') = accounting (ps_positions st)"
    "precisions (ps_positions st') = precisions (ps_positions st)"
proof -
  note q = assms [unfolded quiet_def]
  show "ledger_ok (ps_ledger st) \<Longrightarrow> conserved (ps_ledger st) \<Longrightarrow>
      ledger_ok (ps_ledger st') \<and> conserved (ps_ledger st') \<and> held (ps_ledger st') = held (ps_ledger st)"
    using conjunct1 [OF q, rule_format, of "\<lambda>_. 0"] by (simp add: conserved_iff)
  have "map_option PerpBalances (ps_client st' i) = map_option PerpBalances (ps_client st i)" using q by blast
  then show "ps_client st i = Some c \<Longrightarrow> \<exists>c'. ps_client st' i = Some c' \<and> PerpBalances c' = PerpBalances c"
    by (cases "ps_client st' i") auto
qed (use assms in \<open>simp_all add: quiet_def\<close>)

lemma cash_fits_cong: "PerpBalances c' = PerpBalances c \<Longrightarrow> cash_fits q p f c' = cash_fits q p f c"
  by (simp add: cash_fits_def PerpBalance_def)

lemma settle_money_steps:
  assumes "settle_money env e tu mu tFee mFee td md tAcc mAcc mo st = Some (mo', tp, mp, st')"
  obtains st1 st2 st3 st4 st5 st6 ord1 where
    "releaseOrderMargin env False (Some (ss_taker (ps_core st))) (TakerClientID e) st = Some (ord1, st1)"
    "releaseOrderMargin env True mo (MakerClientID e) st1 = Some (mo', st2)"
    "settlePositionMargin env tu td (calcClosedQty (OldSize td) (ExecQty e) (pu_tradeSide tu)) st2 = Some st3"
    "settlePositionMargin env mu md (calcClosedQty (OldSize md) (ExecQty e) (pu_tradeSide mu)) st3 = Some st4"
    "settleSide env tu td tAcc tFee st4 = Some (tp, st5)" "settleSide env mu md mAcc mFee st5 = Some (mp, st6)"
    "recordSettlementFees (pe_quote env) tFee mFee st6 = Some st'"
  using assms by (auto simp: settle_money_def Let_def bind_eq_Some_conv)

lemma settle_money_cash:
  assumes run: "settle_money env e tu mu tFee mFee td md tAcc mAcc mo st = Some (mo', tp, mp, st')"
    and ids: "pu_clientID tu \<noteq> pu_clientID mu" and q: "pe_quote env \<noteq> ''''"
    and l: "ledger_ok (ps_ledger st)" "conserved (ps_ledger st)" and pm: "pm_ok (ps_positions st)"
    and t: "ps_client st (pu_clientID tu) = Some ct" "cash_fits (pe_quote env) tp tFee ct"
    and m: "ps_client st (pu_clientID mu) = Some cm" "cash_fits (pe_quote env) mp mFee cm"
  shows "ledger_ok (ps_ledger st') \<and> conserved (ps_ledger st') \<and> pm_ok (ps_positions st') \<and>
    accounting (ps_positions st') = accounting (ps_positions st) \<and> precisions (ps_positions st') = precisions (ps_positions st) \<and>
    (\<forall>a. held (ps_ledger st') a = held (ps_ledger st) a + (if a = pe_quote env then tp + mp else 0)) \<and>
    (\<forall>x. tAcc = Some x \<longrightarrow> tp = x) \<and> (\<forall>x. mAcc = Some x \<longrightarrow> mp = x)"
proof -
  obtain st1 st2 st3 st4 st5 st6 ord1 where S:
    "releaseOrderMargin env False (Some (ss_taker (ps_core st))) (TakerClientID e) st = Some (ord1, st1)"
    "releaseOrderMargin env True mo (MakerClientID e) st1 = Some (mo', st2)"
    "settlePositionMargin env tu td (calcClosedQty (OldSize td) (ExecQty e) (pu_tradeSide tu)) st2 = Some st3"
    "settlePositionMargin env mu md (calcClosedQty (OldSize md) (ExecQty e) (pu_tradeSide mu)) st3 = Some st4"
    "settleSide env tu td tAcc tFee st4 = Some (tp, st5)" "settleSide env mu md mAcc mFee st5 = Some (mp, st6)"
    "recordSettlementFees (pe_quote env) tFee mFee st6 = Some st'"
    by (rule settle_money_steps [OF run])
  have "quiet st st4"
    using quiet_releaseOrderMargin [OF S(1)] quiet_releaseOrderMargin [OF S(2)] quiet_settlePositionMargin [OF S(3)]
      quiet_settlePositionMargin [OF S(4)] by (blast intro: quiet_trans)
  note Q = quietD [OF this]
  obtain ct' where ct': "ps_client st4 (pu_clientID tu) = Some ct'" "PerpBalances ct' = PerpBalances ct" using Q(2) [OF t(1)] by blast
  obtain cm' where cm': "ps_client st4 (pu_clientID mu) = Some cm'" "PerpBalances cm' = PerpBalances cm" using Q(2) [OF m(1)] by blast
  have ft: "cash_fits (pe_quote env) tp tFee ct'" using t(2) cash_fits_cong [OF ct'(2)] by simp
  have fm: "cash_fits (pe_quote env) mp mFee cm'" using m(2) cash_fits_cong [OF cm'(2)] by simp
  have l4: "ledger_ok (ps_ledger st4)" "conserved (ps_ledger st4)" "held (ps_ledger st4) = held (ps_ledger st)" using Q(1) [OF l] by blast+
  note T = settleSide_cash [OF S(5) ct'(1) ft l4(1,2)]
  have cm5: "ps_client st5 (pu_clientID mu) = Some cm'" using T(6) [of "pu_clientID mu"] ids cm'(1) by simp
  note M = settleSide_cash [OF S(6) cm5 fm conjunct1 [OF T(1)] conjunct2 [OF T(1)]]
  note F = recordSettlementFees_cash [OF S(7) q cash_fits_named [OF t(2)] cash_fits_named [OF m(2)] conjunct1 [OF M(1)] conjunct2 [OF M(1)]]
  show ?thesis using F(1,2,4,5) M(2,3,7) T(2,3,7) l4(3) Q(4) [OF pm] Q(5,6) by simp
qed

section \<open>What follows the instrument's settlement\<close>

lemma drop_order_same [simp]:
  "ss_ledger (drop_order order core) = ss_ledger core" "Symbol (ss_book (drop_order order core)) = Symbol (ss_book core)"
  by (simp_all add: drop_order_def Let_def)

lemma quiet_core:
  "quiet st (st\<lparr>ps_core := core\<rparr>) \<Longrightarrow> ss_ledger core' = ss_ledger core \<Longrightarrow> Symbol (ss_book core') = Symbol (ss_book core) \<Longrightarrow>
   quiet st (st\<lparr>ps_core := core'\<rparr>)"
  by (simp add: quiet_def)

lemma store_client_order:
  "ss_ledger (store_client i c (store_order b order core)) = ss_ledger (store_client i c core)"
  "Symbol (ss_book (store_client i c (store_order b order core))) = Symbol (ss_book (store_client i c core))"
  by (simp_all add: store_client_def)

lemma quiet_cancelUnfunded:
  assumes c: "ps_client st i = Some c0" "same_funds c0 c"
    and x: "cancelUnfundedFeeRemainder m senv b i c order (ps_core st) = (o', core)"
  shows "quiet st (st\<lparr>ps_core := core\<rparr>)"
proof -
  obtain c1 o1 where r: "releaseReserved m (se_inst senv) c order = (c1, o1)" by fastforce
  have f: "same_funds c0 c1" using same_funds_trans [OF c(2) releaseReserved_funds] r by (metis fst_conv)
  note q = quiet_store_client [OF c(1) f] quiet_store_client [OF c(1) same_funds_trans [OF f RemoveOrder_funds]]
  note q' = q [THEN quiet_core, OF store_client_order]
  show ?thesis
    using x q'(1) quiet_core [OF q'(2) drop_order_same]
    by (auto simp: cancelUnfundedFeeRemainder_def r Let_def split: if_splits)
qed

lemma quiet_restoreFeeHeadroom:
  assumes "restoreFeeHeadroom env b ord st = Some (ord', st')"
  shows "quiet st st'"
proof (cases ord)
  case (Some order)
  show ?thesis
  proof (cases "ps_client st (ClientID order)")
    case (Some c)
    have f: "same_funds c (ForceReservePerp c a x)" for a x by (simp add: same_funds_def ForceReservePerp_def)
    have s: "quiet st (st\<lparr>ps_core := store_order b o1 (store_client (ClientID order) (ForceReservePerp c a x) (ps_core st))\<rparr>)" for a x o1
      by (rule quiet_core [OF quiet_store_client [OF Some f]]) simp_all
    have u: "quiet st (st\<lparr>ps_core := core\<rparr>)"
      if "cancelUnfundedFeeRemainder True (as_spot env) b (ClientID order) c order (ps_core st) = (o1, core)" for o1 core
      by (rule quiet_cancelUnfunded [OF Some _ that]) (simp add: same_funds_def)
    show ?thesis using assms \<open>ord = Some order\<close> Some s u
      by (auto simp: restoreFeeHeadroom_def Let_def split: if_splits fee_result.splits prod.splits)
  qed (use assms Some in \<open>auto simp: restoreFeeHeadroom_def Let_def split: if_splits\<close>)
qed (use assms in \<open>simp add: restoreFeeHeadroom_def\<close>)

lemma quiet_restore_foreign:
  assumes "restore_foreign env b ord st = Some st'"
  shows "quiet st st'"
proof -
  from assms obtain core where run: "restoreForeignFeeReservation True (as_spot env) b ord (ps_core st) = Some core"
    and st': "st' = st\<lparr>ps_core := core\<rparr>" by (auto simp: restore_foreign_def)
  show ?thesis
  proof (cases "core = ps_core st")
    case False
    with run obtain order c where ord: "ord = Some order" "Type order \<noteq> Market" "FeeReserved order \<noteq> []"
      and c: "ps_client st (ClientID order) = Some c"
      by (auto simp: restoreForeignFeeReservation_def split: option.splits if_splits)
    obtain c1 o1 where r: "releaseForeignFeeReservation True c order = (c1, o1)" by fastforce
    obtain c2 o2 res where x: "reserveForeignFeeFunds True None (pe_plan env (ClientID order)) (SpotInstrument.truncate (pe_inst env)) c1 o1
        (sp_basePrecision (SpotInstrument.truncate (pe_inst env))) = (c2, o2, res)" by (metis prod_cases3)
    have f1: "same_funds c c1" using releaseForeign_funds [of c True order] r by simp
    have f2: "same_funds c c2" using same_funds_trans [OF f1] reserveForeign_terms [OF x] by blast
    have s: "quiet st (st\<lparr>ps_core := store_client (ClientID order) c' (store_order b o' (ps_core st))\<rparr>)" if "same_funds c c'" for c' o'
      by (rule quiet_core [OF quiet_store_client [OF c that]]) (simp_all add: store_client_order)
    have u: "quiet st (st\<lparr>ps_core := snd (cancelUnfundedFeeRemainder True (as_spot env) b (ClientID order) c2 o2 (ps_core st))\<rparr>)"
      using quiet_cancelUnfunded [OF c f2] by (metis prod.collapse)
    show ?thesis
      using run s [OF f1] s [OF f2] u ord c
      by (auto simp: st' restoreForeignFeeReservation_def r x as_spot_def Let_def split: if_splits fee_result.splits)
  qed (simp add: st')
qed

section \<open>Properties\<close>

text \<open>The two position updates of a fill.\<close>

lemma updatePositionWithAccounting_Some:
  "updatePositionWithAccounting b u pm = Some x \<Longrightarrow>
   updatePosition (pu_clientID u) (pu_symbol u) (pu_qty u) (pu_price u) (pu_tradeSide u) (pu_posSide u) pm = Some x"
  by (auto simp: updatePositionWithAccounting_def split: option.splits prod.splits if_splits)

lemma Settle_steps:
  assumes "Settle env e ps tFee mFee mo st = Some (r, mo', st')"
  obtains tu mu pm1 pm2 td md tAcc mAcc where
    "tu = taker_update (Symbol (ss_book (ps_core st))) e (ss_taker (ps_core st))" "mu = maker_update (Symbol (ss_book (ps_core st))) e ps"
    "updatePosition (TakerClientID e) (Symbol (ss_book (ps_core st))) (ExecQty e) (ExecPrice e) (Side (ss_taker (ps_core st)))
       (PositionSide (ss_taker (ps_core st))) (ps_positions st) = Some (pm1, td, tAcc)"
    "updatePosition (MakerClientID e) (Symbol (ss_book (ps_core st))) (ExecQty e) (ExecPrice e) (MakerSide e) ps pm1 = Some (pm2, md, mAcc)"
    "settle_money env e tu mu tFee mFee td md tAcc mAcc mo (st\<lparr>ps_positions := pm2\<rparr>) = Some (mo', sr_TakerPnL r, sr_MakerPnL r, st')"
    "sr_TakerDelta r = td" "sr_MakerDelta r = md"
proof -
  let ?tu = "taker_update (Symbol (ss_book (ps_core st))) e (ss_taker (ps_core st))" and ?mu = "maker_update (Symbol (ss_book (ps_core st))) e ps"
  from assms obtain pm1 td tAcc pm2 md mAcc where
    u: "updatePositionWithAccounting (pe_requireExact env) ?tu (ps_positions st) = Some (pm1, td, tAcc)"
      "updatePositionWithAccounting (pe_requireExact env) ?mu pm1 = Some (pm2, md, mAcc)"
    and m: "settle_money env e ?tu ?mu tFee mFee td md tAcc mAcc mo (st\<lparr>ps_positions := pm2\<rparr>) = Some (mo', sr_TakerPnL r, sr_MakerPnL r, st')"
      "sr_TakerDelta r = td" "sr_MakerDelta r = md"
    by (auto simp: Settle_def Let_def bind_eq_Some_conv split: if_splits)
  show thesis
    using that [OF refl refl _ _ m] u [THEN updatePositionWithAccounting_Some] by (simp add: taker_update_def maker_update_def)
qed

lemma Settle_conserves:
  assumes run: "Settle env e ps tFee mFee mo st = Some (r, mo', st')"
    and l: "ledger_ok (ps_ledger st)" "conserved (ps_ledger st)" and pm: "pm_ok (ps_positions st)"
    and P: "P = mget (precisions (ps_positions st)) (Symbol (ss_book (ps_core st)))" "0 < P"
    and e: "is_i64 (ExecQty e)" "0 < ExecQty e" "TakerClientID e \<noteq> MakerClientID e"
      "MakerSide e = oppositeSide (Side (ss_taker (ps_core st)))" and q: "pe_quote env \<noteq> ''''"
    and t: "ps_client st (TakerClientID e) = Some ct" "cash_fits (pe_quote env) (sr_TakerPnL r) tFee ct"
    and m: "ps_client st (MakerClientID e) = Some cm" "cash_fits (pe_quote env) (sr_MakerPnL r) mFee cm"
  shows "ledger_ok (ps_ledger st') \<and> conserved (ps_ledger st') \<and> pm_ok (ps_positions st') \<and>
    (\<forall>a. a \<noteq> pe_quote env \<longrightarrow> held (ps_ledger st') a = held (ps_ledger st) a) \<and>
    P * held (ps_ledger st') (pe_quote env) + exact_total (Symbol (ss_book (ps_core st))) P (ps_positions st') =
    P * held (ps_ledger st) (pe_quote env) + exact_total (Symbol (ss_book (ps_core st))) P (ps_positions st)"
proof -
  let ?sy = "Symbol (ss_book (ps_core st))" and ?s = "Side (ss_taker (ps_core st))"
  obtain tu mu pm1 pm2 td md tAcc mAcc where
    u: "tu = taker_update ?sy e (ss_taker (ps_core st))" "mu = maker_update ?sy e ps"
    and up1: "updatePosition (TakerClientID e) ?sy (ExecQty e) (ExecPrice e) ?s (PositionSide (ss_taker (ps_core st))) (ps_positions st) = Some (pm1, td, tAcc)"
    and up2: "updatePosition (MakerClientID e) ?sy (ExecQty e) (ExecPrice e) (MakerSide e) ps pm1 = Some (pm2, md, mAcc)"
    and money: "settle_money env e tu mu tFee mFee td md tAcc mAcc mo (st\<lparr>ps_positions := pm2\<rparr>) = Some (mo', sr_TakerPnL r, sr_MakerPnL r, st')"
    by (rule Settle_steps [OF run])
  have P0: "0 < mget (precisions (ps_positions st)) ?sy" using P by simp
  note U1 = exact_total_update [OF pm P0 e(1) up1, folded P(1)]
  have P1: "P = mget (precisions pm1) ?sy" "0 < mget (precisions pm1) ?sy" using U1 P by auto
  note U2 = exact_total_update [OF conjunct1 [OF U1] P1(2) e(1) up2, folded P1(1)]
  have ids: "pu_clientID tu = TakerClientID e" "pu_clientID mu = MakerClientID e"
    by (simp_all add: u taker_update_def maker_update_def)
  note M = settle_money_cash [OF money _ q, unfolded ids, OF e(3), simplified, OF l conjunct1 [OF U2] t m]
  have opp: "signed_qty (MakerSide e) (ExecQty e) = - signed_qty ?s (ExecQty e)"
    using i64_id [of "- ExecQty e"] e by (cases ?s) (auto simp: signed_qty_def oppositeSide_def is_i64_def)
  have ex: "exact_total ?sy P (ps_positions st') = exact_total ?sy P pm2" using M by (simp add: exact_total_def)
  have cash: "tAcc = Some (sr_TakerPnL r)" "mAcc = Some (sr_MakerPnL r)" using M U1 U2 by auto
  show ?thesis using M U1 U2 opp ex cash by (simp add: algebra_simps)
qed

lemma handleExecution_perp_steps:
  assumes "handleExecution_perp env pl e st = Some (out, st')"
  obtains r mo ps st1 st2 where
    "Settle env e ps (fs_fee (out_taker out)) (fs_fee (out_maker out)) (FindOrder (ss_book (ps_core st)) (MakerOrderID e)) st = Some (r, mo, st1)"
    "quiet st1 st2" "ps_positions st' = ps_positions st2" "ps_ledger st' = ps_ledger st2"
    "fs_realizedPnL (out_taker out) = sr_TakerPnL r" "fs_realizedPnL (out_maker out) = sr_MakerPnL r"
proof -
  let ?t = "normalizedExecutionFee (takerFee pl) (pe_quote env)" and ?m = "normalizedExecutionFee (makerFee pl) (pe_quote env)"
  let ?mo = "FindOrder (ss_book (ps_core st)) (MakerOrderID e)"
  let ?ps = "case ?mo of None \<Rightarrow> MakerPosSide e | Some m \<Rightarrow> PositionSide m"
  from assms obtain r st5 where run: "settleExecution_perp env e ?ps ?t ?m st = Some (r, st5)"
    and res: "ps_positions st' = ps_positions st5" "ps_ledger st' = ps_ledger st5"
      "fs_realizedPnL (out_taker out) = sr_TakerPnL r" "fs_realizedPnL (out_maker out) = sr_MakerPnL r"
    and fees: "fs_fee (out_taker out) = ?t" "fs_fee (out_maker out) = ?m"
    by (auto simp: handleExecution_perp_def perp_outcome_def spot_outcome_def Let_def split: if_splits)
  from run obtain mo st1 ot st2 mo' st3 st4 where S: "Settle env e ?ps ?t ?m ?mo st = Some (r, mo, st1)"
    "restoreFeeHeadroom env False (Some (ss_taker (ps_core st1))) st1 = Some (ot, st2)" "restoreFeeHeadroom env True mo st2 = Some (mo', st3)"
    "restore_foreign env False (Some (ss_taker (ps_core st3))) st3 = Some st4" "restore_foreign env True mo' st4 = Some st5"
    by (auto simp: settleExecution_perp_def bind_eq_Some_conv)
  have "quiet st1 st5"
    using quiet_restoreFeeHeadroom [OF S(2)] quiet_restoreFeeHeadroom [OF S(3)] quiet_restore_foreign [OF S(4)] quiet_restore_foreign [OF S(5)]
    by (blast intro: quiet_trans)
  from that [OF S(1) [folded fees] this res] show thesis .
qed

lemma handle_conserves:
  assumes "handleExecution_perp env pl e st = Some (out, st')"
    and "ledger_ok (ps_ledger st)" "conserved (ps_ledger st)" and "pm_ok (ps_positions st)"
    and "P = mget (precisions (ps_positions st)) (Symbol (ss_book (ps_core st)))" "0 < P"
    and "is_i64 (ExecQty e)" "0 < ExecQty e" "TakerClientID e \<noteq> MakerClientID e"
      "MakerSide e = oppositeSide (Side (ss_taker (ps_core st)))" and "pe_quote env \<noteq> ''''"
    and "ps_client st (TakerClientID e) = Some ct" "cash_fits (pe_quote env) (fs_realizedPnL (out_taker out)) (fs_fee (out_taker out)) ct"
    and "ps_client st (MakerClientID e) = Some cm" "cash_fits (pe_quote env) (fs_realizedPnL (out_maker out)) (fs_fee (out_maker out)) cm"
  shows "ledger_ok (ps_ledger st') \<and> conserved (ps_ledger st') \<and> pm_ok (ps_positions st') \<and>
    (\<forall>a. a \<noteq> pe_quote env \<longrightarrow> held (ps_ledger st') a = held (ps_ledger st) a) \<and>
    P * held (ps_ledger st') (pe_quote env) + exact_total (Symbol (ss_book (ps_core st))) P (ps_positions st') =
    P * held (ps_ledger st) (pe_quote env) + exact_total (Symbol (ss_book (ps_core st))) P (ps_positions st)"
proof -
  obtain r mo ps st1 st2 where S:
    "Settle env e ps (fs_fee (out_taker out)) (fs_fee (out_maker out)) (FindOrder (ss_book (ps_core st)) (MakerOrderID e)) st = Some (r, mo, st1)"
    and q: "quiet st1 st2" and same: "ps_positions st' = ps_positions st2" "ps_ledger st' = ps_ledger st2"
    and pnl: "fs_realizedPnL (out_taker out) = sr_TakerPnL r" "fs_realizedPnL (out_maker out) = sr_MakerPnL r"
    by (rule handleExecution_perp_steps [OF assms(1)])
  note C = Settle_conserves [OF S assms(2-12) assms(13) [unfolded pnl] assms(14) assms(15) [unfolded pnl]]
  note Q = quietD [OF q]
  have L: "ledger_ok (ps_ledger st2) \<and> conserved (ps_ledger st2) \<and> held (ps_ledger st2) = held (ps_ledger st1)"
    using Q(1) C by blast
  have "exact_total sy P (ps_positions st2) = exact_total sy P (ps_positions st1)" for sy by (simp add: exact_total_def Q(5))
  then show ?thesis using C L Q(4) by (simp add: same)
qed

text \<open>C10: a margined fill creates and destroys nothing. When an execution of a perpetual or dated future
  settles between two parties whose balances do not overflow, every other asset's total over all
  accounts and the venue is unchanged, and in the quote asset the total of all cash plus the exact
  value of all open contracts (what they have realized and not yet paid out, less their cost) is
  unchanged to the last lattice unit: profits are paid only out of contracts, fees go to the venue,
  and rounding is carried, never lost. The audit stays silent and the positions stay exact.\<close>

theorem perp_fill_zero_sum:
  assumes "handleExecution_perp env pl e st = Some (out, st')"
    and "ledger_ok (ps_ledger st)" "conserved (ps_ledger st)" and "pm_ok (ps_positions st)"
    and "P = mget (precisions (ps_positions st)) (Symbol (ss_book (ps_core st)))" "0 < P"
    and "is_i64 (ExecQty e)" "0 < ExecQty e" "TakerClientID e \<noteq> MakerClientID e"
      "MakerSide e = oppositeSide (Side (ss_taker (ps_core st)))" and "pe_quote env \<noteq> ''''"
    and "ps_client st (TakerClientID e) = Some ct" "cash_fits (pe_quote env) (fs_realizedPnL (out_taker out)) (fs_fee (out_taker out)) ct"
    and "ps_client st (MakerClientID e) = Some cm" "cash_fits (pe_quote env) (fs_realizedPnL (out_maker out)) (fs_fee (out_maker out)) cm"
  shows "ledger_ok (ps_ledger st') \<and> VerifyConservation (ps_ledger st') = [] \<and> pm_ok (ps_positions st') \<and>
    (\<forall>a. a \<noteq> pe_quote env \<longrightarrow> held (ps_ledger st') a = held (ps_ledger st) a) \<and>
    P * held (ps_ledger st') (pe_quote env) + exact_total (Symbol (ss_book (ps_core st))) P (ps_positions st') =
    P * held (ps_ledger st) (pe_quote env) + exact_total (Symbol (ss_book (ps_core st))) P (ps_positions st)"
  using handle_conserves [OF assms] conserved_verifies by blast

definition perp_sample_env :: perp_env where
  "perp_sample_env = \<lparr>pe_inst = NewPerpFutures ''P'' ''BTC'' ''USD'' 10 1 1 1,
     pe_plan = (\<lambda>i. Some (Fixed \<lparr>ff_MakerFee = no_fee, ff_TakerFee = \<lparr>FeeAsset = ''USD'', FeeAmount = 2\<rparr>\<rparr>)), pe_requireExact = True\<rparr>"

definition perp_sample_exec :: Execution where
  "perp_sample_exec = \<lparr>TakerOrderID = 20, MakerOrderID = 21, TakerClientID = 7, MakerClientID = 8, ExecPrice = 3000, ExecQty = 3,
     ExecTimestamp = 0, TakerFilledQty = 3, MakerFilledQty = 3, MakerTotalQty = 5, MakerSide = Buy, MakerPosSide = PositionBoth\<rparr>"

definition perp_sample_order :: "uint64 \<Rightarrow> uint64 \<Rightarrow> Side \<Rightarrow> Order" where
  "perp_sample_order i c s = (sample_order i c s 3000 5)\<lparr>FilledQty := 3, Reserved := 152\<rparr>"

definition perp_sample_state :: perp_state where
  "perp_sample_state =
     \<lparr>ps_core = \<lparr>ss_ledger = \<lparr>Clients = [(7, (NewClient 7)\<lparr>PerpBalances := [(''USD'', 500)], PerpReserved := [(''USD'', 200)]\<rparr>),
          (8, (NewClient 8)\<lparr>PerpBalances := [(''USD'', 300)], PerpReserved := [(''USD'', 200)]\<rparr>)],
          ExBal = \<lparr>FeeRevenue = [], InsuranceFund = [], FundingRoundingReserves = []\<rparr>, venueBalanceSequence = 0,
          conservation = \<lparr>recorded = [(''USD'', 800)], unrepresentable = []\<rparr>\<rparr>,
        ss_book = \<lparr>Symbol = ''P'', Bids = (NewBook Buy)\<lparr>Orders := [21 \<mapsto> perp_sample_order 21 8 Buy]\<rparr>, Asks = NewBook Sell,
          LastTrade = None, SeqNum = 4\<rparr>,
        ss_taker = perp_sample_order 20 7 Sell\<rparr>,
      ps_positions = traded_store\<rparr>"

definition perp_sample_fill :: plannedSpotExecution where
  "perp_sample_fill = \<lparr>fingerprint = newExecutionFingerprint perp_sample_exec, takerFee = \<lparr>FeeAsset = ''USD'', FeeAmount = 2\<rparr>, makerFee = no_fee\<rparr>"

definition sample_side :: "fillSide \<Rightarrow> int64 \<times> Fee \<times> int64 \<times> int64" where
  "sample_side f = (fs_realizedPnL f, fs_fee f, OldSize (fs_delta f), NewSize (fs_delta f))"

lemma perp_sample_run:
  "map_option (\<lambda>(out, st'). (sample_side (out_taker out), sample_side (out_maker out),
       map (\<lambda>(i, c). (i, PerpBalances c, PerpReserved c)) (Clients (ps_ledger st'))))
     (handleExecution_perp perp_sample_env perp_sample_fill perp_sample_exec perp_sample_state) =
   Some ((298, \<lparr>FeeAsset = ''USD'', FeeAmount = 2\<rparr>, 1, - 2), (0, no_fee, 0, 3),
     [(7, [(''USD'', 796)], [(''USD'', 170)]), (8, [(''USD'', 300)], [(''USD'', 200)])])"
  by code_simp

lemma perp_sample_ledger_ok: "ledger_ok (ps_ledger perp_sample_state)" "conserved (ps_ledger perp_sample_state)"
  by (auto simp: ledger_ok_def conserved_def perp_sample_state_def NewClient_def is_map_def client_maps_def values_ok_def
      debts_ok_def tracker_ok_def held_def msum_def worth_def mget_def is_i64_def)

theorem perp_fill_zero_sum_witness:
  "\<exists>out st'. handleExecution_perp perp_sample_env perp_sample_fill perp_sample_exec perp_sample_state = Some (out, st') \<and>
     fs_realizedPnL (out_taker out) = 298 \<and> VerifyConservation (ps_ledger st') = [] \<and>
     10 * held (ps_ledger st') ''USD'' + exact_total ''P'' 10 (ps_positions st') =
       10 * held (ps_ledger perp_sample_state) ''USD'' + exact_total ''P'' 10 traded_store"
proof -
  obtain out st' where run: "handleExecution_perp perp_sample_env perp_sample_fill perp_sample_exec perp_sample_state = Some (out, st')"
    and t: "fs_realizedPnL (out_taker out) = 298" "fs_fee (out_taker out) = \<lparr>FeeAsset = ''USD'', FeeAmount = 2\<rparr>"
    and m: "fs_realizedPnL (out_maker out) = 0" "fs_fee (out_maker out) = no_fee"
    using perp_sample_run by (auto simp: sample_side_def)
  have pm: "pm_ok (ps_positions perp_sample_state)" using reachable_pm_ok [OF traded_reachable] by (simp add: perp_sample_state_def)
  have pr: "mget (precisions traded_store) ''P'' = 10" by code_simp
  note D = perp_sample_state_def perp_sample_env_def perp_sample_exec_def perp_sample_order_def sample_order_def NewPerpFutures_def
  have "VerifyConservation (ps_ledger st') = [] \<and> 10 * held (ps_ledger st') (pe_quote perp_sample_env) +
      exact_total (Symbol (ss_book (ps_core perp_sample_state))) 10 (ps_positions st') = 10 * held (ps_ledger perp_sample_state) (pe_quote perp_sample_env) +
      exact_total (Symbol (ss_book (ps_core perp_sample_state))) 10 (ps_positions perp_sample_state)"
    using perp_fill_zero_sum [OF run perp_sample_ledger_ok pm, of 10
        "(NewClient 7)\<lparr>PerpBalances := [(''USD'', 500)], PerpReserved := [(''USD'', 200)]\<rparr>"
        "(NewClient 8)\<lparr>PerpBalances := [(''USD'', 300)], PerpReserved := [(''USD'', 200)]\<rparr>"] pr
    by (simp add: D t m cash_fits_def no_fee_def PerpBalance_def mget_def is_i64_def oppositeSide_def)
  with run t show ?thesis by (auto simp: D)
qed

end
