(* ===== verification/Funding_Safety.thy ===== *)
theory Funding_Safety
  imports Funding Perp_Safety
begin

text \<open>Properties of perpetual funding on a ledger that trades. The settlement and its schedule are those of \<open>Funding\<close>; what they
  are run on is any ledger and position store with the invariants that deposits, borrowing, spot and
  margined fills, liquidations and expiries keep (\<open>ledger_ok\<close>, \<open>conserved\<close>, \<open>pm_ok\<close>), with
  reservations and open positions in it.\<close>

section \<open>One settlement\<close>

text \<open>C26: funding is exact, zero-sum and all-or-nothing. A settlement never panics. When it does not go through, for want of a mark or
  because some value is not representable, neither a balance nor the schedule has changed; with a mark and room for the sums it does go
  through. Then every account has paid exactly the funding of its own positions, twice truncated as the code does it, out of its derivative
  balance in the quote asset and of nothing else; the venue's fee revenue has received exactly the sum; no other balance has moved; what
  is held of each asset is what it was, the audit is silent, and the next funding is one interval after the settlement.\<close>

theorem settleFunding_zero_sum:
  assumes "ledger_ok l" "conserved l" "pm_ok pm" "perp_ok perp" "is_i64 ts"
  shows "\<exists>out perp' l'. settleFunding pm perp ts l = Some (out, perp', l') \<and>
    (out \<noteq> FundingSettled \<longrightarrow> perp' = perp \<and> l' = l) \<and>
    (out = NoBookPrice \<longleftrightarrow> \<not> MarkAvailable (PerpFunding perp)) \<and>
    (MarkAvailable (PerpFunding perp) \<and> funding_fits pm perp ts l \<longrightarrow> out = FundingSettled) \<and>
    (out = FundingSettled \<longrightarrow>
       (\<forall>i. map_of (Clients l) i = None \<longrightarrow> map_of (Clients l') i = None) \<and>
       (\<forall>i c. map_of (Clients l) i = Some c \<longrightarrow> (\<exists>c'. map_of (Clients l') i = Some c' \<and> c'\<lparr>PerpBalances := PerpBalances c\<rparr> = c \<and>
          (\<forall>a. PerpBalance c' a = PerpBalance c a - (if a = QuoteAsset perp
             then \<Sum>(j, pos)\<leftarrow>PositionsForFunding (PerpSymbol perp) pm. if j = i then funding_of (PerpFunding perp) (BasePrecision perp) pos else 0
             else 0)))) \<and>
       (\<forall>a. mget (FeeRevenue (ExBal l')) a = mget (FeeRevenue (ExBal l)) a + (if a = QuoteAsset perp
          then \<Sum>(j, pos)\<leftarrow>PositionsForFunding (PerpSymbol perp) pm. if map_of (Clients l) j = None then 0 else funding_of (PerpFunding perp) (BasePrecision perp) pos
          else 0)) \<and>
       InsuranceFund (ExBal l') = InsuranceFund (ExBal l) \<and> ledger_ok l' \<and> (\<forall>a. held l' a = held l a) \<and> VerifyConservation l' = [] \<and>
       perp' = perp\<lparr>PerpFunding := (PerpFunding perp)\<lparr>NextFunding := ts + Interval (PerpFunding perp) * 1000000000\<rparr>\<rparr>)"
  using assms(1,2,4) position_sizes [OF assms(3)]
proof (cases rule: settleFunding_run [where ts = ts])
  case (failed out)
  then show ?thesis by auto
next
  case (settled nf l')
  have "nf = ts + Interval (PerpFunding perp) * 1000000000"
    using nextFunding_later [OF settled(2) assms(5)] assms(4) by (simp add: perp_ok_def)
  with settled conserved_verifies [OF settled(4,5)] show ?thesis
    unfolding funding_paid_def Let_def owed_def collected_def by simp
qed

definition funded_perp :: Perp where
  "funded_perp = \<lparr>PerpSymbol = ''P'', BasePrecision = 10, QuoteAsset = ''USD'',
     PerpFunding = \<lparr>FRate = 25, NextFunding = 100, Interval = 8, MarkPrice = 30007, MarkAvailable = True\<rparr>\<rparr>"

text \<open>Funding after a fill: client 7 has just sold three contracts to client 8, with orders and margin reserved on both sides.\<close>

lemma filled_funding_run:
  "map_option (\<lambda>(out, st'). map_option (\<lambda>(o1, p, l'). (o1, map (\<lambda>(i, c). (i, PerpBalances c, PerpReserved c)) (Clients l')))
       (settleFunding (ps_positions st') funded_perp 200 (ps_ledger st')))
     (handleExecution_perp perp_sample_env perp_sample_fill perp_sample_exec perp_sample_state) =
   Some (Some (FundingSettled, [(7, [(''USD'', 811)], [(''USD'', 170)]), (8, [(''USD'', 278)], [(''USD'', 200)])]))"
  by code_simp

lemma funded_perp_ok: "perp_ok funded_perp"
  by (simp add: perp_ok_def funded_perp_def is_i64_def)

lemma perp_sample_after:
  obtains out st' where "handleExecution_perp perp_sample_env perp_sample_fill perp_sample_exec perp_sample_state = Some (out, st')"
    "ledger_ok (ps_ledger st')" "conserved (ps_ledger st')" "pm_ok (ps_positions st')"
proof -
  obtain out st' where run: "handleExecution_perp perp_sample_env perp_sample_fill perp_sample_exec perp_sample_state = Some (out, st')"
    and t: "fs_realizedPnL (out_taker out) = 298" "fs_fee (out_taker out) = \<lparr>FeeAsset = ''USD'', FeeAmount = 2\<rparr>"
    and m: "fs_realizedPnL (out_maker out) = 0" "fs_fee (out_maker out) = no_fee"
    using perp_sample_run by (auto simp: sample_side_def)
  have pm: "pm_ok (ps_positions perp_sample_state)" using reachable_pm_ok [OF traded_reachable] by (simp add: perp_sample_state_def)
  have pr: "mget (precisions traded_store) ''P'' = 10" by code_simp
  note D = perp_sample_state_def perp_sample_env_def perp_sample_exec_def perp_sample_order_def sample_order_def NewPerpFutures_def
  have "ledger_ok (ps_ledger st') \<and> conserved (ps_ledger st') \<and> pm_ok (ps_positions st')"
    using handle_conserves [OF run perp_sample_ledger_ok pm, of 10
        "(NewClient 7)\<lparr>PerpBalances := [(''USD'', 500)], PerpReserved := [(''USD'', 200)]\<rparr>"
        "(NewClient 8)\<lparr>PerpBalances := [(''USD'', 300)], PerpReserved := [(''USD'', 200)]\<rparr>"] pr
    by (simp add: D t m cash_fits_def no_fee_def PerpBalance_def mget_def is_i64_def oppositeSide_def)
  with run that show thesis by blast
qed

theorem settleFunding_zero_sum_witness:
  "\<exists>out st' perp' l'. handleExecution_perp perp_sample_env perp_sample_fill perp_sample_exec perp_sample_state = Some (out, st') \<and>
     settleFunding (ps_positions st') funded_perp 200 (ps_ledger st') = Some (FundingSettled, perp', l') \<and>
     held l' ''USD'' = held (ps_ledger st') ''USD'' \<and> VerifyConservation l' = [] \<and> NextFunding (PerpFunding perp') = 8000000200 \<and>
     map (\<lambda>(i, c). (i, PerpBalances c)) (Clients l') = [(7, [(''USD'', 811)]), (8, [(''USD'', 278)])]"
proof -
  obtain out st' where f: "handleExecution_perp perp_sample_env perp_sample_fill perp_sample_exec perp_sample_state = Some (out, st')"
    "ledger_ok (ps_ledger st')" "conserved (ps_ledger st')" "pm_ok (ps_positions st')" by (rule perp_sample_after)
  have i: "is_i64 200" by (simp add: is_i64_def)
  obtain perp' l' where s: "settleFunding (ps_positions st') funded_perp 200 (ps_ledger st') = Some (FundingSettled, perp', l')"
    and c: "map (\<lambda>(i, c). (i, PerpBalances c, PerpReserved c)) (Clients l') =
      [(7, [(''USD'', 811)], [(''USD'', 170)]), (8, [(''USD'', 278)], [(''USD'', 200)])]"
    using filled_funding_run f(1) by auto
  have "(\<forall>a. held l' a = held (ps_ledger st') a) \<and> VerifyConservation l' = [] \<and>
      perp' = funded_perp\<lparr>PerpFunding := (PerpFunding funded_perp)\<lparr>NextFunding := 200 + Interval (PerpFunding funded_perp) * 1000000000\<rparr>\<rparr>"
    using settleFunding_zero_sum [OF f(2-4) funded_perp_ok i] unfolding s by simp
  moreover have "map (\<lambda>(i, c). (i, PerpBalances c)) (Clients l') = [(7, [(''USD'', 811)]), (8, [(''USD'', 278)])]"
    using c by (auto simp: map_eq_Cons_conv)
  ultimately show ?thesis using f(1) s by (auto simp: funded_perp_def)
qed

section \<open>The schedule over time\<close>

text \<open>A perpetual over time, with the log of what its schedule has seen, latest first. Between two ticks of the sweep anything may
  happen to the accounts and positions that keeps their invariants, new rates and marks are published, and an operator may settle by hand.\<close>

datatype funding_mark = Anchored | Swept | Manual

definition tick_marks :: "timestamp \<Rightarrow> timestamp \<Rightarrow> Perp \<Rightarrow> funding_outcome option \<Rightarrow> Perp \<Rightarrow> (timestamp \<times> funding_mark) list" where
  "tick_marks now settleAt perp out perp' =
     (case out of
        None \<Rightarrow> if NextFunding (PerpFunding perp') \<noteq> NextFunding (PerpFunding perp) then [(now, Anchored)] else []
      | Some FundingSettled \<Rightarrow> [(settleAt, Swept)]
      | Some _ \<Rightarrow> [])"

inductive funding_run :: "int64 \<Rightarrow> PositionManager \<Rightarrow> Perp \<Rightarrow> Ledger \<Rightarrow> (timestamp \<times> funding_mark) list \<Rightarrow> bool" for interval where
  start: "pm_ok pm \<Longrightarrow> ledger_ok l \<Longrightarrow> conserved l \<Longrightarrow> perp_ok perp \<Longrightarrow> Interval (PerpFunding perp) = interval \<Longrightarrow>
    NextFunding (PerpFunding perp) = 0 \<Longrightarrow> funding_run interval pm perp l []"
| activity: "funding_run interval pm perp l log \<Longrightarrow> pm_ok pm' \<Longrightarrow> ledger_ok l' \<Longrightarrow> conserved l' \<Longrightarrow> funding_run interval pm' perp l' log"
| publish: "funding_run interval pm perp l log \<Longrightarrow> is_i64 rate \<Longrightarrow> is_i64 mark \<Longrightarrow>
    funding_run interval pm (perp\<lparr>PerpFunding := (PerpFunding perp)\<lparr>FRate := rate, MarkPrice := mark, MarkAvailable := available\<rparr>\<rparr>) l log"
| tick: "funding_run interval pm perp l log \<Longrightarrow> 0 \<le> now \<Longrightarrow> now \<le> settleAt \<Longrightarrow> settleAt \<le> MaxInt64 \<Longrightarrow>
    funding_tick pm now settleAt perp l = Some (out, perp', l') \<Longrightarrow>
    funding_run interval pm perp' l' (tick_marks now settleAt perp out perp' @ log)"
| manual: "funding_run interval pm perp l log \<Longrightarrow> 0 \<le> now \<Longrightarrow> now \<le> MaxInt64 \<Longrightarrow>
    SettleFunding pm (Some perp) now l = Some (out, Some perp', l') \<Longrightarrow>
    funding_run interval pm perp' l' (if out = FundingSettled then (now, Manual) # log else log)"

text \<open>A swept settlement comes at least the gap after whatever the schedule has seen before it, and never first.\<close>

fun spaced :: "int \<Rightarrow> (timestamp \<times> funding_mark) list \<Rightarrow> bool" where
  "spaced gap [] = True"
| "spaced gap [e] = (snd e \<noteq> Swept)"
| "spaced gap (e # e' # es) = ((snd e = Swept \<longrightarrow> fst e' + gap \<le> fst e) \<and> spaced gap (e' # es))"

definition schedule_inv :: "int64 \<Rightarrow> PositionManager \<Rightarrow> Perp \<Rightarrow> Ledger \<Rightarrow> (timestamp \<times> funding_mark) list \<Rightarrow> bool" where
  "schedule_inv interval pm perp l log \<longleftrightarrow> pm_ok pm \<and> ledger_ok l \<and> conserved l \<and> perp_ok perp \<and> Interval (PerpFunding perp) = interval \<and>
     spaced (interval * 1000000000) log \<and>
     NextFunding (PerpFunding perp) = (case log of [] \<Rightarrow> 0 | e # _ \<Rightarrow> fst e + interval * 1000000000) \<and>
     (log \<noteq> [] \<longrightarrow> 0 < NextFunding (PerpFunding perp))"

lemma nextFunding_exists:
  assumes "0 < interval" "0 \<le> now" "now + interval * 1000000000 \<le> MaxInt64"
  shows "nextFundingTimestamp now interval \<noteq> None"
proof -
  have i: "is_i64 interval" "is_i64 (interval * 1000000000)" "is_i64 now" "is_i64 (now + interval * 1000000000)" using assms by (auto simp: is_i64_def)
  then have "TryMulDiv interval 1000000000 1 = Some (interval * 1000000000)" using TryMulDiv_eq [of interval 1000000000 1] by (simp add: is_i64_def)
  moreover have "TryAdd now (interval * 1000000000) = Some (now + interval * 1000000000)" using i by (simp add: TryAdd_Some)
  ultimately show ?thesis using assms(1) by (simp add: nextFundingTimestamp_def)
qed

text \<open>What a tick can do.\<close>

lemma funding_tick_cases:
  assumes inv: "schedule_inv interval pm perp l log" and t: "0 \<le> now" "now \<le> settleAt" "settleAt \<le> MaxInt64"
  obtains (anchor) perp' where "log = []" "funding_tick pm now settleAt perp l = Some (None, perp', l)"
      "perp' = perp\<lparr>PerpFunding := (PerpFunding perp)\<lparr>NextFunding := now + interval * 1000000000\<rparr>\<rparr>" "0 < now + interval * 1000000000"
  | (unanchored) "log = []" "funding_tick pm now settleAt perp l = Some (Some FundingArithmetic, perp, l)"
      "\<not> (0 < interval \<and> now + interval * 1000000000 \<le> MaxInt64)"
  | (early) "log \<noteq> []" "now < NextFunding (PerpFunding perp)" "funding_tick pm now settleAt perp l = Some (None, perp, l)"
  | (failed) out where "log \<noteq> []" "NextFunding (PerpFunding perp) \<le> now" "funding_tick pm now settleAt perp l = Some (Some out, perp, l)"
      "out \<noteq> FundingSettled" "\<not> (MarkAvailable (PerpFunding perp) \<and> funding_fits pm perp settleAt l)"
  | (settled) perp' l' where "log \<noteq> []" "NextFunding (PerpFunding perp) \<le> now"
      "funding_tick pm now settleAt perp l = Some (Some FundingSettled, perp', l')"
      "perp' = perp\<lparr>PerpFunding := (PerpFunding perp)\<lparr>NextFunding := settleAt + interval * 1000000000\<rparr>\<rparr>" "0 < settleAt + interval * 1000000000"
      "ledger_ok l'" "conserved l'" "\<forall>a. held l' a = held l a" "funding_paid pm perp l l'"
proof -
  let ?fr = "PerpFunding perp"
  note unpaid = failed and paid = settled
  have i: "ledger_ok l" "conserved l" "perp_ok perp" "pm_ok pm" "Interval ?fr = interval" "is_i64 interval" "log = [] \<longleftrightarrow> NextFunding ?fr = 0"
    using inv by (auto simp: schedule_inv_def perp_ok_def split: list.splits)
  have n: "is_i64 now" "is_i64 settleAt" using t by (auto simp: is_i64_def)
  consider "NextFunding ?fr = 0" | "NextFunding ?fr \<noteq> 0" "now < NextFunding ?fr" | "NextFunding ?fr \<noteq> 0" "NextFunding ?fr \<le> now" by linarith
  then show thesis
  proof cases
    case 1
    show thesis
    proof (cases "nextFundingTimestamp now interval")
      case None
      then have "\<not> (0 < interval \<and> now + interval * 1000000000 \<le> MaxInt64)" using nextFunding_exists [of interval now] t(1) by blast
      with None show thesis using 1 i(5,7) by (intro unanchored) (simp_all add: funding_tick_def)
    next
      case (Some nf)
      from nextFunding_later [OF Some n(1) i(6)] have "nf = now + interval * 1000000000" "0 < nf" using t(1) by auto
      then show thesis using 1 Some i(5,7) anchor by (simp add: funding_tick_def)
    qed
  next
    case 2
    then show thesis using i(7) early by (simp add: funding_tick_def)
  next
    case 3
    then have run: "funding_tick pm now settleAt perp l = map_option (\<lambda>(out, perp', l'). (Some out, perp', l')) (settleFunding pm perp settleAt l)"
      by (simp add: funding_tick_def Let_def)
    from i(1-3) position_sizes [OF i(4)] show thesis
    proof (cases rule: settleFunding_run [where ts = settleAt])
      case (failed out)
      then show thesis using 3 i(7) run unpaid by auto
    next
      case (settled nf l')
      have "nf = settleAt + interval * 1000000000" "0 < nf" using nextFunding_later [OF settled(2) n(2)] i(5,6) t by auto
      then show thesis using settled 3 i(7) run paid by simp
    qed
  qed
qed

lemma spaced_Cons:
  "spaced gap (e # es) \<longleftrightarrow> (snd e = Swept \<longrightarrow> es \<noteq> [] \<and> fst (hd es) + gap \<le> fst e) \<and> spaced gap es"
  by (cases es) auto

lemma schedule_tick:
  assumes inv: "schedule_inv interval pm perp l log" and t: "0 \<le> now" "now \<le> settleAt" "settleAt \<le> MaxInt64"
    and run: "funding_tick pm now settleAt perp l = Some (out, perp', l')"
  shows "schedule_inv interval pm perp' l' (tick_marks now settleAt perp out perp' @ log)"
  using inv t
proof (cases rule: funding_tick_cases)
  case (anchor q)
  moreover have "NextFunding (PerpFunding perp) = 0" using inv anchor(1) by (simp add: schedule_inv_def)
  ultimately show ?thesis using inv run by (auto simp: schedule_inv_def tick_marks_def perp_ok_def)
next
  case (settled q m)
  have "fst (hd log) + interval * 1000000000 = NextFunding (PerpFunding perp)"
    using inv settled(1) by (auto simp: schedule_inv_def split: list.splits)
  then show ?thesis using inv run settled t(2) by (auto simp: schedule_inv_def tick_marks_def perp_ok_def spaced_Cons)
qed (use inv run in \<open>auto simp: schedule_inv_def tick_marks_def split: funding_outcome.splits\<close>)

lemma schedule_manual:
  assumes inv: "schedule_inv interval pm perp l log" and t: "0 \<le> now" "now \<le> MaxInt64"
    and run: "SettleFunding pm (Some perp) now l = Some (out, Some perp', l')"
  shows "schedule_inv interval pm perp' l' (if out = FundingSettled then (now, Manual) # log else log)"
proof -
  have i: "ledger_ok l" "conserved l" "perp_ok perp" "pm_ok pm" "Interval (PerpFunding perp) = interval" "is_i64 interval"
    using inv by (auto simp: schedule_inv_def perp_ok_def)
  have run': "settleFunding pm perp now l = Some (out, perp', l')" using run by (auto simp: SettleFunding_def)
  from i(1-3) position_sizes [OF i(4)] show ?thesis
  proof (cases rule: settleFunding_run [where ts = now])
    case (failed x)
    then show ?thesis using inv run' by simp
  next
    case (settled nf m)
    have "nf = now + interval * 1000000000" "0 < nf"
      using nextFunding_later [OF settled(2)] i(5,6) t by (auto simp: is_i64_def)
    then show ?thesis using inv run' settled by (auto simp: schedule_inv_def perp_ok_def spaced_Cons)
  qed
qed

lemma funding_run_inv: "funding_run interval pm perp l log \<Longrightarrow> schedule_inv interval pm perp l log"
proof (induction rule: funding_run.induct)
  case (tick pm perp l log now settleAt out perp' l')
  then show ?case using schedule_tick by blast
next
  case (manual pm perp l log now out perp' l')
  then show ?case using schedule_manual by blast
qed (auto simp: schedule_inv_def perp_ok_def)

text \<open>C27: funding runs once per interval, and it does run. Take any history of a perpetual: ticks of the sweep at arbitrary times, settlements by
  hand, new marks and rates, and any activity on the accounts in between. The first tick only anchors the schedule, one interval ahead if that is representable; every settlement by
  the sweep comes at least one interval after the anchor or the settlement before it. The next tick never panics and conserves every asset.
  Before the interval is over it changes nothing. After that it attempts a settlement: with a mark and room for the sums every
  account pays exactly its funding and the schedule moves to one interval after the settlement; otherwise it reports the failure, changes
  nothing, and the settlement stays due.\<close>

theorem funding_once_per_interval:
  assumes "funding_run interval pm perp l log" "0 \<le> now" "now \<le> settleAt" "settleAt \<le> MaxInt64"
  shows "spaced (interval * 1000000000) log \<and> VerifyConservation l = [] \<and>
    (\<exists>out perp' l'. funding_tick pm now settleAt perp l = Some (out, perp', l') \<and> (\<forall>a. held l' a = held l a) \<and>
       (log = [] \<longrightarrow> l' = l \<and> out \<noteq> Some FundingSettled \<and>
          (0 < interval \<and> now + interval * 1000000000 \<le> MaxInt64 \<longrightarrow> out = None \<and>
             perp' = perp\<lparr>PerpFunding := (PerpFunding perp)\<lparr>NextFunding := now + interval * 1000000000\<rparr>\<rparr>)) \<and>
       (log \<noteq> [] \<and> now < fst (hd log) + interval * 1000000000 \<longrightarrow> out = None \<and> perp' = perp \<and> l' = l) \<and>
       (log \<noteq> [] \<and> fst (hd log) + interval * 1000000000 \<le> now \<longrightarrow> out \<noteq> None \<and>
          (MarkAvailable (PerpFunding perp) \<and> funding_fits pm perp settleAt l \<longrightarrow> out = Some FundingSettled) \<and>
          (out = Some FundingSettled \<longrightarrow> funding_paid pm perp l l' \<and>
             perp' = perp\<lparr>PerpFunding := (PerpFunding perp)\<lparr>NextFunding := settleAt + interval * 1000000000\<rparr>\<rparr>) \<and>
          (out \<noteq> Some FundingSettled \<longrightarrow> perp' = perp \<and> l' = l)))"
proof -
  note inv = funding_run_inv [OF assms(1)]
  have v: "spaced (interval * 1000000000) log" "VerifyConservation l = []"
    using inv conserved_verifies by (auto simp: schedule_inv_def)
  have nf: "NextFunding (PerpFunding perp) = fst (hd log) + interval * 1000000000" if "log \<noteq> []"
    using inv that by (cases log) (auto simp: schedule_inv_def)
  from inv assms(2-4) show ?thesis by (cases rule: funding_tick_cases) (use v nf in auto)
qed

text \<open>The perpetual of the fill above: anchored at time 100, it settles at the first tick after eight seconds and not at the one before.\<close>

definition fresh_perp :: Perp where
  "fresh_perp = funded_perp\<lparr>PerpFunding := (PerpFunding funded_perp)\<lparr>NextFunding := 0\<rparr>\<rparr>"

definition anchored_perp :: Perp where
  "anchored_perp = funded_perp\<lparr>PerpFunding := (PerpFunding funded_perp)\<lparr>NextFunding := 8000000100\<rparr>\<rparr>"

lemma filled_fits:
  "map_option (\<lambda>(out, st'). funding_fits (ps_positions st') anchored_perp 8000000200 (ps_ledger st'))
     (handleExecution_perp perp_sample_env perp_sample_fill perp_sample_exec perp_sample_state) = Some True"
  by code_simp

theorem funding_once_per_interval_witness:
  "\<exists>out st' perp' l'. handleExecution_perp perp_sample_env perp_sample_fill perp_sample_exec perp_sample_state = Some (out, st') \<and>
     funding_run 8 (ps_positions st') anchored_perp (ps_ledger st') [(100, Anchored)] \<and>
     funding_tick (ps_positions st') 8000000050 8000000050 anchored_perp (ps_ledger st') = Some (None, anchored_perp, ps_ledger st') \<and>
     funding_tick (ps_positions st') 8000000150 8000000200 anchored_perp (ps_ledger st') = Some (Some FundingSettled, perp', l') \<and>
     NextFunding (PerpFunding perp') = 16000000200 \<and> held l' ''USD'' = held (ps_ledger st') ''USD''"
proof -
  obtain out st' where f: "handleExecution_perp perp_sample_env perp_sample_fill perp_sample_exec perp_sample_state = Some (out, st')"
    "ledger_ok (ps_ledger st')" "conserved (ps_ledger st')" "pm_ok (ps_positions st')" by (rule perp_sample_after)
  let ?pm = "ps_positions st'" and ?l = "ps_ledger st'"
  have fits: "funding_fits ?pm anchored_perp 8000000200 ?l" using filled_fits f(1) by simp
  have ok: "perp_ok fresh_perp" "Interval (PerpFunding fresh_perp) = 8" "NextFunding (PerpFunding fresh_perp) = 0"
    by (simp_all add: fresh_perp_def funded_perp_def perp_ok_def is_i64_def)
  have "nextFundingTimestamp 100 8 = Some 8000000100" by code_simp
  then have "funding_tick ?pm 100 100 fresh_perp ?l = Some (None, anchored_perp, ?l)"
    using ok(2,3) by (simp add: funding_tick_def) (simp add: fresh_perp_def anchored_perp_def)
  moreover have "tick_marks 100 100 fresh_perp None anchored_perp = [(100, Anchored)]"
    using ok(3) by (simp add: tick_marks_def anchored_perp_def)
  ultimately have run: "funding_run 8 ?pm anchored_perp ?l [(100, Anchored)]"
    using funding_run.tick [OF funding_run.start [OF f(4,2,3) ok], of 100 100 None anchored_perp ?l] by simp
  have av: "MarkAvailable (PerpFunding anchored_perp)" by (simp add: anchored_perp_def funded_perp_def)
  have "funding_tick ?pm 8000000050 8000000050 anchored_perp ?l = Some (None, anchored_perp, ?l)"
    using funding_once_per_interval [OF run, of 8000000050 8000000050] by auto
  moreover from funding_once_per_interval [OF run, of 8000000150 8000000200] fits av
  obtain perp' l' where "funding_tick ?pm 8000000150 8000000200 anchored_perp ?l = Some (Some FundingSettled, perp', l')"
    "NextFunding (PerpFunding perp') = 16000000200" "held l' ''USD'' = held ?l ''USD''" by auto
  ultimately show ?thesis using f(1) run by blast
qed

end
