(* ===== verification/Rate_Limit.thy ===== *)
theory Rate_Limit
  imports Go_Math Go_Map
begin

text \<open>
  The request budgets of \<open>ratelimit/limiter.go\<close>: an interval quota and a refilling token
  bucket. Scopes are strings, time is passed in. The limiter objects are mutable in the
  code; here an \<open>Admit\<close> returns the new object with its decision.
\<close>

section \<open>Decisions\<close>

record Decision =
  Allowed :: bool
  DLimit :: string
  RetryAfter :: int64
  Overloaded :: bool
  Impossible :: bool

definition Allow :: Decision where
  "Allow = \<lparr>Allowed = True, DLimit = '''', RetryAfter = 0, Overloaded = False, Impossible = False\<rparr>"

definition refuse_forever :: "string \<Rightarrow> Decision" where
  "refuse_forever n = \<lparr>Allowed = False, DLimit = n, RetryAfter = 0, Overloaded = False, Impossible = True\<rparr>"

definition refuse_until :: "string \<Rightarrow> int64 \<Rightarrow> Decision" where
  "refuse_until n t = \<lparr>Allowed = False, DLimit = n, RetryAfter = t, Overloaded = False, Impossible = False\<rparr>"

section \<open>The fixed window\<close>

record FixedWindow =
  fw_name :: string
  fw_budget :: int64
  fw_interval :: int64
  fw_used :: "(string, int64) gomap"
  fw_windowAt :: "(string, int64) gomap"

definition NewFixedWindow :: "string \<Rightarrow> int64 \<Rightarrow> int64 \<Rightarrow> FixedWindow" where
  "NewFixedWindow name budget interval =
     \<lparr>fw_name = name, fw_budget = (if budget < 0 then 0 else budget), fw_interval = interval,
      fw_used = [], fw_windowAt = []\<rparr>"

definition modFloor :: "int64 \<Rightarrow> int64 \<Rightarrow> int64" where
  "modFloor value step =
     (if step \<le> 0 then 0
      else let remainder = value smod step in if remainder < 0 then i64 (remainder + step) else remainder)"

definition windowStart :: "FixedWindow \<Rightarrow> int64 \<Rightarrow> int64" where
  "windowStart w now = (if fw_interval w \<le> 0 then 0 else i64 (now - modFloor now (fw_interval w)))"

definition FW_Admit :: "FixedWindow \<Rightarrow> string \<Rightarrow> int64 \<Rightarrow> int64 \<Rightarrow> FixedWindow \<times> Decision" where
  "FW_Admit w scope cost now =
     (if cost \<le> 0 then (w, Allow)
      else if cost > fw_budget w then (w, refuse_forever (fw_name w))
      else
        let current0 = windowStart w now;
            (w1, current) =
              (case map_of (fw_windowAt w) scope of
                 None \<Rightarrow> (w\<lparr>fw_windowAt := mput (fw_windowAt w) scope current0, fw_used := mput (fw_used w) scope 0\<rparr>, current0)
               | Some stored \<Rightarrow>
                   if current0 > stored
                   then (w\<lparr>fw_windowAt := mput (fw_windowAt w) scope current0, fw_used := mput (fw_used w) scope 0\<rparr>, current0)
                   else (w, stored))
        in if i64 (mget (fw_used w1) scope + cost) > fw_budget w
           then (w1, if fw_interval w \<le> 0 then refuse_forever (fw_name w)
                     else refuse_until (fw_name w) (i64 (i64 (current + fw_interval w) - now)))
           else (w1\<lparr>fw_used := madd (fw_used w1) scope cost\<rparr>, Allow))"

definition FW_Used :: "FixedWindow \<Rightarrow> string \<Rightarrow> int64 \<Rightarrow> int64" where
  "FW_Used w scope now = (if mget (fw_windowAt w) scope \<noteq> windowStart w now then 0 else mget (fw_used w) scope)"

definition FW_Would :: "FixedWindow \<Rightarrow> string \<Rightarrow> int64 \<Rightarrow> int64 \<Rightarrow> Decision" where
  "FW_Would w scope cost now =
     (if cost \<le> 0 then Allow
      else if cost > fw_budget w then refuse_forever (fw_name w)
      else
        let current0 = windowStart w now;
            (used, current) =
              (case map_of (fw_windowAt w) scope of
                 None \<Rightarrow> (0, current0)
               | Some stored \<Rightarrow> if current0 \<le> stored then (mget (fw_used w) scope, stored) else (0, current0))
        in if i64 (used + cost) > fw_budget w
           then (if fw_interval w \<le> 0 then refuse_forever (fw_name w)
                 else refuse_until (fw_name w) (i64 (i64 (current + fw_interval w) - now)))
           else Allow)"

section \<open>The token bucket\<close>

record TokenBucket =
  tb_name :: string
  tb_capacity :: int64
  tb_refill :: int64
  tb_interval :: int64
  tb_tokens :: "(string, int64) gomap"
  tb_lastFillAt :: "(string, int64) gomap"

abbreviation tokenScale :: int where "tokenScale \<equiv> 1000000"

definition maxScalableTokens :: int64 where
  "maxScalableTokens = MaxInt64 sdiv tokenScale"

definition NewTokenBucket :: "string \<Rightarrow> int64 \<Rightarrow> int64 \<Rightarrow> int64 \<Rightarrow> TokenBucket" where
  "NewTokenBucket name capacity refill interval =
     (let clamp = (\<lambda>x. let y = (if x > maxScalableTokens then maxScalableTokens else x) in if y < 0 then 0 else y)
      in \<lparr>tb_name = name, tb_capacity = clamp capacity, tb_refill = clamp refill, tb_interval = interval,
          tb_tokens = [], tb_lastFillAt = []\<rparr>)"

text \<open>The guard \<open>hi >= divisor\<close> makes the panic of \<open>bits.Div64\<close> unreachable.\<close>

definition mulDiv :: "int64 \<Rightarrow> int64 \<Rightarrow> int64 \<Rightarrow> int64" where
  "mulDiv a b divisor =
     (if divisor \<le> 0 \<or> a \<le> 0 \<or> b \<le> 0 then 0
      else let (hi, lo) = Mul64 (u64 a) (u64 b)
           in if hi \<ge> u64 divisor then MaxInt64
              else case Div64 hi lo (u64 divisor) of
                None \<Rightarrow> MaxInt64
              | Some (quo, _) \<Rightarrow> if quo > MaxInt64 then MaxInt64 else i64 quo)"

definition mulDivCeil :: "int64 \<Rightarrow> int64 \<Rightarrow> int64 \<Rightarrow> int64" where
  "mulDivCeil a b divisor =
     (if divisor \<le> 0 \<or> a \<le> 0 \<or> b \<le> 0 then 0
      else let (hi, lo) = Mul64 (u64 a) (u64 b)
           in if hi \<ge> u64 divisor then MaxInt64
              else case Div64 hi lo (u64 divisor) of
                None \<Rightarrow> MaxInt64
              | Some (quo, remainder) \<Rightarrow>
                  if quo \<ge> MaxInt64 then MaxInt64
                  else i64 (if remainder > 0 then u64 (quo + 1) else quo))"

definition accrue :: "TokenBucket \<Rightarrow> int64 \<Rightarrow> int64 \<Rightarrow> int64" where
  "accrue b tokens elapsed =
     (let capped = i64 (tb_capacity b * tokenScale)
      in if elapsed \<le> 0 \<or> tb_interval b \<le> 0 \<or> tb_refill b \<le> 0 \<or> tokens \<ge> capped then min tokens capped
         else
           let need = i64 (capped - tokens);
               perInterval = i64 (tb_refill b * tokenScale);
               whole = elapsed sdiv tb_interval b;
               rest = elapsed smod tb_interval b
           in if whole > 0 \<and> perInterval > 0 \<and> whole > MaxInt64 sdiv perInterval then capped
              else
                let gained0 = (if whole > 0 then i64 (whole * perInterval) else 0);
                    part = mulDiv rest perInterval (tb_interval b)
                in if rest > 0 \<and> gained0 > i64 (MaxInt64 - part) then capped
                   else
                     let gained = (if rest > 0 then i64 (gained0 + part) else gained0)
                     in if gained \<ge> need then capped else i64 (tokens + gained))"

definition fill :: "TokenBucket \<Rightarrow> string \<Rightarrow> int64 \<Rightarrow> TokenBucket" where
  "fill b scope now =
     (case map_of (tb_lastFillAt b) scope of
        None \<Rightarrow> b\<lparr>tb_tokens := mput (tb_tokens b) scope (i64 (tb_capacity b * tokenScale)),
                  tb_lastFillAt := mput (tb_lastFillAt b) scope now\<rparr>
      | Some filledAt \<Rightarrow>
          if now \<le> filledAt then b
          else
            let b1 = (if tb_interval b > 0 \<and> tb_refill b > 0
                      then b\<lparr>tb_tokens := mput (tb_tokens b) scope
                             (accrue b (mget (tb_tokens b) scope) (i64 (now - filledAt)))\<rparr>
                      else b)
            in b1\<lparr>tb_lastFillAt := mput (tb_lastFillAt b1) scope now\<rparr>)"

definition timeToAccrue :: "TokenBucket \<Rightarrow> int64 \<Rightarrow> int64" where
  "timeToAccrue b shortfall =
     (if tb_refill b \<le> 0 \<or> tb_interval b \<le> 0 then 0
      else
        let denominator = i64 (tb_refill b * tokenScale);
            whole = shortfall sdiv denominator;
            remainder = shortfall smod denominator
        in if whole > 0 \<and> whole > MaxInt64 sdiv tb_interval b then MaxInt64
           else let wait = i64 (whole * tb_interval b)
                in if remainder > 0 then i64 (wait + mulDivCeil remainder (tb_interval b) denominator) else wait)"

definition refillable :: "TokenBucket \<Rightarrow> bool" where
  "refillable b \<longleftrightarrow> tb_refill b > 0 \<and> tb_interval b > 0"

definition tb_refusal :: "TokenBucket \<Rightarrow> int64 \<Rightarrow> Decision" where
  "tb_refusal b shortfall =
     (if \<not> refillable b then refuse_forever (tb_name b) else refuse_until (tb_name b) (timeToAccrue b shortfall))"

definition TB_Admit :: "TokenBucket \<Rightarrow> string \<Rightarrow> int64 \<Rightarrow> int64 \<Rightarrow> TokenBucket \<times> Decision" where
  "TB_Admit b scope cost now =
     (if cost \<le> 0 then (b, Allow)
      else if cost > tb_capacity b then (b, refuse_forever (tb_name b))
      else
        let b1 = fill b scope now;
            want = i64 (cost * tokenScale);
            tokens = mget (tb_tokens b1) scope
        in if tokens < want then (b1, tb_refusal b1 (i64 (want - tokens)))
           else (b1\<lparr>tb_tokens := madd (tb_tokens b1) scope (- want)\<rparr>, Allow))"

definition tb_available :: "TokenBucket \<Rightarrow> string \<Rightarrow> int64 \<Rightarrow> int64" where
  "tb_available b scope now =
     (case map_of (tb_lastFillAt b) scope of
        None \<Rightarrow> i64 (tb_capacity b * tokenScale)
      | Some filledAt \<Rightarrow>
          if now > filledAt \<and> tb_interval b > 0 \<and> tb_refill b > 0
          then accrue b (mget (tb_tokens b) scope) (i64 (now - filledAt)) else mget (tb_tokens b) scope)"

definition TB_Would :: "TokenBucket \<Rightarrow> string \<Rightarrow> int64 \<Rightarrow> int64 \<Rightarrow> Decision" where
  "TB_Would b scope cost now =
     (if cost \<le> 0 then Allow
      else if cost > tb_capacity b then refuse_forever (tb_name b)
      else
        let available = tb_available b scope now; want = i64 (cost * tokenScale)
        in if available < want then tb_refusal b (i64 (want - available)) else Allow)"

section \<open>Exact arithmetic\<close>

lemma mulDiv_eq:
  assumes "0 < d" "is_i64 d" "0 \<le> a" "is_i64 a" "0 \<le> b" "is_i64 b" "a * b div d \<le> MaxInt64"
  shows "mulDiv a b d = a * b div d"
proof (cases "a = 0 \<or> b = 0")
  case True
  then show ?thesis by (auto simp: mulDiv_def)
next
  case False
  have u: "u64 a = a" "u64 b = b" "u64 d = d" using assms by (simp_all add: u64_id is_i64_nonneg_is_u64)
  have "0 \<le> a * b div d" using assms by (simp add: pos_imp_zdiv_nonneg_iff)
  moreover from this have "i64 (a * b div d) = a * b div d" using assms(7) by (intro i64_id) (simp add: is_i64_def)
  moreover have "\<not> d \<le> a * b div two64" using hi_guard [OF assms(1), of "a * b"] assms(7) by simp
  ultimately show ?thesis
    using assms False by (simp add: mulDiv_def u Mul64_def Div64_Mul64)
qed

lemma mulDivCeil_eq:
  assumes "0 < d" "is_i64 d" "0 \<le> a" "is_i64 a" "0 \<le> b" "is_i64 b" "a * b div d < MaxInt64"
  shows "mulDivCeil a b d = (a * b + d - 1) div d"
proof (cases "a = 0 \<or> b = 0")
  case True
  then show ?thesis using assms(1) by (auto simp: mulDivCeil_def)
next
  case False
  let ?q = "a * b div d"
  have u: "u64 a = a" "u64 b = b" "u64 d = d" using assms by (simp_all add: u64_id is_i64_nonneg_is_u64)
  have q: "0 \<le> ?q" using assms by (simp add: pos_imp_zdiv_nonneg_iff)
  have i: "u64 (?q + 1) = ?q + 1" "i64 ?q = ?q" "i64 (?q + 1) = ?q + 1"
    using q assms(7) by (auto simp: u64_def is_i64_def intro!: i64_id)
  have m: "0 \<le> a * b mod d" "a * b mod d < d" "a * b = d * ?q + a * b mod d" using assms(1) by auto
  have c: "(a * b + d - 1) div d = (if a * b mod d > 0 then ?q + 1 else ?q)"
  proof (cases "a * b mod d > 0")
    case True
    then have "a * b + d - 1 = d * (?q + 1) + (a * b mod d - 1)" using m(3) by (simp add: algebra_simps)
    then have "(a * b + d - 1) div d = ?q + 1"
      using True m(2) by (intro int_div_pos_eq [where r = "a * b mod d - 1"]) linarith+
    with True show ?thesis by simp
  next
    case False
    then have "a * b + d - 1 = d * ?q + (d - 1)" using m(1,3) by simp
    then have "(a * b + d - 1) div d = ?q" using assms(1) by (intro int_div_pos_eq [where r = "d - 1"]) auto
    with False show ?thesis by simp
  qed
  have "\<not> d \<le> a * b div two64" using hi_guard [OF assms(1), of "a * b"] assms(7) by simp
  then show ?thesis
    using assms False i unfolding c by (auto simp: mulDivCeil_def u Mul64_def Div64_Mul64)
qed

lemma div_split:
  fixes e p i :: int
  assumes "0 < i" "0 \<le> e"
  shows "e div i * p + e mod i * p div i = e * p div i"
proof -
  have "e * p = (e div i * i + e mod i) * p" by simp
  also have "\<dots> = e mod i * p + e div i * p * i" by (simp only: distrib_right) (simp add: mult.commute mult.left_commute)
  finally show ?thesis using assms(1) by simp
qed

definition tb_config_ok :: "TokenBucket \<Rightarrow> bool" where
  "tb_config_ok b \<longleftrightarrow> 0 \<le> tb_capacity b \<and> tb_capacity b \<le> 9223372036854 \<and>
     0 \<le> tb_refill b \<and> tb_refill b \<le> 9223372036854 \<and> is_i64 (tb_interval b)"

definition tb_ok :: "TokenBucket \<Rightarrow> bool" where
  "tb_ok b \<longleftrightarrow> tb_config_ok b \<and>
     (\<forall>s. 0 \<le> mget (tb_tokens b) s \<and> mget (tb_tokens b) s \<le> tb_capacity b * tokenScale)"

lemma scaled_exact: "tb_config_ok b \<Longrightarrow> i64 (tb_capacity b * tokenScale) = tb_capacity b * tokenScale"
  "tb_config_ok b \<Longrightarrow> i64 (tb_refill b * tokenScale) = tb_refill b * tokenScale"
  by (auto simp: tb_config_ok_def is_i64_def intro!: i64_id)

text \<open>The overflow-avoiding accrual is the exact truncated earning, capped.\<close>

lemma accrue_exact:
  assumes ok: "tb_config_ok b" and r: "refillable b" and t: "0 \<le> t" "t \<le> tb_capacity b * tokenScale"
    and e: "0 \<le> e" "is_i64 e"
  shows "accrue b t e = min (tb_capacity b * tokenScale) (t + e * (tb_refill b * tokenScale) div tb_interval b)"
proof -
  define p where "p = tb_refill b * tokenScale"
  define i where "i = tb_interval b"
  define cap where "cap = tb_capacity b * tokenScale"
  have p: "0 < p" "p \<le> MaxInt64" and i: "0 < i" "i \<le> MaxInt64" and cap: "0 \<le> cap" "cap \<le> MaxInt64"
    using ok r by (auto simp: p_def i_def cap_def refillable_def tb_config_ok_def is_i64_def)
  have dm: "e sdiv i = e div i" "e smod i = e mod i" using e i by (simp_all add: sdiv_nonneg_eq smod_by_sign)
  have w: "0 \<le> e div i" and m: "0 \<le> e mod i" "e mod i < i" using e i by (simp_all add: pos_imp_zdiv_nonneg_iff)
  have pt: "0 \<le> e mod i * p div i" "e mod i * p div i \<le> p"
  proof -
    show "0 \<le> e mod i * p div i" using m p i by (simp add: pos_imp_zdiv_nonneg_iff)
    have "e mod i * p \<le> i * p" using m p by (intro mult_right_mono) auto
    then show "e mod i * p div i \<le> p" using i by (metis nonzero_mult_div_cancel_left order_less_irrefl zdiv_mono1)
  qed
  have part: "mulDiv (e mod i) p i = e mod i * p div i"
    using m p i pt by (intro mulDiv_eq) (simp_all add: is_i64_def order.trans [OF less_imp_le [OF m(2)]] del: pos_mod_sign pos_mod_bound)
  have earn: "e div i * p + e mod i * p div i = e * p div i" by (rule div_split [OF i(1) e(1)])
  have mx: "MaxInt64 sdiv p = MaxInt64 div p" using p by (simp add: sdiv_nonneg_eq)
  have big: "e div i > MaxInt64 div p \<longleftrightarrow> e div i * p > MaxInt64"
    using div_int_less_iff [OF p(1), of MaxInt64 "e div i"] by simp
  have sc: "i64 (tb_capacity b * tokenScale) = cap" "i64 (tb_refill b * tokenScale) = p"
    using scaled_exact [OF ok] by (simp_all add: cap_def p_def)
  have e0: "0 \<le> e * p div i" using earn w p pt by (metis add_nonneg_nonneg less_imp_le mult_nonneg_nonneg)
  show ?thesis
  proof (cases "e = 0 \<or> t \<ge> cap")
    case True
    have "accrue b t e = min t cap"
      unfolding accrue_def Let_def sc by (rule if_P) (use True e in auto)
    then show ?thesis using True t e0 by (auto simp: min_def cap_def p_def i_def)
  next
    case False
    define w' where "w' = e div i"
    define q where "q = e mod i * p div i"
    have acc: "accrue b t e = (if w' > 0 \<and> w' * p > MaxInt64 then cap
        else let g = (if w' > 0 then i64 (w' * p) else 0)
             in if e mod i > 0 \<and> g > i64 (MaxInt64 - q) then cap
                else let g' = (if e mod i > 0 then i64 (g + q) else g)
                     in if g' \<ge> i64 (cap - t) then cap else i64 (t + g'))"
    proof -
      have "\<not> (e \<le> 0 \<or> i \<le> 0 \<or> tb_refill b \<le> 0 \<or> t \<ge> cap)" using False r e i by (auto simp: refillable_def)
      then show ?thesis
        unfolding accrue_def Let_def sc i_def [symmetric] dm part mx w'_def q_def big [symmetric]
        by (simp only: if_not_P p(1) simp_thms if_False)
    qed
    have eq: "e * p div i = w' * p + q" using earn by (simp add: w'_def q_def)
    have wp: "0 \<le> w' * p" and q: "0 \<le> q" "q \<le> p" using w p pt by (simp_all add: w'_def q_def)
    have goal: "min cap (t + (w' * p + q)) = (if w' * p + q \<ge> cap - t then cap else t + (w' * p + q))" by auto
    have id1: "i64 (MaxInt64 - q) = MaxInt64 - q" "i64 (cap - t) = cap - t"
      using q p t cap False by (auto simp: is_i64_def cap_def intro!: i64_id)
    have res: "accrue b t e = min cap (t + (w' * p + q))"
    proof (cases "w' * p + q > MaxInt64")
      case True
      then have c: "min cap (t + (w' * p + q)) = cap" using t cap by auto
      show ?thesis
      proof (cases "w' > 0 \<and> w' * p > MaxInt64")
        case False
        have "q \<le> MaxInt64" using q p by linarith
        then have "w' > 0" "w' * p \<le> MaxInt64" using True False w by (auto simp: w'_def intro: ccontr)
        moreover from this have "i64 (w' * p) = w' * p" using wp by (intro i64_id) (simp add: is_i64_def)
        moreover have "e mod i > 0" using True \<open>w' * p \<le> MaxInt64\<close> m(1) by (cases "e mod i = 0") (auto simp: q_def)
        ultimately show ?thesis unfolding acc c using True by (simp add: id1)
      qed (simp add: acc c)
    next
      case small: False
      have g: "(if w' > 0 then i64 (w' * p) else 0) = w' * p"
      proof -
        have "w' * p \<le> MaxInt64" using small q by linarith
        then have "i64 (w' * p) = w' * p" using wp by (intro i64_id) (simp add: is_i64_def)
        then show ?thesis using w by (cases "w' = 0") (auto simp: w'_def)
      qed
      have g': "(if e mod i > 0 then i64 (w' * p + q) else w' * p) = w' * p + q"
      proof (cases "e mod i > 0")
        case True
        then show ?thesis using small wp q by (auto simp: is_i64_def intro!: i64_id)
      next
        case False
        then have "e mod i = 0" using m(1) by simp
        then show ?thesis by (simp add: q_def)
      qed
      have "i64 (t + (w' * p + q)) = t + (w' * p + q)" if "w' * p + q < cap - t"
        using that t wp q cap by (intro i64_id) (auto simp: is_i64_def)
      then show ?thesis
        unfolding acc goal g Let_def g' id1 using small q wp by auto
    qed
    show ?thesis using res eq by (simp add: cap_def p_def i_def)
  qed
qed

section \<open>The interface of a budget\<close>

text \<open>What a gate relies on: asking and charging agree, a free request is never refused and
  changes nothing, one scope never spends another's budget, and a refusal that names a
  waiting time is honest. \<open>timely\<close> states when the timestamps are usable.\<close>

locale limiter =
  fixes admit :: "'s \<Rightarrow> string \<Rightarrow> int64 \<Rightarrow> int64 \<Rightarrow> 's \<times> Decision"
    and would :: "'s \<Rightarrow> string \<Rightarrow> int64 \<Rightarrow> int64 \<Rightarrow> Decision"
    and ok :: "'s \<Rightarrow> bool"
    and timely :: "'s \<Rightarrow> string \<Rightarrow> int64 \<Rightarrow> bool"
  assumes would_admit: "would s sc c t = snd (admit s sc c t)"
    and ok_admit: "ok s \<Longrightarrow> timely s sc t \<Longrightarrow> is_i64 c \<Longrightarrow> ok (fst (admit s sc c t))"
    and other_scope: "sc' \<noteq> sc \<Longrightarrow> would (fst (admit s sc c t)) sc' c' t' = would s sc' c' t'"
    and free: "c \<le> 0 \<Longrightarrow> admit s sc c t = (s, Allow)"
    and retry: "ok s \<Longrightarrow> timely s sc t \<Longrightarrow> is_i64 c \<Longrightarrow> \<not> Allowed (would s sc c t) \<Longrightarrow>
      \<not> Impossible (would s sc c t) \<Longrightarrow> Allowed (would s sc c (t + RetryAfter (would s sc c t)))"
begin

lemma admitted_iff: "Allowed (snd (admit s sc c t)) \<longleftrightarrow> Allowed (would s sc c t)"
  by (simp add: would_admit)

end

text \<open>The two passes of a gate over budgets held by position: \<open>probe_all\<close> finds the first refusal,
  \<open>commit_all\<close> charges each.\<close>

fun probe_all :: "('s \<Rightarrow> string \<Rightarrow> int64 \<Rightarrow> int64 \<Rightarrow> Decision) \<Rightarrow> 's list \<Rightarrow> string \<Rightarrow> int64 \<Rightarrow> (nat \<times> int64) list \<Rightarrow>
    Decision option" where
  "probe_all would ls scope now [] = None"
| "probe_all would ls scope now ((i, c) # cs) =
     (let d = would (ls ! i) scope c now in if \<not> Allowed d then Some d else probe_all would ls scope now cs)"

fun commit_all :: "('s \<Rightarrow> string \<Rightarrow> int64 \<Rightarrow> int64 \<Rightarrow> 's \<times> Decision) \<Rightarrow> 's list \<Rightarrow> string \<Rightarrow> int64 \<Rightarrow> (nat \<times> int64) list \<Rightarrow>
    's list \<times> Decision option" where
  "commit_all admit ls scope now [] = (ls, None)"
| "commit_all admit ls scope now ((i, c) # cs) =
     (let (s', d) = admit (ls ! i) scope c now; ls' = ls[i := s']
      in if \<not> Allowed d then (ls', Some d) else commit_all admit ls' scope now cs)"

context limiter
begin

lemma probe_all_cong:
  "\<forall>i\<in>fst ` set cs. ls ! i = ls' ! i \<Longrightarrow> probe_all would ls sc t cs = probe_all would ls' sc t cs"
  by (induction cs) (auto simp: Let_def)

text \<open>Once every budget answered yes, charging cannot fail: each budget named once is charged
  exactly its cost.\<close>

lemma commit_after_probe:
  assumes "distinct (map fst cs)" "\<forall>(i, c)\<in>set cs. i < length ls" "probe_all would ls sc t cs = None"
  shows "\<exists>ls'. commit_all admit ls sc t cs = (ls', None) \<and> length ls' = length ls \<and>
    (\<forall>i<length ls. ls' ! i = (case map_of cs i of None \<Rightarrow> ls ! i | Some c \<Rightarrow> fst (admit (ls ! i) sc c t)))"
  using assms
proof (induction cs arbitrary: ls)
  case (Cons x cs)
  obtain i c where x: "x = (i, c)" by (cases x)
  obtain s' d where a: "admit (ls ! i) sc c t = (s', d)" by (cases "admit (ls ! i) sc c t")
  have d: "Allowed d" using Cons.prems(3) a by (auto simp: x would_admit Let_def split: if_splits)
  let ?ls = "ls[i := s']"
  have i: "i \<notin> fst ` set cs" "i < length ls" using Cons.prems(1,2) by (auto simp: x)
  have "probe_all would ?ls sc t cs = probe_all would ls sc t cs"
    using i(1) by (intro probe_all_cong ballI nth_list_update_neq) blast
  with Cons.prems have "probe_all would ?ls sc t cs = None" by (auto simp: x Let_def split: if_splits)
  then obtain ls' where ls': "commit_all admit ?ls sc t cs = (ls', None)" "length ls' = length ls"
    "\<forall>j<length ls. ls' ! j = (case map_of cs j of None \<Rightarrow> ?ls ! j | Some c \<Rightarrow> fst (admit (?ls ! j) sc c t))"
    using Cons.IH [of ?ls] Cons.prems(1,2) by (auto simp: x)
  have "map_of cs i = None" using i(1) by (simp add: map_of_eq_None_iff)
  then have "ls' ! j = (case map_of (x # cs) j of None \<Rightarrow> ls ! j | Some c \<Rightarrow> fst (admit (ls ! j) sc c t))"
    if "j < length ls" for j
    using ls'(3) that i(2) a by (cases "j = i") (auto simp: x split: option.splits)
  with ls' a d show ?case by (auto simp: x)
qed auto

end

section \<open>The fixed window honours it\<close>

definition fw_ok :: "FixedWindow \<Rightarrow> bool" where
  "fw_ok w \<longleftrightarrow> 0 \<le> fw_budget w \<and> fw_budget w \<le> MaxInt64 div 2 \<and> is_i64 (fw_interval w) \<and>
     (\<forall>s. 0 \<le> mget (fw_used w) s \<and> mget (fw_used w) s \<le> fw_budget w) \<and>
     (\<forall>s t. map_of (fw_windowAt w) s = Some t \<longrightarrow> 0 \<le> t \<and> (0 < fw_interval w \<longrightarrow> t mod fw_interval w = 0))"

definition fw_timely :: "FixedWindow \<Rightarrow> string \<Rightarrow> int64 \<Rightarrow> bool" where
  "fw_timely w s now \<longleftrightarrow> 0 \<le> now \<and> now + fw_interval w \<le> MaxInt64 \<and> is_i64 now \<and>
     (\<forall>t. map_of (fw_windowAt w) s = Some t \<longrightarrow> t + fw_interval w \<le> MaxInt64)"

lemma windowStart_eq:
  assumes "is_i64 (fw_interval w)" "0 \<le> now" "is_i64 now"
  shows "windowStart w now = (if fw_interval w \<le> 0 then 0 else now - now mod fw_interval w)"
proof (cases "fw_interval w \<le> 0")
  case False
  let ?i = "fw_interval w"
  have m: "0 \<le> now mod ?i" "now mod ?i \<le> now" using False assms(2) by (auto intro: zmod_le_nonneg_dividend)
  have "now smod ?i = now mod ?i" using False assms(2) by (simp add: smod_by_sign)
  with False have "modFloor now ?i = now mod ?i" using m(1) unfolding modFloor_def Let_def by (simp only: if_not_P not_less if_False)
  moreover have "i64 (now - now mod ?i) = now - now mod ?i" using m assms(2,3) by (intro i64_id) (auto simp: is_i64_def)
  ultimately show ?thesis using False by (simp add: windowStart_def)
qed (simp add: windowStart_def)

lemma fw_sum: "fw_ok w \<Longrightarrow> 0 \<le> u \<Longrightarrow> u \<le> fw_budget w \<Longrightarrow> 0 < c \<Longrightarrow> c \<le> fw_budget w \<Longrightarrow> i64 (u + c) = u + c"
  by (intro i64_id) (auto simp: fw_ok_def is_i64_def)

text \<open>What an admission sees: the usage that counts and the window it falls in.\<close>

definition fw_view :: "FixedWindow \<Rightarrow> string \<Rightarrow> int64 \<Rightarrow> int64 \<times> int64" where
  "fw_view w s now = (case map_of (fw_windowAt w) s of
       None \<Rightarrow> (0, windowStart w now)
     | Some t \<Rightarrow> if windowStart w now \<le> t then (mget (fw_used w) s, t) else (0, windowStart w now))"

lemma fw_would_view:
  "FW_Would w s c now = (if c \<le> 0 then Allow else if c > fw_budget w then refuse_forever (fw_name w)
     else if i64 (fst (fw_view w s now) + c) > fw_budget w
     then (if fw_interval w \<le> 0 then refuse_forever (fw_name w)
           else refuse_until (fw_name w) (i64 (i64 (snd (fw_view w s now) + fw_interval w) - now)))
     else Allow)"
  by (auto simp: FW_Would_def fw_view_def Let_def split: option.splits)

lemma fw_would_admit: "FW_Would w s c t = snd (FW_Admit w s c t)"
  by (auto simp: FW_Would_def FW_Admit_def Let_def split: option.splits)

lemma fw_would_cong:
  "fw_name v = fw_name w \<Longrightarrow> fw_budget v = fw_budget w \<Longrightarrow> fw_interval v = fw_interval w \<Longrightarrow>
   map_of (fw_windowAt v) s = map_of (fw_windowAt w) s \<Longrightarrow> mget (fw_used v) s = mget (fw_used w) s \<Longrightarrow>
   FW_Would v s c t = FW_Would w s c t"
  unfolding FW_Would_def windowStart_def by presburger

definition fw_roll :: "FixedWindow \<Rightarrow> string \<Rightarrow> int64 \<Rightarrow> FixedWindow" where
  "fw_roll w s now = (if snd (fw_view w s now) = windowStart w now \<and> map_of (fw_windowAt w) s \<noteq> Some (windowStart w now)
     then w\<lparr>fw_windowAt := mput (fw_windowAt w) s (windowStart w now), fw_used := mput (fw_used w) s 0\<rparr> else w)"

lemma fw_admit_fst:
  "fst (FW_Admit w s c now) = w \<or> fst (FW_Admit w s c now) = fw_roll w s now \<or>
   fst (FW_Admit w s c now) = (fw_roll w s now)\<lparr>fw_used := madd (fw_used (fw_roll w s now)) s c\<rparr> \<and>
     0 < c \<and> c \<le> fw_budget w \<and> \<not> i64 (mget (fw_used (fw_roll w s now)) s + c) > fw_budget w"
  by (cases "map_of (fw_windowAt w) s") (auto simp: FW_Admit_def fw_roll_def fw_view_def Let_def)

lemma fw_roll_frame:
  "fw_name (fw_roll w s now) = fw_name w" "fw_budget (fw_roll w s now) = fw_budget w"
  "fw_interval (fw_roll w s now) = fw_interval w"
  "s' \<noteq> s \<Longrightarrow> map_of (fw_windowAt (fw_roll w s now)) s' = map_of (fw_windowAt w) s'"
  "s' \<noteq> s \<Longrightarrow> mget (fw_used (fw_roll w s now)) s' = mget (fw_used w) s'"
  by (simp_all add: fw_roll_def)

lemma fw_other_scope: "s' \<noteq> s \<Longrightarrow> FW_Would (fst (FW_Admit w s c t)) s' c' t' = FW_Would w s' c' t'"
  using fw_admit_fst [of w s c t] by (intro fw_would_cong) (auto simp: fw_roll_frame mget_madd)

lemma fw_view_ok:
  assumes "fw_ok w"
  shows "0 \<le> fst (fw_view w s now)" "fst (fw_view w s now) \<le> fw_budget w"
  using assms by (auto simp: fw_view_def fw_ok_def split: option.splits)

lemma fw_ok_admit:
  assumes ok: "fw_ok w" and t: "fw_timely w s now"
  shows "fw_ok (fst (FW_Admit w s c now))"
proof -
  have ws: "windowStart w now = (if fw_interval w \<le> 0 then 0 else now - now mod fw_interval w)"
    using ok t by (intro windowStart_eq) (auto simp: fw_ok_def fw_timely_def)
  have a: "0 \<le> windowStart w now \<and> (0 < fw_interval w \<longrightarrow> windowStart w now mod fw_interval w = 0)"
    using t zmod_le_nonneg_dividend [of now "fw_interval w"]
    by (auto simp: ws fw_timely_def mod_diff_right_eq mod_diff_left_eq)
  have r: "fw_ok (fw_roll w s now)" using ok a by (auto simp: fw_ok_def fw_roll_def)
  let ?v = "fw_roll w s now"
  have "fw_ok (?v\<lparr>fw_used := madd (fw_used ?v) s c\<rparr>)"
    if "0 < c" "c \<le> fw_budget w" "\<not> i64 (mget (fw_used ?v) s + c) > fw_budget w"
  proof -
    have "i64 (mget (fw_used ?v) s + c) = mget (fw_used ?v) s + c"
      using that r by (intro fw_sum [of ?v]) (auto simp: fw_ok_def fw_roll_frame)
    with that r show ?thesis by (auto simp: fw_ok_def mget_madd fw_roll_frame(1-3))
  qed
  with ok r fw_admit_fst [of w s c now] show ?thesis by auto
qed

lemma fw_retry:
  assumes ok: "fw_ok w" and t: "fw_timely w s now"
    and no: "\<not> Allowed (FW_Would w s c now)" "\<not> Impossible (FW_Would w s c now)"
  shows "Allowed (FW_Would w s c (now + RetryAfter (FW_Would w s c now)))"
proof -
  define v where "v = snd (fw_view w s now)"
  let ?i = "fw_interval w"
  have c: "0 < c" "c \<le> fw_budget w" and full: "i64 (fst (fw_view w s now) + c) > fw_budget w" and i: "0 < ?i"
    using no by (auto simp: fw_would_view Allow_def refuse_forever_def split: if_splits)
  have ws: "windowStart w x = x - x mod ?i" if "0 \<le> x" "is_i64 x" for x
    using ok that i windowStart_eq [of w x] by (simp add: fw_ok_def)
  have "fst (fw_view w s now) \<noteq> 0" using full c ok fw_sum [OF ok, of 0 c] by (auto simp: fw_ok_def)
  then have v: "map_of (fw_windowAt w) s = Some v" by (auto simp: v_def fw_view_def split: option.splits if_splits)
  then have vv: "0 \<le> v" "v mod ?i = 0" "v + ?i \<le> MaxInt64" using ok t i by (auto simp: fw_ok_def fw_timely_def)
  then have ii: "is_i64 (v + ?i)" using i by (simp add: is_i64_def)
  have nn: "0 \<le> now" "is_i64 now" using t by (simp_all add: fw_timely_def)
  have "is_i64 (v + ?i - now)" using nn ii vv(1) i unfolding is_i64_def by linarith
  then have r: "RetryAfter (FW_Would w s c now) = v + ?i - now"
    using c full i ii by (simp add: fw_would_view refuse_until_def i64_id flip: v_def)
  have "windowStart w (v + ?i) = v + ?i" using ws [of "v + ?i"] vv i ii by simp
  then have "fw_view w s (v + ?i) = (0, v + ?i)" using v i by (simp add: fw_view_def)
  moreover have "i64 c = c" using c ok by (intro i64_id) (auto simp: fw_ok_def is_i64_def)
  ultimately show ?thesis using r c by (simp add: fw_would_view Allow_def)
qed

interpretation fw: limiter FW_Admit FW_Would fw_ok fw_timely
proof (unfold_locales, goal_cases)
  case (1 s sc c t)
  then show ?case by (rule fw_would_admit)
next
  case (2 s sc t c)
  then show ?case by (intro fw_ok_admit)
next
  case (3 sc' sc s c t c' t')
  then show ?case by (rule fw_other_scope)
next
  case (4 c s sc t)
  then show ?case by (simp add: FW_Admit_def)
next
  case (5 s sc t c)
  then show ?case by (intro fw_retry)
qed

section \<open>The token bucket honours it\<close>

definition tb_timely :: "TokenBucket \<Rightarrow> string \<Rightarrow> int64 \<Rightarrow> bool" where
  "tb_timely b s now \<longleftrightarrow> 0 \<le> now \<and> is_i64 now \<and>
     (\<forall>t. map_of (tb_lastFillAt b) s = Some t \<longrightarrow> 0 \<le> t \<and> t \<le> now) \<and>
     (refillable b \<longrightarrow> now + (tb_capacity b * tb_interval b) div tb_refill b + 1 \<le> MaxInt64)"

lemma tb_available_range:
  assumes ok: "tb_ok b" and t: "tb_timely b s now"
  shows "0 \<le> tb_available b s now" "tb_available b s now \<le> tb_capacity b * tokenScale"
proof -
  have c: "tb_config_ok b" and m: "0 \<le> mget (tb_tokens b) s" "mget (tb_tokens b) s \<le> tb_capacity b * tokenScale"
    using ok by (auto simp: tb_ok_def)
  have cap: "0 \<le> tb_capacity b" using c by (simp add: tb_config_ok_def)
  have "0 \<le> accrue b (mget (tb_tokens b) s) e \<and> accrue b (mget (tb_tokens b) s) e \<le> tb_capacity b * tokenScale"
    if "0 \<le> e" "is_i64 e" "refillable b" for e
  proof -
    have "0 \<le> e * (tb_refill b * tokenScale) div tb_interval b"
      using that c by (simp add: pos_imp_zdiv_nonneg_iff refillable_def)
    then show ?thesis using accrue_exact [OF c that(3) m that(1,2)] m cap by auto
  qed
  moreover have "i64 (now - f) = now - f" "is_i64 (now - f)" if "map_of (tb_lastFillAt b) s = Some f" for f
    using t that by (auto simp: tb_timely_def is_i64_def intro!: i64_id)
  ultimately show "0 \<le> tb_available b s now" "tb_available b s now \<le> tb_capacity b * tokenScale"
    using m cap scaled_exact(1) [OF c]
    by (auto simp: tb_available_def refillable_def split: option.splits)
qed

lemma fill_frame:
  "tb_name (fill b s now) = tb_name b" "tb_capacity (fill b s now) = tb_capacity b" "tb_refill (fill b s now) = tb_refill b"
  "tb_interval (fill b s now) = tb_interval b" "mget (tb_tokens (fill b s now)) s = tb_available b s now"
  "s' \<noteq> s \<Longrightarrow> mget (tb_tokens (fill b s now)) s' = mget (tb_tokens b) s'"
  "s' \<noteq> s \<Longrightarrow> map_of (tb_lastFillAt (fill b s now)) s' = map_of (tb_lastFillAt b) s'"
  by (cases "map_of (tb_lastFillAt b) s"; simp add: fill_def tb_available_def Let_def)+

lemma timeToAccrue_cong:
  assumes "tb_refill b = tb_refill b'" "tb_interval b = tb_interval b'"
  shows "timeToAccrue b = timeToAccrue b'"
  by (rule ext) (simp only: timeToAccrue_def assms)

lemma accrue_cong:
  assumes "tb_capacity b = tb_capacity b'" "tb_refill b = tb_refill b'" "tb_interval b = tb_interval b'"
  shows "accrue b = accrue b'"
  by (intro ext) (simp only: accrue_def assms)

lemma tb_refusal_cong:
  "tb_name b = tb_name b' \<Longrightarrow> tb_refill b = tb_refill b' \<Longrightarrow> tb_interval b = tb_interval b' \<Longrightarrow> tb_refusal b = tb_refusal b'"
  using timeToAccrue_cong [of b b'] by (auto simp: tb_refusal_def refillable_def fun_eq_iff)

lemma tb_would_admit: "TB_Would b s c t = snd (TB_Admit b s c t)"
  using tb_refusal_cong [of "fill b s t" b] by (simp add: TB_Would_def TB_Admit_def Let_def fill_frame)

lemma tb_would_cong:
  assumes "tb_name b = tb_name b'" "tb_capacity b = tb_capacity b'" "tb_refill b = tb_refill b'" "tb_interval b = tb_interval b'"
    "map_of (tb_lastFillAt b) s = map_of (tb_lastFillAt b') s" "mget (tb_tokens b) s = mget (tb_tokens b') s"
  shows "TB_Would b s c t = TB_Would b' s c t"
  unfolding TB_Would_def tb_available_def accrue_cong [OF assms(2-4)] tb_refusal_cong [OF assms(1,3,4)] assms ..

lemma tb_admit_fst:
  "fst (TB_Admit b s c t) = b \<or> fst (TB_Admit b s c t) = fill b s t \<or>
   fst (TB_Admit b s c t) = (fill b s t)\<lparr>tb_tokens := madd (tb_tokens (fill b s t)) s (- i64 (c * tokenScale))\<rparr> \<and>
     0 < c \<and> c \<le> tb_capacity b \<and> i64 (c * tokenScale) \<le> tb_available b s t"
  by (auto simp: TB_Admit_def Let_def fill_frame)

lemma tb_other_scope: "s' \<noteq> s \<Longrightarrow> TB_Would (fst (TB_Admit b s c t)) s' c' t' = TB_Would b s' c' t'"
  using tb_admit_fst [of b s c t] by (intro tb_would_cong) (auto simp: fill_frame mget_madd)

lemma fill_ok:
  assumes "tb_ok b" "tb_timely b s now"
  shows "tb_ok (fill b s now)"
proof -
  have "0 \<le> mget (tb_tokens (fill b s now)) s' \<and> mget (tb_tokens (fill b s now)) s' \<le> tb_capacity b * tokenScale" for s'
    using tb_available_range [OF assms] assms(1) by (cases "s' = s") (auto simp: fill_frame tb_ok_def)
  then show ?thesis using assms(1) by (simp add: tb_ok_def tb_config_ok_def fill_frame(1-4))
qed

lemma tb_ok_admit:
  assumes ok: "tb_ok b" and t: "tb_timely b s now"
  shows "tb_ok (fst (TB_Admit b s c now))"
proof -
  let ?f = "fill b s now" and ?x = "i64 (c * tokenScale)"
  have f: "tb_ok ?f" by (rule fill_ok [OF assms])
  have "tb_ok (?f\<lparr>tb_tokens := madd (tb_tokens ?f) s (- ?x)\<rparr>)"
    if "0 < c" "c \<le> tb_capacity b" "?x \<le> tb_available b s now"
  proof -
    have x: "?x = c * tokenScale" using that ok by (intro i64_id) (auto simp: tb_ok_def tb_config_ok_def is_i64_def)
    have r: "0 \<le> tb_available b s now - ?x" "tb_available b s now - ?x \<le> tb_capacity b * tokenScale"
      using that x tb_available_range [OF assms] by auto
    have "i64 (tb_available b s now - ?x) = tb_available b s now - ?x"
      using r ok by (intro i64_id) (auto simp: is_i64_def tb_ok_def tb_config_ok_def)
    then show ?thesis using f r by (auto simp: tb_ok_def tb_config_ok_def mget_madd fill_frame(1-5))
  qed
  with f ok tb_admit_fst [of b s c now] show ?thesis by auto
qed

lemma tb_available_eq:
  assumes ok: "tb_ok b" and r: "refillable b" and f: "map_of (tb_lastFillAt b) s = Some f" "0 \<le> f" "f \<le> x" "is_i64 x"
  shows "tb_available b s x = min (tb_capacity b * tokenScale)
    (mget (tb_tokens b) s + (x - f) * (tb_refill b * tokenScale) div tb_interval b)"
proof -
  have c: "tb_config_ok b" and m: "0 \<le> mget (tb_tokens b) s" "mget (tb_tokens b) s \<le> tb_capacity b * tokenScale"
    using ok by (auto simp: tb_ok_def)
  have i: "is_i64 (x - f)" using f(2-4) by (auto simp: is_i64_def)
  show ?thesis
  proof (cases "x = f")
    case True
    then show ?thesis using f(1) m by (simp add: tb_available_def)
  next
    case False
    then show ?thesis
      using f r i accrue_exact [OF c r m _ i] by (simp add: tb_available_def refillable_def i64_id)
  qed
qed

lemma ceil_div_bound:
  fixes n p :: int
  assumes "0 < p"
  shows "n \<le> (n + p - 1) div p * p" "(n + p - 1) div p \<le> n div p + 1"
proof -
  have "n + p - 1 < ((n + p - 1) div p + 1) * p"
    using assms by (metis add.commute div_int_less_iff zless_add1_eq)
  then show "n \<le> (n + p - 1) div p * p" by (simp add: distrib_right)
  have "n + p - 1 < (n div p + 2) * p"
    using div_int_less_iff [OF assms, of n "n div p + 1"] by (simp add: distrib_right)
  then show "(n + p - 1) div p \<le> n div p + 1" using div_int_less_iff [OF assms, of "n + p - 1" "n div p + 2"] by linarith
qed

lemma timeToAccrue_exact:
  assumes c: "tb_config_ok b" and r: "refillable b" and x: "0 < x" "x \<le> MaxInt64"
    and m: "(x * tb_interval b + tb_refill b * tokenScale - 1) div (tb_refill b * tokenScale) \<le> MaxInt64"
  shows "timeToAccrue b x = (x * tb_interval b + tb_refill b * tokenScale - 1) div (tb_refill b * tokenScale)"
proof -
  define p where "p = tb_refill b * tokenScale"
  define i where "i = tb_interval b"
  have p: "0 < p" "p \<le> MaxInt64" and i: "0 < i" "i \<le> MaxInt64"
    using c r by (auto simp: p_def i_def refillable_def tb_config_ok_def is_i64_def)
  have ip: "i64 p = p" using p by (intro i64_id) (simp add: is_i64_def)
  define w where "w = x div p"
  define q where "q = x mod p"
  have xw: "x = p * w + q" "0 \<le> q" "q < p" "0 \<le> w" using x p by (simp_all add: w_def q_def pos_imp_zdiv_nonneg_iff)
  have "x * i + p - 1 = (q * i + p - 1) + w * i * p" by (simp add: xw(1) algebra_simps)
  then have split: "(x * i + p - 1) div p = w * i + (q * i + p - 1) div p"
    using p by (metis add.commute div_mult_self1 order_less_irrefl)
  have "0 \<le> q * i" using xw i by simp
  then have q0: "0 \<le> (q * i + p - 1) div p" using p by (simp add: pos_imp_zdiv_nonneg_iff)
  have wi: "0 \<le> w * i" "w * i \<le> MaxInt64" using split q0 m xw i by (auto simp: p_def i_def)
  have "q * i < i * p" using xw i by (metis mult.commute mult_less_cancel_left_pos)
  then have qi: "q * i div p < i" using div_int_less_iff [OF p(1)] by blast
  have ceil: "mulDivCeil q i p = (q * i + p - 1) div p"
    using xw i p qi by (intro mulDivCeil_eq) (auto simp: is_i64_def)
  have sd: "x sdiv p = w" "x smod p = q" "MaxInt64 sdiv i = MaxInt64 div i"
    using x p i by (simp_all add: sdiv_nonneg_eq smod_by_sign w_def q_def)
  have nb: "\<not> w > MaxInt64 div i" using wi(2) div_int_less_iff [OF i(1), of MaxInt64 w] by linarith
  have "i64 (w * i) = w * i" "i64 (w * i + (q * i + p - 1) div p) = w * i + (q * i + p - 1) div p"
    using wi m q0 split by (auto simp: is_i64_def p_def i_def intro!: i64_id)
  moreover have "(q * i + p - 1) div p = 0" if "\<not> 0 < q" using that xw p by simp
  ultimately have "timeToAccrue b x = w * i + (q * i + p - 1) div p"
    using i r nb unfolding timeToAccrue_def Let_def refillable_def p_def [symmetric] i_def [symmetric] ip sd ceil
    by auto
  then show ?thesis unfolding split [symmetric] by (simp add: p_def i_def)
qed

lemma floor_add: "0 < i \<Longrightarrow> a div i + b div i \<le> (a + b) div i" for a b i :: int
proof -
  assume i: "0 < i"
  have "a div i * i \<le> a" "b div i * i \<le> b" using i by (simp_all flip: le_div_int_iff)
  then show ?thesis using i by (simp add: le_div_int_iff distrib_right)
qed

lemma tb_retry:
  assumes ok: "tb_ok b" and t: "tb_timely b s now"
    and no: "\<not> Allowed (TB_Would b s c now)" "\<not> Impossible (TB_Would b s c now)"
  shows "Allowed (TB_Would b s c (now + RetryAfter (TB_Would b s c now)))"
proof -
  define p where "p = tb_refill b * tokenScale"
  define i where "i = tb_interval b"
  define av where "av = tb_available b s now"
  have cfg: "tb_config_ok b" using ok by (simp add: tb_ok_def)
  have c: "0 < c" "c \<le> tb_capacity b" using no by (auto simp: TB_Would_def Allow_def refuse_forever_def split: if_splits)
  have w: "i64 (c * tokenScale) = c * tokenScale" using c cfg by (intro i64_id) (auto simp: tb_config_ok_def is_i64_def)
  have short: "av < c * tokenScale" and r: "refillable b"
    using no c w by (auto simp: TB_Would_def av_def tb_refusal_def Allow_def refuse_forever_def Let_def split: if_splits)
  have p: "0 < p" and i: "0 < i" using r by (simp_all add: p_def i_def refillable_def)
  have avr: "0 \<le> av" using tb_available_range [OF ok t] by (simp add: av_def)
  obtain f where f: "map_of (tb_lastFillAt b) s = Some f"
    using short c scaled_exact(1) [OF cfg] by (cases "map_of (tb_lastFillAt b) s") (auto simp: av_def tb_available_def)
  have ft: "0 \<le> f" "f \<le> now" "is_i64 now" and lim: "now + (tb_capacity b * i) div tb_refill b + 1 \<le> MaxInt64"
    using t f r by (auto simp: tb_timely_def i_def)
  define x where "x = c * tokenScale - av"
  define wait where "wait = (x * i + p - 1) div p"
  have x: "0 < x" "x \<le> tb_capacity b * tokenScale" using short avr c by (auto simp: x_def)
  have "x * i div p \<le> tb_capacity b * tokenScale * i div p"
    using x i p by (intro zdiv_mono1 mult_right_mono) auto
  also have "\<dots> = tb_capacity b * i div tb_refill b"
    by (simp add: p_def mult.assoc mult.left_commute [of _ tokenScale] div_mult_mult1 mult.commute [of _ tokenScale])
  finally have wb: "wait \<le> tb_capacity b * i div tb_refill b + 1" using ceil_div_bound(2) [OF p, of "x * i"] by (simp add: wait_def)
  have "0 < x * i" using x i by simp
  then have w0: "0 \<le> wait" using p by (simp add: wait_def pos_imp_zdiv_nonneg_iff)
  have xi: "i64 x = x" "x \<le> MaxInt64" using x cfg by (auto simp: tb_config_ok_def is_i64_def intro!: i64_id)
  have "wait \<le> MaxInt64" using wb lim t by (auto simp: tb_timely_def)
  then have tt: "timeToAccrue b x = wait"
    using timeToAccrue_exact [OF cfg r x(1) xi(2)] by (simp add: wait_def p_def i_def)
  have ra: "RetryAfter (TB_Would b s c now) = wait"
    using c w short r xi tt by (simp add: TB_Would_def Let_def tb_refusal_def refuse_until_def x_def av_def)
  have ni: "is_i64 (now + wait)" using wb lim w0 ft by (auto simp: is_i64_def)
  have "x \<le> wait * p div i"
    using ceil_div_bound(1) [OF p, of "x * i"] i by (simp add: wait_def le_div_int_iff)
  then have "(now - f) * p div i + x \<le> (now + wait - f) * p div i"
    using floor_add [OF i, of "(now - f) * p" "wait * p"] by (simp add: algebra_simps)
  moreover have "av = min (tb_capacity b * tokenScale) (mget (tb_tokens b) s + (now - f) * p div i)"
    using tb_available_eq [OF ok r f ft] by (simp add: av_def p_def i_def)
  moreover have "tb_available b s (now + wait) = min (tb_capacity b * tokenScale) (mget (tb_tokens b) s + (now + wait - f) * p div i)"
    using tb_available_eq [OF ok r f ft(1) _ ni] ft(2) w0 by (simp add: p_def i_def)
  ultimately have "c * tokenScale \<le> tb_available b s (now + wait)" using c short by (auto simp: x_def)
  then show ?thesis unfolding ra using c w by (simp add: TB_Would_def Allow_def)
qed

interpretation tb: limiter TB_Admit TB_Would tb_ok tb_timely
proof (unfold_locales, goal_cases)
  case (1 s sc c t)
  then show ?case by (rule tb_would_admit)
next
  case (2 s sc t c)
  then show ?case by (intro tb_ok_admit)
next
  case (3 sc' sc s c t c' t')
  then show ?case by (rule tb_other_scope)
next
  case (4 c s sc t)
  then show ?case by (simp add: TB_Admit_def)
next
  case (5 s sc t c)
  then show ?case by (intro tb_retry)
qed

section \<open>Either budget\<close>

text \<open>A gate mixes both kinds; dispatch on the dynamic type is a case distinction. The interface \<open>Limiter\<close> of the code is open: a caller may
  supply a budget of its own. The model closes it to the two implementations of the package; for others the locale above states what the gate relies on.\<close>

datatype limiter_obj = FW FixedWindow | TB TokenBucket

definition lim_admit :: "limiter_obj \<Rightarrow> string \<Rightarrow> int64 \<Rightarrow> int64 \<Rightarrow> limiter_obj \<times> Decision" where
  "lim_admit l s c t = (case l of FW w \<Rightarrow> map_prod FW id (FW_Admit w s c t) | TB b \<Rightarrow> map_prod TB id (TB_Admit b s c t))"

definition lim_would :: "limiter_obj \<Rightarrow> string \<Rightarrow> int64 \<Rightarrow> int64 \<Rightarrow> Decision" where
  "lim_would l s c t = (case l of FW w \<Rightarrow> FW_Would w s c t | TB b \<Rightarrow> TB_Would b s c t)"

definition lim_ok :: "limiter_obj \<Rightarrow> bool" where
  "lim_ok l = (case l of FW w \<Rightarrow> fw_ok w | TB b \<Rightarrow> tb_ok b)"

definition lim_timely :: "limiter_obj \<Rightarrow> string \<Rightarrow> int64 \<Rightarrow> bool" where
  "lim_timely l s t = (case l of FW w \<Rightarrow> fw_timely w s t | TB b \<Rightarrow> tb_timely b s t)"

lemmas lim_defs = lim_admit_def lim_would_def lim_ok_def lim_timely_def

interpretation lim: limiter lim_admit lim_would lim_ok lim_timely
proof (unfold_locales, goal_cases)
  case (1 s sc c t)
  then show ?case by (cases s) (simp_all add: lim_defs fw.would_admit tb.would_admit)
next
  case (2 s sc t c)
  then show ?case by (cases s) (simp_all add: lim_defs fw.ok_admit tb.ok_admit)
next
  case (3 sc' sc s c t c' t')
  then show ?case by (cases s) (simp_all add: lim_defs fw.other_scope tb.other_scope)
next
  case (4 c s sc t)
  then show ?case by (cases s) (simp_all add: lim_defs fw.free tb.free)
next
  case (5 s sc t c)
  then show ?case by (cases s) (simp_all add: lim_defs fw.retry tb.retry)
qed

section \<open>Properties\<close>

text \<open>The overflow-avoiding accrual is exact. Although the code splits the span into whole
  intervals and a rest, guards each product and saturates, a bucket's balance after any
  elapsed time is the capacity or the old balance plus the truncated exact earning, whichever
  is smaller.\<close>

theorem accrue_is_exact_earning:
  assumes "tb_config_ok b" "refillable b" "0 \<le> tokens" "tokens \<le> tb_capacity b * tokenScale" "0 \<le> elapsed" "is_i64 elapsed"
  shows "accrue b tokens elapsed =
    min (tb_capacity b * tokenScale) (tokens + elapsed * (tb_refill b * tokenScale) div tb_interval b)"
  using assms by (rule accrue_exact)

theorem accrue_is_exact_earning_witness:
  "accrue (NewTokenBucket ''b'' 9000000000000 9223372036854 7) 5 9000000000000000000 = 9000000000000000000 \<and>
   accrue (NewTokenBucket ''b'' 10 3 1000000000) 0 1234567 = 3703"
proof -
  have "tb_config_ok (NewTokenBucket ''b'' 10 3 1000000000)" "refillable (NewTokenBucket ''b'' 10 3 1000000000)"
    "tb_config_ok (NewTokenBucket ''b'' 9000000000000 9223372036854 7)" "refillable (NewTokenBucket ''b'' 9000000000000 9223372036854 7)"
    by code_simp+
  then show ?thesis
    using accrue_is_exact_earning [of "NewTokenBucket ''b'' 10 3 1000000000" 0 1234567]
      accrue_is_exact_earning [of "NewTokenBucket ''b'' 9000000000000 9223372036854 7" 5 9000000000000000000]
    by (simp add: NewTokenBucket_def maxScalableTokens_def is_i64_def sdiv_by_sign)
qed

text \<open>The waiting time a budget quotes is honest. When either kind of budget refuses a request
  without calling it impossible, the same request is admitted after exactly the quoted wait,
  if nothing else was charged meanwhile; and charging never leaves the well-formed states.\<close>

theorem retry_after_honest:
  assumes "lim_ok l" "lim_timely l scope now" "is_i64 cost"
    "\<not> Allowed (lim_would l scope cost now)" "\<not> Impossible (lim_would l scope cost now)"
  shows "Allowed (lim_would l scope cost (now + RetryAfter (lim_would l scope cost now))) \<and>
    lim_ok (fst (lim_admit l scope cost now)) \<and> \<not> Allowed (snd (lim_admit l scope cost now))"
  using lim.retry [OF assms] lim.ok_admit [OF assms(1-3)] lim.admitted_iff assms(4) by blast

definition spent_bucket :: TokenBucket where
  "spent_bucket = fst (TB_Admit (NewTokenBucket ''b'' 10 3 1000000000) ''c'' 9 50)"

lemma spent_bucket_ok: "tb_ok spent_bucket \<and> tb_timely spent_bucket ''c'' 60"
proof -
  have e: "spent_bucket = \<lparr>tb_name = ''b'', tb_capacity = 10, tb_refill = 3, tb_interval = 1000000000,
      tb_tokens = [(''c'', 1000000)], tb_lastFillAt = [(''c'', 50)]\<rparr>" by code_simp
  show ?thesis unfolding e by (simp add: tb_ok_def tb_config_ok_def tb_timely_def refillable_def mget_def is_i64_def)
qed

theorem retry_after_honest_witness:
  "RetryAfter (lim_would (TB spent_bucket) ''c'' 2 60) = 333333334 \<and>
   Allowed (lim_would (TB spent_bucket) ''c'' 2 333333394)"
proof -
  have r: "\<not> Allowed (lim_would (TB spent_bucket) ''c'' 2 60)" "\<not> Impossible (lim_would (TB spent_bucket) ''c'' 2 60)"
    "RetryAfter (lim_would (TB spent_bucket) ''c'' 2 60) = 333333334" by code_simp+
  have "lim_ok (TB spent_bucket)" "lim_timely (TB spent_bucket) ''c'' 60"
    using spent_bucket_ok by (simp_all add: lim_defs)
  from retry_after_honest [OF this _ r(1,2)] r(3) show ?thesis by (simp add: is_i64_def)
qed

text \<open>A client that asks again and again at a fixed distance.\<close>

fun poll :: "TokenBucket \<Rightarrow> string \<Rightarrow> int64 \<Rightarrow> int64 \<Rightarrow> int64 \<Rightarrow> nat \<Rightarrow> TokenBucket" where
  "poll b s c now d 0 = b"
| "poll b s c now d (Suc n) = poll (fst (TB_Admit b s c (now + d))) s c (now + d) d n"

text \<open>A bucket that is polled too often never refills. Each refused charge moves the fill time
  forward and drops the fraction earned since, so charges closer together than the time of
  one scaled token are refused forever, long after the quoted waiting time.\<close>

theorem polling_starves:
  assumes "tb_ok b" "refillable b" "map_of (tb_lastFillAt b) s = Some f" "0 \<le> f" "0 < d"
    "d * (tb_refill b * tokenScale) < tb_interval b" "0 < c" "c \<le> tb_capacity b" "mget (tb_tokens b) s < c * tokenScale"
    "f + int n * d \<le> MaxInt64"
  shows "map_of (tb_lastFillAt (poll b s c f d n)) s = Some (f + int n * d) \<and>
    mget (tb_tokens (poll b s c f d n)) s = mget (tb_tokens b) s \<and>
    \<not> Allowed (TB_Would (poll b s c f d n) s c (f + int n * d))"
  using assms
proof (induction n arbitrary: b f)
  case 0
  then have "i64 (c * tokenScale) = c * tokenScale" by (intro i64_id) (auto simp: tb_ok_def tb_config_ok_def is_i64_def)
  with 0 show ?case
    by (simp add: TB_Would_def tb_available_def Let_def tb_refusal_def refuse_until_def refuse_forever_def)
next
  case (Suc n)
  let ?t = "f + d" and ?b = "fill b s (f + d)"
  have nn: "0 \<le> int n * d" using Suc.prems(5) by simp
  have le: "f + d \<le> MaxInt64" using Suc.prems(10) nn by (simp only: of_nat_Suc distrib_right)
  have it: "is_i64 ?t" using Suc.prems(4,5) le by (simp add: is_i64_def)
  have "d * (tb_refill b * tokenScale) div tb_interval b = 0"
    using Suc.prems(2,5,6) by (intro div_pos_pos_trivial) (auto simp: refillable_def)
  moreover have "mget (tb_tokens b) s \<le> tb_capacity b * tokenScale" using Suc.prems(1) by (simp add: tb_ok_def)
  ultimately have av: "tb_available b s ?t = mget (tb_tokens b) s"
    using tb_available_eq [OF Suc.prems(1-4) _ it] Suc.prems(5) by simp
  have w: "i64 (c * tokenScale) = c * tokenScale"
    using Suc.prems(1,7,8) by (intro i64_id) (auto simp: tb_ok_def tb_config_ok_def is_i64_def)
  have st: "fst (TB_Admit b s c ?t) = ?b" using Suc.prems(7-9) w av by (simp add: TB_Admit_def Let_def fill_frame)
  have ok: "tb_ok ?b"
  proof -
    have "0 \<le> mget (tb_tokens ?b) s' \<and> mget (tb_tokens ?b) s' \<le> tb_capacity b * tokenScale" for s'
      using Suc.prems(1) av by (cases "s' = s") (auto simp: fill_frame tb_ok_def)
    then show ?thesis using Suc.prems(1) by (simp add: tb_ok_def tb_config_ok_def fill_frame(1-4))
  qed
  have fa: "map_of (tb_lastFillAt ?b) s = Some ?t" using Suc.prems(3,5) by (simp add: fill_def Let_def)
  have "refillable ?b" using Suc.prems(2) by (simp add: refillable_def fill_frame)
  from Suc.IH [OF ok this fa] Suc.prems av le show ?case
    by (simp add: st fill_frame distrib_right add.assoc [symmetric])
qed

theorem polling_starves_witness:
  "\<not> Allowed (TB_Would (poll spent_bucket ''c'' 2 50 300 1000000000) ''c'' 2 300000000050) \<and>
   Allowed (TB_Would spent_bucket ''c'' 2 300000000050)"
proof -
  have b: "map_of (tb_lastFillAt spent_bucket) ''c'' = Some 50" "refillable spent_bucket" "tb_refill spent_bucket = 3"
    "tb_interval spent_bucket = 1000000000" "tb_capacity spent_bucket = 10" "mget (tb_tokens spent_bucket) ''c'' = 1000000"
    "Allowed (TB_Would spent_bucket ''c'' 2 300000000050)" by code_simp+
  show ?thesis using polling_starves [of spent_bucket "''c''" 50 300 2 1000000000] spent_bucket_ok b by simp
qed

text \<open>A bucket's answers to a sequence of requests, and what it let through.\<close>

fun tb_spend :: "TokenBucket \<Rightarrow> string \<Rightarrow> (int64 \<times> int64) list \<Rightarrow> int" where
  "tb_spend b s [] = 0"
| "tb_spend b s ((c, t) # rs) =
     (if Allowed (snd (TB_Admit b s c t)) then max 0 c else 0) + tb_spend (fst (TB_Admit b s c t)) s rs"

definition tb_clock :: "TokenBucket \<Rightarrow> int64 \<Rightarrow> bool" where
  "tb_clock b t \<longleftrightarrow> 0 \<le> t \<and> is_i64 t \<and> t + (tb_capacity b * tb_interval b) div tb_refill b + 1 \<le> MaxInt64"

lemma tb_admit_effect:
  assumes ok: "tb_ok b" "refillable b" and t: "tb_timely b s t"
  obtains (skipped) "fst (TB_Admit b s c t) = b" "c \<le> 0 \<or> \<not> Allowed (snd (TB_Admit b s c t))"
  | (filled) x where "0 < c" "map_of (tb_lastFillAt (fst (TB_Admit b s c t))) s = Some t"
    "x = (if Allowed (snd (TB_Admit b s c t)) then c else 0)"
    "mget (tb_tokens (fst (TB_Admit b s c t))) s = tb_available b s t - x * tokenScale"
proof (cases "c \<le> 0 \<or> tb_capacity b < c")
  case True
  then show thesis by (intro skipped) (auto simp: TB_Admit_def refuse_forever_def)
next
  case False
  let ?f = "fill b s t" and ?x = "i64 (c * tokenScale)"
  have x: "?x = c * tokenScale" using False ok by (intro i64_id) (auto simp: tb_ok_def tb_config_ok_def is_i64_def)
  have a: "0 \<le> tb_available b s t" "tb_available b s t \<le> tb_capacity b * tokenScale" "tb_capacity b \<le> 9223372036854"
    using tb_available_range [OF ok(1) t] ok(1) by (auto simp: tb_ok_def tb_config_ok_def)
  have m: "map_of (tb_lastFillAt ?f) s = Some t"
    using t by (auto simp: fill_def Let_def tb_timely_def split: option.splits)
  have i: "i64 (tb_available b s t - ?x) = tb_available b s t - c * tokenScale" if "?x \<le> tb_available b s t"
    using that False a unfolding x by (intro i64_id) (auto simp: is_i64_def)
  show thesis
  proof (cases "tb_available b s t < ?x")
    case True
    then have "TB_Admit b s c t = (?f, tb_refusal ?f (i64 (?x - tb_available b s t)))"
      using False by (simp add: TB_Admit_def Let_def fill_frame)
    then show thesis using False m
      by (intro filled [of 0]) (auto simp: tb_refusal_def refuse_forever_def refuse_until_def fill_frame)
  next
    case le: False
    then have "TB_Admit b s c t = (?f\<lparr>tb_tokens := madd (tb_tokens ?f) s (- ?x)\<rparr>, Allow)"
      using False by (simp add: TB_Admit_def Let_def fill_frame)
    then show thesis using False m i le x
      by (intro filled [of c]) (auto simp: Allow_def fill_frame mget_madd)
  qed
qed

lemma TB_Admit_frame:
  "tb_capacity (fst (TB_Admit b s c t)) = tb_capacity b" "tb_refill (fst (TB_Admit b s c t)) = tb_refill b"
  "tb_interval (fst (TB_Admit b s c t)) = tb_interval b"
  by (simp_all add: TB_Admit_def Let_def fill_frame)

lemma tb_clock_admit [simp]: "tb_clock (fst (TB_Admit b s c t)) = tb_clock b"
  by (rule ext) (simp add: tb_clock_def TB_Admit_frame)

lemma div_mult_le_int: "0 < (i::int) \<Longrightarrow> x div i * i \<le> x"
  by (metis mult.commute mod_mult_div_eq add.commute le_add_same_cancel1 pos_mod_sign)

lemma tb_spend_filled:
  assumes "tb_ok b" "refillable b" "map_of (tb_lastFillAt b) s = Some f" "0 \<le> f"
    "sorted (f # map snd rs)" "\<forall>r\<in>set rs. tb_clock b (snd r)"
  shows "tb_spend b s rs * tokenScale * tb_interval b \<le>
    mget (tb_tokens b) s * tb_interval b + (last (f # map snd rs) - f) * (tb_refill b * tokenScale)"
  using assms
proof (induction rs arbitrary: b f)
  case Nil
  then show ?case by (auto simp: tb_ok_def refillable_def)
next
  case (Cons r rs)
  obtain c t where r: "r = (c, t)" by (cases r)
  let ?b = "fst (TB_Admit b s c t)" and ?p = "tb_refill b * tokenScale" and ?i = "tb_interval b"
  have i: "0 < ?i" "0 < ?p" using Cons.prems(2) by (auto simp: refillable_def)
  have t: "tb_timely b s t"
    using Cons.prems(3-6) by (auto simp: tb_timely_def tb_clock_def r)
  have ok: "tb_ok ?b" "refillable ?b"
    using tb_ok_admit [OF Cons.prems(1) t] Cons.prems(2) by (auto simp: refillable_def TB_Admit_frame)
  have ck: "\<forall>r\<in>set rs. tb_clock ?b (snd r)" using Cons.prems(6) by simp
  have le: "f \<le> t" "sorted (t # map snd rs)" "sorted (f # map snd rs)" using Cons.prems(5) by (auto simp: r)
  have mono: "last (f # map snd rs) \<le> last (t # map snd rs)" using le(1) by simp
  show ?case
  proof (cases rule: tb_admit_effect [OF Cons.prems(1,2) t, where c = c])
    case 1
    have "tb_spend b s rs * tokenScale * ?i \<le> mget (tb_tokens b) s * ?i + (last (f # map snd rs) - f) * ?p"
      using Cons.prems le by (intro Cons.IH) auto
    also have "\<dots> \<le> mget (tb_tokens b) s * ?i + (last (t # map snd rs) - f) * ?p"
      using mono i by (intro add_left_mono mult_right_mono) auto
    finally show ?thesis using 1 by (auto simp: r)
  next
    case (2 x)
    have "tb_available b s t = min (tb_capacity b * tokenScale) (mget (tb_tokens b) s + (t - f) * ?p div ?i)"
      using Cons.prems(1-4) le(1) t by (intro tb_available_eq) (auto simp: tb_timely_def)
    then have "tb_available b s t * ?i \<le> (mget (tb_tokens b) s + (t - f) * ?p div ?i) * ?i"
      using i by (intro mult_right_mono) auto
    also have "\<dots> \<le> mget (tb_tokens b) s * ?i + (t - f) * ?p"
      using div_mult_le_int [OF i(1), of "(t - f) * ?p"] by (simp add: distrib_right)
    finally have av: "tb_available b s t * ?i \<le> mget (tb_tokens b) s * ?i + (t - f) * ?p" .
    have "tb_spend ?b s rs * tokenScale * tb_interval ?b \<le>
        mget (tb_tokens ?b) s * tb_interval ?b + (last (t # map snd rs) - t) * (tb_refill ?b * tokenScale)"
      using ok 2(2) t le(2) ck by (intro Cons.IH) (auto simp: tb_timely_def)
    then have "(x + tb_spend ?b s rs) * tokenScale * ?i \<le>
        tb_available b s t * ?i + (last (t # map snd rs) - t) * ?p"
      using 2(4) by (simp add: TB_Admit_frame algebra_simps)
    with av have "(x + tb_spend ?b s rs) * tokenScale * ?i \<le> mget (tb_tokens b) s * ?i + (last (t # map snd rs) - f) * ?p"
      by (simp add: algebra_simps)
    moreover have "tb_spend b s (r # rs) = x + tb_spend ?b s rs" using 2(1,3) by (simp add: r)
    ultimately show ?thesis by (simp add: r)
  qed
qed

text \<open>C36: a token bucket enforces its published rate. Over any sequence of requests in time order, on a
  scope the bucket has not seen, what it lets through is at most its capacity plus what the
  refill rate earns between the first and the last request.\<close>

theorem token_bucket_rate_bound:
  assumes "tb_ok b" "refillable b" "map_of (tb_lastFillAt b) s = None" "rs \<noteq> []" "sorted (map snd rs)"
    "\<forall>r\<in>set rs. tb_clock b (snd r)"
  shows "tb_spend b s rs * tb_interval b \<le>
    tb_capacity b * tb_interval b + (snd (last rs) - snd (hd rs)) * tb_refill b"
  using assms
proof (induction rs)
  case (Cons r rs)
  obtain c t where r: "r = (c, t)" by (cases r)
  let ?b = "fst (TB_Admit b s c t)"
  have i: "0 < tb_interval b" "0 < tb_refill b" "0 \<le> tb_capacity b"
    using Cons.prems(1,2) by (auto simp: refillable_def tb_ok_def tb_config_ok_def)
  have t: "tb_timely b s t" using Cons.prems(3,6) by (auto simp: tb_timely_def tb_clock_def r)
  have tl: "t \<le> snd (last (r # rs))" using Cons.prems(5) by (cases rs rule: rev_cases) (auto simp: r sorted_append)
  show ?case
  proof (cases rule: tb_admit_effect [OF Cons.prems(1,2) t, where c = c])
    case 1
    have e: "tb_spend b s (r # rs) = tb_spend b s rs" using 1 by (auto simp: r)
    show ?thesis
    proof (cases "rs = []")
      case False
      then have "tb_spend b s rs * tb_interval b \<le> tb_capacity b * tb_interval b + (snd (last rs) - snd (hd rs)) * tb_refill b"
        using Cons.prems by (intro Cons.IH) auto
      also have "\<dots> \<le> tb_capacity b * tb_interval b + (snd (last rs) - t) * tb_refill b"
        using False Cons.prems(5) i by (intro add_left_mono mult_right_mono) (auto simp: r neq_Nil_conv)
      finally show ?thesis using e False by (simp add: r)
    qed (use e i in \<open>simp add: r\<close>)
  next
    case (2 x)
    have av: "tb_available b s t \<le> tb_capacity b * tokenScale" using tb_available_range [OF Cons.prems(1) t] by simp
    have "tb_spend ?b s rs * tokenScale * tb_interval ?b \<le>
        mget (tb_tokens ?b) s * tb_interval ?b + (last (t # map snd rs) - t) * (tb_refill ?b * tokenScale)"
      using tb_ok_admit [OF Cons.prems(1) t] 2(2) t Cons.prems(2,5,6)
      by (intro tb_spend_filled) (auto simp: tb_timely_def r refillable_def TB_Admit_frame)
    moreover have "last (t # map snd rs) = snd (last (r # rs))" by (simp add: r last_map)
    ultimately have "(x + tb_spend ?b s rs) * tokenScale * tb_interval b \<le>
        tb_available b s t * tb_interval b + (snd (last (r # rs)) - t) * (tb_refill b * tokenScale)"
      using 2(4) by (simp add: TB_Admit_frame algebra_simps)
    also have "\<dots> \<le> tb_capacity b * tokenScale * tb_interval b + (snd (last (r # rs)) - t) * (tb_refill b * tokenScale)"
      using av i by (intro add_right_mono mult_right_mono) auto
    finally show ?thesis using 2(1,3) by (simp add: r algebra_simps)
  qed
qed simp

theorem token_bucket_rate_bound_witness:
  "tb_spend (NewTokenBucket ''b'' 10 3 1000000000) ''c'' [(8, 5), (8, 6), (5, 2000000006), (5, 2000000007)] = 13 \<and>
   (13::int) * 1000000000 \<le> 10 * 1000000000 + (2000000007 - 5) * 3"
proof -
  let ?b = "NewTokenBucket ''b'' 10 3 1000000000" and ?rs = "[(8, 5), (8, 6), (5, 2000000006), (5, 2000000007)]"
  have b: "tb_spend ?b ''c'' ?rs = 13" "refillable ?b" "tb_lastFillAt ?b = []" "tb_tokens ?b = []" "tb_config_ok ?b"
    "tb_capacity ?b = 10" "tb_refill ?b = 3" "tb_interval ?b = 1000000000" by code_simp+
  then have "tb_ok ?b" by (simp add: tb_ok_def mget_def)
  with token_bucket_rate_bound [of ?b "''c''" ?rs] b show ?thesis by (simp add: tb_clock_def is_i64_def)
qed

end
