(* ===== verification/Admission.thy ===== *)
theory Admission
  imports Rate_Limit
begin

text \<open>The admission gate of a venue (\<open>ratelimit/admission.go\<close>, \<open>ratelimit/schemes.go\<close>,
  \<open>ratelimit/stream.go\<close>) and the per-client policy built on it (\<open>exchange/tiered_policy.go\<close>,
  \<open>exchange/ratelimit.go\<close>): request kinds and prices, the two-lane execution backlog with its
  receipts, the gate that charges every budget or none, the market-data guard.

  Limiters are shared by pointer between meters and between the gates of one tier, so they live
  in a store and a meter holds an index into it. Two meters are charged together exactly when
  they hold the same index. The index stands for the identity that \<open>sameLimiter\<close> compares; both limiters of the package are
  pointers, so its guard against uncomparable types, which only a limiter of the caller's own can meet, is not modelled.\<close>

section \<open>Request kinds and prices\<close>

datatype RequestKind = KindUnknown | KindPlaceOrder | KindPlaceReduceOnly | KindCancelOrder | KindCancelAll
  | KindQueryBalance | KindQueryAccount | KindQueryOrder | KindSubscribe | KindUnsubscribe
  | KindCustom nat

fun RiskReducing :: "RequestKind \<Rightarrow> bool" where
  "RiskReducing KindCancelOrder = True"
| "RiskReducing KindCancelAll = True"
| "RiskReducing KindPlaceReduceOnly = True"
| "RiskReducing k = False"

fun kind_string :: "RequestKind \<Rightarrow> string" where
  "kind_string KindPlaceOrder = ''place_order''"
| "kind_string KindPlaceReduceOnly = ''place_reduce_only''"
| "kind_string KindCancelOrder = ''cancel_order''"
| "kind_string KindCancelAll = ''cancel_all''"
| "kind_string KindQueryBalance = ''query_balance''"
| "kind_string KindQueryAccount = ''query_account''"
| "kind_string KindQueryOrder = ''query_order''"
| "kind_string KindSubscribe = ''subscribe''"
| "kind_string KindUnsubscribe = ''unsubscribe''"
| "kind_string k = ''unknown''"

record StaticCost =
  sc_Table :: "(RequestKind, int64) gomap"
  sc_Default :: int64

definition Cost :: "StaticCost \<Rightarrow> RequestKind \<Rightarrow> int64" where
  "Cost c kind = (case map_of (sc_Table c) kind of Some cost \<Rightarrow> cost | None \<Rightarrow> sc_Default c)"

section \<open>The execution backlog\<close>

record AdmissionConfig =
  PriorityDepth :: "int option"
  SecondaryDepth :: "int option"
  cfg_RiskReducing :: "RequestKind \<Rightarrow> bool"

record AdmissionQueue =
  q_cfg :: AdmissionConfig
  q_priority :: int
  q_secondary :: int
  q_nextID :: uint64
  q_generation :: uint64
  q_live :: "uint64 list"

record Slot =
  s_priority :: bool
  s_held :: bool
  s_generation :: uint64
  s_id :: uint64

definition no_slot :: Slot where
  "no_slot = \<lparr>s_priority = False, s_held = False, s_generation = 0, s_id = 0\<rparr>"

text \<open>The process-wide generation counter is passed in and returned; a missing classification is
  replaced by the built-in one.\<close>

definition NewAdmissionQueue ::
  "int option \<Rightarrow> int option \<Rightarrow> (RequestKind \<Rightarrow> bool) option \<Rightarrow> uint64 \<Rightarrow> AdmissionQueue \<times> uint64" where
  "NewAdmissionQueue pd sd classify queueGeneration =
     (let g = u64 (queueGeneration + 1)
      in (\<lparr>q_cfg = \<lparr>PriorityDepth = pd, SecondaryDepth = sd,
             cfg_RiskReducing = (case classify of None \<Rightarrow> RiskReducing | Some f \<Rightarrow> f)\<rparr>,
           q_priority = 0, q_secondary = 0, q_nextID = 0, q_generation = g, q_live = []\<rparr>, g))"

definition full :: "int option \<Rightarrow> int \<Rightarrow> bool" where
  "full depth occupied = (case depth of None \<Rightarrow> False | Some n \<Rightarrow> occupied \<ge> n)"

definition issue :: "AdmissionQueue \<Rightarrow> bool \<Rightarrow> AdmissionQueue \<times> Slot" where
  "issue q prio =
     (let i = u64 (q_nextID q + 1)
      in (q\<lparr>q_nextID := i, q_live := (if i \<in> set (q_live q) then q_live q else i # q_live q)\<rparr>,
          \<lparr>s_priority = prio, s_held = True, s_generation = q_generation q, s_id = i\<rparr>))"

definition queue_full :: "string \<Rightarrow> Decision" where
  "queue_full l = \<lparr>Allowed = False, DLimit = l, RetryAfter = 0, Overloaded = True, Impossible = False\<rparr>"

definition Offer :: "AdmissionQueue \<Rightarrow> RequestKind \<Rightarrow> AdmissionQueue \<times> Decision \<times> Slot" where
  "Offer q kind =
     (if cfg_RiskReducing (q_cfg q) kind then
        if full (PriorityDepth (q_cfg q)) (q_priority q) then (q, queue_full ''queue_priority'', no_slot)
        else let (q', s) = issue (q\<lparr>q_priority := i64 (q_priority q + 1)\<rparr>) True in (q', Allow, s)
      else if full (SecondaryDepth (q_cfg q)) (q_secondary q) then (q, queue_full ''queue_secondary'', no_slot)
      else let (q', s) = issue (q\<lparr>q_secondary := i64 (q_secondary q + 1)\<rparr>) False in (q', Allow, s))"

definition Complete :: "AdmissionQueue \<Rightarrow> Slot \<Rightarrow> AdmissionQueue" where
  "Complete q slot =
     (if \<not> s_held slot then q
      else if s_generation slot \<noteq> q_generation q then q
      else if s_id slot \<notin> set (q_live q) then q
      else let q' = q\<lparr>q_live := removeAll (s_id slot) (q_live q)\<rparr>
           in if s_priority slot then
                (if q_priority q' > 0 then q'\<lparr>q_priority := q_priority q' - 1\<rparr> else q')
              else (if q_secondary q' > 0 then q'\<lparr>q_secondary := q_secondary q' - 1\<rparr> else q'))"

definition Depth :: "AdmissionQueue \<Rightarrow> int \<times> int" where
  "Depth q = (q_priority q, q_secondary q)"

section \<open>The gate\<close>

text \<open>A meter pairs the index of its budget in the store with the cost model that charges it.\<close>

record Meter =
  m_limiter :: nat
  m_cost :: "RequestKind \<Rightarrow> int64"

fun add_charge :: "(nat \<times> int64) list \<Rightarrow> nat \<Rightarrow> int64 \<Rightarrow> (nat \<times> int64) list" where
  "add_charge [] i c = [(i, c)]"
| "add_charge ((j, d) # cs) i c = (if j = i then (j, i64 (d + c)) # cs else (j, d) # add_charge cs i c)"

fun sum_charges :: "Meter list \<Rightarrow> RequestKind \<Rightarrow> (nat \<times> int64) list \<Rightarrow> (nat \<times> int64) list" where
  "sum_charges [] kind cs = cs"
| "sum_charges (m # ms) kind cs = sum_charges ms kind (add_charge cs (m_limiter m) (m_cost m kind))"

text \<open>A nil backlog, typed or not, admits everything with the empty slot.\<close>

definition queue_offer :: "AdmissionQueue option \<Rightarrow> RequestKind \<Rightarrow> AdmissionQueue option \<times> Decision \<times> Slot" where
  "queue_offer oq kind = (case oq of None \<Rightarrow> (None, Allow, no_slot)
     | Some q \<Rightarrow> (case Offer q kind of (q', d, s) \<Rightarrow> (Some q', d, s)))"

definition queue_complete :: "AdmissionQueue option \<Rightarrow> Slot \<Rightarrow> AdmissionQueue option" where
  "queue_complete oq slot = map_option (\<lambda>q. Complete q slot) oq"

text \<open>The gate is written against the two interfaces; \<open>Gate_Admit\<close> is the gate over this package's
  budgets and backlog.\<close>

definition gate_admit ::
  "('s \<Rightarrow> string \<Rightarrow> int64 \<Rightarrow> int64 \<Rightarrow> 's \<times> Decision) \<Rightarrow> ('s \<Rightarrow> string \<Rightarrow> int64 \<Rightarrow> int64 \<Rightarrow> Decision) \<Rightarrow>
   ('q \<Rightarrow> RequestKind \<Rightarrow> 'q \<times> Decision \<times> Slot) \<Rightarrow> ('q \<Rightarrow> Slot \<Rightarrow> 'q) \<Rightarrow>
   Meter list \<Rightarrow> 'q \<Rightarrow> 's list \<Rightarrow> string \<Rightarrow> RequestKind \<Rightarrow> int64 \<Rightarrow> 'q \<times> 's list \<times> Decision \<times> Slot" where
  "gate_admit admit would offer complete meters queue store scope kind now =
     (let charges = sum_charges meters kind []
      in case probe_all would store scope now charges of
           Some d \<Rightarrow> (queue, store, d, no_slot)
         | None \<Rightarrow>
             (case offer queue kind of (queue', d, slot) \<Rightarrow>
                if \<not> Allowed d then (queue', store, d, no_slot)
                else (case commit_all admit store scope now charges of
                        (store', Some d') \<Rightarrow> (complete queue' slot, store', d', no_slot)
                      | (store', None) \<Rightarrow> (queue', store', Allow, slot))))"

definition Gate_Admit :: "Meter list \<Rightarrow> AdmissionQueue option \<Rightarrow> limiter_obj list \<Rightarrow> string \<Rightarrow> RequestKind \<Rightarrow> int64 \<Rightarrow>
    AdmissionQueue option \<times> limiter_obj list \<times> Decision \<times> Slot" where
  "Gate_Admit = gate_admit lim_admit lim_would queue_offer queue_complete"

section \<open>Published schemes and the market-data guard\<close>

abbreviation nanos_per_second :: int where "nanos_per_second \<equiv> 1000000000"

definition spot_weight :: StaticCost where
  "spot_weight = \<lparr>sc_Table = [(KindPlaceOrder, 1), (KindPlaceReduceOnly, 1), (KindCancelOrder, 1), (KindCancelAll, 1),
     (KindQueryOrder, 4), (KindQueryBalance, 20), (KindQueryAccount, 20), (KindSubscribe, 2), (KindUnsubscribe, 2)],
     sc_Default = 1\<rparr>"

definition spot_placements :: StaticCost where
  "spot_placements = \<lparr>sc_Table = [(KindPlaceOrder, 1), (KindPlaceReduceOnly, 1)], sc_Default = 0\<rparr>"

definition BinanceSpotLike :: "limiter_obj list \<times> Meter list" where
  "BinanceSpotLike =
     ([FW (NewFixedWindow ''request_weight_1m'' 6000 (60 * nanos_per_second)),
       FW (NewFixedWindow ''orders_10s'' 100 (10 * nanos_per_second)),
       FW (NewFixedWindow ''orders_1d'' 200000 (86400 * nanos_per_second))],
      [\<lparr>m_limiter = 0, m_cost = Cost spot_weight\<rparr>, \<lparr>m_limiter = 1, m_cost = Cost spot_placements\<rparr>,
       \<lparr>m_limiter = 2, m_cost = Cost spot_placements\<rparr>])"

definition SmoothedBudget :: "string \<Rightarrow> int64 \<Rightarrow> int64 \<Rightarrow> (RequestKind \<Rightarrow> int64) \<Rightarrow> nat \<Rightarrow> limiter_obj \<times> Meter" where
  "SmoothedBudget name capacity perSecond cost i =
     (TB (NewTokenBucket name capacity perSecond nanos_per_second), \<lparr>m_limiter = i, m_cost = cost\<rparr>)"

record StreamLimits =
  MaxStreamsPerConnection :: int
  ControlMessagesPerSec :: int64

definition BinanceStreamLike :: StreamLimits where
  "BinanceStreamLike = \<lparr>MaxStreamsPerConnection = 1024, ControlMessagesPerSec = 5\<rparr>"

record StreamGuard =
  sg_limits :: StreamLimits
  sg_streams :: "(string, int) gomap"
  sg_control :: "TokenBucket option"

definition NewStreamGuard :: "StreamLimits \<Rightarrow> StreamGuard" where
  "NewStreamGuard limits = \<lparr>sg_limits = limits, sg_streams = [],
     sg_control = (if ControlMessagesPerSec limits > 0 then
       Some (NewTokenBucket ''control_messages'' (ControlMessagesPerSec limits) (ControlMessagesPerSec limits) nanos_per_second)
       else None)\<rparr>"

definition Control :: "StreamGuard \<Rightarrow> string \<Rightarrow> int64 \<Rightarrow> StreamGuard \<times> Decision" where
  "Control g connection now = (case sg_control g of None \<Rightarrow> (g, Allow)
     | Some b \<Rightarrow> (case TB_Admit b connection 1 now of (b', d) \<Rightarrow> (g\<lparr>sg_control := Some b'\<rparr>, d)))"

definition add_stream :: "StreamGuard \<Rightarrow> string \<Rightarrow> int \<Rightarrow> StreamGuard" where
  "add_stream g connection d = g\<lparr>sg_streams := mput (sg_streams g) connection (i64 (mget (sg_streams g) connection + d))\<rparr>"

definition Subscribe :: "StreamGuard \<Rightarrow> string \<Rightarrow> int64 \<Rightarrow> StreamGuard \<times> Decision" where
  "Subscribe g connection now =
     (let (g1, d) = Control g connection now
      in if \<not> Allowed d then (g1, d)
         else if MaxStreamsPerConnection (sg_limits g1) \<le> 0 then (add_stream g1 connection 1, Allow)
         else if mget (sg_streams g1) connection \<ge> MaxStreamsPerConnection (sg_limits g1) then
           (g1, \<lparr>Allowed = False, DLimit = ''streams_per_connection'', RetryAfter = 0, Overloaded = False, Impossible = False\<rparr>)
         else (add_stream g1 connection 1, Allow))"

definition Unsubscribe :: "StreamGuard \<Rightarrow> string \<Rightarrow> StreamGuard" where
  "Unsubscribe g connection = (if mget (sg_streams g) connection > 0 then add_stream g connection (-1) else g)"

definition Streams :: "StreamGuard \<Rightarrow> string \<Rightarrow> int" where
  "Streams g connection = mget (sg_streams g) connection"

section \<open>Summed charges\<close>

definition charge_for :: "Meter list \<Rightarrow> RequestKind \<Rightarrow> nat \<Rightarrow> int64" where
  "charge_for ms kind i = i64 (\<Sum>m\<leftarrow>filter (\<lambda>m. m_limiter m = i) ms. m_cost m kind)"

lemma add_charge_fst: "map fst (add_charge cs i c) = (if i \<in> fst ` set cs then map fst cs else map fst cs @ [i])"
  by (induction cs i c rule: add_charge.induct) auto

lemma add_charge_lookup:
  "map_of (add_charge cs i c) j =
     (if j = i then Some (case map_of cs i of None \<Rightarrow> c | Some d \<Rightarrow> i64 (d + c)) else map_of cs j)"
  by (induction cs i c rule: add_charge.induct) (auto split: option.splits)

lemma sum_charges_fst:
  "distinct (map fst cs) \<Longrightarrow> distinct (map fst (sum_charges ms kind cs)) \<and>
     fst ` set (sum_charges ms kind cs) = fst ` set cs \<union> m_limiter ` set ms"
proof (induction ms arbitrary: cs)
  case (Cons m ms)
  let ?c = "add_charge cs (m_limiter m) (m_cost m kind)"
  have f: "map fst ?c = (if m_limiter m \<in> fst ` set cs then map fst cs else map fst cs @ [m_limiter m])"
    by (rule add_charge_fst)
  have "distinct (map fst ?c)" using Cons.prems unfolding f by auto
  moreover have "fst ` set ?c = insert (m_limiter m) (fst ` set cs)"
    using arg_cong [OF f, of set] by (auto split: if_splits)
  ultimately show ?case using Cons.IH [of ?c] by auto
qed auto

abbreviation charged :: "(nat \<times> int64) list \<Rightarrow> nat \<Rightarrow> int64" where
  "charged cs j \<equiv> (case map_of cs j of None \<Rightarrow> 0 | Some d \<Rightarrow> d)"

lemma sum_charges_lookup:
  assumes "\<forall>m\<in>set ms. is_i64 (m_cost m kind)" "\<forall>j. is_i64 (charged cs j)"
  shows "charged (sum_charges ms kind cs) j =
    i64 (charged cs j + (\<Sum>m\<leftarrow>filter (\<lambda>m. m_limiter m = j) ms. m_cost m kind))"
  using assms
proof (induction ms arbitrary: cs)
  case Nil
  then show ?case by (simp add: i64_id)
next
  case (Cons m ms)
  let ?c = "add_charge cs (m_limiter m) (m_cost m kind)"
  have c: "charged ?c k = (if k = m_limiter m then i64 (charged cs k + m_cost m kind) else charged cs k)" for k
    using Cons.prems(1) by (auto simp: add_charge_lookup i64_id split: option.splits)
  have "charged (sum_charges ms kind ?c) j =
      i64 (charged ?c j + (\<Sum>m\<leftarrow>filter (\<lambda>m. m_limiter m = j) ms. m_cost m kind))"
    using Cons.prems by (intro Cons.IH) (auto simp: c)
  then show ?case by (simp add: c i64_add_cong add.assoc)
qed

definition meters_ok :: "Meter list \<Rightarrow> nat \<Rightarrow> bool" where
  "meters_ok ms n \<longleftrightarrow> (\<forall>m\<in>set ms. m_limiter m < n \<and> (\<forall>k. is_i64 (m_cost m k)))"

lemma charges_facts:
  assumes "meters_ok ms n"
  shows "distinct (map fst (sum_charges ms kind []))" "\<forall>(i, c)\<in>set (sum_charges ms kind []). i < n"
    "charged (sum_charges ms kind []) i = charge_for ms kind i"
proof -
  have f: "distinct (map fst (sum_charges ms kind []))" "fst ` set (sum_charges ms kind []) = m_limiter ` set ms"
    using sum_charges_fst [of "[]" ms kind] by simp_all
  show "distinct (map fst (sum_charges ms kind []))" by (rule f)
  have "i < n" if "(i, c) \<in> set (sum_charges ms kind [])" for i c
  proof -
    have "i \<in> m_limiter ` set ms" using that f(2) by force
    with assms show ?thesis by (auto simp: meters_ok_def)
  qed
  then show "\<forall>(i, c)\<in>set (sum_charges ms kind []). i < n" by auto
  show "charged (sum_charges ms kind []) i = charge_for ms kind i"
    using assms by (subst sum_charges_lookup) (auto simp: meters_ok_def charge_for_def is_i64_def)
qed

section \<open>The backlog interface and the gate over it\<close>

text \<open>What a gate relies on: a refused offer changes nothing, and returning the receipt just issued
  gives the place back.\<close>

locale backlog =
  fixes offer :: "'q \<Rightarrow> RequestKind \<Rightarrow> 'q \<times> Decision \<times> Slot"
    and complete :: "'q \<Rightarrow> Slot \<Rightarrow> 'q"
    and lanes :: "'q \<Rightarrow> int \<times> int"
    and sound :: "'q \<Rightarrow> bool"
  assumes refused: "offer q k = (q', d, s) \<Longrightarrow> \<not> Allowed d \<Longrightarrow> q' = q"
    and refund: "offer q k = (q', d, s) \<Longrightarrow> sound q \<Longrightarrow> lanes (complete q' s) = lanes q"
    and once: "complete (complete q s) s = complete q s"

locale admission_gate = limiter + backlog
begin

abbreviation ask where "ask \<equiv> gate_admit admit would offer complete"

lemma probe_refused: "probe_all would ls sc t cs = Some d \<Longrightarrow> \<not> Allowed d"
  by (induction cs) (auto simp: Let_def split: if_splits)

lemma probe_all_Some: "probe_all would ls sc t cs = None \<Longrightarrow> (i, c) \<in> set cs \<Longrightarrow> Allowed (would (ls ! i) sc c t)"
  by (induction cs) (auto simp: Let_def split: if_splits)

lemma commit_refused: "commit_all admit ls sc t cs = (ls', Some d) \<Longrightarrow> \<not> Allowed d"
  by (induction cs arbitrary: ls) (auto simp: Let_def split: prod.splits if_splits)

lemma released:
  assumes "ask ms q store sc k t = (q', store', d, s)" "Allowed d" "sound q"
  shows "lanes (complete q' s) = lanes q \<and> complete (complete q' s) s = complete q' s"
  using assms by (auto simp: gate_admit_def Let_def once Allow_def dest: probe_refused commit_refused refund
    split: option.splits prod.splits if_splits)

lemma refused_nothing:
  assumes m: "meters_ok ms (length store)" and a: "ask ms q store sc k t = (q', store', d, s)" and d: "\<not> Allowed d"
  shows "q' = q \<and> store' = store \<and> s = no_slot"
proof (cases "probe_all would store sc t (sum_charges ms k [])")
  case None
  obtain ls' where "commit_all admit store sc t (sum_charges ms k []) = (ls', None)"
    using commit_after_probe [OF charges_facts(1,2) [OF m] None] by blast
  with None a d show ?thesis
    using refused by (auto simp: gate_admit_def Let_def Allow_def split: prod.splits if_splits)
qed (use a in \<open>auto simp: gate_admit_def\<close>)

lemma admitted_charges:
  assumes m: "meters_ok ms (length store)" and a: "ask ms q store sc k t = (q', store', d, s)" and d: "Allowed d"
  shows "\<exists>dq. offer q k = (q', dq, s) \<and> Allowed dq \<and> length store' = length store \<and>
    (\<forall>i<length store. Allowed (would (store ! i) sc (charge_for ms k i) t) \<and>
       store' ! i = fst (admit (store ! i) sc (charge_for ms k i) t))"
proof -
  let ?cs = "sum_charges ms k []"
  have p: "probe_all would store sc t ?cs = None"
    using a d by (cases "probe_all would store sc t ?cs") (auto simp: gate_admit_def dest: probe_refused)
  obtain ls' where c: "commit_all admit store sc t ?cs = (ls', None)" "length ls' = length store"
    "\<forall>i<length store. ls' ! i = (case map_of ?cs i of None \<Rightarrow> store ! i | Some c \<Rightarrow> fst (admit (store ! i) sc c t))"
    using commit_after_probe [OF charges_facts(1,2) [OF m] p] by blast
  have "Allowed (would (store ! i) sc (charge_for ms k i) t) \<and> ls' ! i = fst (admit (store ! i) sc (charge_for ms k i) t)"
    if "i < length store" for i
  proof (cases "map_of ?cs i")
    case None
    then have "charge_for ms k i = 0" using charges_facts(3) [OF m, of k i] by simp
    then show ?thesis using c(3) that None by (simp add: free would_admit Allow_def)
  next
    case (Some x)
    then have "charge_for ms k i = x" using charges_facts(3) [OF m, of k i] by simp
    then show ?thesis using c(3) that Some probe_all_Some [OF p map_of_SomeD [OF Some]] by simp
  qed
  with a d p c(1,2) show ?thesis by (auto simp: gate_admit_def split: prod.splits if_splits)
qed

lemma decision:
  assumes m: "meters_ok ms (length store)"
  shows "fst (snd (snd (ask ms q store sc k t))) = (case probe_all would store sc t (sum_charges ms k []) of
    Some d \<Rightarrow> d | None \<Rightarrow> (if Allowed (fst (snd (offer q k))) then Allow else fst (snd (offer q k))))"
proof (cases "probe_all would store sc t (sum_charges ms k [])")
  case None
  obtain ls' where "commit_all admit store sc t (sum_charges ms k []) = (ls', None)"
    using commit_after_probe [OF charges_facts(1,2) [OF m] None] by blast
  with None show ?thesis by (simp add: gate_admit_def split: prod.splits)
qed (simp add: gate_admit_def)

text \<open>Two stores look the same from a scope when every budget gives it the same answers.\<close>

definition same_view :: "string \<Rightarrow> 'a list \<Rightarrow> 'a list \<Rightarrow> bool" where
  "same_view sc ls ls' \<longleftrightarrow> length ls' = length ls \<and>
     (\<forall>i<length ls. \<forall>c t. would (ls' ! i) sc c t = would (ls ! i) sc c t)"

lemma ask_other_scope:
  assumes m: "meters_ok ms (length store)" and a: "ask ms q store sc' k t = (q', store', d, s)" and ne: "sc \<noteq> sc'"
  shows "same_view sc store store'"
proof (cases "Allowed d")
  case True
  from admitted_charges [OF m a True] show ?thesis using ne by (auto simp: same_view_def other_scope)
next
  case False
  from refused_nothing [OF m a False] show ?thesis by (simp add: same_view_def)
qed

lemma probe_same_view:
  assumes m: "meters_ok ms (length ls)" and v: "same_view sc ls ls'"
  shows "probe_all would ls' sc t (sum_charges ms k []) = probe_all would ls sc t (sum_charges ms k [])"
proof -
  have "\<forall>(i, c)\<in>set cs. i < length ls \<Longrightarrow> probe_all would ls' sc t cs = probe_all would ls sc t cs" for cs
    using v by (induction cs) (auto simp: same_view_def Let_def)
  then show ?thesis using charges_facts(2) [OF m] by blast
qed

end

section \<open>The two-lane queue honours it\<close>

lemmas queue_defs = Offer_def issue_def Complete_def Let_def

text \<open>A queue with its history: every receipt it has handed out and every receipt that was brought to it. Each
  offer either hands one out or changes nothing; a return may bring a receipt of this queue, also one brought
  before, an empty one, or one of another queue, and is recorded whatever the queue makes of it.\<close>

inductive queue_run :: "AdmissionQueue \<Rightarrow> Slot list \<Rightarrow> Slot list \<Rightarrow> bool" where
  start: "NewAdmissionQueue pd sd f g = (q, g') \<Longrightarrow> queue_run q [] []"
| offer: "queue_run q issued returned \<Longrightarrow> Offer q k = (q', d, s) \<Longrightarrow> int (length issued) < MaxInt64 \<Longrightarrow>
    queue_run q' (if Allowed d then s # issued else issued) returned"
| complete: "queue_run q issued returned \<Longrightarrow> s \<in> set issued \<or> \<not> s_held s \<or> s_generation s \<noteq> q_generation q \<Longrightarrow>
    queue_run (Complete q s) issued (s # returned)"

text \<open>The receipts of a lane that were handed out and never brought back: a function of the history alone.\<close>

definition outstanding :: "Slot list \<Rightarrow> Slot list \<Rightarrow> bool \<Rightarrow> Slot list" where
  "outstanding issued returned p = filter (\<lambda>s. s_priority s = p \<and> s \<notin> set returned) issued"

text \<open>The receipts the queue's own table of live work still knows.\<close>

definition known :: "AdmissionQueue \<Rightarrow> Slot list \<Rightarrow> bool \<Rightarrow> Slot list" where
  "known q ss p = filter (\<lambda>s. s_priority s = p \<and> s_id s \<in> set (q_live q)) ss"

definition lane :: "AdmissionQueue \<Rightarrow> bool \<Rightarrow> int" where
  "lane q p = (if p then q_priority q else q_secondary q)"

definition lane_depth :: "AdmissionQueue \<Rightarrow> bool \<Rightarrow> int option" where
  "lane_depth q p = (if p then PriorityDepth (q_cfg q) else SecondaryDepth (q_cfg q))"

definition queue_inv :: "AdmissionQueue \<Rightarrow> Slot list \<Rightarrow> bool" where
  "queue_inv q ss \<longleftrightarrow> distinct (map s_id ss) \<and> q_nextID q = int (length ss) \<and> int (length ss) \<le> MaxInt64 \<and>
     (\<forall>s\<in>set ss. s_held s \<and> s_generation s = q_generation q \<and> s_id s \<le> q_nextID q) \<and>
     set (q_live q) \<subseteq> s_id ` set ss \<and>
     (\<forall>p. lane q p = int (length (known q ss p))) \<and>
     (\<forall>p n. lane_depth q p = Some n \<longrightarrow> lane q p \<le> max 0 n)"

lemma Offer_cases:
  assumes "Offer q k = (q', d, s)"
  obtains (refused) "\<not> Allowed d" "q' = q" "s = no_slot" "full (lane_depth q (cfg_RiskReducing (q_cfg q) k)) (lane q (cfg_RiskReducing (q_cfg q) k))"
  | (issued) p i where "p = cfg_RiskReducing (q_cfg q) k" "i = u64 (q_nextID q + 1)" "Allowed d" "\<not> full (lane_depth q p) (lane q p)"
    "s = \<lparr>s_priority = p, s_held = True, s_generation = q_generation q, s_id = i\<rparr>"
    "q_cfg q' = q_cfg q" "q_nextID q' = i" "q_generation q' = q_generation q" "set (q_live q') = insert i (set (q_live q))"
    "lane q' p = i64 (lane q p + 1)" "lane q' (\<not> p) = lane q (\<not> p)"
proof (cases "full (lane_depth q (cfg_RiskReducing (q_cfg q) k)) (lane q (cfg_RiskReducing (q_cfg q) k))")
  case True
  then show thesis using assms
    by (intro refused) (auto simp: Offer_def lane_def lane_depth_def queue_full_def split: if_splits)
next
  case False
  then show thesis using assms
    by (intro issued [of "cfg_RiskReducing (q_cfg q) k" "u64 (q_nextID q + 1)"])
      (auto simp: Offer_def issue_def Let_def lane_def lane_depth_def Allow_def insert_absorb split: if_splits)
qed

lemma Complete_cases:
  obtains (none) "Complete q s = q" "\<not> s_held s \<or> s_generation s \<noteq> q_generation q \<or> s_id s \<notin> set (q_live q)"
  | (freed) "s_held s" "s_generation s = q_generation q" "s_id s \<in> set (q_live q)"
    "q_cfg (Complete q s) = q_cfg q" "q_nextID (Complete q s) = q_nextID q" "q_generation (Complete q s) = q_generation q"
    "set (q_live (Complete q s)) = set (q_live q) - {s_id s}"
    "lane (Complete q s) (s_priority s) = (if lane q (s_priority s) > 0 then lane q (s_priority s) - 1 else lane q (s_priority s))"
    "lane (Complete q s) (\<not> s_priority s) = lane q (\<not> s_priority s)"
proof (cases "\<not> s_held s \<or> s_generation s \<noteq> q_generation q \<or> s_id s \<notin> set (q_live q)")
  case True
  then show thesis by (intro none) (auto simp: Complete_def)
next
  case False
  then show thesis by (intro freed) (auto simp: Complete_def Let_def lane_def)
qed

lemma lane_depth_cong: "q_cfg q' = q_cfg q \<Longrightarrow> lane_depth q' p = lane_depth q p"
  by (simp add: lane_depth_def)

lemma queue_inv_start: "NewAdmissionQueue pd sd f g = (q, g') \<Longrightarrow> queue_inv q []"
  by (auto simp: NewAdmissionQueue_def Let_def queue_inv_def lane_def known_def)

lemma known_new:
  assumes "s_id s \<notin> s_id ` set ss" "set (q_live q') = insert (s_id s) (set (q_live q))"
  shows "known q' (s # ss) p = (if s_priority s = p then s # known q ss p else known q ss p)"
proof -
  have "s_id x \<noteq> s_id s" if "x \<in> set ss" for x using that assms(1) by (metis imageI)
  then have "known q' ss p = known q ss p"
    unfolding known_def assms(2) by (intro filter_cong) auto
  then show ?thesis by (simp add: known_def assms(2))
qed

lemma queue_inv_offer:
  assumes inv: "queue_inv q ss" and o: "Offer q k = (q', d, s)" and n: "int (length ss) < MaxInt64"
  shows "queue_inv q' (if Allowed d then s # ss else ss)"
  using o
proof (cases rule: Offer_cases)
  case refused
  then show ?thesis using inv by simp
next
  case (issued p i)
  have i: "i = int (length ss) + 1" using inv n issued(2) by (simp add: queue_inv_def u64_def)
  have new: "s_id s \<notin> s_id ` set ss" using inv issued(5) i by (fastforce simp: queue_inv_def)
  have ln: "lane q r = int (length (known q ss r))" for r using inv by (simp add: queue_inv_def)
  have le: "length (known q ss r) \<le> length ss" for r by (simp add: known_def)
  have up: "lane q' p = lane q p + 1"
    using issued(10) ln [of p] le [of p] n by (simp add: i64_id is_i64_def)
  have out: "known q' (s # ss) r = (if r = p then s # known q ss r else known q ss r)" for r
    using known_new [OF new, of q' q r] issued(5,9) by auto
  have "lane q' r = int (length (known q' (s # ss) r))" for r
    using up issued(11) ln by (cases "r = p") (auto simp: out)
  moreover have "lane q' r \<le> max 0 m" if "lane_depth q' r = Some m" for r m
    using that inv up issued(4,6,11) lane_depth_cong [OF issued(6)]
    by (cases "r = p") (auto simp: queue_inv_def full_def split: option.splits)
  moreover have "\<forall>x\<in>set (s # ss). s_held x \<and> s_generation x = q_generation q' \<and> s_id x \<le> q_nextID q'"
    using inv issued(5,7,8) i by (fastforce simp: queue_inv_def)
  moreover have "set (q_live q') \<subseteq> s_id ` set (s # ss)" using inv issued(5,9) by (auto simp: queue_inv_def)
  ultimately show ?thesis using inv new issued(3,5,7) i n by (simp add: queue_inv_def)
qed

lemma known_freed:
  assumes "distinct (map s_id ss)" "s \<in> set ss" "s_id s \<in> set (q_live q)" "set (q_live q') = set (q_live q) - {s_id s}"
  shows "length (known q ss p) = length (known q' ss p) + (if s_priority s = p then 1 else 0)"
proof -
  have inj: "x = s" if "x \<in> set ss" "s_id x = s_id s" for x
    using that assms(1,2) by (metis distinct_map inj_on_eq_iff)
  have d: "distinct ss" using assms(1) by (simp add: distinct_map)
  have "set (known q ss p) = set (known q' ss p) \<union> (if s_priority s = p then {s} else {})"
    using assms(2-4) inj by (auto simp: known_def)
  moreover have "s \<notin> set (known q' ss p)" using assms(4) by (simp add: known_def)
  moreover have "distinct (known q ss p)" "distinct (known q' ss p)" using d by (simp_all add: known_def)
  ultimately show ?thesis by (auto simp flip: distinct_card)
qed

lemma queue_inv_complete:
  assumes inv: "queue_inv q ss" and s: "s \<in> set ss \<or> \<not> s_held s \<or> s_generation s \<noteq> q_generation q"
  shows "queue_inv (Complete q s) ss"
proof (cases rule: Complete_cases [of q s])
  case none
  then show ?thesis using inv by simp
next
  case freed
  have ss: "s \<in> set ss" using s freed(1,2) by blast
  have d: "distinct (map s_id ss)" using inv by (simp add: queue_inv_def)
  note out = known_freed [OF d ss freed(3,7)]
  have ln: "lane q r = int (length (known q ss r))" for r using inv by (simp add: queue_inv_def)
  have l: "lane (Complete q s) r = int (length (known (Complete q s) ss r))" for r
    using freed(8,9) ln [of r] out [of r] by (cases "r = s_priority s") auto
  moreover have "lane (Complete q s) r \<le> max 0 n" if "lane_depth (Complete q s) r = Some n" for r n
  proof -
    have "lane q r \<le> max 0 n" using inv that lane_depth_cong [OF freed(4), of r] unfolding queue_inv_def by metis
    with l [of r] ln [of r] out [of r] show ?thesis by simp
  qed
  ultimately show ?thesis using inv freed(5-7) unfolding queue_inv_def by auto
qed

text \<open>The table agrees with the history: a receipt is in it until it is brought back.\<close>

definition history_inv :: "AdmissionQueue \<Rightarrow> Slot list \<Rightarrow> Slot list \<Rightarrow> bool" where
  "history_inv q issued returned \<longleftrightarrow> (\<forall>s\<in>set issued. s_id s \<in> set (q_live q) \<longleftrightarrow> s \<notin> set returned) \<and>
     (\<forall>s\<in>set returned. s \<in> set issued \<or> \<not> s_held s \<or> s_generation s \<noteq> q_generation q)"

lemma history_offer:
  assumes inv: "queue_inv q ss" and h: "history_inv q ss rs" and o: "Offer q k = (q', d, s)" and n: "int (length ss) < MaxInt64"
  shows "history_inv q' (if Allowed d then s # ss else ss) rs"
  using o
proof (cases rule: Offer_cases)
  case refused
  then show ?thesis using h by simp
next
  case (issued p i)
  have i: "i = int (length ss) + 1" using inv n issued(2) by (simp add: queue_inv_def u64_def)
  have new: "s_id x \<noteq> s_id s" if "x \<in> set ss" for x using that inv issued(5) i by (fastforce simp: queue_inv_def)
  have "s \<notin> set rs" using h new issued(5) unfolding history_inv_def by force
  then show ?thesis using h new issued(3,5,8,9) by (auto simp: history_inv_def)
qed

lemma history_complete:
  assumes inv: "queue_inv q ss" and h: "history_inv q ss rs" and s: "s \<in> set ss \<or> \<not> s_held s \<or> s_generation s \<noteq> q_generation q"
  shows "history_inv (Complete q s) ss (s # rs)"
proof (cases rule: Complete_cases [of q s])
  case none
  have own: "s_held x" "s_generation x = q_generation q" if "x \<in> set ss" for x using inv that by (auto simp: queue_inv_def)
  then show ?thesis using h s none by (auto simp: history_inv_def)
next
  case freed
  have inj: "x = s" if "x \<in> set ss" "s_id x = s_id s" for x
    using that s freed(1,2) inv by (metis queue_inv_def distinct_map inj_on_eq_iff)
  show ?thesis using h s inj freed(6,7) by (auto simp: history_inv_def)
qed

lemma queue_run_inv: "queue_run q issued returned \<Longrightarrow> queue_inv q issued \<and> history_inv q issued returned"
proof (induction rule: queue_run.induct)
  case (start pd sd f g q g')
  then show ?case using queue_inv_start by (auto simp: history_inv_def)
next
  case (offer q issued returned k q' d s)
  then show ?case by (blast intro: queue_inv_offer history_offer)
next
  case (complete q issued returned s)
  then show ?case by (blast intro: queue_inv_complete history_complete)
qed

lemma lane_outstanding:
  assumes "queue_run q issued returned"
  shows "lane q p = int (length (outstanding issued returned p))"
proof -
  have "known q issued p = outstanding issued returned p"
    using queue_run_inv [OF assms] unfolding known_def outstanding_def history_inv_def by (intro filter_cong) auto
  then show ?thesis using queue_run_inv [OF assms] by (simp add: queue_inv_def)
qed

lemma Offer_allowed:
  "Allowed (fst (snd (Offer q k))) \<longleftrightarrow> \<not> full (lane_depth q (cfg_RiskReducing (q_cfg q) k)) (lane q (cfg_RiskReducing (q_cfg q) k))"
proof -
  obtain q' d s where "Offer q k = (q', d, s)" by (metis prod_cases3)
  note o = this
  from o show ?thesis by (cases rule: Offer_cases) (use o in auto)
qed

lemma Complete_twice: "Complete (Complete q s) s = Complete q s"
  by (simp add: Complete_def Let_def)

definition queue_roomy :: "AdmissionQueue option \<Rightarrow> bool" where
  "queue_roomy oq \<longleftrightarrow> (case oq of None \<Rightarrow> True
     | Some q \<Rightarrow> 0 \<le> q_priority q \<and> q_priority q < MaxInt64 \<and> 0 \<le> q_secondary q \<and> q_secondary q < MaxInt64)"

definition queue_lanes :: "AdmissionQueue option \<Rightarrow> int \<times> int" where
  "queue_lanes oq = (case oq of None \<Rightarrow> (0, 0) | Some q \<Rightarrow> Depth q)"

lemma Complete_no_slot [simp]: "Complete q no_slot = q"
  by (simp add: Complete_def no_slot_def)

lemma Offer_refund:
  assumes o: "Offer q k = (q', d, s)" and r: "queue_roomy (Some q)"
  shows "Depth (Complete q' s) = Depth q"
  using o
proof (cases rule: Offer_cases)
  case (issued p i)
  have "lane q' p = lane q p + 1" using issued(10) r by (simp add: lane_def queue_roomy_def i64_id is_i64_def)
  moreover have "0 \<le> lane q p" using r by (simp add: lane_def queue_roomy_def)
  ultimately have "lane (Complete q' s) r = lane q r" for r
    using issued by (cases rule: Complete_cases [of q' s]; cases "r = p") auto
  from this [of True] this [of False] show ?thesis by (simp add: lane_def Depth_def)
qed simp

interpretation bl: backlog queue_offer queue_complete queue_lanes queue_roomy
proof (unfold_locales, goal_cases)
  case (1 q k q' d s)
  then show ?case by (cases q) (auto simp: queue_offer_def Allow_def split: prod.splits elim: Offer_cases)
next
  case (2 q k q' d s)
  then show ?case
    by (cases q) (auto simp: queue_offer_def queue_complete_def queue_lanes_def Offer_refund split: prod.splits)
next
  case (3 q s)
  then show ?case by (cases q) (simp_all add: queue_complete_def Complete_twice)
qed

interpretation venue: admission_gate lim_admit lim_would lim_ok lim_timely queue_offer queue_complete queue_lanes queue_roomy
  by unfold_locales

section \<open>Properties\<close>

text \<open>C35: the backlog never loses or manufactures capacity. Whatever offers are made and whatever
  receipts are brought back, once, twice, empty or from another venue, each lane's counter is the
  number of receipts handed out for that lane and never brought back; it never exceeds the configured depth;
  and an offer is refused exactly when its lane has a depth and that many receipts are out.\<close>

theorem queue_occupancy_exact:
  assumes "queue_run q issued returned"
  shows "q_priority q = int (length (outstanding issued returned True)) \<and>
    q_secondary q = int (length (outstanding issued returned False)) \<and>
    (\<forall>n. PriorityDepth (q_cfg q) = Some n \<longrightarrow> q_priority q \<le> max 0 n) \<and>
    (\<forall>n. SecondaryDepth (q_cfg q) = Some n \<longrightarrow> q_secondary q \<le> max 0 n) \<and>
    (\<forall>kind. Allowed (fst (snd (Offer q kind))) \<longleftrightarrow>
       (case (if cfg_RiskReducing (q_cfg q) kind then PriorityDepth (q_cfg q) else SecondaryDepth (q_cfg q)) of
          None \<Rightarrow> True
        | Some n \<Rightarrow> int (length (outstanding issued returned (cfg_RiskReducing (q_cfg q) kind))) < n))"
proof -
  have i: "\<forall>n. lane_depth q p = Some n \<longrightarrow> lane q p \<le> max 0 n" for p
    using queue_run_inv [OF assms] unfolding queue_inv_def by blast
  note l = lane_outstanding [OF assms]
  have "Allowed (fst (snd (Offer q kind))) \<longleftrightarrow>
       (case (if cfg_RiskReducing (q_cfg q) kind then PriorityDepth (q_cfg q) else SecondaryDepth (q_cfg q)) of
          None \<Rightarrow> True
        | Some n \<Rightarrow> int (length (outstanding issued returned (cfg_RiskReducing (q_cfg q) kind))) < n)" for kind
    using l [of "cfg_RiskReducing (q_cfg q) kind"]
    by (simp add: Offer_allowed full_def lane_depth_def not_le split: option.splits)
  then show ?thesis using i [of True] i [of False] l [of True] l [of False] by (simp add: lane_def lane_depth_def)
qed

text \<open>A lane of one place: taken by a first cancel, it refuses a second one; the first receipt, brought back twice,
  frees it once, and a third request takes it.\<close>

theorem queue_occupancy_exact_witness:
  "\<exists>q s q' t. Offer (fst (NewAdmissionQueue (Some 1) None None 4)) KindCancelAll = (q, Allow, s) \<and>
     \<not> Allowed (fst (snd (Offer q KindCancelOrder))) \<and>
     Offer (Complete (Complete q s) s) KindCancelOrder = (q', Allow, t) \<and> q_priority q' = 1 \<and>
     outstanding [t, s] [s, s] True = [t] \<and> \<not> Allowed (fst (snd (Offer q' KindCancelOrder)))"
proof -
  let ?q0 = "fst (NewAdmissionQueue (Some 1) None None 4)"
  have cfg: "PriorityDepth (q_cfg ?q0) = Some 1" "cfg_RiskReducing (q_cfg ?q0) = RiskReducing"
    by (simp_all add: NewAdmissionQueue_def Let_def)
  obtain q d s where o: "Offer ?q0 KindCancelAll = (q, d, s)" by (metis prod_cases3)
  have r0: "queue_run ?q0 [] []" by (rule queue_run.start [of "Some 1" None None 4 _ "u64 5"]) (simp add: NewAdmissionQueue_def Let_def)
  have q: "d = Allow" "s_priority s" "q_cfg q = q_cfg ?q0" "s_id s = 1" "q_cfg (Complete q s) = q_cfg ?q0" "q_nextID q = 1" "q_nextID (Complete q s) = 1"
    using o by (auto simp: Offer_def NewAdmissionQueue_def issue_def full_def Complete_def u64_def i64_def)
  have r1: "queue_run q [s] []" using queue_run.offer [OF r0 o] q(1) by (simp add: Allow_def)
  have r2: "queue_run (Complete (Complete q s) s) [s] [s, s]"
    by (intro queue_run.complete r1) simp_all
  have full1: "\<not> Allowed (fst (snd (Offer q KindCancelOrder)))"
    using queue_occupancy_exact [OF r1] q(2,3) cfg by (simp add: outstanding_def)
  obtain q' d' t where o': "Offer (Complete (Complete q s) s) KindCancelOrder = (q', d', t)" by (metis prod_cases3)
  have "Allowed (fst (snd (Offer (Complete q s) KindCancelOrder)))"
    using queue_occupancy_exact [OF r2 [unfolded Complete_twice]] q(5) cfg by (simp add: outstanding_def)
  then have "Allowed d'" using o' by (simp add: Complete_twice)
  with o' have t: "d' = Allow" "s_priority t" "q_cfg q' = q_cfg ?q0" "s_id t = 2"
    using q(5,7) cfg by (auto simp: Complete_twice Offer_def issue_def Let_def full_def queue_full_def u64_def split: if_splits)
  have r3: "queue_run q' [t, s] [s, s]" using queue_run.offer [OF r2 o'] t(1) by (simp add: Allow_def)
  have out: "outstanding [t, s] [s, s] True = [t]" using t(2,4) q(4) by (auto simp: outstanding_def)
  from queue_occupancy_exact [OF r3] out have "q_priority q' = 1" "\<not> Allowed (fst (snd (Offer q' KindCancelOrder)))"
    using cfg t(3) by simp_all
  with o q(1) full1 o' t(1) out show ?thesis by blast
qed

text \<open>C34: the gate charges every budget or none. A refused request leaves the budgets, the backlog and
  the caller without a slot exactly as they were; an admitted one took a place offered by the
  backlog and charged each budget once with the sum of what its meters ask, every budget having
  agreed to that sum; returning the slot gives the place back and doing so twice changes nothing
  more.\<close>

theorem Gate_Admit_atomic:
  assumes "meters_ok meters (length store)" "Gate_Admit meters queue store scope kind now = (queue', store', d, slot)"
  shows "(\<not> Allowed d \<longrightarrow> queue' = queue \<and> store' = store \<and> slot = no_slot) \<and>
    (Allowed d \<longrightarrow> (\<exists>dq. queue_offer queue kind = (queue', dq, slot) \<and> Allowed dq) \<and> length store' = length store \<and>
       (\<forall>i<length store. Allowed (lim_would (store ! i) scope (charge_for meters kind i) now) \<and>
          store' ! i = fst (lim_admit (store ! i) scope (charge_for meters kind i) now)) \<and>
       (queue_roomy queue \<longrightarrow> queue_lanes (queue_complete queue' slot) = queue_lanes queue \<and>
          queue_complete (queue_complete queue' slot) slot = queue_complete queue' slot))"
proof -
  note a = assms(2) [unfolded Gate_Admit_def]
  show ?thesis using venue.refused_nothing [OF assms(1) a] venue.admitted_charges [OF assms(1) a] venue.released [OF a]
    by blast
qed

lemma spot_meters_ok: "meters_ok (snd BinanceSpotLike) 3"
proof -
  have "is_i64 (Cost spot_weight k)" "is_i64 (Cost spot_placements k)" for k
    by (cases k; simp add: Cost_def spot_weight_def spot_placements_def is_i64_def)+
  then show ?thesis by (simp add: meters_ok_def BinanceSpotLike_def)
qed

definition spot_store :: "limiter_obj list" where
  "spot_store = fst BinanceSpotLike"

theorem Gate_Admit_atomic_witness:
  "\<exists>store'. Gate_Admit (snd BinanceSpotLike) None spot_store ''7'' KindPlaceOrder 5 = (None, store', Allow, no_slot) \<and>
     store' ! 1 = fst (lim_admit (spot_store ! 1) ''7'' 1 5)"
proof -
  let ?g = "Gate_Admit (snd BinanceSpotLike) None spot_store ''7'' KindPlaceOrder 5"
  obtain q st d s where g: "?g = (q, st, d, s)" by (cases ?g)
  have d: "fst (snd (snd ?g)) = Allow" by code_simp
  have c: "charge_for (snd BinanceSpotLike) KindPlaceOrder 1 = 1" by code_simp
  have l: "length spot_store = 3" by (simp add: spot_store_def BinanceSpotLike_def)
  from Gate_Admit_atomic [OF _ g] spot_meters_ok l g d c show ?thesis
    by (auto simp: Allow_def queue_offer_def)
qed

end
