(* ===== verification/Requests.thy ===== *)
theory Requests
  imports Order_Types
begin

text \<open>The requests a gateway delivers and the responses it returns (\<open>types/request.go\<close> and the
  request, query and rejection codes of \<open>types/enums.go\<close>). A pointer field that may be nil is an
  option. \<open>Response.Data\<close> holds any value in the code; the variants here are the ones the modelled
  handlers return.\<close>

type_synonym RequestType = string
type_synonym RejectReason = string

abbreviation ReqPlaceOrder :: RequestType where "ReqPlaceOrder \<equiv> ''place_order''"
abbreviation ReqCancelOrder :: RequestType where "ReqCancelOrder \<equiv> ''cancel_order''"
abbreviation ReqQueryBalance :: RequestType where "ReqQueryBalance \<equiv> ''query_balance''"
abbreviation ReqQueryOrders :: RequestType where "ReqQueryOrders \<equiv> ''query_orders''"
abbreviation ReqQueryInstruments :: RequestType where "ReqQueryInstruments \<equiv> ''query_instruments''"
abbreviation ReqQueryAccount :: RequestType where "ReqQueryAccount \<equiv> ''query_account''"
abbreviation ReqSubscribe :: RequestType where "ReqSubscribe \<equiv> ''subscribe''"
abbreviation ReqUnsubscribe :: RequestType where "ReqUnsubscribe \<equiv> ''unsubscribe''"

record OrderRequest =
  or_RequestID :: uint64
  or_Side :: Side
  or_Type :: OrderType
  or_Price :: int64
  or_Qty :: int64
  or_Symbol :: string
  or_TimeInForce :: TimeInForce
  or_Visibility :: Visibility
  or_IcebergQty :: int64
  or_PositionSide :: PositionSide
  or_PostOnly :: bool
  or_ReduceOnly :: bool

record CancelRequest =
  cr_RequestID :: uint64
  cr_OrderID :: uint64

record QueryRequest =
  qr_RequestID :: uint64
  qr_QueryType :: nat
  qr_Symbol :: string
  qr_Types :: "nat list"

record Request =
  rq_Type :: RequestType
  OrderReq :: "OrderRequest option"
  CancelReq :: "CancelRequest option"
  QueryReq :: "QueryRequest option"

record RetryAdvice =
  RetryAfterNanos :: int64
  ra_Limit :: string

datatype response_data = NoData | Advice RetryAdvice | Number uint64

record Response =
  rs_RequestID :: uint64
  Success :: bool
  Data :: response_data
  Error :: RejectReason

definition no_response :: Response where
  "no_response = \<lparr>rs_RequestID = 0, Success = False, Data = NoData, Error = ''''\<rparr>"

end
