(* ===== verification/Go_Format.thy ===== *)
theory Go_Format
  imports Prelude
begin

text \<open>Number formatting of the Go library as the sources use it: \<open>strconv.FormatUint\<close> and \<open>strconv.FormatInt\<close>
  in base ten, and \<open>hex.EncodeToString\<close>. Each is injective and uses a small alphabet, which is what
  keeps the identifiers built from them apart.\<close>

text \<open>\<open>strconv.FormatUint\<close> in base ten.\<close>

fun digits :: "nat \<Rightarrow> string" where
  "digits n = (if n < 10 then [char_of (48 + n)] else digits (n div 10) @ [char_of (48 + n mod 10)])"

definition FormatInt :: "int \<Rightarrow> string" where
  "FormatInt i = (if i < 0 then CHR ''-'' # digits (nat (- i)) else digits (nat i))"

definition hex_digit :: "nat \<Rightarrow> char" where
  "hex_digit n = (if n < 10 then char_of (48 + n) else char_of (87 + n))"

definition EncodeToString :: "string \<Rightarrow> string" where
  "EncodeToString s = concat (map (\<lambda>c. [hex_digit (of_char c div 16), hex_digit (of_char c mod 16)]) s)"

section \<open>Decimal numbers\<close>

lemma digits_ne [simp]: "digits n \<noteq> []" "[] \<noteq> digits n"
  by (cases "n < 10"; simp add: digits.simps [of n])+

declare digits.simps [simp del]

lemma digit_char_inj:
  assumes "m < 10" "n < 10" "(char_of (48 + m) :: char) = char_of (48 + n)"
  shows "m = (n::nat)"
proof -
  have "(of_char (char_of (48 + m) :: char) :: nat) = of_char (char_of (48 + n) :: char)" using assms(3) by simp
  with assms(1,2) show ?thesis by simp
qed

lemma digits_inj: "digits m = digits n \<Longrightarrow> m = n"
proof (induction m arbitrary: n rule: less_induct)
  case (less m)
  show ?case
  proof (cases "m < 10 \<or> n < 10")
    case True
    with less.prems show ?thesis
      using digit_char_inj by (auto simp: digits.simps [of m] digits.simps [of n] split: if_splits)
  next
    case False
    with less.prems have "digits (m div 10) = digits (n div 10)"
      "(char_of (48 + m mod 10) :: char) = char_of (48 + n mod 10)"
      by (auto simp: digits.simps [of m] digits.simps [of n])
    with False less.IH [of "m div 10"] digit_char_inj [of "m mod 10" "n mod 10"]
    have "m div 10 = n div 10" "m mod 10 = n mod 10" by auto
    then show ?thesis by (metis div_mult_mod_eq)
  qed
qed

lemma digits_alphabet: "c \<in> set (digits n) \<Longrightarrow> 48 \<le> (of_char c :: nat) \<and> (of_char c :: nat) < 58"
proof (induction n rule: less_induct)
  case (less n)
  show ?case
  proof (cases "n < 10 \<or> c \<notin> set (digits (n div 10))")
    case True
    with less.prems show ?thesis by (auto simp: digits.simps [of n] split: if_splits)
  qed (use less.IH [of "n div 10"] in simp)
qed

lemma digits_not [simp]: "CHR ''-'' \<notin> set (digits n)" "CHR ''s'' \<notin> set (digits n)"
  using digits_alphabet [of "CHR ''-''" n] digits_alphabet [of "CHR ''s''" n] by auto

lemma FormatInt_inj: "FormatInt i = FormatInt j \<Longrightarrow> i = j"
  by (auto simp: FormatInt_def split: if_splits dest!: digits_inj dest: arg_cong [where f = set]) (metis digits_not(1) list.set_intros(1))+

lemma FormatInt_not_s [simp]: "CHR ''s'' \<notin> set (FormatInt i)"
  by (simp add: FormatInt_def)

section \<open>Hexadecimal bytes\<close>

lemma hex_digit_inj: "m < 16 \<Longrightarrow> n < 16 \<Longrightarrow> hex_digit m = hex_digit n \<Longrightarrow> m = n"
  by (drule arg_cong [where f = "of_char :: char \<Rightarrow> nat"]) (auto simp: hex_digit_def split: if_splits)

lemma hex_digit_not [simp]: "n < 16 \<Longrightarrow> hex_digit n \<noteq> CHR ''-''"
  by (auto simp: hex_digit_def dest!: arg_cong [where f = "of_char :: char \<Rightarrow> nat"] split: if_splits)

lemma of_char_div [simp]: "(of_char c :: nat) div 16 < 16"
proof -
  have "(of_char c :: nat) mod 256 < 256" by (rule mod_less_divisor) simp
  then have "(of_char c :: nat) < 16 * 16" by simp
  then show ?thesis by (rule less_mult_imp_div_less)
qed

lemma EncodeToString_inj: "EncodeToString s = EncodeToString t \<Longrightarrow> s = t"
proof (induction s arbitrary: t)
  case (Cons c s)
  then obtain d u where t: "t = d # u" by (cases t) (auto simp: EncodeToString_def)
  from Cons.prems have "(of_char c :: nat) div 16 = of_char d div 16" "(of_char c :: nat) mod 16 = of_char d mod 16"
    by (auto simp: t EncodeToString_def intro: hex_digit_inj)
  then have "(of_char c :: nat) = of_char d" by (metis div_mult_mod_eq)
  with Cons show ?case by (auto simp: t EncodeToString_def)
qed (auto simp: EncodeToString_def)

lemma EncodeToString_not_dash [simp]: "CHR ''-'' \<notin> set (EncodeToString s)"
  by (auto simp: EncodeToString_def dest!: sym [of "CHR ''-''"])

end
