(* ===== verification/Request_Policy.thy ===== *)
theory Request_Policy
  imports Admission Requests Go_Format
begin

text \<open>The request policy of the exchange (\<open>exchange/ratelimit.go\<close>, \<open>exchange/tiered_policy.go\<close>): how a
  request is classified, and the tiered policy that meters each client against its tier.

  The meters of a tier are one slice, so every client of a tier charges the same limiter objects;
  a client's budget is separate only because the scope string differs. The limiters therefore
  live in one store of the policy, next to the process-wide generation counter of the queues.
  The queue a gate holds and the one the policy keeps for the client are the same object.\<close>

section \<open>Classification\<close>

definition classifyRequest :: "Request \<Rightarrow> RequestKind" where
  "classifyRequest req =
     (if rq_Type req = ReqPlaceOrder then
        (case OrderReq req of
           Some r \<Rightarrow> if or_ReduceOnly r then KindPlaceReduceOnly else KindPlaceOrder
         | None \<Rightarrow> KindPlaceOrder)
      else if rq_Type req = ReqCancelOrder then KindCancelOrder
      else if rq_Type req = ReqQueryBalance then KindQueryBalance
      else if rq_Type req = ReqQueryAccount then KindQueryAccount
      else if rq_Type req = ReqQueryInstruments then KindQueryOrder
      else if rq_Type req = ReqSubscribe then KindSubscribe
      else if rq_Type req = ReqUnsubscribe then KindUnsubscribe
      else KindUnknown)"

definition requestIDForRejection :: "Request \<Rightarrow> uint64" where
  "requestIDForRejection req =
     (if rq_Type req = ReqPlaceOrder then (case OrderReq req of Some r \<Rightarrow> or_RequestID r | None \<Rightarrow> 0)
      else if rq_Type req = ReqCancelOrder then (case CancelReq req of Some r \<Rightarrow> cr_RequestID r | None \<Rightarrow> 0)
      else (case QueryReq req of Some r \<Rightarrow> qr_RequestID r | None \<Rightarrow> 0))"

section \<open>The tiered policy\<close>

record RequestTier =
  t_Meters :: "Meter list"
  t_PriorityDepth :: "int option"
  t_SecondaryDepth :: "int option"
  t_RiskReducing :: "(RequestKind \<Rightarrow> bool) option"
  t_Queued :: bool

record RequestStats =
  st_Admitted :: int64
  st_RateLimited :: int64
  st_Overloaded :: int64
  st_ByKind :: "(RequestKind, int64) gomap"
  st_ByLimit :: "(string, int64) gomap"

record RequestPermit =
  Held :: bool
  pm_Slot :: Slot
  pm_ClientID :: uint64

record TieredRequestPolicy =
  tp_tiers :: "(string, RequestTier) gomap"
  tp_classify :: "(uint64 \<Rightarrow> string) option"
  tp_gates :: "(uint64, Meter list option) gomap"
  tp_queues :: "(uint64, AdmissionQueue) gomap"
  tp_stats :: "(uint64, RequestStats) gomap"
  tp_limiters :: "limiter_obj list"
  tp_generation :: uint64

definition NewTieredRequestPolicy ::
  "(string, RequestTier) gomap \<Rightarrow> (uint64 \<Rightarrow> string) option \<Rightarrow> limiter_obj list \<Rightarrow> uint64 \<Rightarrow> TieredRequestPolicy" where
  "NewTieredRequestPolicy tiers classify limiters generation =
     \<lparr>tp_tiers = tiers, tp_classify = classify, tp_gates = [], tp_queues = [], tp_stats = [],
      tp_limiters = limiters, tp_generation = generation\<rparr>"

definition no_stats :: RequestStats where
  "no_stats = \<lparr>st_Admitted = 0, st_RateLimited = 0, st_Overloaded = 0, st_ByKind = [], st_ByLimit = []\<rparr>"

definition no_permit :: RequestPermit where
  "no_permit = \<lparr>Held = False, pm_Slot = no_slot, pm_ClientID = 0\<rparr>"

definition statsFor :: "TieredRequestPolicy \<Rightarrow> uint64 \<Rightarrow> TieredRequestPolicy \<times> RequestStats" where
  "statsFor p clientID = (case map_of (tp_stats p) clientID of
      Some s \<Rightarrow> (p, s) | None \<Rightarrow> (p\<lparr>tp_stats := mput (tp_stats p) clientID no_stats\<rparr>, no_stats))"

definition gateFor :: "TieredRequestPolicy \<Rightarrow> uint64 \<Rightarrow> TieredRequestPolicy \<times> Meter list option" where
  "gateFor p clientID =
     (case map_of (tp_gates p) clientID of
        Some gate \<Rightarrow> (p, gate)
      | None \<Rightarrow>
          let name = (case tp_classify p of None \<Rightarrow> '''' | Some f \<Rightarrow> f clientID)
          in (case map_of (tp_tiers p) name of
                None \<Rightarrow> (p\<lparr>tp_gates := mput (tp_gates p) clientID None\<rparr>, None)
              | Some tier \<Rightarrow>
                  let p1 = (if t_Queued tier then
                      (case NewAdmissionQueue (t_PriorityDepth tier) (t_SecondaryDepth tier) (t_RiskReducing tier) (tp_generation p)
                       of (q, g) \<Rightarrow> p\<lparr>tp_queues := mput (tp_queues p) clientID q, tp_generation := g\<rparr>)
                      else p)
                  in (p1\<lparr>tp_gates := mput (tp_gates p1) clientID (Some (t_Meters tier))\<rparr>, Some (t_Meters tier))))"

definition rejectionFor :: "Decision \<Rightarrow> Response" where
  "rejectionFor d = \<lparr>rs_RequestID = 0, Success = False,
     Data = Advice \<lparr>RetryAfterNanos = RetryAfter d, ra_Limit = DLimit d\<rparr>,
     Error = (if Overloaded d then ''OVERLOADED'' else ''RATE_LIMITED'')\<rparr>"

definition scopeFor :: "uint64 \<Rightarrow> string" where
  "scopeFor clientID = digits (nat clientID)"

definition count_stats :: "RequestStats \<Rightarrow> Decision \<Rightarrow> RequestStats" where
  "count_stats st d =
     (if Allowed d then st\<lparr>st_Admitted := i64 (st_Admitted st + 1)\<rparr>
      else
        let st1 = (if Overloaded d then st\<lparr>st_Overloaded := i64 (st_Overloaded st + 1)\<rparr>
                   else st\<lparr>st_RateLimited := i64 (st_RateLimited st + 1)\<rparr>)
        in if DLimit d \<noteq> '''' then st1\<lparr>st_ByLimit := madd (st_ByLimit st1) (DLimit d) 1\<rparr> else st1)"

definition set_queue :: "TieredRequestPolicy \<Rightarrow> uint64 \<Rightarrow> AdmissionQueue option \<Rightarrow> TieredRequestPolicy" where
  "set_queue p clientID oq = (case oq of None \<Rightarrow> p | Some q \<Rightarrow> p\<lparr>tp_queues := mput (tp_queues p) clientID q\<rparr>)"

definition TRP_Admit :: "TieredRequestPolicy \<Rightarrow> uint64 \<Rightarrow> RequestKind \<Rightarrow> int64 \<Rightarrow>
    TieredRequestPolicy \<times> RequestPermit \<times> Response \<times> bool" where
  "TRP_Admit p clientID kind now =
     (let (p0, st0) = statsFor p clientID;
          st = st0\<lparr>st_ByKind := madd (st_ByKind st0) kind 1\<rparr>;
          (p1, gate) = gateFor p0 clientID
      in case gate of
           None \<Rightarrow> (p1\<lparr>tp_stats := mput (tp_stats p1) clientID (count_stats st Allow)\<rparr>, no_permit, no_response, True)
         | Some meters \<Rightarrow>
             (case Gate_Admit meters (map_of (tp_queues p1) clientID) (tp_limiters p1) (scopeFor clientID) kind now of
                (queue, limiters, d, slot) \<Rightarrow>
                  let p2 = set_queue (p1\<lparr>tp_limiters := limiters\<rparr>) clientID queue;
                      p3 = p2\<lparr>tp_stats := mput (tp_stats p2) clientID (count_stats st d)\<rparr>
                  in if Allowed d then (p3, \<lparr>Held = True, pm_Slot = slot, pm_ClientID = clientID\<rparr>, no_response, True)
                     else (p3, no_permit, rejectionFor d, False)))"

definition TRP_Release :: "TieredRequestPolicy \<Rightarrow> RequestPermit \<Rightarrow> TieredRequestPolicy" where
  "TRP_Release p permit =
     (if \<not> Held permit then p
      else (case map_of (tp_queues p) (pm_ClientID permit) of
              None \<Rightarrow> p
            | Some q \<Rightarrow> p\<lparr>tp_queues := mput (tp_queues p) (pm_ClientID permit) (Complete q (pm_Slot permit))\<rparr>))"

definition policy_Clients :: "TieredRequestPolicy \<Rightarrow> uint64 list" where
  "policy_Clients p = mkeys (tp_stats p)"

definition policy_Depth :: "TieredRequestPolicy \<Rightarrow> uint64 \<Rightarrow> int \<times> int" where
  "policy_Depth p clientID = (case map_of (tp_queues p) clientID of Some q \<Rightarrow> Depth q | None \<Rightarrow> (0, 0))"

section \<open>The exchange's side\<close>

text \<open>A nil policy leaves the venue unmetered. \<open>place\<close> is the exchange's own order placement.\<close>

definition admitRequest :: "TieredRequestPolicy option \<Rightarrow> uint64 \<Rightarrow> Request \<Rightarrow> int64 \<Rightarrow>
    TieredRequestPolicy option \<times> RequestPermit \<times> Response \<times> bool" where
  "admitRequest pol clientID req now =
     (case pol of
        None \<Rightarrow> (None, no_permit, no_response, True)
      | Some p \<Rightarrow> (case TRP_Admit p clientID (classifyRequest req) now of
          (p', permit, rejection, admitted) \<Rightarrow>
            (Some p', permit, (if admitted then rejection else rejection\<lparr>rs_RequestID := requestIDForRejection req\<rparr>), admitted)))"

definition releasePermit :: "TieredRequestPolicy option \<Rightarrow> RequestPermit \<Rightarrow> TieredRequestPolicy option" where
  "releasePermit pol permit = (case pol of Some p \<Rightarrow> Some (if Held permit then TRP_Release p permit else p) | None \<Rightarrow> None)"

definition PlaceOrderGated :: "('x \<Rightarrow> uint64 \<Rightarrow> OrderRequest \<Rightarrow> 'x \<times> Response) \<Rightarrow>
    TieredRequestPolicy option \<Rightarrow> 'x \<Rightarrow> uint64 \<Rightarrow> OrderRequest \<Rightarrow> int64 \<Rightarrow> TieredRequestPolicy option \<times> 'x \<times> Response" where
  "PlaceOrderGated place pol ex clientID r now =
     (case admitRequest pol clientID \<lparr>rq_Type = ReqPlaceOrder, OrderReq = Some r, CancelReq = None, QueryReq = None\<rparr> now of
        (pol', permit, rejection, admitted) \<Rightarrow>
          if \<not> admitted then (pol', ex, rejection)
          else (case place ex clientID r of (ex', resp) \<Rightarrow> (releasePermit pol' permit, ex', resp)))"

section \<open>Clients do not share budgets\<close>

lemma scopeFor_inj: "0 \<le> a \<Longrightarrow> 0 \<le> b \<Longrightarrow> scopeFor a = scopeFor b \<Longrightarrow> a = b"
  by (auto simp: scopeFor_def dest!: digits_inj)

definition policy_ok :: "TieredRequestPolicy \<Rightarrow> bool" where
  "policy_ok p \<longleftrightarrow>
     (\<forall>name tier. map_of (tp_tiers p) name = Some tier \<longrightarrow> meters_ok (t_Meters tier) (length (tp_limiters p))) \<and>
     (\<forall>c ms. map_of (tp_gates p) c = Some (Some ms) \<longrightarrow> meters_ok ms (length (tp_limiters p)))"

text \<open>What a client's request is answered.\<close>

definition answer :: "TieredRequestPolicy \<Rightarrow> uint64 \<Rightarrow> RequestKind \<Rightarrow> int64 \<Rightarrow> Response \<times> bool" where
  "answer p c k t = snd (snd (TRP_Admit p c k t))"

definition same_for :: "uint64 \<Rightarrow> TieredRequestPolicy \<Rightarrow> TieredRequestPolicy \<Rightarrow> bool" where
  "same_for b p p' \<longleftrightarrow> tp_tiers p' = tp_tiers p \<and> tp_classify p' = tp_classify p \<and>
     map_of (tp_gates p') b = map_of (tp_gates p) b \<and> map_of (tp_queues p') b = map_of (tp_queues p) b \<and>
     venue.same_view (scopeFor b) (tp_limiters p) (tp_limiters p')"

lemma same_for_refl [simp]: "same_for b p p"
  by (simp add: same_for_def venue.same_view_def)

lemma same_for_trans: "same_for b p p' \<Longrightarrow> same_for b p' p'' \<Longrightarrow> same_for b p p''"
  by (simp add: same_for_def venue.same_view_def)

lemma statsFor_frame:
  "statsFor p c = (p0, st) \<Longrightarrow> same_for b p p0 \<and> tp_limiters p0 = tp_limiters p \<and> tp_gates p0 = tp_gates p \<and>
     tp_tiers p0 = tp_tiers p \<and> tp_queues p0 = tp_queues p \<and> tp_classify p0 = tp_classify p \<and> tp_generation p0 = tp_generation p"
  by (auto simp: statsFor_def same_for_def venue.same_view_def split: option.splits)

lemma gateFor_frame:
  assumes "policy_ok p" "gateFor p a = (p1, g)"
  shows "policy_ok p1" "b \<noteq> a \<Longrightarrow> same_for b p p1" "tp_limiters p1 = tp_limiters p"
    "g = Some ms \<Longrightarrow> meters_ok ms (length (tp_limiters p1))"
  using assms
  by (auto simp: gateFor_def policy_ok_def same_for_def venue.same_view_def NewAdmissionQueue_def Let_def
      split: option.splits if_splits)

lemma policy_ok_cong:
  "policy_ok p \<Longrightarrow> tp_tiers p' = tp_tiers p \<Longrightarrow> tp_gates p' = tp_gates p \<Longrightarrow> length (tp_limiters p') = length (tp_limiters p) \<Longrightarrow>
     policy_ok p'"
  by (simp add: policy_ok_def)

lemma TRP_Admit_frame:
  assumes ok: "policy_ok p" and a: "TRP_Admit p a k t = (p', permit, r, adm)" and ab: "0 \<le> a" "0 \<le> b" "b \<noteq> a"
  shows "policy_ok p'" "same_for b p p'"
proof -
  obtain p0 st0 where s: "statsFor p a = (p0, st0)" by (cases "statsFor p a")
  obtain p1 g where g: "gateFor p0 a = (p1, g)" by (cases "gateFor p0 a")
  have ok0: "policy_ok p0" using policy_ok_cong [OF ok] statsFor_frame [OF s] by simp
  note f0 = statsFor_frame [OF s, of b] and f1 = gateFor_frame [OF ok0 g]
  have ne: "scopeFor b \<noteq> scopeFor a" using scopeFor_inj ab by blast
  have s1: "same_for b p p1" using same_for_trans f0 f1(2) [OF ab(3)] by blast
  have "policy_ok p' \<and> same_for b p1 p'"
  proof (cases g)
    case None
    then have e: "p' = p1\<lparr>tp_stats := mput (tp_stats p1) a (count_stats (st0\<lparr>st_ByKind := madd (st_ByKind st0) k 1\<rparr>) Allow)\<rparr>"
      using a by (simp add: TRP_Admit_def s g Let_def)
    show ?thesis using f1(1) unfolding e by (simp add: policy_ok_def same_for_def venue.same_view_def)
  next
    case (Some ms)
    obtain q ls d sl where ga: "Gate_Admit ms (map_of (tp_queues p1) a) (tp_limiters p1) (scopeFor a) k t = (q, ls, d, sl)"
      by (metis prod_cases4)
    note m = f1(4) [OF Some]
    have v: "venue.same_view (scopeFor b) (tp_limiters p1) ls"
      using venue.ask_other_scope [OF m ga [unfolded Gate_Admit_def] ne] .
    have "tp_tiers p' = tp_tiers p1 \<and> tp_gates p' = tp_gates p1 \<and> tp_limiters p' = ls \<and> tp_classify p' = tp_classify p1 \<and>
        map_of (tp_queues p') b = map_of (tp_queues p1) b"
      using a ab(3) by (auto simp: TRP_Admit_def s g Some ga Let_def set_queue_def split: if_splits option.splits)
    with f1(1) v show ?thesis by (simp add: policy_ok_def same_for_def venue.same_view_def)
  qed
  with s1 show "policy_ok p'" "same_for b p p'" using same_for_trans by blast+
qed

text \<open>Queues that differ only in their receipts answer alike.\<close>

definition queue_state :: "AdmissionQueue option \<Rightarrow> (AdmissionConfig \<times> int \<times> int) option" where
  "queue_state oq = map_option (\<lambda>q. (q_cfg q, q_priority q, q_secondary q)) oq"

lemma queue_offer_decision: "queue_state q = queue_state q' \<Longrightarrow> fst (snd (queue_offer q k)) = fst (snd (queue_offer q' k))"
  by (cases q; cases q') (simp_all add: queue_state_def queue_offer_def Offer_def issue_def Let_def)

lemma gateFor_same:
  assumes "same_for b p p'" "gateFor p b = (p1, g)" "gateFor p' b = (p1', g')"
  shows "g' = g" "queue_state (map_of (tp_queues p1') b) = queue_state (map_of (tp_queues p1) b)"
    "tp_limiters p1' = tp_limiters p'"
  using assms by (auto simp: gateFor_def same_for_def Let_def NewAdmissionQueue_def queue_state_def split: option.splits if_splits)

definition gate_decision :: "Decision option \<Rightarrow> Decision \<Rightarrow> Decision" where
  "gate_decision probed offered = (case probed of Some d \<Rightarrow> d | None \<Rightarrow> (if Allowed offered then Allow else offered))"

definition reply :: "Decision \<Rightarrow> Response \<times> bool" where
  "reply d = (if Allowed d then (no_response, True) else (rejectionFor d, False))"

lemma answer_eq:
  assumes ok: "policy_ok p" and s: "statsFor p b = (p0, st)" and g: "gateFor p0 b = (p1, gt)"
  shows "answer p b k t = (case gt of None \<Rightarrow> (no_response, True) | Some ms \<Rightarrow>
    reply (gate_decision (probe_all lim_would (tp_limiters p1) (scopeFor b) t (sum_charges ms k []))
      (fst (snd (queue_offer (map_of (tp_queues p1) b) k)))))"
proof (cases gt)
  case None
  then show ?thesis by (simp add: answer_def TRP_Admit_def s g Let_def)
next
  case (Some ms)
  have ok0: "policy_ok p0" using policy_ok_cong [OF ok] statsFor_frame [OF s] by simp
  obtain q ls d sl where ga: "Gate_Admit ms (map_of (tp_queues p1) b) (tp_limiters p1) (scopeFor b) k t = (q, ls, d, sl)"
    by (metis prod_cases4)
  have "answer p b k t = reply d"
    by (simp add: reply_def answer_def TRP_Admit_def s g Some ga Let_def)
  moreover note venue.decision [OF gateFor_frame(4) [OF ok0 g Some], folded Gate_Admit_def,
      of "map_of (tp_queues p1) b" "scopeFor b" k t, unfolded ga]
  ultimately show ?thesis using Some by (simp add: gate_decision_def)
qed

lemma answer_same:
  assumes ok: "policy_ok p" "policy_ok p'" and v: "same_for b p p'"
  shows "answer p' b k t = answer p b k t"
proof -
  obtain p0 st where s: "statsFor p b = (p0, st)" by (cases "statsFor p b")
  obtain p1 g where g: "gateFor p0 b = (p1, g)" by (cases "gateFor p0 b")
  obtain p0' st' where s': "statsFor p' b = (p0', st')" by (cases "statsFor p' b")
  obtain p1' g' where g': "gateFor p0' b = (p1', g')" by (cases "gateFor p0' b")
  have "same_for b p0 p0'" using v statsFor_frame [OF s, of b] statsFor_frame [OF s', of b] by (simp add: same_for_def)
  note c = gateFor_same [OF this g g']
  have st: "tp_limiters p0 = tp_limiters p" "tp_limiters p0' = tp_limiters p'" "tp_gates p0 = tp_gates p" "tp_tiers p0 = tp_tiers p"
    using statsFor_frame [OF s] statsFor_frame [OF s'] by simp_all
  note f = gateFor_frame(3,4) [OF policy_ok_cong [OF ok(1) st(4,3)] g]
  have lim: "tp_limiters p1 = tp_limiters p" "tp_limiters p1' = tp_limiters p'" using f(1) c(3) st by simp_all
  have pr: "probe_all lim_would (tp_limiters p') (scopeFor b) t (sum_charges ms k []) =
      probe_all lim_would (tp_limiters p) (scopeFor b) t (sum_charges ms k [])" if "g = Some ms" for ms
    using venue.probe_same_view [of ms "tp_limiters p" "scopeFor b" "tp_limiters p'" t k] f(2) [of ms] that v lim st
    by (simp add: same_for_def)
  show ?thesis
    using queue_offer_decision [OF c(2), of k]
    by (cases g) (simp_all add: answer_eq [OF ok(1) s g] answer_eq [OF ok(2) s' g'] c(1) lim pr)
qed

section \<open>Property\<close>

text \<open>The life of a policy, one request or one returned permit at a time.\<close>

datatype policy_event = Ask uint64 RequestKind int64 | Return RequestPermit

fun policy_step :: "TieredRequestPolicy \<Rightarrow> policy_event \<Rightarrow> TieredRequestPolicy" where
  "policy_step p (Ask c k t) = fst (TRP_Admit p c k t)"
| "policy_step p (Return permit) = TRP_Release p permit"

fun concerns :: "uint64 \<Rightarrow> policy_event \<Rightarrow> bool" where
  "concerns b (Ask c k t) = (c = b \<or> c < 0)"
| "concerns b (Return permit) = (pm_ClientID permit = b)"

lemma policy_step_frame:
  assumes "policy_ok p" "\<not> concerns b e" "0 \<le> b"
  shows "policy_ok (policy_step p e) \<and> same_for b p (policy_step p e)"
proof (cases e)
  case (Ask c k t)
  obtain p' x where a: "TRP_Admit p c k t = (p', x)" by (cases "TRP_Admit p c k t")
  obtain permit r adm where x: "x = (permit, r, adm)" by (cases x)
  have "0 \<le> c" "b \<noteq> c" using assms(2) Ask by auto
  with TRP_Admit_frame [OF assms(1) a [unfolded x]] assms(3) show ?thesis by (simp add: Ask a)
next
  case (Return permit)
  then show ?thesis using assms(1,2)
    by (auto simp: TRP_Release_def policy_ok_def same_for_def venue.same_view_def split: option.splits)
qed

text \<open>C37: one participant cannot exhaust another's allowance. Although all clients of a tier share the
  same limiter objects, no sequence of requests and returned permits of other clients changes
  how the venue answers a client's request.\<close>

theorem client_budgets_isolated:
  assumes "policy_ok p" "0 \<le> b" "\<forall>e\<in>set es. \<not> concerns b e"
  shows "answer (foldl policy_step p es) b k t = answer p b k t"
proof -
  have "policy_ok (foldl policy_step p es) \<and> same_for b p (foldl policy_step p es)"
    using assms(1,3)
  proof (induction es rule: rev_induct)
    case (snoc e es)
    then show ?case using policy_step_frame [OF _ _ assms(2), of "foldl policy_step p es" e] same_for_trans by auto
  qed simp
  with assms(1) show ?thesis by (intro answer_same) auto
qed

definition demo_policy :: TieredRequestPolicy where
  "demo_policy = NewTieredRequestPolicy
     [('''', \<lparr>t_Meters = [\<lparr>m_limiter = 0, m_cost = (\<lambda>_. 1)\<rparr>], t_PriorityDepth = None, t_SecondaryDepth = Some 1,
        t_RiskReducing = None, t_Queued = True\<rparr>)] None [FW (NewFixedWindow ''w'' 1 60)] 0"

theorem client_budgets_isolated_witness:
  "answer (foldl policy_step demo_policy [Ask 7 KindPlaceOrder 5, Ask 7 KindPlaceOrder 6]) 8 KindPlaceOrder 7 = (no_response, True) \<and>
   \<not> snd (answer (policy_step demo_policy (Ask 7 KindPlaceOrder 5)) 7 KindPlaceOrder 6)"
proof -
  have "policy_ok demo_policy"
    by (auto simp: policy_ok_def demo_policy_def NewTieredRequestPolicy_def meters_ok_def is_i64_def)
  moreover have "answer demo_policy 8 KindPlaceOrder 7 = (no_response, True)"
    "\<not> snd (answer (policy_step demo_policy (Ask 7 KindPlaceOrder 5)) 7 KindPlaceOrder 6)" by code_simp+
  ultimately show ?thesis using client_budgets_isolated [of demo_policy 8 "[Ask 7 KindPlaceOrder 5, Ask 7 KindPlaceOrder 6]"] by simp
qed

end
