(* ===== verification/Order_Admission.thy ===== *)
theory Order_Admission
  imports Match_Preview Instruments Requests Position_Manager
begin

text \<open>The guards an order passes before it gets an ID (\<open>exchange/order_handling.go\<close>:
  \<open>validatePlaceOrder\<close> and the checks it calls). They read the book, the position store and the
  exchange's lifecycle state and change nothing. Two of them range over the book's order index,
  a map whose iteration order the runtime chooses: the order is the parameter \<open>ids\<close>.

  A position side or visibility outside the declared constants, which the code rejects, cannot be
  written here.\<close>

section \<open>Orders from requests\<close>

definition newOrderFromRequest :: "uint64 \<Rightarrow> uint64 \<Rightarrow> OrderRequest \<Rightarrow> timestamp \<Rightarrow> Order" where
  "newOrderFromRequest clientID orderID req ts =
     \<lparr>ID = orderID, ClientID = clientID, Side = or_Side req, PositionSide = or_PositionSide req, Type = or_Type req,
      TimeInForce = or_TimeInForce req, PostOnly = or_PostOnly req, Price = or_Price req, Qty = or_Qty req, FilledQty = 0,
      Visibility = or_Visibility req, IcebergQty = or_IcebergQty req,
      DisplayRemaining = (if or_Visibility req = Iceberg then min (or_IcebergQty req) (or_Qty req) else 0),
      Status = Open, Timestamp = ts, Reserved = 0, FeeReserved = [], Parent = None\<rparr>"

definition liveBookReferencePrice :: "OrderBook option \<Rightarrow> int64 option" where
  "liveBookReferencePrice ob =
     (case ob of
        None \<Rightarrow> None
      | Some book \<Rightarrow>
          (case GetMidPrice book of
             Some mid \<Rightarrow> Some mid
           | None \<Rightarrow> (case GetBestAsk book of Some ask \<Rightarrow> Some ask | None \<Rightarrow> GetBestBid book)))"

section \<open>Guards\<close>

definition postOnlyWouldTake :: "OrderBook \<Rightarrow> OrderRequest \<Rightarrow> bool" where
  "postOnlyWouldTake book req =
     (if or_Side req = Buy
      then (case Best (Asks book) of None \<Rightarrow> False | Some p \<Rightarrow> or_Price req \<ge> p)
      else (case Best (Bids book) of None \<Rightarrow> False | Some p \<Rightarrow> or_Price req \<le> p))"

text \<open>The candidate of the aggregate check is a bare order: no ID, no display tranche.\<close>

definition restingLevelAggregateViolation ::
  "matcher option \<Rightarrow> (int64 \<Rightarrow> bool) \<Rightarrow> uint64 \<Rightarrow> OrderBook \<Rightarrow> OrderRequest \<Rightarrow> bool" where
  "restingLevelAggregateViolation matcher validPrice clientID book req =
     (if or_Type req \<noteq> LimitOrder \<or> or_TimeInForce req \<noteq> GTC then False
      else let side = (if or_Side req = Sell then Asks book else Bids book)
      in case Limits side (or_Price req) of
           None \<Rightarrow> False
         | Some limit \<Rightarrow>
             if TotalQty limit < 0 \<or> OrderCnt limit < 0 \<or> OrderCnt limit = MaxInt32 then True
             else let candidate = (newOrderFromRequest clientID 0 req 0)\<lparr>DisplayRemaining := 0\<rparr>
             in case previewMatch matcher validPrice (Bids book) (Asks book) candidate of
                  None \<Rightarrow> True
                | Some result \<Rightarrow>
                    (case previewRemainingQty (Executions result) (or_Qty req) of
                       None \<Rightarrow> True
                     | Some rem \<Rightarrow> if rem = 0 then False else TryAdd (TotalQty limit) rem = None))"

fun exposure_loop :: "Side \<Rightarrow> uint64 \<Rightarrow> PositionSide \<Rightarrow> (uint64 \<rightharpoonup> Order) \<Rightarrow> uint64 list \<Rightarrow> int64 \<Rightarrow> int64 option" where
  "exposure_loop side clientID posSide orders [] sz = Some sz"
| "exposure_loop side clientID posSide orders (i # ids) sz =
     (case orders i of
        None \<Rightarrow> exposure_loop side clientID posSide orders ids sz
      | Some order \<Rightarrow>
          if ClientID order \<noteq> clientID \<or> PositionSide order \<noteq> posSide
          then exposure_loop side clientID posSide orders ids sz
          else let rem = i64 (Qty order - FilledQty order)
          in (case (if side = Buy then TryAdd sz rem else TrySub sz rem) of
                None \<Rightarrow> None
              | Some sz' \<Rightarrow> exposure_loop side clientID posSide orders ids sz'))"

definition own_side :: "OrderBook \<Rightarrow> OrderRequest \<Rightarrow> Book" where
  "own_side book req = (if or_Side req = Sell then Asks book else Bids book)"

definition position_size :: "PositionManager \<Rightarrow> uint64 \<Rightarrow> OrderRequest \<Rightarrow> int64" where
  "position_size pm clientID req =
     (case GetPositionBySide clientID (or_Symbol req) (or_PositionSide req) pm of None \<Rightarrow> 0 | Some pos \<Rightarrow> PosSize pos)"

definition reducing :: "OrderRequest \<Rightarrow> bool" where
  "reducing req \<longleftrightarrow> or_PositionSide req = PositionLong \<and> or_Side req = Sell \<or>
     or_PositionSide req = PositionShort \<and> or_Side req = Buy"

definition positionExposureViolation ::
  "PositionManager \<Rightarrow> uint64 list \<Rightarrow> uint64 \<Rightarrow> OrderBook \<Rightarrow> OrderRequest \<Rightarrow> bool" where
  "positionExposureViolation pm ids clientID book req =
     (if reducing req then False
      else (case exposure_loop (or_Side req) clientID (or_PositionSide req) (Orders (own_side book req)) ids
                   (position_size pm clientID req) of
              None \<Rightarrow> True
            | Some sz \<Rightarrow>
                (case (if or_Side req = Buy then TryAdd sz (or_Qty req) else TrySub sz (or_Qty req)) of
                   None \<Rightarrow> True
                 | Some result \<Rightarrow> result = MinInt64)))"

fun resting_reduce :: "uint64 \<Rightarrow> PositionSide \<Rightarrow> (uint64 \<rightharpoonup> Order) \<Rightarrow> uint64 list \<Rightarrow> int64 \<Rightarrow> int64" where
  "resting_reduce clientID posSide orders [] acc = acc"
| "resting_reduce clientID posSide orders (i # ids) acc =
     resting_reduce clientID posSide orders ids
       (case orders i of
          None \<Rightarrow> acc
        | Some order \<Rightarrow> if ClientID order = clientID \<and> PositionSide order = posSide
                         then i64 (acc + i64 (Qty order - FilledQty order)) else acc)"

definition hedgeReduceViolation ::
  "PositionManager \<Rightarrow> uint64 list \<Rightarrow> uint64 \<Rightarrow> OrderBook \<Rightarrow> OrderRequest \<Rightarrow> RejectReason" where
  "hedgeReduceViolation pm ids clientID book req =
     (if or_PositionSide req \<noteq> PositionLong \<and> or_PositionSide req \<noteq> PositionShort then ''''
      else if \<not> reducing req then ''''
      else let sz = abs64 (position_size pm clientID req);
               resting = resting_reduce clientID (or_PositionSide req) (Orders (own_side book req)) ids 0
      in if i64 (or_Qty req + resting) > sz then ''EXCEEDS_POSITION'' else '''')"

definition clientHasSettlementPendingExposure :: "string list \<Rightarrow> PositionManager \<Rightarrow> uint64 \<Rightarrow> bool" where
  "clientHasSettlementPendingExposure pending pm clientID \<longleftrightarrow>
     list_ex (\<lambda>symbol. list_ex (\<lambda>side. case GetPositionBySide clientID symbol side pm of
         None \<Rightarrow> False | Some position \<Rightarrow> PosSize position \<noteq> 0)
       [PositionBoth, PositionLong, PositionShort]) pending"

section \<open>The whole validation\<close>

text \<open>What the validation reads of the exchange: the client's gateway if it has one, the registered
  clients, the listed books with their instruments and expiry times, the contracts waiting for
  settlement.\<close>

record listing =
  l_book :: OrderBook
  l_instrument :: SpotInstrument
  l_expiry :: "timestamp option"
  l_bid_ids :: "uint64 list"
  l_ask_ids :: "uint64 list"

record exchange_view =
  x_gateways :: "(uint64, bool) gomap"
  x_clients :: "uint64 list"
  x_books :: "(string, listing) gomap"
  x_pending :: "string list"
  x_positions :: PositionManager
  x_matcher :: "matcher option"
  x_now :: timestamp

definition rejection :: "OrderRequest \<Rightarrow> RejectReason \<Rightarrow> Response" where
  "rejection req reason = \<lparr>rs_RequestID = or_RequestID req, Success = False, Data = NoData, Error = reason\<rparr>"

definition validatePlaceOrder :: "exchange_view \<Rightarrow> uint64 \<Rightarrow> OrderRequest \<Rightarrow> Response option" where
  "validatePlaceOrder x clientID req =
     (let reject = (\<lambda>reason. Some (rejection req reason))
      in if map_of (x_gateways x) clientID = Some False then reject ''''
      else if clientID \<notin> set (x_clients x) then reject ''UNKNOWN_CLIENT''
      else (case map_of (x_books x) (or_Symbol req) of
        None \<Rightarrow> reject ''UNKNOWN_INSTRUMENT''
      | Some ls \<Rightarrow>
          let book = l_book ls; inst = l_instrument ls; ids = (if or_Side req = Sell then l_ask_ids ls else l_bid_ids ls)
          in if (case l_expiry ls of None \<Rightarrow> False | Some e \<Rightarrow> x_now x \<ge> e) then reject ''INSTRUMENT_EXPIRED''
             else if clientHasSettlementPendingExposure (x_pending x) (x_positions x) clientID then reject ''ACCOUNT_SETTLEMENT_PENDING''
             else if or_PostOnly req \<and> (or_Type req \<noteq> LimitOrder \<or> or_TimeInForce req \<noteq> GTC) then reject ''POST_ONLY_INVALID''
             else if or_Type req = LimitOrder \<and> \<not> ValidatePrice inst (or_Price req) then reject ''INVALID_PRICE''
             else if \<not> ValidateQty inst (or_Qty req) then reject ''INVALID_QTY''
             else if TryMulDiv (or_Qty req) (or_Price req) (sp_basePrecision inst) = None then reject ''INVALID_QTY''
             else if or_Visibility req = Iceberg \<and> or_IcebergQty req \<le> 0 then reject ''INVALID_QTY''
             else let hedge = hedgeReduceViolation (x_positions x) ids clientID book req
             in if hedge \<noteq> '''' then reject hedge
                else if positionExposureViolation (x_positions x) ids clientID book req then reject ''EXCEEDS_POSITION''
                else if restingLevelAggregateViolation (x_matcher x) (ValidatePrice inst) clientID book req then reject ''INVALID_QTY''
                else if or_PostOnly req \<and> postOnlyWouldTake book req then reject ''POST_ONLY_WOULD_TAKE''
                else None))"

text \<open>A venue with one perpetual book: client 7 is long five contracts and already rests an order that
  closes one of them.\<close>

definition long_request :: "int64 \<Rightarrow> OrderRequest" where
  "long_request q = \<lparr>or_RequestID = 1, or_Side = Sell, or_Type = LimitOrder, or_Price = 200, or_Qty = q, or_Symbol = ''P'',
     or_TimeInForce = GTC, or_Visibility = Normal, or_IcebergQty = 0, or_PositionSide = PositionLong,
     or_PostOnly = False, or_ReduceOnly = False\<rparr>"

definition long_book :: OrderBook where
  "long_book = \<lparr>Symbol = ''P'', Bids = NewBook Buy,
     Asks = linked (NewBook Sell) ((sample_order 1 7 Sell 100 1)\<lparr>PositionSide := PositionLong\<rparr>), LastTrade = None, SeqNum = 0\<rparr>"

definition long_view :: exchange_view where
  "long_view = \<lparr>x_gateways = [], x_clients = [7],
     x_books = [(''P'', \<lparr>l_book = long_book, l_instrument = NewSpotInstrument ''P'' ''BTC'' ''USD'' 100000000 100 1 1,
       l_expiry = None, l_bid_ids = [], l_ask_ids = [1]\<rparr>)], x_pending = [],
     x_positions = NewPositionManager\<lparr>positions := [((7, ''P'', PositionLong), \<lparr>PosClient = 7, PosSymbol = ''P'',
       PosSide = PositionLong, PosSize = 5, PosEntry = 90, PosMargin = 0\<rparr>)]\<rparr>,
     x_matcher = Some (Match (\<lambda>_. 0)), x_now = 0\<rparr>"

definition post_only_request :: OrderRequest where
  "post_only_request = (long_request 3)\<lparr>or_Side := Buy, or_Price := 99, or_PositionSide := PositionBoth, or_PostOnly := True\<rparr>"

lemma long_book_ok: "books_ok (Bids long_book) (Asks long_book)"
proof -
  let ?o = "(sample_order 1 7 Sell 100 1)\<lparr>PositionSide := PositionLong\<rparr>"
  have s: "order_sane ?o" "is_i64 (Price ?o)" "Side ?o = Sell" "display_ok ?o" "ID ?o = 1"
    by (simp_all add: sample_order_def order_sane_def is_i64_def display_ok_def)
  have inv: "book_inv (NewBook Sell)" using NewBook_wf by (simp add: book_wf_def)
  have e: "Orders (NewBook Sell) 1 = None" "linkable (level_at (NewBook Sell) (Price ?o)) ?o" by code_simp+
  have "AddOrder (NewBook Sell) ?o = Some (linked (NewBook Sell) ?o)" using e s by (simp add: AddOrder_eq [OF inv s(1)])
  from linked_wf(1) [OF NewBook_wf s(1,2) _ s(4) this] have "book_wf (linked (NewBook Sell) ?o)" using s(3) by (simp add: NewBook_def)
  moreover have "BookSide (linked (NewBook Sell) ?o) = Sell" "BookSide (NewBook Buy) = Buy" by (simp_all add: linked_simps) (simp_all add: NewBook_def)
  ultimately show ?thesis using NewBook_wf by (simp add: long_book_def books_ok_def)
qed

section \<open>Properties\<close>

text \<open>C32: a post-only order never takes. When the validation lets a post-only order through, the live
  match of the order it becomes produces no execution.\<close>

theorem post_only_never_takes:
  assumes ok: "books_ok (Bids book) (Asks book)"
    and v: "validatePlaceOrder x clientID req = None" "map_of (x_books x) (or_Symbol req) = Some ls" "l_book ls = book"
    and q: "or_PostOnly req" "is_i64 (or_Price req)" "0 \<le> or_Qty req" "or_Qty req \<le> MaxInt64"
  shows "\<exists>r. Match clock (Bids book) (Asks book) (newOrderFromRequest clientID orderID req now) = Some r \<and> Executions r = []"
proof -
  let ?t = "newOrderFromRequest clientID orderID req now"
  have t: "order_sane ?t" "Side ?t = or_Side req" "Price ?t = or_Price req" "Type ?t = or_Type req"
    using q by (auto simp: newOrderFromRequest_def order_sane_def)
  have g: "or_Type req = LimitOrder" "\<not> postOnlyWouldTake book req"
    using v q(1) by (auto simp: validatePlaceOrder_def Let_def split: if_splits)
  obtain st where M: "Match clock (Bids book) (Asks book) ?t = Some (match_result (Bids book) (Asks book) ?t st)"
    and A: "auction clock (match_start (Bids book) (Asks book) ?t) st" "match_ready (match_start (Bids book) (Asks book) ?t)"
    by (rule Match_run [OF ok t(1)])
  let ?b = "opposite (or_Side req) (Bids book) (Asks book)"
  have inv: "book_inv ?b" and side: "BookSide ?b = (if or_Side req = Buy then Sell else Buy)"
    using ok by (auto simp: opposite_def books_ok_def book_wf_def)
  have "\<not> CanMatch ?t p" if p: "p \<in> set (Active ?b)" for p
  proof -
    obtain h qs where h: "Active ?b = h # qs" "Best ?b = Some h"
      using p book_invD(3) [OF inv] by (cases "Active ?b") (auto simp: active_head_def)
    have "p = h \<or> better (BookSide ?b) h p" using p book_invD(1) [OF inv] by (auto simp: h)
    with g h side show ?thesis by (auto simp: postOnlyWouldTake_def CanMatch_def t opposite_def split: if_splits)
  qed
  then have none: "best_maker ?t ?b = None"
    unfolding best_maker_def find_None_iff by (auto simp: priority_mem eligible_def)
  have "auction clock (match_start (Bids book) (Asks book) ?t) (match_start (Bids book) (Asks book) ?t)"
    by (rule auction.finished) (simp add: none t(2))
  then have "st = match_start (Bids book) (Asks book) ?t" using auction_deterministic [OF A(1)] by blast
  then show ?thesis using M by simp
qed

theorem post_only_never_takes_witness:
  "validatePlaceOrder long_view 7 post_only_request = None \<and>
   (\<exists>r. Match (\<lambda>_. 0) (Bids long_book) (Asks long_book) (newOrderFromRequest 7 2 post_only_request 0) = Some r \<and> Executions r = [])"
proof -
  have v: "validatePlaceOrder long_view 7 post_only_request = None" by code_simp
  obtain ls where ls: "map_of (x_books long_view) (or_Symbol post_only_request) = Some ls" "l_book ls = long_book"
    by (simp add: long_view_def post_only_request_def long_request_def)
  have "or_PostOnly post_only_request" "is_i64 (or_Price post_only_request)" "0 \<le> or_Qty post_only_request" "or_Qty post_only_request \<le> MaxInt64"
    by (simp_all add: post_only_request_def long_request_def is_i64_def)
  from post_only_never_takes [OF long_book_ok v ls this, of "\<lambda>_. 0" 2 0] v show ?thesis by blast
qed

definition own_orders :: "uint64 \<Rightarrow> PositionSide \<Rightarrow> (uint64 \<rightharpoonup> Order) \<Rightarrow> uint64 list \<Rightarrow> uint64 list" where
  "own_orders clientID posSide os ids = filter (\<lambda>i. case os i of None \<Rightarrow> False
     | Some o1 \<Rightarrow> ClientID o1 = clientID \<and> PositionSide o1 = posSide) ids"

definition signed :: "Side \<Rightarrow> int \<Rightarrow> int" where
  "signed side n = (if side = Buy then n else - n)"

lemma exposure_loop_sum:
  assumes "exposure_loop side c ps os ids sz = Some r" "\<forall>i o1. os i = Some o1 \<longrightarrow> order_sane o1" "is_i64 sz"
  shows "r = sz + signed side (\<Sum>i\<leftarrow>own_orders c ps os ids. rem_of os i)" "is_i64 r"
proof -
  have "r = sz + signed side (\<Sum>i\<leftarrow>own_orders c ps os ids. rem_of os i) \<and> is_i64 r"
    using assms
  proof (induction ids arbitrary: sz)
    case Nil
    then show ?case by (simp add: own_orders_def signed_def)
  next
    case (Cons i ids)
    show ?case
    proof (cases "i \<in> set (own_orders c ps os (i # ids))")
      case False
      then have "own_orders c ps os (i # ids) = own_orders c ps os ids" "exposure_loop side c ps os ids sz = Some r"
        using Cons.prems(1) by (auto simp: own_orders_def split: option.splits if_splits)
      with Cons show ?thesis by simp
    next
      case True
      then obtain o1 where o1: "os i = Some o1" "ClientID o1 = c" "PositionSide o1 = ps"
        by (auto simp: own_orders_def split: option.splits if_splits)
      have sane: "order_sane o1" using Cons.prems(2) o1(1) by blast
      note r = order_sane_i64 [OF sane]
      let ?op = "if side = Buy then TryAdd sz (remaining o1) else TrySub sz (remaining o1)"
      have "remaining o1 \<noteq> MinInt64" using r(4) by simp
      then have op: "?op = (if is_i64 (sz + signed side (remaining o1)) then Some (sz + signed side (remaining o1)) else None)"
        using Cons.prems(3) r(3) by (simp add: TryAdd_eq TrySub_eq signed_def)
      have "exposure_loop side c ps os (i # ids) sz = (case ?op of None \<Rightarrow> None | Some s \<Rightarrow> exposure_loop side c ps os ids s)"
        using o1 r(6) by (simp add: Let_def)
      with Cons.prems(1) op have st: "is_i64 (sz + signed side (remaining o1))"
        "exposure_loop side c ps os ids (sz + signed side (remaining o1)) = Some r" by (auto split: if_splits)
      have "own_orders c ps os (i # ids) = i # own_orders c ps os ids" using o1 by (simp add: own_orders_def)
      with Cons.IH [OF st(2) Cons.prems(2) st(1)] o1(1) show ?thesis by (auto simp: rem_of_def signed_def)
    qed
  qed
  then show "r = sz + signed side (\<Sum>i\<leftarrow>own_orders c ps os ids. rem_of os i)" "is_i64 r" by blast+
qed

text \<open>The exposure guard keeps every later position representable. When the guard passes, then
  however much of the client's resting orders on that side and of the new order fills, the
  position stays inside the 64-bit range and can still be negated.\<close>

theorem exposure_guard_headroom:
  assumes ok: "book_inv (own_side book req)" and pos: "is_i64 (position_size pm clientID req)"
    and q: "is_i64 (or_Qty req)" "0 \<le> n" "n \<le> or_Qty req"
    and g: "\<not> positionExposureViolation pm ids clientID book req" "\<not> reducing req"
    and fills: "\<forall>i. 0 \<le> f i \<and> f i \<le> rem_of (Orders (own_side book req)) i"
  shows "let sz' = position_size pm clientID req + signed (or_Side req)
      ((\<Sum>i\<leftarrow>own_orders clientID (or_PositionSide req) (Orders (own_side book req)) ids. f i) + n)
    in is_i64 sz' \<and> (or_Side req = Sell \<longrightarrow> sz' \<noteq> MinInt64)"
proof -
  let ?os = "Orders (own_side book req)" and ?sz = "position_size pm clientID req"
  let ?own = "own_orders clientID (or_PositionSide req) ?os ids"
  have sane: "\<forall>i o1. ?os i = Some o1 \<longrightarrow> order_sane o1" using book_invD(5) [OF ok] by (auto simp: order_ok_def)
  obtain s where s: "exposure_loop (or_Side req) clientID (or_PositionSide req) ?os ids ?sz = Some s"
    using g by (auto simp: positionExposureViolation_def split: option.splits)
  note sum = exposure_loop_sum [OF s sane pos]
  have "or_Qty req \<noteq> MinInt64" using q by auto
  then have fin: "is_i64 (s + signed (or_Side req) (or_Qty req))" "s + signed (or_Side req) (or_Qty req) \<noteq> MinInt64"
    using g s q(1) sum(2) by (auto simp: positionExposureViolation_def TryAdd_eq TrySub_eq signed_def split: if_splits option.splits)
  have "0 \<le> (\<Sum>i\<leftarrow>?own. f i)" using fills by (intro sum_list_nonneg) auto
  moreover have "(\<Sum>i\<leftarrow>?own. f i) \<le> (\<Sum>i\<leftarrow>?own. rem_of ?os i)" using fills by (intro sum_list_mono) auto
  ultimately show ?thesis using sum(1) fin pos q(2,3) by (auto simp: Let_def signed_def is_i64_def split: if_splits)
qed

theorem exposure_guard_headroom_witness:
  "is_i64 (position_size NewPositionManager 7 post_only_request + signed (or_Side post_only_request)
     ((\<Sum>i\<leftarrow>own_orders 7 (or_PositionSide post_only_request) (Orders (own_side long_book post_only_request)) []. 0) + 3))"
proof -
  let ?r = post_only_request
  have g: "\<not> positionExposureViolation NewPositionManager [] 7 long_book ?r" "\<not> reducing ?r" by code_simp+
  have s: "or_Side ?r = Buy" "or_Qty ?r = 3" by (simp_all add: post_only_request_def long_request_def)
  have inv: "book_inv (own_side long_book ?r)"
    using long_book_ok s by (simp add: own_side_def books_ok_def book_wf_def)
  have "is_i64 (position_size NewPositionManager 7 ?r)" by code_simp
  from exposure_guard_headroom [OF inv this _ _ _ g, of 3 "\<lambda>_. 0"] s rem_of_nonneg [OF inv] show ?thesis
    by (simp add: is_i64_def Let_def)
qed




end
