(* ===== verification/Order_Placement.thy ===== *)
theory Order_Placement
  imports Spot_Solvency Order_Admission Borrowing
begin

text \<open>Placing and cancelling orders on a spot market (\<open>exchange/order_handling.go\<close>): the whole of
  \<open>PlaceOrder\<close> from validation to the resting remainder, and \<open>CancelOrder\<close>.

  The state is the ledger, the book of the order's symbol and the order counter. \<open>None\<close> is a panic.
  An order of a type other than limit and market, which the code neither funds nor rests, cannot be
  written. Events, market data and gateway notifications are left out; the order of the
  response queue is therefore not part of the model. What the validation reads beside the state
  (running gateways, positions, contracts waiting for settlement, the expiry) is configuration
  here, and \<open>vc_ids\<close> is the order in which the runtime ranges over a book's index.\<close>

record venue_cfg =
  vc_env :: spot_env
  vc_matcher :: matcher
  vc_borrowing :: "BorrowingConfig option"
  vc_autoBorrowSpot :: bool
  vc_forbidBorrowing :: bool
  vc_now :: timestamp
  vc_gateways :: "(uint64, bool) gomap"
  vc_positions :: PositionManager
  vc_pending :: "string list"
  vc_expiry :: "timestamp option"
  vc_ids :: "Book \<Rightarrow> uint64 list"

record spot_venue =
  sv_ledger :: Ledger
  sv_book :: OrderBook
  sv_nextOrderID :: uint64

abbreviation vc_inst :: "venue_cfg \<Rightarrow> SpotInstrument" where
  "vc_inst cfg \<equiv> se_inst (vc_env cfg)"

section \<open>Funding an order\<close>

text \<open>The answer of the funding steps: the code's \<open>bool\<close>, and whether its error is an unavailable
  price.\<close>

definition price_unavailable :: "borrow_error \<Rightarrow> bool" where
  "price_unavailable e = (case e of NoPrice _ \<Rightarrow> True | PriceDomainError _ \<Rightarrow> True | _ \<Rightarrow> False)"

definition autoborrow :: "venue_cfg \<Rightarrow> BorrowingConfig option" where
  "autoborrow cfg = (if vc_forbidBorrowing cfg \<or> \<not> vc_autoBorrowSpot cfg then None else vc_borrowing cfg)"

definition tryReserveOrBorrow :: "venue_cfg \<Rightarrow> uint64 \<Rightarrow> asset \<Rightarrow> int64 \<Rightarrow> Ledger \<Rightarrow> (Ledger \<times> bool \<times> bool) option" where
  "tryReserveOrBorrow cfg clientID a amount l =
     (case map_of (Clients l) clientID of
        None \<Rightarrow> None
      | Some c \<Rightarrow>
          if amount < 0 then Some (l, False, False)
          else (case Reserve c a amount of
            Some c' \<Rightarrow> Some (set_client clientID c' l, True, False)
          | None \<Rightarrow>
              (case autoborrow cfg of
                 None \<Rightarrow> Some (l, False, False)
               | Some mgr \<Rightarrow>
                   let available = GetAvailable c a
                   in if available \<ge> amount then Some (l, False, False)
                      else (case BorrowMargin mgr clientID True a (i64 (amount - available)) l of
                              Inl ArithmeticPanic \<Rightarrow> None
                            | Inl e \<Rightarrow> Some (l, False, price_unavailable e)
                            | Inr l1 \<Rightarrow>
                                (case map_of (Clients l1) clientID of
                                   None \<Rightarrow> None
                                 | Some c1 \<Rightarrow>
                                     (case Reserve c1 a amount of
                                        None \<Rightarrow> Some (l1, False, False)
                                      | Some c2 \<Rightarrow> Some (set_client clientID c2 l1, True, False)))))))"

definition fundMarketRequirement :: "venue_cfg \<Rightarrow> uint64 \<Rightarrow> asset \<Rightarrow> int64 \<Rightarrow> Ledger \<Rightarrow> (Ledger \<times> bool \<times> bool) option" where
  "fundMarketRequirement cfg clientID a required l =
     (case map_of (Clients l) clientID of
        None \<Rightarrow> None
      | Some c \<Rightarrow>
          if GetAvailable c a \<ge> required then Some (l, True, False)
          else (case autoborrow cfg of
            None \<Rightarrow> Some (l, False, False)
          | Some mgr \<Rightarrow>
              (case TrySub required (GetAvailable c a) of
                 None \<Rightarrow> Some (l, False, False)
               | Some shortfall \<Rightarrow>
                   if shortfall \<le> 0 then Some (l, False, False)
                   else (case BorrowMargin mgr clientID True a shortfall l of
                           Inl ArithmeticPanic \<Rightarrow> None
                         | Inl e \<Rightarrow> Some (l, False, price_unavailable e)
                         | Inr l1 \<Rightarrow>
                             (case map_of (Clients l1) clientID of
                                None \<Rightarrow> None
                              | Some c1 \<Rightarrow> Some (l1, GetAvailable c1 a \<ge> required, False))))))"

definition executionFee :: "FeeModel option \<Rightarrow> SpotInstrument \<Rightarrow> Execution \<Rightarrow> bool \<Rightarrow> int64 \<Rightarrow> fee_outcome" where
  "executionFee feePlan inst e isMaker precision =
     (case feePlan of
        None \<Rightarrow> FeeIs no_fee
      | Some p \<Rightarrow> CalculateFee p ((probe_fill (sp_base inst) (sp_quote inst) (ExecQty e) (ExecPrice e) precision)\<lparr>fc_IsMaker := isMaker\<rparr>))"

fun spotMarketRequirement :: "FeeModel option \<Rightarrow> SpotInstrument \<Rightarrow> Side \<Rightarrow> int64 \<Rightarrow> Execution list \<Rightarrow> int64 \<Rightarrow> int64 fee_result" where
  "spotMarketRequirement feePlan inst side precision [] required = FRIs required"
| "spotMarketRequirement feePlan inst side precision (e # es) required =
     (case Option.bind (if side = Buy then TryMulDiv (ExecQty e) (ExecPrice e) precision else Some (ExecQty e)) (TryAdd required) of
        None \<Rightarrow> FRFalse
      | Some required1 \<Rightarrow>
          (case executionFee feePlan inst e False precision of
             FeePanic \<Rightarrow> FRPanic
           | FeeError \<Rightarrow> FRError
           | FeeIs fee \<Rightarrow>
               if FeeAsset fee = reserveAsset inst side \<and> FeeAmount fee > 0
               then (case TryAdd required1 (FeeAmount fee) of
                       None \<Rightarrow> FRFalse
                     | Some required2 \<Rightarrow> spotMarketRequirement feePlan inst side precision es required2)
               else spotMarketRequirement feePlan inst side precision es required1))"

definition market_preview :: "venue_cfg \<Rightarrow> OrderBook \<Rightarrow> Order \<Rightarrow> Execution list option" where
  "market_preview cfg book order =
     previewMarketExecutions (Some (vc_matcher cfg)) (ValidatePrice (vc_inst cfg)) (Bids book) (Asks book) order"

definition checkMarketOrderFunds :: "venue_cfg \<Rightarrow> OrderBook \<Rightarrow> Order \<Rightarrow> Ledger \<Rightarrow> (Ledger \<times> bool \<times> bool) option" where
  "checkMarketOrderFunds cfg book order l =
     (case market_preview cfg book order of
        None \<Rightarrow> Some (l, False, False)
      | Some es \<Rightarrow>
          (case spotMarketRequirement (se_plan (vc_env cfg) (ClientID order)) (vc_inst cfg) (Side order) (se_precision (vc_env cfg)) es 0 of
             FRPanic \<Rightarrow> None
           | FRError \<Rightarrow> Some (l, False, True)
           | FRFalse \<Rightarrow> Some (l, False, False)
           | FRIs required \<Rightarrow> fundMarketRequirement cfg (ClientID order) (reserveAsset (vc_inst cfg) (Side order)) required l))"

text \<open>The order comes back with its reservation.\<close>

definition reserveLimitOrderFunds :: "venue_cfg \<Rightarrow> Order \<Rightarrow> Ledger \<Rightarrow> (Order \<times> Ledger \<times> bool \<times> bool) option" where
  "reserveLimitOrderFunds cfg order l =
     (case spotOrderReservation (se_plan (vc_env cfg) (ClientID order)) (vc_inst cfg) (Side order) (Qty order) (Price order) (se_precision (vc_env cfg)) of
        FRPanic \<Rightarrow> None
      | FRError \<Rightarrow> Some (order, l, False, True)
      | FRFalse \<Rightarrow> Some (order, l, False, False)
      | FRIs amount \<Rightarrow>
          map_option (\<lambda>(l', ok, err). (if ok then order\<lparr>Reserved := amount\<rparr> else order, l', ok, err))
            (tryReserveOrBorrow cfg (ClientID order) (reserveAsset (vc_inst cfg) (Side order)) amount l))"

definition foreign_fees :: "venue_cfg \<Rightarrow> OrderBook \<Rightarrow> Order \<Rightarrow> (asset, int64) gomap fee_result" where
  "foreign_fees cfg book order =
     foreignFeeReservations False (market_preview cfg book order) (se_plan (vc_env cfg) (ClientID order)) (vc_inst cfg) order (se_precision (vc_env cfg))"

definition checkForeignFeeFunds :: "venue_cfg \<Rightarrow> OrderBook \<Rightarrow> Order \<Rightarrow> Client \<Rightarrow> (bool \<times> bool) option" where
  "checkForeignFeeFunds cfg book order c =
     (case foreign_fees cfg book order of
        FRPanic \<Rightarrow> None
      | FRError \<Rightarrow> Some (False, True)
      | FRFalse \<Rightarrow> Some (False, False)
      | FRIs fees \<Rightarrow> Some (list_all (\<lambda>a. \<not> GetAvailable c a < mget fees a) (mkeys fees), False))"

definition refusal :: "bool \<Rightarrow> RejectReason" where
  "refusal err = (if err then ''PRICE_UNAVAILABLE'' else ''INSUFFICIENT_BALANCE'')"

text \<open>\<open>Inl\<close> is a rejection; both sides carry the order and the ledger as they are left.\<close>

definition reserveOrderFunds :: "venue_cfg \<Rightarrow> OrderBook \<Rightarrow> Order \<Rightarrow> Ledger \<Rightarrow> ((RejectReason \<times> Ledger) + (Order \<times> Ledger)) option" where
  "reserveOrderFunds cfg book order l =
     (case map_of (Clients l) (ClientID order) of
        None \<Rightarrow> None
      | Some c \<Rightarrow>
     (case checkForeignFeeFunds cfg book order c of
        None \<Rightarrow> None
      | Some (False, err) \<Rightarrow> Some (Inl (refusal err, l))
      | Some (True, _) \<Rightarrow>
     (case reserveForeignFeeFunds False (market_preview cfg book order) (se_plan (vc_env cfg) (ClientID order)) (vc_inst cfg) c order (se_precision (vc_env cfg)) of
        (c1, o1, FRPanic) \<Rightarrow> None
      | (c1, o1, FRError) \<Rightarrow> Some (Inl (refusal True, set_client (ClientID order) c1 l))
      | (c1, o1, FRFalse) \<Rightarrow> Some (Inl (refusal False, set_client (ClientID order) c1 l))
      | (c1, o1, FRIs _) \<Rightarrow>
          (case (if Type order = Market then map_option (\<lambda>(l', r). (o1, l', r)) (checkMarketOrderFunds cfg book o1 (set_client (ClientID order) c1 l))
                 else reserveLimitOrderFunds cfg o1 (set_client (ClientID order) c1 l)) of
             None \<Rightarrow> None
           | Some (o2, l2, True, _) \<Rightarrow> Some (Inr (o2, l2))
           | Some (o2, l2, False, err) \<Rightarrow>
               (case map_of (Clients l2) (ClientID order) of
                  None \<Rightarrow> None
                | Some c2 \<Rightarrow>
                    Some (Inl (refusal err, set_client (ClientID order) (fst (releaseForeignFeeReservation False c2 o2)) l2)))))))"

section \<open>Rolling an admission back\<close>

definition maps_Equal :: "('k, 'v) gomap \<Rightarrow> ('k, 'v) gomap \<Rightarrow> bool" where
  "maps_Equal m m' \<longleftrightarrow> length m = length m' \<and> list_all (\<lambda>(k, v). map_of m' k = Some v) m"

text \<open>The snapshot is the client itself; only its three maps are read.\<close>

definition rollback_changes :: "Client \<Rightarrow> Client \<Rightarrow> BalanceDelta list" where
  "rollback_changes old c =
     concat (map (\<lambda>a.
        (if mget (Balances c) a \<noteq> mget (Balances old) a then [spotDelta a (mget (Balances c) a) (mget (Balances old) a)] else []) @
        (if mget (Borrowed c) a \<noteq> mget (Borrowed old) a then [borrowedDelta a (mget (Borrowed c) a) (mget (Borrowed old) a)] else []))
      (sort (remdups (map fst (Balances old) @ map fst (Balances c) @ map fst (Borrowed old) @ map fst (Borrowed c)))))"

definition restore :: "Client \<Rightarrow> uint64 \<Rightarrow> Ledger \<Rightarrow> Ledger" where
  "restore old clientID l =
     (case map_of (Clients l) clientID of
        None \<Rightarrow> l
      | Some c \<Rightarrow>
          if maps_Equal (Balances old) (Balances c) \<and> maps_Equal (Borrowed old) (Borrowed c) \<and> maps_Equal (BorrowedSpot old) (BorrowedSpot c) then l
          else let l' = set_client clientID (c\<lparr>Balances := Balances old, Borrowed := Borrowed old, BorrowedSpot := BorrowedSpot old\<rparr>) l;
                   changes = rollback_changes old c
               in if changes = [] then l' else logBalanceChange changes l')"

definition undo :: "venue_cfg \<Rightarrow> Client \<Rightarrow> Order \<Rightarrow> Ledger \<Rightarrow> Ledger" where
  "undo cfg old order l =
     (case map_of (Clients l) (ClientID order) of
        None \<Rightarrow> l
      | Some c \<Rightarrow> restore old (ClientID order) (set_client (ClientID order) (fst (releaseReserved False (vc_inst cfg) c order)) l))"

section \<open>Finding a plan\<close>

text \<open>The loop that drops makers who cannot pay until a plan is found. \<open>None\<close> would be a loop that never
  ends.\<close>

partial_function (option) plan_retry ::
  "venue_cfg \<Rightarrow> (uint64, Client) gomap \<Rightarrow> OrderBook \<Rightarrow> Order \<Rightarrow> uint64 list \<Rightarrow> spotExecutionPlan option \<Rightarrow>
   (spotPlanFailure + (spotExecutionPlan \<times> uint64 list)) option" where
  "plan_retry cfg clients book order excluded given =
     (case prepareSpotExecutionPlan (vc_env cfg) (Some (vc_matcher cfg)) clients book order excluded given of
        Inr plan \<Rightarrow> Some (Inr (plan, excluded))
      | Inl PlanPanic \<Rightarrow> Some (Inl PlanPanic)
      | Inl (Failure maker err) \<Rightarrow>
          if err \<or> maker = 0 then Some (Inl (Failure maker err))
          else plan_retry cfg clients book order (maker # excluded) None)"

declare plan_retry.simps [code]

definition cancelUnfundedSpotPlanMaker :: "venue_cfg \<Rightarrow> uint64 \<Rightarrow> spot_venue \<Rightarrow> spot_venue option" where
  "cancelUnfundedSpotPlanMaker cfg orderID sv =
     (case FindOrder (sv_book sv) orderID of
        None \<Rightarrow> None
      | Some order \<Rightarrow>
          if Parent order = None then None
          else (case map_of (Clients (sv_ledger sv)) (ClientID order) of
            None \<Rightarrow> None
          | Some c \<Rightarrow>
              (case TrySub (Qty order) (FilledQty order) of
                 None \<Rightarrow> None
               | Some rem \<Rightarrow>
                   if rem < 0 then None
                   else let c1 = fst (releaseReserved False (vc_inst cfg) c order); book = sv_book sv
                        in Some (sv\<lparr>sv_ledger := set_client (ClientID order) (RemoveOrder c1 orderID) (sv_ledger sv),
                                   sv_book := (if Side order = Buy then book\<lparr>Bids := fst (CancelOrder (Bids book) orderID)\<rparr>
                                               else book\<lparr>Asks := fst (CancelOrder (Asks book) orderID)\<rparr>)\<rparr>))))"

fun cancel_makers :: "venue_cfg \<Rightarrow> uint64 list \<Rightarrow> spot_venue \<Rightarrow> spot_venue option" where
  "cancel_makers cfg [] sv = Some sv"
| "cancel_makers cfg (i # ids) sv = Option.bind (cancelUnfundedSpotPlanMaker cfg i sv) (cancel_makers cfg ids)"

section \<open>After the match\<close>

fun removeMakerOrders :: "Execution list \<Rightarrow> spot_venue \<Rightarrow> spot_venue option" where
  "removeMakerOrders [] sv = Some sv"
| "removeMakerOrders (e # es) sv =
     (if MakerFilledQty e < MakerTotalQty e then removeMakerOrders es sv
      else let book = sv_book sv;
               book' = (if MakerSide e = Buy then book\<lparr>Bids := fst (RemoveFilledOrder (Bids book) (MakerOrderID e))\<rparr>
                        else book\<lparr>Asks := fst (RemoveFilledOrder (Asks book) (MakerOrderID e))\<rparr>)
      in (case map_of (Clients (sv_ledger sv)) (MakerClientID e) of
            None \<Rightarrow> None
          | Some c \<Rightarrow> removeMakerOrders es
              (sv\<lparr>sv_book := book', sv_ledger := set_client (MakerClientID e) (RemoveOrder c (MakerOrderID e)) (sv_ledger sv)\<rparr>)))"

definition own_crossing :: "venue_cfg \<Rightarrow> Order \<Rightarrow> Book \<Rightarrow> uint64 list" where
  "own_crossing cfg order opp =
     sort (filter (\<lambda>i. case Orders opp i of
        None \<Rightarrow> False
      | Some q \<Rightarrow> ClientID q = ClientID order \<and> Parent q \<noteq> None \<and>
          \<not> (Side order = Buy \<and> Price q > Price order) \<and> \<not> (Side order = Sell \<and> Price q < Price order)) (vc_ids cfg opp))"

definition opp_side :: "Side \<Rightarrow> OrderBook \<Rightarrow> Book" where
  "opp_side side book = (if side = Sell then Bids book else Asks book)"

definition set_opp :: "Side \<Rightarrow> Book \<Rightarrow> OrderBook \<Rightarrow> OrderBook" where
  "set_opp side b book = (if side = Sell then book\<lparr>Bids := b\<rparr> else book\<lparr>Asks := b\<rparr>)"

fun cancel_own :: "venue_cfg \<Rightarrow> Order \<Rightarrow> uint64 list \<Rightarrow> spot_venue \<Rightarrow> spot_venue option" where
  "cancel_own cfg order [] sv = Some sv"
| "cancel_own cfg order (i # ids) sv =
     (let opp = opp_side (Side order) (sv_book sv)
      in case (Orders opp i, map_of (Clients (sv_ledger sv)) (ClientID order)) of
           (Some q, Some c) \<Rightarrow>
             cancel_own cfg order ids
               (sv\<lparr>sv_book := set_opp (Side order) (fst (CancelOrder opp i)) (sv_book sv),
                  sv_ledger := set_client (ClientID order) (RemoveOrder (fst (releaseReserved False (vc_inst cfg) c q)) i) (sv_ledger sv)\<rparr>)
         | _ \<Rightarrow> None)"

definition cancelOwnCrossingQuotes :: "venue_cfg \<Rightarrow> Order \<Rightarrow> spot_venue \<Rightarrow> spot_venue option" where
  "cancelOwnCrossingQuotes cfg order sv = cancel_own cfg order (own_crossing cfg order (opp_side (Side order) (sv_book sv))) sv"

definition update_client :: "uint64 \<Rightarrow> (Client \<Rightarrow> Client) \<Rightarrow> spot_venue \<Rightarrow> spot_venue option" where
  "update_client i f sv = map_option (\<lambda>c. sv\<lparr>sv_ledger := set_client i (f c) (sv_ledger sv)\<rparr>) (map_of (Clients (sv_ledger sv)) i)"

definition release_order :: "venue_cfg \<Rightarrow> Order \<Rightarrow> spot_venue \<Rightarrow> spot_venue option" where
  "release_order cfg order = update_client (ClientID order) (\<lambda>c. fst (releaseReserved False (vc_inst cfg) c order))"

definition restOrReleaseOrder :: "venue_cfg \<Rightarrow> Order \<Rightarrow> OrderRequest \<Rightarrow> spot_venue \<Rightarrow> spot_venue option" where
  "restOrReleaseOrder cfg order req sv =
     (if Status order \<noteq> Filled \<and> Status order \<noteq> Cancelled \<and> or_Type req = LimitOrder \<and> or_TimeInForce req = GTC
      then (case cancelOwnCrossingQuotes cfg order sv of
              None \<Rightarrow> None
            | Some sv1 \<Rightarrow>
                let book = sv_book sv1
                in (case AddOrder (if Side order = Buy then Bids book else Asks book) order of
                      None \<Rightarrow> release_order cfg order sv1
                    | Some b \<Rightarrow>
                        update_client (ClientID order) (\<lambda>c. Client_AddOrder c (ID order))
                          (sv1\<lparr>sv_book := (if Side order = Buy then book\<lparr>Bids := b\<rparr> else book\<lparr>Asks := b\<rparr>)\<rparr>)))
      else release_order cfg order sv)"

section \<open>Placing and cancelling\<close>

definition venue_view :: "venue_cfg \<Rightarrow> spot_venue \<Rightarrow> exchange_view" where
  "venue_view cfg sv =
     \<lparr>x_gateways = vc_gateways cfg, x_clients = map fst (Clients (sv_ledger sv)),
      x_books = [(Symbol (sv_book sv), \<lparr>l_book = sv_book sv, l_instrument = vc_inst cfg, l_expiry = vc_expiry cfg,
        l_bid_ids = vc_ids cfg (Bids (sv_book sv)), l_ask_ids = vc_ids cfg (Asks (sv_book sv))\<rparr>)],
      x_pending = vc_pending cfg, x_positions = vc_positions cfg, x_matcher = Some (vc_matcher cfg), x_now = vc_now cfg\<rparr>"

text \<open>The committed half: everything after the admission can no longer be refused.\<close>

definition commit_order :: "venue_cfg \<Rightarrow> Order \<Rightarrow> OrderRequest \<Rightarrow> spotExecutionPlan \<Rightarrow> spot_venue \<Rightarrow> (Response \<times> spot_venue) option" where
  "commit_order cfg order req plan sv =
     (let book = sv_book sv
      in case vc_matcher cfg (Bids book) (Asks book) order of
           None \<Rightarrow> None
         | Some result \<Rightarrow>
             if \<not> plan_matches plan (Executions result) then None
             else if or_TimeInForce req = FOK \<and> \<not> FullyFilled result then None
             else (case processExecutions (vc_env cfg) (fills plan) (Executions result)
                     \<lparr>ss_ledger = sv_ledger sv, ss_book = book\<lparr>Bids := RBids result, Asks := RAsks result\<rparr>, ss_taker = RTaker result\<rparr> of
                     None \<Rightarrow> None
                   | Some (_, st) \<Rightarrow>
                       (case removeMakerOrders (Executions result)
                               (sv\<lparr>sv_ledger := ss_ledger st, sv_book := ss_book st, sv_nextOrderID := ID order\<rparr>) of
                          None \<Rightarrow> None
                        | Some sv1 \<Rightarrow>
                            map_option (\<lambda>sv2. (\<lparr>rs_RequestID = or_RequestID req, Success = True, Data = Number (ID order), Error = ''''\<rparr>, sv2))
                              (restOrReleaseOrder cfg (ss_taker st) req sv1))))"

definition PlaceOrder :: "venue_cfg \<Rightarrow> uint64 \<Rightarrow> OrderRequest \<Rightarrow> spot_venue \<Rightarrow> (Response \<times> spot_venue) option" where
  "PlaceOrder cfg clientID req sv =
     (case validatePlaceOrder (venue_view cfg sv) clientID req of
        Some resp \<Rightarrow> Some (resp, sv)
      | None \<Rightarrow>
     (case map_of (Clients (sv_ledger sv)) clientID of
        None \<Rightarrow> None
      | Some client \<Rightarrow>
          let book = sv_book sv;
              order = newOrderFromRequest clientID (u64 (sv_nextOrderID sv + 1)) req (vc_now cfg);
              reject = (\<lambda>reason l. Some (rejection req reason, sv\<lparr>sv_ledger := l\<rparr>))
          in if or_TimeInForce req = FOK \<and>
                \<not> canPreviewFullyMatch (Some (vc_matcher cfg)) (ValidatePrice (vc_inst cfg)) (Bids book) (Asks book) order
             then reject ''FOK_NOT_FILLED'' (sv_ledger sv)
             else (case prepareFeeExecutionPlan (vc_env cfg) (Some (vc_matcher cfg)) (Clients (sv_ledger sv)) book order [] of
               Inl PlanPanic \<Rightarrow> None
             | Inl (Failure _ err) \<Rightarrow> if err then reject ''PRICE_UNAVAILABLE'' (sv_ledger sv) else None
             | Inr feePlan \<Rightarrow>
             (case reserveOrderFunds cfg book order (sv_ledger sv) of
               None \<Rightarrow> None
             | Some (Inl (reason, l1)) \<Rightarrow> reject reason (restore client clientID l1)
             | Some (Inr (o1, l1)) \<Rightarrow>
             (case plan_retry cfg (Clients l1) book o1 [] (Some feePlan) of
               None \<Rightarrow> None
             | Some (Inl PlanPanic) \<Rightarrow> None
             | Some (Inl (Failure _ err)) \<Rightarrow> reject (refusal err) (undo cfg client o1 l1)
             | Some (Inr (plan, excluded)) \<Rightarrow>
                 if or_TimeInForce req = FOK \<and> \<not> fullyFilled plan then reject ''FOK_NOT_FILLED'' (undo cfg client o1 l1)
                 else if excluded = [] then commit_order cfg o1 req plan (sv\<lparr>sv_ledger := l1\<rparr>)
                 else (case cancel_makers cfg (sort excluded) (sv\<lparr>sv_ledger := l1\<rparr>) of
                         None \<Rightarrow> None
                       | Some sv1 \<Rightarrow>
                           (case prepareSpotExecutionPlan (vc_env cfg) (Some (vc_matcher cfg)) (Clients (sv_ledger sv1)) (sv_book sv1) o1 [] None of
                              Inl PlanPanic \<Rightarrow> None
                            | Inl (Failure _ err) \<Rightarrow>
                                if err then Some (rejection req ''PRICE_UNAVAILABLE'', sv1\<lparr>sv_ledger := undo cfg client o1 (sv_ledger sv1)\<rparr>) else None
                            | Inr plan1 \<Rightarrow> commit_order cfg o1 req plan1 sv1)))))))"

definition CancelOrder_venue :: "venue_cfg \<Rightarrow> uint64 \<Rightarrow> CancelRequest \<Rightarrow> spot_venue \<Rightarrow> Response \<times> spot_venue" where
  "CancelOrder_venue cfg clientID req sv =
     (let failed = (\<lambda>reason. (\<lparr>rs_RequestID = cr_RequestID req, Success = False, Data = NoData, Error = reason\<rparr>, sv));
          i = cr_OrderID req; book = sv_book sv
      in case map_of (Clients (sv_ledger sv)) clientID of
           None \<Rightarrow> failed ''UNKNOWN_CLIENT''
         | Some c \<Rightarrow>
             (case FindOrder book i of
                None \<Rightarrow> failed ''ORDER_NOT_FOUND''
              | Some order \<Rightarrow>
                  if ClientID order \<noteq> clientID then failed ''ORDER_NOT_OWNED''
                  else if Status order = Filled then failed ''ORDER_ALREADY_FILLED''
                  else (\<lparr>rs_RequestID = cr_RequestID req, Success = True, Data = Number (i64 (Qty order - FilledQty order)), Error = ''''\<rparr>,
                        sv\<lparr>sv_ledger := set_client clientID (RemoveOrder (fst (releaseReserved False (vc_inst cfg) c order)) i) (sv_ledger sv),
                           sv_book := (if Side order = Buy then book\<lparr>Bids := fst (CancelOrder (Bids book) i)\<rparr>
                                       else book\<lparr>Asks := fst (CancelOrder (Asks book) i)\<rparr>)\<rparr>)))"

end
