(* ===== verification/Placement_Safety.thy ===== *)
theory Placement_Safety
  imports Order_Placement
begin

text \<open>Properties of placing an order: copies of a book that leave makers out are well formed and smaller, so
  the search for a fundable plan ends.\<close>

section \<open>Copies that leave makers out\<close>

definition resting_ids :: "Book \<Rightarrow> uint64 set" where
  "resting_ids b = snd ` set (priority b)"

lemma resting_ids_finite: "finite (resting_ids b)"
  by (simp add: resting_ids_def)

definition copy_ok :: "Book \<Rightarrow> uint64 list \<Rightarrow> Book \<Rightarrow> bool" where
  "copy_ok b excluded c \<longleftrightarrow> book_wf c \<and> BookSide c = BookSide b \<and> dom (Orders c) \<subseteq> resting_ids b - set excluded"

lemma clone_queue_copy:
  assumes inv: "book_inv b" and ids: "set ids \<subseteq> set (Queue (level_at b p))" and p: "p \<in> set (Active b)"
    and "copy_ok b excluded c" "clone_queue (Orders b) excluded ids c = Some c'"
  shows "copy_ok b excluded c'"
  using assms(2,4,5)
proof (induction ids arbitrary: c)
  case (Cons i ids)
  have m: "(p, i) \<in> set (priority b)" using Cons.prems(1) p by (simp add: priority_mem)
  then have rid: "i \<in> resting_ids b" by (force simp: resting_ids_def)
  obtain o1 where o1: "resting b p (level_at b p) i o1" by (rule priority_orders [OF inv m])
  note R = restingD [OF o1]
  have ok: "order_ok (BookSide b) (Limits b) i o1" using book_invD(5) [OF inv] R by blast
  show ?case
  proof (cases "ID o1 \<in> set excluded")
    case True
    then show ?thesis using Cons R by simp
  next
    case False
    with Cons.prems(3) R obtain c1 where c1: "AddOrder c (clone_order o1) = Some c1" "clone_queue (Orders b) excluded ids c1 = Some c'"
      by (auto split: option.splits if_splits)
    have sane: "order_sane (clone_order o1)" "is_i64 (Price (clone_order o1))" "Side (clone_order o1) = BookSide c" "display_ok (clone_order o1)"
      using ok R Cons.prems(2) by (auto simp: order_ok_def clone_order_def order_sane_def copy_ok_def display_ok_def linked_ok_def split: option.splits)
    have wf: "book_wf c" using Cons.prems(2) by (simp add: copy_ok_def)
    note w = linked_wf [OF wf sane c1(1)]
    have "ID o1 = i" using ok by (simp add: order_ok_def)
    then have "copy_ok b excluded c1"
      using w Cons.prems(2) False rid by (auto simp: copy_ok_def linked_simps clone_order_def)
    with Cons c1(2) show ?thesis by simp
  qed
qed simp

lemma clone_levels_copy:
  assumes inv: "book_inv b" and ps: "set ps \<subseteq> set (Active b)"
    and "copy_ok b excluded c" "clone_levels b excluded ps c = Some c'"
  shows "copy_ok b excluded c'"
  using assms(2-4)
proof (induction ps arbitrary: c)
  case (Cons p ps)
  then have p: "p \<in> set (Active b)" by simp
  then have L: "Limits b p = Some (level_at b p)" using book_invD(2) [OF inv] by (auto simp: level_at_def)
  with Cons.prems(3) obtain c1 where c1: "clone_queue (Orders b) excluded (Queue (level_at b p)) c = Some c1" "clone_levels b excluded ps c1 = Some c'"
    by (auto simp: bind_eq_Some_conv)
  from clone_queue_copy [OF inv _ p Cons.prems(2) c1(1)] Cons c1(2) show ?case by simp
qed simp

lemma clone_copy:
  assumes "book_wf b" "cloneBookForPreviewExcluding b excluded = Some c"
  shows "copy_ok b excluded c"
proof -
  have "copy_ok b excluded (NewBook (BookSide b))"
    using NewBook_wf by (simp add: copy_ok_def) (simp add: NewBook_def)
  then show ?thesis
    using clone_levels_copy [of b "Active b" excluded "NewBook (BookSide b)" c] assms
    by (simp add: cloneBookForPreviewExcluding_def book_wf_def)
qed

lemma preview_makers:
  assumes ok: "books_ok bids asks" and t: "order_sane t"
    and p: "previewMatchExcluding (Some (Match clock)) valid bids asks t excluded = Some r" and e: "e \<in> set (Executions r)"
  shows "MakerOrderID e \<in> resting_ids (opposite (Side t) bids asks) - set excluded"
proof -
  let ?t = "t\<lparr>Parent := None, FeeReserved := []\<rparr>"
  obtain b a where ba: "cloneBookForPreviewExcluding bids excluded = Some b" "cloneBookForPreviewExcluding asks excluded = Some a"
    and m: "Match clock b a ?t = Some r"
    using p by (auto simp: previewMatchExcluding_def split: option.splits if_splits)
  have c: "copy_ok bids excluded b" "copy_ok asks excluded a" using ok ba clone_copy by (auto simp: books_ok_def)
  have ok': "books_ok b a" using ok c by (simp add: books_ok_def copy_ok_def)
  have t': "order_sane ?t" using t by (simp add: order_sane_def)
  obtain st where s: "Match clock b a ?t = Some (match_result b a ?t st)" "auction clock (match_start b a ?t) st" "match_ready (match_start b a ?t)"
    by (rule Match_run [OF ok' t'])
  from auction_execs [OF s(2,3)] m s(1) e have "exec_ok (match_start b a ?t) e" by auto
  then obtain o1 where "Orders (opposite (Side t) b a) (MakerOrderID e) = Some o1" by (auto simp: exec_ok_def)
  then have "MakerOrderID e \<in> dom (Orders (opposite (Side t) b a))" by (simp add: domI)
  with c show ?thesis by (auto simp: opposite_def copy_ok_def split: if_splits)
qed

section \<open>Whom a failed plan blames\<close>

lemma track_fills_orders:
  assumes "\<forall>i m. FindOrder book i = Some m \<longrightarrow> ID m = i"
  shows "track_fills book t fs es orders filled mf = Some (orders', filled') \<Longrightarrow> \<forall>i m. map_of orders i = Some m \<longrightarrow> ID m = i \<Longrightarrow>
    \<forall>i m. map_of orders' i = Some m \<longrightarrow> ID m = i"
proof (induction fs es arbitrary: orders filled mf rule: list_induct2')
  case (4 f fs e es)
  obtain m filled1 mf1 where m: "track_fills book t fs es (mput orders (ID m) m) filled1 mf1 = Some (orders', filled')"
    using 4(2) by (auto split: if_splits option.splits)
  have "\<forall>i m'. map_of (mput orders (ID m) m) i = Some m' \<longrightarrow> ID m' = i" using 4(3) by simp
  from 4(1) [OF m this] show ?case .
qed simp_all

text \<open>A plan may blame the incoming order, as order 0, or a maker of one of its executions.\<close>

definition blames :: "uint64 set \<Rightarrow> spotPlanFailure \<Rightarrow> bool" where
  "blames ids f \<longleftrightarrow> (\<forall>m. f = Failure m False \<longrightarrow> m = 0 \<or> m \<in> ids)"

definition begun :: "uint64 set \<Rightarrow> (uint64, spotPlanOrder) gomap \<Rightarrow> bool" where
  "begun ids m \<longleftrightarrow> (\<forall>(i, adj)\<in>set m. ID (po_order adj) \<in> ids)"

lemma set_mput: "set (mput m k v) \<subseteq> insert (k, v) (set m)"
  unfolding mput_def by (induction m) auto

lemma begun_put: "begun ids m \<Longrightarrow> ID (po_order adj) \<in> ids \<Longrightarrow> begun ids (mput m i adj)"
  using set_mput [of m i adj] by (auto simp: begun_def)

lemma beginOrder_order: "beginOrder env order n s = FRIs (s', adj) \<Longrightarrow> po_order adj = order"
  by (auto simp: beginOrder_def split: if_splits option.splits fee_result.splits)

lemma finishOrder_order: "finishOrder adj s = Some (s', adj') \<Longrightarrow> po_order adj' = po_order adj"
  by (auto simp: finishOrder_def Let_def split: if_splits option.splits)

lemma initialize_order_blame:
  assumes "begun crew (snd st)" "ID order \<in> crew" "maker \<Longrightarrow> ID order \<in> ids"
  shows "case initialize_order env filled order maker st of Inl f \<Rightarrow> blames ids f | Inr x \<Rightarrow> begun crew (snd (snd x))"
proof (cases "map_of (snd st) (ID order)")
  case None
  show ?thesis
  proof (cases "beginOrder env order (mget filled (ID order)) (fst st)")
    case (FRIs x)
    obtain s' adj where x: "x = (s', adj)" by (cases x)
    have "begun crew (mput (snd st) (ID order) adj)"
      using begun_put [OF assms(1)] beginOrder_order [OF FRIs [unfolded x]] assms(2) by simp
    then show ?thesis using None FRIs by (simp add: initialize_order_def case_prod_beta x)
  qed (use None assms(3) in \<open>simp_all add: initialize_order_def case_prod_beta blames_def\<close>)
next
  case (Some adj)
  then show ?thesis using assms(1) by (simp add: initialize_order_def case_prod_beta)
qed

lemma finish_order_blame:
  assumes "begun crew (snd st)" "blame = 0 \<or> blame \<in> ids"
  shows "case finish_order i blame st of Inl f \<Rightarrow> blames ids f | Inr st' \<Rightarrow> begun crew (snd st')"
proof (cases "Option.bind (map_of (snd st) i) (\<lambda>adj. finishOrder adj (fst st))")
  case None
  then show ?thesis using assms(2) by (auto simp: finish_order_def case_prod_beta blames_def)
next
  case (Some x)
  then obtain adj s' adj' where x: "x = (s', adj')" "map_of (snd st) i = Some adj" "finishOrder adj (fst st) = Some (s', adj')"
    by (cases x) (auto simp: bind_eq_Some_conv)
  have "ID (po_order adj') \<in> crew" using assms(1) map_of_SomeD [OF x(2)] finishOrder_order [OF x(3)] by (auto simp: begun_def)
  then show ?thesis using Some x(1) begun_put [OF assms(1)] by (simp add: finish_order_def case_prod_beta)
qed

lemma apply_leg_blame:
  assumes "begun crew (snd st)" "blame = 0 \<or> blame \<in> ids"
  shows "case apply_leg env i side e fee blame st of Inl f \<Rightarrow> blames ids f | Inr st' \<Rightarrow> begun crew (snd st')"
  using assms by (auto simp: apply_leg_def blames_def split: option.split)

lemma and_then_cases:
  assumes "case r of Inl f \<Rightarrow> P f | Inr a \<Rightarrow> Q a" "\<And>a. Q a \<Longrightarrow> case g a of Inl f \<Rightarrow> P f | Inr b \<Rightarrow> R b"
  shows "case and_then r g of Inl f \<Rightarrow> P f | Inr b \<Rightarrow> R b"
  using assms by (cases r) (simp_all add: and_then_def)

lemma plan_fill_blame:
  assumes "begun (insert (ID t) ids) (snd st)" "MakerOrderID e \<in> ids" "\<forall>i m. map_of orders i = Some m \<longrightarrow> ID m = i"
  shows "case plan_fill env t orders filled f e st of Inl f \<Rightarrow> blames ids f | Inr st' \<Rightarrow> begun (insert (ID t) ids) (snd st')"
proof (cases "map_of orders (MakerOrderID e)")
  case None
  then show ?thesis by (simp add: plan_fill_def blames_def)
next
  case (Some m)
  then have m: "ID m \<in> ids" using assms(2,3) by auto
  show ?thesis
    unfolding plan_fill_def Some option.case case_prod_beta using assms(1) m
    by (intro and_then_cases [OF initialize_order_blame] and_then_cases [OF apply_leg_blame] and_then_cases [OF finish_order_blame]
        finish_order_blame) auto
qed

lemma plan_loop_blame:
  assumes "list_all2 fill_matches fs es" "begun (insert (ID t) ids) (snd st)" "MakerOrderID ` set es \<subseteq> ids" "\<forall>i m. map_of orders i = Some m \<longrightarrow> ID m = i"
  shows "case plan_loop env t orders filled fs es st of Inl f \<Rightarrow> blames ids f | Inr st' \<Rightarrow> begun (insert (ID t) ids) (snd st')"
  using assms(1-3)
proof (induction fs es arbitrary: st rule: list_all2_induct)
  case (Cons f fs e es)
  have e: "MakerOrderID e \<in> ids" using Cons.prems(2) by simp
  show ?case unfolding plan_loop.simps
    by (rule and_then_cases [OF plan_fill_blame [OF Cons.prems(1) e assms(4)]]) (use Cons in auto)
qed simp

lemma plan_terminal_blame:
  assumes "\<forall>(i, adj)\<in>set as. ID (po_order adj) \<in> insert tid ids"
  shows "plan_terminal tid as s = Inl f \<Longrightarrow> blames ids f"
  using assms
proof (induction as arbitrary: s)
  case (Cons x as)
  obtain i adj where x: "x = (i, adj)" by (cases x)
  then show ?case using Cons by (auto simp: Let_def blames_def split: if_splits option.splits)
qed simp

lemma quote_fills_blame: "quote_fills env clients book t es = Inl f \<Longrightarrow> blames ids f"
proof (induction es)
  case (Cons e es)
  have q: "quote_fee env clients i m e = Inl g \<Longrightarrow> blames ids g" for i m g
    by (auto simp: quote_fee_def blames_def split: fee_outcome.splits)
  show ?case
  proof (cases "quote_fills env clients book t es")
    case (Inl g)
    with Cons q show ?thesis by (auto simp: blames_def split: if_splits option.splits sum.splits)
  next
    case (Inr fs)
    with Cons q show ?thesis by (auto simp: blames_def split: if_splits option.splits sum.splits)
  qed
qed simp

lemma FindOrder_ID: "books_ok (Bids book) (Asks book) \<Longrightarrow> FindOrder book i = Some m \<Longrightarrow> ID m = i"
  using book_invD(5) [of "Bids book" i m] book_invD(5) [of "Asks book" i m]
  by (auto simp: FindOrder_def books_ok_def book_wf_def order_ok_def split: option.splits)

lemma replay_plan_blame:
  assumes ok: "books_ok (Bids book) (Asks book)" and t: "order_sane t"
    and f: "replay_plan env (Some (Match clock)) clients book t excluded plan = Inl f"
  shows "blames (resting_ids (opposite (Side t) (Bids book) (Asks book)) - set excluded) f"
proof (cases "previewMatchExcluding (Some (Match clock)) (ValidatePrice (se_inst env)) (Bids book) (Asks book) t excluded")
  case None
  then show ?thesis using f by (auto simp: replay_plan_def blames_def)
next
  case (Some r)
  let ?ids = "resting_ids (opposite (Side t) (Bids book) (Asks book)) - set excluded"
  have makers: "MakerOrderID ` set (Executions r) \<subseteq> ?ids" using preview_makers [OF ok t Some] by blast
  show ?thesis
  proof (cases "plan_matches plan (Executions r) \<and> fullyFilled plan = FullyFilled r \<and>
      track_fills book t (fills plan) (Executions r) [(ID t, t)] [(ID t, FilledQty t)] [] \<noteq> None")
    case False
    then show ?thesis using f Some by (auto simp: replay_plan_def blames_def split: if_splits option.splits)
  next
    case True
    then obtain orders filled where tr: "track_fills book t (fills plan) (Executions r) [(ID t, t)] [(ID t, FilledQty t)] [] = Some (orders, filled)"
      by auto
    have ids: "\<forall>i m. map_of orders i = Some m \<longrightarrow> ID m = i"
      by (rule track_fills_orders [OF _ tr]) (use FindOrder_ID [OF ok] in auto)
    have m: "list_all2 fill_matches (fills plan) (Executions r)" using True by (simp add: plan_matches_def)
    let ?l = "plan_loop env t orders filled (fills plan) (Executions r) (newSpotPlanState clients, [])"
    have b: "case ?l of Inl f \<Rightarrow> blames ?ids f | Inr st' \<Rightarrow> begun (insert (ID t) ?ids) (snd st')"
      by (rule plan_loop_blame [OF m _ makers ids]) (simp add: begun_def)
    have eq: "and_then ?l (\<lambda>(s, initialized). and_then (plan_terminal (ID t) initialized s) (\<lambda>_. Inr plan)) = Inl f"
      using f Some True by (simp add: replay_plan_def tr)
    show ?thesis
    proof (cases ?l)
      case (Inl g)
      then show ?thesis using b eq by (simp add: and_then_def)
    next
      case (Inr st)
      then have "plan_terminal (ID t) (snd st) (fst st) = Inl f" using eq by (cases st) (simp add: and_then_def split: sum.splits)
      then show ?thesis using b Inr by (intro plan_terminal_blame [of "snd st"]) (auto simp: begun_def)
    qed
  qed
qed

lemma prepare_blame:
  assumes ok: "books_ok (Bids book) (Asks book)" and t: "order_sane t"
    and f: "prepareSpotExecutionPlan env (Some (Match clock)) clients book t excluded given = Inl (Failure m False)" "m \<noteq> 0"
  shows "m \<in> resting_ids (opposite (Side t) (Bids book) (Asks book)) - set excluded"
proof -
  let ?fee = "prepareFeeExecutionPlan env (Some (Match clock)) clients book t excluded"
  have "blames {} g" if "?fee = Inl g" for g
    using that quote_fills_blame [of env clients book t _ g "{}"]
    by (auto simp: prepareFeeExecutionPlan_def blames_def map_sum_def split: option.splits sum.splits)
  then have "(case given of None \<Rightarrow> ?fee | Some plan \<Rightarrow> Inr plan) \<noteq> Inl (Failure m False)"
    using f(2) by (auto simp: blames_def split: option.splits)
  then obtain plan where "replay_plan env (Some (Match clock)) clients book t excluded plan = Inl (Failure m False)"
    using f(1) by (auto simp: prepareSpotExecutionPlan_def and_then_def split: sum.splits)
  from replay_plan_blame [OF ok t this] f(2) show ?thesis by (auto simp: blames_def)
qed

section \<open>The search for a plan ends\<close>

text \<open>C9: the search for a fundable plan ends. Every failed attempt that is retried excludes a resting
  order of the opposite side that the attempts before it had not excluded, so on well-formed
  books the loop of order placement returns after at most as many attempts as there are such
  orders, whatever the accounts and the fee schedules are.\<close>

theorem plan_retry_terminates:
  assumes "books_ok (Bids book) (Asks book)" "order_sane order" "vc_matcher cfg = Match clock"
  shows "\<exists>r. plan_retry cfg clients book order excluded given = Some r"
proof (induction "card (resting_ids (opposite (Side order) (Bids book) (Asks book)) - set excluded)" arbitrary: excluded given rule: less_induct)
  case less
  let ?ids = "resting_ids (opposite (Side order) (Bids book) (Asks book))"
  let ?p = "prepareSpotExecutionPlan (vc_env cfg) (Some (Match clock)) clients book order excluded given"
  note unfold = plan_retry.simps [of cfg clients book order excluded given, unfolded assms(3)]
  show ?case
  proof (cases "\<exists>m. ?p = Inl (Failure m False) \<and> m \<noteq> 0")
    case False
    then show ?thesis unfolding unfold by (auto split: sum.split spotPlanFailure.split)
  next
    case True
    then obtain m where m: "?p = Inl (Failure m False)" "m \<noteq> 0" by blast
    have "?ids - set (m # excluded) \<subset> ?ids - set excluded"
      using prepare_blame [OF assms(1,2) m] by auto
    then have "card (?ids - set (m # excluded)) < card (?ids - set excluded)"
      by (intro psubset_card_mono) (simp_all add: resting_ids_finite)
    from less [OF this, of None] show ?thesis unfolding unfold using m by simp
  qed
qed

text \<open>The seller of the best ask has sold its coins elsewhere: the first attempt blames its order, the
  second finds a plan without it.\<close>

definition poor_ledger :: Ledger where
  "poor_ledger = spot_sample_ledger\<lparr>Clients := mput (Clients spot_sample_ledger) 7 (NewClient 7)\<rparr>"

definition sample_cfg :: venue_cfg where
  "sample_cfg = \<lparr>vc_env = spot_sample_env, vc_matcher = Match (\<lambda>_. 0), vc_borrowing = None, vc_autoBorrowSpot = False,
     vc_forbidBorrowing = False, vc_now = 0, vc_gateways = [], vc_positions = NewPositionManager, vc_pending = [], vc_expiry = None,
     vc_ids = (\<lambda>b. map snd (priority b))\<rparr>"

theorem plan_retry_terminates_witness:
  "\<exists>plan. plan_retry sample_cfg (Clients poor_ledger) spot_sample_book (sample_order 9 5 Buy 100 4) [] None = Some (Inr (plan, [1]))"
proof -
  let ?t = "sample_order 9 5 Buy 100 4" and ?b = spot_sample_book
  let ?p = "\<lambda>ex. prepareSpotExecutionPlan (vc_env sample_cfg) (Some (vc_matcher sample_cfg)) (Clients poor_ledger) ?b ?t ex None"
  have ok: "books_ok (Bids ?b) (Asks ?b)" using ask_ladder_ok by (simp add: spot_sample_book_def)
  have t: "order_sane ?t" "vc_matcher sample_cfg = Match (\<lambda>_. 0)" by (simp_all add: sample_order_def order_sane_def sample_cfg_def)
  obtain r where r: "plan_retry sample_cfg (Clients poor_ledger) ?b ?t [] None = Some r"
    using plan_retry_terminates [OF ok t, of "Clients poor_ledger" "[]" None] by blast
  have f: "?p [] = Inl (Failure 1 False)" by code_simp
  have "isl (?p [1]) = False" by code_simp
  then obtain plan where p: "?p [1] = Inr plan" by (cases "?p [1]") auto
  have "plan_retry sample_cfg (Clients poor_ledger) ?b ?t [1] None = Some (Inr (plan, [1]))"
    by (subst plan_retry.simps) (simp add: p)
  then have "plan_retry sample_cfg (Clients poor_ledger) ?b ?t [] None = Some (Inr (plan, [1]))"
    by (subst plan_retry.simps) (simp add: f)
  with r show ?thesis by auto
qed

end
