(* ===== verification/Perp_Margin.thy ===== *)
theory Perp_Margin
  imports Perp_Safety
begin

text \<open>The margin of a fill. What a party has locked in its perpetual wallet is owed to its orders and to its
  positions; settling a fill moves margin between the three and keeps the account exact, so that no
  other order's lock is consumed and nothing stays locked for a contract that is closed.\<close>

section \<open>What margin calculations return\<close>

definition terms_ok :: "perp_env \<Rightarrow> bool" where
  "terms_ok env \<longleftrightarrow> is_i64 (MarginRate (pe_inst env)) \<and> is_i64 (pe_precision env)"

lemma MarginRequired_range:
  assumes "MarginRequired (pe_inst env) q p (pe_precision env) = Some n" "is_i64 q" "is_i64 p" "terms_ok env"
  shows "0 \<le> n \<and> n \<le> MaxInt64"
proof -
  let ?N = "\<bar>q * p\<bar> div pe_precision env"
  have c: "is_i64 (MarginRate (pe_inst env))" "is_i64 (pe_precision env)" using assms(4) by (simp_all add: terms_ok_def)
  from assms(1) have m: "0 \<le> MarginRate (pe_inst env)" "0 < pe_precision env" "is_i64 ?N"
    and t: "TryMulDiv ?N (MarginRate (pe_inst env)) 10000 = Some n"
    using TryAbsMulDiv_eq [OF assms(2,3) c(2)] by (auto simp: MarginRequired_def split: if_splits option.splits)
  have N: "0 \<le> ?N" using m(2) by (simp add: pos_imp_zdiv_nonneg_iff)
  have "n = ?N * MarginRate (pe_inst env) sdiv 10000" "is_i64 n"
    using t TryMulDiv_eq [OF m(3) c(1), of 10000] by (auto simp: is_i64_def split: if_splits)
  moreover have "0 \<le> ?N * MarginRate (pe_inst env)" using N m(1) by simp
  ultimately show ?thesis by (auto simp: sdiv_by_sign is_i64_def pos_imp_zdiv_nonneg_iff)
qed

section \<open>The quantity a fill opens\<close>

text \<open>A trade closes what it can of the old position and opens the rest; together they are the trade.\<close>

lemma opened_closed:
  assumes "is_i64 z" "z \<noteq> MinInt64" "is_i64 q" "0 < q" "is_i64 (z + signed_qty s q)" "z + signed_qty s q \<noteq> MinInt64"
    and d: "OldSize d = z" "NewSize d = z + signed_qty s q"
  shows "0 \<le> calcClosedQty z q s" "0 \<le> openedQty d (calcClosedQty z q s)"
    "openedQty d (calcClosedQty z q s) + calcClosedQty z q s = q"
    "calcClosedQty z q s \<le> \<bar>z\<bar>"
proof -
  have nq: "i64 (- q) = - q" using assms(3,4) by (intro i64_id) (auto simp: is_i64_def)
  have nz: "i64 (- z) = - z" using assms(1,2) by (intro i64_id) (auto simp: is_i64_def)
  have sq: "signed_qty s q = (if s = Sell then - q else q)" using nq by (cases s) (auto simp: signed_qty_def)
  have cl: "calcClosedQty z q s = (if z = 0 \<or> (0 < z) = (s = Buy) then 0 else min q \<bar>z\<bar>)"
    using assms(4) nq nz i64_id [OF assms(3)] by (cases s) (auto simp: calcClosedQty_def Let_def min_def)
  have a: "abs64 (NewSize d) = \<bar>z + signed_qty s q\<bar>" "abs64 (OldSize d) = \<bar>z\<bar>"
    using abs64_eq assms by (simp_all add: d)
  have sum: "\<bar>z + signed_qty s q\<bar> - \<bar>z\<bar> + 2 * calcClosedQty z q s = q"
    using assms(4) unfolding cl sq by (cases s) (auto simp: min_def)
  have "\<bar>z + signed_qty s q\<bar> - \<bar>z\<bar> + calcClosedQty z q s = q - calcClosedQty z q s" using sum by linarith
  then have op: "openedQty d (calcClosedQty z q s) = i64 (q - calcClosedQty z q s)" by (simp only: openedQty_def a)
  have c: "0 \<le> calcClosedQty z q s" "calcClosedQty z q s \<le> q" "calcClosedQty z q s \<le> \<bar>z\<bar>" using assms(4) by (auto simp: cl)
  then have "i64 (q - calcClosedQty z q s) = q - calcClosedQty z q s" using assms(3) by (intro i64_id) (auto simp: is_i64_def)
  with op c show "0 \<le> calcClosedQty z q s" "0 \<le> openedQty d (calcClosedQty z q s)"
    "openedQty d (calcClosedQty z q s) + calcClosedQty z q s = q" "calcClosedQty z q s \<le> \<bar>z\<bar>" by auto
qed

section \<open>The margin account of a party\<close>

definition locked :: "asset \<Rightarrow> uint64 \<Rightarrow> perp_state \<Rightarrow> int" where
  "locked a i st = (case ps_client st i of None \<Rightarrow> 0 | Some c \<Rightarrow> mget (PerpReserved c) a)"

definition pos_margin :: "pos_key \<Rightarrow> perp_state \<Rightarrow> int" where
  "pos_margin k st = PosMargin (pos_at k (ps_positions st))"

definition order_margin :: "Order option \<Rightarrow> int" where
  "order_margin ord = (case ord of None \<Rightarrow> 0 | Some order \<Rightarrow> if Type order = Market then 0 else Reserved order)"

lemma locked_on_client:
  assumes "on_client i f st = Some st'"
  shows "j \<noteq> i \<Longrightarrow> locked a j st' = locked a j st" "ps_positions st' = ps_positions st" "ss_taker (ps_core st') = ss_taker (ps_core st)"
    "ss_book (ps_core st') = ss_book (ps_core st)"
  using assms by (auto simp: on_client_def locked_def store_client_def set_client_def)

lemma locked_release:
  assumes "ctx_ReleasePerp i a x st = Some st'" "0 \<le> x" "x \<le> locked a i st" "locked a i st \<le> MaxInt64"
  shows "locked a i st' = locked a i st - x"
proof -
  have "i64 (locked a i st - x) = locked a i st - x" using assms(2-4) by (intro i64_id) (auto simp: is_i64_def)
  with assms show ?thesis
    by (auto simp: ctx_ReleasePerp_def on_client_def locked_def store_client_def set_client_def ReleasePerp_def)
qed

lemma locked_reserve:
  assumes "ctx_ReservePerp i a x st = Some st'" "0 \<le> x" "0 \<le> locked a i st" "locked a i st + x \<le> MaxInt64"
  shows "locked a i st' = locked a i st + x"
proof -
  have "i64 (locked a i st + x) = locked a i st + x" using assms(2-4) by (intro i64_id) (auto simp: is_i64_def)
  with assms show ?thesis
    by (auto simp: ctx_ReservePerp_def on_client_def locked_def store_client_def set_client_def ForceReservePerp_def mget_madd)
qed

text \<open>What is locked covers the order and the position.\<close>

definition covers :: "asset \<Rightarrow> uint64 \<Rightarrow> Order option \<Rightarrow> pos_key \<Rightarrow> perp_state \<Rightarrow> bool" where
  "covers a i ord k st \<longleftrightarrow> 0 \<le> order_margin ord \<and> 0 \<le> pos_margin k st \<and>
     order_margin ord + pos_margin k st \<le> locked a i st \<and> locked a i st \<le> MaxInt64"

definition slack :: "asset \<Rightarrow> uint64 \<Rightarrow> Order option \<Rightarrow> pos_key \<Rightarrow> perp_state \<Rightarrow> int" where
  "slack a i ord k st = locked a i st - order_margin ord - pos_margin k st"

definition order_terms :: "Order option \<Rightarrow> bool" where
  "order_terms ord \<longleftrightarrow> (case ord of None \<Rightarrow> True | Some order \<Rightarrow> order_sane order \<and> is_i64 (Price order))"

lemma releaseOrderMargin_exact:
  assumes run: "releaseOrderMargin env b ord i st = Some (ord', st')"
    and cov: "covers (pe_quote env) i ord k st" and t: "order_terms ord" "terms_ok env"
  shows "covers (pe_quote env) i ord' k st'" "slack (pe_quote env) i ord' k st' = slack (pe_quote env) i ord k st"
    "j \<noteq> i \<Longrightarrow> locked a j st' = locked a j st" "ps_positions st' = ps_positions st"
    "locked (pe_quote env) i st' \<le> locked (pe_quote env) i st"
proof -
  let ?q = "pe_quote env"
  have "covers ?q i ord' k st' \<and> slack ?q i ord' k st' = slack ?q i ord k st \<and> (j \<noteq> i \<longrightarrow> locked a j st' = locked a j st) \<and>
    ps_positions st' = ps_positions st \<and> locked ?q i st' \<le> locked ?q i st"
  proof (cases "(ord', st') = (ord, st)")
    case False
    with run obtain order n x z where o: "ord = Some order" "Type order \<noteq> Market"
      and n: "MarginRequired (pe_inst env) (i64 (Qty order - FilledQty order)) (Price order) (pe_precision env) = Some n"
      and x: "x = i64 (Reserved order - n)" "0 < x" and z: "ctx_ReleasePerp i ?q x st = Some z"
      and res: "ord' = Some (order\<lparr>Reserved := n\<rparr>)" "st' = z\<lparr>ps_core := store_order b (order\<lparr>Reserved := n\<rparr>) (ps_core z)\<rparr>"
      by (auto simp: releaseOrderMargin_def Let_def split: option.splits if_splits)
    have n0: "0 \<le> n" "n \<le> MaxInt64" using MarginRequired_range [OF n] t o(1) by (auto simp: order_terms_def)
    have c: "0 \<le> Reserved order" "Reserved order + pos_margin k st \<le> locked ?q i st" "0 \<le> pos_margin k st" "locked ?q i st \<le> MaxInt64"
      using cov o by (auto simp: covers_def order_margin_def)
    have xe: "x = Reserved order - n" unfolding x(1) using n0 c by (intro i64_id) (auto simp: is_i64_def)
    have lz: "locked ?q i z = locked ?q i st - x" using locked_release [OF z] x(2) xe n0 c by simp
    note oc = locked_on_client [OF z [unfolded ctx_ReleasePerp_def]]
    have l': "locked a j st' = locked a j z" for a j by (simp add: res locked_def)
    have p': "ps_positions st' = ps_positions st" by (simp add: res oc(2))
    show ?thesis using lz xe x(2) n0 c o by (simp add: covers_def slack_def order_margin_def l' p' pos_margin_def res(1) oc(1))
  qed (use cov in simp)
  then show "covers ?q i ord' k st'" "slack ?q i ord' k st' = slack ?q i ord k st"
    "j \<noteq> i \<Longrightarrow> locked a j st' = locked a j st" "ps_positions st' = ps_positions st" "locked ?q i st' \<le> locked ?q i st" by blast+
qed

section \<open>Position margin\<close>

abbreviation pu_key :: "positionAccountingUpdate \<Rightarrow> pos_key" where
  "pu_key u \<equiv> (pu_clientID u, pu_symbol u, pu_posSide u)"

lemma pos_at_Some: "map_of (positions pm) k = Some p \<Longrightarrow> pos_at k pm = p"
  by (simp add: pos_at_def)

lemma margin_elsewhere:
  "ReleasePositionMargin i sy s q z pm = Some (pm', x) \<Longrightarrow> k \<noteq> (i, sy, s) \<Longrightarrow> pos_at k pm' = pos_at k pm"
  "k \<noteq> (i, sy, s) \<Longrightarrow> pos_at k (AddPositionMargin i sy s y pm) = pos_at k pm"
  by (auto simp: ReleasePositionMargin_def AddPositionMargin_def pos_at_def Let_def split: option.splits if_splits)

text \<open>What a step of a party leaves alone: the others' locks, the other positions and the incoming order.\<close>

definition leaves_others :: "uint64 \<Rightarrow> pos_key \<Rightarrow> perp_state \<Rightarrow> perp_state \<Rightarrow> bool" where
  "leaves_others i k st st' \<longleftrightarrow> (\<forall>a j. j \<noteq> i \<longrightarrow> locked a j st' = locked a j st) \<and>
     (\<forall>k'. k' \<noteq> k \<longrightarrow> pos_margin k' st' = pos_margin k' st) \<and> ss_taker (ps_core st') = ss_taker (ps_core st)"

lemma leaves_others_trans: "leaves_others i k a b \<Longrightarrow> leaves_others i k b c \<Longrightarrow> leaves_others i k a c"
  by (simp add: leaves_others_def)

lemma release_closed_exact:
  assumes run: "release_closed env u d c st = Some st'" and cov: "covers (pe_quote env) (pu_clientID u) ord (pu_key u) st"
    and p: "map_of (positions (ps_positions st)) (pu_key u) = Some p"
    and z: "is_i64 (OldSize d)" "OldSize d \<noteq> MinInt64" "0 \<le> c"
  shows "covers (pe_quote env) (pu_clientID u) ord (pu_key u) st' \<and>
    slack (pe_quote env) (pu_clientID u) ord (pu_key u) st' = slack (pe_quote env) (pu_clientID u) ord (pu_key u) st \<and>
    leaves_others (pu_clientID u) (pu_key u) st st' \<and> map_of (positions (ps_positions st')) (pu_key u) \<noteq> None \<and>
    locked (pe_quote env) (pu_clientID u) st' \<le> locked (pe_quote env) (pu_clientID u) st"
proof (cases "c > 0 \<and> OldSize d \<noteq> 0")
  case True
  let ?i = "pu_clientID u" and ?q = "pe_quote env" and ?k = "pu_key u"
  have m: "pos_margin ?k st = PosMargin p" using p by (simp add: pos_margin_def pos_at_Some)
  have cov': "0 \<le> order_margin ord" "0 \<le> PosMargin p" "order_margin ord + PosMargin p \<le> locked ?q ?i st" "locked ?q ?i st \<le> MaxInt64"
    using cov by (simp_all add: covers_def m)
  then have "is_i64 (PosMargin p)" by (auto simp: is_i64_def)
  from ReleasePositionMargin_proportional [OF p this cov'(2) z]
  obtain pm p' x where r: "ReleasePositionMargin ?i (pu_symbol u) (pu_posSide u) c (OldSize d) (ps_positions st) = Some (pm, x)"
    and p': "map_of (positions pm) ?k = Some p'" "PosMargin p' + x = PosMargin p" "0 \<le> x" "0 \<le> PosMargin p'" by blast
  have run': "ctx_ReleasePerp ?i ?q x (st\<lparr>ps_positions := pm\<rparr>) = Some st'" using run True r by (simp add: release_closed_def)
  note oc = locked_on_client [OF run' [unfolded ctx_ReleasePerp_def]]
  have l: "locked a j (st\<lparr>ps_positions := pm\<rparr>) = locked a j st" for a j by (simp add: locked_def)
  have lx: "locked ?q ?i st' = locked ?q ?i st - x"
    using locked_release [OF run' p'(3)] p'(2,4) cov' l by simp
  have pm': "pos_margin ?k st' = PosMargin p'" using p'(1) oc(2) by (simp add: pos_margin_def pos_at_Some)
  have "leaves_others ?i ?k st st'"
    using oc l margin_elsewhere(1) [OF r] by (simp add: leaves_others_def pos_margin_def)
  then show ?thesis using lx pm' p' cov' oc(2) by (simp add: covers_def slack_def m)
qed (use run cov p in \<open>auto simp: release_closed_def leaves_others_def\<close>)

lemma reserve_opened_exact:
  assumes run: "reserve_opened env u d c st = Some st'" and cov: "covers (pe_quote env) (pu_clientID u) ord (pu_key u) st"
    and p: "map_of (positions (ps_positions st)) (pu_key u) \<noteq> None"
    and t: "is_i64 (openedQty d c)" "is_i64 (pu_price u)" "terms_ok env"
    and room: "\<And>n. MarginRequired (pe_inst env) (openedQty d c) (pu_price u) (pe_precision env) = Some n \<Longrightarrow>
      locked (pe_quote env) (pu_clientID u) st + n \<le> MaxInt64"
  shows "covers (pe_quote env) (pu_clientID u) ord (pu_key u) st' \<and>
    slack (pe_quote env) (pu_clientID u) ord (pu_key u) st' = slack (pe_quote env) (pu_clientID u) ord (pu_key u) st \<and>
    leaves_others (pu_clientID u) (pu_key u) st st'"
proof (cases "openedQty d c > 0")
  case True
  let ?i = "pu_clientID u" and ?q = "pe_quote env" and ?k = "pu_key u"
  from run True obtain n z where n: "MarginRequired (pe_inst env) (openedQty d c) (pu_price u) (pe_precision env) = Some n"
    and z: "ctx_ReservePerp ?i ?q n st = Some z"
    and st': "st' = z\<lparr>ps_positions := AddPositionMargin ?i (pu_symbol u) (pu_posSide u) n (ps_positions z)\<rparr>"
    by (auto simp: reserve_opened_def split: option.splits)
  obtain p0 where p0: "map_of (positions (ps_positions st)) ?k = Some p0" using p by blast
  have n0: "0 \<le> n" using MarginRequired_range [OF n t] by simp
  have m: "pos_margin ?k st = PosMargin p0" using p0 by (simp add: pos_margin_def pos_at_Some)
  have cov': "0 \<le> order_margin ord" "0 \<le> PosMargin p0" "order_margin ord + PosMargin p0 \<le> locked ?q ?i st" "locked ?q ?i st + n \<le> MaxInt64"
    using cov room [OF n] by (simp_all add: covers_def m)
  note oc = locked_on_client [OF z [unfolded ctx_ReservePerp_def]]
  have lz: "locked ?q ?i z = locked ?q ?i st + n" using locked_reserve [OF z n0] cov' by simp
  have "i64 (PosMargin p0 + n) = PosMargin p0 + n" using cov' n0 by (intro i64_id) (auto simp: is_i64_def)
  then have pm': "pos_margin ?k st' = PosMargin p0 + n"
    using p0 oc(2) by (simp add: st' pos_margin_def AddPositionMargin_def pos_at_def)
  have l: "locked a j st' = locked a j z" for a j by (simp add: st' locked_def)
  have "leaves_others ?i ?k st st'"
    using oc l margin_elsewhere(2) by (simp add: leaves_others_def pos_margin_def st')
  then show ?thesis using lz pm' cov' n0 by (simp add: covers_def slack_def m l)
qed (use run cov in \<open>auto simp: reserve_opened_def leaves_others_def\<close>)

lemma settlePositionMargin_exact:
  assumes run: "settlePositionMargin env u d c st = Some st'" and cov: "covers (pe_quote env) (pu_clientID u) ord (pu_key u) st"
    and p: "map_of (positions (ps_positions st)) (pu_key u) = Some p"
    and z: "is_i64 (OldSize d)" "OldSize d \<noteq> MinInt64" "0 \<le> c"
    and t: "is_i64 (openedQty d c)" "is_i64 (pu_price u)" "terms_ok env"
    and room: "\<And>n. MarginRequired (pe_inst env) (openedQty d c) (pu_price u) (pe_precision env) = Some n \<Longrightarrow>
      locked (pe_quote env) (pu_clientID u) st + n \<le> MaxInt64"
  shows "covers (pe_quote env) (pu_clientID u) ord (pu_key u) st' \<and>
    slack (pe_quote env) (pu_clientID u) ord (pu_key u) st' = slack (pe_quote env) (pu_clientID u) ord (pu_key u) st \<and>
    leaves_others (pu_clientID u) (pu_key u) st st'"
proof -
  from run obtain st1 where r: "release_closed env u d c st = Some st1" "reserve_opened env u d c st1 = Some st'"
    by (auto simp: settlePositionMargin_def bind_eq_Some_conv)
  note A = release_closed_exact [OF r(1) cov p z]
  have room1: "locked (pe_quote env) (pu_clientID u) st1 + n \<le> MaxInt64"
    if "MarginRequired (pe_inst env) (openedQty d c) (pu_price u) (pe_precision env) = Some n" for n
    using room [OF that] A by linarith
  have "covers (pe_quote env) (pu_clientID u) ord (pu_key u) st1" "map_of (positions (ps_positions st1)) (pu_key u) \<noteq> None"
    using A by blast+
  from reserve_opened_exact [OF r(2) this t room1] A show ?thesis using leaves_others_trans by (metis (no_types))
qed

section \<open>Cash and fees leave margin alone\<close>

lemma moveVenueBalance_clients: "moveVenueBalance bucket a d symbol l = Some l' \<Longrightarrow> Clients l' = Clients l"
  by (auto simp: moveVenueBalance_def Let_def split: if_splits VenueBucket.splits option.splits)

lemma ctx_RecordFeeRevenue_margin:
  assumes "ctx_RecordFeeRevenue a x y st = Some st'"
  shows "locked b i st' = locked b i st \<and> pos_margin k st' = pos_margin k st \<and> ss_taker (ps_core st') = ss_taker (ps_core st)"
proof -
  from assms obtain l where l: "recordFeeRevenue a (no_fee\<lparr>FeeAmount := x\<rparr>) (no_fee\<lparr>FeeAmount := y\<rparr>) (Symbol (ss_book (ps_core st))) (ps_ledger st) = Some l"
    and st': "st' = st\<lparr>ps_core := (ps_core st)\<lparr>ss_ledger := l\<rparr>\<rparr>" by (auto simp: ctx_RecordFeeRevenue_def)
  from l have "Clients l = Clients (ps_ledger st)"
    by (auto simp: recordFeeRevenue_def Let_def bind_eq_Some_conv dest!: moveVenueBalance_clients split: if_splits)
  then show ?thesis by (simp add: st' locked_def pos_margin_def)
qed

lemma recordSettlementFees_margin:
  "recordSettlementFees q tf mf st = Some st' \<Longrightarrow>
   locked b i st' = locked b i st \<and> pos_margin k st' = pos_margin k st \<and> ss_taker (ps_core st') = ss_taker (ps_core st)"
  by (auto simp: recordSettlementFees_def Let_def bind_eq_Some_conv dest!: ctx_RecordFeeRevenue_margin [where b = b and i = i and k = k] split: if_splits)

lemma settleSide_margin:
  assumes "settleSide env u d r fee st = Some (pnl, st')"
  shows "locked b i st' = locked b i st \<and> pos_margin k st' = pos_margin k st \<and> ss_taker (ps_core st') = ss_taker (ps_core st)"
proof -
  define wrote where "wrote c p deltas = st\<lparr>ps_core := (ps_core st)\<lparr>ss_ledger :=
    logBalanceChange deltas (set_client (pu_clientID u) (side_balances (pe_quote env) p fee c) (ps_ledger st))\<rparr>\<rparr>" for c p deltas
  from assms obtain c p deltas where c: "ps_client st (pu_clientID u) = Some c" and st': "st' = wrote c p deltas"
    unfolding settleSide_def Let_def wrote_def [symmetric] by (auto split: option.splits)
  have "PerpReserved (side_balances (pe_quote env) p fee c) = PerpReserved c"
    by (simp add: side_balances_def MutatePerpBalance_def Let_def)
  then show ?thesis by (simp add: st' wrote_def locked_def pos_margin_def logBalanceChange_def set_client_def c)
qed

lemma releaseOrderMargin_taker:
  assumes "releaseOrderMargin env b ord i st = Some (ord', st')"
  shows "b \<Longrightarrow> ss_taker (ps_core st') = ss_taker (ps_core st)"
    "\<not> b \<Longrightarrow> ord = Some (ss_taker (ps_core st)) \<Longrightarrow> ord' = Some (ss_taker (ps_core st'))"
  using assms
  by (auto simp: releaseOrderMargin_def ctx_ReleasePerp_def store_order_def Let_def split: option.splits if_splits dest!: locked_on_client(3))

section \<open>Margin of a whole fill\<close>

lemma covers_cong:
  "locked a i st' = locked a i st \<Longrightarrow> pos_margin k st' = pos_margin k st \<Longrightarrow>
   covers a i ord k st' = covers a i ord k st \<and> slack a i ord k st' = slack a i ord k st"
  by (simp add: covers_def slack_def)

text \<open>A party's side of the money: what it must satisfy before.\<close>

definition party_ok :: "perp_env \<Rightarrow> positionAccountingUpdate \<Rightarrow> Order option \<Rightarrow> PositionDelta \<Rightarrow> perp_state \<Rightarrow> bool" where
  "party_ok env u ord d st \<longleftrightarrow> covers (pe_quote env) (pu_clientID u) ord (pu_key u) st \<and> order_terms ord \<and>
     map_of (positions (ps_positions st)) (pu_key u) \<noteq> None \<and> is_i64 (OldSize d) \<and> OldSize d \<noteq> MinInt64 \<and>
     (let c = calcClosedQty (OldSize d) (pu_qty u) (pu_tradeSide u) in 0 \<le> c \<and> is_i64 (openedQty d c) \<and>
       (\<forall>n. MarginRequired (pe_inst env) (openedQty d c) (pu_price u) (pe_precision env) = Some n \<longrightarrow>
          locked (pe_quote env) (pu_clientID u) st + n \<le> MaxInt64))"

lemma settle_money_margin:
  assumes run: "settle_money env e tu mu tFee mFee td md tAcc mAcc mo st = Some (mo', tp, mp, st')"
    and ids: "pu_clientID tu = TakerClientID e" "pu_clientID mu = MakerClientID e" "TakerClientID e \<noteq> MakerClientID e"
      "pu_qty tu = ExecQty e" "pu_qty mu = ExecQty e" and pr: "is_i64 (pu_price tu)" "is_i64 (pu_price mu)" "terms_ok env"
    and t: "party_ok env tu (Some (ss_taker (ps_core st))) td st" and m: "party_ok env mu mo md st"
  shows "covers (pe_quote env) (TakerClientID e) (Some (ss_taker (ps_core st'))) (pu_key tu) st' \<and>
    slack (pe_quote env) (TakerClientID e) (Some (ss_taker (ps_core st'))) (pu_key tu) st' =
      slack (pe_quote env) (TakerClientID e) (Some (ss_taker (ps_core st))) (pu_key tu) st \<and>
    covers (pe_quote env) (MakerClientID e) mo' (pu_key mu) st' \<and>
    slack (pe_quote env) (MakerClientID e) mo' (pu_key mu) st' = slack (pe_quote env) (MakerClientID e) mo (pu_key mu) st"
proof -
  let ?q = "pe_quote env" and ?T = "TakerClientID e" and ?M = "MakerClientID e" and ?kt = "pu_key tu" and ?km = "pu_key mu"
  obtain st1 st2 st3 st4 st5 st6 ord1 where S:
    "releaseOrderMargin env False (Some (ss_taker (ps_core st))) ?T st = Some (ord1, st1)"
    "releaseOrderMargin env True mo ?M st1 = Some (mo', st2)"
    "settlePositionMargin env tu td (calcClosedQty (OldSize td) (ExecQty e) (pu_tradeSide tu)) st2 = Some st3"
    "settlePositionMargin env mu md (calcClosedQty (OldSize md) (ExecQty e) (pu_tradeSide mu)) st3 = Some st4"
    "settleSide env tu td tAcc tFee st4 = Some (tp, st5)" "settleSide env mu md mAcc mFee st5 = Some (mp, st6)"
    "recordSettlementFees ?q tFee mFee st6 = Some st'"
    by (rule settle_money_steps [OF run])
  note T0 = t [unfolded party_ok_def Let_def ids] and M0 = m [unfolded party_ok_def Let_def ids]
  have MT: "?M \<noteq> ?T" using ids(3) by simp
  have ne: "?km \<noteq> ?kt" "?kt \<noteq> ?km" using ids by simp_all
  note A = releaseOrderMargin_exact [OF S(1) _ _ pr(3), where k = ?kt]
  have A1: "covers ?q ?T ord1 ?kt st1" "slack ?q ?T ord1 ?kt st1 = slack ?q ?T (Some (ss_taker (ps_core st))) ?kt st"
    "locked ?q ?T st1 \<le> locked ?q ?T st" "ps_positions st1 = ps_positions st" "\<And>a. locked a ?M st1 = locked a ?M st"
    using T0 A(1,2,3,4,5) MT by (simp_all add: ids)
  have o1: "ord1 = Some (ss_taker (ps_core st1))" using releaseOrderMargin_taker(2) [OF S(1)] by simp
  have p1: "pos_margin k st1 = pos_margin k st" for k by (simp add: pos_margin_def A1(4))
  have M1: "covers ?q ?M mo ?km st1" "slack ?q ?M mo ?km st1 = slack ?q ?M mo ?km st"
    using covers_cong [OF A1(5) p1, of ?q mo ?km] M0 by (simp_all add: ids)
  note B = releaseOrderMargin_exact [OF S(2) M1(1) _ pr(3)]
  have B1: "covers ?q ?M mo' ?km st2" "slack ?q ?M mo' ?km st2 = slack ?q ?M mo ?km st1"
    "locked ?q ?M st2 \<le> locked ?q ?M st1" "ps_positions st2 = ps_positions st1" "\<And>a. locked a ?T st2 = locked a ?T st1"
    using M0 B(1,2,3,4,5) ids(3) by simp_all
  have o2: "ss_taker (ps_core st2) = ss_taker (ps_core st1)" using releaseOrderMargin_taker(1) [OF S(2)] by simp
  have p2: "pos_margin k st2 = pos_margin k st1" for k by (simp add: pos_margin_def B1(4))
  have T2: "covers ?q ?T ord1 ?kt st2" "slack ?q ?T ord1 ?kt st2 = slack ?q ?T ord1 ?kt st1"
    using covers_cong [OF B1(5) p2, of ?q ord1 ?kt] A1(1) by simp_all
  obtain p where p: "map_of (positions (ps_positions st2)) ?kt = Some p" using T0 A1(4) B1(4) by (auto simp: ids)
  have roomT: "locked ?q ?T st2 + n \<le> MaxInt64"
    if "MarginRequired (pe_inst env) (openedQty td (calcClosedQty (OldSize td) (ExecQty e) (pu_tradeSide tu))) (pu_price tu) (pe_precision env) = Some n" for n
    using T0 that A1(3) B1(5) [of ?q] by (smt (verit, best))
  have C: "covers ?q ?T ord1 ?kt st3 \<and> slack ?q ?T ord1 ?kt st3 = slack ?q ?T ord1 ?kt st2 \<and> leaves_others ?T ?kt st2 st3"
    using settlePositionMargin_exact [OF S(3), of ord1 p, unfolded ids] T2(1) p T0 pr roomT by (simp add: ids)
  have M3: "covers ?q ?M mo' ?km st3" "slack ?q ?M mo' ?km st3 = slack ?q ?M mo' ?km st2" "locked ?q ?M st3 = locked ?q ?M st2"
    using C covers_cong [of ?q ?M st3 st2 ?km mo'] B1(1) ne ids(3) by (auto simp: leaves_others_def)
  have "map_of (positions (ps_positions st2)) ?km \<noteq> None" using M0 A1(4) B1(4) by (simp add: ids)
  then have pm3: "map_of (positions (ps_positions st3)) ?km \<noteq> None"
    using S(3) ne by (auto simp: settlePositionMargin_def release_closed_def reserve_opened_def ctx_ReleasePerp_def ctx_ReservePerp_def
        AddPositionMargin_def ReleasePositionMargin_def bind_eq_Some_conv Let_def dest!: locked_on_client(2) split: if_splits option.splits)
  then obtain p' where p': "map_of (positions (ps_positions st3)) ?km = Some p'" by blast
  have roomM: "locked ?q ?M st3 + n \<le> MaxInt64"
    if "MarginRequired (pe_inst env) (openedQty md (calcClosedQty (OldSize md) (ExecQty e) (pu_tradeSide mu))) (pu_price mu) (pe_precision env) = Some n" for n
    using M0 that B1(3) M3(3) A1(5) [of ?q] by (smt (verit, best))
  have D: "covers ?q ?M mo' ?km st4 \<and> slack ?q ?M mo' ?km st4 = slack ?q ?M mo' ?km st3 \<and> leaves_others ?M ?km st3 st4"
    using settlePositionMargin_exact [OF S(4), of mo' p', unfolded ids] M3(1) p' M0 pr roomM by (simp add: ids)
  have T4: "covers ?q ?T ord1 ?kt st4" "slack ?q ?T ord1 ?kt st4 = slack ?q ?T ord1 ?kt st3" "ss_taker (ps_core st4) = ss_taker (ps_core st1)"
    using C D covers_cong [of ?q ?T st4 st3 ?kt ord1] ne ids(3) o2 by (auto simp: leaves_others_def)
  have E: "locked a i st' = locked a i st4" "pos_margin k st' = pos_margin k st4" "ss_taker (ps_core st') = ss_taker (ps_core st4)" for a i k
    using settleSide_margin [OF S(5), of a i k] settleSide_margin [OF S(6), of a i k] recordSettlementFees_margin [OF S(7), of a i k] by simp_all
  show ?thesis
    using covers_cong [OF E(1,2), of ?q ?T ord1 ?kt] covers_cong [OF E(1,2), of ?q ?M mo' ?km] T4 D M3(2) B1(2) M1(2) C T2(2) A1(2) E(3) o1 by simp
qed

section \<open>Properties\<close>

lemma covers_positions:
  "pos_at k pm = p \<Longrightarrow> PosMargin p = pos_margin k st \<Longrightarrow>
   covers a i ord k (st\<lparr>ps_positions := pm\<rparr>) = covers a i ord k st \<and> slack a i ord k (st\<lparr>ps_positions := pm\<rparr>) = slack a i ord k st \<and>
   locked a i (st\<lparr>ps_positions := pm\<rparr>) = locked a i st"
  by (simp add: covers_def slack_def locked_def pos_margin_def)

lemma party_ready:
  assumes cov: "covers (pe_quote env) (pu_clientID u) ord (pu_key u) st" "order_terms ord"
    and pm: "map_of (positions pm) (pu_key u) = Some p" "PosMargin p = pos_margin (pu_key u) st"
    and sz: "is_i64 (OldSize d)" "OldSize d \<noteq> MinInt64" "is_i64 (pu_qty u)" "0 < pu_qty u" "is_i64 (NewSize d)" "NewSize d \<noteq> MinInt64"
      "NewSize d = OldSize d + signed_qty (pu_tradeSide u) (pu_qty u)"
    and room: "\<And>q n. 0 \<le> q \<Longrightarrow> q \<le> pu_qty u \<Longrightarrow> MarginRequired (pe_inst env) q (pu_price u) (pe_precision env) = Some n \<Longrightarrow>
      locked (pe_quote env) (pu_clientID u) st + n \<le> MaxInt64"
  shows "party_ok env u ord d (st\<lparr>ps_positions := pm\<rparr>)"
proof -
  note o = opened_closed [OF sz(1-4) sz(5,6) [unfolded sz(7)] refl sz(7)]
  let ?c = "calcClosedQty (OldSize d) (pu_qty u) (pu_tradeSide u)"
  have i: "is_i64 (openedQty d ?c)" using o sz(3) by (auto simp: is_i64_def)
  have "pos_at (pu_key u) pm = p" using pm(1) by (simp add: pos_at_def)
  note C = covers_positions [OF this pm(2)]
  have "locked (pe_quote env) (pu_clientID u) st + n \<le> MaxInt64"
    if "MarginRequired (pe_inst env) (openedQty d ?c) (pu_price u) (pe_precision env) = Some n" for n
    using room [OF _ _ that] o by linarith
  with C cov pm(1) sz(1,2) o(1) i show ?thesis by (simp add: party_ok_def Let_def)
qed

lemma updatePosition_margin:
  assumes ok: "pm_ok pm" and P: "0 < mget (precisions pm) sy" and q: "is_i64 q"
    and run: "updatePosition i sy q p s ps pm = Some (pm', d, r)"
  shows "\<exists>p'. map_of (positions pm') (i, sy, ps) = Some p' \<and> PosMargin p' = PosMargin (pos_at (i, sy, ps) pm)"
    "k \<noteq> (i, sy, ps) \<Longrightarrow> map_of (positions pm') k = map_of (positions pm) k"
    "is_i64 (OldSize d)" "OldSize d \<noteq> MinInt64" "is_i64 (NewSize d)" "NewSize d \<noteq> MinInt64" "NewSize d = OldSize d + signed_qty s q"
proof -
  obtain a' cash entry where x: "pm' = pm\<lparr>positions := mput (positions pm) (i, sy, ps) ((pos_at (i, sy, ps) pm)\<lparr>PosSize := acc_size a', PosEntry := entry\<rparr>),
             accounting := mput (accounting pm) (i, sy, ps) a'\<rparr>" "OldSize d = PosSize (pos_at (i, sy, ps) pm)" "NewSize d = acc_size a'"
      "acc_ok (mget (precisions pm) sy) a'"
    using updatePosition_value [OF ok P q run] by blast
  show "\<exists>p'. map_of (positions pm') (i, sy, ps) = Some p' \<and> PosMargin p' = PosMargin (pos_at (i, sy, ps) pm)"
    "k \<noteq> (i, sy, ps) \<Longrightarrow> map_of (positions pm') k = map_of (positions pm) k" by (simp_all add: x(1))
  have "acc_ok (mget (precisions pm) sy) (acc_at (i, sy, ps) pm)" "PosSize (pos_at (i, sy, ps) pm) = acc_size (acc_at (i, sy, ps) pm)"
    using pm_ok_at [OF ok, of "(i, sy, ps)"] P by (simp_all add: exact_at_def precision_of_def)
  then show "is_i64 (OldSize d)" "OldSize d \<noteq> MinInt64" "is_i64 (NewSize d)" "NewSize d \<noteq> MinInt64"
    using x by (simp_all add: acc_ok_def)
  show "NewSize d = OldSize d + signed_qty s q" using updatePosition_exact [OF ok P q, of i p s ps] run by simp
qed

text \<open>C11: the margin of a fill is accounted to the unit. If before a fill what each party has locked in its
  perpetual wallet covers its order and its position, then settling the fill keeps it covered, and
  what is locked beyond the two, for the party's other orders and positions, is exactly what it was:
  the order's margin shrinks to what its remainder needs, a closed share of the position frees its
  share of the position's margin, an opened quantity is margined at the fill price.\<close>

theorem perp_margin_exact:
  assumes "Settle env e ps tFee mFee mo st = Some (r, mo', st')" and "pm_ok (ps_positions st)"
    and "0 < mget (precisions (ps_positions st)) (Symbol (ss_book (ps_core st)))" "terms_ok env"
    and "is_i64 (ExecQty e)" "0 < ExecQty e" "is_i64 (ExecPrice e)" "TakerClientID e \<noteq> MakerClientID e"
    and "kt = (TakerClientID e, Symbol (ss_book (ps_core st)), PositionSide (ss_taker (ps_core st)))"
    and "km = (MakerClientID e, Symbol (ss_book (ps_core st)), ps)"
    and "covers (pe_quote env) (TakerClientID e) (Some (ss_taker (ps_core st))) kt st" "order_terms (Some (ss_taker (ps_core st)))"
    and "covers (pe_quote env) (MakerClientID e) mo km st" "order_terms mo"
    and "\<And>i q n. i \<in> {TakerClientID e, MakerClientID e} \<Longrightarrow> 0 \<le> q \<Longrightarrow> q \<le> ExecQty e \<Longrightarrow>
      MarginRequired (pe_inst env) q (ExecPrice e) (pe_precision env) = Some n \<Longrightarrow> locked (pe_quote env) i st + n \<le> MaxInt64"
  shows "covers (pe_quote env) (TakerClientID e) (Some (ss_taker (ps_core st'))) kt st' \<and>
    covers (pe_quote env) (MakerClientID e) mo' km st' \<and>
    slack (pe_quote env) (TakerClientID e) (Some (ss_taker (ps_core st'))) kt st' =
      slack (pe_quote env) (TakerClientID e) (Some (ss_taker (ps_core st))) kt st \<and>
    slack (pe_quote env) (MakerClientID e) mo' km st' = slack (pe_quote env) (MakerClientID e) mo km st"
proof -
  let ?sy = "Symbol (ss_book (ps_core st))"
  obtain tu mu pm1 pm2 td md tAcc mAcc where
    u: "tu = taker_update ?sy e (ss_taker (ps_core st))" "mu = maker_update ?sy e ps"
    and up1: "updatePosition (TakerClientID e) ?sy (ExecQty e) (ExecPrice e) (Side (ss_taker (ps_core st))) (PositionSide (ss_taker (ps_core st)))
      (ps_positions st) = Some (pm1, td, tAcc)"
    and up2: "updatePosition (MakerClientID e) ?sy (ExecQty e) (ExecPrice e) (MakerSide e) ps pm1 = Some (pm2, md, mAcc)"
    and money: "settle_money env e tu mu tFee mFee td md tAcc mAcc mo (st\<lparr>ps_positions := pm2\<rparr>) = Some (mo', sr_TakerPnL r, sr_MakerPnL r, st')"
    by (rule Settle_steps [OF assms(1)])
  have pu: "pu_clientID tu = TakerClientID e" "pu_clientID mu = MakerClientID e" "pu_qty tu = ExecQty e" "pu_qty mu = ExecQty e"
    "pu_price tu = ExecPrice e" "pu_price mu = ExecPrice e" "pu_symbol tu = ?sy" "pu_symbol mu = ?sy"
    "pu_posSide tu = PositionSide (ss_taker (ps_core st))" "pu_posSide mu = ps" "pu_tradeSide tu = Side (ss_taker (ps_core st))" "pu_tradeSide mu = MakerSide e"
    by (simp_all add: u taker_update_def maker_update_def)
  have ne: "kt \<noteq> km" using assms(8-10) by simp
  note U = updatePosition_margin [OF assms(2,3,5) up1, folded assms(9)]
  have pm1: "pm_ok pm1" "0 < mget (precisions pm1) ?sy" using exact_total_update [OF assms(2,3,5) up1] assms(3) by auto
  note V = updatePosition_margin [OF pm1 assms(5) up2, folded assms(10)]
  obtain p where p: "map_of (positions pm2) kt = Some p" "PosMargin p = pos_margin kt st"
    using U(1) V(2) [of kt] ne by (auto simp: pos_margin_def)
  obtain p' where p': "map_of (positions pm2) km = Some p'" "PosMargin p' = pos_margin km st"
    using V(1) U(2) [of km] ne by (auto simp: pos_margin_def pos_at_def)
  let ?st = "st\<lparr>ps_positions := pm2\<rparr>"
  have T: "party_ok env tu (Some (ss_taker (ps_core st))) td ?st"
    using party_ready [of env tu _ st pm2 p td] assms(5,6,11,12) p U(3-7) assms(15) by (simp add: pu assms(9))
  have M: "party_ok env mu mo md ?st"
    using party_ready [of env mu mo st pm2 p' md] assms(5,6,13,14) p' V(3-7) assms(15) by (simp add: pu assms(10))
  note C = covers_positions [OF pos_at_Some [OF p(1)] p(2)] covers_positions [OF pos_at_Some [OF p'(1)] p'(2)]
  from settle_money_margin [OF money pu(1,2) assms(8) pu(3,4)] T M assms(4,7) C show ?thesis by (simp add: pu assms(9,10))
qed

lemma perp_sample_room:
  assumes "0 \<le> q" "q \<le> 3" "MarginRequired (pe_inst perp_sample_env) q 3000 10 = Some n"
  shows "n \<le> 90"
proof -
  have "q \<in> {0, 1, 2, 3}" using assms(1,2) by auto
  moreover have "map (\<lambda>q. MarginRequired (pe_inst perp_sample_env) q 3000 10) [0, 1, 2, 3] = [Some 0, Some 30, Some 60, Some 90]" by code_simp
  ultimately show ?thesis using assms(3) by auto
qed

theorem perp_margin_exact_witness:
  "\<exists>r mo' st'. Settle perp_sample_env perp_sample_exec PositionBoth \<lparr>FeeAsset = ''USD'', FeeAmount = 2\<rparr> no_fee
       (Some (perp_sample_order 21 8 Buy)) perp_sample_state = Some (r, mo', st') \<and>
     locked ''USD'' 7 st' - order_margin (Some (ss_taker (ps_core st'))) - pos_margin (7, ''P'', PositionBoth) st' = 48 \<and>
     locked ''USD'' 8 st' - order_margin mo' - pos_margin (8, ''P'', PositionBoth) st' = 48"
proof -
  let ?run = "Settle perp_sample_env perp_sample_exec PositionBoth \<lparr>FeeAsset = ''USD'', FeeAmount = 2\<rparr> no_fee
      (Some (perp_sample_order 21 8 Buy)) perp_sample_state"
  have "?run \<noteq> None" by code_simp
  then obtain r mo' st' where run: "?run = Some (r, mo', st')" by auto
  have pm: "pm_ok (ps_positions perp_sample_state)" using reachable_pm_ok [OF traded_reachable] by (simp add: perp_sample_state_def)
  have pr: "mget (precisions traded_store) ''P'' = 10" by code_simp
  have pos: "PosMargin (pos_at (7, ''P'', PositionBoth) traded_store) = 0" "PosMargin (pos_at (8, ''P'', PositionBoth) traded_store) = 0"
    by code_simp+
  have L: "locked ''USD'' 7 perp_sample_state = 200" "locked ''USD'' 8 perp_sample_state = 200" by code_simp+
  note D = perp_sample_state_def perp_sample_exec_def perp_sample_order_def sample_order_def
  have env: "pe_quote perp_sample_env = ''USD''" "pe_precision perp_sample_env = 10" "terms_ok perp_sample_env"
    by (simp_all add: perp_sample_env_def NewPerpFutures_def terms_ok_def is_i64_def)
  have cov: "covers ''USD'' 7 (Some (ss_taker (ps_core perp_sample_state))) (7, ''P'', PositionBoth) perp_sample_state"
    "covers ''USD'' 8 (Some (perp_sample_order 21 8 Buy)) (8, ''P'', PositionBoth) perp_sample_state"
    "slack ''USD'' 7 (Some (ss_taker (ps_core perp_sample_state))) (7, ''P'', PositionBoth) perp_sample_state = 48"
    "slack ''USD'' 8 (Some (perp_sample_order 21 8 Buy)) (8, ''P'', PositionBoth) perp_sample_state = 48"
    using pos L by (simp_all add: covers_def slack_def order_margin_def pos_margin_def) (simp_all add: D)
  have terms: "order_terms (Some (ss_taker (ps_core perp_sample_state)))" "order_terms (Some (perp_sample_order 21 8 Buy))"
    by (simp_all add: D order_terms_def order_sane_def is_i64_def)
  have room: "locked ''USD'' i perp_sample_state + n \<le> MaxInt64"
    if "i \<in> {7, 8}" "0 \<le> q" "q \<le> 3" "MarginRequired (pe_inst perp_sample_env) q 3000 10 = Some n" for i q n
    using perp_sample_room [OF that(2-4)] that(1) L by auto
  have ids: "TakerClientID perp_sample_exec = 7" "MakerClientID perp_sample_exec = 8" "ExecQty perp_sample_exec = 3" "ExecPrice perp_sample_exec = 3000"
    "Symbol (ss_book (ps_core perp_sample_state)) = ''P''" "PositionSide (ss_taker (ps_core perp_sample_state)) = PositionBoth"
    "ps_positions perp_sample_state = traded_store"
    by (simp_all add: D)
  from perp_margin_exact [OF run pm, unfolded ids env pr, OF _ env(3) _ _ _ _ refl refl cov(1) terms(1) cov(2) terms(2) room]
  have "slack ''USD'' 7 (Some (ss_taker (ps_core st'))) (7, ''P'', PositionBoth) st' = 48" "slack ''USD'' 8 mo' (8, ''P'', PositionBoth) st' = 48"
    by (simp_all add: cov(3,4) is_i64_def)
  with run show ?thesis by (auto simp: slack_def)
qed

end
