(* ===== verification/Expiry_Calendar.thy ===== *)
theory Expiry_Calendar
  imports Instruments Go_Map Go_Format "HOL-Library.Product_Lexorder"
begin

text \<open>Contract calendars (\<open>instrument/calendar.go\<close>), the lister of dated futures (\<open>instrument/listing.go\<close>), the dated
  future itself (\<open>instrument/dated.go\<close>) and the observer of its settlement price
  (\<open>instrument/settlement_obs.go\<close>).

  A poll of the calendar returns the contracts that came due since the last successful poll. The
  cursor a poll moves is committed by the caller, so it is an argument and a result here. Errors are
  values of \<open>calendar_error\<close>.\<close>

section \<open>Schedules\<close>

record ExpirySchedule =
  sch_Name :: string
  sch_ListingInterval :: int64
  sch_TimeToExpiry :: int64
  sch_PhaseOffset :: int64

datatype calendar_error = CalendarNil | NoSchedule | NameRequired | DuplicateName string | NotPositive string | PhaseOutside string |
  UnrepresentableListing string uint64 | UnrepresentableExpiry string uint64 | CursorOverflow string

fun validate_schedules :: "string list \<Rightarrow> ExpirySchedule list \<Rightarrow> calendar_error option" where
  "validate_schedules seen [] = None"
| "validate_schedules seen (s # ss) =
     (if sch_Name s = '''' then Some NameRequired
      else if sch_Name s \<in> set seen then Some (DuplicateName (sch_Name s))
      else if sch_ListingInterval s \<le> 0 \<or> sch_TimeToExpiry s \<le> 0 then Some (NotPositive (sch_Name s))
      else if sch_PhaseOffset s < 0 \<or> sch_PhaseOffset s \<ge> sch_ListingInterval s then Some (PhaseOutside (sch_Name s))
      else validate_schedules (sch_Name s # seen) ss)"

definition Calendar_Validate :: "ExpirySchedule list \<Rightarrow> calendar_error option" where
  "Calendar_Validate schedules = (if schedules = [] then Some NoSchedule else validate_schedules [] schedules)"

record calendarListingRequest =
  rq_scheduleName :: string
  rq_index :: uint64
  rq_listingNano :: int64
  rq_expiryNano :: int64

definition scheduledNano :: "int64 \<Rightarrow> ExpirySchedule \<Rightarrow> uint64 \<Rightarrow> int64 option" where
  "scheduledNano epochNano s index =
     (if index > u64 (MaxInt64 sdiv sch_ListingInterval s) then None
      else Option.bind (TryAdd (i64 (i64 index * sch_ListingInterval s)) (sch_PhaseOffset s)) (TryAdd epochNano))"

section \<open>The cursor\<close>

text \<open>The inner loop over one schedule: the requests it adds and the index it stops at. It ends because an
  index that can be scheduled fits in 64 bits.\<close>

function due_schedule :: "int64 \<Rightarrow> int64 \<Rightarrow> ExpirySchedule \<Rightarrow> uint64 \<Rightarrow> calendar_error + calendarListingRequest list \<times> uint64" where
  "due_schedule epochNano nowNano s index =
     (case scheduledNano epochNano s index of
        None \<Rightarrow> Inl (UnrepresentableListing (sch_Name s) index)
      | Some listingNano \<Rightarrow>
          if listingNano > nowNano then Inr ([], index)
          else (case TryAdd listingNano (sch_TimeToExpiry s) of
            None \<Rightarrow> Inl (UnrepresentableExpiry (sch_Name s) index)
          | Some expiryNano \<Rightarrow>
              if index = two64 - 1 then Inl (CursorOverflow (sch_Name s))
              else map_sum id (map_prod (\<lambda>rs. if expiryNano > nowNano
                     then \<lparr>rq_scheduleName = sch_Name s, rq_index = index, rq_listingNano = listingNano, rq_expiryNano = expiryNano\<rparr> # rs
                     else rs) id) (due_schedule epochNano nowNano s (index + 1))))"
  by pat_completeness auto
termination
proof (relation "measure (\<lambda>(e, n, s, index). nat (two64 - index))", goal_cases)
  case (2 epochNano nowNano s index listingNano expiryNano)
  then have "index \<le> u64 (MaxInt64 sdiv sch_ListingInterval s)" by (auto simp: scheduledNano_def split: if_splits)
  moreover have "is_u64 (u64 (MaxInt64 sdiv sch_ListingInterval s))" by simp
  ultimately show ?case using 2 by (auto simp: is_u64_def)
qed simp

fun due_schedules :: "int64 \<Rightarrow> int64 \<Rightarrow> ExpirySchedule list \<Rightarrow> (string, uint64) gomap \<Rightarrow>
    calendar_error + calendarListingRequest list \<times> (string, uint64) gomap" where
  "due_schedules epochNano nowNano [] next = Inr ([], next)"
| "due_schedules epochNano nowNano (s # ss) next =
     (case due_schedule epochNano nowNano s (mget next (sch_Name s)) of
        Inl err \<Rightarrow> Inl err
      | Inr (rs, index) \<Rightarrow>
          map_sum id (map_prod (append rs) id)
            (due_schedules epochNano nowNano ss (if index = mget next (sch_Name s) then next else mput next (sch_Name s) index)))"

definition request_key :: "calendarListingRequest \<Rightarrow> int \<times> int \<times> string \<times> int" where
  "request_key r = (rq_listingNano r, rq_expiryNano r, rq_scheduleName r, rq_index r)"

definition due :: "ExpirySchedule list option \<Rightarrow> int64 \<Rightarrow> int64 \<Rightarrow> (string, uint64) gomap \<Rightarrow>
    calendar_error + calendarListingRequest list \<times> (string, uint64) gomap" where
  "due calendar epochNano nowNano next =
     (case calendar of
        None \<Rightarrow> Inl CalendarNil
      | Some schedules \<Rightarrow>
          (case Calendar_Validate schedules of
             Some err \<Rightarrow> Inl err
           | None \<Rightarrow> map_sum id (map_prod (sort_key request_key) id)
                       (due_schedules epochNano nowNano (sort_key sch_Name schedules) next)))"

section \<open>The settlement observer\<close>

record settlementObserver =
  ob_windowNano :: int64
  ob_obs :: "(int64 \<times> int64) list"
  ob_settled :: "int64 option"
  ob_last :: "int64 option"

definition observe_price :: "int64 \<Rightarrow> int64 \<Rightarrow> settlementObserver \<Rightarrow> settlementObserver" where
  "observe_price price tsNano ob =
     ob\<lparr>ob_last := Some price,
        ob_obs := dropWhile (\<lambda>(_, ts). ts < i64 (tsNano - ob_windowNano ob)) (ob_obs ob @ [(price, tsNano)])\<rparr>"

text \<open>\<open>None\<close> is the error of an unavailable or inadmissible price; \<open>validate\<close> is the contract's price domain.\<close>

definition settlementPriceWith :: "(int64 \<Rightarrow> bool) \<Rightarrow> settlementObserver \<Rightarrow> int64 option \<times> settlementObserver" where
  "settlementPriceWith validate ob =
     (case ob_settled ob of
        Some price \<Rightarrow> (Some price, ob)
      | None \<Rightarrow>
          (case (if ob_obs ob = [] then ob_last ob
                 else Some (i64 ((\<Sum>(price, _)\<leftarrow>ob_obs ob. price) sdiv int (length (ob_obs ob))))) of
             None \<Rightarrow> (None, ob)
           | Some candidate \<Rightarrow>
               if \<not> validate candidate then (None, ob) else (Some candidate, ob\<lparr>ob_settled := Some candidate\<rparr>)))"

definition settlementPrice :: "settlementObserver \<Rightarrow> int64 option \<times> settlementObserver" where
  "settlementPrice = settlementPriceWith (\<lambda>_. True)"

section \<open>Dated futures\<close>

record ExpiringFutures = PerpFutures +
  expiryNano :: int64
  Underlying :: string
  DeliveryFeeBps :: int64
  observer :: settlementObserver

definition NewExpiringFutures :: "string \<Rightarrow> asset \<Rightarrow> asset \<Rightarrow> int64 \<Rightarrow> int64 \<Rightarrow> int64 \<Rightarrow> int64 \<Rightarrow> int64 \<Rightarrow> ExpiringFutures" where
  "NewExpiringFutures symbol base quote basePrecision quotePrecision tick minOrderSize expiry =
     PerpFutures.extend (NewPerpFutures symbol base quote basePrecision quotePrecision tick minOrderSize)
       (ExpiringFutures.fields expiry '''' 0 \<lparr>ob_windowNano = 60000000000, ob_obs = [], ob_settled = None, ob_last = None\<rparr>)"

definition SetObservationWindow :: "int64 \<Rightarrow> ExpiringFutures \<Rightarrow> ExpiringFutures" where
  "SetObservationWindow windowNano f = f\<lparr>observer := (observer f)\<lparr>ob_windowNano := windowNano\<rparr>\<rparr>"

definition ObserveSettlement :: "int64 \<Rightarrow> int64 \<Rightarrow> ExpiringFutures \<Rightarrow> ExpiringFutures" where
  "ObserveSettlement price tsNano f = f\<lparr>observer := observe_price price tsNano (observer f)\<rparr>"

definition SettlementPrice :: "ExpiringFutures \<Rightarrow> int64 option \<times> ExpiringFutures" where
  "SettlementPrice f = map_prod id (\<lambda>ob. f\<lparr>observer := ob\<rparr>) (settlementPrice (observer f))"

text \<open>\<open>None\<close> is a panic of the arithmetic.\<close>

definition ExpiryCashFlow :: "int64 \<Rightarrow> int64 \<Rightarrow> int64 \<Rightarrow> int64 \<Rightarrow> int64 option" where
  "ExpiryCashFlow sz entry price basePrecision = PriceChangeMulDiv sz price entry basePrecision"

definition DeliveryFee :: "ExpiringFutures \<Rightarrow> int64 \<Rightarrow> int64 \<Rightarrow> int64 \<Rightarrow> int64 option" where
  "DeliveryFee f sz price basePrecision =
     (if DeliveryFeeBps f \<le> 0 then Some 0
      else Option.bind (AbsMulDiv sz price basePrecision) (\<lambda>notional. MulDiv notional (DeliveryFeeBps f) 10000))"

section \<open>The lister of dated futures\<close>

text \<open>The two sets of expiries are maps to \<open>true\<close> in the code; a nil map reads as an empty one.\<close>

record ContractSpec =
  cs_Base :: asset
  cs_Quote :: asset
  cs_BasePrecision :: int64
  cs_QuotePrecision :: int64
  cs_TickSize :: int64
  cs_MinOrderSize :: int64

record DatedFuturesLister =
  dl_Underlying :: string
  dl_Spec :: ContractSpec
  dl_Calendar :: "ExpirySchedule list option"
  dl_CalendarEpochNano :: int64
  dl_TenorsNano :: "int64 list"
  dl_DeliveryFeeBps :: int64
  dl_ObservationWindowNano :: int64
  dl_listed :: "int64 set"
  dl_nextExpiry :: "(int64, int64) gomap"
  dl_nextIndex :: "(string, uint64) gomap"

definition expirySymbolLabel :: "int64 \<Rightarrow> string" where
  "expirySymbolLabel expiry =
     (if expiry smod 1000000000 = 0 then FormatInt (expiry sdiv 1000000000) else FormatInt expiry @ ''ns'')"

definition canonicalSymbolComponent :: "string \<Rightarrow> string" where
  "canonicalSymbolComponent = EncodeToString"

definition futureSymbol :: "DatedFuturesLister \<Rightarrow> int64 \<Rightarrow> string" where
  "futureSymbol l expiry =
     (if dl_Calendar l = None then cs_Base (dl_Spec l) @ ''-FUT-'' @ expirySymbolLabel expiry
      else cs_Base (dl_Spec l) @ ''-FUT-'' @ expirySymbolLabel expiry @ ''-U'' @ canonicalSymbolComponent (dl_Underlying l))"

definition newFuture :: "DatedFuturesLister \<Rightarrow> int64 \<Rightarrow> ExpiringFutures" where
  "newFuture l expiry =
     (let spec = dl_Spec l;
          future = NewExpiringFutures (futureSymbol l expiry) (cs_Base spec) (cs_Quote spec) (cs_BasePrecision spec)
            (cs_QuotePrecision spec) (cs_TickSize spec) (cs_MinOrderSize spec) expiry;
          future = future\<lparr>Underlying := dl_Underlying l, DeliveryFeeBps := dl_DeliveryFeeBps l\<rparr>
      in if dl_ObservationWindowNano l > 0 then SetObservationWindow (dl_ObservationWindowNano l) future else future)"

fun list_requests :: "DatedFuturesLister \<Rightarrow> int64 set \<Rightarrow> calendarListingRequest list \<Rightarrow> ExpiringFutures list \<times> DatedFuturesLister" where
  "list_requests l seen [] = ([], l)"
| "list_requests l seen (r # rs) =
     (if rq_expiryNano r \<in> dl_listed l \<or> rq_expiryNano r \<in> seen then list_requests l seen rs
      else (let l' = l\<lparr>dl_listed := insert (rq_expiryNano r) (dl_listed l)\<rparr>
            in map_prod ((#) (newFuture l' (rq_expiryNano r))) id (list_requests l' (insert (rq_expiryNano r) seen) rs)))"

definition pendingCalendarListings :: "DatedFuturesLister \<Rightarrow> int64 \<Rightarrow> (calendar_error + ExpiringFutures list) \<times> DatedFuturesLister" where
  "pendingCalendarListings l nowNano =
     (case due (dl_Calendar l) (dl_CalendarEpochNano l) nowNano (dl_nextIndex l) of
        Inl err \<Rightarrow> (Inl err, l)
      | Inr (requests, nextIndex) \<Rightarrow>
          (case list_requests l {} requests of (out, l') \<Rightarrow> (Inr out, l'\<lparr>dl_nextIndex := nextIndex\<rparr>)))"

definition addTenor :: "int64 \<Rightarrow> int64 \<Rightarrow> int64 option" where
  "addTenor nowNano tenor =
     (if tenor \<le> 0 then None
      else Option.bind (TryAdd nowNano tenor) (\<lambda>expiry. if expiry > nowNano then Some expiry else None))"

definition expiryForTenor :: "DatedFuturesLister \<Rightarrow> int64 \<Rightarrow> int64 \<Rightarrow> int64 option \<times> DatedFuturesLister" where
  "expiryForTenor l nowNano tenor =
     (if mget (dl_nextExpiry l) tenor > nowNano then (Some (mget (dl_nextExpiry l) tenor), l)
      else (case addTenor nowNano tenor of
              None \<Rightarrow> (None, l)
            | Some expiry \<Rightarrow> (Some expiry, l\<lparr>dl_nextExpiry := mput (dl_nextExpiry l) tenor expiry\<rparr>)))"

fun list_tenors :: "DatedFuturesLister \<Rightarrow> int64 \<Rightarrow> int64 list \<Rightarrow> ExpiringFutures list \<times> DatedFuturesLister" where
  "list_tenors l nowNano [] = ([], l)"
| "list_tenors l nowNano (tenor # ts) =
     (if tenor \<le> 0 then list_tenors l nowNano ts
      else (case expiryForTenor l nowNano tenor of
              (None, l') \<Rightarrow> list_tenors l' nowNano ts
            | (Some expiry, l') \<Rightarrow>
                if expiry \<in> dl_listed l' then list_tenors l' nowNano ts
                else (let l'' = l'\<lparr>dl_listed := insert expiry (dl_listed l')\<rparr>
                      in map_prod ((#) (newFuture l'' expiry)) id (list_tenors l'' nowNano ts))))"

definition PendingListings :: "DatedFuturesLister \<Rightarrow> int64 \<Rightarrow> (calendar_error + ExpiringFutures list) \<times> DatedFuturesLister" where
  "PendingListings l nowNano =
     (if dl_Calendar l \<noteq> None then pendingCalendarListings l nowNano
      else map_prod Inr id (list_tenors l nowNano (dl_TenorsNano l)))"

end
