(* ===== verification/Expiry_Settlement.thy ===== *)
theory Expiry_Settlement
  imports Perp_Settlement Expiry_Calendar
begin

text \<open>Expiry of a dated future (\<open>exchange/expiry.go\<close>, the forced cancellation of \<open>exchange/liquidation.go\<close>): at
  expiry the resting orders of every client are cancelled, every open position is settled in cash at
  the settlement price, its margin is released, the fractions left by truncation are paid out of the
  fee revenue, and the contract is delisted. Without a settlement price the contract is halted and
  the attempt is counted; nothing but its orders is touched.

  As in \<open>Perp_Settlement\<close> the position store is the exchange's own, which has exact accounting and a
  margin ledger. \<open>None\<close> is a panic. Event logs, risk marks and the publication of book updates are
  left out; the notifications sent to the clients are kept.\<close>

section \<open>The lifecycle of a contract\<close>

datatype expiryLifecycleState = expiryStateActive | expiryStateExpiryReached | expiryStateSettlementPending | expiryStateSettled

record expirySettlementPending =
  ep_State :: expiryLifecycleState
  ep_ExpiryReachedAt :: int64
  ep_Attempts :: uint64

record ForcedCancelNotification =
  fc_client :: uint64
  fc_OrderID :: uint64
  fc_RemainingQty :: int64

text \<open>\<open>xs_future\<close> is the instrument of the book, \<open>None\<close> once the book is gone.\<close>

record expiry_state =
  xs_perp :: perp_state
  xs_future :: "ExpiringFutures option"
  xs_pending :: "expirySettlementPending option"
  xs_notices :: "ForcedCancelNotification list"

section \<open>Forced cancellation\<close>

definition resting :: "OrderBook \<Rightarrow> uint64 \<Rightarrow> Order option" where
  "resting book orderID = (case Orders (Bids book) orderID of Some order \<Rightarrow> Some order | None \<Rightarrow> Orders (Asks book) orderID)"

fun cancel_orders :: "'a SpotInstrument_scheme \<Rightarrow> uint64 \<Rightarrow> uint64 list \<Rightarrow> perp_state \<Rightarrow> (ForcedCancelNotification list \<times> perp_state) option" where
  "cancel_orders inst i [] st = Some ([], st)"
| "cancel_orders inst i (orderID # ids) st =
     (case resting (ss_book (ps_core st)) orderID of
        None \<Rightarrow> cancel_orders inst i ids st
      | Some order \<Rightarrow>
          if ClientID order \<noteq> i then cancel_orders inst i ids st
          else (case ps_client st i of
                  None \<Rightarrow> None
                | Some c \<Rightarrow>
                    let c' = RemoveOrder (fst (releaseReserved True inst c order)) orderID;
                        st' = st\<lparr>ps_core := drop_order order (store_client i c' (ps_core st))\<rparr>
                    in map_option (map_prod ((#) \<lparr>fc_client = i, fc_OrderID = orderID, fc_RemainingQty = i64 (Qty order - FilledQty order)\<rparr>) id)
                         (cancel_orders inst i ids st')))"

definition cancelClientOrdersOnBook :: "'a SpotInstrument_scheme \<Rightarrow> uint64 \<Rightarrow> perp_state \<Rightarrow> (ForcedCancelNotification list \<times> perp_state) option" where
  "cancelClientOrdersOnBook inst i st =
     (case ps_client st i of None \<Rightarrow> None | Some c \<Rightarrow> cancel_orders inst i (OrderIDs c) st)"

fun cancel_clients :: "'a SpotInstrument_scheme \<Rightarrow> uint64 list \<Rightarrow> perp_state \<Rightarrow> (ForcedCancelNotification list \<times> perp_state) option" where
  "cancel_clients inst [] st = Some ([], st)"
| "cancel_clients inst (i # is) st =
     (case cancelClientOrdersOnBook inst i st of
        None \<Rightarrow> None
      | Some (ns, st') \<Rightarrow> map_option (map_prod (append ns) id) (cancel_clients inst is st'))"

section \<open>The preflight\<close>

text \<open>The simulated balances start from the accounts; \<open>None\<close> is one of the panics of the preflight.\<close>

fun preflight_rows :: "ExpiringFutures \<Rightarrow> int64 \<Rightarrow> (uint64 \<times> Position) list \<Rightarrow> perp_state \<Rightarrow> (uint64, int64) gomap \<times> int64 \<Rightarrow>
    ((uint64, int64) gomap \<times> int64) option" where
  "preflight_rows f price [] st acc = Some acc"
| "preflight_rows f price ((i, p) # rows) st (balances, feeTotal) =
     (case ps_client st i of
        None \<Rightarrow> None
      | Some c \<Rightarrow>
          let quote = sp_quote f; precision = sp_basePrecision f; pm = ps_positions st;
              start = (case map_of balances i of Some b \<Rightarrow> b | None \<Rightarrow> mget (PerpBalances c) quote)
          in Option.bind (if PosMargin p > 0 then TryAdd start (PosMargin p) else Some start) (\<lambda>b1.
             Option.bind (PositionUnrealizedPnL p price precision pm) (\<lambda>cash.
             if \<not> CanSettlePositionAtPrice p price precision pm then None
             else Option.bind (DeliveryFee f (PosSize p) price precision) (\<lambda>fee.
             Option.bind (TryAdd feeTotal fee) (\<lambda>feeTotal'.
             Option.bind (TryAdd b1 cash) (\<lambda>b2.
             Option.bind (TrySub b2 fee) (\<lambda>b3.
             preflight_rows f price rows st (mput balances i b3, feeTotal'))))))))"

fun preflight_rounding :: "asset \<Rightarrow> PositionAccountingRounding list \<Rightarrow> (uint64, int64) gomap \<Rightarrow> perp_state \<Rightarrow> int64 \<Rightarrow> int64 option" where
  "preflight_rounding quote [] balances st feeRevenue = Some feeRevenue"
| "preflight_rounding quote (r # rs) balances st feeRevenue =
     (case ps_client st (RndClient r) of
        None \<Rightarrow> None
      | Some c \<Rightarrow>
          let start = (case map_of balances (RndClient r) of Some b \<Rightarrow> b | None \<Rightarrow> mget (PerpBalances c) quote)
          in Option.bind (TryAdd start (RndAmount r)) (\<lambda>_.
             Option.bind (TrySub feeRevenue (RndAmount r)) (preflight_rounding quote rs balances st)))"

definition expiry_preflight :: "ExpiringFutures \<Rightarrow> int64 \<Rightarrow> (uint64 \<times> Position) list \<Rightarrow> perp_state \<Rightarrow> PositionAccountingRounding list option" where
  "expiry_preflight f price rows st =
     Option.bind (PreviewPositionAccountingTerminalization (Symbol (ss_book (ps_core st))) price (sp_basePrecision f) (ps_positions st)) (\<lambda>expected.
     Option.bind (preflight_rows f price rows st ([], 0)) (\<lambda>(balances, feeTotal).
     Option.bind (preflight_rounding (sp_quote f) expected balances st (mget (FeeRevenue (ExBal (ps_ledger st))) (sp_quote f))) (\<lambda>feeRevenue.
     map_option (\<lambda>_. expected) (TryAdd feeRevenue feeTotal))))"

section \<open>Cash settlement\<close>

text \<open>The payment to one client: the movement is recorded and the balance stored. The code records an expiry
  payment before it stores the balance and a rounding payment after; the two updates commute.\<close>

definition pay_client :: "uint64 \<Rightarrow> asset \<Rightarrow> int64 \<Rightarrow> perp_state \<Rightarrow> perp_state option" where
  "pay_client i quote amount st =
     (case ps_client st i of
        None \<Rightarrow> None
      | Some c \<Rightarrow>
          let oldBal = mget (PerpBalances c) quote
          in map_option (\<lambda>newBal. st\<lparr>ps_core := (ps_core st)\<lparr>ss_ledger :=
                 logBalanceChange [\<lparr>DAsset = quote, Wallet = ''perp'', OldBalance = oldBal, NewBalance = newBal, Delta = amount\<rparr>]
                   (set_client i (c\<lparr>PerpBalances := mput (PerpBalances c) quote newBal\<rparr>) (ps_ledger st))\<rparr>\<rparr>)
               (AddAmount oldBal amount))"

text \<open>The cash of a closed position and the store after it.\<close>

definition close_position :: "bool \<Rightarrow> ExpiringFutures \<Rightarrow> int64 \<Rightarrow> uint64 \<Rightarrow> Position \<Rightarrow> PositionManager \<Rightarrow> (PositionManager \<times> int64 \<times> bool) option" where
  "close_position requireExact f price i p pm =
     Option.bind (ExpiryCashFlow (PosSize p) (PosEntry p) price (sp_basePrecision f)) (\<lambda>flow.
       case SettlePositionAtPrice p price (sp_basePrecision f) pm of
         Some (pm', cash) \<Rightarrow> Some (pm', cash, True)
       | None \<Rightarrow> if requireExact then None else Some (pm, flow, False))"

fun settle_rows :: "bool \<Rightarrow> ExpiringFutures \<Rightarrow> int64 \<Rightarrow> (uint64 \<times> Position) list \<Rightarrow> int64 \<times> perp_state \<Rightarrow> (int64 \<times> perp_state) option" where
  "settle_rows requireExact f price [] acc = Some acc"
| "settle_rows requireExact f price ((i, p) # rows) (feeTotal, st) =
     (if ps_client st i = None \<or> PosSize p = 0 then settle_rows requireExact f price rows (feeTotal, st)
      else
        let symbol = Symbol (ss_book (ps_core st)); quote = sp_quote f;
            absSize = (if PosSize p < 0 then i64 (- PosSize p) else PosSize p)
        in Option.bind (ReleasePositionMargin i symbol (PosSide p) absSize (PosSize p) (ps_positions st)) (\<lambda>(pm1, release).
           Option.bind (if release > 0 then ctx_ReleasePerp i quote release (st\<lparr>ps_positions := pm1\<rparr>)
                        else Some (st\<lparr>ps_positions := pm1\<rparr>)) (\<lambda>st1.
           Option.bind (close_position requireExact f price i p (ps_positions st1)) (\<lambda>(pm2, cash, exact).
           Option.bind (DeliveryFee f (PosSize p) price (sp_basePrecision f)) (\<lambda>fee.
           Option.bind (TrySub cash fee) (\<lambda>netCash.
           Option.bind (pay_client i quote netCash (st1\<lparr>ps_positions := pm2\<rparr>)) (\<lambda>st2.
           Option.bind (AddAmount feeTotal fee) (\<lambda>feeTotal'.
           if exact then settle_rows requireExact f price rows (feeTotal', st2)
           else (case updatePosition i symbol absSize price (if PosSize p < 0 then Buy else Sell) (PosSide p) (ps_positions st2) of
                   None \<Rightarrow> None
                 | Some (pm3, _) \<Rightarrow> settle_rows requireExact f price rows (feeTotal', st2\<lparr>ps_positions := pm3\<rparr>))))))))))"

fun pay_rounding :: "bool \<Rightarrow> asset \<Rightarrow> PositionAccountingRounding list \<Rightarrow> perp_state \<Rightarrow> perp_state option" where
  "pay_rounding requireExact quote [] st = Some st"
| "pay_rounding requireExact quote (r # rs) st =
     (if ps_client st (RndClient r) = None then (if requireExact then None else pay_rounding requireExact quote rs st)
      else if RndAmount r = 0 then pay_rounding requireExact quote rs st
      else Option.bind (pay_client (RndClient r) quote (RndAmount r) st) (\<lambda>st1.
           Option.bind (moveVenueBalance VenueFeeRevenue quote (i64 (- RndAmount r)) (Symbol (ss_book (ps_core st1))) (ps_ledger st1)) (\<lambda>l.
           pay_rounding requireExact quote rs (st1\<lparr>ps_core := (ps_core st1)\<lparr>ss_ledger := l\<rparr>\<rparr>))))"

definition settle_rounding :: "bool \<Rightarrow> ExpiringFutures \<Rightarrow> PositionAccountingRounding list \<Rightarrow> perp_state \<Rightarrow> perp_state option" where
  "settle_rounding requireExact f expected st =
     (let symbol = Symbol (ss_book (ps_core st))
      in case (if requireExact then CommitPositionAccountingCarry symbol (sp_basePrecision f) expected (ps_positions st)
               else DrainPositionAccountingCarry symbol (sp_basePrecision f) (ps_positions st)) of
           None \<Rightarrow> if requireExact then None else Some st
         | Some (pm, rows) \<Rightarrow> pay_rounding requireExact (sp_quote f) rows (st\<lparr>ps_positions := pm\<rparr>))"

section \<open>The expiry of one instrument\<close>

definition settle_contract :: "bool \<Rightarrow> ExpiringFutures \<Rightarrow> int64 \<Rightarrow> perp_state \<Rightarrow> (ForcedCancelNotification list \<times> perp_state) option" where
  "settle_contract requireExact f price st =
     (let rows = PositionsForFunding (Symbol (ss_book (ps_core st))) (ps_positions st)
      in Option.bind (if requireExact then expiry_preflight f price rows st else Some []) (\<lambda>expected.
         Option.bind (cancel_clients f (mkeys (Clients (ps_ledger st))) st) (\<lambda>(notices, st1).
         Option.bind (settle_rows requireExact f price rows (0, st1)) (\<lambda>(feeTotal, st2).
         Option.bind (settle_rounding requireExact f expected st2) (\<lambda>st3.
         Option.bind (if feeTotal > 0
                      then map_option (\<lambda>l. st3\<lparr>ps_core := (ps_core st3)\<lparr>ss_ledger := l\<rparr>\<rparr>)
                             (recordFeeRevenue (sp_quote f) (no_fee\<lparr>FeeAmount := feeTotal, FeeAsset := sp_quote f\<rparr>) no_fee
                                (Symbol (ss_book (ps_core st3))) (ps_ledger st3))
                      else Some st3) (\<lambda>st4.
         Some (notices, st4\<lparr>ps_positions := ClearPositionPrecision (Symbol (ss_book (ps_core st4))) (ps_positions st4)\<rparr>)))))))"

definition settleExpiredInstrument :: "bool \<Rightarrow> int64 \<Rightarrow> expiry_state \<Rightarrow> expiry_state option" where
  "settleExpiredInstrument requireExact now xs =
     (case xs_future xs of
        None \<Rightarrow> Some xs
      | Some f0 \<Rightarrow>
          (case SettlementPrice f0 of
             (None, f) \<Rightarrow>
               (case xs_pending xs of
                  Some pending \<Rightarrow>
                    Some (xs\<lparr>xs_future := Some f, xs_pending := Some (pending\<lparr>ep_Attempts := u64 (ep_Attempts pending + 1)\<rparr>)\<rparr>)
                | None \<Rightarrow>
                    map_option (\<lambda>(notices, st). xs\<lparr>xs_perp := st, xs_future := Some f, xs_notices := xs_notices xs @ notices,
                        xs_pending := Some \<lparr>ep_State = expiryStateSettlementPending, ep_ExpiryReachedAt = now, ep_Attempts = 1\<rparr>\<rparr>)
                      (cancel_clients f (mkeys (Clients (ps_ledger (xs_perp xs)))) (xs_perp xs)))
           | (Some price, f) \<Rightarrow>
               map_option (\<lambda>(notices, st). xs\<lparr>xs_perp := st, xs_future := None, xs_pending := None, xs_notices := xs_notices xs @ notices\<rparr>)
                 (settle_contract requireExact f price (xs_perp xs))))"

section \<open>The expiry loop\<close>

text \<open>What one pass of the loop does to one contract: it samples the underlying, then settles the contract if it is
  due. The order books of the venue and its configured index enter as arguments; \<open>None\<close> is an
  unavailable price.\<close>

definition bookMidPriceLocked :: "OrderBook option \<Rightarrow> int64 option" where
  "bookMidPriceLocked book =
     Option.bind book (\<lambda>b.
       case (Best (Bids b), Best (Asks b)) of
         (Some bid, Some ask) \<Rightarrow> if bid > ask then None else Some (Midpoint bid ask)
       | _ \<Rightarrow> None)"

definition bookReferencePriceLocked :: "OrderBook option \<Rightarrow> int64 option" where
  "bookReferencePriceLocked book =
     Option.bind book (\<lambda>b.
       case (Best (Bids b), Best (Asks b)) of
         (Some bid, Some ask) \<Rightarrow> bookMidPriceLocked book
       | (Some bid, None) \<Rightarrow> Some bid
       | (None, Some ask) \<Rightarrow> Some ask
       | (None, None) \<Rightarrow> None)"

definition derivativeUnderlyingPrice :: "(string \<Rightarrow> OrderBook option) \<Rightarrow> (string \<Rightarrow> int64 option) \<Rightarrow> ExpiringFutures \<Rightarrow> int64 option" where
  "derivativeUnderlyingPrice books indexPrice f =
     (if Underlying f \<noteq> ''''
      then (case bookReferencePriceLocked (books (Underlying f)) of Some price \<Rightarrow> Some price | None \<Rightarrow> indexPrice (sp_symbol f))
      else indexPrice (sp_symbol f))"

definition UpdateDerivativeMark :: "(string \<Rightarrow> OrderBook option) \<Rightarrow> (string \<Rightarrow> int64 option) \<Rightarrow> int64 \<Rightarrow> expiry_state \<Rightarrow> expiry_state" where
  "UpdateDerivativeMark books indexPrice now xs =
     (case xs_future xs of
        None \<Rightarrow> xs
      | Some f \<Rightarrow>
          (case derivativeUnderlyingPrice books indexPrice f of
             None \<Rightarrow> xs
           | Some price \<Rightarrow> xs\<lparr>xs_future := Some (ObserveSettlement price now f)\<rparr>))"

definition CheckExpiry :: "bool \<Rightarrow> int64 \<Rightarrow> expiry_state \<Rightarrow> expiry_state option" where
  "CheckExpiry requireExact now xs =
     (case xs_future xs of
        Some f \<Rightarrow> if now \<ge> expiryNano f then settleExpiredInstrument requireExact now xs else Some xs
      | None \<Rightarrow> Some xs)"

definition expiry_tick :: "bool \<Rightarrow> (string \<Rightarrow> OrderBook option) \<Rightarrow> (string \<Rightarrow> int64 option) \<Rightarrow> int64 \<Rightarrow> expiry_state \<Rightarrow> expiry_state option" where
  "expiry_tick requireExact books indexPrice now xs = CheckExpiry requireExact now (UpdateDerivativeMark books indexPrice now xs)"

end
