(* ===== verification/Liquidation.thy ===== *)
theory Liquidation
  imports Expiry_Settlement Order_Placement Funding
begin

text \<open>Liquidation of margined accounts (\<open>exchange/liquidation.go\<close> and the risk path of \<open>exchange/exchange.go\<close>): when a
  mark arrives, the equity of every account with a position in the symbol is compared with its
  maintenance requirement over all margined books. On a breach its orders in the book are cancelled,
  its positions are closed at the market, a clearance fee goes to the insurance fund, margin debt is
  repaid from what is free, and the fund absorbs a negative balance.

  The books are those of perpetuals and dated futures; options margin their positions by their own
  formula and are not modelled. As in \<open>Perp_Settlement\<close> the position store is the exchange's own, and
  \<open>None\<close> is a panic. Event logs and the publication of book updates are left out; what the liquidation
  handler is told is kept, as if one were installed.\<close>

section \<open>State\<close>

record liquidation_env =
  le_perp :: perp_env
  le_matcher :: matcher
  le_now :: timestamp
  le_feeBps :: int64
  le_borrowing :: bool

datatype liquidation_event =
    OnInsuranceFund string int64 int64 string
  | OnLiquidation uint64 string int64 int64 int64
  | OnMarginCall uint64 string int64 int64

record liquidation_state =
  lq_perp :: perp_state
  lq_nextOrderID :: uint64
  lq_notices :: "ForcedCancelNotification list"
  lq_events :: "liquidation_event list"

abbreviation lq_ledger :: "liquidation_state \<Rightarrow> Ledger" where
  "lq_ledger lq \<equiv> ps_ledger (lq_perp lq)"

abbreviation lq_client :: "liquidation_state \<Rightarrow> uint64 \<Rightarrow> Client option" where
  "lq_client lq \<equiv> map_of (Clients (lq_ledger lq))"

abbreviation lq_symbol :: "liquidation_state \<Rightarrow> string" where
  "lq_symbol lq \<equiv> Symbol (ss_book (ps_core (lq_perp lq)))"

definition set_ledger :: "Ledger \<Rightarrow> liquidation_state \<Rightarrow> liquidation_state" where
  "set_ledger l lq = lq\<lparr>lq_perp := (lq_perp lq)\<lparr>ps_core := (ps_core (lq_perp lq))\<lparr>ss_ledger := l\<rparr>\<rparr>\<rparr>"

definition notify :: "liquidation_event \<Rightarrow> liquidation_state \<Rightarrow> liquidation_state" where
  "notify ev lq = lq\<lparr>lq_events := lq_events lq @ [ev]\<rparr>"

section \<open>Closing at the market\<close>

text \<open>A pooled order is zeroed: good till cancelled, fully visible, without a price.\<close>

definition forced_order :: "uint64 \<Rightarrow> uint64 \<Rightarrow> Side \<Rightarrow> PositionSide \<Rightarrow> int64 \<Rightarrow> timestamp \<Rightarrow> Order" where
  "forced_order orderID clientID side posSide qty ts =
     \<lparr>ID = orderID, ClientID = clientID, Side = side, PositionSide = posSide, Type = Market, TimeInForce = GTC, PostOnly = False,
      Price = 0, Qty = qty, FilledQty = 0, Visibility = Normal, IcebergQty = 0, DisplayRemaining = 0, Status = Open,
      Timestamp = ts, Reserved = 0, FeeReserved = [], Parent = None\<rparr>"

text \<open>The fill part: the cancellations, the match, the settlement of its executions and the removal of filled
  makers. The result is the last price and the filled quantity.\<close>

definition close_at_market :: "liquidation_env \<Rightarrow> uint64 \<Rightarrow> Order \<Rightarrow> spotExecutionPlan \<Rightarrow> liquidation_state \<Rightarrow>
    (int64 \<times> int64 \<times> liquidation_state) option" where
  "close_at_market env i order plan lq = do {
     (notices, st1) \<leftarrow> cancelClientOrdersOnBook (pe_inst (le_perp env)) i (lq_perp lq);
     let book = ss_book (ps_core st1);
     result \<leftarrow> le_matcher env (Bids book) (Asks book) order;
     if \<not> plan_matches plan (Executions result) then None
     else do {
       (_, st2) \<leftarrow> processExecutions_perp (le_perp env) (fills plan) (Executions result)
         (st1\<lparr>ps_core := (ps_core st1)\<lparr>ss_book := book\<lparr>Bids := RBids result, Asks := RAsks result\<rparr>, ss_taker := RTaker result\<rparr>\<rparr>);
       sv \<leftarrow> removeMakerOrders (Executions result)
         \<lparr>sv_ledger = ps_ledger st2, sv_book = ss_book (ps_core st2), sv_nextOrderID = lq_nextOrderID lq\<rparr>;
       Some ((if Executions result = [] then 0 else ExecPrice (last (Executions result))), FilledQty (RTaker result),
         lq\<lparr>lq_perp := st2\<lparr>ps_core := (ps_core st2)\<lparr>ss_ledger := sv_ledger sv, ss_book := sv_book sv\<rparr>\<rparr>,
            lq_notices := lq_notices lq @ notices\<rparr>)
     }
   }"

definition forceClose :: "liquidation_env \<Rightarrow> uint64 \<Rightarrow> Side \<Rightarrow> PositionSide \<Rightarrow> int64 \<Rightarrow> liquidation_state \<Rightarrow>
    (int64 \<times> int64 \<times> bool \<times> liquidation_state) option" where
  "forceClose env i side posSide qty lq =
     (case lq_client lq i of
        None \<Rightarrow> None
      | Some c \<Rightarrow>
          let orderID = u64 (lq_nextOrderID lq + 1);
              order = forced_order orderID i side posSide qty (le_now env);
              lq1 = lq\<lparr>lq_nextOrderID := orderID\<rparr>;
              book = ss_book (ps_core (lq_perp lq));
              excluded = filter (\<lambda>j. FindOrder book j \<noteq> None) (OrderIDs c)
          in (case prepareFeeExecutionPlan (as_spot (le_perp env)) (Some (le_matcher env)) (Clients (lq_ledger lq)) book order excluded of
                Inl PlanPanic \<Rightarrow> None
              | Inl (Failure _ err) \<Rightarrow> if err then Some (0, 0, False, lq1) else None
              | Inr plan \<Rightarrow>
                  map_option (\<lambda>(price, filled, lq'). (price, filled, filled > 0, lq')) (close_at_market env i order plan lq1)))"

section \<open>After the close\<close>

definition chargeClearanceFee :: "liquidation_env \<Rightarrow> uint64 \<Rightarrow> int64 \<Rightarrow> int64 \<Rightarrow> liquidation_state \<Rightarrow> liquidation_state option" where
  "chargeClearanceFee env i closedSize fillPrice lq =
     (if le_feeBps env \<le> 0 then Some lq
      else (case (AbsMulDiv closedSize fillPrice (pe_precision (le_perp env)), lq_client lq i) of
              (Some notional, Some c) \<Rightarrow>
                let quote = pe_quote (le_perp env);
                    fee0 = i64 (notional * le_feeBps env) sdiv 10000;
                    fee = (if fee0 > PerpAvailable c quote then PerpAvailable c quote else fee0)
                in if fee \<le> 0 then Some lq
                   else let oldBalance = mget (PerpBalances c) quote;
                            newBalance = i64 (oldBalance - fee);
                            l1 = set_client i (c\<lparr>PerpBalances := mput (PerpBalances c) quote newBalance\<rparr>) (lq_ledger lq)
                        in map_option (\<lambda>l2. notify (OnInsuranceFund (lq_symbol lq) fee (mget (InsuranceFund (ExBal l2)) quote) ''clearance_fee'')
                                (set_ledger (logBalanceChange [perpDelta quote oldBalance newBalance] l2) lq))
                             (moveVenueBalance VenueInsuranceFund quote fee (lq_symbol lq) l1)
            | _ \<Rightarrow> None))"

definition repay_debt :: "liquidation_env \<Rightarrow> uint64 \<Rightarrow> liquidation_state \<Rightarrow> liquidation_state option" where
  "repay_debt env i lq =
     (case lq_client lq i of
        None \<Rightarrow> None
      | Some c \<Rightarrow>
          let quote = pe_quote (le_perp env);
              borrowed = mget (Borrowed c) quote;
              availableForRepay = PerpAvailable c quote;
              repayAmount = min borrowed availableForRepay;
              oldPerp = mget (PerpBalances c) quote;
              newBorrowed = i64 (borrowed - repayAmount);
              newPerp = i64 (oldPerp - repayAmount)
          in if le_borrowing env \<and> borrowed > 0 \<and> availableForRepay > 0
             then Some (set_ledger (logBalanceChange [perpDelta quote oldPerp newPerp, borrowedDelta quote borrowed newBorrowed]
                    (set_client i (c\<lparr>Borrowed := mput (Borrowed c) quote newBorrowed,
                       BorrowedSpot := mput (BorrowedSpot c) quote (min (mget (BorrowedSpot c) quote) newBorrowed),
                       PerpBalances := mput (PerpBalances c) quote newPerp\<rparr>) (lq_ledger lq))) lq)
             else Some lq)"

text \<open>The insurance fund pays a negative balance; the result is the debt it took over.\<close>

definition cover_deficit :: "liquidation_env \<Rightarrow> uint64 \<Rightarrow> liquidation_state \<Rightarrow> (int64 \<times> liquidation_state) option" where
  "cover_deficit env i lq =
     (case lq_client lq i of
        None \<Rightarrow> None
      | Some c \<Rightarrow>
          let quote = pe_quote (le_perp env);
              balance = mget (PerpBalances c) quote;
              debt = i64 (- balance)
          in if balance < 0
             then map_option (\<lambda>l. (debt, set_ledger (logBalanceChange [perpDelta quote balance 0] l) lq))
                    (moveVenueBalance VenueInsuranceFund quote (i64 (- debt)) (lq_symbol lq)
                       (set_client i (c\<lparr>PerpBalances := mput (PerpBalances c) quote 0\<rparr>) (lq_ledger lq)))
             else Some (0, lq))"

definition after_close :: "liquidation_env \<Rightarrow> uint64 \<Rightarrow> int64 \<Rightarrow> int64 \<Rightarrow> int64 \<Rightarrow> liquidation_state \<Rightarrow> liquidation_state option" where
  "after_close env i posSize fillPrice filledQty lq = do {
     lq1 \<leftarrow> chargeClearanceFee env i filledQty fillPrice lq;
     lq2 \<leftarrow> repay_debt env i lq1;
     (debt, lq3) \<leftarrow> cover_deficit env i lq2;
     let lq4 = notify (OnLiquidation i (lq_symbol lq3) posSize fillPrice debt) lq3;
     Some (if debt > 0
           then notify (OnInsuranceFund (lq_symbol lq4) (i64 (- debt))
                  (mget (InsuranceFund (ExBal (lq_ledger lq4))) (pe_quote (le_perp env))) ''liquidation_deficit'') lq4
           else lq4)
   }"

definition liquidate :: "liquidation_env \<Rightarrow> uint64 \<Rightarrow> Position \<Rightarrow> liquidation_state \<Rightarrow> liquidation_state option" where
  "liquidate env i pos lq = do {
     (fillPrice, filledQty, filled, lq1) \<leftarrow>
       forceClose env i (if PosSize pos < 0 then Buy else Sell) (PosSide pos) (abs64 (PosSize pos)) lq;
     if \<not> filled then Some lq1 else after_close env i (PosSize pos) fillPrice filledQty lq1
   }"

section \<open>The margin profile of an account\<close>

record accountMarginProfile =
  EquityContribution :: int64
  Notional :: int64
  Maintenance :: int64
  Warning :: int64

record riskMarkSnapshot =
  sn_current :: bool
  sn_mark :: int64
  sn_maintenanceBps :: int64
  sn_warningBps :: int64
  sn_epoch :: uint64
  sn_timestamp :: timestamp

text \<open>A margined book as the risk path reads it: the perpetual behind the instrument with its funding rate, the
  lifecycle, the live reference price, and the committed snapshot, \<open>sn_current\<close> when it was taken of
  this very book. The list of books is in the order of their symbols, which is the order the code
  visits them in.\<close>

record margin_book =
  mb_symbol :: string
  mb_core :: PerpFutures
  mb_funding :: FundingRate
  mb_expiry :: "timestamp option"
  mb_pending :: bool
  mb_reference :: "int64 option"
  mb_snapshot :: "riskMarkSnapshot option"
  mb_epoch :: uint64

record risk_view =
  rv_books :: "margin_book list"
  rv_markEpoch :: uint64
  rv_now :: timestamp
  rv_requireExact :: bool

definition expired :: "timestamp \<Rightarrow> margin_book \<Rightarrow> bool" where
  "expired now mb = (case mb_expiry mb of None \<Rightarrow> False | Some e \<Rightarrow> now \<ge> e)"

definition open_positions :: "PositionManager \<Rightarrow> uint64 \<Rightarrow> string \<Rightarrow> Position list" where
  "open_positions pm i symbol =
     concat (map (\<lambda>side. case GetPositionBySide i symbol side pm of
         None \<Rightarrow> [] | Some pos \<Rightarrow> if PosSize pos = 0 then [] else [pos]) [PositionBoth, PositionLong, PositionShort])"

definition committedRiskSnapshotLocked :: "timestamp \<Rightarrow> margin_book \<Rightarrow> uint64 \<Rightarrow> riskMarkSnapshot option" where
  "committedRiskSnapshotLocked now mb markEpoch =
     (case mb_snapshot mb of
        None \<Rightarrow> None
      | Some s \<Rightarrow>
          if sn_epoch s \<noteq> markEpoch \<or> \<not> sn_current s \<or> mb_epoch mb \<noteq> markEpoch then None
          else if mb_pending mb then None
          else if expired now mb then None
          else if \<not> MarkAvailable (mb_funding mb) \<or> MarkPrice (mb_funding mb) \<noteq> sn_mark s then None
          else Some s)"

definition tryPositionUPnL :: "bool \<Rightarrow> Position \<Rightarrow> int64 \<Rightarrow> int64 \<Rightarrow> PositionManager \<Rightarrow> int64 option" where
  "tryPositionUPnL requireExact pos mark precision pm =
     (case PositionUnrealizedPnL pos mark precision pm of
        Some pnl \<Rightarrow> Some pnl
      | None \<Rightarrow> if requireExact then None else TryPriceChangeMulDiv (PosSize pos) mark (PosEntry pos) precision)"

text \<open>The loop over the positions of one book; \<open>None\<close> is a panic.\<close>

fun add_positions :: "bool \<Rightarrow> PositionManager \<Rightarrow> int64 \<Rightarrow> int64 \<Rightarrow> int64 \<Rightarrow> int64 \<Rightarrow> Position list \<Rightarrow> accountMarginProfile \<Rightarrow>
    accountMarginProfile option" where
  "add_positions requireExact pm mark precision maintenanceBps warningBps [] p = Some p"
| "add_positions requireExact pm mark precision maintenanceBps warningBps (pos # ps) p =
     (case (tryPositionUPnL requireExact pos mark precision pm, AbsMulDiv (PosSize pos) mark precision) of
        (Some pnl, Some notional) \<Rightarrow>
          add_positions requireExact pm mark precision maintenanceBps warningBps ps
            \<lparr>EquityContribution = i64 (EquityContribution p + pnl), Notional = i64 (Notional p + notional),
             Maintenance = i64 (Maintenance p + i64 (notional * maintenanceBps) sdiv 10000),
             Warning = i64 (Warning p + i64 (notional * warningBps) sdiv 10000)\<rparr>
      | _ \<Rightarrow> None)"

text \<open>A book of the profile. \<open>Inl\<close> is the error return, the outer \<open>None\<close> a panic. Beside the profile the loop
  carries the timestamp that the first snapshot bound.\<close>

type_synonym profile_step = "(unit + accountMarginProfile \<times> timestamp option) option"

definition book_mark :: "risk_view \<Rightarrow> string \<Rightarrow> int64 \<Rightarrow> uint64 \<Rightarrow> margin_book \<Rightarrow> timestamp option \<Rightarrow>
    (int64 \<times> int64 \<times> int64 \<times> timestamp option) option" where
  "book_mark view triggerSymbol triggerMark markEpoch mb bound =
     (if markEpoch \<noteq> 0
      then (case committedRiskSnapshotLocked (rv_now view) mb markEpoch of
              None \<Rightarrow> None
            | Some s \<Rightarrow>
                if bound \<noteq> None \<and> bound \<noteq> Some (sn_timestamp s) then None
                else Some (sn_mark s, sn_maintenanceBps s, sn_warningBps s, Some (sn_timestamp s)))
      else map_option (\<lambda>mark. (mark, MaintenanceMarginRate (mb_core mb), WarningMarginRate (mb_core mb), bound))
             (if mb_symbol mb = triggerSymbol then Some triggerMark
              else if MarkAvailable (mb_funding mb) then Some (MarkPrice (mb_funding mb))
              else mb_reference mb))"

text \<open>The part of the loop body from the comparison of the quote assets on.\<close>

definition add_exposure :: "risk_view \<Rightarrow> PositionManager \<Rightarrow> uint64 \<Rightarrow> asset \<Rightarrow> string \<Rightarrow> int64 \<Rightarrow> uint64 \<Rightarrow> margin_book \<Rightarrow>
    accountMarginProfile \<Rightarrow> timestamp option \<Rightarrow> profile_step" where
  "add_exposure view pm i quote triggerSymbol triggerMark markEpoch mb p bound =
     (let ps = open_positions pm i (mb_symbol mb)
      in if sp_quote (mb_core mb) \<noteq> quote \<or> ps = [] then Some (Inr (p, bound))
         else (case book_mark view triggerSymbol triggerMark markEpoch mb bound of
                 None \<Rightarrow> Some (Inl ())
               | Some (mark, maintenanceBps, warningBps, bound') \<Rightarrow>
                   map_option (\<lambda>p'. Inr (p', bound'))
                     (add_positions (rv_requireExact view) pm mark (sp_basePrecision (mb_core mb)) maintenanceBps warningBps ps p)))"

text \<open>A book first refuses expired and pending exposure. A book of the model has a linear margin core (\<open>marginCore\<close> is not nil), so the
  branch of the code for books without one, the options, is not taken; accounts with option positions are outside the model.\<close>

definition add_book :: "risk_view \<Rightarrow> PositionManager \<Rightarrow> uint64 \<Rightarrow> asset \<Rightarrow> string \<Rightarrow> int64 \<Rightarrow> uint64 \<Rightarrow> margin_book \<Rightarrow>
    accountMarginProfile \<Rightarrow> timestamp option \<Rightarrow> profile_step" where
  "add_book view pm i quote triggerSymbol triggerMark markEpoch mb p bound =
     (if expired (rv_now view) mb \<or> mb_pending mb
      then (if open_positions pm i (mb_symbol mb) \<noteq> [] then Some (Inl ()) else Some (Inr (p, bound)))
      else add_exposure view pm i quote triggerSymbol triggerMark markEpoch mb p bound)"

fun add_books :: "risk_view \<Rightarrow> PositionManager \<Rightarrow> uint64 \<Rightarrow> asset \<Rightarrow> string \<Rightarrow> int64 \<Rightarrow> uint64 \<Rightarrow> margin_book list \<Rightarrow>
    accountMarginProfile \<Rightarrow> timestamp option \<Rightarrow> profile_step" where
  "add_books view pm i quote triggerSymbol triggerMark markEpoch [] p bound = Some (Inr (p, bound))"
| "add_books view pm i quote triggerSymbol triggerMark markEpoch (mb # mbs) p bound =
     (case add_book view pm i quote triggerSymbol triggerMark markEpoch mb p bound of
        Some (Inr (p', bound')) \<Rightarrow> add_books view pm i quote triggerSymbol triggerMark markEpoch mbs p' bound'
      | r \<Rightarrow> r)"

definition empty_profile :: accountMarginProfile where
  "empty_profile = \<lparr>EquityContribution = 0, Notional = 0, Maintenance = 0, Warning = 0\<rparr>"

definition buildAccountMarginProfileAtEpoch :: "risk_view \<Rightarrow> PositionManager \<Rightarrow> uint64 \<Rightarrow> asset \<Rightarrow> string \<Rightarrow> int64 \<Rightarrow> uint64 \<Rightarrow>
    (unit + accountMarginProfile) option" where
  "buildAccountMarginProfileAtEpoch view pm i quote triggerSymbol triggerMark markEpoch =
     map_option (map_sum id fst) (add_books view pm i quote triggerSymbol triggerMark markEpoch (rv_books view) empty_profile None)"

section \<open>Which marks an account is judged by\<close>

definition accountMarginSymbolsLocked :: "risk_view \<Rightarrow> PositionManager \<Rightarrow> uint64 \<Rightarrow> asset \<Rightarrow> margin_book list" where
  "accountMarginSymbolsLocked view pm i quote =
     filter (\<lambda>mb. sp_quote (mb_core mb) = quote \<and> open_positions pm i (mb_symbol mb) \<noteq> []) (rv_books view)"

fun same_timestamp :: "timestamp \<Rightarrow> uint64 \<Rightarrow> margin_book list \<Rightarrow> timestamp option \<Rightarrow> bool" where
  "same_timestamp now markEpoch [] bound = True"
| "same_timestamp now markEpoch (mb # mbs) bound =
     (case committedRiskSnapshotLocked now mb markEpoch of
        None \<Rightarrow> False
      | Some s \<Rightarrow> if bound \<noteq> None \<and> bound \<noteq> Some (sn_timestamp s) then False
          else same_timestamp now markEpoch mbs (Some (sn_timestamp s)))"

definition accountMarkEpochLocked :: "risk_view \<Rightarrow> PositionManager \<Rightarrow> uint64 \<Rightarrow> asset \<Rightarrow> uint64 option" where
  "accountMarkEpochLocked view pm i quote =
     (let mbs = accountMarginSymbolsLocked view pm i quote
      in if mbs = [] \<or> rv_markEpoch view = 0 then None
         else if same_timestamp (rv_now view) (rv_markEpoch view) mbs None then Some (rv_markEpoch view) else None)"

text \<open>The epoch the account's profile is built at; \<open>None\<close> when the marks are not coherent.\<close>

definition profile_epoch :: "risk_view \<Rightarrow> PositionManager \<Rightarrow> uint64 \<Rightarrow> asset \<Rightarrow> string \<Rightarrow> int64 \<Rightarrow> uint64 \<Rightarrow> margin_book \<Rightarrow> uint64 option" where
  "profile_epoch view pm i quote symbol markPrice markEpoch mb =
     (case (if markEpoch = 0 \<and> length (accountMarginSymbolsLocked view pm i quote) > 1
            then accountMarkEpochLocked view pm i quote else Some markEpoch) of
        None \<Rightarrow> None
      | Some e \<Rightarrow>
          if e = 0 then Some e
          else (case committedRiskSnapshotLocked (rv_now view) mb e of
                  None \<Rightarrow> None
                | Some s \<Rightarrow> if sn_mark s \<noteq> markPrice then None else Some e))"

section \<open>The check\<close>

definition EstimateLiquidationPrice :: "bool \<Rightarrow> Position \<Rightarrow> Client \<Rightarrow> PerpFutures \<Rightarrow> PositionManager \<Rightarrow> (unit + int64) option" where
  "EstimateLiquidationPrice requireExact pos c perp pm =
     (let precision = sp_basePrecision perp
      in if PosSize pos = 0 \<or> precision \<le> 0 then Some (Inl ())
         else let balance = i64 (PerpBalance c (sp_quote perp) - BorrowedPerpPortion c (sp_quote perp))
              in (case PositionLiquidationPrice pos balance precision pm of
                    Some price \<Rightarrow> Some (Inr price)
                  | None \<Rightarrow>
                      if requireExact then Some (Inl ())
                      else if PosSize pos > 0 then map_option (\<lambda>d. Inr (i64 (PosEntry pos - d))) (MulDiv balance precision (PosSize pos))
                      else map_option (\<lambda>d. Inr (i64 (PosEntry pos + d))) (MulDiv balance precision (i64 (- PosSize pos)))))"

fun liquidate_all :: "liquidation_env \<Rightarrow> uint64 \<Rightarrow> Position list \<Rightarrow> liquidation_state \<Rightarrow> liquidation_state option" where
  "liquidate_all env i [] lq = Some lq"
| "liquidate_all env i (pos # ps) lq = Option.bind (liquidate env i pos lq) (liquidate_all env i ps)"

definition account_equity :: "Client \<Rightarrow> asset \<Rightarrow> accountMarginProfile \<Rightarrow> int64" where
  "account_equity c quote p = i64 (i64 (PerpBalance c quote - BorrowedPerpPortion c quote) + EquityContribution p)"

definition check_client :: "liquidation_env \<Rightarrow> risk_view \<Rightarrow> int64 \<Rightarrow> uint64 \<Rightarrow> margin_book \<Rightarrow> uint64 \<Rightarrow> liquidation_state \<Rightarrow>
    liquidation_state option" where
  "check_client env view markPrice markEpoch mb i lq =
     (let pm = ps_positions (lq_perp lq); symbol = lq_symbol lq; quote = pe_quote (le_perp env);
          ps = open_positions pm i symbol
      in if ps = [] then Some lq
         else (case profile_epoch view pm i quote symbol markPrice markEpoch mb of
           None \<Rightarrow> Some lq
         | Some epoch \<Rightarrow>
             (case (buildAccountMarginProfileAtEpoch view pm i quote symbol markPrice epoch, lq_client lq i) of
                (Some (Inl _), Some c) \<Rightarrow> Some lq
              | (Some (Inr p), Some c) \<Rightarrow>
                  let equity = account_equity c quote p
                  in if equity < Maintenance p then liquidate_all env i ps lq
                     else if equity < Warning p
                     then let ratio = (if Notional p > 0 then i64 (equity * 10000) sdiv Notional p else 0)
                          in map_option (\<lambda>r. case r of Inl _ \<Rightarrow> lq | Inr price \<Rightarrow> notify (OnMarginCall i symbol ratio price) lq)
                               (EstimateLiquidationPrice (rv_requireExact view) (hd ps) c (pe_inst (le_perp env)) pm)
                     else Some lq
              | _ \<Rightarrow> None)))"

fun check_clients :: "liquidation_env \<Rightarrow> risk_view \<Rightarrow> int64 \<Rightarrow> uint64 \<Rightarrow> margin_book \<Rightarrow> uint64 list \<Rightarrow> liquidation_state \<Rightarrow>
    liquidation_state option" where
  "check_clients env view markPrice markEpoch mb [] lq = Some lq"
| "check_clients env view markPrice markEpoch mb (i # is) lq =
     Option.bind (check_client env view markPrice markEpoch mb i lq) (check_clients env view markPrice markEpoch mb is)"

definition checkLiquidationsAtEpoch :: "liquidation_env \<Rightarrow> risk_view \<Rightarrow> int64 \<Rightarrow> uint64 \<Rightarrow> liquidation_state \<Rightarrow> liquidation_state option" where
  "checkLiquidationsAtEpoch env view markPrice markEpoch lq =
     (case List.find (\<lambda>mb. mb_symbol mb = lq_symbol lq) (rv_books view) of
        None \<Rightarrow> Some lq
      | Some mb \<Rightarrow>
          if expired (rv_now view) mb \<or> mb_pending mb then Some lq
          else check_clients env view markPrice markEpoch mb (sort (mkeys (Clients (lq_ledger lq)))) lq)"

definition CheckLiquidations :: "liquidation_env \<Rightarrow> risk_view \<Rightarrow> int64 \<Rightarrow> liquidation_state \<Rightarrow> liquidation_state option" where
  "CheckLiquidations env view markPrice lq = checkLiquidationsAtEpoch env view markPrice 0 lq"

section \<open>Mark epochs\<close>

definition captureRiskMarkSnapshotLocked :: "timestamp \<Rightarrow> margin_book \<Rightarrow> riskMarkSnapshot option" where
  "captureRiskMarkSnapshotLocked now mb =
     (if mb_pending mb then None
      else if expired now mb then None
      else if \<not> MarkAvailable (mb_funding mb) then None
      else Some \<lparr>sn_current = True, sn_mark = MarkPrice (mb_funding mb), sn_maintenanceBps = MaintenanceMarginRate (mb_core mb),
             sn_warningBps = WarningMarginRate (mb_core mb), sn_epoch = 0, sn_timestamp = now\<rparr>)"

definition install_snapshot :: "uint64 \<Rightarrow> riskMarkSnapshot \<Rightarrow> margin_book \<Rightarrow> margin_book" where
  "install_snapshot e s mb = mb\<lparr>mb_epoch := e, mb_snapshot := Some (s\<lparr>sn_epoch := e\<rparr>)\<rparr>"

text \<open>All or nothing: the epoch is committed only when every listed symbol is known, listed once and has a mark.\<close>

definition CommitMarkEpoch :: "string list \<Rightarrow> risk_view \<Rightarrow> (unit + uint64) \<times> risk_view" where
  "CommitMarkEpoch symbols view =
     (let captured = (\<lambda>symbol. Option.bind (List.find (\<lambda>mb. mb_symbol mb = symbol) (rv_books view)) (captureRiskMarkSnapshotLocked (rv_now view)));
          epoch = u64 (rv_markEpoch view + 1)
      in if symbols = [] \<or> \<not> distinct symbols \<or> list_ex (\<lambda>symbol. captured symbol = None) symbols then (Inl (), view)
         else (Inr epoch, view\<lparr>rv_markEpoch := epoch,
                rv_books := map (\<lambda>mb. case captured (mb_symbol mb) of
                    Some s \<Rightarrow> if mb_symbol mb \<in> set symbols then install_snapshot epoch s mb else mb
                  | None \<Rightarrow> mb) (rv_books view)\<rparr>))"

definition commitAvailableRiskMarkEpochLocked :: "risk_view \<Rightarrow> uint64 \<times> risk_view" where
  "commitAvailableRiskMarkEpochLocked view =
     (let now = rv_now view; epoch = u64 (rv_markEpoch view + 1);
          cleared = (\<lambda>mb. mb\<lparr>mb_epoch := 0, mb_snapshot := None\<rparr>)
      in if list_all (\<lambda>mb. captureRiskMarkSnapshotLocked now mb = None) (rv_books view)
         then (0, view\<lparr>rv_books := map cleared (rv_books view)\<rparr>)
         else (epoch, view\<lparr>rv_markEpoch := epoch,
                rv_books := map (\<lambda>mb. case captureRiskMarkSnapshotLocked now mb of
                    None \<Rightarrow> cleared mb | Some s \<Rightarrow> install_snapshot epoch s mb) (rv_books view)\<rparr>))"

end
