(* ===== verification/Expiry_Safety.thy ===== *)
theory Expiry_Safety
  imports Expiry_Settlement Perp_Safety
begin

text \<open>The expiry of a dated future creates and destroys no money: what all accounts and the venue hold together
  changes only by the value of the contracts at the settlement price, up to the fractions of a unit
  that truncation left on the accounts.\<close>

section \<open>The marked value of all contracts\<close>

definition marked_total :: "int64 \<Rightarrow> string \<Rightarrow> int64 \<Rightarrow> PositionManager \<Rightarrow> int" where
  "marked_total m sy P pm = msum (\<lambda>k a. if fst (snd k) = sy then exact_value P a + acc_size a * m else 0) (accounting pm)"

lemma marked_total_cong: "accounting pm' = accounting pm \<Longrightarrow> marked_total m sy P pm' = marked_total m sy P pm"
  by (simp add: marked_total_def)

text \<open>Closing a position at the mark turns its marked value into cash and a carry below one unit.\<close>

lemma Settle_value:
  assumes ok: "pm_ok pm" and P: "0 < precision_of pm (pos_key_of p)"
    and run: "SettlePositionAtPrice p m (precision_of pm (pos_key_of p)) pm = Some (pm', cash)"
  shows "is_i64 cash" "marked_total m (PosSymbol p) (precision_of pm (pos_key_of p)) pm' + precision_of pm (pos_key_of p) * cash =
    marked_total m (PosSymbol p) (precision_of pm (pos_key_of p)) pm"
proof -
  let ?k = "pos_key_of p" and ?P = "precision_of pm (pos_key_of p)"
  from run obtain st c where plan: "settlement_plan p m ?P pm = Some (st, c, cash)"
    and pm': "accounting pm' = mput (accounting pm) ?k c"
    by (auto simp: SettlePositionAtPrice_def)
  from settlement_plan_stored [OF plan] obtain a where
    st: "map_of (positions pm) ?k = Some st" "map_of (accounting pm) ?k = Some a" "PosSize st \<noteq> 0" "PosSize st = PosSize p" by auto
  have e: "exact_at ?P ?k a st" using pm_ok_paired [OF ok, of ?k] st by simp
  then have eq: "pos_key_of st = ?k" "PosSide st = PosSide p" by (auto simp: exact_at_def pos_key_of_def)
  have "settlement_plan p m ?P pm = settlement_plan st m ?P pm" unfolding settlement_plan_def eq st(4) ..
  then have u: "unrealizedPnL a m ?P = Some cash" and c: "c = closed_at ?P m a"
    using settlement_plan_eq [OF ok st(1,2) P st(3), of m] plan by (cases "unrealizedPnL a m ?P"; simp)+
  let ?n = "marked_numerator a m"
  have "acc_ok ?P a" using e P by (simp add: exact_at_def)
  then have r: "is_i64 (realizedCash a)" by (rule acc_okD)
  from u have q: "is_i64 (?n sdiv ?P)" and sub: "TrySub (?n sdiv ?P) (realizedCash a) = Some cash"
    by (simp_all add: unrealizedPnL_eq [OF P] split: if_splits)
  note cash = conjunct2 [OF TrySub_Some [OF q r sub]] conjunct1 [OF TrySub_Some [OF q r sub]]
  show "is_i64 cash" by (rule cash(1))
  have "exact_value ?P c + acc_size c * m + ?P * cash = exact_value ?P a + acc_size a * m"
    using sdiv_smod_eq [of ?n ?P]
    by (simp add: c closed_at_def newPositionAccounting_def exact_value_def cash(2) right_diff_distrib marked_numerator_def)
  moreover have "is_map (accounting pm)" "PosSymbol p = fst (snd ?k)" using ok by (simp_all add: pm_ok_def pos_key_of_def)
  ultimately show "marked_total m (PosSymbol p) ?P pm' + ?P * cash = marked_total m (PosSymbol p) ?P pm"
    using st(2) by (simp add: marked_total_def pm' msum_mput)
qed

section \<open>Paying a client\<close>

lemma pay_client_cash:
  assumes run: "pay_client i quote x st = Some st'" and x: "is_i64 x" and l: "ledger_ok (ps_ledger st)" "conserved (ps_ledger st)"
  shows "ledger_ok (ps_ledger st') \<and> conserved (ps_ledger st')" "held (ps_ledger st') a = held (ps_ledger st) a + (if a = quote then x else 0)"
    "ps_positions st' = ps_positions st" "ss_book (ps_core st') = ss_book (ps_core st)"
proof -
  from run obtain c b where c: "ps_client st i = Some c" and b: "AddAmount (mget (PerpBalances c) quote) x = Some b"
    and st': "st' = st\<lparr>ps_core := (ps_core st)\<lparr>ss_ledger :=
      logBalanceChange [\<lparr>DAsset = quote, Wallet = ''perp'', OldBalance = mget (PerpBalances c) quote, NewBalance = b, Delta = x\<rparr>]
        (set_client i (c\<lparr>PerpBalances := mput (PerpBalances c) quote b\<rparr>) (ps_ledger st))\<rparr>\<rparr>"
    by (auto simp: pay_client_def Let_def split: option.splits)
  let ?cs = "[\<lparr>DAsset = quote, Wallet = ''perp'', OldBalance = mget (PerpBalances c) quote, NewBalance = b, Delta = x\<rparr>]"
  let ?c = "c\<lparr>PerpBalances := mput (PerpBalances c) quote b\<rparr>"
  have m: "client_maps c" using l(1) c by (simp add: ledger_ok_def)
  then have "is_i64 (mget (PerpBalances c) quote)" by (simp add: client_maps_def values_ok_mget)
  with b x have eq: "b = mget (PerpBalances c) quote + x" "is_i64 b" unfolding AddAmount_def by (auto simp: TryAdd_Some)
  have m': "client_maps ?c" using m eq(2) by (simp add: client_maps_def values_ok_mput)
  have cs: "deltas_ok ?cs" "effect ?cs a = (if a = quote then x else 0)" for a using x by (simp_all add: deltas_ok_def)
  have w: "worth a ?c = worth a c + (if a = quote then x else 0)" for a by (simp add: worth_def eq(1))
  have o: "old_worth (ps_ledger st) i a = worth a c" for a by (simp add: old_worth_def c)
  have L: "ps_ledger st' = logBalanceChange ?cs (set_client i ?c (ps_ledger st))" by (simp add: st')
  show "ledger_ok (ps_ledger st') \<and> conserved (ps_ledger st')"
    unfolding L by (rule log_client_step [OF l cs(1) m']) (simp add: o w cs(2))
  have g: "conserved_by (\<lambda>_. 0) (ps_ledger st)" using l(2) by (simp add: conserved_iff)
  note sc = set_client_step [OF l(1) g m', of i]
  show "held (ps_ledger st') a = held (ps_ledger st) a + (if a = quote then x else 0)"
    unfolding L log_step(2) [OF sc(1,3) cs(1)] sc(2) by (simp add: o w)
  show "ps_positions st' = ps_positions st" "ss_book (ps_core st') = ss_book (ps_core st)" by (simp_all add: st')
qed

section \<open>Forced cancellations move no cash\<close>

lemma quiet_cancel_orders: "cancel_orders inst i ids st = Some (ns, st') \<Longrightarrow> quiet st st'"
proof (induction inst i ids st arbitrary: ns rule: cancel_orders.induct)
  case (2 inst i orderID ids st)
  show ?case
  proof (cases "\<exists>order. resting (ss_book (ps_core st)) orderID = Some order \<and> ClientID order = i")
    case False
    with 2 show ?thesis by (auto split: option.splits if_splits)
  next
    case True
    then obtain order where o: "resting (ss_book (ps_core st)) orderID = Some order" "ClientID order = i" by blast
    with "2.prems" obtain c where c: "ps_client st i = Some c" by (auto split: option.splits)
    let ?c = "RemoveOrder (fst (releaseReserved True inst c order)) orderID"
    let ?st = "st\<lparr>ps_core := drop_order order (store_client i ?c (ps_core st))\<rparr>"
    from "2.prems" o c obtain ns' where r: "cancel_orders inst i ids ?st = Some (ns', st')" by (auto simp: Let_def)
    have "quiet st ?st"
      by (rule quiet_core [OF quiet_store_client [OF c same_funds_trans [OF releaseReserved_funds RemoveOrder_funds]]]) simp_all
    moreover have "quiet ?st st'" using "2.IH"(3) [OF o(1) _ c refl refl r] o(2) by simp
    ultimately show ?thesis by (rule quiet_trans)
  qed
qed simp

lemma quiet_cancel_clients: "cancel_clients inst is st = Some (ns, st') \<Longrightarrow> quiet st st'"
proof (induction inst "is" st arbitrary: ns rule: cancel_clients.induct)
  case (2 inst i "is" st)
  then obtain n1 st1 n2 where one: "cancelClientOrdersOnBook inst i st = Some (n1, st1)" and rest: "cancel_clients inst is st1 = Some (n2, st')"
    by (auto split: option.splits)
  have "quiet st st1" using one by (auto simp: cancelClientOrdersOnBook_def split: option.splits intro: quiet_cancel_orders)
  with "2.IH" [OF one refl rest] show ?case by (blast intro: quiet_trans)
qed simp

section \<open>The settlement loop\<close>

lemma MulDiv_i64: "MulDiv a b c = Some r \<Longrightarrow> is_i64 r"
  by (auto simp: MulDiv_def TryMulDiv_def Let_def is_i64_def [of MinInt64] split: if_splits prod.splits option.splits)

lemma quotient_nonneg:
  assumes "Mul64 (unsignedAbs a) (unsignedAbs b) = (hi, lo)" "Div64 hi lo y = Some (quo, r)"
  shows "0 \<le> quo"
proof -
  have "is_u64 (u64 x)" for x by simp
  then have "0 \<le> unsignedAbs a * unsignedAbs b" by (simp add: unsignedAbs_def is_u64_def)
  moreover have n: "hi * two64 + lo = unsignedAbs a * unsignedAbs b" "hi = unsignedAbs a * unsignedAbs b div two64"
    using assms(1) by (auto simp: Mul64_def)
  ultimately have "0 \<le> hi" by (simp add: pos_imp_zdiv_nonneg_iff)
  then show ?thesis using assms(2) n(1) \<open>0 \<le> unsignedAbs a * unsignedAbs b\<close>
    by (auto simp: Div64_def pos_imp_zdiv_nonneg_iff split: if_splits)
qed

lemma MulDiv_nonneg: "MulDiv a b c = Some r \<Longrightarrow> 0 \<le> a \<Longrightarrow> 0 \<le> b \<Longrightarrow> 0 \<le> r"
  by (auto simp: MulDiv_def TryMulDiv_def Let_def split: if_splits prod.splits option.splits dest!: quotient_nonneg)
    (subst i64_id; force simp: is_i64_def)

lemma AbsMulDiv_nonneg: "AbsMulDiv a b c = Some r \<Longrightarrow> 0 \<le> r"
  by (auto simp: AbsMulDiv_def TryAbsMulDiv_def Let_def split: if_splits prod.splits option.splits dest!: quotient_nonneg)
    (subst i64_id; force simp: is_i64_def)

lemma DeliveryFee_range: "DeliveryFee f z m P = Some fee \<Longrightarrow> is_i64 fee \<and> 0 \<le> fee"
  by (auto simp: DeliveryFee_def bind_eq_Some_conv split: if_splits intro: MulDiv_i64 MulDiv_nonneg AbsMulDiv_nonneg)

definition settling :: "string \<Rightarrow> int64 \<Rightarrow> perp_state \<Rightarrow> bool" where
  "settling sy P st \<longleftrightarrow> ledger_ok (ps_ledger st) \<and> conserved (ps_ledger st) \<and> pm_ok (ps_positions st) \<and>
     mget (precisions (ps_positions st)) sy = P \<and> Symbol (ss_book (ps_core st)) = sy"

lemma settling_quiet: "quiet st st' \<Longrightarrow> settling sy P st \<Longrightarrow> settling sy P st' \<and> held (ps_ledger st') = held (ps_ledger st)"
  using quietD [of st st'] by (auto simp: settling_def)

text \<open>One position: its margin is released, its marked value becomes cash, and the fee is set aside.\<close>

lemma settle_row:
  assumes run: "settle_rows True f m ((i, p) # rows) (t, st) = Some r" and set: "settling sy (sp_basePrecision f) st"
    and P: "0 < sp_basePrecision f" and p: "PosSymbol p = sy" and t: "is_i64 t" "0 \<le> t" and live: "ps_client st i \<noteq> None" "PosSize p \<noteq> 0"
  obtains t' st' where "settle_rows True f m rows (t', st') = Some r" "is_i64 t'" "0 \<le> t'" "settling sy (sp_basePrecision f) st'"
    "sp_basePrecision f * (held (ps_ledger st') (sp_quote f) + t') + marked_total m sy (sp_basePrecision f) (ps_positions st') =
       sp_basePrecision f * (held (ps_ledger st) (sp_quote f) + t) + marked_total m sy (sp_basePrecision f) (ps_positions st)"
    "\<forall>a. a \<noteq> sp_quote f \<longrightarrow> held (ps_ledger st') a = held (ps_ledger st) a"
proof -
  let ?P = "sp_basePrecision f" and ?q = "sp_quote f"
  let ?z = "if PosSize p < 0 then i64 (- PosSize p) else PosSize p"
  from run live obtain pm1 x st1 pm2 cash fee n st2 t' where
    rel: "ReleasePositionMargin i (Symbol (ss_book (ps_core st))) (PosSide p) ?z (PosSize p) (ps_positions st) = Some (pm1, x)"
    and st1: "(if x > 0 then ctx_ReleasePerp i ?q x (st\<lparr>ps_positions := pm1\<rparr>) else Some (st\<lparr>ps_positions := pm1\<rparr>)) = Some st1"
    and cl: "SettlePositionAtPrice p m ?P (ps_positions st1) = Some (pm2, cash)"
    and fee: "DeliveryFee f (PosSize p) m ?P = Some fee" and n: "TrySub cash fee = Some n"
    and pay: "pay_client i ?q n (st1\<lparr>ps_positions := pm2\<rparr>) = Some st2" and t': "AddAmount t fee = Some t'"
    and rest: "settle_rows True f m rows (t', st2) = Some r"
    by (auto simp: Let_def bind_eq_Some_conv close_position_def split: prod.splits option.splits)
  have "quiet st (st\<lparr>ps_positions := pm1\<rparr>)"
    using ReleasePositionMargin_same [OF rel] ReleasePositionMargin_ok [OF _ rel] by (intro quiet_positions) auto
  then have "quiet st st1" using st1 quiet_trans quiet_ctx(1) by (auto split: if_splits)
  from settling_quiet [OF this set] quietD(5) [OF this] have s1: "settling sy ?P st1" and h1: "held (ps_ledger st1) = held (ps_ledger st)"
    and a1: "accounting (ps_positions st1) = accounting (ps_positions st)" by auto
  have prec: "precision_of (ps_positions st1) (pos_key_of p) = ?P" using s1 p by (simp add: settling_def precision_of_def pos_key_of_def)
  have ok1: "pm_ok (ps_positions st1)" using s1 by (simp add: settling_def)
  note V = Settle_value [OF ok1 _ cl [folded prec], unfolded prec p, OF P]
  note K = Settle_ok [OF ok1 _ cl [folded prec], unfolded prec, OF P]
  have f64: "is_i64 fee" "0 \<le> fee" using DeliveryFee_range [OF fee] by auto
  have n': "n = cash - fee" "is_i64 n" using TrySub_Some [OF V(1) f64(1) n] by auto
  have tt: "t' = t + fee" "is_i64 t'" "0 \<le> t'" using t' t f64 unfolding AddAmount_def by (auto simp: TryAdd_Some)
  have s2: "ledger_ok (ps_ledger (st1\<lparr>ps_positions := pm2\<rparr>))" "conserved (ps_ledger (st1\<lparr>ps_positions := pm2\<rparr>))"
    using s1 by (simp_all add: settling_def)
  note C = pay_client_cash [OF pay n'(2) s2]
  have "settling sy ?P st2" using C(1,3,4) K s1 by (simp add: settling_def)
  moreover have "?P * (held (ps_ledger st2) ?q + t') + marked_total m sy ?P (ps_positions st2) =
      ?P * (held (ps_ledger st) ?q + t) + marked_total m sy ?P (ps_positions st)"
  proof -
    have "held (ps_ledger st2) ?q + t' = held (ps_ledger st) ?q + t + cash" using C(2) [of ?q] by (simp add: h1 n'(1) tt(1))
    then have "?P * (held (ps_ledger st2) ?q + t') = ?P * (held (ps_ledger st) ?q + t) + ?P * cash" by (simp only: distrib_left)
    with V(2) marked_total_cong [OF a1, of m sy ?P] show ?thesis by (simp add: C(3))
  qed
  moreover have "\<forall>a. a \<noteq> ?q \<longrightarrow> held (ps_ledger st2) a = held (ps_ledger st) a" using C(2) by (simp add: h1)
  ultimately show ?thesis using that rest tt(2,3) by blast
qed

lemma settle_rows_cash:
  assumes "settle_rows True f m rows (t, st) = Some (t', st')" "settling sy (sp_basePrecision f) st" "0 < sp_basePrecision f"
    "\<forall>(i, p)\<in>set rows. PosSymbol p = sy" "is_i64 t" "0 \<le> t"
  shows "settling sy (sp_basePrecision f) st' \<and> is_i64 t' \<and> 0 \<le> t' \<and>
    sp_basePrecision f * (held (ps_ledger st') (sp_quote f) + t') + marked_total m sy (sp_basePrecision f) (ps_positions st') =
      sp_basePrecision f * (held (ps_ledger st) (sp_quote f) + t) + marked_total m sy (sp_basePrecision f) (ps_positions st) \<and>
    (\<forall>a. a \<noteq> sp_quote f \<longrightarrow> held (ps_ledger st') a = held (ps_ledger st) a)"
  using assms
proof (induction rows arbitrary: t st)
  case (Cons row rows)
  obtain i p where row: "row = (i, p)" by force
  show ?case
  proof (cases "ps_client st i = None \<or> PosSize p = 0")
    case True
    with Cons.prems have "settle_rows True f m rows (t, st) = Some (t', st')" by (auto simp: row)
    with Cons.IH Cons.prems show ?thesis by auto
  next
    case False
    have p: "PosSymbol p = sy" using Cons.prems(4) by (simp add: row)
    obtain t1 st1 where "settle_rows True f m rows (t1, st1) = Some (t', st')" "is_i64 t1" "0 \<le> t1" "settling sy (sp_basePrecision f) st1"
      and eq: "sp_basePrecision f * (held (ps_ledger st1) (sp_quote f) + t1) + marked_total m sy (sp_basePrecision f) (ps_positions st1) =
         sp_basePrecision f * (held (ps_ledger st) (sp_quote f) + t) + marked_total m sy (sp_basePrecision f) (ps_positions st)"
      "\<forall>a. a \<noteq> sp_quote f \<longrightarrow> held (ps_ledger st1) a = held (ps_ledger st) a"
      using settle_row [OF Cons.prems(1) [unfolded row] Cons.prems(2,3) p Cons.prems(5,6)] False by blast
    with Cons.IH [of t1 st1] Cons.prems(3,4) show ?thesis by simp
  qed
qed simp

section \<open>Rounding\<close>

lemma rounding_rows_i64: "rounding_rows b P is = Some rows \<Longrightarrow> r \<in> set rows \<Longrightarrow> is_i64 (RndAmount r)"
  by (induction b P "is" arbitrary: rows rule: rounding_rows.induct)
    (auto simp: Let_def truncateNumerator_def split: option.splits if_splits)

lemma preview_i64: "PreviewPositionAccountingTerminalization sy m P pm = Some rows \<Longrightarrow> r \<in> set rows \<Longrightarrow> is_i64 (RndAmount r)"
  by (auto simp: PreviewPositionAccountingTerminalization_def bind_eq_Some_conv roundingFromNumerators_def
      split: if_splits option.splits intro: rounding_rows_i64)

lemma preflight_rounding_amounts: "preflight_rounding quote rs b st v = Some w \<Longrightarrow> r \<in> set rs \<Longrightarrow> RndAmount r \<noteq> MinInt64"
proof (induction quote rs b st v rule: preflight_rounding.induct)
  case (2 quote r' rs b st v)
  then show ?case by (fastforce simp: bind_eq_Some_conv TrySub_def Let_def split: option.splits if_splits)
qed simp

lemma pay_rounding_cash:
  assumes "pay_rounding True quote rs st = Some st'" "settling sy P st" "quote \<noteq> ''''"
    "\<forall>r\<in>set rs. is_i64 (RndAmount r) \<and> RndAmount r \<noteq> MinInt64"
  shows "settling sy P st' \<and> held (ps_ledger st') = held (ps_ledger st) \<and> ps_positions st' = ps_positions st"
  using assms
proof (induction rs arbitrary: st)
  case (Cons r rs)
  show ?case
  proof (cases "RndAmount r = 0")
    case True
    with Cons show ?thesis by (auto split: if_splits)
  next
    case False
    with Cons.prems(1) obtain st1 l where pay: "pay_client (RndClient r) quote (RndAmount r) st = Some st1"
      and move: "moveVenueBalance VenueFeeRevenue quote (i64 (- RndAmount r)) (Symbol (ss_book (ps_core st1))) (ps_ledger st1) = Some l"
      and rest: "pay_rounding True quote rs (st1\<lparr>ps_core := (ps_core st1)\<lparr>ss_ledger := l\<rparr>\<rparr>) = Some st'"
      by (auto simp: bind_eq_Some_conv split: if_splits)
    let ?st = "st1\<lparr>ps_core := (ps_core st1)\<lparr>ss_ledger := l\<rparr>\<rparr>"
    have x: "is_i64 (RndAmount r)" "i64 (- RndAmount r) = - RndAmount r" "is_i64 (- RndAmount r)"
      using Cons.prems(4) by (auto simp: is_i64_def intro!: i64_id)
    have l: "ledger_ok (ps_ledger st)" "conserved (ps_ledger st)" using Cons.prems(2) by (simp_all add: settling_def)
    note C = pay_client_cash [OF pay x(1) l]
    have g: "conserved_by (\<lambda>_. 0) (ps_ledger st1)" using C(1) by (simp add: conserved_iff)
    from moveVenueBalance_step [OF conjunct1 [OF C(1)] g x(3) move [unfolded x(2)]]
    have M: "ledger_ok l" "conserved l" "held l b = held (ps_ledger st1) b + (if b = quote then - RndAmount r else 0)" for b
      using Cons.prems(3) False by (auto simp: conserved_iff)
    have "settling sy P ?st" using M(1,2) C(3,4) Cons.prems(2) by (simp add: settling_def)
    moreover have "held (ps_ledger ?st) = held (ps_ledger st)" by (rule ext) (simp add: M(3) C(2))
    ultimately show ?thesis using Cons.IH [OF rest] Cons.prems(3,4) C(3) by simp
  qed
qed simp

section \<open>The last fractions\<close>

definition accounts_of :: "string \<Rightarrow> PositionManager \<Rightarrow> nat" where
  "accounts_of sy pm = length (filter (\<lambda>(k, a). fst (snd k) = sy) (accounting pm))"

lemma msum_bound:
  assumes "\<forall>(k, a)\<in>set m. (Q k \<longrightarrow> \<bar>g k a\<bar> \<le> b) \<and> (\<not> Q k \<longrightarrow> g k a = 0)"
  shows "\<bar>msum g m\<bar> \<le> int (length (filter (\<lambda>(k, a). Q k) m)) * b"
  using assms
proof (induction m)
  case (Cons x m)
  obtain k a where x: "x = (k, a)" by force
  from Cons have IH: "\<bar>msum g m\<bar> \<le> int (length (filter (\<lambda>(k, a). Q k) m)) * b" by simp
  have "\<bar>g k a + msum g m\<bar> \<le> \<bar>g k a\<bar> + \<bar>msum g m\<bar>" by simp
  with IH Cons.prems show ?case by (cases "Q k") (auto simp: x msum_def distrib_right)
qed (simp add: msum_def)

lemma flat_accounts:
  assumes ok: "pm_ok pm" and fl: "flat_loop sy (accounting pm) [] \<noteq> None" and P: "0 < mget (precisions pm) sy"
    and a: "(k, a) \<in> set (accounting pm)" "fst (snd k) = sy"
  shows "\<bar>exact_value (mget (precisions pm) sy) a + acc_size a * m\<bar> \<le> mget (precisions pm) sy - 1"
proof -
  let ?P = "mget (precisions pm) sy"
  obtain i s where k: "k = (i, sy, s)" using a(2) by (cases k) auto
  have z: "acc_size a = 0" using flat_loop_flat [OF fl] a(1) k by blast
  have im: "is_map (accounting pm)" using ok by (simp add: pm_ok_def)
  obtain p where "exact_at (precision_of pm k) k a p" by (rule pm_ok_account [OF ok is_mapD [OF im a(1)]])
  then have "acc_ok ?P a" using P by (simp add: exact_at_def precision_of_def k)
  then have "realizedNumerator a = 0" "basisNumerator a = 0" "realizedCash a = 0" "carryNumerator a sdiv ?P = 0"
    using z unfolding acc_ok_def by auto
  then show ?thesis using z small_sdiv [OF P] by (simp add: exact_value_def)
qed

lemma cleared_store:
  assumes ok: "pm_ok pm" and fl: "flat_loop sy (accounting pm) [] \<noteq> None" and P: "0 < mget (precisions pm) sy"
  defines "pm' \<equiv> ClearPositionPrecision sy (clearAccountingCarry sy pm)"
  shows "pm_ok pm'" "fst (snd k) = sy \<Longrightarrow> PosSize (pos_at k pm') = 0"
    "\<bar>marked_total m sy (mget (precisions pm) sy) pm\<bar> \<le> int (accounts_of sy pm') * (mget (precisions pm) sy - 1)"
proof -
  note C = clear_ok [OF ok fl]
  have new: "mget (precisions (clearAccountingCarry sy pm)) sy = 0 \<or> a = newPositionAccounting"
    if "map_of (accounting (clearAccountingCarry sy pm)) k = Some a" "fst (snd k) = sy" for k a
    using C(2) [OF that] by simp
  show ok': "pm_ok pm'" unfolding pm'_def ClearPositionPrecision_def
    by (rule pm_ok_precision [OF C(1) _ _ refl _ new]) (simp_all add: mget_delete)
  show "PosSize (pos_at k pm') = 0" if "fst (snd k) = sy"
  proof -
    have "acc_at k pm' = newPositionAccounting"
      using C(2) [of k] that by (auto simp: acc_at_def pm'_def ClearPositionPrecision_def split: option.splits)
    moreover have "PosSize (pos_at k pm') = acc_size (acc_at k pm')" using pm_ok_at [OF ok', of k] by (simp add: exact_at_def)
    ultimately show ?thesis by (simp add: newPositionAccounting_def)
  qed
  have n: "accounts_of sy pm' = accounts_of sy pm"
    by (simp add: accounts_of_def pm'_def ClearPositionPrecision_def clearAccountingCarry_def filter_map comp_def case_prod_unfold)
  have "\<bar>marked_total m sy (mget (precisions pm) sy) pm\<bar> \<le>
      int (length (filter (\<lambda>(k, a). fst (snd k) = sy) (accounting pm))) * (mget (precisions pm) sy - 1)"
    unfolding marked_total_def by (rule msum_bound) (use flat_accounts [OF ok fl P] in auto)
  then show "\<bar>marked_total m sy (mget (precisions pm) sy) pm\<bar> \<le> int (accounts_of sy pm') * (mget (precisions pm) sy - 1)"
    unfolding n unfolding accounts_of_def .
qed

section \<open>The contract\<close>

lemma settle_contract_steps:
  assumes "settle_contract True f m st = Some (ns, st')" and sy: "Symbol (ss_book (ps_core st)) = sy"
  obtains expected st1 t st2 pm st3 st4 b u v where
    "PreviewPositionAccountingTerminalization sy m (sp_basePrecision f) (ps_positions st) = Some expected"
    "preflight_rounding (sp_quote f) expected b st u = Some v"
    "cancel_clients f (mkeys (Clients (ps_ledger st))) st = Some (ns, st1)"
    "settle_rows True f m (PositionsForFunding sy (ps_positions st)) (0, st1) = Some (t, st2)"
    "CommitPositionAccountingCarry (Symbol (ss_book (ps_core st2))) (sp_basePrecision f) expected (ps_positions st2) = Some (pm, expected)"
    "pay_rounding True (sp_quote f) expected (st2\<lparr>ps_positions := pm\<rparr>) = Some st3"
    "ps_positions st4 = ps_positions st3" "ss_book (ps_core st4) = ss_book (ps_core st3)" "t \<le> 0 \<Longrightarrow> ps_ledger st4 = ps_ledger st3"
    "t > 0 \<Longrightarrow> recordFeeRevenue (sp_quote f) (no_fee\<lparr>FeeAmount := t, FeeAsset := sp_quote f\<rparr>) no_fee
       (Symbol (ss_book (ps_core st3))) (ps_ledger st3) = Some (ps_ledger st4)"
    "st' = st4\<lparr>ps_positions := ClearPositionPrecision (Symbol (ss_book (ps_core st4))) (ps_positions st4)\<rparr>"
proof -
  from assms(1) obtain expected st1 t st2 st3 st4 where
    pre: "expiry_preflight f m (PositionsForFunding sy (ps_positions st)) st = Some expected"
    and a: "cancel_clients f (mkeys (Clients (ps_ledger st))) st = Some (ns, st1)"
    "settle_rows True f m (PositionsForFunding sy (ps_positions st)) (0, st1) = Some (t, st2)"
    and r: "settle_rounding True f expected st2 = Some st3"
    and fee: "(if t > 0 then map_option (\<lambda>l. st3\<lparr>ps_core := (ps_core st3)\<lparr>ss_ledger := l\<rparr>\<rparr>)
        (recordFeeRevenue (sp_quote f) (no_fee\<lparr>FeeAmount := t, FeeAsset := sp_quote f\<rparr>) no_fee
          (Symbol (ss_book (ps_core st3))) (ps_ledger st3)) else Some st3) = Some st4"
    and st': "st' = st4\<lparr>ps_positions := ClearPositionPrecision (Symbol (ss_book (ps_core st4))) (ps_positions st4)\<rparr>"
    unfolding settle_contract_def Let_def sy by (auto simp: bind_eq_Some_conv split: prod.splits)
  from pre obtain b u v where p: "PreviewPositionAccountingTerminalization sy m (sp_basePrecision f) (ps_positions st) = Some expected"
    "preflight_rounding (sp_quote f) expected b st u = Some v"
    by (auto simp: expiry_preflight_def sy bind_eq_Some_conv)
  from r obtain pm rows where c: "CommitPositionAccountingCarry (Symbol (ss_book (ps_core st2))) (sp_basePrecision f) expected (ps_positions st2) = Some (pm, rows)"
    "pay_rounding True (sp_quote f) rows (st2\<lparr>ps_positions := pm\<rparr>) = Some st3"
    by (auto simp: settle_rounding_def Let_def split: option.splits)
  moreover have "rows = expected" using c(1) by (auto simp: CommitPositionAccountingCarry_def split: option.splits if_splits)
  moreover have "ps_positions st4 = ps_positions st3" "ss_book (ps_core st4) = ss_book (ps_core st3)" "t \<le> 0 \<Longrightarrow> ps_ledger st4 = ps_ledger st3"
    "t > 0 \<Longrightarrow> recordFeeRevenue (sp_quote f) (no_fee\<lparr>FeeAmount := t, FeeAsset := sp_quote f\<rparr>) no_fee
       (Symbol (ss_book (ps_core st3))) (ps_ledger st3) = Some (ps_ledger st4)"
    using fee by (auto split: if_splits)
  ultimately show ?thesis using that p a st' by blast
qed

lemma fee_revenue_cash:
  assumes run: "recordFeeRevenue q (no_fee\<lparr>FeeAmount := t, FeeAsset := q\<rparr>) no_fee sy l = Some l'" and q: "q \<noteq> ''''" and t: "is_i64 t" "t \<noteq> 0"
    and l: "ledger_ok l" "conserved l"
  shows "ledger_ok l' \<and> conserved l' \<and> (\<forall>a. held l' a = held l a + (if a = q then t else 0))"
proof -
  have g: "conserved_by (\<lambda>_. 0) l" using l(2) by (simp add: conserved_iff)
  from run q t(2) obtain l1 where m1: "moveVenueBalance VenueFeeRevenue q t sy l = Some l1"
    and m2: "moveVenueBalance VenueFeeRevenue q 0 sy l1 = Some l'"
    by (auto simp: recordFeeRevenue_def no_fee_def Let_def bind_eq_Some_conv)
  have "l' = l1" using m2 by (simp add: moveVenueBalance_def)
  with moveVenueBalance_step [OF l(1) g t(1) m1] q t(2) show ?thesis by (auto simp: conserved_iff)
qed

lemma settle_contract_exact:
  assumes run: "settle_contract True f m st = Some (ns, st')" and set: "settling sy (sp_basePrecision f) st"
    and P: "0 < sp_basePrecision f" and q: "sp_quote f \<noteq> ''''"
  shows "ledger_ok (ps_ledger st') \<and> conserved (ps_ledger st') \<and> pm_ok (ps_positions st') \<and>
    (\<forall>k. fst (snd k) = sy \<longrightarrow> PosSize (pos_at k (ps_positions st')) = 0) \<and>
    (\<forall>a. a \<noteq> sp_quote f \<longrightarrow> held (ps_ledger st') a = held (ps_ledger st) a) \<and>
    \<bar>sp_basePrecision f * held (ps_ledger st') (sp_quote f) -
      (sp_basePrecision f * held (ps_ledger st) (sp_quote f) + marked_total m sy (sp_basePrecision f) (ps_positions st))\<bar>
      \<le> int (accounts_of sy (ps_positions st')) * (sp_basePrecision f - 1)"
proof -
  let ?P = "sp_basePrecision f" and ?q = "sp_quote f"
  have sy: "Symbol (ss_book (ps_core st)) = sy" "pm_ok (ps_positions st)" using set by (simp_all add: settling_def)
  from run obtain expected st1 t st2 pm st3 st4 b u v where
    pv: "PreviewPositionAccountingTerminalization sy m ?P (ps_positions st) = Some expected"
    and pr: "preflight_rounding ?q expected b st u = Some v"
    and cc: "cancel_clients f (mkeys (Clients (ps_ledger st))) st = Some (ns, st1)"
    and rows: "settle_rows True f m (PositionsForFunding sy (ps_positions st)) (0, st1) = Some (t, st2)"
    and com: "CommitPositionAccountingCarry (Symbol (ss_book (ps_core st2))) ?P expected (ps_positions st2) = Some (pm, expected)"
    and pay: "pay_rounding True ?q expected (st2\<lparr>ps_positions := pm\<rparr>) = Some st3"
    and st4: "ps_positions st4 = ps_positions st3" "ss_book (ps_core st4) = ss_book (ps_core st3)" "t \<le> 0 \<Longrightarrow> ps_ledger st4 = ps_ledger st3"
    and fee: "t > 0 \<Longrightarrow> recordFeeRevenue ?q (no_fee\<lparr>FeeAmount := t, FeeAsset := ?q\<rparr>) no_fee (Symbol (ss_book (ps_core st3))) (ps_ledger st3) = Some (ps_ledger st4)"
    and st': "st' = st4\<lparr>ps_positions := ClearPositionPrecision (Symbol (ss_book (ps_core st4))) (ps_positions st4)\<rparr>"
    using settle_contract_steps [OF run sy(1)] by metis
  note quiet1 = quiet_cancel_clients [OF cc]
  from settling_quiet [OF quiet1 set] have s1: "settling sy ?P st1" and h1: "held (ps_ledger st1) = held (ps_ledger st)" by auto
  have mt1: "marked_total m sy ?P (ps_positions st1) = marked_total m sy ?P (ps_positions st)" by (rule marked_total_cong [OF quietD(5) [OF quiet1]])
  have sym: "\<forall>(i, p)\<in>set (PositionsForFunding sy (ps_positions st)). PosSymbol p = sy"
    using set_PositionsForFunding(2) [OF sy(2)] by blast
  have z: "is_i64 0" "(0 :: int) \<le> 0" by simp_all
  from settle_rows_cash [OF rows s1 P sym z] have s2: "settling sy ?P st2" and t: "is_i64 t" "0 \<le> t"
    and bal: "?P * (held (ps_ledger st2) ?q + t) + marked_total m sy ?P (ps_positions st2) =
      ?P * held (ps_ledger st) ?q + marked_total m sy ?P (ps_positions st)"
    and others: "\<forall>a. a \<noteq> ?q \<longrightarrow> held (ps_ledger st2) a = held (ps_ledger st) a"
    by (simp_all add: h1 mt1)
  have sy2: "Symbol (ss_book (ps_core st2)) = sy" "pm_ok (ps_positions st2)" "mget (precisions (ps_positions st2)) sy = ?P"
    using s2 by (simp_all add: settling_def)
  from com have pm: "pm = clearAccountingCarry sy (ps_positions st2)" and fl: "flat_loop sy (accounting (ps_positions st2)) [] \<noteq> None"
    using rounding_flat [of sy ?P "ps_positions st2"] by (auto simp: CommitPositionAccountingCarry_def sy2(1) split: option.splits if_splits)
  note K = cleared_store [OF sy2(2) fl, unfolded sy2(3), OF P, folded pm]
  have am: "\<forall>r\<in>set expected. is_i64 (RndAmount r) \<and> RndAmount r \<noteq> MinInt64"
    using preview_i64 [OF pv] preflight_rounding_amounts [OF pr] by blast
  have "settling sy ?P (st2\<lparr>ps_positions := pm\<rparr>)"
    using s2 clear_ok(1) [OF sy2(2) fl] by (simp add: settling_def pm clearAccountingCarry_def)
  from pay_rounding_cash [OF pay this q am] have s3: "settling sy ?P st3" "held (ps_ledger st3) = held (ps_ledger st2)" "ps_positions st3 = pm"
    by auto
  have l4: "ledger_ok (ps_ledger st4) \<and> conserved (ps_ledger st4) \<and> (\<forall>a. held (ps_ledger st4) a = held (ps_ledger st2) a + (if a = ?q then t else 0))"
    using st4(3) fee_revenue_cash [OF fee q t(1)] t(2) s3 by (cases "t > 0") (auto simp: settling_def)
  have p4: "ps_positions st' = ClearPositionPrecision sy pm" and l': "ps_ledger st' = ps_ledger st4"
    using st4(1,2) s3 by (simp_all add: st' settling_def)
  have "?P * held (ps_ledger st') ?q - (?P * held (ps_ledger st) ?q + marked_total m sy ?P (ps_positions st)) =
      - marked_total m sy ?P (ps_positions st2)"
    using bal l4 by (simp add: l')
  then show ?thesis using l4 K others by (simp add: p4 l')
qed

lemma SettlementPrice_same:
  "SettlementPrice f = (r, f') \<Longrightarrow> sp_basePrecision f' = sp_basePrecision f \<and> sp_quote f' = sp_quote f" "SettlementPrice f = (None, f') \<Longrightarrow> f' = f"
  by (auto simp: SettlementPrice_def settlementPrice_def settlementPriceWith_def map_prod_def split: prod.splits option.splits)

text \<open>C19: Expiry of a dated future in exact mode. When the settlement returns, the contract is delisted, every position in
  it is flat, the store is well-formed and the audit of the ledger finds nothing. No other asset changed.
  In the quote asset, what all clients and the venue hold grew by exactly the value of all open
  contracts at the settlement price, except for the fractions that truncation left on the accounts: less
  than one unit for each account in the contract.\<close>

theorem expiry_settles_exactly:
  assumes listed: "xs_future xs = Some f" and price: "fst (SettlementPrice f) = Some m"
    and run: "settleExpiredInstrument True now xs = Some xs'"
    and ok: "ledger_ok (ps_ledger (xs_perp xs))" "conserved (ps_ledger (xs_perp xs))" "pm_ok (ps_positions (xs_perp xs))"
    and sy: "Symbol (ss_book (ps_core (xs_perp xs))) = sy" and P: "sp_basePrecision f = P" "mget (precisions (ps_positions (xs_perp xs))) sy = P" "0 < P"
    and q: "sp_quote f = quote" "quote \<noteq> ''''"
  shows "xs_future xs' = None \<and> xs_pending xs' = None \<and> VerifyConservation (ps_ledger (xs_perp xs')) = [] \<and> pm_ok (ps_positions (xs_perp xs')) \<and>
    (\<forall>i side. PosSize (pos_at (i, sy, side) (ps_positions (xs_perp xs'))) = 0) \<and>
    (\<forall>a. a \<noteq> quote \<longrightarrow> held (ps_ledger (xs_perp xs')) a = held (ps_ledger (xs_perp xs)) a) \<and>
    \<bar>P * held (ps_ledger (xs_perp xs')) quote - (P * held (ps_ledger (xs_perp xs)) quote + marked_total m sy P (ps_positions (xs_perp xs)))\<bar>
      \<le> int (accounts_of sy (ps_positions (xs_perp xs'))) * (P - 1)"
proof -
  obtain f' where f': "SettlementPrice f = (Some m, f')" using price by (cases "SettlementPrice f") simp
  have same: "sp_basePrecision f' = P" "sp_quote f' = quote"
    using SettlementPrice_same(1) [OF f'] P(1) q(1) by simp_all
  from run listed f' obtain ns st' where c: "settle_contract True f' m (xs_perp xs) = Some (ns, st')" and xs': "xs_perp xs' = st'" "xs_future xs' = None" "xs_pending xs' = None"
    by (auto simp: settleExpiredInstrument_def)
  have "settling sy (sp_basePrecision f') (xs_perp xs)" using ok sy P(2) by (simp add: settling_def same)
  from settle_contract_exact [OF c this] P(3) q(2) show ?thesis
    by (auto simp: same xs' conserved_verifies)
qed

definition expiry_sample_future :: ExpiringFutures where
  "expiry_sample_future = (ObserveSettlement 31 990 (NewExpiringFutures ''P'' ''BTC'' ''USD'' 10 1 1 1 1000))\<lparr>DeliveryFeeBps := 5000\<rparr>"

text \<open>Client 9 owns the reservation and the resting order that expiry gives back.\<close>

definition expiry_sample_order :: Order where
  "expiry_sample_order = (sample_order 21 9 Buy 20 5)\<lparr>Reserved := 40\<rparr>"

definition expiry_sample :: "int64 \<Rightarrow> int64 \<Rightarrow> expiry_state" where
  "expiry_sample balance margin =
     \<lparr>xs_perp = \<lparr>ps_core = \<lparr>ss_ledger = \<lparr>Clients = [(7, (NewClient 7)\<lparr>PerpBalances := [(''USD'', balance)], PerpReserved := [(''USD'', margin)]\<rparr>),
          (9, (NewClient 9)\<lparr>PerpBalances := [(''USD'', 300)], PerpReserved := [(''USD'', 40)], OrderIDs := [21]\<rparr>)],
          ExBal = \<lparr>FeeRevenue = [], InsuranceFund = [], FundingRoundingReserves = []\<rparr>, venueBalanceSequence = 0,
          conservation = \<lparr>recorded = [(''USD'', balance + 300)], unrepresentable = []\<rparr>\<rparr>,
        ss_book = \<lparr>Symbol = ''P'', Bids = (NewBook Buy)\<lparr>Orders := [21 \<mapsto> expiry_sample_order]\<rparr>, Asks = NewBook Sell,
          LastTrade = None, SeqNum = 4\<rparr>,
        ss_taker = expiry_sample_order\<rparr>,
      ps_positions = AddPositionMargin 7 ''P'' PositionBoth margin traded_store\<rparr>,
      xs_future = Some expiry_sample_future, xs_pending = None, xs_notices = []\<rparr>"

definition expiry_view :: "expiry_state \<Rightarrow> (uint64 \<times> (asset, int64) gomap \<times> (asset, int64) gomap) list \<times> (asset, int64) gomap \<times> ForcedCancelNotification list" where
  "expiry_view xs = (map (\<lambda>(i, c). (i, PerpBalances c, PerpReserved c)) (Clients (ps_ledger (xs_perp xs))),
     FeeRevenue (ExBal (ps_ledger (xs_perp xs))), xs_notices xs)"

lemma expiry_sample_run:
  "map_option expiry_view (settleExpiredInstrument True 1000 (expiry_sample 500 60)) =
     Some ([(7, [(''USD'', 500)], [(''USD'', 0)]), (9, [(''USD'', 292)], [(''USD'', 0)])], [(''USD'', 8)],
       [\<lparr>fc_client = 9, fc_OrderID = 21, fc_RemainingQty = 5\<rparr>])"
  by code_simp

lemma expiry_sample_ok: "ledger_ok (ps_ledger (xs_perp (expiry_sample 500 60)))" "conserved (ps_ledger (xs_perp (expiry_sample 500 60)))"
  by (auto simp: ledger_ok_def conserved_def expiry_sample_def NewClient_def is_map_def client_maps_def values_ok_def
      debts_ok_def tracker_ok_def held_def msum_def worth_def mget_def is_i64_def)

theorem expiry_settles_exactly_witness:
  "\<exists>xs'. settleExpiredInstrument True 1000 (expiry_sample 500 60) = Some xs' \<and> VerifyConservation (ps_ledger (xs_perp xs')) = [] \<and>
     PosSize (pos_at (7, ''P'', PositionBoth) (ps_positions (xs_perp xs'))) = 0 \<and>
     \<bar>10 * held (ps_ledger (xs_perp xs')) ''USD'' - (10 * held (ps_ledger (xs_perp (expiry_sample 500 60))) ''USD'' +
        marked_total 31 ''P'' 10 (ps_positions (xs_perp (expiry_sample 500 60))))\<bar> \<le> int (accounts_of ''P'' (ps_positions (xs_perp xs'))) * (10 - 1)"
proof -
  obtain xs' where run: "settleExpiredInstrument True 1000 (expiry_sample 500 60) = Some xs'"
    using expiry_sample_run by (cases "settleExpiredInstrument True 1000 (expiry_sample 500 60)") auto
  have pm: "pm_ok (ps_positions (xs_perp (expiry_sample 500 60)))"
    using AddPositionMargin_ok [OF reachable_pm_ok [OF traded_reachable]] by (simp add: expiry_sample_def)
  have price: "fst (SettlementPrice expiry_sample_future) = Some 31" by code_simp
  have pr: "mget (precisions (ps_positions (xs_perp (expiry_sample 500 60)))) ''P'' = 10" by code_simp
  have inst: "sp_basePrecision expiry_sample_future = 10" "sp_quote expiry_sample_future = ''USD''" by code_simp+
  have "xs_future (expiry_sample 500 60) = Some expiry_sample_future" "Symbol (ss_book (ps_core (xs_perp (expiry_sample 500 60)))) = ''P''"
    by (simp_all add: expiry_sample_def)
  from expiry_settles_exactly [OF this(1) price run expiry_sample_ok pm this(2) inst(1) pr _ inst(2)] run show ?thesis by auto
qed

section \<open>Waiting for a price\<close>

lemma quiet_clients: "quiet st st' \<Longrightarrow> ps_client st' i = None \<longleftrightarrow> ps_client st i = None"
  unfolding quiet_def by (metis option.map_disc_iff)

lemma cancel_orders_total: "ps_client st i \<noteq> None \<Longrightarrow> \<exists>ns st'. cancel_orders inst i ids st = Some (ns, st') \<and> ps_positions st' = ps_positions st"
proof (induction inst i ids st rule: cancel_orders.induct)
  case (2 inst i orderID ids st)
  show ?case
  proof (cases "\<exists>order. resting (ss_book (ps_core st)) orderID = Some order \<and> ClientID order = i")
    case False
    with 2 show ?thesis by (auto split: option.splits)
  next
    case True
    then obtain order where o: "resting (ss_book (ps_core st)) orderID = Some order" "ClientID order = i" by blast
    obtain c where c: "ps_client st i = Some c" using "2.prems" by blast
    let ?st = "st\<lparr>ps_core := drop_order order (store_client i (RemoveOrder (fst (releaseReserved True inst c order)) orderID) (ps_core st))\<rparr>"
    have "ps_client ?st i \<noteq> None" by (simp add: store_client_def set_client_def)
    with "2.IH"(3) [OF o(1) _ c refl refl] o c show ?thesis by (fastforce simp: Let_def)
  qed
qed simp

lemma cancel_clients_total:
  "\<forall>i\<in>set is. ps_client st i \<noteq> None \<Longrightarrow> \<exists>ns st'. cancel_clients inst is st = Some (ns, st') \<and> ps_positions st' = ps_positions st"
proof (induction "is" arbitrary: st)
  case (Cons i "is")
  then obtain c where c: "ps_client st i = Some c" by auto
  obtain ns st1 where one: "cancel_orders inst i (OrderIDs c) st = Some (ns, st1)" "ps_positions st1 = ps_positions st"
    using cancel_orders_total [of st i inst "OrderIDs c"] c by auto
  have "\<forall>j\<in>set is. ps_client st1 j \<noteq> None" using Cons.prems quiet_clients [OF quiet_cancel_orders [OF one(1)]] by simp
  from Cons.IH [OF this] obtain ns' st' where "cancel_clients inst is st1 = Some (ns', st')" "ps_positions st' = ps_positions st1" by blast
  with one c show ?case by (simp add: cancelClientOrdersOnBook_def)
qed simp

text \<open>C20: An expired contract without a settlement price waits and never panics. It stays listed as pending, each
  attempt is counted, no position changes, and no asset total does; the first attempt cancels the
  resting orders, every later one changes nothing but the count.\<close>

theorem expiry_waits_for_price:
  assumes listed: "xs_future xs = Some f" and price: "fst (SettlementPrice f) = None"
    and ok: "ledger_ok (ps_ledger (xs_perp xs))" "conserved (ps_ledger (xs_perp xs))"
  shows "\<exists>xs'. settleExpiredInstrument requireExact now xs = Some xs' \<and> xs_future xs' = Some f \<and>
    map_option ep_Attempts (xs_pending xs') = Some (case xs_pending xs of None \<Rightarrow> 1 | Some w \<Rightarrow> u64 (ep_Attempts w + 1)) \<and>
    ps_positions (xs_perp xs') = ps_positions (xs_perp xs) \<and> VerifyConservation (ps_ledger (xs_perp xs')) = [] \<and>
    held (ps_ledger (xs_perp xs')) = held (ps_ledger (xs_perp xs)) \<and>
    (xs_pending xs \<noteq> None \<longrightarrow> xs_perp xs' = xs_perp xs \<and> xs_notices xs' = xs_notices xs)"
proof -
  have f: "SettlementPrice f = (None, f)" using price SettlementPrice_same(2) [of f "snd (SettlementPrice f)"] by (metis prod.collapse)
  have clean: "VerifyConservation (ps_ledger (xs_perp xs)) = []" by (rule conserved_verifies [OF ok])
  show ?thesis
  proof (cases "xs_pending xs")
    case (Some w)
    then show ?thesis using clean listed by (simp add: settleExpiredInstrument_def f)
  next
    case None
    let ?is = "mkeys (Clients (ps_ledger (xs_perp xs)))"
    have "\<forall>i\<in>set ?is. ps_client (xs_perp xs) i \<noteq> None" by (simp add: mkeys_def map_of_eq_None_iff del: not_None_eq)
    from cancel_clients_total [OF this, of f] obtain ns st where c: "cancel_clients f ?is (xs_perp xs) = Some (ns, st)"
      "ps_positions st = ps_positions (xs_perp xs)" by blast
    from quietD(1) [OF quiet_cancel_clients [OF c(1)] ok] conserved_verifies
    have "VerifyConservation (ps_ledger st) = []" "held (ps_ledger st) = held (ps_ledger (xs_perp xs))" by auto
    then show ?thesis using None c listed by (simp add: settleExpiredInstrument_def f)
  qed
qed

theorem expiry_waits_for_price_witness:
  "\<exists>xs'. settleExpiredInstrument True 1000 ((expiry_sample 500 60)\<lparr>xs_future := Some (NewExpiringFutures ''P'' ''BTC'' ''USD'' 10 1 1 1 1000)\<rparr>) = Some xs' \<and>
     map_option ep_Attempts (xs_pending xs') = Some 1 \<and> held (ps_ledger (xs_perp xs')) = held (ps_ledger (xs_perp (expiry_sample 500 60)))"
proof -
  have price: "fst (SettlementPrice (NewExpiringFutures ''P'' ''BTC'' ''USD'' 10 1 1 1 1000)) = None" by code_simp
  have pending: "xs_pending (expiry_sample 500 60) = None" by (simp add: expiry_sample_def)
  show ?thesis
    using expiry_waits_for_price [of "(expiry_sample 500 60)\<lparr>xs_future := Some (NewExpiringFutures ''P'' ''BTC'' ''USD'' 10 1 1 1 1000)\<rparr>", OF _ price, of True 1000]
      expiry_sample_ok by (auto simp: pending)
qed

section \<open>The preflight counts released margin as cash\<close>

text \<open>The preflight of an expiry is stricter than the settlement. It adds the position's margin to the simulated
  balance, although releasing margin only lowers the reservation. A contract whose settlement fits
  every balance is then refused with a panic when balance and margin together do not fit in 64 bits.\<close>

theorem expiry_preflight_counts_margin:
  "expiry_preflight expiry_sample_future 31 (PositionsForFunding ''P'' (ps_positions (xs_perp (expiry_sample (5 * 10 ^ 18) (5 * 10 ^ 18)))))
     (xs_perp (expiry_sample (5 * 10 ^ 18) (5 * 10 ^ 18))) = None \<and>
   settleExpiredInstrument True 1000 (expiry_sample (5 * 10 ^ 18) (5 * 10 ^ 18)) = None \<and>
   map_option expiry_view (settleExpiredInstrument False 1000 (expiry_sample (5 * 10 ^ 18) (5 * 10 ^ 18))) =
     Some ([(7, [(''USD'', 5 * 10 ^ 18)], [(''USD'', 0)]), (9, [(''USD'', 292)], [(''USD'', 0)])], [(''USD'', 8)],
       [\<lparr>fc_client = 9, fc_OrderID = 21, fc_RemainingQty = 5\<rparr>])"
  by (intro conjI; code_simp)

section \<open>Passes of the expiry loop\<close>

lemma reference_between:
  assumes "bookReferencePriceLocked (Some b) = Some price" "Best (Bids b) = Some bid" "Best (Asks b) = Some ask" "is_i64 bid" "is_i64 ask"
  shows "bid \<le> price \<and> price \<le> ask"
  using assms Midpoint_between [of bid ask] by (auto simp: bookReferencePriceLocked_def bookMidPriceLocked_def split: if_splits)

lemma observed_has_price: "fst (SettlementPrice (ObserveSettlement p t f)) \<noteq> None"
  by (auto simp: SettlementPrice_def settlementPrice_def settlementPriceWith_def ObserveSettlement_def observe_price_def
      split: option.splits)

lemma ObserveSettlement_same [simp]:
  "expiryNano (ObserveSettlement p t f) = expiryNano f" "sp_quote (ObserveSettlement p t f) = sp_quote f"
  "sp_basePrecision (ObserveSettlement p t f) = sp_basePrecision f"
  by (simp_all add: ObserveSettlement_def)

text \<open>A due contract whose underlying has a price is settled by the pass that samples it, never left pending; before its
  expiry a pass changes nothing but the observations.\<close>

theorem due_contract_settles:
  assumes "xs_future xs = Some f" "derivativeUnderlyingPrice books indexPrice f = Some price"
    and "expiry_tick requireExact books indexPrice now xs = Some xs'"
  shows "if now \<ge> expiryNano f then xs_future xs' = None \<and> xs_pending xs' = None
    else xs' = xs\<lparr>xs_future := Some (ObserveSettlement price now f)\<rparr>"
  using assms observed_has_price [of price now f]
  by (cases "SettlementPrice (ObserveSettlement price now f)")
    (auto simp: expiry_tick_def UpdateDerivativeMark_def CheckExpiry_def settleExpiredInstrument_def split: if_splits)

end
