(* ===== verification/Liquidation_Safety.thy ===== *)
theory Liquidation_Safety
  imports Liquidation Expiry_Safety Perp_Margin
begin

text \<open>A liquidation moves money and creates none: closing at the market, the clearance fee, the repayment and the
  cover of a deficit together keep the cash of all accounts and the venue plus the exact value of the
  open contracts. The account is left with a balance that is not negative.\<close>

section \<open>Payments between an account and the insurance fund\<close>

lemma set_ledger_simps [simp]:
  "lq_ledger (set_ledger l lq) = l" "ps_positions (lq_perp (set_ledger l lq)) = ps_positions (lq_perp lq)"
  "ss_book (ps_core (lq_perp (set_ledger l lq))) = ss_book (ps_core (lq_perp lq))"
  by (simp_all add: set_ledger_def)

lemma notify_simps [simp]: "lq_perp (notify ev lq) = lq_perp lq"
  by (simp add: notify_def)

lemma fund_payment:
  assumes l: "ledger_ok l" "conserved l" and c: "map_of (Clients l) i = Some c" and q: "quote \<noteq> ''''"
    and x: "is_i64 x" "is_i64 (- x)" "is_i64 (mget (PerpBalances c) quote - x)"
    and move: "moveVenueBalance VenueInsuranceFund quote x sy
      (set_client i (c\<lparr>PerpBalances := mput (PerpBalances c) quote (mget (PerpBalances c) quote - x)\<rparr>) l) = Some l2"
  defines "l' \<equiv> logBalanceChange [perpDelta quote (mget (PerpBalances c) quote) (mget (PerpBalances c) quote - x)] l2"
  shows "ledger_ok l' \<and> conserved l'" "held l' = held l"
    "map_of (Clients l') i = Some (c\<lparr>PerpBalances := mput (PerpBalances c) quote (mget (PerpBalances c) quote - x)\<rparr>)"
proof -
  let ?b = "mget (PerpBalances c) quote" and ?c = "c\<lparr>PerpBalances := mput (PerpBalances c) quote (mget (PerpBalances c) quote - x)\<rparr>"
  let ?cs = "[perpDelta quote ?b (?b - x)]"
  have m: "client_maps ?c" using l(1) c x(3) by (simp add: ledger_ok_def client_maps_def values_ok_mput)
  have g: "conserved_by (\<lambda>_. 0) l" using l(2) by (simp add: conserved_iff)
  have o: "old_worth l i a = worth a c" for a by (simp add: old_worth_def c)
  have w: "worth a ?c = worth a c - (if a = quote then x else 0)" for a by (simp add: worth_def)
  note S = set_client_step [OF l(1) g m, of i]
  note M = moveVenueBalance_step [OF S(1,3) x(1) move]
  have cs: "deltas_ok ?cs" "effect ?cs a = (if a = quote then - x else 0)" for a
    using i64_id [OF x(2)] x(2) by (simp_all add: deltas_ok_def perpDelta_def)
  note L = log_step [OF conjunct1 [OF M] conjunct1 [OF conjunct2 [OF M]] cs(1)]
  have h: "held l2 a = held l a" for a using M S(2) [of a] q by (auto simp: o w)
  show "held l' = held l" using L(2) h by (auto simp: l'_def)
  have "(\<lambda>a. 0 - old_worth l i a + worth a ?c - effect ?cs a) = (\<lambda>_. 0)" by (rule ext, subst cs(2)) (simp add: o w)
  with L(3) have "conserved l'" by (simp add: l'_def conserved_iff del: effect_simps)
  with L(1) show "ledger_ok l' \<and> conserved l'" by (simp add: l'_def)
  show "map_of (Clients l') i = Some ?c" using M by (simp add: l'_def logBalanceChange_def set_client_def)
qed

section \<open>After the close\<close>

text \<open>What is free of an account's wallet and its reservations fit in 64 bits.\<close>

definition wallet_fits :: "asset \<Rightarrow> Client \<Rightarrow> bool" where
  "wallet_fits quote c \<longleftrightarrow> 0 \<le> mget (PerpReserved c) quote \<and> MinInt64 < mget (PerpBalances c) quote - mget (PerpReserved c) quote"

text \<open>A step that only moves money: no total changes, positions and book stay, and the account's wallet fits.\<close>

definition moves_money :: "asset \<Rightarrow> uint64 \<Rightarrow> liquidation_state \<Rightarrow> liquidation_state \<Rightarrow> bool" where
  "moves_money quote i lq lq' \<longleftrightarrow> ledger_ok (lq_ledger lq') \<and> conserved (lq_ledger lq') \<and> held (lq_ledger lq') = held (lq_ledger lq) \<and>
     ps_positions (lq_perp lq') = ps_positions (lq_perp lq) \<and> ss_book (ps_core (lq_perp lq')) = ss_book (ps_core (lq_perp lq)) \<and>
     (\<exists>c'. lq_client lq' i = Some c' \<and> wallet_fits quote c')"

lemma available_exact:
  assumes "wallet_fits quote c" "is_i64 (mget (PerpBalances c) quote)"
  shows "PerpAvailable c quote = mget (PerpBalances c) quote - mget (PerpReserved c) quote"
  unfolding PerpAvailable_def using assms by (intro i64_id) (auto simp: wallet_fits_def is_i64_def)

text \<open>Paying at most what is free keeps the wallet in range and its reservations covered.\<close>

lemma pay_available:
  assumes "wallet_fits quote c" "is_i64 (mget (PerpBalances c) quote)" "0 < x" "x \<le> PerpAvailable c quote"
  shows "is_i64 x" "is_i64 (- x)" "mget (PerpReserved c) quote \<le> mget (PerpBalances c) quote - x"
    "is_i64 (mget (PerpBalances c) quote - x)" "i64 (mget (PerpBalances c) quote - x) = mget (PerpBalances c) quote - x"
    "MinInt64 < mget (PerpBalances c) quote - x - mget (PerpReserved c) quote"
proof -
  show "mget (PerpReserved c) quote \<le> mget (PerpBalances c) quote - x" using assms available_exact [OF assms(1,2)] by simp
  with assms show "is_i64 x" "is_i64 (- x)" "is_i64 (mget (PerpBalances c) quote - x)" "MinInt64 < mget (PerpBalances c) quote - x - mget (PerpReserved c) quote"
    by (auto simp: wallet_fits_def is_i64_def)
  then show "i64 (mget (PerpBalances c) quote - x) = mget (PerpBalances c) quote - x" by (simp add: i64_id)
qed

lemma charge_moves:
  assumes run: "chargeClearanceFee env i z price lq = Some lq'" and l: "ledger_ok (lq_ledger lq)" "conserved (lq_ledger lq)"
    and c: "lq_client lq i = Some c" "wallet_fits (pe_quote (le_perp env)) c" and q: "pe_quote (le_perp env) \<noteq> ''''"
  shows "moves_money (pe_quote (le_perp env)) i lq lq'"
proof (cases "lq' = lq")
  case False
  let ?q = "pe_quote (le_perp env)" and ?b = "mget (PerpBalances c) (pe_quote (le_perp env))"
  have b: "is_i64 ?b" using l(1) c(1) by (auto simp: ledger_ok_def client_maps_def intro: values_ok_mget)
  from run False c(1) obtain n where n: "AbsMulDiv z price (pe_precision (le_perp env)) = Some n" "0 < le_feeBps env"
    by (auto simp: chargeClearanceFee_def split: if_splits option.splits)
  define fee where "fee = min (PerpAvailable c ?q) (i64 (n * le_feeBps env) sdiv 10000)"
  have "(if x > y then y else x) = min y x" for x y :: int by simp
  with run False c(1) n obtain l2 ev where fee: "0 < fee" "fee \<le> PerpAvailable c ?q"
    and m: "moveVenueBalance VenueInsuranceFund ?q fee (lq_symbol lq)
      (set_client i (c\<lparr>PerpBalances := mput (PerpBalances c) ?q (i64 (?b - fee))\<rparr>) (lq_ledger lq)) = Some l2"
    and lq': "lq' = notify ev (set_ledger (logBalanceChange [perpDelta ?q ?b (i64 (?b - fee))] l2) lq)"
    by (auto simp: chargeClearanceFee_def Let_def fee_def [symmetric] split: if_splits) (simp add: fee_def)
  note A = pay_available [OF c(2) b fee]
  note F = fund_payment [OF l c(1) q A(1,2,4) m [unfolded A(5)]]
  show ?thesis using lq' F A(5,6) c(2) by (auto simp: moves_money_def wallet_fits_def)
qed (use l c in \<open>auto simp: moves_money_def\<close>)

lemma repay_moves:
  assumes run: "repay_debt env i lq = Some lq'" and l: "ledger_ok (lq_ledger lq)" "conserved (lq_ledger lq)"
    and c: "lq_client lq i = Some c" "wallet_fits (pe_quote (le_perp env)) c"
  shows "moves_money (pe_quote (le_perp env)) i lq lq'"
proof (cases "lq' = lq")
  case False
  let ?q = "pe_quote (le_perp env)" and ?b = "mget (PerpBalances c) (pe_quote (le_perp env))" and ?d = "mget (Borrowed c) (pe_quote (le_perp env))"
  define x where "x = min ?d (PerpAvailable c ?q)"
  have cm: "client_maps c" using l(1) c(1) by (simp add: ledger_ok_def)
  then have b: "is_i64 ?b" and d: "0 \<le> ?d" "?d \<le> MaxInt64" by (auto simp: client_maps_def intro: values_ok_mget dest: debts_ok_mget)
  from run False c(1) have x: "0 < x" "x \<le> PerpAvailable c ?q" "x \<le> ?d"
    and lq': "lq' = set_ledger (logBalanceChange [perpDelta ?q ?b (i64 (?b - x)), borrowedDelta ?q ?d (i64 (?d - x))]
        (set_client i (c\<lparr>Borrowed := mput (Borrowed c) ?q (i64 (?d - x)),
           BorrowedSpot := mput (BorrowedSpot c) ?q (min (mget (BorrowedSpot c) ?q) (i64 (?d - x))),
           PerpBalances := mput (PerpBalances c) ?q (i64 (?b - x))\<rparr>) (lq_ledger lq))) lq"
    by (auto simp: repay_debt_def Let_def x_def split: if_splits)
  note A = pay_available [OF c(2) b x(1,2)]
  have e: "i64 (?d - x) = ?d - x" "i64 (- x) = - x" using d x A(2) by (auto simp: is_i64_def intro!: i64_id)
  let ?cs = "[perpDelta ?q ?b (?b - x), borrowedDelta ?q ?d (?d - x)]"
  define c' where "c' = c\<lparr>Borrowed := mput (Borrowed c) ?q (?d - x), BorrowedSpot := mput (BorrowedSpot c) ?q (min (mget (BorrowedSpot c) ?q) (?d - x)),
    PerpBalances := mput (PerpBalances c) ?q (?b - x)\<rparr>"
  have lq'': "lq' = set_ledger (logBalanceChange ?cs (set_client i c' (lq_ledger lq))) lq" unfolding lq' A(5) e c'_def ..
  have m': "client_maps c'" using cm A(4) d x by (simp add: client_maps_def c'_def values_ok_mput debts_ok_mput)
  have cs: "deltas_ok ?cs" "effect ?cs a = 0" for a
    using A(1,2) e(2) by (auto simp: deltas_ok_def perpDelta_def borrowedDelta_def is_i64_def)
  have w: "worth a c' = worth a c" for a by (simp add: worth_def c'_def)
  have o: "old_worth (lq_ledger lq) i a = worth a c" for a by (simp add: old_worth_def c(1))
  have ok: "ledger_ok (lq_ledger lq') \<and> conserved (lq_ledger lq')"
    unfolding lq'' set_ledger_simps by (rule log_client_step [OF l cs(1) m']) (simp only: o w cs(2) add_0_right)
  have g: "conserved_by (\<lambda>_. 0) (lq_ledger lq)" using l(2) by (simp add: conserved_iff)
  note sc = set_client_step [OF l(1) g m', of i]
  have h: "held (lq_ledger lq') = held (lq_ledger lq)"
    unfolding lq'' set_ledger_simps log_step(2) [OF sc(1,3) cs(1)] by (rule ext) (simp add: sc(2) o w)
  have cl: "lq_client lq' i = Some c'" unfolding lq'' by (simp add: logBalanceChange_def set_client_def)
  show ?thesis using ok h cl A(6) c(2) by (auto simp: moves_money_def wallet_fits_def lq'' c'_def)
qed (use l c in \<open>auto simp: moves_money_def\<close>)

lemma cover_moves:
  assumes run: "cover_deficit env i lq = Some (debt, lq')" and l: "ledger_ok (lq_ledger lq)" "conserved (lq_ledger lq)"
    and c: "lq_client lq i = Some c" "wallet_fits (pe_quote (le_perp env)) c" and q: "pe_quote (le_perp env) \<noteq> ''''"
  shows "moves_money (pe_quote (le_perp env)) i lq lq' \<and> debt = max 0 (- mget (PerpBalances c) (pe_quote (le_perp env))) \<and>
    (\<exists>c'. lq_client lq' i = Some c' \<and> 0 \<le> mget (PerpBalances c') (pe_quote (le_perp env)))"
proof (cases "mget (PerpBalances c) (pe_quote (le_perp env)) < 0")
  case True
  let ?q = "pe_quote (le_perp env)" and ?b = "mget (PerpBalances c) (pe_quote (le_perp env))"
  have b: "is_i64 ?b" using l(1) c(1) by (auto simp: ledger_ok_def client_maps_def intro: values_ok_mget)
  have n: "is_i64 (- ?b)" "0 \<le> mget (PerpReserved c) ?q" "mget (PerpReserved c) ?q < - MinInt64"
    using b True c(2) by (auto simp: is_i64_def wallet_fits_def)
  have e: "i64 (- ?b) = - ?b" "i64 (- (- ?b)) = ?b" using n(1) b by (simp_all add: i64_id)
  from run True c(1) obtain l2 where debt: "debt = - ?b"
    and m: "moveVenueBalance VenueInsuranceFund ?q ?b (lq_symbol lq)
      (set_client i (c\<lparr>PerpBalances := mput (PerpBalances c) ?q (?b - ?b)\<rparr>) (lq_ledger lq)) = Some l2"
    and lq': "lq' = set_ledger (logBalanceChange [perpDelta ?q ?b (?b - ?b)] l2) lq"
    by (auto simp: cover_deficit_def Let_def e i64_id [OF b])
  note F = fund_payment [OF l c(1) q b n(1) _ m]
  show ?thesis using F debt True lq' n(2,3) by (auto simp: moves_money_def wallet_fits_def is_i64_def)
qed (use run l c in \<open>auto simp: moves_money_def cover_deficit_def Let_def\<close>)

lemma after_close_moves:
  assumes run: "after_close env i z price q lq = Some lq'" and l: "ledger_ok (lq_ledger lq)" "conserved (lq_ledger lq)"
    and c: "lq_client lq i = Some c" "wallet_fits (pe_quote (le_perp env)) c" and quote: "pe_quote (le_perp env) \<noteq> ''''"
  shows "moves_money (pe_quote (le_perp env)) i lq lq' \<and> (\<exists>c'. lq_client lq' i = Some c' \<and> 0 \<le> mget (PerpBalances c') (pe_quote (le_perp env)))"
proof -
  from run obtain lq1 lq2 debt lq3 where S: "chargeClearanceFee env i q price lq = Some lq1" "repay_debt env i lq1 = Some lq2"
    "cover_deficit env i lq2 = Some (debt, lq3)" and p: "lq_perp lq' = lq_perp lq3"
    by (auto simp: after_close_def Let_def bind_eq_Some_conv)
  note M1 = charge_moves [OF S(1) l c quote]
  then obtain c1 where c1: "lq_client lq1 i = Some c1" "wallet_fits (pe_quote (le_perp env)) c1"
    and l1: "ledger_ok (lq_ledger lq1)" "conserved (lq_ledger lq1)" by (auto simp: moves_money_def)
  note M2 = repay_moves [OF S(2) l1 c1]
  then obtain c2 where c2: "lq_client lq2 i = Some c2" "wallet_fits (pe_quote (le_perp env)) c2"
    and l2: "ledger_ok (lq_ledger lq2)" "conserved (lq_ledger lq2)" by (auto simp: moves_money_def)
  note M3 = cover_moves [OF S(3) l2 c2 quote]
  show ?thesis using M1 M2 M3 by (auto simp: moves_money_def p)
qed

section \<open>The executions of the close\<close>

text \<open>A market order has nothing reserved: its settlement leaves the incoming order as it is.\<close>

lemma store_order_taker [simp]: "ss_taker (store_order True order core) = ss_taker core"
  by (simp add: store_order_def Let_def)

lemma drop_order_taker [simp]: "ss_taker (drop_order order core) = ss_taker core"
  by (simp add: drop_order_def Let_def)

lemma store_client_taker [simp]: "ss_taker (store_client i c core) = ss_taker core"
  by (simp add: store_client_def)

lemma cancelUnfunded_taker [simp]: "ss_taker (snd (cancelUnfundedFeeRemainder m senv True i c order core)) = ss_taker core"
  by (simp add: cancelUnfundedFeeRemainder_def Let_def split: prod.split)

lemma restoreFeeHeadroom_taker:
  assumes "restoreFeeHeadroom env True ord st = Some (ord', st')"
  shows "ss_taker (ps_core st') = ss_taker (ps_core st)"
proof (cases "st' = st")
  case False
  with assms obtain order c where ord: "ord = Some order" and c: "ps_client st (ClientID order) = Some c"
    by (auto simp: restoreFeeHeadroom_def Let_def split: option.splits if_splits)
  obtain o1 core where x: "cancelUnfundedFeeRemainder True (as_spot env) True (ClientID order) c order (ps_core st) = (o1, core)" by fastforce
  then have "ss_taker core = ss_taker (ps_core st)" using cancelUnfunded_taker [of True "as_spot env" "ClientID order" c order "ps_core st"] by simp
  then show ?thesis using assms False by (auto simp: restoreFeeHeadroom_def ord c x Let_def split: if_splits fee_result.splits)
qed simp

lemma restore_foreign_taker: "restore_foreign env True ord st = Some st' \<Longrightarrow> ss_taker (ps_core st') = ss_taker (ps_core st)"
  by (auto simp: restore_foreign_def restoreForeignFeeReservation_def Let_def split: option.splits if_splits fee_result.splits prod.splits)

lemma market_restores:
  "Type order = Market \<Longrightarrow> restoreFeeHeadroom env b (Some order) st = Some (Some order, st)"
  "Type order = Market \<Longrightarrow> restore_foreign env b (Some order) st = Some st"
  "Type order = Market \<Longrightarrow> releaseOrderMargin env b (Some order) i st = Some (Some order, st)"
  by (simp_all add: restoreFeeHeadroom_def restore_foreign_def restoreForeignFeeReservation_def releaseOrderMargin_def Let_def)

lemma settlePositionMargin_taker:
  assumes "settlePositionMargin env u d q st = Some st'"
  shows "ss_taker (ps_core st') = ss_taker (ps_core st)"
proof -
  have release: "ss_taker (ps_core y) = ss_taker (ps_core x)" if "release_closed env u d q x = Some y" for x y
    using that locked_on_client(3) by (fastforce simp: release_closed_def ctx_ReleasePerp_def split: if_splits option.splits)
  have reserve: "ss_taker (ps_core y) = ss_taker (ps_core x)" if "reserve_opened env u d q x = Some y" for x y
    using that locked_on_client(3) by (fastforce simp: reserve_opened_def ctx_ReservePerp_def split: if_splits option.splits)
  from assms show ?thesis by (auto simp: settlePositionMargin_def bind_eq_Some_conv release reserve)
qed

lemma updatePosition_precisions: "updatePosition i sy q p s ps pm = Some (pm', d, r) \<Longrightarrow> precisions pm' = precisions pm"
  by (auto simp: updatePosition_def Let_def split: option.splits if_splits)

text \<open>What a fill against a market order leaves alone, and the two position updates it makes.\<close>

definition fill_shape :: "Execution \<Rightarrow> perp_state \<Rightarrow> perp_state \<Rightarrow> bool" where
  "fill_shape e st st' \<longleftrightarrow> ss_taker (ps_core st') = ss_taker (ps_core st) \<and> Symbol (ss_book (ps_core st')) = Symbol (ss_book (ps_core st)) \<and>
    precisions (ps_positions st') = precisions (ps_positions st) \<and>
    (\<exists>pm1 pm2 td md x y ps. updatePosition (TakerClientID e) (Symbol (ss_book (ps_core st))) (ExecQty e) (ExecPrice e) (Side (ss_taker (ps_core st)))
       (PositionSide (ss_taker (ps_core st))) (ps_positions st) = Some (pm1, td, x) \<and>
     updatePosition (MakerClientID e) (Symbol (ss_book (ps_core st))) (ExecQty e) (ExecPrice e) (MakerSide e) ps pm1 = Some (pm2, md, y) \<and>
     accounting (ps_positions st') = accounting pm2)"

lemma fill_shape_quiet:
  "fill_shape e st a \<Longrightarrow> quiet a b \<Longrightarrow> ss_taker (ps_core b) = ss_taker (ps_core a) \<Longrightarrow> fill_shape e st b"
  using quietD(3,5,6) [of a b] unfolding fill_shape_def by presburger

lemma Settle_shape:
  assumes run: "Settle env e ps t m mo st = Some (r, mo', st')" and market: "Type (ss_taker (ps_core st)) = Market"
  shows "fill_shape e st st'"
proof -
  let ?T = "ss_taker (ps_core st)"
  obtain tu mu pm1 pm2 td md tAcc mAcc where up: "updatePosition (TakerClientID e) (Symbol (ss_book (ps_core st))) (ExecQty e) (ExecPrice e) (Side ?T)
       (PositionSide ?T) (ps_positions st) = Some (pm1, td, tAcc)"
    "updatePosition (MakerClientID e) (Symbol (ss_book (ps_core st))) (ExecQty e) (ExecPrice e) (MakerSide e) ps pm1 = Some (pm2, md, mAcc)"
    and money: "settle_money env e tu mu t m td md tAcc mAcc mo (st\<lparr>ps_positions := pm2\<rparr>) = Some (mo', sr_TakerPnL r, sr_MakerPnL r, st')"
    by (rule Settle_steps [OF run])
  obtain a1 a2 a3 a4 a5 a6 o1 where M: "releaseOrderMargin env False (Some (ss_taker (ps_core (st\<lparr>ps_positions := pm2\<rparr>)))) (TakerClientID e)
        (st\<lparr>ps_positions := pm2\<rparr>) = Some (o1, a1)"
    "releaseOrderMargin env True mo (MakerClientID e) a1 = Some (mo', a2)"
    "settlePositionMargin env tu td (calcClosedQty (OldSize td) (ExecQty e) (pu_tradeSide tu)) a2 = Some a3"
    "settlePositionMargin env mu md (calcClosedQty (OldSize md) (ExecQty e) (pu_tradeSide mu)) a3 = Some a4"
    "settleSide env tu td tAcc t a4 = Some (sr_TakerPnL r, a5)" "settleSide env mu md mAcc m a5 = Some (sr_MakerPnL r, a6)"
    "recordSettlementFees (pe_quote env) t m a6 = Some st'" by (rule settle_money_steps [OF money])
  have a1: "a1 = st\<lparr>ps_positions := pm2\<rparr>" using M(1) market market_restores(3) [of ?T] by simp
  have q: "quiet a1 a4"
    using quiet_releaseOrderMargin [OF M(2)] quiet_settlePositionMargin [OF M(3)] quiet_settlePositionMargin [OF M(4)] by (blast intro: quiet_trans)
  have side: "ss_book (ps_core y) = ss_book (ps_core x) \<and> ps_positions y = ps_positions x" if "settleSide env u d acc f x = Some (p, y)" for u d acc f x p y
    using that by (auto simp: settleSide_def Let_def split: option.splits)
  have fees: "ss_book (ps_core st') = ss_book (ps_core a6) \<and> ps_positions st' = ps_positions a6"
    using M(7) by (auto simp: recordSettlementFees_def ctx_RecordFeeRevenue_def Let_def bind_eq_Some_conv split: if_splits)
  have "ss_taker (ps_core st') = ?T"
    using releaseOrderMargin_taker(1) [OF M(2)] settlePositionMargin_taker [OF M(3)] settlePositionMargin_taker [OF M(4)]
      settleSide_margin [OF M(5)] settleSide_margin [OF M(6)] recordSettlementFees_margin [OF M(7)] by (simp add: a1)
  moreover have "Symbol (ss_book (ps_core st')) = Symbol (ss_book (ps_core st))" "precisions (ps_positions st') = precisions (ps_positions st)"
    "accounting (ps_positions st') = accounting pm2"
    using quietD(3,5,6) [OF q] side [OF M(5)] side [OF M(6)] fees up [THEN updatePosition_precisions] by (simp_all add: a1)
  ultimately show ?thesis using up unfolding fill_shape_def by blast
qed

lemma perp_fill_frame:
  assumes run: "handleExecution_perp env pl e st = Some (out, st')" and market: "Type (ss_taker (ps_core st)) = Market"
  shows "fill_shape e st st'"
proof -
  from run obtain ps t m r st5 where s: "settleExecution_perp env e ps t m st = Some (r, st5)"
    and st': "ss_taker (ps_core st') = ss_taker (ps_core st5)" "Symbol (ss_book (ps_core st')) = Symbol (ss_book (ps_core st5))"
      "ps_positions st' = ps_positions st5"
    by (auto simp: handleExecution_perp_def createTrade_def Let_def split: if_splits)
  from s obtain mo st1 ot st2 mo' st3 st4 where S: "Settle env e ps t m (FindOrder (ss_book (ps_core st)) (MakerOrderID e)) st = Some (r, mo, st1)"
    "restoreFeeHeadroom env False (Some (ss_taker (ps_core st1))) st1 = Some (ot, st2)" "restoreFeeHeadroom env True mo st2 = Some (mo', st3)"
    "restore_foreign env False (Some (ss_taker (ps_core st3))) st3 = Some st4" "restore_foreign env True mo' st4 = Some st5"
    by (auto simp: settleExecution_perp_def bind_eq_Some_conv)
  note F = Settle_shape [OF S(1) market]
  then have t1: "Type (ss_taker (ps_core st1)) = Market" using market by (simp add: fill_shape_def)
  then have st2: "st2 = st1" using S(2) market_restores(1) by simp
  have t3: "ss_taker (ps_core st3) = ss_taker (ps_core st1)" using restoreFeeHeadroom_taker [OF S(3)] st2 by simp
  then have st4: "st4 = st3" using S(4) t1 market_restores(2) by simp
  have "fill_shape e st st3" by (rule fill_shape_quiet [OF F quiet_restoreFeeHeadroom [OF S(3) [unfolded st2]] t3])
  from fill_shape_quiet [OF this quiet_restore_foreign [OF S(5) [unfolded st4]] restore_foreign_taker [OF S(5) [unfolded st4]]]
  show ?thesis by (simp add: fill_shape_def st')
qed

text \<open>A fill moves the taker's position by the quantity it trades.\<close>

lemma update_size:
  assumes ok: "pm_ok pm" and P: "0 < mget (precisions pm) sy" and q: "is_i64 q" and run: "updatePosition i sy q p s ps pm = Some (pm', d, r)"
  shows "acc_size (acc_at (i, sy, ps) pm') = acc_size (acc_at (i, sy, ps) pm) + signed_qty s q" "k \<noteq> (i, sy, ps) \<Longrightarrow> acc_at k pm' = acc_at k pm"
    "pm_ok pm'" "precisions pm' = precisions pm"
proof -
  have "PosSize (pos_at (i, sy, ps) pm) = acc_size (acc_at (i, sy, ps) pm)" using pm_ok_at [OF ok, of "(i, sy, ps)"] by (simp add: exact_at_def)
  with updatePosition_value [OF ok P q run] updatePosition_margin(7) [OF ok P q run]
  show "acc_size (acc_at (i, sy, ps) pm') = acc_size (acc_at (i, sy, ps) pm) + signed_qty s q" "k \<noteq> (i, sy, ps) \<Longrightarrow> acc_at k pm' = acc_at k pm"
    by (auto simp: acc_at_def)
  show "pm_ok pm'" "precisions pm' = precisions pm" using exact_total_update [OF ok P q run] by auto
qed

lemma fill_size:
  assumes run: "handleExecution_perp env pl e st = Some (out, st')" and market: "Type (ss_taker (ps_core st)) = Market"
    and ok: "pm_ok (ps_positions st)" "0 < mget (precisions (ps_positions st)) (Symbol (ss_book (ps_core st)))" "is_i64 (ExecQty e)"
    and ne: "TakerClientID e \<noteq> MakerClientID e"
    and k: "k = (TakerClientID e, Symbol (ss_book (ps_core st)), PositionSide (ss_taker (ps_core st)))"
  shows "acc_size (acc_at k (ps_positions st')) = acc_size (acc_at k (ps_positions st)) + signed_qty (Side (ss_taker (ps_core st))) (ExecQty e)"
proof -
  from perp_fill_frame [OF run market, unfolded fill_shape_def] obtain pm1 pm2 td md x y ps where
    up: "updatePosition (TakerClientID e) (Symbol (ss_book (ps_core st))) (ExecQty e) (ExecPrice e) (Side (ss_taker (ps_core st)))
       (PositionSide (ss_taker (ps_core st))) (ps_positions st) = Some (pm1, td, x)"
    "updatePosition (MakerClientID e) (Symbol (ss_book (ps_core st))) (ExecQty e) (ExecPrice e) (MakerSide e) ps pm1 = Some (pm2, md, y)"
    and acc: "accounting (ps_positions st') = accounting pm2" by blast
  note U = update_size [OF ok up(1)]
  have "0 < mget (precisions pm1) (Symbol (ss_book (ps_core st)))" using ok(2) U(4) by simp
  note V = update_size [OF U(3) this ok(3) up(2)]
  have "acc_at k (ps_positions st') = acc_at k pm1" using V(2) [of k] ne by (simp add: acc_at_def acc k)
  with U(1) show ?thesis by (simp add: k)
qed

section \<open>All executions of the close\<close>

text \<open>No balance of a party overflows in any of the fills.\<close>

definition party_fits :: "perp_env \<Rightarrow> uint64 \<Rightarrow> fillSide \<Rightarrow> perp_state \<Rightarrow> bool" where
  "party_fits env i side st = (case ps_client st i of None \<Rightarrow> True | Some c \<Rightarrow> cash_fits (pe_quote env) (fs_realizedPnL side) (fs_fee side) c)"

fun fills_fit :: "perp_env \<Rightarrow> plannedSpotExecution list \<Rightarrow> Execution list \<Rightarrow> perp_state \<Rightarrow> bool" where
  "fills_fit env (f # fs) (e # es) st =
     (case handleExecution_perp env f e st of
        None \<Rightarrow> True
      | Some (out, st') \<Rightarrow> party_fits env (TakerClientID e) (out_taker out) st \<and> party_fits env (MakerClientID e) (out_maker out) st \<and>
          fills_fit env fs es st')"
| "fills_fit env fs es st = True"

text \<open>What the state of a book, its accounts and its positions must satisfy, and the quantity that never changes.\<close>

definition sound :: "string \<Rightarrow> int64 \<Rightarrow> perp_state \<Rightarrow> bool" where
  "sound sy P st \<longleftrightarrow> ledger_ok (ps_ledger st) \<and> conserved (ps_ledger st) \<and> pm_ok (ps_positions st) \<and>
     mget (precisions (ps_positions st)) sy = P \<and> 0 < P \<and> Symbol (ss_book (ps_core st)) = sy"

definition same_wealth :: "asset \<Rightarrow> string \<Rightarrow> int64 \<Rightarrow> perp_state \<Rightarrow> perp_state \<Rightarrow> bool" where
  "same_wealth quote sy P st st' \<longleftrightarrow> (\<forall>a. a \<noteq> quote \<longrightarrow> held (ps_ledger st') a = held (ps_ledger st) a) \<and>
     P * held (ps_ledger st') quote + exact_total sy P (ps_positions st') = P * held (ps_ledger st) quote + exact_total sy P (ps_positions st)"

lemma same_wealth_refl [simp]: "same_wealth quote sy P st st"
  by (simp add: same_wealth_def)

lemma same_wealth_trans: "same_wealth quote sy P a b \<Longrightarrow> same_wealth quote sy P b c \<Longrightarrow> same_wealth quote sy P a c"
  by (simp add: same_wealth_def)

lemma quiet_sound: "quiet st st' \<Longrightarrow> sound sy P st \<Longrightarrow> sound sy P st' \<and> same_wealth quote sy P st st'"
  using quietD [of st st'] by (auto simp: sound_def same_wealth_def exact_total_def)

lemma process_conserves:
  assumes "processExecutions_perp env fs es st = Some (outs, st')" "fills_fit env fs es st" "sound sy P st"
    and "Type (ss_taker (ps_core st)) = Market" and "pe_quote env \<noteq> ''''"
    and "\<forall>e\<in>set es. is_i64 (ExecQty e) \<and> 0 < ExecQty e \<and> TakerClientID e = i \<and> MakerClientID e \<noteq> i \<and>
      MakerSide e = oppositeSide (Side (ss_taker (ps_core st)))"
  shows "sound sy P st' \<and> same_wealth (pe_quote env) sy P st st' \<and>
    acc_size (acc_at (i, sy, PositionSide (ss_taker (ps_core st))) (ps_positions st')) =
      acc_size (acc_at (i, sy, PositionSide (ss_taker (ps_core st))) (ps_positions st)) +
      (if Side (ss_taker (ps_core st)) = Sell then - (\<Sum>e\<leftarrow>es. ExecQty e) else (\<Sum>e\<leftarrow>es. ExecQty e))"
  using assms
proof (induction env fs es st arbitrary: outs rule: processExecutions_perp.induct)
  case (3 env f fs e es st)
  let ?T = "ss_taker (ps_core st)"
  from "3.prems"(1) obtain out st1 outs' where h: "handleExecution_perp env f e st = Some (out, st1)" "fill_matches f e"
    and rest: "processExecutions_perp env fs es st1 = Some (outs', st')" by (auto simp: bind_eq_Some_conv split: if_splits)
  then obtain ct cm where c: "ps_client st (TakerClientID e) = Some ct" "ps_client st (MakerClientID e) = Some cm"
    by (auto simp: handleExecution_perp_def split: if_splits)
  have fit: "cash_fits (pe_quote env) (fs_realizedPnL (out_taker out)) (fs_fee (out_taker out)) ct"
    "cash_fits (pe_quote env) (fs_realizedPnL (out_maker out)) (fs_fee (out_maker out)) cm" "fills_fit env fs es st1"
    using "3.prems"(2) h(1) c by (simp_all add: party_fits_def)
  note F = perp_fill_frame [OF h(1) "3.prems"(4), unfolded fill_shape_def]
  have s: "ledger_ok (ps_ledger st)" "conserved (ps_ledger st)" "pm_ok (ps_positions st)"
    "P = mget (precisions (ps_positions st)) (Symbol (ss_book (ps_core st)))" "0 < P" "Symbol (ss_book (ps_core st)) = sy"
    using "3.prems"(3) by (auto simp: sound_def)
  have e: "is_i64 (ExecQty e)" "0 < ExecQty e" "TakerClientID e = i" "TakerClientID e \<noteq> MakerClientID e" "MakerSide e = oppositeSide (Side ?T)"
    using "3.prems"(6) by auto
  have one: "sound sy P st1 \<and> same_wealth (pe_quote env) sy P st st1"
    using handle_conserves [OF h(1) s(1-5) e(1,2,4,5) "3.prems"(5) c(1) fit(1) c(2) fit(2)] F s(4-6)
    by (auto simp: sound_def same_wealth_def)
  have "signed_qty (Side ?T) (ExecQty e) = (if Side ?T = Sell then - ExecQty e else ExecQty e)"
    unfolding signed_qty_def using e(1,2) by (auto simp: is_i64_def intro!: i64_id)
  then have size: "acc_size (acc_at (i, sy, PositionSide ?T) (ps_positions st1)) =
      acc_size (acc_at (i, sy, PositionSide ?T) (ps_positions st)) + (if Side ?T = Sell then - ExecQty e else ExecQty e)"
    using fill_size [OF h(1) "3.prems"(4) s(3) _ e(1,4) refl] s(4-6) e(3) by simp
  have "sound sy P st' \<and> same_wealth (pe_quote env) sy P st1 st' \<and>
    acc_size (acc_at (i, sy, PositionSide ?T) (ps_positions st')) = acc_size (acc_at (i, sy, PositionSide ?T) (ps_positions st1)) +
      (if Side ?T = Sell then - (\<Sum>e\<leftarrow>es. ExecQty e) else (\<Sum>e\<leftarrow>es. ExecQty e))"
    using "3.IH" [OF _ h(1) refl rest fit(3)] one h(2) F "3.prems"(4-6) by simp
  with one size show ?case using same_wealth_trans by auto
qed auto

section \<open>Closing at the market\<close>

lemma CancelOrder_side: "BookSide (fst (CancelOrder b i)) = BookSide b"
  by (simp add: CancelOrder_def Let_def UnlinkOrder_def split: option.split prod.split)

lemma drop_order_books:
  assumes "books_ok (Bids (ss_book core)) (Asks (ss_book core))"
  shows "books_ok (Bids (ss_book (drop_order order core))) (Asks (ss_book (drop_order order core)))"
  using assms CancelOrder_wf(1) CancelOrder_side by (auto simp: drop_order_def books_ok_def Let_def)

lemma cancel_orders_books:
  "cancel_orders inst i ids st = Some (ns, st') \<Longrightarrow> books_ok (Bids (ss_book (ps_core st))) (Asks (ss_book (ps_core st))) \<Longrightarrow>
   books_ok (Bids (ss_book (ps_core st'))) (Asks (ss_book (ps_core st')))"
proof (induction inst i ids st arbitrary: ns rule: cancel_orders.induct)
  case (2 inst i orderID ids st)
  show ?case
  proof (cases "\<exists>order. resting (ss_book (ps_core st)) orderID = Some order \<and> ClientID order = i")
    case False
    with 2 show ?thesis by (auto split: option.splits if_splits)
  next
    case True
    then obtain order where o: "resting (ss_book (ps_core st)) orderID = Some order" "ClientID order = i" by blast
    with "2.prems" obtain c where c: "ps_client st i = Some c" by (auto split: option.splits)
    let ?c = "RemoveOrder (fst (releaseReserved True inst c order)) orderID"
    let ?st = "st\<lparr>ps_core := drop_order order (store_client i ?c (ps_core st))\<rparr>"
    from "2.prems" o c obtain ns' where r: "cancel_orders inst i ids ?st = Some (ns', st')" by (auto simp: Let_def)
    have "books_ok (Bids (ss_book (ps_core ?st))) (Asks (ss_book (ps_core ?st)))"
      using drop_order_books [of "store_client i ?c (ps_core st)"] "2.prems"(2) by (simp add: store_client_def)
    with "2.IH"(3) [OF o(1) _ c refl refl r] o(2) show ?thesis by simp
  qed
qed simp

lemma quiet_removeMakerOrders:
  assumes "removeMakerOrders es \<lparr>sv_ledger = ps_ledger st, sv_book = ss_book (ps_core st), sv_nextOrderID = n\<rparr> = Some sv"
  shows "quiet st (st\<lparr>ps_core := (ps_core st)\<lparr>ss_ledger := sv_ledger sv, ss_book := sv_book sv\<rparr>\<rparr>)"
  using assms
proof (induction es arbitrary: st)
  case (Cons e es)
  show ?case
  proof (cases "MakerFilledQty e < MakerTotalQty e")
    case False
    with Cons.prems obtain c where c: "ps_client st (MakerClientID e) = Some c" by (auto simp: Let_def split: option.splits)
    define b where "b = (if MakerSide e = Buy then (ss_book (ps_core st))\<lparr>Bids := fst (RemoveFilledOrder (Bids (ss_book (ps_core st))) (MakerOrderID e))\<rparr>
      else (ss_book (ps_core st))\<lparr>Asks := fst (RemoveFilledOrder (Asks (ss_book (ps_core st))) (MakerOrderID e))\<rparr>)"
    let ?core = "store_client (MakerClientID e) (RemoveOrder c (MakerOrderID e)) (ps_core st)"
    let ?st = "st\<lparr>ps_core := ?core\<lparr>ss_book := b\<rparr>\<rparr>"
    have "quiet st ?st" by (rule quiet_core [OF quiet_store_client [OF c RemoveOrder_funds]]) (simp_all add: b_def store_client_def)
    moreover have "removeMakerOrders es \<lparr>sv_ledger = ps_ledger ?st, sv_book = ss_book (ps_core ?st), sv_nextOrderID = n\<rparr> = Some sv"
      using Cons.prems False c by (simp add: b_def store_client_def Let_def)
    from Cons.IH [OF this] have "quiet ?st (st\<lparr>ps_core := (ps_core st)\<lparr>ss_ledger := sv_ledger sv, ss_book := sv_book sv\<rparr>\<rparr>)"
      by (simp add: store_client_def)
    ultimately show ?thesis by (rule quiet_trans)
  qed (use Cons in simp)
qed auto

lemma member_le_positive_sum: "x \<in> set xs \<Longrightarrow> \<forall>y\<in>set xs. 0 \<le> f y \<Longrightarrow> f x \<le> (\<Sum>y\<leftarrow>xs. f y)" for f :: "'a \<Rightarrow> int"
proof (induction xs)
  case (Cons a xs)
  have "0 \<le> (\<Sum>y\<leftarrow>xs. f y)" using Cons.prems(2) by (intro sum_list_nonneg) auto
  with Cons show ?case by force
qed simp

lemma auction_type:
  "auction clock st st' \<Longrightarrow> Type (MTaker st') = Type (MTaker st) \<and> PositionSide (MTaker st') = PositionSide (MTaker st)"
  by (induction rule: auction.induct) (auto simp: fill_state_def Let_def)

text \<open>The executions of the price-time matcher.\<close>

lemma Match_executions:
  assumes ok: "books_ok bids asks" "order_sane t" and run: "Match clock bids asks t = Some r"
  shows "\<forall>e\<in>set (Executions r). is_i64 (ExecQty e) \<and> 0 < ExecQty e \<and> TakerClientID e = ClientID t \<and> MakerClientID e \<noteq> ClientID t \<and>
      MakerSide e = oppositeSide (Side t)"
    "Type (RTaker r) = Type t" "Side (RTaker r) = Side t" "PositionSide (RTaker r) = PositionSide t"
    "(\<Sum>e\<leftarrow>Executions r. ExecQty e) = FilledQty (RTaker r) - FilledQty t" "FilledQty (RTaker r) \<le> Qty t"
proof -
  obtain st where "Match clock bids asks t = Some (match_result bids asks t st)" and A: "auction clock (match_start bids asks t) st"
    and rdy: "match_ready (match_start bids asks t)" "match_ready st" by (rule Match_run [OF ok])
  with run have r: "r = match_result bids asks t st" by simp
  note T = auction_taker [OF A]
  have E: "\<forall>e\<in>set (Executions r). exec_ok (match_start bids asks t) e" using auction_execs [OF A rdy(1)] by (simp add: r)
  show sum: "(\<Sum>e\<leftarrow>Executions r. ExecQty e) = FilledQty (RTaker r) - FilledQty t" using auction_sum [OF A rdy(1)] by (simp add: r)
  show top: "FilledQty (RTaker r) \<le> Qty t" using rdy(2) T by (simp add: r match_ready_def order_sane_def)
  have "ExecQty e \<le> FilledQty (RTaker r) - FilledQty t" if "e \<in> set (Executions r)" for e
    unfolding sum [symmetric] by (rule member_le_positive_sum) (use that E in \<open>auto simp: exec_ok_def less_imp_le\<close>)
  then have "is_i64 (ExecQty e)" if "e \<in> set (Executions r)" for e
    using that E top ok(2) by (fastforce simp: exec_ok_def order_sane_def is_i64_def)
  then show "\<forall>e\<in>set (Executions r). is_i64 (ExecQty e) \<and> 0 < ExecQty e \<and> TakerClientID e = ClientID t \<and> MakerClientID e \<noteq> ClientID t \<and>
      MakerSide e = oppositeSide (Side t)"
    using E by (auto simp: exec_ok_def oppositeSide_def) (metis Side.exhaust)+
  show "Type (RTaker r) = Type t" "Side (RTaker r) = Side t" "PositionSide (RTaker r) = PositionSide t"
    using T auction_type [OF A] by (simp_all add: r finish_taker_def)
qed

text \<open>No balance overflows while the close settles, and the wallet of the closed account fits afterwards.\<close>

definition close_fits :: "liquidation_env \<Rightarrow> uint64 \<Rightarrow> Order \<Rightarrow> spotExecutionPlan \<Rightarrow> liquidation_state \<Rightarrow> bool" where
  "close_fits env i order plan lq \<longleftrightarrow>
     (case cancelClientOrdersOnBook (pe_inst (le_perp env)) i (lq_perp lq) of
        None \<Rightarrow> True
      | Some (_, st1) \<Rightarrow>
          (case le_matcher env (Bids (ss_book (ps_core st1))) (Asks (ss_book (ps_core st1))) order of
             None \<Rightarrow> True
           | Some result \<Rightarrow> fills_fit (le_perp env) (fills plan) (Executions result)
               (st1\<lparr>ps_core := (ps_core st1)\<lparr>ss_book := (ss_book (ps_core st1))\<lparr>Bids := RBids result, Asks := RAsks result\<rparr>, ss_taker := RTaker result\<rparr>\<rparr>))) \<and>
     (case close_at_market env i order plan lq of
        None \<Rightarrow> True
      | Some (_, _, lq') \<Rightarrow> (case lq_client lq' i of None \<Rightarrow> True | Some c \<Rightarrow> wallet_fits (pe_quote (le_perp env)) c))"

definition acc_size_at :: "pos_key \<Rightarrow> liquidation_state \<Rightarrow> int" where
  "acc_size_at k lq = acc_size (acc_at k (ps_positions (lq_perp lq)))"

lemma quiet_size: "quiet a b \<Longrightarrow> acc_at k (ps_positions b) = acc_at k (ps_positions a)"
  using quietD(5) [of a b] by (simp add: acc_at_def)

lemma after_close_client: "after_close env i z price q lq = Some lq' \<Longrightarrow> \<exists>c. lq_client lq i = Some c"
  by (auto simp: after_close_def chargeClearanceFee_def repay_debt_def bind_eq_Some_conv split: if_splits option.splits)

text \<open>The close itself: money and contracts are conserved, and the position moves towards zero by what was filled.\<close>

lemma close_conserves:
  assumes run: "close_at_market env i order plan lq = Some (price, filled, lq')" and fit: "close_fits env i order plan lq"
    and books: "books_ok (Bids (ss_book (ps_core (lq_perp lq)))) (Asks (ss_book (ps_core (lq_perp lq))))" and matcher: "le_matcher env = Match clock"
    and s: "sound sy P (lq_perp lq)" and q: "pe_quote (le_perp env) \<noteq> ''''"
    and o: "order_sane order" "ClientID order = i" "Type order = Market" "FilledQty order = 0"
  shows "sound sy P (lq_perp lq') \<and> same_wealth (pe_quote (le_perp env)) sy P (lq_perp lq) (lq_perp lq') \<and> 0 \<le> filled \<and> filled \<le> Qty order \<and>
    acc_size_at (i, sy, PositionSide order) lq' = acc_size_at (i, sy, PositionSide order) lq + (if Side order = Sell then - filled else filled)"
proof -
  let ?q = "pe_quote (le_perp env)" and ?k = "(i, sy, PositionSide order)"
  from run obtain ns st1 r outs st2 sv where c: "cancelClientOrdersOnBook (pe_inst (le_perp env)) i (lq_perp lq) = Some (ns, st1)"
    and m: "le_matcher env (Bids (ss_book (ps_core st1))) (Asks (ss_book (ps_core st1))) order = Some r"
    and p: "processExecutions_perp (le_perp env) (fills plan) (Executions r) (st1\<lparr>ps_core := (ps_core st1)\<lparr>ss_book :=
      (ss_book (ps_core st1))\<lparr>Bids := RBids r, Asks := RAsks r\<rparr>, ss_taker := RTaker r\<rparr>\<rparr>) = Some (outs, st2)"
    and rem: "removeMakerOrders (Executions r) \<lparr>sv_ledger = ps_ledger st2, sv_book = ss_book (ps_core st2), sv_nextOrderID = lq_nextOrderID lq\<rparr> = Some sv"
    and res: "filled = FilledQty (RTaker r)" "lq_perp lq' = st2\<lparr>ps_core := (ps_core st2)\<lparr>ss_ledger := sv_ledger sv, ss_book := sv_book sv\<rparr>\<rparr>"
    by (auto simp: close_at_market_def Let_def bind_eq_Some_conv simp del: processExecutions_perp.simps removeMakerOrders.simps split: if_splits)
  let ?st = "st1\<lparr>ps_core := (ps_core st1)\<lparr>ss_book := (ss_book (ps_core st1))\<lparr>Bids := RBids r, Asks := RAsks r\<rparr>, ss_taker := RTaker r\<rparr>\<rparr>"
  from c obtain ids where co: "cancel_orders (pe_inst (le_perp env)) i ids (lq_perp lq) = Some (ns, st1)"
    by (auto simp: cancelClientOrdersOnBook_def split: option.splits)
  have q1: "quiet (lq_perp lq) ?st" using quiet_trans [OF quiet_cancel_orders [OF co], of ?st] by (simp add: quiet_def)
  note S1 = quiet_sound [OF q1 s, of ?q]
  note E = Match_executions [OF cancel_orders_books [OF co books] o(1) m [unfolded matcher]]
  have "fills_fit (le_perp env) (fills plan) (Executions r) ?st" using fit c m by (simp add: close_fits_def)
  from process_conserves [OF p this conjunct1 [OF S1] _ q, of i] E o
  have S2: "sound sy P st2 \<and> same_wealth ?q sy P ?st st2 \<and> acc_size (acc_at ?k (ps_positions st2)) =
      acc_size (acc_at ?k (ps_positions ?st)) + (if Side order = Sell then - filled else filled)"
    by (simp add: res(1))
  have q3: "quiet st2 (lq_perp lq')" using quiet_removeMakerOrders [OF rem] by (simp add: res(2))
  note S3 = quiet_sound [OF q3 conjunct1 [OF S2], of ?q]
  have "0 \<le> (\<Sum>e\<leftarrow>Executions r. ExecQty e)" using E(1) by (intro sum_list_nonneg) (auto simp: less_imp_le)
  then have "0 \<le> filled \<and> filled \<le> Qty order" using E(5,6) o(4) by (simp add: res(1))
  with S1 S2 S3 quiet_size [OF q1, of ?k] quiet_size [OF q3, of ?k] show ?thesis
    unfolding acc_size_at_def by (metis same_wealth_trans)
qed

section \<open>Liquidation\<close>

definition liquidation_fits :: "liquidation_env \<Rightarrow> uint64 \<Rightarrow> Position \<Rightarrow> liquidation_state \<Rightarrow> bool" where
  "liquidation_fits env i pos lq =
     (case lq_client lq i of
        None \<Rightarrow> True
      | Some c \<Rightarrow>
          let orderID = u64 (lq_nextOrderID lq + 1);
              order = forced_order orderID i (if PosSize pos < 0 then Buy else Sell) (PosSide pos) (abs64 (PosSize pos)) (le_now env);
              book = ss_book (ps_core (lq_perp lq))
          in (case prepareFeeExecutionPlan (as_spot (le_perp env)) (Some (le_matcher env)) (Clients (lq_ledger lq)) book order
                     (filter (\<lambda>j. FindOrder book j \<noteq> None) (OrderIDs c)) of
                Inl _ \<Rightarrow> True
              | Inr plan \<Rightarrow> close_fits env i order plan (lq\<lparr>lq_nextOrderID := orderID\<rparr>)))"

text \<open>The cases of a liquidation: the close is deferred, nothing was filled, or the account is settled after it.\<close>

lemma liquidate_cases:
  assumes run: "liquidate env i pos lq = Some lq'" and fit: "liquidation_fits env i pos lq"
  obtains "lq_perp lq' = lq_perp lq"
  | plan order lq1 price filled where "order = forced_order (u64 (lq_nextOrderID lq + 1)) i (if PosSize pos < 0 then Buy else Sell) (PosSide pos)
      (abs64 (PosSize pos)) (le_now env)" "close_at_market env i order plan (lq\<lparr>lq_nextOrderID := ID order\<rparr>) = Some (price, filled, lq1)"
    "close_fits env i order plan (lq\<lparr>lq_nextOrderID := ID order\<rparr>)"
    "if filled > 0 then after_close env i (PosSize pos) price filled lq1 = Some lq' else lq' = lq1"
proof -
  let ?o = "forced_order (u64 (lq_nextOrderID lq + 1)) i (if PosSize pos < 0 then Buy else Sell) (PosSide pos) (abs64 (PosSize pos)) (le_now env)"
  let ?book = "ss_book (ps_core (lq_perp lq))"
  from run obtain c where c: "lq_client lq i = Some c" by (auto simp: liquidate_def forceClose_def split: option.splits)
  define plan where "plan = prepareFeeExecutionPlan (as_spot (le_perp env)) (Some (le_matcher env)) (Clients (lq_ledger lq)) ?book ?o
    (filter (\<lambda>j. FindOrder ?book j \<noteq> None) (OrderIDs c))"
  have force: "forceClose env i (if PosSize pos < 0 then Buy else Sell) (PosSide pos) (abs64 (PosSize pos)) lq =
      (case plan of Inl PlanPanic \<Rightarrow> None
       | Inl (Failure _ err) \<Rightarrow> if err then Some (0, 0, False, lq\<lparr>lq_nextOrderID := u64 (lq_nextOrderID lq + 1)\<rparr>) else None
       | Inr p \<Rightarrow> map_option (\<lambda>(price, filled, lq'). (price, filled, filled > 0, lq'))
           (close_at_market env i ?o p (lq\<lparr>lq_nextOrderID := u64 (lq_nextOrderID lq + 1)\<rparr>)))"
    unfolding forceClose_def c option.case Let_def plan_def ..
  show thesis
  proof (cases plan)
    case (Inl err)
    with run have "lq_perp lq' = lq_perp lq"
      unfolding liquidate_def force by (auto split: spotPlanFailure.splits if_splits)
    then show thesis by (rule that(1))
  next
    case (Inr p)
    with run obtain price filled lq1 where x: "close_at_market env i ?o p (lq\<lparr>lq_nextOrderID := ID ?o\<rparr>) = Some (price, filled, lq1)"
      "if filled > 0 then after_close env i (PosSize pos) price filled lq1 = Some lq' else lq' = lq1"
      unfolding liquidate_def force by (cases "PosSize pos < 0") (auto simp: forced_order_def bind_eq_Some_conv split: if_splits)
    moreover have "close_fits env i ?o p (lq\<lparr>lq_nextOrderID := ID ?o\<rparr>)"
      using fit Inr unfolding liquidation_fits_def c option.case Let_def plan_def [symmetric] by (simp add: forced_order_def)
    ultimately show thesis by (intro that(2) [OF refl])
  qed
qed

text \<open>C12: A liquidation creates and destroys nothing and only reduces risk. Whatever the book holds, when closing a
  position at the market returns, the ledger and the positions are well-formed, the audit is
  silent, and the cash of all accounts and the venue plus the exact value of the open contracts is what
  it was: losses, the clearance fee, the repaid loan and the deficit the insurance fund absorbs all have
  a counterpart. The position moves towards zero and never past it, and if anything was closed the
  account's balance is not negative afterwards.\<close>

theorem liquidation_zero_sum:
  assumes run: "liquidate env i pos lq = Some lq'" and fit: "liquidation_fits env i pos lq"
    and books: "books_ok (Bids (ss_book (ps_core (lq_perp lq)))) (Asks (ss_book (ps_core (lq_perp lq))))" and matcher: "le_matcher env = Match clock"
    and state: "sound sy P (lq_perp lq)" and quote: "pe_quote (le_perp env) = quote" "quote \<noteq> ''''"
    and pos: "map_of (positions (ps_positions (lq_perp lq))) (i, sy, PosSide pos) = Some pos"
  shows "sound sy P (lq_perp lq') \<and> VerifyConservation (lq_ledger lq') = [] \<and> same_wealth quote sy P (lq_perp lq) (lq_perp lq') \<and>
    min 0 (PosSize pos) \<le> PosSize (pos_at (i, sy, PosSide pos) (ps_positions (lq_perp lq'))) \<and>
    PosSize (pos_at (i, sy, PosSide pos) (ps_positions (lq_perp lq'))) \<le> max 0 (PosSize pos) \<and>
    (PosSize (pos_at (i, sy, PosSide pos) (ps_positions (lq_perp lq'))) \<noteq> PosSize pos \<longrightarrow>
      (\<exists>c. lq_client lq' i = Some c \<and> 0 \<le> PerpBalance c quote))"
proof -
  let ?k = "(i, sy, PosSide pos)" and ?z = "PosSize pos"
  have size: "PosSize (pos_at ?k (ps_positions (lq_perp x))) = acc_size_at ?k x" if "sound sy P (lq_perp x)" for x
    using pm_ok_at [of "ps_positions (lq_perp x)" ?k] that by (simp add: sound_def exact_at_def acc_size_at_def)
  have z: "?z = acc_size_at ?k lq" using size [OF state] pos_at_Some [OF pos] by simp
  have "exact_at P ?k (acc_at ?k (ps_positions (lq_perp lq))) pos"
    using pm_ok_at [of "ps_positions (lq_perp lq)" ?k] state pos_at_Some [OF pos] by (simp add: sound_def precision_of_def)
  then have "acc_ok P (acc_at ?k (ps_positions (lq_perp lq)))" "acc_size (acc_at ?k (ps_positions (lq_perp lq))) = ?z"
    using state by (simp_all add: exact_at_def sound_def)
  then have range: "is_i64 ?z" "?z \<noteq> MinInt64" by (auto simp: acc_ok_def)
  then have abs: "abs64 ?z = \<bar>?z\<bar>" "\<bar>?z\<bar> \<le> MaxInt64" using abs64_eq by (auto simp: is_i64_def)
  have clean: "VerifyConservation (lq_ledger x) = []" if "sound sy P (lq_perp x)" for x
    using that by (simp add: sound_def conserved_verifies)
  from run fit show ?thesis
  proof (cases rule: liquidate_cases)
    case 1
    then show ?thesis using state size [OF state] z clean [OF state] by simp
  next
    case (2 plan order lq1 price filled)
    have o: "order_sane order" "ClientID order = i" "Type order = Market" "FilledQty order = 0" "Qty order = \<bar>?z\<bar>" "PositionSide order = PosSide pos"
      "Side order = (if ?z < 0 then Buy else Sell)"
      using abs by (simp_all add: 2(1) forced_order_def order_sane_def)
    note C = close_conserves [OF 2(2,3) _ matcher _ _ o(1-4), of sy P, simplified, OF books state]
    have C': "sound sy P (lq_perp lq1)" "same_wealth quote sy P (lq_perp lq) (lq_perp lq1)" "0 \<le> filled" "filled \<le> \<bar>?z\<bar>"
      "acc_size_at ?k lq1 = ?z + (if 0 \<le> ?z then - filled else filled)"
      using C quote z by (auto simp: o acc_size_at_def)
    show ?thesis
    proof (cases "filled > 0")
      case False
      then show ?thesis using 2(4) C' size [OF C'(1)] clean [OF C'(1)] by auto
    next
      case True
      then have a: "after_close env i ?z price filled lq1 = Some lq'" using 2(4) by simp
      obtain c where c: "lq_client lq1 i = Some c" using after_close_client [OF a] by blast
      have w: "wallet_fits quote c" using 2(2,3) c quote(1) by (simp add: close_fits_def)
      from after_close_moves [OF a _ _ c _ ] C'(1) w quote
      have M: "moves_money quote i lq1 lq'" and b: "\<exists>c. lq_client lq' i = Some c \<and> 0 \<le> mget (PerpBalances c) quote" by (auto simp: sound_def)
      have s': "sound sy P (lq_perp lq')" and w': "same_wealth quote sy P (lq_perp lq) (lq_perp lq')" and k': "acc_size_at ?k lq' = acc_size_at ?k lq1"
        using M C' by (auto simp: moves_money_def sound_def same_wealth_def acc_size_at_def)
      show ?thesis using s' w' b clean [OF s'] size [OF s'] k' C'(3-5) by (auto simp: PerpBalance_def)
    qed
  qed
qed

definition liq_sample_env :: liquidation_env where
  "liq_sample_env = \<lparr>le_perp = perp_sample_env, le_matcher = Match (\<lambda>_. 0), le_now = 50, le_feeBps = 100, le_borrowing = True\<rparr>"

definition liq_sample :: liquidation_state where
  "liq_sample =
     \<lparr>lq_perp = \<lparr>ps_core = \<lparr>ss_ledger = \<lparr>Clients = [(7, (NewClient 7)\<lparr>PerpBalances := [(''USD'', 500)], OrderIDs := [1]\<rparr>),
          (8, (NewClient 8)\<lparr>PerpBalances := [(''USD'', 300)], OrderIDs := [2, 3]\<rparr>),
          (9, (NewClient 9)\<lparr>PerpBalances := [(''USD'', 30)], PerpReserved := [(''USD'', 3)]\<rparr>)],
          ExBal = \<lparr>FeeRevenue = [], InsuranceFund = [(''USD'', 70)], FundingRoundingReserves = []\<rparr>, venueBalanceSequence = 0,
          conservation = \<lparr>recorded = [(''USD'', 900)], unrepresentable = []\<rparr>\<rparr>,
        ss_book = \<lparr>Symbol = ''P'', Bids = NewBook Buy, Asks = ask_ladder, LastTrade = None, SeqNum = 4\<rparr>,
        ss_taker = sample_order 0 0 Buy 0 0\<rparr>,
      ps_positions = traded_store\<rparr>, lq_nextOrderID = 3, lq_notices = [], lq_events = []\<rparr>"

definition liq_sample_pos :: Position where
  "liq_sample_pos = pos_at (9, ''P'', PositionShort) traded_store"

lemma liq_sample_run:
  "map_option (\<lambda>lq. (map (\<lambda>(i, c). (i, PerpBalances c)) (Clients (lq_ledger lq)), InsuranceFund (ExBal (lq_ledger lq)), lq_events lq,
       PosSize (pos_at (9, ''P'', PositionShort) (ps_positions (lq_perp lq))))) (liquidate liq_sample_env 9 liq_sample_pos liq_sample) =
   Some ([(7, [(''USD'', 508)]), (8, [(''USD'', 300)]), (9, [(''USD'', 0)])], [(''USD'', 60)],
     [OnLiquidation 9 ''P'' (- 5) 100 10, OnInsuranceFund ''P'' (- 10) 60 ''liquidation_deficit''], 0)"
  by code_simp

lemma liq_sample_sound: "sound ''P'' 10 (lq_perp liq_sample)"
proof -
  have "ledger_ok (lq_ledger liq_sample)" "conserved (lq_ledger liq_sample)"
    by (auto simp: ledger_ok_def conserved_def liq_sample_def NewClient_def is_map_def client_maps_def values_ok_def
        debts_ok_def tracker_ok_def held_def msum_def worth_def mget_def is_i64_def)
  moreover have "mget (precisions traded_store) ''P'' = 10" by code_simp
  ultimately show ?thesis using reachable_pm_ok [OF traded_reachable] by (simp add: sound_def liq_sample_def)
qed

theorem liquidation_zero_sum_witness:
  "\<exists>lq'. liquidate liq_sample_env 9 liq_sample_pos liq_sample = Some lq' \<and> VerifyConservation (lq_ledger lq') = [] \<and>
     same_wealth ''USD'' ''P'' 10 (lq_perp liq_sample) (lq_perp lq') \<and> (\<exists>c. lq_client lq' 9 = Some c \<and> 0 \<le> PerpBalance c ''USD'')"
proof -
  obtain lq' where run: "liquidate liq_sample_env 9 liq_sample_pos liq_sample = Some lq'"
    and flat: "PosSize (pos_at (9, ''P'', PositionShort) (ps_positions (lq_perp lq'))) = 0" using liq_sample_run by auto
  have fit: "liquidation_fits liq_sample_env 9 liq_sample_pos liq_sample" by code_simp
  have books: "books_ok (Bids (ss_book (ps_core (lq_perp liq_sample)))) (Asks (ss_book (ps_core (lq_perp liq_sample))))"
    using ask_ladder_ok by (simp add: liq_sample_def)
  have env: "le_matcher liq_sample_env = Match (\<lambda>_. 0)" "pe_quote (le_perp liq_sample_env) = ''USD''"
    by (simp_all add: liq_sample_env_def perp_sample_env_def NewPerpFutures_def)
  have side: "PosSide liq_sample_pos = PositionShort" "PosSize liq_sample_pos = - 5" by code_simp+
  have "map_of (positions traded_store) (9, ''P'', PositionShort) \<noteq> None" by code_simp
  then have pos: "map_of (positions (ps_positions (lq_perp liq_sample))) (9, ''P'', PosSide liq_sample_pos) = Some liq_sample_pos"
    unfolding side(1) by (auto simp: liq_sample_def liq_sample_pos_def pos_at_def)
  from liquidation_zero_sum [OF run fit books env(1) liq_sample_sound env(2) _ pos] flat side run show ?thesis by simp
qed

end
