(* ===== verification/Margin_Marks.thy ===== *)
theory Margin_Marks
  imports Liquidation
begin

text \<open>Which marks an account's margin profile is built from, and what the profile adds up to. A profile at a mark
  epoch reads only snapshots committed at that epoch and at one instant; it does not depend on the price
  that triggered the check, and exposure in a contract that has expired or waits for settlement makes
  the whole profile fail. The requirement is the exact sum of its parts as long as every product fits in
  64 bits; it is not when one does not.\<close>

section \<open>Marks\<close>

definition live :: "risk_view \<Rightarrow> margin_book \<Rightarrow> bool" where
  "live view mb \<longleftrightarrow> \<not> expired (rv_now view) mb \<and> \<not> mb_pending mb"


lemma add_book_epoch:
  assumes run: "add_book view pm i quote t m e mb p b = Some (Inr (p', b'))" and e: "e \<noteq> 0"
  shows "open_positions pm i (mb_symbol mb) \<noteq> [] \<longrightarrow> live view mb" "b \<noteq> None \<longrightarrow> b' = b"
    "if sp_quote (mb_core mb) = quote \<and> open_positions pm i (mb_symbol mb) \<noteq> []
     then \<exists>s. committedRiskSnapshotLocked (rv_now view) mb e = Some s \<and> b' = Some (sn_timestamp s) \<and>
       add_positions (rv_requireExact view) pm (sn_mark s) (sp_basePrecision (mb_core mb)) (sn_maintenanceBps s) (sn_warningBps s)
         (open_positions pm i (mb_symbol mb)) p = Some p'
     else p' = p \<and> b' = b"
  using run e by (auto simp: add_book_def add_exposure_def book_mark_def live_def Let_def split: if_splits option.splits)



lemma profile_Inr:
  "buildAccountMarginProfileAtEpoch view pm i quote t m e = Some (Inr p) \<longleftrightarrow>
     (\<exists>b. add_books view pm i quote t m e (rv_books view) empty_profile None = Some (Inr (p, b)))"
proof (cases "add_books view pm i quote t m e (rv_books view) empty_profile None")
  case (Some r)
  then show ?thesis by (cases r) (auto simp: buildAccountMarginProfileAtEpoch_def)
qed (simp add: buildAccountMarginProfileAtEpoch_def)


section \<open>The requirement\<close>

text \<open>The exposures a profile at an epoch adds up, and the margin one of them requires without any rounding of the
  machine.\<close>

definition book_terms :: "risk_view \<Rightarrow> PositionManager \<Rightarrow> uint64 \<Rightarrow> asset \<Rightarrow> uint64 \<Rightarrow> margin_book list \<Rightarrow> (int64 \<times> riskMarkSnapshot \<times> Position) list" where
  "book_terms view pm i quote e mbs =
     concat (map (\<lambda>mb. case committedRiskSnapshotLocked (rv_now view) mb e of
         None \<Rightarrow> []
       | Some s \<Rightarrow> map (\<lambda>pos. (sp_basePrecision (mb_core mb), s, pos)) (open_positions pm i (mb_symbol mb)))
       (filter (\<lambda>mb. sp_quote (mb_core mb) = quote) mbs))"

definition notional_of :: "int64 \<times> riskMarkSnapshot \<times> Position \<Rightarrow> int" where
  "notional_of t = (case t of (precision, s, pos) \<Rightarrow> \<bar>PosSize pos * sn_mark s\<bar> div precision)"

definition product_of :: "int64 \<times> riskMarkSnapshot \<times> Position \<Rightarrow> int" where
  "product_of t = notional_of t * sn_maintenanceBps (fst (snd t))"

definition required_of :: "int64 \<times> riskMarkSnapshot \<times> Position \<Rightarrow> int" where
  "required_of t = product_of t div 10000"

text \<open>What the code adds for it: the product is a wrapping 64-bit one.\<close>

definition charged_of :: "int64 \<times> riskMarkSnapshot \<times> Position \<Rightarrow> int" where
  "charged_of t = i64 (product_of t) sdiv 10000"

definition pnl_of :: "bool \<Rightarrow> PositionManager \<Rightarrow> int64 \<times> riskMarkSnapshot \<times> Position \<Rightarrow> int" where
  "pnl_of requireExact pm t = (case t of (precision, s, pos) \<Rightarrow> the (tryPositionUPnL requireExact pos (sn_mark s) precision pm))"

definition term_int64 :: "int64 \<times> riskMarkSnapshot \<times> Position \<Rightarrow> bool" where
  "term_int64 t = (case t of (precision, s, pos) \<Rightarrow> is_i64 precision \<and> is_i64 (sn_mark s) \<and> is_i64 (PosSize pos) \<and>
     0 < precision \<and> 0 \<le> sn_maintenanceBps s)"

definition term_fits :: "int64 \<times> riskMarkSnapshot \<times> Position \<Rightarrow> bool" where
  "term_fits t \<longleftrightarrow> term_int64 t \<and> product_of t \<le> MaxInt64"

lemma product_nonneg: "term_int64 t \<Longrightarrow> 0 \<le> product_of t"
  by (cases t) (simp add: term_int64_def product_of_def notional_of_def pos_imp_zdiv_nonneg_iff)

lemma charged_exact: "term_fits t \<Longrightarrow> charged_of t = required_of t"
  using product_nonneg [of t] i64_id [of "product_of t"]
  by (simp add: term_fits_def charged_of_def required_of_def is_i64_def sdiv_nonneg_eq)

lemma charged_wrapped:
  assumes "MaxInt64 < product_of t" "product_of t < two64"
  shows "charged_of t \<le> 0" "- 922337203685477 \<le> charged_of t" "922337203685477 \<le> required_of t"
proof -
  have w: "i64 (product_of t) = product_of t - two64" by (rule i64_wrap [OF assms])
  have "charged_of t = - ((two64 - product_of t) div 10000)"
    using assms by (simp add: charged_of_def w sdiv_by_sign)
  moreover have "(two64 - product_of t) div 10000 \<le> two63 div 10000" using assms(1) by (intro zdiv_mono1) auto
  moreover have "0 \<le> (two64 - product_of t) div 10000" using assms(2) by (simp add: pos_imp_zdiv_nonneg_iff)
  ultimately show "charged_of t \<le> 0" "- 922337203685477 \<le> charged_of t" by simp_all
  have "two63 div 10000 \<le> product_of t div 10000" using assms(1) by (intro zdiv_mono1) auto
  then show "922337203685477 \<le> required_of t" by (simp add: required_of_def)
qed

lemma add_positions_sums:
  assumes "add_positions re pm (sn_mark s) precision (sn_maintenanceBps s) wb ps p = Some p'"
    and "\<forall>pos\<in>set ps. term_int64 (precision, s, pos)" "is_i64 (Maintenance p)" "is_i64 (EquityContribution p)"
  shows "Maintenance p' = i64 (Maintenance p + (\<Sum>pos\<leftarrow>ps. charged_of (precision, s, pos))) \<and>
    EquityContribution p' = i64 (EquityContribution p + (\<Sum>pos\<leftarrow>ps. pnl_of re pm (precision, s, pos)))"
  using assms
proof (induction ps arbitrary: p)
  case (Cons pos ps)
  let ?t = "(precision, s, pos)"
  from Cons.prems(1) obtain pnl n p1 where pnl: "tryPositionUPnL re pos (sn_mark s) precision pm = Some pnl"
    and n: "AbsMulDiv (PosSize pos) (sn_mark s) precision = Some n" and rest: "add_positions re pm (sn_mark s) precision (sn_maintenanceBps s) wb ps p1 = Some p'"
    and p1: "Maintenance p1 = i64 (Maintenance p + i64 (n * sn_maintenanceBps s) sdiv 10000)" "EquityContribution p1 = i64 (EquityContribution p + pnl)"
    by (auto split: option.splits)
  have f: "term_int64 ?t" using Cons.prems(2) by simp
  then have "n = notional_of ?t"
    using n TryAbsMulDiv_eq [of "PosSize pos" "sn_mark s" precision] by (auto simp: term_int64_def AbsMulDiv_def notional_of_def split: if_splits)
  then have "i64 (n * sn_maintenanceBps s) sdiv 10000 = charged_of ?t" by (simp add: charged_of_def product_of_def)
  with Cons.IH [OF rest] Cons.prems(2) p1 pnl show ?case by (simp add: pnl_of_def i64_add_cong add.assoc)
qed (simp add: i64_id)

lemma add_books_sums:
  assumes "add_books view pm i quote t m e mbs p b = Some (Inr (p', b'))" "e \<noteq> 0"
    and "\<forall>x\<in>set (book_terms view pm i quote e mbs). term_int64 x" "is_i64 (Maintenance p)" "is_i64 (EquityContribution p)"
  shows "Maintenance p' = i64 (Maintenance p + (\<Sum>x\<leftarrow>book_terms view pm i quote e mbs. charged_of x)) \<and>
    EquityContribution p' = i64 (EquityContribution p + (\<Sum>x\<leftarrow>book_terms view pm i quote e mbs. pnl_of (rv_requireExact view) pm x))"
  using assms
proof (induction mbs arbitrary: p b)
  case (Cons mb mbs)
  let ?ps = "open_positions pm i (mb_symbol mb)"
  from Cons.prems(1) obtain p1 b1 where one: "add_book view pm i quote t m e mb p b = Some (Inr (p1, b1))"
    and rest: "add_books view pm i quote t m e mbs p1 b1 = Some (Inr (p', b'))" by (auto split: option.splits sum.splits)
  note A = add_book_epoch [OF one Cons.prems(2)]
  have sub: "\<forall>x\<in>set (book_terms view pm i quote e mbs). term_int64 x"
    using Cons.prems(3) by (cases "sp_quote (mb_core mb) = quote") (auto simp: book_terms_def)
  show ?case
  proof (cases "sp_quote (mb_core mb) = quote \<and> ?ps \<noteq> []")
    case True
    with A(3) obtain s where s: "committedRiskSnapshotLocked (rv_now view) mb e = Some s"
      and add: "add_positions (rv_requireExact view) pm (sn_mark s) (sp_basePrecision (mb_core mb)) (sn_maintenanceBps s) (sn_warningBps s) ?ps p = Some p1"
      by auto
    let ?T = "map (\<lambda>pos. (sp_basePrecision (mb_core mb), s, pos)) ?ps"
    have T: "book_terms view pm i quote e (mb # mbs) = ?T @ book_terms view pm i quote e mbs" using True s by (simp add: book_terms_def)
    have S: "Maintenance p1 = i64 (Maintenance p + (\<Sum>x\<leftarrow>?T. charged_of x)) \<and>
        EquityContribution p1 = i64 (EquityContribution p + (\<Sum>x\<leftarrow>?T. pnl_of (rv_requireExact view) pm x))"
      using add_positions_sums [OF add] Cons.prems(3-5) by (simp add: T comp_def)
    then have "is_i64 (Maintenance p1)" "is_i64 (EquityContribution p1)" by simp_all
    from Cons.IH [OF rest Cons.prems(2) sub this] S show ?thesis by (simp add: T i64_add_cong add.assoc)
  next
    case False
    with A(3) have "p1 = p" by auto
    moreover have "book_terms view pm i quote e (mb # mbs) = book_terms view pm i quote e mbs"
      using False by (auto simp: book_terms_def split: option.splits)
    ultimately show ?thesis using Cons.IH [OF rest Cons.prems(2) sub] Cons.prems(4,5) by simp
  qed
qed (simp add: i64_id book_terms_def)

text \<open>When every product of a notional and a rate fits in 64 bits, the requirement of the profile is the exact sum over
  all exposures, and its equity the sum of their profits.\<close>

theorem requirement_exact:
  assumes "markEpoch \<noteq> 0" "buildAccountMarginProfileAtEpoch view pm i quote symbol markPrice markEpoch = Some (Inr p)"
    and "terms = book_terms view pm i quote markEpoch (rv_books view)"
    and "\<forall>x\<in>set terms. term_fits x" "is_i64 (\<Sum>x\<leftarrow>terms. required_of x)" "is_i64 (\<Sum>x\<leftarrow>terms. pnl_of (rv_requireExact view) pm x)"
  shows "Maintenance p = (\<Sum>x\<leftarrow>terms. required_of x) \<and> EquityContribution p = (\<Sum>x\<leftarrow>terms. pnl_of (rv_requireExact view) pm x)"
proof -
  from assms(2) obtain b where run: "add_books view pm i quote symbol markPrice markEpoch (rv_books view) empty_profile None = Some (Inr (p, b))"
    by (auto simp: profile_Inr)
  have "is_i64 (Maintenance empty_profile)" "is_i64 (EquityContribution empty_profile)" by (simp_all add: empty_profile_def is_i64_def)
  moreover have "\<forall>x\<in>set terms. term_int64 x" using assms(4) by (simp add: term_fits_def)
  ultimately have S: "Maintenance p = i64 (\<Sum>x\<leftarrow>terms. charged_of x)" "EquityContribution p = i64 (\<Sum>x\<leftarrow>terms. pnl_of (rv_requireExact view) pm x)"
    using add_books_sums [OF run assms(1)] unfolding assms(3) by (simp_all add: empty_profile_def)
  have "map charged_of terms = map required_of terms" using assms(4) charged_exact by simp
  with S(1) have "Maintenance p = i64 (\<Sum>x\<leftarrow>terms. required_of x)" by (simp only:)
  with S(2) show ?thesis using assms(5,6) by (simp add: i64_id)
qed

section \<open>A requirement that wraps around\<close>

definition mark_book :: "int64 \<Rightarrow> int64 \<Rightarrow> margin_book" where
  "mark_book precision mark = \<lparr>mb_symbol = ''P'', mb_core = NewPerpFutures ''P'' ''BTC'' ''USD'' precision 1 1 1,
     mb_funding = \<lparr>FRate = 0, NextFunding = 0, Interval = 0, MarkPrice = mark, MarkAvailable = True\<rparr>, mb_expiry = None, mb_pending = False,
     mb_reference = None, mb_snapshot = None, mb_epoch = 0\<rparr>"

definition mark_view :: "int64 \<Rightarrow> int64 \<Rightarrow> risk_view" where
  "mark_view precision mark = snd (commitAvailableRiskMarkEpochLocked
     \<lparr>rv_books = [mark_book precision mark], rv_markEpoch = 0, rv_now = 50, rv_requireExact = True\<rparr>)"

text \<open>Client 7 is long \<open>n\<close> contracts at price 10, with 1000 in cash; client 8 bids for five of them.\<close>

definition whale :: "int64 \<Rightarrow> liquidation_state" where
  "whale n =
     \<lparr>lq_perp = \<lparr>ps_core = \<lparr>ss_ledger = \<lparr>Clients = [(7, (NewClient 7)\<lparr>PerpBalances := [(''USD'', 1000)]\<rparr>),
          (8, (NewClient 8)\<lparr>PerpBalances := [(''USD'', 500)], OrderIDs := [4]\<rparr>)],
          ExBal = \<lparr>FeeRevenue = [], InsuranceFund = [], FundingRoundingReserves = []\<rparr>, venueBalanceSequence = 0,
          conservation = \<lparr>recorded = [(''USD'', 1500)], unrepresentable = []\<rparr>\<rparr>,
        ss_book = \<lparr>Symbol = ''P'', Bids = linked (NewBook Buy) (sample_order 4 8 Buy 10 5), Asks = NewBook Sell, LastTrade = None, SeqNum = 4\<rparr>,
        ss_taker = sample_order 0 0 Buy 0 0\<rparr>,
      ps_positions = (case updatePosition 7 ''P'' n 10 Buy PositionBoth (SetPositionPrecision ''P'' 1 pm_start) of
        None \<Rightarrow> pm_start | Some (pm, _, _) \<Rightarrow> pm)\<rparr>,
      lq_nextOrderID = 4, lq_notices = [], lq_events = []\<rparr>"

definition whale_env :: liquidation_env where
  "whale_env = \<lparr>le_perp = \<lparr>pe_inst = NewPerpFutures ''P'' ''BTC'' ''USD'' 1 1 1 1, pe_plan = (\<lambda>i. None), pe_requireExact = True\<rparr>,
     le_matcher = Match (\<lambda>_. 0), le_now = 50, le_feeBps = 0, le_borrowing = False\<rparr>"

text \<open>An account that is not in breach is at most warned: the check leaves the ledger, the positions and the book alone.\<close>

lemma check_client_no_breach:
  assumes "check_client env view m e mb i lq = Some lq'" "lq_client lq i = Some c" "e \<noteq> 0"
    and "buildAccountMarginProfileAtEpoch view (ps_positions (lq_perp lq)) i (pe_quote (le_perp env)) (lq_symbol lq) m e = Some (Inr p)"
    and "Maintenance p \<le> account_equity c (pe_quote (le_perp env)) p"
  shows "lq_perp lq' = lq_perp lq"
proof -
  have x: "\<exists>y. z = Inr y" if "z \<noteq> Inl ()" for z :: "unit + int64" using that by (cases z) auto
  have "profile_epoch view (ps_positions (lq_perp lq)) i (pe_quote (le_perp env)) (lq_symbol lq) m e mb \<in> {None, Some e}"
    using assms(3) by (auto simp: profile_epoch_def split: option.splits if_splits)
  then show ?thesis
    using assms by (auto simp: check_client_def Let_def notify_def dest!: x split: if_splits option.splits sum.splits)
qed

text \<open>C40: The maintenance requirement is exact only while every product fits. The profile adds, for each exposure, the product of the notional and the
  rate in basis points divided by 10000, in wrapping 64-bit arithmetic. An exposure whose product fits in 64 bits contributes exactly
  its requirement. One whose product lies between 2^63 and 2^64 contributes nothing or a negative amount, although it
  requires at least 922337203685477. So an account whose only exposure is of that kind, and whose equity is not negative, is never found in breach:
  the check of the account leaves its positions, its balances and the book as they are, however small the equity.\<close>

theorem maintenance_requirement_wraps:
  assumes "markEpoch \<noteq> 0" "buildAccountMarginProfileAtEpoch view pm i quote symbol markPrice markEpoch = Some (Inr p)"
    and "exposures = book_terms view pm i quote markEpoch (rv_books view)" "\<forall>x\<in>set exposures. term_int64 x"
  shows "Maintenance p = i64 (\<Sum>x\<leftarrow>exposures. charged_of x) \<and>
    (\<forall>x\<in>set exposures. (product_of x \<le> MaxInt64 \<longrightarrow> charged_of x = required_of x) \<and>
       (MaxInt64 < product_of x \<and> product_of x < 2 ^ 64 \<longrightarrow> charged_of x \<le> 0 \<and> 922337203685477 \<le> required_of x)) \<and>
    (\<forall>env mb lq lq' c x. exposures = [x] \<longrightarrow> MaxInt64 < product_of x \<longrightarrow> product_of x < 2 ^ 64 \<longrightarrow>
       ps_positions (lq_perp lq) = pm \<longrightarrow> lq_symbol lq = symbol \<longrightarrow> pe_quote (le_perp env) = quote \<longrightarrow> lq_client lq i = Some c \<longrightarrow>
       0 \<le> account_equity c quote p \<longrightarrow> check_client env view markPrice markEpoch mb i lq = Some lq' \<longrightarrow> lq_perp lq' = lq_perp lq)"
proof -
  from assms(2) obtain b where run: "add_books view pm i quote symbol markPrice markEpoch (rv_books view) empty_profile None = Some (Inr (p, b))"
    by (auto simp: profile_Inr)
  have "is_i64 (Maintenance empty_profile)" "is_i64 (EquityContribution empty_profile)" by (simp_all add: empty_profile_def is_i64_def)
  from add_books_sums [OF run assms(1) _ this] assms(3,4) have M: "Maintenance p = i64 (\<Sum>x\<leftarrow>exposures. charged_of x)"
    by (simp add: empty_profile_def)
  have T: "(product_of x \<le> MaxInt64 \<longrightarrow> charged_of x = required_of x) \<and>
       (MaxInt64 < product_of x \<and> product_of x < 2 ^ 64 \<longrightarrow> charged_of x \<le> 0 \<and> 922337203685477 \<le> required_of x)" if "x \<in> set exposures" for x
    using charged_exact [of x] charged_wrapped [of x] assms(4) that by (auto simp: term_fits_def)
  have C: "lq_perp lq' = lq_perp lq"
    if x: "exposures = [x]" "MaxInt64 < product_of x" "product_of x < 2 ^ 64" and lq: "ps_positions (lq_perp lq) = pm" "lq_symbol lq = symbol"
      "pe_quote (le_perp env) = quote" "lq_client lq i = Some c" "0 \<le> account_equity c quote p" "check_client env view markPrice markEpoch mb i lq = Some lq'"
    for env mb lq lq' c x
  proof -
    have w: "charged_of x \<le> 0" "- 922337203685477 \<le> charged_of x" using charged_wrapped [of x] x(2,3) by simp_all
    then have "i64 (charged_of x) = charged_of x" by (intro i64_id) (simp add: is_i64_def)
    then have "Maintenance p \<le> account_equity c quote p" using M x(1) w(1) lq(5) by simp
    with check_client_no_breach [OF lq(6,4) assms(1)] assms(2) show ?thesis by (simp add: lq(1-3))
  qed
  show ?thesis using M T C by blast
qed

text \<open>An account long 3 * 10^15 contracts at mark 10, with an equity of 1000 against a requirement of 1.5 * 10^15: the check only warns it.\<close>

theorem maintenance_requirement_wraps_witness:
  "\<exists>p lq'. buildAccountMarginProfileAtEpoch (mark_view 1 10) (ps_positions (lq_perp (whale (3 * 10 ^ 15)))) 7 ''USD'' ''P'' 10 1 = Some (Inr p) \<and>
     Maintenance p = - 344674407370955 \<and>
     check_client whale_env (mark_view 1 10) 10 1 (hd (rv_books (mark_view 1 10))) 7 (whale (3 * 10 ^ 15)) = Some lq' \<and>
     lq_perp lq' = lq_perp (whale (3 * 10 ^ 15)) \<and> lq_events lq' = [OnMarginCall 7 ''P'' 0 9]"
proof -
  let ?w = "whale (3 * 10 ^ 15)" and ?v = "mark_view 1 10"
  let ?pm = "ps_positions (lq_perp ?w)" and ?mb = "hd (rv_books (mark_view 1 10))"
  have "map_option (map_sum id (\<lambda>p. (Maintenance p, EquityContribution p))) (buildAccountMarginProfileAtEpoch ?v ?pm 7 ''USD'' ''P'' 10 1) = Some (Inr (- 344674407370955, 0))"
    by code_simp
  then obtain r where r: "buildAccountMarginProfileAtEpoch ?v ?pm 7 ''USD'' ''P'' 10 1 = Some r"
    "map_sum id (\<lambda>p. (Maintenance p, EquityContribution p)) r = Inr (- 344674407370955, 0)" by auto
  then obtain p where p: "r = Inr p" "Maintenance p = - 344674407370955" "EquityContribution p = 0" by (cases r) auto
  have "map_option lq_events (check_client whale_env ?v 10 1 ?mb 7 ?w) = Some [OnMarginCall 7 ''P'' 0 9]" by code_simp
  then obtain lq' where lq': "check_client whale_env ?v 10 1 ?mb 7 ?w = Some lq'" "lq_events lq' = [OnMarginCall 7 ''P'' 0 9]" by auto
  have t: "list_all term_int64 (book_terms ?v ?pm 7 ''USD'' 1 (rv_books ?v))"
    "map product_of (book_terms ?v ?pm 7 ''USD'' 1 (rv_books ?v)) = [15 * 10 ^ 18]" by code_simp+
  then obtain x where x: "book_terms ?v ?pm 7 ''USD'' 1 (rv_books ?v) = [x]" "product_of x = 15 * 10 ^ 18" "term_int64 x" by (auto simp: map_eq_Cons_conv)
  have c: "lq_symbol ?w = ''P''" "pe_quote (le_perp whale_env) = ''USD''" "lq_client ?w 7 = Some ((NewClient 7)\<lparr>PerpBalances := [(''USD'', 1000)]\<rparr>)"
    by (simp_all add: whale_def whale_env_def NewPerpFutures_def)
  have e: "0 \<le> account_equity ((NewClient 7)\<lparr>PerpBalances := [(''USD'', 1000)]\<rparr>) ''USD'' p"
    using p(3) by (simp add: account_equity_def PerpBalance_def BorrowedPerpPortion_def NewClient_def mget_def i64_def)
  have one: "(1::uint64) \<noteq> 0" "MaxInt64 < product_of x" "product_of x < 2 ^ 64" by (simp_all add: x(2))
  have "\<forall>y\<in>set (book_terms ?v ?pm 7 ''USD'' 1 (rv_books ?v)). term_int64 y" using x(1,3) by simp
  note W = maintenance_requirement_wraps [OF one(1) r(1) [unfolded p(1)] refl this]
  have "lq_perp lq' = lq_perp ?w" by (rule W [THEN conjunct2, THEN conjunct2, rule_format, OF x(1) one(2,3) refl c e lq'(1)])
  with r(1) p lq' show ?thesis by blast
qed

section \<open>Witnesses\<close>

lemma whale_profile:
  "map_option (map_sum id (\<lambda>p. (Notional p, Maintenance p)))
     (buildAccountMarginProfileAtEpoch (mark_view 1 10) (ps_positions (lq_perp (whale 300))) 7 ''USD'' ''P'' 10 1) = Some (Inr (3000, 150))"
  by code_simp


theorem requirement_exact_witness:
  "\<exists>p. buildAccountMarginProfileAtEpoch (mark_view 1 10) (ps_positions (lq_perp (whale 300))) 7 ''USD'' ''P'' 10 1 = Some (Inr p) \<and>
     Maintenance p = (\<Sum>x\<leftarrow>book_terms (mark_view 1 10) (ps_positions (lq_perp (whale 300))) 7 ''USD'' 1 (rv_books (mark_view 1 10)). required_of x)"
proof -
  let ?pm = "ps_positions (lq_perp (whale 300))" and ?v = "mark_view 1 10"
  obtain r where r: "buildAccountMarginProfileAtEpoch ?v ?pm 7 ''USD'' ''P'' 10 1 = Some r"
    "map_sum id (\<lambda>p. (Notional p, Maintenance p)) r = Inr (3000, 150)" using whale_profile by auto
  then obtain p where p: "r = Inr p" by (cases r) auto
  have fits: "list_all term_fits (book_terms ?v ?pm 7 ''USD'' 1 (rv_books ?v))"
    "is_i64 (\<Sum>x\<leftarrow>book_terms ?v ?pm 7 ''USD'' 1 (rv_books ?v). required_of x)"
    "is_i64 (\<Sum>x\<leftarrow>book_terms ?v ?pm 7 ''USD'' 1 (rv_books ?v). pnl_of (rv_requireExact ?v) ?pm x)" by code_simp+
  from requirement_exact [OF _ r(1) [unfolded p] refl _ fits(2,3)] fits(1) r(1) p show ?thesis by (simp add: list_all_iff)
qed

end
