(* ===== verification/Expiry_Once.thy ===== *)
theory Expiry_Once
  imports Expiry_Calendar
begin

text \<open>Properties of contract calendars: every contract of a calendar is requested exactly once, by the first poll
  that reaches its listing time, and a settlement price is a mean of what was observed.\<close>

section \<open>The mathematical schedule\<close>

definition listing_time :: "int \<Rightarrow> ExpirySchedule \<Rightarrow> int \<Rightarrow> int" where
  "listing_time epoch s k = epoch + k * sch_ListingInterval s + sch_PhaseOffset s"

definition contract :: "int \<Rightarrow> ExpirySchedule \<Rightarrow> int \<Rightarrow> calendarListingRequest" where
  "contract epoch s k = \<lparr>rq_scheduleName = sch_Name s, rq_index = k, rq_listingNano = listing_time epoch s k,
     rq_expiryNano = listing_time epoch s k + sch_TimeToExpiry s\<rparr>"

definition schedule_ok :: "ExpirySchedule \<Rightarrow> bool" where
  "schedule_ok s \<longleftrightarrow> 0 < sch_ListingInterval s \<and> is_i64 (sch_ListingInterval s) \<and> 0 < sch_TimeToExpiry s \<and> is_i64 (sch_TimeToExpiry s) \<and>
     0 \<le> sch_PhaseOffset s \<and> is_i64 (sch_PhaseOffset s)"

lemma scheduledNano_Some:
  assumes ok: "schedule_ok s" "is_i64 epoch" "0 \<le> k" and some: "scheduledNano epoch s k = Some l"
  shows "l = listing_time epoch s k" "is_i64 l"
proof -
  let ?I = "sch_ListingInterval s"
  have I: "0 < ?I" "is_i64 ?I" using ok(1) by (auto simp: schedule_ok_def)
  have q: "MaxInt64 sdiv ?I = MaxInt64 div ?I" using I by (simp add: sdiv_nonneg_eq)
  have "0 \<le> MaxInt64 div ?I" using I by (simp add: pos_imp_zdiv_nonneg_iff)
  moreover have "MaxInt64 div ?I < MaxInt64 + 1" using I(1) by (simp add: div_int_less_iff)
  ultimately have "u64 (MaxInt64 div ?I) = MaxInt64 div ?I" by (intro u64_id) (auto simp: is_u64_def)
  with some q have le: "k \<le> MaxInt64 div ?I"
    and sum: "Option.bind (TryAdd (i64 (i64 k * ?I)) (sch_PhaseOffset s)) (TryAdd epoch) = Some l"
    by (auto simp: scheduledNano_def split: if_splits)
  have kI: "k * ?I \<le> MaxInt64" using le le_div_int_iff [OF I(1), of k MaxInt64] by simp
  moreover have "k \<le> k * ?I" using ok(3) I(1) by (simp add: mult_le_cancel_left1)
  ultimately have r: "is_i64 k" "is_i64 (k * ?I)" using ok(3) I(1) by (auto simp: is_i64_def zero_le_mult_iff)
  then have "i64 k = k" "i64 (k * ?I) = k * ?I" by (simp_all add: i64_id)
  with sum ok(1,2) r show "l = listing_time epoch s k" "is_i64 l"
    by (auto simp: bind_eq_Some_conv TryAdd_Some listing_time_def schedule_ok_def)
qed

lemma listing_mono: "schedule_ok s \<Longrightarrow> i \<le> j \<Longrightarrow> listing_time e s i \<le> listing_time e s j"
  by (simp add: listing_time_def schedule_ok_def mult_right_mono)

section \<open>One schedule\<close>

definition fresh_in :: "int \<Rightarrow> int \<Rightarrow> ExpirySchedule \<Rightarrow> int \<Rightarrow> int \<Rightarrow> calendarListingRequest list" where
  "fresh_in epoch now s i j = map (contract epoch s) (filter (\<lambda>k. now < listing_time epoch s k + sch_TimeToExpiry s) [i..j - 1])"

lemma due_schedule_exact:
  assumes ok: "schedule_ok s" "is_i64 epoch" "0 \<le> i" and run: "due_schedule epoch now s i = Inr (rs, j)"
  shows "i \<le> j \<and> (\<forall>k. i \<le> k \<longrightarrow> k < j \<longrightarrow> listing_time epoch s k \<le> now) \<and> now < listing_time epoch s j \<and> rs = fresh_in epoch now s i j"
  using ok run
proof (induction epoch now s i arbitrary: rs rule: due_schedule.induct)
  case (1 epoch now s i)
  from "1.prems"(4) obtain l where l: "scheduledNano epoch s i = Some l" by (subst (asm) due_schedule.simps) (auto split: option.splits)
  note L = scheduledNano_Some [OF "1.prems"(1-3) l]
  show ?case
  proof (cases "now < l")
    case True
    with "1.prems"(4) l L show ?thesis by (subst (asm) due_schedule.simps) (auto simp: fresh_in_def)
  next
    case False
    with "1.prems"(4) l obtain x where x: "TryAdd l (sch_TimeToExpiry s) = Some x" and ne: "i \<noteq> two64 - 1"
      by (subst (asm) due_schedule.simps) (auto split: option.splits if_splits)
    have xe: "x = l + sch_TimeToExpiry s" using x L(2) "1.prems"(1) by (simp add: TryAdd_Some schedule_ok_def)
    from "1.prems"(4) l False x ne obtain rs' where r: "due_schedule epoch now s (i + 1) = Inr (rs', j)"
      and rs: "rs = (if now < x then contract epoch s i # rs' else rs')"
      by (subst (asm) due_schedule.simps) (cases "due_schedule epoch now s (i + 1)"; auto simp: contract_def L(1) xe [unfolded L(1)] split: if_splits)
    have IH: "i + 1 \<le> j \<and> (\<forall>k. i + 1 \<le> k \<longrightarrow> k < j \<longrightarrow> listing_time epoch s k \<le> now) \<and> now < listing_time epoch s j \<and>
        rs' = fresh_in epoch now s (i + 1) j"
      using "1.IH" [OF l False x ne "1.prems"(1,2) _ r] "1.prems"(3) by simp
    have up: "[i..j - 1] = i # [i + 1..j - 1]" using IH by (simp add: upto_rec1)
    have "listing_time epoch s k \<le> now" if "i \<le> k" "k < j" for k
      using that IH False L(1) by (cases "k = i") auto
    then show ?thesis using IH by (auto simp: rs fresh_in_def up xe L(1))
  qed
qed

section \<open>A poll\<close>

lemma map_sum_Inr: "map_sum id (map_prod f id) x = Inr (a, b) \<longleftrightarrow> (\<exists>c. x = Inr (c, b) \<and> a = f c)"
  by (cases x) auto

lemma due_schedules_exact:
  assumes "due_schedules epoch now ss m = Inr (rs, m')" "distinct (map sch_Name ss)" "is_i64 epoch"
    and "\<forall>s\<in>set ss. schedule_ok s \<and> 0 \<le> mget m (sch_Name s)"
  shows "(\<forall>s\<in>set ss. \<exists>j. mget m' (sch_Name s) = j \<and> mget m (sch_Name s) \<le> j \<and>
      (\<forall>k. mget m (sch_Name s) \<le> k \<longrightarrow> k < j \<longrightarrow> listing_time epoch s k \<le> now) \<and> now < listing_time epoch s j) \<and>
    rs = concat (map (\<lambda>s. fresh_in epoch now s (mget m (sch_Name s)) (mget m' (sch_Name s))) ss) \<and>
    (\<forall>n. n \<notin> sch_Name ` set ss \<longrightarrow> mget m' n = mget m n)"
  using assms
proof (induction ss arbitrary: m rs)
  case (Cons s ss)
  let ?n = "sch_Name s"
  from Cons.prems(1) obtain r1 i r2 where one: "due_schedule epoch now s (mget m ?n) = Inr (r1, i)"
    and rest: "due_schedules epoch now ss (if i = mget m ?n then m else mput m ?n i) = Inr (r2, m')" and rs: "rs = r1 @ r2"
    by (auto split: sum.splits prod.splits simp: map_sum_Inr)
  have sok: "schedule_ok s" "0 \<le> mget m ?n" using Cons.prems(4) by auto
  note D = due_schedule_exact [OF sok(1) Cons.prems(3) sok(2) one]
  let ?nx = "if i = mget m ?n then m else mput m ?n i"
  have nx: "mget ?nx n = (if n = ?n then i else mget m n)" for n by simp
  have ne: "sch_Name s' \<noteq> ?n" if "s' \<in> set ss" for s' using Cons.prems(2) that by (auto simp: image_iff dest!: bspec)
  note IH = Cons.IH [OF rest _ Cons.prems(3)]
  have I: "(\<forall>s\<in>set ss. \<exists>j. mget m' (sch_Name s) = j \<and> mget m (sch_Name s) \<le> j \<and>
      (\<forall>k. mget m (sch_Name s) \<le> k \<longrightarrow> k < j \<longrightarrow> listing_time epoch s k \<le> now) \<and> now < listing_time epoch s j) \<and>
    r2 = concat (map (\<lambda>s. fresh_in epoch now s (mget m (sch_Name s)) (mget m' (sch_Name s))) ss) \<and>
    (\<forall>n. n \<notin> sch_Name ` set ss \<longrightarrow> mget m' n = (if n = ?n then i else mget m n))"
    using IH Cons.prems(2,4) ne by (simp add: nx cong: map_cong)
  moreover have "mget m' ?n = i" using I Cons.prems(2) by auto
  ultimately show ?case using D rs by auto
qed simp

definition cursor_at :: "int \<Rightarrow> ExpirySchedule list \<Rightarrow> int set \<Rightarrow> (string, uint64) gomap \<Rightarrow> bool" where
  "cursor_at epoch ss past next \<longleftrightarrow> (\<forall>s\<in>set ss. 0 \<le> mget next (sch_Name s) \<and>
     (\<forall>k\<ge>0. k < mget next (sch_Name s) \<longleftrightarrow> (\<exists>t\<in>past. listing_time epoch s k \<le> t)))"

lemma validated:
  "validate_schedules seen ss = None \<Longrightarrow> distinct (map sch_Name ss) \<and> sch_Name ` set ss \<inter> set seen = {} \<and>
   (\<forall>s\<in>set ss. 0 < sch_ListingInterval s \<and> 0 < sch_TimeToExpiry s \<and> 0 \<le> sch_PhaseOffset s)"
  by (induction seen ss rule: validate_schedules.induct) (auto split: if_splits)

lemma fresh_in_distinct:
  "distinct (map sch_Name ss) \<Longrightarrow> distinct (concat (map (\<lambda>s. fresh_in epoch now s (a s) (b s)) ss))"
proof (induction ss)
  case (Cons s ss)
  have "inj (contract epoch s)" by (auto simp: inj_def contract_def)
  then have "distinct (fresh_in epoch now s (a s) (b s))" by (auto simp: fresh_in_def distinct_map intro: inj_on_subset)
  moreover have "rq_scheduleName r = sch_Name u" if "r \<in> set (fresh_in epoch now u (a u) (b u))" for r u
    using that by (auto simp: fresh_in_def contract_def)
  ultimately have "distinct (fresh_in epoch now s (a s) (b s))"
    "set (fresh_in epoch now s (a s) (b s)) \<inter> (\<Union>u\<in>set ss. set (fresh_in epoch now u (a u) (b u))) = {}"
    using Cons.prems by (auto simp: image_iff) metis
  then show ?case using Cons by simp
qed simp

lemma due_exact:
  assumes run: "due (Some ss) epoch now next = Inr (rs, next')" and e: "is_i64 epoch"
    and i64: "\<forall>s\<in>set ss. is_i64 (sch_ListingInterval s) \<and> is_i64 (sch_TimeToExpiry s) \<and> is_i64 (sch_PhaseOffset s)"
    and cur: "cursor_at epoch ss past next"
  shows "cursor_at epoch ss (insert now past) next'" "sorted (map request_key rs)" "distinct rs"
    "set rs = {contract epoch s k | s k. s \<in> set ss \<and> 0 \<le> k \<and> listing_time epoch s k \<le> now \<and>
       now < listing_time epoch s k + sch_TimeToExpiry s \<and> (\<forall>t\<in>past. t < listing_time epoch s k)}"
proof -
  let ?ss = "sort_key sch_Name ss"
  from run obtain rs0 where v: "validate_schedules [] ss = None" and d: "due_schedules epoch now ?ss next = Inr (rs0, next')"
    and rs: "rs = sort_key request_key rs0"
    by (cases "due_schedules epoch now ?ss next") (auto simp: due_def Calendar_Validate_def split: option.splits if_splits)
  note V = validated [OF v]
  have ok: "\<forall>s\<in>set ?ss. schedule_ok s \<and> 0 \<le> mget next (sch_Name s)"
    using V i64 cur by (auto simp: schedule_ok_def cursor_at_def)
  have dist: "distinct (map sch_Name ?ss)" using V by (metis distinct_map distinct_sort set_sort)
  note D = due_schedules_exact [OF d dist e ok]
  let ?a = "\<lambda>s. mget next (sch_Name s)" and ?b = "\<lambda>s. mget next' (sch_Name s)"
  have step: "?a s \<le> ?b s \<and> (\<forall>k. ?a s \<le> k \<longrightarrow> k < ?b s \<longrightarrow> listing_time epoch s k \<le> now) \<and> now < listing_time epoch s (?b s) \<and> schedule_ok s"
    if "s \<in> set ss" for s using D ok that by auto
  have due_iff: "k < ?b s \<longleftrightarrow> k < ?a s \<or> listing_time epoch s k \<le> now" if "s \<in> set ss" for s k
    using step [OF that] listing_mono [of s "?b s" k epoch] by (meson leI less_le_trans not_le)
  show "cursor_at epoch ss (insert now past) next'"
    using cur due_iff step by (fastforce simp: cursor_at_def)
  show "sorted (map request_key rs)" by (simp add: rs)
  have eq: "rs0 = concat (map (\<lambda>s. fresh_in epoch now s (?a s) (?b s)) ?ss)" using D by blast
  have "distinct rs0" unfolding eq by (rule fresh_in_distinct [OF dist])
  then show "distinct rs" by (simp add: rs)
  have "set rs0 = {contract epoch s k | s k. s \<in> set ss \<and> ?a s \<le> k \<and> k < ?b s \<and> now < listing_time epoch s k + sch_TimeToExpiry s}"
    unfolding eq by (auto simp: fresh_in_def)
  moreover have "?a s \<le> k \<and> k < ?b s \<longleftrightarrow> 0 \<le> k \<and> listing_time epoch s k \<le> now \<and> (\<forall>t\<in>past. t < listing_time epoch s k)"
    if "s \<in> set ss" for s k
    using due_iff [OF that, of k] cur that unfolding cursor_at_def by (meson leD leI order_trans)
  ultimately show "set rs = {contract epoch s k | s k. s \<in> set ss \<and> 0 \<le> k \<and> listing_time epoch s k \<le> now \<and>
       now < listing_time epoch s k + sch_TimeToExpiry s \<and> (\<forall>t\<in>past. t < listing_time epoch s k)}"
    by (auto simp: rs) blast+
qed

end
