(* ===== verification/Future_Listing.thy ===== *)
theory Future_Listing
  imports Expiry_Once
begin

text \<open>The lister of dated futures over a run of polls: no contract is listed twice and no two contracts
  share a symbol, whatever the polls return; and with a calendar inside the representable range every
  poll succeeds and lists exactly the expiries that came due.\<close>

section \<open>Symbols\<close>

lemma expirySymbolLabel_inj: "expirySymbolLabel a = expirySymbolLabel b \<Longrightarrow> a = b"
proof -
  assume eq: "expirySymbolLabel a = expirySymbolLabel b"
  have ns: "FormatInt x \<noteq> FormatInt y @ ''ns''" for x y 
    by (rule notI, drule arg_cong [where f = set]) (use FormatInt_not_s [of x] in auto)
  have whole: "x = x sdiv 1000000000 * 1000000000" if "x smod 1000000000 = 0" for x :: int
    using sdiv_mult_smod_eq [of x 1000000000] that by simp
  show ?thesis
  proof (cases "a smod 1000000000 = 0 \<and> b smod 1000000000 = 0")
    case True
    with eq have "a sdiv 1000000000 = b sdiv 1000000000" by (simp add: expirySymbolLabel_def FormatInt_inj)
    with True show ?thesis by (metis whole)
  next
    case False
    with eq ns ns [symmetric] show ?thesis by (auto simp: expirySymbolLabel_def FormatInt_inj simp del: One_nat_def split: if_splits)
  qed
qed

lemma last_separator: "xs @ c # us = ys @ c # vs \<Longrightarrow> c \<notin> set us \<Longrightarrow> c \<notin> set vs \<Longrightarrow> xs = ys \<and> us = vs"
proof (induction us arbitrary: vs rule: rev_induct)
  case Nil
  then show ?case by (cases vs rule: rev_cases) auto
next
  case (snoc u us)
  then show ?case by (cases vs rule: rev_cases) (auto dest!: snoc.IH simp flip: append_assoc append_Cons)
qed

lemma futureSymbol_inj:
  assumes "futureSymbol l a = futureSymbol l' b" "cs_Base (dl_Spec l) = cs_Base (dl_Spec l')" "dl_Calendar l = None \<longleftrightarrow> dl_Calendar l' = None"
  shows "a = b \<and> (dl_Calendar l \<noteq> None \<longrightarrow> dl_Underlying l = dl_Underlying l')"
proof (cases "dl_Calendar l")
  case None
  with assms show ?thesis by (auto simp: futureSymbol_def dest: expirySymbolLabel_inj)
next
  case (Some c)
  with assms have "expirySymbolLabel a @ CHR ''-'' # CHR ''U'' # EncodeToString (dl_Underlying l) =
      expirySymbolLabel b @ CHR ''-'' # CHR ''U'' # EncodeToString (dl_Underlying l')"
    by (auto simp: futureSymbol_def canonicalSymbolComponent_def)
  from last_separator [OF this] show ?thesis by (auto dest: expirySymbolLabel_inj EncodeToString_inj)
qed

section \<open>What one poll lists\<close>

definition expiries :: "ExpiringFutures list \<Rightarrow> int list" where
  "expiries = map expiryNano"

definition lists_new :: "DatedFuturesLister \<Rightarrow> ExpiringFutures list \<Rightarrow> DatedFuturesLister \<Rightarrow> bool" where
  "lists_new l out l' \<longleftrightarrow> distinct (expiries out) \<and> set (expiries out) \<inter> dl_listed l = {} \<and>
     dl_listed l' = dl_listed l \<union> set (expiries out) \<and> map sp_symbol out = map (futureSymbol l) (expiries out) \<and>
     dl_Underlying l' = dl_Underlying l \<and> dl_Spec l' = dl_Spec l \<and> dl_Calendar l' = dl_Calendar l \<and>
     dl_CalendarEpochNano l' = dl_CalendarEpochNano l"

lemma futureSymbol_cong:
  "dl_Underlying l' = dl_Underlying l \<Longrightarrow> dl_Spec l' = dl_Spec l \<Longrightarrow> dl_Calendar l' = dl_Calendar l \<Longrightarrow> futureSymbol l' = futureSymbol l"
  by (simp add: futureSymbol_def fun_eq_iff)

lemma newFuture_simps [simp]: "expiryNano (newFuture l e) = e" "sp_symbol (newFuture l e) = futureSymbol l e"
  by (simp_all add: newFuture_def Let_def SetObservationWindow_def NewExpiringFutures_def PerpFutures.defs ExpiringFutures.defs
      NewPerpFutures_def)

lemma lists_refl [simp]: "lists_new l [] l"
  by (simp add: lists_new_def expiries_def)

lemma lists_one:
  assumes "e \<notin> dl_listed l" "lists_new (l\<lparr>dl_listed := insert e (dl_listed l)\<rparr>) out l'"
  shows "lists_new l (newFuture (l\<lparr>dl_listed := insert e (dl_listed l)\<rparr>) e # out) l'"
  using assms futureSymbol_cong [of "l\<lparr>dl_listed := insert e (dl_listed l)\<rparr>" l] by (auto simp: lists_new_def expiries_def)

lemma lists_trans: "lists_new l a l' \<Longrightarrow> lists_new l' b l'' \<Longrightarrow> lists_new l (a @ b) l''"
  using futureSymbol_cong [of l' l] by (auto simp: lists_new_def expiries_def)

lemma list_requests_lists:
  "list_requests l seen rs = (out, l') \<Longrightarrow>
   lists_new l out l' \<and> set (expiries out) = rq_expiryNano ` set rs - dl_listed l - seen"
proof (induction l seen rs arbitrary: out rule: list_requests.induct)
  case (2 l seen r rs)
  let ?e = "rq_expiryNano r"
  show ?case
  proof (cases "?e \<in> dl_listed l \<or> ?e \<in> seen")
    case True
    with 2 show ?thesis by auto
  next
    case False
    let ?l = "l\<lparr>dl_listed := insert ?e (dl_listed l)\<rparr>"
    obtain out1 where o: "list_requests ?l (insert ?e seen) rs = (out1, l')" and out: "out = newFuture ?l ?e # out1"
      using 2(3) False by (auto simp: Let_def map_prod_def split: prod.splits)
    from "2.IH"(2) [OF False refl o] have "lists_new ?l out1 l'"
      "set (expiries out1) = rq_expiryNano ` set rs - dl_listed ?l - insert ?e seen" by simp_all
    with False lists_one [of ?e l out1 l'] show ?thesis by (auto simp: out expiries_def)
  qed
qed (simp add: expiries_def)

lemma lists_upd [simp]: "lists_new l out (l'\<lparr>dl_nextIndex := n\<rparr>) = lists_new l out l'" "lists_new (l\<lparr>dl_nextExpiry := m\<rparr>) out l' = lists_new l out l'"
  using futureSymbol_cong [of "l\<lparr>dl_nextExpiry := m\<rparr>" l] by (simp_all add: lists_new_def)

lemma list_tenors_lists: "list_tenors l now ts = (out, l') \<Longrightarrow> lists_new l out l'"
proof (induction l now ts arbitrary: out rule: list_tenors.induct)
  case (2 l now tenor ts)
  show ?case
  proof (cases "tenor \<le> 0")
    case True
    with 2 show ?thesis by auto
  next
    case False
    obtain eo l1 where x: "expiryForTenor l now tenor = (eo, l1)" by force
    have same: "lists_new l1 out l' \<Longrightarrow> lists_new l out l'" for out
      using x by (auto simp: expiryForTenor_def split: if_splits option.splits)
    show ?thesis
    proof (cases "\<exists>e. eo = Some e \<and> e \<notin> dl_listed l1")
      case True
      then obtain e where e: "eo = Some e" "e \<notin> dl_listed l1" by blast
      let ?l = "l1\<lparr>dl_listed := insert e (dl_listed l1)\<rparr>"
      obtain out1 where o: "list_tenors ?l now ts = (out1, l')" and out: "out = newFuture ?l e # out1"
        using "2.prems" False x e by (auto simp: Let_def map_prod_def split: prod.splits)
      from "2.IH"(4) [OF False x [symmetric] e(1) e(2) refl o] 
      have "lists_new l1 out l'" unfolding out by (intro lists_one e)
      then show ?thesis by (rule same)
    next
      case none: False
      with "2.prems" False x have "list_tenors l1 now ts = (out, l')" by (auto split: option.splits if_splits)
      with "2.IH"(2,3) [OF False x [symmetric]] none show ?thesis by (cases eo) (auto intro: same)
    qed
  qed
qed simp

lemma PendingListings_lists: "PendingListings l now = (r, l') \<Longrightarrow> lists_new l (case_sum (\<lambda>_. []) id r) l'"
  by (auto simp: PendingListings_def pendingCalendarListings_def map_prod_def split: if_splits sum.splits prod.splits
      dest: list_requests_lists list_tenors_lists)

section \<open>Runs of polls\<close>

fun poll_all :: "DatedFuturesLister \<Rightarrow> int list \<Rightarrow> (calendar_error + ExpiringFutures list) list \<times> DatedFuturesLister" where
  "poll_all l [] = ([], l)"
| "poll_all l (t # ts) = (case PendingListings l t of (r, l') \<Rightarrow> map_prod ((#) r) id (poll_all l' ts))"

definition listed_by :: "(calendar_error + ExpiringFutures list) list \<Rightarrow> ExpiringFutures list" where
  "listed_by rs = concat (map (case_sum (\<lambda>_. []) id) rs)"

lemma poll_all_lists: "poll_all l ts = (rs, l') \<Longrightarrow> lists_new l (listed_by rs) l'"
proof (induction l ts arbitrary: rs rule: poll_all.induct)
  case (2 l t ts)
  then obtain r l1 rs1 where r: "PendingListings l t = (r, l1)" and rs1: "poll_all l1 ts = (rs1, l')" and rs: "rs = r # rs1"
    by (auto simp: map_prod_def split: prod.splits)
  from lists_trans [OF PendingListings_lists [OF r] "2.IH" [OF r [symmetric] rs1]] show ?case by (simp add: rs listed_by_def)
qed (simp add: listed_by_def)

text \<open>However often and at whatever times the exchange polls a lister of dated futures, in calendar mode or
  with rolling tenors, and whatever polls fail on the way, the futures it returns have pairwise
  different expiries, none of which it had listed before, and pairwise different symbols.\<close>

theorem futures_listed_once:
  "distinct (expiries (listed_by (fst (poll_all l ts)))) \<and> distinct (map sp_symbol (listed_by (fst (poll_all l ts)))) \<and>
   set (expiries (listed_by (fst (poll_all l ts)))) \<inter> dl_listed l = {}"
proof -
  obtain rs l' where run: "poll_all l ts = (rs, l')" by force
  have "inj (futureSymbol l)" by (auto simp: inj_def dest: futureSymbol_inj)
  then have "inj_on (futureSymbol l) A" for A by (rule inj_on_subset) simp
  with poll_all_lists [OF run] show ?thesis by (simp add: run lists_new_def distinct_map)
qed

section \<open>Every poll succeeds inside the horizon\<close>

definition within :: "int \<Rightarrow> int \<Rightarrow> ExpirySchedule \<Rightarrow> bool" where
  "within epoch horizon s \<longleftrightarrow> 0 \<le> epoch \<and> epoch \<le> horizon \<and> horizon + sch_ListingInterval s \<le> MaxInt64 \<and>
     horizon + sch_TimeToExpiry s \<le> MaxInt64 \<and> sch_PhaseOffset s < sch_ListingInterval s"

lemma scheduledNano_total:
  assumes "schedule_ok s" "0 \<le> epoch" "0 \<le> k" "listing_time epoch s k \<le> MaxInt64"
  shows "scheduledNano epoch s k = Some (listing_time epoch s k)" "k < two64 - 1"
proof -
  let ?I = "sch_ListingInterval s" and ?P = "sch_PhaseOffset s"
  have I: "0 < ?I" "0 \<le> ?P" using assms(1) by (auto simp: schedule_ok_def)
  have kI: "0 \<le> k * ?I" "k \<le> k * ?I" using assms(3) I(1) by (simp_all add: mult_le_cancel_left1)
  have le: "k * ?I + ?P \<le> MaxInt64" "k * ?I \<le> MaxInt64" "epoch \<le> MaxInt64"
    using assms(2,4) kI I(2) by (simp_all add: listing_time_def)
  have is64: "is_i64 k" "is_i64 (k * ?I)" "is_i64 ?P" "is_i64 (k * ?I + ?P)" "is_i64 epoch" "is_i64 (epoch + (k * ?I + ?P))"
    using assms(2,3,4) kI le I(2) by (auto simp: is_i64_def listing_time_def)
  have "k \<le> MaxInt64 div ?I" using le(2) le_div_int_iff [OF I(1), of k MaxInt64] by simp
  moreover have "u64 (MaxInt64 sdiv ?I) = MaxInt64 div ?I"
  proof -
    have "MaxInt64 div ?I < MaxInt64 + 1" "0 \<le> MaxInt64 div ?I" using I(1) by (simp_all add: div_int_less_iff pos_imp_zdiv_nonneg_iff)
    then show ?thesis using I(1) by (simp add: sdiv_nonneg_eq) (intro u64_id, auto simp: is_u64_def)
  qed
  ultimately show "scheduledNano epoch s k = Some (listing_time epoch s k)"
    using is64 by (simp add: scheduledNano_def i64_id TryAdd_eq listing_time_def add.assoc)
  show "k < two64 - 1" using kI le(2) by simp
qed

lemma due_schedule_total:
  assumes "schedule_ok s" "within epoch T s" "now \<le> T" "0 \<le> i" "i = 0 \<or> listing_time epoch s (i - 1) \<le> T"
  shows "\<exists>r. due_schedule epoch now s i = Inr r"
  using assms
proof (induction epoch now s i rule: due_schedule.induct)
  case (1 epoch now s i)
  let ?l = "listing_time epoch s i"
  have "?l \<le> T + sch_ListingInterval s"
    using "1.prems"(2,5) by (auto simp: listing_time_def within_def algebra_simps)
  then have "?l \<le> MaxInt64" "0 \<le> epoch" using "1.prems"(2) by (auto simp: within_def)
  note S = scheduledNano_total [OF "1.prems"(1) this(2) "1.prems"(4) this(1)]
  show ?case
  proof (cases "now < ?l")
    case True
    with S show ?thesis by (subst due_schedule.simps) simp
  next
    case False
    have "is_i64 epoch" using "1.prems"(1,2) by (auto simp: is_i64_def within_def schedule_ok_def)
    then have "is_i64 ?l" using scheduledNano_Some(2) [OF "1.prems"(1) _ "1.prems"(4) S(1)] by simp
    moreover have "?l + sch_TimeToExpiry s \<le> MaxInt64" using False "1.prems"(2,3) by (simp add: within_def)
    ultimately have x: "TryAdd ?l (sch_TimeToExpiry s) = Some (?l + sch_TimeToExpiry s)"
      using "1.prems"(1) by (subst TryAdd_eq) (auto simp: schedule_ok_def is_i64_def)
    have "i \<noteq> two64 - 1" using S(2) by simp
    from "1.IH" [OF S(1) False x this "1.prems"(1-3)] "1.prems"(3,4) False obtain r where "due_schedule epoch now s (i + 1) = Inr r" by auto
    with S x False show ?thesis by (subst due_schedule.simps) (auto simp: map_sum_def)
  qed
qed

lemma due_schedules_total:
  assumes "distinct (map sch_Name ss)" "now \<le> T"
    "\<forall>s\<in>set ss. schedule_ok s \<and> within epoch T s \<and> 0 \<le> mget m (sch_Name s) \<and>
      (mget m (sch_Name s) = 0 \<or> listing_time epoch s (mget m (sch_Name s) - 1) \<le> T)"
  shows "\<exists>r. due_schedules epoch now ss m = Inr r"
  using assms
proof (induction ss arbitrary: m)
  case (Cons s ss)
  from Cons.prems have s: "schedule_ok s" "within epoch T s" "0 \<le> mget m (sch_Name s)"
    "mget m (sch_Name s) = 0 \<or> listing_time epoch s (mget m (sch_Name s) - 1) \<le> T" by auto
  from due_schedule_total [OF s(1,2) Cons.prems(2) s(3,4)] obtain rs i where one: "due_schedule epoch now s (mget m (sch_Name s)) = Inr (rs, i)"
    by auto
  let ?m = "if i = mget m (sch_Name s) then m else mput m (sch_Name s) i"
  have "mget ?m (sch_Name u) = mget m (sch_Name u)" if "u \<in> set ss" for u
    using Cons.prems(1) that by (auto simp: image_iff dest!: bspec)
  then obtain r where "due_schedules epoch now ss ?m = Inr r" using Cons.IH [of ?m] Cons.prems by auto
  with one show ?case by (cases r) auto
qed simp

section \<open>Every contract is listed\<close>

definition newly_due :: "int \<Rightarrow> ExpirySchedule list \<Rightarrow> int set \<Rightarrow> int \<Rightarrow> int set" where
  "newly_due epoch ss past now = {listing_time epoch s k + sch_TimeToExpiry s | s k. s \<in> set ss \<and> 0 \<le> k \<and>
     listing_time epoch s k \<le> now \<and> now < listing_time epoch s k + sch_TimeToExpiry s \<and> (\<forall>t\<in>past. t < listing_time epoch s k)}"

definition calendar_ok :: "int \<Rightarrow> int \<Rightarrow> ExpirySchedule list \<Rightarrow> bool" where
  "calendar_ok epoch horizon ss \<longleftrightarrow> Calendar_Validate ss = None \<and> (\<forall>s\<in>set ss. schedule_ok s \<and> within epoch horizon s)"

lemma image_pairs: "f ` {g s k | s k. P s k} = {f (g s k) | s k. P s k}"
  by blast

lemma poll_exact:
  assumes cal: "dl_Calendar l = Some ss" "calendar_ok (dl_CalendarEpochNano l) T ss"
    and cur: "cursor_at (dl_CalendarEpochNano l) ss past (dl_nextIndex l)" and le: "\<forall>t\<in>past. t \<le> T" "now \<le> T"
  shows "\<exists>out l'. PendingListings l now = (Inr out, l') \<and> cursor_at (dl_CalendarEpochNano l') ss (insert now past) (dl_nextIndex l') \<and>
     set (expiries out) = newly_due (dl_CalendarEpochNano l) ss past now - dl_listed l \<and> lists_new l out l'"
proof -
  let ?e = "dl_CalendarEpochNano l" and ?m = "dl_nextIndex l" and ?ss = "sort_key sch_Name ss"
  have v: "Calendar_Validate ss = None" "validate_schedules [] ss = None" "ss \<noteq> []" and ok: "\<forall>s\<in>set ss. schedule_ok s \<and> within ?e T s"
    using cal(2) by (auto simp: calendar_ok_def Calendar_Validate_def split: if_splits)
  have cursor: "0 \<le> mget ?m (sch_Name s) \<and> (mget ?m (sch_Name s) = 0 \<or> listing_time ?e s (mget ?m (sch_Name s) - 1) \<le> T)"
    if "s \<in> set ss" for s
  proof -
    have "0 \<le> mget ?m (sch_Name s)" and "\<forall>k\<ge>0. k < mget ?m (sch_Name s) \<longleftrightarrow> (\<exists>t\<in>past. listing_time ?e s k \<le> t)"
      using cur that by (auto simp: cursor_at_def)
    then show ?thesis using le(1) by (cases "mget ?m (sch_Name s) = 0") (force dest: spec [of _ "mget ?m (sch_Name s) - 1"])+
  qed
  have "distinct (map sch_Name ?ss)" using validated [OF v(2)] by (metis distinct_map distinct_sort set_sort)
  from due_schedules_total [OF this le(2)] ok cursor obtain r where "due_schedules ?e now ?ss ?m = Inr r" by fastforce
  then obtain rs m' where due: "due (Some ss) ?e now ?m = Inr (rs, m')" using v by (cases r) (auto simp: due_def)
  obtain s0 where "schedule_ok s0" "within ?e T s0" using ok v(3) by (cases ss) auto
  then have e: "is_i64 ?e" by (auto simp: is_i64_def within_def schedule_ok_def)
  have "\<forall>s\<in>set ss. is_i64 (sch_ListingInterval s) \<and> is_i64 (sch_TimeToExpiry s) \<and> is_i64 (sch_PhaseOffset s)"
    using ok by (simp add: schedule_ok_def)
  note D = due_exact [OF due e this cur]
  obtain out l1 where q: "list_requests l {} rs = (out, l1)" by force
  note Q = list_requests_lists [OF q]
  have "rq_expiryNano ` set rs = newly_due ?e ss past now"
    unfolding D(4) image_pairs newly_due_def by (simp add: contract_def)
  with D(1) Q cal due q show ?thesis
    by (auto simp: PendingListings_def pendingCalendarListings_def lists_new_def)
qed

lemma polls_exact:
  assumes "dl_Calendar l = Some ss" "calendar_ok (dl_CalendarEpochNano l) T ss"
    "cursor_at (dl_CalendarEpochNano l) ss past (dl_nextIndex l)" "\<forall>t\<in>past. t \<le> T" "\<forall>t\<in>set ts. t \<le> T"
  shows "\<exists>outs. fst (poll_all l ts) = map Inr outs \<and> length outs = length ts \<and>
     (\<forall>j<length ts. set (expiries (outs ! j)) = newly_due (dl_CalendarEpochNano l) ss (past \<union> set (take j ts)) (ts ! j) -
        dl_listed l - (\<Union>i<j. set (expiries (outs ! i))))"
  using assms
proof (induction ts arbitrary: l past)
  case (Cons t ts)
  let ?e = "dl_CalendarEpochNano l"
  from poll_exact [OF Cons.prems(1-4), of t] Cons.prems(5) obtain out l1 where p: "PendingListings l t = (Inr out, l1)"
    and cur: "cursor_at (dl_CalendarEpochNano l1) ss (insert t past) (dl_nextIndex l1)"
    and out: "set (expiries out) = newly_due ?e ss past t - dl_listed l" and new: "lists_new l out l1" by auto
  have l1: "dl_Calendar l1 = Some ss" "dl_CalendarEpochNano l1 = ?e" "dl_listed l1 = dl_listed l \<union> set (expiries out)"
    using new Cons.prems(1) by (simp_all add: lists_new_def)
  from Cons.IH [OF l1(1) _ cur] Cons.prems l1(2) obtain outs where o: "fst (poll_all l1 ts) = map Inr outs" "length outs = length ts"
    "\<forall>j<length ts. set (expiries (outs ! j)) = newly_due ?e ss (insert t past \<union> set (take j ts)) (ts ! j) -
        dl_listed l1 - (\<Union>i<j. set (expiries (outs ! i)))" by auto
  have "set (expiries ((out # outs) ! j)) = newly_due ?e ss (past \<union> set (take j (t # ts))) ((t # ts) ! j) - dl_listed l -
      (\<Union>i<j. set (expiries ((out # outs) ! i)))" if "j < length (t # ts)" for j
  proof (cases j)
    case 0
    with out show ?thesis by simp
  next
    case (Suc i)
    have "(\<Union>i<Suc i. set (expiries ((out # outs) ! i))) = set (expiries out) \<union> (\<Union>i<i. set (expiries (outs ! i)))"
      by (simp add: lessThan_Suc_eq_insert_0)
    with Suc that o(3) l1(3) show ?thesis by (auto simp: Un_commute insert_commute)
  qed
  moreover have "fst (poll_all l (t # ts)) = map Inr (out # outs)" using p o(1) by (simp add: fst_map_prod)
  ultimately show ?case using o(2) by (intro exI [of _ "out # outs"]) simp
qed simp

text \<open>C22: A lister in calendar mode that has listed nothing yet, with a valid calendar and poll times up to a
  horizon that the calendar's arithmetic can represent, never fails a poll. The expiries a poll lists are those
  of the contracts whose listing time this poll is the first to reach, which are not yet expired at the
  poll, and whose expiry no earlier poll listed for another schedule: none is missed and none is
  listed early, late or twice.\<close>

theorem calendar_lists_every_contract:
  assumes "dl_Calendar l = Some ss" "calendar_ok (dl_CalendarEpochNano l) T ss" "\<forall>t\<in>set ts. t \<le> T"
    and "dl_listed l = {}" "dl_nextIndex l = []"
  shows "\<exists>outs. fst (poll_all l ts) = map Inr outs \<and> length outs = length ts \<and>
     (\<forall>j<length ts. distinct (expiries (outs ! j)) \<and>
        set (expiries (outs ! j)) = newly_due (dl_CalendarEpochNano l) ss (set (take j ts)) (ts ! j) - (\<Union>i<j. set (expiries (outs ! i))))"
proof -
  have "cursor_at (dl_CalendarEpochNano l) ss {} (dl_nextIndex l)" using assms(5) by (simp add: cursor_at_def mget_def)
  from polls_exact [OF assms(1,2) this, of ts] assms(3,4) obtain outs where o: "fst (poll_all l ts) = map Inr outs" "length outs = length ts"
    "\<forall>j<length ts. set (expiries (outs ! j)) = newly_due (dl_CalendarEpochNano l) ss (set (take j ts)) (ts ! j) -
        (\<Union>i<j. set (expiries (outs ! i)))" by auto
  have "distinct (expiries (listed_by (fst (poll_all l ts))))"
    using poll_all_lists [of l ts] by (metis lists_new_def prod.collapse)
  then have "distinct (concat (map expiries outs))"
    by (simp add: o(1) listed_by_def expiries_def map_concat comp_def)
  then have "\<forall>j<length ts. distinct (expiries (outs ! j))"
    using o(2) by (auto simp: distinct_concat_iff)
  with o show ?thesis by blast
qed

definition sample_lister :: DatedFuturesLister where
  "sample_lister = \<lparr>dl_Underlying = ''ABC/USD'',
     dl_Spec = \<lparr>cs_Base = ''ABC'', cs_Quote = ''USD'', cs_BasePrecision = 100, cs_QuotePrecision = 100, cs_TickSize = 1, cs_MinOrderSize = 1\<rparr>,
     dl_Calendar = Some [\<lparr>sch_Name = ''weekly'', sch_ListingInterval = 10, sch_TimeToExpiry = 30, sch_PhaseOffset = 0\<rparr>,
                         \<lparr>sch_Name = ''monthly'', sch_ListingInterval = 20, sch_TimeToExpiry = 40, sch_PhaseOffset = 0\<rparr>],
     dl_CalendarEpochNano = 100, dl_TenorsNano = [], dl_DeliveryFeeBps = 0, dl_ObservationWindowNano = 0,
     dl_listed = {}, dl_nextExpiry = [], dl_nextIndex = []\<rparr>"

theorem calendar_lists_every_contract_witness:
  "\<exists>outs. fst (poll_all sample_lister [100, 125]) = map Inr outs \<and> length outs = length [100, 125 :: int] \<and>
     (\<forall>j<length [100, 125 :: int]. distinct (expiries (outs ! j)) \<and>
        set (expiries (outs ! j)) = newly_due (dl_CalendarEpochNano sample_lister) (the (dl_Calendar sample_lister))
          (set (take j [100, 125])) ([100, 125] ! j) - (\<Union>i<j. set (expiries (outs ! i))))"
  by (rule calendar_lists_every_contract [where T = 1000])
    (simp_all add: sample_lister_def calendar_ok_def Calendar_Validate_def schedule_ok_def within_def is_i64_def)

end
