(* ===== verification/Settlement_Price.thy ===== *)
theory Settlement_Price
  imports Expiry_Calendar
begin

text \<open>The settlement price of a dated future over a history of observations: what the rolling window keeps,
  the mean that is read from it, and that a price once read is final.\<close>

section \<open>The window\<close>

definition observe_all :: "(int64 \<times> int64) list \<Rightarrow> ExpiringFutures \<Rightarrow> ExpiringFutures" where
  "observe_all ps f = fold (\<lambda>(price, ts). ObserveSettlement price ts) ps f"

definition in_window :: "int \<Rightarrow> (int64 \<times> int64) list \<Rightarrow> (int64 \<times> int64) list" where
  "in_window w ps = filter (\<lambda>(_, ts). snd (last ps) - w \<le> ts) ps"

lemma dropWhile_sorted: "sorted (map f xs) \<Longrightarrow> dropWhile (\<lambda>x. f x < c) xs = filter (\<lambda>x. c \<le> f x) xs" for c :: int
  by (induction xs) (auto simp: not_less intro!: filter_True [symmetric])

lemma observe_all_window:
  assumes "sorted (map snd ps)" "\<forall>(p, t)\<in>set ps. is_i64 (t - w)" "ps \<noteq> []" "ob_obs (observer f) = []" "ob_windowNano (observer f) = w"
  shows "observer (observe_all ps f) = (observer f)\<lparr>ob_obs := in_window w ps, ob_last := Some (fst (last ps))\<rparr>"
  using assms(1-3)
proof (induction ps rule: rev_induct)
  case (snoc x ps)
  obtain p t where x: "x = (p, t)" by force
  have sorted: "sorted (map snd ps)" and le: "\<forall>y\<in>set ps. snd y \<le> t" and b: "is_i64 (t - w)"
    using snoc.prems(1,2) by (auto simp: x sorted_append)
  have run: "observe_all (ps @ [(p, t)]) f = ObserveSettlement p t (observe_all ps f)" by (simp add: observe_all_def)
  have cut: "dropWhile (\<lambda>(_, ts). ts < t - w) (ys @ [(p, t)]) = filter (\<lambda>(_, ts). t - w \<le> ts) (ys @ [(p, t)])"
    if "sorted (map snd ys)" "set ys \<subseteq> set ps" for ys
  proof -
    have "sorted (map snd (ys @ [(p, t)]))" using that le by (auto simp: sorted_append)
    from dropWhile_sorted [OF this] show ?thesis by (simp only: case_prod_unfold)
  qed
  show ?case
  proof (cases "ps = []")
    case True
    with b assms(4,5) show ?thesis
      using cut [of "[]"] by (simp add: run x observe_all_def ObserveSettlement_def observe_price_def in_window_def i64_id)
  next
    case False
    with snoc sorted have IH: "observer (observe_all ps f) = (observer f)\<lparr>ob_obs := in_window w ps, ob_last := Some (fst (last ps))\<rparr>"
      by auto
    have sub: "sorted (map snd (in_window w ps))" "set (in_window w ps) \<subseteq> set ps"
      using sorted by (auto simp: in_window_def sorted_filter)
    have old: "filter (\<lambda>(_, ts). t - w \<le> ts) (in_window w ps) = filter (\<lambda>(_, ts). t - w \<le> ts) ps"
      using bspec [OF le last_in_set [OF False]] by (auto simp: in_window_def filter_filter case_prod_unfold intro!: filter_cong)
    show ?thesis
      using cut [OF sub] old by (simp add: run IH x ObserveSettlement_def observe_price_def in_window_def [of w "ps @ [_]"] i64_id [OF b] assms(5))
  qed
qed simp

section \<open>The mean\<close>

lemma sdiv_between:
  assumes "0 < n" "n * a \<le> s" "s \<le> n * b"
  shows "a \<le> s sdiv n \<and> s sdiv n \<le> (b :: int)"
proof (cases "0 \<le> s")
  case True
  with assms have "s sdiv n = s div n" by (simp add: sdiv_nonneg_eq)
  moreover have "s div n \<le> b" using assms by (metis div_mult_self1_is_m mult.commute zdiv_mono1 nonzero_mult_div_cancel_left order_less_irrefl)
  ultimately show ?thesis using assms by (simp add: le_div_int_iff mult.commute)
next
  case False
  then have "s sdiv n = - (- s div n)" using assms(1) by (simp add: signed_divide_int_def sgn_if)
  moreover have "- s div n \<le> - a" 
  proof -
    have "- s div n \<le> n * (- a) div n" using assms by (intro zdiv_mono1) simp_all
    moreover have "n * (- a) div n = - a" using assms(1) by (intro nonzero_mult_div_cancel_left) simp
    ultimately show ?thesis by linarith
  qed
  ultimately show ?thesis using assms by (simp add: le_div_int_iff mult.commute flip: minus_le_iff)
qed

lemma sum_between: "\<forall>p\<in>set ps. a \<le> p \<and> p \<le> b \<Longrightarrow> int (length ps) * a \<le> sum_list ps \<and> sum_list ps \<le> int (length ps) * (b :: int)"
  by (induction ps) (auto simp: algebra_simps)

lemma observe_all_settled [simp]: "ob_settled (observer (observe_all qs f)) = ob_settled (observer f)"
  by (induction qs arbitrary: f) (auto simp: observe_all_def ObserveSettlement_def observe_price_def)

lemma settled_final: "ob_settled (observer f) = Some p \<Longrightarrow> fst (SettlementPrice (observe_all qs f)) = Some p"
  by (simp add: SettlementPrice_def settlementPrice_def settlementPriceWith_def)

text \<open>C23: A dated future that was never observed has no settlement price. Otherwise, with observations in time
  order and a non-negative window, the price first read is the mean, truncated toward zero, of the prices
  observed within the window before the last observation. It lies between the least and the greatest
  of them, even where their sum does not fit in 64 bits, and every later reading returns the same price whatever is observed in
  between.\<close>

theorem settlement_price_window_mean:
  assumes fresh: "ob_obs (observer f) = []" "ob_last (observer f) = None" "ob_settled (observer f) = None"
    and w: "0 \<le> ob_windowNano (observer f)" and times: "sorted (map snd ps)" "\<forall>(p, t)\<in>set ps. is_i64 p \<and> is_i64 (t - ob_windowNano (observer f))"
    and ne: "ps \<noteq> []"
  shows "let inside = in_window (ob_windowNano (observer f)) ps; read = SettlementPrice (observe_all ps f);
             price = sum_list (map fst inside) sdiv int (length inside)
    in fst (SettlementPrice f) = None \<and> fst read = Some price \<and>
       Min (fst ` set inside) \<le> price \<and> price \<le> Max (fst ` set inside) \<and>
       fst (SettlementPrice (observe_all qs (snd read))) = Some price"
proof -
  let ?w = "ob_windowNano (observer f)" let ?in = "in_window ?w ps" let ?n = "int (length ?in)" let ?s = "sum_list (map fst ?in)"
  have none: "fst (SettlementPrice f) = None"
    using fresh by (simp add: SettlementPrice_def settlementPrice_def settlementPriceWith_def)
  have "last ps \<in> set ?in" using ne w by (simp add: in_window_def case_prod_unfold)
  then have n: "0 < ?n" "?in \<noteq> []" by (auto intro: length_pos_if_in_set)
  have "Min (fst ` set ?in) \<le> fst x \<and> fst x \<le> Max (fst ` set ?in)" if "x \<in> set ?in" for x using that by simp
  then have b: "?n * Min (fst ` set ?in) \<le> ?s" "?s \<le> ?n * Max (fst ` set ?in)"
    using sum_between [of "map fst ?in" "Min (fst ` set ?in)" "Max (fst ` set ?in)"] by simp_all
  note B = sdiv_between [OF n(1) b]
  have "Min (fst ` set ?in) \<in> fst ` set ?in" "Max (fst ` set ?in) \<in> fst ` set ?in" using n(2) by simp_all
  then have "is_i64 (Min (fst ` set ?in))" "is_i64 (Max (fst ` set ?in))" using times(2) by (force simp: in_window_def)+
  with B have i: "i64 (?s sdiv ?n) = ?s sdiv ?n" by (intro i64_id) (auto simp: is_i64_def)
  have ob: "observer (observe_all ps f) = (observer f)\<lparr>ob_obs := ?in, ob_last := Some (fst (last ps))\<rparr>"
    using times by (intro observe_all_window ne fresh refl) auto
  have r: "SettlementPrice (observe_all ps f) =
      (Some (?s sdiv ?n), (observe_all ps f)\<lparr>observer := (observer (observe_all ps f))\<lparr>ob_settled := Some (?s sdiv ?n)\<rparr>\<rparr>)"
    using n(2) i fresh(3) by (simp add: SettlementPrice_def settlementPrice_def settlementPriceWith_def ob case_prod_unfold)
  have "fst (SettlementPrice (observe_all qs (snd (SettlementPrice (observe_all ps f))))) = Some (?s sdiv ?n)"
    unfolding r by (simp add: settled_final)
  with none r B show ?thesis by (simp add: Let_def)
qed

definition sample_future :: ExpiringFutures where
  "sample_future = SetObservationWindow 10 (NewExpiringFutures ''ABC-FUT-1'' ''ABC'' ''USD'' 100 100 1 1 1000000000)"

theorem settlement_price_window_mean_witness:
  "let inside = in_window 10 [(500, 5), (103, 20), (110, 25), (100, 30)]; read = SettlementPrice (observe_all [(500, 5), (103, 20), (110, 25), (100, 30)] sample_future);
       price = sum_list (map fst inside) sdiv int (length inside)
   in fst (SettlementPrice sample_future) = None \<and> fst read = Some price \<and>
      Min (fst ` set inside) \<le> price \<and> price \<le> Max (fst ` set inside) \<and>
      fst (SettlementPrice (observe_all [(900, 31)] (snd read))) = Some price"
proof -
  have ob: "observer sample_future = \<lparr>ob_windowNano = 10, ob_obs = [], ob_settled = None, ob_last = None\<rparr>"
    by (simp add: sample_future_def SetObservationWindow_def NewExpiringFutures_def PerpFutures.defs ExpiringFutures.defs NewPerpFutures_def)
  show ?thesis
    using settlement_price_window_mean [of sample_future "[(500, 5), (103, 20), (110, 25), (100, 30)]" "[(900, 31)]"]
    by (simp add: ob is_i64_def)
qed

end
