(* ===== verification/Funding_Calendar.thy ===== *)
theory Funding_Calendar
  imports Prelude Complex_Main
begin

text \<open>The funding calendar and the windowed funding rate (\<open>instrument/funding_calendar.go\<close>). The code computes
  with \<open>big.Int\<close> and \<open>big.Rat\<close>, which are \<open>int\<close> and \<open>rat\<close> here; a \<open>big.Rat\<close> keeps its fraction in lowest
  terms, as \<open>quotient_of\<close> does. Fields and results are 64-bit. Errors are values of \<open>funding_error\<close>.\<close>

section \<open>Scheduled instants\<close>

record FundingCalendar =
  fc_EpochNano :: int64
  fc_IntervalSeconds :: int64
  fc_PhaseSeconds :: int64

datatype funding_error = InvalidCalendar | InstantOverflow | CycleOverflow | InvalidUnits | NotWholeBps | InvalidContract | BadSample nat |
  RateOverflow | InvalidMark

definition ScheduledAt :: "FundingCalendar \<Rightarrow> int64 \<Rightarrow> funding_error + int64" where
  "ScheduledAt calendar cycle =
     (if fc_EpochNano calendar < 0 \<or> fc_IntervalSeconds calendar \<le> 0 \<or> fc_PhaseSeconds calendar < 0 \<or>
         fc_PhaseSeconds calendar \<ge> fc_IntervalSeconds calendar \<or> cycle < 1 then Inl InvalidCalendar
      else (let nanoseconds = (cycle * fc_IntervalSeconds calendar + fc_PhaseSeconds calendar) * 1000000000 + fc_EpochNano calendar
            in if \<not> is_i64 nanoseconds then Inl InstantOverflow else Inr nanoseconds))"

definition NextAtOrAfter :: "FundingCalendar \<Rightarrow> int64 \<Rightarrow> funding_error + int64" where
  "NextAtOrAfter calendar atNano =
     (case ScheduledAt calendar 1 of
        Inl err \<Rightarrow> Inl err
      | Inr first \<Rightarrow>
          if atNano \<le> first then Inr first
          else (let intervalNano = fc_IntervalSeconds calendar * 1000000000;
                    delta = atNano - first;
                    cyclesAfterFirst = delta sdiv intervalNano + (if delta smod intervalNano \<noteq> 0 then 1 else 0) + 1
                in if \<not> is_i64 cyclesAfterFirst then Inl CycleOverflow else ScheduledAt calendar cyclesAfterFirst))"

section \<open>Quantized rates\<close>

record QuantizedFundingRate =
  signedUnits :: int64
  unitsPerBp :: int64

definition NewQuantizedFundingRate :: "int64 \<Rightarrow> int64 \<Rightarrow> funding_error + QuantizedFundingRate" where
  "NewQuantizedFundingRate units perBp =
     (if perBp \<le> 0 then Inl InvalidUnits else Inr \<lparr>signedUnits = units, unitsPerBp = perBp\<rparr>)"

definition ExactIntegerBps :: "QuantizedFundingRate \<Rightarrow> funding_error + int64" where
  "ExactIntegerBps rate =
     (if unitsPerBp rate \<le> 0 \<or> signedUnits rate smod unitsPerBp rate \<noteq> 0 then Inl NotWholeBps
      else Inr (i64 (signedUnits rate sdiv unitsPerBp rate)))"

definition roundRationalHalfEven :: "rat \<Rightarrow> int64 \<Rightarrow> funding_error + int64" where
  "roundRationalHalfEven v unitsPerWhole =
     (let scaled = v * of_int unitsPerWhole;
          (num, denom) = quotient_of scaled;
          quotient = \<bar>num\<bar> div denom;
          twiceRemainder = \<bar>num\<bar> mod denom * 2;
          quotient = (if twiceRemainder > denom \<or> twiceRemainder = denom \<and> odd quotient then quotient + 1 else quotient);
          quotient = (if scaled < 0 then - quotient else quotient)
      in if \<not> is_i64 quotient then Inl RateOverflow else Inr quotient)"

section \<open>The windowed rate\<close>

record FundingWindowSample =
  ws_TimestampNano :: int64
  ws_IndexPrice :: int64
  ws_MarkPrice :: int64

record WindowedFundingRateContract =
  wc_SampleCount :: int64
  wc_SampleSpacingNano :: int64
  wc_BaseRateBps :: int64
  wc_PremiumWeightNumerator :: int64
  wc_PremiumWeightDenominator :: int64
  wc_MaxAbsRateBps :: int64
  wc_NormalizationSeconds :: int64
  wc_RateUnitsPerBp :: int64

fun premium_sum :: "WindowedFundingRateContract \<Rightarrow> int64 \<Rightarrow> nat \<Rightarrow> FundingWindowSample list \<Rightarrow> funding_error + rat" where
  "premium_sum contract settlementNano index [] = Inr 0"
| "premium_sum contract settlementNano index (sample # samples) =
     (let expected = settlementNano - (wc_SampleCount contract - int index) * wc_SampleSpacingNano contract
      in if \<not> is_i64 expected \<or> expected < 0 \<or> ws_TimestampNano sample \<noteq> expected \<or> ws_IndexPrice sample \<le> 0 \<or> ws_MarkPrice sample \<le> 0
         then Inl (BadSample index)
         else map_sum id ((+) (Rat.Fract ((ws_MarkPrice sample - ws_IndexPrice sample) * 10000) (ws_IndexPrice sample)))
                (premium_sum contract settlementNano (index + 1) samples))"

definition RateAt :: "WindowedFundingRateContract \<Rightarrow> int64 \<Rightarrow> int64 \<Rightarrow> FundingWindowSample list \<Rightarrow> funding_error + QuantizedFundingRate" where
  "RateAt contract settlementNano intervalSeconds samples =
     (if wc_SampleCount contract \<le> 0 \<or> wc_SampleSpacingNano contract \<le> 0 \<or> wc_PremiumWeightDenominator contract \<le> 0 \<or>
         wc_MaxAbsRateBps contract < 0 \<or> wc_NormalizationSeconds contract \<le> 0 \<or> wc_RateUnitsPerBp contract \<le> 0 \<or>
         intervalSeconds \<le> 0 \<or> settlementNano < 0 \<or> int (length samples) \<noteq> wc_SampleCount contract then Inl InvalidContract
      else case premium_sum contract settlementNano 0 samples of
        Inl err \<Rightarrow> Inl err
      | Inr premiumSum \<Rightarrow>
          (let meanPremium = premiumSum / of_int (wc_SampleCount contract);
               weight = Rat.Fract (wc_PremiumWeightNumerator contract) (wc_PremiumWeightDenominator contract);
               perNormalization = of_int (wc_BaseRateBps contract) + meanPremium * weight;
               timeScale = Rat.Fract intervalSeconds (wc_NormalizationSeconds contract);
               perSettlement = perNormalization * timeScale;
               capRate = of_int (wc_MaxAbsRateBps contract) * timeScale;
               perSettlement = (if perSettlement > capRate then capRate else if perSettlement < - capRate then - capRate else perSettlement)
           in case roundRationalHalfEven perSettlement (wc_RateUnitsPerBp contract) of
                Inl err \<Rightarrow> Inl err
              | Inr quantized \<Rightarrow> NewQuantizedFundingRate quantized (wc_RateUnitsPerBp contract)))"

record FundingSettlementTerms =
  ft_Rate :: QuantizedFundingRate
  ft_NotionalMarkPrice :: int64

definition SettlementTermsAt :: "WindowedFundingRateContract \<Rightarrow> int64 \<Rightarrow> int64 \<Rightarrow> FundingWindowSample list \<Rightarrow> funding_error + FundingSettlementTerms" where
  "SettlementTermsAt contract settlementNano intervalSeconds samples =
     (case RateAt contract settlementNano intervalSeconds samples of
        Inl err \<Rightarrow> Inl err
      | Inr rate \<Rightarrow>
          (case roundRationalHalfEven (Rat.Fract (\<Sum>sample\<leftarrow>samples. ws_MarkPrice sample) (int (length samples))) 1 of
             Inl _ \<Rightarrow> Inl InvalidMark
           | Inr markPrice \<Rightarrow> if markPrice \<le> 0 then Inl InvalidMark else Inr \<lparr>ft_Rate = rate, ft_NotionalMarkPrice = markPrice\<rparr>))"

section \<open>The next instant\<close>

definition calendar_valid :: "FundingCalendar \<Rightarrow> bool" where
  "calendar_valid c \<longleftrightarrow> 0 \<le> fc_EpochNano c \<and> 0 < fc_IntervalSeconds c \<and> 0 \<le> fc_PhaseSeconds c \<and> fc_PhaseSeconds c < fc_IntervalSeconds c"

definition instant :: "FundingCalendar \<Rightarrow> int \<Rightarrow> int" where
  "instant c n = (n * fc_IntervalSeconds c + fc_PhaseSeconds c) * 1000000000 + fc_EpochNano c"

lemma instant_mono: "calendar_valid c \<Longrightarrow> m \<le> n \<Longrightarrow> instant c m \<le> instant c n"
  by (simp add: instant_def calendar_valid_def mult_right_mono)

lemma instant_step: "instant c n = instant c 1 + (n - 1) * (fc_IntervalSeconds c * 1000000000)"
  by (simp add: instant_def algebra_simps)

lemma ScheduledAt_iff: "ScheduledAt c n = Inr u \<longleftrightarrow> calendar_valid c \<and> 1 \<le> n \<and> u = instant c n \<and> u \<le> MaxInt64"
proof (cases "calendar_valid c \<and> 1 \<le> n")
  case True
  then have "0 \<le> instant c n"
    by (auto simp: instant_def calendar_valid_def intro!: add_nonneg_nonneg mult_nonneg_nonneg)
  then have "is_i64 (instant c n) \<longleftrightarrow> instant c n \<le> MaxInt64" by (auto simp: is_i64_def)
  with True have "ScheduledAt c n = (if instant c n \<le> MaxInt64 then Inr (instant c n) else Inl InstantOverflow)"
    by (simp add: ScheduledAt_def Let_def calendar_valid_def instant_def)
  with True show ?thesis by auto
qed (auto simp: ScheduledAt_def calendar_valid_def)

lemma sdiv_up:
  assumes "0 < (n::int)" "0 < d"
  defines "c \<equiv> d sdiv n + (if d smod n \<noteq> 0 then 1 else 0)"
  shows "d \<le> c * n" "(c - 1) * n < d" "0 \<le> c"
proof -
  have nn: "d sdiv n = d div n" "d smod n = d mod n"
    using assms(1,2) by (simp_all add: sdiv_nonneg_eq smod_int_alt_def)
  have e: "d = d div n * n + d mod n" by simp
  have "0 \<le> d mod n" "d mod n < n" "0 \<le> d div n" using assms(1,2) by (simp_all add: pos_imp_zdiv_nonneg_iff)
  with e assms(1) show "d \<le> c * n" "(c - 1) * n < d" "0 \<le> c"
    unfolding c_def nn by (cases "d mod n = 0"; simp add: distrib_right left_diff_distrib; linarith)+
qed

text \<open>The cycle the code computes is the first at or after the requested time.\<close>

lemma NextAtOrAfter_cycle:
  assumes "calendar_valid c" "instant c 1 \<le> MaxInt64"
  obtains n where "1 \<le> n" "ts \<le> instant c n" "\<forall>m\<ge>1. ts \<le> instant c m \<longrightarrow> n \<le> m"
    "NextAtOrAfter c ts = (if \<not> is_i64 n then Inl CycleOverflow else ScheduledAt c n)"
proof (cases "ts \<le> instant c 1")
  case True
  moreover have "ScheduledAt c 1 = Inr (instant c 1)" using assms by (simp add: ScheduledAt_iff)
  ultimately show ?thesis using that [of 1] by (simp add: NextAtOrAfter_def is_i64_def)
next
  case False
  let ?n = "fc_IntervalSeconds c * 1000000000" let ?d = "ts - instant c 1"
  let ?c = "?d sdiv ?n + (if ?d smod ?n \<noteq> 0 then 1 else 0)"
  have pos: "0 < ?n" "0 < ?d" using assms(1) False by (simp_all add: calendar_valid_def)
  note up = sdiv_up [OF pos]
  have "?c + 1 \<le> m" if "ts \<le> instant c m" for m
  proof -
    have "(?c - 1) * ?n < (m - 1) * ?n" using up(2) that unfolding instant_step [of c m] by linarith
    then show ?thesis using pos(1) by simp
  qed
  moreover have "ts \<le> instant c (?c + 1)" using up(1) by (simp add: instant_step [of c "?c + 1"])
  moreover have "ScheduledAt c 1 = Inr (instant c 1)" using assms by (simp add: ScheduledAt_iff)
  ultimately show ?thesis using that [of "?c + 1"] up(3) False by (simp add: NextAtOrAfter_def Let_def)
qed

text \<open>The next funding instant is exact: a returned instant is scheduled, is not before the requested time, and
  no scheduled instant lies between the two; an error is returned only when no cycle of the calendar
  has a representable instant at or after the requested time.\<close>

theorem next_funding_instant:
  "case NextAtOrAfter calendar atNano of
     Inr t \<Rightarrow> atNano \<le> t \<and> (\<exists>cycle. is_i64 cycle \<and> ScheduledAt calendar cycle = Inr t) \<and>
       (\<nexists>cycle u. ScheduledAt calendar cycle = Inr u \<and> atNano \<le> u \<and> u < t)
   | Inl err \<Rightarrow> \<nexists>cycle u. is_i64 cycle \<and> ScheduledAt calendar cycle = Inr u \<and> atNano \<le> u"
proof (cases "calendar_valid calendar \<and> instant calendar 1 \<le> MaxInt64")
  case False
  then have "ScheduledAt calendar cycle \<noteq> Inr u" for cycle u
    using instant_mono [of calendar 1 cycle] by (auto simp: ScheduledAt_iff)
  then show ?thesis by (auto simp: NextAtOrAfter_def split: sum.splits)
next
  case True
  then obtain n where n: "1 \<le> n" "atNano \<le> instant calendar n" "\<forall>m\<ge>1. atNano \<le> instant calendar m \<longrightarrow> n \<le> m"
    and run: "NextAtOrAfter calendar atNano = (if \<not> is_i64 n then Inl CycleOverflow else ScheduledAt calendar n)"
    by (auto intro: NextAtOrAfter_cycle [of calendar atNano])
  have mono: "instant calendar n \<le> instant calendar m" if "1 \<le> m" "atNano \<le> instant calendar m" for m
    using True n(3) that instant_mono by blast
  show ?thesis
  proof (cases "is_i64 n \<and> instant calendar n \<le> MaxInt64")
    case ok: True
    then have "ScheduledAt calendar n = Inr (instant calendar n)" using True n(1) by (simp add: ScheduledAt_iff)
    with ok n run mono show ?thesis by (fastforce simp: ScheduledAt_iff)
  next
    case bad: False
    then have "\<exists>err. NextAtOrAfter calendar atNano = Inl err"
      using run by (cases "ScheduledAt calendar n") (auto simp: ScheduledAt_iff)
    moreover have "\<not> (is_i64 m \<and> 1 \<le> m \<and> atNano \<le> instant calendar m \<and> instant calendar m \<le> MaxInt64)" for m
      using bad n(1,3) mono [of m] by (auto simp: is_i64_def)
    ultimately show ?thesis by (auto simp: ScheduledAt_iff)
  qed
qed

end
