(* ===== verification/Funding_Window.thy ===== *)
theory Funding_Window
  imports Funding_Calendar
begin

text \<open>The windowed funding rate against its specification: rounding is to the nearest unit with ties to even,
  a rate is produced exactly for a complete window of past samples, and it is the rounded, capped,
  time-scaled mean premium.\<close>

section \<open>Rounding\<close>

definition nearest_even :: "rat \<Rightarrow> int \<Rightarrow> bool" where
  "nearest_even x r \<longleftrightarrow> \<bar>of_int r - x\<bar> \<le> 1 / 2 \<and> (\<bar>of_int r - x\<bar> = 1 / 2 \<longrightarrow> even r)"

lemma nearest_even_unique:
  assumes "nearest_even x r" "nearest_even x s"
  shows "r = s"
proof (rule ccontr)
  assume "r \<noteq> s"
  then have "1 \<le> \<bar>r - s\<bar>" by simp
  then have "(1 :: rat) \<le> \<bar>of_int r - of_int s\<bar>" by (metis of_int_1_le_iff of_int_abs of_int_diff)
  moreover have "\<bar>of_int r - of_int s :: rat\<bar> \<le> \<bar>of_int r - x\<bar> + \<bar>of_int s - x\<bar>" by simp
  ultimately have half: "\<bar>of_int r - x\<bar> = 1 / 2" "\<bar>of_int s - x\<bar> = 1 / 2" and one: "\<bar>of_int r - of_int s :: rat\<bar> = 1"
    using assms by (auto simp: nearest_even_def abs_if split: if_splits)
  have "even r" "even s" using assms half by (auto simp: nearest_even_def)
  moreover have "\<bar>r - s\<bar> = 1" using one by (metis of_int_1 of_int_abs of_int_diff of_int_eq_iff)
  ultimately show False by presburger
qed

lemma nearest_even_minus: "nearest_even (- x) (- r) \<longleftrightarrow> nearest_even x r"
  by (simp add: nearest_even_def abs_if algebra_simps)

lemma nearest_even_quotient:
  assumes "0 < d" "0 \<le> n"
  shows "nearest_even (of_int n / of_int d)
     (if n mod d * 2 > d \<or> n mod d * 2 = d \<and> odd (n div d) then n div d + 1 else n div d)"
proof -
  let ?q = "n div d" and ?m = "n mod d"
  have m: "0 \<le> ?m" "?m < d" using assms(1) by simp_all
  have "(of_int n :: rat) = of_int ?q * of_int d + of_int ?m" by (metis div_mult_mod_eq of_int_add of_int_mult)
  then have x: "(of_int n / of_int d :: rat) = of_int ?q + of_int ?m / of_int d" using assms(1) by (simp add: field_simps)
  have cmp: "(of_int ?m / of_int d :: rat) < 1 / 2 \<longleftrightarrow> ?m * 2 < d" "(of_int ?m / of_int d :: rat) = 1 / 2 \<longleftrightarrow> ?m * 2 = d"
  proof -
    have "(of_int (?m * 2) :: rat) < of_int d \<longleftrightarrow> ?m * 2 < d" "(of_int (?m * 2) :: rat) = of_int d \<longleftrightarrow> ?m * 2 = d"
      by (rule of_int_less_iff of_int_eq_iff)+
    moreover have "(0 :: rat) < of_int d" using assms(1) by simp
    ultimately show "(of_int ?m / of_int d :: rat) < 1 / 2 \<longleftrightarrow> ?m * 2 < d" "(of_int ?m / of_int d :: rat) = 1 / 2 \<longleftrightarrow> ?m * 2 = d"
      by (simp_all add: divide_less_eq divide_eq_eq)
  qed
  have "0 \<le> (of_int ?m / of_int d :: rat)" "(of_int ?m / of_int d :: rat) < 1" using m by simp_all
  with cmp show ?thesis
    by (cases "?m * 2 < d"; cases "?m * 2 = d"; auto simp: nearest_even_def x abs_if)
qed

lemma nearest_even_exists: "\<exists>r. nearest_even x r"
proof -
  have nonneg: "\<exists>r. nearest_even y r" if "0 \<le> y" for y
  proof -
    obtain n d where q: "quotient_of y = (n, d)" by force
    then have "0 \<le> n" using that quotient_of_denom_pos [OF q] quotient_of_div [OF q] by (simp add: zero_le_divide_iff)
    with nearest_even_quotient [OF quotient_of_denom_pos [OF q]] quotient_of_div [OF q] show ?thesis by metis
  qed
  show ?thesis
  proof (cases "0 \<le> x")
    case False
    then obtain r where "nearest_even (- x) (- (- r))" using nonneg [of "- x"] by auto
    then show ?thesis unfolding nearest_even_minus by blast
  qed (rule nonneg)
qed

text \<open>The code's rounding is exactly this notion, and it fails only where the result does not fit.\<close>

lemma roundRationalHalfEven_iff:
  "roundRationalHalfEven v u = Inr r \<longleftrightarrow> is_i64 r \<and> nearest_even (v * of_int u) r"
proof -
  let ?x = "v * of_int u"
  obtain n d where q: "quotient_of ?x = (n, d)" by force
  have d: "0 < d" and x: "?x = of_int n / of_int d" using quotient_of_denom_pos [OF q] quotient_of_div [OF q] by simp_all
  let ?k = "if \<bar>n\<bar> mod d * 2 > d \<or> \<bar>n\<bar> mod d * 2 = d \<and> odd (\<bar>n\<bar> div d) then \<bar>n\<bar> div d + 1 else \<bar>n\<bar> div d"
  let ?r = "if ?x < 0 then - ?k else ?k"
  have run: "roundRationalHalfEven v u = (if is_i64 ?r then Inr ?r else Inl RateOverflow)"
    by (simp add: roundRationalHalfEven_def q Let_def)
  have "\<bar>?x\<bar> = of_int \<bar>n\<bar> / of_int d" using d by (simp add: x)
  with nearest_even_quotient [OF d, of "\<bar>n\<bar>"] have "nearest_even \<bar>?x\<bar> ?k" by simp
  then have "nearest_even ?x ?r" using nearest_even_minus [of ?x "- ?k"] by (cases "?x < 0") simp_all
  with run nearest_even_unique show ?thesis by (auto split: if_splits)
qed

lemma nearest_even_between: "nearest_even x r \<Longrightarrow> of_int a \<le> x \<Longrightarrow> x \<le> of_int b \<Longrightarrow> a \<le> r \<and> r \<le> b"
proof -
  assume n: "nearest_even x r" and a: "of_int a \<le> x" and b: "x \<le> of_int b"
  have "\<not> r + 1 \<le> a"
  proof
    assume "r + 1 \<le> a"
    then have "(of_int r :: rat) + 1 \<le> of_int a" by (metis of_int_1 of_int_add of_int_le_iff)
    with n a show False by (auto simp: nearest_even_def abs_if split: if_splits)
  qed
  moreover have "\<not> b + 1 \<le> r"
  proof
    assume "b + 1 \<le> r"
    then have "(of_int b :: rat) + 1 \<le> of_int r" by (metis of_int_1 of_int_add of_int_le_iff)
    with n b show False by (auto simp: nearest_even_def abs_if split: if_splits)
  qed
  ultimately show ?thesis by simp
qed

section \<open>The rate\<close>

definition contract_valid :: "WindowedFundingRateContract \<Rightarrow> bool" where
  "contract_valid c \<longleftrightarrow> 0 < wc_SampleCount c \<and> 0 < wc_SampleSpacingNano c \<and> 0 < wc_PremiumWeightDenominator c \<and>
     0 \<le> wc_MaxAbsRateBps c \<and> 0 < wc_NormalizationSeconds c \<and> 0 < wc_RateUnitsPerBp c"

definition sample_at :: "WindowedFundingRateContract \<Rightarrow> int \<Rightarrow> nat \<Rightarrow> FundingWindowSample \<Rightarrow> bool" where
  "sample_at c t k s \<longleftrightarrow> ws_TimestampNano s = t - (wc_SampleCount c - int k) * wc_SampleSpacingNano c \<and>
     0 \<le> ws_TimestampNano s \<and> is_i64 (ws_TimestampNano s) \<and> 0 < ws_IndexPrice s \<and> 0 < ws_MarkPrice s"

definition complete_window :: "WindowedFundingRateContract \<Rightarrow> int \<Rightarrow> FundingWindowSample list \<Rightarrow> bool" where
  "complete_window c t ss \<longleftrightarrow> int (length ss) = wc_SampleCount c \<and> (\<forall>k<length ss. sample_at c t k (ss ! k))"

definition premium :: "FundingWindowSample \<Rightarrow> rat" where
  "premium s = of_int (ws_MarkPrice s - ws_IndexPrice s) * 10000 / of_int (ws_IndexPrice s)"

definition capped_rate :: "WindowedFundingRateContract \<Rightarrow> int \<Rightarrow> FundingWindowSample list \<Rightarrow> rat" where
  "capped_rate c interval ss =
     (let scale = of_int interval / of_int (wc_NormalizationSeconds c); limit = of_int (wc_MaxAbsRateBps c) * scale;
          mean = sum_list (map premium ss) / of_int (wc_SampleCount c);
          rate = (of_int (wc_BaseRateBps c) + mean * (of_int (wc_PremiumWeightNumerator c) / of_int (wc_PremiumWeightDenominator c))) * scale
      in max (- limit) (min limit rate))"

lemma premium_sum_iff:
  "premium_sum c t i ss = Inr p \<longleftrightarrow> (\<forall>k<length ss. sample_at c t (i + k) (ss ! k)) \<and> p = sum_list (map premium ss)"
proof (induction ss arbitrary: i p)
  case (Cons s ss)
  have frac: "Rat.Fract ((ws_MarkPrice s - ws_IndexPrice s) * 10000) (ws_IndexPrice s) = premium s"
    by (simp add: premium_def Fract_of_int_quotient)
  have "premium_sum c t i (s # ss) =
      (if sample_at c t i s then map_sum id ((+) (premium s)) (premium_sum c t (i + 1) ss) else Inl (BadSample i))"
    unfolding premium_sum.simps frac by (auto simp: sample_at_def Let_def)
  then have "premium_sum c t i (s # ss) = Inr p \<longleftrightarrow> sample_at c t i s \<and> (\<exists>p'. premium_sum c t (i + 1) ss = Inr p' \<and> p = premium s + p')"
    by (cases "premium_sum c t (i + 1) ss") auto
  moreover have "(\<forall>k<length (s # ss). sample_at c t (i + k) ((s # ss) ! k)) \<longleftrightarrow>
      sample_at c t i s \<and> (\<forall>k<length ss. sample_at c t (i + 1 + k) (ss ! k))"
    by (auto simp: less_Suc_eq_0_disj)
  ultimately show ?case by (auto simp: Cons.IH)
qed auto

lemma RateAt_eq:
  assumes "contract_valid c" "0 < i" "0 \<le> t" "complete_window c t ss"
  shows "RateAt c t i ss = (case roundRationalHalfEven (capped_rate c i ss) (wc_RateUnitsPerBp c) of
     Inl err \<Rightarrow> Inl err | Inr q \<Rightarrow> Inr \<lparr>signedUnits = q, unitsPerBp = wc_RateUnitsPerBp c\<rparr>)"
proof -
  have cap: "0 \<le> of_int (wc_MaxAbsRateBps c) * (of_int i / of_int (wc_NormalizationSeconds c) :: rat)"
    using assms(1,2) by (simp add: contract_valid_def)
  have sum: "premium_sum c t 0 ss = Inr (sum_list (map premium ss))"
    using assms(4) by (simp add: premium_sum_iff complete_window_def)
  have clamp: "(if x > l then l else if x < - l then - l else x) = max (- l) (min l x)" if "0 \<le> l" for l x :: rat
    using that by (simp add: min_def max_def)
  show ?thesis
    using assms sum unfolding RateAt_def capped_rate_def Let_def Fract_of_int_quotient clamp [OF cap] NewQuantizedFundingRate_def
    by (auto simp: contract_valid_def complete_window_def split: sum.splits)
qed

lemma RateAt_valid:
  "RateAt c t i ss = Inr rate \<Longrightarrow> contract_valid c \<and> 0 < i \<and> 0 \<le> t \<and> complete_window c t ss"
  by (auto simp: RateAt_def contract_valid_def complete_window_def premium_sum_iff split: if_splits sum.splits)

text \<open>C24: The windowed funding rate is computed exactly when the contract and the interval are valid and the window is
  complete: the expected number of samples, each at its exact time before the settlement, with positive
  prices. It is then the base rate plus the weighted mean premium, scaled to the
  interval and clamped to the scaled cap, rounded to the nearest unit with ties to even; it is an error
  only where the rounded rate does not fit in 64 bits.\<close>

theorem windowed_rate_exact:
  "RateAt contract settlementNano intervalSeconds samples = Inr rate \<longleftrightarrow>
     contract_valid contract \<and> 0 < intervalSeconds \<and> 0 \<le> settlementNano \<and> complete_window contract settlementNano samples \<and>
     unitsPerBp rate = wc_RateUnitsPerBp contract \<and> is_i64 (signedUnits rate) \<and>
     nearest_even (capped_rate contract intervalSeconds samples * of_int (wc_RateUnitsPerBp contract)) (signedUnits rate)"
  (is "_ = Inr rate \<longleftrightarrow> ?R")
proof (cases "contract_valid contract \<and> 0 < intervalSeconds \<and> 0 \<le> settlementNano \<and> complete_window contract settlementNano samples")
  case True
  then show ?thesis
    by (cases "roundRationalHalfEven (capped_rate contract intervalSeconds samples) (wc_RateUnitsPerBp contract)")
      (auto simp: RateAt_eq roundRationalHalfEven_iff [symmetric])
next
  case False
  then show ?thesis using RateAt_valid by blast
qed

section \<open>Settlement terms\<close>

lemma capped_rate_bound:
  assumes "contract_valid c" "0 < i"
  shows "\<bar>capped_rate c i ss\<bar> \<le> of_int (wc_MaxAbsRateBps c) * (of_int i / of_int (wc_NormalizationSeconds c))"
proof -
  have "0 \<le> of_int (wc_MaxAbsRateBps c) * (of_int i / of_int (wc_NormalizationSeconds c) :: rat)"
    using assms by (simp add: contract_valid_def)
  then show ?thesis by (simp add: capped_rate_def Let_def abs_le_iff)
qed

lemma mean_between:
  assumes "xs \<noteq> []" "\<forall>x\<in>set xs. a \<le> x \<and> x \<le> b"
  shows "of_int a \<le> (of_int (sum_list xs) / of_int (int (length xs)) :: rat) \<and> of_int (sum_list xs) / of_int (int (length xs)) \<le> (of_int b :: rat)"
proof -
  have "int (length xs) * a \<le> sum_list xs \<and> sum_list xs \<le> int (length xs) * b"
    using assms(2) by (induction xs) (auto simp: algebra_simps)
  then have "(of_int (int (length xs) * a) :: rat) \<le> of_int (sum_list xs)" "(of_int (sum_list xs) :: rat) \<le> of_int (int (length xs) * b)"
    by (simp_all only: of_int_le_iff)
  then show ?thesis using assms(1) by (simp add: field_simps)
qed

lemma RateAt_units_bound:
  assumes rate: "RateAt c t i ss = Inr rate"
  shows "\<bar>of_int (signedUnits rate)\<bar> \<le> of_int (wc_MaxAbsRateBps c * wc_RateUnitsPerBp c) *
    (of_int i / of_int (wc_NormalizationSeconds c)) + (1 / 2 :: rat)"
proof -
  note valid = RateAt_valid [OF rate]
  let ?r = "capped_rate c i ss" and ?u = "of_int (wc_RateUnitsPerBp c) :: rat"
  have "roundRationalHalfEven ?r (wc_RateUnitsPerBp c) = Inr (signedUnits rate)"
    using rate valid by (auto simp: RateAt_eq split: sum.splits)
  then have "\<bar>of_int (signedUnits rate) - ?r * ?u\<bar> \<le> 1 / 2" by (simp add: roundRationalHalfEven_iff nearest_even_def)
  moreover have "\<bar>?r * ?u\<bar> \<le> of_int (wc_MaxAbsRateBps c) * (of_int i / of_int (wc_NormalizationSeconds c)) * ?u"
    using capped_rate_bound [of c i ss] valid unfolding abs_mult
    by (intro mult_mono) (auto simp: contract_valid_def)
  moreover have "\<bar>of_int (signedUnits rate)\<bar> \<le> \<bar>of_int (signedUnits rate) - ?r * ?u\<bar> + \<bar>?r * ?u\<bar>"
    using abs_triangle_ineq [of "of_int (signedUnits rate) - ?r * ?u" "?r * ?u"] by simp
  ultimately have "\<bar>of_int (signedUnits rate)\<bar> \<le> of_int (wc_MaxAbsRateBps c) * (of_int i / of_int (wc_NormalizationSeconds c)) * ?u + 1 / 2"
    by linarith
  then show ?thesis by (simp add: mult.assoc mult.commute mult.left_commute)
qed

text \<open>Once the rate is available the settlement terms are too: they carry that rate and, as notional mark,
  the half-even rounded mean of the window's marks, which lies between the least and
  the greatest of them. The rate in units stays within the scaled cap up to half a unit.\<close>

theorem settlement_terms_bounded:
  assumes rate: "RateAt contract settlementNano intervalSeconds samples = Inr rate"
    and i64: "\<forall>s\<in>set samples. is_i64 (ws_MarkPrice s)"
  shows "\<exists>mark. SettlementTermsAt contract settlementNano intervalSeconds samples = Inr \<lparr>ft_Rate = rate, ft_NotionalMarkPrice = mark\<rparr> \<and>
    nearest_even (of_int (\<Sum>s\<leftarrow>samples. ws_MarkPrice s) / of_int (int (length samples))) mark \<and>
    Min (ws_MarkPrice ` set samples) \<le> mark \<and> mark \<le> Max (ws_MarkPrice ` set samples) \<and>
    \<bar>of_int (signedUnits rate)\<bar> \<le> of_int (wc_MaxAbsRateBps contract * wc_RateUnitsPerBp contract) *
      (of_int intervalSeconds / of_int (wc_NormalizationSeconds contract)) + (1 / 2 :: rat)"
proof -
  note valid = RateAt_valid [OF rate]
  let ?m = "of_int (\<Sum>s\<leftarrow>samples. ws_MarkPrice s) / of_int (int (length samples)) :: rat"
  let ?lo = "Min (ws_MarkPrice ` set samples)" and ?hi = "Max (ws_MarkPrice ` set samples)"
  have ne: "samples \<noteq> []" using valid by (auto simp: complete_window_def contract_valid_def)
  have between: "of_int ?lo \<le> ?m \<and> ?m \<le> of_int ?hi"
    using mean_between [of "map ws_MarkPrice samples" ?lo ?hi] ne by simp
  obtain mark where mark: "nearest_even ?m mark" using nearest_even_exists by blast
  then have m: "?lo \<le> mark \<and> mark \<le> ?hi" using between nearest_even_between by blast
  have "?lo \<in> ws_MarkPrice ` set samples" "?hi \<in> ws_MarkPrice ` set samples" using ne by simp_all
  then have "is_i64 ?lo" "is_i64 ?hi" "0 < ?lo" using i64 valid by (auto simp: complete_window_def sample_at_def in_set_conv_nth)
  with m have "is_i64 mark" "0 < mark" by (auto simp: is_i64_def)
  then have "SettlementTermsAt contract settlementNano intervalSeconds samples = Inr \<lparr>ft_Rate = rate, ft_NotionalMarkPrice = mark\<rparr>"
    using mark roundRationalHalfEven_iff [of ?m 1 mark] by (simp add: SettlementTermsAt_def rate Fract_of_int_quotient)
  moreover have "\<bar>of_int (signedUnits rate)\<bar> \<le> of_int (wc_MaxAbsRateBps contract * wc_RateUnitsPerBp contract) *
      (of_int intervalSeconds / of_int (wc_NormalizationSeconds contract)) + (1 / 2 :: rat)"
    using RateAt_units_bound [OF rate] .
  ultimately show ?thesis using mark m by blast
qed

definition sample_contract :: WindowedFundingRateContract where
  "sample_contract = \<lparr>wc_SampleCount = 2, wc_SampleSpacingNano = 10, wc_BaseRateBps = 1, wc_PremiumWeightNumerator = 1,
     wc_PremiumWeightDenominator = 2, wc_MaxAbsRateBps = 50, wc_NormalizationSeconds = 100, wc_RateUnitsPerBp = 10\<rparr>"

definition sample_window :: "FundingWindowSample list" where
  "sample_window = [\<lparr>ws_TimestampNano = 80, ws_IndexPrice = 1000, ws_MarkPrice = 1001\<rparr>,
     \<lparr>ws_TimestampNano = 90, ws_IndexPrice = 1000, ws_MarkPrice = 1004\<rparr>]"

theorem settlement_terms_bounded_witness:
  "\<exists>mark. SettlementTermsAt sample_contract 100 50 sample_window =
       Inr \<lparr>ft_Rate = \<lparr>signedUnits = 68, unitsPerBp = 10\<rparr>, ft_NotionalMarkPrice = mark\<rparr> \<and>
    nearest_even (of_int (\<Sum>s\<leftarrow>sample_window. ws_MarkPrice s) / of_int (int (length sample_window))) mark \<and>
    Min (ws_MarkPrice ` set sample_window) \<le> mark \<and> mark \<le> Max (ws_MarkPrice ` set sample_window) \<and>
    \<bar>of_int (signedUnits \<lparr>signedUnits = 68, unitsPerBp = 10\<rparr>)\<bar> \<le>
      of_int (wc_MaxAbsRateBps sample_contract * wc_RateUnitsPerBp sample_contract) *
      (of_int 50 / of_int (wc_NormalizationSeconds sample_contract)) + (1 / 2 :: rat)"
proof (rule settlement_terms_bounded)
  show "RateAt sample_contract 100 50 sample_window = Inr \<lparr>signedUnits = 68, unitsPerBp = 10\<rparr>" by code_simp
  show "\<forall>s\<in>set sample_window. is_i64 (ws_MarkPrice s)" by (simp add: sample_window_def is_i64_def)
qed

end
