(* ===== verification/Go_Hash.thy ===== *)
theory Go_Hash
  imports Main "HOL-Library.Word"
begin

unbundle bit_operations_syntax

text \<open>The two checksums the event stream takes from Go's standard library: CRC-32 with the Castagnoli
  polynomial (\<open>hash/crc32\<close>, processed bit by bit instead of through the table) and SHA-256
  (\<open>crypto/sha256\<close>, FIPS 180-4). A hasher that has absorbed several writes is represented by the
  bytes absorbed so far.\<close>

type_synonym byte = "8 word"
type_synonym bytes = "byte list"

section \<open>CRC-32C\<close>

definition crc_bit :: "32 word \<Rightarrow> 32 word" where
  "crc_bit r = (if bit r 0 then drop_bit 1 r XOR 0x82F63B78 else drop_bit 1 r)"

definition crc_byte :: "32 word \<Rightarrow> byte \<Rightarrow> 32 word" where
  "crc_byte r b = (crc_bit ^^ 8) (r XOR ucast b)"

definition crc32c :: "bytes \<Rightarrow> 32 word" where
  "crc32c bs = NOT (foldl crc_byte (NOT 0) bs)"

section \<open>SHA-256\<close>

text \<open>The tables of FIPS 180-4: the first 32 bits of the fractional parts of the cube roots of the first 64
  primes, and of the square roots of the first eight.\<close>

definition sha_round_constants :: "32 word list" where
  "sha_round_constants =
   [1116352408, 1899447441, 3049323471, 3921009573, 961987163, 1508970993, 2453635748, 2870763221,
    3624381080, 310598401, 607225278, 1426881987, 1925078388, 2162078206, 2614888103, 3248222580,
    3835390401, 4022224774, 264347078, 604807628, 770255983, 1249150122, 1555081692, 1996064986,
    2554220882, 2821834349, 2952996808, 3210313671, 3336571891, 3584528711, 113926993, 338241895,
    666307205, 773529912, 1294757372, 1396182291, 1695183700, 1986661051, 2177026350, 2456956037,
    2730485921, 2820302411, 3259730800, 3345764771, 3516065817, 3600352804, 4094571909, 275423344,
    430227734, 506948616, 659060556, 883997877, 958139571, 1322822218, 1537002063, 1747873779,
    1955562222, 2024104815, 2227730452, 2361852424, 2428436474, 2756734187, 3204031479, 3329325298]"

definition sha_initial :: "32 word list" where
  "sha_initial = [1779033703, 3144134277, 1013904242, 2773480762, 1359893119, 2600822924, 528734635, 1541459225]"

definition sha_extend :: "32 word list \<Rightarrow> 32 word list" where
  "sha_extend w =
     (let n = length w; x = w ! (n - 15); y = w ! (n - 2);
          s0 = word_rotr 7 x XOR word_rotr 18 x XOR drop_bit 3 x;
          s1 = word_rotr 17 y XOR word_rotr 19 y XOR drop_bit 10 y
      in w @ [w ! (n - 16) + s0 + w ! (n - 7) + s1])"

fun sha_round :: "32 word list \<Rightarrow> 32 word \<times> 32 word \<Rightarrow> 32 word list" where
  "sha_round [a, b, c, d, e, f, g, h] (k, w) =
     (let s1 = word_rotr 6 e XOR word_rotr 11 e XOR word_rotr 25 e;
          ch = (e AND f) XOR (NOT e AND g);
          t1 = h + s1 + ch + k + w;
          s0 = word_rotr 2 a XOR word_rotr 13 a XOR word_rotr 22 a;
          maj = (a AND b) XOR (a AND c) XOR (b AND c)
      in [t1 + s0 + maj, a, b, c, d + t1, e, f, g])"
| "sha_round v _ = v"

definition be_word :: "bytes \<Rightarrow> 32 word" where
  "be_word bs = word_of_int (foldl (\<lambda>x b. 256 * x + uint b) 0 bs)"

definition be_bytes :: "nat \<Rightarrow> int \<Rightarrow> bytes" where
  "be_bytes n v = rev (map (\<lambda>k. word_of_int (v div 256 ^ k)) [0..<n])"

fun chunks :: "nat \<Rightarrow> nat \<Rightarrow> 'a list \<Rightarrow> 'a list list" where
  "chunks 0 k xs = []"
| "chunks (Suc n) k xs = take k xs # chunks n k (drop k xs)"

definition sha_block :: "32 word list \<Rightarrow> bytes \<Rightarrow> 32 word list" where
  "sha_block h blk =
     map2 (+) h (foldl sha_round h (zip sha_round_constants ((sha_extend ^^ 48) (map be_word (chunks 16 4 blk)))))"

definition sha_pad :: "bytes \<Rightarrow> bytes" where
  "sha_pad m = m @ 0x80 # replicate (nat ((55 - int (length m)) mod 64)) 0 @ be_bytes 8 (8 * int (length m))"

definition sha256 :: "bytes \<Rightarrow> bytes" where
  "sha256 m =
     (let p = sha_pad m
      in concat (map (\<lambda>w. be_bytes 4 (uint w)) (foldl sha_block sha_initial (chunks (length p div 64) 64 p))))"

section \<open>Length of a digest\<close>

lemma sha_round_length: "length (sha_round v kw) = length v"
  by (cases "(v, kw)" rule: sha_round.cases) (simp_all add: Let_def)

lemma sha_rounds_length: "length (foldl sha_round v kws) = length v"
  by (induction kws arbitrary: v) (simp_all add: sha_round_length)

lemma sha_block_length: "length h = 8 \<Longrightarrow> length (sha_block h blk) = 8"
  by (simp add: sha_block_def sha_rounds_length)

lemma sha256_length: "length (sha256 m) = 32"
proof -
  have "length (foldl sha_block h bs) = 8" if "length h = 8" for h bs
    using that by (induction bs arbitrary: h) (simp_all add: sha_block_length)
  then have "length (foldl sha_block sha_initial bs) = 8" for bs by (simp add: sha_initial_def)
  then show ?thesis
    by (simp add: sha256_def Let_def length_concat comp_def be_bytes_def sum_list_triv)
qed

end
