(* ===== verification/Ev_Format.thy ===== *)
theory Ev_Format
  imports Prelude Go_Hash "HOL-Library.State_Monad"
begin

text \<open>The wire format of the event stream (\<open>evstream/format.go\<close>): canonical little-endian primitives, the
  frame header, the cursor that reads a payload back, and presence bits.

  A cursor is mutable in the code and keeps its first error; its methods are state monad actions
  here. A Go string is the list of its bytes as characters.\<close>

type_synonym uint32 = int
type_synonym uint16 = int

definition u32 :: "int \<Rightarrow> uint32" where
  "u32 x = x mod 4294967296"

definition u16 :: "int \<Rightarrow> uint16" where
  "u16 x = x mod 65536"

definition is_u32 :: "int \<Rightarrow> bool" where
  "is_u32 x \<longleftrightarrow> 0 \<le> x \<and> x < 4294967296"

definition is_u16 :: "int \<Rightarrow> bool" where
  "is_u16 x \<longleftrightarrow> 0 \<le> x \<and> x < 65536"

datatype ev_error = ErrBadMagic | ErrUnsupportedVersion | ErrCorrupt | ErrShortBuffer | ErrSequence
  | ErrClientIDOverflow | ErrEmptyDictionaryValue | ErrUnexpectedEOF | ErrClosed | ErrWrite | ErrShortWrite | ErrCompress

definition Magic :: bytes where
  "Magic = map of_char ''EXSIMEVS''"

abbreviation (input) FormatMajor :: uint16 where "FormatMajor \<equiv> 1"
abbreviation (input) FormatMinor :: uint16 where "FormatMinor \<equiv> 0"
abbreviation (input) BlockMagic :: uint32 where "BlockMagic \<equiv> 0x42535645"
abbreviation (input) TrailerMagic :: uint32 where "TrailerMagic \<equiv> 0x54535645"
abbreviation (input) StreamHeaderSize :: nat where "StreamHeaderSize \<equiv> 32"
abbreviation (input) BlockHeaderSize :: nat where "BlockHeaderSize \<equiv> 20"
abbreviation (input) TrailerSize :: nat where "TrailerSize \<equiv> 44"
abbreviation (input) FrameHeaderSize :: nat where "FrameHeaderSize \<equiv> 32"
abbreviation (input) SchemaDictionary :: uint16 where "SchemaDictionary \<equiv> 0"
abbreviation (input) SchemaOpaqueJSON :: uint16 where "SchemaOpaqueJSON \<equiv> 1"
abbreviation (input) FirstUserSchema :: uint16 where "FirstUserSchema \<equiv> 16"
abbreviation (input) MaxEncodedClientID :: uint64 where "MaxEncodedClientID \<equiv> 4294967295"

abbreviation (input) CodecNone :: int where "CodecNone \<equiv> 0"

section \<open>Little-endian integers\<close>

primrec le_bytes :: "nat \<Rightarrow> int \<Rightarrow> bytes" where
  "le_bytes 0 v = []"
| "le_bytes (Suc n) v = word_of_int v # le_bytes n (v div 256)"

primrec le_value :: "bytes \<Rightarrow> int" where
  "le_value [] = 0"
| "le_value (b # bs) = uint b + 256 * le_value bs"

definition slice :: "bytes \<Rightarrow> nat \<Rightarrow> nat \<Rightarrow> bytes" where
  "slice bs i j = take (j - i) (drop i bs)"

definition AppendInt64 :: "bytes \<Rightarrow> int64 \<Rightarrow> bytes" where
  "AppendInt64 dst v = dst @ le_bytes 8 (u64 v)"

definition AppendUint64 :: "bytes \<Rightarrow> uint64 \<Rightarrow> bytes" where
  "AppendUint64 dst v = dst @ le_bytes 8 v"

definition AppendUint32 :: "bytes \<Rightarrow> uint32 \<Rightarrow> bytes" where
  "AppendUint32 dst v = dst @ le_bytes 4 v"

definition AppendUint16 :: "bytes \<Rightarrow> uint16 \<Rightarrow> bytes" where
  "AppendUint16 dst v = dst @ le_bytes 2 v"

definition AppendBool :: "bytes \<Rightarrow> bool \<Rightarrow> bytes" where
  "AppendBool dst v = dst @ [if v then 1 else 0]"

definition AppendBytes :: "bytes \<Rightarrow> bytes \<Rightarrow> bytes" where
  "AppendBytes dst v = dst @ le_bytes 4 (u32 (int (length v))) @ v"

definition string_bytes :: "string \<Rightarrow> bytes" where
  "string_bytes s = map of_char s"

definition bytes_string :: "bytes \<Rightarrow> string" where
  "bytes_string bs = map (\<lambda>b. char_of (uint b)) bs"

definition AppendString :: "bytes \<Rightarrow> string \<Rightarrow> bytes" where
  "AppendString dst v = dst @ le_bytes 4 (u32 (int (length v))) @ string_bytes v"

section \<open>Frame headers\<close>

record FrameHeader =
  Length :: uint32
  Seq :: uint64
  SimTS :: int64
  SchemaID :: uint16
  SchemaVersion :: uint16
  VenueRef :: uint32
  HdrClientID :: uint64

definition AppendFrameHeader :: "bytes \<Rightarrow> FrameHeader \<Rightarrow> bytes" where
  "AppendFrameHeader dst h =
     dst @ le_bytes 4 (Length h) @ le_bytes 8 (Seq h) @ le_bytes 8 (u64 (SimTS h)) @ le_bytes 2 (SchemaID h) @
     le_bytes 2 (SchemaVersion h) @ le_bytes 4 (VenueRef h) @ le_bytes 4 (u32 (HdrClientID h))"

definition ParseFrameHeader :: "bytes \<Rightarrow> ev_error + FrameHeader" where
  "ParseFrameHeader src =
     (if length src < FrameHeaderSize then Inl ErrShortBuffer
      else let h = \<lparr>Length = le_value (slice src 0 4), Seq = le_value (slice src 4 12), SimTS = i64 (le_value (slice src 12 20)),
                    SchemaID = le_value (slice src 20 22), SchemaVersion = le_value (slice src 22 24),
                    VenueRef = le_value (slice src 24 28), HdrClientID = le_value (slice src 28 32)\<rparr>
           in if Length h < int FrameHeaderSize then Inl ErrCorrupt else Inr h)"

section \<open>Presence bits\<close>

definition PresenceBits :: "nat \<Rightarrow> nat" where
  "PresenceBits n = (n + 7) div 8"

definition Has :: "bytes \<Rightarrow> nat \<Rightarrow> bool" where
  "Has p i \<longleftrightarrow> i div 8 < length p \<and> bit (p ! (i div 8)) (i mod 8)"

definition SetPresence :: "bytes \<Rightarrow> nat \<Rightarrow> bytes" where
  "SetPresence bitmap i =
     (if i div 8 < length bitmap then bitmap[i div 8 := set_bit (i mod 8) (bitmap ! (i div 8))] else bitmap)"

section \<open>Cursors\<close>

record Cursor =
  cu_buf :: bytes
  cu_pos :: nat
  cu_err :: "ev_error option"

definition NewCursor :: "bytes \<Rightarrow> Cursor" where
  "NewCursor src = \<lparr>cu_buf = src, cu_pos = 0, cu_err = None\<rparr>"

definition Remaining :: "Cursor \<Rightarrow> nat" where
  "Remaining c = length (cu_buf c) - cu_pos c"

text \<open>\<open>None\<close> is the nil slice of a failed read. A read of no bytes is never nil in the code, as it is a
  slice of the buffer.\<close>

definition cu_take :: "nat \<Rightarrow> (Cursor, bytes option) state" where
  "cu_take n = State (\<lambda>c.
     if cu_err c \<noteq> None then (None, c)
     else if cu_pos c + n > length (cu_buf c) then (None, c\<lparr>cu_err := Some ErrShortBuffer\<rparr>)
     else (Some (slice (cu_buf c) (cu_pos c) (cu_pos c + n)), c\<lparr>cu_pos := cu_pos c + n\<rparr>))"

definition cu_number :: "nat \<Rightarrow> (Cursor, int) state" where
  "cu_number n = do { b \<leftarrow> cu_take n; State_Monad.return (case b of None \<Rightarrow> 0 | Some bs \<Rightarrow> le_value bs) }"

definition Int64 :: "(Cursor, int64) state" where
  "Int64 = do { v \<leftarrow> cu_number 8; State_Monad.return (i64 v) }"

definition Uint64 :: "(Cursor, uint64) state" where
  "Uint64 = cu_number 8"

definition Uint32 :: "(Cursor, uint32) state" where
  "Uint32 = cu_number 4"

definition Uint16 :: "(Cursor, uint16) state" where
  "Uint16 = cu_number 2"

definition Uint8 :: "(Cursor, int) state" where
  "Uint8 = cu_number 1"

definition Err :: "(Cursor, ev_error option) state" where
  "Err = State (\<lambda>c. (cu_err c, c))"

definition fail_first :: "ev_error \<Rightarrow> (Cursor, unit) state" where
  "fail_first e = State (\<lambda>c. ((), if cu_err c = None then c\<lparr>cu_err := Some e\<rparr> else c))"

definition Bool :: "(Cursor, bool) state" where
  "Bool = do {
     b \<leftarrow> cu_take 1;
     case b of
       None \<Rightarrow> State_Monad.return False
     | Some bs \<Rightarrow> if bs = [0] then State_Monad.return False
                  else if bs = [1] then State_Monad.return True
                  else do { fail_first ErrCorrupt; State_Monad.return False } }"

definition Bytes :: "(Cursor, bytes) state" where
  "Bytes = do {
     n \<leftarrow> Uint32;
     e \<leftarrow> Err;
     if e \<noteq> None then State_Monad.return []
     else do { b \<leftarrow> cu_take (nat n); State_Monad.return (case b of None \<Rightarrow> [] | Some bs \<Rightarrow> bs) } }"

definition String :: "(Cursor, string) state" where
  "String = do { b \<leftarrow> Bytes; State_Monad.return (bytes_string b) }"

definition Presence :: "nat \<Rightarrow> (Cursor, bytes) state" where
  "Presence n = do { b \<leftarrow> cu_take (PresenceBits n); State_Monad.return (case b of None \<Rightarrow> [] | Some bs \<Rightarrow> bs) }"

text \<open>\<open>finish\<close> of the schema packages: a decode must consume exactly its payload.\<close>

definition finish :: "Cursor \<Rightarrow> ev_error option" where
  "finish c = (case cu_err c of Some e \<Rightarrow> Some e | None \<Rightarrow> if Remaining c \<noteq> 0 then Some ErrCorrupt else None)"

definition ResolveRequired :: "(uint32 \<Rightarrow> string option) \<Rightarrow> uint32 \<Rightarrow> ev_error + string" where
  "ResolveRequired resolve ref =
     (if ref = 0 then Inl ErrCorrupt
      else case resolve ref of None \<Rightarrow> Inl ErrCorrupt | Some v \<Rightarrow> if v = '''' then Inl ErrCorrupt else Inr v)"

section \<open>Reading back what was written\<close>

lemma le_bytes_length [simp]: "length (le_bytes n v) = n"
  by (induction n arbitrary: v) simp_all

lemma uint_byte: "uint (word_of_int v :: byte) = v mod 256"
  by (simp add: uint_word_of_int take_bit_eq_mod)

lemma le_value_le_bytes: "le_value (le_bytes n v) = v mod 256 ^ n"
proof (induction n arbitrary: v)
  case (Suc n)
  have "v mod (256 * 256 ^ n) = v mod 256 + 256 * (v div 256 mod 256 ^ n)"
    by (rule zmod_zmult2_eq [of "256 ^ n" v 256, THEN trans]) simp_all
  then show ?case by (simp add: Suc uint_byte)
qed simp

lemma le_value_range: "0 \<le> le_value bs \<and> le_value bs < 256 ^ length bs"
proof (induction bs)
  case (Cons b bs)
  have "uint b < 256" using uint_lt2p [of b] by simp
  with Cons show ?case by (simp add: algebra_simps)
qed simp

lemma le_value_u64 [simp]: "is_u64 v \<Longrightarrow> le_value (le_bytes 8 v) = v"
  by (simp add: le_value_le_bytes is_u64_def)

lemma i64_u64 [simp]: "is_i64 v \<Longrightarrow> i64 (u64 v) = v"
  by (simp add: u64_def) (metis i64_id i64_def mod_add_left_eq)

lemma le_value_u32 [simp]: "is_u32 v \<Longrightarrow> le_value (le_bytes 4 v) = v"
  by (simp add: le_value_le_bytes is_u32_def)

lemma le_value_u16 [simp]: "is_u16 v \<Longrightarrow> le_value (le_bytes 2 v) = v"
  by (simp add: le_value_le_bytes is_u16_def)

lemma u32_id [wrap_simps]: "is_u32 x \<Longrightarrow> u32 x = x"
  by (simp add: u32_def is_u32_def)

lemma u32_range [simp, intro]: "is_u32 (u32 x)"
  by (simp add: u32_def is_u32_def)

lemma string_bytes_length [simp]: "length (string_bytes s) = length s"
  by (simp add: string_bytes_def)

lemma bytes_string_inverse [simp]: "bytes_string (string_bytes s) = s"
proof -
  have "char_of (uint (of_char c :: byte)) = c" for c :: char
  proof -
    have "(of_char c :: byte) = word_of_int (of_char c)" by (simp add: of_int_of_char)
    then have "uint (of_char c :: byte) = of_char c" by (simp only: uint_byte of_char_mod_256)
    then show ?thesis by simp
  qed
  then show ?thesis by (simp add: bytes_string_def string_bytes_def comp_def)
qed

text \<open>A cursor between what it has read and what it has not.\<close>

definition cu_at :: "bytes \<Rightarrow> bytes \<Rightarrow> Cursor" where
  "cu_at pre rest = \<lparr>cu_buf = pre @ rest, cu_pos = length pre, cu_err = None\<rparr>"

named_theorems cursor_simps \<open>reading canonical encodings through a cursor\<close>

lemma NewCursor_at [cursor_simps]: "NewCursor bs = cu_at [] bs"
  by (simp add: NewCursor_def cu_at_def)

lemma cu_at_err [cursor_simps]: "cu_err (cu_at pre rest) = None"
  by (simp add: cu_at_def)

lemma cu_take_at: "length bs = n \<Longrightarrow> run_state (cu_take n) (cu_at pre (bs @ rest)) = (Some bs, cu_at (pre @ bs) rest)"
  by (auto simp: cu_take_def cu_at_def slice_def)

lemma cu_number_at: "length bs = n \<Longrightarrow> run_state (cu_number n) (cu_at pre (bs @ rest)) = (le_value bs, cu_at (pre @ bs) rest)"
  by (simp add: cu_number_def State_Monad.bind_def cu_take_at)

lemma Int64_at [cursor_simps]:
  "is_i64 v \<Longrightarrow> run_state Int64 (cu_at pre (le_bytes 8 (u64 v) @ rest)) = (v, cu_at (pre @ le_bytes 8 (u64 v)) rest)"
  by (simp add: Int64_def State_Monad.bind_def cu_number_at)

lemma Uint64_at [cursor_simps]:
  "is_u64 v \<Longrightarrow> run_state Uint64 (cu_at pre (le_bytes 8 v @ rest)) = (v, cu_at (pre @ le_bytes 8 v) rest)"
  by (simp add: Uint64_def cu_number_at)

lemma Uint32_at [cursor_simps]:
  "is_u32 v \<Longrightarrow> run_state Uint32 (cu_at pre (le_bytes 4 v @ rest)) = (v, cu_at (pre @ le_bytes 4 v) rest)"
  by (simp add: Uint32_def cu_number_at)

lemma Uint16_at [cursor_simps]:
  "is_u16 v \<Longrightarrow> run_state Uint16 (cu_at pre (le_bytes 2 v @ rest)) = (v, cu_at (pre @ le_bytes 2 v) rest)"
  by (simp add: Uint16_def cu_number_at)

lemma Uint8_at [cursor_simps]: "run_state Uint8 (cu_at pre (b # rest)) = (uint b, cu_at (pre @ [b]) rest)"
  using cu_number_at [of "[b]" 1 pre rest] by (simp add: Uint8_def)

lemma Bool_at [cursor_simps]:
  "run_state Bool (cu_at pre ((if v then 1 else 0) # rest)) = (v, cu_at (pre @ [if v then 1 else 0]) rest)"
  using cu_take_at [of "[if v then 1 else 0]" 1 pre rest]
  by (simp add: Bool_def State_Monad.bind_def)

lemma Bytes_at [cursor_simps]:
  assumes "is_u32 (int (length v))"
  shows "run_state Bytes (cu_at pre (le_bytes 4 (int (length v)) @ v @ rest)) = (v, cu_at (pre @ le_bytes 4 (int (length v)) @ v) rest)"
  using assms
  by (simp add: Bytes_def State_Monad.bind_def Uint32_at Err_def cu_at_err cu_take_at)

lemma String_at [cursor_simps]:
  assumes "is_u32 (int (length s))"
  shows "run_state String (cu_at pre (le_bytes 4 (int (length s)) @ string_bytes s @ rest)) =
    (s, cu_at (pre @ le_bytes 4 (int (length s)) @ string_bytes s) rest)"
  using Bytes_at [of "string_bytes s" pre rest] assms by (simp add: String_def State_Monad.bind_def)

lemma Presence_at [cursor_simps]:
  "length bs = PresenceBits n \<Longrightarrow> run_state (Presence n) (cu_at pre (bs @ rest)) = (bs, cu_at (pre @ bs) rest)"
  by (simp add: Presence_def State_Monad.bind_def cu_take_at)

lemma finish_at [cursor_simps]: "finish (cu_at pre rest) = None \<longleftrightarrow> rest = []"
  by (simp add: finish_def cu_at_def Remaining_def)

lemmas append_simps = AppendInt64_def AppendUint64_def AppendUint32_def AppendUint16_def AppendBool_def AppendBytes_def AppendString_def

section \<open>Headers survive the wire\<close>

definition header_ok :: "FrameHeader \<Rightarrow> bool" where
  "header_ok h \<longleftrightarrow> is_u32 (Length h) \<and> int FrameHeaderSize \<le> Length h \<and> is_u64 (Seq h) \<and> is_i64 (SimTS h) \<and> is_u16 (SchemaID h) \<and>
     is_u16 (SchemaVersion h) \<and> is_u32 (VenueRef h) \<and> is_u32 (HdrClientID h)"

lemma slice_skip: "length xs \<le> i \<Longrightarrow> slice (xs @ ys) i j = slice ys (i - length xs) (j - length xs)"
  by (simp add: slice_def)

lemma slice_front: "length xs = j \<Longrightarrow> slice (xs @ ys) 0 j = xs"
  by (simp add: slice_def)

lemma AppendFrameHeader_length [simp]: "length (AppendFrameHeader dst h) = length dst + FrameHeaderSize"
  by (simp add: AppendFrameHeader_def)

lemma AppendFrameHeader_ne [simp]: "AppendFrameHeader dst h \<noteq> []"
proof -
  have "length (AppendFrameHeader dst h) \<noteq> 0" by simp
  then show ?thesis by (metis list.size(3))
qed

lemma u64_add_cong: "u64 (u64 a + b) = u64 (a + b)"
  by (simp add: u64_def mod_simps)

lemma u64_add_cong_right: "u64 (a + u64 b) = u64 (a + b)"
  using u64_add_cong [of b a] by (simp add: add.commute)

lemma ParseFrameHeader_back:
  "header_ok h \<Longrightarrow> ParseFrameHeader (AppendFrameHeader [] h @ rest) = Inr h"
  by (simp add: ParseFrameHeader_def AppendFrameHeader_def header_ok_def slice_skip slice_front u32_id)

section \<open>Interning\<close>

text \<open>What an encoder may rely on when it interns its strings, and a decoder when it resolves them: the
  contract between \<open>Interner\<close> and \<open>Resolver\<close>. An accepted string gets a non-zero reference that
  resolves to it from then on, references already given out keep their meaning, and the empty
  string is refused. References are 32 bits wide, so this holds while the dictionary is small;
  interning never shrinks it.\<close>

locale event_dictionary =
  fixes intern :: "string \<Rightarrow> 'w \<Rightarrow> (ev_error + uint32) \<times> 'w"
    and resolve :: "'w \<Rightarrow> uint32 \<Rightarrow> string option"
    and valid :: "'w \<Rightarrow> bool"
    and small :: "'w \<Rightarrow> bool"
  assumes intern_valid: "valid w \<Longrightarrow> intern s w = (r, w') \<Longrightarrow> valid w'"
    and intern_small: "intern s w = (r, w') \<Longrightarrow> small w' \<Longrightarrow> small w"
    and intern_keeps: "intern s w = (r, w') \<Longrightarrow> small w' \<Longrightarrow> 0 \<le> i \<Longrightarrow> resolve w i = Some t \<Longrightarrow> resolve w' i = Some t"
    and intern_ref: "valid w \<Longrightarrow> intern s w = (Inr i, w') \<Longrightarrow> small w' \<Longrightarrow> s \<noteq> '''' \<and> i \<noteq> 0 \<and> is_u32 i \<and> resolve w' i = Some s"

end
