(* ===== verification/Ev_Index.thy ===== *)
theory Ev_Index
  imports Ev_Format
begin

unbundle bit_operations_syntax

text \<open>The dictionary of an event stream (\<open>evstream/dict.go\<close>) and the block directory with its queries
  (\<open>evstream/index.go\<close>, without the reader that uses it). A persisted index is read back exactly.\<close>

section \<open>Dictionary\<close>

record Dictionary =
  d_ids :: "string \<rightharpoonup> uint32"
  d_values :: "string list"

definition NewDictionary :: Dictionary where
  "NewDictionary = \<lparr>d_ids = Map.empty, d_values = ['''']\<rparr>"

definition Assign :: "Dictionary \<Rightarrow> string \<Rightarrow> (ev_error + uint32) \<times> Dictionary" where
  "Assign d s =
     (if s = '''' then (Inl ErrEmptyDictionaryValue, d)
      else case d_ids d s of
        Some i \<Rightarrow> (Inr i, d)
      | None \<Rightarrow> let i = u32 (int (length (d_values d)))
                in (Inr i, d\<lparr>d_ids := (d_ids d)(s \<mapsto> i), d_values := d_values d @ [s]\<rparr>))"

definition Define :: "Dictionary \<Rightarrow> uint32 \<Rightarrow> string \<Rightarrow> ev_error option \<times> Dictionary" where
  "Define d i v =
     (if i = 0 \<or> v = '''' \<or> i \<noteq> u32 (int (length (d_values d))) then (Some ErrCorrupt, d)
      else if d_ids d v \<noteq> None then (Some ErrCorrupt, d)
      else (None, d\<lparr>d_ids := (d_ids d)(v \<mapsto> i), d_values := d_values d @ [v]\<rparr>))"

definition Value :: "Dictionary \<Rightarrow> uint32 \<Rightarrow> string option" where
  "Value d i = (if i = 0 \<or> i \<ge> u32 (int (length (d_values d))) then None else Some (d_values d ! nat i))"

section \<open>Block descriptors\<close>

record BlockDescriptor =
  Offset :: uint64
  StoredLen :: uint32
  UncompressedLen :: uint32
  FirstSeq :: uint64
  LastSeq :: uint64
  MinTS :: int64
  MaxTS :: int64
  Families :: "64 word"
  Symbols :: "64 word"

abbreviation (input) BlockDescriptorSize :: nat where "BlockDescriptorSize \<equiv> 64"
abbreviation (input) IndexMagic :: uint32 where "IndexMagic \<equiv> 0x58444945"

definition familyBit :: "uint16 \<Rightarrow> 64 word" where
  "familyBit schemaID = (if schemaID < FirstUserSchema then 1 else push_bit (nat ((schemaID - FirstUserSchema) mod 63 + 1)) 1)"

definition symbolBit :: "uint32 \<Rightarrow> 64 word" where
  "symbolBit ref = (if ref = 0 then 0 else push_bit (unat (drop_bit 58 (word_of_int ref * 0x9E3779B97F4A7C15 :: 64 word))) 1)"

definition AppendDescriptor :: "bytes \<Rightarrow> BlockDescriptor \<Rightarrow> bytes" where
  "AppendDescriptor dst d =
     dst @ le_bytes 8 (Offset d) @ le_bytes 4 (StoredLen d) @ le_bytes 4 (UncompressedLen d) @ le_bytes 8 (FirstSeq d) @
     le_bytes 8 (LastSeq d) @ le_bytes 8 (u64 (MinTS d)) @ le_bytes 8 (u64 (MaxTS d)) @ le_bytes 8 (uint (Families d)) @
     le_bytes 8 (uint (Symbols d))"

definition ParseDescriptor :: "bytes \<Rightarrow> ev_error + BlockDescriptor" where
  "ParseDescriptor src =
     (if length src < BlockDescriptorSize then Inl ErrShortBuffer
      else Inr \<lparr>Offset = le_value (slice src 0 8), StoredLen = le_value (slice src 8 12), UncompressedLen = le_value (slice src 12 16),
                FirstSeq = le_value (slice src 16 24), LastSeq = le_value (slice src 24 32), MinTS = i64 (le_value (slice src 32 40)),
                MaxTS = i64 (le_value (slice src 40 48)), Families = word_of_int (le_value (slice src 48 56)),
                Symbols = word_of_int (le_value (slice src 56 64))\<rparr>)"

section \<open>Queries\<close>

record Query =
  FromTS :: int64
  ToTS :: int64
  FromSeq :: uint64
  ToSeq :: uint64
  QFamilies :: "uint16 list"
  SymbolRefs :: "uint32 list"

definition familyMask :: "Query \<Rightarrow> 64 word" where
  "familyMask q = foldl (\<lambda>m i. m OR familyBit i) 0 (QFamilies q)"

definition symbolMask :: "Query \<Rightarrow> 64 word" where
  "symbolMask q = foldl (\<lambda>m r. m OR symbolBit r) 0 (SymbolRefs q)"

definition Selects :: "Query \<Rightarrow> BlockDescriptor \<Rightarrow> bool" where
  "Selects q d \<longleftrightarrow>
     \<not> (FromTS q \<noteq> 0 \<and> MaxTS d < FromTS q) \<and> \<not> (ToTS q \<noteq> 0 \<and> MinTS d > ToTS q) \<and>
     \<not> (FromSeq q \<noteq> 0 \<and> LastSeq d < FromSeq q) \<and> \<not> (ToSeq q \<noteq> 0 \<and> FirstSeq d > ToSeq q) \<and>
     \<not> (familyMask q \<noteq> 0 \<and> Families d AND familyMask q = 0) \<and> \<not> (symbolMask q \<noteq> 0 \<and> Symbols d AND symbolMask q = 0)"

definition Matches :: "Query \<Rightarrow> FrameHeader \<Rightarrow> bool" where
  "Matches q h \<longleftrightarrow>
     \<not> (FromTS q \<noteq> 0 \<and> SimTS h < FromTS q) \<and> \<not> (ToTS q \<noteq> 0 \<and> SimTS h > ToTS q) \<and>
     \<not> (FromSeq q \<noteq> 0 \<and> Seq h < FromSeq q) \<and> \<not> (ToSeq q \<noteq> 0 \<and> Seq h > ToSeq q) \<and>
     (QFamilies q \<noteq> [] \<longrightarrow> SchemaID h \<in> set (QFamilies q)) \<and> (SymbolRefs q \<noteq> [] \<longrightarrow> VenueRef h \<in> set (SymbolRefs q))"

definition Select :: "Query \<Rightarrow> BlockDescriptor list \<Rightarrow> BlockDescriptor list \<times> nat" where
  "Select q blocks = (filter (Selects q) blocks, length (filter (\<lambda>d. \<not> Selects q d) blocks))"

section \<open>Persisting the index\<close>

record IndexReadLimits =
  MaxDescriptors :: uint64
  MaxBytes :: uint64

definition normalizeIndexReadLimits :: "IndexReadLimits \<Rightarrow> ev_error + IndexReadLimits" where
  "normalizeIndexReadLimits l =
     (let l1 = (if MaxDescriptors l = 0 then l\<lparr>MaxDescriptors := 1048576\<rparr> else l);
          l2 = (if MaxBytes l1 = 0 then l1\<lparr>MaxBytes := 67108864\<rparr> else l1)
      in if MaxDescriptors l2 > MaxInt64 \<or> MaxBytes l2 > MaxInt64 then Inl ErrCorrupt else Inr l2)"

definition Index_WriteTo :: "BlockDescriptor list \<Rightarrow> bytes" where
  "Index_WriteTo blocks =
     foldl AppendDescriptor (AppendUint32 (AppendUint32 [] IndexMagic) (u32 (int (length blocks)))) blocks"

fun parse_descriptors :: "nat \<Rightarrow> bytes \<Rightarrow> ev_error + BlockDescriptor list" where
  "parse_descriptors 0 body = Inr []"
| "parse_descriptors (Suc n) body =
     (case ParseDescriptor body of
        Inl e \<Rightarrow> Inl e
      | Inr d \<Rightarrow> (case parse_descriptors n (drop BlockDescriptorSize body) of Inl e \<Rightarrow> Inl e | Inr ds \<Rightarrow> Inr (d # ds)))"

definition ReadIndexWithLimits :: "IndexReadLimits \<Rightarrow> bytes \<Rightarrow> ev_error + BlockDescriptor list" where
  "ReadIndexWithLimits limits input =
     (case normalizeIndexReadLimits limits of
        Inl e \<Rightarrow> Inl e
      | Inr l \<Rightarrow>
          if length input < 8 then Inl ErrShortBuffer
          else if le_value (slice input 0 4) \<noteq> IndexMagic then Inl ErrBadMagic
          else let count = le_value (slice input 4 8)
               in if count > MaxDescriptors l then Inl ErrCorrupt
                  else if count > MaxBytes l div int BlockDescriptorSize then Inl ErrCorrupt
                  else if length (drop 8 input) < nat (count * int BlockDescriptorSize) then Inl ErrShortBuffer
                  else parse_descriptors (nat count) (take (nat (count * int BlockDescriptorSize)) (drop 8 input)))"

definition ReadIndex :: "bytes \<Rightarrow> ev_error + BlockDescriptor list" where
  "ReadIndex = ReadIndexWithLimits \<lparr>MaxDescriptors = 0, MaxBytes = 0\<rparr>"

section \<open>Statistics of an open block\<close>

record blockStats =
  s_firstSeq :: uint64
  s_lastSeq :: uint64
  s_minTS :: int64
  s_maxTS :: int64
  s_families :: "64 word"
  s_symbols :: "64 word"
  s_started :: bool

definition stats_reset :: blockStats where
  "stats_reset = \<lparr>s_firstSeq = 0, s_lastSeq = 0, s_minTS = MaxInt64, s_maxTS = MinInt64, s_families = 0, s_symbols = 0, s_started = False\<rparr>"

definition observe :: "blockStats \<Rightarrow> FrameHeader \<Rightarrow> blockStats" where
  "observe s h =
     s\<lparr>s_firstSeq := (if s_started s then s_firstSeq s else Seq h), s_started := True, s_lastSeq := Seq h,
       s_minTS := (if SimTS h < s_minTS s then SimTS h else s_minTS s), s_maxTS := (if SimTS h > s_maxTS s then SimTS h else s_maxTS s),
       s_families := s_families s OR familyBit (SchemaID h), s_symbols := s_symbols s OR symbolBit (VenueRef h)\<rparr>"

definition descriptor :: "blockStats \<Rightarrow> uint64 \<Rightarrow> uint32 \<Rightarrow> uint32 \<Rightarrow> BlockDescriptor" where
  "descriptor s offset storedLen uncompressedLen =
     \<lparr>Offset = offset, StoredLen = storedLen, UncompressedLen = uncompressedLen, FirstSeq = s_firstSeq s, LastSeq = s_lastSeq s,
      MinTS = s_minTS s, MaxTS = s_maxTS s, Families = s_families s, Symbols = s_symbols s\<rparr>"

section \<open>The dictionary is a bijection\<close>

definition dict_ok :: "Dictionary \<Rightarrow> bool" where
  "dict_ok d \<longleftrightarrow> d_values d \<noteq> [] \<and> hd (d_values d) = '''' \<and> distinct (d_values d) \<and>
     (\<forall>s i. d_ids d s = Some i \<longleftrightarrow> (\<exists>k. 0 < k \<and> k < length (d_values d) \<and> d_values d ! k = s \<and> i = u32 (int k)))"

definition dict_small :: "Dictionary \<Rightarrow> bool" where
  "dict_small d \<longleftrightarrow> length (d_values d) < 4294967296 \<and> (\<forall>s\<in>set (d_values d). length s < 1073741824)"

lemma NewDictionary_ok: "dict_ok NewDictionary"
  by (simp add: dict_ok_def NewDictionary_def)

lemma dict_unassigned:
  assumes "dict_ok d" "d_ids d s = None" "s \<noteq> ''''"
  shows "s \<notin> set (d_values d)"
proof
  assume "s \<in> set (d_values d)"
  then obtain k where k: "k < length (d_values d)" "d_values d ! k = s" by (auto simp: in_set_conv_nth)
  with assms(1,3) have "0 < k" by (metis dict_ok_def gr0I hd_conv_nth)
  with k assms(1,2) show False by (metis dict_ok_def option.distinct(1))
qed

lemma dict_extend_ok:
  assumes d: "dict_ok d" and s: "s \<noteq> ''''" "s \<notin> set (d_values d)"
  shows "dict_ok (d\<lparr>d_ids := (d_ids d)(s \<mapsto> u32 (int (length (d_values d)))), d_values := d_values d @ [s]\<rparr>)"
proof -
  let ?v = "d_values d"
  have v: "?v \<noteq> []" using d by (simp add: dict_ok_def)
  have "(\<exists>k. 0 < k \<and> k < length (?v @ [s]) \<and> (?v @ [s]) ! k = t \<and> i = u32 (int k)) \<longleftrightarrow>
      (if t = s then i = u32 (int (length ?v)) else \<exists>k. 0 < k \<and> k < length ?v \<and> ?v ! k = t \<and> i = u32 (int k))" for t i
  proof (cases "t = s")
    case True
    have "?v ! k \<noteq> s" if "k < length ?v" for k using that s(2) by (metis nth_mem)
    then have "(0 < k \<and> k < length (?v @ [s]) \<and> (?v @ [s]) ! k = s) = (k = length ?v)" for k
      using v by (cases "k < length ?v") (auto simp: nth_append)
    then show ?thesis using True by (metis (no_types, lifting))
  next
    case False
    then have "(0 < k \<and> k < length (?v @ [s]) \<and> (?v @ [s]) ! k = t) = (0 < k \<and> k < length ?v \<and> ?v ! k = t)" for k
      by (cases "k < length ?v") (auto simp: nth_append less_Suc_eq)
    then show ?thesis using False by (metis (no_types, lifting))
  qed
  then have "((d_ids d)(s \<mapsto> u32 (int (length ?v)))) t = Some i \<longleftrightarrow>
      (\<exists>k. 0 < k \<and> k < length (?v @ [s]) \<and> (?v @ [s]) ! k = t \<and> i = u32 (int k))" for t i
    using d by (simp only: dict_ok_def) auto
  moreover have "distinct (?v @ [s])" "hd (?v @ [s]) = ''''" using d s v by (simp_all add: dict_ok_def)
  ultimately show ?thesis by (simp add: dict_ok_def del: length_append)
qed

lemma Assign_ok: "dict_ok d \<Longrightarrow> dict_ok (snd (Assign d s))"
  using dict_extend_ok dict_unassigned by (auto simp: Assign_def Let_def split: option.splits)

lemma Assign_values: "\<exists>vs. d_values (snd (Assign d s)) = d_values d @ vs"
  by (auto simp: Assign_def Let_def split: option.splits)

lemma Value_eq:
  assumes "dict_small d"
  shows "Value d i = (if 0 < i \<and> nat i < length (d_values d) \<or> i < 0 then Some (d_values d ! nat i) else None)"
  using assms by (auto simp: Value_def dict_small_def u32_def)

lemma Value_extend:
  assumes "dict_small d'" "d_values d' = d_values d @ vs" "0 \<le> i" "Value d i = Some s"
  shows "Value d' i = Some s"
proof -
  have "dict_small d" using assms(1,2) by (simp add: dict_small_def)
  with assms show ?thesis by (auto simp: Value_eq nth_append split: if_splits)
qed

lemma Assign_ref:
  assumes "dict_ok d" "dict_small d'" "Assign d s = (Inr i, d')"
  shows "s \<noteq> '''' \<and> i \<noteq> 0 \<and> is_u32 i \<and> Value d' i = Some s"
proof (cases "d_ids d s")
  case None
  with assms(3) have d': "s \<noteq> ''''" "i = u32 (int (length (d_values d)))" "d_values d' = d_values d @ [s]"
    by (auto simp: Assign_def Let_def split: if_splits)
  have "i = int (length (d_values d))" "d_values d \<noteq> []" using assms d' by (auto simp: dict_small_def u32_def dict_ok_def)
  with d' assms(2) show ?thesis by (auto simp: Value_eq dict_small_def is_u32_def)
next
  case (Some j)
  with assms(3) have d': "s \<noteq> ''''" "j = i" "d' = d" by (auto simp: Assign_def Let_def split: if_splits)
  then obtain k where "0 < k" "k < length (d_values d)" "d_values d ! k = s" "i = u32 (int k)"
    using assms(1) Some by (auto simp: dict_ok_def)
  with d' assms(2) show ?thesis by (auto simp: Value_eq dict_small_def is_u32_def u32_def)
qed

lemma Define_Assign:
  assumes "dict_ok d" "dict_small (snd (Assign d s))" "d_ids d s = None" "s \<noteq> ''''"
  shows "Define d (u32 (int (length (d_values d)))) s = (None, snd (Assign d s))"
  using assms by (auto simp: Define_def Assign_def Let_def dict_small_def u32_def dict_ok_def)

section \<open>Queries never lose a match\<close>

lemma or_zero: "a OR b = 0 \<longleftrightarrow> a = 0 \<and> b = 0" for a b :: "64 word"
  by (auto simp: bit_eq_iff bit_or_iff)

lemma foldl_or: "foldl (\<lambda>m x. m OR f x) m xs = m OR foldl (\<lambda>m x. m OR f x) 0 xs" for m :: "64 word"
proof (induction xs arbitrary: m)
  case (Cons x xs)
  show ?case using Cons [of "m OR f x"] Cons [of "f x"] by (simp add: ac_simps)
qed simp

lemma foldl_or_mem: "x \<in> set xs \<Longrightarrow> bit (f x) k \<Longrightarrow> bit (foldl (\<lambda>m x. m OR f x) m xs) k" for m :: "64 word"
proof (induction xs arbitrary: m)
  case (Cons y ys)
  then show ?case by (cases "x = y") (auto simp: foldl_or [of _ "m OR f y"] bit_or_iff)
qed simp

definition stats_of :: "FrameHeader list \<Rightarrow> blockStats" where
  "stats_of hs = foldl observe stats_reset hs"

lemma observe_families: "s_families (foldl observe s hs) = foldl (\<lambda>m h. m OR familyBit (SchemaID h)) (s_families s) hs"
  by (induction hs arbitrary: s) (simp_all add: observe_def)

lemma observe_symbols: "s_symbols (foldl observe s hs) = foldl (\<lambda>m h. m OR symbolBit (VenueRef h)) (s_symbols s) hs"
  by (induction hs arbitrary: s) (simp_all add: observe_def)

lemma observe_times:
  "s_minTS (foldl observe s hs) \<le> s_minTS s \<and> s_maxTS s \<le> s_maxTS (foldl observe s hs) \<and>
   (\<forall>h\<in>set hs. s_minTS (foldl observe s hs) \<le> SimTS h \<and> SimTS h \<le> s_maxTS (foldl observe s hs))"
proof (induction hs arbitrary: s)
  case (Cons h hs)
  then show ?case using Cons [of "observe s h"] by (auto simp: observe_def split: if_splits)
qed simp

lemma observe_seqs:
  "s_started s \<Longrightarrow> s_firstSeq (foldl observe s hs) = s_firstSeq s \<and> s_lastSeq (foldl observe s hs) = last (s_lastSeq s # map Seq hs)"
  by (induction hs arbitrary: s) (auto simp: observe_def)

lemma sorted_last: "sorted xs \<Longrightarrow> x \<in> set xs \<Longrightarrow> x \<le> last xs" for x :: int
  by (induction xs) (auto split: if_splits)

lemma stats_seqs:
  assumes "sorted (map Seq hs)" "h \<in> set hs"
  shows "s_firstSeq (stats_of hs) \<le> Seq h \<and> Seq h \<le> s_lastSeq (stats_of hs)"
proof -
  obtain g gs where hs: "hs = g # gs" using assms(2) by (cases hs) auto
  have "s_firstSeq (stats_of hs) = Seq g" "s_lastSeq (stats_of hs) = last (map Seq hs)"
    using observe_seqs [of "observe stats_reset g" gs] by (simp_all add: stats_of_def hs observe_def stats_reset_def)
  then show ?thesis using assms hs sorted_last [of "map Seq hs" "Seq h"] by auto
qed

lemma familyBit_ne: "familyBit i \<noteq> 0"
proof -
  have "(push_bit k 1 :: 64 word) \<noteq> 0" if "k < 64" for k using that by (simp add: bit_eq_iff) (auto simp: bit_simps intro: exI [of _ k])
  moreover have "nat ((i - FirstUserSchema) mod 63 + 1) < 64"
    using pos_mod_bound [of 63 "i - FirstUserSchema"] by (simp add: nat_less_iff)
  ultimately show ?thesis by (simp add: familyBit_def)
qed

lemma symbolBit_ne: "r \<noteq> 0 \<Longrightarrow> symbolBit r \<noteq> 0"
proof -
  have "unat (drop_bit 58 (w :: 64 word)) < 64" for w
  proof -
    have "unat (drop_bit 58 w) = unat w div 2 ^ 58" unfolding unat_drop_bit_eq by (rule drop_bit_eq_div)
    moreover have "unat w < 2 ^ 64" using unsigned_less [of w, where ?'a = nat] by simp
    ultimately show ?thesis by (simp add: div_less_iff_less_mult)
  qed
  moreover have "(push_bit k 1 :: 64 word) \<noteq> 0" if "k < 64" for k using that by (simp add: bit_eq_iff) (auto simp: bit_simps intro: exI [of _ k])
  ultimately show "r \<noteq> 0 \<Longrightarrow> symbolBit r \<noteq> 0" by (simp add: symbolBit_def not_le)
qed

lemma masks_meet:
  fixes f :: "'b \<Rightarrow> 64 word"
  assumes "h \<in> set hs" "g h = x" "x \<in> set xs" "f x \<noteq> 0"
  shows "foldl (\<lambda>m h. m OR f (g h)) 0 hs AND foldl (\<lambda>m x. m OR f x) 0 xs \<noteq> 0"
proof -
  obtain k where "bit (f x) k" using assms(4) by (auto simp: bit_eq_iff)
  have "bit (foldl (\<lambda>m h. m OR f (g h)) 0 hs) k" "bit (foldl (\<lambda>m x. m OR f x) 0 xs) k"
    using assms foldl_or_mem [of h hs "\<lambda>h. f (g h)" k 0] foldl_or_mem [of x xs f k 0] \<open>bit (f x) k\<close> by simp_all
  moreover have "k < 64" using bit_imp_le_length [OF \<open>bit (f x) k\<close>] by simp
  ultimately show ?thesis by (auto simp: bit_eq_iff bit_and_iff)
qed

text \<open>A block is selected whenever a frame in it matches, as long as the query does not ask for frames
  without a venue.\<close>

lemma Selects_complete:
  assumes "h \<in> set hs" "sorted (map Seq hs)" "Matches q h" "0 \<notin> set (SymbolRefs q)"
  shows "Selects q (descriptor (stats_of hs) offset n m)"
proof -
  have t: "s_minTS (stats_of hs) \<le> SimTS h \<and> SimTS h \<le> s_maxTS (stats_of hs)"
    using observe_times [of stats_reset hs] assms(1) by (simp add: stats_of_def)
  have f: "s_families (stats_of hs) AND familyMask q \<noteq> 0" if "familyMask q \<noteq> 0"
  proof -
    have "QFamilies q \<noteq> []" using that by (auto simp: familyMask_def)
    with assms(3) have "SchemaID h \<in> set (QFamilies q)" by (simp add: Matches_def)
    then show ?thesis using masks_meet [OF assms(1) refl, of SchemaID _ familyBit] familyBit_ne
      by (simp add: familyMask_def stats_of_def observe_families stats_reset_def)
  qed
  have s: "s_symbols (stats_of hs) AND symbolMask q \<noteq> 0" if "symbolMask q \<noteq> 0"
  proof -
    have "SymbolRefs q \<noteq> []" using that by (auto simp: symbolMask_def)
    with assms(3) have m: "VenueRef h \<in> set (SymbolRefs q)" by (simp add: Matches_def)
    with assms(4) have "VenueRef h \<noteq> 0" by metis
    with m show ?thesis using masks_meet [OF assms(1) refl, of VenueRef _ symbolBit] symbolBit_ne
      by (simp add: symbolMask_def stats_of_def observe_symbols stats_reset_def)
  qed
  show ?thesis using assms(3) t f s stats_seqs [OF assms(2,1)] by (auto simp: Selects_def descriptor_def Matches_def)
qed

section \<open>A persisted index is read back\<close>

definition descriptor_ok :: "BlockDescriptor \<Rightarrow> bool" where
  "descriptor_ok d \<longleftrightarrow> is_u64 (Offset d) \<and> is_u32 (StoredLen d) \<and> is_u32 (UncompressedLen d) \<and> is_u64 (FirstSeq d) \<and> is_u64 (LastSeq d) \<and>
     is_i64 (MinTS d) \<and> is_i64 (MaxTS d)"

lemma uint_u64: "is_u64 (uint (w :: 64 word))"
  using uint_lt2p [of w] by (simp add: is_u64_def)

lemma ParseDescriptor_back: "descriptor_ok d \<Longrightarrow> ParseDescriptor (AppendDescriptor [] d @ rest) = Inr d"
  by (simp add: ParseDescriptor_def AppendDescriptor_def descriptor_ok_def slice_skip slice_front uint_u64)

lemma AppendDescriptor_dst: "AppendDescriptor dst d = dst @ AppendDescriptor [] d"
  by (simp add: AppendDescriptor_def)

lemma AppendDescriptor_length: "length (AppendDescriptor [] d) = 64"
  by (simp add: AppendDescriptor_def)

lemma foldl_descriptors: "foldl AppendDescriptor dst ds = dst @ concat (map (AppendDescriptor []) ds)"
proof (induction ds arbitrary: dst)
  case (Cons d ds)
  then show ?case using AppendDescriptor_dst [of dst d] by simp
qed simp

lemma descriptors_length: "length (concat (map (AppendDescriptor []) ds)) = 64 * length ds"
  by (induction ds) (simp_all add: AppendDescriptor_length)

lemma parse_descriptors_back:
  "\<forall>d\<in>set ds. descriptor_ok d \<Longrightarrow> parse_descriptors (length ds) (concat (map (AppendDescriptor []) ds)) = Inr ds"
  by (induction ds) (simp_all add: ParseDescriptor_back AppendDescriptor_length)

text \<open>A persisted block index is read back exactly. Writing any directory of at most a million
  descriptors and loading it with the default limits returns the same descriptors in the same
  order, whatever follows them in the file.\<close>

theorem index_roundtrip:
  assumes "\<forall>d\<in>set ds. descriptor_ok d" "length ds \<le> 1048576"
  shows "ReadIndex (Index_WriteTo ds @ rest) = Inr ds"
proof -
  let ?body = "concat (map (AppendDescriptor []) ds)"
  have n: "is_u32 (int (length ds))" using assms(2) by (simp add: is_u32_def)
  have w: "Index_WriteTo ds @ rest = le_bytes 4 IndexMagic @ le_bytes 4 (int (length ds)) @ ?body @ rest"
    using n by (simp add: Index_WriteTo_def foldl_descriptors AppendUint32_def u32_id)
  have "slice (Index_WriteTo ds @ rest) 0 4 = le_bytes 4 IndexMagic" "slice (Index_WriteTo ds @ rest) 4 8 = le_bytes 4 (int (length ds))"
    "drop 8 (Index_WriteTo ds @ rest) = ?body @ rest"
    unfolding w by (simp_all add: slice_skip slice_front del: le_bytes.simps)
  moreover have "nat (int (length ds) * 64) = length ?body" by (simp only: descriptors_length)
  moreover have "8 \<le> length (Index_WriteTo ds @ rest)" unfolding w by simp
  ultimately show ?thesis using n assms parse_descriptors_back [OF assms(1)]
    by (simp add: ReadIndex_def ReadIndexWithLimits_def normalizeIndexReadLimits_def is_u32_def)
qed

theorem index_roundtrip_witness:
  "ReadIndex (Index_WriteTo [descriptor (stats_of []) 32 40 60] @ [1, 2, 3]) = Inr [descriptor (stats_of []) 32 40 60]"
  by (rule index_roundtrip) (simp_all add: descriptor_ok_def descriptor_def stats_of_def stats_reset_def is_u64_def is_u32_def is_i64_def)

end
