(* ===== verification/Ev_Stream.thy ===== *)
theory Ev_Stream
  imports Ev_Index
begin

text \<open>Writing and reading an event stream (\<open>evstream/writer.go\<close>, \<open>evstream/reader.go\<close>).

  The destination of a writer is an interface: \<open>we_write\<close> answers, for the bytes it has accepted so
  far and the bytes offered now, how many of them it takes and whether it reports an error; the
  accepted bytes are part of the writer's state. The compressor is an interface too, with its
  codec number. A hasher is the list of bytes it absorbed. Buffers the code reuses are not
  modelled.\<close>

section \<open>The writer\<close>

record writer_env =
  we_write :: "bytes \<Rightarrow> bytes \<Rightarrow> nat \<times> bool"
  we_comp :: "(int \<times> (bytes \<Rightarrow> bytes option)) option"

record Writer =
  w_out :: bytes
  w_closed :: bool
  w_blockBytes :: int
  w_frames :: bytes
  w_frameCount :: uint32
  w_seq :: uint64
  w_hashed :: bytes
  w_dict :: Dictionary
  w_wroteHdr :: bool
  w_epoch :: uint32
  w_err :: "ev_error option"
  w_offset :: uint64
  w_stats :: blockStats
  w_index :: "BlockDescriptor list"

definition NewWriter :: "int \<Rightarrow> uint32 \<Rightarrow> Writer" where
  "NewWriter blockBytes epoch =
     \<lparr>w_out = [], w_closed = False, w_blockBytes = (if blockBytes \<le> 0 then 1048576 else blockBytes), w_frames = [], w_frameCount = 0,
      w_seq = 0, w_hashed = [], w_dict = NewDictionary, w_wroteHdr = False, w_epoch = epoch, w_err = None, w_offset = 0,
      w_stats = stats_reset, w_index = []\<rparr>"

text \<open>Every operation returns the code's error, \<open>None\<close> for nil.\<close>

definition writeExact :: "writer_env \<Rightarrow> bytes \<Rightarrow> Writer \<Rightarrow> ev_error option \<times> Writer" where
  "writeExact env data w =
     (let (n, failed) = we_write env (w_out w) data;
          err = (if failed then Some ErrWrite else if n \<noteq> length data then Some ErrShortWrite else None);
          w' = w\<lparr>w_out := w_out w @ take n data\<rparr>
      in (err, if err \<noteq> None then w'\<lparr>w_err := err\<rparr> else w'))"

definition codec_of :: "writer_env \<Rightarrow> int" where
  "codec_of env = (case we_comp env of None \<Rightarrow> CodecNone | Some (codec, _) \<Rightarrow> codec)"

definition stream_header :: "int \<Rightarrow> uint32 \<Rightarrow> bytes" where
  "stream_header codec epoch =
     Magic @ le_bytes 2 FormatMajor @ le_bytes 2 FormatMinor @ [word_of_int codec, 0, 0, 0] @ le_bytes 4 epoch @ replicate 12 0"

definition ensureHeader :: "writer_env \<Rightarrow> Writer \<Rightarrow> ev_error option \<times> Writer" where
  "ensureHeader env w =
     (if w_wroteHdr w then (None, w)
      else (case writeExact env (stream_header (codec_of env) (w_epoch w)) w of
              (Some e, w1) \<Rightarrow> (Some e, w1)
            | (None, w1) \<Rightarrow> (None, w1\<lparr>w_offset := u64 (w_offset w1 + int StreamHeaderSize), w_wroteHdr := True\<rparr>)))"

definition block_header :: "bytes \<Rightarrow> bytes \<Rightarrow> uint32 \<Rightarrow> bytes" where
  "block_header uncompressed stored frameCount =
     le_bytes 4 BlockMagic @ le_bytes 4 (u32 (int (length uncompressed))) @ le_bytes 4 (u32 (int (length stored))) @
     le_bytes 4 frameCount @ le_bytes 4 (uint (crc32c uncompressed))"

definition store_block :: "writer_env \<Rightarrow> bytes \<Rightarrow> bytes option" where
  "store_block env uncompressed = (case we_comp env of None \<Rightarrow> Some uncompressed | Some (_, compress) \<Rightarrow> compress uncompressed)"

definition flushBlock :: "writer_env \<Rightarrow> Writer \<Rightarrow> ev_error option \<times> Writer" where
  "flushBlock env w =
     (if w_frameCount w = 0 then (None, w)
      else (case store_block env (w_frames w) of
        None \<Rightarrow> (Some ErrCompress, w\<lparr>w_err := Some ErrCompress\<rparr>)
      | Some stored \<Rightarrow>
          (case writeExact env (block_header (w_frames w) stored (w_frameCount w)) w of
             (Some e, w1) \<Rightarrow> (Some e, w1)
           | (None, w1) \<Rightarrow>
               (case writeExact env stored w1 of
                  (Some e, w2) \<Rightarrow> (Some e, w2)
                | (None, w2) \<Rightarrow>
                    (None, w2\<lparr>w_index := w_index w2 @ [descriptor (w_stats w2) (w_offset w2) (u32 (int (length stored))) (u32 (int (length (w_frames w2))))],
                              w_offset := u64 (w_offset w2 + int (BlockHeaderSize + length stored)),
                              w_frames := [], w_frameCount := 0, w_stats := stats_reset\<rparr>)))))"

text \<open>The payload is the bytes of the raw argument or of the appender; the header's length is patched
  after the payload is known.\<close>

definition appendFrame :: "writer_env \<Rightarrow> FrameHeader \<Rightarrow> bytes \<Rightarrow> Writer \<Rightarrow> ev_error option \<times> Writer" where
  "appendFrame env header payload w =
     (if w_closed w then (Some ErrClosed, w)
      else if w_err w \<noteq> None then (w_err w, w)
      else if HdrClientID header > MaxEncodedClientID then (Some ErrClientIDOverflow, w)
      else (case ensureHeader env w of
        (Some e, w1) \<Rightarrow> (Some e, w1)
      | (None, w1) \<Rightarrow>
          let seq = u64 (w_seq w1 + 1);
              header1 = header\<lparr>Seq := seq\<rparr>;
              unpatched = AppendFrameHeader [] header1 @ payload;
              frame = le_bytes 4 (u32 (int (length unpatched))) @ drop 4 unpatched;
              w2 = w1\<lparr>w_seq := seq, w_frames := w_frames w1 @ frame, w_hashed := w_hashed w1 @ frame,
                      w_stats := observe (w_stats w1) header1, w_frameCount := u32 (w_frameCount w1 + 1)\<rparr>
          in if int (length (w_frames w2)) \<ge> w_blockBytes w2 then flushBlock env w2 else (None, w2)))"

definition blank_header :: FrameHeader where
  "blank_header = \<lparr>Length = 0, Seq = 0, SimTS = 0, SchemaID = 0, SchemaVersion = 0, VenueRef = 0, HdrClientID = 0\<rparr>"

definition Intern :: "writer_env \<Rightarrow> string \<Rightarrow> Writer \<Rightarrow> (ev_error + uint32) \<times> Writer" where
  "Intern env s w =
     (if w_closed w then (Inl ErrClosed, w)
      else case w_err w of
        Some e \<Rightarrow> (Inl e, w)
      | None \<Rightarrow>
          if s = '''' then (Inl ErrEmptyDictionaryValue, w)
          else (case d_ids (w_dict w) s of
            Some i \<Rightarrow> (Inr i, w)
          | None \<Rightarrow>
              (case Assign (w_dict w) s of
                 (Inl e, d) \<Rightarrow> (Inl e, w\<lparr>w_dict := d\<rparr>)
               | (Inr i, d) \<Rightarrow>
                   (case appendFrame env (blank_header\<lparr>SchemaID := SchemaDictionary, SchemaVersion := 1\<rparr>)
                           (AppendString (AppendUint32 [] i) s) (w\<lparr>w_dict := d\<rparr>) of
                      (Some e, w1) \<Rightarrow> (Inl e, w1)
                    | (None, w1) \<Rightarrow> (Inr i, w1)))))"

text \<open>A \<open>PayloadAppender\<close> appends fixed bytes; an \<open>InterningAppender\<close> also interns its strings.\<close>

record PayloadAppender =
  pa_schema :: uint16
  pa_version :: uint16
  pa_payload :: bytes

record 'w InterningAppender =
  ia_schema :: uint16
  ia_version :: uint16
  ia_append :: "bytes \<Rightarrow> 'w \<Rightarrow> (ev_error + bytes) \<times> 'w"

definition event_header :: "int64 \<Rightarrow> uint64 \<Rightarrow> uint32 \<Rightarrow> uint16 \<Rightarrow> uint16 \<Rightarrow> FrameHeader" where
  "event_header simTS clientID venueRef schema version =
     blank_header\<lparr>SimTS := simTS, HdrClientID := clientID, VenueRef := venueRef, SchemaID := schema, SchemaVersion := version\<rparr>"

definition Append :: "writer_env \<Rightarrow> int64 \<Rightarrow> uint64 \<Rightarrow> uint32 \<Rightarrow> PayloadAppender \<Rightarrow> Writer \<Rightarrow> ev_error option \<times> Writer" where
  "Append env simTS clientID venueRef payload w =
     (if w_closed w then (Some ErrClosed, w)
      else if w_err w \<noteq> None then (w_err w, w)
      else appendFrame env (event_header simTS clientID venueRef (pa_schema payload) (pa_version payload)) (pa_payload payload) w)"

definition AppendInterning ::
  "writer_env \<Rightarrow> int64 \<Rightarrow> uint64 \<Rightarrow> uint32 \<Rightarrow> Writer InterningAppender \<Rightarrow> Writer \<Rightarrow> ev_error option \<times> Writer" where
  "AppendInterning env simTS clientID venueRef payload w =
     (if w_closed w then (Some ErrClosed, w)
      else if w_err w \<noteq> None then (w_err w, w)
      else if clientID > MaxEncodedClientID then (Some ErrClientIDOverflow, w)
      else (case ensureHeader env w of
        (Some e, w1) \<Rightarrow> (Some e, w1)
      | (None, w1) \<Rightarrow>
          (case ia_append payload [] w1 of
             (Inl e, w2) \<Rightarrow> (Some e, w2)
           | (Inr encoded, w2) \<Rightarrow>
               appendFrame env (event_header simTS clientID venueRef (ia_schema payload) (ia_version payload)) encoded w2)))"

definition Flush :: "writer_env \<Rightarrow> Writer \<Rightarrow> ev_error option \<times> Writer" where
  "Flush env w =
     (if w_closed w then (Some ErrClosed, w)
      else if w_err w \<noteq> None then (w_err w, w)
      else (case ensureHeader env w of (Some e, w1) \<Rightarrow> (Some e, w1) | (None, w1) \<Rightarrow> flushBlock env w1))"

definition ExecutionHash :: "Writer \<Rightarrow> bytes" where
  "ExecutionHash w = sha256 (w_hashed w)"

definition trailer_bytes :: "uint64 \<Rightarrow> bytes \<Rightarrow> bytes" where
  "trailer_bytes seq digest = AppendUint64 (AppendUint32 [] TrailerMagic) seq @ digest"

definition Close :: "writer_env \<Rightarrow> Writer \<Rightarrow> ev_error option \<times> Writer" where
  "Close env w =
     (if w_closed w then (None, w)
      else (case Flush env w of
        (Some e, w1) \<Rightarrow> (Some e, w1)
      | (None, w1) \<Rightarrow>
          (case writeExact env (trailer_bytes (w_seq w1) (ExecutionHash w1)) w1 of
             (Some e, w2) \<Rightarrow> (Some e, w2)
           | (None, w2) \<Rightarrow> (None, w2\<lparr>w_closed := True\<rparr>))))"

section \<open>The reader\<close>

record BlockReadLimits =
  MaxStoredBlockBytes :: uint64
  MaxUncompressedBlockBytes :: uint64
  MaxCompressionRatio :: uint64

definition normalizeBlockReadLimits :: "BlockReadLimits \<Rightarrow> ev_error + BlockReadLimits" where
  "normalizeBlockReadLimits l =
     (let l1 = (if MaxStoredBlockBytes l = 0 then l\<lparr>MaxStoredBlockBytes := 67108864\<rparr> else l);
          l2 = (if MaxUncompressedBlockBytes l1 = 0 then l1\<lparr>MaxUncompressedBlockBytes := 67108864\<rparr> else l1);
          l3 = (if MaxCompressionRatio l2 = 0 then l2\<lparr>MaxCompressionRatio := 4096\<rparr> else l2)
      in if MaxStoredBlockBytes l3 > MaxInt64 - int BlockHeaderSize \<or> MaxUncompressedBlockBytes l3 > MaxInt64 then Inl ErrCorrupt
         else Inr l3)"

definition validateBlockLengths :: "int \<Rightarrow> uint64 \<Rightarrow> uint64 \<Rightarrow> BlockReadLimits \<Rightarrow> bool" where
  "validateBlockLengths codec storedLen uncompressedLen limits \<longleftrightarrow>
     storedLen \<le> MaxStoredBlockBytes limits \<and> uncompressedLen \<le> MaxUncompressedBlockBytes limits \<and>
     (if codec = CodecNone then storedLen = uncompressedLen
      else \<not> (storedLen = 0 \<and> uncompressedLen \<noteq> 0) \<and>
           \<not> (storedLen \<noteq> 0 \<and> storedLen \<le> 18446744073709551615 div MaxCompressionRatio limits \<and>
              uncompressedLen > storedLen * MaxCompressionRatio limits))"

type_synonym decompressor = "int \<times> (bytes \<Rightarrow> nat \<Rightarrow> bytes option)"

record ReaderOptions =
  ro_decomp :: "decompressor option"
  ro_verify :: bool
  ro_allowUnterminated :: bool
  ro_limits :: BlockReadLimits

record Reader =
  r_in :: bytes
  r_decomp :: "decompressor option"
  r_codec :: int
  r_epoch :: uint32
  r_block :: bytes
  r_dict :: Dictionary
  r_lastSeq :: uint64
  r_verify :: bool
  r_hashed :: bytes
  r_frames :: uint64
  r_blockFrames :: uint32
  r_terminated :: bool
  r_allowUnterminated :: bool
  r_limits :: BlockReadLimits

record Frame =
  FrHeader :: FrameHeader
  FrPayload :: bytes
  FrVenue :: string

text \<open>An input that ends inside the stream header is reported as it is by the input.\<close>

definition NewReader :: "bytes \<Rightarrow> ReaderOptions \<Rightarrow> ev_error + Reader" where
  "NewReader input opts =
     (case normalizeBlockReadLimits (ro_limits opts) of
        Inl e \<Rightarrow> Inl e
      | Inr limits \<Rightarrow>
          if input = [] then Inl ErrShortBuffer
          else if length input < StreamHeaderSize then Inl ErrUnexpectedEOF
          else let header = take StreamHeaderSize input; codec = uint (header ! 12)
            in if slice header 0 8 \<noteq> Magic then Inl ErrBadMagic
               else if list_ex (\<lambda>b. b \<noteq> 0) (slice header 13 16) then Inl ErrCorrupt
               else if list_ex (\<lambda>b. b \<noteq> 0) (slice header 20 32) then Inl ErrCorrupt
               else if le_value (slice header 8 10) \<noteq> FormatMajor then Inl ErrUnsupportedVersion
               else if codec \<noteq> CodecNone \<and> (case ro_decomp opts of None \<Rightarrow> True | Some (c, _) \<Rightarrow> c \<noteq> codec) then Inl ErrUnsupportedVersion
               else Inr \<lparr>r_in = drop StreamHeaderSize input, r_decomp = ro_decomp opts, r_codec = codec, r_epoch = le_value (slice header 16 20),
                         r_block = [], r_dict = NewDictionary, r_lastSeq = 0, r_verify = ro_verify opts, r_hashed = [], r_frames = 0,
                         r_blockFrames = 0, r_terminated = False, r_allowUnterminated = ro_allowUnterminated opts, r_limits = limits\<rparr>)"

definition Reader_ExecutionHash :: "Reader \<Rightarrow> bytes" where
  "Reader_ExecutionHash r = (if r_verify r then sha256 (r_hashed r) else replicate 32 0)"

text \<open>The trailer begins with the block header already read.\<close>

definition readTrailer :: "bytes \<Rightarrow> Reader \<Rightarrow> ev_error option \<times> Reader" where
  "readTrailer blockHdr r =
     (let need = TrailerSize - BlockHeaderSize
      in if length (r_in r) < need then (Some ErrShortBuffer, r\<lparr>r_in := []\<rparr>)
         else let trailer = blockHdr @ take need (r_in r); r1 = r\<lparr>r_in := drop need (r_in r)\<rparr>
              in if le_value (slice trailer 4 12) \<noteq> r_frames r then (Some ErrCorrupt, r1)
                 else if r_verify r \<and> drop 12 trailer \<noteq> Reader_ExecutionHash r then (Some ErrCorrupt, r1)
                 else if r_in r1 \<noteq> [] then (Some ErrCorrupt, r1\<lparr>r_in := tl (r_in r1)\<rparr>)
                 else (None, r1\<lparr>r_terminated := True\<rparr>))"

definition decode_block :: "int \<Rightarrow> decompressor option \<Rightarrow> bytes \<Rightarrow> nat \<Rightarrow> bytes option" where
  "decode_block codec decomp stored uncompressedLen =
     (if codec = CodecNone then Some stored
      else case decomp of
        None \<Rightarrow> None
      | Some (_, decompress) \<Rightarrow>
          (case decompress stored uncompressedLen of
             None \<Rightarrow> None
           | Some block \<Rightarrow> if length block \<noteq> uncompressedLen then None else Some block))"

text \<open>The result says whether there is another block, or the error.\<close>

definition nextBlock :: "Reader \<Rightarrow> (ev_error + bool) \<times> Reader" where
  "nextBlock r =
     (if r_in r = [] then (Inr False, r)
      else if length (r_in r) < BlockHeaderSize then (Inl ErrShortBuffer, r\<lparr>r_in := []\<rparr>)
      else let hdr = take BlockHeaderSize (r_in r); r1 = r\<lparr>r_in := drop BlockHeaderSize (r_in r)\<rparr>; magic = le_value (slice hdr 0 4)
        in if magic \<noteq> BlockMagic
           then (if magic = TrailerMagic
                 then (case readTrailer hdr r1 of (Some e, r2) \<Rightarrow> (Inl e, r2) | (None, r2) \<Rightarrow> (Inr False, r2))
                 else (Inl ErrCorrupt, r1))
           else let uncompressedLen = le_value (slice hdr 4 8); storedLen = le_value (slice hdr 8 12);
                    wantFrames = le_value (slice hdr 12 16); wantCRC = le_value (slice hdr 16 20)
                in if \<not> validateBlockLengths (r_codec r) storedLen uncompressedLen (r_limits r) then (Inl ErrCorrupt, r1)
                   else if length (r_in r1) < nat storedLen then (Inl ErrShortBuffer, r1\<lparr>r_in := []\<rparr>)
                   else let stored = take (nat storedLen) (r_in r1); r2 = r1\<lparr>r_in := drop (nat storedLen) (r_in r1)\<rparr>
                        in case decode_block (r_codec r) (r_decomp r) stored (nat uncompressedLen) of
                             None \<Rightarrow> (Inl ErrCorrupt, r2)
                           | Some block \<Rightarrow>
                               if uint (crc32c block) \<noteq> wantCRC then (Inl ErrCorrupt, r2\<lparr>r_block := block\<rparr>)
                               else (Inr True, r2\<lparr>r_block := block, r_blockFrames := wantFrames\<rparr>))"

definition defineDictionary :: "bytes \<Rightarrow> Reader \<Rightarrow> ev_error option \<times> Reader" where
  "defineDictionary payload r =
     (let ((i, v), c) = run_state (do { i \<leftarrow> Uint32; v \<leftarrow> String; State_Monad.return (i, v) }) (NewCursor payload)
      in case finish c of
           Some e \<Rightarrow> (Some e, r)
         | None \<Rightarrow> (case Define (r_dict r) i v of (e, d) \<Rightarrow> (e, r\<lparr>r_dict := d\<rparr>)))"

text \<open>The visitor is a callback with its own state; it can stop the walk with an error.\<close>

type_synonym 'v visitor = "Frame \<Rightarrow> 'v \<Rightarrow> ev_error option \<times> 'v"

definition venue_of :: "Dictionary \<Rightarrow> uint32 \<Rightarrow> string option" where
  "venue_of d ref = (if ref = 0 then Some '''' else Value d ref)"

definition take_frame :: "'v visitor \<Rightarrow> FrameHeader \<Rightarrow> bytes \<Rightarrow> Reader \<times> 'v \<Rightarrow> ev_error option \<times> Reader \<times> 'v" where
  "take_frame visit h frameBytes rv =
     (let (r, v) = rv; payload = drop FrameHeaderSize frameBytes
      in if Seq h \<noteq> u64 (r_lastSeq r + 1) then (Some ErrSequence, r, v)
         else let r1 = r\<lparr>r_lastSeq := Seq h, r_frames := u64 (r_frames r + 1),
                         r_hashed := (if r_verify r then r_hashed r @ frameBytes else r_hashed r)\<rparr>
              in if SchemaID h = SchemaDictionary then (case defineDictionary payload r1 of (e, r2) \<Rightarrow> (e, r2, v))
                 else (case venue_of (r_dict r1) (VenueRef h) of
                         None \<Rightarrow> (Some ErrCorrupt, r1, v)
                       | Some venue \<Rightarrow>
                           (case visit \<lparr>FrHeader = h, FrPayload = payload, FrVenue = venue\<rparr> v of (e, v1) \<Rightarrow> (e, r1, v1))))"

function frames_loop :: "'v visitor \<Rightarrow> bytes \<Rightarrow> nat \<Rightarrow> Reader \<times> 'v \<Rightarrow> ev_error option \<times> Reader \<times> 'v" where
  "frames_loop visit bs seen rv =
     (if bs = [] then (if int seen mod 4294967296 \<noteq> r_blockFrames (fst rv) then (Some ErrCorrupt, rv) else (None, rv))
      else (case ParseFrameHeader bs of
              Inl e \<Rightarrow> (Some e, rv)
            | Inr h \<Rightarrow>
                if nat (Length h) > length bs then (Some ErrCorrupt, rv)
                else (case take_frame visit h (take (nat (Length h)) bs) rv of
                        (Some e, rv1) \<Rightarrow> (Some e, rv1)
                      | (None, rv1) \<Rightarrow> frames_loop visit (drop (nat (Length h)) bs) (Suc seen) rv1)))"
  by pat_completeness auto
termination
proof (relation "measure (\<lambda>(_, bs, _, _). length bs)", goal_cases)
  case (2 visit bs seen rv h p rv1)
  then have "32 \<le> Length h" by (auto simp: ParseFrameHeader_def Let_def split: if_splits)
  with 2 show ?case by simp
qed simp

declare frames_loop.simps [simp del]

definition rangeBlock :: "'v visitor \<Rightarrow> Reader \<times> 'v \<Rightarrow> ev_error option \<times> Reader \<times> 'v" where
  "rangeBlock visit rv = frames_loop visit (r_block (fst rv)) 0 rv"

lemma nextBlock_consumes: "nextBlock r = (Inr True, r1) \<Longrightarrow> length (r_in r1) < length (r_in r)"
  by (auto simp: nextBlock_def Let_def split: if_splits option.splits prod.splits)

lemma take_frame_input: "r_in (fst (snd (take_frame visit h bs rv))) = r_in (fst rv)"
  by (auto simp: take_frame_def defineDictionary_def Let_def split: prod.splits option.splits)

lemma frames_loop_input: "r_in (fst (snd (frames_loop visit bs seen rv))) = r_in (fst rv)"
proof (induction visit bs seen rv rule: frames_loop.induct)
  case (1 visit bs seen rv)
  show ?case
  proof (cases "ParseFrameHeader bs")
    case (Inr h)
    obtain e rv1 where t: "take_frame visit h (take (nat (Length h)) bs) rv = (e, rv1)" by (rule prod.exhaust)
    then have i: "r_in (fst rv1) = r_in (fst rv)" using take_frame_input [of visit h "take (nat (Length h)) bs" rv] by simp
    show ?thesis
      using 1 [OF _ Inr _ t [symmetric]] Inr t i by (subst frames_loop.simps) (auto split: option.split)
  qed (subst frames_loop.simps, auto)
qed

function Range :: "'v visitor \<Rightarrow> Reader \<times> 'v \<Rightarrow> ev_error option \<times> Reader \<times> 'v" where
  "Range visit (r, v) =
     (case nextBlock r of
        (Inl e, r1) \<Rightarrow> (Some e, r1, v)
      | (Inr False, r1) \<Rightarrow> (if \<not> r_terminated r1 \<and> \<not> r_allowUnterminated r1 then Some ErrShortBuffer else None, r1, v)
      | (Inr True, r1) \<Rightarrow>
          (case rangeBlock visit (r1, v) of
             (Some e, rv2) \<Rightarrow> (Some e, rv2)
           | (None, rv2) \<Rightarrow> Range visit rv2))"
  by pat_completeness auto
termination
proof (relation "measure (\<lambda>(_, r, _). length (r_in r))", goal_cases)
  case (2 visit r v x r1 b p rv2)
  then have "frames_loop visit (r_block r1) 0 (r1, v) = (None, rv2)" by (simp add: rangeBlock_def)
  then have "r_in (fst rv2) = r_in r1"
    using frames_loop_input [of visit "r_block r1" 0 "(r1, v)"] by simp
  with 2 nextBlock_consumes [of r r1] show ?case by (cases rv2) auto
qed simp

declare Range.simps [simp del]

text \<open>Opening and walking a whole stream, collecting the frames.\<close>

definition collect :: "Frame list visitor" where
  "collect f fs = (None, fs @ [f])"

definition read_stream :: "ReaderOptions \<Rightarrow> bytes \<Rightarrow> (ev_error + Reader) \<times> Frame list" where
  "read_stream opts input =
     (case NewReader input opts of
        Inl e \<Rightarrow> (Inl e, [])
      | Inr r \<Rightarrow> (case Range collect (r, []) of (Some e, _, fs) \<Rightarrow> (Inl e, fs) | (None, r', fs) \<Rightarrow> (Inr r', fs)))"

section \<open>The writer is an interner\<close>

lemma writeExact_dict: "w_dict (snd (writeExact env data w)) = w_dict w"
  by (simp add: writeExact_def Let_def split: prod.splits)

lemma ensureHeader_dict: "w_dict (snd (ensureHeader env w)) = w_dict w"
  using writeExact_dict [of env "stream_header (codec_of env) (w_epoch w)" w] by (auto simp: ensureHeader_def split: prod.splits option.splits)

lemma flushBlock_dict: "w_dict (snd (flushBlock env w)) = w_dict w"
proof -
  have "w_dict w1 = w_dict w" if "writeExact env d w = (e, w1)" for d e w w1 using writeExact_dict [of env d w] that by simp
  then show ?thesis by (auto simp: flushBlock_def split: prod.splits option.splits)
qed

lemma appendFrame_dict: "w_dict (snd (appendFrame env h p w)) = w_dict w"
proof -
  have "w_dict w1 = w_dict w" if "ensureHeader env w = (e, w1)" for e w1 using ensureHeader_dict [of env w] that by simp
  then show ?thesis by (auto simp: appendFrame_def flushBlock_dict Let_def split: prod.splits option.splits)
qed

lemma Intern_dict:
  assumes "Intern env s w = (r, w')"
  shows "w_dict w' = w_dict w \<or> w_dict w' = snd (Assign (w_dict w) s)"
    and "r = Inr i \<Longrightarrow> Assign (w_dict w) s = (Inr i, w_dict w')"
proof -
  have a: "w_dict w1 = d" if "appendFrame env h p (w\<lparr>w_dict := d\<rparr>) = (e, w1)" for h p d e w1
    using appendFrame_dict [of env h p "w\<lparr>w_dict := d\<rparr>"] that by simp
  show "w_dict w' = w_dict w \<or> w_dict w' = snd (Assign (w_dict w) s)"
    using assms a by (fastforce simp: Intern_def split: if_splits option.splits sum.splits prod.splits)
  show "r = Inr i \<Longrightarrow> Assign (w_dict w) s = (Inr i, w_dict w')"
  proof (cases "d_ids (w_dict w) s")
    case (Some j)
    then show "r = Inr i \<Longrightarrow> ?thesis" using assms by (auto simp: Intern_def Assign_def split: if_splits option.splits)
  next
    case None
    assume "r = Inr i"
    with assms None a show ?thesis by (fastforce simp: Intern_def split: if_splits option.splits sum.splits prod.splits)
  qed
qed

interpretation writer: event_dictionary "Intern env" "\<lambda>w. Value (w_dict w)" "\<lambda>w. dict_ok (w_dict w)" "\<lambda>w. dict_small (w_dict w)" for env
proof unfold_locales
  fix w s r w' assume i: "Intern env s w = (r, w')"
  show "dict_ok (w_dict w) \<Longrightarrow> dict_ok (w_dict w')" using Intern_dict(1) [OF i] Assign_ok by metis
  obtain vs where vs: "d_values (w_dict w') = d_values (w_dict w) @ vs"
    using Intern_dict(1) [OF i] Assign_values [of "w_dict w" s] by (metis append_Nil2)
  then show "dict_small (w_dict w') \<Longrightarrow> dict_small (w_dict w)" by (simp add: dict_small_def)
  show "dict_small (w_dict w') \<Longrightarrow> 0 \<le> i \<Longrightarrow> Value (w_dict w) i = Some t \<Longrightarrow> Value (w_dict w') i = Some t" for i t
    using Value_extend vs by blast
next
  fix w s i w' assume i: "Intern env s w = (Inr i, w')" "dict_ok (w_dict w)" "dict_small (w_dict w')"
  show "s \<noteq> '''' \<and> i \<noteq> 0 \<and> is_u32 i \<and> Value (w_dict w') i = Some s"
    using Assign_ref [OF i(2,3) Intern_dict(2) [OF i(1) refl]] .
qed

end
