(* ===== verification/Ev_Roundtrip.thy ===== *)
theory Ev_Roundtrip
  imports Ev_Stream
begin

text \<open>What is written is what is read. The writer's bytes are described by the list of frames they encode,
  grouped into blocks; reading them back replays that list.\<close>

section \<open>Frames on the wire\<close>

type_synonym wire_frame = "FrameHeader \<times> bytes"

definition wire :: "wire_frame list \<Rightarrow> bytes" where
  "wire fs = concat (map (\<lambda>(h, p). AppendFrameHeader [] h @ p) fs)"

lemma wire_simps [simp]: "wire [] = []" "wire ((h, p) # fs) = AppendFrameHeader [] h @ p @ wire fs" "wire (fs @ gs) = wire fs @ wire gs"
  by (simp_all add: wire_def)

definition sized :: "wire_frame \<Rightarrow> bool" where
  "sized f \<longleftrightarrow> header_ok (fst f) \<and> Length (fst f) = int (FrameHeaderSize + length (snd f))"

definition numbered :: "uint64 \<Rightarrow> wire_frame list \<Rightarrow> bool" where
  "numbered n fs \<longleftrightarrow> (\<forall>k<length fs. Seq (fst (fs ! k)) = u64 (n + int k + 1))"

lemma numbered_Cons: "numbered n (f # fs) \<longleftrightarrow> Seq (fst f) = u64 (n + 1) \<and> numbered (n + 1) fs"
  by (auto simp: numbered_def less_Suc_eq_0_disj nth_Cons algebra_simps split: nat.splits)

lemma numbered_Nil: "numbered n []"
  by (simp add: numbered_def)

lemma numbered_u64: "numbered (u64 n) fs \<longleftrightarrow> numbered n fs"
  by (simp add: numbered_def u64_def mod_simps add.assoc)

lemma numbered_append: "numbered n (fs @ gs) \<longleftrightarrow> numbered n fs \<and> numbered (n + int (length fs)) gs"
proof (induction fs arbitrary: n)
  case (Cons f fs)
  then show ?case by (simp add: numbered_Cons add.assoc)
qed (simp add: numbered_def)

text \<open>The meaning of a list of frames: a dictionary frame defines the next reference, any other frame is
  an event whose venue the dictionary knows.\<close>

fun play :: "wire_frame list \<Rightarrow> Dictionary \<times> Frame list \<Rightarrow> (Dictionary \<times> Frame list) option" where
  "play [] s = Some s"
| "play ((h, p) # fs) (d, es) =
     (if SchemaID h = SchemaDictionary
      then (case run_state (do { i \<leftarrow> Uint32; v \<leftarrow> String; State_Monad.return (i, v) }) (NewCursor p) of
              ((i, v), c) \<Rightarrow>
                if finish c \<noteq> None then None
                else (case Define d i v of (Some _, _) \<Rightarrow> None | (None, d') \<Rightarrow> play fs (d', es)))
      else (case venue_of d (VenueRef h) of
              None \<Rightarrow> None
            | Some v \<Rightarrow> play fs (d, es @ [\<lparr>FrHeader = h, FrPayload = p, FrVenue = v\<rparr>])))"

lemma play_append: "play (fs @ gs) s = Option.bind (play fs s) (play gs)"
  by (induction fs s rule: play.induct) (auto split: prod.splits option.splits)

definition advance :: "wire_frame list \<Rightarrow> Dictionary \<Rightarrow> Reader \<Rightarrow> Reader" where
  "advance fs d r = r\<lparr>r_lastSeq := u64 (r_lastSeq r + int (length fs)), r_frames := u64 (r_frames r + int (length fs)),
     r_hashed := (if r_verify r then r_hashed r @ wire fs else r_hashed r), r_dict := d\<rparr>"

lemma take_frame_back:
  assumes "Seq h = u64 (r_lastSeq r + 1)" "play ((h, p) # fs) (r_dict r, es) = Some s"
  shows "\<exists>d' es'. take_frame collect h (AppendFrameHeader [] h @ p) (r, es) = (None, advance [(h, p)] d' r, es') \<and> play fs (d', es') = Some s"
proof (cases "SchemaID h = SchemaDictionary")
  case True
  with assms show ?thesis
    by (auto simp: take_frame_def advance_def defineDictionary_def collect_def wire_def split: if_splits option.splits prod.splits)
next
  case False
  then obtain v where v: "venue_of (r_dict r) (VenueRef h) = Some v"
    "play fs (r_dict r, es @ [\<lparr>FrHeader = h, FrPayload = p, FrVenue = v\<rparr>]) = Some s"
    using assms(2) by (auto split: option.splits)
  have "take_frame collect h (AppendFrameHeader [] h @ p) (r, es) =
      (None, advance [(h, p)] (r_dict r) r, es @ [\<lparr>FrHeader = h, FrPayload = p, FrVenue = v\<rparr>])"
    using assms(1) False v(1) by (cases r) (simp add: take_frame_def advance_def collect_def wire_def)
  with v(2) show ?thesis by blast
qed

lemma frames_loop_back:
  assumes "\<forall>f\<in>set fs. sized f" "numbered (r_lastSeq r) fs" "play fs (r_dict r, es) = Some (d', es')" "is_u64 (r_lastSeq r)"
    "is_u64 (r_frames r)" "int (seen + length fs) mod 4294967296 = r_blockFrames r"
  shows "frames_loop collect (wire fs) seen (r, es) = (None, advance fs d' r, es')"
  using assms
proof (induction fs arbitrary: r es seen)
  case Nil
  then show ?case by (subst frames_loop.simps) (simp add: advance_def u64_id)
next
  case (Cons f fs)
  obtain h p where f: "f = (h, p)" by (cases f)
  have h: "header_ok h" "Length h = int (32 + length p)" using Cons.prems(1) by (simp_all add: f sized_def)
  obtain d1 es1 where t: "take_frame collect h (AppendFrameHeader [] h @ p) (r, es) = (None, advance [(h, p)] d1 r, es1)"
    "play fs (d1, es1) = Some (d', es')"
    using take_frame_back [of h r p fs es] Cons.prems(2,3) by (auto simp: f numbered_Cons)
  let ?r = "advance [(h, p)] d1 r"
  have "frames_loop collect (wire fs) (Suc seen) (?r, es1) = (None, advance fs d' ?r, es')"
    using Cons.prems t(2) by (intro Cons.IH) (auto simp: advance_def numbered_Cons numbered_u64)
  moreover have "advance fs d' ?r = advance (f # fs) d' r"
    by (simp add: advance_def f u64_def mod_simps add.assoc)
  moreover have "nat (Length h) = 32 + length p" "AppendFrameHeader [] h \<noteq> []" using h(2) by simp_all
  moreover have "wire (f # fs) = (AppendFrameHeader [] h @ p) @ wire fs" by (simp add: f)
  ultimately show ?case
    using t(1) ParseFrameHeader_back [OF h(1), of "p @ wire fs"]
    by (subst frames_loop.simps) (simp del: append_assoc wire_simps, auto)
qed

section \<open>Blocks and the whole stream\<close>

definition stored_of :: "writer_env \<Rightarrow> wire_frame list \<Rightarrow> bytes" where
  "stored_of env b = the (store_block env (wire b))"

definition block_bytes :: "writer_env \<Rightarrow> wire_frame list \<Rightarrow> bytes" where
  "block_bytes env b = block_header (wire b) (stored_of env b) (u32 (int (length b))) @ stored_of env b"

text \<open>A block a reader with the given options accepts.\<close>

definition loadable :: "writer_env \<Rightarrow> ReaderOptions \<Rightarrow> BlockReadLimits \<Rightarrow> wire_frame list \<Rightarrow> bool" where
  "loadable env opts limits b \<longleftrightarrow> length (wire b) < 4294967296 \<and> length (stored_of env b) < 4294967296 \<and>
     validateBlockLengths (codec_of env) (int (length (stored_of env b))) (int (length (wire b))) limits \<and>
     decode_block (codec_of env) (ro_decomp opts) (stored_of env b) (length (wire b)) = Some (wire b)"

definition serves :: "writer_env \<Rightarrow> ReaderOptions \<Rightarrow> BlockReadLimits \<Rightarrow> Reader \<Rightarrow> bool" where
  "serves env opts limits r \<longleftrightarrow> r_codec r = codec_of env \<and> r_decomp r = ro_decomp opts \<and> r_limits r = limits"

lemma block_header_length: "length (block_header u s n) = 20"
  by (simp add: block_header_def)

lemma block_header_slices:
  fixes u s :: bytes
  assumes "length u < 4294967296" "length s < 4294967296" "is_u32 n"
  shows "le_value (slice (block_header u s n) 0 4) = BlockMagic" "le_value (slice (block_header u s n) 4 8) = int (length u)"
    "le_value (slice (block_header u s n) 8 12) = int (length s)" "le_value (slice (block_header u s n) 12 16) = n"
    "le_value (slice (block_header u s n) 16 20) = uint (crc32c u)"
proof -
  have "is_u32 (int (length u))" "is_u32 (int (length s))" "is_u32 BlockMagic" "is_u32 (uint (crc32c u))"
    using assms uint_lt2p [of "crc32c u"] by (simp_all add: is_u32_def)
  note w = this assms(3) u32_id
  show "le_value (slice (block_header u s n) 0 4) = BlockMagic" "le_value (slice (block_header u s n) 4 8) = int (length u)"
    "le_value (slice (block_header u s n) 8 12) = int (length s)" "le_value (slice (block_header u s n) 12 16) = n"
    "le_value (slice (block_header u s n) 16 20) = uint (crc32c u)"
    using w slice_front [of "le_bytes 4 (uint (crc32c u))" 4 "[]"] by (simp_all add: block_header_def slice_skip slice_front)
qed

lemma nextBlock_back:
  assumes "loadable env opts limits b" "serves env opts limits r" "r_in r = block_bytes env b @ rest"
  shows "nextBlock r = (Inr True, r\<lparr>r_in := rest, r_block := wire b, r_blockFrames := u32 (int (length b))\<rparr>)"
proof -
  let ?h = "block_header (wire b) (stored_of env b) (u32 (int (length b)))"
  have l: "length (wire b) < 4294967296" "length (stored_of env b) < 4294967296" using assms(1) by (simp_all add: loadable_def)
  note h = block_header_slices [OF l u32_range [of "int (length b)"]] block_header_length [of "wire b" "stored_of env b" "u32 (int (length b))"]
  have "r_in r = ?h @ stored_of env b @ rest" using assms(3) by (simp add: block_bytes_def)
  moreover from h(6) have "?h \<noteq> []" by auto
  ultimately show ?thesis using h assms(1,2) by (simp add: nextBlock_def Let_def loadable_def serves_def)
qed

lemma nextBlock_trailer:
  assumes "r_in r = trailer_bytes n digest" "is_u64 n" "n = r_frames r" "length digest = 32" "r_verify r \<Longrightarrow> digest = sha256 (r_hashed r)"
  shows "nextBlock r = (Inr False, r\<lparr>r_in := [], r_terminated := True\<rparr>)"
proof -
  let ?m = "le_bytes 4 TrailerMagic" and ?n = "le_bytes 8 n"
  have "r_in r = ?m @ ?n @ take 8 digest @ drop 8 digest" using assms(1) by (simp add: trailer_bytes_def AppendUint64_def AppendUint32_def)
  then have i: "take 20 (r_in r) = ?m @ ?n @ take 8 digest" "drop 20 (r_in r) = drop 8 digest" "length (r_in r) = 44" "r_in r \<noteq> []"
    using assms(4) by (auto simp del: append_take_drop_id)
  have m: "le_value (slice (?m @ ?n @ take 8 digest) 0 4) = TrailerMagic" "le_value (slice ((?m @ ?n @ take 8 digest) @ drop 8 digest) 4 12) = n"
    using assms(2) by (simp_all add: slice_skip slice_front is_u32_def)
  have d: "drop 12 ((?m @ ?n @ take 8 digest) @ drop 8 digest) = digest" by simp
  show ?thesis using i m d assms(3-5) by (simp add: nextBlock_def readTrailer_def Let_def Reader_ExecutionHash_def)
qed

lemma Range_back:
  assumes "\<forall>b\<in>set bs. loadable env opts limits b \<and> (\<forall>f\<in>set b. sized f)" "serves env opts limits r" "is_u64 (r_lastSeq r)" "is_u64 (r_frames r)"
    and "numbered (r_lastSeq r) (concat bs)" "play (concat bs) (r_dict r, es) = Some (d', es')"
    and "r_in r = concat (map (block_bytes env) bs) @ trailer_bytes n digest"
    and "is_u64 n" "n = u64 (r_frames r + int (length (concat bs)))" "length digest = 32"
    and "r_verify r \<Longrightarrow> digest = sha256 (r_hashed r @ wire (concat bs))"
  shows "\<exists>r'. Range collect (r, es) = (None, r', es') \<and> r_terminated r' \<and> r_frames r' = n \<and> r_dict r' = d' \<and> r_epoch r' = r_epoch r \<and>
     r_codec r' = r_codec r \<and> (r_verify r \<longrightarrow> r_hashed r' = r_hashed r @ wire (concat bs)) \<and> r_verify r' = r_verify r"
  using assms
proof (induction bs arbitrary: r es)
  case Nil
  then show ?case using nextBlock_trailer [of r n digest] by (simp add: Range.simps u64_id)
next
  case (Cons b bs)
  let ?rest = "concat (map (block_bytes env) bs) @ trailer_bytes n digest"
  let ?r1 = "r\<lparr>r_in := ?rest, r_block := wire b, r_blockFrames := u32 (int (length b))\<rparr>"
  have nb: "nextBlock r = (Inr True, ?r1)" using Cons.prems(1,2,7) by (intro nextBlock_back) auto
  obtain d1 es1 where p: "play b (r_dict r, es) = Some (d1, es1)" "play (concat bs) (d1, es1) = Some (d', es')"
    using Cons.prems(6) by (auto simp: play_append bind_eq_Some_conv)
  let ?r2 = "advance b d1 ?r1"
  have rb: "rangeBlock collect (?r1, es) = (None, ?r2, es1)"
    using Cons.prems(1,3-5) p(1) by (simp add: rangeBlock_def frames_loop_back numbered_append u32_def)
  have "\<exists>r'. Range collect (?r2, es1) = (None, r', es') \<and> r_terminated r' \<and> r_frames r' = n \<and> r_dict r' = d' \<and> r_epoch r' = r_epoch ?r2 \<and>
      r_codec r' = r_codec ?r2 \<and> (r_verify ?r2 \<longrightarrow> r_hashed r' = r_hashed ?r2 @ wire (concat bs)) \<and> r_verify r' = r_verify ?r2"
    using Cons.prems p(2)
    by (intro Cons.IH) (auto simp: serves_def advance_def numbered_append numbered_u64 u64_add_cong add.assoc)
  then show ?case using nb rb by (simp add: Range.simps [of _ r] advance_def)
qed

section \<open>What the writer has written\<close>

fun index_of :: "writer_env \<Rightarrow> nat \<Rightarrow> wire_frame list list \<Rightarrow> BlockDescriptor list" where
  "index_of env off [] = []"
| "index_of env off (b # bs) =
     descriptor (stats_of (map fst b)) (u64 (int off)) (u32 (int (length (stored_of env b)))) (u32 (int (length (wire b)))) #
     index_of env (off + length (block_bytes env b)) bs"

lemma index_of_snoc:
  "index_of env off (bs @ [b]) = index_of env off bs @
     [descriptor (stats_of (map fst b)) (u64 (int (off + length (concat (map (block_bytes env) bs)))))
        (u32 (int (length (stored_of env b)))) (u32 (int (length (wire b))))]"
  by (induction bs arbitrary: off) (simp_all add: add.assoc)

lemma wire_count: "\<forall>f\<in>set fs. sized f \<Longrightarrow> 32 * length fs \<le> length (wire fs)"
  by (induction fs) auto

text \<open>The closed blocks \<open>bs\<close> are out, the open block \<open>cur\<close> is in the buffer.\<close>

definition holds :: "writer_env \<Rightarrow> Writer \<Rightarrow> wire_frame list list \<Rightarrow> wire_frame list \<Rightarrow> bool" where
  "holds env w bs cur \<longleftrightarrow> w_err w = None \<and> \<not> w_closed w \<and>
     w_out w = (if w_wroteHdr w then stream_header (codec_of env) (w_epoch w) @ concat (map (block_bytes env) bs) else []) \<and>
     (w_wroteHdr w \<or> bs = [] \<and> cur = []) \<and> w_offset w = u64 (int (length (w_out w))) \<and> w_frames w = wire cur \<and> w_frameCount w = int (length cur) \<and>
     w_hashed w = wire (concat bs @ cur) \<and> w_seq w = u64 (int (length (concat bs @ cur))) \<and>
     (\<forall>b\<in>set bs. b \<noteq> [] \<and> store_block env (wire b) \<noteq> None \<and> length (wire b) < 4294967296) \<and> (\<forall>f\<in>set (concat bs @ cur). sized f) \<and>
     numbered 0 (concat bs @ cur) \<and> length (wire cur) < 4294967296 \<and>
     w_stats w = stats_of (map fst cur) \<and> w_index w = index_of env StreamHeaderSize bs"

definition kept :: "Writer \<Rightarrow> Writer \<Rightarrow> bool" where
  "kept w w' \<longleftrightarrow> w_dict w' = w_dict w \<and> w_seq w' = w_seq w \<and> w_blockBytes w' = w_blockBytes w \<and> w_epoch w' = w_epoch w"

lemma writeExact_cases:
  assumes "writeExact env data w = (e, w')"
  shows "e = None \<and> w' = w\<lparr>w_out := w_out w @ data\<rparr> \<or> e \<noteq> None \<and> w_err w' = e"
  using assms by (auto simp: writeExact_def Let_def split: prod.splits if_splits)

lemma stream_header_length: "length (stream_header codec epoch) = 32"
  by (simp add: stream_header_def Magic_def)

lemma ensureHeader_holds:
  assumes "holds env w bs cur" "ensureHeader env w = (e, w')"
  shows "e = None \<and> holds env w' bs cur \<and> w_wroteHdr w' \<and> kept w w' \<and> w_frames w' = w_frames w \<or> e \<noteq> None \<and> w_err w' = e"
proof (cases "w_wroteHdr w")
  case True
  with assms show ?thesis by (simp add: ensureHeader_def kept_def)
next
  case False
  obtain e1 w1 where x: "writeExact env (stream_header (codec_of env) (w_epoch w)) w = (e1, w1)" by (rule prod.exhaust)
  show ?thesis
  proof (cases e1)
    case None
    have w1: "w1 = w\<lparr>w_out := stream_header (codec_of env) (w_epoch w)\<rparr>" "bs = []" "cur = []"
      using writeExact_cases [OF x] None False assms(1) by (auto simp: holds_def)
    have "e = None" "w' = w1\<lparr>w_offset := u64 (w_offset w1 + 32), w_wroteHdr := True\<rparr>"
      using assms(2) False x None by (simp_all add: ensureHeader_def)
    then show ?thesis using assms(1) w1 False by (auto simp: holds_def stream_header_length u64_def kept_def)
  next
    case (Some a)
    with assms(2) False x writeExact_cases [OF x] show ?thesis by (auto simp: ensureHeader_def)
  qed
qed

lemma flushBlock_holds:
  assumes h: "holds env w bs cur" and hdr: "w_wroteHdr w" and f: "flushBlock env w = (e, w')"
  shows "e = None \<and> holds env w' (if cur = [] then bs else bs @ [cur]) [] \<and> kept w w' \<or> e \<noteq> None \<and> w_err w' = e"
proof (cases "cur = [] \<or> store_block env (w_frames w) = None")
  case True
  then show ?thesis
  proof
    assume "cur = []"
    with h f show ?thesis by (auto simp: flushBlock_def holds_def kept_def)
  next
    assume s: "store_block env (w_frames w) = None"
    with h f show ?thesis by (cases "cur = []") (auto simp: flushBlock_def holds_def kept_def)
  qed
next
  case False
  then obtain stored where s: "store_block env (w_frames w) = Some stored" "cur \<noteq> []" by blast
  have fr: "w_frames w = wire cur" "w_frameCount w = int (length cur)" "length (wire cur) < 4294967296" using h by (simp_all add: holds_def)
  have st: "stored = stored_of env cur" using s(1) fr by (simp add: stored_of_def)
  obtain e1 w1 where x: "writeExact env (block_header (wire cur) stored (w_frameCount w)) w = (e1, w1)" by (rule prod.exhaust)
  obtain e2 w2 where y: "writeExact env stored w1 = (e2, w2)" by (rule prod.exhaust)
  show ?thesis
  proof (cases "e1 = None \<and> e2 = None")
    case True
    have "w2 = w\<lparr>w_out := w_out w @ block_header (wire cur) stored (w_frameCount w) @ stored\<rparr>"
      using writeExact_cases [OF x] writeExact_cases [OF y] True by auto
    moreover have "u32 (int (length cur)) = int (length cur)"
      using wire_count [of cur] fr(3) h by (intro u32_id) (auto simp: is_u32_def holds_def)
    moreover have "e = None \<and> w' = w2\<lparr>w_index := w_index w2 @ [descriptor (w_stats w2) (w_offset w2) (u32 (int (length stored))) (u32 (int (length (w_frames w2))))],
        w_offset := u64 (w_offset w2 + int (20 + length stored)), w_frames := [], w_frameCount := 0, w_stats := stats_reset\<rparr>"
      using f s x y True fr by (auto simp: flushBlock_def)
    ultimately show ?thesis
      using h hdr s st fr
      by (auto simp: holds_def kept_def block_bytes_def index_of_snoc stats_of_def stream_header_length block_header_length u64_add_cong add.commute [of 20] add.assoc)
  next
    case False
    with f s x y fr writeExact_cases [OF x] writeExact_cases [OF y] show ?thesis
      by (cases e1) (auto simp: flushBlock_def)
  qed
qed

lemma flushBlock_header: "w_wroteHdr (snd (flushBlock env w)) = w_wroteHdr w"
proof -
  have "w_wroteHdr w1 = w_wroteHdr w" if "writeExact env d w = (e, w1)" for d e w w1
    using that by (auto simp: writeExact_def Let_def split: prod.splits if_splits)
  then show ?thesis by (auto simp: flushBlock_def split: prod.splits option.splits)
qed

definition roomy :: "Writer \<Rightarrow> bool" where
  "roomy w \<longleftrightarrow> int (length (w_frames w)) < w_blockBytes w \<and> w_blockBytes w \<le> 2147483648"

definition plausible :: "FrameHeader \<Rightarrow> bytes \<Rightarrow> bool" where
  "plausible h payload \<longleftrightarrow> is_i64 (SimTS h) \<and> is_u16 (SchemaID h) \<and> is_u16 (SchemaVersion h) \<and> is_u32 (VenueRef h) \<and> is_u32 (HdrClientID h) \<and>
     length payload \<le> 2147483616"

definition sealed :: "uint64 \<Rightarrow> FrameHeader \<Rightarrow> bytes \<Rightarrow> wire_frame" where
  "sealed n h payload = (h\<lparr>Seq := n, Length := int (FrameHeaderSize + length payload)\<rparr>, payload)"

lemma sealed_sized: "plausible h payload \<Longrightarrow> is_u64 n \<Longrightarrow> sized (sealed n h payload)"
  by (simp add: sized_def sealed_def plausible_def header_ok_def is_u32_def)

lemma observe_sealed: "observe s (fst (sealed n h payload)) = observe s (h\<lparr>Seq := n\<rparr>)"
  by (simp add: observe_def sealed_def)

lemma wire_sealed: "wire [sealed n h payload] = AppendFrameHeader [] (h\<lparr>Seq := n, Length := int (FrameHeaderSize + length payload)\<rparr>) @ payload"
  by (simp add: sealed_def wire_def)

lemma patched_frame:
  assumes "plausible h payload" "u = AppendFrameHeader [] (h\<lparr>Seq := n\<rparr>) @ payload"
  shows "le_bytes 4 (u32 (int (length u))) @ drop 4 u = wire [sealed n h payload]"
proof -
  have "u32 (int (length u)) = int (32 + length payload)"
    using assms by (simp add: u32_id plausible_def is_u32_def)
  then show ?thesis by (simp add: assms(2) wire_sealed AppendFrameHeader_def)
qed

definition pushed :: "FrameHeader \<Rightarrow> bytes \<Rightarrow> Writer \<Rightarrow> Writer" where
  "pushed h payload w =
     (let f = sealed (u64 (w_seq w + 1)) h payload
      in w\<lparr>w_seq := u64 (w_seq w + 1), w_frames := w_frames w @ wire [f], w_hashed := w_hashed w @ wire [f],
           w_stats := observe (w_stats w) (fst f), w_frameCount := u32 (w_frameCount w + 1)\<rparr>)"

lemma pushed_holds:
  assumes "holds env w bs cur" "roomy w" "w_wroteHdr w" "plausible h payload"
  shows "holds env (pushed h payload w) bs (cur @ [sealed (u64 (w_seq w + 1)) h payload])"
proof -
  let ?f = "sealed (u64 (w_seq w + 1)) h payload"
  have sz: "sized ?f" using assms(4) by (rule sealed_sized) simp
  have l: "length (wire [?f]) = 32 + length payload" by (simp add: wire_sealed)
  have c: "length (wire cur) < 2147483648" "32 * length cur \<le> length (wire cur)"
    using assms(1,2) wire_count [of cur] by (auto simp: holds_def roomy_def)
  have q: "w_seq w = u64 (int (length (concat bs @ cur)))" "numbered 0 (concat bs @ cur)" using assms(1) by (simp_all add: holds_def)
  have n: "numbered 0 ((concat bs @ cur) @ [?f])"
    unfolding numbered_append [of 0 "concat bs @ cur"] using q by (simp add: numbered_Cons numbered_Nil sealed_def u64_add_cong)
  have "length (wire (cur @ [?f])) < 4294967296" using l c(1) assms(4) by (simp add: plausible_def)
  moreover have "u32 (int (length cur) + 1) = int (length cur) + 1" using c by (intro u32_id) (simp add: is_u32_def)
  ultimately show ?thesis
    using assms(1,3) sz n q(1) by (auto simp: holds_def pushed_def Let_def stats_of_def u64_add_cong_right ac_simps)
qed

lemma appendFrame_holds:
  assumes h: "holds env w bs cur" and room: "roomy w" and pl: "plausible header payload" and a: "appendFrame env header payload w = (e, w')"
  shows "e = None \<and> (\<exists>bs' cur'. holds env w' bs' cur' \<and> concat bs' @ cur' = concat bs @ cur @ [sealed (u64 (w_seq w + 1)) header payload]) \<and>
      roomy w' \<and> w_dict w' = w_dict w \<and> w_seq w' = u64 (w_seq w + 1) \<and> w_blockBytes w' = w_blockBytes w \<and> w_epoch w' = w_epoch w \<or>
    e \<noteq> None \<and> w_err w' = e"
proof -
  have ok: "\<not> w_closed w" "w_err w = None" "\<not> HdrClientID header > 4294967295"
    using h pl by (auto simp: holds_def plausible_def is_u32_def)
  obtain e1 w1 where x: "ensureHeader env w = (e1, w1)" by (rule prod.exhaust)
  show ?thesis
  proof (cases e1)
    case (Some err)
    with a ok x ensureHeader_holds [OF h x] show ?thesis by (auto simp: appendFrame_def)
  next
    case None
    with ensureHeader_holds [OF h x] have w1: "holds env w1 bs cur" "w_wroteHdr w1" "kept w w1" "w_frames w1 = w_frames w" by auto
    let ?f = "sealed (u64 (w_seq w + 1)) header payload" and ?w2 = "pushed header payload w1"
    have r1: "roomy w1" using room w1(3,4) by (simp add: roomy_def kept_def)
    have w2: "holds env ?w2 bs (cur @ [?f])" using pushed_holds [OF w1(1) r1 w1(2) pl] w1(3) by (simp add: kept_def)
    have app: "(e, w') = (if int (length (w_frames ?w2)) \<ge> w_blockBytes ?w2 then flushBlock env ?w2 else (None, ?w2))"
      using a ok x None unfolding appendFrame_def Let_def patched_frame [OF pl refl] pushed_def observe_sealed by simp
    have k: "w_dict ?w2 = w_dict w" "w_seq ?w2 = u64 (w_seq w + 1)" "w_blockBytes ?w2 = w_blockBytes w" "w_epoch ?w2 = w_epoch w" "w_wroteHdr ?w2"
      using w1(2,3) by (simp_all add: pushed_def Let_def kept_def)
    show ?thesis
    proof (cases "int (length (w_frames ?w2)) \<ge> w_blockBytes ?w2")
      case True
      with app have "flushBlock env ?w2 = (e, w')" by simp
      from flushBlock_holds [OF w2 k(5) this] have
        "e = None \<and> holds env w' (bs @ [cur @ [?f]]) [] \<and> kept ?w2 w' \<or> e \<noteq> None \<and> w_err w' = e" by simp
      then show ?thesis
      proof
        assume c: "e = None \<and> holds env w' (bs @ [cur @ [?f]]) [] \<and> kept ?w2 w'"
        moreover from c k room have "roomy w'" by (auto simp: roomy_def kept_def holds_def)
        ultimately show ?thesis using k
          by (intro disjI1 conjI exI [of _ "bs @ [cur @ [?f]]"] exI [of _ "[]"]) (simp_all add: kept_def)
      qed blast
    next
      case False
      then have "roomy ?w2" using room k by (simp add: roomy_def)
      moreover have "e = None" "w' = ?w2" using app False by simp_all
      ultimately show ?thesis using w2 k
        by (intro disjI1 conjI exI [of _ bs] exI [of _ "cur @ [?f]"]) simp_all
    qed
  qed
qed

section \<open>Operations\<close>

definition faithful :: "writer_env \<Rightarrow> Writer \<Rightarrow> Frame list \<Rightarrow> bool" where
  "faithful env w es \<longleftrightarrow> roomy w \<and> dict_ok (w_dict w) \<and>
     (\<exists>bs cur. holds env w bs cur \<and> play (concat bs @ cur) (NewDictionary, []) = Some (w_dict w, es))"

lemma faithfulI:
  "roomy w \<Longrightarrow> dict_ok (w_dict w) \<Longrightarrow> holds env w bs cur \<Longrightarrow> play fs (NewDictionary, []) = Some (w_dict w, es) \<Longrightarrow> fs = concat bs @ cur \<Longrightarrow>
   faithful env w es"
  by (auto simp: faithful_def)

lemma faithful_open: "faithful env w es \<Longrightarrow> \<not> w_closed w" "faithful env w es \<Longrightarrow> w_err w = None"
  by (auto simp: faithful_def holds_def)

lemma faithful_new: "0 < b \<Longrightarrow> b \<le> 2147483648 \<Longrightarrow> faithful env (NewWriter b epoch) []"
  by (auto simp: faithful_def NewWriter_def roomy_def NewDictionary_ok holds_def numbered_Nil stats_of_def u64_def intro!: exI [of _ "[]"])

lemma ensureHeader_faithful:
  assumes "faithful env w es" "ensureHeader env w = (e, w')"
  shows "e = None \<and> faithful env w' es \<or> e \<noteq> None \<and> w_err w' = e"
proof -
  from assms(1) obtain bs cur where b: "roomy w" "dict_ok (w_dict w)" "holds env w bs cur"
    "play (concat bs @ cur) (NewDictionary, []) = Some (w_dict w, es)" by (auto simp: faithful_def)
  from ensureHeader_holds [OF b(3) assms(2)] show ?thesis
  proof
    assume c: "e = None \<and> holds env w' bs cur \<and> w_wroteHdr w' \<and> kept w w' \<and> w_frames w' = w_frames w"
    then have "roomy w'" "w_dict w' = w_dict w" using b(1) by (simp_all add: roomy_def kept_def)
    with c b show ?thesis by (auto intro: faithfulI)
  qed simp
qed

lemma flush_faithful:
  assumes "faithful env w es" "w_wroteHdr w" "flushBlock env w = (e, w')"
  shows "e = None \<and> faithful env w' es \<or> e \<noteq> None \<and> w_err w' = e"
proof -
  from assms(1) obtain bs cur where b: "roomy w" "dict_ok (w_dict w)" "holds env w bs cur"
    "play (concat bs @ cur) (NewDictionary, []) = Some (w_dict w, es)" by (auto simp: faithful_def)
  have "holds env w' bs' [] \<Longrightarrow> kept w w' \<Longrightarrow> roomy w'" for bs' using b(1) by (auto simp: roomy_def kept_def holds_def)
  with flushBlock_holds [OF b(3) assms(2,3)] b show ?thesis
    by (cases "cur = []") (fastforce simp: faithful_def kept_def intro: exI [of _ "bs @ [cur]"])+
qed

lemma append_faithful:
  assumes f: "faithful env w es" and pl: "plausible h p" and a: "appendFrame env h p (w\<lparr>w_dict := d\<rparr>) = (e, w')"
    and step: "play [sealed (u64 (w_seq w + 1)) h p] (w_dict w, es) = Some (d, es')" "dict_ok d"
  shows "e = None \<and> faithful env w' es' \<and> w_dict w' = d \<and> w_seq w' = u64 (w_seq w + 1) \<or> e \<noteq> None \<and> w_err w' = e"
proof -
  from f obtain bs cur where b: "roomy w" "holds env w bs cur" "play (concat bs @ cur) (NewDictionary, []) = Some (w_dict w, es)"
    by (auto simp: faithful_def)
  have h: "holds env (w\<lparr>w_dict := d\<rparr>) bs cur" "roomy (w\<lparr>w_dict := d\<rparr>)" using b by (simp_all add: holds_def roomy_def)
  have "play (concat bs @ cur @ [sealed (u64 (w_seq w + 1)) h p]) (NewDictionary, []) = Some (d, es')"
    using b(3) step(1) play_append [of "concat bs @ cur" "[sealed (u64 (w_seq w + 1)) h p]" "(NewDictionary, [])"] by simp
  with appendFrame_holds [OF h pl a] step(2) show ?thesis by (auto intro: faithfulI [OF _ _ _ _ sym])
qed

lemma play_definition:
  assumes "SchemaID (fst f) = SchemaDictionary" "snd f = AppendString (AppendUint32 [] i) s" "is_u32 i" "length s < 1073741824"
  shows "play [f] (d, es) = (case Define d i s of (Some _, _) \<Rightarrow> None | (None, d') \<Rightarrow> Some (d', es))"
proof -
  have l: "is_u32 (int (length s))" using assms(4) by (simp add: is_u32_def)
  have p: "snd f = le_bytes 4 i @ le_bytes 4 (int (length s)) @ string_bytes s @ []"
    using l by (simp add: assms(2) append_simps u32_id)
  have "run_state (do { i \<leftarrow> Uint32; v \<leftarrow> String; State_Monad.return (i, v) }) (NewCursor (snd f)) =
      ((i, s), cu_at (le_bytes 4 i @ le_bytes 4 (int (length s)) @ string_bytes s) [])"
    unfolding p State_Monad.bind_def using assms(3) l
    by (simp add: cursor_simps Uint32_at [of i "[]"] String_at [of s "le_bytes 4 i" "[]", simplified])
  then show ?thesis using assms(1) by (cases f) (auto simp: finish_at split: prod.splits option.splits)
qed

lemma Intern_faithful:
  assumes f: "faithful env w es" and i: "Intern env s w = (r, w')" and small: "dict_small (w_dict w')"
  shows "faithful env w' es \<or> isl r \<and> w_err w' \<noteq> None"
proof (cases "s = '''' \<or> d_ids (w_dict w) s \<noteq> None")
  case True
  have "\<not> w_closed w" "w_err w = None" using f by (auto simp: faithful_def holds_def)
  with True f i show ?thesis by (auto simp: Intern_def split: option.splits if_splits)
next
  case False
  have ok: "\<not> w_closed w" "w_err w = None" "dict_ok (w_dict w)" using f by (auto simp: faithful_def holds_def)
  let ?d = "snd (Assign (w_dict w) s)" and ?i = "u32 (int (length (d_values (w_dict w))))"
  let ?h = "blank_header\<lparr>SchemaID := SchemaDictionary, SchemaVersion := 1\<rparr>" and ?p = "AppendString (AppendUint32 [] ?i) s"
  obtain e w1 where a: "appendFrame env ?h ?p (w\<lparr>w_dict := ?d\<rparr>) = (e, w1)" by (rule prod.exhaust)
  have w': "w' = w1" "e \<noteq> None \<Longrightarrow> isl r"
    using i False ok a by (auto simp: Intern_def Assign_def Let_def split: option.splits)
  have d: "dict_small ?d" "dict_ok ?d" using appendFrame_dict [of env ?h ?p "w\<lparr>w_dict := ?d\<rparr>"] a w' small Assign_ok [OF ok(3)] by simp_all
  have s: "length s < 1073741824" using d(1) False by (auto simp: dict_small_def Assign_def Let_def split: option.splits)
  have pl: "plausible ?h ?p" using s by (simp add: plausible_def blank_header_def append_simps is_i64_def is_u16_def is_u32_def)
  have "play [sealed (u64 (w_seq w + 1)) ?h ?p] (w_dict w, es) = Some (?d, es)"
    using False s Define_Assign [OF ok(3) d(1)] by (subst play_definition [of _ ?i s]) (simp_all add: sealed_def)
  from append_faithful [OF f pl a this d(2)] w' show ?thesis by auto
qed

text \<open>A session of a writer: the operations a caller may issue, whatever they answer. Each accepted event
  is recorded with the header, payload and venue a reader should see.\<close>

datatype writer_op = OpIntern string | OpAppend int64 uint64 uint32 PayloadAppender
  | OpInterning int64 uint64 uint32 "Writer InterningAppender" | OpFlush

fun op_step :: "writer_env \<Rightarrow> writer_op \<Rightarrow> Writer \<Rightarrow> ev_error option \<times> Writer" where
  "op_step env (OpIntern s) w = (case Intern env s w of (Inl e, w') \<Rightarrow> (Some e, w') | (Inr _, w') \<Rightarrow> (None, w'))"
| "op_step env (OpAppend ts cid ref p) w = Append env ts cid ref p w"
| "op_step env (OpInterning ts cid ref a) w = AppendInterning env ts cid ref a w"
| "op_step env OpFlush w = Flush env w"

definition encoded_payload :: "writer_env \<Rightarrow> Writer InterningAppender \<Rightarrow> Writer \<Rightarrow> bytes" where
  "encoded_payload env a w = (case ia_append a [] (snd (ensureHeader env w)) of (Inl _, _) \<Rightarrow> [] | (Inr bs, _) \<Rightarrow> bs)"

definition event_frame :: "Writer \<Rightarrow> FrameHeader \<Rightarrow> bytes \<Rightarrow> Frame" where
  "event_frame w h p = \<lparr>FrHeader = fst (sealed (w_seq w) h p), FrPayload = p, FrVenue = the (venue_of (w_dict w) (VenueRef h))\<rparr>"

fun op_frames :: "writer_env \<Rightarrow> writer_op \<Rightarrow> Writer \<Rightarrow> Writer \<Rightarrow> Frame list" where
  "op_frames env (OpAppend ts cid ref p) w w' = [event_frame w' (event_header ts cid ref (pa_schema p) (pa_version p)) (pa_payload p)]"
| "op_frames env (OpInterning ts cid ref a) w w' =
     [event_frame w' (event_header ts cid ref (ia_schema a) (ia_version a)) (encoded_payload env a w)]"
| "op_frames env _ w w' = []"

fun run_ops :: "writer_env \<Rightarrow> writer_op list \<Rightarrow> Writer \<Rightarrow> Frame list \<Rightarrow> Writer \<times> Frame list" where
  "run_ops env [] w es = (w, es)"
| "run_ops env (op # ops) w es =
     (case op_step env op w of (e, w') \<Rightarrow> run_ops env ops w' (if e = None then es @ op_frames env op w w' else es))"

text \<open>What a caller owes the writer: values of their types, an event schema, a venue reference the
  dictionary gave out, and payloads below two gigabytes. An interning payload may change the writer
  only by interning.\<close>

definition interns_only :: "writer_env \<Rightarrow> Writer InterningAppender \<Rightarrow> bool" where
  "interns_only env a \<longleftrightarrow> (\<forall>dst w. \<exists>ss. snd (ia_append a dst w) = foldl (\<lambda>w s. snd (Intern env s w)) w ss)"

definition event_ok :: "Writer \<Rightarrow> FrameHeader \<Rightarrow> bytes \<Rightarrow> bool" where
  "event_ok w h p \<longleftrightarrow> is_i64 (SimTS h) \<and> is_u16 (SchemaID h) \<and> is_u16 (SchemaVersion h) \<and> is_u32 (VenueRef h) \<and> is_u64 (HdrClientID h) \<and>
     length p \<le> 2147483616 \<and> SchemaID h \<noteq> SchemaDictionary \<and> venue_of (w_dict w) (VenueRef h) \<noteq> None"

fun op_ok :: "writer_env \<Rightarrow> Writer \<Rightarrow> writer_op \<Rightarrow> bool" where
  "op_ok env w (OpAppend ts cid ref p) = event_ok w (event_header ts cid ref (pa_schema p) (pa_version p)) (pa_payload p)"
| "op_ok env w (OpInterning ts cid ref a) =
     (event_ok w (event_header ts cid ref (ia_schema a) (ia_version a)) (encoded_payload env a w) \<and> interns_only env a)"
| "op_ok env w _ = True"

fun ops_ok :: "writer_env \<Rightarrow> writer_op list \<Rightarrow> Writer \<Rightarrow> bool" where
  "ops_ok env [] w = True"
| "ops_ok env (op # ops) w \<longleftrightarrow> op_ok env w op \<and> ops_ok env ops (snd (op_step env op w))"

lemma interns_onlyD:
  assumes "interns_only env a" "ia_append a dst w = (r, w')"
  shows "\<exists>ss. w' = foldl (\<lambda>w s. snd (Intern env s w)) w ss"
  using assms unfolding interns_only_def by (metis snd_conv)

lemma event_header_simps [simp]:
  "SimTS (event_header ts cid ref s v) = ts" "HdrClientID (event_header ts cid ref s v) = cid" "VenueRef (event_header ts cid ref s v) = ref"
  "SchemaID (event_header ts cid ref s v) = s" "SchemaVersion (event_header ts cid ref s v) = v"
  by (simp_all add: event_header_def)

lemma Intern_broken: "w_err w \<noteq> None \<Longrightarrow> snd (Intern env s w) = w"
  by (auto simp: Intern_def)

lemma appendFrame_broken: "w_err w \<noteq> None \<Longrightarrow> snd (appendFrame env h p w) = w"
  by (auto simp: appendFrame_def)

lemma venue_of_Intern:
  assumes "Intern env s w = (r, w')" "dict_small (w_dict w')" "0 \<le> ref" "venue_of (w_dict w) ref = Some v"
  shows "venue_of (w_dict w') ref = Some v"
  using assms writer.intern_keeps [OF assms(1,2,3)] by (auto simp: venue_of_def split: if_splits)

lemma interns_small:
  "dict_small (w_dict (foldl (\<lambda>w s. snd (Intern env s w)) w ss)) \<Longrightarrow> dict_small (w_dict w)"
proof (induction ss arbitrary: w)
  case (Cons s ss)
  then have "dict_small (w_dict (snd (Intern env s w)))" by simp
  then show ?case using writer.intern_small [of env s w] by (metis prod.collapse)
qed simp

lemma interns_broken: "w_err w \<noteq> None \<Longrightarrow> foldl (\<lambda>w s. snd (Intern env s w)) w ss = w"
  by (induction ss) (simp_all add: Intern_broken)

lemma interns_faithful:
  assumes "faithful env w es" "w' = foldl (\<lambda>w s. snd (Intern env s w)) w ss" "dict_small (w_dict w')" "0 \<le> ref" "venue_of (w_dict w) ref = Some v"
  shows "faithful env w' es \<and> venue_of (w_dict w') ref = Some v \<or> w_err w' \<noteq> None"
  using assms
proof (induction ss arbitrary: w)
  case (Cons s ss)
  obtain r w1 where i: "Intern env s w = (r, w1)" by (rule prod.exhaust)
  have s1: "dict_small (w_dict w1)" using Cons.prems(2,3) i interns_small by fastforce
  show ?case
  proof (cases "w_err w1 = None")
    case True
    then have "faithful env w1 es" using Intern_faithful [OF Cons.prems(1) i s1] by auto
    with Cons.IH [of w1] Cons.prems venue_of_Intern [OF i s1] i show ?thesis by simp
  next
    case False
    then show ?thesis using Cons.prems(2) i interns_broken [of w1 env ss] by simp
  qed
qed simp

lemma op_broken: "w_err w \<noteq> None \<Longrightarrow> snd (op_step env op w) = w \<and> fst (op_step env op w) \<noteq> None"
  by (cases op) (auto simp: Intern_def Append_def AppendInterning_def Flush_def)

lemma run_broken: "w_err w \<noteq> None \<Longrightarrow> fst (run_ops env ops w es) = w"
proof (induction ops arbitrary: es)
  case (Cons op ops)
  then show ?case using op_broken [OF Cons.prems, of env op] by (auto split: prod.split)
qed simp

lemma play_event:
  assumes "SchemaID h \<noteq> SchemaDictionary" "venue_of d (VenueRef h) = Some v"
  shows "play [sealed n h p] (d, es) = Some (d, es @ [\<lparr>FrHeader = fst (sealed n h p), FrPayload = p, FrVenue = v\<rparr>])"
  using assms by (simp add: sealed_def)

lemma append_event:
  assumes f: "faithful env w es" and ok: "event_ok w h p" and a: "appendFrame env h p w = (e, w')"
  shows "w_err w' \<noteq> None \<or> faithful env w' (if e = None then es @ [event_frame w' h p] else es)"
proof (cases "HdrClientID h > MaxEncodedClientID")
  case True
  with faithful_open [OF f] a f show ?thesis by (auto simp: appendFrame_def)
next
  case False
  then have pl: "plausible h p" using ok by (simp add: plausible_def event_ok_def is_u64_def is_u32_def)
  obtain v where v: "venue_of (w_dict w) (VenueRef h) = Some v" using ok by (auto simp: event_ok_def)
  have d: "dict_ok (w_dict w)" using f by (simp add: faithful_def)
  have sch: "SchemaID h \<noteq> SchemaDictionary" using ok by (simp add: event_ok_def)
  have "appendFrame env h p (w\<lparr>w_dict := w_dict w\<rparr>) = (e, w')" using a by simp
  from append_faithful [OF f pl this play_event [OF sch v] d] v show ?thesis
    by (auto simp: event_frame_def)
qed

lemma interning_faithful:
  assumes f: "faithful env w es" and ok: "op_ok env w (OpInterning ts cid ref a)"
    and s: "AppendInterning env ts cid ref a w = (e, w')" and small: "dict_small (w_dict w')"
  shows "w_err w' \<noteq> None \<or> faithful env w' (if e = None then es @ op_frames env (OpInterning ts cid ref a) w w' else es)"
proof (cases "cid > MaxEncodedClientID")
  case True
  with faithful_open [OF f] s f show ?thesis by (auto simp: AppendInterning_def)
next
  case False
  let ?h = "event_header ts cid ref (ia_schema a) (ia_version a)"
  note w = faithful_open [OF f]
  obtain e1 w1 where x: "ensureHeader env w = (e1, w1)" by (rule prod.exhaust)
  obtain r w2 where y: "ia_append a [] w1 = (r, w2)" by (rule prod.exhaust)
  show ?thesis
  proof (cases e1)
    case (Some err)
    with s w False x ensureHeader_faithful [OF f x] show ?thesis by (auto simp: AppendInterning_def)
  next
    case None
    with ensureHeader_faithful [OF f x] have f1: "faithful env w1 es" by simp
    have d1: "w_dict w1 = w_dict w" using ensureHeader_dict [of env w] x by simp
    obtain ss where ss: "w2 = foldl (\<lambda>w s. snd (Intern env s w)) w1 ss" using ok interns_onlyD [OF _ y] by auto
    have s2: "(e, w') = (case r of Inl err \<Rightarrow> (Some err, w2) | Inr p \<Rightarrow> appendFrame env ?h p w2)"
      using s w False x y None by (simp add: AppendInterning_def)
    have dw: "w_dict w' = w_dict w2" using s2 appendFrame_dict by (cases r) (auto, metis snd_conv)
    obtain v where v: "venue_of (w_dict w1) ref = Some v" "0 \<le> ref" using ok d1 by (auto simp: event_ok_def is_u32_def)
    from interns_faithful [OF f1 ss _ v(2,1)] small dw
    consider "faithful env w2 es" "venue_of (w_dict w2) ref = Some v" | "w_err w2 \<noteq> None" by auto
    then show ?thesis
    proof cases
      case 1
      show ?thesis
      proof (cases r)
        case (Inl err)
        with s2 1(1) show ?thesis by simp
      next
        case (Inr p)
        have p: "encoded_payload env a w = p" using x y Inr by (simp add: encoded_payload_def)
        have "event_ok w2 ?h p" using ok 1(2) p by (simp add: event_ok_def)
        from append_event [OF 1(1) this, of e w'] s2 Inr p show ?thesis by (auto split: if_splits)
      qed
    next
      case 2
      have "w' = w2"
      proof (cases r)
        case (Inr p)
        with s2 appendFrame_broken [OF 2, of env ?h p] show ?thesis by (metis sum.case(2) snd_conv)
      qed (use s2 in simp)
      with 2 show ?thesis by simp
    qed
  qed
qed

lemma op_faithful:
  assumes f: "faithful env w es" and ok: "op_ok env w op" and s: "op_step env op w = (e, w')" and small: "dict_small (w_dict w')"
  shows "w_err w' \<noteq> None \<or> faithful env w' (if e = None then es @ op_frames env op w w' else es)"
proof (cases op)
  case (OpIntern t)
  with Intern_faithful [OF f _ small, of t] s show ?thesis by (auto split: prod.splits sum.splits)
next
  case (OpAppend ts cid ref p)
  let ?h = "event_header ts cid ref (pa_schema p) (pa_version p)"
  have "appendFrame env ?h (pa_payload p) w = (e, w')" using s OpAppend faithful_open [OF f] by (simp add: Append_def)
  from append_event [OF f _ this] ok OpAppend show ?thesis by (auto split: if_splits)
next
  case (OpInterning ts cid ref a)
  then have "AppendInterning env ts cid ref a w = (e, w')" using s by simp
  from interning_faithful [OF f _ this small] ok OpInterning show ?thesis by (auto split: if_splits)
next
  case OpFlush
  note w = faithful_open [OF f]
  obtain e1 w1 where x: "ensureHeader env w = (e1, w1)" by (rule prod.exhaust)
  show ?thesis
  proof (cases e1)
    case (Some err)
    with s OpFlush w x ensureHeader_faithful [OF f x] show ?thesis by (auto simp: Flush_def)
  next
    case None
    with ensureHeader_faithful [OF f x] have f1: "faithful env w1 es" by simp
    have "w_wroteHdr w1" using x None by (auto simp: ensureHeader_def split: if_splits prod.splits option.splits)
    with flush_faithful [OF f1] s OpFlush w x None show ?thesis by (auto simp: Flush_def)
  qed
qed

lemma op_dict:
  assumes "dict_small (w_dict (snd (op_step env op w)))" "op_ok env w op"
  shows "dict_small (w_dict w)"
proof (cases op)
  case (OpIntern s)
  obtain r w' where i: "Intern env s w = (r, w')" by (rule prod.exhaust)
  with assms OpIntern writer.intern_small [OF i] show ?thesis by (auto split: sum.splits)
next
  case (OpAppend ts cid ref p)
  with assms show ?thesis by (simp add: Append_def appendFrame_dict split: if_splits)
next
  case (OpInterning ts cid ref a)
  obtain e1 w1 where x: "ensureHeader env w = (e1, w1)" by (rule prod.exhaust)
  obtain r w2 where y: "ia_append a [] w1 = (r, w2)" by (rule prod.exhaust)
  obtain ss where ss: "w2 = foldl (\<lambda>w s. snd (Intern env s w)) w1 ss"
    using assms(2) OpInterning interns_onlyD [OF _ y] by auto
  have d: "w_dict w1 = w_dict w" using ensureHeader_dict [of env w] x by simp
  have "w_dict (snd (op_step env op w)) \<in> {w_dict w, w_dict w2}"
    using OpInterning x y d by (auto simp: AppendInterning_def appendFrame_dict split: option.split sum.split)
  moreover have "dict_small (w_dict w2) \<Longrightarrow> dict_small (w_dict w)" unfolding ss d [symmetric] by (rule interns_small)
  ultimately show ?thesis using assms(1) by (elim insertE) auto
next
  case OpFlush
  have "w_dict w1 = w_dict w" if "ensureHeader env w = (e1, w1)" for e1 w1 using ensureHeader_dict [of env w] that by simp
  with assms OpFlush show ?thesis by (auto simp: Flush_def flushBlock_dict split: if_splits option.splits prod.splits)
qed

lemma run_dict:
  "dict_small (w_dict (fst (run_ops env ops w es))) \<Longrightarrow> ops_ok env ops w \<Longrightarrow> dict_small (w_dict w)"
proof (induction ops arbitrary: w es)
  case (Cons op ops)
  obtain e w1 where s: "op_step env op w = (e, w1)" by (rule prod.exhaust)
  with Cons.prems have "dict_small (w_dict w1)" by (auto intro: Cons.IH)
  with s Cons.prems op_dict [of env op w] show ?case by simp
qed simp

lemma run_faithful:
  assumes "faithful env w es" "ops_ok env ops w" "run_ops env ops w es = (w', es')" "w_err w' = None" "dict_small (w_dict w')"
  shows "faithful env w' es'"
  using assms
proof (induction ops arbitrary: w es)
  case (Cons op ops)
  obtain e w1 where s: "op_step env op w = (e, w1)" by (rule prod.exhaust)
  let ?es = "if e = None then es @ op_frames env op w w1 else es"
  have r: "run_ops env ops w1 ?es = (w', es')" using Cons.prems(3) s by simp
  have "w_err w1 = None" using run_broken [of w1 env ops ?es] r Cons.prems(4) by (metis fst_conv)
  moreover have "dict_small (w_dict w1)" using run_dict [of env ops w1 ?es] r Cons.prems(2,5) s by simp
  ultimately have "faithful env w1 ?es" using op_faithful [OF Cons.prems(1) _ s] Cons.prems(2) by auto
  with Cons.IH [OF _ _ r Cons.prems(4,5)] Cons.prems(2) s show ?case by simp
qed simp

text \<open>A closed stream is a header, the blocks and a trailer that seals the frame count and the digest of
  all frames.\<close>

definition stream_of :: "writer_env \<Rightarrow> uint32 \<Rightarrow> wire_frame list list \<Rightarrow> bytes" where
  "stream_of env epoch bs = stream_header (codec_of env) epoch @ concat (map (block_bytes env) bs) @
     trailer_bytes (u64 (int (length (concat bs)))) (sha256 (wire (concat bs)))"

definition closed_as :: "writer_env \<Rightarrow> Writer \<Rightarrow> wire_frame list list \<Rightarrow> Frame list \<Rightarrow> bool" where
  "closed_as env w bs es \<longleftrightarrow> w_closed w \<and> w_out w = stream_of env (w_epoch w) bs \<and> w_hashed w = wire (concat bs) \<and>
     w_seq w = u64 (int (length (concat bs))) \<and> w_index w = index_of env StreamHeaderSize bs \<and>
     (\<forall>b\<in>set bs. b \<noteq> [] \<and> store_block env (wire b) \<noteq> None \<and> length (wire b) < 4294967296) \<and> (\<forall>f\<in>set (concat bs). sized f) \<and>
     numbered 0 (concat bs) \<and> play (concat bs) (NewDictionary, []) = Some (w_dict w, es)"

lemma Close_faithful:
  assumes f: "faithful env w es" and c: "Close env w = (None, w')"
  obtains bs where "closed_as env w' bs es" "w_dict w' = w_dict w" "w_epoch w' = w_epoch w"
proof -
  note o = faithful_open [OF f]
  from f obtain bs cur where b: "holds env w bs cur" "play (concat bs @ cur) (NewDictionary, []) = Some (w_dict w, es)"
    by (auto simp: faithful_def)
  obtain e1 w1 where x: "ensureHeader env w = (e1, w1)" by (rule prod.exhaust)
  have e1: "e1 = None" using c o x by (auto simp: Close_def Flush_def split: option.splits)
  with ensureHeader_holds [OF b(1) x] have w1: "holds env w1 bs cur" "w_wroteHdr w1" "kept w w1" by auto
  obtain e2 w2 where y: "flushBlock env w1 = (e2, w2)" by (rule prod.exhaust)
  have e2: "e2 = None" using c o x e1 y by (auto simp: Close_def Flush_def split: option.splits)
  define cs where "cs = (if cur = [] then bs else bs @ [cur])"
  have w2: "holds env w2 cs []" "kept w1 w2" using flushBlock_holds [OF w1(1,2) y] e2 by (simp_all add: cs_def)
  have h2: "w_wroteHdr w2" using flushBlock_header [of env w1] y w1(2) by simp
  obtain e3 w3 where z: "writeExact env (trailer_bytes (w_seq w2) (ExecutionHash w2)) w2 = (e3, w3)" by (rule prod.exhaust)
  have "e3 = None" "w' = w3\<lparr>w_closed := True\<rparr>" using c o x e1 y e2 z by (auto simp: Close_def Flush_def split: option.splits)
  with writeExact_cases [OF z] have w': "w' = w2\<lparr>w_out := w_out w2 @ trailer_bytes (w_seq w2) (ExecutionHash w2), w_closed := True\<rparr>" by simp
  have "play (concat cs) (NewDictionary, []) = Some (w_dict w2, es)"
    using b(2) w1(3) w2(2) by (cases "cur = []") (simp_all add: cs_def kept_def)
  then have "closed_as env w' cs es" using w2(1) h2 by (auto simp: w' closed_as_def holds_def stream_of_def ExecutionHash_def)
  moreover have "w_dict w' = w_dict w" "w_epoch w' = w_epoch w" using w' w1(3) w2(2) by (simp_all add: kept_def)
  ultimately show thesis by (rule that)
qed

lemma writeExact_epoch: "writeExact env d w = (e, w') \<Longrightarrow> w_epoch w' = w_epoch w"
  by (auto simp: writeExact_def Let_def split: prod.splits if_splits)

lemma ensureHeader_epoch: "ensureHeader env w = (e, w') \<Longrightarrow> w_epoch w' = w_epoch w"
  by (auto simp: ensureHeader_def dest: writeExact_epoch split: prod.splits option.splits if_splits)

lemma flushBlock_epoch: "flushBlock env w = (e, w') \<Longrightarrow> w_epoch w' = w_epoch w"
  by (auto simp: flushBlock_def dest!: writeExact_epoch split: prod.splits option.splits if_splits)

lemma appendFrame_epoch: "appendFrame env h p w = (e, w') \<Longrightarrow> w_epoch w' = w_epoch w"
  by (auto simp: appendFrame_def Let_def dest!: flushBlock_epoch ensureHeader_epoch split: prod.splits option.splits if_splits)

lemma Intern_epoch: "Intern env s w = (r, w') \<Longrightarrow> w_epoch w' = w_epoch w"
  by (auto simp: Intern_def dest!: appendFrame_epoch split: prod.splits option.splits if_splits sum.splits)

lemma interns_epoch: "w_epoch (foldl (\<lambda>w s. snd (Intern env s w)) w ss) = w_epoch w"
proof (induction ss arbitrary: w)
  case (Cons s ss)
  then show ?case using Intern_epoch [of env s w] by (cases "Intern env s w") simp
qed simp

lemma op_epoch:
  assumes "op_step env op w = (e, w')" "op_ok env w op"
  shows "w_epoch w' = w_epoch w"
proof (cases op)
  case (OpInterning ts cid ref a)
  have "w_epoch w2 = w_epoch w" if "ia_append a [] w = (r, w2)" for w r w2
    using interns_onlyD [OF _ that, of env] assms(2) OpInterning interns_epoch [of env w] by auto
  with assms(1) OpInterning show ?thesis
    by (auto simp: AppendInterning_def dest!: appendFrame_epoch ensureHeader_epoch split: prod.splits option.splits if_splits sum.splits)
qed (use assms(1) in \<open>auto simp: Append_def Flush_def dest!: Intern_epoch appendFrame_epoch ensureHeader_epoch flushBlock_epoch
    split: prod.splits option.splits if_splits sum.splits\<close>)

lemma run_epoch: "ops_ok env ops w \<Longrightarrow> w_epoch (fst (run_ops env ops w es)) = w_epoch w"
proof (induction ops arbitrary: w es)
  case (Cons op ops)
  then show ?case using op_epoch [of env op w] by (cases "op_step env op w") simp
qed simp

lemma Close_dict: "w_dict (snd (Close env w)) = w_dict w"
proof -
  have "w_dict w1 = w_dict w" if "Flush env w = (e, w1)" for e w1
    using that ensureHeader_dict [of env w] flushBlock_dict [of env] by (auto simp: Flush_def split: prod.splits option.splits if_splits) (metis snd_conv)+
  moreover have "w_dict w1 = w_dict w" if "writeExact env d w = (e, w1)" for d e w w1 using that writeExact_dict [of env d w] by simp
  ultimately show ?thesis by (auto simp: Close_def split: prod.splits option.splits)
qed

section \<open>Round trip\<close>

text \<open>A reader fits a writer when it has the inverse of the writer's compressor under the same codec
  number.\<close>

definition codec_fits :: "writer_env \<Rightarrow> ReaderOptions \<Rightarrow> bool" where
  "codec_fits env opts \<longleftrightarrow>
     (\<forall>codec compress. we_comp env = Some (codec, compress) \<longrightarrow> 0 < codec \<and> codec < 256 \<and>
        (\<exists>decompress. ro_decomp opts = Some (codec, decompress) \<and>
          (\<forall>bs stored. compress bs = Some stored \<longrightarrow> length stored < 4294967296 \<and> decompress stored (length bs) = Some bs)))"

definition admits :: "writer_env \<Rightarrow> BlockReadLimits \<Rightarrow> BlockDescriptor list \<Rightarrow> bool" where
  "admits env limits ds \<longleftrightarrow> list_all (\<lambda>d. validateBlockLengths (codec_of env) (StoredLen d) (UncompressedLen d) limits) ds"

lemma codec_range: "codec_fits env opts \<Longrightarrow> 0 \<le> codec_of env \<and> codec_of env < 256"
  by (auto simp: codec_fits_def codec_of_def split: option.splits)

lemma codec_fits_decode:
  assumes "codec_fits env opts" "store_block env u = Some stored" "length u < 4294967296"
  shows "length stored < 4294967296 \<and> decode_block (codec_of env) (ro_decomp opts) stored (length u) = Some u"
proof (cases "we_comp env")
  case None
  with assms(2,3) show ?thesis by (simp add: store_block_def codec_of_def decode_block_def)
next
  case (Some p)
  obtain codec compress where p: "p = (codec, compress)" by (rule prod.exhaust)
  with assms(1) Some obtain f where "0 < codec" "ro_decomp opts = Some (codec, f)"
    "\<And>bs stored. compress bs = Some stored \<Longrightarrow> length stored < 4294967296 \<and> f stored (length bs) = Some bs"
    unfolding codec_fits_def by blast
  with assms(2) Some p show ?thesis by (simp add: store_block_def codec_of_def decode_block_def)
qed

lemma stream_header_slices:
  fixes rest :: bytes
  assumes "0 \<le> codec" "codec < 256" "is_u32 epoch"
  shows "slice (stream_header codec epoch) 0 8 = Magic" "slice (stream_header codec epoch) 13 16 = [0, 0, 0]"
    "slice (stream_header codec epoch) 20 32 = replicate 12 0" "le_value (slice (stream_header codec epoch) 8 10) = FormatMajor"
    "uint (stream_header codec epoch ! 12) = codec" "le_value (slice (stream_header codec epoch) 16 20) = epoch"
proof -
  have u: "is_u16 FormatMajor" by (simp add: is_u16_def)
  have m: "length Magic = 8" by (simp add: Magic_def)
  show "slice (stream_header codec epoch) 0 8 = Magic" "slice (stream_header codec epoch) 13 16 = [0, 0, 0]"
    "slice (stream_header codec epoch) 20 32 = replicate 12 0" "le_value (slice (stream_header codec epoch) 8 10) = FormatMajor"
    "uint (stream_header codec epoch ! 12) = codec" "le_value (slice (stream_header codec epoch) 16 20) = epoch"
    using assms u m by (simp_all add: stream_header_def slice_def nth_append uint_word_of_int)
qed

lemma NewReader_back:
  assumes "codec_fits env opts" "normalizeBlockReadLimits (ro_limits opts) = Inr limits" "is_u32 epoch"
  shows "NewReader (stream_header (codec_of env) epoch @ rest) opts =
    Inr \<lparr>r_in = rest, r_decomp = ro_decomp opts, r_codec = codec_of env, r_epoch = epoch, r_block = [], r_dict = NewDictionary, r_lastSeq = 0,
         r_verify = ro_verify opts, r_hashed = [], r_frames = 0, r_blockFrames = 0, r_terminated = False,
         r_allowUnterminated = ro_allowUnterminated opts, r_limits = limits\<rparr>"
proof -
  have c: "0 \<le> codec_of env" "codec_of env < 256" using codec_range [OF assms(1)] by simp_all
  note s = stream_header_slices [OF c assms(3)]
  have d: "\<not> (codec_of env \<noteq> 0 \<and> (case ro_decomp opts of None \<Rightarrow> True | Some (c, _) \<Rightarrow> c \<noteq> codec_of env))"
    using assms(1) by (auto simp: codec_fits_def codec_of_def split: option.splits)
  have "stream_header (codec_of env) epoch \<noteq> []" using stream_header_length [of "codec_of env" epoch] by auto
  then show ?thesis using s d assms(2) by (cases "ro_decomp opts") (auto simp: NewReader_def Let_def stream_header_length list_ex_iff)
qed

lemma index_of_nth: "b \<in> set bs \<Longrightarrow> \<exists>at st. descriptor st at (u32 (int (length (stored_of env b)))) (u32 (int (length (wire b)))) \<in> set (index_of env off bs)"
proof (induction bs arbitrary: off)
  case (Cons a bs)
  then show ?case by (cases "b = a") (auto, blast)
qed simp

lemma closed_loadable:
  assumes "codec_fits env opts" "closed_as env w bs es" "admits env limits (w_index w)" "b \<in> set bs"
  shows "loadable env opts limits b"
proof -
  have b: "store_block env (wire b) = Some (stored_of env b)" "length (wire b) < 4294967296" "w_index w = index_of env StreamHeaderSize bs"
    using assms(2,4) by (auto simp: closed_as_def stored_of_def)
  have st: "length (stored_of env b) < 4294967296" "decode_block (codec_of env) (ro_decomp opts) (stored_of env b) (length (wire b)) = Some (wire b)"
    using codec_fits_decode [OF assms(1) b(1,2)] by simp_all
  have "u32 (int (length (stored_of env b))) = int (length (stored_of env b))" "u32 (int (length (wire b))) = int (length (wire b))"
    using b(2) st(1) by (simp_all add: u32_id is_u32_def)
  with index_of_nth [OF assms(4), of env StreamHeaderSize] assms(3) b st show ?thesis
    by (auto simp: loadable_def admits_def list_all_iff descriptor_def)
qed

lemma zero_u64: "is_u64 0"
  by (simp add: is_u64_def)

lemma closed_read:
  assumes c: "closed_as env w bs es" and fit: "codec_fits env opts" and lim: "normalizeBlockReadLimits (ro_limits opts) = Inr limits"
    and adm: "admits env limits (w_index w)" and ep: "is_u32 (w_epoch w)"
  shows "\<exists>r. read_stream opts (w_out w) = (Inr r, es) \<and> r_terminated r \<and> r_epoch r = w_epoch w \<and> r_frames r = w_seq w \<and>
     r_dict r = w_dict w \<and> (ro_verify opts \<longrightarrow> Reader_ExecutionHash r = ExecutionHash w)"
proof -
  let ?r = "\<lparr>r_in = concat (map (block_bytes env) bs) @ trailer_bytes (u64 (int (length (concat bs)))) (sha256 (wire (concat bs))),
    r_decomp = ro_decomp opts, r_codec = codec_of env, r_epoch = w_epoch w, r_block = [], r_dict = NewDictionary, r_lastSeq = 0,
    r_verify = ro_verify opts, r_hashed = [], r_frames = 0, r_blockFrames = 0, r_terminated = False,
    r_allowUnterminated = ro_allowUnterminated opts, r_limits = limits\<rparr>"
  have n: "NewReader (w_out w) opts = Inr ?r" using c NewReader_back [OF fit lim ep] by (simp add: closed_as_def stream_of_def)
  have "\<exists>r'. Range collect (?r, []) = (None, r', es) \<and> r_terminated r' \<and> r_frames r' = u64 (int (length (concat bs))) \<and> r_dict r' = w_dict w \<and>
     r_epoch r' = r_epoch ?r \<and> r_codec r' = r_codec ?r \<and> (r_verify ?r \<longrightarrow> r_hashed r' = r_hashed ?r @ wire (concat bs)) \<and> r_verify r' = r_verify ?r"
    using c closed_loadable [OF fit c adm]
    by (intro Range_back [where env = env and opts = opts and limits = limits and digest = "sha256 (wire (concat bs))"])
      (auto simp: closed_as_def serves_def sha256_length zero_u64)
  then obtain r' where r': "Range collect (?r, []) = (None, r', es)" "r_terminated r'" "r_frames r' = u64 (int (length (concat bs)))"
    "r_dict r' = w_dict w" "r_epoch r' = w_epoch w" "ro_verify opts \<longrightarrow> r_hashed r' = wire (concat bs)" "r_verify r' = ro_verify opts"
    by auto
  have "read_stream opts (w_out w) = (Inr r', es)" using n r'(1) by (simp add: read_stream_def)
  with r' c show ?thesis by (auto simp: closed_as_def Reader_ExecutionHash_def ExecutionHash_def)
qed

lemma session_closed:
  assumes "0 < blockBytes" "blockBytes \<le> 2147483648" "ops_ok env ops (NewWriter blockBytes epoch)"
    and "run_ops env ops (NewWriter blockBytes epoch) [] = (w, es)" "w_err w = None" "Close env w = (None, w')" "dict_small (w_dict w')"
  obtains bs where "closed_as env w' bs es" "w_epoch w' = w_epoch w"
proof -
  have "faithful env w es" using faithful_new [OF assms(1,2)] assms(3-7) run_faithful Close_dict [of env w] by (metis snd_conv)
  then show thesis using assms(6) that by (auto elim: Close_faithful)
qed

text \<open>C13: what was appended is what is read. Take any session of a writer: strings interned, events appended
  with or without interning, blocks flushed, in any order, on any destination and with any
  compressor, with some operations refused on the way. If the session ends without a sticky error
  and the stream is closed, then a reader that has the inverse of the compressor and whose limits
  admit the blocks of the index reads the whole stream: it delivers exactly the accepted events,
  in order, with their headers, payloads and venue names, it reaches the trailer, it agrees with
  the writer on the epoch, the number of frames and the dictionary, and a verifying reader has
  recomputed the writer's execution hash.\<close>

theorem stream_roundtrip:
  assumes "0 < blockBytes" "blockBytes \<le> 2147483648" "is_u32 epoch" "ops_ok env ops (NewWriter blockBytes epoch)"
    and "run_ops env ops (NewWriter blockBytes epoch) [] = (w, es)" "w_err w = None" "Close env w = (None, w')" "dict_small (w_dict w')"
    and "codec_fits env opts" "normalizeBlockReadLimits (ro_limits opts) = Inr limits" "admits env limits (w_index w')"
  shows "\<exists>r. read_stream opts (w_out w') = (Inr r, es) \<and> r_terminated r \<and> r_epoch r = epoch \<and> r_frames r = w_seq w' \<and>
     r_dict r = w_dict w' \<and> (ro_verify opts \<longrightarrow> Reader_ExecutionHash r = ExecutionHash w')"
proof -
  obtain bs where bs: "closed_as env w' bs es" "w_epoch w' = w_epoch w" using assms(1,2,4-8) by (rule session_closed)
  have "w_epoch w = epoch" using run_epoch [OF assms(4), of "[]"] assms(5) by (simp add: NewWriter_def)
  with closed_read [OF bs(1) assms(9-11)] bs(2) assms(3) show ?thesis by simp
qed

definition plain_env :: writer_env where
  "plain_env = \<lparr>we_write = (\<lambda>_ data. (length data, False)), we_comp = None\<rparr>"

definition default_options :: ReaderOptions where
  "default_options = \<lparr>ro_decomp = None, ro_verify = True, ro_allowUnterminated = False,
     ro_limits = \<lparr>MaxStoredBlockBytes = 0, MaxUncompressedBlockBytes = 0, MaxCompressionRatio = 0\<rparr>\<rparr>"

definition short_session :: "writer_op list" where
  "short_session = [OpIntern ''V'', OpAppend 5 9 1 \<lparr>pa_schema = 300, pa_version = 1, pa_payload = [1, 2]\<rparr>]"

definition default_limits :: BlockReadLimits where
  "default_limits = \<lparr>MaxStoredBlockBytes = 67108864, MaxUncompressedBlockBytes = 67108864, MaxCompressionRatio = 4096\<rparr>"

lemma default_normal: "normalizeBlockReadLimits (ro_limits default_options) = Inr default_limits"
  by (simp add: normalizeBlockReadLimits_def default_options_def default_limits_def)

lemma plain_write: "writeExact plain_env data w = (None, w\<lparr>w_out := w_out w @ data\<rparr>)"
  by (simp add: writeExact_def plain_env_def)

lemma plain_fits: "codec_fits plain_env default_options"
  by (simp add: codec_fits_def plain_env_def)

lemma plain_codec: "codec_of plain_env = 0" "store_block plain_env u = Some u"
  by (simp_all add: codec_of_def store_block_def plain_env_def)

lemmas plain_session = short_session_def NewWriter_def Intern_def Append_def appendFrame_def ensureHeader_def plain_write plain_codec
  NewDictionary_def Assign_def AppendString_def AppendUint32_def string_bytes_def AppendFrameHeader_def blank_header_def event_header_def
  u64_def u32_def

lemma short_run:
  obtains w es where "run_ops plain_env short_session (NewWriter 1000 7) [] = (w, es)" "w_err w = None" "\<not> w_closed w" "w_wroteHdr w"
    "w_dict w = \<lparr>d_ids = [''V'' \<mapsto> 1], d_values = ['''', ''V'']\<rparr>" "length (w_frames w) = 75" "w_frameCount w = 2" "w_index w = []"
    "map FrVenue es = [''V'']" "map FrPayload es = [[1, 2]]" "length (w_out w) = 32" "length (w_hashed w) = 75"
proof
  let ?p = "run_ops plain_env short_session (NewWriter 1000 7) []"
  show "?p = (fst ?p, snd ?p)" by simp
  show "w_err (fst ?p) = None" "\<not> w_closed (fst ?p)" "w_wroteHdr (fst ?p)"
    "length (w_out (fst ?p)) = 32" "length (w_hashed (fst ?p)) = 75"
    "w_dict (fst ?p) = \<lparr>d_ids = [''V'' \<mapsto> 1], d_values = ['''', ''V'']\<rparr>" "length (w_frames (fst ?p)) = 75" "w_frameCount (fst ?p) = 2" "w_index (fst ?p) = []"
    by (simp_all add: plain_session Let_def stream_header_length)
  show "map FrVenue (snd ?p) = [''V'']" "map FrPayload (snd ?p) = [[1, 2]]"
    by (simp_all add: plain_session Let_def event_frame_def venue_of_def Value_def)
qed

lemma short_ok: "ops_ok plain_env short_session (NewWriter 1000 7)"
  by (simp add: plain_session Let_def event_ok_def venue_of_def Value_def is_i64_def is_u16_def is_u32_def is_u64_def)

lemma short_close:
  assumes "w_err w = None" "\<not> w_closed w" "w_wroteHdr w" "length (w_frames w) = 75" "w_frameCount w = 2" "w_index w = []"
  obtains w' where "Close plain_env w = (None, w')" "w_hashed w' = w_hashed w" "length (w_out w') = length (w_out w) + 139" "w_dict w' = w_dict w" "map StoredLen (w_index w') = [75]" "map UncompressedLen (w_index w') = [75]"
proof
  let ?w = "snd (Close plain_env w)"
  show "Close plain_env w = (None, ?w)" "w_hashed ?w = w_hashed w" "length (w_out ?w) = length (w_out w) + 139" "w_dict ?w = w_dict w" "map StoredLen (w_index ?w) = [75]" "map UncompressedLen (w_index ?w) = [75]"
    using assms by (simp_all add: Close_def Flush_def ensureHeader_def flushBlock_def plain_write plain_codec descriptor_def u32_def
        block_header_length trailer_bytes_def append_simps sha256_length ExecutionHash_def)
qed

theorem stream_roundtrip_witness:
  "\<exists>w es w' r. run_ops plain_env short_session (NewWriter 1000 7) [] = (w, es) \<and> Close plain_env w = (None, w') \<and>
     map FrPayload es = [[1, 2]] \<and> map FrVenue es = [''V''] \<and> read_stream default_options (w_out w') = (Inr r, es) \<and>
     r_terminated r \<and> r_epoch r = 7 \<and> Reader_ExecutionHash r = ExecutionHash w'"
proof -
  obtain w es where w: "run_ops plain_env short_session (NewWriter 1000 7) [] = (w, es)" "w_err w = None" "\<not> w_closed w" "w_wroteHdr w"
    "w_dict w = \<lparr>d_ids = [''V'' \<mapsto> 1], d_values = ['''', ''V'']\<rparr>" "length (w_frames w) = 75" "w_frameCount w = 2" "w_index w = []"
    "map FrVenue es = [''V'']" "map FrPayload es = [[1, 2]]" by (rule short_run)
  obtain w' where w': "Close plain_env w = (None, w')" "w_hashed w' = w_hashed w" "length (w_out w') = length (w_out w) + 139" "w_dict w' = w_dict w" "map StoredLen (w_index w') = [75]" "map UncompressedLen (w_index w') = [75]"
    using w(2-4,6-8) by (rule short_close)
  have "admits plain_env default_limits (w_index w')"
    using w'(5,6) by (auto simp: admits_def validateBlockLengths_def plain_codec default_limits_def)
  moreover have "dict_small (w_dict w')" using w(5) w'(4) by (simp add: dict_small_def)
  ultimately have "\<exists>r. read_stream default_options (w_out w') = (Inr r, es) \<and> r_terminated r \<and> r_epoch r = 7 \<and> r_frames r = w_seq w' \<and>
     r_dict r = w_dict w' \<and> (ro_verify default_options \<longrightarrow> Reader_ExecutionHash r = ExecutionHash w')"
    using stream_roundtrip [OF _ _ _ short_ok w(1,2) w'(1) _ plain_fits default_normal] by (simp add: is_u32_def)
  then show ?thesis using w(1,9,10) w'(1) by (auto simp: default_options_def)
qed

end
