(* ===== verification/Ev_Query.thy ===== *)
theory Ev_Query
  imports Ev_Roundtrip
begin

text \<open>Selective reading of a stream through its block index (\<open>evstream/index.go\<close>, \<open>IndexedReader\<close>), and what
  it promises against a full pass.

  The random-access source is the sequence of its bytes. A nil decompressor is \<open>None\<close>, and the reader
  that could not be built keeps its error and nothing else.\<close>

record IndexedReader =
  ix_source :: bytes
  ix_decomp :: "decompressor option"
  ix_codec :: int
  ix_dict :: Dictionary
  ix_block :: bytes
  ix_blockFrames :: uint32
  ix_limits :: BlockReadLimits
  ix_initErr :: "ev_error option"

definition NewIndexedReaderWithLimits ::
  "bytes \<Rightarrow> int \<Rightarrow> Dictionary \<Rightarrow> decompressor option \<Rightarrow> BlockReadLimits \<Rightarrow> ev_error + IndexedReader" where
  "NewIndexedReaderWithLimits source codec dict decompressor limits =
     (case normalizeBlockReadLimits limits of
        Inl e \<Rightarrow> Inl e
      | Inr normalized \<Rightarrow>
          if codec \<noteq> CodecNone \<and> decompressor = None then Inl ErrUnsupportedVersion
          else if codec \<noteq> CodecNone \<and> fst (the decompressor) \<noteq> codec then Inl ErrUnsupportedVersion
          else Inr \<lparr>ix_source = source, ix_decomp = decompressor, ix_codec = codec, ix_dict = dict, ix_block = [], ix_blockFrames = 0,
                    ix_limits = normalized, ix_initErr = None\<rparr>)"

definition NewIndexedReader :: "bytes \<Rightarrow> int \<Rightarrow> Dictionary \<Rightarrow> decompressor option \<Rightarrow> IndexedReader" where
  "NewIndexedReader source codec dict decompressor =
     (let zero = \<lparr>MaxStoredBlockBytes = 0, MaxUncompressedBlockBytes = 0, MaxCompressionRatio = 0\<rparr>
      in case NewIndexedReaderWithLimits source codec dict decompressor zero of
           Inl e \<Rightarrow> \<lparr>ix_source = [], ix_decomp = None, ix_codec = 0, ix_dict = NewDictionary, ix_block = [], ix_blockFrames = 0,
                     ix_limits = zero, ix_initErr = Some e\<rparr>
         | Inr r \<Rightarrow> r)"

text \<open>A read at an offset fails when the source ends before the requested bytes do.\<close>

definition readBlock :: "BlockDescriptor \<Rightarrow> IndexedReader \<Rightarrow> ev_error option \<times> IndexedReader" where
  "readBlock d r =
     (if Offset d > MaxInt64 then (Some ErrCorrupt, r)
      else if \<not> validateBlockLengths (ix_codec r) (StoredLen d) (UncompressedLen d) (ix_limits r) then (Some ErrCorrupt, r)
      else let total = BlockHeaderSize + nat (StoredLen d); bs = slice (ix_source r) (nat (Offset d)) (nat (Offset d) + total)
        in if length bs \<noteq> total then (Some ErrShortBuffer, r)
           else if le_value (slice bs 0 4) \<noteq> BlockMagic then (Some ErrCorrupt, r)
           else if le_value (slice bs 8 12) \<noteq> StoredLen d \<or> le_value (slice bs 4 8) \<noteq> UncompressedLen d then (Some ErrCorrupt, r)
           else if \<not> validateBlockLengths (ix_codec r) (le_value (slice bs 8 12)) (le_value (slice bs 4 8)) (ix_limits r) then (Some ErrCorrupt, r)
           else case decode_block (ix_codec r) (ix_decomp r) (drop BlockHeaderSize bs) (nat (UncompressedLen d)) of
                  None \<Rightarrow> (Some ErrCorrupt, r)
                | Some block \<Rightarrow>
                    if uint (crc32c block) \<noteq> le_value (slice bs 16 20) then (Some ErrCorrupt, r\<lparr>ix_block := block\<rparr>)
                    else (None, r\<lparr>ix_block := block, ix_blockFrames := le_value (slice bs 12 16)\<rparr>))"

definition known_venue :: "Dictionary \<Rightarrow> uint32 \<Rightarrow> string" where
  "known_venue d ref = (if ref = 0 then '''' else case Value d ref of None \<Rightarrow> '''' | Some v \<Rightarrow> v)"

function selected_loop :: "Query \<Rightarrow> IndexedReader \<Rightarrow> 'v visitor \<Rightarrow> bytes \<Rightarrow> nat \<Rightarrow> 'v \<Rightarrow> ev_error option \<times> 'v" where
  "selected_loop q r visit bs seen v =
     (if bs = [] then (if int seen mod 4294967296 \<noteq> ix_blockFrames r then Some ErrCorrupt else None, v)
      else (case ParseFrameHeader bs of
              Inl e \<Rightarrow> (Some e, v)
            | Inr h \<Rightarrow>
                if nat (Length h) > length bs then (Some ErrCorrupt, v)
                else let rest = drop (nat (Length h)) bs
                  in if SchemaID h \<noteq> SchemaDictionary \<and> Matches q h
                     then (case visit \<lparr>FrHeader = h, FrPayload = slice bs FrameHeaderSize (nat (Length h)), FrVenue = known_venue (ix_dict r) (VenueRef h)\<rparr> v of
                             (Some e, v1) \<Rightarrow> (Some e, v1)
                           | (None, v1) \<Rightarrow> selected_loop q r visit rest (Suc seen) v1)
                     else selected_loop q r visit rest (Suc seen) v))"
  by pat_completeness auto
termination
proof (relation "measure (\<lambda>(_, _, _, bs, _, _). length bs)", goal_cases)
  case (2 q r visit bs seen v h)
  then have "32 \<le> Length h" by (auto simp: ParseFrameHeader_def Let_def split: if_splits)
  with 2 show ?case by simp
next
  case (3 q r visit bs seen v h)
  then have "32 \<le> Length h" by (auto simp: ParseFrameHeader_def Let_def split: if_splits)
  with 3 show ?case by simp
qed simp

declare selected_loop.simps [simp del]

fun range_blocks :: "BlockDescriptor list \<Rightarrow> Query \<Rightarrow> 'v visitor \<Rightarrow> IndexedReader \<times> 'v \<Rightarrow> ev_error option \<times> IndexedReader \<times> 'v" where
  "range_blocks [] q visit (r, v) = (None, r, v)"
| "range_blocks (d # ds) q visit (r, v) =
     (case readBlock d r of
        (Some e, r1) \<Rightarrow> (Some e, r1, v)
      | (None, r1) \<Rightarrow>
          (case selected_loop q r1 visit (ix_block r1) 0 v of
             (Some e, v1) \<Rightarrow> (Some e, r1, v1)
           | (None, v1) \<Rightarrow> range_blocks ds q visit (r1, v1)))"

definition RangeSelected :: "BlockDescriptor list \<Rightarrow> Query \<Rightarrow> 'v visitor \<Rightarrow> IndexedReader \<times> 'v \<Rightarrow> ev_error option \<times> IndexedReader \<times> 'v" where
  "RangeSelected blocks q visit rv =
     (if ix_initErr (fst rv) \<noteq> None then (ix_initErr (fst rv), rv) else range_blocks blocks q visit rv)"

section \<open>Frames of a block\<close>

definition frame_in :: "Dictionary \<Rightarrow> wire_frame \<Rightarrow> Frame" where
  "frame_in d f = \<lparr>FrHeader = fst f, FrPayload = snd f, FrVenue = known_venue d (VenueRef (fst f))\<rparr>"

definition answers :: "Query \<Rightarrow> Dictionary \<Rightarrow> wire_frame list \<Rightarrow> Frame list" where
  "answers q d fs = map (frame_in d) (filter (\<lambda>f. SchemaID (fst f) \<noteq> SchemaDictionary \<and> Matches q (fst f)) fs)"

lemma answers_simps [simp]:
  "answers q d [] = []" "answers q d (fs @ gs) = answers q d fs @ answers q d gs"
  "answers q d (f # fs) = (if SchemaID (fst f) \<noteq> SchemaDictionary \<and> Matches q (fst f) then frame_in d f # answers q d fs else answers q d fs)"
  by (simp_all add: answers_def)

lemma answers_concat: "answers q d (concat bs) = concat (map (answers q d) bs)"
  by (induction bs) simp_all

lemma selected_loop_back:
  assumes "\<forall>f\<in>set fs. sized f" "int (seen + length fs) mod 4294967296 = ix_blockFrames r"
  shows "selected_loop q r collect (wire fs) seen es = (None, es @ answers q (ix_dict r) fs)"
  using assms
proof (induction fs arbitrary: es seen)
  case Nil
  then show ?case by (subst selected_loop.simps) simp
next
  case (Cons f fs)
  obtain h p where f: "f = (h, p)" by (cases f)
  have h: "header_ok h" "Length h = int (32 + length p)" using Cons.prems(1) by (simp_all add: f sized_def)
  have n: "nat (Length h) = 32 + length p" using h(2) by simp
  have w: "ParseFrameHeader (wire (f # fs)) = Inr h" "wire (f # fs) \<noteq> []" "\<not> nat (Length h) > length (wire (f # fs))"
    "slice (wire (f # fs)) 32 (nat (Length h)) = p" "drop (nat (Length h)) (wire (f # fs)) = wire fs"
    using ParseFrameHeader_back [OF h(1), of "p @ wire fs"] by (auto simp: f n slice_def)
  have "selected_loop q r collect (wire fs) (Suc seen) es' = (None, es' @ answers q (ix_dict r) fs)" for es'
    using Cons.prems by (intro Cons.IH) simp_all
  then show ?case
    using w unfolding f by (subst selected_loop.simps) (simp add: Let_def collect_def frame_in_def del: wire_simps)
qed

section \<open>Selective reading agrees with a full pass\<close>

lemma readBlock_back:
  assumes b: "loadable env opts limits b" and d: "Offset d = int (length pre)" "length pre \<le> 9223372036854775807"
      "StoredLen d = int (length (stored_of env b))" "UncompressedLen d = int (length (wire b))"
    and r: "ix_source r = pre @ block_bytes env b @ post" "ix_codec r = codec_of env" "ix_decomp r = ro_decomp opts" "ix_limits r = limits"
  shows "readBlock d r = (None, r\<lparr>ix_block := wire b, ix_blockFrames := u32 (int (length b))\<rparr>)"
proof -
  let ?h = "block_header (wire b) (stored_of env b) (u32 (int (length b)))"
  have l: "length (wire b) < 4294967296" "length (stored_of env b) < 4294967296" using b by (simp_all add: loadable_def)
  note h = block_header_slices [OF l u32_range [of "int (length b)"]] block_header_length [of "wire b" "stored_of env b" "u32 (int (length b))"]
  have s: "slice (ix_source r) (nat (Offset d)) (nat (Offset d) + (20 + nat (StoredLen d))) = ?h @ stored_of env b"
    using d r(1) h(6) by (simp add: slice_def block_bytes_def)
  have "slice (?h @ stored_of env b) i j = slice ?h i j" if "j \<le> 20" for i j using that h(6) by (simp add: slice_def)
  then show ?thesis using b d(1,2) s h r(2-) unfolding readBlock_def d(3,4) by (simp add: Let_def loadable_def)
qed

lemma range_blocks_back:
  assumes "\<forall>b\<in>set bs. loadable env opts limits b \<and> (\<forall>f\<in>set b. sized f)"
    and "\<forall>b\<in>set bs. \<forall>at n m. answers q (ix_dict r) b = [] \<or> Selects q (descriptor (stats_of (map fst b)) at n m)"
    and "ix_source r = pre @ concat (map (block_bytes env) bs) @ post" "length (ix_source r) \<le> 9223372036854775807"
    and "ix_codec r = codec_of env" "ix_decomp r = ro_decomp opts" "ix_limits r = limits"
  shows "\<exists>r'. range_blocks (filter (Selects q) (index_of env (length pre) bs)) q collect (r, es) =
     (None, r', es @ answers q (ix_dict r) (concat bs))"
  using assms
proof (induction bs arbitrary: r pre es)
  case (Cons b bs)
  let ?d = "descriptor (stats_of (map fst b)) (u64 (int (length pre))) (u32 (int (length (stored_of env b)))) (u32 (int (length (wire b))))"
  let ?r = "r\<lparr>ix_block := wire b, ix_blockFrames := u32 (int (length b))\<rparr>"
  have src: "ix_source r = (pre @ block_bytes env b) @ concat (map (block_bytes env) bs) @ post"
    "ix_source r = pre @ block_bytes env b @ concat (map (block_bytes env) bs) @ post" using Cons.prems(3) by simp_all
  have l: "loadable env opts limits b" "\<forall>f\<in>set b. sized f" "length pre \<le> 9223372036854775807" using Cons.prems(1,3,4) by auto
  have pre: "is_u64 (int (length pre))" using l(3) by (simp add: is_u64_def)
  have rd: "readBlock ?d r = (None, ?r)"
    using l(1) Cons.prems(4-) by (intro readBlock_back [OF l(1) _ l(3) _ _ src(2)])
      (auto simp: descriptor_def loadable_def u64_id [OF pre] u32_id is_u32_def)
  have sl: "selected_loop q ?r collect (wire b) 0 es = (None, es @ answers q (ix_dict r) b)"
    using l(2) by (simp add: selected_loop_back u32_def)
  have IH: "\<exists>r'. range_blocks (filter (Selects q) (index_of env (length (pre @ block_bytes env b)) bs)) q collect (r0, es0) =
      (None, r', es0 @ answers q (ix_dict r) (concat bs))" if "r0 = r \<or> r0 = ?r" for r0 es0
    using Cons.IH [of r0 "pre @ block_bytes env b" es0] Cons.prems(1,2,4-) src that by auto
  show ?case
  proof (cases "Selects q ?d")
    case True
    with rd sl IH [of ?r "es @ answers q (ix_dict r) b"] show ?thesis by simp
  next
    case False
    then have "answers q (ix_dict r) b = []" using Cons.prems(2) by auto
    with False IH [of r es] show ?thesis by simp
  qed
qed simp

lemma play_values: "play fs s = Some s' \<Longrightarrow> \<exists>vs. d_values (fst s') = d_values (fst s) @ vs"
proof (induction fs s rule: play.induct)
  case (2 h p fs d es)
  show ?case
  proof (cases "SchemaID h = SchemaDictionary")
    case True
    obtain i v c where r: "run_state (do { i \<leftarrow> Uint32; v \<leftarrow> String; State_Monad.return (i, v) }) (NewCursor p) = ((i, v), c)"
      by (metis surj_pair)
    obtain d1 where d1: "Define d i v = (None, d1)" "finish c = None" "play fs (d1, es) = Some s'"
      using "2.prems" True r by (auto split: if_splits prod.splits option.splits)
    then have "d_values d1 = d_values d @ [v]" by (auto simp: Define_def split: if_splits)
    with "2.IH"(1) [OF True r [symmetric] refl _ d1(1) [symmetric] refl d1(3)] d1(2) show ?thesis by auto
  next
    case False
    then show ?thesis using "2.prems" "2.IH"(2) by (auto split: option.splits)
  qed
qed simp

lemma play_frames:
  assumes "play fs s = Some (d', es')" "dict_small d'" "\<forall>f\<in>set fs. sized f"
  shows "es' = snd s @ map (frame_in d') (filter (\<lambda>f. SchemaID (fst f) \<noteq> SchemaDictionary) fs)"
  using assms
proof (induction fs s rule: play.induct)
  case (2 h p fs d es)
  show ?case
  proof (cases "SchemaID h = SchemaDictionary")
    case True
    with 2 show ?thesis by (auto split: if_splits prod.splits option.splits)
  next
    case False
    then obtain v where v: "venue_of d (VenueRef h) = Some v" "play fs (d, es @ [\<lparr>FrHeader = h, FrPayload = p, FrVenue = v\<rparr>]) = Some (d', es')"
      using "2.prems"(1) by (auto split: option.splits)
    obtain vs where vs: "d_values d' = d_values d @ vs" using play_values [OF v(2)] by auto
    have "0 \<le> VenueRef h" using "2.prems"(3) by (auto simp: sized_def header_ok_def is_u32_def)
    then have "known_venue d' (VenueRef h) = v"
      using v(1) Value_extend [OF "2.prems"(2) vs] by (auto simp: known_venue_def venue_of_def split: if_splits)
    with False v "2.IH"(2) [OF False v(1)] "2.prems" show ?thesis by (simp add: frame_in_def)
  qed
qed simp

lemma numbered_sorted:
  assumes "numbered 0 (concat bs)" "length (concat bs) < 18446744073709551616" "b \<in> set bs"
  shows "sorted (map Seq (map fst b))"
proof -
  obtain xs ys where bs: "bs = xs @ b # ys" using assms(3) by (auto simp: in_set_conv_decomp)
  have n: "numbered (int (length (concat xs))) b" using assms(1) by (simp add: bs numbered_append)
  have "Seq (fst (b ! k)) = int (length (concat xs)) + int k + 1" if "k < length b" for k
    using n that assms(2) by (simp add: bs numbered_def u64_id is_u64_def)
  then show ?thesis by (auto simp: sorted_iff_nth_mono)
qed

lemma answers_selected:
  assumes "sorted (map Seq (map fst b))" "0 \<notin> set (SymbolRefs q)"
  shows "answers q d b = [] \<or> Selects q (descriptor (stats_of (map fst b)) at n m)"
proof (rule disjCI)
  assume "\<not> Selects q (descriptor (stats_of (map fst b)) at n m)"
  then have "\<not> Matches q (fst f)" if "f \<in> set b" for f using that Selects_complete [of "fst f" "map fst b" q at n m] assms by auto
  then show "answers q d b = []" by (auto simp: answers_def filter_empty_conv)
qed

lemma closed_query:
  assumes c: "closed_as env w bs es" and fit: "codec_fits env opts" and lim: "normalizeBlockReadLimits (ro_limits opts) = Inr limits"
    and adm: "admits env limits (w_index w)" and dict: "dict_small (w_dict w)"
    and len: "length (w_out w) \<le> 9223372036854775807" "length (concat bs) < 18446744073709551616" and q: "0 \<notin> set (SymbolRefs q)"
    and r: "NewIndexedReaderWithLimits (w_out w) (codec_of env) (w_dict w) (ro_decomp opts) (ro_limits opts) = Inr r"
  shows "\<exists>r'. RangeSelected (fst (Select q (w_index w))) q collect (r, []) = (None, r', filter (\<lambda>f. Matches q (FrHeader f)) es)"
proof -
  have w: "w_out w = stream_header (codec_of env) (w_epoch w) @ concat (map (block_bytes env) bs) @
      trailer_bytes (u64 (int (length (concat bs)))) (sha256 (wire (concat bs)))" "w_index w = index_of env StreamHeaderSize bs"
    "play (concat bs) (NewDictionary, []) = Some (w_dict w, es)" "\<forall>f\<in>set (concat bs). sized f" "numbered 0 (concat bs)"
    using c by (simp_all add: closed_as_def stream_of_def)
  have rs: "ix_source r = w_out w" "ix_codec r = codec_of env" "ix_decomp r = ro_decomp opts" "ix_limits r = limits" "ix_dict r = w_dict w" "ix_initErr r = None"
    using r lim by (auto simp: NewIndexedReaderWithLimits_def split: if_splits)
  have a: "\<forall>b\<in>set bs. \<forall>at n m. answers q (ix_dict r) b = [] \<or> Selects q (descriptor (stats_of (map fst b)) at n m)"
    using numbered_sorted [OF w(5) len(2)] answers_selected [OF _ q] by blast
  have src: "ix_source r = stream_header (codec_of env) (w_epoch w) @ concat (map (block_bytes env) bs) @
      trailer_bytes (u64 (int (length (concat bs)))) (sha256 (wire (concat bs)))" "length (ix_source r) \<le> 9223372036854775807"
    using rs w len by simp_all
  have "\<forall>b\<in>set bs. loadable env opts limits b \<and> (\<forall>f\<in>set b. sized f)" using closed_loadable [OF fit c adm] w(4) by auto
  from range_blocks_back [OF this a src rs(2-4), of "[]"] obtain r' where
    "range_blocks (fst (Select q (w_index w))) q collect (r, []) = (None, r', answers q (w_dict w) (concat bs))"
    by (auto simp: stream_header_length Select_def w(2) rs(5))
  moreover have "answers q (w_dict w) (concat bs) = filter (\<lambda>f. Matches q (FrHeader f)) es"
    using play_frames [OF w(3) dict w(4)] by (simp add: answers_def filter_map frame_in_def o_def conj_commute)
  ultimately show ?thesis using rs(6) by (simp add: RangeSelected_def)
qed

text \<open>C14: an indexed query answers what a full pass would. After any session as above, closed, the blocks
  the index selects for a query are enough: walking only them, with the writer's dictionary,
  delivers exactly the events of the session that match the query, in order and with their venues.
  The query may bound time and sequence numbers and name schemas and venues, as long as it does not
  name the null venue.\<close>

theorem indexed_query_complete:
  assumes "0 < blockBytes" "blockBytes \<le> 2147483648" "ops_ok env ops (NewWriter blockBytes epoch)"
    and "run_ops env ops (NewWriter blockBytes epoch) [] = (w, es)" "w_err w = None" "Close env w = (None, w')" "dict_small (w_dict w')"
    and "codec_fits env opts" "normalizeBlockReadLimits (ro_limits opts) = Inr limits" "admits env limits (w_index w')"
    and "length (w_out w') \<le> 9223372036854775807" "length (w_hashed w') < 18446744073709551616" "0 \<notin> set (SymbolRefs q)"
    and "NewIndexedReaderWithLimits (w_out w') (codec_of env) (w_dict w') (ro_decomp opts) (ro_limits opts) = Inr r"
  shows "\<exists>r'. RangeSelected (fst (Select q (w_index w'))) q collect (r, []) = (None, r', filter (\<lambda>f. Matches q (FrHeader f)) es)"
proof -
  obtain bs where bs: "closed_as env w' bs es" using assms(1-7) by (rule session_closed)
  then have "32 * length (concat bs) \<le> length (w_hashed w')" using wire_count [of "concat bs"] by (simp add: closed_as_def)
  then have "length (concat bs) < 18446744073709551616" using assms(12) by linarith
  with closed_query [OF bs assms(8-10,7,11) _ assms(13,14)] show ?thesis by simp
qed

theorem indexed_query_complete_witness:
  "\<exists>w es w' r r'. run_ops plain_env short_session (NewWriter 1000 7) [] = (w, es) \<and> Close plain_env w = (None, w') \<and>
     NewIndexedReaderWithLimits (w_out w') 0 (w_dict w') None (ro_limits default_options) = Inr r \<and>
     RangeSelected (fst (Select \<lparr>FromTS = 1, ToTS = 9, FromSeq = 0, ToSeq = 0, QFamilies = [300], SymbolRefs = [1]\<rparr> (w_index w')))
       \<lparr>FromTS = 1, ToTS = 9, FromSeq = 0, ToSeq = 0, QFamilies = [300], SymbolRefs = [1]\<rparr> collect (r, []) =
       (None, r', filter (\<lambda>f. Matches \<lparr>FromTS = 1, ToTS = 9, FromSeq = 0, ToSeq = 0, QFamilies = [300], SymbolRefs = [1]\<rparr> (FrHeader f)) es) \<and>
     map FrPayload es = [[1, 2]]"
proof -
  let ?q = "\<lparr>FromTS = 1, ToTS = 9, FromSeq = 0, ToSeq = 0, QFamilies = [300], SymbolRefs = [1]\<rparr>"
  obtain w es where w: "run_ops plain_env short_session (NewWriter 1000 7) [] = (w, es)" "w_err w = None" "\<not> w_closed w" "w_wroteHdr w"
    "w_dict w = \<lparr>d_ids = [''V'' \<mapsto> 1], d_values = ['''', ''V'']\<rparr>" "length (w_frames w) = 75" "w_frameCount w = 2" "w_index w = []"
    "map FrVenue es = [''V'']" "map FrPayload es = [[1, 2]]" "length (w_out w) = 32" "length (w_hashed w) = 75" by (rule short_run)
  obtain w' where w': "Close plain_env w = (None, w')" "w_hashed w' = w_hashed w" "length (w_out w') = length (w_out w) + 139" "w_dict w' = w_dict w"
    "map StoredLen (w_index w') = [75]" "map UncompressedLen (w_index w') = [75]" using w(2-4,6-8) by (rule short_close)
  have adm: "admits plain_env default_limits (w_index w')"
    using w'(5,6) by (auto simp: admits_def validateBlockLengths_def plain_codec default_limits_def)
  have small: "dict_small (w_dict w')" using w(5) w'(4) by (simp add: dict_small_def)
  have len: "length (w_out w') \<le> 9223372036854775807" "length (w_hashed w') < 18446744073709551616" using w(11,12) w'(2,3) by simp_all
  obtain r where r: "NewIndexedReaderWithLimits (w_out w') (codec_of plain_env) (w_dict w') (ro_decomp default_options) (ro_limits default_options) = Inr r"
    by (simp add: NewIndexedReaderWithLimits_def default_normal plain_codec)
  have "\<exists>r'. RangeSelected (fst (Select ?q (w_index w'))) ?q collect (r, []) = (None, r', filter (\<lambda>f. Matches ?q (FrHeader f)) es)"
    by (rule indexed_query_complete [OF _ _ short_ok w(1,2) w'(1) small plain_fits default_normal adm len _ r]) simp_all
  then show ?thesis using w(1,10) w'(1) r by (auto simp: plain_codec default_options_def)
qed

text \<open>A query that names the null venue beside another loses matches. Frames without a venue set no bit
  of the symbol filter, so a block that holds only such frames is skipped although every frame of
  it matches; with the null venue alone the same block is read.\<close>

theorem null_venue_query_loses_blocks:
  assumes "\<forall>h\<in>set hs. VenueRef h = 0" "hs \<noteq> []" "ref \<noteq> 0"
  shows "(\<forall>h\<in>set hs. Matches \<lparr>FromTS = 0, ToTS = 0, FromSeq = 0, ToSeq = 0, QFamilies = [], SymbolRefs = [0, ref]\<rparr> h) \<and>
    \<not> Selects \<lparr>FromTS = 0, ToTS = 0, FromSeq = 0, ToSeq = 0, QFamilies = [], SymbolRefs = [0, ref]\<rparr> (descriptor (stats_of hs) at n m) \<and>
    Selects \<lparr>FromTS = 0, ToTS = 0, FromSeq = 0, ToSeq = 0, QFamilies = [], SymbolRefs = [0]\<rparr> (descriptor (stats_of hs) at n m)"
proof -
  have "foldl (\<lambda>m h. m OR symbolBit (VenueRef h)) k hs = k" for k
    using assms(1) by (induction hs arbitrary: k) (simp_all add: symbolBit_def)
  then have "Symbols (descriptor (stats_of hs) at n m) = 0" by (simp add: descriptor_def stats_of_def observe_symbols stats_reset_def)
  then show ?thesis using assms(1) symbolBit_ne [OF assms(3)]
    by (simp add: Matches_def Selects_def familyMask_def symbolMask_def symbolBit_def)
qed

theorem null_venue_query_loses_blocks_witness:
  "\<not> Selects \<lparr>FromTS = 0, ToTS = 0, FromSeq = 0, ToSeq = 0, QFamilies = [], SymbolRefs = [0, 3]\<rparr> (descriptor (stats_of [blank_header]) 32 40 40)"
  using null_venue_query_loses_blocks [of "[blank_header]" 3 32 40 40] by (simp add: blank_header_def)

end
