(* ===== verification/Ev_Integrity.thy ===== *)
theory Ev_Integrity
  imports Ev_Roundtrip
begin

text \<open>What a stream is worth as evidence: a stream that lost its end is refused, and the execution hash is
  a function of what was appended alone. The second part refines the writer to an abstract log that
  knows nothing of blocks, compressors or destinations.\<close>

section \<open>A truncated stream is refused\<close>

definition refused :: "ev_error option \<times> Reader \<times> Frame list \<Rightarrow> bool" where
  "refused x \<longleftrightarrow> fst x \<noteq> None"

lemma Range_refused:
  assumes "length (r_in r) \<ge> BlockHeaderSize \<Longrightarrow> \<exists>e r1. nextBlock r = (Inl e, r1)" "\<not> r_terminated r" "\<not> r_allowUnterminated r"
  shows "refused (Range visit (r, es))"
proof (cases "length (r_in r) \<ge> BlockHeaderSize")
  case True
  with assms(1) obtain e r1 where "nextBlock r = (Inl e, r1)" by auto
  then show ?thesis by (simp add: Range.simps refused_def)
next
  case False
  with assms(2,3) show ?thesis by (simp add: Range.simps nextBlock_def refused_def)
qed

lemma append_prefix:
  assumes "xs @ ys = us @ vs"
  obtains (whole) p where "xs = us @ p" "p @ ys = vs" | (cut) s where "xs @ s = us" "s \<noteq> []"
  using assms by (force simp: append_eq_append_conv2)

lemma cut_trailer:
  assumes "r_in r @ s = trailer_bytes n digest" "s \<noteq> []" "length digest = 32" "length (r_in r) \<ge> BlockHeaderSize"
  shows "\<exists>e r1. nextBlock r = (Inl e, r1)"
proof -
  have t: "trailer_bytes n digest = le_bytes 4 TrailerMagic @ le_bytes 8 n @ digest" by (simp add: trailer_bytes_def append_simps)
  have l: "length (r_in r) - 20 < 24" using assms(4) arg_cong [OF assms(1), of length] assms(2,3) length_greater_0_conv [of s] by (simp add: t del: length_greater_0_conv)
  have "take 4 (r_in r) = take 4 (r_in r @ s)" using assms(4) by simp
  then have "le_value (slice (take 20 (r_in r)) 0 4) = TrailerMagic" by (simp add: slice_def assms(1) t is_u32_def)
  moreover have "r_in r \<noteq> []" using assms(4) by auto
  ultimately show ?thesis using l assms(4) by (simp add: nextBlock_def readTrailer_def Let_def)
qed

lemma cut_block:
  assumes "r_in r @ s = block_bytes env b" "s \<noteq> []" "length (r_in r) \<ge> BlockHeaderSize"
    "loadable env opts limits b" "serves env opts limits r"
  shows "\<exists>e r1. nextBlock r = (Inl e, r1)"
proof -
  let ?h = "block_header (wire b) (stored_of env b) (u32 (int (length b)))"
  have l: "length (wire b) < 4294967296" "length (stored_of env b) < 4294967296" using assms(4) by (simp_all add: loadable_def)
  note h = block_header_slices [OF l u32_range [of "int (length b)"]] block_header_length [of "wire b" "stored_of env b" "u32 (int (length b))"]
  have "take 20 (r_in r @ s) = ?h" unfolding assms(1) block_bytes_def using h(6) by simp
  then have t: "take 20 (r_in r) = ?h" using assms(3) by simp
  have "length (r_in r) - 20 < length (stored_of env b)" using assms(3) arg_cong [OF assms(1), of length] assms(2) h(6) length_greater_0_conv [of s]
    by (simp add: block_bytes_def del: length_greater_0_conv)
  moreover have "r_in r \<noteq> []" using assms(3) by auto
  ultimately show ?thesis using t h assms(3-5) by (simp add: nextBlock_def Let_def loadable_def serves_def)
qed

lemma Range_cut:
  assumes "\<forall>b\<in>set bs. loadable env opts limits b \<and> (\<forall>f\<in>set b. sized f)" "serves env opts limits r" "is_u64 (r_lastSeq r)" "is_u64 (r_frames r)"
    and "numbered (r_lastSeq r) (concat bs)" "play (concat bs) (r_dict r, es) = Some (d', es')"
    and "r_in r @ s = concat (map (block_bytes env) bs) @ trailer_bytes n digest" "s \<noteq> []" "length digest = 32"
    and "\<not> r_terminated r" "\<not> r_allowUnterminated r"
  shows "refused (Range collect (r, es))"
  using assms
proof (induction bs arbitrary: r es)
  case Nil
  then show ?case using cut_trailer [of r s n digest] by (intro Range_refused) simp_all
next
  case (Cons b bs)
  have l: "loadable env opts limits b" "serves env opts limits r" using Cons.prems(1,2) by simp_all
  from Cons.prems(7) have "r_in r @ s = block_bytes env b @ concat (map (block_bytes env) bs) @ trailer_bytes n digest" by simp
  then show ?case
  proof (cases rule: append_prefix)
    case (cut s')
    then show ?thesis using cut_block [OF cut _ l] Cons.prems(10,11) by (intro Range_refused) simp_all
  next
    case (whole p)
    let ?r1 = "r\<lparr>r_in := p, r_block := wire b, r_blockFrames := u32 (int (length b))\<rparr>"
    have nb: "nextBlock r = (Inr True, ?r1)" using l whole(1) by (rule nextBlock_back)
    obtain d1 es1 where pl: "play b (r_dict r, es) = Some (d1, es1)" "play (concat bs) (d1, es1) = Some (d', es')"
      using Cons.prems(6) by (auto simp: play_append bind_eq_Some_conv)
    let ?r2 = "advance b d1 ?r1"
    have rb: "rangeBlock collect (?r1, es) = (None, ?r2, es1)"
      using Cons.prems(1,3-5) pl(1) by (simp add: rangeBlock_def frames_loop_back numbered_append u32_def)
    have "refused (Range collect (?r2, es1))"
      using Cons.prems pl(2) whole(2)
      by (intro Cons.IH) (auto simp: serves_def advance_def numbered_append numbered_u64)
    then show ?thesis using nb rb by (simp add: Range.simps [of _ r] refused_def)
  qed
qed

text \<open>C15: a stream that lost its end is refused. Whatever session was recorded, every proper prefix of the
  closed stream, cut inside the header, a block or the trailer or between two blocks, makes a reader
  that does not allow unterminated streams fail.\<close>

theorem truncated_stream_refused:
  assumes "0 < blockBytes" "blockBytes \<le> 2147483648" "is_u32 epoch" "ops_ok env ops (NewWriter blockBytes epoch)"
    and "run_ops env ops (NewWriter blockBytes epoch) [] = (w, es)" "w_err w = None" "Close env w = (None, w')" "dict_small (w_dict w')"
    and "codec_fits env opts" "normalizeBlockReadLimits (ro_limits opts) = Inr limits" "admits env limits (w_index w')"
    and "\<not> ro_allowUnterminated opts" "k < length (w_out w')"
  shows "\<exists>e fs. read_stream opts (take k (w_out w')) = (Inl e, fs)"
proof -
  obtain bs where bs: "closed_as env w' bs es" "w_epoch w' = w_epoch w" using assms(1,2,4-8) by (rule session_closed)
  have ep: "w_epoch w' = epoch" using bs(2) run_epoch [OF assms(4), of "[]"] assms(5) by (simp add: NewWriter_def)
  define body where "body = concat (map (block_bytes env) bs) @ trailer_bytes (u64 (int (length (concat bs)))) (sha256 (wire (concat bs)))"
  have out: "w_out w' = stream_header (codec_of env) epoch @ body" using bs(1) ep by (simp add: closed_as_def stream_of_def body_def)
  show ?thesis
  proof (cases "k < 32")
    case True
    then show ?thesis using assms(10) out by (auto simp: read_stream_def NewReader_def stream_header_length)
  next
    case False
    let ?r = "\<lparr>r_in = take (k - 32) body, r_decomp = ro_decomp opts, r_codec = codec_of env, r_epoch = epoch, r_block = [], r_dict = NewDictionary,
      r_lastSeq = 0, r_verify = ro_verify opts, r_hashed = [], r_frames = 0, r_blockFrames = 0, r_terminated = False,
      r_allowUnterminated = ro_allowUnterminated opts, r_limits = limits\<rparr>"
    have n: "NewReader (take k (w_out w')) opts = Inr ?r"
      using NewReader_back [OF assms(9,10,3), of "take (k - 32) body"] False by (simp add: out stream_header_length)
    have s: "drop (k - 32) body \<noteq> []" "r_in ?r @ drop (k - 32) body = concat (map (block_bytes env) bs) @
        trailer_bytes (u64 (int (length (concat bs)))) (sha256 (wire (concat bs)))"
      using assms(13) False unfolding body_def [symmetric] by (simp_all add: out stream_header_length)
    have "refused (Range collect (?r, []))"
      using bs(1) closed_loadable [OF assms(9) bs(1) assms(11)] s assms(12)
      by (intro Range_cut [OF _ _ _ _ _ _ s(2)]) (auto simp: closed_as_def serves_def sha256_length zero_u64)
    then show ?thesis using n by (auto simp: read_stream_def refused_def split: prod.splits option.splits)
  qed
qed

theorem truncated_stream_refused_witness:
  "\<exists>w es w'. run_ops plain_env short_session (NewWriter 1000 7) [] = (w, es) \<and> Close plain_env w = (None, w') \<and> length (w_out w') = 171 \<and>
     (\<exists>e fs. read_stream default_options (take 127 (w_out w')) = (Inl e, fs))"
proof -
  obtain w es where w: "run_ops plain_env short_session (NewWriter 1000 7) [] = (w, es)" "w_err w = None" "\<not> w_closed w" "w_wroteHdr w"
    "w_dict w = \<lparr>d_ids = [''V'' \<mapsto> 1], d_values = ['''', ''V'']\<rparr>" "length (w_frames w) = 75" "w_frameCount w = 2" "w_index w = []"
    "map FrVenue es = [''V'']" "map FrPayload es = [[1, 2]]" "length (w_out w) = 32" "length (w_hashed w) = 75" by (rule short_run)
  obtain w' where w': "Close plain_env w = (None, w')" "w_hashed w' = w_hashed w" "length (w_out w') = length (w_out w) + 139" "w_dict w' = w_dict w"
    "map StoredLen (w_index w') = [75]" "map UncompressedLen (w_index w') = [75]" using w(2-4,6-8) by (rule short_close)
  have adm: "admits plain_env default_limits (w_index w')"
    using w'(5,6) by (auto simp: admits_def validateBlockLengths_def plain_codec default_limits_def)
  have small: "dict_small (w_dict w')" using w(5) w'(4) by (simp add: dict_small_def)
  have "\<exists>e fs. read_stream default_options (take 127 (w_out w')) = (Inl e, fs)"
    by (rule truncated_stream_refused [OF _ _ _ short_ok w(1,2) w'(1) small plain_fits default_normal adm])
      (use w(11) w'(3) in \<open>simp_all add: is_u32_def default_options_def\<close>)
  with w(1,11) w'(1,3) show ?thesis by auto
qed

section \<open>The writer refines a log\<close>

text \<open>A log is the hashed bytes, the last sequence number and the dictionary. Its operations are what an
  append and an interning mean, without storage.\<close>

record Log =
  lg_bytes :: bytes
  lg_seq :: uint64
  lg_dict :: Dictionary

definition log_of :: "Writer \<Rightarrow> Log" where
  "log_of w = \<lparr>lg_bytes = w_hashed w, lg_seq = w_seq w, lg_dict = w_dict w\<rparr>"

definition log_append :: "FrameHeader \<Rightarrow> bytes \<Rightarrow> Log \<Rightarrow> ev_error option \<times> Log" where
  "log_append h p l =
     (if HdrClientID h > MaxEncodedClientID then (Some ErrClientIDOverflow, l)
      else let n = u64 (lg_seq l + 1); u = AppendFrameHeader [] (h\<lparr>Seq := n\<rparr>) @ p
           in (None, l\<lparr>lg_bytes := lg_bytes l @ le_bytes 4 (u32 (int (length u))) @ drop 4 u, lg_seq := n\<rparr>))"

definition log_intern :: "string \<Rightarrow> Log \<Rightarrow> (ev_error + uint32) \<times> Log" where
  "log_intern s l =
     (if s = '''' then (Inl ErrEmptyDictionaryValue, l)
      else (case d_ids (lg_dict l) s of
        Some i \<Rightarrow> (Inr i, l)
      | None \<Rightarrow>
          let i = u32 (int (length (d_values (lg_dict l)))); d = snd (Assign (lg_dict l) s);
              (e, l') = log_append (blank_header\<lparr>SchemaID := SchemaDictionary, SchemaVersion := 1\<rparr>) (AppendString (AppendUint32 [] i) s) (l\<lparr>lg_dict := d\<rparr>)
          in (Inr i, l')))"

definition open_writer :: "Writer \<Rightarrow> bool" where
  "open_writer w \<longleftrightarrow> \<not> w_closed w \<and> w_err w = None"

lemma writeExact_log:
  "writeExact env d w = (e, w') \<Longrightarrow> open_writer w \<Longrightarrow> w_err w' \<noteq> None \<or> e = None \<and> log_of w' = log_of w \<and> open_writer w' \<and> w_blockBytes w' = w_blockBytes w \<and> w_wroteHdr w' = w_wroteHdr w"
  by (auto simp: writeExact_def log_of_def open_writer_def Let_def split: prod.splits if_splits)

lemma ensureHeader_log:
  assumes "ensureHeader env w = (e, w')" "open_writer w"
  shows "w_err w' \<noteq> None \<or> e = None \<and> log_of w' = log_of w \<and> open_writer w'"
proof -
  obtain e1 w1 where x: "writeExact env (stream_header (codec_of env) (w_epoch w)) w = (e1, w1)" by (rule prod.exhaust)
  from writeExact_log [OF x assms(2)] writeExact_cases [OF x] assms x show ?thesis
    by (cases e1) (auto simp: ensureHeader_def log_of_def open_writer_def split: if_splits)
qed

lemma flushBlock_log:
  assumes "flushBlock env w = (e, w')" "open_writer w"
  shows "w_err w' \<noteq> None \<or> e = None \<and> log_of w' = log_of w \<and> open_writer w'"
proof (cases "w_frameCount w = 0 \<or> store_block env (w_frames w) = None")
  case True
  with assms show ?thesis by (auto simp: flushBlock_def split: if_splits)
next
  case False
  then obtain st where st: "store_block env (w_frames w) = Some st" by blast
  obtain e1 w1 where x: "writeExact env (block_header (w_frames w) st (w_frameCount w)) w = (e1, w1)" by (rule prod.exhaust)
  obtain e2 w2 where y: "writeExact env st w1 = (e2, w2)" by (rule prod.exhaust)
  from writeExact_log [OF x assms(2)] show ?thesis
  proof
    assume "w_err w1 \<noteq> None"
    with assms False st x writeExact_cases [OF x] show ?thesis by (cases e1) (auto simp: flushBlock_def open_writer_def)
  next
    assume w1: "e1 = None \<and> log_of w1 = log_of w \<and> open_writer w1 \<and> w_blockBytes w1 = w_blockBytes w \<and> w_wroteHdr w1 = w_wroteHdr w"
    with writeExact_log [OF y] writeExact_cases [OF y] assms False st x y show ?thesis
      by (cases e2) (auto simp: flushBlock_def log_of_def open_writer_def)
  qed
qed

lemma appendFrame_log:
  assumes a: "appendFrame env h p w = (e, w')" and o: "open_writer w"
  shows "w_err w' \<noteq> None \<or> (e, log_of w') = log_append h p (log_of w) \<and> open_writer w'"
proof (cases "HdrClientID h > MaxEncodedClientID")
  case True
  with a o show ?thesis by (auto simp: appendFrame_def open_writer_def log_append_def)
next
  case False
  obtain e1 w1 where x: "ensureHeader env w = (e1, w1)" by (rule prod.exhaust)
  let ?n = "u64 (w_seq w1 + 1)"
  let ?u = "AppendFrameHeader [] (h\<lparr>Seq := ?n\<rparr>) @ p"
  let ?f = "le_bytes 4 (u32 (int (length ?u))) @ drop 4 ?u"
  let ?w = "w1\<lparr>w_seq := ?n, w_frames := w_frames w1 @ ?f, w_hashed := w_hashed w1 @ ?f, w_stats := observe (w_stats w1) (h\<lparr>Seq := ?n\<rparr>),
    w_frameCount := u32 (w_frameCount w1 + 1)\<rparr>"
  from ensureHeader_log [OF x o] show ?thesis
  proof
    assume "w_err w1 \<noteq> None"
    moreover have "e1 = None \<Longrightarrow> w_err w1 = w_err w" using x by (auto simp: ensureHeader_def dest: writeExact_cases split: if_splits prod.splits option.splits)
    ultimately show ?thesis using a o x False by (cases e1) (auto simp: appendFrame_def open_writer_def)
  next
    assume w1: "e1 = None \<and> log_of w1 = log_of w \<and> open_writer w1"
    have l: "(None, log_of ?w) = log_append h p (log_of w)" "open_writer ?w"
      using w1 False by (auto simp: log_append_def log_of_def open_writer_def Let_def)
    have "(e, w') = (if int (length (w_frames ?w)) \<ge> w_blockBytes ?w then flushBlock env ?w else (None, ?w))"
      using a o x w1 False by (auto simp: appendFrame_def open_writer_def Let_def)
    then show ?thesis using flushBlock_log [of env ?w e w'] l by (auto split: if_splits)
  qed
qed

lemma Intern_log:
  assumes i: "Intern env s w = (r, w')" and o: "open_writer w"
  shows "w_err w' \<noteq> None \<or> (r, log_of w') = log_intern s (log_of w) \<and> open_writer w'"
proof (cases "s = '''' \<or> d_ids (w_dict w) s \<noteq> None")
  case True
  with i o show ?thesis by (auto simp: Intern_def open_writer_def log_intern_def log_of_def split: option.splits)
next
  case False
  let ?d = "snd (Assign (w_dict w) s)" and ?i = "u32 (int (length (d_values (w_dict w))))"
  let ?h = "blank_header\<lparr>SchemaID := SchemaDictionary, SchemaVersion := 1\<rparr>" and ?p = "AppendString (AppendUint32 [] ?i) s"
  obtain e w1 where a: "appendFrame env ?h ?p (w\<lparr>w_dict := ?d\<rparr>) = (e, w1)" by (rule prod.exhaust)
  have r: "w' = w1" "e = None \<Longrightarrow> r = Inr ?i"
    using i False o a by (auto simp: Intern_def Assign_def Let_def open_writer_def split: option.splits)
  have "log_of (w\<lparr>w_dict := ?d\<rparr>) = log_of w\<lparr>lg_dict := ?d\<rparr>" by (simp add: log_of_def)
  moreover have "w_err w1 \<noteq> None \<or> e = None"
    using appendFrame_log [OF a] o by (auto simp: open_writer_def log_append_def blank_header_def Let_def)
  ultimately show ?thesis using appendFrame_log [OF a] o False r
    by (auto simp: log_intern_def open_writer_def log_of_def Let_def split: prod.splits)
qed

datatype log_op = LogIntern string | LogAppend FrameHeader bytes | LogEncode FrameHeader "Log \<Rightarrow> (ev_error + bytes) \<times> Log"

definition log_event :: "FrameHeader \<Rightarrow> bytes \<Rightarrow> Log \<Rightarrow> Frame list \<Rightarrow> Log \<times> Frame list" where
  "log_event h p l es =
     (case log_append h p l of
        (Some _, l') \<Rightarrow> (l', es)
      | (None, l') \<Rightarrow>
          (l', es @ [\<lparr>FrHeader = fst (sealed (lg_seq l') h p), FrPayload = p, FrVenue = the (venue_of (lg_dict l') (VenueRef h))\<rparr>]))"

fun log_step :: "log_op \<Rightarrow> Log \<Rightarrow> Frame list \<Rightarrow> Log \<times> Frame list" where
  "log_step (LogIntern s) l es = (snd (log_intern s l), es)"
| "log_step (LogAppend h p) l es = log_event h p l es"
| "log_step (LogEncode h enc) l es =
     (if HdrClientID h > MaxEncodedClientID then (l, es)
      else case enc l of (Inl _, l1) \<Rightarrow> (l1, es) | (Inr p, l1) \<Rightarrow> log_event h p l1 es)"

fun run_log :: "log_op list \<Rightarrow> Log \<Rightarrow> Frame list \<Rightarrow> Log \<times> Frame list" where
  "run_log [] l es = (l, es)"
| "run_log (op # ops) l es = (case log_step op l es of (l', es') \<Rightarrow> run_log ops l' es')"

definition encodes :: "Writer InterningAppender \<Rightarrow> (Log \<Rightarrow> (ev_error + bytes) \<times> Log) \<Rightarrow> bool" where
  "encodes a enc \<longleftrightarrow> (\<forall>w r w'. open_writer w \<longrightarrow> ia_append a [] w = (r, w') \<longrightarrow>
     w_err w' \<noteq> None \<or> (r, log_of w') = enc (log_of w) \<and> open_writer w')"

text \<open>A session of the writer realises a session of the log: the same operations, with flushes anywhere.\<close>

inductive realises :: "log_op list \<Rightarrow> writer_op list \<Rightarrow> bool" where
  Done: "realises [] []"
| Flushed: "realises lops ops \<Longrightarrow> realises lops (OpFlush # ops)"
| Interned: "realises lops ops \<Longrightarrow> realises (LogIntern s # lops) (OpIntern s # ops)"
| Appended: "realises lops ops \<Longrightarrow> h = event_header ts cid ref (pa_schema p) (pa_version p) \<Longrightarrow>
    realises (LogAppend h (pa_payload p) # lops) (OpAppend ts cid ref p # ops)"
| Encoded: "realises lops ops \<Longrightarrow> h = event_header ts cid ref (ia_schema a) (ia_version a) \<Longrightarrow> encodes a enc \<Longrightarrow>
    realises (LogEncode h enc # lops) (OpInterning ts cid ref a # ops)"

definition ends_as :: "Writer \<Rightarrow> Frame list \<Rightarrow> Log \<times> Frame list \<Rightarrow> bool" where
  "ends_as w es x \<longleftrightarrow> w_err w \<noteq> None \<or> x = (log_of w, es) \<and> open_writer w"

lemma event_log:
  assumes "appendFrame env h p w = (e, w')" "open_writer w"
  shows "ends_as w' (if e = None then es @ [event_frame w' h p] else es) (log_event h p (log_of w) es)"
  using appendFrame_log [OF assms]
  by (auto simp: ends_as_def log_event_def event_frame_def log_of_def split: prod.splits option.splits)

lemma flush_log:
  assumes "Flush env w = (e, w')" "open_writer w"
  shows "w_err w' \<noteq> None \<or> e = None \<and> log_of w' = log_of w \<and> open_writer w'"
proof -
  obtain e1 w1 where x: "ensureHeader env w = (e1, w1)" by (rule prod.exhaust)
  have "e1 \<noteq> None \<Longrightarrow> w_err w1 \<noteq> None" using x by (auto simp: ensureHeader_def dest: writeExact_cases split: if_splits prod.splits option.splits)
  moreover have "e1 = None \<Longrightarrow> w_err w1 = w_err w" using x by (auto simp: ensureHeader_def dest: writeExact_cases split: if_splits prod.splits option.splits)
  ultimately show ?thesis
    using assms x ensureHeader_log [OF x assms(2)] flushBlock_log [of env w1 e w'] by (cases e1) (auto simp: Flush_def open_writer_def)
qed

lemma interning_log:
  assumes a: "AppendInterning env ts cid ref a w = (e, w')" and o: "open_writer w" and enc: "encodes a enc"
    and h: "h = event_header ts cid ref (ia_schema a) (ia_version a)"
  shows "ends_as w' (if e = None then es @ [event_frame w' h (encoded_payload env a w)] else es) (log_step (LogEncode h enc) (log_of w) es)"
proof (cases "cid > MaxEncodedClientID")
  case True
  with a o h show ?thesis by (auto simp: AppendInterning_def open_writer_def ends_as_def)
next
  case False
  obtain e1 w1 where x: "ensureHeader env w = (e1, w1)" by (rule prod.exhaust)
  obtain r w2 where y: "ia_append a [] w1 = (r, w2)" by (rule prod.exhaust)
  have e1: "e1 \<noteq> None \<Longrightarrow> w_err w1 = e1" "e1 = None \<Longrightarrow> w_err w1 = w_err w"
    using x by (auto simp: ensureHeader_def dest: writeExact_cases split: if_splits prod.splits option.splits)
  have s: "(e, w') = (case e1 of Some err \<Rightarrow> (Some err, w1) | None \<Rightarrow> (case r of Inl err \<Rightarrow> (Some err, w2) | Inr p \<Rightarrow> appendFrame env h p w2))"
    using a o x y False h by (auto simp: AppendInterning_def open_writer_def split: option.splits)
  show ?thesis
  proof (cases e1)
    case (Some err)
    with s e1 show ?thesis by (simp add: ends_as_def)
  next
    case None
    with ensureHeader_log [OF x o] e1 o have w1: "log_of w1 = log_of w" "open_writer w1" by (auto simp: open_writer_def)
    from enc w1(2) y consider (broken) "w_err w2 \<noteq> None" | (fine) "(r, log_of w2) = enc (log_of w)" "open_writer w2"
      unfolding encodes_def w1(1) [symmetric] by blast
    then show ?thesis
    proof cases
      case broken
      have "w' = w2" using s None broken appendFrame_broken [of w2 env h] by (cases r) (auto, metis snd_conv)
      with broken show ?thesis by (simp add: ends_as_def)
    next
      case fine
      have "encoded_payload env a w = p" if "r = Inr p" for p using x y that by (simp add: encoded_payload_def)
      moreover have "enc (log_of w) = (r, log_of w2)" using fine(1) by simp
      ultimately show ?thesis using s None fine(2) False h event_log [of env h _ w2 e w' es]
        by (cases r) (auto simp: ends_as_def)
    qed
  qed
qed

lemma run_refines_log:
  assumes "realises lops ops" "open_writer w" "run_ops env ops w es = (w', es')" "w_err w' = None"
  shows "run_log lops (log_of w) es = (log_of w', es') \<and> open_writer w'"
  using assms
proof (induction arbitrary: w es rule: realises.induct)
  case Done
  then show ?case by simp
next
  case (Flushed lops ops)
  obtain e w1 where s: "Flush env w = (e, w1)" by (rule prod.exhaust)
  have r: "run_ops env ops w1 es = (w', es')" using Flushed.prems(2) s by (simp split: if_splits)
  have "w_err w1 = None" using run_broken [of w1 env ops es] Flushed.prems(3) r by (cases "w_err w1") auto
  with flush_log [OF s Flushed.prems(1)] have "log_of w1 = log_of w" "open_writer w1" by auto
  with Flushed.IH [OF _ r Flushed.prems(3)] show ?case by simp
next
  case (Interned lops ops s)
  obtain r w1 where i: "Intern env s w = (r, w1)" by (rule prod.exhaust)
  have r: "run_ops env ops w1 es = (w', es')" using Interned.prems(2) i by (cases r) auto
  have "w_err w1 = None" using run_broken [of w1 env ops es] Interned.prems(3) r by (cases "w_err w1") auto
  with Intern_log [OF i Interned.prems(1)] have "log_intern s (log_of w) = (r, log_of w1)" "open_writer w1" by auto
  with Interned.IH [OF _ r Interned.prems(3)] show ?case by simp
next
  case (Appended lops ops h ts cid ref p)
  obtain e w1 where a: "appendFrame env h (pa_payload p) w = (e, w1)" by (rule prod.exhaust)
  let ?es = "if e = None then es @ [event_frame w1 h (pa_payload p)] else es"
  have r: "run_ops env ops w1 ?es = (w', es')" using Appended.prems(1,2) Appended.hyps(2) a
    by (cases e) (simp_all add: Append_def open_writer_def)
  have "w_err w1 = None" using run_broken [of w1 env ops ?es] Appended.prems(3) r by (cases "w_err w1") auto
  with event_log [OF a Appended.prems(1), of es] have "log_event h (pa_payload p) (log_of w) es = (log_of w1, ?es)" "open_writer w1"
    by (auto simp: ends_as_def)
  with Appended.IH [OF _ r Appended.prems(3)] show ?case by simp
next
  case (Encoded lops ops h ts cid ref a enc)
  obtain e w1 where s: "AppendInterning env ts cid ref a w = (e, w1)" by (rule prod.exhaust)
  let ?es = "if e = None then es @ [event_frame w1 h (encoded_payload env a w)] else es"
  have r: "run_ops env ops w1 ?es = (w', es')" using Encoded.prems(2) Encoded.hyps(2) s by (cases e) simp_all
  have "w_err w1 = None" using run_broken [of w1 env ops ?es] Encoded.prems(3) r by (cases "w_err w1") auto
  with interning_log [OF s Encoded.prems(1) Encoded.hyps(3,2), of es]
  have l: "log_step (LogEncode h enc) (log_of w) es = (log_of w1, ?es)" "open_writer w1" by (auto simp: ends_as_def)
  show ?case unfolding run_log.simps l(1) using Encoded.IH [OF l(2) r Encoded.prems(3)] by simp
qed

definition empty_log :: Log where
  "empty_log = \<lparr>lg_bytes = [], lg_seq = 0, lg_dict = NewDictionary\<rparr>"

lemma new_writer_log: "open_writer (NewWriter b e)" "log_of (NewWriter b e) = empty_log"
  by (simp_all add: NewWriter_def open_writer_def log_of_def empty_log_def)

text \<open>The writer implements the log. A session that realises a list of log operations, with flushes
  anywhere, and ends without a sticky error has absorbed exactly the bytes the log defines, under the
  log's sequence numbers and dictionary, and has accepted the log's events.\<close>

theorem writer_refines_log:
  assumes "realises lops ops" "run_ops env ops (NewWriter b epoch) [] = (w, es)" "w_err w = None"
  shows "run_log lops empty_log [] = (log_of w, es)"
  using run_refines_log [OF assms(1) new_writer_log(1) assms(2,3)] by (simp add: new_writer_log)

text \<open>The execution hash depends on what was recorded and on nothing else. Two sessions that realise
  the same log, on different destinations, with different compressors, block sizes, epochs and
  flush points, and that end without a sticky error, have recorded the same events under the same
  sequence numbers with the same dictionary, and have the same execution hash.\<close>

theorem execution_hash_storage_independent:
  assumes "realises lops ops1" "run_ops env1 ops1 (NewWriter b1 epoch1) [] = (w1, es1)" "w_err w1 = None"
    and "realises lops ops2" "run_ops env2 ops2 (NewWriter b2 epoch2) [] = (w2, es2)" "w_err w2 = None"
  shows "ExecutionHash w1 = ExecutionHash w2 \<and> es1 = es2 \<and> w_seq w1 = w_seq w2 \<and> w_dict w1 = w_dict w2"
proof -
  have "(log_of w1, es1) = (log_of w2, es2)"
    using run_refines_log [OF assms(1) new_writer_log(1) assms(2,3)] run_refines_log [OF assms(4) new_writer_log(1) assms(5,6)]
    by (simp add: new_writer_log)
  then show ?thesis by (simp add: log_of_def ExecutionHash_def)
qed

definition short_log :: "log_op list" where
  "short_log = [LogIntern ''V'', LogAppend (event_header 5 9 1 300 1) [1, 2]]"

lemma short_realised: "realises short_log short_session"
  using Interned [OF Appended [OF Done refl, of 5 9 1 "\<lparr>pa_schema = 300, pa_version = 1, pa_payload = [1, 2]\<rparr>"]]
  by (simp add: short_log_def short_session_def)

theorem writer_refines_log_witness:
  "\<exists>w es. run_ops plain_env short_session (NewWriter 1000 7) [] = (w, es) \<and> run_log short_log empty_log [] = (log_of w, es) \<and>
     length (lg_bytes (log_of w)) = 75 \<and> map FrPayload es = [[1, 2]]"
proof -
  obtain w es where w: "run_ops plain_env short_session (NewWriter 1000 7) [] = (w, es)" "w_err w = None" "\<not> w_closed w" "w_wroteHdr w"
    "w_dict w = \<lparr>d_ids = [''V'' \<mapsto> 1], d_values = ['''', ''V'']\<rparr>" "length (w_frames w) = 75" "w_frameCount w = 2" "w_index w = []"
    "map FrVenue es = [''V'']" "map FrPayload es = [[1, 2]]" "length (w_out w) = 32" "length (w_hashed w) = 75" by (rule short_run)
  from writer_refines_log [OF short_realised w(1,2)] w(1,10,12) show ?thesis by (auto simp: log_of_def)
qed

theorem execution_hash_storage_independent_witness:
  "\<exists>w1 es1 w2 es2. run_ops plain_env short_session (NewWriter 1000 7) [] = (w1, es1) \<and>
     run_ops plain_env (OpFlush # short_session) (NewWriter 2000 8) [] = (w2, es2) \<and>
     ExecutionHash w1 = ExecutionHash w2 \<and> map FrPayload es1 = [[1, 2]]"
proof -
  obtain w es where w: "run_ops plain_env short_session (NewWriter 1000 7) [] = (w, es)" "w_err w = None" "\<not> w_closed w" "w_wroteHdr w"
    "w_dict w = \<lparr>d_ids = [''V'' \<mapsto> 1], d_values = ['''', ''V'']\<rparr>" "length (w_frames w) = 75" "w_frameCount w = 2" "w_index w = []"
    "map FrVenue es = [''V'']" "map FrPayload es = [[1, 2]]" "length (w_out w) = 32" "length (w_hashed w) = 75" by (rule short_run)
  obtain w2 es2 where w2: "run_ops plain_env (OpFlush # short_session) (NewWriter 2000 8) [] = (w2, es2)" by (rule prod.exhaust)
  have "w_err (fst (run_ops plain_env (OpFlush # short_session) (NewWriter 2000 8) [])) = None"
    by (simp add: plain_session Let_def Flush_def flushBlock_def)
  with w2 have "w_err w2 = None" by simp
  from execution_hash_storage_independent [OF short_realised w(1,2) Flushed [OF short_realised] w2 this] w(1,10) w2 show ?thesis by auto
qed

end
