(* ===== verification/Go_Heap.thy ===== *)
theory Go_Heap
  imports "HOL-Library.Multiset"
begin

text \<open>Go's \<open>container/heap\<close> on a slice: sifting up and down, push, pop and removal at an index, for a
  comparison given by the client. The client's \<open>Push\<close> appends to the slice and its \<open>Pop\<close> takes the last
  element, as the scheduler's event heap does.

  The laws of the comparison that the package documents, a strict weak order, are the locale
  \<open>weak_order\<close>; inside it, every operation keeps the heap property and moves elements only.\<close>

definition swap :: "'a list \<Rightarrow> nat \<Rightarrow> nat \<Rightarrow> 'a list" where
  "swap xs i j = xs[i := xs ! j, j := xs ! i]"

function heap_up :: "('a \<Rightarrow> 'a \<Rightarrow> bool) \<Rightarrow> 'a list \<Rightarrow> nat \<Rightarrow> 'a list" where
  "heap_up lt xs j =
     (let i = (j - 1) div 2
      in if i = j \<or> \<not> lt (xs ! j) (xs ! i) then xs else heap_up lt (swap xs i j) i)"
  by pat_completeness auto
termination by (relation "measure (\<lambda>(_, _, j). j)") auto

definition least_child :: "('a \<Rightarrow> 'a \<Rightarrow> bool) \<Rightarrow> 'a list \<Rightarrow> nat \<Rightarrow> nat \<Rightarrow> nat" where
  "least_child lt xs i n =
     (let j1 = 2 * i + 1 in if j1 + 1 < n \<and> lt (xs ! (j1 + 1)) (xs ! j1) then j1 + 1 else j1)"

function heap_down :: "('a \<Rightarrow> 'a \<Rightarrow> bool) \<Rightarrow> 'a list \<Rightarrow> nat \<Rightarrow> nat \<Rightarrow> 'a list \<times> nat" where
  "heap_down lt xs i n =
     (if 2 * i + 1 \<ge> n then (xs, i)
      else let j = least_child lt xs i n
           in if \<not> lt (xs ! j) (xs ! i) then (xs, i) else heap_down lt (swap xs i j) j n)"
  by pat_completeness auto
termination by (relation "measure (\<lambda>(_, _, i, n). n - i)") (auto simp: least_child_def Let_def)

declare heap_up.simps [simp del] heap_down.simps [simp del]

definition heap_Push :: "('a \<Rightarrow> 'a \<Rightarrow> bool) \<Rightarrow> 'a list \<Rightarrow> 'a \<Rightarrow> 'a list" where
  "heap_Push lt xs x = heap_up lt (xs @ [x]) (length xs)"

definition heap_Pop :: "('a \<Rightarrow> 'a \<Rightarrow> bool) \<Rightarrow> 'a list \<Rightarrow> 'a \<times> 'a list" where
  "heap_Pop lt xs =
     (let n = length xs - 1; ys = fst (heap_down lt (swap xs 0 n) 0 n) in (last ys, butlast ys))"

definition heap_Remove :: "('a \<Rightarrow> 'a \<Rightarrow> bool) \<Rightarrow> 'a list \<Rightarrow> nat \<Rightarrow> 'a \<times> 'a list" where
  "heap_Remove lt xs i =
     (let n = length xs - 1;
          ys = (if n \<noteq> i
                then (case heap_down lt (swap xs i n) i n of (zs, k) \<Rightarrow> if k > i then zs else heap_up lt zs i)
                else xs)
      in (last ys, butlast ys))"

section \<open>What the operations move\<close>

lemma swap_length [simp]: "length (swap xs i j) = length xs"
  by (simp add: swap_def)

lemma swap_mset [simp]: "i < length xs \<Longrightarrow> j < length xs \<Longrightarrow> mset (swap xs i j) = mset xs"
  by (simp add: swap_def mset_swap)

lemma swap_nth: "i < length xs \<Longrightarrow> j < length xs \<Longrightarrow> swap xs i j ! k = (if k = j then xs ! i else if k = i then xs ! j else xs ! k)"
  by (auto simp: swap_def nth_list_update)

lemma heap_up_moves:
  "j < length xs \<Longrightarrow> mset (heap_up lt xs j) = mset xs \<and> length (heap_up lt xs j) = length xs \<and> (\<forall>k>j. heap_up lt xs j ! k = xs ! k)"
proof (induction lt xs j rule: heap_up.induct)
  case (1 lt xs j)
  let ?i = "(j - 1) div 2"
  show ?case
  proof (cases "?i = j \<or> \<not> lt (xs ! j) (xs ! ?i)")
    case True
    then show ?thesis by (subst (1 2 3) heap_up.simps) (simp add: Let_def)
  next
    case False
    then have "?i < j" by (cases j) auto
    moreover have "heap_up lt xs j = heap_up lt (swap xs ?i j) ?i" using False by (subst heap_up.simps) (simp add: Let_def)
    ultimately show ?thesis using 1(1) [OF refl False] "1.prems" by (auto simp: swap_nth)
  qed
qed

lemma least_child_place: "2 * i + 1 < n \<Longrightarrow> i < least_child lt xs i n \<and> least_child lt xs i n < n \<and> (least_child lt xs i n - 1) div 2 = i"
  by (auto simp: least_child_def Let_def)

lemma heap_down_stop: "2 * i + 1 \<ge> n \<or> \<not> lt (xs ! least_child lt xs i n) (xs ! i) \<Longrightarrow> heap_down lt xs i n = (xs, i)"
  by (subst heap_down.simps) (auto simp: Let_def)

lemma heap_down_go:
  "2 * i + 1 < n \<Longrightarrow> lt (xs ! least_child lt xs i n) (xs ! i) \<Longrightarrow>
   heap_down lt xs i n = heap_down lt (swap xs i (least_child lt xs i n)) (least_child lt xs i n) n"
  by (subst heap_down.simps) (simp add: Let_def)

lemma heap_down_moves:
  "i < n \<Longrightarrow> n \<le> length xs \<Longrightarrow> mset (fst (heap_down lt xs i n)) = mset xs \<and> length (fst (heap_down lt xs i n)) = length xs \<and>
     (\<forall>k\<ge>n. fst (heap_down lt xs i n) ! k = xs ! k) \<and> i \<le> snd (heap_down lt xs i n)"
proof (induction "n - i" arbitrary: xs i rule: less_induct)
  case less
  let ?j = "least_child lt xs i n"
  show ?case
  proof (cases "2 * i + 1 \<ge> n \<or> \<not> lt (xs ! ?j) (xs ! i)")
    case True
    then show ?thesis by (simp add: heap_down_stop)
  next
    case False
    then have d: "heap_down lt xs i n = heap_down lt (swap xs i ?j) ?j n" by (simp add: heap_down_go)
    have j: "i < ?j" "?j < n" using least_child_place [of i n lt xs] False by simp_all
    have IH: "mset (fst (heap_down lt (swap xs i ?j) ?j n)) = mset (swap xs i ?j) \<and> length (fst (heap_down lt (swap xs i ?j) ?j n)) = length (swap xs i ?j) \<and>
        (\<forall>k\<ge>n. fst (heap_down lt (swap xs i ?j) ?j n) ! k = swap xs i ?j ! k) \<and> ?j \<le> snd (heap_down lt (swap xs i ?j) ?j n)"
      using j less.prems by (intro less.hyps) auto
    moreover have "swap xs i ?j ! k = xs ! k" if "k \<ge> n" for k using that j less.prems by (simp add: swap_nth)
    ultimately show ?thesis unfolding d using j less.prems by auto
  qed
qed

lemma Pop_first:
  assumes "heap_Pop lt xs = (e, rest)" "xs \<noteq> []"
  shows "e = hd xs"
proof -
  let ?n = "length xs - 1"
  let ?ys = "fst (heap_down lt (swap xs 0 ?n) 0 ?n)"
  have n: "?n < length xs" using assms(2) by (cases xs) auto
  have "swap xs 0 ?n ! ?n = xs ! 0" using n swap_nth [of 0 xs ?n ?n] assms(2) by simp
  then have "length ?ys = length xs \<and> ?ys ! ?n = xs ! 0"
    using heap_down_moves [of 0 ?n "swap xs 0 ?n" lt] heap_down_stop [of ?n 0 lt "swap xs 0 ?n"] n by (cases "?n = 0") auto
  moreover from this have "?ys \<noteq> []" using assms(2) by auto
  ultimately have "last ?ys = xs ! 0" by (simp add: last_conv_nth)
  then show ?thesis using assms by (simp add: heap_Pop_def Let_def hd_conv_nth)
qed

section \<open>The heap property\<close>

abbreviation par :: "nat \<Rightarrow> nat" where "par x \<equiv> (x - 1) div 2"

definition is_heap :: "('a \<Rightarrow> 'a \<Rightarrow> bool) \<Rightarrow> 'a list \<Rightarrow> nat \<Rightarrow> bool" where
  "is_heap lt xs n \<longleftrightarrow> (\<forall>x<n. 0 < x \<longrightarrow> \<not> lt (xs ! x) (xs ! par x))"

text \<open>The heap property holds except above \<open>i\<close>, or except above and below \<open>i\<close>.\<close>

definition heap_above :: "('a \<Rightarrow> 'a \<Rightarrow> bool) \<Rightarrow> 'a list \<Rightarrow> nat \<Rightarrow> nat \<Rightarrow> bool" where
  "heap_above lt xs n i \<longleftrightarrow> (\<forall>x<n. 0 < x \<longrightarrow> (x \<noteq> i \<longrightarrow> \<not> lt (xs ! x) (xs ! par x)) \<and> (par x = i \<longrightarrow> 0 < i \<longrightarrow> \<not> lt (xs ! x) (xs ! par i)))"

definition heap_around :: "('a \<Rightarrow> 'a \<Rightarrow> bool) \<Rightarrow> 'a list \<Rightarrow> nat \<Rightarrow> nat \<Rightarrow> bool" where
  "heap_around lt xs n i \<longleftrightarrow> (\<forall>x<n. 0 < x \<longrightarrow> (x \<noteq> i \<longrightarrow> par x \<noteq> i \<longrightarrow> \<not> lt (xs ! x) (xs ! par x)) \<and>
     (par x = i \<longrightarrow> 0 < i \<longrightarrow> \<not> lt (xs ! x) (xs ! par i)))"

definition heap_ok :: "('a \<Rightarrow> 'a \<Rightarrow> bool) \<Rightarrow> 'a list \<Rightarrow> bool" where
  "heap_ok lt xs \<longleftrightarrow> is_heap lt xs (length xs)"

locale weak_order =
  fixes lt :: "'a \<Rightarrow> 'a \<Rightarrow> bool"
  assumes lt_asym: "lt a b \<Longrightarrow> \<not> lt b a"
    and lt_chain: "\<not> lt a b \<Longrightarrow> \<not> lt b c \<Longrightarrow> \<not> lt a c"
begin

lemma heap_up_step:
  assumes "heap_above lt xs n i" "i < n" "n \<le> length xs" "0 < i" "lt (xs ! i) (xs ! par i)"
  shows "heap_above lt (swap xs (par i) i) n (par i)"
proof -
  have p: "par i < i" using assms(4) by (cases i) auto
  have s: "swap xs (par i) i ! k = (if k = i then xs ! par i else if k = par i then xs ! i else xs ! k)" for k
    using p assms(2,3) by (simp add: swap_nth)
  have ap: "\<not> lt (xs ! par i) (xs ! i)" using assms(5) by (rule lt_asym)
  have "(x \<noteq> par i \<longrightarrow> \<not> lt (swap xs (par i) i ! x) (swap xs (par i) i ! par x)) \<and>
      (par x = par i \<longrightarrow> 0 < par i \<longrightarrow> \<not> lt (swap xs (par i) i ! x) (swap xs (par i) i ! par (par i)))" if x: "x < n" "0 < x" for x
  proof -
    have h: "x \<noteq> i \<Longrightarrow> \<not> lt (xs ! x) (xs ! par x)" "par x = i \<Longrightarrow> \<not> lt (xs ! x) (xs ! par i)"
      using assms(1,4) x by (auto simp: heap_above_def)
    have hp: "0 < par i \<Longrightarrow> \<not> lt (xs ! par i) (xs ! par (par i))" using assms(1,2) p by (auto simp: heap_above_def)
    have px: "par x < x" "0 < par i \<Longrightarrow> par (par i) < par i" using x(2) by auto
    have "x \<noteq> i \<Longrightarrow> par x = par i \<Longrightarrow> \<not> lt (xs ! x) (xs ! i)" using h(1) ap lt_chain by metis
    moreover have "x \<noteq> i \<Longrightarrow> par x = par i \<Longrightarrow> 0 < par i \<Longrightarrow> \<not> lt (xs ! x) (xs ! par (par i))" using h(1) hp lt_chain by metis
    ultimately show ?thesis using h hp ap p px unfolding s by (cases "x = i") auto
  qed
  then show ?thesis unfolding heap_above_def by blast
qed

lemma heap_up_heap: "heap_above lt xs n j \<Longrightarrow> j < n \<Longrightarrow> n \<le> length xs \<Longrightarrow> is_heap lt (heap_up lt xs j) n"
proof (induction j arbitrary: xs rule: less_induct)
  case (less j)
  show ?case
  proof (cases "par j = j \<or> \<not> lt (xs ! j) (xs ! par j)")
    case True
    moreover have "par j = j \<Longrightarrow> j = 0" by (cases j) auto
    ultimately have "is_heap lt xs n" using less.prems(1) by (auto simp: is_heap_def heap_above_def)
    then show ?thesis using True by (subst heap_up.simps) (simp add: Let_def)
  next
    case False
    then have j: "0 < j" "par j < j" by (cases j; auto)+
    have "heap_up lt xs j = heap_up lt (swap xs (par j) j) (par j)" using False by (subst heap_up.simps) (simp add: Let_def)
    with less.IH [OF j(2) heap_up_step] less.prems j False show ?thesis by simp
  qed
qed

lemma heap_down_step:
  assumes h: "heap_around lt xs n i" and n: "n \<le> length xs" "j < n" and j: "0 < j" "par j = i"
    and m: "\<And>x. x < n \<Longrightarrow> 0 < x \<Longrightarrow> par x = i \<Longrightarrow> \<not> lt (xs ! x) (xs ! j)" and l: "lt (xs ! j) (xs ! i)"
  shows "heap_around lt (swap xs i j) n j \<and> \<not> lt (swap xs i j ! j) (swap xs i j ! i)"
proof -
  have ij: "i < j" using j by (cases j) auto
  have s: "swap xs i j ! k = (if k = j then xs ! i else if k = i then xs ! j else xs ! k)" for k using ij n by (simp add: swap_nth)
  have "(x \<noteq> j \<longrightarrow> par x \<noteq> j \<longrightarrow> \<not> lt (swap xs i j ! x) (swap xs i j ! par x)) \<and> (par x = j \<longrightarrow> \<not> lt (swap xs i j ! x) (swap xs i j ! par j))"
    if x: "x < n" "0 < x" for x
  proof -
    have g: "x \<noteq> i \<Longrightarrow> par x \<noteq> i \<Longrightarrow> \<not> lt (xs ! x) (xs ! par x)" using h x by (auto simp: heap_around_def)
    have gj: "0 < i \<Longrightarrow> \<not> lt (xs ! j) (xs ! par i)" using h j n(2) by (auto simp: heap_around_def)
    have px: "par x < x" using x(2) by auto
    show ?thesis using g gj m [OF x] ij px j unfolding s by auto
  qed
  then show ?thesis using lt_asym [OF l] ij unfolding heap_around_def s by auto
qed

lemma heap_down_heap:
  assumes "heap_around lt xs n i" "i < n" "n \<le> length xs"
  shows "(case heap_down lt xs i n of (ys, k) \<Rightarrow> if k > i then is_heap lt ys n else ys = xs \<and> heap_above lt xs n i)"
  using assms
proof (induction "n - i" arbitrary: xs i rule: less_induct)
  case less
  let ?j = "least_child lt xs i n"
  have m: "\<not> lt (xs ! x) (xs ! ?j)" if x: "x < n" "0 < x" "par x = i" for x
  proof -
    have "x = 2 * i + 1 \<or> x = 2 * i + 1 + 1" using x(2,3) by (cases x) auto
    then show ?thesis using x(1) lt_asym by (auto simp: least_child_def Let_def)
  qed
  show ?case
  proof (cases "2 * i + 1 \<ge> n \<or> \<not> lt (xs ! ?j) (xs ! i)")
    case True
    have "\<not> lt (xs ! x) (xs ! i)" if x: "x < n" "0 < x" "par x = i" for x
    proof -
      have "2 * i + 1 \<le> x" using x(2,3) by (cases x) auto
      then show ?thesis using True x(1) m [OF x] lt_chain [of "xs ! x" "xs ! ?j" "xs ! i"] by auto
    qed
    then show ?thesis using True less.prems(1) by (auto simp: heap_down_stop heap_above_def heap_around_def)
  next
    case False
    then have d: "heap_down lt xs i n = heap_down lt (swap xs i ?j) ?j n" by (simp add: heap_down_go)
    have j: "i < ?j" "?j < n" "par ?j = i" "0 < ?j" using least_child_place [of i n lt xs] False by auto
    have st: "heap_around lt (swap xs i ?j) n ?j \<and> \<not> lt (swap xs i ?j ! ?j) (swap xs i ?j ! i)"
      using False by (intro heap_down_step [OF less.prems(1,3) j(2,4,3) m]) auto
    have IH: "case heap_down lt (swap xs i ?j) ?j n of (ys, k) \<Rightarrow> if k > ?j then is_heap lt ys n else ys = swap xs i ?j \<and> heap_above lt (swap xs i ?j) n ?j"
      using st j less.prems by (intro less.hyps) auto
    have "is_heap lt (swap xs i ?j) n" if "heap_above lt (swap xs i ?j) n ?j"
      using that st j(3) by (auto simp: is_heap_def heap_above_def)
    with IH heap_down_moves [of ?j n "swap xs i ?j" lt] j less.prems(3) show ?thesis unfolding d
      by (cases "heap_down lt (swap xs i ?j) ?j n") (auto split: if_splits)
  qed
qed

lemma heap_root:
  assumes "is_heap lt xs n" "x < n"
  shows "\<not> lt (xs ! x) (xs ! 0)"
  using assms(2)
proof (induction x rule: less_induct)
  case (less x)
  show ?case
  proof (cases "x = 0")
    case True
    then show ?thesis using lt_asym by blast
  next
    case False
    then have "par x < x" by auto
    with less have "\<not> lt (xs ! par x) (xs ! 0)" by simp
    moreover have "\<not> lt (xs ! x) (xs ! par x)" using assms(1) less.prems False by (simp add: is_heap_def)
    ultimately show ?thesis using lt_chain by blast
  qed
qed

lemma heap_butlast:
  assumes "is_heap lt ys (length ys - 1)" "ys \<noteq> []"
  shows "heap_ok lt (butlast ys)"
  using assms by (auto simp: heap_ok_def is_heap_def nth_butlast less_diff_conv)

lemma split_last: "ys \<noteq> [] \<Longrightarrow> mset ys = add_mset (last ys) (mset (butlast ys))"
  by (induction ys) auto

lemma Push_heap:
  assumes "heap_ok lt xs"
  shows "heap_ok lt (heap_Push lt xs x)" "mset (heap_Push lt xs x) = add_mset x (mset xs)"
proof -
  have "(xs @ [x]) ! k = xs ! k" if "k < length xs" for k using that by (simp add: nth_append)
  moreover have "xs \<noteq> [] \<Longrightarrow> par (length xs) \<noteq> length xs" by (cases xs) auto
  ultimately have "heap_above lt (xs @ [x]) (length (xs @ [x])) (length xs)"
    using assms by (auto simp: heap_above_def heap_ok_def is_heap_def less_Suc_eq)
  then show "heap_ok lt (heap_Push lt xs x)"
    using heap_up_heap [of "xs @ [x]" _ "length xs"] heap_up_moves [of "length xs" "xs @ [x]" lt] by (simp add: heap_ok_def heap_Push_def)
  show "mset (heap_Push lt xs x) = add_mset x (mset xs)" using heap_up_moves [of "length xs" "xs @ [x]" lt] by (simp add: heap_Push_def)
qed

lemma swapped_around:
  assumes "heap_ok lt xs" "i < length xs - 1"
  shows "heap_around lt (swap xs i (length xs - 1)) (length xs - 1) i"
proof -
  let ?n = "length xs - 1"
  have s: "swap xs i ?n ! k = xs ! k" if "k < ?n" "k \<noteq> i" for k using that assms(2) by (simp add: swap_nth)
  have "(x \<noteq> i \<longrightarrow> par x \<noteq> i \<longrightarrow> \<not> lt (swap xs i ?n ! x) (swap xs i ?n ! par x)) \<and>
      (par x = i \<longrightarrow> 0 < i \<longrightarrow> \<not> lt (swap xs i ?n ! x) (swap xs i ?n ! par i))" if x: "x < ?n" "0 < x" for x
  proof -
    have p: "par x < x" "0 < i \<Longrightarrow> par i < i" using x(2) by auto
    have h: "\<not> lt (xs ! x) (xs ! par x)" "0 < i \<Longrightarrow> \<not> lt (xs ! i) (xs ! par i)" using assms x by (auto simp: heap_ok_def is_heap_def)
    have "par x = i \<Longrightarrow> 0 < i \<Longrightarrow> \<not> lt (xs ! x) (xs ! par i)" using h lt_chain by metis
    then show ?thesis using h p x s [of x] s [of "par x"] s [of "par i"] assms(2) by auto
  qed
  then show ?thesis unfolding heap_around_def by blast
qed

lemma last_moved: "ys \<noteq> [] \<Longrightarrow> ys ! (length ys - 1) = e \<Longrightarrow> last ys = e"
  by (simp add: last_conv_nth)

lemma Remove_heap:
  assumes h: "heap_ok lt xs" and i: "i < length xs" and r: "heap_Remove lt xs i = (e, ys)"
  shows "e = xs ! i" "mset xs = add_mset (xs ! i) (mset ys)" "heap_ok lt ys"
proof -
  let ?n = "length xs - 1"
  obtain zs where zs: "e = last zs" "ys = butlast zs" "mset zs = mset xs" "length zs = length xs" "zs ! ?n = xs ! i" "is_heap lt zs ?n"
  proof (cases "i = ?n")
    case True
    then show thesis using that [of xs] r h i by (auto simp: heap_Remove_def heap_ok_def is_heap_def Let_def)
  next
    case False
    then have i': "i < ?n" using i by simp
    let ?s = "swap xs i ?n"
    obtain us k where d: "heap_down lt ?s i ?n = (us, k)" by (rule prod.exhaust)
    have mv: "mset us = mset xs" "length us = length xs" "us ! ?n = xs ! i" "i \<le> k"
      using heap_down_moves [of i ?n ?s lt] d i' by (auto simp: swap_nth)
    have hd: "if k > i then is_heap lt us ?n else us = ?s \<and> heap_above lt ?s ?n i"
      using heap_down_heap [OF swapped_around [OF h i'] i'] d by simp
    show thesis
    proof (cases "k > i")
      case True
      then show thesis using that [of us] r False d mv hd by (simp add: heap_Remove_def Let_def)
    next
      case stay: False
      have "heap_Remove lt xs i = (last (heap_up lt us i), butlast (heap_up lt us i))" using False d stay by (simp add: heap_Remove_def Let_def)
      moreover have "is_heap lt (heap_up lt us i) ?n" using hd stay i' mv(2) by (intro heap_up_heap) auto
      moreover have "mset (heap_up lt us i) = mset us" "length (heap_up lt us i) = length us" "heap_up lt us i ! ?n = us ! ?n"
        using heap_up_moves [of i us lt] i' mv(2) by auto
      ultimately show thesis using that [of "heap_up lt us i"] r mv by simp
    qed
  qed
  have ne: "zs \<noteq> []" using zs(4) i by auto
  show "e = xs ! i" using zs ne last_moved [of zs "xs ! i"] by simp
  then show "mset xs = add_mset (xs ! i) (mset ys)" using zs(1-3) split_last [OF ne] by simp
  show "heap_ok lt ys" using zs heap_butlast [OF _ ne] by simp
qed

lemma Pop_Remove: "xs \<noteq> [] \<Longrightarrow> heap_ok lt xs \<Longrightarrow> heap_Pop lt xs = (if length xs = 1 then (hd xs, []) else heap_Remove lt xs 0)"
proof -
  assume xs: "xs \<noteq> []" "heap_ok lt xs"
  let ?n = "length xs - 1"
  show ?thesis
  proof (cases "length xs = 1")
    case True
    then obtain x where "xs = [x]" by (cases xs) auto
    then show ?thesis by (simp add: heap_Pop_def swap_def heap_down_stop)
  next
    case False
    then have n: "0 < ?n" using xs(1) by (cases xs) auto
    obtain us k where d: "heap_down lt (swap xs 0 ?n) 0 ?n = (us, k)" by (rule prod.exhaust)
    have "heap_up lt us 0 = us" by (subst heap_up.simps) simp
    then show ?thesis using False n d by (auto simp: heap_Pop_def heap_Remove_def Let_def)
  qed
qed

lemma Pop_heap:
  assumes "heap_ok lt xs" "xs \<noteq> []" "heap_Pop lt xs = (e, ys)"
  shows "e = xs ! 0" "mset xs = add_mset e (mset ys)" "heap_ok lt ys" "x \<in> set xs \<Longrightarrow> \<not> lt x e"
proof -
  have *: "e = xs ! 0 \<and> mset xs = add_mset e (mset ys) \<and> heap_ok lt ys"
  proof (cases "length xs = 1")
    case True
    then obtain x where "xs = [x]" by (cases xs) auto
    then show ?thesis using assms(1,3) Pop_Remove [of xs] by (simp add: heap_ok_def is_heap_def)
  next
    case False
    then have "heap_Remove lt xs 0 = (e, ys)" using assms Pop_Remove [of xs] by simp
    then show ?thesis using Remove_heap [OF assms(1), of 0 e ys] assms(2) by simp
  qed
  then show "e = xs ! 0" "mset xs = add_mset e (mset ys)" "heap_ok lt ys" by simp_all
  show "x \<in> set xs \<Longrightarrow> \<not> lt x e" using * heap_root [of xs "length xs"] assms(1) by (auto simp: in_set_conv_nth heap_ok_def)
qed

end

end
