(* ===== verification/Scheduler.thy ===== *)
theory Scheduler
  imports Prelude Go_Heap
begin

text \<open>Simulated time (\<open>simulation/scheduler.go\<close>, \<open>simulation/clock.go\<close>): the event heap, the clock that walks
  from event to event, and the draining of intermediate timestamps.

  A callback is a closure in the code; here it is a tag of type \<open>'c\<close> whose effect \<open>run\<close> on the world is
  a parameter of the operations that fire events. The world is the clock, the scheduler and whatever
  else callbacks touch, of type \<open>'u\<close>. The locks serialise the operations and are not modelled: a
  callback runs between two locked sections, exactly where the code releases the lock. A nil pointer
  dereference and the code's explicit panics are error values.\<close>

datatype sim_error = NilClock | BadOffset | NonPositiveInterval | CallbackMovedClock | ClockChanged | PhaseMovedClock | TooManyRounds
  | NeedsStepAndDrain | NeedsSchedulerAndTarget | OverlappingAdvance | DrainFailed string

record 'c ScheduledEvent =
  ev_Time :: int64
  Callback :: 'c
  Repeating :: bool
  Interval :: int64
  ev_id :: uint64

text \<open>\<open>es_clock\<close> and \<open>clk_scheduler\<close> say that the scheduler's clock pointer and the clock's scheduler pointer
  are set.\<close>

record 'c EventScheduler =
  es_clock :: bool
  es_events :: "'c ScheduledEvent list"
  nextID :: uint64
  cancelled :: "uint64 set"

record SimulatedClock =
  clk_current :: int64
  clk_goal :: int64
  clk_scheduler :: bool

record ('c, 'u) world =
  wd_clock :: SimulatedClock
  wd_sched :: "'c EventScheduler"
  wd_user :: 'u

abbreviation events :: "('c, 'u) world \<Rightarrow> 'c ScheduledEvent list" where "events w \<equiv> es_events (wd_sched w)"
abbreviation now :: "('c, 'u) world \<Rightarrow> int64" where "now w \<equiv> clk_current (wd_clock w)"

definition set_events :: "'c ScheduledEvent list \<Rightarrow> ('c, 'u) world \<Rightarrow> ('c, 'u) world" where
  "set_events xs w = w\<lparr>wd_sched := (wd_sched w)\<lparr>es_events := xs\<rparr>\<rparr>"

definition NewSimulatedClock :: "int64 \<Rightarrow> SimulatedClock" where
  "NewSimulatedClock start = \<lparr>clk_current = start, clk_goal = start, clk_scheduler = False\<rparr>"

definition NewEventScheduler :: "bool \<Rightarrow> 'c EventScheduler" where
  "NewEventScheduler clock = \<lparr>es_clock = clock, es_events = [], nextID = 0, cancelled = {}\<rparr>"

definition NowUnix :: "SimulatedClock \<Rightarrow> int64" where
  "NowUnix c = sgn (clk_current c) * (\<bar>clk_current c\<bar> div 1000000000)"

definition SetTime :: "int64 \<Rightarrow> ('c, 'u) world \<Rightarrow> ('c, 'u) world" where
  "SetTime t w = w\<lparr>wd_clock := (wd_clock w)\<lparr>clk_current := t\<rparr>\<rparr>"

definition SetScheduler :: "bool \<Rightarrow> ('c, 'u) world \<Rightarrow> ('c, 'u) world" where
  "SetScheduler s w = w\<lparr>wd_clock := (wd_clock w)\<lparr>clk_scheduler := s\<rparr>\<rparr>"

section \<open>Scheduling\<close>

definition Less :: "'c ScheduledEvent \<Rightarrow> 'c ScheduledEvent \<Rightarrow> bool" where
  "Less a b = (if ev_Time a \<noteq> ev_Time b then ev_Time a < ev_Time b else ev_id a < ev_id b)"

definition push_event :: "(uint64 \<Rightarrow> 'c ScheduledEvent) \<Rightarrow> ('c, 'u) world \<Rightarrow> uint64 \<times> ('c, 'u) world" where
  "push_event mk w =
     (let i = u64 (nextID (wd_sched w) + 1)
      in (i, w\<lparr>wd_sched := (wd_sched w)\<lparr>nextID := i, es_events := heap_Push Less (events w) (mk i)\<rparr>\<rparr>))"

definition Schedule :: "int64 \<Rightarrow> 'c \<Rightarrow> ('c, 'u) world \<Rightarrow> uint64 \<times> ('c, 'u) world" where
  "Schedule atTime callback w =
     push_event (\<lambda>i. \<lparr>ev_Time = atTime, Callback = callback, Repeating = False, Interval = 0, ev_id = i\<rparr>) w"

definition ScheduleRepeating :: "int64 \<Rightarrow> 'c \<Rightarrow> ('c, 'u) world \<Rightarrow> sim_error + uint64 \<times> ('c, 'u) world" where
  "ScheduleRepeating interval callback w =
     (let d = (if interval < 1 then 1 else interval)
      in if \<not> es_clock (wd_sched w) then Inl NilClock
         else Inr (push_event (\<lambda>i. \<lparr>ev_Time = i64 (now w + d), Callback = callback, Repeating = True, Interval = d, ev_id = i\<rparr>) w))"

definition ScheduleRepeatingWithOffset :: "int64 \<Rightarrow> int64 \<Rightarrow> 'c \<Rightarrow> ('c, 'u) world \<Rightarrow> sim_error + uint64 \<times> ('c, 'u) world" where
  "ScheduleRepeatingWithOffset interval offset callback w =
     (let d = (if interval < 1 then 1 else interval)
      in if offset < 0 \<or> offset \<ge> d then Inl BadOffset
         else if \<not> es_clock (wd_sched w) then Inl NilClock
         else Inr (push_event (\<lambda>i. \<lparr>ev_Time = i64 (i64 (now w + d) + offset), Callback = callback, Repeating = True, Interval = d, ev_id = i\<rparr>) w))"

fun find_event :: "uint64 \<Rightarrow> 'c ScheduledEvent list \<Rightarrow> nat option" where
  "find_event i [] = None"
| "find_event i (e # es) = (if ev_id e = i then Some 0 else map_option Suc (find_event i es))"

definition Cancel :: "uint64 \<Rightarrow> ('c, 'u) world \<Rightarrow> ('c, 'u) world" where
  "Cancel i w =
     (case find_event i (events w) of
        Some k \<Rightarrow> set_events (snd (heap_Remove Less (events w) k)) w
      | None \<Rightarrow> w\<lparr>wd_sched := (wd_sched w)\<lparr>cancelled := insert i (cancelled (wd_sched w))\<rparr>\<rparr>)"

section \<open>Firing\<close>

definition advance_to :: "'c ScheduledEvent \<Rightarrow> ('c, 'u) world \<Rightarrow> ('c, 'u) world" where
  "advance_to e w = (if es_clock (wd_sched w) \<and> ev_Time e > now w then SetTime (ev_Time e) w else w)"

definition reschedule :: "'c ScheduledEvent \<Rightarrow> ('c, 'u) world \<Rightarrow> ('c, 'u) world" where
  "reschedule e w =
     (let s = wd_sched w
      in if ev_id e \<in> cancelled s then w\<lparr>wd_sched := s\<lparr>cancelled := cancelled s - {ev_id e}\<rparr>\<rparr>
         else if Repeating e then set_events (heap_Push Less (es_events s) (e\<lparr>ev_Time := i64 (ev_Time e + Interval e)\<rparr>)) w
         else w)"

type_synonym ('c, 'u) drain = "int64 \<Rightarrow> ('c, 'u) world \<Rightarrow> sim_error option \<times> ('c, 'u) world"

definition drainIntermediateBatch :: "('c, 'u) drain \<Rightarrow> int64 \<Rightarrow> nat \<Rightarrow> ('c, 'u) world \<Rightarrow> sim_error option \<times> nat \<times> ('c, 'u) world" where
  "drainIntermediateBatch drain at rounds w =
     (if now w \<noteq> at then (Some ClockChanged, rounds, w)
      else case drain at w of
        (Some e, w1) \<Rightarrow> (Some e, rounds, w1)
      | (None, w1) \<Rightarrow>
          if now w1 \<noteq> at then (Some PhaseMovedClock, rounds, w1)
          else if Suc rounds > 100000 then (Some TooManyRounds, Suc rounds, w1)
          else (None, Suc rounds, w1))"

text \<open>One turn of the loop. The state is the time of the open batch, the number of drains and the world; the
  first result is the error the loop returns with, if it returns.\<close>

type_synonym ('c, 'u) loop_state = "int64 option \<times> nat \<times> ('c, 'u) world"

definition drain_turn :: "('c, 'u) drain \<Rightarrow> int64 \<Rightarrow> nat \<Rightarrow> ('c, 'u) world \<Rightarrow> sim_error option option \<times> ('c, 'u) loop_state" where
  "drain_turn drain at rounds w =
     (case drainIntermediateBatch drain at rounds w of
        (Some e, n, w1) \<Rightarrow> (Some (Some e), Some at, n, w1)
      | (None, n, w1) \<Rightarrow> (None, None, n, w1))"

definition fire_turn ::
  "('c \<Rightarrow> ('c, 'u) world \<Rightarrow> ('c, 'u) world) \<Rightarrow> bool \<Rightarrow> int64 option \<Rightarrow> nat \<Rightarrow> ('c, 'u) world \<Rightarrow> sim_error option option \<times> ('c, 'u) loop_state" where
  "fire_turn run draining batch rounds w =
     (case heap_Pop Less (events w) of
        (e, rest) \<Rightarrow>
          let w1 = advance_to e (set_events rest w)
          in if draining \<and> \<not> es_clock (wd_sched w1) then (Some (Some NilClock), batch, rounds, w1)
             else let batch1 = (if draining then Some (now w1) else batch); w2 = run (Callback e) w1
                  in if draining \<and> now w2 \<noteq> now w1 then (Some (Some CallbackMovedClock), batch1, rounds, w2)
                     else (None, batch1, rounds, reschedule e w2))"

definition process_turn ::
  "('c \<Rightarrow> ('c, 'u) world \<Rightarrow> ('c, 'u) world) \<Rightarrow> ('c, 'u) drain option \<Rightarrow> int64 \<Rightarrow> ('c, 'u) loop_state \<Rightarrow>
   sim_error option option \<times> ('c, 'u) loop_state" where
  "process_turn run after until st =
     (case st of (batch, rounds, w) \<Rightarrow>
        if events w = [] \<or> ev_Time (hd (events w)) > until
        then (case (after, batch) of
                (Some drain, Some t) \<Rightarrow> if t < until then drain_turn drain t rounds w else (Some None, st)
              | _ \<Rightarrow> (Some None, st))
        else (case (after, batch) of
                (Some drain, Some t) \<Rightarrow>
                  let head = ev_Time (hd (events w)); next = (if es_clock (wd_sched w) \<and> head < now w then now w else head)
                  in if next > t \<and> t < until then drain_turn drain t rounds w else fire_turn run True batch rounds w
              | _ \<Rightarrow> fire_turn run (after \<noteq> None) batch rounds w))"

partial_function (option) process_loop ::
  "('c \<Rightarrow> ('c, 'u) world \<Rightarrow> ('c, 'u) world) \<Rightarrow> ('c, 'u) drain option \<Rightarrow> int64 \<Rightarrow> ('c, 'u) loop_state \<Rightarrow> (sim_error option \<times> ('c, 'u) world) option" where
  "process_loop run after until st =
     (case process_turn run after until st of
        (Some e, _, _, w) \<Rightarrow> Some (e, w)
      | (None, st') \<Rightarrow> process_loop run after until st')"

definition processUntil ::
  "('c \<Rightarrow> ('c, 'u) world \<Rightarrow> ('c, 'u) world) \<Rightarrow> ('c, 'u) drain option \<Rightarrow> int64 \<Rightarrow> ('c, 'u) world \<Rightarrow> (sim_error option \<times> ('c, 'u) world) option" where
  "processUntil run after until w = process_loop run after until (None, 0, w)"

definition ProcessUntil :: "('c \<Rightarrow> ('c, 'u) world \<Rightarrow> ('c, 'u) world) \<Rightarrow> int64 \<Rightarrow> ('c, 'u) world \<Rightarrow> ('c, 'u) world option" where
  "ProcessUntil run until w = map_option snd (processUntil run None until w)"

section \<open>Advancing the clock\<close>

definition rest_at :: "int64 \<Rightarrow> ('c, 'u) world \<Rightarrow> ('c, 'u) world" where
  "rest_at target w = (if now w < target then SetTime target w else w)"

definition set_goal :: "int64 \<Rightarrow> ('c, 'u) world \<Rightarrow> ('c, 'u) world" where
  "set_goal t w = w\<lparr>wd_clock := (wd_clock w)\<lparr>clk_goal := t\<rparr>\<rparr>"

definition Advance :: "('c \<Rightarrow> ('c, 'u) world \<Rightarrow> ('c, 'u) world) \<Rightarrow> int64 \<Rightarrow> ('c, 'u) world \<Rightarrow> ('c, 'u) world option" where
  "Advance run delta w =
     (let c = wd_clock w; base = (if clk_goal c < clk_current c then clk_current c else clk_goal c); target = i64 (base + delta);
          w1 = set_goal target w
      in if clk_scheduler c then map_option (rest_at target) (ProcessUntil run target w1) else Some (rest_at target w1))"

definition advanceWithIntermediateDrain ::
  "('c \<Rightarrow> ('c, 'u) world \<Rightarrow> ('c, 'u) world) \<Rightarrow> int64 \<Rightarrow> ('c, 'u) drain option \<Rightarrow> ('c, 'u) world \<Rightarrow> (sim_error option \<times> ('c, 'u) world) option" where
  "advanceWithIntermediateDrain run delta drain w =
     (if delta \<le> 0 \<or> drain = None then Some (Some NeedsStepAndDrain, w)
      else let c = wd_clock w; base = (if clk_goal c < clk_current c then clk_current c else clk_goal c)
        in if \<not> clk_scheduler c \<or> base > MaxInt64 - delta then Some (Some NeedsSchedulerAndTarget, w)
           else if clk_goal c > clk_current c then Some (Some OverlappingAdvance, w)
           else let target = i64 (base + delta)
                in map_option (\<lambda>(e, w1). case e of
                     Some err \<Rightarrow> (Some err, set_goal (now w1) w1)
                   | None \<Rightarrow> (None, rest_at target w1)) (processUntil run drain target (set_goal target w)))"

end
