(* ===== verification/Scheduler_Order.thy ===== *)
theory Scheduler_Order
  imports Scheduler
begin

text \<open>What simulated time guarantees: events fire in time order and in order of scheduling within a
  timestamp, the clock never runs backwards, a repeating event ticks at exactly its instants, a
  cancelled event never fires again, and the walk ends.

  Callbacks are arbitrary users of the scheduler's interface: between two turns of the loop they may
  schedule and cancel events and change everything else, and they leave the clock alone.\<close>

interpretation event_order: weak_order Less
  by unfold_locales (auto simp: Less_def split: if_splits)

section \<open>The queue as a set of events\<close>

lemma set_events_simps [simp]:
  "events (set_events xs w) = xs" "wd_clock (set_events xs w) = wd_clock w" "nextID (wd_sched (set_events xs w)) = nextID (wd_sched w)"
  "cancelled (wd_sched (set_events xs w)) = cancelled (wd_sched w)" "es_clock (wd_sched (set_events xs w)) = es_clock (wd_sched w)"
  "wd_user (set_events xs w) = wd_user w"
  by (simp_all add: set_events_def)

lemma find_event_Some: "find_event i xs = Some k \<Longrightarrow> k < length xs \<and> ev_id (xs ! k) = i"
  by (induction xs arbitrary: k) (auto split: if_splits)

lemma find_event_None: "find_event i xs = None \<longleftrightarrow> i \<notin> ev_id ` set xs"
  by (induction xs) auto

lemma distinct_map_mset: "mset xs = mset ys \<Longrightarrow> distinct (map f xs) = distinct (map f ys)"
  by (metis mset_map mset_eq_imp_distinct_iff)

lemma Cancel_events:
  assumes "heap_ok Less (events w)"
  shows "heap_ok Less (events (Cancel i w))" "mset (events (Cancel i w)) \<subseteq># mset (events w)"
    "distinct (map ev_id (events w)) \<Longrightarrow> i \<notin> ev_id ` set (events (Cancel i w))"
    "e \<in> set (events w) \<Longrightarrow> ev_id e \<noteq> i \<Longrightarrow> e \<in> set (events (Cancel i w))"
proof -
  consider "find_event i (events w) = None" "events (Cancel i w) = events w"
    | k where "k < length (events w)" "ev_id (events w ! k) = i" "heap_ok Less (events (Cancel i w))"
      "mset (events w) = add_mset (events w ! k) (mset (events (Cancel i w)))"
  proof (cases "find_event i (events w)")
    case (Some k)
    obtain e ys where r: "heap_Remove Less (events w) k = (e, ys)" by (rule prod.exhaust)
    have k: "k < length (events w)" "ev_id (events w ! k) = i" using find_event_Some [OF Some] by simp_all
    have "events (Cancel i w) = ys" using Some r by (simp add: Cancel_def)
    with that(2) [OF k] event_order.Remove_heap [OF assms k(1) r] show thesis by simp
  qed (use that(1) in \<open>simp add: Cancel_def\<close>)
  note c = this
  show "heap_ok Less (events (Cancel i w))" using c assms by cases simp_all
  show "mset (events (Cancel i w)) \<subseteq># mset (events w)" using c by cases simp_all
  show "e \<in> set (events (Cancel i w))" if "e \<in> set (events w)" "ev_id e \<noteq> i"
    using c
  proof cases
    case (2 k)
    then have "e \<noteq> events w ! k" using that(2) by auto
    moreover have "e \<in># add_mset (events w ! k) (mset (events (Cancel i w)))" using that(1) unfolding 2(4) [symmetric] by simp
    ultimately show ?thesis by simp
  qed (use that in simp)
  show "i \<notin> ev_id ` set (events (Cancel i w))" if d: "distinct (map ev_id (events w))" using c
  proof cases
    case 1
    then show ?thesis by (simp add: find_event_None)
  next
    case (2 k)
    have "distinct (map ev_id (events w ! k # events (Cancel i w)))" 
      using d 2(4) distinct_map_mset [of "events w" "events w ! k # events (Cancel i w)" ev_id] by simp
    with 2(2) show ?thesis by simp
  qed
qed

lemma push_event_simps:
  assumes "heap_ok Less (events w)" "push_event mk w = (i, w')"
  shows "i = u64 (nextID (wd_sched w) + 1)" "heap_ok Less (events w')" "mset (events w') = add_mset (mk i) (mset (events w))" "wd_clock w' = wd_clock w"
    "nextID (wd_sched w') = i" "es_clock (wd_sched w') = es_clock (wd_sched w)" "cancelled (wd_sched w') = cancelled (wd_sched w)"
  using assms event_order.Push_heap [OF assms(1)] by (auto simp: push_event_def Let_def)

section \<open>Calls\<close>

text \<open>What a callback may do: \<open>n\<close> events are scheduled that satisfy \<open>ok\<close> at the current time, events are
  cancelled unless they are in \<open>keep\<close>, and the rest of the world changes freely.\<close>

inductive calls :: "(int64 \<Rightarrow> 'c ScheduledEvent \<Rightarrow> bool) \<Rightarrow> uint64 set \<Rightarrow> ('c, 'u) world \<Rightarrow> nat \<Rightarrow> ('c, 'u) world \<Rightarrow> bool" for ok keep w where
  Nothing: "calls ok keep w 0 w"
| Other: "calls ok keep w n w' \<Longrightarrow> calls ok keep w n (w'\<lparr>wd_user := u\<rparr>)"
| Scheduled: "calls ok keep w n w' \<Longrightarrow> (\<And>i. ev_id (mk i) = i \<and> ok (now w') (mk i)) \<Longrightarrow> push_event mk w' = (i, w'') \<Longrightarrow> calls ok keep w (Suc n) w''"
| Cancelled: "calls ok keep w n w' \<Longrightarrow> i \<notin> keep \<Longrightarrow> calls ok keep w n (Cancel i w')"

lemma Schedule_calls:
  assumes "calls ok keep w n w'" "\<And>i. ok (now w') \<lparr>ev_Time = t, Callback = c, Repeating = False, Interval = 0, ev_id = i\<rparr>"
  shows "calls ok keep w (Suc n) (snd (Schedule t c w'))"
  using assms by (intro Scheduled [where i = "fst (Schedule t c w')"]) (auto simp: Schedule_def)

lemma ScheduleRepeating_calls:
  assumes "calls ok keep w n w'" "ScheduleRepeating d c w' = Inr (i, w'')"
    "\<And>i. ok (now w') \<lparr>ev_Time = i64 (now w' + max 1 d), Callback = c, Repeating = True, Interval = max 1 d, ev_id = i\<rparr>"
  shows "calls ok keep w (Suc n) w''"
proof -
  have "(if d < 1 then 1 else d) = max 1 d" by auto
  then have "push_event (\<lambda>i. \<lparr>ev_Time = i64 (now w' + max 1 d), Callback = c, Repeating = True, Interval = max 1 d, ev_id = i\<rparr>) w' = (i, w'')"
    using assms(2) by (auto simp: ScheduleRepeating_def Let_def split: if_splits)
  with assms(3) show ?thesis by (intro Scheduled [OF assms(1), where i = i]) auto
qed

lemma Cancel_simps [simp]:
  "wd_clock (Cancel i w) = wd_clock w" "nextID (wd_sched (Cancel i w)) = nextID (wd_sched w)" "es_clock (wd_sched (Cancel i w)) = es_clock (wd_sched w)"
  by (simp_all add: Cancel_def split: option.splits)

lemma calls_frame:
  assumes "calls ok keep w n w'" "heap_ok Less (events w)"
  shows "heap_ok Less (events w') \<and> wd_clock w' = wd_clock w \<and> es_clock (wd_sched w') = es_clock (wd_sched w)"
  using assms
proof (induction rule: calls.induct)
  case (Scheduled n w' mk i w'')
  then show ?case using push_event_simps [of w' mk i w''] by simp
next
  case (Cancelled n w' i)
  then show ?case using Cancel_events(1) [of w' i] by simp
qed simp_all

lemma calls_ids:
  assumes "calls ok keep w n w'" "heap_ok Less (events w)" "0 \<le> nextID (wd_sched w)" "nextID (wd_sched w) + int n < 18446744073709551616"
  shows "nextID (wd_sched w') = nextID (wd_sched w) + int n"
  using assms
proof (induction rule: calls.induct)
  case (Scheduled n w' mk i w'')
  then have "nextID (wd_sched w') = nextID (wd_sched w) + int n" "heap_ok Less (events w')" using calls_frame [OF Scheduled.hyps(1)] by simp_all
  with push_event_simps(1,5) [of w' mk i w''] Scheduled show ?case by (simp add: u64_id is_u64_def)
qed simp_all

lemma calls_old_or_new:
  assumes "calls ok keep w n w'" "heap_ok Less (events w)" "0 \<le> nextID (wd_sched w)" "nextID (wd_sched w) + int n < 18446744073709551616"
    "e \<in> set (events w')"
  shows "e \<in> set (events w) \<or> ok (now w) e \<and> nextID (wd_sched w) < ev_id e"
  using assms
proof (induction arbitrary: e rule: calls.induct)
  case (Scheduled n w' mk i w'')
  have n: "nextID (wd_sched w) + int n < 18446744073709551616" using Scheduled.prems(3) by simp
  note f = calls_frame [OF Scheduled.hyps(1) Scheduled.prems(1)] and nx = calls_ids [OF Scheduled.hyps(1) Scheduled.prems(1,2) n]
  note p = push_event_simps [OF _ Scheduled.hyps(3)]
  have "e \<in># add_mset (mk i) (mset (events w'))" using p(3) f Scheduled.prems(4) by (metis set_mset_mset)
  then consider "e = mk i" | "e \<in> set (events w')" by auto
  then show ?case
  proof cases
    case 1
    moreover have "i = nextID (wd_sched w) + int n + 1" using p(1) f nx Scheduled.prems(2,3) by (simp add: u64_id is_u64_def)
    ultimately show ?thesis using Scheduled.hyps(2) [of i] f by simp
  next
    case 2
    with Scheduled.IH [OF Scheduled.prems(1,2) n] show ?thesis by simp
  qed
next
  case (Cancelled n w' i)
  have "mset (events (Cancel i w')) \<subseteq># mset (events w')" using calls_frame [OF Cancelled.hyps(1) Cancelled.prems(1)] Cancel_events(2) by blast
  with Cancelled show ?case by (meson mset_subset_eqD set_mset_mset in_multiset_in_set)
qed simp_all

definition ready :: "('c, 'u) world \<Rightarrow> bool" where
  "ready w \<longleftrightarrow> heap_ok Less (events w) \<and> es_clock (wd_sched w) \<and> 0 \<le> nextID (wd_sched w) \<and> distinct (map ev_id (events w)) \<and>
     (\<forall>e\<in>set (events w). ev_id e \<le> nextID (wd_sched w))"

lemma push_ready:
  assumes "ready w" "push_event mk w = (i, w')" "\<And>i. ev_id (mk i) = i" "nextID (wd_sched w) + 1 < 18446744073709551616"
  shows "ready w'"
proof -
  have h: "heap_ok Less (events w)" using assms(1) by (simp add: ready_def)
  note p = push_event_simps [OF h assms(2)]
  have i: "i = nextID (wd_sched w) + 1" using p(1) assms(1,4) by (simp add: u64_id is_u64_def ready_def)
  have "distinct (map ev_id (events w'))"
    using distinct_map_mset [of "events w'" "mk i # events w" ev_id] p(3) assms(1,3) i by (force simp: ready_def)
  moreover have "set (events w') = insert (mk i) (set (events w))" using p(3) by (metis set_mset_add_mset_insert set_mset_mset)
  ultimately show ?thesis using assms(1,3) p i by (force simp: ready_def)
qed

lemma subset_distinct: "mset xs \<subseteq># mset ys \<Longrightarrow> distinct (map f ys) \<Longrightarrow> distinct (map f xs)"
proof -
  assume "mset xs \<subseteq># mset ys" "distinct (map f ys)"
  then obtain zs where "mset ys = mset (xs @ zs)" by (metis mset_subset_eq_exists_conv mset_append ex_mset)
  with \<open>distinct (map f ys)\<close> show "distinct (map f xs)" using distinct_map_mset [of ys "xs @ zs" f] by simp
qed

lemma Cancel_ready:
  assumes "ready w"
  shows "ready (Cancel i w)"
proof -
  have h: "heap_ok Less (events w)" using assms by (simp add: ready_def)
  note c = Cancel_events(1,2) [OF h, of i]
  have "set (events (Cancel i w)) \<subseteq> set (events w)" using c(2) by (metis set_mset_mono set_mset_mset)
  then show ?thesis using assms c subset_distinct [OF c(2)] by (auto simp: ready_def)
qed

lemma calls_ready:
  assumes "calls ok keep w n w'" "ready w" "nextID (wd_sched w) + int n < 18446744073709551616"
  shows "ready w'"
  using assms
proof (induction rule: calls.induct)
  case (Other n w' u)
  then show ?case by (simp add: ready_def)
next
  case (Scheduled n w' mk i w'')
  have "nextID (wd_sched w') = nextID (wd_sched w) + int n" using calls_ids [OF Scheduled.hyps(1)] Scheduled.prems by (simp add: ready_def)
  with Scheduled push_ready [OF _ Scheduled.hyps(3)] show ?case by simp
next
  case (Cancelled n w' i)
  then show ?case using Cancel_ready by simp
qed

definition obeys :: "(int64 \<Rightarrow> 'c ScheduledEvent \<Rightarrow> bool) \<Rightarrow> uint64 set \<Rightarrow> nat \<Rightarrow> ('c \<Rightarrow> ('c, 'u) world \<Rightarrow> ('c, 'u) world) \<Rightarrow> bool" where
  "obeys ok keep k run \<longleftrightarrow> (\<forall>c w. ready w \<longrightarrow> (\<exists>n\<le>k. calls ok keep w n (run c w)))"

section \<open>One firing\<close>

definition after_fire :: "('c \<Rightarrow> ('c, 'u) world \<Rightarrow> ('c, 'u) world) \<Rightarrow> 'c ScheduledEvent \<Rightarrow> ('c, 'u) world \<Rightarrow> ('c, 'u) world" where
  "after_fire run e w1 = reschedule e (run (Callback e) w1)"

definition again :: "'c ScheduledEvent \<Rightarrow> 'c ScheduledEvent" where
  "again e = e\<lparr>ev_Time := i64 (ev_Time e + Interval e)\<rparr>"

lemma again_simps [simp]: "ev_id (again e) = ev_id e" "Repeating (again e) = Repeating e" "Interval (again e) = Interval e" "ev_Time (again e) = i64 (ev_Time e + Interval e)"
  by (simp_all add: again_def)

lemma advance_to_simps [simp]:
  "wd_sched (advance_to e w) = wd_sched w" "es_clock (wd_sched w) \<Longrightarrow> now (advance_to e w) = max (now w) (ev_Time e)"
  by (auto simp: advance_to_def SetTime_def)

lemma reschedule_simps [simp]:
  "wd_clock (reschedule e w) = wd_clock w" "nextID (wd_sched (reschedule e w)) = nextID (wd_sched w)" "es_clock (wd_sched (reschedule e w)) = es_clock (wd_sched w)"
  by (simp_all add: reschedule_def Let_def)

lemma reschedule_events:
  assumes "heap_ok Less (events w)"
  shows "heap_ok Less (events (reschedule e w))"
    "mset (events (reschedule e w)) = (if ev_id e \<notin> cancelled (wd_sched w) \<and> Repeating e then add_mset (again e) (mset (events w)) else mset (events w))"
  using assms event_order.Push_heap [OF assms, of "again e"] by (simp_all add: reschedule_def again_def Let_def)

lemma firing:
  assumes rd: "ready w" and ne: "events w \<noteq> []" and pop: "heap_Pop Less (events w) = (e, rest)" and ob: "obeys ok keep k run"
    and room: "nextID (wd_sched w) + int k < 18446744073709551616" and w1: "w1 = advance_to e (set_events rest w)"
  obtains n where "n \<le> k" "calls ok keep w1 n (run (Callback e) w1)" "ready w1"
    "e = hd (events w)" "mset (events w) = add_mset e (mset rest)" "\<And>x. x \<in> set (events w) \<Longrightarrow> \<not> Less x e" "now w1 = max (now w) (ev_Time e)"
    "now (after_fire run e w1) = now w1" "ready (after_fire run e w1)" "nextID (wd_sched (after_fire run e w1)) = nextID (wd_sched w) + int n"
    "events w1 = rest" "ev_id e \<notin> ev_id ` set rest"
    "\<And>x. x \<in> set (events (after_fire run e w1)) \<Longrightarrow> x \<in> set rest \<or> ok (now w1) x \<and> nextID (wd_sched w) < ev_id x \<or> Repeating e \<and> x = again e"
proof -
  have h: "heap_ok Less (events w)" using rd by (simp add: ready_def)
  note p = event_order.Pop_heap [OF h ne pop]
  have sub: "mset rest \<subseteq># mset (events w)" using p(2) by simp
  have "set (events w) = insert e (set rest)" using p(2) by (metis set_mset_add_mset_insert set_mset_mset)
  then have r1: "ready w1" using rd p(3) subset_distinct [OF sub] by (auto simp: w1 ready_def)
  have id: "ev_id e \<notin> ev_id ` set rest" "ev_id e \<le> nextID (wd_sched w)"
    using rd distinct_map_mset [of "events w" "e # rest" ev_id] p(2) \<open>set (events w) = insert e (set rest)\<close> by (auto simp: ready_def)
  obtain n where n: "n \<le> k" "calls ok keep w1 n (run (Callback e) w1)" using ob r1 by (auto simp: obeys_def)
  let ?w2 = "run (Callback e) w1"
  have nx: "nextID (wd_sched w1) = nextID (wd_sched w)" "events w1 = rest" by (simp_all add: w1)
  have b: "nextID (wd_sched w1) + int n < 18446744073709551616" using room n(1) nx by simp
  have f: "heap_ok Less (events ?w2)" "wd_clock ?w2 = wd_clock w1" using calls_frame [OF n(2)] r1 by (simp_all add: ready_def)
  have r2: "ready ?w2" "nextID (wd_sched ?w2) = nextID (wd_sched w) + int n" using calls_ready [OF n(2) r1 b] calls_ids [OF n(2)] r1 b nx by (simp_all add: ready_def)
  have old: "x \<in> set rest \<or> ok (now w1) x \<and> nextID (wd_sched w) < ev_id x" if "x \<in> set (events ?w2)" for x
    using calls_old_or_new [OF n(2) _ _ b that] r1 nx by (auto simp: ready_def)
  let ?w3 = "after_fire run e w1"
  have e2: "ev_id e \<notin> ev_id ` set (events ?w2)" using old id by force
  have m3: "mset (events ?w3) = (if ev_id e \<notin> cancelled (wd_sched ?w2) \<and> Repeating e then add_mset (again e) (mset (events ?w2)) else mset (events ?w2))"
    using reschedule_events(2) [OF f(1)] by (simp add: after_fire_def)
  have set3: "set (events ?w3) \<subseteq> insert (again e) (set (events ?w2))" "x \<in> set (events ?w3) \<Longrightarrow> x \<in> set (events ?w2) \<or> Repeating e \<and> x = again e" for x
    using arg_cong [OF m3, of set_mset] by (auto split: if_splits)
  have "distinct (map ev_id (events ?w3))"
    using distinct_map_mset [of "events ?w3" "again e # events ?w2" ev_id] distinct_map_mset [of "events ?w3" "events ?w2" ev_id] m3 r2 e2
    by (auto simp: ready_def split: if_splits)
  then have r3: "ready ?w3" using r2 id set3(1) reschedule_events(1) [OF f(1), of e] by (auto simp: ready_def after_fire_def)
  have es: "es_clock (wd_sched w)" using rd by (simp add: ready_def)
  show thesis
  proof (rule that [OF n r1])
    show "e = hd (events w)" using p(1) ne by (simp add: hd_conv_nth)
    show "now w1 = max (now w) (ev_Time e)" using es by (simp add: w1)
    show "now ?w3 = now w1" using f(2) by (simp add: after_fire_def)
    show "nextID (wd_sched ?w3) = nextID (wd_sched w) + int n" using r2 by (simp add: after_fire_def)
    show "x \<in> set rest \<or> ok (now w1) x \<and> nextID (wd_sched w) < ev_id x \<or> Repeating e \<and> x = again e" if "x \<in> set (events ?w3)" for x
      using set3(2) [OF that] old by blast
  qed (use p id nx r3 in auto)
qed

section \<open>A run of the loop\<close>

text \<open>The loop as a relation that also says which event fired when.\<close>

inductive fires ::
  "('c \<Rightarrow> ('c, 'u) world \<Rightarrow> ('c, 'u) world) \<Rightarrow> int64 \<Rightarrow> ('c, 'u) world \<Rightarrow> ('c ScheduledEvent \<times> int64) list \<Rightarrow> ('c, 'u) world \<Rightarrow> bool" for run until where
  Quiet: "events w = [] \<or> ev_Time (hd (events w)) > until \<Longrightarrow> fires run until w [] w"
| Fire: "events w \<noteq> [] \<Longrightarrow> \<not> ev_Time (hd (events w)) > until \<Longrightarrow> heap_Pop Less (events w) = (e, rest) \<Longrightarrow>
    w1 = advance_to e (set_events rest w) \<Longrightarrow> fires run until (after_fire run e w1) tr w' \<Longrightarrow> fires run until w ((e, now w1) # tr) w'"

lemma process_turn_None:
  "process_turn run None until (b, n, w) =
     (if events w = [] \<or> ev_Time (hd (events w)) > until then (Some None, b, n, w)
      else case heap_Pop Less (events w) of (e, rest) \<Rightarrow> (None, b, n, after_fire run e (advance_to e (set_events rest w))))"
  by (simp add: process_turn_def fire_turn_def after_fire_def Let_def split: prod.splits)

lemma fires_loop: "fires run until w tr w' \<Longrightarrow> process_loop run None until (b, n, w) = Some (None, w')"
  by (induction rule: fires.induct) (subst process_loop.simps, simp add: process_turn_None)+

lemma loop_fires:
  assumes "process_loop run None until (b, n, w) = Some (x, w')"
  shows "\<exists>tr. fires run until w tr w'"
proof -
  have "after = None \<longrightarrow> (\<exists>tr. fires run until (snd (snd st)) tr (snd y))" if "process_loop run after until st = Some y" for run after until st y
  proof (rule process_loop.raw_induct [where P = "\<lambda>run after until st y. after = None \<longrightarrow> (\<exists>tr. fires run until (snd (snd st)) tr (snd y))", OF _ that], goal_cases)
    case (1 loop run after until st y)
    obtain b n w where st: "st = (b, n, w)" by (cases st)
    show ?case
    proof (cases "after = None \<and> \<not> (events w = [] \<or> ev_Time (hd (events w)) > until)")
      case True
      obtain e rest where p: "heap_Pop Less (events w) = (e, rest)" by (rule prod.exhaust)
      let ?w1 = "advance_to e (set_events rest w)"
      have "loop run None until (b, n, after_fire run e ?w1) = Some y"
        using 1(2) True p by (simp add: st process_turn_None)
      from 1(1) [OF this] obtain tr where "fires run until (after_fire run e ?w1) tr (snd y)" by auto
      from Fire [OF _ _ p refl this] True show ?thesis by (auto simp: st)
    next
      case False
      then show ?thesis using 1(2) by (auto simp: st process_turn_None intro!: exI [of _ "[]"] Quiet)
    qed
  qed
  from this [OF assms] show ?thesis by simp
qed

lemma ProcessUntil_fires: "ProcessUntil run until w = Some w' \<longleftrightarrow> (\<exists>tr. fires run until w tr w')"
  using fires_loop [of run until w _ w' None 0] loop_fires [of run until None 0 w _ w']
  by (auto simp: ProcessUntil_def processUntil_def)

definition drained :: "int64 \<Rightarrow> ('c, 'u) world \<Rightarrow> bool" where
  "drained until w \<longleftrightarrow> (\<forall>e\<in>set (events w). until < ev_Time e)"

lemma drainedI: "heap_ok Less (events w) \<Longrightarrow> events w = [] \<or> ev_Time (hd (events w)) > until \<Longrightarrow> drained until w"
proof -
  assume h: "heap_ok Less (events w)" "events w = [] \<or> ev_Time (hd (events w)) > until"
  have "until < ev_Time x" if x: "x \<in> set (events w)" for x
  proof -
    obtain k where k: "k < length (events w)" "events w ! k = x" using x by (auto simp: in_set_conv_nth)
    then have "\<not> Less x (hd (events w))"
      using event_order.heap_root [of "events w" "length (events w)" k] h(1) hd_conv_nth [of "events w"] by (cases "events w = []") (auto simp: heap_ok_def)
    then show ?thesis using h(2) x by (auto simp: Less_def split: if_splits)
  qed
  then show ?thesis by (simp add: drained_def)
qed

text \<open>There are identifiers left for the trace, if each callback schedules at most \<open>k\<close> events.\<close>

definition room :: "nat \<Rightarrow> ('c, 'u) world \<Rightarrow> 'a list \<Rightarrow> bool" where
  "room k w tr \<longleftrightarrow> nextID (wd_sched w) + int k * int (length tr) < 18446744073709551616"

lemma room_Cons:
  assumes "room k w (x # tr)"
  shows "nextID (wd_sched w) + int k < 18446744073709551616" "n \<le> k \<Longrightarrow> nextID (wd_sched w') = nextID (wd_sched w) + int n \<Longrightarrow> room k w' tr"
proof -
  have "0 \<le> int k * int (length tr)" by simp
  moreover have "nextID (wd_sched w) + int k + int k * int (length tr) < 18446744073709551616" using assms by (simp add: room_def algebra_simps)
  ultimately show "nextID (wd_sched w) + int k < 18446744073709551616" "n \<le> k \<Longrightarrow> nextID (wd_sched w') = nextID (wd_sched w) + int n \<Longrightarrow> room k w' tr"
    unfolding room_def by linarith+
qed

lemma fires_clock:
  assumes "fires run until w tr w'" "ready w" "obeys ok keep k run" "room k w tr"
  shows "ready w' \<and> drained until w' \<and> sorted (now w # map snd tr) \<and> now w' = last (now w # map snd tr) \<and>
    (\<forall>(e, t)\<in>set tr. ev_Time e \<le> t \<and> ev_Time e \<le> until \<and> t \<le> max (now w) until)"
  using assms
proof (induction rule: fires.induct)
  case (Quiet w)
  then show ?case using drainedI [of w] by (auto simp: ready_def)
next
  case (Fire w e rest w1 tr w')
  obtain n where n: "n \<le> k" "e = hd (events w)" "now w1 = max (now w) (ev_Time e)" "now (after_fire run e w1) = now w1" "ready (after_fire run e w1)"
    "nextID (wd_sched (after_fire run e w1)) = nextID (wd_sched w) + int n"
    using firing [OF Fire.prems(1) Fire.hyps(1,3) Fire.prems(2) room_Cons(1) [OF Fire.prems(3)] Fire.hyps(4)] by metis
  from Fire.IH [OF n(5) Fire.prems(2) room_Cons(2) [OF Fire.prems(3) n(1,6)]] n(2-4) Fire.hyps(2) show ?case by auto
qed

section \<open>Order\<close>

text \<open>An event that is timely at \<open>t\<close> is not in the past and cannot overflow the clock while it repeats up to
  \<open>until\<close>.\<close>

definition timely :: "int64 \<Rightarrow> int64 \<Rightarrow> 'c ScheduledEvent \<Rightarrow> bool" where
  "timely until t e \<longleftrightarrow> t \<le> ev_Time e \<and> is_i64 (ev_Time e) \<and> (Repeating e \<longrightarrow> 1 \<le> Interval e \<and> until + Interval e \<le> MaxInt64)"

lemma again_timely:
  assumes "timely until t e" "ev_Time e \<le> until" "Repeating e"
  shows "ev_Time (again e) = ev_Time e + Interval e" "timely until (ev_Time e) (again e)" "\<not> Less (again e) e"
proof -
  have "is_i64 (ev_Time e + Interval e)" using assms by (auto simp: timely_def is_i64_def)
  then have t: "i64 (ev_Time e + Interval e) = ev_Time e + Interval e" by (rule i64_id)
  then show "ev_Time (again e) = ev_Time e + Interval e" by simp
  show "timely until (ev_Time e) (again e)" using t assms \<open>is_i64 (ev_Time e + Interval e)\<close> by (simp add: timely_def)
  show "\<not> Less (again e) e" using t assms by (simp add: Less_def timely_def)
qed

lemma Less_time: "\<not> Less x e \<Longrightarrow> ev_Time e \<le> ev_Time x"
  by (auto simp: Less_def split: if_splits)

lemma timely_above: "timely until t x \<Longrightarrow> ev_Time b \<le> t \<Longrightarrow> ev_id b < ev_id x \<Longrightarrow> \<not> Less x b"
  by (auto simp: timely_def Less_def)

text \<open>Firing in a timely world: the clock stands at the event's own time and the world stays timely.\<close>

lemma timely_firing:
  assumes rd: "ready w" and ne: "events w \<noteq> []" "\<not> ev_Time (hd (events w)) > until" and pop: "heap_Pop Less (events w) = (e, rest)"
    and ob: "obeys (timely until) keep k run" and rm: "nextID (wd_sched w) + int k < 18446744073709551616"
    and w1: "w1 = advance_to e (set_events rest w)" and t: "\<forall>x\<in>set (events w). timely until (now w) x"
  shows "now w1 = ev_Time e" "\<forall>x\<in>set (events (after_fire run e w1)). timely until (now (after_fire run e w1)) x"
    "\<And>b. \<forall>x\<in>set (events w). \<not> Less x b \<Longrightarrow> ev_Time b \<le> now w \<Longrightarrow> ev_id b \<le> nextID (wd_sched w) \<Longrightarrow>
      \<forall>x\<in>set (events (after_fire run e w1)). \<not> Less x b"
    "\<forall>x\<in>set (events (after_fire run e w1)). \<not> Less x e"
proof -
  obtain n where n: "n \<le> k" "e = hd (events w)" "mset (events w) = add_mset e (mset rest)" "\<And>x. x \<in> set (events w) \<Longrightarrow> \<not> Less x e"
    "now w1 = max (now w) (ev_Time e)" "now (after_fire run e w1) = now w1"
    "\<And>x. x \<in> set (events (after_fire run e w1)) \<Longrightarrow> x \<in> set rest \<or> timely until (now w1) x \<and> nextID (wd_sched w) < ev_id x \<or> Repeating e \<and> x = again e"
    using firing [OF rd ne(1) pop ob rm w1] by metis
  have ev: "set (events w) = insert e (set rest)" using n(3) by (metis set_mset_add_mset_insert set_mset_mset)
  have te: "timely until (now w) e" "ev_Time e \<le> until" "ev_id e \<le> nextID (wd_sched w)" using t ev n(2) ne(2) rd by (auto simp: ready_def)
  show w1t: "now w1 = ev_Time e" using n(5) te(1) by (simp add: timely_def)
  note ag = again_timely [OF te(1,2)]
  have rest: "timely until (ev_Time e) x" "\<not> Less x e" if "x \<in> set rest" for x
    using that t ev n(4) [of x] Less_time [of x e] by (auto simp: timely_def)
  show "\<forall>x\<in>set (events (after_fire run e w1)). timely until (now (after_fire run e w1)) x"
    using n(6,7) w1t rest(1) ag(2) by auto
  show "\<forall>x\<in>set (events (after_fire run e w1)). \<not> Less x e"
    using n(7) w1t rest(2) ag(3) te(3) timely_above [of until "ev_Time e" _ e] by fastforce
  fix b assume b: "\<forall>x\<in>set (events w). \<not> Less x b" "ev_Time b \<le> now w" "ev_id b \<le> nextID (wd_sched w)"
  have "\<not> Less (again e) b" if "Repeating e"
    using ag(3) [OF that] b(1) ev event_order.lt_chain [of "again e" e b] by simp
  moreover have "\<not> Less x b" if "timely until (now w1) x" "nextID (wd_sched w) < ev_id x" for x
    using that b w1t te(1) by (intro timely_above [of until "now w1"]) (auto simp: timely_def)
  ultimately show "\<forall>x\<in>set (events (after_fire run e w1)). \<not> Less x b" using n(7) b(1) ev by auto
qed

lemma fires_above:
  assumes "fires run until w tr w'" "ready w" "obeys (timely until) keep k run" "room k w tr" "\<forall>x\<in>set (events w). timely until (now w) x"
    and "\<forall>x\<in>set (events w). \<not> Less x b" "ev_Time b \<le> now w" "ev_id b \<le> nextID (wd_sched w)"
  shows "\<forall>(e, t)\<in>set tr. \<not> Less e b"
  using assms
proof (induction rule: fires.induct)
  case (Fire w e rest w1 tr w')
  note rm = room_Cons [OF Fire.prems(3)]
  obtain n where n: "n \<le> k" "now (after_fire run e w1) = now w1" "ready (after_fire run e w1)" "mset (events w) = add_mset e (mset rest)"
    "nextID (wd_sched (after_fire run e w1)) = nextID (wd_sched w) + int n"
    using firing [OF Fire.prems(1) Fire.hyps(1,3) Fire.prems(2) rm(1) Fire.hyps(4)] by metis
  note tf = timely_firing [OF Fire.prems(1) Fire.hyps(1,2,3) Fire.prems(2) rm(1) Fire.hyps(4) Fire.prems(4)]
  have e: "e \<in> set (events w)" using n(4) by (metis union_single_eq_member set_mset_mset)
  have "now w \<le> now w1" using Fire.prems(4) e tf(1) by (auto simp: timely_def)
  then have "\<forall>(e, t)\<in>set tr. \<not> Less e b"
    using n tf(2) tf(3) [OF Fire.prems(5-7)] Fire.prems(2,6,7) by (intro Fire.IH rm(2)) auto
  with Fire.prems(5) e show ?case by auto
qed simp

lemma fires_sorted:
  assumes "fires run until w tr w'" "ready w" "obeys (timely until) keep k run" "room k w tr" "\<forall>x\<in>set (events w). timely until (now w) x"
  shows "sorted_wrt (\<lambda>(a, _) (b, _). \<not> Less b a) tr \<and> (\<forall>(e, t)\<in>set tr. t = ev_Time e)"
  using assms
proof (induction rule: fires.induct)
  case (Fire w e rest w1 tr w')
  note rm = room_Cons [OF Fire.prems(3)]
  obtain n where n: "n \<le> k" "now (after_fire run e w1) = now w1" "ready (after_fire run e w1)" "mset (events w) = add_mset e (mset rest)"
    "nextID (wd_sched (after_fire run e w1)) = nextID (wd_sched w) + int n"
    using firing [OF Fire.prems(1) Fire.hyps(1,3) Fire.prems(2) rm(1) Fire.hyps(4)] by metis
  note tf = timely_firing [OF Fire.prems(1) Fire.hyps(1,2,3) Fire.prems(2) rm(1) Fire.hyps(4) Fire.prems(4)]
  have "ev_id e \<le> nextID (wd_sched w)" using n(4) Fire.prems(1) by (metis ready_def union_single_eq_member set_mset_mset)
  then have "\<forall>(x, t)\<in>set tr. \<not> Less x e"
    using n tf by (intro fires_above [OF Fire.hyps(5) n(3) Fire.prems(2) rm(2) tf(2,4)]) auto
  with Fire.IH [OF n(3) Fire.prems(2) rm(2) [OF n(1,5)] tf(2)] tf(1) show ?case by auto
qed simp

section \<open>Ticks of a repeating event\<close>

function ticks :: "int64 \<Rightarrow> int64 \<Rightarrow> int64 \<Rightarrow> int64 list" where
  "ticks t d until = (if d < 1 \<or> until < t then [] else t # ticks (t + d) d until)"
  by pat_completeness auto
termination by (relation "measure (\<lambda>(t, d, until). nat (until + 1 - t))") auto

declare ticks.simps [simp del]

lemma calls_spares:
  assumes "calls ok keep w n w'" "heap_ok Less (events w)" "ev_id e \<in> keep"
  shows "e \<in> set (events w) \<Longrightarrow> e \<in> set (events w')" "ev_id e \<notin> cancelled (wd_sched w) \<Longrightarrow> ev_id e \<notin> cancelled (wd_sched w')"
proof -
  have "(e \<in> set (events w) \<longrightarrow> e \<in> set (events w')) \<and> (ev_id e \<notin> cancelled (wd_sched w) \<longrightarrow> ev_id e \<notin> cancelled (wd_sched w'))"
    using assms(1)
  proof (induction rule: calls.induct)
    case (Scheduled n w' mk i w'')
    have h: "heap_ok Less (events w')" using calls_frame [OF Scheduled.hyps(1) assms(2)] by simp
    have "set (events w'') = insert (mk i) (set (events w'))"
      using push_event_simps(3) [OF h Scheduled.hyps(3)] by (metis set_mset_add_mset_insert set_mset_mset)
    then show ?case using Scheduled.IH push_event_simps(7) [OF h Scheduled.hyps(3)] by auto
  next
    case (Cancelled n w' i)
    have h: "heap_ok Less (events w')" using calls_frame [OF Cancelled.hyps(1) assms(2)] by simp
    have "ev_id e \<noteq> i" using Cancelled.hyps(2) assms(3) by auto
    then show ?case using Cancelled.IH Cancel_events(4) [OF h, of e i] by (auto simp: Cancel_def split: option.splits)
  qed simp_all
  then show "e \<in> set (events w) \<Longrightarrow> e \<in> set (events w')" "ev_id e \<notin> cancelled (wd_sched w) \<Longrightarrow> ev_id e \<notin> cancelled (wd_sched w')" by auto
qed

lemma reschedule_keeps:
  assumes "heap_ok Less (events w)"
  shows "x \<in> set (events w) \<Longrightarrow> x \<in> set (events (reschedule e w))"
    "Repeating e \<Longrightarrow> ev_id e \<notin> cancelled (wd_sched w) \<Longrightarrow> again e \<in> set (events (reschedule e w))"
    "cancelled (wd_sched (reschedule e w)) \<subseteq> cancelled (wd_sched w)"
proof -
  have s: "set (events (reschedule e w)) = (if ev_id e \<notin> cancelled (wd_sched w) \<and> Repeating e then insert (again e) (set (events w)) else set (events w))"
    using arg_cong [OF reschedule_events(2) [OF assms, of e], of set_mset] by (auto split: if_splits)
  then show "x \<in> set (events w) \<Longrightarrow> x \<in> set (events (reschedule e w))"
    "Repeating e \<Longrightarrow> ev_id e \<notin> cancelled (wd_sched w) \<Longrightarrow> again e \<in> set (events (reschedule e w))" by auto
  show "cancelled (wd_sched (reschedule e w)) \<subseteq> cancelled (wd_sched w)" by (auto simp: reschedule_def Let_def)
qed

lemma same_id: "ready w \<Longrightarrow> x \<in> set (events w) \<Longrightarrow> y \<in> set (events w) \<Longrightarrow> ev_id x = ev_id y \<Longrightarrow> x = y"
  by (auto simp: ready_def distinct_map dest: inj_onD)

lemma fires_ticks:
  assumes "fires run until w tr w'" "ready w" "obeys (timely until) keep k run" "room k w tr" "\<forall>x\<in>set (events w). timely until (now w) x"
    and "e0 \<in> set (events w)" "Repeating e0" "ev_id e0 \<in> keep" "ev_id e0 \<notin> cancelled (wd_sched w)"
  shows "map snd (filter (\<lambda>(x, _). ev_id x = ev_id e0) tr) = ticks (ev_Time e0) (Interval e0) until"
  using assms
proof (induction arbitrary: e0 rule: fires.induct)
  case (Quiet w)
  then have "until < ev_Time e0" using drainedI [of w until] by (auto simp: ready_def drained_def)
  then show ?case by (simp add: ticks.simps)
next
  case (Fire w e rest w1 tr w')
  note rm = room_Cons [OF Fire.prems(3)]
  obtain n where n: "n \<le> k" "now (after_fire run e w1) = now w1" "ready (after_fire run e w1)" "mset (events w) = add_mset e (mset rest)"
    "nextID (wd_sched (after_fire run e w1)) = nextID (wd_sched w) + int n" "ready w1" "calls (timely until) keep w1 n (run (Callback e) w1)" "e = hd (events w)" "events w1 = rest"
    using firing [OF Fire.prems(1) Fire.hyps(1,3) Fire.prems(2) rm(1) Fire.hyps(4)] by metis
  note tf = timely_firing [OF Fire.prems(1) Fire.hyps(1,2,3) Fire.prems(2) rm(1) Fire.hyps(4) Fire.prems(4)]
  have ev: "set (events w) = insert e (set rest)" using n(4) by (metis set_mset_add_mset_insert set_mset_mset)
  let ?w2 = "run (Callback e) w1"
  have h: "heap_ok Less (events w1)" "heap_ok Less (events ?w2)" using n(6) calls_frame [OF n(7)] by (simp_all add: ready_def)
  have fl: "ev_id e0 \<notin> cancelled (wd_sched ?w2)" using calls_spares(2) [OF n(7) h(1) Fire.prems(7)] Fire.prems(8) Fire.hyps(4) by simp
  then have fl3: "ev_id e0 \<notin> cancelled (wd_sched (after_fire run e w1))" using reschedule_keeps(3) [OF h(2), of e] by (auto simp: after_fire_def)
  note IH = Fire.IH [OF n(3) Fire.prems(2) rm(2) [OF n(1,5)] tf(2)]
  show ?case
  proof (cases "ev_id e = ev_id e0")
    case True
    then have e: "e = e0" using same_id [OF Fire.prems(1)] Fire.prems(5) ev by auto
    have t: "timely until (now w) e" "ev_Time e \<le> until" using Fire.prems(4) ev Fire.hyps(2) n(8) by auto
    have "again e \<in> set (events (after_fire run e w1))" using reschedule_keeps(2) [OF h(2), of e] Fire.prems(6) e fl by (simp add: after_fire_def)
    with IH [of "again e"] Fire.prems(6,7) e fl3 again_timely(1) [OF t] tf(1) t show ?thesis
      by (simp add: ticks.simps [of "ev_Time e0"] timely_def)
  next
    case False
    then have "e0 \<in> set rest" using Fire.prems(5) ev by auto
    then have "e0 \<in> set (events (after_fire run e w1))"
      using calls_spares(1) [OF n(7) h(1) Fire.prems(7)] reschedule_keeps(1) [OF h(2)] n(9) by (simp add: after_fire_def)
    with IH [of e0] Fire.prems(6,7) fl3 False show ?thesis by simp
  qed
qed

section \<open>Cancellation\<close>

lemma fires_never:
  assumes "fires run until w tr w'" "ready w" "obeys ok keep k run" "room k w tr" "i \<notin> ev_id ` set (events w)" "i \<le> nextID (wd_sched w)"
  shows "i \<notin> ev_id ` fst ` set tr \<and> i \<notin> ev_id ` set (events w')"
  using assms
proof (induction rule: fires.induct)
  case (Fire w e rest w1 tr w')
  note rm = room_Cons [OF Fire.prems(3)]
  obtain n where n: "n \<le> k" "ready (after_fire run e w1)" "mset (events w) = add_mset e (mset rest)"
    "nextID (wd_sched (after_fire run e w1)) = nextID (wd_sched w) + int n"
    "\<And>x. x \<in> set (events (after_fire run e w1)) \<Longrightarrow> x \<in> set rest \<or> ok (now w1) x \<and> nextID (wd_sched w) < ev_id x \<or> Repeating e \<and> x = again e"
    using firing [OF Fire.prems(1) Fire.hyps(1,3) Fire.prems(2) rm(1) Fire.hyps(4)] by metis
  have ev: "set (events w) = insert e (set rest)" using n(3) by (metis set_mset_add_mset_insert set_mset_mset)
  have "i \<notin> ev_id ` set (events (after_fire run e w1))" using n(5) Fire.prems(4,5) ev by force
  with Fire.IH [OF n(2) Fire.prems(2) rm(2) [OF n(1,4)]] n(4) Fire.prems(4,5) ev show ?case by auto
qed simp

section \<open>The walk ends\<close>

definition fires_left :: "int64 \<Rightarrow> 'c ScheduledEvent \<Rightarrow> nat" where
  "fires_left until e = (if ev_Time e > until then 0 else if Repeating e then Suc (nat ((until - ev_Time e) div Interval e)) else 1)"

definition work :: "int64 \<Rightarrow> ('c, 'u) world \<Rightarrow> nat" where
  "work until w = sum_list (map (fires_left until) (events w))"

definition beyond :: "int64 \<Rightarrow> int64 \<Rightarrow> 'c ScheduledEvent \<Rightarrow> bool" where
  "beyond until t e \<longleftrightarrow> timely until t e \<and> until < ev_Time e"

lemma sum_list_mset: "mset xs = mset ys \<Longrightarrow> sum_list (map f xs) = sum_list (map f ys)" for f :: "'a \<Rightarrow> nat"
  by (metis mset_map sum_mset_sum_list)

lemma sum_list_sub: "mset xs \<subseteq># mset ys \<Longrightarrow> sum_list (map f xs) \<le> sum_list (map f ys)" for f :: "'a \<Rightarrow> nat"
proof -
  assume "mset xs \<subseteq># mset ys"
  then obtain zs where "mset ys = mset (xs @ zs)" by (metis mset_subset_eq_exists_conv mset_append ex_mset)
  then show ?thesis using sum_list_mset [of ys "xs @ zs" f] by simp
qed

lemma calls_work:
  assumes "calls (beyond until) keep w n w'" "heap_ok Less (events w)"
  shows "work until w' \<le> work until w"
  using assms(1)
proof (induction rule: calls.induct)
  case (Scheduled n w' mk i w'')
  have h: "heap_ok Less (events w')" using calls_frame [OF Scheduled.hyps(1) assms(2)] by simp
  have "work until w'' = fires_left until (mk i) + work until w'"
    using sum_list_mset [of "events w''" "mk i # events w'" "fires_left until"] push_event_simps(3) [OF h Scheduled.hyps(3)] by (simp add: work_def)
  moreover have "fires_left until (mk i) = 0" using Scheduled.hyps(2) [of i] by (simp add: beyond_def fires_left_def)
  ultimately show ?case using Scheduled.IH by simp
next
  case (Cancelled n w' i)
  have h: "heap_ok Less (events w')" using calls_frame [OF Cancelled.hyps(1) assms(2)] by simp
  show ?case using Cancelled.IH sum_list_sub [OF Cancel_events(2) [OF h, of i], of "fires_left until"] by (simp add: work_def)
qed (simp_all add: work_def)

lemma again_left:
  assumes "timely until t e" "ev_Time e \<le> until" "Repeating e"
  shows "fires_left until (again e) < fires_left until e"
proof -
  have d: "1 \<le> Interval e" using assms by (simp add: timely_def)
  have "(until - (ev_Time e + Interval e)) div Interval e = (until - ev_Time e) div Interval e - 1"
    using d div_add_self2 [of "Interval e" "until - ev_Time e - Interval e"] by (simp add: diff_diff_eq)
  moreover have "0 \<le> (until - ev_Time e) div Interval e" using d assms(2) by (simp add: pos_imp_zdiv_nonneg_iff)
  moreover have "ev_Time e + Interval e \<le> until \<Longrightarrow> 1 \<le> (until - ev_Time e) div Interval e"
    using d zdiv_mono1 [of "Interval e" "until - ev_Time e" "Interval e"] by simp
  ultimately show ?thesis using assms again_timely(1) [OF assms] by (auto simp: fires_left_def)
qed

lemma calls_mono: "calls ok keep w n w' \<Longrightarrow> (\<And>t e. ok t e \<Longrightarrow> ok' t e) \<Longrightarrow> calls ok' keep w n w'"
  by (induction rule: calls.induct) (auto intro: calls.intros)

lemma obeys_beyond: "obeys (beyond until) keep k run \<Longrightarrow> obeys (timely until) keep k run"
  unfolding obeys_def by (metis calls_mono beyond_def)

lemma after_fire_work:
  assumes rd: "ready w" and ne: "events w \<noteq> []" "\<not> ev_Time (hd (events w)) > until" and pop: "heap_Pop Less (events w) = (e, rest)"
    and ob: "obeys (beyond until) keep k run" and rm: "nextID (wd_sched w) + int k < 18446744073709551616"
    and w1: "w1 = advance_to e (set_events rest w)" and t: "\<forall>x\<in>set (events w). timely until (now w) x"
  shows "work until (after_fire run e w1) < work until w"
proof -
  obtain n where n: "calls (beyond until) keep w1 n (run (Callback e) w1)" "ready w1" "e = hd (events w)" "mset (events w) = add_mset e (mset rest)" "events w1 = rest"
    using firing [OF rd ne(1) pop ob rm w1] by metis
  have e: "timely until (now w) e" "ev_Time e \<le> until" using t n(3) ne by auto
  let ?w2 = "run (Callback e) w1"
  have h: "heap_ok Less (events w1)" "heap_ok Less (events ?w2)" using n(2) calls_frame [OF n(1)] by (simp_all add: ready_def)
  have "work until w = fires_left until e + work until w1"
    using sum_list_mset [of "events w" "e # rest" "fires_left until"] n(4,5) by (simp add: work_def)
  moreover have "work until ?w2 \<le> work until w1" using calls_work [OF n(1) h(1)] .
  moreover have "0 < fires_left until e" using e(2) by (simp add: fires_left_def)
  moreover have "work until (after_fire run e w1) = work until ?w2 \<or> Repeating e \<and> work until (after_fire run e w1) = fires_left until (again e) + work until ?w2"
    using reschedule_events(2) [OF h(2), of e] sum_list_mset [of "events (reschedule e ?w2)" "events ?w2" "fires_left until"]
      sum_list_mset [of "events (reschedule e ?w2)" "again e # events ?w2" "fires_left until"]
    by (auto simp: work_def after_fire_def split: if_splits)
  ultimately show ?thesis using again_left [OF e] by auto
qed

lemma work_ends:
  assumes "ready w" "obeys (beyond until) keep k run" "\<forall>x\<in>set (events w). timely until (now w) x"
    "nextID (wd_sched w) + int k * int (work until w) < 18446744073709551616"
  shows "\<exists>tr w'. fires run until w tr w' \<and> length tr \<le> work until w"
  using assms
proof (induction "work until w" arbitrary: w rule: less_induct)
  case less
  show ?case
  proof (cases "events w = [] \<or> ev_Time (hd (events w)) > until")
    case True
    then show ?thesis using Quiet [OF True] by (metis le0 list.size(3))
  next
    case False
    then have ne: "events w \<noteq> []" "\<not> ev_Time (hd (events w)) > until" by auto
    obtain e rest where pop: "heap_Pop Less (events w) = (e, rest)" by (rule prod.exhaust)
    define w1 where "w1 = advance_to e (set_events rest w)"
    have "events w = hd (events w) # tl (events w)" using ne(1) by simp
    then have "work until w = fires_left until (hd (events w)) + sum_list (map (fires_left until) (tl (events w)))" unfolding work_def by (metis list.map(2) sum_list.Cons)
    then have pos: "1 \<le> work until w" using ne(2) by (simp add: fires_left_def)
    then have "int k * 1 \<le> int k * int (work until w)" by (intro mult_left_mono) simp_all
    then have rm: "nextID (wd_sched w) + int k < 18446744073709551616" using less.prems(4) by linarith
    have lt: "work until (after_fire run e w1) < work until w"
      using after_fire_work [OF less.prems(1) ne pop less.prems(2) rm w1_def less.prems(3)] .
    obtain n where n: "n \<le> k" "now (after_fire run e w1) = now w1" "ready (after_fire run e w1)"
      "nextID (wd_sched (after_fire run e w1)) = nextID (wd_sched w) + int n"
      using firing [OF less.prems(1) ne(1) pop less.prems(2) rm w1_def] by metis
    note tf = timely_firing(2) [OF less.prems(1) ne pop obeys_beyond [OF less.prems(2)] rm w1_def less.prems(3)]
    have "int k * int (work until (after_fire run e w1)) + int k \<le> int k * int (work until w)"
      using lt mult_left_mono [of "int (work until (after_fire run e w1)) + 1" "int (work until w)" "int k"] by (simp add: distrib_left)
    then have "nextID (wd_sched (after_fire run e w1)) + int k * int (work until (after_fire run e w1)) < 18446744073709551616"
      using n(1,4) less.prems(4) by linarith
    from less.hyps [OF lt n(3) less.prems(2) tf this] obtain tr w' where "fires run until (after_fire run e w1) tr w'"
      "length tr \<le> work until (after_fire run e w1)" by auto
    with Fire [OF ne pop w1_def] lt show ?thesis by (metis Suc_leI length_Cons less_Suc_eq_le order_le_less_trans)
  qed
qed

section \<open>Properties\<close>

text \<open>C28: events fire in time order, and in the order they were scheduled within one timestamp. Walking the
  clock to a time fires a sequence of events, each at its own instant, such that no later firing
  precedes an earlier one in (time, identifier) order; afterwards nothing due is left in the heap,
  and the clock stands between where it was and the target. Callbacks may schedule at most \<open>k\<close> events
  each, none in the past, and cancel at will, as long as identifiers do not run out.\<close>

theorem events_fire_in_order:
  assumes "ready w" "obeys (timely until) {} k run" "\<forall>e\<in>set (events w). timely until (now w) e" "ProcessUntil run until w = Some w'"
  shows "\<exists>tr. fires run until w tr w' \<and>
    (room k w tr \<longrightarrow> sorted_wrt (\<lambda>(a, _) (b, _). \<not> Less b a) tr \<and> (\<forall>(e, t)\<in>set tr. t = ev_Time e \<and> t \<le> until) \<and>
      drained until w' \<and> ready w' \<and> now w \<le> now w' \<and> now w' \<le> max (now w) until)"
proof -
  obtain tr where tr: "fires run until w tr w'" using assms(4) by (auto simp: ProcessUntil_fires)
  have "sorted_wrt (\<lambda>(a, _) (b, _). \<not> Less b a) tr \<and> (\<forall>(e, t)\<in>set tr. t = ev_Time e \<and> t \<le> until) \<and>
      drained until w' \<and> ready w' \<and> now w \<le> now w' \<and> now w' \<le> max (now w) until" if rm: "room k w tr"
  proof -
    note c = fires_clock [OF tr assms(1,2) rm] and s = fires_sorted [OF tr assms(1,2) rm assms(3)]
    have "now w' \<in> set (now w # map snd tr)" using c last_in_set [of "now w # map snd tr"] by simp
    then show ?thesis using c s by fastforce
  qed
  with tr show ?thesis by blast
qed

text \<open>A world with a repeating event every 3 and a single event at 4.\<close>

definition sample_world :: "(nat, unit) world" where
  "sample_world =
     (let w0 = \<lparr>wd_clock = (NewSimulatedClock 0)\<lparr>clk_scheduler := True\<rparr>, wd_sched = NewEventScheduler True, wd_user = ()\<rparr>
      in case ScheduleRepeating 3 0 w0 of Inr (_, w1) \<Rightarrow> snd (Schedule 4 1 w1) | Inl _ \<Rightarrow> w0)"

lemma sample_events:
  "events sample_world = [\<lparr>ev_Time = 3, Callback = 0, Repeating = True, Interval = 3, ev_id = 1\<rparr>, \<lparr>ev_Time = 4, Callback = 1, Repeating = False, Interval = 0, ev_id = 2\<rparr>]"
  "nextID (wd_sched sample_world) = 2" "es_clock (wd_sched sample_world)" "now sample_world = 0" "cancelled (wd_sched sample_world) = {}"
  "clk_goal (wd_clock sample_world) = 0" "clk_scheduler (wd_clock sample_world)"
  by (simp_all add: sample_world_def NewSimulatedClock_def NewEventScheduler_def ScheduleRepeating_def Schedule_def push_event_def heap_Push_def
      heap_up.simps Less_def u64_def i64_def Let_def)

lemma sample_ready: "ready sample_world" "\<forall>e\<in>set (events sample_world). timely 7 (now sample_world) e"
  by (auto simp: ready_def sample_events heap_ok_def is_heap_def less_Suc_eq Less_def timely_def is_i64_def)

lemma quiet_obeys: "obeys ok keep k (\<lambda>_ w. w)"
  by (auto simp: obeys_def intro: Nothing)

lemma sample_work: "work 7 sample_world = 3"
  by (simp add: work_def sample_events fires_left_def)

lemma sample_run: "\<exists>tr w'. fires (\<lambda>_ w. w) 7 sample_world tr w' \<and> length tr \<le> 3"
  using work_ends [OF sample_ready(1) quiet_obeys [where keep = "{}" and k = 0] sample_ready(2)] by (simp add: sample_work sample_events)

theorem events_fire_in_order_witness:
  "\<exists>tr w'. ProcessUntil (\<lambda>_ w. w) 7 sample_world = Some w' \<and> fires (\<lambda>_ w. w) 7 sample_world tr w' \<and>
     sorted_wrt (\<lambda>(a, _) (b, _). \<not> Less b a) tr \<and> drained 7 w'"
proof -
  obtain w' where w': "ProcessUntil (\<lambda>_ w. w) 7 sample_world = Some w'" using sample_run by (metis ProcessUntil_fires)
  obtain tr where tr: "fires (\<lambda>_ w. w) 7 sample_world tr w'"
    "room 0 sample_world tr \<longrightarrow> sorted_wrt (\<lambda>(a, _) (b, _). \<not> Less b a) tr \<and> drained 7 w'"
    using events_fire_in_order [OF sample_ready(1) quiet_obeys sample_ready(2) w'] by blast
  then show ?thesis using w' by (auto simp: room_def sample_events)
qed

text \<open>A repeating event ticks at exactly its instants. In the same setting, an event that repeats with
  interval \<open>d\<close> and is next due at \<open>t\<close> fires at \<open>t\<close>, \<open>t + d\<close>, \<open>t + 2 d\<close> and so on up to the target, and at
  no other time, whatever the other callbacks do, as long as none of them cancels it.\<close>

theorem repeating_event_ticks:
  assumes "ready w" "obeys (timely until) {ev_id e} k run" "\<forall>x\<in>set (events w). timely until (now w) x" "ProcessUntil run until w = Some w'"
    and "e \<in> set (events w)" "Repeating e" "ev_id e \<notin> cancelled (wd_sched w)"
  shows "\<exists>tr. fires run until w tr w' \<and>
    (room k w tr \<longrightarrow> map snd (filter (\<lambda>(x, _). ev_id x = ev_id e) tr) = ticks (ev_Time e) (Interval e) until)"
  using assms fires_ticks [OF _ assms(1,2) _ assms(3,5,6) _ assms(7)] by (auto simp: ProcessUntil_fires)

theorem repeating_event_ticks_witness:
  "\<exists>tr w'. ProcessUntil (\<lambda>_ w. w) 7 sample_world = Some w' \<and> fires (\<lambda>_ w. w) 7 sample_world tr w' \<and>
     map snd (filter (\<lambda>(x, _). ev_id x = 1) tr) = [3, 6]"
proof -
  obtain w' where w': "ProcessUntil (\<lambda>_ w. w) 7 sample_world = Some w'" using sample_run by (metis ProcessUntil_fires)
  let ?e = "\<lparr>ev_Time = 3, Callback = 0, Repeating = True, Interval = 3, ev_id = 1\<rparr> :: nat ScheduledEvent"
  have e: "?e \<in> set (events sample_world)" "Repeating ?e" "ev_id ?e \<notin> cancelled (wd_sched sample_world)" by (simp_all add: sample_events)
  obtain tr where "fires (\<lambda>_ w. w) 7 sample_world tr w'" "room 0 sample_world tr \<longrightarrow>
      map snd (filter (\<lambda>(x, _). ev_id x = ev_id ?e) tr) = ticks (ev_Time ?e) (Interval ?e) 7"
    using repeating_event_ticks [OF sample_ready(1) quiet_obeys sample_ready(2) w' e] by blast
  then show ?thesis using w' by (auto simp: room_def sample_events ticks.simps)
qed

text \<open>A cancelled event never fires again. Cancelling an identifier that was given out removes its event:
  no later walk fires it, whatever the callbacks do. The same holds for an event that cancels itself
  while it is being fired, when it is out of the heap and only the flag can stop it from being
  rescheduled.\<close>

theorem cancelled_event_never_fires:
  assumes "ready w" "obeys ok keep k run" "i \<le> nextID (wd_sched w)"
  shows "(\<forall>until w' tr. fires run until (Cancel i w) tr w' \<longrightarrow> room k (Cancel i w) tr \<longrightarrow> i \<notin> ev_id ` fst ` set tr \<and> i \<notin> ev_id ` set (events w')) \<and>
    (\<forall>until w' tr e rest w1 w2 n. events w \<noteq> [] \<longrightarrow> heap_Pop Less (events w) = (e, rest) \<longrightarrow> w1 = advance_to e (set_events rest w) \<longrightarrow>
       calls ok keep w1 n w2 \<longrightarrow> n \<le> k \<longrightarrow> run (Callback e) w1 = Cancel (ev_id e) w2 \<longrightarrow> fires run until (after_fire run e w1) tr w' \<longrightarrow>
       room k w ((e, now w1) # tr) \<longrightarrow> ev_id e \<notin> ev_id ` fst ` set tr \<and> ev_id e \<notin> ev_id ` set (events w'))"
proof -
  have a: "i \<notin> ev_id ` fst ` set tr \<and> i \<notin> ev_id ` set (events w')"
    if "fires run until (Cancel i w) tr w'" "room k (Cancel i w) tr" for until w' tr
  proof (rule fires_never [OF that(1) Cancel_ready [OF assms(1)] assms(2) that(2)])
    show "i \<notin> ev_id ` set (events (Cancel i w))" using assms(1) Cancel_events(3) by (auto simp: ready_def)
  qed (use assms(3) in simp)
  have b: "ev_id e \<notin> ev_id ` fst ` set tr \<and> ev_id e \<notin> ev_id ` set (events w')"
    if t: "events w \<noteq> []" "heap_Pop Less (events w) = (e, rest)" "w1 = advance_to e (set_events rest w)" "calls ok keep w1 n w2" "n \<le> k"
      "run (Callback e) w1 = Cancel (ev_id e) w2" "fires run until (after_fire run e w1) tr w'" "room k w ((e, now w1) # tr)" for until w' tr e rest w1 w2 n
  proof -
    note rm = room_Cons [OF t(8)]
    obtain m where m: "m \<le> k" "ready w1" "ready (after_fire run e w1)" "nextID (wd_sched (after_fire run e w1)) = nextID (wd_sched w) + int m"
      "events w1 = rest" "ev_id e \<notin> ev_id ` set rest" "mset (events w) = add_mset e (mset rest)"
      using firing [OF assms(1) t(1,2) assms(2) rm(1) t(3)] by metis
    have e: "ev_id e \<le> nextID (wd_sched w)" using m(7) assms(1) by (metis ready_def union_single_eq_member set_mset_mset)
    have nx: "nextID (wd_sched w1) = nextID (wd_sched w)" using t(3) by simp
    have "ev_id e \<notin> ev_id ` set (events w2)"
      using calls_old_or_new [OF t(4)] m(2,5,6) nx e rm(1) t(5) by (force simp: ready_def)
    then have "after_fire run e w1 = reschedule e (w2\<lparr>wd_sched := (wd_sched w2)\<lparr>cancelled := insert (ev_id e) (cancelled (wd_sched w2))\<rparr>\<rparr>)"
      using t(6) find_event_None [of "ev_id e" "events w2"] by (simp add: after_fire_def Cancel_def)
    then have "events (after_fire run e w1) = events w2" by (simp add: reschedule_def Let_def)
    with fires_never [OF t(7) m(3) assms(2) rm(2) [OF m(1,4)], of "ev_id e"] \<open>ev_id e \<notin> ev_id ` set (events w2)\<close> m(4) e show ?thesis by simp
  qed
  show ?thesis
  proof (rule conjI)
    show "\<forall>until w' tr. fires run until (Cancel i w) tr w' \<longrightarrow> room k (Cancel i w) tr \<longrightarrow> i \<notin> ev_id ` fst ` set tr \<and> i \<notin> ev_id ` set (events w')"
      using a by blast
  qed (intro allI impI, rule b, assumption+)
qed

lemma sample_cancel:
  "ready (Cancel 1 sample_world)" "\<forall>x\<in>set (events (Cancel 1 sample_world)). timely 7 (now (Cancel 1 sample_world)) x" "work 7 (Cancel 1 sample_world) \<le> 3"
proof -
  show "ready (Cancel 1 sample_world)" using Cancel_ready [OF sample_ready(1)] .
  have m: "mset (events (Cancel 1 sample_world)) \<subseteq># mset (events sample_world)" using Cancel_events(2) sample_ready(1) by (auto simp: ready_def)
  show "work 7 (Cancel 1 sample_world) \<le> 3" using sum_list_sub [OF m, of "fires_left 7"] sample_work by (simp add: work_def)
  have "set (events (Cancel 1 sample_world)) \<subseteq> set (events sample_world)" using m by (metis set_mset_mono set_mset_mset)
  then show "\<forall>x\<in>set (events (Cancel 1 sample_world)). timely 7 (now (Cancel 1 sample_world)) x" using sample_ready(2) by auto
qed

theorem cancelled_event_never_fires_witness:
  "\<exists>tr w'. ProcessUntil (\<lambda>_ w. w) 7 (Cancel 1 sample_world) = Some w' \<and> fires (\<lambda>_ w. w) 7 (Cancel 1 sample_world) tr w' \<and> 1 \<notin> ev_id ` fst ` set tr"
proof -
  obtain tr w' where tr: "fires (\<lambda>_ w. w) 7 (Cancel 1 sample_world) tr w'"
    using work_ends [OF sample_cancel(1) quiet_obeys [where keep = "{}" and k = 0] sample_cancel(2)] by (auto simp: sample_events)
  have "ProcessUntil (\<lambda>_ w. w) 7 (Cancel 1 sample_world) = Some w'" using tr ProcessUntil_fires by blast
  moreover have "1 \<notin> ev_id ` fst ` set tr"
    using cancelled_event_never_fires [OF sample_ready(1) quiet_obeys [where ok = "\<lambda>_ _. True" and keep = "{}" and k = 0], of 1] tr by (auto simp: sample_events room_def)
  ultimately show ?thesis using tr by blast
qed

text \<open>C29: the walk ends. If callbacks schedule no event that is due before the target, then walking the clock
  returns, after at most one firing for each single event and for each instant of each repeating
  event up to the target. This rests on the repeat interval being at least one, which scheduling
  enforces.\<close>

theorem walk_ends:
  assumes "ready w" "obeys (beyond until) keep k run" "\<forall>e\<in>set (events w). timely until (now w) e"
    "nextID (wd_sched w) + int k * int (work until w) < 18446744073709551616"
  shows "\<exists>tr w'. ProcessUntil run until w = Some w' \<and> fires run until w tr w' \<and> length tr \<le> work until w"
  using work_ends [OF assms] ProcessUntil_fires by blast

theorem walk_ends_witness: "\<exists>tr w'. ProcessUntil (\<lambda>_ w. w) 7 sample_world = Some w' \<and> fires (\<lambda>_ w. w) 7 sample_world tr w' \<and> length tr \<le> 3"
  using walk_ends [OF sample_ready(1) quiet_obeys [where keep = "{}" and k = 0] sample_ready(2)] by (simp add: sample_work sample_events)

lemma fires_goal:
  assumes "fires run until w tr w'" "ready w" "obeys ok keep k run" "room k w tr"
  shows "clk_goal (wd_clock w') = clk_goal (wd_clock w)"
  using assms
proof (induction rule: fires.induct)
  case (Fire w e rest w1 tr w')
  note rm = room_Cons [OF Fire.prems(3)]
  obtain n where n: "n \<le> k" "calls ok keep w1 n (run (Callback e) w1)" "ready w1" "ready (after_fire run e w1)"
    "nextID (wd_sched (after_fire run e w1)) = nextID (wd_sched w) + int n"
    using firing [OF Fire.prems(1) Fire.hyps(1,3) Fire.prems(2) rm(1) Fire.hyps(4)] by metis
  have "clk_goal (wd_clock w1) = clk_goal (wd_clock w)" using Fire.hyps(4) by (simp add: advance_to_def SetTime_def)
  moreover have "wd_clock (after_fire run e w1) = wd_clock w1" using calls_frame [OF n(2)] n(3) by (simp add: ready_def after_fire_def)
  ultimately show ?case using Fire.IH [OF n(4) Fire.prems(2) rm(2) [OF n(1,5)]] by simp
qed simp

lemma rest_at_simps [simp]: "wd_sched (rest_at t w) = wd_sched w" "now (rest_at t w) = max (now w) t" "clk_goal (wd_clock (rest_at t w)) = clk_goal (wd_clock w)"
  by (auto simp: rest_at_def SetTime_def)

text \<open>Advancing the clock reaches the target and leaves nothing behind. Advancing by \<open>delta\<close> from a world
  in which no earlier advance is pending lands exactly \<open>delta\<close> later; the instants at which callbacks
  ran never decrease, no event due by then is left, and the next advance starts from there, so
  advances add up. This holds whatever the callbacks schedule, also in the past.\<close>

theorem Advance_reaches_target:
  assumes "ready w" "obeys ok keep k run" "clk_scheduler (wd_clock w)" "clk_goal (wd_clock w) \<le> now w" "0 \<le> delta" "is_i64 (now w)"
    "now w + delta \<le> MaxInt64" "Advance run delta w = Some w'"
  shows "\<exists>tr w1. fires run (now w + delta) (set_goal (now w + delta) w) tr w1 \<and> w' = rest_at (now w + delta) w1 \<and>
    (room k w tr \<longrightarrow> now w' = now w + delta \<and> clk_goal (wd_clock w') = now w' \<and> drained (now w') w' \<and> ready w' \<and> sorted (now w # map snd tr))"
proof -
  let ?t = "now w + delta" and ?w = "set_goal (now w + delta) w"
  have t: "i64 ?t = ?t" using assms(5-7) by (intro i64_id) (auto simp: is_i64_def)
  have "(if clk_goal (wd_clock w) < now w then now w else clk_goal (wd_clock w)) = now w" using assms(4) by auto
  then obtain w1 where w1: "ProcessUntil run ?t ?w = Some w1" "w' = rest_at ?t w1" using assms(3,8) t by (auto simp: Advance_def Let_def)
  then obtain tr where tr: "fires run ?t ?w tr w1" by (auto simp: ProcessUntil_fires)
  have rd: "ready ?w" "now ?w = now w" "wd_sched ?w = wd_sched w" "clk_goal (wd_clock ?w) = ?t" using assms(1) by (simp_all add: ready_def set_goal_def)
  have "now w' = ?t \<and> clk_goal (wd_clock w') = now w' \<and> drained (now w') w' \<and> ready w' \<and> sorted (now w # map snd tr)" if rm: "room k w tr"
  proof -
    have rm': "room k ?w tr" using rm rd(3) by (simp add: room_def)
    note c = fires_clock [OF tr rd(1) assms(2) rm'] and g = fires_goal [OF tr rd(1) assms(2) rm']
    have "now w1 \<in> set (now w # map snd tr)" using c rd(2) last_in_set [of "now w # map snd tr"] by simp
    then have "now w1 \<le> ?t" using c rd(2) assms(5) by fastforce
    then show ?thesis using c g rd w1(2) by (auto simp: ready_def drained_def)
  qed
  with tr w1(2) show ?thesis by blast
qed

theorem Advance_reaches_target_witness:
  "\<exists>w'. Advance (\<lambda>_ w. w) 7 sample_world = Some w' \<and> now w' = 7 \<and> clk_goal (wd_clock w') = 7 \<and> drained 7 w'"
proof -
  have rd: "ready (set_goal 7 sample_world)" "\<forall>e\<in>set (events (set_goal 7 sample_world)). timely 7 (now (set_goal 7 sample_world)) e"
    "work 7 (set_goal 7 sample_world) = 3" "nextID (wd_sched (set_goal 7 sample_world)) = 2"
    using sample_ready sample_work by (simp_all add: ready_def set_goal_def work_def sample_events)
  obtain w1 where "ProcessUntil (\<lambda>_ w. w) 7 (set_goal 7 sample_world) = Some w1"
    using work_ends [OF rd(1) quiet_obeys [where keep = "{}" and k = 0] rd(2)] rd(3,4) ProcessUntil_fires by fastforce
  then obtain w' where w': "Advance (\<lambda>_ w. w) 7 sample_world = Some w'" by (simp add: Advance_def sample_events Let_def i64_def)
  from Advance_reaches_target [OF sample_ready(1) quiet_obeys [where ok = "\<lambda>_ _. True" and keep = "{}" and k = 0] _ _ _ _ _ w']
  show ?thesis using w' by (auto simp: sample_events room_def is_i64_def)
qed

end
