(* ===== verification/Scheduler_Phases.thy ===== *)
theory Scheduler_Phases
  imports Scheduler_Order
begin

text \<open>The walk with intermediate drains: time moves on only after everything that happened at the current
  instant was drained. This needs no assumption on the callbacks or the drain, because the code checks
  that neither moves the clock.\<close>

datatype phase = FireAt int64 | DrainAt int64

definition phase_of :: "('c, 'u) loop_state \<Rightarrow> ('c, 'u) loop_state \<Rightarrow> phase" where
  "phase_of st st' = (case fst st' of None \<Rightarrow> DrainAt (the (fst st)) | Some t \<Rightarrow> FireAt t)"

inductive phases ::
  "('c \<Rightarrow> ('c, 'u) world \<Rightarrow> ('c, 'u) world) \<Rightarrow> ('c, 'u) drain \<Rightarrow> int64 \<Rightarrow> ('c, 'u) loop_state \<Rightarrow> phase list \<Rightarrow> sim_error option \<times> ('c, 'u) world \<Rightarrow> bool"
  for run drain until where
  Return: "process_turn run (Some drain) until st = (Some e, b, n, w) \<Longrightarrow> phases run drain until st [] (e, w)"
| Turn: "process_turn run (Some drain) until st = (None, st') \<Longrightarrow> phases run drain until st' tr r \<Longrightarrow> phases run drain until st (phase_of st st' # tr) r"

lemma loop_phases:
  assumes "process_loop run (Some drain) until st = Some r"
  shows "\<exists>tr. phases run drain until st tr r"
proof -
  have "\<forall>drain. after = Some drain \<longrightarrow> (\<exists>tr. phases run drain until st tr y)" if "process_loop run after until st = Some y" for run after until st y
  proof (rule process_loop.raw_induct [where P = "\<lambda>run after until st y. \<forall>drain. after = Some drain \<longrightarrow> (\<exists>tr. phases run drain until st tr y)", OF _ that], goal_cases)
    case (1 loop run after until st y)
    obtain e st' where t: "process_turn run after until st = (e, st')" by (rule prod.exhaust)
    show ?case
    proof (intro allI impI)
      fix drain assume d: "after = Some drain"
      show "\<exists>tr. phases run drain until st tr y"
      proof (cases e)
        case None
        then have "loop run after until st' = Some y" using 1(2) t by simp
        with 1(1) d obtain tr where "phases run drain until st' tr y" by blast
        then show ?thesis using Turn [of run drain until st st' tr y] t None d by blast
      next
        case (Some err)
        then show ?thesis using 1(2) t d Return [of run drain until st err] by (cases st') auto
      qed
    qed
  qed
  with assms show ?thesis by blast
qed

section \<open>Time moves only after a drain\<close>

definition follows :: "phase \<Rightarrow> phase \<Rightarrow> bool" where
  "follows a b \<longleftrightarrow>
     (case (a, b) of
        (FireAt t, FireAt t') \<Rightarrow> t' = t
      | (FireAt t, DrainAt t') \<Rightarrow> t' = t
      | (DrainAt t, FireAt t') \<Rightarrow> t \<le> t'
      | (DrainAt t, DrainAt t') \<Rightarrow> False)"

definition settled :: "('c, 'u) loop_state \<Rightarrow> bool" where
  "settled st \<longleftrightarrow> (case st of (b, _, w) \<Rightarrow> b = None \<or> b = Some (now w))"

lemma drain_turn_None: "drain_turn drain t n w = (None, st') \<Longrightarrow> now w = t \<and> (\<exists>n' w'. st' = (None, n', w') \<and> now w' = t)"
  by (auto simp: drain_turn_def drainIntermediateBatch_def split: prod.splits option.splits if_splits)

lemma fire_turn_None:
  assumes "fire_turn run True b n w = (None, st')" "heap_Pop Less (events w) = (e, rest)"
  shows "\<exists>w'. st' = (Some (max (now w) (ev_Time e)), n, w') \<and> now w' = max (now w) (ev_Time e)"
proof -
  have a: "es_clock (wd_sched w) \<Longrightarrow> now (advance_to e (set_events rest w)) = max (now w) (ev_Time e)"
    "es_clock (wd_sched (advance_to e (set_events rest w))) = es_clock (wd_sched w)"
    by (auto simp: advance_to_def SetTime_def)
  have r: "wd_clock (reschedule e w') = wd_clock w'" for w' :: "('a, 'b) world" by (simp add: reschedule_def Let_def)
  show ?thesis using assms a r by (auto simp: fire_turn_def Let_def split: if_splits)
qed

lemma fire_turn_clocked: "fire_turn run True b n w = (None, st') \<Longrightarrow> es_clock (wd_sched w)"
  by (auto simp: fire_turn_def Let_def advance_to_def SetTime_def split: prod.splits if_splits)

text \<open>What one turn does to the batch and the clock.\<close>

lemma turn_cases:
  assumes "process_turn run (Some drain) until (b, n, w) = (None, st')"
  obtains (drained) t n' w' where "b = Some t" "t < until" "now w = t" "st' = (None, n', w')" "now w' = t"
  | (fired) w' where "ev_Time (hd (events w)) \<le> until"
      "st' = (Some (max (now w) (ev_Time (hd (events w)))), n, w')" "now w' = max (now w) (ev_Time (hd (events w)))"
      "\<And>t. b = Some t \<Longrightarrow> t < until \<Longrightarrow> max (now w) (ev_Time (hd (events w))) \<le> t"
proof (cases "events w = [] \<or> ev_Time (hd (events w)) > until")
  case True
  with assms obtain t where t: "b = Some t" "t < until" "drain_turn drain t n w = (None, st')"
    by (auto simp: process_turn_def split: option.splits if_splits)
  with drain_turn_None [OF t(3)] show ?thesis using drained by blast
next
  case False
  obtain e rest where pop: "heap_Pop Less (events w) = (e, rest)" by (rule prod.exhaust)
  have e: "e = hd (events w)" using Pop_first [OF pop] False by simp
  let ?next = "if es_clock (wd_sched w) \<and> ev_Time (hd (events w)) < now w then now w else ev_Time (hd (events w))"
  consider t where "b = Some t" "t < until" "drain_turn drain t n w = (None, st')"
    | "fire_turn run True b n w = (None, st')" "\<And>t. b = Some t \<Longrightarrow> t < until \<Longrightarrow> ?next \<le> t"
    using assms False by (cases b) (auto simp: process_turn_def Let_def split: if_splits)
  then show ?thesis
  proof cases
    case (1 t)
    with drain_turn_None [OF 1(3)] show ?thesis using drained by blast
  next
    case 2
    have "?next = max (now w) (ev_Time e)" using fire_turn_clocked [OF 2(1)] by (simp add: e max_def)
    with fire_turn_None [OF 2(1) pop] fired e False 2(2) show ?thesis by auto
  qed
qed

lemma turn_follows:
  assumes "process_turn run (Some drain) until st = (None, st')" "settled st"
  shows "settled st' \<and> (case phase_of st st' of
       DrainAt t \<Rightarrow> fst st = Some t \<and> t < until \<and> now (snd (snd st')) = t \<and> fst st' = None
     | FireAt t \<Rightarrow> fst st' = Some t \<and> now (snd (snd st')) = t \<and> now (snd (snd st)) \<le> t \<and> t \<le> max (now (snd (snd st))) until \<and> (\<forall>t0. fst st = Some t0 \<longrightarrow> t = t0))"
proof -
  obtain b n w where st: "st = (b, n, w)" by (cases st)
  from assms(1) [unfolded st] show ?thesis
  proof (cases rule: turn_cases)
    case (drained t n' w')
    then show ?thesis by (simp add: st settled_def phase_of_def)
  next
    case (fired w')
    have "max (now w) (ev_Time (hd (events w))) = t" if "b = Some t" for t
      using that assms(2) fired(1) fired(4) [OF that] by (cases "t < until") (auto simp: st settled_def)
    then show ?thesis using fired(1-3) by (auto simp: st settled_def phase_of_def)
  qed
qed

text \<open>The phase that precedes a state: the open batch, or a drain that ended at the clock's time.\<close>

definition preceded :: "phase option \<Rightarrow> ('c, 'u) loop_state \<Rightarrow> bool" where
  "preceded p st \<longleftrightarrow> (case p of None \<Rightarrow> fst st = None | Some (FireAt t) \<Rightarrow> fst st = Some t \<and> now (snd (snd st)) = t
     | Some (DrainAt t) \<Rightarrow> fst st = None \<and> now (snd (snd st)) = t)"

definition drained_first :: "int64 \<Rightarrow> phase list \<Rightarrow> bool" where
  "drained_first until ps \<longleftrightarrow> successively follows ps \<and> (\<forall>t. ps \<noteq> [] \<longrightarrow> last ps = FireAt t \<longrightarrow> until \<le> t)"

lemma Return_open: "process_turn run (Some drain) until st = (Some None, b, n, w) \<Longrightarrow> fst st = Some t \<Longrightarrow> until \<le> t"
  by (auto simp: process_turn_def drain_turn_def fire_turn_def Let_def split: prod.splits option.splits if_splits)

lemma phases_ordered:
  assumes "phases run drain until st tr r" "settled st" "preceded p st"
  shows "successively follows (case p of None \<Rightarrow> tr | Some q \<Rightarrow> q # tr) \<and>
    (fst r = None \<longrightarrow> (case p of None \<Rightarrow> tr | Some q \<Rightarrow> q # tr) \<noteq> [] \<longrightarrow> (\<forall>t. last (case p of None \<Rightarrow> tr | Some q \<Rightarrow> q # tr) = FireAt t \<longrightarrow> until \<le> t))"
  using assms
proof (induction arbitrary: p rule: phases.induct)
  case (Return st e b n w)
  then show ?case using Return_open [of run drain until st b n w] by (auto simp: preceded_def split: option.splits phase.splits)
next
  case (Turn st st' tr r)
  note tf = turn_follows [OF Turn.hyps(1) Turn.prems(1)]
  then have pr: "settled st'" "preceded (Some (phase_of st st')) st'" by (auto simp: preceded_def split: phase.splits)
  have fo: "follows q (phase_of st st')" if "p = Some q" for q
    using tf Turn.prems(2) that by (auto simp: follows_def preceded_def split: phase.splits)
  from Turn.IH [OF pr] fo show ?case by (cases p) auto
qed

lemma phases_times:
  assumes "phases run drain until st tr r" "settled st"
  shows "\<forall>p\<in>set tr. case p of FireAt t \<Rightarrow> t \<le> max (now (snd (snd st))) until | DrainAt t \<Rightarrow> t < until"
  using assms
proof (induction rule: phases.induct)
  case (Turn st st' tr r)
  note tf = turn_follows [OF Turn.hyps(1) Turn.prems(1)]
  show ?case
  proof (cases "phase_of st st'")
    case (FireAt t)
    with tf Turn.IH show ?thesis by (force split: phase.splits)
  next
    case (DrainAt t)
    with tf Turn.IH Turn.prems show ?thesis by (force simp: settled_def split: phase.splits)
  qed
qed simp

text \<open>C30: with intermediate drains, time moves on only after the current instant was drained. A successful
  walk is a sequence of firings and drains in which two consecutive firings happen at the same
  instant, a drain happens at the instant of the firing before it, no later firing precedes a drain
  in time, and the last firing before the target is followed by its drain. Nothing is assumed of the
  callbacks or of the drain: when one of them moves the clock, the walk fails instead.\<close>

theorem time_moves_only_after_drain:
  assumes "processUntil run (Some drain) until w = Some (None, w')"
  shows "\<exists>tr. phases run drain until (None, 0, w) tr (None, w') \<and> drained_first until tr \<and>
    (\<forall>p\<in>set tr. case p of FireAt t \<Rightarrow> t \<le> max (now w) until | DrainAt t \<Rightarrow> t < until)"
proof -
  obtain tr where tr: "phases run drain until (None, 0, w) tr (None, w')" 
    using loop_phases [of run drain until "(None, 0, w)" "(None, w')"] assms by (auto simp: processUntil_def)
  have s: "settled (None, 0, w)" "preceded None (None, 0, w)" by (simp_all add: settled_def preceded_def)
  have "drained_first until tr" using phases_ordered [OF tr s] by (simp add: drained_first_def)
  moreover have "\<forall>p\<in>set tr. case p of FireAt t \<Rightarrow> t \<le> max (now w) until | DrainAt t \<Rightarrow> t < until" using phases_times [OF tr s(1)] unfolding snd_conv .
  ultimately show ?thesis using tr by blast
qed

definition single_world :: "(nat, unit) world" where
  "single_world = snd (Schedule 4 0 \<lparr>wd_clock = NewSimulatedClock 0, wd_sched = NewEventScheduler True, wd_user = ()\<rparr>)"

lemma single_drained: "\<exists>w'. processUntil (\<lambda>_ w. w) (Some (\<lambda>_ w. (None, w))) 7 single_world = Some (None, w') \<and> now w' = 4"
proof -
  have w: "single_world = \<lparr>wd_clock = \<lparr>clk_current = 0, clk_goal = 0, clk_scheduler = False\<rparr>,
      wd_sched = \<lparr>es_clock = True, es_events = [\<lparr>ev_Time = 4, Callback = 0, Repeating = False, Interval = 0, ev_id = 1\<rparr>], nextID = 1, cancelled = {}\<rparr>, wd_user = ()\<rparr>"
    by (simp add: single_world_def Schedule_def push_event_def NewSimulatedClock_def NewEventScheduler_def heap_Push_def heap_up.simps u64_def Let_def)
  have pop: "heap_Pop Less [e] = (e, [])" for e :: "nat ScheduledEvent" by (simp add: heap_Pop_def heap_down_stop swap_def)
  let ?w = "\<lparr>wd_clock = \<lparr>clk_current = 4, clk_goal = 0, clk_scheduler = False\<rparr>,
      wd_sched = \<lparr>es_clock = True, es_events = [], nextID = 1, cancelled = {}\<rparr>, wd_user = ()\<rparr> :: (nat, unit) world"
  let ?p = "process_turn (\<lambda>_ w. w) (Some (\<lambda>_ w. (None, w))) 7"
  have "?p (None, 0, single_world) = (None, Some 4, 0, ?w)"
    by (simp add: w process_turn_def fire_turn_def pop advance_to_def SetTime_def set_events_def reschedule_def Let_def)
  moreover have "?p (Some 4, 0, ?w) = (None, None, 1, ?w)" "?p (None, 1, ?w) = (Some None, None, 1, ?w)"
    by (simp_all add: process_turn_def drain_turn_def drainIntermediateBatch_def)
  ultimately have "processUntil (\<lambda>_ w. w) (Some (\<lambda>_ w. (None, w))) 7 single_world = Some (None, ?w)"
    by (simp add: processUntil_def process_loop.simps)
  then show ?thesis by simp
qed

theorem time_moves_only_after_drain_witness:
  "\<exists>tr w'. processUntil (\<lambda>_ w. w) (Some (\<lambda>_ w. (None, w))) 7 single_world = Some (None, w') \<and> now w' = 4 \<and> drained_first 7 tr \<and>
     phases (\<lambda>_ w. w) (\<lambda>_ w. (None, w)) 7 (None, 0, single_world) tr (None, w')"
proof -
  obtain w' where w': "processUntil (\<lambda>_ w. w) (Some (\<lambda>_ w. (None, w))) 7 single_world = Some (None, w')" "now w' = 4"
    using single_drained by auto
  from time_moves_only_after_drain [OF w'(1)] w' show ?thesis by blast
qed

end
