(* ===== verification/Sim_Timer.thy ===== *)
theory Sim_Timer
  imports Scheduler_Order
begin

text \<open>Tickers on simulated time (\<open>simulation/timer.go\<close>). A ticker owns a repeating event of the scheduler and a
  channel of capacity one; a tick that finds the channel full is coalesced. The factory counts the
  ticks its consumers still owe an acknowledgement, so that the runner does not advance time past them.

  A timer is its index in the factory's list; the callback of its event is the tag \<open>Inl\<close> of that index,
  every other callback is \<open>Inr\<close>. The factory is the first part of the rest of the world.\<close>

record simTimer =
  tm_interval :: int64
  tm_ch :: "int64 option"
  tm_eventID :: uint64
  tm_stopped :: bool
  tm_pending :: int64
  tm_dropped :: int64

record SimTimerFactory =
  f_timers :: "simTimer list"
  f_deterministicPhases :: bool

type_synonym ('c, 'u) timer_world = "(nat + 'c, SimTimerFactory \<times> 'u) world"

abbreviation factory :: "('c, 'u) timer_world \<Rightarrow> SimTimerFactory" where "factory w \<equiv> fst (wd_user w)"

definition set_factory :: "SimTimerFactory \<Rightarrow> ('c, 'u) timer_world \<Rightarrow> ('c, 'u) timer_world" where
  "set_factory f w = w\<lparr>wd_user := (f, snd (wd_user w))\<rparr>"

definition update_timer :: "nat \<Rightarrow> (simTimer \<Rightarrow> simTimer) \<Rightarrow> ('c, 'u) timer_world \<Rightarrow> ('c, 'u) timer_world" where
  "update_timer i g w = (let f = factory w in set_factory (f\<lparr>f_timers := (f_timers f)[i := g (f_timers f ! i)]\<rparr>) w)"

definition NewSimTimerFactory :: SimTimerFactory where
  "NewSimTimerFactory = \<lparr>f_timers = [], f_deterministicPhases = False\<rparr>"

definition PendingTicks :: "SimTimerFactory \<Rightarrow> int64" where
  "PendingTicks f = foldl (\<lambda>n t. i64 (n + tm_pending t)) 0 (f_timers f)"

definition Timers_Idle :: "SimTimerFactory \<Rightarrow> bool" where
  "Timers_Idle f \<longleftrightarrow> PendingTicks f = 0"

definition EnableDeterministicPhases :: "('c, 'u) timer_world \<Rightarrow> ('c, 'u) timer_world" where
  "EnableDeterministicPhases w = set_factory ((factory w)\<lparr>f_deterministicPhases := True\<rparr>) w"

text \<open>The error reports the number of ticks the first affected timer dropped.\<close>

definition DeterministicPhaseError :: "SimTimerFactory \<Rightarrow> int64 option" where
  "DeterministicPhaseError f =
     (if \<not> f_deterministicPhases f then None else map_option tm_dropped (find (\<lambda>t. tm_dropped t \<noteq> 0) (f_timers f)))"

definition blank_timer :: "int64 \<Rightarrow> uint64 \<Rightarrow> simTimer" where
  "blank_timer interval eventID =
     \<lparr>tm_interval = interval, tm_ch = None, tm_eventID = eventID, tm_stopped = False, tm_pending = 0, tm_dropped = 0\<rparr>"

definition add_timer :: "simTimer \<Rightarrow> ('c, 'u) timer_world \<Rightarrow> ('c, 'u) timer_world" where
  "add_timer t w = (let f = factory w in set_factory (f\<lparr>f_timers := f_timers f @ [t]\<rparr>) w)"

definition NewTicker :: "int64 \<Rightarrow> ('c, 'u) timer_world \<Rightarrow> sim_error + nat \<times> ('c, 'u) timer_world" where
  "NewTicker d w =
     (if d \<le> 0 then Inl NonPositiveInterval
      else let i = length (f_timers (factory w))
           in case ScheduleRepeating d (Inl i) w of
                Inl e \<Rightarrow> Inl e
              | Inr (eventID, w1) \<Rightarrow> Inr (i, add_timer (blank_timer d eventID) w1))"

definition NewTickerWithOffset :: "int64 \<Rightarrow> int64 \<Rightarrow> ('c, 'u) timer_world \<Rightarrow> sim_error + nat \<times> ('c, 'u) timer_world" where
  "NewTickerWithOffset interval offset w =
     (if offset = 0 then NewTicker interval w
      else if interval \<le> 0 \<or> offset < 0 \<or> offset \<ge> interval then Inl BadOffset
      else let i = length (f_timers (factory w))
           in case ScheduleRepeatingWithOffset interval offset (Inl i) w of
                Inl e \<Rightarrow> Inl e
              | Inr (eventID, w1) \<Rightarrow> Inr (i, add_timer (blank_timer interval eventID) w1))"

definition Acknowledge :: "simTimer \<Rightarrow> simTimer" where
  "Acknowledge t = t\<lparr>tm_pending := i64 (tm_pending t - 1)\<rparr>"

definition Stop :: "nat \<Rightarrow> ('c, 'u) timer_world \<Rightarrow> ('c, 'u) timer_world" where
  "Stop i w =
     (let t = f_timers (factory w) ! i
      in if tm_stopped t then w
         else let w1 = update_timer i (\<lambda>t. t\<lparr>tm_stopped := True, tm_eventID := 0\<rparr>) w
              in if tm_eventID t \<noteq> 0 then Cancel (tm_eventID t) w1 else w1)"

definition fire :: "bool \<Rightarrow> int64 \<Rightarrow> simTimer \<Rightarrow> simTimer" where
  "fire deterministic at t =
     (if tm_stopped t then t
      else let t1 = t\<lparr>tm_pending := i64 (tm_pending t + 1)\<rparr>
           in case tm_ch t1 of
                None \<Rightarrow> t1\<lparr>tm_ch := Some at\<rparr>
              | Some _ \<Rightarrow>
                  let t2 = t1\<lparr>tm_pending := i64 (tm_pending t1 - 1)\<rparr>
                  in if deterministic then t2\<lparr>tm_dropped := i64 (tm_dropped t2 + 1)\<rparr> else t2)"

definition run_callback ::
  "('c \<Rightarrow> ('c, 'u) timer_world \<Rightarrow> ('c, 'u) timer_world) \<Rightarrow> nat + 'c \<Rightarrow> ('c, 'u) timer_world \<Rightarrow> ('c, 'u) timer_world" where
  "run_callback other c w =
     (case c of Inl i \<Rightarrow> update_timer i (fire (f_deterministicPhases (factory w)) (now w)) w | Inr c \<Rightarrow> other c w)"

text \<open>A tick is a well-behaved callback: it schedules nothing, cancels nothing and leaves the clock alone.\<close>

lemma ticks_obey:
  fixes other :: "'c \<Rightarrow> ('c, 'u) timer_world \<Rightarrow> ('c, 'u) timer_world"
  assumes o: "\<forall>c w. ready w \<longrightarrow> (\<exists>n\<le>k. calls ok keep w n (other c w))"
  shows "obeys ok keep k (run_callback other)"
  unfolding obeys_def
proof (intro allI impI)
  fix c and w :: "('c, 'u) timer_world"
  assume r: "ready w"
  show "\<exists>n\<le>k. calls ok keep w n (run_callback other c w)"
  proof (cases c)
    case (Inl i)
    have "calls ok keep w 0 (run_callback other c w)"
      unfolding Inl run_callback_def update_timer_def set_factory_def Let_def sum.case by (intro Other Nothing)
    then show ?thesis by blast
  qed (use o r in \<open>simp add: run_callback_def\<close>)
qed

lemma NewTicker_event:
  assumes "NewTicker d w = Inr (i, w1)" "ready w" "nextID (wd_sched w) + 1 < 18446744073709551616"
  shows "ready w1 \<and> now w1 = now w \<and> tm_eventID (f_timers (factory w1) ! i) = nextID (wd_sched w1) \<and>
    \<lparr>ev_Time = i64 (now w + d), Callback = Inl i, Repeating = True, Interval = d, ev_id = nextID (wd_sched w1)\<rparr> \<in> set (events w1)"
proof -
  let ?mk = "\<lambda>j. \<lparr>ev_Time = i64 (now w + d), Callback = Inl i, Repeating = True, Interval = d, ev_id = j\<rparr> :: (nat + 'a) ScheduledEvent"
  obtain j w0 where p: "push_event ?mk w = (j, w0)" "w1 = add_timer (blank_timer d j) w0" "i = length (f_timers (factory w))"
    using assms(1) by (auto simp: NewTicker_def ScheduleRepeating_def Let_def split: if_splits sum.splits prod.splits)
  have h: "heap_ok Less (events w)" using assms(2) by (simp add: ready_def)
  note q = push_event_simps [OF h p(1)]
  have "wd_user w0 = wd_user w" using p(1) by (auto simp: push_event_def Let_def)
  moreover have "?mk j \<in> set (events w0)" using q(3) by (metis union_single_eq_member set_mset_mset)
  moreover have "ready w0" using push_ready [OF assms(2) p(1) _ assms(3)] by simp
  ultimately show ?thesis using q p(2,3) by (simp add: add_timer_def set_factory_def Let_def blank_timer_def ready_def)
qed

text \<open>A consumer's receive from the channel.\<close>

definition receive :: "simTimer \<Rightarrow> simTimer" where
  "receive t = t\<lparr>tm_ch := None\<rparr>"

section \<open>Ticks in flight\<close>

text \<open>One timer and its consumer: the timer fires, the consumer receives a tick when there is one, and
  acknowledges what it received. The counters are the ticks received and not yet
  acknowledged, those fired and those received; whether deterministic phases are on is fixed.\<close>

type_synonym tick_state = "simTimer \<times> nat \<times> nat \<times> nat"

inductive tick_step :: "bool \<Rightarrow> tick_state \<Rightarrow> tick_state \<Rightarrow> bool" for det where
  Fires: "\<not> tm_stopped t \<Longrightarrow> tick_step det (t, held, n, m) (fire det at t, held, Suc n, m)"
| Receives: "tm_ch t \<noteq> None \<Longrightarrow> tick_step det (t, held, n, m) (receive t, Suc held, n, Suc m)"
| Acknowledges: "0 < held \<Longrightarrow> tick_step det (t, held, n, m) (Acknowledge t, held - 1, n, m)"
| Stops: "tick_step det (t, held, n, m) (t\<lparr>tm_stopped := True, tm_eventID := 0\<rparr>, held, n, m)"

definition in_channel :: "simTimer \<Rightarrow> nat" where
  "in_channel t = (if tm_ch t = None then 0 else 1)"

definition ticks_counted :: "bool \<Rightarrow> tick_state \<Rightarrow> bool" where
  "ticks_counted det s \<longleftrightarrow> (case s of (t, held, n, m) \<Rightarrow>
     tm_pending t = i64 (int (in_channel t + held)) \<and> m + in_channel t \<le> n \<and>
     tm_dropped t = (if det then i64 (int (n - m - in_channel t)) else 0))"

lemma tick_step_counted: "tick_step det s s' \<Longrightarrow> ticks_counted det s \<Longrightarrow> ticks_counted det s'"
proof (induction rule: tick_step.induct)
  case (Fires t held n m at)
  have "i64 (i64 x - 1) = i64 (x - 1)" "i64 (i64 x + 1) = i64 (x + 1)" for x
    using i64_add_cong [of x "- 1"] i64_add_cong [of x 1] by simp_all
  with Fires show ?case
    by (cases "tm_ch t") (auto simp: ticks_counted_def fire_def in_channel_def Let_def Suc_diff_le ac_simps)
next
  case (Receives t held n m)
  then show ?case by (auto simp: ticks_counted_def receive_def in_channel_def ac_simps)
next
  case (Acknowledges held t n m)
  have "i64 (i64 (int (in_channel t + held)) - 1) = i64 (int (in_channel t + (held - 1)))"
    using i64_add_cong [of "int (in_channel t + held)" "- 1"] Acknowledges.hyps by (simp add: of_nat_diff)
  with Acknowledges show ?case by (simp add: ticks_counted_def Acknowledge_def in_channel_def)
next
  case (Stops t held n m)
  then show ?case by (simp add: ticks_counted_def in_channel_def)
qed

definition reached :: "bool \<Rightarrow> tick_state \<Rightarrow> bool" where
  "reached det s \<longleftrightarrow> (\<exists>d i. (tick_step det)\<^sup>*\<^sup>* (blank_timer d i, 0, 0, 0) s)"

lemma reached_counted: "reached det s \<Longrightarrow> ticks_counted det s"
proof -
  have "ticks_counted det s" if "(tick_step det)\<^sup>*\<^sup>* (blank_timer d i, 0, 0, 0) s" for d i
    using that
  proof (induction rule: rtranclp_induct)
    case base
    then show ?case by (simp add: ticks_counted_def blank_timer_def in_channel_def)
  qed (rule tick_step_counted)
  then show "reached det s \<Longrightarrow> ticks_counted det s" by (auto simp: reached_def)
qed

definition flying :: "tick_state \<Rightarrow> nat" where
  "flying s = (case s of (t, held, _, _) \<Rightarrow> in_channel t + held)"

lemma pending_sum:
  "\<forall>s\<in>set ss. ticks_counted det s \<Longrightarrow> foldl (\<lambda>n t. i64 (n + tm_pending t)) (i64 a) (map fst ss) = i64 (a + int (sum_list (map flying ss)))"
proof (induction ss arbitrary: a)
  case (Cons s ss)
  have "i64 (i64 a + tm_pending (fst s)) = i64 (a + int (flying s))"
    using Cons.prems by (cases s) (simp add: ticks_counted_def flying_def i64_add_cong i64_add_cong_right)
  with Cons show ?case by (simp add: add.assoc)
qed simp

text \<open>C31: the factory is idle exactly when no tick is in flight. For any number of tickers and consumers,
  each having fired, received and acknowledged in any order, the runner sees the factory as idle if
  and only if every channel is empty and every tick that was received has been acknowledged, so no
  tick is missed between the channel and its consumer. When deterministic phases are on from the
  first tick, an error is reported if and only if some tick was coalesced.\<close>

theorem idle_means_no_tick_in_flight:
  assumes "\<forall>s\<in>set ss. reached (f_deterministicPhases f) s" "f_timers f = map fst ss"
    "int (sum_list (map flying ss)) \<le> MaxInt64" "\<forall>(t, held, n, m)\<in>set ss. int n \<le> MaxInt64"
  shows "(Timers_Idle f \<longleftrightarrow> (\<forall>(t, held, n, m)\<in>set ss. tm_ch t = None \<and> held = 0)) \<and>
    (f_deterministicPhases f \<longrightarrow> (DeterministicPhaseError f = None \<longleftrightarrow> (\<forall>(t, held, n, m)\<in>set ss. n = m + in_channel t)))"
proof -
  have c: "\<forall>s\<in>set ss. ticks_counted (f_deterministicPhases f) s" using assms(1) reached_counted by blast
  have "PendingTicks f = int (sum_list (map flying ss))"
    using pending_sum [OF c, of 0] assms(2,3) by (simp add: PendingTicks_def i64_id is_i64_def)
  then have "Timers_Idle f \<longleftrightarrow> (\<forall>s\<in>set ss. flying s = 0)" by (simp add: Timers_Idle_def)
  moreover have "DeterministicPhaseError f = None \<longleftrightarrow> (\<forall>s\<in>set ss. tm_dropped (fst s) = 0)" if "f_deterministicPhases f"
    using that assms(2) by (auto simp: DeterministicPhaseError_def find_None_iff)
  moreover have "(case s of (t, held, n, m) \<Rightarrow> tm_ch t = None \<and> held = 0) \<longleftrightarrow> flying s = 0" for s :: tick_state
    by (cases s) (auto simp: flying_def in_channel_def)
  moreover have "tm_dropped (fst s) = 0 \<longleftrightarrow> (case s of (t, held, n, m) \<Rightarrow> n = m + in_channel t)"
    if s: "s \<in> set ss" and det: "f_deterministicPhases f" for s
  proof -
    obtain t held n m where st: "s = (t, held, n, m)" by (cases s)
    have d: "tm_dropped t = i64 (int (n - m - in_channel t))" "m + in_channel t \<le> n" using c s det by (auto simp: st ticks_counted_def)
    moreover have "is_i64 (int (n - m - in_channel t))" using assms(4) s by (auto simp: st is_i64_def)
    ultimately show ?thesis by (auto simp: st i64_id)
  qed
  ultimately show ?thesis by (auto simp: Ball_def split: prod.splits)
qed

theorem idle_means_no_tick_in_flight_witness:
  "\<not> Timers_Idle \<lparr>f_timers = [receive (fire True 3 (blank_timer 3 1))], f_deterministicPhases = True\<rparr>"
proof -
  let ?t = "receive (fire True 3 (blank_timer 3 1))"
  have "tick_step True (blank_timer 3 1, 0, 0, 0) (fire True 3 (blank_timer 3 1), 0, 1, 0)"
    using Fires [of "blank_timer 3 1" True 0 0 0 3] by (simp add: blank_timer_def)
  moreover have "tick_step True (fire True 3 (blank_timer 3 1), 0, 1, 0) (?t, 1, 1, 1)"
    using Receives [of "fire True 3 (blank_timer 3 1)" True 0 1 0] by (simp add: blank_timer_def fire_def)
  ultimately have "reached True (?t, 1, 1, 1)" unfolding reached_def by (meson converse_rtranclp_into_rtranclp r_into_rtranclp)
  then show ?thesis
    using idle_means_no_tick_in_flight [of "[(?t, 1, 1, 1)]" "\<lparr>f_timers = [?t], f_deterministicPhases = True\<rparr>"]
    by (simp add: flying_def in_channel_def receive_def)
qed

end
