(* ===== verification/Spec2Isabelle.thy ===== *)
theory Spec2Isabelle
  imports Book_Invariant Pro_Rata Funding_Safety Request_Policy Placement_Safety Perp_Margin Liquidation_Safety Margin_Marks Future_Listing Settlement_Price Funding_Window Ev_Query Ev_Integrity Scheduler_Phases Sim_Timer
begin

text \<open>
  The core of the exchange simulator, verified.

  \<^bold>\<open>The program.\<close> A venue keeps, per instrument, a two-sided book of resting orders (\<open>book/\<close>).
  A client's request passes the request policy (\<open>ratelimit/\<close>, \<open>exchange/ratelimit.go\<close>,
  \<open>exchange/tiered_policy.go\<close>), is validated and funded (\<open>exchange/order_handling.go\<close>), matched
  against the book (\<open>matching/\<close>), settled on the accounts (\<open>exchange/settlement.go\<close>,
  \<open>exchange/spot_execution_plan.go\<close>) and rested. Accounts (\<open>exchange/client.go\<close>) hold a spot and a
  perpetual wallet with reservations and debt; the venue keeps its own buckets and a log of
  movements that an audit compares with what everyone holds (\<open>exchange/venue_ledger.go\<close>,
  \<open>exchange/conservation.go\<close>). Loans and their interest (\<open>exchange/borrowing.go\<close>,
  \<open>exchange/collateral_interest.go\<close>), positions with an exact cost basis
  (\<open>exchange/position_accounting.go\<close>, \<open>exchange/funding.go\<close>) and funding payments between
  them work on the same ledger. Perpetuals and dated futures (\<open>instrument/\<close>) trade on margin: a fill
  moves positions, margin, profit and fees; dated futures are listed from calendars, sample a settlement
  price and are settled in cash at expiry (\<open>exchange/expiry.go\<close>); an account whose equity falls below its
  maintenance requirement at the committed marks is closed by force, with the insurance fund behind it
  (\<open>exchange/liquidation.go\<close>, \<open>exchange/exchange.go\<close>). Simulated time (\<open>simulation/scheduler.go\<close>, \<open>simulation/clock.go\<close>,
  \<open>simulation/timer.go\<close>) drives all of it: events wait in a binary heap, and an advance of the clock
  fires what is due, in order, draining the work each instant causes before time moves on. What the
  venue does is recorded in an append-only binary stream of blocks with an index and a running hash
  (\<open>evstream/\<close>), which readers decode, seek and verify.

  \<^bold>\<open>Theories, in dependency order.\<close>

  \<^item> \<open>Prelude\<close>: Go's fixed-width integers as integers with explicit wrap-around
    (\<open>i64\<close>, \<open>u64\<close>, \<open>i32\<close>), truncating division, panics as \<open>None\<close>, shared lemma
    collections. \<open>Go_Map\<close>: maps with an observable set of keys as association lists.
  \<^item> \<open>Go_Math\<close> (\<open>types/math.go\<close>, \<open>types/price_domain.go\<close>): checked and 128-bit arithmetic, each
    routine identified with the mathematical quotient. \<open>Order_Types\<close>, \<open>Requests\<close>, \<open>Instruments\<close>:
    orders, executions, requests, the spot and perpetual instruments and the fee schedules.
  \<^item> \<open>Order_Book\<close>, \<open>Book_Invariant\<close> (\<open>book/book.go\<close>, \<open>book/orderbook.go\<close>): levels, queues, the ID index
    and the best pointer. The heap of linked orders is a store indexed by ID, a level's linked
    queue is the list of its IDs. The invariant, its preservation, the exact effect of
    insertion, cancellation and removal, and the depth snapshots.
  \<^item> \<open>Matching_Core\<close>, \<open>Price_Time\<close>, \<open>Pro_Rata\<close> (\<open>matching/\<close>): one execution and both matchers.
    Price-time matching terminates and refines a greedy auction (an inductive step relation),
    conserves quantity, trades only what it may, and stops only when nothing is left to trade.
    For pro-rata the allocation of a level is proved exact; the passes over a level are defined
    and not yet shown to end.
  \<^item> \<open>Client_Account\<close>, \<open>Venue_Ledger\<close>, \<open>Borrowing\<close>: wallets, the venue's buckets, transfers, isolated
    margin, loans and interest. \<open>ledger_step\<close> is the step relation of these operations; in every
    reachable ledger the audit is silent. Fills, funding, liquidation and expiry are not steps of it: their
    theorems start from any ledger that is well formed (\<open>ledger_ok\<close>) and balanced (\<open>conserved\<close>), and
    show what they keep of it.
  \<^item> \<open>Position_Accounting\<close>, \<open>Position_Manager\<close>, \<open>Funding\<close>: the exact account of a position, the store
    of positions with its reachable states (\<open>pm_step\<close>), the two-phase expiry, and the settlement of funding with the
    sweep and the manual trigger.
  \<^item> \<open>Rate_Limit\<close>, \<open>Admission\<close>, \<open>Request_Policy\<close>: the two limiters behind the interface the locale
    \<open>limiter\<close> states, the backlog behind \<open>backlog\<close>, the gate that uses both (\<open>admission_gate\<close>,
    which extends them), and the tiered policy. All three locales are interpreted on the
    definitions that model the code. The histories of the backlog record every receipt handed out and every one
    brought back (\<open>queue_run\<close>); its counters are the difference. The interface is closed to the two limiters of the
    package, and an index into their store stands for the identity of a limiter.
  \<^item> \<open>Match_Preview\<close>, \<open>Order_Admission\<close>: the dry run of a match on copied books and why it predicts
    the live one; the guards of \<open>validatePlaceOrder\<close>: a post-only order never takes, and the hedge reduce guard is
    exact until its sum wraps around (a finding).
  \<^item> \<open>Order_Funds\<close>, \<open>Spot_Plan\<close>, \<open>Spot_Settlement\<close>, \<open>Spot_Solvency\<close>: what an order locks, the preflight
    plan of its executions, their settlement, and the theorem that an accepted plan settles
    without a panic, an overdraft or a change of any asset's total.
  \<^item> \<open>Order_Placement\<close>, \<open>Placement_Safety\<close>: the whole of \<open>PlaceOrder\<close> and \<open>CancelOrder\<close> for a spot
    market, composed of the operations above. The search for a fundable plan ends, and settling
    the plan it finds is safe.
  \<^item> \<open>Perp_Settlement\<close>, \<open>Perp_Safety\<close>, \<open>Perp_Margin\<close> (\<open>instrument/perp.go\<close>, \<open>instrument/position_accounting.go\<close>,
    the margined branch of \<open>exchange/settlement.go\<close>): a fill of a perpetual or dated future. The cash of
    everyone plus the exact value of the open contracts is kept to the last lattice unit, and the margin
    of orders and positions is moved without a unit being lost or freed twice.
  \<^item> \<open>Funding_Safety\<close>: on any ledger, after fills as well, a settlement of funding makes every account pay exactly the
    funding of its own positions, or changes nothing at all; over every history of ticks, manual settlements, new marks
    and trading (\<open>funding_run\<close>) the sweep settles at most once per interval, and does so when it is due.
  \<^item> \<open>Go_Format\<close> (decimal and hexadecimal text), \<open>Expiry_Calendar\<close>, \<open>Expiry_Once\<close>, \<open>Future_Listing\<close>,
    \<open>Settlement_Price\<close> (\<open>instrument/calendar.go\<close>, \<open>listing.go\<close>, \<open>dated.go\<close>, \<open>settlement_obs.go\<close>): contract
    calendars and the lister of dated futures, which lists every contract when it is due and none twice,
    and the settlement price, the mean of an observation window, final once read.
  \<^item> \<open>Expiry_Settlement\<close>, \<open>Expiry_Safety\<close> (\<open>exchange/expiry.go\<close>): forced cancellation, preflight, cash
    settlement, rounding and delisting of an expired contract, which changes the quote total exactly by
    the value of the contracts up to the truncated fractions; without a price the contract waits.
  \<^item> \<open>Liquidation\<close>, \<open>Liquidation_Safety\<close>, \<open>Margin_Marks\<close> (\<open>exchange/liquidation.go\<close>, the risk path of
    \<open>exchange/exchange.go\<close>): the close of a position at the market, the clearance fee, the repayment and
    the cover of a deficit, the margin profile of an account, mark epochs and the check that liquidates.
    A liquidation is zero-sum, only reduces the position and leaves no negative balance; a profile is
    built from coherent marks or not at all, and its requirement is exact unless a product overflows, when the
    account cannot be found in breach (a finding). The books of a profile have a linear margin core; the branch for options is left out.
  \<^item> \<open>Funding_Calendar\<close>, \<open>Funding_Window\<close> (\<open>instrument/funding_calendar.go\<close>): scheduled funding instants and
    the rate over a complete window, exact rational arithmetic rounded half to even.
  \<^item> \<open>Go_Hash\<close>, \<open>Ev_Format\<close>, \<open>Ev_Index\<close>, \<open>Ev_Stream\<close> (\<open>evstream/\<close>): CRC-32C and SHA-256, varints and frame
    headers, the seek index, and the writer and the readers. \<open>Ev_Roundtrip\<close>: what the writer
    flushed and closed, the reader returns, event by event. \<open>Ev_Query\<close>: the indexed reader skips
    blocks and loses no matching event (except for the null venue, a finding). \<open>Ev_Integrity\<close>: a
    truncated stream is refused, the writer refines an abstract log, and the execution hash
    depends on the events alone. The locale \<open>event_dictionary\<close> states what interning strings
    promises and is interpreted on the writer's tables.
  \<^item> \<open>Go_Heap\<close> (\<open>container/heap\<close> over a weak order, the locale \<open>weak_order\<close>, interpreted on the
    scheduler's \<open>Less\<close>), \<open>Scheduler\<close>, \<open>Scheduler_Order\<close>, \<open>Scheduler_Phases\<close>, \<open>Sim_Timer\<close>: events fire in
    order of time, then of the sequence they were scheduled in; repeating events tick, cancelled
    ones never fire; an advance ends and reaches its target; time moves only after the phase
    hooks found nothing to do; a timer's channel is idle only with no tick in flight.

  \<^bold>\<open>Loops.\<close> Loops over slices are structural recursions. A loop without a syntactic bound (the
  scan of a level, whose icebergs re-enter the queue, the retry of \<open>PlaceOrder\<close>, and the clock's walk
  over due events, whose callbacks schedule more) is a \<open>partial_function (option)\<close>, so that not
  returning is \<open>None\<close>; that the price-time matcher, the retry and the walk return is part of their
  theorems. The loops over a file's frames, over index entries and along a path of the heap are
  functions with a measure. No fuel is used anywhere.

  \<^bold>\<open>Parameters.\<close> The clock, the price source of the borrowing manager, the collateral factors
  (floating point), the index and the books that price an underlying, the order in which Go ranges over a map where the code depends on it, the
  compressor of the event stream (\<open>admits\<close>: decompressing inverts compressing) and the callbacks of
  the scheduler, which are tags whose effect is the argument \<open>run\<close>; the hypotheses \<open>calls\<close> and \<open>obeys\<close>
  say that a callback acts on the scheduler through its operations only.

  \<^bold>\<open>Not modelled.\<close> Placement of orders on margined books (their validation, settlement, expiry and liquidation
  are); options, their chain lister and margin, volatility, mark calculators and price smoothing
  (floating point); funding window sources and valuation reports; gateways and market data
  (channels); the payload schemas of individual events and the text loggers; the simulation's
  runner and its latency distributions; actors, experiments, analysis and command-line tools, which are clients of the
  exchange or read its logs. Mutexes are not modelled: each exchange operation runs under one
  lock and is one step here. Object pools are not observable.
\<close>

end
